(* ===== verification/AiVM_Prelude.thy ===== *)
theory AiVM_Prelude
  imports Main "HOL-Library.Word" "HOL-Library.While_Combinator"
begin

unbundle bit_operations_syntax

text \<open>
  Shared vocabulary of the development: the C integer types the sources use, the checked
  \<^verbatim>\<open>size_t\<close> arithmetic of \<^verbatim>\<open>src/src/aivm_vm_storage.c\<close> and
  \<^verbatim>\<open>src/src/aivm_program.c\<close>, the little-endian readers, C strings, and the generic lemmas
  on lists and words the components share.

  A \<^verbatim>\<open>size_t\<close> is a \<^typ>\<open>nat\<close>; additions the source checks are written with
  the check (\<open>aivm_size_add_checked\<close>), so that every wrap-around the code guards against is a
  branch of the model. An \<^verbatim>\<open>int64_t\<close> is an \<^typ>\<open>int\<close>, and arithmetic on it
  that may leave the range (undefined behaviour in C) is option-valued. Bytes are 8-bit words.
\<close>

named_theorems codec_simps \<open>reader and writer equations of the binary formats\<close>
named_theorems vm_simps \<open>field equations of the machine operations\<close>
named_theorems vm_inv \<open>preservation lemmas of the machine invariant\<close>

type_synonym u8 = "8 word"
type_synonym u16 = "16 word"
type_synonym u32 = "32 word"
type_synonym u64 = "64 word"
type_synonym bytes = "8 word list"

section \<open>Checked size arithmetic\<close>

definition SIZE_MAX :: nat where
  "SIZE_MAX = 2 ^ 64 - 1"

definition aivm_size_add_checked :: "nat \<Rightarrow> nat \<Rightarrow> nat option" where
  "aivm_size_add_checked a b = (if a > SIZE_MAX - b then None else Some (a + b))"

definition size_mul_checked :: "nat \<Rightarrow> nat \<Rightarrow> nat option" where
  "size_mul_checked a b = (if a \<noteq> 0 \<and> b > SIZE_MAX div a then None else Some (a * b))"

definition size_sub_checked :: "nat \<Rightarrow> nat \<Rightarrow> nat option" where
  "size_sub_checked a b = (if a < b then None else Some (a - b))"

definition aivm_counter_increment_saturating :: "nat \<Rightarrow> nat" where
  "aivm_counter_increment_saturating c =
     (case aivm_size_add_checked c 1 of Some n \<Rightarrow> n | None \<Rightarrow> SIZE_MAX)"

lemma size_add_checked_Some [simp]:
  "aivm_size_add_checked a b = Some c \<longleftrightarrow> a \<le> SIZE_MAX - b \<and> c = a + b"
  by (auto simp: aivm_size_add_checked_def)

lemma size_add_checked_None [simp]:
  "aivm_size_add_checked a b = None \<longleftrightarrow> a > SIZE_MAX - b"
  by (auto simp: aivm_size_add_checked_def)

lemma size_add_checked_small [simp]:
  "a + b \<le> SIZE_MAX \<Longrightarrow> aivm_size_add_checked a b = Some (a + b)"
  by (simp add: aivm_size_add_checked_def)

lemma size_mul_checked_eq:
  "b \<le> SIZE_MAX \<Longrightarrow> size_mul_checked a b = (if a * b \<le> SIZE_MAX then Some (a * b) else None)"
  using less_eq_div_iff_mult_less_eq [of a b SIZE_MAX]
  by (cases "a = 0") (auto simp: size_mul_checked_def not_less mult.commute)

lemma counter_saturates:
  "c \<le> SIZE_MAX \<Longrightarrow> aivm_counter_increment_saturating c = min (Suc c) SIZE_MAX"
  by (auto simp: aivm_counter_increment_saturating_def aivm_size_add_checked_def SIZE_MAX_def)

section \<open>Signed 64-bit integers\<close>

definition INT64_MIN :: int where "INT64_MIN = - (2 ^ 63)"
definition INT64_MAX :: int where "INT64_MAX = 2 ^ 63 - 1"

definition in_i64 :: "int \<Rightarrow> bool" where
  "in_i64 i \<longleftrightarrow> INT64_MIN \<le> i \<and> i \<le> INT64_MAX"

text \<open>A signed operation of C: the mathematical result, or undefined behaviour (\<open>None\<close>).\<close>

definition i64_result :: "int \<Rightarrow> int option" where
  "i64_result i = (if in_i64 i then Some i else None)"

lemma i64_result_Some [simp]: "i64_result i = Some j \<longleftrightarrow> in_i64 i \<and> j = i"
  by (auto simp: i64_result_def)

lemmas i64_defs = in_i64_def INT64_MIN_def INT64_MAX_def

section \<open>Little-endian readers\<close>

definition read_u16_le :: "bytes \<Rightarrow> nat \<Rightarrow> u16" where
  "read_u16_le bs off = ucast (bs ! off) OR push_bit 8 (ucast (bs ! (off + 1)))"

definition read_u32_le :: "bytes \<Rightarrow> nat \<Rightarrow> u32" where
  "read_u32_le bs off =
     ucast (bs ! off) OR push_bit 8 (ucast (bs ! (off + 1))) OR
     push_bit 16 (ucast (bs ! (off + 2))) OR push_bit 24 (ucast (bs ! (off + 3)))"

definition read_u64_le :: "bytes \<Rightarrow> nat \<Rightarrow> u64" where
  "read_u64_le bs off =
     ucast (read_u32_le bs off) OR push_bit 32 (ucast (read_u32_le bs (off + 4)))"

definition read_i64_le :: "bytes \<Rightarrow> nat \<Rightarrow> int" where
  "read_i64_le bs off = sint (read_u64_le bs off)"

section \<open>Formatted text\<close>

text \<open>The decimal digits that \<^verbatim>\<open>%llu\<close> and \<^verbatim>\<open>%d\<close> print, and
  \<^verbatim>\<open>snprintf\<close> into a buffer of \<open>n\<close> bytes.\<close>

definition digit_char :: "nat \<Rightarrow> char" where
  "digit_char d = char_of (48 + d)"

fun format_llu :: "nat \<Rightarrow> string" where
  "format_llu n =
     (if n < 10 then [digit_char n] else format_llu (n div 10) @ [digit_char (n mod 10)])"

declare format_llu.simps [simp del]

definition snprintf :: "nat \<Rightarrow> string list \<Rightarrow> string" where
  "snprintf n parts = take (n - 1) (concat parts)"

section \<open>Lists\<close>

text \<open>The first index from \<open>i\<close> on whose element satisfies \<open>P\<close>: the search loop
  the slot tables share.\<close>

primrec find_index :: "('a \<Rightarrow> bool) \<Rightarrow> 'a list \<Rightarrow> nat option" where
  "find_index P [] = None"
| "find_index P (x # xs) = (if P x then Some 0 else map_option Suc (find_index P xs))"

lemma find_index_Some:
  "find_index P xs = Some i \<longleftrightarrow> i < length xs \<and> P (xs ! i) \<and> (\<forall>j < i. \<not> P (xs ! j))"
proof (induction xs arbitrary: i)
  case Nil
  then show ?case by simp
next
  case (Cons x xs)
  show ?case
    by (cases i) (auto simp: Cons.IH All_less_Suc2)
qed

lemma find_index_None: "find_index P xs = None \<longleftrightarrow> (\<forall>x \<in> set xs. \<not> P x)"
  by (induction xs) auto

lemma find_index_SomeD:
  assumes "find_index P xs = Some i"
  shows "i < length xs" and "P (xs ! i)"
  using assms by (simp_all add: find_index_Some)

lemma nth_split:
  assumes "i < length xs"
  shows "xs = take i xs @ xs ! i # drop (Suc i) xs" and "xs[i := y] = take i xs @ y # drop (Suc i) xs"
  using assms by (simp_all add: id_take_nth_drop [symmetric] upd_conv_take_nth_drop)

lemma list_at:
  assumes "i < length xs"
  obtains us vs where "xs = us @ xs ! i # vs" and "length us = i" and "\<And>y. xs[i := y] = us @ y # vs"
  using nth_split [OF assms] assms
  by (metis length_take less_or_eq_imp_le min.absorb2 upd_conv_take_nth_drop)

lemma find_distinct:
  "distinct (map f xs) \<Longrightarrow> x \<in> set xs \<Longrightarrow> find (\<lambda>y. f y = f x) xs = Some x"
  by (induction xs) force+

lemma find_Some_set: "find P xs = Some x \<Longrightarrow> x \<in> set xs \<and> P x"
  by (induction xs) (auto split: if_splits)

lemma nth_drop_take: "i < n \<Longrightarrow> off + n \<le> length bs \<Longrightarrow> take n (drop off bs) ! i = bs ! (off + i)"
  by simp

section \<open>Keyed stores\<close>

text \<open>Several components keep values under keys and update them through an operation that may
  fail: the machine's local slots, the string maps, the blob table. What their clients rely on is
  stated once: a successful update is read back, and updates to other keys do not disturb what
  was readable.\<close>

primrec put_all :: "('s \<Rightarrow> 'k \<Rightarrow> 'v \<Rightarrow> 's option) \<Rightarrow> 's \<Rightarrow> ('k \<times> 'v) list \<Rightarrow> 's option" where
  "put_all put s [] = Some s"
| "put_all put s (kv # kvs) =
     (case put s (fst kv) (snd kv) of None \<Rightarrow> None | Some s' \<Rightarrow> put_all put s' kvs)"

locale keyed_store =
  fixes get :: "'s \<Rightarrow> 'k \<Rightarrow> 'v option"
    and put :: "'s \<Rightarrow> 'k \<Rightarrow> 'v \<Rightarrow> 's option"
    and inv :: "'s \<Rightarrow> bool"
  assumes put_inv: "inv s \<Longrightarrow> put s k v = Some s' \<Longrightarrow> inv s'"
    and get_put_same: "inv s \<Longrightarrow> put s k v = Some s' \<Longrightarrow> get s' k = Some v"
    and get_put_kept:
      "inv s \<Longrightarrow> put s k v = Some s' \<Longrightarrow> j \<noteq> k \<Longrightarrow> get s j = Some w \<Longrightarrow> get s' j = Some w"
begin

lemma put_all_inv:
  "inv s \<Longrightarrow> put_all put s kvs = Some s' \<Longrightarrow> inv s'"
  by (induction kvs arbitrary: s) (auto split: option.splits dest: put_inv)

lemma put_all_kept:
  "inv s \<Longrightarrow> put_all put s kvs = Some s' \<Longrightarrow> j \<notin> fst ` set kvs \<Longrightarrow> get s j = Some w \<Longrightarrow>
   get s' j = Some w"
  by (induction kvs arbitrary: s) (auto split: option.splits dest: put_inv get_put_kept)

lemma put_all_last_wins:
  assumes "inv s" and "put_all put s kvs = Some s'" and "map_of (rev kvs) k = Some v"
  shows "get s' k = Some v"
  using assms
proof (induction kvs arbitrary: s)
  case Nil
  then show ?case by simp
next
  case (Cons kv kvs)
  from Cons.prems(2) obtain t where t: "put s (fst kv) (snd kv) = Some t"
    and rest: "put_all put t kvs = Some s'"
    by (auto split: option.splits)
  have inv: "inv t"
    using put_inv [OF Cons.prems(1) t] .
  show ?case
  proof (cases "map_of (rev kvs) k")
    case None
    then have fresh: "k \<notin> fst ` set kvs"
      by (simp add: map_of_eq_None_iff)
    have kv: "fst kv = k" "snd kv = v"
      using Cons.prems(3) None by (auto simp: map_add_def split: if_splits)
    from t have "put s k v = Some t"
      by (simp add: kv)
    then have "get t k = Some v"
      by (rule get_put_same [OF Cons.prems(1)])
    then show ?thesis
      using put_all_kept [OF inv rest fresh] by simp
  next
    case (Some w)
    then show ?thesis
      using Cons.IH [OF inv rest] Cons.prems(3) by (simp add: map_add_def)
  qed
qed

lemma put_all_distinct:
  assumes "inv s" and "put_all put s kvs = Some s'" and "distinct (map fst kvs)"
    and "(k, v) \<in> set kvs"
  shows "get s' k = Some v"
proof -
  have "map_of (rev kvs) k = Some v"
    using assms(3,4) by (intro map_of_is_SomeI) (simp_all add: rev_map [symmetric])
  then show ?thesis
    by (rule put_all_last_wins [OF assms(1,2)])
qed

end

section \<open>Handle tables\<close>

text \<open>Blobs, and other resources the machine hands out, live in tables: an operation creates an entry
  and names it by a handle, and the entry is read until the handle is released. The contract: a new
  handle named nothing before and reads back what was stored, a released handle names nothing, and
  neither operation disturbs another handle.\<close>

primrec create_all :: "('s \<Rightarrow> 'v \<Rightarrow> ('h \<times> 's) option) \<Rightarrow> 's \<Rightarrow> 'v list \<Rightarrow> ('h list \<times> 's) option" where
  "create_all create s [] = Some ([], s)"
| "create_all create s (v # vs) =
     (case create s v of
        None \<Rightarrow> None
      | Some hs \<Rightarrow>
          (case create_all create (snd hs) vs of
             None \<Rightarrow> None | Some r \<Rightarrow> Some (fst hs # fst r, snd r)))"

locale handle_table =
  fixes create :: "'s \<Rightarrow> 'v \<Rightarrow> ('h \<times> 's) option"
    and get :: "'s \<Rightarrow> 'h \<Rightarrow> 'v option"
    and release :: "'s \<Rightarrow> 'h \<Rightarrow> 's option"
    and inv :: "'s \<Rightarrow> bool"
  assumes create_inv: "inv s \<Longrightarrow> create s v = Some (h, s') \<Longrightarrow> inv s'"
    and create_fresh: "inv s \<Longrightarrow> create s v = Some (h, s') \<Longrightarrow> get s h = None"
    and create_get: "inv s \<Longrightarrow> create s v = Some (h, s') \<Longrightarrow>
          get s' j = (if j = h then Some v else get s j)"
    and release_inv: "inv s \<Longrightarrow> release s h = Some s' \<Longrightarrow> inv s'"
    and release_get: "inv s \<Longrightarrow> release s h = Some s' \<Longrightarrow>
          get s' j = (if j = h then None else get s j)"
begin

lemma create_all_kept:
  assumes "inv s" and "create_all create s vs = Some (hs, s')" and "get s j = Some w"
  shows "get s' j = Some w \<and> j \<notin> set hs"
  using assms
proof (induction vs arbitrary: s hs)
  case (Cons v vs)
  then obtain h t r where c: "create s v = Some (h, t)" "create_all create t vs = Some (r, s')" "hs = h # r"
    by (auto split: option.splits)
  moreover have "get t j = Some w" "j \<noteq> h"
    using create_get [OF Cons.prems(1) c(1)] create_fresh [OF Cons.prems(1) c(1)] Cons.prems(3) by auto
  ultimately show ?case
    using Cons.IH [OF create_inv [OF Cons.prems(1) c(1)] c(2)] by auto
qed simp

lemma create_all_distinct:
  assumes "inv s" and "create_all create s vs = Some (hs, s')"
  shows "inv s' \<and> distinct hs \<and> map (get s') hs = map Some vs"
  using assms
proof (induction vs arbitrary: s hs)
  case (Cons v vs)
  then obtain h t r where c: "create s v = Some (h, t)" "create_all create t vs = Some (r, s')" "hs = h # r"
    by (auto split: option.splits)
  have t: "inv t"
    by (rule create_inv [OF Cons.prems(1) c(1)])
  have "get t h = Some v"
    using create_get [OF Cons.prems(1) c(1)] by simp
  with create_all_kept [OF t c(2)] Cons.IH [OF t c(2)] c(3) show ?case
    by auto
qed simp

lemma release_then_other:
  assumes "inv s" and "create s v = Some (h, s1)" and "release s1 h = Some s2"
  shows "get s2 = get s"
  using create_get [OF assms(1,2)] release_get [OF create_inv [OF assms(1,2)] assms(3)]
    create_fresh [OF assms(1,2)]
  by auto

end

end
