(* ===== verification/Float64.thy ===== *)
theory Float64
  imports AiVM_Prelude
begin

text \<open>
  The C type \<^verbatim>\<open>double\<close> (IEEE 754 binary64, round to nearest, ties to even), as far as the
  machine uses it: conversion from and to \<^verbatim>\<open>int64_t\<close>, the four operations, comparison and the
  bit layout read by \<^verbatim>\<open>read_f64_le\<close>. A finite value is a sign, a mantissa below \<open>2\<^sup>5\<^sup>3\<close>
  and an exponent; every operation computes the exact rational result and rounds it once
  (\<open>f64_round\<close>), so all definitions are executable integer arithmetic.
\<close>

datatype f64 = F64_NaN | F64_Inf bool | F64_Fin bool nat int

fun bitlen :: "nat \<Rightarrow> nat" where
  "bitlen n = (if n = 0 then 0 else Suc (bitlen (n div 2)))"

declare bitlen.simps [simp del]

text \<open>\<open>f64_fraction n d k\<close> is \<open>(n / d) / 2\<^sup>k\<close> as a quotient of naturals.\<close>

definition f64_fraction :: "nat \<Rightarrow> nat \<Rightarrow> int \<Rightarrow> nat \<times> nat" where
  "f64_fraction n d k = (if 0 \<le> k then (n, d * 2 ^ nat k) else (n * 2 ^ nat (- k), d))"

definition f64_log2 :: "nat \<Rightarrow> nat \<Rightarrow> int" where
  "f64_log2 n d =
     (let b = int (bitlen n) - int (bitlen d); (p, q) = f64_fraction n d b
      in if q \<le> p then b else b - 1)"

definition round_half_even :: "nat \<Rightarrow> nat \<Rightarrow> nat" where
  "round_half_even p q =
     (let m = p div q; r = p mod q
      in if q < 2 * r \<or> (2 * r = q \<and> odd m) then m + 1 else m)"

text \<open>The double nearest to \<open>(-1)\<^sup>s * (n / d) * 2\<^sup>e\<close>.\<close>

definition f64_round :: "bool \<Rightarrow> nat \<Rightarrow> nat \<Rightarrow> int \<Rightarrow> f64" where
  "f64_round s n d e =
     (if n = 0 then F64_Fin s 0 (- 1074)
      else let k = max (- 1074) (f64_log2 n d + e - 52);
               (p, q) = f64_fraction n d (k - e);
               m = round_half_even p q;
               (m', k') = (if m = 2 ^ 53 then (2 ^ 52, k + 1) else (m, k))
           in if 971 < k' then F64_Inf s else F64_Fin s m' k')"

definition f64_zero :: f64 where "f64_zero = F64_Fin False 0 (- 1074)"

definition f64_of_int :: "int \<Rightarrow> f64" where
  "f64_of_int i = f64_round (i < 0) (nat \<bar>i\<bar>) 1 0"

definition f64_one :: f64 where "f64_one = f64_of_int 1"

text \<open>The numerator of a finite value over the common power \<open>2\<^sup>k\<close>, \<open>k\<close> at most its exponent.\<close>

definition f64_scaled :: "bool \<Rightarrow> nat \<Rightarrow> int \<Rightarrow> int \<Rightarrow> int" where
  "f64_scaled s m e k = (if s then - 1 else 1) * int m * 2 ^ nat (e - k)"

fun f64_eq :: "f64 \<Rightarrow> f64 \<Rightarrow> bool" where
  "f64_eq (F64_Fin s m e) (F64_Fin s' m' e') =
     (let k = min e e' in f64_scaled s m e k = f64_scaled s' m' e' k)"
| "f64_eq (F64_Inf s) (F64_Inf s') = (s = s')"
| "f64_eq _ _ = False"

fun f64_lt :: "f64 \<Rightarrow> f64 \<Rightarrow> bool" where
  "f64_lt (F64_Fin s m e) (F64_Fin s' m' e') =
     (let k = min e e' in f64_scaled s m e k < f64_scaled s' m' e' k)"
| "f64_lt (F64_Inf s) (F64_Inf s') = (s \<and> \<not> s')"
| "f64_lt (F64_Inf s) (F64_Fin _ _ _) = s"
| "f64_lt (F64_Fin _ _ _) (F64_Inf s') = (\<not> s')"
| "f64_lt _ _ = False"

fun f64_neg :: "f64 \<Rightarrow> f64" where
  "f64_neg (F64_Fin s m e) = F64_Fin (\<not> s) m e"
| "f64_neg (F64_Inf s) = F64_Inf (\<not> s)"
| "f64_neg F64_NaN = F64_NaN"

fun f64_add :: "f64 \<Rightarrow> f64 \<Rightarrow> f64" where
  "f64_add (F64_Fin s m e) (F64_Fin s' m' e') =
     (let k = min e e'; z = f64_scaled s m e k + f64_scaled s' m' e' k
      in if z = 0 then F64_Fin (s \<and> s') 0 (- 1074) else f64_round (z < 0) (nat \<bar>z\<bar>) 1 k)"
| "f64_add (F64_Inf s) (F64_Inf s') = (if s = s' then F64_Inf s else F64_NaN)"
| "f64_add (F64_Inf s) (F64_Fin _ _ _) = F64_Inf s"
| "f64_add (F64_Fin _ _ _) (F64_Inf s') = F64_Inf s'"
| "f64_add _ _ = F64_NaN"

definition f64_sub :: "f64 \<Rightarrow> f64 \<Rightarrow> f64" where
  "f64_sub x y = f64_add x (f64_neg y)"

fun f64_mul :: "f64 \<Rightarrow> f64 \<Rightarrow> f64" where
  "f64_mul (F64_Fin s m e) (F64_Fin s' m' e') = f64_round (s \<noteq> s') (m * m') 1 (e + e')"
| "f64_mul (F64_Inf s) (F64_Inf s') = F64_Inf (s \<noteq> s')"
| "f64_mul (F64_Inf s) (F64_Fin s' m' _) = (if m' = 0 then F64_NaN else F64_Inf (s \<noteq> s'))"
| "f64_mul (F64_Fin s m _) (F64_Inf s') = (if m = 0 then F64_NaN else F64_Inf (s \<noteq> s'))"
| "f64_mul _ _ = F64_NaN"

fun f64_div :: "f64 \<Rightarrow> f64 \<Rightarrow> f64" where
  "f64_div (F64_Fin s m e) (F64_Fin s' m' e') =
     (if m' = 0 then (if m = 0 then F64_NaN else F64_Inf (s \<noteq> s'))
      else f64_round (s \<noteq> s') m m' (e - e'))"
| "f64_div (F64_Inf s) (F64_Fin s' _ _) = F64_Inf (s \<noteq> s')"
| "f64_div (F64_Fin s _ _) (F64_Inf s') = F64_Fin (s \<noteq> s') 0 (- 1074)"
| "f64_div _ _ = F64_NaN"

text \<open>The cast \<^verbatim>\<open>(int64_t)x\<close>: truncation, undefined (\<open>None\<close>) for NaN, infinities and
  values whose integral part is no \<^verbatim>\<open>int64_t\<close>.\<close>

fun f64_to_i64 :: "f64 \<Rightarrow> int option" where
  "f64_to_i64 (F64_Fin s m e) =
     (let t = (if 0 \<le> e then int m * 2 ^ nat e else int m div 2 ^ nat (- e))
      in i64_result (if s then - t else t))"
| "f64_to_i64 _ = None"

definition f64_of_bits :: "u64 \<Rightarrow> f64" where
  "f64_of_bits w =
     (let s = bit w 63; x = unat (drop_bit 52 w AND 0x7FF); m = unat (take_bit 52 w)
      in if x = 2047 then (if m = 0 then F64_Inf s else F64_NaN)
         else if x = 0 then F64_Fin s m (- 1074)
         else F64_Fin s (2 ^ 52 + m) (int x - 1075))"

section \<open>Integers up to \<open>2\<^sup>5\<^sup>3\<close> convert exactly\<close>

lemma bitlen_1 [simp]: "bitlen (Suc 0) = 1"
  by (simp add: bitlen.simps)

lemma bitlen_bounds: "0 < n \<Longrightarrow> 2 ^ (bitlen n - 1) \<le> n \<and> n < 2 ^ bitlen n \<and> 0 < bitlen n"
proof (induction n rule: bitlen.induct)
  case (1 n)
  show ?case
  proof (cases "n < 2")
    case True
    with "1.prems" have "n = 1" by simp
    then show ?thesis by simp
  next
    case False
    then have "0 < n div 2" by auto
    with "1.IH" "1.prems"
    have ih: "2 ^ (bitlen (n div 2) - 1) \<le> n div 2" "n div 2 < 2 ^ bitlen (n div 2)"
      "0 < bitlen (n div 2)" by auto
    then obtain b where b: "bitlen (n div 2) = Suc b" by (cases "bitlen (n div 2)") auto
    with ih have "2 * 2 ^ b \<le> n" "n < 2 * (2 * 2 ^ b)" by auto
    then show ?thesis using "1.prems" b by (subst (1 2 3) bitlen.simps) simp
  qed
qed

lemma f64_log2_int: "0 < n \<Longrightarrow> f64_log2 n (Suc 0) = int (bitlen n) - 1"
  using bitlen_bounds [of n]
  by (auto simp: f64_log2_def f64_fraction_def Let_def nat_diff_distrib)

lemma round_half_even_1 [simp]: "round_half_even p (Suc 0) = p"
  by (simp add: round_half_even_def)

lemma f64_round_exact:
  assumes "0 < n" and "n \<le> 2 ^ 53"
  shows "\<exists>m e. f64_round s n 1 0 = F64_Fin s m e \<and>
    (e \<le> 0 \<and> m = n * 2 ^ nat (- e) \<or> e = 1 \<and> n = 2 * m)"
proof (cases "n < 2 ^ 53")
  case True
  define b where "b = bitlen n"
  have nb: "2 ^ (b - 1) \<le> n" "n < 2 ^ b" "0 < b"
    using bitlen_bounds [OF assms(1)] by (simp_all add: b_def)
  have "b \<le> 53"
  proof (rule ccontr)
    assume "\<not> b \<le> 53"
    then have "(2::nat) ^ 53 \<le> 2 ^ (b - 1)" by (intro power_increasing) auto
    with nb True show False by linarith
  qed
  have less: "n * 2 ^ (53 - b) < 2 ^ 53"
  proof -
    have "n * 2 ^ (53 - b) < 2 ^ b * 2 ^ (53 - b)" using nb by simp
    also have "\<dots> = 2 ^ 53" using \<open>b \<le> 53\<close> by (simp flip: power_add)
    finally show ?thesis .
  qed
  have k: "max (- 1074) (f64_log2 n (Suc 0) + 0 - 52) = int b - 53"
    using nb by (simp add: f64_log2_int [OF assms(1)] b_def)
  have fr: "f64_fraction n 1 (int b - 53 - 0) = (n * 2 ^ (53 - b), 1)"
    using \<open>b \<le> 53\<close> by (auto simp: f64_fraction_def nat_diff_distrib)
  have "f64_round s n 1 0 = F64_Fin s (n * 2 ^ (53 - b)) (int b - 53)"
    unfolding f64_round_def One_nat_def k using fr assms(1) less \<open>b \<le> 53\<close> by simp
  then show ?thesis using \<open>b \<le> 53\<close> by (auto simp: nat_diff_distrib)
next
  case False
  with assms have n: "n = 2 ^ 53" by simp
  have "bitlen n = 54"
  proof -
    have "2 ^ (bitlen n - 1) \<le> (2::nat) ^ 53" "(2::nat) ^ 53 < 2 ^ bitlen n" "0 < bitlen n"
      using bitlen_bounds [OF assms(1)] by (simp_all add: n)
    then have "bitlen n - 1 \<le> 53" "53 < bitlen n" by (simp_all only: power_increasing_iff power_strict_increasing_iff one_less_numeral_iff semiring_norm)
    then show ?thesis by simp
  qed
  then have "f64_round s n 1 0 = F64_Fin s (2 ^ 52) 1"
    by (simp add: f64_round_def f64_log2_int n f64_fraction_def round_half_even_def)
  then show ?thesis by (simp add: n)
qed

text \<open>\<open>f64_rep x i\<close>: the double \<open>x\<close> is exactly the integer \<open>i\<close>.\<close>

definition f64_rep :: "f64 \<Rightarrow> int \<Rightarrow> bool" where
  "f64_rep x i \<longleftrightarrow> (case x of
     F64_Fin s m e \<Rightarrow> (if s then - 1 else 1) * int m * 2 ^ nat e = i * 2 ^ nat (- e)
   | _ \<Rightarrow> False)"

lemma f64_of_int_rep: "\<bar>i\<bar> \<le> 2 ^ 53 \<Longrightarrow> f64_rep (f64_of_int i) i"
proof (cases "i = 0")
  case True
  then show ?thesis by (simp add: f64_rep_def f64_of_int_def f64_round_def)
next
  case False
  assume le: "\<bar>i\<bar> \<le> 2 ^ 53"
  have pos: "0 < nat \<bar>i\<bar>" using False by simp
  have "nat \<bar>i\<bar> \<le> 2 ^ 53" using le by (simp add: nat_le_iff)
  from f64_round_exact [OF pos this, of "i < 0"]
  obtain m e where r: "f64_of_int i = F64_Fin (i < 0) m e"
    and c: "e \<le> 0 \<and> m = nat \<bar>i\<bar> * 2 ^ nat (- e) \<or> e = 1 \<and> nat \<bar>i\<bar> = 2 * m"
    unfolding f64_of_int_def by blast
  from c have "int m * 2 ^ nat e = \<bar>i\<bar> * 2 ^ nat (- e)"
    by (auto simp: nat_eq_iff)
  then show ?thesis by (auto simp: f64_rep_def r)
qed

lemma f64_rep_scaled:
  assumes "f64_rep (F64_Fin s m e) i" and "k \<le> e"
  shows "f64_scaled s m e k * 2 ^ nat k = i * 2 ^ nat (- k)"
proof -
  define c where "c = (if s then - 1 else 1) * int m"
  have rep: "c * 2 ^ nat e = i * 2 ^ nat (- e)" using assms(1) by (simp add: f64_rep_def c_def)
  have sc: "f64_scaled s m e k = c * 2 ^ nat (e - k)" by (simp add: f64_scaled_def c_def)
  consider "0 \<le> k" | "k < 0" "0 \<le> e" | "k < 0" "e < 0" by linarith
  then show ?thesis
  proof cases
    case 1
    then have "nat (e - k) + nat k = nat e" using assms(2) by linarith
    then have "c * 2 ^ nat (e - k) * 2 ^ nat k = c * 2 ^ nat e"
      by (simp add: mult.assoc flip: power_add)
    with 1 rep assms(2) show ?thesis by (simp add: sc)
  next
    case 2
    then have "nat (e - k) = nat e + nat (- k)" by linarith
    with 2 rep show ?thesis by (simp add: sc power_add flip: mult.assoc)
  next
    case 3
    then have "nat (- e) + nat (e - k) = nat (- k)" using assms(2) by linarith
    then have "i * 2 ^ nat (- e) * 2 ^ nat (e - k) = i * 2 ^ nat (- k)"
      by (simp add: mult.assoc flip: power_add)
    with 3 rep show ?thesis by (simp add: sc)
  qed
qed

lemma f64_rep_compare:
  assumes "f64_rep x i" and "f64_rep y j"
  shows f64_rep_eq: "f64_eq x y \<longleftrightarrow> i = j" and f64_rep_lt: "f64_lt x y \<longleftrightarrow> i < j"
proof -
  from assms obtain s m e s' m' e' where xy: "x = F64_Fin s m e" "y = F64_Fin s' m' e'"
    by (auto simp: f64_rep_def split: f64.splits)
  define k where "k = min e e'"
  have pos: "(0::int) < 2 ^ nat k" "(0::int) < 2 ^ nat (- k)" by simp_all
  have 1: "f64_scaled s m e k * 2 ^ nat k = i * 2 ^ nat (- k)"
    and 2: "f64_scaled s' m' e' k * 2 ^ nat k = j * 2 ^ nat (- k)"
    using assms unfolding xy by (auto simp: k_def intro: f64_rep_scaled)
  have "f64_scaled s m e k = f64_scaled s' m' e' k \<longleftrightarrow>
      f64_scaled s m e k * 2 ^ nat k = f64_scaled s' m' e' k * 2 ^ nat k"
    using pos by simp
  also have "\<dots> \<longleftrightarrow> i = j" unfolding 1 2 using pos by simp
  finally show "f64_eq x y \<longleftrightarrow> i = j" by (simp add: xy k_def Let_def)
  have "f64_scaled s m e k < f64_scaled s' m' e' k \<longleftrightarrow>
      f64_scaled s m e k * 2 ^ nat k < f64_scaled s' m' e' k * 2 ^ nat k"
    using pos by (simp add: mult_less_cancel_right)
  also have "\<dots> \<longleftrightarrow> i < j" unfolding 1 2 using pos by (simp add: mult_less_cancel_right)
  finally show "f64_lt x y \<longleftrightarrow> i < j" by (simp add: xy k_def Let_def)
qed

lemma f64_rep_to_i64:
  assumes "f64_rep x i" and "in_i64 i"
  shows "f64_to_i64 x = Some i"
proof -
  from assms obtain s m e where x: "x = F64_Fin s m e"
    and rep: "(if s then - 1 else 1) * int m * 2 ^ nat e = i * 2 ^ nat (- e)"
    by (auto simp: f64_rep_def split: f64.splits)
  have "(if s then - t else t) = i"
    if "t = (if 0 \<le> e then int m * 2 ^ nat e else int m div 2 ^ nat (- e))" for t
  proof (cases "0 \<le> e")
    case True
    with rep that show ?thesis by (auto split: if_splits)
  next
    case False
    then have "int m = (if s then - i else i) * 2 ^ nat (- e)" using rep by (auto split: if_splits)
    then have "int m div 2 ^ nat (- e) = (if s then - i else i)" by simp
    with False that show ?thesis by auto
  qed
  with assms(2) show ?thesis by (simp add: x Let_def)
qed

end
