(* ===== verification/Values.thy ===== *)
theory Values
  imports Float64
begin

text \<open>
  Runtime values: \<^verbatim>\<open>src/src/include/aivm_types.h\<close>, \<^verbatim>\<open>src/src/aivm_types.c\<close> and
  \<^verbatim>\<open>src/src/aivm_vm_value.c\<close>. A string value holds a C pointer: null, an offset in the machine's
  string arena, or a pointer to text outside it (program constants, literals, host memory), which is
  represented by the characters it points to. A bytes value holds such a pointer and a length. The
  arenas are arguments of the operations that read through a pointer.
\<close>

datatype AivmValueType =
    AIVM_VAL_VOID | AIVM_VAL_INT | AIVM_VAL_NUMBER | AIVM_VAL_BOOL | AIVM_VAL_NULL
  | AIVM_VAL_STRING | AIVM_VAL_BYTES | AIVM_VAL_NODE | AIVM_VAL_PAIR | AIVM_VAL_UNKNOWN
  | AIVM_VAL_NODE_BUILDER | AIVM_VAL_MAP_BUILDER | AIVM_VAL_MAP | AIVM_VAL_TASK
  | AIVM_VAL_WORKER_REF | AIVM_VAL_WORKER_TASKS

text \<open>A pointer to text or bytes: null, an offset into the machine's arena, an object outside the machine, which
  its owner keeps, or a pointer into an arena that a compaction has released. The last kind is never created by
  the code: a compaction leaves such pointers in what it does not move, and reading through one is undefined.\<close>

datatype cptr = CNull | CArena nat | CExt string | CFreed

datatype bptr = BNull | BArena nat | BExt bytes | BFreed

datatype AivmValue =
    ValVoid | ValInt int | ValNumber f64 | ValBool bool | ValNull
  | ValString cptr | ValBytes bptr nat | ValNode int | ValPair int | ValUnknown
  | ValNodeBuilder int | ValMapBuilder int | ValMap int | ValTask int
  | ValWorkerRef int | ValWorkerTasks int

fun value_type :: "AivmValue \<Rightarrow> AivmValueType" where
  "value_type ValVoid = AIVM_VAL_VOID"
| "value_type (ValInt _) = AIVM_VAL_INT"
| "value_type (ValNumber _) = AIVM_VAL_NUMBER"
| "value_type (ValBool _) = AIVM_VAL_BOOL"
| "value_type ValNull = AIVM_VAL_NULL"
| "value_type (ValString _) = AIVM_VAL_STRING"
| "value_type (ValBytes _ _) = AIVM_VAL_BYTES"
| "value_type (ValNode _) = AIVM_VAL_NODE"
| "value_type (ValPair _) = AIVM_VAL_PAIR"
| "value_type ValUnknown = AIVM_VAL_UNKNOWN"
| "value_type (ValNodeBuilder _) = AIVM_VAL_NODE_BUILDER"
| "value_type (ValMapBuilder _) = AIVM_VAL_MAP_BUILDER"
| "value_type (ValMap _) = AIVM_VAL_MAP"
| "value_type (ValTask _) = AIVM_VAL_TASK"
| "value_type (ValWorkerRef _) = AIVM_VAL_WORKER_REF"
| "value_type (ValWorkerTasks _) = AIVM_VAL_WORKER_TASKS"

section \<open>Reading through pointers\<close>

definition c_string :: "string \<Rightarrow> string" where
  "c_string s = takeWhile (\<lambda>c. c \<noteq> CHR 0x00) s"

fun cptr_text :: "string \<Rightarrow> cptr \<Rightarrow> string option" where
  "cptr_text arena CNull = None"
| "cptr_text arena (CArena off) = Some (c_string (drop off arena))"
| "cptr_text arena (CExt s) = Some (c_string s)"
| "cptr_text arena CFreed = None"

fun bptr_data :: "bytes \<Rightarrow> bptr \<Rightarrow> nat \<Rightarrow> bytes option" where
  "bptr_data arena BNull len = None"
| "bptr_data arena (BArena off) len = Some (take len (drop off arena))"
| "bptr_data arena (BExt bs) len = Some (take len bs)"
| "bptr_data arena BFreed len = None"

section \<open>Equality\<close>

definition aivm_cstring_equals :: "string \<Rightarrow> cptr \<Rightarrow> cptr \<Rightarrow> bool" where
  "aivm_cstring_equals arena left right =
     (if left = right then True
      else case (cptr_text arena left, cptr_text arena right) of
        (Some l, Some r) \<Rightarrow> l = r
      | _ \<Rightarrow> False)"

fun aivm_vm_value_as_number :: "AivmValue \<Rightarrow> f64 option" where
  "aivm_vm_value_as_number (ValInt i) = Some (f64_of_int i)"
| "aivm_vm_value_as_number (ValNumber d) = Some d"
| "aivm_vm_value_as_number _ = None"

definition aivm_vm_value_is_numeric :: "AivmValue \<Rightarrow> bool" where
  "aivm_vm_value_is_numeric v \<longleftrightarrow>
     value_type v = AIVM_VAL_INT \<or> value_type v = AIVM_VAL_NUMBER"

text \<open>The switch on the common type of two operands of the same type.\<close>

definition same_type_equals :: "string \<Rightarrow> bytes \<Rightarrow> AivmValue \<Rightarrow> AivmValue \<Rightarrow> bool" where
  "same_type_equals sa ba left right =
     (case left of
        ValVoid \<Rightarrow> True
      | ValInt i \<Rightarrow> (case right of ValInt j \<Rightarrow> i = j | _ \<Rightarrow> False)
      | ValNumber x \<Rightarrow> (case right of ValNumber y \<Rightarrow> f64_eq x y | _ \<Rightarrow> False)
      | ValBool a \<Rightarrow> (case right of ValBool b \<Rightarrow> a = b | _ \<Rightarrow> False)
      | ValNull \<Rightarrow> True
      | ValString p \<Rightarrow> (case right of ValString q \<Rightarrow> aivm_cstring_equals sa p q | _ \<Rightarrow> False)
      | ValBytes p n \<Rightarrow> (case right of ValBytes q k \<Rightarrow> 
           if n \<noteq> k then False
           else if n = 0 then True
           else case (bptr_data ba p n, bptr_data ba q k) of
             (Some l, Some r) \<Rightarrow> l = r
           | _ \<Rightarrow> False | _ \<Rightarrow> False)
      | ValNode a \<Rightarrow> (case right of ValNode b \<Rightarrow> a = b | _ \<Rightarrow> False)
      | ValPair a \<Rightarrow> (case right of ValPair b \<Rightarrow> a = b | _ \<Rightarrow> False)
      | ValNodeBuilder a \<Rightarrow> (case right of ValNodeBuilder b \<Rightarrow> a = b | _ \<Rightarrow> False)
      | ValMapBuilder a \<Rightarrow> (case right of ValMapBuilder b \<Rightarrow> a = b | _ \<Rightarrow> False)
      | ValMap a \<Rightarrow> (case right of ValMap b \<Rightarrow> a = b | _ \<Rightarrow> False)
      | ValTask _ \<Rightarrow> False
      | ValWorkerRef _ \<Rightarrow> False
      | ValWorkerTasks _ \<Rightarrow> False
      | ValUnknown \<Rightarrow> True)"

definition aivm_value_equals :: "string \<Rightarrow> bytes \<Rightarrow> AivmValue \<Rightarrow> AivmValue \<Rightarrow> bool" where
  "aivm_value_equals sa ba left right =
     (case (aivm_vm_value_as_number left, aivm_vm_value_as_number right) of
        (Some x, Some y) \<Rightarrow> f64_eq x y
      | _ \<Rightarrow> if value_type left \<noteq> value_type right then False
             else same_type_equals sa ba left right)"

fun aivm_value_is_immutable_message_payload :: "AivmValue \<Rightarrow> bool" where
  "aivm_value_is_immutable_message_payload ValVoid = True"
| "aivm_value_is_immutable_message_payload (ValInt _) = True"
| "aivm_value_is_immutable_message_payload (ValNumber _) = True"
| "aivm_value_is_immutable_message_payload (ValBool _) = True"
| "aivm_value_is_immutable_message_payload ValNull = True"
| "aivm_value_is_immutable_message_payload (ValString p) = (p \<noteq> CNull)"
| "aivm_value_is_immutable_message_payload (ValBytes p n) = (n = 0 \<or> p \<noteq> BNull)"
| "aivm_value_is_immutable_message_payload _ = False"

fun aivm_vm_value_type_name :: "AivmValueType \<Rightarrow> string" where
  "aivm_vm_value_type_name AIVM_VAL_VOID = ''void''"
| "aivm_vm_value_type_name AIVM_VAL_INT = ''int''"
| "aivm_vm_value_type_name AIVM_VAL_NUMBER = ''number''"
| "aivm_vm_value_type_name AIVM_VAL_BOOL = ''bool''"
| "aivm_vm_value_type_name AIVM_VAL_NULL = ''null''"
| "aivm_vm_value_type_name AIVM_VAL_STRING = ''string''"
| "aivm_vm_value_type_name AIVM_VAL_BYTES = ''bytes''"
| "aivm_vm_value_type_name AIVM_VAL_NODE = ''node''"
| "aivm_vm_value_type_name AIVM_VAL_PAIR = ''pair''"
| "aivm_vm_value_type_name AIVM_VAL_NODE_BUILDER = ''nodeBuilder''"
| "aivm_vm_value_type_name AIVM_VAL_MAP_BUILDER = ''mapBuilder''"
| "aivm_vm_value_type_name AIVM_VAL_MAP = ''map''"
| "aivm_vm_value_type_name AIVM_VAL_TASK = ''task''"
| "aivm_vm_value_type_name AIVM_VAL_WORKER_REF = ''workerRef''"
| "aivm_vm_value_type_name AIVM_VAL_WORKER_TASKS = ''workerTasks''"
| "aivm_vm_value_type_name AIVM_VAL_UNKNOWN = ''unknown''"

section \<open>Arithmetic on numbers\<close>

text \<open>Results are option-valued: \<open>None\<close> is a cast or an integer operation C leaves undefined.\<close>

definition double_is_i64_value :: "f64 \<Rightarrow> int option option" where
  "double_is_i64_value d =
     (case f64_to_i64 d of
        None \<Rightarrow> None
      | Some t \<Rightarrow> Some (if f64_eq (f64_of_int t) d then Some t else None))"

definition aivm_vm_numeric_result :: "f64 \<Rightarrow> AivmValue option" where
  "aivm_vm_numeric_result d =
     (case double_is_i64_value d of
        None \<Rightarrow> None
      | Some (Some i) \<Rightarrow> Some (ValInt i)
      | Some None \<Rightarrow> Some (ValNumber d))"

definition aivm_vm_double_trunc_toward_zero :: "f64 \<Rightarrow> f64 option" where
  "aivm_vm_double_trunc_toward_zero d = map_option f64_of_int (f64_to_i64 d)"

primrec pow_loop :: "nat \<Rightarrow> f64 \<Rightarrow> f64 \<Rightarrow> f64" where
  "pow_loop 0 base result = result"
| "pow_loop (Suc n) base result = pow_loop n base (f64_mul result base)"

definition aivm_vm_double_pow_whole :: "f64 \<Rightarrow> f64 \<Rightarrow> f64 option" where
  "aivm_vm_double_pow_whole base exponent =
     (case f64_to_i64 exponent of
        None \<Rightarrow> None
      | Some e \<Rightarrow>
          if \<not> f64_eq (f64_of_int e) exponent then Some f64_zero
          else if e < 0 then
            (case i64_result (- e) of
               None \<Rightarrow> None
             | Some n \<Rightarrow> Some (f64_div f64_one (pow_loop (nat n) base f64_one)))
          else Some (pow_loop (nat e) base f64_one))"

section \<open>Properties\<close>

lemma f64_eq_sym: "f64_eq x y = f64_eq y x"
  by (cases x; cases y) (auto simp: Let_def min.commute)

lemma cstring_equals_sym: "aivm_cstring_equals a p q = aivm_cstring_equals a q p"
  by (auto simp: aivm_cstring_equals_def split: option.splits)

lemma cstring_equals_iff:
  "p \<noteq> CFreed \<Longrightarrow> q \<noteq> CFreed \<Longrightarrow> aivm_cstring_equals a p q \<longleftrightarrow> cptr_text a p = cptr_text a q"
  by (cases p; cases q) (auto simp: aivm_cstring_equals_def)

lemma same_type_equals_sym:
  "value_type l = value_type r \<Longrightarrow> same_type_equals sa ba l r = same_type_equals sa ba r l"
  by (cases l; cases r)
    (auto simp: same_type_equals_def f64_eq_sym cstring_equals_sym split: option.splits)

lemma value_as_number_None:
  "aivm_vm_value_as_number v = None \<longleftrightarrow> \<not> aivm_vm_value_is_numeric v"
  by (cases v) (auto simp: aivm_vm_value_is_numeric_def)

lemma numeric_result_int:
  assumes "f64_rep d i" and "\<bar>i\<bar> \<le> 2 ^ 53"
  shows "aivm_vm_numeric_result d = Some (ValInt i)"
proof -
  have "in_i64 i" using assms(2) by (auto simp: i64_defs)
  with assms(1) have "f64_to_i64 d = Some i" by (rule f64_rep_to_i64)
  moreover have "f64_eq (f64_of_int i) d"
    using f64_rep_eq [OF f64_of_int_rep [OF assms(2)] assms(1)] by simp
  ultimately show ?thesis
    by (simp add: aivm_vm_numeric_result_def double_is_i64_value_def)
qed

end
