(* ===== verification/Opcodes.thy ===== *)
theory Opcodes
  imports AiVM_Prelude
begin

text \<open>
  The instruction set of \<^verbatim>\<open>src/src/include/aivm_program.h\<close>. As in C, an opcode is the number of
  its enumerator; the enumerators are input abbreviations of these numbers, so that a dispatch
  on opcodes is decided by arithmetic on numerals.
\<close>

type_synonym AivmOpcode = nat

abbreviation (input) AIVM_OP_NOP :: AivmOpcode where "AIVM_OP_NOP \<equiv> 0"
abbreviation (input) AIVM_OP_HALT :: AivmOpcode where "AIVM_OP_HALT \<equiv> 1"
abbreviation (input) AIVM_OP_STUB :: AivmOpcode where "AIVM_OP_STUB \<equiv> 2"
abbreviation (input) AIVM_OP_PUSH_INT :: AivmOpcode where "AIVM_OP_PUSH_INT \<equiv> 3"
abbreviation (input) AIVM_OP_POP :: AivmOpcode where "AIVM_OP_POP \<equiv> 4"
abbreviation (input) AIVM_OP_STORE_LOCAL :: AivmOpcode where "AIVM_OP_STORE_LOCAL \<equiv> 5"
abbreviation (input) AIVM_OP_LOAD_LOCAL :: AivmOpcode where "AIVM_OP_LOAD_LOCAL \<equiv> 6"
abbreviation (input) AIVM_OP_ADD_INT :: AivmOpcode where "AIVM_OP_ADD_INT \<equiv> 7"
abbreviation (input) AIVM_OP_JUMP :: AivmOpcode where "AIVM_OP_JUMP \<equiv> 8"
abbreviation (input) AIVM_OP_JUMP_IF_FALSE :: AivmOpcode where "AIVM_OP_JUMP_IF_FALSE \<equiv> 9"
abbreviation (input) AIVM_OP_PUSH_BOOL :: AivmOpcode where "AIVM_OP_PUSH_BOOL \<equiv> 10"
abbreviation (input) AIVM_OP_CALL :: AivmOpcode where "AIVM_OP_CALL \<equiv> 11"
abbreviation (input) AIVM_OP_RET :: AivmOpcode where "AIVM_OP_RET \<equiv> 12"
abbreviation (input) AIVM_OP_EQ_INT :: AivmOpcode where "AIVM_OP_EQ_INT \<equiv> 13"
abbreviation (input) AIVM_OP_EQ :: AivmOpcode where "AIVM_OP_EQ \<equiv> 14"
abbreviation (input) AIVM_OP_CONST :: AivmOpcode where "AIVM_OP_CONST \<equiv> 15"
abbreviation (input) AIVM_OP_STR_CONCAT :: AivmOpcode where "AIVM_OP_STR_CONCAT \<equiv> 16"
abbreviation (input) AIVM_OP_TO_STRING :: AivmOpcode where "AIVM_OP_TO_STRING \<equiv> 17"
abbreviation (input) AIVM_OP_STR_ESCAPE :: AivmOpcode where "AIVM_OP_STR_ESCAPE \<equiv> 18"
abbreviation (input) AIVM_OP_RETURN :: AivmOpcode where "AIVM_OP_RETURN \<equiv> 19"
abbreviation (input) AIVM_OP_STR_SUBSTRING :: AivmOpcode where "AIVM_OP_STR_SUBSTRING \<equiv> 20"
abbreviation (input) AIVM_OP_STR_REMOVE :: AivmOpcode where "AIVM_OP_STR_REMOVE \<equiv> 21"
abbreviation (input) AIVM_OP_CALL_SYS :: AivmOpcode where "AIVM_OP_CALL_SYS \<equiv> 22"
abbreviation (input) AIVM_OP_ASYNC_CALL :: AivmOpcode where "AIVM_OP_ASYNC_CALL \<equiv> 23"
abbreviation (input) AIVM_OP_ASYNC_CALL_SYS :: AivmOpcode where "AIVM_OP_ASYNC_CALL_SYS \<equiv> 24"
abbreviation (input) AIVM_OP_AWAIT :: AivmOpcode where "AIVM_OP_AWAIT \<equiv> 25"
abbreviation (input) AIVM_OP_PAR_BEGIN :: AivmOpcode where "AIVM_OP_PAR_BEGIN \<equiv> 26"
abbreviation (input) AIVM_OP_PAR_FORK :: AivmOpcode where "AIVM_OP_PAR_FORK \<equiv> 27"
abbreviation (input) AIVM_OP_PAR_JOIN :: AivmOpcode where "AIVM_OP_PAR_JOIN \<equiv> 28"
abbreviation (input) AIVM_OP_PAR_CANCEL :: AivmOpcode where "AIVM_OP_PAR_CANCEL \<equiv> 29"
abbreviation (input) AIVM_OP_STR_UTF8_BYTE_COUNT :: AivmOpcode where "AIVM_OP_STR_UTF8_BYTE_COUNT \<equiv> 30"
abbreviation (input) AIVM_OP_NODE_KIND :: AivmOpcode where "AIVM_OP_NODE_KIND \<equiv> 31"
abbreviation (input) AIVM_OP_NODE_ID :: AivmOpcode where "AIVM_OP_NODE_ID \<equiv> 32"
abbreviation (input) AIVM_OP_ATTR_COUNT :: AivmOpcode where "AIVM_OP_ATTR_COUNT \<equiv> 33"
abbreviation (input) AIVM_OP_ATTR_KEY :: AivmOpcode where "AIVM_OP_ATTR_KEY \<equiv> 34"
abbreviation (input) AIVM_OP_ATTR_VALUE_KIND :: AivmOpcode where "AIVM_OP_ATTR_VALUE_KIND \<equiv> 35"
abbreviation (input) AIVM_OP_ATTR_VALUE_STRING :: AivmOpcode where "AIVM_OP_ATTR_VALUE_STRING \<equiv> 36"
abbreviation (input) AIVM_OP_ATTR_VALUE_INT :: AivmOpcode where "AIVM_OP_ATTR_VALUE_INT \<equiv> 37"
abbreviation (input) AIVM_OP_ATTR_VALUE_BOOL :: AivmOpcode where "AIVM_OP_ATTR_VALUE_BOOL \<equiv> 38"
abbreviation (input) AIVM_OP_CHILD_COUNT :: AivmOpcode where "AIVM_OP_CHILD_COUNT \<equiv> 39"
abbreviation (input) AIVM_OP_CHILD_AT :: AivmOpcode where "AIVM_OP_CHILD_AT \<equiv> 40"
abbreviation (input) AIVM_OP_MAKE_BLOCK :: AivmOpcode where "AIVM_OP_MAKE_BLOCK \<equiv> 41"
abbreviation (input) AIVM_OP_APPEND_CHILD :: AivmOpcode where "AIVM_OP_APPEND_CHILD \<equiv> 42"
abbreviation (input) AIVM_OP_MAKE_ERR :: AivmOpcode where "AIVM_OP_MAKE_ERR \<equiv> 43"
abbreviation (input) AIVM_OP_MAKE_LIT_STRING :: AivmOpcode where "AIVM_OP_MAKE_LIT_STRING \<equiv> 44"
abbreviation (input) AIVM_OP_MAKE_LIT_INT :: AivmOpcode where "AIVM_OP_MAKE_LIT_INT \<equiv> 45"
abbreviation (input) AIVM_OP_MAKE_LIT_BOOL :: AivmOpcode where "AIVM_OP_MAKE_LIT_BOOL \<equiv> 46"
abbreviation (input) AIVM_OP_MAKE_NODE :: AivmOpcode where "AIVM_OP_MAKE_NODE \<equiv> 47"
abbreviation (input) AIVM_OP_MAKE_FIELD_STRING :: AivmOpcode where "AIVM_OP_MAKE_FIELD_STRING \<equiv> 48"
abbreviation (input) AIVM_OP_MAKE_MAP :: AivmOpcode where "AIVM_OP_MAKE_MAP \<equiv> 49"
abbreviation (input) AIVM_OP_MAKE_NODE_EMPTY :: AivmOpcode where "AIVM_OP_MAKE_NODE_EMPTY \<equiv> 50"
abbreviation (input) AIVM_OP_APPEND_ATTR :: AivmOpcode where "AIVM_OP_APPEND_ATTR \<equiv> 51"
abbreviation (input) AIVM_OP_STR_FIND :: AivmOpcode where "AIVM_OP_STR_FIND \<equiv> 52"
abbreviation (input) AIVM_OP_STR_FROM_CODEPOINT :: AivmOpcode where "AIVM_OP_STR_FROM_CODEPOINT \<equiv> 53"
abbreviation (input) AIVM_OP_STR_DECODE_UNICODE_HEX4 :: AivmOpcode where "AIVM_OP_STR_DECODE_UNICODE_HEX4 \<equiv> 54"
abbreviation (input) AIVM_OP_STR_DECODE_UNICODE_SURROGATE_PAIR_HEX4 :: AivmOpcode where "AIVM_OP_STR_DECODE_UNICODE_SURROGATE_PAIR_HEX4 \<equiv> 55"
abbreviation (input) AIVM_OP_BYTES_LENGTH :: AivmOpcode where "AIVM_OP_BYTES_LENGTH \<equiv> 56"
abbreviation (input) AIVM_OP_BYTES_AT :: AivmOpcode where "AIVM_OP_BYTES_AT \<equiv> 57"
abbreviation (input) AIVM_OP_BYTES_SLICE :: AivmOpcode where "AIVM_OP_BYTES_SLICE \<equiv> 58"
abbreviation (input) AIVM_OP_BYTES_CONCAT :: AivmOpcode where "AIVM_OP_BYTES_CONCAT \<equiv> 59"
abbreviation (input) AIVM_OP_BYTES_FROM_UTF8_STRING :: AivmOpcode where "AIVM_OP_BYTES_FROM_UTF8_STRING \<equiv> 60"
abbreviation (input) AIVM_OP_BYTES_TO_UTF8_STRING :: AivmOpcode where "AIVM_OP_BYTES_TO_UTF8_STRING \<equiv> 61"
abbreviation (input) AIVM_OP_BYTES_FROM_BASE64 :: AivmOpcode where "AIVM_OP_BYTES_FROM_BASE64 \<equiv> 62"
abbreviation (input) AIVM_OP_BYTES_TO_BASE64 :: AivmOpcode where "AIVM_OP_BYTES_TO_BASE64 \<equiv> 63"
abbreviation (input) AIVM_OP_MAKE_PAIR :: AivmOpcode where "AIVM_OP_MAKE_PAIR \<equiv> 64"
abbreviation (input) AIVM_OP_PAIR_FIRST :: AivmOpcode where "AIVM_OP_PAIR_FIRST \<equiv> 65"
abbreviation (input) AIVM_OP_PAIR_SECOND :: AivmOpcode where "AIVM_OP_PAIR_SECOND \<equiv> 66"
abbreviation (input) AIVM_OP_SUB_NUM :: AivmOpcode where "AIVM_OP_SUB_NUM \<equiv> 67"
abbreviation (input) AIVM_OP_MUL_NUM :: AivmOpcode where "AIVM_OP_MUL_NUM \<equiv> 68"
abbreviation (input) AIVM_OP_DIV_NUM :: AivmOpcode where "AIVM_OP_DIV_NUM \<equiv> 69"
abbreviation (input) AIVM_OP_MOD_NUM :: AivmOpcode where "AIVM_OP_MOD_NUM \<equiv> 70"
abbreviation (input) AIVM_OP_POW_NUM :: AivmOpcode where "AIVM_OP_POW_NUM \<equiv> 71"
abbreviation (input) AIVM_OP_LT_NUM :: AivmOpcode where "AIVM_OP_LT_NUM \<equiv> 72"
abbreviation (input) AIVM_OP_BYTES_FROM_BYTE :: AivmOpcode where "AIVM_OP_BYTES_FROM_BYTE \<equiv> 73"
abbreviation (input) AIVM_OP_BYTES_U32_LE :: AivmOpcode where "AIVM_OP_BYTES_U32_LE \<equiv> 74"
abbreviation (input) AIVM_OP_BYTES_I64_LE :: AivmOpcode where "AIVM_OP_BYTES_I64_LE \<equiv> 75"
abbreviation (input) AIVM_OP_STR_SCALAR_LENGTH :: AivmOpcode where "AIVM_OP_STR_SCALAR_LENGTH \<equiv> 76"
abbreviation (input) AIVM_OP_VALUE_KIND :: AivmOpcode where "AIVM_OP_VALUE_KIND \<equiv> 77"
abbreviation (input) AIVM_OP_NODE_BUILDER_NEW :: AivmOpcode where "AIVM_OP_NODE_BUILDER_NEW \<equiv> 78"
abbreviation (input) AIVM_OP_NODE_BUILDER_APPEND_CHILD :: AivmOpcode where "AIVM_OP_NODE_BUILDER_APPEND_CHILD \<equiv> 79"
abbreviation (input) AIVM_OP_NODE_BUILDER_APPEND_ATTR :: AivmOpcode where "AIVM_OP_NODE_BUILDER_APPEND_ATTR \<equiv> 80"
abbreviation (input) AIVM_OP_NODE_BUILDER_FINISH :: AivmOpcode where "AIVM_OP_NODE_BUILDER_FINISH \<equiv> 81"
abbreviation (input) AIVM_OP_MAP_BUILDER_NEW :: AivmOpcode where "AIVM_OP_MAP_BUILDER_NEW \<equiv> 82"
abbreviation (input) AIVM_OP_MAP_BUILDER_PUT_STRING_INT :: AivmOpcode where "AIVM_OP_MAP_BUILDER_PUT_STRING_INT \<equiv> 83"
abbreviation (input) AIVM_OP_MAP_BUILDER_FINISH :: AivmOpcode where "AIVM_OP_MAP_BUILDER_FINISH \<equiv> 84"
abbreviation (input) AIVM_OP_MAP_COUNT :: AivmOpcode where "AIVM_OP_MAP_COUNT \<equiv> 85"
abbreviation (input) AIVM_OP_MAP_HAS_STRING :: AivmOpcode where "AIVM_OP_MAP_HAS_STRING \<equiv> 86"
abbreviation (input) AIVM_OP_MAP_GET_STRING_INT_OR :: AivmOpcode where "AIVM_OP_MAP_GET_STRING_INT_OR \<equiv> 87"
abbreviation (input) AIVM_OP_WORKER_REF :: AivmOpcode where "AIVM_OP_WORKER_REF \<equiv> 88"
abbreviation (input) AIVM_OP_WORKER_RUN :: AivmOpcode where "AIVM_OP_WORKER_RUN \<equiv> 89"
abbreviation (input) AIVM_OP_TASK_CANCEL :: AivmOpcode where "AIVM_OP_TASK_CANCEL \<equiv> 90"
abbreviation (input) AIVM_OP_WORKER_RUN_ALL :: AivmOpcode where "AIVM_OP_WORKER_RUN_ALL \<equiv> 91"
abbreviation (input) AIVM_OP_WORKER_TASK_AT :: AivmOpcode where "AIVM_OP_WORKER_TASK_AT \<equiv> 92"

definition AIVM_OP_MAX :: nat where
  "AIVM_OP_MAX = AIVM_OP_WORKER_TASK_AT"

record AivmInstruction =
  opcode :: AivmOpcode
  operand_int :: int

definition valid_instruction :: "AivmInstruction \<Rightarrow> bool" where
  "valid_instruction i \<longleftrightarrow> opcode i \<le> AIVM_OP_MAX \<and> in_i64 (operand_int i)"

end
