(* ===== verification/Program.thy ===== *)
theory Program
  imports Values Opcodes
begin

text \<open>
  Programs: the records of \<^verbatim>\<open>src/src/include/aivm_program.h\<close> and
  \<^verbatim>\<open>src/src/include/aivm_worker_catalog.h\<close>, and the storage operations of
  \<^verbatim>\<open>src/src/aivm_program_instructions.c\<close>, \<^verbatim>\<open>src/src/aivm_program_constants.c\<close> and
  \<^verbatim>\<open>src/src/aivm_program.c\<close>. A null instruction or constant buffer is \<open>None\<close>. Whether the host's
  allocator grants a request is the argument \<open>alloc\<close>, a function of the number of bytes.
\<close>

record AivmWorkerCatalogEntry =
  function_target :: nat
  required_capabilities :: u32
  transport_abi :: nat
  bytecode_version :: nat
  identity :: bytes
  artifact :: bytes

record AivmProgramSection =
  section_type :: nat
  section_size :: nat
  section_offset :: nat

record AivmProgram =
  instructions :: "AivmInstruction list option"
  instruction_count :: nat
  instruction_capacity :: nat
  constants :: "AivmValue list option"
  constant_count :: nat
  constant_capacity :: nat
  format_version :: nat
  format_flags :: nat
  section_count :: nat
  sections :: "AivmProgramSection list"
  string_storage :: string
  bytes_storage :: bytes
  worker_catalog :: "AivmWorkerCatalogEntry list"

definition AIVM_PROGRAM_MAX_SECTIONS :: nat where "AIVM_PROGRAM_MAX_SECTIONS = 32"
definition AIVM_PROGRAM_INLINE_INSTRUCTIONS :: nat where "AIVM_PROGRAM_INLINE_INSTRUCTIONS = 32768"
definition AIVM_PROGRAM_INLINE_CONSTANTS :: nat where "AIVM_PROGRAM_INLINE_CONSTANTS = 1024"
definition AIVM_PROGRAM_MAX_STRING_BYTES :: nat where "AIVM_PROGRAM_MAX_STRING_BYTES = 65536"
definition AIVM_PROGRAM_MAX_BYTES_STORAGE :: nat where "AIVM_PROGRAM_MAX_BYTES_STORAGE = 32768"

lemmas program_limits =
  AIVM_PROGRAM_MAX_SECTIONS_def AIVM_PROGRAM_INLINE_INSTRUCTIONS_def
  AIVM_PROGRAM_INLINE_CONSTANTS_def AIVM_PROGRAM_MAX_STRING_BYTES_def
  AIVM_PROGRAM_MAX_BYTES_STORAGE_def

datatype AivmProgramStatus =
    AIVM_PROGRAM_OK | AIVM_PROGRAM_ERR_NULL | AIVM_PROGRAM_ERR_TRUNCATED
  | AIVM_PROGRAM_ERR_BAD_MAGIC | AIVM_PROGRAM_ERR_UNSUPPORTED | AIVM_PROGRAM_ERR_SECTION_OOB
  | AIVM_PROGRAM_ERR_SECTION_LIMIT | AIVM_PROGRAM_ERR_INSTRUCTION_LIMIT
  | AIVM_PROGRAM_ERR_INVALID_SECTION | AIVM_PROGRAM_ERR_INVALID_OPCODE
  | AIVM_PROGRAM_ERR_CONSTANT_LIMIT | AIVM_PROGRAM_ERR_INVALID_CONSTANT
  | AIVM_PROGRAM_ERR_STRING_LIMIT | AIVM_PROGRAM_ERR_MEMORY | AIVM_PROGRAM_ERR_WORKER_CATALOG

fun aivm_program_status_code :: "AivmProgramStatus \<Rightarrow> string" where
  "aivm_program_status_code AIVM_PROGRAM_OK = ''AIVMP000''"
| "aivm_program_status_code AIVM_PROGRAM_ERR_NULL = ''AIVMP001''"
| "aivm_program_status_code AIVM_PROGRAM_ERR_TRUNCATED = ''AIVMP002''"
| "aivm_program_status_code AIVM_PROGRAM_ERR_BAD_MAGIC = ''AIVMP003''"
| "aivm_program_status_code AIVM_PROGRAM_ERR_UNSUPPORTED = ''AIVMP004''"
| "aivm_program_status_code AIVM_PROGRAM_ERR_SECTION_OOB = ''AIVMP005''"
| "aivm_program_status_code AIVM_PROGRAM_ERR_SECTION_LIMIT = ''AIVMP006''"
| "aivm_program_status_code AIVM_PROGRAM_ERR_INSTRUCTION_LIMIT = ''AIVMP007''"
| "aivm_program_status_code AIVM_PROGRAM_ERR_INVALID_SECTION = ''AIVMP008''"
| "aivm_program_status_code AIVM_PROGRAM_ERR_INVALID_OPCODE = ''AIVMP009''"
| "aivm_program_status_code AIVM_PROGRAM_ERR_CONSTANT_LIMIT = ''AIVMP010''"
| "aivm_program_status_code AIVM_PROGRAM_ERR_INVALID_CONSTANT = ''AIVMP011''"
| "aivm_program_status_code AIVM_PROGRAM_ERR_STRING_LIMIT = ''AIVMP012''"
| "aivm_program_status_code AIVM_PROGRAM_ERR_MEMORY = ''AIVMP013''"
| "aivm_program_status_code AIVM_PROGRAM_ERR_WORKER_CATALOG = ''AIVMP014''"

definition aivm_program_clear :: AivmProgram where
  "aivm_program_clear =
     \<lparr>instructions = None, instruction_count = 0,
      instruction_capacity = AIVM_PROGRAM_INLINE_INSTRUCTIONS,
      constants = None, constant_count = 0, constant_capacity = AIVM_PROGRAM_INLINE_CONSTANTS,
      format_version = 0, format_flags = 0, section_count = 0,
      sections = replicate AIVM_PROGRAM_MAX_SECTIONS
        \<lparr>section_type = 0, section_size = 0, section_offset = 0\<rparr>,
      string_storage = [], bytes_storage = [], worker_catalog = []\<rparr>"

definition aivm_program_init :: "AivmInstruction list option \<Rightarrow> nat \<Rightarrow> AivmProgram" where
  "aivm_program_init is n =
     aivm_program_clear\<lparr>instructions := is, instruction_count := n\<rparr>"

definition sizeof_AivmInstruction :: nat where "sizeof_AivmInstruction = 16"
definition sizeof_AivmValue :: nat where "sizeof_AivmValue = 24"

text \<open>The buffers are zeroed: the inline ones by \<open>aivm_program_clear\<close>, the others by calloc.\<close>

definition aivm_program_instructions_reserve ::
  "(nat \<Rightarrow> bool) \<Rightarrow> AivmProgram \<Rightarrow> nat \<Rightarrow> AivmProgram option" where
  "aivm_program_instructions_reserve alloc p count =
     (let zero = \<lparr>opcode = AIVM_OP_NOP, operand_int = 0\<rparr> in
      if count \<le> AIVM_PROGRAM_INLINE_INSTRUCTIONS then
        Some (p\<lparr>instructions := (if count = 0 then None else Some (replicate count zero)),
                instruction_capacity := AIVM_PROGRAM_INLINE_INSTRUCTIONS\<rparr>)
      else if count > SIZE_MAX div sizeof_AivmInstruction then None
      else if \<not> alloc (count * sizeof_AivmInstruction) then None
      else Some (p\<lparr>instructions := Some (replicate count zero), instruction_capacity := count\<rparr>))"

definition aivm_program_constants_reserve ::
  "(nat \<Rightarrow> bool) \<Rightarrow> AivmProgram \<Rightarrow> nat \<Rightarrow> AivmProgram option" where
  "aivm_program_constants_reserve alloc p count =
     (if count \<le> AIVM_PROGRAM_INLINE_CONSTANTS then
        Some (p\<lparr>constants := (if count = 0 then None else Some (replicate count ValVoid)),
                constant_capacity := AIVM_PROGRAM_INLINE_CONSTANTS\<rparr>)
      else if count > SIZE_MAX div sizeof_AivmValue then None
      else if \<not> alloc (count * sizeof_AivmValue) then None
      else Some (p\<lparr>constants := Some (replicate count ValVoid), constant_capacity := count\<rparr>))"

definition aivm_program_constants_release :: "AivmProgram \<Rightarrow> AivmProgram" where
  "aivm_program_constants_release p =
     p\<lparr>constants := None, constant_count := 0, constant_capacity := 0\<rparr>"

definition aivm_program_instructions_release :: "AivmProgram \<Rightarrow> AivmProgram" where
  "aivm_program_instructions_release p =
     p\<lparr>instructions := None, instruction_count := 0, instruction_capacity := 0\<rparr>"

definition aivm_program_release :: "AivmProgram \<Rightarrow> AivmProgram" where
  "aivm_program_release p =
     (aivm_program_instructions_release (aivm_program_constants_release p))\<lparr>worker_catalog := []\<rparr>"

text \<open>The buffers have as many entries as the counts say; what loaded programs satisfy.\<close>

definition wf_program :: "AivmProgram \<Rightarrow> bool" where
  "wf_program p \<longleftrightarrow>
     (case instructions p of None \<Rightarrow> instruction_count p = 0
      | Some is \<Rightarrow> length is = instruction_count p \<and> list_all valid_instruction is) \<and>
     (case constants p of None \<Rightarrow> constant_count p = 0
      | Some cs \<Rightarrow> length cs = constant_count p) \<and>
     section_count p \<le> AIVM_PROGRAM_MAX_SECTIONS \<and>
     length (string_storage p) \<le> AIVM_PROGRAM_MAX_STRING_BYTES \<and>
     length (bytes_storage p) \<le> AIVM_PROGRAM_MAX_BYTES_STORAGE"

end
