(* ===== verification/Syscalls.thy ===== *)
theory Syscalls
  imports Values
begin

text \<open>
  The syscall boundary: \<^verbatim>\<open>src/src/sys/aivm_syscall.c\<close> and
  \<^verbatim>\<open>src/src/sys/aivm_syscall_contracts.c\<close>. The contract table, the capability policy masks,
  contract validation and the checked dispatch. Host handlers are code outside the repository's
  core: a handler is an argument, a function from the call's arguments and the old contents of the
  result cell to the returned status number and the new contents. A null pointer is \<open>None\<close>.

  Shown here: the table's targets and identifiers are unique, so that lookups by either find each
  contract; the mask operations behave as set operations on capability groups; and a checked
  dispatch that succeeds has passed the contract, the policy and the return type check.
\<close>

section \<open>Capability groups\<close>

datatype AivmSyscallCapabilityGroup =
    AIVM_SYSCALL_CAPABILITY_NONE | AIVM_SYSCALL_CAPABILITY_CORE | AIVM_SYSCALL_CAPABILITY_CONSOLE
  | AIVM_SYSCALL_CAPABILITY_PROCESS | AIVM_SYSCALL_CAPABILITY_PLATFORM
  | AIVM_SYSCALL_CAPABILITY_TIME | AIVM_SYSCALL_CAPABILITY_FILESYSTEM
  | AIVM_SYSCALL_CAPABILITY_CRYPTO | AIVM_SYSCALL_CAPABILITY_NETWORK | AIVM_SYSCALL_CAPABILITY_UI
  | AIVM_SYSCALL_CAPABILITY_WORKER | AIVM_SYSCALL_CAPABILITY_REMOTE | AIVM_SYSCALL_CAPABILITY_HOST
  | AIVM_SYSCALL_CAPABILITY_IMAGE | AIVM_SYSCALL_CAPABILITY_STORAGE | AIVM_SYSCALL_CAPABILITY_DEBUG

text \<open>The enumerator's number, and the order it induces.\<close>

fun capability_number :: "AivmSyscallCapabilityGroup \<Rightarrow> nat" where
  "capability_number AIVM_SYSCALL_CAPABILITY_NONE = 0"
| "capability_number AIVM_SYSCALL_CAPABILITY_CORE = 1"
| "capability_number AIVM_SYSCALL_CAPABILITY_CONSOLE = 2"
| "capability_number AIVM_SYSCALL_CAPABILITY_PROCESS = 3"
| "capability_number AIVM_SYSCALL_CAPABILITY_PLATFORM = 4"
| "capability_number AIVM_SYSCALL_CAPABILITY_TIME = 5"
| "capability_number AIVM_SYSCALL_CAPABILITY_FILESYSTEM = 6"
| "capability_number AIVM_SYSCALL_CAPABILITY_CRYPTO = 7"
| "capability_number AIVM_SYSCALL_CAPABILITY_NETWORK = 8"
| "capability_number AIVM_SYSCALL_CAPABILITY_UI = 9"
| "capability_number AIVM_SYSCALL_CAPABILITY_WORKER = 10"
| "capability_number AIVM_SYSCALL_CAPABILITY_REMOTE = 11"
| "capability_number AIVM_SYSCALL_CAPABILITY_HOST = 12"
| "capability_number AIVM_SYSCALL_CAPABILITY_IMAGE = 13"
| "capability_number AIVM_SYSCALL_CAPABILITY_STORAGE = 14"
| "capability_number AIVM_SYSCALL_CAPABILITY_DEBUG = 15"

lemma capability_number_inj [simp]:
  "capability_number c = capability_number d \<longleftrightarrow> c = d"
  by (cases c; cases d; simp)

lemma capability_number_bound: "capability_number c \<le> 15"
  by (cases c) simp_all

instantiation AivmSyscallCapabilityGroup :: linorder
begin

definition less_eq_AivmSyscallCapabilityGroup ::
  "AivmSyscallCapabilityGroup \<Rightarrow> AivmSyscallCapabilityGroup \<Rightarrow> bool" where
  "less_eq_AivmSyscallCapabilityGroup c d \<longleftrightarrow> capability_number c \<le> capability_number d"

definition less_AivmSyscallCapabilityGroup ::
  "AivmSyscallCapabilityGroup \<Rightarrow> AivmSyscallCapabilityGroup \<Rightarrow> bool" where
  "less_AivmSyscallCapabilityGroup c d \<longleftrightarrow> capability_number c < capability_number d"

instance
  by standard (auto simp: less_eq_AivmSyscallCapabilityGroup_def less_AivmSyscallCapabilityGroup_def)

end

lemmas capability_order_defs =
  less_eq_AivmSyscallCapabilityGroup_def less_AivmSyscallCapabilityGroup_def

text \<open>The values the loops from CORE to DEBUG run through.\<close>

definition capability_loop :: "AivmSyscallCapabilityGroup list" where
  "capability_loop =
     [AIVM_SYSCALL_CAPABILITY_CORE, AIVM_SYSCALL_CAPABILITY_CONSOLE,
      AIVM_SYSCALL_CAPABILITY_PROCESS, AIVM_SYSCALL_CAPABILITY_PLATFORM,
      AIVM_SYSCALL_CAPABILITY_TIME, AIVM_SYSCALL_CAPABILITY_FILESYSTEM,
      AIVM_SYSCALL_CAPABILITY_CRYPTO, AIVM_SYSCALL_CAPABILITY_NETWORK, AIVM_SYSCALL_CAPABILITY_UI,
      AIVM_SYSCALL_CAPABILITY_WORKER, AIVM_SYSCALL_CAPABILITY_REMOTE, AIVM_SYSCALL_CAPABILITY_HOST,
      AIVM_SYSCALL_CAPABILITY_IMAGE, AIVM_SYSCALL_CAPABILITY_STORAGE, AIVM_SYSCALL_CAPABILITY_DEBUG]"

lemma set_capability_loop:
  "c \<in> set capability_loop \<longleftrightarrow> c \<noteq> AIVM_SYSCALL_CAPABILITY_NONE"
  by (cases c) (simp_all add: capability_loop_def)

fun aivm_syscall_capability_name :: "AivmSyscallCapabilityGroup \<Rightarrow> string" where
  "aivm_syscall_capability_name AIVM_SYSCALL_CAPABILITY_NONE = ''none''"
| "aivm_syscall_capability_name AIVM_SYSCALL_CAPABILITY_CORE = ''core''"
| "aivm_syscall_capability_name AIVM_SYSCALL_CAPABILITY_CONSOLE = ''console''"
| "aivm_syscall_capability_name AIVM_SYSCALL_CAPABILITY_PROCESS = ''process''"
| "aivm_syscall_capability_name AIVM_SYSCALL_CAPABILITY_PLATFORM = ''platform''"
| "aivm_syscall_capability_name AIVM_SYSCALL_CAPABILITY_TIME = ''time''"
| "aivm_syscall_capability_name AIVM_SYSCALL_CAPABILITY_FILESYSTEM = ''filesystem''"
| "aivm_syscall_capability_name AIVM_SYSCALL_CAPABILITY_CRYPTO = ''crypto''"
| "aivm_syscall_capability_name AIVM_SYSCALL_CAPABILITY_NETWORK = ''network''"
| "aivm_syscall_capability_name AIVM_SYSCALL_CAPABILITY_UI = ''ui''"
| "aivm_syscall_capability_name AIVM_SYSCALL_CAPABILITY_WORKER = ''worker''"
| "aivm_syscall_capability_name AIVM_SYSCALL_CAPABILITY_REMOTE = ''remote''"
| "aivm_syscall_capability_name AIVM_SYSCALL_CAPABILITY_HOST = ''host''"
| "aivm_syscall_capability_name AIVM_SYSCALL_CAPABILITY_IMAGE = ''image''"
| "aivm_syscall_capability_name AIVM_SYSCALL_CAPABILITY_STORAGE = ''storage''"
| "aivm_syscall_capability_name AIVM_SYSCALL_CAPABILITY_DEBUG = ''debug''"

definition aivm_syscall_capability_from_name ::
  "string option \<Rightarrow> AivmSyscallCapabilityGroup option" where
  "aivm_syscall_capability_from_name name =
     (case name of None \<Rightarrow> None
      | Some s \<Rightarrow> find (\<lambda>c. s = aivm_syscall_capability_name c) capability_loop)"

section \<open>Capability policy\<close>

record AivmSyscallCapabilityPolicy =
  allowed_capability_mask :: u64

definition aivm_syscall_capability_mask :: "AivmSyscallCapabilityGroup \<Rightarrow> u64" where
  "aivm_syscall_capability_mask capability =
     (if capability \<le> AIVM_SYSCALL_CAPABILITY_NONE \<or> capability > AIVM_SYSCALL_CAPABILITY_DEBUG
      then 0 else push_bit (capability_number capability) 1)"

definition aivm_syscall_policy_allow_none ::
  "AivmSyscallCapabilityPolicy \<Rightarrow> AivmSyscallCapabilityPolicy" where
  "aivm_syscall_policy_allow_none policy = policy\<lparr>allowed_capability_mask := 0\<rparr>"

definition aivm_syscall_policy_allow_group ::
  "AivmSyscallCapabilityPolicy \<Rightarrow> AivmSyscallCapabilityGroup \<Rightarrow> AivmSyscallCapabilityPolicy" where
  "aivm_syscall_policy_allow_group policy capability =
     policy\<lparr>allowed_capability_mask :=
       allowed_capability_mask policy OR aivm_syscall_capability_mask capability\<rparr>"

definition aivm_syscall_policy_deny_group ::
  "AivmSyscallCapabilityPolicy \<Rightarrow> AivmSyscallCapabilityGroup \<Rightarrow> AivmSyscallCapabilityPolicy" where
  "aivm_syscall_policy_deny_group policy capability =
     policy\<lparr>allowed_capability_mask :=
       allowed_capability_mask policy AND NOT (aivm_syscall_capability_mask capability)\<rparr>"

definition aivm_syscall_policy_allow_all ::
  "AivmSyscallCapabilityPolicy \<Rightarrow> AivmSyscallCapabilityPolicy" where
  "aivm_syscall_policy_allow_all policy =
     fold (\<lambda>capability p. p\<lparr>allowed_capability_mask :=
            allowed_capability_mask p OR aivm_syscall_capability_mask capability\<rparr>)
       capability_loop (policy\<lparr>allowed_capability_mask := 0\<rparr>)"

definition aivm_syscall_policy_allow_production_default ::
  "AivmSyscallCapabilityPolicy \<Rightarrow> AivmSyscallCapabilityPolicy" where
  "aivm_syscall_policy_allow_production_default policy =
     aivm_syscall_policy_deny_group (aivm_syscall_policy_allow_all policy)
       AIVM_SYSCALL_CAPABILITY_DEBUG"

definition aivm_syscall_policy_allows ::
  "AivmSyscallCapabilityPolicy option \<Rightarrow> AivmSyscallCapabilityGroup \<Rightarrow> bool" where
  "aivm_syscall_policy_allows policy capability =
     (let mask = aivm_syscall_capability_mask capability in
      if mask = 0 then False
      else case policy of None \<Rightarrow> True
           | Some p \<Rightarrow> allowed_capability_mask p AND mask \<noteq> 0)"

section \<open>Contracts\<close>

datatype AivmContractStatus =
    AIVM_CONTRACT_OK | AIVM_CONTRACT_ERR_UNKNOWN_TARGET | AIVM_CONTRACT_ERR_ARG_COUNT
  | AIVM_CONTRACT_ERR_ARG_TYPE | AIVM_CONTRACT_ERR_UNKNOWN_ID

record AivmSyscallContract =
  contract_id :: nat
  contract_target :: string
  contract_arg_count :: nat
  contract_arg_types :: "AivmValueType list"
  contract_return_type :: AivmValueType
  contract_capability :: AivmSyscallCapabilityGroup

text \<open>A row of the table; the array of eight argument types is padded with VOID as in the source.\<close>

definition contract ::
  "nat \<Rightarrow> string \<Rightarrow> nat \<Rightarrow> AivmValueType list \<Rightarrow> AivmValueType \<Rightarrow> AivmSyscallCapabilityGroup \<Rightarrow>
   AivmSyscallContract" where
  "contract i t n ts r c =
     \<lparr>contract_id = i, contract_target = t, contract_arg_count = n,
      contract_arg_types = take 8 (ts @ replicate 8 AIVM_VAL_VOID),
      contract_return_type = r, contract_capability = c\<rparr>"

definition Contracts :: "AivmSyscallContract list" where
  "Contracts =
     [contract 5 ''sys.net.tcp.close'' 1 [AIVM_VAL_INT] AIVM_VAL_VOID AIVM_SYSCALL_CAPABILITY_NETWORK,
      contract 6 ''sys.console.write'' 1 [AIVM_VAL_STRING] AIVM_VAL_VOID AIVM_SYSCALL_CAPABILITY_CONSOLE,
      contract 7 ''sys.console.writeLine'' 1 [AIVM_VAL_STRING] AIVM_VAL_VOID AIVM_SYSCALL_CAPABILITY_CONSOLE,
      contract 8 ''sys.console.readLine'' 0 [] AIVM_VAL_STRING AIVM_SYSCALL_CAPABILITY_CONSOLE,
      contract 9 ''sys.console.readAllStdin'' 0 [] AIVM_VAL_STRING AIVM_SYSCALL_CAPABILITY_CONSOLE,
      contract 10 ''sys.console.writeErrLine'' 1 [AIVM_VAL_STRING] AIVM_VAL_VOID AIVM_SYSCALL_CAPABILITY_CONSOLE,
      contract 16 ''sys.stdout.writeLine'' 1 [AIVM_VAL_STRING] AIVM_VAL_VOID AIVM_SYSCALL_CAPABILITY_CONSOLE,
      contract 11 ''sys.process.cwd'' 0 [] AIVM_VAL_STRING AIVM_SYSCALL_CAPABILITY_PROCESS,
      contract 12 ''sys.process.env.get'' 1 [AIVM_VAL_STRING] AIVM_VAL_STRING AIVM_SYSCALL_CAPABILITY_PROCESS,
      contract 18 ''sys.process.args'' 0 [] AIVM_VAL_NODE AIVM_SYSCALL_CAPABILITY_PROCESS,
      contract 105 ''sys.process.spawn'' 4 [AIVM_VAL_STRING, AIVM_VAL_NODE, AIVM_VAL_STRING, AIVM_VAL_NODE] AIVM_VAL_INT AIVM_SYSCALL_CAPABILITY_PROCESS,
      contract 106 ''sys.process.wait'' 1 [AIVM_VAL_INT] AIVM_VAL_INT AIVM_SYSCALL_CAPABILITY_PROCESS,
      contract 107 ''sys.process.kill'' 1 [AIVM_VAL_INT] AIVM_VAL_BOOL AIVM_SYSCALL_CAPABILITY_PROCESS,
      contract 108 ''sys.process.stdout.read'' 1 [AIVM_VAL_INT] AIVM_VAL_BYTES AIVM_SYSCALL_CAPABILITY_PROCESS,
      contract 109 ''sys.process.stderr.read'' 1 [AIVM_VAL_INT] AIVM_VAL_BYTES AIVM_SYSCALL_CAPABILITY_PROCESS,
      contract 110 ''sys.process.poll'' 1 [AIVM_VAL_INT] AIVM_VAL_INT AIVM_SYSCALL_CAPABILITY_PROCESS,
      contract 117 ''sys.remote.call'' 3 [AIVM_VAL_STRING, AIVM_VAL_STRING, AIVM_VAL_INT] AIVM_VAL_INT AIVM_SYSCALL_CAPABILITY_REMOTE,
      contract 120 ''sys.host.openDefault'' 1 [AIVM_VAL_STRING] AIVM_VAL_BOOL AIVM_SYSCALL_CAPABILITY_HOST,
      contract 121 ''sys.image.decodeToRgbaBase64'' 2 [AIVM_VAL_BYTES, AIVM_VAL_STRING] AIVM_VAL_STRING AIVM_SYSCALL_CAPABILITY_IMAGE,
      contract 28 ''sys.platform'' 0 [] AIVM_VAL_STRING AIVM_SYSCALL_CAPABILITY_PLATFORM,
      contract 29 ''sys.arch'' 0 [] AIVM_VAL_STRING AIVM_SYSCALL_CAPABILITY_PLATFORM,
      contract 30 ''sys.os.version'' 0 [] AIVM_VAL_STRING AIVM_SYSCALL_CAPABILITY_PLATFORM,
      contract 31 ''sys.runtime'' 0 [] AIVM_VAL_STRING AIVM_SYSCALL_CAPABILITY_PLATFORM,
      contract 13 ''sys.time.nowUnixMs'' 0 [] AIVM_VAL_INT AIVM_SYSCALL_CAPABILITY_TIME,
      contract 14 ''sys.time.monotonicMs'' 0 [] AIVM_VAL_INT AIVM_SYSCALL_CAPABILITY_TIME,
      contract 15 ''sys.time.sleepMs'' 1 [AIVM_VAL_INT] AIVM_VAL_VOID AIVM_SYSCALL_CAPABILITY_TIME,
      contract 122 ''sys.time.timeZoneId'' 0 [] AIVM_VAL_STRING AIVM_SYSCALL_CAPABILITY_TIME,
      contract 123 ''sys.time.timeZoneOffsetMinutesAt'' 1 [AIVM_VAL_INT] AIVM_VAL_INT AIVM_SYSCALL_CAPABILITY_TIME,
      contract 17 ''sys.process.exit'' 1 [AIVM_VAL_INT] AIVM_VAL_VOID AIVM_SYSCALL_CAPABILITY_PROCESS,
      contract 19 ''sys.fs.file.read'' 1 [AIVM_VAL_STRING] AIVM_VAL_BYTES AIVM_SYSCALL_CAPABILITY_FILESYSTEM,
      contract 20 ''sys.fs.file.exists'' 1 [AIVM_VAL_STRING] AIVM_VAL_BOOL AIVM_SYSCALL_CAPABILITY_FILESYSTEM,
      contract 21 ''sys.fs.dir.list'' 1 [AIVM_VAL_STRING] AIVM_VAL_NODE AIVM_SYSCALL_CAPABILITY_FILESYSTEM,
      contract 22 ''sys.fs.path.stat'' 1 [AIVM_VAL_STRING] AIVM_VAL_NODE AIVM_SYSCALL_CAPABILITY_FILESYSTEM,
      contract 23 ''sys.fs.path.exists'' 1 [AIVM_VAL_STRING] AIVM_VAL_BOOL AIVM_SYSCALL_CAPABILITY_FILESYSTEM,
      contract 24 ''sys.fs.file.write'' 2 [AIVM_VAL_STRING, AIVM_VAL_BYTES] AIVM_VAL_VOID AIVM_SYSCALL_CAPABILITY_FILESYSTEM,
      contract 25 ''sys.fs.dir.create'' 1 [AIVM_VAL_STRING] AIVM_VAL_VOID AIVM_SYSCALL_CAPABILITY_FILESYSTEM,
      contract 103 ''sys.fs.file.delete'' 1 [AIVM_VAL_STRING] AIVM_VAL_BOOL AIVM_SYSCALL_CAPABILITY_FILESYSTEM,
      contract 104 ''sys.fs.dir.delete'' 2 [AIVM_VAL_STRING, AIVM_VAL_BOOL] AIVM_VAL_BOOL AIVM_SYSCALL_CAPABILITY_FILESYSTEM,
      contract 124 ''sys.fs.file.openRead'' 1 [AIVM_VAL_STRING] AIVM_VAL_INT AIVM_SYSCALL_CAPABILITY_FILESYSTEM,
      contract 125 ''sys.fs.file.readChunk'' 2 [AIVM_VAL_INT, AIVM_VAL_INT] AIVM_VAL_BYTES AIVM_SYSCALL_CAPABILITY_FILESYSTEM,
      contract 126 ''sys.fs.file.close'' 1 [AIVM_VAL_INT] AIVM_VAL_BOOL AIVM_SYSCALL_CAPABILITY_FILESYSTEM,
      contract 127 ''sys.fs.file.openWrite'' 1 [AIVM_VAL_STRING] AIVM_VAL_INT AIVM_SYSCALL_CAPABILITY_FILESYSTEM,
      contract 128 ''sys.fs.file.writeChunk'' 2 [AIVM_VAL_INT, AIVM_VAL_BYTES] AIVM_VAL_INT AIVM_SYSCALL_CAPABILITY_FILESYSTEM,
      contract 42 ''sys.crypto.randomBytes'' 1 [AIVM_VAL_INT] AIVM_VAL_BYTES AIVM_SYSCALL_CAPABILITY_CRYPTO,
      contract 27 ''sys.net.tcp.connect'' 2 [AIVM_VAL_STRING, AIVM_VAL_INT] AIVM_VAL_INT AIVM_SYSCALL_CAPABILITY_NETWORK,
      contract 32 ''sys.net.tcp.listen'' 2 [AIVM_VAL_STRING, AIVM_VAL_INT] AIVM_VAL_INT AIVM_SYSCALL_CAPABILITY_NETWORK,
      contract 33 ''sys.net.tcp.listenTls'' 4 [AIVM_VAL_STRING, AIVM_VAL_INT, AIVM_VAL_STRING, AIVM_VAL_STRING] AIVM_VAL_INT AIVM_SYSCALL_CAPABILITY_NETWORK,
      contract 34 ''sys.net.tcp.accept'' 1 [AIVM_VAL_INT] AIVM_VAL_INT AIVM_SYSCALL_CAPABILITY_NETWORK,
      contract 35 ''sys.net.tcp.read'' 2 [AIVM_VAL_INT, AIVM_VAL_INT] AIVM_VAL_BYTES AIVM_SYSCALL_CAPABILITY_NETWORK,
      contract 36 ''sys.net.tcp.write'' 2 [AIVM_VAL_INT, AIVM_VAL_BYTES] AIVM_VAL_INT AIVM_SYSCALL_CAPABILITY_NETWORK,
      contract 61 ''sys.net.tcp.connectTls'' 2 [AIVM_VAL_STRING, AIVM_VAL_INT] AIVM_VAL_INT AIVM_SYSCALL_CAPABILITY_NETWORK,
      contract 62 ''sys.net.tcp.connectStart'' 2 [AIVM_VAL_STRING, AIVM_VAL_INT] AIVM_VAL_INT AIVM_SYSCALL_CAPABILITY_NETWORK,
      contract 63 ''sys.net.tcp.connectTlsStart'' 2 [AIVM_VAL_STRING, AIVM_VAL_INT] AIVM_VAL_INT AIVM_SYSCALL_CAPABILITY_NETWORK,
      contract 64 ''sys.net.tcp.readStart'' 2 [AIVM_VAL_INT, AIVM_VAL_INT] AIVM_VAL_INT AIVM_SYSCALL_CAPABILITY_NETWORK,
      contract 65 ''sys.net.tcp.writeStart'' 2 [AIVM_VAL_INT, AIVM_VAL_BYTES] AIVM_VAL_INT AIVM_SYSCALL_CAPABILITY_NETWORK,
      contract 66 ''sys.net.async.poll'' 1 [AIVM_VAL_INT] AIVM_VAL_INT AIVM_SYSCALL_CAPABILITY_NETWORK,
      contract 67 ''sys.net.async.await'' 1 [AIVM_VAL_INT] AIVM_VAL_INT AIVM_SYSCALL_CAPABILITY_NETWORK,
      contract 68 ''sys.net.async.cancel'' 1 [AIVM_VAL_INT] AIVM_VAL_BOOL AIVM_SYSCALL_CAPABILITY_NETWORK,
      contract 69 ''sys.net.async.resultInt'' 1 [AIVM_VAL_INT] AIVM_VAL_INT AIVM_SYSCALL_CAPABILITY_NETWORK,
      contract 70 ''sys.net.async.resultBytes'' 1 [AIVM_VAL_INT] AIVM_VAL_BYTES AIVM_SYSCALL_CAPABILITY_NETWORK,
      contract 71 ''sys.net.async.error'' 1 [AIVM_VAL_INT] AIVM_VAL_STRING AIVM_SYSCALL_CAPABILITY_NETWORK,
      contract 43 ''sys.net.udp.bind'' 2 [AIVM_VAL_STRING, AIVM_VAL_INT] AIVM_VAL_INT AIVM_SYSCALL_CAPABILITY_NETWORK,
      contract 44 ''sys.net.udp.recv'' 2 [AIVM_VAL_INT, AIVM_VAL_INT] AIVM_VAL_NODE AIVM_SYSCALL_CAPABILITY_NETWORK,
      contract 45 ''sys.net.udp.send'' 4 [AIVM_VAL_INT, AIVM_VAL_STRING, AIVM_VAL_INT, AIVM_VAL_BYTES] AIVM_VAL_INT AIVM_SYSCALL_CAPABILITY_NETWORK,
      contract 46 ''sys.ui.createWindow'' 3 [AIVM_VAL_STRING, AIVM_VAL_INT, AIVM_VAL_INT] AIVM_VAL_INT AIVM_SYSCALL_CAPABILITY_UI,
      contract 47 ''sys.ui.beginFrame'' 1 [AIVM_VAL_INT] AIVM_VAL_VOID AIVM_SYSCALL_CAPABILITY_UI,
      contract 48 ''sys.ui.drawRect'' 6 [AIVM_VAL_INT, AIVM_VAL_INT, AIVM_VAL_INT, AIVM_VAL_INT, AIVM_VAL_INT, AIVM_VAL_STRING] AIVM_VAL_VOID AIVM_SYSCALL_CAPABILITY_UI,
      contract 49 ''sys.ui.drawText'' 6 [AIVM_VAL_INT, AIVM_VAL_INT, AIVM_VAL_INT, AIVM_VAL_STRING, AIVM_VAL_STRING, AIVM_VAL_INT] AIVM_VAL_VOID AIVM_SYSCALL_CAPABILITY_UI,
      contract 50 ''sys.ui.endFrame'' 1 [AIVM_VAL_INT] AIVM_VAL_VOID AIVM_SYSCALL_CAPABILITY_UI,
      contract 51 ''sys.ui.pollEvent'' 1 [AIVM_VAL_INT] AIVM_VAL_NODE AIVM_SYSCALL_CAPABILITY_UI,
      contract 52 ''sys.ui.present'' 1 [AIVM_VAL_INT] AIVM_VAL_VOID AIVM_SYSCALL_CAPABILITY_UI,
      contract 53 ''sys.ui.closeWindow'' 1 [AIVM_VAL_INT] AIVM_VAL_VOID AIVM_SYSCALL_CAPABILITY_UI,
      contract 54 ''sys.ui.drawLine'' 7 [AIVM_VAL_INT, AIVM_VAL_INT, AIVM_VAL_INT, AIVM_VAL_INT, AIVM_VAL_INT, AIVM_VAL_STRING, AIVM_VAL_INT] AIVM_VAL_VOID AIVM_SYSCALL_CAPABILITY_UI,
      contract 55 ''sys.ui.drawEllipse'' 6 [AIVM_VAL_INT, AIVM_VAL_INT, AIVM_VAL_INT, AIVM_VAL_INT, AIVM_VAL_INT, AIVM_VAL_STRING] AIVM_VAL_VOID AIVM_SYSCALL_CAPABILITY_UI,
      contract 56 ''sys.ui.drawPath'' 5 [AIVM_VAL_INT, AIVM_VAL_STRING, AIVM_VAL_STRING, AIVM_VAL_STRING, AIVM_VAL_INT] AIVM_VAL_VOID AIVM_SYSCALL_CAPABILITY_UI,
      contract 57 ''sys.ui.drawImage'' 6 [AIVM_VAL_INT, AIVM_VAL_INT, AIVM_VAL_INT, AIVM_VAL_INT, AIVM_VAL_INT, AIVM_VAL_STRING] AIVM_VAL_VOID AIVM_SYSCALL_CAPABILITY_UI,
      contract 58 ''sys.ui.getWindowSize'' 1 [AIVM_VAL_INT] AIVM_VAL_NODE AIVM_SYSCALL_CAPABILITY_UI,
      contract 130 ''sys.runtime.platform'' 0 [] AIVM_VAL_STRING AIVM_SYSCALL_CAPABILITY_PLATFORM,
      contract 131 ''sys.runtime.target'' 0 [] AIVM_VAL_STRING AIVM_SYSCALL_CAPABILITY_PLATFORM,
      contract 132 ''sys.storage.local.available'' 0 [] AIVM_VAL_BOOL AIVM_SYSCALL_CAPABILITY_STORAGE,
      contract 133 ''sys.storage.local.get'' 2 [AIVM_VAL_STRING, AIVM_VAL_STRING] AIVM_VAL_STRING AIVM_SYSCALL_CAPABILITY_STORAGE,
      contract 134 ''sys.storage.local.set'' 3 [AIVM_VAL_STRING, AIVM_VAL_STRING, AIVM_VAL_STRING] AIVM_VAL_BOOL AIVM_SYSCALL_CAPABILITY_STORAGE,
      contract 135 ''sys.storage.local.delete'' 2 [AIVM_VAL_STRING, AIVM_VAL_STRING] AIVM_VAL_BOOL AIVM_SYSCALL_CAPABILITY_STORAGE,
      contract 136 ''sys.storage.local.exists'' 2 [AIVM_VAL_STRING, AIVM_VAL_STRING] AIVM_VAL_BOOL AIVM_SYSCALL_CAPABILITY_STORAGE,
      contract 137 ''sys.storage.secure.available'' 0 [] AIVM_VAL_BOOL AIVM_SYSCALL_CAPABILITY_STORAGE,
      contract 138 ''sys.storage.secure.get'' 2 [AIVM_VAL_STRING, AIVM_VAL_STRING] AIVM_VAL_STRING AIVM_SYSCALL_CAPABILITY_STORAGE,
      contract 139 ''sys.storage.secure.set'' 3 [AIVM_VAL_STRING, AIVM_VAL_STRING, AIVM_VAL_STRING] AIVM_VAL_BOOL AIVM_SYSCALL_CAPABILITY_STORAGE,
      contract 140 ''sys.storage.secure.delete'' 2 [AIVM_VAL_STRING, AIVM_VAL_STRING] AIVM_VAL_BOOL AIVM_SYSCALL_CAPABILITY_STORAGE,
      contract 141 ''sys.storage.secure.exists'' 2 [AIVM_VAL_STRING, AIVM_VAL_STRING] AIVM_VAL_BOOL AIVM_SYSCALL_CAPABILITY_STORAGE,
      contract 142 ''sys.ui.pushClipPath'' 2 [AIVM_VAL_INT, AIVM_VAL_STRING] AIVM_VAL_VOID AIVM_SYSCALL_CAPABILITY_UI,
      contract 143 ''sys.ui.popClipPath'' 1 [AIVM_VAL_INT] AIVM_VAL_VOID AIVM_SYSCALL_CAPABILITY_UI,
      contract 129 ''sys.ui.measureText'' 3 [AIVM_VAL_INT, AIVM_VAL_STRING, AIVM_VAL_INT] AIVM_VAL_INT AIVM_SYSCALL_CAPABILITY_UI,
      contract 72 ''sys.ui.waitFrame'' 1 [AIVM_VAL_INT] AIVM_VAL_VOID AIVM_SYSCALL_CAPABILITY_UI,
      contract 78 ''sys.debug.emit'' 2 [AIVM_VAL_STRING, AIVM_VAL_STRING] AIVM_VAL_VOID AIVM_SYSCALL_CAPABILITY_DEBUG,
      contract 79 ''sys.debug.mode'' 0 [] AIVM_VAL_STRING AIVM_SYSCALL_CAPABILITY_DEBUG,
      contract 80 ''sys.debug.captureFrameBegin'' 3 [AIVM_VAL_INT, AIVM_VAL_INT, AIVM_VAL_INT] AIVM_VAL_VOID AIVM_SYSCALL_CAPABILITY_DEBUG,
      contract 81 ''sys.debug.captureFrameEnd'' 1 [AIVM_VAL_INT] AIVM_VAL_VOID AIVM_SYSCALL_CAPABILITY_DEBUG,
      contract 82 ''sys.debug.captureDraw'' 2 [AIVM_VAL_STRING, AIVM_VAL_STRING] AIVM_VAL_VOID AIVM_SYSCALL_CAPABILITY_DEBUG,
      contract 83 ''sys.debug.captureInput'' 1 [AIVM_VAL_STRING] AIVM_VAL_VOID AIVM_SYSCALL_CAPABILITY_DEBUG,
      contract 84 ''sys.debug.captureState'' 2 [AIVM_VAL_STRING, AIVM_VAL_STRING] AIVM_VAL_VOID AIVM_SYSCALL_CAPABILITY_DEBUG,
      contract 85 ''sys.debug.replayLoad'' 1 [AIVM_VAL_STRING] AIVM_VAL_INT AIVM_SYSCALL_CAPABILITY_DEBUG,
      contract 86 ''sys.debug.replayNext'' 1 [AIVM_VAL_INT] AIVM_VAL_STRING AIVM_SYSCALL_CAPABILITY_DEBUG,
      contract 87 ''sys.debug.assert'' 3 [AIVM_VAL_BOOL, AIVM_VAL_STRING, AIVM_VAL_STRING] AIVM_VAL_VOID AIVM_SYSCALL_CAPABILITY_DEBUG,
      contract 88 ''sys.debug.artifactWrite'' 2 [AIVM_VAL_STRING, AIVM_VAL_STRING] AIVM_VAL_BOOL AIVM_SYSCALL_CAPABILITY_DEBUG,
      contract 89 ''sys.debug.traceAsync'' 3 [AIVM_VAL_INT, AIVM_VAL_STRING, AIVM_VAL_STRING] AIVM_VAL_VOID AIVM_SYSCALL_CAPABILITY_DEBUG,
      contract 115 ''sys.debug.taskReclaimStats'' 0 [] AIVM_VAL_NODE AIVM_SYSCALL_CAPABILITY_DEBUG]"

definition validate_contract ::
  "AivmSyscallContract \<Rightarrow> AivmValue list option \<Rightarrow> nat \<Rightarrow> AivmContractStatus \<times> AivmValueType" where
  "validate_contract c args arg_count =
     (if contract_arg_count c \<noteq> arg_count then (AIVM_CONTRACT_ERR_ARG_COUNT, AIVM_VAL_VOID)
      else if list_ex (\<lambda>arg_index.
             (case args of None \<Rightarrow> True
              | Some a \<Rightarrow> value_type (a ! arg_index) \<noteq> contract_arg_types c ! arg_index))
             [0..<arg_count]
      then (AIVM_CONTRACT_ERR_ARG_TYPE, AIVM_VAL_VOID)
      else (AIVM_CONTRACT_OK, contract_return_type c))"

definition aivm_syscall_contract_find_by_target :: "string option \<Rightarrow> AivmSyscallContract option" where
  "aivm_syscall_contract_find_by_target target =
     (case target of None \<Rightarrow> None
      | Some t \<Rightarrow> find (\<lambda>c. contract_target c = t) Contracts)"

definition aivm_syscall_contract_find_by_id :: "nat \<Rightarrow> AivmSyscallContract option" where
  "aivm_syscall_contract_find_by_id i = find (\<lambda>c. contract_id c = i) Contracts"

definition aivm_syscall_contract_capability :: "string option \<Rightarrow> AivmSyscallCapabilityGroup" where
  "aivm_syscall_contract_capability target =
     (case aivm_syscall_contract_find_by_target target of
        None \<Rightarrow> AIVM_SYSCALL_CAPABILITY_NONE
      | Some c \<Rightarrow> contract_capability c)"

definition aivm_syscall_contract_is_debug_target :: "string option \<Rightarrow> bool" where
  "aivm_syscall_contract_is_debug_target target \<longleftrightarrow>
     aivm_syscall_contract_capability target = AIVM_SYSCALL_CAPABILITY_DEBUG"

definition aivm_syscall_contract_should_bind_in_production :: "string option \<Rightarrow> bool" where
  "aivm_syscall_contract_should_bind_in_production target \<longleftrightarrow>
     aivm_syscall_contract_capability target \<noteq> AIVM_SYSCALL_CAPABILITY_NONE \<and>
     aivm_syscall_contract_capability target \<noteq> AIVM_SYSCALL_CAPABILITY_DEBUG"

text \<open>The last component is what the return-type cell holds afterwards; an unknown target leaves
  the cell as it was.\<close>

definition aivm_syscall_contract_validate ::
  "string option \<Rightarrow> AivmValue list option \<Rightarrow> nat \<Rightarrow> AivmValueType \<Rightarrow>
   AivmContractStatus \<times> AivmValueType" where
  "aivm_syscall_contract_validate target args arg_count return_type =
     (case aivm_syscall_contract_find_by_target target of
        None \<Rightarrow> (AIVM_CONTRACT_ERR_UNKNOWN_TARGET, return_type)
      | Some c \<Rightarrow> validate_contract c args arg_count)"

definition aivm_syscall_contract_validate_id ::
  "nat \<Rightarrow> AivmValue list option \<Rightarrow> nat \<Rightarrow> AivmContractStatus \<times> AivmValueType" where
  "aivm_syscall_contract_validate_id i args arg_count =
     (case aivm_syscall_contract_find_by_id i of
        None \<Rightarrow> (AIVM_CONTRACT_ERR_UNKNOWN_ID, AIVM_VAL_VOID)
      | Some c \<Rightarrow> validate_contract c args arg_count)"

fun aivm_contract_status_code :: "AivmContractStatus \<Rightarrow> string" where
  "aivm_contract_status_code AIVM_CONTRACT_OK = ''AIVMC000''"
| "aivm_contract_status_code AIVM_CONTRACT_ERR_UNKNOWN_TARGET = ''AIVMC001''"
| "aivm_contract_status_code AIVM_CONTRACT_ERR_ARG_COUNT = ''AIVMC002''"
| "aivm_contract_status_code AIVM_CONTRACT_ERR_ARG_TYPE = ''AIVMC003''"
| "aivm_contract_status_code AIVM_CONTRACT_ERR_UNKNOWN_ID = ''AIVMC004''"

section \<open>Dispatch\<close>

datatype AivmSyscallStatus =
    AIVM_SYSCALL_OK | AIVM_SYSCALL_ERR_INVALID | AIVM_SYSCALL_ERR_NULL_RESULT
  | AIVM_SYSCALL_ERR_NOT_FOUND | AIVM_SYSCALL_ERR_CONTRACT | AIVM_SYSCALL_ERR_RETURN_TYPE
  | AIVM_SYSCALL_ERR_UNBOUND | AIVM_SYSCALL_ERR_RESOURCE_LIMIT
  | AIVM_SYSCALL_ERR_CAPABILITY_DENIED | SYSCALL_STATUS_OTHER int

text \<open>The cast of a handler's int to the status enumeration.\<close>

definition syscall_status_of_int :: "int \<Rightarrow> AivmSyscallStatus" where
  "syscall_status_of_int n =
     (if n = 0 then AIVM_SYSCALL_OK
      else if n = -1 then AIVM_SYSCALL_ERR_INVALID
      else if n = -2 then AIVM_SYSCALL_ERR_NULL_RESULT
      else if n = -3 then AIVM_SYSCALL_ERR_NOT_FOUND
      else if n = -4 then AIVM_SYSCALL_ERR_CONTRACT
      else if n = -5 then AIVM_SYSCALL_ERR_RETURN_TYPE
      else if n = -6 then AIVM_SYSCALL_ERR_UNBOUND
      else if n = -7 then AIVM_SYSCALL_ERR_RESOURCE_LIMIT
      else if n = -8 then AIVM_SYSCALL_ERR_CAPABILITY_DENIED
      else SYSCALL_STATUS_OTHER n)"

fun aivm_syscall_status_code :: "AivmSyscallStatus \<Rightarrow> string" where
  "aivm_syscall_status_code AIVM_SYSCALL_OK = ''AIVMS000''"
| "aivm_syscall_status_code AIVM_SYSCALL_ERR_INVALID = ''AIVMS001''"
| "aivm_syscall_status_code AIVM_SYSCALL_ERR_NULL_RESULT = ''AIVMS002''"
| "aivm_syscall_status_code AIVM_SYSCALL_ERR_NOT_FOUND = ''AIVMS003''"
| "aivm_syscall_status_code AIVM_SYSCALL_ERR_CONTRACT = ''AIVMS004''"
| "aivm_syscall_status_code AIVM_SYSCALL_ERR_RETURN_TYPE = ''AIVMS005''"
| "aivm_syscall_status_code AIVM_SYSCALL_ERR_UNBOUND = ''AIVMS006''"
| "aivm_syscall_status_code AIVM_SYSCALL_ERR_RESOURCE_LIMIT = ''AIVMS007''"
| "aivm_syscall_status_code AIVM_SYSCALL_ERR_CAPABILITY_DENIED = ''AIVMS008''"
| "aivm_syscall_status_code (SYSCALL_STATUS_OTHER n) = ''AIVMS999''"

type_synonym AivmSyscallHandler =
  "string \<Rightarrow> AivmValue list option \<Rightarrow> nat \<Rightarrow> AivmValue \<Rightarrow> int \<times> AivmValue"

record AivmSyscallBinding =
  binding_target :: "string option"
  binding_handler :: "AivmSyscallHandler option"

text \<open>The result cell is \<open>None\<close> for a null result pointer.\<close>

definition aivm_syscall_invoke ::
  "AivmSyscallHandler option \<Rightarrow> string option \<Rightarrow> AivmValue list option \<Rightarrow> nat \<Rightarrow>
   AivmValue option \<Rightarrow> AivmSyscallStatus \<times> AivmValue option" where
  "aivm_syscall_invoke handler target args arg_count result =
     (case result of
        None \<Rightarrow> (AIVM_SYSCALL_ERR_NULL_RESULT, None)
      | Some old \<Rightarrow>
          (case (handler, target) of
             (Some h, Some t) \<Rightarrow>
               (let (n, new) = h t args arg_count old in (syscall_status_of_int n, Some new))
           | _ \<Rightarrow> (AIVM_SYSCALL_ERR_INVALID, Some ValVoid)))"

text \<open>The search loop over the bindings: entries with a null target or handler are skipped.\<close>

fun dispatch_loop ::
  "AivmSyscallBinding list \<Rightarrow> string \<Rightarrow> AivmValue list option \<Rightarrow> nat \<Rightarrow>
   AivmValue \<Rightarrow> AivmSyscallStatus \<times> AivmValue option" where
  "dispatch_loop [] target args arg_count result = (AIVM_SYSCALL_ERR_NOT_FOUND, Some ValVoid)"
| "dispatch_loop (b # bs) target args arg_count result =
     (if Option.is_none (binding_target b) \<or> Option.is_none (binding_handler b) then
        dispatch_loop bs target args arg_count result
      else if binding_target b = Some target then
        aivm_syscall_invoke (binding_handler b) (Some target) args arg_count (Some result)
      else dispatch_loop bs target args arg_count result)"

definition aivm_syscall_dispatch ::
  "AivmSyscallBinding list option \<Rightarrow> string option \<Rightarrow> AivmValue list option \<Rightarrow> nat \<Rightarrow>
   AivmValue option \<Rightarrow> AivmSyscallStatus \<times> AivmValue option" where
  "aivm_syscall_dispatch bindings target args arg_count result =
     (case result of
        None \<Rightarrow> (AIVM_SYSCALL_ERR_NULL_RESULT, None)
      | Some old \<Rightarrow>
          (case (bindings, target) of
             (Some bs, Some t) \<Rightarrow> dispatch_loop bs t args arg_count old
           | _ \<Rightarrow> (AIVM_SYSCALL_ERR_INVALID, Some ValVoid)))"

definition aivm_syscall_dispatch_checked_with_policy ::
  "AivmSyscallBinding list option \<Rightarrow> AivmSyscallCapabilityPolicy option \<Rightarrow> string option \<Rightarrow>
   AivmValue list option \<Rightarrow> nat \<Rightarrow> AivmValue option \<Rightarrow>
   AivmSyscallStatus \<times> AivmValue option \<times> AivmContractStatus" where
  "aivm_syscall_dispatch_checked_with_policy bindings policy target args arg_count result =
     (if result = None then (AIVM_SYSCALL_ERR_NULL_RESULT, None, AIVM_CONTRACT_OK)
      else
        let (contract_status, expected_return_type) =
              aivm_syscall_contract_validate target args arg_count AIVM_VAL_VOID
        in
        if contract_status \<noteq> AIVM_CONTRACT_OK
        then (AIVM_SYSCALL_ERR_CONTRACT, Some ValVoid, contract_status)
        else if \<not> aivm_syscall_policy_allows policy (aivm_syscall_contract_capability target)
        then (AIVM_SYSCALL_ERR_CAPABILITY_DENIED, Some ValVoid, AIVM_CONTRACT_OK)
        else if (case bindings of None \<Rightarrow> True | Some bs \<Rightarrow> List.null bs)
        then (AIVM_SYSCALL_ERR_UNBOUND, Some ValVoid, AIVM_CONTRACT_OK)
        else
          let (invoke_status, new) = aivm_syscall_dispatch bindings target args arg_count result in
          if invoke_status = AIVM_SYSCALL_ERR_NOT_FOUND
          then (AIVM_SYSCALL_ERR_UNBOUND, new, AIVM_CONTRACT_OK)
          else if invoke_status \<noteq> AIVM_SYSCALL_OK
          then (invoke_status, new, AIVM_CONTRACT_OK)
          else if map_option value_type new \<noteq> Some expected_return_type
          then (AIVM_SYSCALL_ERR_RETURN_TYPE, Some ValVoid, AIVM_CONTRACT_OK)
          else (AIVM_SYSCALL_OK, new, AIVM_CONTRACT_OK))"

definition aivm_syscall_dispatch_checked_with_contract ::
  "AivmSyscallBinding list option \<Rightarrow> string option \<Rightarrow>
   AivmValue list option \<Rightarrow> nat \<Rightarrow> AivmValue option \<Rightarrow>
   AivmSyscallStatus \<times> AivmValue option \<times> AivmContractStatus" where
  "aivm_syscall_dispatch_checked_with_contract bindings target args arg_count result =
     aivm_syscall_dispatch_checked_with_policy bindings None target args arg_count result"

definition aivm_syscall_dispatch_checked ::
  "AivmSyscallBinding list option \<Rightarrow> string option \<Rightarrow>
   AivmValue list option \<Rightarrow> nat \<Rightarrow> AivmValue option \<Rightarrow>
   AivmSyscallStatus \<times> AivmValue option" where
  "aivm_syscall_dispatch_checked bindings target args arg_count result =
     (case aivm_syscall_dispatch_checked_with_contract bindings target args arg_count result of
        (status, new, contract_status) \<Rightarrow> (status, new))"

lemma validate_contract_OK:
  "validate_contract c args n = (AIVM_CONTRACT_OK, t) \<longleftrightarrow>
     contract_arg_count c = n \<and> t = contract_return_type c \<and>
     (\<forall>i < n. \<exists>a. args = Some a \<and> value_type (a ! i) = contract_arg_types c ! i)"
  by (auto simp: validate_contract_def list_ex_iff list_all_iff split: option.splits)

section \<open>Facts about the table and the masks\<close>

lemma targets_distinct: "distinct (map contract_target Contracts)"
  by code_simp

lemma ids_distinct: "distinct (map contract_id Contracts)"
  by code_simp

lemma capability_mask_eq:
  "aivm_syscall_capability_mask c =
     (if c = AIVM_SYSCALL_CAPABILITY_NONE then 0 else push_bit (capability_number c) 1)"
  by (cases c) (simp_all add: aivm_syscall_capability_mask_def capability_order_defs)

lemma capability_mask_bit:
  "bit (aivm_syscall_capability_mask c) n \<longleftrightarrow>
     c \<noteq> AIVM_SYSCALL_CAPABILITY_NONE \<and> n = capability_number c"
  using capability_number_bound [of c]
  by (auto simp: capability_mask_eq push_bit_eq_mult bit_exp_iff)

lemma capability_mask_zero:
  "aivm_syscall_capability_mask c = 0 \<longleftrightarrow> c = AIVM_SYSCALL_CAPABILITY_NONE"
  by (metis capability_mask_bit capability_mask_eq bit_0_eq bot_apply bot_bool_def)

lemma mask_and_bit:
  "m AND aivm_syscall_capability_mask c \<noteq> 0 \<longleftrightarrow>
     c \<noteq> AIVM_SYSCALL_CAPABILITY_NONE \<and> bit m (capability_number c)"
proof -
  have "m AND aivm_syscall_capability_mask c \<noteq> 0 \<longleftrightarrow>
      (\<exists>n. bit (m AND aivm_syscall_capability_mask c) n)"
    by (metis bit_0_eq bot_apply bot_bool_def bit_eqI)
  then show ?thesis
    by (auto simp: bit_and_iff capability_mask_bit)
qed

lemma policy_allows_iff:
  "aivm_syscall_policy_allows policy c \<longleftrightarrow>
     c \<noteq> AIVM_SYSCALL_CAPABILITY_NONE \<and>
     (case policy of None \<Rightarrow> True | Some p \<Rightarrow> bit (allowed_capability_mask p) (capability_number c))"
  by (auto simp: aivm_syscall_policy_allows_def Let_def capability_mask_zero mask_and_bit
      split: option.splits)

lemma allow_group_allows:
  "aivm_syscall_policy_allows (Some (aivm_syscall_policy_allow_group p g)) c \<longleftrightarrow>
     aivm_syscall_policy_allows (Some p) c \<or> (c = g \<and> g \<noteq> AIVM_SYSCALL_CAPABILITY_NONE)"
  by (auto simp: policy_allows_iff aivm_syscall_policy_allow_group_def bit_or_iff capability_mask_bit)

lemma deny_group_allows:
  "aivm_syscall_policy_allows (Some (aivm_syscall_policy_deny_group p g)) c \<longleftrightarrow>
     aivm_syscall_policy_allows (Some p) c \<and> c \<noteq> g"
  using capability_number_bound [of c]
  by (auto simp: policy_allows_iff aivm_syscall_policy_deny_group_def bit_and_iff bit_not_iff
      capability_mask_bit)

lemma fold_allow_mask:
  "bit (allowed_capability_mask (fold (\<lambda>c p. p\<lparr>allowed_capability_mask :=
       allowed_capability_mask p OR aivm_syscall_capability_mask c\<rparr>) cs p)) n \<longleftrightarrow>
   bit (allowed_capability_mask p) n \<or> (\<exists>c \<in> set cs. bit (aivm_syscall_capability_mask c) n)"
  by (induction cs arbitrary: p) (auto simp: bit_or_iff)

lemma allow_all_allows:
  "aivm_syscall_policy_allows (Some (aivm_syscall_policy_allow_all p)) c \<longleftrightarrow>
     c \<noteq> AIVM_SYSCALL_CAPABILITY_NONE"
  by (auto simp: policy_allows_iff aivm_syscall_policy_allow_all_def fold_allow_mask
      capability_mask_bit set_capability_loop)

lemma production_default_allows:
  "aivm_syscall_policy_allows (Some (aivm_syscall_policy_allow_production_default p)) c \<longleftrightarrow>
     c \<noteq> AIVM_SYSCALL_CAPABILITY_NONE \<and> c \<noteq> AIVM_SYSCALL_CAPABILITY_DEBUG"
  by (simp add: aivm_syscall_policy_allow_production_default_def deny_group_allows allow_all_allows)

lemma find_by_target_SomeD:
  "aivm_syscall_contract_find_by_target (Some t) = Some c \<Longrightarrow> c \<in> set Contracts \<and> contract_target c = t"
  by (auto simp: aivm_syscall_contract_find_by_target_def dest: find_Some_set)

lemma contracts_have_capability:
  "c \<in> set Contracts \<Longrightarrow> contract_capability c \<noteq> AIVM_SYSCALL_CAPABILITY_NONE"
proof -
  have "list_all (\<lambda>c. contract_capability c \<noteq> AIVM_SYSCALL_CAPABILITY_NONE) Contracts"
    by code_simp
  then show "c \<in> set Contracts \<Longrightarrow> contract_capability c \<noteq> AIVM_SYSCALL_CAPABILITY_NONE"
    by (simp add: list_all_iff)
qed

lemma dispatch_loop_OK:
  "dispatch_loop bs t args n old = (AIVM_SYSCALL_OK, new) \<Longrightarrow>
   \<exists>b \<in> set bs. \<exists>h v. binding_target b = Some t \<and> binding_handler b = Some h \<and>
     h t args n old = (0, v) \<and> new = Some v"
  by (induction bs)
    (auto simp: aivm_syscall_invoke_def syscall_status_of_int_def split: if_splits prod.splits option.splits)

section \<open>Properties\<close>

text \<open>Every contract of the table is found by its target and by its numeric
  identifier, and its argument types fit the array of eight.\<close>

theorem contract_lookup:
  assumes "c \<in> set Contracts"
  shows "aivm_syscall_contract_find_by_target (Some (contract_target c)) = Some c \<and>
         aivm_syscall_contract_find_by_id (contract_id c) = Some c \<and>
         contract_arg_count c \<le> 8 \<and> length (contract_arg_types c) = 8"
proof -
  have "list_all (\<lambda>c. contract_arg_count c \<le> 8 \<and> length (contract_arg_types c) = 8) Contracts"
    by code_simp
  then show ?thesis
    using assms find_distinct [OF targets_distinct assms] find_distinct [OF ids_distinct assms]
    by (simp add: aivm_syscall_contract_find_by_target_def aivm_syscall_contract_find_by_id_def
        list_all_iff)
qed

theorem contract_lookup_witness:
  "aivm_syscall_contract_find_by_id 79 =
     Some (contract 79 ''sys.debug.mode'' 0 [] AIVM_VAL_STRING AIVM_SYSCALL_CAPABILITY_DEBUG)"
proof -
  have "contract 79 ''sys.debug.mode'' 0 [] AIVM_VAL_STRING AIVM_SYSCALL_CAPABILITY_DEBUG
      \<in> set Contracts"
    by (simp add: Contracts_def)
  from contract_lookup [OF this] show ?thesis
    by (simp add: contract_def)
qed

text \<open>C23 (safety): a checked dispatch that reports success had a contract for the target,
  arguments of exactly the contract's number and types, a policy that allows the contract's
  capability group, and a host binding whose handler returned success with a value of the
  contract's return type, which is the value delivered.\<close>

theorem dispatch_checked_sound:
  assumes "aivm_syscall_dispatch_checked_with_policy bindings policy target args n (Some old) =
             (AIVM_SYSCALL_OK, new, cs)"
  shows "\<exists>t c b h v. target = Some t \<and> c \<in> set Contracts \<and> contract_target c = t \<and>
           contract_arg_count c = n \<and>
           (\<forall>i < n. \<exists>a. args = Some a \<and> value_type (a ! i) = contract_arg_types c ! i) \<and>
           aivm_syscall_policy_allows policy (contract_capability c) \<and>
           b \<in> set (the bindings) \<and> binding_target b = Some t \<and> binding_handler b = Some h \<and>
           h t args n old = (0, v) \<and> new = Some v \<and> value_type v = contract_return_type c \<and>
           cs = AIVM_CONTRACT_OK"
proof -
  obtain ty where val: "aivm_syscall_contract_validate target args n AIVM_VAL_VOID =
      (AIVM_CONTRACT_OK, ty)"
    and pol: "aivm_syscall_policy_allows policy (aivm_syscall_contract_capability target)"
    and dis: "aivm_syscall_dispatch bindings target args n (Some old) = (AIVM_SYSCALL_OK, new)"
    and ty: "map_option value_type new = Some ty" and cs: "cs = AIVM_CONTRACT_OK"
    using assms by (auto simp: aivm_syscall_dispatch_checked_with_policy_def Let_def
        split: prod.splits if_splits)
  obtain c where c: "aivm_syscall_contract_find_by_target target = Some c"
    and vc: "validate_contract c args n = (AIVM_CONTRACT_OK, ty)"
    using val by (auto simp: aivm_syscall_contract_validate_def split: option.splits)
  obtain t bs where t: "target = Some t" and bs: "bindings = Some bs"
    and loop: "dispatch_loop bs t args n old = (AIVM_SYSCALL_OK, new)"
    using dis by (auto simp: aivm_syscall_dispatch_def split: option.splits)
  show ?thesis
    using dispatch_loop_OK [OF loop] find_by_target_SomeD [OF c [unfolded t]] vc pol c ty cs t bs
    by (auto simp: validate_contract_OK aivm_syscall_contract_capability_def)
qed

definition answer_mode :: AivmSyscallHandler where
  "answer_mode target args n old = (0, ValString (CExt ''debug''))"

theorem dispatch_checked_sound_witness:
  "\<exists>c \<in> set Contracts. contract_target c = ''sys.debug.mode'' \<and>
     contract_return_type c = AIVM_VAL_STRING"
proof -
  let ?b = "\<lparr>binding_target = Some ''sys.debug.mode'', binding_handler = Some answer_mode\<rparr>"
  have "aivm_syscall_dispatch_checked_with_policy (Some [?b]) None (Some ''sys.debug.mode'') None 0
      (Some ValNull) = (AIVM_SYSCALL_OK, Some (ValString (CExt ''debug'')), AIVM_CONTRACT_OK)"
    by code_simp
  from dispatch_checked_sound [OF this] show ?thesis
    by (auto simp: answer_mode_def)
qed

text \<open>C24 (safety): a call that violates its contract, or whose capability group the policy denies,
  is refused with a void result before any host binding is consulted: the outcome is the same for
  every list of bindings.\<close>

theorem dispatch_refused_before_host:
  assumes "fst (aivm_syscall_contract_validate target args n AIVM_VAL_VOID) \<noteq> AIVM_CONTRACT_OK \<or>
           \<not> aivm_syscall_policy_allows policy (aivm_syscall_contract_capability target)"
  shows "\<exists>status cs. status \<in> {AIVM_SYSCALL_ERR_CONTRACT, AIVM_SYSCALL_ERR_CAPABILITY_DENIED} \<and>
           (\<forall>bindings. aivm_syscall_dispatch_checked_with_policy bindings policy target args n (Some old)
                       = (status, Some ValVoid, cs))"
  using assms
  by (cases "aivm_syscall_contract_validate target args n AIVM_VAL_VOID")
    (auto simp: aivm_syscall_dispatch_checked_with_policy_def)

theorem dispatch_refused_before_host_witness:
  "\<exists>status cs. status \<in> {AIVM_SYSCALL_ERR_CONTRACT, AIVM_SYSCALL_ERR_CAPABILITY_DENIED} \<and>
     (\<forall>bindings. aivm_syscall_dispatch_checked_with_policy bindings None (Some ''sys.nope'') None 0
        (Some ValNull) = (status, Some ValVoid, cs))"
proof (rule dispatch_refused_before_host)
  have "fst (aivm_syscall_contract_validate (Some ''sys.nope'') None 0 AIVM_VAL_VOID) \<noteq> AIVM_CONTRACT_OK"
    by code_simp
  then show "fst (aivm_syscall_contract_validate (Some ''sys.nope'') None 0 AIVM_VAL_VOID) \<noteq> AIVM_CONTRACT_OK \<or>
      \<not> aivm_syscall_policy_allows None (aivm_syscall_contract_capability (Some ''sys.nope''))"
    by blast
qed

text \<open>The production policy allows exactly the targets the host is told to bind
  in production: those with a contract outside the debug group.\<close>

theorem production_policy_matches_binding:
  "aivm_syscall_policy_allows (Some (aivm_syscall_policy_allow_production_default p))
     (aivm_syscall_contract_capability target) \<longleftrightarrow>
   aivm_syscall_contract_should_bind_in_production target"
  by (simp add: production_default_allows aivm_syscall_contract_should_bind_in_production_def)

text \<open>A capability group is recovered from its name, and only from its name.\<close>

theorem capability_name_roundtrip:
  "aivm_syscall_capability_from_name (Some s) = Some c \<longleftrightarrow>
     c \<noteq> AIVM_SYSCALL_CAPABILITY_NONE \<and> s = aivm_syscall_capability_name c"
proof -
  have "distinct (map aivm_syscall_capability_name capability_loop)"
    by code_simp
  note found = find_distinct [OF this, of c]
  show ?thesis
  proof
    assume "aivm_syscall_capability_from_name (Some s) = Some c"
    then show "c \<noteq> AIVM_SYSCALL_CAPABILITY_NONE \<and> s = aivm_syscall_capability_name c"
      using find_Some_set [of _ capability_loop c]
      by (auto simp: aivm_syscall_capability_from_name_def set_capability_loop)
  next
    assume "c \<noteq> AIVM_SYSCALL_CAPABILITY_NONE \<and> s = aivm_syscall_capability_name c"
    then show "aivm_syscall_capability_from_name (Some s) = Some c"
      using found by (simp add: aivm_syscall_capability_from_name_def set_capability_loop eq_commute)
  qed
qed

end
