(* ===== verification/VM_State.thy ===== *)
theory VM_State
  imports Program Syscalls
begin

text \<open>
  The machine's core state and the operations every instruction handler is built from:
  \<^verbatim>\<open>src/src/include/aivm_vm.h\<close>, \<^verbatim>\<open>src/src/aivm_vm_stack.c\<close>,
  \<^verbatim>\<open>src/src/aivm_vm_error.c\<close>, \<^verbatim>\<open>src/src/aivm_vm_history.c\<close>,
  \<^verbatim>\<open>src/src/aivm_vm_profile.c\<close> and the validators at the head of \<^verbatim>\<open>src/src/aivm_vm.c\<close>.

  The record is extensible: an operation is a function on every extension of it, so it provably
  leaves the rest of the machine alone. The operand stack and the call frames are lists with the
  top first; \<open>stack_count\<close> and \<open>call_frame_count\<close> are their lengths, and the entry at index \<open>i\<close> of
  the C array is the \<open>i\<close>-th from the end. The locals are a total function on slots, because slots
  beyond the count keep their old contents and become readable again when the count grows past
  them. The three history buffers are lists with the newest entry first.

  An operation that returns 0 or 1 in C returns an option beside the machine, \<open>None\<close> for 0.
\<close>

section \<open>Types\<close>

datatype AivmVmStatus =
    AIVM_VM_STATUS_READY | AIVM_VM_STATUS_RUNNING | AIVM_VM_STATUS_HALTED | AIVM_VM_STATUS_ERROR

datatype AivmVmError =
    AIVM_VM_ERR_NONE | AIVM_VM_ERR_INVALID_OPCODE | AIVM_VM_ERR_STACK_OVERFLOW
  | AIVM_VM_ERR_STACK_UNDERFLOW | AIVM_VM_ERR_FRAME_OVERFLOW | AIVM_VM_ERR_FRAME_UNDERFLOW
  | AIVM_VM_ERR_LOCAL_OUT_OF_RANGE | AIVM_VM_ERR_TYPE_MISMATCH | AIVM_VM_ERR_INVALID_PROGRAM
  | AIVM_VM_ERR_STRING_OVERFLOW | AIVM_VM_ERR_SYSCALL | AIVM_VM_ERR_MEMORY_PRESSURE

datatype AivmRuntimeProfile =
    AIVM_RUNTIME_PROFILE_PRODUCTION | AIVM_RUNTIME_PROFILE_DEBUG | AIVM_RUNTIME_PROFILE_TOOLING

record AivmCallFrame =
  return_instruction_pointer :: nat
  frame_base :: nat
  locals_base :: nat

record AivmCallHistoryEntry =
  call_instruction_pointer :: nat
  call_target :: nat
  call_arg_count :: nat
  call_stack_count :: nat

record AivmReturnHistoryEntry =
  return_ip :: nat
  return_stack_count :: nat
  return_pre_restore_stack_count :: nat
  return_frame_base :: nat
  return_has_value :: bool

record AivmOpcodeHistoryEntry =
  op_instruction_pointer :: nat
  op_opcode :: nat
  op_stack_count :: nat

definition AIVM_VM_STACK_CAPACITY :: nat where "AIVM_VM_STACK_CAPACITY = 20000"
definition AIVM_VM_STACK_INITIAL_CAPACITY :: nat where "AIVM_VM_STACK_INITIAL_CAPACITY = 1024"
definition AIVM_VM_STACK_GROWTH_STEP :: nat where "AIVM_VM_STACK_GROWTH_STEP = 512"
definition AIVM_VM_CALLFRAME_CAPACITY :: nat where "AIVM_VM_CALLFRAME_CAPACITY = 2048"
definition AIVM_VM_CALLFRAME_INITIAL_CAPACITY :: nat where "AIVM_VM_CALLFRAME_INITIAL_CAPACITY = 256"
definition AIVM_VM_CALLFRAME_GROWTH_STEP :: nat where "AIVM_VM_CALLFRAME_GROWTH_STEP = 256"
definition AIVM_VM_LOCALS_CAPACITY :: nat where "AIVM_VM_LOCALS_CAPACITY = 16384"
definition AIVM_VM_LOCALS_INITIAL_CAPACITY :: nat where "AIVM_VM_LOCALS_INITIAL_CAPACITY = 2048"
definition AIVM_VM_LOCALS_GROWTH_STEP :: nat where "AIVM_VM_LOCALS_GROWTH_STEP = 1024"
definition AIVM_VM_RECENT_CALLS :: nat where "AIVM_VM_RECENT_CALLS = 4"
definition AIVM_VM_RECENT_RETURNS :: nat where "AIVM_VM_RECENT_RETURNS = 4"
definition AIVM_VM_RECENT_OPCODES :: nat where "AIVM_VM_RECENT_OPCODES = 24"
definition AIVM_VM_ERROR_DETAIL_BYTES :: nat where "AIVM_VM_ERROR_DETAIL_BYTES = 4096"

lemmas vm_capacities =
  AIVM_VM_STACK_CAPACITY_def AIVM_VM_CALLFRAME_CAPACITY_def AIVM_VM_LOCALS_CAPACITY_def

lemmas vm_growth =
  AIVM_VM_STACK_INITIAL_CAPACITY_def AIVM_VM_STACK_GROWTH_STEP_def
  AIVM_VM_CALLFRAME_INITIAL_CAPACITY_def AIVM_VM_CALLFRAME_GROWTH_STEP_def
  AIVM_VM_LOCALS_INITIAL_CAPACITY_def AIVM_VM_LOCALS_GROWTH_STEP_def

record AivmVm =
  vm_program :: "AivmProgram option"
  vm_runtime_profile :: AivmRuntimeProfile
  vm_instruction_pointer :: nat
  vm_status :: AivmVmStatus
  vm_error :: AivmVmError
  vm_error_detail :: "string option"
  vm_stack :: "AivmValue list"
  vm_stack_limit :: nat
  vm_call_frames :: "AivmCallFrame list"
  vm_call_frame_limit :: nat
  vm_recent_calls :: "AivmCallHistoryEntry list"
  vm_recent_returns :: "AivmReturnHistoryEntry list"
  vm_recent_opcodes :: "AivmOpcodeHistoryEntry list"
  vm_locals :: "nat \<Rightarrow> AivmValue"
  vm_locals_count :: nat
  vm_locals_limit :: nat
  vm_string_arena :: string
  vm_bytes_arena :: bytes
  vm_syscall_policy :: AivmSyscallCapabilityPolicy

type_synonym 'a vm = "'a AivmVm_scheme"

abbreviation vm_stack_count :: "'a vm \<Rightarrow> nat" where
  "vm_stack_count vm \<equiv> length (vm_stack vm)"

abbreviation vm_call_frame_count :: "'a vm \<Rightarrow> nat" where
  "vm_call_frame_count vm \<equiv> length (vm_call_frames vm)"

section \<open>Errors\<close>

fun aivm_vm_error_code :: "AivmVmError \<Rightarrow> string" where
  "aivm_vm_error_code AIVM_VM_ERR_NONE = ''AIVM000''"
| "aivm_vm_error_code AIVM_VM_ERR_INVALID_OPCODE = ''AIVM001''"
| "aivm_vm_error_code AIVM_VM_ERR_STACK_OVERFLOW = ''AIVM002''"
| "aivm_vm_error_code AIVM_VM_ERR_STACK_UNDERFLOW = ''AIVM003''"
| "aivm_vm_error_code AIVM_VM_ERR_FRAME_OVERFLOW = ''AIVM004''"
| "aivm_vm_error_code AIVM_VM_ERR_FRAME_UNDERFLOW = ''AIVM005''"
| "aivm_vm_error_code AIVM_VM_ERR_LOCAL_OUT_OF_RANGE = ''AIVM006''"
| "aivm_vm_error_code AIVM_VM_ERR_TYPE_MISMATCH = ''AIVM007''"
| "aivm_vm_error_code AIVM_VM_ERR_INVALID_PROGRAM = ''AIVM008''"
| "aivm_vm_error_code AIVM_VM_ERR_STRING_OVERFLOW = ''AIVM009''"
| "aivm_vm_error_code AIVM_VM_ERR_SYSCALL = ''AIVM010''"
| "aivm_vm_error_code AIVM_VM_ERR_MEMORY_PRESSURE = ''AIVM011''"

fun aivm_vm_error_message :: "AivmVmError \<Rightarrow> string" where
  "aivm_vm_error_message AIVM_VM_ERR_NONE = ''No error.''"
| "aivm_vm_error_message AIVM_VM_ERR_INVALID_OPCODE = ''Unsupported opcode.''"
| "aivm_vm_error_message AIVM_VM_ERR_STACK_OVERFLOW = ''Stack overflow.''"
| "aivm_vm_error_message AIVM_VM_ERR_STACK_UNDERFLOW = ''Stack underflow.''"
| "aivm_vm_error_message AIVM_VM_ERR_FRAME_OVERFLOW = ''Call frame overflow.''"
| "aivm_vm_error_message AIVM_VM_ERR_FRAME_UNDERFLOW = ''Call frame underflow.''"
| "aivm_vm_error_message AIVM_VM_ERR_LOCAL_OUT_OF_RANGE = ''Local index out of range.''"
| "aivm_vm_error_message AIVM_VM_ERR_TYPE_MISMATCH = ''Type mismatch.''"
| "aivm_vm_error_message AIVM_VM_ERR_INVALID_PROGRAM = ''Invalid program state.''"
| "aivm_vm_error_message AIVM_VM_ERR_STRING_OVERFLOW = ''VM string arena overflow.''"
| "aivm_vm_error_message AIVM_VM_ERR_SYSCALL = ''Syscall dispatch failed.''"
| "aivm_vm_error_message AIVM_VM_ERR_MEMORY_PRESSURE = ''VM memory pressure limit exceeded.''"

definition aivm_set_vm_error :: "'a vm \<Rightarrow> AivmVmError \<Rightarrow> string \<Rightarrow> 'a vm" where
  "aivm_set_vm_error vm err detail =
     vm\<lparr>vm_error := err, vm_status := AIVM_VM_STATUS_ERROR, vm_error_detail := Some detail\<rparr>"

definition aivm_vm_error_detail :: "'a vm \<Rightarrow> string" where
  "aivm_vm_error_detail vm =
     (case vm_error_detail vm of None \<Rightarrow> '''' | Some detail \<Rightarrow> detail)"

text \<open>An error whose detail is printed into the machine's detail buffer.\<close>

definition set_vm_error_formatted :: "'a vm \<Rightarrow> AivmVmError \<Rightarrow> string list \<Rightarrow> 'a vm" where
  "set_vm_error_formatted vm err parts =
     aivm_set_vm_error vm err (snprintf AIVM_VM_ERROR_DETAIL_BYTES parts)"

definition aivm_vm_set_local_out_of_range_error :: "'a vm \<Rightarrow> string \<Rightarrow> nat \<Rightarrow> nat \<Rightarrow> 'a vm" where
  "aivm_vm_set_local_out_of_range_error vm op_name local_index base =
     set_vm_error_formatted vm AIVM_VM_ERR_LOCAL_OUT_OF_RANGE
       [''Invalid local slot. op='', if op_name = [] then ''local'' else op_name,
        '' index='', format_llu local_index, '' base='', format_llu base,
        '' localsCount='', format_llu (vm_locals_count vm),
        '' frameCount='', format_llu (vm_call_frame_count vm),
        '' pc='', format_llu (vm_instruction_pointer vm)]"

definition aivm_vm_set_add_numeric_type_error :: "'a vm \<Rightarrow> AivmValue \<Rightarrow> AivmValue \<Rightarrow> 'a vm" where
  "aivm_vm_set_add_numeric_type_error vm left right =
     (let ret0 = (case vm_call_frames vm of f # _ \<Rightarrow> return_instruction_pointer f | [] \<Rightarrow> 0);
          ret1 = (case vm_call_frames vm of _ # f # _ \<Rightarrow> return_instruction_pointer f | _ \<Rightarrow> 0);
          text_of = (\<lambda>v. case v of ValString p \<Rightarrow>
                         (case cptr_text (vm_string_arena vm) p of None \<Rightarrow> '''' | Some s \<Rightarrow> s)
                       | _ \<Rightarrow> '''')
      in set_vm_error_formatted vm AIVM_VM_ERR_TYPE_MISMATCH
        [''ADD_INT requires int operands. left='', aivm_vm_value_type_name (value_type left),
         ''('', [CHR 0x22], take 40 (text_of left), [CHR 0x22], '') right='',
         aivm_vm_value_type_name (value_type right),
         ''('', [CHR 0x22], take 40 (text_of right), [CHR 0x22], '') ip='',
         format_llu (vm_instruction_pointer vm), '' ret0='', format_llu ret0,
         '' ret1='', format_llu ret1])"

section \<open>Validators\<close>

definition state_counts_exceed_limits :: "'a vm \<Rightarrow> bool" where
  "state_counts_exceed_limits vm \<longleftrightarrow>
     vm_stack_count vm > vm_stack_limit vm \<or>
     vm_call_frame_count vm > vm_call_frame_limit vm \<or>
     vm_locals_count vm > vm_locals_limit vm"

definition state_invariant_parts :: "'a vm \<Rightarrow> string \<Rightarrow> string list" where
  "state_invariant_parts vm op_name =
     [''VM state invariant failed. op='', op_name,
      '' stackCount='', format_llu (vm_stack_count vm), '' stackLimit='', format_llu (vm_stack_limit vm),
      '' frameCount='', format_llu (vm_call_frame_count vm),
      '' frameLimit='', format_llu (vm_call_frame_limit vm),
      '' localsCount='', format_llu (vm_locals_count vm),
      '' localsLimit='', format_llu (vm_locals_limit vm)]"

definition frame_invariant_parts :: "'a vm \<Rightarrow> string \<Rightarrow> AivmCallFrame \<Rightarrow> string list" where
  "frame_invariant_parts vm op_name frame =
     (let call0 = (\<lambda>f. case vm_recent_calls vm of c # _ \<Rightarrow> f c | [] \<Rightarrow> 0);
          return0 = (\<lambda>f. case vm_recent_returns vm of r # _ \<Rightarrow> f r | [] \<Rightarrow> 0);
          op0 = (\<lambda>f. case vm_recent_opcodes vm of q # _ \<Rightarrow> f q | [] \<Rightarrow> 0)
      in [''VM frame invariant failed. op='', op_name,
          '' frameBase='', format_llu (frame_base frame),
          '' localsBase='', format_llu (locals_base frame),
          '' returnIp='', format_llu (return_instruction_pointer frame),
          '' stackCount='', format_llu (vm_stack_count vm),
          '' localsCount='', format_llu (vm_locals_count vm),
          '' frameCount='', format_llu (vm_call_frame_count vm),
          '' pc='', format_llu (vm_instruction_pointer vm),
          '' call0Ip='', format_llu (call0 call_instruction_pointer),
          '' call0Target='', format_llu (call0 call_target),
          '' call0ArgCount='', format_llu (call0 call_arg_count),
          '' call0Stack='', format_llu (call0 call_stack_count),
          '' return0Ip='', format_llu (return0 return_ip),
          '' return0Stack='', format_llu (return0 return_stack_count),
          '' return0PreRestore='', format_llu (return0 return_pre_restore_stack_count),
          '' return0FrameBase='', format_llu (return0 return_frame_base),
          '' op0Ip='', format_llu (op0 op_instruction_pointer),
          '' op0Opcode='', format_llu (op0 op_opcode),
          '' op0Stack='', format_llu (op0 op_stack_count)])"

text \<open>The source checks the active frame's locals base a second time; that branch cannot be
  reached, because the first check already rejects such a frame, and is kept.\<close>

definition aivm_vm_validate_call_local_state :: "'a vm \<Rightarrow> string \<Rightarrow> bool \<times> 'a vm" where
  "aivm_vm_validate_call_local_state vm op_name =
     (if state_counts_exceed_limits vm then
        (False, set_vm_error_formatted vm AIVM_VM_ERR_INVALID_PROGRAM
                  (state_invariant_parts vm (if op_name = [] then ''state'' else op_name)))
      else
        let late_check = (\<lambda>active_locals_base.
              if active_locals_base > vm_locals_count vm then
                (False, set_vm_error_formatted vm AIVM_VM_ERR_INVALID_PROGRAM
                   [''VM locals invariant failed. op='', if op_name = [] then ''state'' else op_name,
                    '' activeBase='', format_llu active_locals_base,
                    '' localsCount='', format_llu (vm_locals_count vm),
                    '' frameCount='', format_llu (vm_call_frame_count vm)])
              else (True, vm))
        in case vm_call_frames vm of
             [] \<Rightarrow> late_check 0
           | frame # _ \<Rightarrow>
               if frame_base frame > vm_stack_count vm \<or> locals_base frame > vm_locals_count vm then
                 (False, set_vm_error_formatted vm AIVM_VM_ERR_INVALID_PROGRAM
                    (frame_invariant_parts vm (if op_name = [] then ''state'' else op_name) frame))
               else late_check (locals_base frame))"

definition aivm_vm_validate_frame_record ::
  "'a vm \<Rightarrow> AivmCallFrame \<Rightarrow> string \<Rightarrow> bool \<times> 'a vm" where
  "aivm_vm_validate_frame_record vm frame op_name =
     (if frame_base frame > vm_stack_count vm \<or> locals_base frame > vm_locals_count vm then
        (False, set_vm_error_formatted vm AIVM_VM_ERR_INVALID_PROGRAM
           [''VM frame record invalid. op='', if op_name = [] then ''frame'' else op_name,
            '' frameBase='', format_llu (frame_base frame),
            '' localsBase='', format_llu (locals_base frame),
            '' stackCount='', format_llu (vm_stack_count vm),
            '' localsCount='', format_llu (vm_locals_count vm),
            '' frameCount='', format_llu (vm_call_frame_count vm)])
      else (True, vm))"

definition validate_vm_return_restore ::
  "'a vm \<Rightarrow> AivmCallFrame \<Rightarrow> nat \<Rightarrow> bool \<times> 'a vm" where
  "validate_vm_return_restore vm frame pre_restore_stack_count =
     (if state_counts_exceed_limits vm then
        (False, set_vm_error_formatted vm AIVM_VM_ERR_INVALID_PROGRAM
                  (state_invariant_parts vm ''return-restore''))
      else case aivm_size_add_checked (frame_base frame) 1 of
        None \<Rightarrow> (False, aivm_set_vm_error vm AIVM_VM_ERR_INVALID_PROGRAM
                   ''Return restore size arithmetic overflow.'')
      | Some max_stack_count \<Rightarrow>
          if pre_restore_stack_count > max_stack_count then
            (case size_sub_checked pre_restore_stack_count max_stack_count of
               None \<Rightarrow> (False, aivm_set_vm_error vm AIVM_VM_ERR_INVALID_PROGRAM
                          ''Return restore size arithmetic overflow.'')
             | Some extra_stack_values \<Rightarrow>
                 (False, set_vm_error_formatted vm AIVM_VM_ERR_INVALID_PROGRAM
                    [''Return restore invalid. extraStackValues='', format_llu extra_stack_values,
                     '' frameBase='', format_llu (frame_base frame),
                     '' stackCount='', format_llu pre_restore_stack_count,
                     '' localsBase='', format_llu (locals_base frame),
                     '' frameCount='', format_llu (vm_call_frame_count vm),
                     '' pc='', format_llu (vm_instruction_pointer vm)]))
          else (True, vm))"

section \<open>Stack, frames and locals\<close>

definition stack_grow_limit :: "nat \<Rightarrow> nat \<Rightarrow> nat \<Rightarrow> nat" where
  "stack_grow_limit current step max_value =
     (if current \<ge> max_value then max_value
      else case aivm_size_add_checked current step of
        None \<Rightarrow> max_value
      | Some nxt \<Rightarrow> if nxt > max_value then max_value else nxt)"

text \<open>The growth loop the three capacity checks share.\<close>

definition grow_limit_loop :: "nat \<Rightarrow> nat \<Rightarrow> nat \<Rightarrow> nat \<Rightarrow> nat" where
  "grow_limit_loop needed step max_value limit =
     while (\<lambda>limit. needed > limit \<and> limit < max_value)
       (\<lambda>limit. stack_grow_limit limit step max_value) limit"

definition ensure_stack_capacity :: "'a vm \<Rightarrow> nat \<Rightarrow> bool \<times> 'a vm" where
  "ensure_stack_capacity vm needed =
     (let limit = grow_limit_loop needed AIVM_VM_STACK_GROWTH_STEP AIVM_VM_STACK_CAPACITY
                    (vm_stack_limit vm)
      in (needed \<le> limit, vm\<lparr>vm_stack_limit := limit\<rparr>))"

definition ensure_call_frame_capacity :: "'a vm \<Rightarrow> nat \<Rightarrow> bool \<times> 'a vm" where
  "ensure_call_frame_capacity vm needed =
     (let limit = grow_limit_loop needed AIVM_VM_CALLFRAME_GROWTH_STEP AIVM_VM_CALLFRAME_CAPACITY
                    (vm_call_frame_limit vm)
      in (needed \<le> limit, vm\<lparr>vm_call_frame_limit := limit\<rparr>))"

definition ensure_locals_capacity :: "'a vm \<Rightarrow> nat \<Rightarrow> bool \<times> 'a vm" where
  "ensure_locals_capacity vm needed =
     (let limit = grow_limit_loop needed AIVM_VM_LOCALS_GROWTH_STEP AIVM_VM_LOCALS_CAPACITY
                    (vm_locals_limit vm)
      in (needed \<le> limit, vm\<lparr>vm_locals_limit := limit\<rparr>))"

definition aivm_stack_push :: "'a vm \<Rightarrow> AivmValue \<Rightarrow> unit option \<times> 'a vm" where
  "aivm_stack_push vm value =
     (case aivm_size_add_checked (vm_stack_count vm) 1 of
        None \<Rightarrow> (None, aivm_set_vm_error vm AIVM_VM_ERR_STACK_OVERFLOW ''Stack overflow.'')
      | Some needed \<Rightarrow>
          (case ensure_stack_capacity vm needed of
             (False, vm) \<Rightarrow> (None, aivm_set_vm_error vm AIVM_VM_ERR_STACK_OVERFLOW ''Stack overflow.'')
           | (True, vm) \<Rightarrow> (Some (), vm\<lparr>vm_stack := value # vm_stack vm\<rparr>)))"

definition aivm_stack_pop :: "'a vm \<Rightarrow> AivmValue option \<times> 'a vm" where
  "aivm_stack_pop vm =
     (case vm_stack vm of
        [] \<Rightarrow> (None, aivm_set_vm_error vm AIVM_VM_ERR_STACK_UNDERFLOW ''Stack underflow.'')
      | value # rest \<Rightarrow> (Some value, vm\<lparr>vm_stack := rest\<rparr>))"

definition aivm_frame_push :: "'a vm \<Rightarrow> nat \<Rightarrow> nat \<Rightarrow> unit option \<times> 'a vm" where
  "aivm_frame_push vm return_pc base =
     (case aivm_vm_validate_call_local_state vm ''frame-push'' of
        (False, vm) \<Rightarrow> (None, vm)
      | (True, vm) \<Rightarrow>
          if base > vm_stack_count vm then
            (None, aivm_set_vm_error vm AIVM_VM_ERR_INVALID_PROGRAM
                     ''Call frame base exceeds stack depth.'')
          else
            (case aivm_size_add_checked (vm_call_frame_count vm) 1 of
               None \<Rightarrow> (None, aivm_set_vm_error vm AIVM_VM_ERR_FRAME_OVERFLOW ''Call-frame overflow.'')
             | Some needed \<Rightarrow>
                 (case ensure_call_frame_capacity vm needed of
                    (False, vm) \<Rightarrow>
                      (None, aivm_set_vm_error vm AIVM_VM_ERR_FRAME_OVERFLOW ''Call-frame overflow.'')
                  | (True, vm) \<Rightarrow>
                      (Some (), vm\<lparr>vm_call_frames :=
                         \<lparr>return_instruction_pointer = return_pc,
                          frame_base = base, locals_base = vm_locals_count vm\<rparr>
                         # vm_call_frames vm\<rparr>))))"

definition aivm_frame_pop :: "'a vm \<Rightarrow> AivmCallFrame option \<times> 'a vm" where
  "aivm_frame_pop vm =
     (case aivm_vm_validate_call_local_state vm ''frame-pop'' of
        (False, vm) \<Rightarrow> (None, vm)
      | (True, vm) \<Rightarrow>
          (case vm_call_frames vm of
             [] \<Rightarrow> (None, aivm_set_vm_error vm AIVM_VM_ERR_FRAME_UNDERFLOW ''Call-frame underflow.'')
           | frame # rest \<Rightarrow>
               (case aivm_vm_validate_frame_record (vm\<lparr>vm_call_frames := rest\<rparr>) frame ''frame-pop'' of
                  (False, vm) \<Rightarrow> (None, vm)
                | (True, vm) \<Rightarrow> (Some frame, vm))))"

definition active_locals_base :: "'a vm \<Rightarrow> nat" where
  "active_locals_base vm = (case vm_call_frames vm of [] \<Rightarrow> 0 | frame # _ \<Rightarrow> locals_base frame)"

definition aivm_local_set :: "'a vm \<Rightarrow> nat \<Rightarrow> AivmValue \<Rightarrow> unit option \<times> 'a vm" where
  "aivm_local_set vm index value =
     (case aivm_vm_validate_call_local_state vm ''local-set'' of
        (False, vm) \<Rightarrow> (None, vm)
      | (True, vm) \<Rightarrow>
          (let base = active_locals_base vm in
           if base \<ge> AIVM_VM_LOCALS_CAPACITY \<or> index \<ge> AIVM_VM_LOCALS_CAPACITY - base then
             (None, aivm_vm_set_local_out_of_range_error vm ''store'' index base)
           else
             (case aivm_size_add_checked base index of
                None \<Rightarrow> (None, aivm_vm_set_local_out_of_range_error vm ''store'' index base)
              | Some absolute_index \<Rightarrow>
                  (case aivm_size_add_checked absolute_index 1 of
                     None \<Rightarrow> (None, aivm_vm_set_local_out_of_range_error vm ''store'' index base)
                   | Some needed \<Rightarrow>
                       (case ensure_locals_capacity vm needed of
                          (False, vm) \<Rightarrow>
                            (None, aivm_vm_set_local_out_of_range_error vm ''store'' index base)
                        | (True, vm) \<Rightarrow>
                            (Some (), vm\<lparr>vm_locals := (vm_locals vm)(absolute_index := value),
                               vm_locals_count :=
                                 (if absolute_index \<ge> vm_locals_count vm then needed
                                  else vm_locals_count vm)\<rparr>))))))"

definition aivm_local_get :: "'a vm \<Rightarrow> nat \<Rightarrow> AivmValue option" where
  "aivm_local_get vm index =
     (if state_counts_exceed_limits vm then None
      else
        let base = active_locals_base vm in
        if (case vm_call_frames vm of [] \<Rightarrow> False
            | frame # _ \<Rightarrow> frame_base frame > vm_stack_count vm \<or> base > vm_locals_count vm)
        then None
        else if base \<ge> AIVM_VM_LOCALS_CAPACITY \<or> index \<ge> AIVM_VM_LOCALS_CAPACITY - base then None
        else case aivm_size_add_checked base index of
          None \<Rightarrow> None
        | Some absolute_index \<Rightarrow>
            if absolute_index \<ge> vm_locals_count vm then None
            else Some (vm_locals vm absolute_index))"

section \<open>History buffers\<close>

definition aivm_vm_record_recent_call :: "'a vm \<Rightarrow> nat \<Rightarrow> nat \<Rightarrow> nat \<Rightarrow> nat \<Rightarrow> 'a vm" where
  "aivm_vm_record_recent_call vm ip target arg_count stack_count =
     vm\<lparr>vm_recent_calls := take AIVM_VM_RECENT_CALLS
       (\<lparr>call_instruction_pointer = ip, call_target = target, call_arg_count = arg_count,
         call_stack_count = stack_count\<rparr> # vm_recent_calls vm)\<rparr>"

definition aivm_vm_record_recent_return ::
  "'a vm \<Rightarrow> nat \<Rightarrow> nat \<Rightarrow> nat \<Rightarrow> nat \<Rightarrow> bool \<Rightarrow> 'a vm" where
  "aivm_vm_record_recent_return vm ip stack_count pre_restore_stack_count base has_return_value =
     vm\<lparr>vm_recent_returns := take AIVM_VM_RECENT_RETURNS
       (\<lparr>return_ip = ip, return_stack_count = stack_count,
         return_pre_restore_stack_count = pre_restore_stack_count,
         return_frame_base = base, return_has_value = has_return_value\<rparr> # vm_recent_returns vm)\<rparr>"

definition aivm_vm_record_recent_opcode :: "'a vm \<Rightarrow> nat \<Rightarrow> nat \<Rightarrow> nat \<Rightarrow> 'a vm" where
  "aivm_vm_record_recent_opcode vm ip op stack_count =
     vm\<lparr>vm_recent_opcodes := take AIVM_VM_RECENT_OPCODES
       (\<lparr>op_instruction_pointer = ip, op_opcode = op, op_stack_count = stack_count\<rparr>
        # vm_recent_opcodes vm)\<rparr>"

section \<open>Profiles\<close>

fun aivm_runtime_profile_name :: "AivmRuntimeProfile \<Rightarrow> string" where
  "aivm_runtime_profile_name AIVM_RUNTIME_PROFILE_PRODUCTION = ''production''"
| "aivm_runtime_profile_name AIVM_RUNTIME_PROFILE_DEBUG = ''debug''"
| "aivm_runtime_profile_name AIVM_RUNTIME_PROFILE_TOOLING = ''tooling''"

definition aivm_runtime_profile_from_name :: "string option \<Rightarrow> AivmRuntimeProfile option" where
  "aivm_runtime_profile_from_name name =
     (case name of
        None \<Rightarrow> None
      | Some s \<Rightarrow>
          if s = ''production'' then Some AIVM_RUNTIME_PROFILE_PRODUCTION
          else if s = ''debug'' then Some AIVM_RUNTIME_PROFILE_DEBUG
          else if s = ''tooling'' then Some AIVM_RUNTIME_PROFILE_TOOLING
          else None)"

definition aivm_set_syscall_policy ::
  "'a vm \<Rightarrow> AivmSyscallCapabilityPolicy option \<Rightarrow> 'a vm" where
  "aivm_set_syscall_policy vm policy =
     (case policy of None \<Rightarrow> vm | Some p \<Rightarrow> vm\<lparr>vm_syscall_policy := p\<rparr>)"

text \<open>Initialisation, on the fields of the core record: a zeroed machine gets its program, profile
  and policy, and the state is reset. The locals keep whatever the slots held.\<close>

definition aivm_set_runtime_profile :: "'a vm \<Rightarrow> AivmRuntimeProfile \<Rightarrow> 'a vm" where
  "aivm_set_runtime_profile vm profile =
     vm\<lparr>vm_runtime_profile := profile,
        vm_syscall_policy :=
          (if profile = AIVM_RUNTIME_PROFILE_PRODUCTION
           then aivm_syscall_policy_allow_production_default (vm_syscall_policy vm)
           else aivm_syscall_policy_allow_all (vm_syscall_policy vm))\<rparr>"

definition aivm_reset_state :: "'a vm \<Rightarrow> 'a vm" where
  "aivm_reset_state vm =
     vm\<lparr>vm_instruction_pointer := 0, vm_status := AIVM_VM_STATUS_READY,
        vm_error := AIVM_VM_ERR_NONE, vm_error_detail := None,
        vm_stack := [], vm_stack_limit := AIVM_VM_STACK_INITIAL_CAPACITY,
        vm_call_frames := [], vm_call_frame_limit := AIVM_VM_CALLFRAME_INITIAL_CAPACITY,
        vm_recent_calls := [], vm_recent_returns := [], vm_recent_opcodes := [],
        vm_locals_count := 0, vm_locals_limit := AIVM_VM_LOCALS_INITIAL_CAPACITY,
        vm_string_arena := [], vm_bytes_arena := []\<rparr>"

definition aivm_init_with_profile :: "'a vm \<Rightarrow> AivmProgram \<Rightarrow> AivmRuntimeProfile \<Rightarrow> 'a vm" where
  "aivm_init_with_profile vm p profile =
     aivm_reset_state (aivm_set_runtime_profile (vm\<lparr>vm_program := Some p\<rparr>) profile)"

text \<open>The machine memory after \<^verbatim>\<open>memset\<close>.\<close>

definition zeroed_vm :: AivmVm where
  "zeroed_vm =
     \<lparr>vm_program = None, vm_runtime_profile = AIVM_RUNTIME_PROFILE_PRODUCTION,
      vm_instruction_pointer = 0, vm_status = AIVM_VM_STATUS_READY, vm_error = AIVM_VM_ERR_NONE,
      vm_error_detail = None, vm_stack = [], vm_stack_limit = 0, vm_call_frames = [],
      vm_call_frame_limit = 0, vm_recent_calls = [], vm_recent_returns = [], vm_recent_opcodes = [],
      vm_locals = (\<lambda>_. ValVoid), vm_locals_count = 0, vm_locals_limit = 0, vm_string_arena = [],
      vm_bytes_arena = [], vm_syscall_policy = \<lparr>allowed_capability_mask = 0\<rparr>\<rparr>"

section \<open>Capacity growth\<close>

lemma stack_grow_limit_bounds:
  assumes "0 < step" and "limit < max_value"
  shows "limit < stack_grow_limit limit step max_value"
    and "stack_grow_limit limit step max_value \<le> max_value"
  using assms by (auto simp: stack_grow_limit_def split: option.splits)

lemma grow_limit_loop_spec:
  assumes "0 < step" and "limit \<le> max_value"
  shows "limit \<le> grow_limit_loop needed step max_value limit \<and>
         grow_limit_loop needed step max_value limit \<le> max_value \<and>
         (needed \<le> grow_limit_loop needed step max_value limit \<longleftrightarrow> needed \<le> max_value)"
  unfolding grow_limit_loop_def
proof (rule while_rule [where P = "\<lambda>l. limit \<le> l \<and> l \<le> max_value"
      and r = "measure (\<lambda>l. max_value - l)"])
  fix l
  assume "limit \<le> l \<and> l \<le> max_value" and "needed > l \<and> l < max_value"
  then show "limit \<le> stack_grow_limit l step max_value \<and> stack_grow_limit l step max_value \<le> max_value"
    and "(stack_grow_limit l step max_value, l) \<in> measure (\<lambda>l. max_value - l)"
    using stack_grow_limit_bounds [OF assms(1), of l max_value] by auto
qed (use assms in auto)

lemmas grow_limit_le = grow_limit_loop_spec [THEN conjunct2, THEN conjunct1]
lemmas grow_limit_enough = grow_limit_loop_spec [THEN conjunct2, THEN conjunct2]

lemma growth_steps_pos [simp]:
  "0 < AIVM_VM_STACK_GROWTH_STEP" "0 < AIVM_VM_CALLFRAME_GROWTH_STEP"
  "0 < AIVM_VM_LOCALS_GROWTH_STEP"
  by (simp_all add: vm_growth)

lemma capacities_below_size_max:
  "AIVM_VM_STACK_CAPACITY < SIZE_MAX" "AIVM_VM_CALLFRAME_CAPACITY < SIZE_MAX"
  "AIVM_VM_LOCALS_CAPACITY < SIZE_MAX"
  by (simp_all add: vm_capacities SIZE_MAX_def)

section \<open>Invariant\<close>

text \<open>The counts stay within the limits and the limits within the capacities of the C arrays.\<close>

definition vm_bounds :: "'a vm \<Rightarrow> bool" where
  "vm_bounds vm \<longleftrightarrow>
     vm_stack_count vm \<le> vm_stack_limit vm \<and> vm_stack_limit vm \<le> AIVM_VM_STACK_CAPACITY \<and>
     vm_call_frame_count vm \<le> vm_call_frame_limit vm \<and>
     vm_call_frame_limit vm \<le> AIVM_VM_CALLFRAME_CAPACITY \<and>
     vm_locals_count vm \<le> vm_locals_limit vm \<and> vm_locals_limit vm \<le> AIVM_VM_LOCALS_CAPACITY"

text \<open>The frames, top first: each keeps a return address inside the program and a locals base no
  higher than the locals above it, and stack bases do not decrease towards the top.\<close>

fun frames_ok :: "nat \<Rightarrow> nat \<Rightarrow> AivmCallFrame list \<Rightarrow> bool" where
  "frames_ok count locals [] = True"
| "frames_ok count locals (f # fs) =
     (return_instruction_pointer f \<le> count \<and> locals_base f \<le> locals \<and>
      (case fs of [] \<Rightarrow> True | g # _ \<Rightarrow> frame_base g \<le> frame_base f) \<and>
      frames_ok count (locals_base f) fs)"

lemma frames_ok_mono: "frames_ok n l fs \<Longrightarrow> l \<le> l' \<Longrightarrow> frames_ok n l' fs"
  by (cases fs) auto

lemma set_vm_error_sel [vm_simps]:
  "vm_program (aivm_set_vm_error vm e d) = vm_program vm"
  "vm_instruction_pointer (aivm_set_vm_error vm e d) = vm_instruction_pointer vm"
  "vm_status (aivm_set_vm_error vm e d) = AIVM_VM_STATUS_ERROR"
  "vm_error (aivm_set_vm_error vm e d) = e"
  "vm_error_detail (aivm_set_vm_error vm e d) = Some d"
  "vm_stack (aivm_set_vm_error vm e d) = vm_stack vm"
  "vm_stack_limit (aivm_set_vm_error vm e d) = vm_stack_limit vm"
  "vm_call_frames (aivm_set_vm_error vm e d) = vm_call_frames vm"
  "vm_call_frame_limit (aivm_set_vm_error vm e d) = vm_call_frame_limit vm"
  "vm_locals (aivm_set_vm_error vm e d) = vm_locals vm"
  "vm_locals_count (aivm_set_vm_error vm e d) = vm_locals_count vm"
  "vm_locals_limit (aivm_set_vm_error vm e d) = vm_locals_limit vm"
  "vm_recent_opcodes (aivm_set_vm_error vm e d) = vm_recent_opcodes vm"
  by (simp_all add: aivm_set_vm_error_def)

lemma vm_bounds_error [vm_simps]: "vm_bounds (aivm_set_vm_error vm e d) = vm_bounds vm"
  by (simp add: vm_bounds_def vm_simps)

lemma vm_bounds_counts: "vm_bounds vm \<Longrightarrow> \<not> state_counts_exceed_limits vm"
  by (simp add: vm_bounds_def state_counts_exceed_limits_def)

definition top_frame_fits :: "'a vm \<Rightarrow> bool" where
  "top_frame_fits vm \<longleftrightarrow>
     (case vm_call_frames vm of [] \<Rightarrow> True
      | f # _ \<Rightarrow> frame_base f \<le> vm_stack_count vm \<and> locals_base f \<le> vm_locals_count vm)"

lemma validate_call_local_state_cases:
  assumes "vm_bounds vm"
  shows "aivm_vm_validate_call_local_state vm op =
           (if top_frame_fits vm then (True, vm)
            else (False, set_vm_error_formatted vm AIVM_VM_ERR_INVALID_PROGRAM
              (frame_invariant_parts vm (if op = [] then ''state'' else op) (hd (vm_call_frames vm)))))"
  using vm_bounds_counts [OF assms]
  by (auto simp: aivm_vm_validate_call_local_state_def Let_def top_frame_fits_def split: list.split)

lemma stack_push_cases:
  assumes "vm_bounds vm"
  shows "\<exists>limit. vm_stack_limit vm \<le> limit \<and> limit \<le> AIVM_VM_STACK_CAPACITY \<and>
           aivm_stack_push vm v =
             (if vm_stack_count vm < AIVM_VM_STACK_CAPACITY
              then (Some (), vm\<lparr>vm_stack_limit := limit, vm_stack := v # vm_stack vm\<rparr>)
              else (None, aivm_set_vm_error (vm\<lparr>vm_stack_limit := limit\<rparr>)
                            AIVM_VM_ERR_STACK_OVERFLOW ''Stack overflow.'')) \<and>
           (vm_stack_count vm < AIVM_VM_STACK_CAPACITY \<longrightarrow> Suc (vm_stack_count vm) \<le> limit)"
proof -
  let ?limit = "grow_limit_loop (Suc (vm_stack_count vm)) AIVM_VM_STACK_GROWTH_STEP
                  AIVM_VM_STACK_CAPACITY (vm_stack_limit vm)"
  have le: "vm_stack_limit vm \<le> AIVM_VM_STACK_CAPACITY"
    and count: "vm_stack_count vm \<le> AIVM_VM_STACK_CAPACITY"
    using assms by (auto simp: vm_bounds_def)
  have spec: "vm_stack_limit vm \<le> ?limit" "?limit \<le> AIVM_VM_STACK_CAPACITY"
    "Suc (vm_stack_count vm) \<le> ?limit \<longleftrightarrow> vm_stack_count vm < AIVM_VM_STACK_CAPACITY"
    using grow_limit_loop_spec [OF growth_steps_pos(1) le] by (simp_all add: Suc_le_eq)
  have "vm_stack_count vm + 1 \<le> SIZE_MAX"
    using count capacities_below_size_max(1) by simp
  with spec show ?thesis
    by (intro exI [of _ ?limit])
      (simp add: aivm_stack_push_def ensure_stack_capacity_def Let_def)
qed

lemma local_set_Some:
  assumes "vm_bounds vm" and "aivm_local_set vm index v = (Some (), vm')"
  shows "\<exists>limit. top_frame_fits vm \<and>
           active_locals_base vm + index < AIVM_VM_LOCALS_CAPACITY \<and>
           vm_locals_limit vm \<le> limit \<and> limit \<le> AIVM_VM_LOCALS_CAPACITY \<and>
           Suc (active_locals_base vm + index) \<le> limit \<and>
           vm' = vm\<lparr>vm_locals_limit := limit,
                    vm_locals := (vm_locals vm)(active_locals_base vm + index := v),
                    vm_locals_count := max (vm_locals_count vm) (Suc (active_locals_base vm + index))\<rparr>"
proof -
  let ?i = "active_locals_base vm + index"
  let ?limit = "grow_limit_loop (Suc ?i) AIVM_VM_LOCALS_GROWTH_STEP AIVM_VM_LOCALS_CAPACITY
                  (vm_locals_limit vm)"
  have le: "vm_locals_limit vm \<le> AIVM_VM_LOCALS_CAPACITY"
    using assms by (auto simp: vm_bounds_def)
  have spec: "vm_locals_limit vm \<le> ?limit" "?limit \<le> AIVM_VM_LOCALS_CAPACITY"
    using grow_limit_loop_spec [OF growth_steps_pos(3) le] by simp_all
  from assms(2) have "top_frame_fits vm" and "?i < AIVM_VM_LOCALS_CAPACITY"
    and "Suc ?i \<le> ?limit"
    and "vm' = vm\<lparr>vm_locals_limit := ?limit, vm_locals := (vm_locals vm)(?i := v),
           vm_locals_count := (if ?i \<ge> vm_locals_count vm then Suc ?i else vm_locals_count vm)\<rparr>"
    by (auto simp: aivm_local_set_def validate_call_local_state_cases [OF assms(1)]
        ensure_locals_capacity_def Let_def split: if_splits option.splits bool.splits)
  then show ?thesis
    using spec by (intro exI [of _ ?limit]) (auto simp: max_def)
qed

lemmas formatted_error_defs = set_vm_error_formatted_def aivm_vm_set_local_out_of_range_error_def

lemma local_set_None:
  assumes "vm_bounds vm" and "aivm_local_set vm i v = (None, vm')"
  shows "\<exists>limit e d. vm_locals_limit vm \<le> limit \<and> limit \<le> AIVM_VM_LOCALS_CAPACITY \<and>
           e \<noteq> AIVM_VM_ERR_NONE \<and> vm' = aivm_set_vm_error (vm\<lparr>vm_locals_limit := limit\<rparr>) e d"
proof -
  let ?needed = "Suc (active_locals_base vm + i)"
  let ?limit = "grow_limit_loop ?needed AIVM_VM_LOCALS_GROWTH_STEP AIVM_VM_LOCALS_CAPACITY
                  (vm_locals_limit vm)"
  have le: "vm_locals_limit vm \<le> AIVM_VM_LOCALS_CAPACITY"
    using assms by (auto simp: vm_bounds_def)
  have spec: "vm_locals_limit vm \<le> ?limit" "?limit \<le> AIVM_VM_LOCALS_CAPACITY"
    using grow_limit_loop_spec [OF growth_steps_pos(3) le] by simp_all
  have "(\<exists>e d. e \<noteq> AIVM_VM_ERR_NONE \<and> vm' = aivm_set_vm_error vm e d) \<or>
        (\<exists>e d. e \<noteq> AIVM_VM_ERR_NONE \<and> vm' = aivm_set_vm_error (vm\<lparr>vm_locals_limit := ?limit\<rparr>) e d)"
    using assms(2)
    by (simp add: aivm_local_set_def validate_call_local_state_cases [OF assms(1)] formatted_error_defs
        ensure_locals_capacity_def Let_def split: if_splits option.splits bool.splits) blast+
  then show ?thesis
    using spec le by (metis AivmVm.surjective AivmVm.update_convs(16) order_refl)
qed

lemma frame_push_result:
  assumes "vm_bounds vm"
  shows "\<exists>limit r vm'. vm_call_frame_limit vm \<le> limit \<and> limit \<le> AIVM_VM_CALLFRAME_CAPACITY \<and>
           aivm_frame_push vm rip base = (r, vm') \<and>
           (r = None \<longrightarrow> (\<exists>e d. e \<noteq> AIVM_VM_ERR_NONE \<and>
              vm' = aivm_set_vm_error (vm\<lparr>vm_call_frame_limit := limit\<rparr>) e d)) \<and>
           (r \<noteq> None \<longrightarrow> top_frame_fits vm \<and> base \<le> vm_stack_count vm \<and>
              Suc (vm_call_frame_count vm) \<le> limit \<and>
              vm' = vm\<lparr>vm_call_frame_limit := limit, vm_call_frames :=
                \<lparr>return_instruction_pointer = rip, frame_base = base,
                 locals_base = vm_locals_count vm\<rparr> # vm_call_frames vm\<rparr>)"
proof -
  let ?limit = "grow_limit_loop (Suc (vm_call_frame_count vm)) AIVM_VM_CALLFRAME_GROWTH_STEP
                  AIVM_VM_CALLFRAME_CAPACITY (vm_call_frame_limit vm)"
  have le: "vm_call_frame_limit vm \<le> AIVM_VM_CALLFRAME_CAPACITY"
    and count: "vm_call_frame_count vm + 1 \<le> SIZE_MAX"
    using assms capacities_below_size_max(2) by (auto simp: vm_bounds_def)
  have spec: "vm_call_frame_limit vm \<le> ?limit" "?limit \<le> AIVM_VM_CALLFRAME_CAPACITY"
    using grow_limit_loop_spec [OF growth_steps_pos(2) le] by simp_all
  show ?thesis
  proof (cases "top_frame_fits vm \<and> base \<le> vm_stack_count vm")
    case True
    then show ?thesis
      using spec count
      by (intro exI [of _ ?limit])
        (simp add: aivm_frame_push_def validate_call_local_state_cases [OF assms]
          ensure_call_frame_capacity_def Let_def split: bool.split; blast)
  next
    case False
    then show ?thesis
      using le
      by (intro exI [of _ "vm_call_frame_limit vm"], cases "top_frame_fits vm")
        (simp_all add: aivm_frame_push_def validate_call_local_state_cases [OF assms]
          formatted_error_defs, blast+)
  qed
qed

lemma frame_pop_cases:
  assumes "vm_bounds vm" 
  shows "aivm_frame_pop vm =
           (if \<not> top_frame_fits vm then
              (None, set_vm_error_formatted vm AIVM_VM_ERR_INVALID_PROGRAM
                (frame_invariant_parts vm ''frame-pop'' (hd (vm_call_frames vm))))
            else case vm_call_frames vm of
              [] \<Rightarrow> (None, aivm_set_vm_error vm AIVM_VM_ERR_FRAME_UNDERFLOW ''Call-frame underflow.'')
            | frame # rest \<Rightarrow> (Some frame, vm\<lparr>vm_call_frames := rest\<rparr>))"
  by (auto simp: aivm_frame_pop_def validate_call_local_state_cases [OF assms]
      aivm_vm_validate_frame_record_def top_frame_fits_def split: list.split)

lemma local_set_succeeds:
  assumes "vm_bounds vm" and "top_frame_fits vm"
    and "active_locals_base vm + index < AIVM_VM_LOCALS_CAPACITY"
  shows "\<exists>vm'. aivm_local_set vm index v = (Some (), vm')"
proof -
  let ?i = "active_locals_base vm + index"
  have le: "vm_locals_limit vm \<le> AIVM_VM_LOCALS_CAPACITY"
    using assms by (auto simp: vm_bounds_def)
  have "Suc ?i \<le> grow_limit_loop (Suc ?i) AIVM_VM_LOCALS_GROWTH_STEP AIVM_VM_LOCALS_CAPACITY
                  (vm_locals_limit vm)"
    using grow_limit_loop_spec [OF growth_steps_pos(3) le, of "Suc ?i"] assms(3) by simp
  moreover have "?i + 1 \<le> SIZE_MAX"
    using assms(3) capacities_below_size_max(3) by simp
  ultimately show ?thesis
    using assms(2,3)
    by (auto simp: aivm_local_set_def validate_call_local_state_cases [OF assms(1)]
        ensure_locals_capacity_def Let_def)
qed

lemma local_get_iff:
  assumes "vm_bounds vm"
  shows "aivm_local_get vm index =
           (if top_frame_fits vm \<and> active_locals_base vm + index < vm_locals_count vm
            then Some (vm_locals vm (active_locals_base vm + index)) else None)"
proof -
  let ?b = "active_locals_base vm"
  have count: "vm_locals_count vm \<le> AIVM_VM_LOCALS_CAPACITY"
    using assms by (auto simp: vm_bounds_def)
  have bad: "(case vm_call_frames vm of [] \<Rightarrow> False
      | f # _ \<Rightarrow> frame_base f > vm_stack_count vm \<or> ?b > vm_locals_count vm) \<longleftrightarrow> \<not> top_frame_fits vm"
    by (auto simp: top_frame_fits_def active_locals_base_def split: list.split)
  have "?b + index \<le> SIZE_MAX" if "?b + index < AIVM_VM_LOCALS_CAPACITY"
    using that capacities_below_size_max(3) by simp
  then show ?thesis
    using vm_bounds_counts [OF assms] count
    by (auto simp: aivm_local_get_def Let_def bad)
qed

text \<open>The local slots of the active frame are a keyed store.\<close>

definition local_put :: "'a vm \<Rightarrow> nat \<Rightarrow> AivmValue \<Rightarrow> 'a vm option" where
  "local_put vm index v =
     (case aivm_local_set vm index v of
        (r, vm') \<Rightarrow> (case r of Some u \<Rightarrow> Some vm' | None \<Rightarrow> None))"

lemma local_put_Some: "local_put vm i v = Some vm' \<longleftrightarrow> aivm_local_set vm i v = (Some (), vm')"
  by (simp add: local_put_def split: prod.split option.split)

interpretation locals: keyed_store aivm_local_get local_put vm_bounds
proof
  fix vm vm' :: "'a vm" and k j :: nat and v w :: AivmValue
  assume b: "vm_bounds vm" and "local_put vm k v = Some vm'"
  then obtain limit where fits: "top_frame_fits vm"
    and lim: "vm_locals_limit vm \<le> limit" "limit \<le> AIVM_VM_LOCALS_CAPACITY"
      "Suc (active_locals_base vm + k) \<le> limit"
    and vm': "vm' = vm\<lparr>vm_locals_limit := limit,
                    vm_locals := (vm_locals vm)(active_locals_base vm + k := v),
                    vm_locals_count := max (vm_locals_count vm) (Suc (active_locals_base vm + k))\<rparr>"
    using local_set_Some [OF b] unfolding local_put_Some by blast
  show b': "vm_bounds vm'"
    using b lim by (auto simp: vm' vm_bounds_def)
  have base: "active_locals_base vm' = active_locals_base vm"
    by (simp add: vm' active_locals_base_def)
  have fits': "top_frame_fits vm'"
    using fits by (auto simp: vm' top_frame_fits_def split: list.splits)
  show "aivm_local_get vm' k = Some v"
    using fits' by (simp add: local_get_iff [OF b'] base) (simp add: vm')
  show "aivm_local_get vm' j = Some w" if "j \<noteq> k" "aivm_local_get vm j = Some w"
    using that fits' unfolding local_get_iff [OF b'] local_get_iff [OF b] base
    by (auto simp: vm' split: if_splits)
qed

end
