(* ===== verification/VM_Step.thy ===== *)
theory VM_Step
  imports VM_State
begin

text \<open>
  The interpreter: the core of \<open>aivm_step\<close> and \<open>aivm_run\<close> of \<^verbatim>\<open>src/src/aivm_vm.c\<close>. One
  definition per case of the switch for the instructions that move values, compute, compare, jump,
  call and return. A handler returns \<open>None\<close> where the C code has undefined behaviour: a signed
  addition, subtraction, multiplication or remainder out of range, a double cast out of the range
  of \<^verbatim>\<open>int64_t\<close>, or a read past the instruction buffer.

  Two parts of the switch are arguments. \<open>other\<close> handles the opcodes of the string, bytes, node,
  map, syscall, task and worker groups, with the instruction and the machine. \<open>safe_point\<close> is the
  garbage collection attempt at a return (\<^verbatim>\<open>aivm_vm.c\<close> 3502 to 3511), false when it failed. What the
  theorems need of them, that they keep the invariant, is a named hypothesis.
\<close>

type_synonym 'a safe_point = "'a vm \<Rightarrow> bool \<times> 'a vm"
type_synonym 'a other_op = "AivmInstruction \<Rightarrow> 'a vm \<Rightarrow> 'a vm option"

section \<open>Handler vocabulary\<close>

text \<open>Every failing operation of a handler ends the same way: the instruction pointer is set to the
  end of the program and the switch is left.\<close>

definition park :: "AivmProgram \<Rightarrow> 'a vm \<Rightarrow> 'a vm" where
  "park p vm = vm\<lparr>vm_instruction_pointer := instruction_count p\<rparr>"

definition advance :: "'a vm \<Rightarrow> 'a vm" where
  "advance vm = vm\<lparr>vm_instruction_pointer := vm_instruction_pointer vm + 1\<rparr>"

definition or_park ::
  "AivmProgram \<Rightarrow> 'b option \<times> 'a vm \<Rightarrow> ('b \<Rightarrow> 'a vm \<Rightarrow> 'a vm option) \<Rightarrow> 'a vm option" where
  "or_park p result continue =
     (case result of (r, vm) \<Rightarrow>
        (case r of None \<Rightarrow> Some (park p vm) | Some x \<Rightarrow> continue x vm))"

definition fail_with :: "AivmProgram \<Rightarrow> 'a vm \<Rightarrow> AivmVmError \<Rightarrow> string \<Rightarrow> 'a vm option" where
  "fail_with p vm err detail = Some (park p (aivm_set_vm_error vm err detail))"

definition push_and_advance :: "AivmProgram \<Rightarrow> 'a vm \<Rightarrow> AivmValue \<Rightarrow> 'a vm option" where
  "push_and_advance p vm v = or_park p (aivm_stack_push vm v) (\<lambda>_ vm. Some (advance vm))"

text \<open>Pop the right operand, then the left one.\<close>

definition pop_operands ::
  "AivmProgram \<Rightarrow> 'a vm \<Rightarrow> (AivmValue \<Rightarrow> AivmValue \<Rightarrow> 'a vm \<Rightarrow> 'a vm option) \<Rightarrow> 'a vm option" where
  "pop_operands p vm continue =
     or_park p (aivm_stack_pop vm) (\<lambda>right vm.
       or_park p (aivm_stack_pop vm) (\<lambda>left vm. continue left right vm))"

definition operand_to_index :: "'a vm \<Rightarrow> int \<Rightarrow> nat option \<times> 'a vm" where
  "operand_to_index vm operand =
     (if operand < 0 then
        (None, aivm_set_vm_error vm AIVM_VM_ERR_INVALID_PROGRAM ''Negative operand is invalid.'')
      else (Some (nat operand), vm))"

definition aivm_halt :: "AivmProgram \<Rightarrow> 'a vm \<Rightarrow> 'a vm" where
  "aivm_halt p vm =
     vm\<lparr>vm_instruction_pointer := instruction_count p, vm_status := AIVM_VM_STATUS_HALTED\<rparr>"

text \<open>The instruction at an index below the count; \<open>None\<close> is a read outside the buffer.\<close>

definition fetch :: "AivmProgram \<Rightarrow> nat \<Rightarrow> AivmInstruction option" where
  "fetch p i =
     (case instructions p of None \<Rightarrow> None
      | Some is \<Rightarrow> if i < length is then Some (is ! i) else None)"

section \<open>Data movement\<close>

definition op_push_int :: "AivmProgram \<Rightarrow> AivmInstruction \<Rightarrow> 'a vm \<Rightarrow> 'a vm option" where
  "op_push_int p i vm = push_and_advance p vm (ValInt (operand_int i))"

definition op_push_bool :: "AivmProgram \<Rightarrow> AivmInstruction \<Rightarrow> 'a vm \<Rightarrow> 'a vm option" where
  "op_push_bool p i vm = push_and_advance p vm (ValBool (operand_int i \<noteq> 0))"

definition op_pop :: "AivmProgram \<Rightarrow> 'a vm \<Rightarrow> 'a vm option" where
  "op_pop p vm = or_park p (aivm_stack_pop vm) (\<lambda>popped vm. Some (advance vm))"

definition op_store_local :: "AivmProgram \<Rightarrow> AivmInstruction \<Rightarrow> 'a vm \<Rightarrow> 'a vm option" where
  "op_store_local p i vm =
     or_park p (operand_to_index vm (operand_int i)) (\<lambda>local_index vm.
       or_park p (aivm_stack_pop vm) (\<lambda>popped vm.
         or_park p (aivm_local_set vm local_index popped) (\<lambda>_ vm. Some (advance vm))))"

definition op_load_local :: "AivmProgram \<Rightarrow> AivmInstruction \<Rightarrow> 'a vm \<Rightarrow> 'a vm option" where
  "op_load_local p i vm =
     or_park p (operand_to_index vm (operand_int i)) (\<lambda>local_index vm.
       case aivm_local_get vm local_index of
         None \<Rightarrow> Some (park p (aivm_vm_set_local_out_of_range_error vm ''load'' local_index
                               (active_locals_base vm)))
       | Some local_value \<Rightarrow> push_and_advance p vm local_value)"

definition op_const :: "AivmProgram \<Rightarrow> AivmInstruction \<Rightarrow> 'a vm \<Rightarrow> 'a vm option" where
  "op_const p i vm =
     or_park p (operand_to_index vm (operand_int i)) (\<lambda>constant_index vm.
       case constants p of
         None \<Rightarrow> fail_with p vm AIVM_VM_ERR_INVALID_PROGRAM ''Invalid CONST index.''
       | Some cs \<Rightarrow>
           if constant_index \<ge> constant_count p then
             fail_with p vm AIVM_VM_ERR_INVALID_PROGRAM ''Invalid CONST index.''
           else if constant_index \<ge> length cs then None
           else push_and_advance p vm (cs ! constant_index))"

section \<open>Arithmetic and comparison\<close>

text \<open>Push a computed value, or undefined behaviour.\<close>

definition push_defined :: "AivmProgram \<Rightarrow> 'a vm \<Rightarrow> AivmValue option \<Rightarrow> 'a vm option" where
  "push_defined p vm v = (case v of None \<Rightarrow> None | Some x \<Rightarrow> push_and_advance p vm x)"

definition both_int :: "AivmValue \<Rightarrow> AivmValue \<Rightarrow> (int \<times> int) option" where
  "both_int left right =
     (case left of ValInt a \<Rightarrow> (case right of ValInt b \<Rightarrow> Some (a, b) | _ \<Rightarrow> None) | _ \<Rightarrow> None)"

definition both_numbers :: "AivmValue \<Rightarrow> AivmValue \<Rightarrow> (f64 \<times> f64) option" where
  "both_numbers left right =
     (case (aivm_vm_value_as_number left, aivm_vm_value_as_number right) of
        (Some x, Some y) \<Rightarrow> Some (x, y) | _ \<Rightarrow> None)"

definition op_add_int :: "AivmProgram \<Rightarrow> 'a vm \<Rightarrow> 'a vm option" where
  "op_add_int p vm =
     pop_operands p vm (\<lambda>left right vm.
       case both_numbers left right of
         None \<Rightarrow> Some (park p (aivm_vm_set_add_numeric_type_error vm left right))
       | Some (x, y) \<Rightarrow>
           (case both_int left right of
              Some (a, b) \<Rightarrow> push_defined p vm (map_option ValInt (i64_result (a + b)))
            | None \<Rightarrow> push_defined p vm (aivm_vm_numeric_result (f64_add x y))))"

text \<open>The \<^verbatim>\<open>%\<close> of C on \<^verbatim>\<open>int64_t\<close>: the remainder takes the sign of the dividend; the
  quotient out of range is undefined.\<close>

definition i64_rem :: "int \<Rightarrow> int \<Rightarrow> int option" where
  "i64_rem a b =
     (if b = 0 \<or> (a = INT64_MIN \<and> b = -1) then None else Some (sgn a * (\<bar>a\<bar> mod \<bar>b\<bar>)))"

definition op_numeric :: "AivmProgram \<Rightarrow> AivmInstruction \<Rightarrow> 'a vm \<Rightarrow> 'a vm option" where
  "op_numeric p i vm =
     pop_operands p vm (\<lambda>left right vm.
       case both_numbers left right of
         None \<Rightarrow> fail_with p vm AIVM_VM_ERR_TYPE_MISMATCH
                   ''Numeric operation requires number operands.''
       | Some (x, y) \<Rightarrow>
           let finish = (\<lambda>r. case r of None \<Rightarrow> None
                                | Some d \<Rightarrow> push_defined p vm (aivm_vm_numeric_result d))
           in
           if opcode i = AIVM_OP_SUB_NUM then
             (case both_int left right of
                Some (a, b) \<Rightarrow> push_defined p vm (map_option ValInt (i64_result (a - b)))
              | None \<Rightarrow> finish (Some (f64_sub x y)))
           else if opcode i = AIVM_OP_MUL_NUM then
             (case both_int left right of
                Some (a, b) \<Rightarrow> push_defined p vm (map_option ValInt (i64_result (a * b)))
              | None \<Rightarrow> finish (Some (f64_mul x y)))
           else if opcode i = AIVM_OP_DIV_NUM then
             (if f64_eq y f64_zero then
                fail_with p vm AIVM_VM_ERR_TYPE_MISMATCH ''DIV requires non-zero divisor.''
              else finish (Some (f64_div x y)))
           else if opcode i = AIVM_OP_MOD_NUM then
             (if f64_eq y f64_zero then
                fail_with p vm AIVM_VM_ERR_TYPE_MISMATCH ''MOD requires non-zero divisor.''
              else
                (case both_int left right of
                   Some (a, b) \<Rightarrow> push_defined p vm (map_option ValInt (i64_rem a b))
                 | None \<Rightarrow>
                     finish (map_option (\<lambda>q. f64_sub x (f64_mul q y))
                       (aivm_vm_double_trunc_toward_zero (f64_div x y)))))
           else finish (aivm_vm_double_pow_whole x y))"

definition op_lt_num :: "AivmProgram \<Rightarrow> 'a vm \<Rightarrow> 'a vm option" where
  "op_lt_num p vm =
     pop_operands p vm (\<lambda>left right vm.
       case both_numbers left right of
         None \<Rightarrow> fail_with p vm AIVM_VM_ERR_TYPE_MISMATCH ''LT requires number operands.''
       | Some (x, y) \<Rightarrow> push_and_advance p vm (ValBool (f64_lt x y)))"

definition op_eq_int :: "AivmProgram \<Rightarrow> 'a vm \<Rightarrow> 'a vm option" where
  "op_eq_int p vm =
     pop_operands p vm (\<lambda>left right vm.
       case both_int left right of
         None \<Rightarrow> fail_with p vm AIVM_VM_ERR_TYPE_MISMATCH ''EQ_INT requires int operands.''
       | Some (a, b) \<Rightarrow> push_and_advance p vm (ValBool (a = b)))"

definition op_eq :: "AivmProgram \<Rightarrow> 'a vm \<Rightarrow> 'a vm option" where
  "op_eq p vm =
     pop_operands p vm (\<lambda>left right vm.
       push_and_advance p vm
         (ValBool (aivm_value_equals (vm_string_arena vm) (vm_bytes_arena vm) left right)))"

section \<open>Control flow\<close>

definition op_jump :: "AivmProgram \<Rightarrow> AivmInstruction \<Rightarrow> 'a vm \<Rightarrow> 'a vm option" where
  "op_jump p i vm =
     or_park p (operand_to_index vm (operand_int i)) (\<lambda>target vm.
       if target > instruction_count p then
         fail_with p vm AIVM_VM_ERR_INVALID_PROGRAM ''Jump target out of range.''
       else Some (vm\<lparr>vm_instruction_pointer := target\<rparr>))"

definition op_jump_if_false :: "AivmProgram \<Rightarrow> AivmInstruction \<Rightarrow> 'a vm \<Rightarrow> 'a vm option" where
  "op_jump_if_false p i vm =
     or_park p (operand_to_index vm (operand_int i)) (\<lambda>target vm.
       or_park p (aivm_stack_pop vm) (\<lambda>condition vm.
         case condition of
           ValBool b \<Rightarrow>
             if \<not> b then
               (if target > instruction_count p then
                  fail_with p vm AIVM_VM_ERR_INVALID_PROGRAM ''Jump target out of range.''
                else Some (vm\<lparr>vm_instruction_pointer := target\<rparr>))
             else Some (advance vm)
         | _ \<Rightarrow> fail_with p vm AIVM_VM_ERR_TYPE_MISMATCH ''JUMP_IF_FALSE requires bool.''))"

section \<open>Calls\<close>

text \<open>A function's prologue stores its arguments: the argument count of a call is the number of
  consecutive STORE_LOCAL instructions at its target.\<close>

function infer_loop :: "AivmInstruction list \<Rightarrow> nat \<Rightarrow> nat \<Rightarrow> nat \<Rightarrow> nat" where
  "infer_loop is n index count =
     (if index < n \<and> opcode (is ! index) = AIVM_OP_STORE_LOCAL then
        (case (aivm_size_add_checked count 1, aivm_size_add_checked index 1) of
           (Some next_count, Some next_index) \<Rightarrow> infer_loop is n next_index next_count
         | _ \<Rightarrow> 0)
      else count)"
  by pat_completeness auto

termination
  by (relation "measure (\<lambda>(is, n, index, count). n - index)")
    (auto simp: aivm_size_add_checked_def split: if_splits)

declare infer_loop.simps [simp del]

definition infer_call_arg_count :: "AivmProgram \<Rightarrow> nat \<Rightarrow> nat" where
  "infer_call_arg_count p target =
     (case instructions p of
        None \<Rightarrow> 0
      | Some is \<Rightarrow> if target \<ge> instruction_count p then 0
                   else infer_loop is (instruction_count p) target 0)"

definition AIVM_CALL_LAYOUT_WINDOW :: nat where "AIVM_CALL_LAYOUT_WINDOW = 64"

text \<open>The loop over the arguments: \<open>seen\<close> is the array of local indices already stored to. Its
  count stays below the window of 64, so the overflow check on it has no branch here.\<close>

function layout_loop ::
  "AivmProgram \<Rightarrow> AivmInstruction list \<Rightarrow> nat \<Rightarrow> nat \<Rightarrow> nat \<Rightarrow> nat list \<Rightarrow> 'a vm \<Rightarrow> bool \<times> 'a vm" where
  "layout_loop p is target arg_count i seen vm =
     (if i < arg_count then
        (case aivm_size_add_checked target i of
           None \<Rightarrow> (False, aivm_set_vm_error vm AIVM_VM_ERR_INVALID_PROGRAM
                      ''Call target layout exceeded instruction range.'')
         | Some instruction_index \<Rightarrow>
             if instruction_index \<ge> instruction_count p then
               (False, aivm_set_vm_error vm AIVM_VM_ERR_INVALID_PROGRAM
                      ''Call target layout exceeded instruction range.'')
             else
               (let instruction = is ! instruction_index in
                if opcode instruction \<noteq> AIVM_OP_STORE_LOCAL then
                  (False, set_vm_error_formatted vm AIVM_VM_ERR_INVALID_PROGRAM
                     [''Call target layout invalid. target='', format_llu target,
                      '' arg='', format_llu i, '' op='', format_llu (opcode instruction),
                      '' expected=STORE_LOCAL''])
                else
                  (case operand_to_index vm (operand_int instruction) of
                     (r, vm) \<Rightarrow>
                       (case r of
                          None \<Rightarrow> (False, vm)
                        | Some local_index \<Rightarrow>
                            if local_index \<in> set seen then
                              (False, set_vm_error_formatted vm AIVM_VM_ERR_INVALID_PROGRAM
                                 [''Call target local layout invalid. target='', format_llu target,
                                  '' arg='', format_llu i, '' duplicateLocal='', format_llu local_index,
                                  '' argCount='', format_llu arg_count])
                            else layout_loop p is target arg_count (i + 1) (seen @ [local_index]) vm))))
      else (True, vm))"
  by pat_completeness auto

termination
  by (relation "measure (\<lambda>(p, is, target, arg_count, i, seen, vm). arg_count - i)") auto

declare layout_loop.simps [simp del]

definition validate_call_target_layout ::
  "'a vm \<Rightarrow> AivmProgram \<Rightarrow> nat \<Rightarrow> nat \<Rightarrow> bool \<times> 'a vm" where
  "validate_call_target_layout vm p target arg_count =
     (case instructions p of
        None \<Rightarrow> (False, vm)
      | Some is \<Rightarrow>
          if arg_count > AIVM_CALL_LAYOUT_WINDOW then
            (False, set_vm_error_formatted vm AIVM_VM_ERR_INVALID_PROGRAM
               [''Call target layout invalid. target='', format_llu target,
                '' argCount='', format_llu arg_count, '' exceeds checked layout window''])
          else layout_loop p is target arg_count 0 [] vm)"

definition call_arg_depth_parts :: "'a vm \<Rightarrow> nat \<Rightarrow> nat \<Rightarrow> nat \<Rightarrow> string list" where
  "call_arg_depth_parts vm target arg_count stack_count =
     [''Call argument count exceeds stack depth. target='', format_llu target,
      '' argCount='', format_llu arg_count, '' stackCount='', format_llu stack_count,
      '' frameCount='', format_llu (vm_call_frame_count vm),
      '' pc='', format_llu (vm_instruction_pointer vm)] @
     concat (map (\<lambda>(k, e).
       ['' call'', format_llu k, ''={ip='', format_llu (call_instruction_pointer e),
        '',target='', format_llu (call_target e), '',argCount='', format_llu (call_arg_count e),
        '',stackBefore='', format_llu (call_stack_count e), ''}'']) (enumerate 0 (vm_recent_calls vm))) @
     concat (map (\<lambda>(k, e).
       ['' return'', format_llu k, ''={ip='', format_llu (return_ip e),
        '',stackAfter='', format_llu (return_stack_count e),
        '',preRestore='', format_llu (return_pre_restore_stack_count e),
        '',frameBase='', format_llu (return_frame_base e),
        '',hasReturn='', (if return_has_value e then ''1'' else ''0''), ''}''])
       (enumerate 0 (vm_recent_returns vm))) @
     concat (map (\<lambda>(k, e).
       ['' op'', format_llu k, ''={ip='', format_llu (op_instruction_pointer e),
        '',opcode='', format_llu (op_opcode e), '',stack='', format_llu (op_stack_count e), ''}''])
       (enumerate 0 (vm_recent_opcodes vm)))"

definition set_vm_error_call_arg_depth :: "'a vm \<Rightarrow> nat \<Rightarrow> nat \<Rightarrow> nat \<Rightarrow> 'a vm" where
  "set_vm_error_call_arg_depth vm target arg_count stack_count =
     set_vm_error_formatted vm AIVM_VM_ERR_INVALID_PROGRAM
       (call_arg_depth_parts vm target arg_count stack_count)"

definition is_tail_call :: "AivmProgram \<Rightarrow> 'a vm \<Rightarrow> bool" where
  "is_tail_call p vm \<longleftrightarrow>
     vm_call_frame_count vm > 0 \<and> vm_instruction_pointer vm + 1 < instruction_count p \<and>
     (case fetch p (vm_instruction_pointer vm + 1) of None \<Rightarrow> False
      | Some i \<Rightarrow> opcode i = AIVM_OP_RETURN \<or> opcode i = AIVM_OP_RET)"

text \<open>The tail call: the arguments are moved down to the base of the current frame, which is
  reused. The stack list has the top first, so the moved block is its first \<open>arg_count\<close> entries.\<close>

definition tail_call :: "'a vm \<Rightarrow> AivmCallFrame \<Rightarrow> nat \<Rightarrow> nat \<Rightarrow> 'a vm" where
  "tail_call vm current_frame target arg_count =
     vm\<lparr>vm_stack := take arg_count (vm_stack vm) @
          drop (vm_stack_count vm - frame_base current_frame) (vm_stack vm),
        vm_locals_count := locals_base current_frame,
        vm_instruction_pointer := target\<rparr>"

text \<open>The part of CALL after the target and its layout have been accepted.\<close>

definition enter_call :: "AivmProgram \<Rightarrow> 'a vm \<Rightarrow> nat \<Rightarrow> nat \<Rightarrow> 'a vm option" where
  "enter_call p vm target arg_count =
     (let base = vm_stack_count vm - arg_count in
      if (case vm_call_frames vm of [] \<Rightarrow> False | f # _ \<Rightarrow> base < frame_base f) then
        Some (park p (set_vm_error_formatted vm AIVM_VM_ERR_INVALID_PROGRAM
          [''Call argument frame crosses caller frame base. target='', format_llu target,
           '' argCount='', format_llu arg_count, '' argBase='', format_llu base,
           '' callerFrameBase='', format_llu (frame_base (hd (vm_call_frames vm))),
           '' stackCount='', format_llu (vm_stack_count vm),
           '' pc='', format_llu (vm_instruction_pointer vm)]))
      else if is_tail_call p vm then
        (let current_frame = hd (vm_call_frames vm) in
         if frame_base current_frame > base then
           fail_with p vm AIVM_VM_ERR_INVALID_PROGRAM ''Tail-call frame base exceeds argument base.''
         else Some (tail_call vm current_frame target arg_count))
      else
        (case aivm_size_add_checked (vm_instruction_pointer vm) 1 of
           None \<Rightarrow> Some (park p vm)
         | Some return_pc \<Rightarrow>
             or_park p (aivm_frame_push vm return_pc base)
               (\<lambda>_ vm. Some (vm\<lparr>vm_instruction_pointer := target\<rparr>))))"

definition op_call :: "AivmProgram \<Rightarrow> AivmInstruction \<Rightarrow> 'a vm \<Rightarrow> 'a vm option" where
  "op_call p i vm =
     or_park p (operand_to_index vm (operand_int i)) (\<lambda>target vm.
       if target \<ge> instruction_count p then
         fail_with p vm AIVM_VM_ERR_INVALID_PROGRAM ''Call target out of range.''
       else
         let arg_count = infer_call_arg_count p target in
         if arg_count > vm_stack_count vm then
           Some (park p (set_vm_error_call_arg_depth vm target arg_count (vm_stack_count vm)))
         else
           (case validate_call_target_layout vm p target arg_count of
              (ok, vm) \<Rightarrow>
                if \<not> ok then Some (park p vm)
                else
                  enter_call p
                    (aivm_vm_record_recent_call vm (vm_instruction_pointer vm) target arg_count
                       (vm_stack_count vm))
                    target arg_count))"

text \<open>The part of RETURN after the frame has been popped and checked against the program.\<close>

definition leave_call :: "'a safe_point \<Rightarrow> AivmProgram \<Rightarrow> AivmCallFrame \<Rightarrow> 'a vm \<Rightarrow> 'a vm option" where
  "leave_call safe_point p frame vm =
     (let pre_restore_stack_count = vm_stack_count vm;
          has_return_value = (vm_stack_count vm > frame_base frame);
          return_value = (if has_return_value then hd (vm_stack vm) else ValVoid)
      in
      (case validate_vm_return_restore vm frame pre_restore_stack_count of
         (ok, vm) \<Rightarrow>
           if \<not> ok then Some (park p vm)
           else
             let vm = vm\<lparr>vm_stack := drop (vm_stack_count vm - frame_base frame) (vm_stack vm),
                          vm_locals_count := locals_base frame\<rparr>
             in
             or_park p
               (if has_return_value then aivm_stack_push vm return_value else (Some (), vm))
               (\<lambda>_ vm.
                 (case safe_point
                         (aivm_vm_record_recent_return vm (return_instruction_pointer frame)
                            (vm_stack_count vm) pre_restore_stack_count (frame_base frame)
                            has_return_value) of
                    (ok, vm) \<Rightarrow>
                      if \<not> ok then Some (park p vm)
                      else Some (vm\<lparr>vm_instruction_pointer := return_instruction_pointer frame\<rparr>)))))"

definition op_return :: "'a safe_point \<Rightarrow> AivmProgram \<Rightarrow> 'a vm \<Rightarrow> 'a vm option" where
  "op_return safe_point p vm =
     (if vm_call_frame_count vm = 0 then Some (aivm_halt p vm)
      else
        or_park p (aivm_frame_pop vm) (\<lambda>frame vm.
          if return_instruction_pointer frame > instruction_count p then
            fail_with p vm AIVM_VM_ERR_INVALID_PROGRAM ''Return instruction pointer out of range.''
          else if vm_stack_count vm < frame_base frame then
            fail_with p vm AIVM_VM_ERR_INVALID_PROGRAM ''Call frame base exceeds stack depth.''
          else leave_call safe_point p frame vm))"

section \<open>Step and run\<close>

definition core_opcodes :: "nat list" where
  "core_opcodes =
     [AIVM_OP_NOP, AIVM_OP_HALT, AIVM_OP_STUB, AIVM_OP_PUSH_INT, AIVM_OP_POP, AIVM_OP_STORE_LOCAL,
      AIVM_OP_LOAD_LOCAL, AIVM_OP_ADD_INT, AIVM_OP_JUMP, AIVM_OP_JUMP_IF_FALSE, AIVM_OP_PUSH_BOOL,
      AIVM_OP_CALL, AIVM_OP_RET, AIVM_OP_EQ_INT, AIVM_OP_EQ, AIVM_OP_CONST, AIVM_OP_RETURN,
      AIVM_OP_SUB_NUM, AIVM_OP_MUL_NUM, AIVM_OP_DIV_NUM, AIVM_OP_MOD_NUM, AIVM_OP_POW_NUM,
      AIVM_OP_LT_NUM]"

definition execute ::
  "'a safe_point \<Rightarrow> 'a other_op \<Rightarrow> AivmProgram \<Rightarrow> AivmInstruction \<Rightarrow> 'a vm \<Rightarrow> 'a vm option" where
  "execute safe_point other p i vm =
     (let c = opcode i in
      if c = AIVM_OP_NOP then Some (advance vm)
      else if c = AIVM_OP_HALT then Some (aivm_halt p vm)
      else if c = AIVM_OP_STUB then
        Some (aivm_set_vm_error vm AIVM_VM_ERR_INVALID_OPCODE ''STUB opcode is invalid at runtime.'')
      else if c = AIVM_OP_PUSH_INT then op_push_int p i vm
      else if c = AIVM_OP_POP then op_pop p vm
      else if c = AIVM_OP_STORE_LOCAL then op_store_local p i vm
      else if c = AIVM_OP_LOAD_LOCAL then op_load_local p i vm
      else if c = AIVM_OP_ADD_INT then op_add_int p vm
      else if c = AIVM_OP_SUB_NUM \<or> c = AIVM_OP_MUL_NUM \<or> c = AIVM_OP_DIV_NUM \<or>
              c = AIVM_OP_MOD_NUM \<or> c = AIVM_OP_POW_NUM then op_numeric p i vm
      else if c = AIVM_OP_LT_NUM then op_lt_num p vm
      else if c = AIVM_OP_JUMP then op_jump p i vm
      else if c = AIVM_OP_JUMP_IF_FALSE then op_jump_if_false p i vm
      else if c = AIVM_OP_PUSH_BOOL then op_push_bool p i vm
      else if c = AIVM_OP_CALL then op_call p i vm
      else if c = AIVM_OP_RET \<or> c = AIVM_OP_RETURN then op_return safe_point p vm
      else if c = AIVM_OP_EQ_INT then op_eq_int p vm
      else if c = AIVM_OP_EQ then op_eq p vm
      else if c = AIVM_OP_CONST then op_const p i vm
      else if c \<le> AIVM_OP_MAX then other i vm
      else fail_with p vm AIVM_VM_ERR_INVALID_OPCODE ''Unsupported opcode.'')"

definition finish_step :: "AivmProgram \<Rightarrow> 'a vm \<Rightarrow> 'a vm" where
  "finish_step p vm =
     (if vm_status vm = AIVM_VM_STATUS_RUNNING \<and> vm_instruction_pointer vm \<ge> instruction_count p
      then vm\<lparr>vm_status := AIVM_VM_STATUS_HALTED\<rparr> else vm)"

definition begin_step :: "AivmInstruction \<Rightarrow> 'a vm \<Rightarrow> 'a vm" where
  "begin_step i vm =
     aivm_vm_record_recent_opcode
       (vm\<lparr>vm_status := AIVM_VM_STATUS_RUNNING, vm_error_detail := None\<rparr>)
       (vm_instruction_pointer vm) (opcode i) (vm_stack_count vm)"

definition aivm_step :: "'a safe_point \<Rightarrow> 'a other_op \<Rightarrow> 'a vm \<Rightarrow> 'a vm option" where
  "aivm_step safe_point other vm =
     (case vm_program vm of
        None \<Rightarrow> Some vm
      | Some p \<Rightarrow>
          if Option.is_none (instructions p) then
            (if instruction_count p = 0 then Some (vm\<lparr>vm_status := AIVM_VM_STATUS_HALTED\<rparr>)
             else fail_with p vm AIVM_VM_ERR_INVALID_PROGRAM ''Program instruction buffer is null.'')
          else if vm_status vm = AIVM_VM_STATUS_HALTED \<or> vm_status vm = AIVM_VM_STATUS_ERROR then
            Some vm
          else if vm_instruction_pointer vm \<ge> instruction_count p then
            Some (vm\<lparr>vm_status := AIVM_VM_STATUS_HALTED\<rparr>)
          else
            (case fetch p (vm_instruction_pointer vm) of
               None \<Rightarrow> None
             | Some i \<Rightarrow>
                 map_option (finish_step p) (execute safe_point other p i (begin_step i vm))))"

datatype 'v run_result = RunFinished 'v | RunUndefined | RunOutOfFuel

definition run_continues :: "AivmProgram \<Rightarrow> 'a vm \<Rightarrow> bool" where
  "run_continues p vm \<longleftrightarrow>
     vm_instruction_pointer vm < instruction_count p \<and>
     vm_status vm \<noteq> AIVM_VM_STATUS_ERROR \<and> vm_status vm \<noteq> AIVM_VM_STATUS_HALTED"

primrec run_loop ::
  "nat \<Rightarrow> 'a safe_point \<Rightarrow> 'a other_op \<Rightarrow> AivmProgram \<Rightarrow> 'a vm \<Rightarrow> 'a vm run_result" where
  "run_loop 0 safe_point other p vm =
     (if run_continues p vm then RunOutOfFuel else RunFinished vm)"
| "run_loop (Suc fuel) safe_point other p vm =
     (if run_continues p vm then
        (case aivm_step safe_point other vm of
           None \<Rightarrow> RunUndefined
         | Some vm' \<Rightarrow> run_loop fuel safe_point other p vm')
      else RunFinished vm)"

definition aivm_run ::
  "nat \<Rightarrow> 'a safe_point \<Rightarrow> 'a other_op \<Rightarrow> 'a vm \<Rightarrow> 'a vm run_result" where
  "aivm_run fuel safe_point other vm =
     (case vm_program vm of
        None \<Rightarrow> RunFinished vm
      | Some p \<Rightarrow>
          if instruction_count p = 0 then RunFinished (vm\<lparr>vm_status := AIVM_VM_STATUS_HALTED\<rparr>)
          else run_loop fuel safe_point other p vm)"

section \<open>The machine invariant\<close>

definition machine_ok :: "AivmProgram \<Rightarrow> 'a vm \<Rightarrow> bool" where
  "machine_ok p vm \<longleftrightarrow>
     vm_program vm = Some p \<and> vm_bounds vm \<and>
     frames_ok (instruction_count p) (vm_locals_count vm) (vm_call_frames vm) \<and>
     vm_instruction_pointer vm \<le> instruction_count p \<and>
     (vm_status vm = AIVM_VM_STATUS_ERROR \<longrightarrow>
        vm_error vm \<noteq> AIVM_VM_ERR_NONE \<and> vm_error_detail vm \<noteq> None)"

text \<open>The invariant while an instruction executes.\<close>

definition running_ok :: "AivmProgram \<Rightarrow> 'a vm \<Rightarrow> bool" where
  "running_ok p vm \<longleftrightarrow> machine_ok p vm \<and> vm_instruction_pointer vm < instruction_count p"

definition keeps :: "AivmProgram \<Rightarrow> 'a vm option \<Rightarrow> bool" where
  "keeps p r \<longleftrightarrow> (\<forall>vm'. r = Some vm' \<longrightarrow> machine_ok p vm')"

lemma keeps_None [vm_inv]: "keeps p None"
  by (simp add: keeps_def)

lemma keeps_Some [vm_inv]: "machine_ok p vm \<Longrightarrow> keeps p (Some vm)"
  by (simp add: keeps_def)

lemma park_ok [vm_inv]: "running_ok p vm \<Longrightarrow> machine_ok p (park p vm)"
  by (simp add: running_ok_def machine_ok_def park_def vm_bounds_def)

lemma advance_ok [vm_inv]: "running_ok p vm \<Longrightarrow> machine_ok p (advance vm)"
  by (simp add: running_ok_def machine_ok_def advance_def vm_bounds_def)

lemma halt_ok [vm_inv]: "running_ok p vm \<Longrightarrow> machine_ok p (aivm_halt p vm)"
  by (simp add: running_ok_def machine_ok_def aivm_halt_def vm_bounds_def)

lemma jump_ok [vm_inv]:
  "running_ok p vm \<Longrightarrow> target \<le> instruction_count p \<Longrightarrow>
   machine_ok p (vm\<lparr>vm_instruction_pointer := target\<rparr>)"
  by (simp add: running_ok_def machine_ok_def vm_bounds_def)

lemma running_machine [vm_inv]: "running_ok p vm \<Longrightarrow> machine_ok p vm"
  by (simp add: running_ok_def)

lemma error_running [vm_inv]:
  "running_ok p vm \<Longrightarrow> e \<noteq> AIVM_VM_ERR_NONE \<Longrightarrow> running_ok p (aivm_set_vm_error vm e d)"
  by (simp add: running_ok_def machine_ok_def vm_simps)

lemma error_formatted_running [vm_inv]:
  "running_ok p vm \<Longrightarrow> e \<noteq> AIVM_VM_ERR_NONE \<Longrightarrow> running_ok p (set_vm_error_formatted vm e parts)"
  by (simp add: set_vm_error_formatted_def error_running)

lemma fail_with_keeps [vm_inv]:
  "running_ok p vm \<Longrightarrow> e \<noteq> AIVM_VM_ERR_NONE \<Longrightarrow> keeps p (fail_with p vm e d)"
  by (simp add: fail_with_def keeps_Some park_ok error_running)

lemma or_park_keeps:
  assumes "running_ok p (snd r)"
    and "\<And>x vm'. r = (Some x, vm') \<Longrightarrow> running_ok p vm' \<Longrightarrow> keeps p (k x vm')"
  shows "keeps p (or_park p r k)"
proof (cases r)
  case (Pair a vm')
  then show ?thesis
    using assms by (cases a) (simp_all add: or_park_def keeps_Some park_ok)
qed

lemma push_running [vm_inv]:
  assumes "running_ok p vm"
  shows "running_ok p (snd (aivm_stack_push vm v))"
proof -
  have b: "vm_bounds vm"
    using assms by (simp add: running_ok_def machine_ok_def)
  obtain limit where "vm_stack_limit vm \<le> limit" "limit \<le> AIVM_VM_STACK_CAPACITY"
    and push: "aivm_stack_push vm v =
             (if vm_stack_count vm < AIVM_VM_STACK_CAPACITY
              then (Some (), vm\<lparr>vm_stack_limit := limit, vm_stack := v # vm_stack vm\<rparr>)
              else (None, aivm_set_vm_error (vm\<lparr>vm_stack_limit := limit\<rparr>)
                            AIVM_VM_ERR_STACK_OVERFLOW ''Stack overflow.''))"
    and "vm_stack_count vm < AIVM_VM_STACK_CAPACITY \<longrightarrow> Suc (vm_stack_count vm) \<le> limit"
    using stack_push_cases [OF b, of v] by blast
  with assms show ?thesis
    by (auto simp: push running_ok_def machine_ok_def vm_bounds_def vm_simps)
qed

lemma push_and_advance_keeps [vm_inv]: "running_ok p vm \<Longrightarrow> keeps p (push_and_advance p vm v)"
  unfolding push_and_advance_def
  by (rule or_park_keeps) (simp_all add: push_running keeps_Some advance_ok)

lemma push_defined_keeps [vm_inv]: "running_ok p vm \<Longrightarrow> keeps p (push_defined p vm v)"
  by (cases v) (simp_all add: push_defined_def keeps_None push_and_advance_keeps)

lemma pop_running [vm_inv]: "running_ok p vm \<Longrightarrow> running_ok p (snd (aivm_stack_pop vm))"
  by (cases "vm_stack vm")
    (simp_all add: aivm_stack_pop_def error_running, auto simp: running_ok_def machine_ok_def vm_bounds_def)

lemma operand_running [vm_inv]: "running_ok p vm \<Longrightarrow> running_ok p (snd (operand_to_index vm n))"
  by (simp add: operand_to_index_def error_running)

lemma local_set_running [vm_inv]:
  assumes "running_ok p vm"
  shows "running_ok p (snd (aivm_local_set vm i v))"
proof -
  have b: "vm_bounds vm"
    using assms by (simp add: running_ok_def machine_ok_def)
  obtain r vm' where res: "aivm_local_set vm i v = (r, vm')"
    by (cases "aivm_local_set vm i v")
  show ?thesis
  proof (cases r)
    case None
    then obtain limit e d where "vm_locals_limit vm \<le> limit" "limit \<le> AIVM_VM_LOCALS_CAPACITY"
      and "e \<noteq> AIVM_VM_ERR_NONE" "vm' = aivm_set_vm_error (vm\<lparr>vm_locals_limit := limit\<rparr>) e d"
      using local_set_None [OF b] res by blast
    with assms show ?thesis
      by (auto simp: res running_ok_def machine_ok_def vm_bounds_def vm_simps)
  next
    case (Some u)
    then obtain limit where "vm_locals_limit vm \<le> limit" "limit \<le> AIVM_VM_LOCALS_CAPACITY"
      "Suc (active_locals_base vm + i) \<le> limit"
      and "vm' = vm\<lparr>vm_locals_limit := limit,
                    vm_locals := (vm_locals vm)(active_locals_base vm + i := v),
                    vm_locals_count := max (vm_locals_count vm) (Suc (active_locals_base vm + i))\<rparr>"
      using local_set_Some [OF b] res by (metis (full_types) old.unit.exhaust)
    with assms show ?thesis
      by (auto simp: res running_ok_def machine_ok_def vm_bounds_def intro: frames_ok_mono)
  qed
qed

lemma frame_push_running:
  assumes "running_ok p vm" and "rip \<le> instruction_count p"
    and "case vm_call_frames vm of [] \<Rightarrow> True | f # _ \<Rightarrow> frame_base f \<le> base"
  shows "running_ok p (snd (aivm_frame_push vm rip base))"
proof -
  have b: "vm_bounds vm"
    using assms by (simp add: running_ok_def machine_ok_def)
  from frame_push_result [OF b, of rip base] obtain limit r vm' where
    lim: "vm_call_frame_limit vm \<le> limit" "limit \<le> AIVM_VM_CALLFRAME_CAPACITY"
    and res: "aivm_frame_push vm rip base = (r, vm')"
    and err: "r = None \<longrightarrow> (\<exists>e d. e \<noteq> AIVM_VM_ERR_NONE \<and>
              vm' = aivm_set_vm_error (vm\<lparr>vm_call_frame_limit := limit\<rparr>) e d)"
    and ok: "r \<noteq> None \<longrightarrow> top_frame_fits vm \<and> base \<le> vm_stack_count vm \<and>
              Suc (vm_call_frame_count vm) \<le> limit \<and>
              vm' = vm\<lparr>vm_call_frame_limit := limit, vm_call_frames :=
                \<lparr>return_instruction_pointer = rip, frame_base = base,
                 locals_base = vm_locals_count vm\<rparr> # vm_call_frames vm\<rparr>"
    by blast
  show ?thesis
  proof (cases r)
    case None
    with err obtain e d where "e \<noteq> AIVM_VM_ERR_NONE"
      "vm' = aivm_set_vm_error (vm\<lparr>vm_call_frame_limit := limit\<rparr>) e d" by blast
    with assms(1) lim show ?thesis
      by (auto simp: res running_ok_def machine_ok_def vm_bounds_def vm_simps)
  next
    case (Some u)
    with ok assms lim show ?thesis
      by (auto simp: res running_ok_def machine_ok_def vm_bounds_def split: list.splits)
  qed
qed

lemma frame_pop_running:
  assumes "running_ok p vm"
  shows "running_ok p (snd (aivm_frame_pop vm))"
proof -
  have b: "vm_bounds vm"
    using assms by (simp add: running_ok_def machine_ok_def)
  show ?thesis
  proof (cases "top_frame_fits vm \<and> vm_call_frames vm \<noteq> []")
    case True
    then obtain f fs where "vm_call_frames vm = f # fs"
      by (cases "vm_call_frames vm") auto
    with True assms show ?thesis
      by (auto simp: frame_pop_cases [OF b] running_ok_def machine_ok_def vm_bounds_def
          intro: frames_ok_mono)
  next
    case False
    with assms show ?thesis
      by (auto simp: frame_pop_cases [OF b] intro: error_running error_formatted_running)
  qed
qed

text \<open>One more argument of an accepted layout.\<close>

definition layout_arg_ok :: "AivmProgram \<Rightarrow> AivmInstruction list \<Rightarrow> nat \<Rightarrow> nat \<Rightarrow> nat list \<Rightarrow> bool" where
  "layout_arg_ok p is target i seen \<longleftrightarrow>
     target \<le> SIZE_MAX - i \<and> target + i < instruction_count p \<and>
     opcode (is ! (target + i)) = AIVM_OP_STORE_LOCAL \<and> 0 \<le> operand_int (is ! (target + i)) \<and>
     nat (operand_int (is ! (target + i))) \<notin> set seen"

lemma layout_loop_done: "n \<le> i \<Longrightarrow> layout_loop p is target n i seen vm = (True, vm)"
  by (subst layout_loop.simps) simp

lemma layout_loop_step:
  "i < n \<Longrightarrow> layout_arg_ok p is target i seen \<Longrightarrow>
   layout_loop p is target n i seen vm =
     layout_loop p is target n (Suc i) (seen @ [nat (operand_int (is ! (target + i)))]) vm"
  by (subst layout_loop.simps)
    (simp add: layout_arg_ok_def operand_to_index_def Let_def aivm_size_add_checked_def)

lemma layout_loop_fails:
  "i < n \<Longrightarrow> \<not> layout_arg_ok p is target i seen \<Longrightarrow>
   \<exists>d. layout_loop p is target n i seen vm =
         (False, aivm_set_vm_error vm AIVM_VM_ERR_INVALID_PROGRAM d)"
  by (subst layout_loop.simps)
    (simp add: layout_arg_ok_def operand_to_index_def Let_def set_vm_error_formatted_def
      aivm_size_add_checked_def; blast)

lemma layout_loop_result:
  "layout_loop p is target n i seen vm = (True, vm) \<or>
   (\<exists>d. layout_loop p is target n i seen vm =
          (False, aivm_set_vm_error vm AIVM_VM_ERR_INVALID_PROGRAM d))"
proof (induction "n - i" arbitrary: i seen)
  case 0
  then show ?case
    by (simp add: layout_loop_done)
next
  case (Suc m)
  show ?case
  proof (cases "layout_arg_ok p is target i seen")
    case True
    with Suc.hyps(2) have "layout_loop p is target n i seen vm =
        layout_loop p is target n (Suc i) (seen @ [nat (operand_int (is ! (target + i)))]) vm"
      by (intro layout_loop_step) simp_all
    then show ?thesis
      using Suc.hyps(1) [of "Suc i"] Suc.hyps(2) by simp
  next
    case False
    moreover have "i < n"
      using Suc.hyps(2) by simp
    ultimately show ?thesis
      using layout_loop_fails by blast
  qed
qed

text \<open>The local slots a prologue of \<open>n\<close> arguments stores to, in order.\<close>

definition prologue_locals :: "AivmInstruction list \<Rightarrow> nat \<Rightarrow> nat \<Rightarrow> nat list" where
  "prologue_locals is target n = map (\<lambda>k. nat (operand_int (is ! (target + k)))) [0..<n]"

lemma layout_loop_accepts:
  assumes "fst (layout_loop p is target n i seen vm)" and "i \<le> n"
    and "seen = prologue_locals is target i" and "distinct seen"
  shows "distinct (prologue_locals is target n) \<and>
         (\<forall>k. i \<le> k \<and> k < n \<longrightarrow> target + k < instruction_count p \<and>
            opcode (is ! (target + k)) = AIVM_OP_STORE_LOCAL \<and> 0 \<le> operand_int (is ! (target + k)))"
  using assms
proof (induction "n - i" arbitrary: i seen)
  case 0
  then show ?case by simp
next
  case (Suc m)
  then have "i < n"
    by simp
  then have arg: "layout_arg_ok p is target i seen"
    using layout_loop_fails [of i n p "is" target seen vm] Suc.prems(1) by (metis fst_conv)
  let ?seen = "seen @ [nat (operand_int (is ! (target + i)))]"
  have "layout_loop p is target n i seen vm = layout_loop p is target n (Suc i) ?seen vm"
    using arg Suc.hyps(2) by (intro layout_loop_step) simp_all
  then have "fst (layout_loop p is target n (Suc i) ?seen vm)"
    using Suc.prems(1) by simp
  moreover have "?seen = prologue_locals is target (Suc i)" and "distinct ?seen"
    using Suc.prems(3,4) arg by (simp_all add: prologue_locals_def layout_arg_ok_def)
  ultimately have "distinct (prologue_locals is target n) \<and>
      (\<forall>k. Suc i \<le> k \<and> k < n \<longrightarrow> target + k < instruction_count p \<and>
         opcode (is ! (target + k)) = AIVM_OP_STORE_LOCAL \<and> 0 \<le> operand_int (is ! (target + k)))"
    using Suc.hyps(1) [of "Suc i" ?seen] Suc.hyps(2) by simp
  then show ?case
    using arg by (metis layout_arg_ok_def le_neq_implies_less not_less_eq_eq not_less)
qed

lemma validate_layout_cases:
  assumes "instructions p \<noteq> None"
  shows "validate_call_target_layout vm p target n = (True, vm) \<or>
         (\<exists>d. validate_call_target_layout vm p target n =
                (False, aivm_set_vm_error vm AIVM_VM_ERR_INVALID_PROGRAM d))"
  using assms layout_loop_result [of p "the (instructions p)" target n 0 "[]" vm]
  by (cases "n > AIVM_CALL_LAYOUT_WINDOW")
    (force simp: validate_call_target_layout_def set_vm_error_formatted_def)+

lemma record_call_running [vm_inv]:
  "running_ok p vm \<Longrightarrow> running_ok p (aivm_vm_record_recent_call vm ip target n count)"
  by (simp add: running_ok_def machine_ok_def aivm_vm_record_recent_call_def vm_bounds_def)

lemma tail_call_ok:
  assumes "running_ok p vm" and "vm_call_frames vm = f # fs" and "target \<le> instruction_count p"
    and "n \<le> vm_stack_count vm" and "frame_base f \<le> vm_stack_count vm - n"
  shows "machine_ok p (tail_call vm f target n)"
  using assms by (auto simp: running_ok_def machine_ok_def tail_call_def vm_bounds_def)

lemma enter_call_keeps:
  assumes ok: "running_ok p vm" and "target < instruction_count p" and "n \<le> vm_stack_count vm"
  shows "keeps p (enter_call p vm target n)"
proof (cases "(case vm_call_frames vm of [] \<Rightarrow> False | f # _ \<Rightarrow> vm_stack_count vm - n < frame_base f)")
  case True
  then show ?thesis
    using ok by (simp add: enter_call_def Let_def keeps_Some park_ok error_formatted_running)
next
  case low: False
  show ?thesis
  proof (cases "is_tail_call p vm")
    case True
    then obtain f fs where "vm_call_frames vm = f # fs"
      by (cases "vm_call_frames vm") (auto simp: is_tail_call_def)
    with True low assms show ?thesis
      by (simp add: enter_call_def Let_def keeps_Some tail_call_ok not_less)
  next
    case False
    let ?push = "aivm_frame_push vm (Suc (vm_instruction_pointer vm)) (vm_stack_count vm - n)"
    have "running_ok p (snd ?push)"
      using ok low by (intro frame_push_running) (auto simp: running_ok_def split: list.splits)
    then have "keeps p (or_park p ?push (\<lambda>_ vm. Some (vm\<lparr>vm_instruction_pointer := target\<rparr>)))"
      using assms(2) by (intro or_park_keeps keeps_Some jump_ok) simp_all
    with False low ok show ?thesis
      by (auto simp: enter_call_def Let_def keeps_Some park_ok split: option.split)
  qed
qed

lemma op_call_keeps [vm_inv]:
  assumes ok: "running_ok p vm" and "instructions p \<noteq> None"
  shows "keeps p (op_call p i vm)"
  unfolding op_call_def
proof (rule or_park_keeps)
  show "running_ok p (snd (operand_to_index vm (operand_int i)))"
    using ok by (rule operand_running)
next
  fix target vm'
  assume ok': "running_ok p vm'"
  let ?n = "infer_call_arg_count p target"
  have "keeps p (enter_call p (aivm_vm_record_recent_call vm' (vm_instruction_pointer vm') target ?n
          (vm_stack_count vm')) target ?n)"
    if "target < instruction_count p" "?n \<le> vm_stack_count vm'"
    using that ok' by (intro enter_call_keeps record_call_running)
      (simp_all add: aivm_vm_record_recent_call_def)
  then show "keeps p (if target \<ge> instruction_count p then
         fail_with p vm' AIVM_VM_ERR_INVALID_PROGRAM ''Call target out of range.''
       else
         let arg_count = infer_call_arg_count p target in
         if arg_count > vm_stack_count vm' then
           Some (park p (set_vm_error_call_arg_depth vm' target arg_count (vm_stack_count vm')))
         else
           (case validate_call_target_layout vm' p target arg_count of
              (ok, vm) \<Rightarrow>
                if \<not> ok then Some (park p vm)
                else
                  enter_call p
                    (aivm_vm_record_recent_call vm (vm_instruction_pointer vm) target arg_count
                       (vm_stack_count vm))
                    target arg_count))"
    using ok' validate_layout_cases [OF assms(2), of vm' target ?n]
    by (auto simp: Let_def fail_with_keeps keeps_Some park_ok error_running
        set_vm_error_call_arg_depth_def error_formatted_running)
qed

text \<open>What the theorems ask of the garbage collector at a return: it keeps the invariant.\<close>

definition safe_point_ok :: "AivmProgram \<Rightarrow> 'a safe_point \<Rightarrow> bool" where
  "safe_point_ok p safe_point \<longleftrightarrow> (\<forall>vm. running_ok p vm \<longrightarrow> running_ok p (snd (safe_point vm)))"

lemma restore_cases:
  assumes "vm_bounds vm"
  shows "validate_vm_return_restore vm f n = (True, vm) \<or>
         (\<exists>d. validate_vm_return_restore vm f n =
                (False, aivm_set_vm_error vm AIVM_VM_ERR_INVALID_PROGRAM d))"
  using vm_bounds_counts [OF assms]
  by (auto simp: validate_vm_return_restore_def set_vm_error_formatted_def split: option.split)

lemma restore_stack_running:
  assumes "running_ok p vm" and "locals_base f \<le> vm_locals_count vm"
    and "frames_ok (instruction_count p) (locals_base f) (vm_call_frames vm)"
  shows "running_ok p (vm\<lparr>vm_stack := drop n (vm_stack vm), vm_locals_count := locals_base f\<rparr>)"
  using assms by (auto simp: running_ok_def machine_ok_def vm_bounds_def)

lemma record_return_running [vm_inv]:
  "running_ok p vm \<Longrightarrow> running_ok p (aivm_vm_record_recent_return vm a b c d e)"
  by (simp add: running_ok_def machine_ok_def aivm_vm_record_recent_return_def vm_bounds_def)

lemma leave_call_keeps:
  assumes ok: "running_ok p vm" and sp: "safe_point_ok p safe_point"
    and f: "locals_base f \<le> vm_locals_count vm" "return_instruction_pointer f \<le> instruction_count p"
      "frames_ok (instruction_count p) (locals_base f) (vm_call_frames vm)"
  shows "keeps p (leave_call safe_point p f vm)"
proof -
  let ?vm = "vm\<lparr>vm_stack := drop (vm_stack_count vm - frame_base f) (vm_stack vm),
               vm_locals_count := locals_base f\<rparr>"
  have vm: "running_ok p ?vm"
    by (rule restore_stack_running [OF ok f(1,3)])
  have b: "vm_bounds vm"
    using ok by (simp add: running_ok_def machine_ok_def)
  have tail: "keeps p (case safe_point (aivm_vm_record_recent_return v a b c d e) of
      (ok, w) \<Rightarrow> if \<not> ok then Some (park p w)
                 else Some (w\<lparr>vm_instruction_pointer := return_instruction_pointer f\<rparr>))"
    if "running_ok p v" for v :: "'a vm" and a b c d e
  proof -
    have "running_ok p (snd (safe_point (aivm_vm_record_recent_return v a b c d e)))"
      using sp record_return_running [OF that] unfolding safe_point_ok_def by blast
    then show ?thesis
      using f(2) by (auto simp: keeps_Some park_ok jump_ok split: prod.split)
  qed
  have body: "keeps p (or_park p (if c then aivm_stack_push ?vm v else (Some (), ?vm))
     (\<lambda>_ vm. (case safe_point (aivm_vm_record_recent_return vm a (vm_stack_count vm) d e h) of
        (ok, w) \<Rightarrow> if \<not> ok then Some (park p w)
                   else Some (w\<lparr>vm_instruction_pointer := return_instruction_pointer f\<rparr>))))"
    for c v a d e h
    using vm by (intro or_park_keeps tail) (simp_all add: push_running)
  from restore_cases [OF b, of f "vm_stack_count vm"] show ?thesis
  proof (elim disjE exE)
    assume "validate_vm_return_restore vm f (vm_stack_count vm) = (True, vm)"
    then show ?thesis
      unfolding leave_call_def Let_def by (simp only: prod.case not_True_eq_False if_False body)
  next
    fix d
    assume "validate_vm_return_restore vm f (vm_stack_count vm) =
      (False, aivm_set_vm_error vm AIVM_VM_ERR_INVALID_PROGRAM d)"
    then show ?thesis
      using ok by (simp add: leave_call_def Let_def keeps_Some park_ok error_running)
  qed
qed

lemma op_return_keeps [vm_inv]:
  assumes ok: "running_ok p vm" and sp: "safe_point_ok p safe_point"
  shows "keeps p (op_return safe_point p vm)"
proof (cases "vm_call_frames vm")
  case Nil
  then show ?thesis
    using ok by (simp add: op_return_def keeps_Some halt_ok)
next
  case (Cons f fs)
  have b: "vm_bounds vm" and fo: "frames_ok (instruction_count p) (vm_locals_count vm) (f # fs)"
    using ok Cons by (simp_all add: running_ok_def machine_ok_def)
  show ?thesis
  proof (cases "top_frame_fits vm")
    case False
    then show ?thesis
      using ok Cons by (simp add: op_return_def or_park_def frame_pop_cases [OF b] keeps_Some park_ok
          error_formatted_running)
  next
    case True
    let ?vm = "vm\<lparr>vm_call_frames := fs\<rparr>"
    have vm: "running_ok p ?vm"
      using ok Cons fo by (auto simp: running_ok_def machine_ok_def vm_bounds_def intro: frames_ok_mono)
    then have "keeps p (leave_call safe_point p f ?vm)"
      using fo by (intro leave_call_keeps [OF vm sp]) simp_all
    then show ?thesis
      using True Cons vm by (simp add: op_return_def or_park_def frame_pop_cases [OF b] fail_with_keeps)
  qed
qed

lemma pop_operands_keeps:
  assumes "running_ok p vm" and "\<And>l r vm'. running_ok p vm' \<Longrightarrow> keeps p (k l r vm')"
  shows "keeps p (pop_operands p vm k)"
  unfolding pop_operands_def
  by (intro or_park_keeps) (use assms in \<open>auto intro: pop_running\<close>)

lemma add_error_running [vm_inv]:
  "running_ok p vm \<Longrightarrow> running_ok p (aivm_vm_set_add_numeric_type_error vm l r)"
  by (simp add: aivm_vm_set_add_numeric_type_error_def Let_def error_formatted_running)

lemma local_error_running [vm_inv]:
  "running_ok p vm \<Longrightarrow> running_ok p (aivm_vm_set_local_out_of_range_error vm a b c)"
  by (simp add: aivm_vm_set_local_out_of_range_error_def error_formatted_running)

lemma op_arith_keeps:
  assumes "running_ok p vm"
  shows "keeps p (op_add_int p vm)" "keeps p (op_numeric p i vm)" "keeps p (op_lt_num p vm)"
    "keeps p (op_eq_int p vm)" "keeps p (op_eq p vm)"
  unfolding op_add_int_def op_numeric_def op_lt_num_def op_eq_int_def op_eq_def
  by (rule pop_operands_keeps [OF assms]; auto simp: Let_def vm_inv split: option.split)+

lemma op_move_keeps:
  assumes "running_ok p vm"
  shows "keeps p (op_push_int p i vm)" "keeps p (op_push_bool p i vm)" "keeps p (op_pop p vm)"
    "keeps p (op_store_local p i vm)" "keeps p (op_load_local p i vm)" "keeps p (op_const p i vm)"
  unfolding op_push_int_def op_push_bool_def op_pop_def op_store_local_def op_load_local_def
    op_const_def
  using assms by (auto intro!: or_park_keeps simp: vm_inv split: option.split)

lemma op_jump_keeps:
  assumes "running_ok p vm"
  shows "keeps p (op_jump p i vm)" "keeps p (op_jump_if_false p i vm)"
  unfolding op_jump_def op_jump_if_false_def
  using assms by (auto intro!: or_park_keeps simp: vm_inv split: AivmValue.split)

text \<open>What the theorems ask of the other opcode groups: started in a state that satisfies the
  invariant, a handler that returns leaves one.\<close>

definition other_ok :: "AivmProgram \<Rightarrow> 'a other_op \<Rightarrow> bool" where
  "other_ok p other \<longleftrightarrow> (\<forall>i vm. running_ok p vm \<longrightarrow> keeps p (other i vm))"

lemma execute_keeps:
  assumes "running_ok p vm" and "instructions p \<noteq> None"
    and "safe_point_ok p safe_point" and "other_ok p other"
  shows "keeps p (execute safe_point other p i vm)"
  using assms
  by (simp add: execute_def Let_def op_move_keeps op_arith_keeps op_jump_keeps op_call_keeps
      op_return_keeps fail_with_keeps keeps_Some advance_ok halt_ok running_machine error_running
      other_ok_def)

lemma begin_step_running:
  assumes "machine_ok p vm" and "vm_instruction_pointer vm < instruction_count p"
  shows "running_ok p (begin_step i vm)"
  using assms
  by (simp add: begin_step_def running_ok_def machine_ok_def aivm_vm_record_recent_opcode_def vm_bounds_def)

lemma finish_step_ok: "machine_ok p vm \<Longrightarrow> machine_ok p (finish_step p vm)"
  by (simp add: finish_step_def machine_ok_def vm_bounds_def)

lemma step_keeps:
  assumes "machine_ok p vm" and "safe_point_ok p safe_point" and "other_ok p other"
    and "aivm_step safe_point other vm = Some vm'"
  shows "machine_ok p vm'"
proof -
  have prog: "vm_program vm = Some p"
    using assms(1) by (simp add: machine_ok_def)
  have exec: "keeps p (execute safe_point other p i (begin_step i vm))"
    if "\<not> Option.is_none (instructions p)" "vm_instruction_pointer vm < instruction_count p" for i
    using that assms(1-3) by (intro execute_keeps begin_step_running) (auto simp: Option.is_none_def)
  have halt: "machine_ok p (vm\<lparr>vm_status := AIVM_VM_STATUS_HALTED\<rparr>)"
    using assms(1) by (simp add: machine_ok_def vm_bounds_def)
  have null: "machine_ok p (park p (aivm_set_vm_error vm e d))" if "e \<noteq> AIVM_VM_ERR_NONE" for e d
    using assms(1) that by (simp add: machine_ok_def park_def vm_bounds_def vm_simps)
  show ?thesis
    using assms(1,4) exec halt null prog
    by (auto simp: aivm_step_def fail_with_def keeps_def not_le
        split: if_splits option.splits intro: finish_step_ok)
qed

section \<open>Reachable states\<close>

text \<open>The step relation of a machine running \<open>p\<close>, and the states an initialised machine reaches.\<close>

inductive vm_step ::
  "'a safe_point \<Rightarrow> 'a other_op \<Rightarrow> AivmProgram \<Rightarrow> 'a vm \<Rightarrow> 'a vm \<Rightarrow> bool"
  for safe_point other p where
  step: "run_continues p vm \<Longrightarrow> aivm_step safe_point other vm = Some vm' \<Longrightarrow>
         vm_step safe_point other p vm vm'"

inductive_simps vm_step_iff: "vm_step safe_point other p vm vm'"

inductive vm_reaches ::
  "'a safe_point \<Rightarrow> 'a other_op \<Rightarrow> AivmProgram \<Rightarrow> 'a vm \<Rightarrow> 'a vm \<Rightarrow> bool"
  for safe_point other p where
  refl: "vm_reaches safe_point other p vm vm"
| step: "vm_reaches safe_point other p vm vm' \<Longrightarrow> vm_step safe_point other p vm' vm'' \<Longrightarrow>
         vm_reaches safe_point other p vm vm''"

inductive_cases vm_reachesE: "vm_reaches safe_point other p vm vm'"

lemma reaches_front:
  assumes "vm_reaches safe_point other p vm' vm''" and "vm_step safe_point other p vm vm'"
  shows "vm_reaches safe_point other p vm vm''"
  using assms by (induction rule: vm_reaches.induct) (auto intro: vm_reaches.intros)

lemma reaches_keeps:
  assumes "vm_reaches safe_point other p vm vm'" and "machine_ok p vm"
    and "safe_point_ok p safe_point" and "other_ok p other"
  shows "machine_ok p vm'"
  using assms
  by (induction rule: vm_reaches.induct) (auto simp: vm_step_iff dest: step_keeps)

lemma run_loop_reaches:
  assumes "run_loop fuel safe_point other p vm = RunFinished vm'"
  shows "vm_reaches safe_point other p vm vm' \<and> \<not> run_continues p vm'"
  using assms
proof (induction fuel arbitrary: vm)
  case 0
  then show ?case
    by (auto intro: vm_reaches.refl split: if_splits)
next
  case (Suc fuel)
  show ?case
  proof (cases "run_continues p vm")
    case False
    with Suc.prems show ?thesis
      by (auto intro: vm_reaches.refl)
  next
    case True
    with Suc.prems obtain w where w: "aivm_step safe_point other vm = Some w"
      "run_loop fuel safe_point other p w = RunFinished vm'"
      by (auto split: option.splits)
    with Suc.IH have "vm_reaches safe_point other p w vm' \<and> \<not> run_continues p vm'"
      by blast
    with True w(1) show ?thesis
      by (auto intro: reaches_front vm_step.step)
  qed
qed

lemma run_loop_more_fuel:
  assumes "run_loop fuel safe_point other p vm \<noteq> RunOutOfFuel"
  shows "run_loop (fuel + extra) safe_point other p vm = run_loop fuel safe_point other p vm"
  using assms
proof (induction fuel arbitrary: vm)
  case 0
  then show ?case
    by (cases extra) (auto split: if_splits)
next
  case (Suc fuel)
  then show ?case
    by (auto split: option.splits)
qed

lemma run_loop_complete:
  assumes "vm_reaches safe_point other p vm vm'" and "\<not> run_continues p vm'"
  shows "\<exists>fuel. run_loop fuel safe_point other p vm = RunFinished vm'"
proof -
  have "\<exists>k. \<forall>fuel. run_loop (k + fuel) safe_point other p vm = run_loop fuel safe_point other p vm'"
    using assms(1)
  proof (induction rule: vm_reaches.induct)
    case (refl vm)
    show ?case
      by (rule exI [of _ 0]) simp
  next
    case (step vm vm' vm'')
    then obtain k where k: "\<And>fuel. run_loop (k + fuel) safe_point other p vm =
        run_loop fuel safe_point other p vm'"
      by blast
    show ?case
    proof (intro exI [of _ "Suc k"] allI)
      fix fuel
      show "run_loop (Suc k + fuel) safe_point other p vm = run_loop fuel safe_point other p vm''"
        using k [of "Suc fuel"] step.hyps(2) by (simp add: vm_step_iff)
    qed
  qed
  then obtain k where "run_loop (k + 0) safe_point other p vm = run_loop 0 safe_point other p vm'"
    by blast
  with assms(2) show ?thesis
    by (intro exI [of _ k]) simp
qed

end
