(* ===== verification/VM_Properties.thy ===== *)
theory VM_Properties
  imports VM_Step
begin

text \<open>
  Properties of the interpreter: the invariant of every reachable state, definedness, the calling
  convention, arithmetic, errors and termination.
\<close>

section \<open>Initial states\<close>

lemma init_machine_ok: "machine_ok p (aivm_init_with_profile vm p profile)"
  by (simp add: machine_ok_def aivm_init_with_profile_def aivm_reset_state_def
      aivm_set_runtime_profile_def vm_bounds_def vm_capacities vm_growth)

text \<open>Parameters used by the witnesses: a collector that does nothing and no further opcodes.\<close>

definition no_collection :: "'a safe_point" where
  "no_collection vm = (True, vm)"

definition no_other_ops :: "'a other_op" where
  "no_other_ops i vm = None"

lemma no_collection_ok: "safe_point_ok p no_collection"
  by (simp add: safe_point_ok_def no_collection_def)

lemma no_other_ops_ok: "other_ok p no_other_ops"
  by (simp add: other_ok_def no_other_ops_def keeps_None)

definition instr :: "nat \<Rightarrow> int \<Rightarrow> AivmInstruction" where
  "instr c n = \<lparr>opcode = c, operand_int = n\<rparr>"

definition program_of :: "AivmInstruction list \<Rightarrow> AivmProgram" where
  "program_of is = aivm_program_init (Some is) (length is)"

definition start :: "AivmInstruction list \<Rightarrow> AivmVm" where
  "start is = aivm_init_with_profile zeroed_vm (program_of is) AIVM_RUNTIME_PROFILE_PRODUCTION"


definition demo_program :: "AivmInstruction list" where
  "demo_program = [instr AIVM_OP_PUSH_INT 7, instr AIVM_OP_HALT 0]"

lemma grow_limit_loop_kept: "needed \<le> limit \<Longrightarrow> grow_limit_loop needed step max_value limit = limit"
  by (simp add: grow_limit_loop_def while_unfold)

text \<open>What evaluates a step of a concrete machine.\<close>

lemmas step_eval =
  start_def program_of_def aivm_program_init_def aivm_program_clear_def instr_def
  aivm_init_with_profile_def aivm_reset_state_def aivm_set_runtime_profile_def zeroed_vm_def
  aivm_step_def execute_def begin_step_def finish_step_def fetch_def or_park_def park_def
  advance_def push_and_advance_def push_defined_def pop_operands_def operand_to_index_def
  aivm_halt_def fail_with_def run_continues_def aivm_vm_record_recent_opcode_def
  AIVM_VM_RECENT_OPCODES_def aivm_stack_push_def aivm_stack_pop_def ensure_stack_capacity_def
  grow_limit_loop_kept vm_growth SIZE_MAX_def no_collection_def no_other_ops_def
  op_push_int_def op_push_bool_def op_pop_def op_const_def

definition demo_state :: AivmVm where
  "demo_state = the (aivm_step no_collection no_other_ops (start demo_program))"

lemma demo_first_step:
  "vm_step no_collection no_other_ops (program_of demo_program) (start demo_program) demo_state"
  by (simp add: vm_step_iff demo_state_def demo_program_def step_eval)


section \<open>Definedness\<close>

definition arithmetic_opcodes :: "nat list" where
  "arithmetic_opcodes =
     [AIVM_OP_ADD_INT, AIVM_OP_SUB_NUM, AIVM_OP_MUL_NUM, AIVM_OP_DIV_NUM, AIVM_OP_MOD_NUM,
      AIVM_OP_POW_NUM]"

definition returns :: "'v option \<Rightarrow> bool" where
  "returns r \<longleftrightarrow> r \<noteq> None"

lemma returns_Some [simp]: "returns (Some x)"
  by (simp add: returns_def)

lemma returns_fail_with [simp]: "returns (fail_with p vm e d)"
  by (simp add: fail_with_def)

lemma or_park_returns: "(\<And>x vm'. returns (k x vm')) \<Longrightarrow> returns (or_park p r k)"
  by (simp add: or_park_def split: prod.split option.split)

lemma push_and_advance_returns [simp]: "returns (push_and_advance p vm v)"
  unfolding push_and_advance_def by (rule or_park_returns) simp

lemma pop_operands_returns: "(\<And>l r vm'. returns (k l r vm')) \<Longrightarrow> returns (pop_operands p vm k)"
  unfolding pop_operands_def by (intro or_park_returns)

lemma op_const_returns: "wf_program p \<Longrightarrow> returns (op_const p i vm)"
  unfolding op_const_def
  by (rule or_park_returns) (auto simp: wf_program_def split: option.splits)

lemma leave_call_returns: "returns (leave_call safe_point p f vm)"
  unfolding leave_call_def Let_def
  by (simp split: prod.split) (intro allI conjI impI or_park_returns; simp split: prod.split)

lemma enter_call_returns: "returns (enter_call p vm target n)"
  unfolding enter_call_def Let_def
  by (simp add: or_park_returns split: option.split)

lemma op_call_returns: "returns (op_call p i vm)"
  unfolding op_call_def Let_def
  by (rule or_park_returns) (simp add: enter_call_returns split: prod.split)

lemma op_move_returns:
  "returns (op_pop p vm)" "returns (op_store_local p i vm)" "returns (op_load_local p i vm)"
  "returns (op_push_int p i vm)" "returns (op_push_bool p i vm)"
  unfolding op_pop_def op_store_local_def op_load_local_def op_push_int_def op_push_bool_def
  by (simp_all add: or_park_returns split: option.split)

lemma op_jump_returns: "returns (op_jump p i vm)" "returns (op_jump_if_false p i vm)"
  unfolding op_jump_def op_jump_if_false_def
  by (intro or_park_returns; simp split: AivmValue.split)+

lemma op_compare_returns:
  "returns (op_lt_num p vm)" "returns (op_eq_int p vm)" "returns (op_eq p vm)"
  unfolding op_lt_num_def op_eq_int_def op_eq_def
  by (intro pop_operands_returns; simp split: option.split)+

lemma op_return_returns: "returns (op_return safe_point p vm)"
  unfolding op_return_def by (simp add: or_park_returns leave_call_returns)

lemma execute_returns:
  assumes "opcode i \<in> set core_opcodes" and "opcode i \<notin> set arithmetic_opcodes" and "wf_program p"
  shows "returns (execute safe_point other p i vm)"
  using assms(1,2) op_const_returns [OF assms(3)]
  by (auto simp: execute_def Let_def core_opcodes_def arithmetic_opcodes_def op_move_returns
      op_jump_returns op_compare_returns op_return_returns op_call_returns)

lemma fetch_wf:
  "wf_program p \<Longrightarrow> k < instruction_count p \<Longrightarrow> \<exists>i. fetch p k = Some i \<and> valid_instruction i"
  by (auto simp: wf_program_def fetch_def list_all_length split: option.splits)



section \<open>Arithmetic\<close>

text \<open>A machine about to execute the instruction \<open>i\<close>.\<close>

definition about_to_execute :: "AivmProgram \<Rightarrow> AivmInstruction \<Rightarrow> 'a vm \<Rightarrow> bool" where
  "about_to_execute p i vm \<longleftrightarrow>
     machine_ok p vm \<and> run_continues p vm \<and> fetch p (vm_instruction_pointer vm) = Some i"

lemma step_executes:
  assumes "about_to_execute p i vm"
  shows "aivm_step safe_point other vm =
           map_option (finish_step p) (execute safe_point other p i (begin_step i vm))"
  using assms
  by (auto simp: about_to_execute_def machine_ok_def run_continues_def aivm_step_def fetch_def
      split: option.splits)

lemma begin_step_sel [vm_simps]:
  "vm_program (begin_step i vm) = vm_program vm"
  "vm_stack (begin_step i vm) = vm_stack vm"
  "vm_call_frames (begin_step i vm) = vm_call_frames vm"
  "vm_instruction_pointer (begin_step i vm) = vm_instruction_pointer vm"
  "vm_locals (begin_step i vm) = vm_locals vm"
  "vm_locals_count (begin_step i vm) = vm_locals_count vm"
  "vm_locals_limit (begin_step i vm) = vm_locals_limit vm"
  "vm_status (begin_step i vm) = AIVM_VM_STATUS_RUNNING"
  "vm_stack_limit (begin_step i vm) = vm_stack_limit vm"
  "vm_call_frame_limit (begin_step i vm) = vm_call_frame_limit vm"
  "vm_bounds (begin_step i vm) = vm_bounds vm"
  by (simp_all add: begin_step_def aivm_vm_record_recent_opcode_def vm_bounds_def)

lemma finish_step_sel [vm_simps]:
  "vm_stack (finish_step p vm) = vm_stack vm"
  "vm_call_frames (finish_step p vm) = vm_call_frames vm"
  "vm_instruction_pointer (finish_step p vm) = vm_instruction_pointer vm"
  "vm_locals (finish_step p vm) = vm_locals vm"
  "vm_locals_count (finish_step p vm) = vm_locals_count vm"
  "vm_error (finish_step p vm) = vm_error vm"
  by (simp_all add: finish_step_def)

text \<open>Popping two operands and pushing one result always fits.\<close>

lemma pop2_push1:
  assumes "vm_bounds vm" and "vm_stack vm = r # l # rest"
  shows "\<exists>vm'. pop_operands p vm (\<lambda>l r vm. push_and_advance p vm (f l r)) = Some vm' \<and>
           vm_stack vm' = f l r # rest \<and>
           vm_instruction_pointer vm' = vm_instruction_pointer vm + 1 \<and>
           vm_call_frames vm' = vm_call_frames vm \<and> vm_locals vm' = vm_locals vm \<and>
           vm_locals_count vm' = vm_locals_count vm \<and> vm_status vm' = vm_status vm"
proof -
  let ?vm = "vm\<lparr>vm_stack := rest\<rparr>"
  have b: "vm_bounds ?vm" and room: "vm_stack_count ?vm < AIVM_VM_STACK_CAPACITY"
    using assms by (auto simp: vm_bounds_def)
  obtain limit where "aivm_stack_push ?vm (f l r) =
      (Some (), ?vm\<lparr>vm_stack_limit := limit, vm_stack := f l r # rest\<rparr>)"
    using stack_push_cases [OF b, of "f l r"] room by auto
  then show ?thesis
    using assms(2)
    by (simp add: pop_operands_def or_park_def aivm_stack_pop_def push_and_advance_def advance_def)
qed

text \<open>The integer instructions as functions on integers; \<open>None\<close> is undefined behaviour of C.\<close>

definition int_instruction :: "nat \<Rightarrow> int \<Rightarrow> int \<Rightarrow> int option" where
  "int_instruction c a b =
     (if c = AIVM_OP_ADD_INT then i64_result (a + b)
      else if c = AIVM_OP_SUB_NUM then i64_result (a - b)
      else i64_result (a * b))"

lemma execute_int:
  assumes "opcode i \<in> {AIVM_OP_ADD_INT, AIVM_OP_SUB_NUM, AIVM_OP_MUL_NUM}"
    and "vm_stack vm = ValInt b # ValInt a # rest"
  shows "execute safe_point other p i vm =
           (case int_instruction (opcode i) a b of
              None \<Rightarrow> None
            | Some r \<Rightarrow> pop_operands p vm (\<lambda>_ _ vm. push_and_advance p vm (ValInt r)))"
  using assms
  by (elim insertE emptyE)
    (simp_all add: execute_def op_add_int_def op_numeric_def pop_operands_def or_park_def
      aivm_stack_pop_def both_numbers_def both_int_def push_defined_def int_instruction_def
      i64_result_def)


text \<open>A machine at the first instruction of a program, with operands on its stack.\<close>

definition loaded :: "AivmInstruction list \<Rightarrow> AivmValue list \<Rightarrow> AivmVm" where
  "loaded is vs = (start is)\<lparr>vm_stack := vs\<rparr>"

lemma loaded_about_to_execute:
  assumes "length vs \<le> AIVM_VM_STACK_INITIAL_CAPACITY"
  shows "about_to_execute (program_of (i # is)) i (loaded (i # is) vs)"
  using assms
  by (simp add: about_to_execute_def machine_ok_def vm_bounds_def vm_capacities loaded_def step_eval)

lemma loaded_sel [vm_simps]:
  "vm_stack (loaded is vs) = vs" "vm_instruction_pointer (loaded is vs) = 0"
  "vm_call_frames (loaded is vs) = []" "vm_locals_count (loaded is vs) = 0"
  by (simp_all add: loaded_def start_def aivm_init_with_profile_def aivm_reset_state_def)


lemma value_equals_int:
  assumes "\<bar>a\<bar> \<le> 2 ^ 53" and "\<bar>b\<bar> \<le> 2 ^ 53"
  shows "aivm_value_equals sa ba (ValInt a) (ValInt b) \<longleftrightarrow> a = b"
  using f64_rep_eq [OF f64_of_int_rep [OF assms(1)] f64_of_int_rep [OF assms(2)]]
  by (simp add: aivm_value_equals_def)

definition int_comparison :: "nat \<Rightarrow> int \<Rightarrow> int \<Rightarrow> bool" where
  "int_comparison c a b = (if c = AIVM_OP_LT_NUM then a < b else a = b)"

lemma execute_comparison:
  assumes "opcode i \<in> {AIVM_OP_LT_NUM, AIVM_OP_EQ_INT, AIVM_OP_EQ}"
    and "vm_stack vm = ValInt b # ValInt a # rest"
    and "opcode i = AIVM_OP_EQ_INT \<or> \<bar>a\<bar> \<le> 2 ^ 53 \<and> \<bar>b\<bar> \<le> 2 ^ 53"
  shows "execute safe_point other p i vm =
           pop_operands p vm (\<lambda>_ _ vm. push_and_advance p vm (ValBool (int_comparison (opcode i) a b)))"
proof -
  have "f64_lt (f64_of_int a) (f64_of_int b) \<longleftrightarrow> a < b" if "\<bar>a\<bar> \<le> 2 ^ 53 \<and> \<bar>b\<bar> \<le> 2 ^ 53"
    using that f64_rep_lt [OF f64_of_int_rep f64_of_int_rep] by blast
  with assms show ?thesis
    by (elim insertE emptyE)
      (simp_all add: execute_def op_lt_num_def op_eq_int_def op_eq_def pop_operands_def or_park_def
        aivm_stack_pop_def both_numbers_def both_int_def int_comparison_def value_equals_int)
qed

text \<open>LT_NUM, EQ_INT and EQ on two integers leave the truth value of the comparison
  in place of the operands; for LT_NUM and EQ, which compare as doubles, this is stated for
  integers of magnitude at most 2 to the 53.\<close>

theorem int_comparison_exact:
  assumes "about_to_execute p i vm" and "vm_stack vm = ValInt b # ValInt a # rest"
    and "opcode i \<in> {AIVM_OP_LT_NUM, AIVM_OP_EQ_INT, AIVM_OP_EQ}"
    and "opcode i = AIVM_OP_EQ_INT \<or> \<bar>a\<bar> \<le> 2 ^ 53 \<and> \<bar>b\<bar> \<le> 2 ^ 53"
  shows "\<exists>vm'. aivm_step safe_point other vm = Some vm' \<and>
           vm_stack vm' = ValBool (int_comparison (opcode i) a b) # rest \<and>
           vm_instruction_pointer vm' = vm_instruction_pointer vm + 1"
proof -
  have b: "vm_bounds (begin_step i vm)" and st: "vm_stack (begin_step i vm) = ValInt b # ValInt a # rest"
    using assms(1,2) by (simp_all add: about_to_execute_def machine_ok_def vm_simps)
  show ?thesis
    using pop2_push1 [OF b st, of p "\<lambda>_ _. ValBool (int_comparison (opcode i) a b)"]
    by (auto simp: step_executes [OF assms(1)] execute_comparison [OF assms(3) st assms(4)] vm_simps)
qed

theorem int_comparison_exact_witness:
  "\<exists>vm'. aivm_step no_collection no_other_ops
           (loaded [instr AIVM_OP_LT_NUM 0] [ValInt 6, ValInt (- 7)]) = Some vm' \<and>
         vm_stack vm' = [ValBool True]"
  using int_comparison_exact [OF loaded_about_to_execute, of "[ValInt 6, ValInt (- 7)]"
      "instr AIVM_OP_LT_NUM 0" "[]" 6 "- 7" "[]" no_collection no_other_ops]
  by (auto simp: vm_simps vm_growth instr_def int_comparison_def)


section \<open>Calls and returns\<close>

lemma infer_loop_takeWhile:
  assumes "length is = n" and "n \<le> SIZE_MAX" and "count \<le> index"
  shows "infer_loop is n index count =
           count + length (takeWhile (\<lambda>i. opcode i = AIVM_OP_STORE_LOCAL) (drop index is))"
  using assms
proof (induction "is" n index count rule: infer_loop.induct)
  case (1 "is" n index count)
  show ?case
  proof (cases "index < n")
    case False
    then show ?thesis
      using 1(2) by (simp add: infer_loop.simps)
  next
    case True
    then have drop: "drop index is = is ! index # drop (Suc index) is"
      using 1(2) by (simp add: Cons_nth_drop_Suc)
    have sizes: "Suc count \<le> SIZE_MAX" "Suc index \<le> SIZE_MAX"
      using True 1(3,4) by simp_all
    show ?thesis
    proof (cases "opcode (is ! index) = AIVM_OP_STORE_LOCAL")
      case store: True
      have "infer_loop is n index count = infer_loop is n (index + 1) (count + 1)"
        using True store sizes by (subst infer_loop.simps) simp
      also have "\<dots> = count + 1 +
          length (takeWhile (\<lambda>i. opcode i = AIVM_OP_STORE_LOCAL) (drop (index + 1) is))"
        using True store sizes 1(2-4)
        by (intro 1(1)) simp_all
      finally show ?thesis
        using store by (simp add: drop)
    next
      case False
      then show ?thesis
        by (subst infer_loop.simps) (simp add: drop)
    qed
  qed
qed

text \<open>The argument count of a call is the number of STORE_LOCAL instructions the
  target starts with.\<close>

lemma infer_call_arg_count_prologue:
  assumes "wf_program p" and "instructions p = Some is" and "instruction_count p \<le> SIZE_MAX"
  shows "infer_call_arg_count p target =
           length (takeWhile (\<lambda>i. opcode i = AIVM_OP_STORE_LOCAL) (drop target is))"
  using assms infer_loop_takeWhile [of "is" "instruction_count p" 0 target]
  by (auto simp: infer_call_arg_count_def wf_program_def)

definition double_function :: "AivmInstruction list" where
  "double_function =
     [instr AIVM_OP_CALL 2, instr AIVM_OP_HALT 0,
      instr AIVM_OP_STORE_LOCAL 0, instr AIVM_OP_LOAD_LOCAL 0, instr AIVM_OP_LOAD_LOCAL 0,
      instr AIVM_OP_ADD_INT 0, instr AIVM_OP_RETURN 0]"

lemma double_function_wf: "wf_program (program_of double_function)"
  by (simp add: wf_program_def step_eval double_function_def valid_instruction_def AIVM_OP_MAX_def
      i64_defs program_limits)

lemma infer_call_arg_count_prologue_witness:
  "infer_call_arg_count (program_of double_function) 2 = 1"
  by (subst infer_call_arg_count_prologue [OF double_function_wf, of double_function])
    (simp_all add: program_of_def aivm_program_init_def SIZE_MAX_def double_function_def instr_def)

text \<open>When a call is accepted as an ordinary one: the target exists, enough arguments are on the
  stack above the caller's base, the prologue stores them to different locals, there is room for a
  frame, and the next instruction is not a return.\<close>

definition call_accepted :: "AivmProgram \<Rightarrow> AivmInstruction \<Rightarrow> nat \<Rightarrow> 'a vm \<Rightarrow> bool" where
  "call_accepted p i n vm \<longleftrightarrow>
     opcode i = AIVM_OP_CALL \<and> 0 \<le> operand_int i \<and> nat (operand_int i) < instruction_count p \<and>
     n = infer_call_arg_count p (nat (operand_int i)) \<and> n \<le> vm_stack_count vm \<and>
     fst (validate_call_target_layout vm p (nat (operand_int i)) n) \<and>
     (case vm_call_frames vm of [] \<Rightarrow> True | f # _ \<Rightarrow> frame_base f \<le> vm_stack_count vm - n) \<and>
     \<not> is_tail_call p vm \<and> top_frame_fits vm \<and> vm_call_frame_count vm < AIVM_VM_CALLFRAME_CAPACITY"

lemma frame_push_succeeds:
  assumes "vm_bounds vm" and "top_frame_fits vm" and "base \<le> vm_stack_count vm"
    and "vm_call_frame_count vm < AIVM_VM_CALLFRAME_CAPACITY"
  shows "\<exists>limit. aivm_frame_push vm rip base =
           (Some (), vm\<lparr>vm_call_frame_limit := limit, vm_call_frames :=
              \<lparr>return_instruction_pointer = rip, frame_base = base,
               locals_base = vm_locals_count vm\<rparr> # vm_call_frames vm\<rparr>)"
proof -
  let ?needed = "Suc (vm_call_frame_count vm)"
  have le: "vm_call_frame_limit vm \<le> AIVM_VM_CALLFRAME_CAPACITY"
    and size: "?needed \<le> SIZE_MAX"
    using assms capacities_below_size_max(2) by (auto simp: vm_bounds_def)
  have "?needed \<le> grow_limit_loop ?needed AIVM_VM_CALLFRAME_GROWTH_STEP
      AIVM_VM_CALLFRAME_CAPACITY (vm_call_frame_limit vm)"
    using grow_limit_loop_spec [OF growth_steps_pos(2) le, of ?needed] assms(4) by simp
  then show ?thesis
    using assms(2,3) size
    by (simp add: aivm_frame_push_def validate_call_local_state_cases [OF assms(1)]
        ensure_call_frame_capacity_def Let_def; blast)
qed

lemma validate_layout_accepted:
  assumes "instructions p \<noteq> None" and "fst (validate_call_target_layout vm p target n)"
  shows "validate_call_target_layout vm p target n = (True, vm)"
  using validate_layout_cases [OF assms(1), of vm target n] assms(2) by auto

lemma layout_loop_indep:
  "fst (layout_loop p is target n i seen vm) = fst (layout_loop p is target n i seen vm')"
proof (induction "n - i" arbitrary: i seen)
  case 0
  then show ?case
    by (simp add: layout_loop_done)
next
  case (Suc m)
  then have "i < n" by simp
  show ?case
  proof (cases "layout_arg_ok p is target i seen")
    case True
    then show ?thesis
      using Suc.hyps(1) [of "Suc i"] Suc.hyps(2) by (simp add: layout_loop_step [OF \<open>i < n\<close>])
  next
    case False
    then show ?thesis
      using layout_loop_fails [OF \<open>i < n\<close> False] by (metis fst_conv)
  qed
qed

lemma validate_layout_indep:
  "fst (validate_call_target_layout vm p target n) = fst (validate_call_target_layout vm' p target n)"
  by (simp add: validate_call_target_layout_def layout_loop_indep [of _ _ _ _ _ _ vm vm']
      split: option.split)

lemma call_accepted_begin_step: "call_accepted p i n (begin_step i vm) = call_accepted p i n vm"
  using validate_layout_indep [of "begin_step i vm" p "nat (operand_int i)" n vm]
  by (simp add: call_accepted_def is_tail_call_def top_frame_fits_def vm_simps cong: list.case_cong)

lemma call_step:
  assumes at: "about_to_execute p i vm" and acc: "call_accepted p i n vm"
    and size: "instruction_count p \<le> SIZE_MAX"
  shows "\<exists>vm'. aivm_step safe_point other vm = Some vm' \<and>
           vm_instruction_pointer vm' = nat (operand_int i) \<and> vm_stack vm' = vm_stack vm \<and>
           vm_call_frames vm' =
             \<lparr>return_instruction_pointer = vm_instruction_pointer vm + 1,
              frame_base = vm_stack_count vm - n, locals_base = vm_locals_count vm\<rparr>
             # vm_call_frames vm \<and>
           vm_locals_count vm' = vm_locals_count vm \<and> vm_locals vm' = vm_locals vm \<and>
           vm_status vm' = AIVM_VM_STATUS_RUNNING"
proof -
  let ?t = "nat (operand_int i)" and ?v = "begin_step i vm"
  let ?r = "aivm_vm_record_recent_call ?v (vm_instruction_pointer vm) ?t n (vm_stack_count vm)"
  have ins: "instructions p \<noteq> None"
    using at by (auto simp: about_to_execute_def fetch_def split: option.splits)
  have acc': "call_accepted p i n ?v"
    using acc by (simp add: call_accepted_begin_step)
  have ip: "Suc (vm_instruction_pointer vm) \<le> SIZE_MAX"
    using at size by (simp add: about_to_execute_def run_continues_def)
  have r: "vm_bounds ?r" "top_frame_fits ?r = top_frame_fits ?v" "vm_stack ?r = vm_stack vm"
    "vm_call_frames ?r = vm_call_frames vm" "is_tail_call p ?r = is_tail_call p ?v"
    "vm_instruction_pointer ?r = vm_instruction_pointer vm" "vm_locals_count ?r = vm_locals_count vm"
    "vm_locals ?r = vm_locals vm"
    using at by (simp_all add: about_to_execute_def machine_ok_def aivm_vm_record_recent_call_def
        vm_bounds_def top_frame_fits_def is_tail_call_def vm_simps cong: list.case_cong)
  obtain limit where push: "aivm_frame_push ?r (Suc (vm_instruction_pointer vm)) (vm_stack_count vm - n) =
      (Some (), ?r\<lparr>vm_call_frame_limit := limit, vm_call_frames :=
              \<lparr>return_instruction_pointer = Suc (vm_instruction_pointer vm),
               frame_base = vm_stack_count vm - n,
               locals_base = vm_locals_count vm\<rparr> # vm_call_frames vm\<rparr>)"
    using frame_push_succeeds [OF r(1), of "vm_stack_count vm - n"] acc' r
    by (auto simp: call_accepted_def vm_simps)
  have acc_facts: "\<not> is_tail_call p ?v"
    "\<not> (case vm_call_frames vm of [] \<Rightarrow> False | f # _ \<Rightarrow> vm_stack_count vm - n < frame_base f)"
    using acc' unfolding call_accepted_def by (auto simp: vm_simps split: list.splits)
  have "validate_call_target_layout ?v p ?t n = (True, ?v)"
    by (rule validate_layout_accepted [OF ins]) (use acc' [unfolded call_accepted_def] in blast)
  then have "execute safe_point other p i ?v = enter_call p ?r ?t n"
    using acc' by (simp add: execute_def op_call_def or_park_def operand_to_index_def
        call_accepted_def Let_def vm_simps)
  also have "\<dots> = Some (?r\<lparr>vm_call_frame_limit := limit, vm_call_frames :=
              \<lparr>return_instruction_pointer = Suc (vm_instruction_pointer vm),
               frame_base = vm_stack_count vm - n,
               locals_base = vm_locals_count vm\<rparr> # vm_call_frames vm,
              vm_instruction_pointer := ?t\<rparr>)"
    using acc_facts ip push r
    by (simp add: enter_call_def Let_def or_park_def)
  finally show ?thesis
    using acc by (simp add: step_executes [OF at] vm_simps r call_accepted_def finish_step_def
        aivm_vm_record_recent_call_def)
qed

text \<open>A safe point that collects without touching the core state.\<close>

definition safe_point_silent :: "'a safe_point \<Rightarrow> bool" where
  "safe_point_silent safe_point \<longleftrightarrow>
     (\<forall>vm. fst (safe_point vm) \<and> vm_stack (snd (safe_point vm)) = vm_stack vm \<and>
        vm_call_frames (snd (safe_point vm)) = vm_call_frames vm \<and>
        vm_locals_count (snd (safe_point vm)) = vm_locals_count vm)"

lemma no_collection_silent: "safe_point_silent no_collection"
  by (simp add: safe_point_silent_def no_collection_def)

lemma leave_call_restores:
  assumes b: "vm_bounds vm" and st: "vm_stack vm = vs @ base" and len: "length vs \<le> 1"
    and f: "frame_base f = length base" and sp: "safe_point_silent safe_point"
  shows "\<exists>vm'. leave_call safe_point p f vm = Some vm' \<and> vm_stack vm' = vs @ base \<and>
           vm_call_frames vm' = vm_call_frames vm \<and> vm_locals_count vm' = locals_base f \<and>
           vm_instruction_pointer vm' = return_instruction_pointer f"
proof -
  let ?v = "vm\<lparr>vm_stack := base, vm_locals_count := locals_base f\<rparr>"
  have cap: "length base + length vs \<le> AIVM_VM_STACK_CAPACITY"
    using b st by (auto simp: vm_bounds_def)
  have val: "validate_vm_return_restore vm f (vm_stack_count vm) = (True, vm)"
    using vm_bounds_counts [OF b] st len f cap capacities_below_size_max(1)
    by (simp add: validate_vm_return_restore_def split: option.split)
  have push: "\<exists>w. (if vm_stack_count vm > frame_base f then aivm_stack_push ?v (hd (vm_stack vm))
                 else (Some (), ?v)) = (Some (), w) \<and> vm_stack w = vs @ base \<and>
              vm_call_frames w = vm_call_frames vm \<and> vm_locals_count w = locals_base f"
  proof (cases vs)
    case Nil
    then show ?thesis
      using st f by simp
  next
    case (Cons v us)
    then have vs: "vs = [v]"
      using len by simp
    have "aivm_size_add_checked (vm_stack_count ?v) 1 = Some (Suc (length base))"
      "Suc (length base) \<le> grow_limit_loop (Suc (length base)) AIVM_VM_STACK_GROWTH_STEP
         AIVM_VM_STACK_CAPACITY (vm_stack_limit ?v)"
      using grow_limit_loop_spec [OF growth_steps_pos(1), of "vm_stack_limit vm"
          AIVM_VM_STACK_CAPACITY "Suc (length base)"] b cap vs capacities_below_size_max(1)
      by (simp_all add: vm_bounds_def)
    then show ?thesis
      using st f vs
      by (simp add: aivm_stack_push_def ensure_stack_capacity_def Let_def aivm_size_add_checked_def)
  qed
  then obtain w where w: "(if vm_stack_count vm > frame_base f then aivm_stack_push ?v (hd (vm_stack vm))
                 else (Some (), ?v)) = (Some (), w)" "vm_stack w = vs @ base"
    "vm_call_frames w = vm_call_frames vm" "vm_locals_count w = locals_base f"
    by blast
  have d: "drop (vm_stack_count vm - frame_base f) (vm_stack vm) = base"
    using st f by simp
  define k where "k = (\<lambda>(u :: unit) vm'. case safe_point
           (aivm_vm_record_recent_return vm' (return_instruction_pointer f) (vm_stack_count vm')
              (vm_stack_count vm) (frame_base f) (vm_stack_count vm > frame_base f)) of
           (ok, vm') \<Rightarrow> if \<not> ok then Some (park p vm')
             else Some (vm'\<lparr>vm_instruction_pointer := return_instruction_pointer f\<rparr>))"
  have "leave_call safe_point p f vm =
      or_park p (if vm_stack_count vm > frame_base f then aivm_stack_push ?v (hd (vm_stack vm))
                 else (Some (), ?v)) k"
    unfolding leave_call_def Let_def val k_def
    by (simp only: prod.case not_True_eq_False if_False d) simp
  also have "\<dots> = k () w"
    by (simp only: w(1) or_park_def prod.case option.case)
  finally have "leave_call safe_point p f vm = k () w" .
  moreover obtain ok v where v: "safe_point (aivm_vm_record_recent_return w
      (return_instruction_pointer f) (vm_stack_count w) (vm_stack_count vm) (frame_base f)
      (vm_stack_count vm > frame_base f)) = (ok, v)"
    by fastforce
  moreover have "ok \<and> vm_stack v = vm_stack w \<and> vm_call_frames v = vm_call_frames w \<and>
      vm_locals_count v = vm_locals_count w"
    using sp [unfolded safe_point_silent_def, rule_format, of "aivm_vm_record_recent_return w
      (return_instruction_pointer f) (vm_stack_count w) (vm_stack_count vm) (frame_base f)
      (vm_stack_count vm > frame_base f)"] v
    by (simp add: aivm_vm_record_recent_return_def)
  ultimately show ?thesis
    using w by (simp add: k_def)
qed

lemma return_step:
  assumes at: "about_to_execute p i vm" and op: "opcode i = AIVM_OP_RET \<or> opcode i = AIVM_OP_RETURN"
    and frames: "vm_call_frames vm = f # fs" and locals: "locals_base f \<le> vm_locals_count vm"
    and st: "vm_stack vm = vs @ base" and len: "length vs \<le> 1" and f: "frame_base f = length base"
    and sp: "safe_point_silent safe_point"
  shows "\<exists>vm'. aivm_step safe_point other vm = Some vm' \<and> vm_stack vm' = vs @ base \<and>
           vm_call_frames vm' = fs \<and> vm_locals_count vm' = locals_base f \<and>
           vm_instruction_pointer vm' = return_instruction_pointer f"
proof -
  let ?v = "begin_step i vm"
  have b: "vm_bounds ?v" and ret: "return_instruction_pointer f \<le> instruction_count p"
    using at frames by (simp_all add: about_to_execute_def machine_ok_def vm_simps)
  have "top_frame_fits ?v"
    using frames locals st f by (simp add: top_frame_fits_def vm_simps)
  then have pop: "aivm_frame_pop ?v = (Some f, ?v\<lparr>vm_call_frames := fs\<rparr>)"
    using frames by (simp add: frame_pop_cases [OF b] vm_simps)
  have b': "vm_bounds (?v\<lparr>vm_call_frames := fs\<rparr>)"
    using b frames by (simp add: vm_bounds_def vm_simps)
  have "execute safe_point other p i ?v = leave_call safe_point p f (?v\<lparr>vm_call_frames := fs\<rparr>)"
    using op frames ret st f
    by (auto simp: execute_def op_return_def or_park_def pop vm_simps)
  then show ?thesis
    using leave_call_restores [OF b' _ len f sp, of p] st
    by (auto simp: step_executes [OF at] vm_simps)
qed


lemma double_function_call_accepted:
  "call_accepted (program_of double_function) (instr AIVM_OP_CALL 2) 1
     (loaded double_function [ValInt 5])"
proof -
  have n: "infer_call_arg_count (program_of double_function) 2 = 1"
    by (simp add: infer_call_arg_count_def program_of_def aivm_program_init_def double_function_def
        instr_def infer_loop.simps SIZE_MAX_def)
  then show ?thesis
    by (simp add: call_accepted_def instr_def vm_simps validate_call_target_layout_def
        AIVM_CALL_LAYOUT_WINDOW_def layout_loop.simps is_tail_call_def top_frame_fits_def
        vm_capacities program_of_def aivm_program_init_def double_function_def SIZE_MAX_def
        operand_to_index_def)
qed

definition double_final :: "AivmVm \<Rightarrow> AivmVm" where
  "double_final callee = callee\<lparr>vm_instruction_pointer := 6, vm_stack := [ValInt 10]\<rparr>"


section \<open>Function prologues\<close>

primrec steps :: "nat \<Rightarrow> 'a safe_point \<Rightarrow> 'a other_op \<Rightarrow> 'a vm \<Rightarrow> 'a vm option" where
  "steps 0 safe_point other vm = Some vm"
| "steps (Suc n) safe_point other vm =
     (case aivm_step safe_point other vm of None \<Rightarrow> None | Some vm' \<Rightarrow> steps n safe_point other vm')"

lemma store_local_step:
  assumes at: "about_to_execute p i vm" and op: "opcode i = AIVM_OP_STORE_LOCAL" "operand_int i = int k"
    and st: "vm_stack vm = v # rest" and frames: "vm_call_frames vm = f # fs"
    and base: "frame_base f \<le> length rest" "locals_base f \<le> vm_locals_count vm"
    and slot: "locals_base f + k < AIVM_VM_LOCALS_CAPACITY"
    and more: "vm_instruction_pointer vm + 1 < instruction_count p"
    and ok: "safe_point_ok p safe_point" "other_ok p other"
  shows "\<exists>vm'. aivm_step safe_point other vm = Some vm' \<and> machine_ok p vm' \<and> run_continues p vm' \<and>
           vm_instruction_pointer vm' = vm_instruction_pointer vm + 1 \<and> vm_stack vm' = rest \<and>
           vm_call_frames vm' = vm_call_frames vm \<and>
           vm_locals vm' = (vm_locals vm)(locals_base f + k := v) \<and>
           vm_locals_count vm' = max (vm_locals_count vm) (Suc (locals_base f + k))"
proof -
  let ?v = "(begin_step i vm)\<lparr>vm_stack := rest\<rparr>"
  have b: "vm_bounds ?v"
    using at st by (simp add: about_to_execute_def machine_ok_def vm_bounds_def vm_simps)
  have fits: "top_frame_fits ?v" and lb: "active_locals_base ?v = locals_base f"
    using frames base by (simp_all add: top_frame_fits_def active_locals_base_def vm_simps)
  obtain w where w: "aivm_local_set ?v k v = (Some (), w)"
    using local_set_succeeds [OF b fits] slot lb by auto
  obtain limit where w': "w = ?v\<lparr>vm_locals_limit := limit,
        vm_locals := (vm_locals vm)(locals_base f + k := v),
        vm_locals_count := max (vm_locals_count vm) (Suc (locals_base f + k))\<rparr>"
    using local_set_Some [OF b w] by (auto simp: lb vm_simps)
  have "execute safe_point other p i (begin_step i vm) = Some (advance w)"
    using op st w by (simp add: execute_def op_store_local_def or_park_def operand_to_index_def
        aivm_stack_pop_def vm_simps)
  then have step: "aivm_step safe_point other vm = Some (finish_step p (advance w))"
    by (simp add: step_executes [OF at])
  have "machine_ok p (finish_step p (advance w))"
    using at step_keeps [OF _ ok step] by (simp add: about_to_execute_def)
  then show ?thesis
    using step more
    by (simp add: w' vm_simps advance_def run_continues_def finish_step_def)
qed

definition same_locals :: "'a vm \<Rightarrow> 'a vm \<Rightarrow> bool" where
  "same_locals a b \<longleftrightarrow> vm_locals a = vm_locals b \<and> vm_locals_count a = vm_locals_count b \<and>
     vm_call_frames a = vm_call_frames b"

text \<open>Executing the stores of a prologue is storing the stacked arguments one after the other.\<close>

lemma prologue_stores:
  assumes ok: "safe_point_ok p safe_point" "other_ok p other"
    and "machine_ok p vm" "run_continues p vm"
    and "vm_stack vm = vs @ rest" "length ks = length vs"
    and "vm_call_frames vm = f # fs" "frame_base f \<le> length rest"
      "locals_base f \<le> vm_locals_count vm"
    and "\<And>j. j < length ks \<Longrightarrow>
           \<exists>i. fetch p (vm_instruction_pointer vm + j) = Some i \<and> opcode i = AIVM_OP_STORE_LOCAL \<and>
             operand_int i = int (ks ! j) \<and> locals_base f + ks ! j < AIVM_VM_LOCALS_CAPACITY"
    and "vm_instruction_pointer vm + length ks < instruction_count p"
    and "vm_bounds w" "same_locals vm w" "top_frame_fits w"
  shows "\<exists>vm' w'. steps (length ks) safe_point other vm = Some vm' \<and>
           put_all local_put w (zip ks vs) = Some w' \<and> same_locals vm' w' \<and> machine_ok p vm' \<and>
           run_continues p vm' \<and> vm_stack vm' = rest \<and> vm_call_frames vm' = f # fs \<and>
           vm_instruction_pointer vm' = vm_instruction_pointer vm + length ks \<and>
           locals_base f \<le> vm_locals_count vm'"
  using assms(3-)
proof (induction ks arbitrary: vm vs w)
  case Nil
  then show ?case by auto
next
  case (Cons k ks)
  then obtain v us where vs: "vs = v # us"
    by (cases vs) auto
  from Cons.prems(8) [of 0] obtain i where i: "fetch p (vm_instruction_pointer vm) = Some i"
    "opcode i = AIVM_OP_STORE_LOCAL" "operand_int i = int k"
    and slot: "locals_base f + k < AIVM_VM_LOCALS_CAPACITY"
    by auto
  have at: "about_to_execute p i vm"
    using Cons.prems i by (simp add: about_to_execute_def)
  obtain vm1 where s1: "aivm_step safe_point other vm = Some vm1"
    and vm1: "machine_ok p vm1" "run_continues p vm1"
      "vm_instruction_pointer vm1 = vm_instruction_pointer vm + 1" "vm_stack vm1 = us @ rest"
      "vm_call_frames vm1 = f # fs" "vm_locals vm1 = (vm_locals vm)(locals_base f + k := v)"
      "vm_locals_count vm1 = max (vm_locals_count vm) (Suc (locals_base f + k))"
    using store_local_step [OF at i(2,3), of v "us @ rest" f fs safe_point other] Cons.prems vs slot ok
    by auto
  have frw: "vm_call_frames w = f # fs"
    using Cons.prems(5,11) by (simp add: same_locals_def)
  then have lb: "active_locals_base w = locals_base f"
    by (simp add: active_locals_base_def)
  obtain w1 where w1: "local_put w k v = Some w1"
    using local_set_succeeds [OF Cons.prems(10,12)] slot lb by (auto simp: local_put_Some)
  then obtain limit where w1': "w1 = w\<lparr>vm_locals_limit := limit,
        vm_locals := (vm_locals w)(locals_base f + k := v),
        vm_locals_count := max (vm_locals_count w) (Suc (locals_base f + k))\<rparr>"
    using local_set_Some [OF Cons.prems(10)] lb unfolding local_put_Some by metis
  have b1: "vm_bounds w1"
    by (rule locals.put_inv [OF Cons.prems(10) w1])
  have same: "same_locals vm1 w1" and fits: "top_frame_fits w1"
    using Cons.prems(11,12) vm1 frw by (auto simp: same_locals_def w1' top_frame_fits_def)
  have code: "\<exists>i. fetch p (vm_instruction_pointer vm1 + j) = Some i \<and>
      opcode i = AIVM_OP_STORE_LOCAL \<and> operand_int i = int (ks ! j) \<and>
      locals_base f + ks ! j < AIVM_VM_LOCALS_CAPACITY" if "j < length ks" for j
    using Cons.prems(8) [of "Suc j"] that vm1(3) by simp
  have "length ks = length us" "locals_base f \<le> vm_locals_count vm1"
    "vm_instruction_pointer vm1 + length ks < instruction_count p"
    using Cons.prems(4,7,9) vs vm1(3,7) by auto
  then obtain vm' w' where "steps (length ks) safe_point other vm1 = Some vm'"
    "put_all local_put w1 (zip ks us) = Some w'" "same_locals vm' w'" "machine_ok p vm'"
    "run_continues p vm'" "vm_stack vm' = rest" "vm_call_frames vm' = f # fs"
    "vm_instruction_pointer vm' = vm_instruction_pointer vm1 + length ks"
    "locals_base f \<le> vm_locals_count vm'"
    using Cons.IH [OF vm1(1,2,4) _ vm1(5) Cons.prems(6) _ code _ b1 same fits] by blast
  then show ?case
    using s1 w1 vs vm1(3) by auto
qed

lemma same_locals_get:
  assumes "same_locals vm w" and "vm_bounds vm" "vm_bounds w" "top_frame_fits vm" "top_frame_fits w"
  shows "aivm_local_get vm k = aivm_local_get w k"
  using assms by (auto simp: local_get_iff same_locals_def active_locals_base_def)

lemma accepted_prologue:
  assumes "call_accepted p i n vm" and "instructions p = Some is"
  shows "distinct (prologue_locals is (nat (operand_int i)) n) \<and>
         (\<forall>k < n. nat (operand_int i) + k < instruction_count p \<and>
            opcode (is ! (nat (operand_int i) + k)) = AIVM_OP_STORE_LOCAL \<and>
            operand_int (is ! (nat (operand_int i) + k)) =
              int (prologue_locals is (nat (operand_int i)) n ! k))"
proof -
  have "fst (validate_call_target_layout vm p (nat (operand_int i)) n)"
    using assms(1) unfolding call_accepted_def by blast
  then have "fst (layout_loop p is (nat (operand_int i)) n 0 [] vm)"
    using assms(2) by (simp add: validate_call_target_layout_def split: if_splits)
  from layout_loop_accepts [OF this] show ?thesis
    by (auto simp: prologue_locals_def)
qed

text \<open>The calling convention. An accepted call of \<open>n\<close> arguments followed by the
  \<open>n\<close> stores of the target's prologue leaves every argument in the callee's local slot its store
  names, the last argument in the first one, removes the arguments from the stack and stops at the
  first instruction of the body.\<close>

lemma call_passes_arguments:
  assumes "about_to_execute p i vm" and acc: "call_accepted p i n vm"
    and wf: "wf_program p" "instructions p = Some is" "instruction_count p \<le> SIZE_MAX"
    and body: "nat (operand_int i) + n < instruction_count p"
    and slots: "\<And>k. k \<in> set (prologue_locals is (nat (operand_int i)) n) \<Longrightarrow>
        vm_locals_count vm + k < AIVM_VM_LOCALS_CAPACITY"
    and ok: "safe_point_ok p safe_point" "other_ok p other"
  shows "\<exists>vm'. steps (Suc n) safe_point other vm = Some vm' \<and>
           vm_instruction_pointer vm' = nat (operand_int i) + n \<and>
           vm_stack vm' = drop n (vm_stack vm) \<and>
           (\<forall>j < n. aivm_local_get vm' (prologue_locals is (nat (operand_int i)) n ! j) =
                     Some (vm_stack vm ! j))"
proof -
  let ?t = "nat (operand_int i)" and ?rest = "drop n (vm_stack vm)"
  let ?ks = "prologue_locals is (nat (operand_int i)) n" and ?vs = "take n (vm_stack vm)"
  let ?f = "\<lparr>return_instruction_pointer = vm_instruction_pointer vm + 1,
              frame_base = vm_stack_count vm - n, locals_base = vm_locals_count vm\<rparr>"
  have n: "n \<le> vm_stack_count vm" and t: "?t < instruction_count p"
    using acc by (auto simp: call_accepted_def)
  have lens: "length ?ks = n" "length ?ks = length ?vs"
    using n by (simp_all add: prologue_locals_def)
  obtain c where c: "aivm_step safe_point other vm = Some c" "vm_instruction_pointer c = ?t"
    "vm_stack c = vm_stack vm" "vm_call_frames c = ?f # vm_call_frames vm"
    "vm_locals_count c = vm_locals_count vm" "vm_status c = AIVM_VM_STATUS_RUNNING"
    using call_step [OF assms(1) acc wf(3), of safe_point other] by blast
  have mc: "machine_ok p c"
    using step_keeps [OF _ ok c(1)] assms(1) by (simp add: about_to_execute_def)
  have rc: "run_continues p c"
    using c t by (simp add: run_continues_def)
  let ?w = "c\<lparr>vm_stack := ?rest\<rparr>"
  have w: "vm_bounds ?w" "same_locals c ?w" "top_frame_fits ?w"
    using mc c n by (auto simp: machine_ok_def vm_bounds_def same_locals_def top_frame_fits_def)
  have code: "\<exists>i. fetch p (vm_instruction_pointer c + j) = Some i \<and>
      opcode i = AIVM_OP_STORE_LOCAL \<and> operand_int i = int (?ks ! j) \<and>
      locals_base ?f + ?ks ! j < AIVM_VM_LOCALS_CAPACITY" if "j < length ?ks" for j
    using that accepted_prologue [OF acc wf(2)] slots [of "?ks ! j"] wf(1,2) lens c(2)
    by (auto simp: fetch_def wf_program_def)
  have st: "vm_stack c = ?vs @ ?rest"
    using c(3) by simp
  obtain vm' w' where vm': "steps (length ?ks) safe_point other c = Some vm'"
    "put_all local_put ?w (zip ?ks ?vs) = Some w'" "same_locals vm' w'" "machine_ok p vm'"
    "vm_stack vm' = ?rest" "vm_call_frames vm' = ?f # vm_call_frames vm"
    "vm_instruction_pointer vm' = vm_instruction_pointer c + length ?ks"
    "vm_locals_count vm \<le> vm_locals_count vm'"
    using prologue_stores [OF ok mc rc st lens(2) c(4) _ _ code _ w] c(2,5) body lens(1)
    by auto
  have fits: "top_frame_fits vm'" and b: "vm_bounds vm'"
    using vm' n by (auto simp: top_frame_fits_def machine_ok_def)
  have b': "vm_bounds w'"
    by (rule locals.put_all_inv [OF w(1) vm'(2)])
  have "aivm_local_get vm' (?ks ! j) = Some (vm_stack vm ! j)" if "j < n" for j
  proof -
    have "(?ks ! j, vm_stack vm ! j) \<in> set (zip ?ks ?vs)"
      using that lens n by (auto simp: in_set_zip intro!: exI [of _ j])
    moreover have "distinct (map fst (zip ?ks ?vs))"
      using accepted_prologue [OF acc wf(2)] lens by simp
    ultimately have get: "aivm_local_get w' (?ks ! j) = Some (vm_stack vm ! j)"
      using locals.put_all_distinct [OF w(1) vm'(2)] by blast
    then have "top_frame_fits w'"
      by (simp add: local_get_iff [OF b'] split: if_splits)
    with get show ?thesis
      using same_locals_get [OF vm'(3) b b' fits] by simp
  qed
  then show ?thesis
    using c(1,2) vm' lens by (intro exI [of _ vm']) simp
qed

lemma call_passes_arguments_witness:
  "\<exists>vm'. steps 2 no_collection no_other_ops (loaded double_function [ValInt 5]) = Some vm' \<and>
     vm_instruction_pointer vm' = 3 \<and> vm_stack vm' = [] \<and> aivm_local_get vm' 0 = Some (ValInt 5)"
proof -
  let ?p = "program_of double_function"
  have at: "about_to_execute ?p (instr AIVM_OP_CALL 2) (loaded double_function [ValInt 5])"
    unfolding double_function_def by (rule loaded_about_to_execute) (simp add: vm_growth)
  have p: "instructions ?p = Some double_function" "instruction_count ?p \<le> SIZE_MAX"
    "nat (operand_int (instr AIVM_OP_CALL 2)) + 1 < instruction_count ?p"
    "prologue_locals double_function (nat (operand_int (instr AIVM_OP_CALL 2))) 1 = [0]"
    by (simp_all add: program_of_def aivm_program_init_def double_function_def SIZE_MAX_def instr_def
        prologue_locals_def)
  show ?thesis
    using call_passes_arguments [OF at double_function_call_accepted double_function_wf p(1-3) _
        no_collection_ok no_other_ops_ok] p(4)
    by (auto simp: vm_simps vm_capacities instr_def numeral_2_eq_2)
qed

section \<open>Tail calls\<close>

text \<open>C33 (functional): a call directly before a return, made by a running function, reuses the
  current frame: the frames stay as they are, the arguments are moved down to the frame's base, the
  function's locals are released, and the target is entered.\<close>

theorem tail_call_reuses_frame:
  assumes at: "about_to_execute p i vm" and op: "opcode i = AIVM_OP_CALL" "operand_int i = int target"
    and target: "target < instruction_count p"
    and n: "n = infer_call_arg_count p target" "n \<le> vm_stack_count vm"
      "fst (validate_call_target_layout vm p target n)"
    and frames: "vm_call_frames vm = f # fs" "frame_base f + n \<le> vm_stack_count vm"
    and tail: "is_tail_call p vm"
  shows "\<exists>vm'. aivm_step safe_point other vm = Some vm' \<and> vm_call_frames vm' = vm_call_frames vm \<and>
           vm_stack vm' = take n (vm_stack vm) @ drop (vm_stack_count vm - frame_base f) (vm_stack vm) \<and>
           vm_stack_count vm' = frame_base f + n \<and> vm_locals_count vm' = locals_base f \<and>
           vm_instruction_pointer vm' = target"
proof -
  let ?v = "begin_step i vm"
  let ?r = "aivm_vm_record_recent_call ?v (vm_instruction_pointer vm) target n (vm_stack_count vm)"
  have ins: "instructions p \<noteq> None"
    using at by (auto simp: about_to_execute_def fetch_def split: option.splits)
  have val: "validate_call_target_layout ?v p target n = (True, ?v)"
    by (rule validate_layout_accepted [OF ins]) (use n(3) validate_layout_indep in blast)
  have r: "vm_stack ?r = vm_stack vm" "vm_call_frames ?r = vm_call_frames vm"
    "is_tail_call p ?r" "vm_locals_count ?r = vm_locals_count vm"
    using tail by (simp_all add: aivm_vm_record_recent_call_def is_tail_call_def vm_simps)
  have "execute safe_point other p i ?v = enter_call p ?r target n"
    using op target n(2) val
    by (simp add: execute_def op_call_def or_park_def operand_to_index_def n(1) [symmetric]
        Let_def vm_simps)
  also have "\<dots> = Some (tail_call ?r f target n)"
    using frames by (auto simp: enter_call_def Let_def r)
  finally show ?thesis
    using frames n(2) by (simp add: step_executes [OF at] vm_simps tail_call_def r)
qed

definition tail_function :: "AivmInstruction list" where
  "tail_function =
     [instr AIVM_OP_CALL 2, instr AIVM_OP_RETURN 0, instr AIVM_OP_STORE_LOCAL 0,
      instr AIVM_OP_LOAD_LOCAL 0, instr AIVM_OP_RETURN 0]"

definition tail_state :: AivmVm where
  "tail_state = (loaded tail_function [ValInt 5, ValInt 6])\<lparr>vm_call_frames :=
     [\<lparr>return_instruction_pointer = 2, frame_base = 0, locals_base = 0\<rparr>]\<rparr>"

theorem tail_call_reuses_frame_witness:
  "\<exists>vm'. aivm_step no_collection no_other_ops tail_state = Some vm' \<and>
     vm_stack vm' = [ValInt 5] \<and> vm_call_frame_count vm' = 1 \<and> vm_instruction_pointer vm' = 2"
proof -
  let ?p = "program_of tail_function"
  have at: "about_to_execute ?p (instr AIVM_OP_CALL 2) tail_state"
    by (simp add: about_to_execute_def machine_ok_def vm_bounds_def vm_capacities tail_state_def
        loaded_def tail_function_def step_eval)
  have n: "1 = infer_call_arg_count ?p 2"
    by (simp add: infer_call_arg_count_def program_of_def aivm_program_init_def tail_function_def
        instr_def infer_loop.simps SIZE_MAX_def)
  have layout: "fst (validate_call_target_layout tail_state ?p 2 1)"
    by (simp add: validate_call_target_layout_def AIVM_CALL_LAYOUT_WINDOW_def layout_loop.simps
        program_of_def aivm_program_init_def tail_function_def SIZE_MAX_def instr_def
        operand_to_index_def)
  have tail: "is_tail_call ?p tail_state"
    by (simp add: is_tail_call_def tail_state_def loaded_def tail_function_def step_eval)
  show ?thesis
    using tail_call_reuses_frame [OF at _ _ _ n _ layout _ _ tail, of
        "\<lparr>return_instruction_pointer = 2, frame_base = 0, locals_base = 0\<rparr>" "[]"
        no_collection no_other_ops]
    by (auto simp: tail_state_def vm_simps instr_def program_of_def aivm_program_init_def
        tail_function_def)
qed

section \<open>Runs\<close>

text \<open>\<open>aivm_run\<close> computes the step relation: it finishes in a state, for some
  amount of fuel, exactly when that state is reached by steps and the loop condition fails there;
  and more fuel never changes a result.\<close>

lemma run_refines_steps:
  assumes "vm_program vm = Some p" and "instruction_count p \<noteq> 0"
  shows "((\<exists>fuel. aivm_run fuel safe_point other vm = RunFinished vm') \<longleftrightarrow>
            vm_reaches safe_point other p vm vm' \<and> \<not> run_continues p vm') \<and>
         (aivm_run fuel safe_point other vm \<noteq> RunOutOfFuel \<longrightarrow>
            aivm_run (fuel + extra) safe_point other vm = aivm_run fuel safe_point other vm)"
  using assms run_loop_reaches [of _ safe_point other p vm vm'] run_loop_complete [of safe_point other p vm vm']
    run_loop_more_fuel [of fuel safe_point other p vm extra]
  by (auto simp: aivm_run_def)

lemma run_refines_steps_witness:
  "\<exists>vm'. vm_reaches no_collection no_other_ops (program_of [instr AIVM_OP_HALT 0])
            (start [instr AIVM_OP_HALT 0]) vm' \<and> vm_status vm' = AIVM_VM_STATUS_HALTED"
proof -
  let ?vm = "start [instr AIVM_OP_HALT 0]"
  have run: "aivm_run 1 no_collection no_other_ops ?vm =
      RunFinished (the (aivm_step no_collection no_other_ops ?vm))"
    by (simp add: aivm_run_def step_eval)
  have "vm_status (the (aivm_step no_collection no_other_ops ?vm)) = AIVM_VM_STATUS_HALTED"
    by (simp add: step_eval)
  moreover have p: "vm_program ?vm = Some (program_of [instr AIVM_OP_HALT 0])"
    "instruction_count (program_of [instr AIVM_OP_HALT 0]) \<noteq> 0"
    by (simp_all add: step_eval)
  ultimately show ?thesis
    using run_refines_steps [OF p, of no_collection no_other_ops
        "the (aivm_step no_collection no_other_ops ?vm)"] run
    by blast
qed



section \<open>Termination of forward programs\<close>

text \<open>A program of core instructions without calls in which every jump goes forward.\<close>

definition forward_program :: "AivmProgram \<Rightarrow> bool" where
  "forward_program p \<longleftrightarrow>
     (case instructions p of None \<Rightarrow> True
      | Some is \<Rightarrow> \<forall>k < length is.
          opcode (is ! k) \<in> set core_opcodes \<and> opcode (is ! k) \<noteq> AIVM_OP_CALL \<and>
          (opcode (is ! k) = AIVM_OP_JUMP \<or> opcode (is ! k) = AIVM_OP_JUMP_IF_FALSE \<longrightarrow>
             int k < operand_int (is ! k)))"

text \<open>An instruction at \<open>ip\<close> of a machine without frames is being executed.\<close>

definition executing :: "AivmProgram \<Rightarrow> nat \<Rightarrow> 'a vm \<Rightarrow> bool" where
  "executing p ip vm \<longleftrightarrow> vm_program vm = Some p \<and> vm_call_frames vm = [] \<and>
     vm_instruction_pointer vm = ip \<and> ip < instruction_count p"

definition moves_on :: "AivmProgram \<Rightarrow> nat \<Rightarrow> 'a vm option \<Rightarrow> bool" where
  "moves_on p ip r \<longleftrightarrow> (\<forall>vm'. r = Some vm' \<longrightarrow>
     vm_program vm' = Some p \<and> vm_call_frames vm' = [] \<and>
     (ip < vm_instruction_pointer vm' \<or> vm_status vm' = AIVM_VM_STATUS_ERROR \<or>
      vm_status vm' = AIVM_VM_STATUS_HALTED))"

lemma executing_error:
  "executing p ip vm \<Longrightarrow> executing p ip (aivm_set_vm_error vm e d)"
  "executing p ip vm \<Longrightarrow> executing p ip (set_vm_error_formatted vm e parts)"
  by (simp_all add: executing_def set_vm_error_formatted_def vm_simps)

lemma executing_push: "executing p ip vm \<Longrightarrow> executing p ip (snd (aivm_stack_push vm v))"
  by (auto simp: executing_def aivm_stack_push_def ensure_stack_capacity_def Let_def vm_simps
      split: option.split bool.split)

lemma executing_pop: "executing p ip vm \<Longrightarrow> executing p ip (snd (aivm_stack_pop vm))"
  by (auto simp: executing_def aivm_stack_pop_def vm_simps split: list.split)

lemma executing_operand: "executing p ip vm \<Longrightarrow> executing p ip (snd (operand_to_index vm n))"
  by (auto simp: executing_def operand_to_index_def vm_simps)

lemma executing_local_set:
  assumes "executing p ip vm"
  shows "executing p ip (snd (aivm_local_set vm k v))"
proof -
  have "\<exists>b w. aivm_vm_validate_call_local_state vm ''local-set'' = (b, w) \<and> executing p ip w"
    using assms
    by (auto simp: aivm_vm_validate_call_local_state_def executing_def set_vm_error_formatted_def vm_simps)
  then show ?thesis
    by (auto simp: aivm_local_set_def ensure_locals_capacity_def Let_def
        aivm_vm_set_local_out_of_range_error_def executing_def set_vm_error_formatted_def vm_simps
        split: option.split bool.split)
qed

lemma or_park_moves_on:
  assumes "executing p ip (snd r)"
    and "\<And>x vm'. r = (Some x, vm') \<Longrightarrow> executing p ip vm' \<Longrightarrow> moves_on p ip (k x vm')"
  shows "moves_on p ip (or_park p r k)"
  using assms by (cases r) (auto simp: or_park_def moves_on_def executing_def park_def split: option.split)

lemma fail_with_moves_on: "executing p ip vm \<Longrightarrow> moves_on p ip (fail_with p vm e d)"
  by (simp add: moves_on_def executing_def fail_with_def park_def vm_simps)

lemma advance_moves_on: "executing p ip vm \<Longrightarrow> moves_on p ip (Some (advance vm))"
  by (simp add: moves_on_def executing_def advance_def)

lemma park_moves_on: "executing p ip vm \<Longrightarrow> moves_on p ip (Some (park p vm))"
  by (simp add: moves_on_def executing_def park_def)

lemma push_moves_on: "executing p ip vm \<Longrightarrow> moves_on p ip (push_and_advance p vm v)"
  unfolding push_and_advance_def
  by (rule or_park_moves_on) (auto intro: executing_push advance_moves_on)

lemma moves_on_None [simp]: "moves_on p ip None"
  by (simp add: moves_on_def)

lemma push_defined_moves_on: "executing p ip vm \<Longrightarrow> moves_on p ip (push_defined p vm v)"
  by (cases v) (simp_all add: push_defined_def push_moves_on)

lemma pop_operands_moves_on:
  assumes "executing p ip vm" and "\<And>l r vm'. executing p ip vm' \<Longrightarrow> moves_on p ip (k l r vm')"
  shows "moves_on p ip (pop_operands p vm k)"
  unfolding pop_operands_def
  by (intro or_park_moves_on executing_pop) (use assms in \<open>auto intro: executing_pop\<close>)

lemma arith_moves_on:
  assumes "executing p ip vm"
  shows "moves_on p ip (op_add_int p vm)" "moves_on p ip (op_numeric p i vm)"
    "moves_on p ip (op_lt_num p vm)" "moves_on p ip (op_eq_int p vm)" "moves_on p ip (op_eq p vm)"
  unfolding op_add_int_def op_numeric_def op_lt_num_def op_eq_int_def op_eq_def
  by (rule pop_operands_moves_on [OF assms];
      auto simp: Let_def push_moves_on push_defined_moves_on fail_with_moves_on park_moves_on
        aivm_vm_set_add_numeric_type_error_def executing_error split: option.split)+

lemma move_moves_on:
  assumes "executing p ip vm"
  shows "moves_on p ip (op_push_int p i vm)" "moves_on p ip (op_push_bool p i vm)"
    "moves_on p ip (op_pop p vm)" "moves_on p ip (op_store_local p i vm)"
    "moves_on p ip (op_load_local p i vm)" "moves_on p ip (op_const p i vm)"
  unfolding op_push_int_def op_push_bool_def op_pop_def op_store_local_def op_load_local_def
    op_const_def
  using assms
  by (auto intro!: or_park_moves_on executing_operand executing_pop executing_local_set
      advance_moves_on push_moves_on fail_with_moves_on park_moves_on
      simp: aivm_vm_set_local_out_of_range_error_def executing_error split: option.split)

lemma jump_moves_on:
  assumes "executing p ip vm" and "int ip < operand_int i"
  shows "moves_on p ip (op_jump p i vm)" "moves_on p ip (op_jump_if_false p i vm)"
proof -
  have jump: "moves_on p ip (Some (w\<lparr>vm_instruction_pointer := nat (operand_int i)\<rparr>))"
    if "executing p ip w" for w :: "'a vm"
    using that assms(2) by (simp add: moves_on_def executing_def zless_nat_eq_int_zless)
  have target: "t = nat (operand_int i)" if "operand_to_index v (operand_int i) = (Some t, w)"
    for t and v w :: "'a vm"
    using that by (simp add: operand_to_index_def split: if_splits)
  show "moves_on p ip (op_jump p i vm)" "moves_on p ip (op_jump_if_false p i vm)"
    unfolding op_jump_def op_jump_if_false_def using assms(1)
    by (auto intro!: or_park_moves_on executing_operand executing_pop fail_with_moves_on
        advance_moves_on jump dest!: target split: AivmValue.split)
qed

lemma execute_moves_on:
  assumes "executing p ip vm" and "forward_program p" and "fetch p ip = Some i"
  shows "moves_on p ip (execute safe_point other p i vm)"
proof -
  have i: "opcode i \<in> set core_opcodes" "opcode i \<noteq> AIVM_OP_CALL"
    "opcode i = AIVM_OP_JUMP \<or> opcode i = AIVM_OP_JUMP_IF_FALSE \<longrightarrow> int ip < operand_int i"
    using assms(2,3) by (auto simp: forward_program_def fetch_def split: option.splits if_splits)
  have "moves_on p ip (Some (aivm_halt p vm))"
    "moves_on p ip (Some (aivm_set_vm_error vm e d))" "moves_on p ip (op_return safe_point p vm)"
    for e d
    using assms(1) by (simp_all add: moves_on_def executing_def aivm_halt_def op_return_def vm_simps)
  with i show ?thesis
    using assms(1)
    by (auto simp: execute_def Let_def core_opcodes_def arith_moves_on move_moves_on jump_moves_on
        advance_moves_on)
qed

lemma forward_step:
  assumes "forward_program p" and "vm_program vm = Some p" and "vm_call_frames vm = []"
    and "run_continues p vm" and "aivm_step safe_point other vm = Some vm'"
  shows "vm_program vm' = Some p \<and> vm_call_frames vm' = [] \<and>
         (vm_instruction_pointer vm < vm_instruction_pointer vm' \<or> \<not> run_continues p vm')"
proof (cases "instructions p")
  case None
  with assms show ?thesis
    by (auto simp: aivm_step_def fail_with_def park_def run_continues_def vm_simps)
next
  case (Some "is")
  then obtain i v where i: "fetch p (vm_instruction_pointer vm) = Some i"
    and v: "execute safe_point other p i (begin_step i vm) = Some v" "vm' = finish_step p v"
    using assms by (auto simp: aivm_step_def run_continues_def split: option.splits if_splits)
  have "executing p (vm_instruction_pointer vm) (begin_step i vm)"
    using assms by (simp add: executing_def run_continues_def vm_simps)
  from execute_moves_on [OF this assms(1) i, of safe_point other] show ?thesis
    using v by (auto simp: moves_on_def finish_step_def run_continues_def)
qed



end
