(* ===== verification/Byte_Codec.thy ===== *)
theory Byte_Codec
  imports AiVM_Prelude
begin

text \<open>
  Little-endian fields both ways: the bytes a writer produces for 16, 32 and 64-bit words and for
  text, and that the readers of the prelude read them back wherever they stand in a buffer. The
  program loader and the remote channel share these.
\<close>

section \<open>Writers\<close>

definition u16_bytes :: "u16 \<Rightarrow> bytes" where
  "u16_bytes w = [ucast w, ucast (drop_bit 8 w)]"

text \<open>The four bytes of a word, lowest first.\<close>

definition u32_bytes :: "u32 \<Rightarrow> bytes" where
  "u32_bytes w = map (\<lambda>i. ucast (drop_bit (i * 8) w)) [0..<4]"

definition u64_bytes :: "u64 \<Rightarrow> bytes" where
  "u64_bytes w = u32_bytes (ucast w) @ u32_bytes (ucast (drop_bit 32 w))"

definition char_of_byte :: "u8 \<Rightarrow> char" where
  "char_of_byte b = char_of (unat b)"

section \<open>Reading what was written\<close>

lemma length_u16_bytes [simp]: "length (u16_bytes w) = 2"
  by (simp add: u16_bytes_def)

lemma length_u32_bytes [simp]: "length (u32_bytes w) = 4"
  by (simp add: u32_bytes_def)

lemma u32_bytes_eq:
  "u32_bytes w = [ucast w, ucast (drop_bit 8 w), ucast (drop_bit 16 w), ucast (drop_bit 24 w)]"
  by (simp add: u32_bytes_def upt_conv_Cons)

lemma read_u32_bytes [codec_simps]:
  assumes "off + 4 \<le> length bs" and "take 4 (drop off bs) = u32_bytes w"
  shows "read_u32_le bs off = w"
proof -
  have nth: "bs ! (off + i) = u32_bytes w ! i" if "i < 4" for i
    using assms that by (metis nth_drop_take add.commute)
  have b: "bs ! off = ucast w" "bs ! (off + 1) = ucast (drop_bit 8 w)"
    "bs ! (off + 2) = ucast (drop_bit 16 w)" "bs ! (off + 3) = ucast (drop_bit 24 w)"
    using nth [of 0] nth [of 1] nth [of 2] nth [of 3] by (simp_all add: u32_bytes_eq)
  show ?thesis
    unfolding read_u32_le_def b
  proof (rule bit_word_eqI)
    fix n
    assume "n < LENGTH(32)"
    then consider "n < 8" | "8 \<le> n" "n < 16" | "16 \<le> n" "n < 24" | "24 \<le> n" "n < 32"
      by fastforce
    then show "bit (ucast (ucast w :: u8) OR push_bit 8 (ucast (ucast (drop_bit 8 w) :: u8)) OR
        push_bit 16 (ucast (ucast (drop_bit 16 w) :: u8)) OR
        push_bit 24 (ucast (ucast (drop_bit 24 w) :: u8)) :: u32) n = bit w n"
      by cases (auto simp: bit_simps)
  qed
qed

lemma length_u64_bytes [simp]: "length (u64_bytes w) = 8"
  by (simp add: u64_bytes_def)

lemma u64_halves: "ucast (ucast w :: u32) OR push_bit 32 (ucast (ucast (drop_bit 32 w) :: u32)) = (w :: u64)"
  by (rule bit_word_eqI) (auto simp: bit_simps not_less)

lemma u16_halves: "ucast (ucast w :: u8) OR push_bit 8 (ucast (ucast (drop_bit 8 w) :: u8)) = (w :: u16)"
  by (rule bit_word_eqI) (auto simp: bit_simps not_less)

lemma unat_of_nat_small: "n < 2 ^ LENGTH('a) \<Longrightarrow> unat (of_nat n :: 'a::len word) = n"
  by (simp add: unat_of_nat take_bit_nat_eq_self)

text \<open>A field that stands at an offset is read, and what follows it stands right after.\<close>

lemma field_at:
  assumes "drop off bs = d @ rest" and "d \<noteq> []"
  shows "off + length d \<le> length bs" and "drop (off + length d) bs = rest"
    and "\<And>i. i < length d \<Longrightarrow> bs ! (off + i) = d ! i"
proof -
  have "length (drop off bs) = length d + length rest"
    unfolding assms by simp
  then show le: "off + length d \<le> length bs"
    using assms(2) by (cases d) auto
  show "drop (off + length d) bs = rest"
    using assms(1) by (metis add.commute append_eq_conv_conj drop_drop)
  show "bs ! (off + i) = d ! i" if "i < length d" for i
    using assms(1) le that by (metis add_leD1 nth_append nth_drop)
qed

lemma read_u16_at:
  assumes "drop off bs = u16_bytes w @ rest"
  shows "read_u16_le bs off = w" and "off + 2 \<le> length bs" and "drop (off + 2) bs = rest"
proof -
  note f = field_at [OF assms, simplified]
  have ne: "u16_bytes w \<noteq> []"
    by (simp add: u16_bytes_def)
  show "off + 2 \<le> length bs" and "drop (off + 2) bs = rest"
    using f(1,2) ne by auto
  have "bs ! off = ucast w" "bs ! Suc off = ucast (drop_bit 8 w)"
    using f(3) [OF ne, of 0] f(3) [OF ne, of 1] by (simp_all add: u16_bytes_def)
  then show "read_u16_le bs off = w"
    by (simp add: read_u16_le_def u16_halves)
qed

lemma read_u32_at:
  assumes "drop off bs = u32_bytes w @ rest"
  shows "read_u32_le bs off = w" and "off + 4 \<le> length bs" and "drop (off + 4) bs = rest"
proof -
  have ne: "u32_bytes w \<noteq> []"
    by (simp add: u32_bytes_eq)
  show le: "off + 4 \<le> length bs" and "drop (off + 4) bs = rest"
    using field_at(1,2) [OF assms ne] by simp_all
  show "read_u32_le bs off = w"
    using le by (rule read_u32_bytes) (simp add: assms)
qed

lemma read_u64_at:
  assumes "drop off bs = u64_bytes w @ rest"
  shows "read_u64_le bs off = w" and "off + 8 \<le> length bs" and "drop (off + 8) bs = rest"
proof -
  have lo: "drop off bs = u32_bytes (ucast w) @ u32_bytes (ucast (drop_bit 32 w)) @ rest"
    using assms by (simp add: u64_bytes_def)
  note hi = read_u32_at(3) [OF lo]
  show "read_u64_le bs off = w"
    by (simp add: read_u64_le_def read_u32_at(1) [OF lo] read_u32_at(1) [OF hi] u64_halves)
  show "off + 8 \<le> length bs"
    using read_u32_at(2) [OF hi] by simp
  show "drop (off + 8) bs = rest"
    using read_u32_at(3) [OF hi] by (simp add: add.commute add.assoc)
qed

lemma sint_of_int_i64: "in_i64 i \<Longrightarrow> sint (of_int i :: u64) = i"
  by (simp add: i64_defs signed_of_int signed_take_bit_int_eq_self)

lemma read_i64_at:
  assumes "drop off bs = u64_bytes (of_int i) @ rest" and "in_i64 i"
  shows "read_i64_le bs off = i"
  by (simp add: read_i64_le_def read_u64_at(1) [OF assms(1)] sint_of_int_i64 [OF assms(2)])

lemma char_of_byte_of_char [simp]: "char_of_byte (of_char c) = c"
proof -
  have "unat (of_char c :: u8) = of_char c"
    unfolding of_nat_of_char [symmetric, where 'a = "8 word"] unat_of_nat
    by (simp add: take_bit_eq_mod of_char_mod_256)
  then show ?thesis
    by (simp add: char_of_byte_def)
qed

end
