(* ===== verification/Program_Loader.thy ===== *)
theory Program_Loader
  imports Program Byte_Codec
begin

text \<open>
  The AiBC loader: \<open>aivm_program_load_aibc1\<close> of \<^verbatim>\<open>src/src/aivm_program.c\<close> and the worker
  catalog of \<^verbatim>\<open>src/src/aivm_worker_catalog.c\<close>. A load ends in \<open>LoadOk\<close> with the program, in
  \<open>LoadStop\<close> with the status, the offset and the program as the error left it, or in \<open>LoadFault\<close>:
  every read of the input goes through a check that the C code does not make, and \<open>LoadFault\<close> is a
  read outside the buffer.

  A catalog entry carries a complete program, which the catalog loader loads in turn, so the two
  functions are mutually recursive in C. Here the catalog takes the program loader as an argument,
  and the recursion is closed at the end, on the length of the input.
\<close>

section \<open>Outcomes and checked reads\<close>

datatype 'r load = LoadOk 'r | LoadStop AivmProgramStatus nat AivmProgram | LoadFault

fun bind_load :: "'r load \<Rightarrow> ('r \<Rightarrow> 's load) \<Rightarrow> 's load" where
  "bind_load (LoadOk x) f = f x"
| "bind_load (LoadStop status off p) f = LoadStop status off p"
| "bind_load LoadFault f = LoadFault"

definition with_u8 :: "bytes \<Rightarrow> nat \<Rightarrow> (u8 \<Rightarrow> 'r load) \<Rightarrow> 'r load" where
  "with_u8 bs off f = (if off < length bs then f (bs ! off) else LoadFault)"

definition with_u32 :: "bytes \<Rightarrow> nat \<Rightarrow> (nat \<Rightarrow> 'r load) \<Rightarrow> 'r load" where
  "with_u32 bs off f = (if off + 4 \<le> length bs then f (unat (read_u32_le bs off)) else LoadFault)"

definition with_u64 :: "bytes \<Rightarrow> nat \<Rightarrow> (u64 \<Rightarrow> 'r load) \<Rightarrow> 'r load" where
  "with_u64 bs off f = (if off + 8 \<le> length bs then f (read_u64_le bs off) else LoadFault)"

text \<open>A block copy of \<open>n\<close> bytes.\<close>

definition with_block :: "bytes \<Rightarrow> nat \<Rightarrow> nat \<Rightarrow> (bytes \<Rightarrow> 'r load) \<Rightarrow> 'r load" where
  "with_block bs off n f =
     (if n = 0 \<or> off + n \<le> length bs then f (take n (drop off bs)) else LoadFault)"

definition size_add_within :: "nat \<Rightarrow> nat \<Rightarrow> nat \<Rightarrow> nat option" where
  "size_add_within a b bound =
     (case aivm_size_add_checked a b of None \<Rightarrow> None | Some c \<Rightarrow> if c > bound then None else Some c)"

section \<open>Worker catalog\<close>

datatype AivmWorkerCatalogStatus =
    AIVM_WORKER_CATALOG_OK | AIVM_WORKER_CATALOG_ERR_FORMAT | AIVM_WORKER_CATALOG_ERR_LIMIT
  | AIVM_WORKER_CATALOG_ERR_MEMORY | AIVM_WORKER_CATALOG_ERR_IDENTITY
  | AIVM_WORKER_CATALOG_ERR_ARTIFACT | AIVM_WORKER_CATALOG_ERR_FUNCTION
  | AIVM_WORKER_CATALOG_ERR_ABI | AIVM_WORKER_CATALOG_ERR_CAPABILITY

definition AIVM_WORKER_TRANSPORT_ABI_BYTES_V1 :: nat where "AIVM_WORKER_TRANSPORT_ABI_BYTES_V1 = 1"
definition AIVM_WORKER_IDENTITY_BYTES :: nat where "AIVM_WORKER_IDENTITY_BYTES = 32"
definition AIVM_WORKER_CATALOG_MAX_ENTRIES :: nat where "AIVM_WORKER_CATALOG_MAX_ENTRIES = 1024"
definition sizeof_AivmWorkerCatalogEntry :: nat where "sizeof_AivmWorkerCatalogEntry = 64"

lemmas catalog_limits =
  AIVM_WORKER_TRANSPORT_ABI_BYTES_V1_def AIVM_WORKER_IDENTITY_BYTES_def
  AIVM_WORKER_CATALOG_MAX_ENTRIES_def sizeof_AivmWorkerCatalogEntry_def

definition identity_seed :: "u32 list" where
  "identity_seed =
     [2166136261, 2246822519, 3266489917, 668265263, 374761393, 1274126177, 42595009, 2048419325]"

definition identity_mix :: "u8 \<Rightarrow> u32 list \<Rightarrow> u32 list" where
  "identity_mix value state =
     map (\<lambda>lane. state ! lane * 16777619 + ucast value + of_nat lane) [0..<8]"

definition aivm_worker_identity :: "u32 \<Rightarrow> u32 \<Rightarrow> u32 \<Rightarrow> u32 \<Rightarrow> bytes \<Rightarrow> bytes" where
  "aivm_worker_identity target capabilities abi version data =
     (let state = fold identity_mix (concat (map u32_bytes [target, capabilities, abi, version]))
                    identity_seed;
          state = fold identity_mix data state
      in concat (map u32_bytes state))"

text \<open>The checks on the program loaded from an entry's artifact.\<close>

definition accept_worker_program ::
  "AivmProgram load \<Rightarrow> AivmWorkerCatalogEntry \<Rightarrow> nat \<Rightarrow>
   (AivmWorkerCatalogStatus + AivmWorkerCatalogEntry \<times> nat) load" where
  "accept_worker_program loaded entry cursor =
     (case loaded of
        LoadFault \<Rightarrow> LoadFault
      | LoadStop _ _ _ \<Rightarrow> LoadOk (Inl AIVM_WORKER_CATALOG_ERR_ARTIFACT)
      | LoadOk worker_program \<Rightarrow>
          if format_version worker_program \<noteq> bytecode_version entry then
            LoadOk (Inl AIVM_WORKER_CATALOG_ERR_ARTIFACT)
          else if function_target entry \<ge> instruction_count worker_program then
            LoadOk (Inl AIVM_WORKER_CATALOG_ERR_FUNCTION)
          else LoadOk (Inr (entry, cursor)))"

text \<open>One entry at \<open>cursor\<close>: the entry and the new cursor, or the status the loader stops with.
  The outcome of reading is a \<open>load\<close> whose success carries a sum.\<close>

definition load_catalog_entry ::
  "(bytes \<Rightarrow> AivmProgram load) \<Rightarrow> (nat \<Rightarrow> bool) \<Rightarrow> bytes \<Rightarrow> nat \<Rightarrow>
   (AivmWorkerCatalogStatus + AivmWorkerCatalogEntry \<times> nat) load" where
  "load_catalog_entry nested alloc bs cursor =
     (if cursor > length bs \<or> length bs - cursor < 52 then
        LoadOk (Inl AIVM_WORKER_CATALOG_ERR_FORMAT)
      else
        with_u32 bs cursor (\<lambda>target.
        with_u32 bs (cursor + 4) (\<lambda>capabilities.
        with_u32 bs (cursor + 8) (\<lambda>abi.
        with_u32 bs (cursor + 12) (\<lambda>version.
        with_u32 bs (cursor + 16) (\<lambda>len.
        with_block bs (cursor + 20) AIVM_WORKER_IDENTITY_BYTES (\<lambda>ident.
          let cursor = cursor + 52 in
          if len > length bs - cursor then LoadOk (Inl AIVM_WORKER_CATALOG_ERR_FORMAT)
          else if abi \<noteq> AIVM_WORKER_TRANSPORT_ABI_BYTES_V1 then
            LoadOk (Inl AIVM_WORKER_CATALOG_ERR_ABI)
          else if (of_nat capabilities :: u32) AND 0xffff0000 \<noteq> 0 then
            LoadOk (Inl AIVM_WORKER_CATALOG_ERR_CAPABILITY)
          else
            with_block bs cursor len (\<lambda>data.
              if aivm_worker_identity (of_nat target) (of_nat capabilities) (of_nat abi)
                   (of_nat version) data \<noteq> ident then
                LoadOk (Inl AIVM_WORKER_CATALOG_ERR_IDENTITY)
              else if \<not> alloc (if len = 0 then 1 else len) then
                LoadOk (Inl AIVM_WORKER_CATALOG_ERR_MEMORY)
              else
                accept_worker_program (nested data)
                  \<lparr>function_target = target, required_capabilities = of_nat capabilities,
                   transport_abi = abi, bytecode_version = version, identity = ident,
                   artifact = data\<rparr> (cursor + len)))))))))"

primrec load_catalog_loop ::
  "nat \<Rightarrow> (bytes \<Rightarrow> AivmProgram load) \<Rightarrow> (nat \<Rightarrow> bool) \<Rightarrow> bytes \<Rightarrow> nat \<Rightarrow>
   AivmWorkerCatalogEntry list \<Rightarrow> (AivmWorkerCatalogStatus \<times> AivmWorkerCatalogEntry list) load" where
  "load_catalog_loop 0 nested alloc bs cursor entries =
     LoadOk (if cursor \<noteq> length bs then (AIVM_WORKER_CATALOG_ERR_FORMAT, [])
             else (AIVM_WORKER_CATALOG_OK, entries))"
| "load_catalog_loop (Suc n) nested alloc bs cursor entries =
     bind_load (load_catalog_entry nested alloc bs cursor) (\<lambda>r.
       case r of
         Inl status \<Rightarrow> LoadOk (status, [])
       | Inr (entry, cursor) \<Rightarrow> load_catalog_loop n nested alloc bs cursor (entries @ [entry]))"

definition aivm_worker_catalog_load ::
  "(bytes \<Rightarrow> AivmProgram load) \<Rightarrow> (nat \<Rightarrow> bool) \<Rightarrow> bytes \<Rightarrow>
   (AivmWorkerCatalogStatus \<times> AivmWorkerCatalogEntry list) load" where
  "aivm_worker_catalog_load nested alloc bs =
     (if length bs < 4 then LoadOk (AIVM_WORKER_CATALOG_ERR_FORMAT, [])
      else
        with_u32 bs 0 (\<lambda>count.
          if count > AIVM_WORKER_CATALOG_MAX_ENTRIES then LoadOk (AIVM_WORKER_CATALOG_ERR_LIMIT, [])
          else if count = 0 then
            LoadOk (if length bs = 4 then AIVM_WORKER_CATALOG_OK else AIVM_WORKER_CATALOG_ERR_FORMAT, [])
          else if \<not> alloc (count * sizeof_AivmWorkerCatalogEntry) then
            LoadOk (AIVM_WORKER_CATALOG_ERR_MEMORY, [])
          else load_catalog_loop count nested alloc bs 4 []))"

section \<open>Instruction section\<close>

definition set_instruction :: "AivmProgram \<Rightarrow> nat \<Rightarrow> AivmInstruction \<Rightarrow> AivmProgram" where
  "set_instruction p index i =
     p\<lparr>instructions := map_option (\<lambda>is. is[index := i]) (instructions p)\<rparr>"

primrec load_instruction_loop ::
  "nat \<Rightarrow> bytes \<Rightarrow> nat \<Rightarrow> nat \<Rightarrow> AivmProgram \<Rightarrow> AivmProgram load" where
  "load_instruction_loop 0 bs cursor index p = LoadOk p"
| "load_instruction_loop (Suc n) bs cursor index p =
     with_u32 bs cursor (\<lambda>raw_opcode.
     with_u64 bs (cursor + 4) (\<lambda>operand.
       if raw_opcode > AIVM_OP_MAX then LoadStop AIVM_PROGRAM_ERR_INVALID_OPCODE cursor p
       else load_instruction_loop n bs (cursor + 12) (index + 1)
              (set_instruction p index \<lparr>opcode = raw_opcode, operand_int = sint operand\<rparr>)))"

definition constant_load_error :: "AivmProgram \<Rightarrow> AivmProgramStatus \<Rightarrow> nat \<Rightarrow> 'r load" where
  "constant_load_error p status off = LoadStop status off (aivm_program_release p)"

definition instruction_section_mismatch :: "nat \<Rightarrow> nat \<Rightarrow> bool" where
  "instruction_section_mismatch count sz =
     (case size_mul_checked count 12 of
        None \<Rightarrow> True
      | Some n \<Rightarrow> (case aivm_size_add_checked 4 n of None \<Rightarrow> True | Some m \<Rightarrow> sz \<noteq> m))"

definition load_instruction_section ::
  "(nat \<Rightarrow> bool) \<Rightarrow> bytes \<Rightarrow> nat \<Rightarrow> nat \<Rightarrow> AivmProgram \<Rightarrow> AivmProgram load" where
  "load_instruction_section alloc bs start sz p =
     (if sz < 4 then LoadStop AIVM_PROGRAM_ERR_INVALID_SECTION start p
      else
        with_u32 bs start (\<lambda>count.
          if instruction_section_mismatch count sz
          then LoadStop AIVM_PROGRAM_ERR_INVALID_SECTION start p
          else
            (case aivm_program_instructions_reserve alloc p count of
               None \<Rightarrow> constant_load_error p AIVM_PROGRAM_ERR_MEMORY start
             | Some p \<Rightarrow>
                 bind_load (load_instruction_loop count bs (start + 4) 0 p)
                   (\<lambda>p. LoadOk (p\<lparr>instruction_count := count\<rparr>)))))"

section \<open>Constant section\<close>

definition set_constant :: "AivmProgram \<Rightarrow> nat \<Rightarrow> AivmValue \<Rightarrow> AivmProgram" where
  "set_constant p index v =
     p\<lparr>constants := map_option (\<lambda>cs. cs[index := v]) (constants p)\<rparr>"

text \<open>The storage is the used part of the program's buffer; a constant points into it, and is
  represented by what it points to. The size conditions are checked by the caller and again here.\<close>

definition write_string_constant :: "AivmProgram \<Rightarrow> nat \<Rightarrow> bytes \<Rightarrow> AivmProgram option" where
  "write_string_constant p index data =
     (case aivm_size_add_checked (length (string_storage p)) (length data) of
        None \<Rightarrow> None
      | Some n \<Rightarrow>
          (case size_add_within n 1 AIVM_PROGRAM_MAX_STRING_BYTES of
             None \<Rightarrow> None
           | Some needed \<Rightarrow>
               Some (set_constant
                 (p\<lparr>string_storage := string_storage p @ map char_of_byte data @ [CHR 0x00]\<rparr>)
                 index (ValString (CExt (map char_of_byte data))))))"

definition write_bytes_constant :: "AivmProgram \<Rightarrow> nat \<Rightarrow> bytes \<Rightarrow> AivmProgram option" where
  "write_bytes_constant p index data =
     (case size_add_within (length (bytes_storage p)) (length data) AIVM_PROGRAM_MAX_BYTES_STORAGE of
        None \<Rightarrow> None
      | Some needed \<Rightarrow>
          Some (set_constant (p\<lparr>bytes_storage := bytes_storage p @ data\<rparr>) index
                  (ValBytes (BExt data) (length data))))"

definition load_string_constant ::
  "bytes \<Rightarrow> nat \<Rightarrow> nat \<Rightarrow> nat \<Rightarrow> AivmProgram \<Rightarrow> (nat \<times> AivmProgram) load" where
  "load_string_constant bs section_end cursor index p =
     (case size_add_within cursor 4 section_end of
        None \<Rightarrow> constant_load_error p AIVM_PROGRAM_ERR_INVALID_SECTION cursor
      | Some _ \<Rightarrow>
          with_u32 bs cursor (\<lambda>len.
            let cursor = cursor + 4 in
            (case size_add_within cursor len section_end of
               None \<Rightarrow> constant_load_error p AIVM_PROGRAM_ERR_INVALID_SECTION cursor
             | Some _ \<Rightarrow>
                 if (case aivm_size_add_checked (length (string_storage p)) len of
                       None \<Rightarrow> True
                     | Some n \<Rightarrow> size_add_within n 1 AIVM_PROGRAM_MAX_STRING_BYTES = None)
                 then constant_load_error p AIVM_PROGRAM_ERR_STRING_LIMIT cursor
                 else
                   with_block bs cursor len (\<lambda>data.
                     (case write_string_constant p index data of
                        None \<Rightarrow> constant_load_error p AIVM_PROGRAM_ERR_STRING_LIMIT cursor
                      | Some p \<Rightarrow> LoadOk (cursor + len, p))))))"

definition load_bytes_constant ::
  "bytes \<Rightarrow> nat \<Rightarrow> nat \<Rightarrow> nat \<Rightarrow> AivmProgram \<Rightarrow> (nat \<times> AivmProgram) load" where
  "load_bytes_constant bs section_end cursor index p =
     (case size_add_within cursor 4 section_end of
        None \<Rightarrow> constant_load_error p AIVM_PROGRAM_ERR_INVALID_SECTION cursor
      | Some _ \<Rightarrow>
          with_u32 bs cursor (\<lambda>len.
            let cursor = cursor + 4 in
            (case size_add_within cursor len section_end of
               None \<Rightarrow> constant_load_error p AIVM_PROGRAM_ERR_INVALID_SECTION cursor
             | Some _ \<Rightarrow>
                 if size_add_within (length (bytes_storage p)) len AIVM_PROGRAM_MAX_BYTES_STORAGE = None
                 then constant_load_error p AIVM_PROGRAM_ERR_STRING_LIMIT cursor
                 else
                   with_block bs cursor len (\<lambda>data.
                     (case write_bytes_constant p index data of
                        None \<Rightarrow> constant_load_error p AIVM_PROGRAM_ERR_STRING_LIMIT cursor
                      | Some p \<Rightarrow> LoadOk (cursor + len, p))))))"

text \<open>One constant: the tag byte and the payload.\<close>

definition load_constant ::
  "bytes \<Rightarrow> nat \<Rightarrow> nat \<Rightarrow> nat \<Rightarrow> AivmProgram \<Rightarrow> (nat \<times> AivmProgram) load" where
  "load_constant bs section_end cursor index p =
     (if cursor \<ge> section_end then constant_load_error p AIVM_PROGRAM_ERR_INVALID_SECTION cursor
      else
        with_u8 bs cursor (\<lambda>kind.
          let cursor = cursor + 1 in
          if kind = 1 \<or> kind = 7 then
            (case size_add_within cursor 8 section_end of
               None \<Rightarrow> constant_load_error p AIVM_PROGRAM_ERR_INVALID_SECTION cursor
             | Some _ \<Rightarrow>
                 with_u64 bs cursor (\<lambda>w.
                   LoadOk (cursor + 8,
                     set_constant p index
                       (if kind = 1 then ValInt (sint w) else ValNumber (f64_of_bits w)))))
          else if kind = 2 then
            (case size_add_within cursor 1 section_end of
               None \<Rightarrow> constant_load_error p AIVM_PROGRAM_ERR_INVALID_SECTION cursor
             | Some _ \<Rightarrow>
                 with_u8 bs cursor (\<lambda>b. LoadOk (cursor + 1, set_constant p index (ValBool (b \<noteq> 0)))))
          else if kind = 6 then LoadOk (cursor, set_constant p index ValNull)
          else if kind = 3 then load_string_constant bs section_end cursor index p
          else if kind = 4 then LoadOk (cursor, set_constant p index ValVoid)
          else if kind = 5 then load_bytes_constant bs section_end cursor index p
          else constant_load_error p AIVM_PROGRAM_ERR_INVALID_CONSTANT (cursor - 1)))"

primrec load_constant_loop ::
  "nat \<Rightarrow> bytes \<Rightarrow> nat \<Rightarrow> nat \<Rightarrow> nat \<Rightarrow> AivmProgram \<Rightarrow> (nat \<times> AivmProgram) load" where
  "load_constant_loop 0 bs section_end cursor index p = LoadOk (cursor, p)"
| "load_constant_loop (Suc n) bs section_end cursor index p =
     bind_load (load_constant bs section_end cursor index p)
       (\<lambda>(cursor, p). load_constant_loop n bs section_end cursor (index + 1) p)"

definition load_constant_section ::
  "(nat \<Rightarrow> bool) \<Rightarrow> bytes \<Rightarrow> nat \<Rightarrow> nat \<Rightarrow> nat \<Rightarrow> AivmProgram \<Rightarrow> AivmProgram load" where
  "load_constant_section alloc bs start sz section_end p =
     (if sz < 4 then LoadStop AIVM_PROGRAM_ERR_INVALID_SECTION start p
      else
        with_u32 bs start (\<lambda>count.
          (case aivm_program_constants_reserve alloc p count of
             None \<Rightarrow> LoadStop AIVM_PROGRAM_ERR_MEMORY start p
           | Some p \<Rightarrow>
               bind_load (load_constant_loop count bs section_end (start + 4) 0 p) (\<lambda>(cursor, p).
                 if cursor \<noteq> section_end then
                   constant_load_error p AIVM_PROGRAM_ERR_INVALID_SECTION cursor
                 else LoadOk (p\<lparr>constant_count := count\<rparr>)))))"

section \<open>The loader\<close>

definition AIVM_PROGRAM_SECTION_INSTRUCTIONS :: nat where "AIVM_PROGRAM_SECTION_INSTRUCTIONS = 1"
definition AIVM_PROGRAM_SECTION_CONSTANTS :: nat where "AIVM_PROGRAM_SECTION_CONSTANTS = 2"
definition AIVM_PROGRAM_SECTION_WORKER_CATALOG :: nat where "AIVM_PROGRAM_SECTION_WORKER_CATALOG = 3"

text \<open>One section whose header is at \<open>cursor\<close>. The three flags say which kinds of section have
  been seen; the result has the end of the section, the flags and the program.\<close>

definition load_section ::
  "(bytes \<Rightarrow> AivmProgram load) \<Rightarrow> (nat \<Rightarrow> bool) \<Rightarrow> bytes \<Rightarrow> nat \<Rightarrow> nat \<Rightarrow>
   bool \<times> bool \<times> bool \<Rightarrow> AivmProgram \<Rightarrow> (nat \<times> (bool \<times> bool \<times> bool) \<times> AivmProgram) load" where
  "load_section nested alloc bs cursor section_index seen p =
     (case size_add_within cursor 8 (length bs) of
        None \<Rightarrow> LoadStop AIVM_PROGRAM_ERR_TRUNCATED cursor p
      | Some _ \<Rightarrow>
        with_u32 bs cursor (\<lambda>ty.
        with_u32 bs (cursor + 4) (\<lambda>sz.
          let start = cursor + 8 in
          (case size_add_within start sz (length bs) of
             None \<Rightarrow> LoadStop AIVM_PROGRAM_ERR_SECTION_OOB start p
           | Some section_end \<Rightarrow>
             let p = p\<lparr>sections := (sections p)[section_index :=
                        \<lparr>section_type = ty, section_size = sz,
                         section_offset = start mod 2 ^ 32\<rparr>]\<rparr>;
                 (has_instructions, has_constants, has_catalog) = seen
             in
             if ty = AIVM_PROGRAM_SECTION_INSTRUCTIONS then
               if has_instructions then LoadStop AIVM_PROGRAM_ERR_INVALID_SECTION start p
               else bind_load (load_instruction_section alloc bs start sz p)
                      (\<lambda>p. LoadOk (section_end, (True, has_constants, has_catalog), p))
             else if ty = AIVM_PROGRAM_SECTION_CONSTANTS then
               if has_constants then LoadStop AIVM_PROGRAM_ERR_INVALID_SECTION start p
               else bind_load (load_constant_section alloc bs start sz section_end p)
                      (\<lambda>p. LoadOk (section_end, (has_instructions, True, has_catalog), p))
             else if ty = AIVM_PROGRAM_SECTION_WORKER_CATALOG then
               if has_catalog then constant_load_error p AIVM_PROGRAM_ERR_INVALID_SECTION start
               else
                 with_block bs start sz (\<lambda>payload.
                   bind_load (aivm_worker_catalog_load nested alloc payload) (\<lambda>(status, entries).
                     if status \<noteq> AIVM_WORKER_CATALOG_OK then
                       constant_load_error p AIVM_PROGRAM_ERR_WORKER_CATALOG start
                     else LoadOk (section_end, (has_instructions, has_constants, True),
                            p\<lparr>worker_catalog := entries\<rparr>)))
             else LoadOk (section_end, seen, p)))))"

primrec load_section_loop ::
  "nat \<Rightarrow> (bytes \<Rightarrow> AivmProgram load) \<Rightarrow> (nat \<Rightarrow> bool) \<Rightarrow> bytes \<Rightarrow> nat \<Rightarrow> nat \<Rightarrow>
   bool \<times> bool \<times> bool \<Rightarrow> AivmProgram \<Rightarrow> AivmProgram load" where
  "load_section_loop 0 nested alloc bs cursor section_index seen p = LoadOk p"
| "load_section_loop (Suc n) nested alloc bs cursor section_index seen p =
     bind_load (load_section nested alloc bs cursor section_index seen p)
       (\<lambda>(cursor, seen, p). load_section_loop n nested alloc bs cursor (section_index + 1) seen p)"

definition aibc_magic :: bytes where
  "aibc_magic = [0x41, 0x49, 0x42, 0x43]"

definition load_aibc1_with ::
  "(bytes \<Rightarrow> AivmProgram load) \<Rightarrow> (nat \<Rightarrow> bool) \<Rightarrow> bytes \<Rightarrow> AivmProgram load" where
  "load_aibc1_with nested alloc bs =
     (let p = aivm_program_clear in
      if length bs < 16 then LoadStop AIVM_PROGRAM_ERR_TRUNCATED (length bs) p
      else if take 4 bs \<noteq> aibc_magic then LoadStop AIVM_PROGRAM_ERR_BAD_MAGIC 0 p
      else
        with_u32 bs 4 (\<lambda>version. with_u32 bs 8 (\<lambda>flags. with_u32 bs 12 (\<lambda>count.
          let p = p\<lparr>format_version := version, format_flags := flags, section_count := count\<rparr> in
          if version \<noteq> 2 then LoadStop AIVM_PROGRAM_ERR_UNSUPPORTED 4 p
          else if count > AIVM_PROGRAM_MAX_SECTIONS then LoadStop AIVM_PROGRAM_ERR_SECTION_LIMIT 12 p
          else load_section_loop count nested alloc bs 16 0 (False, False, False) p))))"

text \<open>The recursion. The artifacts of the input's catalog are slices of it and shorter than it, so
  the guard never stops a load; \<open>load_aibc1_unfold\<close> below is the equation without it.\<close>

function load_aibc1 :: "(nat \<Rightarrow> bool) \<Rightarrow> bytes \<Rightarrow> AivmProgram load" where
  "load_aibc1 alloc bs =
     load_aibc1_with (\<lambda>a. if length a < length bs then load_aibc1 alloc a else LoadFault) alloc bs"
  by pat_completeness auto

termination
  by (relation "measure (\<lambda>(alloc, bs). length bs)") auto

declare load_aibc1.simps [simp del]

text \<open>A null byte pointer is \<open>None\<close>.\<close>

definition aivm_program_load_aibc1 :: "(nat \<Rightarrow> bool) \<Rightarrow> bytes option \<Rightarrow> AivmProgram load" where
  "aivm_program_load_aibc1 alloc bs =
     (case bs of
        None \<Rightarrow> LoadStop AIVM_PROGRAM_ERR_NULL 0 aivm_program_clear
      | Some bs \<Rightarrow> load_aibc1 alloc bs)"

section \<open>Memory safety\<close>

lemma size_add_within_Some:
  "size_add_within a b bound = Some c \<longleftrightarrow> a \<le> SIZE_MAX - b \<and> c = a + b \<and> a + b \<le> bound"
  by (auto simp: size_add_within_def split: option.split)

text \<open>A load that did not read outside the buffer.\<close>

definition no_fault :: "'r load \<Rightarrow> bool" where
  "no_fault r \<longleftrightarrow> r \<noteq> LoadFault"

lemma no_fault_simps [simp]:
  "no_fault (LoadOk x)" "no_fault (LoadStop s off p)" "no_fault (constant_load_error q t n)"
  by (simp_all add: no_fault_def constant_load_error_def)

lemma no_fault_bind:
  "no_fault r \<Longrightarrow> (\<And>x. r = LoadOk x \<Longrightarrow> no_fault (f x)) \<Longrightarrow> no_fault (bind_load r f)"
  by (cases r) (auto simp: no_fault_def)

lemma no_fault_reads:
  "off < length bs \<Longrightarrow> (\<And>x. no_fault (f x)) \<Longrightarrow> no_fault (with_u8 bs off f)"
  "off + 4 \<le> length bs \<Longrightarrow> (\<And>x. no_fault (g x)) \<Longrightarrow> no_fault (with_u32 bs off g)"
  "off + 8 \<le> length bs \<Longrightarrow> (\<And>x. no_fault (h x)) \<Longrightarrow> no_fault (with_u64 bs off h)"
  "n = 0 \<or> off + n \<le> length bs \<Longrightarrow> (\<And>x. length x \<le> length bs - off \<Longrightarrow> no_fault (k x)) \<Longrightarrow>
   no_fault (with_block bs off n k)"
  by (auto simp: with_u8_def with_u32_def with_u64_def with_block_def)

lemma bind_load_Ok: "bind_load r f = LoadOk y \<longleftrightarrow> (\<exists>x. r = LoadOk x \<and> f x = LoadOk y)"
  by (cases r) auto

lemma with_Ok:
  "with_u8 bs off f = LoadOk r \<longleftrightarrow> off < length bs \<and> f (bs ! off) = LoadOk r"
  "with_u32 bs off g = LoadOk r \<longleftrightarrow> off + 4 \<le> length bs \<and> g (unat (read_u32_le bs off)) = LoadOk r"
  "with_u64 bs off h = LoadOk r \<longleftrightarrow> off + 8 \<le> length bs \<and> h (read_u64_le bs off) = LoadOk r"
  "with_block bs off n k = LoadOk r \<longleftrightarrow>
     (n = 0 \<or> off + n \<le> length bs) \<and> k (take n (drop off bs)) = LoadOk r"
  by (auto simp: with_u8_def with_u32_def with_u64_def with_block_def)

lemma constant_load_error_simps [simp]:
  "constant_load_error p s off \<noteq> LoadOk r"
  by (simp add: constant_load_error_def)

lemma load_instruction_loop_safe:
  "cursor + 12 * n \<le> length bs \<Longrightarrow> no_fault (load_instruction_loop n bs cursor index p)"
  by (induction n arbitrary: cursor index p) (auto intro!: no_fault_reads)

lemma instruction_section_size:
  "\<not> instruction_section_mismatch count sz \<Longrightarrow> sz = 4 + 12 * count"
  by (auto simp: instruction_section_mismatch_def size_mul_checked_def split: option.splits if_splits)

lemma load_instruction_section_safe:
  assumes "start + sz \<le> length bs"
  shows "no_fault (load_instruction_section alloc bs start sz p)"
proof -
  have "no_fault (load_instruction_loop count bs (start + 4) 0 q)"
    if "\<not> instruction_section_mismatch count sz" for count q
    using instruction_section_size [OF that] assms by (intro load_instruction_loop_safe) simp
  then show ?thesis
    using assms unfolding load_instruction_section_def
    by (auto intro!: no_fault_reads no_fault_bind split: option.split)
qed

lemma load_constant_safe:
  assumes "section_end \<le> length bs"
  shows "no_fault (load_constant bs section_end cursor index p)"
  using assms
  by (auto simp: load_constant_def load_string_constant_def load_bytes_constant_def Let_def
      size_add_within_Some intro!: no_fault_reads split: option.split)

lemma load_constant_loop_safe:
  "section_end \<le> length bs \<Longrightarrow> no_fault (load_constant_loop n bs section_end cursor index p)"
  by (induction n arbitrary: cursor index p) (auto intro!: no_fault_bind load_constant_safe)

lemma load_constant_section_safe:
  assumes "start + sz \<le> length bs" and "section_end \<le> length bs"
  shows "no_fault (load_constant_section alloc bs start sz section_end p)"
  using assms
  by (auto simp: load_constant_section_def load_constant_loop_safe
      intro!: no_fault_reads no_fault_bind split: option.split)

lemma accept_worker_program_safe:
  "no_fault r \<Longrightarrow> no_fault (accept_worker_program r entry cursor)"
  by (auto simp: accept_worker_program_def no_fault_def split: load.split)

lemma load_catalog_entry_safe:
  assumes "\<And>a. length a < length bs \<Longrightarrow> no_fault (nested a)"
  shows "no_fault (load_catalog_entry nested alloc bs cursor)"
  unfolding load_catalog_entry_def Let_def catalog_limits
  by (auto intro!: no_fault_reads accept_worker_program_safe assms) linarith+

lemma load_catalog_loop_safe:
  assumes "\<And>a. length a < length bs \<Longrightarrow> no_fault (nested a)"
  shows "no_fault (load_catalog_loop n nested alloc bs cursor entries)"
  by (induction n arbitrary: cursor entries)
    (auto intro!: no_fault_bind load_catalog_entry_safe [OF assms] split: sum.split)

lemma worker_catalog_load_safe:
  assumes "\<And>a. length a < length bs \<Longrightarrow> no_fault (nested a)"
  shows "no_fault (aivm_worker_catalog_load nested alloc bs)"
  using load_catalog_loop_safe [OF assms]
  by (auto simp: aivm_worker_catalog_load_def intro!: no_fault_reads)

lemma load_section_safe:
  assumes "\<And>a. length a < length bs \<Longrightarrow> no_fault (nested a)"
  shows "no_fault (load_section nested alloc bs cursor index seen p)"
proof -
  obtain a b c where seen: "seen = (a, b, c)"
    by (cases seen)
  have "no_fault (aivm_worker_catalog_load nested alloc payload)" if "length payload \<le> length bs - k"
    for payload k
    using assms that by (intro worker_catalog_load_safe) simp
  then show ?thesis
    by (auto simp: load_section_def seen Let_def size_add_within_Some
        load_instruction_section_safe load_constant_section_safe
        intro!: no_fault_bind no_fault_reads split: option.split)
qed

lemma load_section_loop_safe:
  assumes "\<And>a. length a < length bs \<Longrightarrow> no_fault (nested a)"
  shows "no_fault (load_section_loop n nested alloc bs cursor index seen p)"
  by (induction n arbitrary: cursor index seen p)
    (auto intro!: no_fault_bind load_section_safe [OF assms])

lemma load_aibc1_with_safe:
  assumes "\<And>a. length a < length bs \<Longrightarrow> no_fault (nested a)"
  shows "no_fault (load_aibc1_with nested alloc bs)"
  using load_section_loop_safe [OF assms]
  by (auto simp: load_aibc1_with_def Let_def intro!: no_fault_reads)

lemma load_aibc1_safe: "no_fault (load_aibc1 alloc bs)"
proof (induction alloc bs rule: load_aibc1.induct)
  case (1 alloc bs)
  show ?case
    by (subst load_aibc1.simps) (rule load_aibc1_with_safe, simp add: 1)
qed

section \<open>The recursion on artifacts\<close>

lemma reads_cong:
  "(\<And>x. g x = g' x) \<Longrightarrow> with_u32 bs off g = with_u32 bs off g'"
  "(\<And>x. length x \<le> length bs - off \<Longrightarrow> k x = k' x) \<Longrightarrow> with_block bs off n k = with_block bs off n k'"
  by (auto simp: with_u32_def with_block_def)

lemma load_catalog_entry_cong:
  assumes "\<And>a. length a < length bs \<Longrightarrow> n1 a = n2 a"
  shows "load_catalog_entry n1 alloc bs cursor = load_catalog_entry n2 alloc bs cursor"
proof (cases "cursor > length bs \<or> length bs - cursor < 52")
  case True
  then show ?thesis
    by (simp add: load_catalog_entry_def)
next
  case False
  then have "n1 a = n2 a" if "length a \<le> length bs - (cursor + 52)" for a
    using that assms by fastforce
  with False show ?thesis
    unfolding load_catalog_entry_def Let_def by (auto intro!: reads_cong)
qed

lemma load_catalog_loop_cong:
  assumes "\<And>a. length a < length bs \<Longrightarrow> n1 a = n2 a"
  shows "load_catalog_loop n n1 alloc bs = load_catalog_loop n n2 alloc bs"
proof (induction n)
  case 0
  show ?case
    by (intro ext) simp
next
  case (Suc n)
  show ?case
    by (intro ext)
      (simp only: load_catalog_loop.simps Suc load_catalog_entry_cong [of bs n1 n2, OF assms])
qed

lemma worker_catalog_load_cong:
  assumes "\<And>a. length a < length bs \<Longrightarrow> n1 a = n2 a"
  shows "aivm_worker_catalog_load n1 alloc bs = aivm_worker_catalog_load n2 alloc bs"
  unfolding aivm_worker_catalog_load_def
  by (simp only: load_catalog_loop_cong [of bs n1 n2, OF assms])

lemma load_section_cong:
  assumes "\<And>a. length a < length bs \<Longrightarrow> n1 a = n2 a"
  shows "load_section n1 alloc bs cursor index seen p = load_section n2 alloc bs cursor index seen p"
proof -
  have payload: "aivm_worker_catalog_load n1 alloc b = aivm_worker_catalog_load n2 alloc b"
    if "length b \<le> length bs - k" for b k
    using that assms by (intro worker_catalog_load_cong) simp
  have block: "with_block bs off n (\<lambda>b. bind_load (aivm_worker_catalog_load n1 alloc b) f) =
      with_block bs off n (\<lambda>b. bind_load (aivm_worker_catalog_load n2 alloc b) f)"
    for off n and f :: "_ \<Rightarrow> (nat \<times> (bool \<times> bool \<times> bool) \<times> AivmProgram) load"
    by (rule reads_cong(2)) (simp add: payload)
  show ?thesis
    unfolding load_section_def block ..
qed

lemma load_section_loop_cong:
  assumes "\<And>a. length a < length bs \<Longrightarrow> n1 a = n2 a"
  shows "load_section_loop n n1 alloc bs = load_section_loop n n2 alloc bs"
proof (induction n)
  case 0
  show ?case
    by (intro ext) simp
next
  case (Suc n)
  show ?case
    by (intro ext)
      (simp only: load_section_loop.simps Suc load_section_cong [of bs n1 n2, OF assms])
qed

lemma load_aibc1_with_cong:
  assumes "\<And>a. length a < length bs \<Longrightarrow> n1 a = n2 a"
  shows "load_aibc1_with n1 alloc bs = load_aibc1_with n2 alloc bs"
  unfolding load_aibc1_with_def
  by (simp only: load_section_loop_cong [of bs n1 n2, OF assms])

lemma load_aibc1_unfold: "load_aibc1 alloc bs = load_aibc1_with (load_aibc1 alloc) alloc bs"
  by (subst load_aibc1.simps) (rule load_aibc1_with_cong, simp)

section \<open>What a loaded program satisfies\<close>

text \<open>The parts of the well-formedness predicate, for a program under construction: the buffers are
  as long as the counts, or not yet counted.\<close>

definition loading_ok :: "bool \<times> bool \<times> bool \<Rightarrow> AivmProgram \<Rightarrow> bool" where
  "loading_ok seen p \<longleftrightarrow>
     (case seen of (has_instructions, has_constants, has_catalog) \<Rightarrow>
       (if has_instructions then
          (case instructions p of None \<Rightarrow> instruction_count p = 0
           | Some is \<Rightarrow> length is = instruction_count p \<and> list_all valid_instruction is)
        else instructions p = None \<and> instruction_count p = 0) \<and>
       (if has_constants then
          (case constants p of None \<Rightarrow> constant_count p = 0
           | Some cs \<Rightarrow> length cs = constant_count p)
        else constants p = None \<and> constant_count p = 0)) \<and>
     length (string_storage p) \<le> AIVM_PROGRAM_MAX_STRING_BYTES \<and>
     length (bytes_storage p) \<le> AIVM_PROGRAM_MAX_BYTES_STORAGE"

lemma sint_in_i64: "in_i64 (sint (w :: u64))"
  using sint_greater_eq [of w] sint_less [of w] by (simp add: i64_defs)

lemma list_all_update: "list_all P xs \<Longrightarrow> P x \<Longrightarrow> list_all P (xs[i := x])"
  by (auto simp: list_all_iff dest!: subsetD [OF set_update_subset_insert])

lemma load_instruction_loop_Ok:
  assumes "load_instruction_loop n bs cursor index p = LoadOk q"
    and "\<And>is. instructions p = Some is \<Longrightarrow> list_all valid_instruction is"
  shows "(\<exists>is. q = p\<lparr>instructions := is\<rparr> \<and> map_option length is = map_option length (instructions p) \<and>
           (\<forall>js. is = Some js \<longrightarrow> list_all valid_instruction js))"
  using assms
proof (induction n arbitrary: cursor index p)
  case 0
  then show ?case
    by (intro exI [of _ "instructions p"]) auto
next
  case (Suc n)
  then obtain op operand where loop: "load_instruction_loop n bs (cursor + 12) (index + 1)
      (set_instruction p index \<lparr>opcode = op, operand_int = sint (operand :: u64)\<rparr>) = LoadOk q"
    and op: "op \<le> AIVM_OP_MAX"
    by (auto simp: with_Ok split: if_splits)
  have "valid_instruction \<lparr>opcode = op, operand_int = sint operand\<rparr>"
    using op by (simp add: valid_instruction_def sint_in_i64)
  then have "list_all valid_instruction is"
    if "instructions (set_instruction p index \<lparr>opcode = op, operand_int = sint (operand :: u64)\<rparr>) = Some is"
    for "is"
    using that Suc.prems(2) by (auto simp: set_instruction_def intro!: list_all_update)
  from Suc.IH [OF loop this] show ?case
    by (auto simp: set_instruction_def option.map_comp o_def)
qed

lemma instructions_reserve_Some:
  assumes "aivm_program_instructions_reserve alloc p count = Some q"
  shows "\<exists>is cap. q = p\<lparr>instructions := is, instruction_capacity := cap\<rparr> \<and>
           (case is of None \<Rightarrow> count = 0
            | Some js \<Rightarrow> length js = count \<and> list_all valid_instruction js)"
  using assms
  by (auto simp: aivm_program_instructions_reserve_def Let_def valid_instruction_def list_all_iff
      i64_defs split: if_splits)

lemma load_instruction_section_Ok:
  assumes "load_instruction_section alloc bs start sz p = LoadOk q"
    and "loading_ok (False, c, w) p"
  shows "loading_ok (True, c, w) q \<and> section_count q = section_count p \<and>
         format_version q = format_version p \<and> worker_catalog q = worker_catalog p"
proof -
  from assms(1) obtain count r s where res: "aivm_program_instructions_reserve alloc p count = Some r"
    and loop: "load_instruction_loop count bs (start + 4) 0 r = LoadOk s"
    and q: "q = s\<lparr>instruction_count := count\<rparr>"
    by (auto simp: load_instruction_section_def with_Ok bind_load_Ok split: if_splits option.splits)
  from instructions_reserve_Some [OF res] obtain "is" cap where
    r: "r = p\<lparr>instructions := is, instruction_capacity := cap\<rparr>"
    and r_is: "case is of None \<Rightarrow> count = 0
      | Some js \<Rightarrow> length js = count \<and> list_all valid_instruction js"
    by blast
  have "list_all valid_instruction js" if "instructions r = Some js" for js
    using that r r_is by simp
  from load_instruction_loop_Ok [OF loop this] obtain ks where
    s: "s = r\<lparr>instructions := ks\<rparr>" "map_option length ks = map_option length is"
    and "\<And>js. ks = Some js \<Longrightarrow> list_all valid_instruction js"
    by (auto simp: r)
  then show ?thesis
    using assms(2) q r r_is by (cases ks; cases "is") (auto simp: loading_ok_def cong: option.case_cong)
qed

text \<open>What loading one constant may change.\<close>

definition constant_step :: "AivmProgram \<Rightarrow> AivmProgram \<Rightarrow> bool" where
  "constant_step p q \<longleftrightarrow>
     instructions q = instructions p \<and> instruction_count q = instruction_count p \<and>
     constant_count q = constant_count p \<and> section_count q = section_count p \<and>
     format_version q = format_version p \<and> worker_catalog q = worker_catalog p \<and>
     map_option length (constants q) = map_option length (constants p) \<and>
     (length (string_storage p) \<le> AIVM_PROGRAM_MAX_STRING_BYTES \<longrightarrow>
        length (string_storage q) \<le> AIVM_PROGRAM_MAX_STRING_BYTES) \<and>
     (length (bytes_storage p) \<le> AIVM_PROGRAM_MAX_BYTES_STORAGE \<longrightarrow>
        length (bytes_storage q) \<le> AIVM_PROGRAM_MAX_BYTES_STORAGE)"

lemma constant_step_refl: "constant_step p p"
  by (simp add: constant_step_def)

lemma constant_step_trans: "constant_step p q \<Longrightarrow> constant_step q r \<Longrightarrow> constant_step p r"
  by (auto simp: constant_step_def)

lemma set_constant_step: "constant_step p (set_constant p index v)"
  by (simp add: constant_step_def set_constant_def option.map_comp o_def)

lemma write_string_constant_step:
  "write_string_constant p index data = Some q \<Longrightarrow> constant_step p q"
  by (auto simp: write_string_constant_def set_constant_def size_add_within_Some option.map_comp o_def
      constant_step_def split: option.splits)

lemma write_bytes_constant_step:
  "write_bytes_constant p index data = Some q \<Longrightarrow> constant_step p q"
  by (auto simp: write_bytes_constant_def set_constant_def size_add_within_Some option.map_comp o_def
      constant_step_def split: option.splits)

lemma load_constant_Ok: "load_constant bs section_end cursor index p = LoadOk (c, q) \<Longrightarrow> constant_step p q"
  by (auto simp: load_constant_def load_string_constant_def load_bytes_constant_def Let_def with_Ok
      set_constant_step write_string_constant_step write_bytes_constant_step
      split: if_splits option.splits)

lemma load_constant_loop_Ok:
  "load_constant_loop n bs section_end cursor index p = LoadOk (c, q) \<Longrightarrow> constant_step p q"
proof (induction n arbitrary: cursor index p)
  case 0
  then show ?case
    by (simp add: constant_step_refl)
next
  case (Suc n)
  then show ?case
    by (auto simp: bind_load_Ok dest!: load_constant_Ok intro: constant_step_trans)
qed

lemma load_constant_section_Ok:
  assumes "load_constant_section alloc bs start sz section_end p = LoadOk q"
    and "loading_ok (i, False, w) p"
  shows "loading_ok (i, True, w) q \<and> section_count q = section_count p \<and>
         format_version q = format_version p \<and> worker_catalog q = worker_catalog p"
proof -
  from assms(1) obtain count r c s where res: "aivm_program_constants_reserve alloc p count = Some r"
    and loop: "load_constant_loop count bs section_end (start + 4) 0 r = LoadOk (c, s)"
    and q: "q = s\<lparr>constant_count := count\<rparr>"
    by (auto simp: load_constant_section_def with_Ok bind_load_Ok split: if_splits option.splits)
  from res obtain cs cap where r: "r = p\<lparr>constants := cs, constant_capacity := cap\<rparr>"
    and cs: "case cs of None \<Rightarrow> count = 0 | Some vs \<Rightarrow> length vs = count"
    by (auto simp: aivm_program_constants_reserve_def split: if_splits)
  from load_constant_loop_Ok [OF loop] have "constant_step r s" .
  then show ?thesis
    using assms(2) q r cs
    by (cases cs; cases "constants s") (auto simp: loading_ok_def constant_step_def cong: option.case_cong)
qed

text \<open>What the loader has checked of a catalog entry; \<open>nested\<close> loads its artifact.\<close>

definition entry_ok :: "(bytes \<Rightarrow> AivmProgram load) \<Rightarrow> AivmWorkerCatalogEntry \<Rightarrow> bool" where
  "entry_ok nested e \<longleftrightarrow>
     transport_abi e = AIVM_WORKER_TRANSPORT_ABI_BYTES_V1 \<and>
     required_capabilities e AND 0xffff0000 = 0 \<and>
     identity e = aivm_worker_identity (of_nat (function_target e)) (required_capabilities e)
       (of_nat (transport_abi e)) (of_nat (bytecode_version e)) (artifact e) \<and>
     (case nested (artifact e) of
        LoadOk w \<Rightarrow> format_version w = bytecode_version e \<and> function_target e < instruction_count w
      | _ \<Rightarrow> False)"

lemma load_catalog_entry_Ok:
  "load_catalog_entry nested alloc bs cursor = LoadOk (Inr (e, c)) \<Longrightarrow> entry_ok nested e"
  by (auto simp: load_catalog_entry_def with_Ok Let_def accept_worker_program_def entry_ok_def
      split: if_splits load.splits)

lemma load_catalog_loop_Ok:
  assumes "load_catalog_loop n nested alloc bs cursor es = LoadOk (AIVM_WORKER_CATALOG_OK, es')"
    and "\<forall>e \<in> set es. entry_ok nested e"
  shows "\<forall>e \<in> set es'. entry_ok nested e"
  using assms
proof (induction n arbitrary: cursor es)
  case 0
  then show ?case
    by (simp split: if_splits)
next
  case (Suc n)
  from Suc.prems(1) obtain r where r: "load_catalog_entry nested alloc bs cursor = LoadOk r"
    and cont: "(case r of Inl status \<Rightarrow> LoadOk (status, [])
       | Inr (entry, cursor) \<Rightarrow> load_catalog_loop n nested alloc bs cursor (es @ [entry])) =
       LoadOk (AIVM_WORKER_CATALOG_OK, es')"
    by (auto simp: bind_load_Ok)
  show ?case
  proof (cases r)
    case (Inl status)
    with cont show ?thesis by simp
  next
    case (Inr ec)
    then obtain e c where "r = Inr (e, c)"
      by (cases ec) auto
    with r cont Suc.prems(2) show ?thesis
      by (intro Suc.IH [of c "es @ [e]"]) (auto dest: load_catalog_entry_Ok)
  qed
qed

lemma worker_catalog_load_Ok:
  "aivm_worker_catalog_load nested alloc bs = LoadOk (AIVM_WORKER_CATALOG_OK, es) \<Longrightarrow>
   \<forall>e \<in> set es. entry_ok nested e"
  by (auto simp: aivm_worker_catalog_load_def with_Ok dest!: load_catalog_loop_Ok split: if_splits)

lemma load_section_Ok:
  assumes "load_section nested alloc bs cursor index seen p = LoadOk (c, seen', q)"
    and "loading_ok seen p" and "\<forall>e \<in> set (worker_catalog p). entry_ok nested e"
  shows "loading_ok seen' q \<and> (\<forall>e \<in> set (worker_catalog q). entry_ok nested e) \<and>
         section_count q = section_count p \<and> format_version q = format_version p"
proof -
  obtain a b d where seen: "seen = (a, b, d)"
    by (cases seen)
  have upd: "loading_ok s (p\<lparr>sections := ss\<rparr>) = loading_ok s p" for s ss
    by (cases s) (simp add: loading_ok_def cong: option.case_cong)
  have cat: "loading_ok (x, y, True) (r\<lparr>worker_catalog := es\<rparr>)" if "loading_ok (x, y, z) r" for x y z r es
    using that by (simp add: loading_ok_def cong: option.case_cong)
  show ?thesis
    using assms
    by (auto simp: load_section_def seen Let_def with_Ok bind_load_Ok upd cat
        dest: load_instruction_section_Ok [OF _ iffD2 [OF upd]]
          load_constant_section_Ok [OF _ iffD2 [OF upd]] worker_catalog_load_Ok
        split: option.splits if_splits)
qed

lemma load_section_loop_Ok:
  assumes "load_section_loop n nested alloc bs cursor index seen p = LoadOk q"
    and "loading_ok seen p" and "\<forall>e \<in> set (worker_catalog p). entry_ok nested e"
  shows "(\<exists>seen'. loading_ok seen' q) \<and> (\<forall>e \<in> set (worker_catalog q). entry_ok nested e) \<and>
         section_count q = section_count p \<and> format_version q = format_version p"
  using assms
proof (induction n arbitrary: cursor index seen p)
  case 0
  then show ?case by (cases seen) auto
next
  case (Suc n)
  from Suc.prems(1) obtain c seen' r where
    sec: "load_section nested alloc bs cursor index seen p = LoadOk (c, seen', r)"
    and loop: "load_section_loop n nested alloc bs c (index + 1) seen' r = LoadOk q"
    by (auto simp: bind_load_Ok)
  from load_section_Ok [OF sec Suc.prems(2,3)] Suc.IH [OF loop] show ?case
    by auto
qed

lemma loading_ok_wf:
  "loading_ok seen p \<Longrightarrow> section_count p \<le> AIVM_PROGRAM_MAX_SECTIONS \<Longrightarrow> wf_program p"
  by (cases seen) (auto simp: loading_ok_def wf_program_def split: if_splits option.splits)

lemma load_aibc1_Ok:
  assumes "load_aibc1 alloc bs = LoadOk p"
  shows "wf_program p \<and> format_version p = 2 \<and> (\<forall>e \<in> set (worker_catalog p). entry_ok (load_aibc1 alloc) e)"
proof -
  let ?q = "\<lambda>flags count. aivm_program_clear\<lparr>format_version := 2, format_flags := flags,
      section_count := count\<rparr>"
  from assms obtain flags count where count: "count \<le> AIVM_PROGRAM_MAX_SECTIONS"
    and loop: "load_section_loop count (load_aibc1 alloc) alloc bs 16 0 (False, False, False)
      (?q flags count) = LoadOk p"
    unfolding load_aibc1_unfold [of alloc bs] load_aibc1_with_def Let_def
    by (auto simp: with_Ok not_less split: if_splits)
  have "loading_ok (False, False, False) (?q flags count)" "worker_catalog (?q flags count) = []"
    by (simp_all add: loading_ok_def aivm_program_clear_def)
  with load_section_loop_Ok [OF loop] count show ?thesis
    by (auto intro: loading_ok_wf)
qed

text \<open>C14 (safety): loading never reads outside the input, whatever the bytes are and whichever
  allocations the host refuses, nested worker artifacts included.\<close>

theorem load_never_faults: "aivm_program_load_aibc1 alloc input \<noteq> LoadFault"
  using load_aibc1_safe [of alloc] by (auto simp: aivm_program_load_aibc1_def no_fault_def split: option.split)

text \<open>C28 (type): a program the loader accepts is well formed: its buffers have as many entries as
  its counts say, every instruction has a known opcode and a 64-bit operand, the storages are within
  their limits; and every worker catalog entry has the supported ABI, capability bits of the low
  half only, the identity computed from its fields and artifact, and an artifact that itself loads
  to a program of the stated version that contains the entry function.\<close>

theorem loaded_program_wf:
  assumes "aivm_program_load_aibc1 alloc (Some bs) = LoadOk p"
  shows "wf_program p \<and> format_version p = 2 \<and>
         (\<forall>e \<in> set (worker_catalog p). entry_ok (\<lambda>a. aivm_program_load_aibc1 alloc (Some a)) e)"
  using load_aibc1_Ok assms by (simp add: aivm_program_load_aibc1_def)

end
