(* ===== verification/Loader_Roundtrip.thy ===== *)
theory Loader_Roundtrip
  imports Program_Loader
begin

text \<open>
  The AiBC format both ways: a reference encoder for programs with one instruction section and one
  constant section, and the proof that the loader of \<open>Program_Loader\<close> reads back exactly what was
  encoded. The lemmas named \<open>at_\<close> say what a checked read returns where a given block of bytes
  stands in the input.
\<close>

section \<open>Reading what was written\<close>

text \<open>The reference encoder of the format: what a compiler writes for a program with one instruction
  section and one constant section.\<close>

definition encode_instruction :: "AivmInstruction \<Rightarrow> bytes" where
  "encode_instruction i = u32_bytes (of_nat (opcode i)) @ u64_bytes (of_int (operand_int i))"

fun encode_constant :: "AivmValue \<Rightarrow> bytes option" where
  "encode_constant (ValInt i) = (if in_i64 i then Some (1 # u64_bytes (of_int i)) else None)"
| "encode_constant (ValBool b) = Some [2, if b then 1 else 0]"
| "encode_constant ValNull = Some [6]"
| "encode_constant ValVoid = Some [4]"
| "encode_constant (ValString (CExt s)) = Some (3 # u32_bytes (of_nat (length s)) @ map of_char s)"
| "encode_constant (ValBytes (BExt d) n) =
     (if n = length d then Some (5 # u32_bytes (of_nat n) @ d) else None)"
| "encode_constant _ = None"

lemma at_u32:
  assumes "drop off bs = u32_bytes w @ rest"
  shows "with_u32 bs off f = f (unat w)" and "drop (off + 4) bs = rest" and "off + 4 \<le> length bs"
proof -
  have "length (drop off bs) = 4 + length rest"
    unfolding assms by simp
  then show le: "off + 4 \<le> length bs"
    by simp
  have "read_u32_le bs off = w"
    using le by (rule read_u32_bytes) (simp add: assms)
  then show "with_u32 bs off f = f (unat w)"
    using le by (simp add: with_u32_def)
  show "drop (off + 4) bs = rest"
    using assms by (metis add.commute append_eq_conv_conj drop_drop length_u32_bytes)
qed

lemma at_u64:
  assumes "drop off bs = u64_bytes w @ rest"
  shows "with_u64 bs off f = f w" and "drop (off + 8) bs = rest" and "off + 8 \<le> length bs"
proof -
  have lo: "drop off bs = u32_bytes (ucast w) @ u32_bytes (ucast (drop_bit 32 w)) @ rest"
    using assms by (simp add: u64_bytes_def)
  note hi = at_u32(2) [OF lo]
  show le: "off + 8 \<le> length bs"
    using at_u32(3) [OF hi] by simp
  have "read_u32_le bs off = ucast w" "read_u32_le bs (off + 4) = ucast (drop_bit 32 w)"
    using le lo hi by (auto intro!: read_u32_bytes)
  then show "with_u64 bs off f = f w"
    using le by (simp add: with_u64_def read_u64_le_def u64_halves)
  show "drop (off + 8) bs = rest"
    using at_u32(2) [OF hi] by (simp add: add.commute add.assoc)
qed

lemma at_u8:
  assumes "drop off bs = b # rest"
  shows "with_u8 bs off f = f b" and "drop (off + 1) bs = rest" and "off < length bs"
proof -
  show lt: "off < length bs"
    using assms by (metis drop_all leI list.distinct(1))
  then have "bs ! off = b"
    using assms by (metis Cons_nth_drop_Suc list.inject)
  with lt show "with_u8 bs off f = f b"
    by (simp add: with_u8_def)
  show "drop (off + 1) bs = rest"
    using assms by (metis drop_drop drop_Suc_Cons drop0 plus_1_eq_Suc One_nat_def)
qed

lemma at_block:
  assumes "drop off bs = d @ rest"
  shows "with_block bs off (length d) f = f d" and "drop (off + length d) bs = rest"
    and "off \<le> length bs \<Longrightarrow> off + length d \<le> length bs"
proof -
  show le: "off \<le> length bs \<Longrightarrow> off + length d \<le> length bs"
    using assms by (metis add_leD1 diff_diff_cancel diff_le_mono2 le_add1 length_append length_drop
        nat_add_left_cancel_le ordered_cancel_comm_monoid_diff_class.add_diff_inverse)
  have "d = [] \<or> off + length d \<le> length bs"
    using assms le by (metis drop_all nat_le_linear append_is_Nil_conv)
  then show "with_block bs off (length d) f = f d"
    using assms by (auto simp: with_block_def)
  show "drop (off + length d) bs = rest"
    using assms by (metis add.commute append_eq_conv_conj drop_drop)
qed

section \<open>Instructions\<close>

lemma length_encode_instruction [simp]: "length (encode_instruction i) = 12"
  by (simp add: encode_instruction_def)

lemma length_encode_instructions [simp]:
  "length (concat (map encode_instruction is)) = 12 * length is"
  by (induction "is") simp_all

lemma unat_of_nat_u32: "n < 2 ^ 32 \<Longrightarrow> unat (of_nat n :: u32) = n"
  by (simp add: unat_of_nat take_bit_nat_eq_self)

lemma load_instruction_loop_roundtrip:
  assumes "drop cursor bs = concat (map encode_instruction js) @ rest"
    and "list_all valid_instruction js"
    and "instructions p = Some (done @ replicate (length js) z)"
  shows "load_instruction_loop (length js) bs cursor (length done) p =
           LoadOk (p\<lparr>instructions := Some (done @ js)\<rparr>)"
  using assms
proof (induction js arbitrary: cursor "done" p)
  case Nil
  then show ?case by simp
next
  case (Cons j js)
  have j: "opcode j \<le> AIVM_OP_MAX" "in_i64 (operand_int j)"
    using Cons.prems(2) by (simp_all add: valid_instruction_def)
  then have op: "unat (of_nat (opcode j) :: u32) = opcode j"
    by (simp add: AIVM_OP_MAX_def unat_of_nat_u32)
  have at: "drop cursor bs = u32_bytes (of_nat (opcode j)) @ u64_bytes (of_int (operand_int j)) @
      concat (map encode_instruction js) @ rest"
    using Cons.prems(1) by (simp add: encode_instruction_def [of j])
  note at' = at_u32(2) [OF at]
  have next': "drop (cursor + 12) bs = concat (map encode_instruction js) @ rest"
    using at_u64(2) [OF at'] by (simp add: add.assoc)
  let ?p = "set_instruction p (length done) j"
  have "instructions ?p = Some ((done @ [j]) @ replicate (length js) z)"
    using Cons.prems(3) by (simp add: set_instruction_def list_update_append)
  from Cons.IH [OF next' _ this] Cons.prems(2)
  have "load_instruction_loop (length js) bs (cursor + 12) (length done + 1) ?p =
      LoadOk (p\<lparr>instructions := Some (done @ j # js)\<rparr>)"
    by (simp add: set_instruction_def)
  moreover have eta: "\<lparr>opcode = opcode j, operand_int = operand_int j\<rparr> = j"
    by simp
  ultimately show ?case
    using j by (simp add: at_u32(1) [OF at] at_u64(1) [OF at'] op sint_of_int_i64 eta)
qed

definition instruction_payload :: "AivmInstruction list \<Rightarrow> bytes" where
  "instruction_payload is = u32_bytes (of_nat (length is)) @ concat (map encode_instruction is)"

lemma load_instruction_section_roundtrip:
  assumes at: "drop start bs = instruction_payload is @ rest"
    and valid: "list_all valid_instruction is" and n: "length is \<le> AIVM_PROGRAM_INLINE_INSTRUCTIONS"
  shows "load_instruction_section alloc bs start (length (instruction_payload is)) p =
           LoadOk (p\<lparr>instructions := (if is = [] then None else Some is),
                     instruction_capacity := AIVM_PROGRAM_INLINE_INSTRUCTIONS,
                     instruction_count := length is\<rparr>)"
proof -
  have len: "unat (of_nat (length is) :: u32) = length is"
    using n by (simp add: program_limits unat_of_nat_u32)
  have at1: "drop start bs = u32_bytes (of_nat (length is)) @ concat (map encode_instruction is) @ rest"
    using at by (simp add: instruction_payload_def)
  have size: "\<not> instruction_section_mismatch (length is) (4 + 12 * length is)"
    using n by (simp add: instruction_section_mismatch_def size_mul_checked_eq mult.commute
        program_limits SIZE_MAX_def aivm_size_add_checked_def)
  show ?thesis
  proof (cases "is = []")
    case True
    then show ?thesis
      using size len by (simp add: load_instruction_section_def instruction_payload_def
          at_u32(1) [OF at1 [unfolded True, simplified]] aivm_program_instructions_reserve_def
          program_limits)
  next
    case False
    let ?z = "\<lparr>opcode = AIVM_OP_NOP, operand_int = 0\<rparr>"
    have "load_instruction_loop (length is) bs (start + 4) (length [])
        (p\<lparr>instructions := Some (replicate (length is) ?z),
           instruction_capacity := AIVM_PROGRAM_INLINE_INSTRUCTIONS\<rparr>) =
        LoadOk (p\<lparr>instructions := Some is,
           instruction_capacity := AIVM_PROGRAM_INLINE_INSTRUCTIONS\<rparr>)"
      using load_instruction_loop_roundtrip [OF at_u32(2) [OF at1] valid, of _ "[]" ?z] by simp
    then show ?thesis
      using size len n False
      by (simp add: load_instruction_section_def instruction_payload_def at_u32(1) [OF at1]
          aivm_program_instructions_reserve_def Let_def)
  qed
qed

section \<open>Constants\<close>

text \<open>What a constant adds to the two storages of the program.\<close>

fun stored_text :: "AivmValue \<Rightarrow> string" where
  "stored_text (ValString (CExt s)) = s @ [CHR 0x00]"
| "stored_text _ = []"

fun stored_data :: "AivmValue \<Rightarrow> bytes" where
  "stored_data (ValBytes (BExt d) n) = d"
| "stored_data _ = []"

definition keep_constant :: "nat \<Rightarrow> AivmValue \<Rightarrow> AivmProgram \<Rightarrow> AivmProgram" where
  "keep_constant index v p =
     set_constant (p\<lparr>string_storage := string_storage p @ stored_text v,
                     bytes_storage := bytes_storage p @ stored_data v\<rparr>) index v"

definition storage_room :: "AivmProgram \<Rightarrow> AivmValue list \<Rightarrow> bool" where
  "storage_room p vs \<longleftrightarrow>
     length (string_storage p) + (\<Sum>v\<leftarrow>vs. length (stored_text v)) \<le> AIVM_PROGRAM_MAX_STRING_BYTES \<and>
     length (bytes_storage p) + (\<Sum>v\<leftarrow>vs. length (stored_data v)) \<le> AIVM_PROGRAM_MAX_BYTES_STORAGE"

lemma size_add_within_fits [simp]:
  "a + b \<le> bound \<Longrightarrow> bound \<le> SIZE_MAX \<Longrightarrow> size_add_within a b bound = Some (a + b)"
  by (simp add: size_add_within_Some)

lemma load_string_constant_roundtrip:
  assumes at: "drop cursor bs = u32_bytes (of_nat (length s)) @ map of_char s @ rest"
    and fits: "cursor + 4 + length s \<le> section_end" "section_end \<le> SIZE_MAX"
    and room: "storage_room p [ValString (CExt s)]"
  shows "load_string_constant bs section_end cursor index p =
           LoadOk (cursor + 4 + length s, keep_constant index (ValString (CExt s)) p)"
proof -
  have len: "length (string_storage p) + length s + 1 \<le> AIVM_PROGRAM_MAX_STRING_BYTES"
    using room by (simp add: storage_room_def)
  then have u: "unat (of_nat (length s) :: u32) = length s"
    by (simp add: program_limits unat_of_nat_u32)
  have lim: "AIVM_PROGRAM_MAX_STRING_BYTES \<le> SIZE_MAX"
    by (simp add: program_limits SIZE_MAX_def)
  note at' = at_u32(2) [OF at]
  have block: "with_block bs (cursor + 4) (length s) f = f (map of_char s)" for f :: "bytes \<Rightarrow> 'x load"
    using at_block(1) [OF at', of f] by simp
  have wr: "write_string_constant p index (map of_char s) = Some (keep_constant index (ValString (CExt s)) p)"
    using len lim by (simp add: write_string_constant_def keep_constant_def comp_def)
  show ?thesis
    using fits len lim
    by (simp add: load_string_constant_def at_u32(1) [OF at] u Let_def block wr)
qed

lemma load_bytes_constant_roundtrip:
  assumes at: "drop cursor bs = u32_bytes (of_nat (length d)) @ d @ rest"
    and fits: "cursor + 4 + length d \<le> section_end" "section_end \<le> SIZE_MAX"
    and room: "storage_room p [ValBytes (BExt d) (length d)]"
  shows "load_bytes_constant bs section_end cursor index p =
           LoadOk (cursor + 4 + length d, keep_constant index (ValBytes (BExt d) (length d)) p)"
proof -
  have len: "length (bytes_storage p) + length d \<le> AIVM_PROGRAM_MAX_BYTES_STORAGE"
    using room by (simp add: storage_room_def)
  then have u: "unat (of_nat (length d) :: u32) = length d"
    by (simp add: program_limits unat_of_nat_u32)
  have lim: "AIVM_PROGRAM_MAX_BYTES_STORAGE \<le> SIZE_MAX"
    by (simp add: program_limits SIZE_MAX_def)
  note at' = at_u32(2) [OF at]
  have wr: "write_bytes_constant p index d = Some (keep_constant index (ValBytes (BExt d) (length d)) p)"
    using len lim by (simp add: write_bytes_constant_def keep_constant_def)
  show ?thesis
    using fits len lim
    by (simp add: load_bytes_constant_def at_u32(1) [OF at] u Let_def at_block(1) [OF at'] wr)
qed

lemma load_constant_roundtrip:
  assumes enc: "encode_constant v = Some e" and at: "drop cursor bs = e @ rest"
    and fits: "cursor + length e \<le> section_end" "section_end \<le> SIZE_MAX"
    and room: "storage_room p [v]"
  shows "load_constant bs section_end cursor index p = LoadOk (cursor + length e, keep_constant index v p)"
proof -
  obtain k e' where e: "e = k # e'"
    using enc by (cases v rule: encode_constant.cases) (auto split: if_splits)
  then have at0: "drop cursor bs = k # e' @ rest"
    using at by simp
  note at1 = at_u8(2) [OF at0]
  have lt: "cursor < section_end" "cursor + 1 + length e' \<le> section_end"
    using fits e by simp_all
  show ?thesis
  proof (cases v rule: encode_constant.cases)
    case (1 i)
    then have "in_i64 i" and kk: "k = 1" "e' = u64_bytes (of_int i)"
      using enc e by (auto split: if_splits)
    then show ?thesis
      using lt fits(2) 1 e by (simp add: load_constant_def at_u8(1) [OF at0] Let_def
          at_u64(1) [OF at1 [unfolded kk], simplified] sint_of_int_i64 keep_constant_def)
  next
    case (2 b)
    then have kk: "k = 2" "e' = [if b then 1 else 0]"
      using enc e by auto
    show ?thesis
      using lt fits(2) 2 e kk by (simp add: load_constant_def at_u8(1) [OF at0] Let_def
          at_u8(1) [OF at1 [unfolded kk append.simps], simplified] keep_constant_def)
  next
    case (5 s)
    then have kk: "k = 3" "e' = u32_bytes (of_nat (length s)) @ map of_char s"
      using enc e by auto
    show ?thesis
      using lt fits(2) 5 e kk room load_string_constant_roundtrip [of "cursor + 1" bs s rest section_end p] at1
      by (simp add: load_constant_def at_u8(1) [OF at0] Let_def)
  next
    case (6 d n)
    then have kk: "k = 5" "e' = u32_bytes (of_nat n) @ d" "n = length d"
      using enc e by (auto split: if_splits)
    show ?thesis
      using lt fits(2) 6 e kk room load_bytes_constant_roundtrip [of "cursor + 1" bs d rest section_end p] at1
      by (simp add: load_constant_def at_u8(1) [OF at0] Let_def)
  qed (use enc e lt in \<open>auto simp: load_constant_def at_u8(1) [OF at0] Let_def keep_constant_def\<close>)
qed

abbreviation constant_code :: "AivmValue \<Rightarrow> bytes" where
  "constant_code v \<equiv> the (encode_constant v)"

definition encodable :: "AivmValue \<Rightarrow> bool" where
  "encodable v \<longleftrightarrow> encode_constant v \<noteq> None"

definition keep_constants :: "AivmValue list \<Rightarrow> AivmProgram \<Rightarrow> AivmProgram" where
  "keep_constants vs p =
     p\<lparr>string_storage := string_storage p @ concat (map stored_text vs),
       bytes_storage := bytes_storage p @ concat (map stored_data vs)\<rparr>"

lemma load_constant_loop_roundtrip:
  assumes "drop cursor bs = concat (map constant_code vs) @ rest"
    and "list_all encodable vs" and "storage_room p vs"
    and "cursor + length (concat (map constant_code vs)) \<le> section_end" and "section_end \<le> SIZE_MAX"
    and "constants p = Some (done @ replicate (length vs) z)"
  shows "load_constant_loop (length vs) bs section_end cursor (length done) p =
           LoadOk (cursor + length (concat (map constant_code vs)),
             (keep_constants vs p)\<lparr>constants := Some (done @ vs)\<rparr>)"
  using assms
proof (induction vs arbitrary: cursor "done" p)
  case Nil
  then show ?case by (simp add: keep_constants_def)
next
  case (Cons v vs)
  obtain e where e: "encode_constant v = Some e"
    using Cons.prems(2) by (auto simp: encodable_def)
  have at: "drop cursor bs = e @ concat (map constant_code vs) @ rest"
    using Cons.prems(1) e by simp
  have room: "storage_room p [v]"
    using Cons.prems(3) by (simp add: storage_room_def)
  let ?p = "keep_constant (length done) v p"
  have first: "load_constant bs section_end cursor (length done) p = LoadOk (cursor + length e, ?p)"
    using Cons.prems(4,5) e by (intro load_constant_roundtrip [OF e at]) (simp_all add: room)
  have "constants ?p = Some ((done @ [v]) @ replicate (length vs) z)"
    using Cons.prems(6) by (simp add: keep_constant_def set_constant_def list_update_append)
  moreover have "storage_room ?p vs"
    using Cons.prems(3) by (simp add: storage_room_def keep_constant_def set_constant_def)
  ultimately have "load_constant_loop (length vs) bs section_end (cursor + length e) (length (done @ [v])) ?p =
      LoadOk (cursor + length e + length (concat (map constant_code vs)),
        (keep_constants vs ?p)\<lparr>constants := Some ((done @ [v]) @ vs)\<rparr>)"
    using Cons.prems e at_block(2) [OF at] by (intro Cons.IH) simp_all
  then show ?case
    by (simp add: first e keep_constants_def keep_constant_def set_constant_def add.assoc)
qed

definition constant_payload :: "AivmValue list \<Rightarrow> bytes" where
  "constant_payload vs = u32_bytes (of_nat (length vs)) @ concat (map constant_code vs)"

lemma load_constant_section_roundtrip:
  assumes at: "drop start bs = constant_payload vs @ rest"
    and enc: "list_all encodable vs" and n: "length vs \<le> AIVM_PROGRAM_INLINE_CONSTANTS"
    and room: "storage_room p vs" and fits: "start + length (constant_payload vs) \<le> SIZE_MAX"
  shows "load_constant_section alloc bs start (length (constant_payload vs))
           (start + length (constant_payload vs)) p =
         LoadOk ((keep_constants vs p)\<lparr>constants := (if vs = [] then None else Some vs),
                     constant_capacity := AIVM_PROGRAM_INLINE_CONSTANTS,
                     constant_count := length vs\<rparr>)"
proof -
  have len: "unat (of_nat (length vs) :: u32) = length vs"
    using n by (simp add: program_limits unat_of_nat_u32)
  have at1: "drop start bs = u32_bytes (of_nat (length vs)) @ concat (map constant_code vs) @ rest"
    using at by (simp add: constant_payload_def)
  show ?thesis
  proof (cases "vs = []")
    case True
    then show ?thesis
      by (simp add: load_constant_section_def constant_payload_def keep_constants_def
          at_u32(1) [OF at1 [unfolded True, simplified]] aivm_program_constants_reserve_def
          program_limits)
  next
    case False
    let ?q = "p\<lparr>constants := Some (replicate (length vs) ValVoid),
       constant_capacity := AIVM_PROGRAM_INLINE_CONSTANTS\<rparr>"
    have "storage_room ?q vs"
      using room by (simp add: storage_room_def)
    then have "load_constant_loop (length vs) bs (start + length (constant_payload vs)) 
          (start + 4) (length ([] :: AivmValue list)) ?q =
        LoadOk (start + 4 + length (concat (map constant_code vs)),
          (keep_constants vs ?q)\<lparr>constants := Some ([] @ vs)\<rparr>)"
      using at_u32(2) [OF at1] enc fits
      by (intro load_constant_loop_roundtrip [where z = ValVoid]) (simp_all add: constant_payload_def)
    then show ?thesis
      using len n False
      by (simp add: load_constant_section_def at_u32(1) [OF at1] aivm_program_constants_reserve_def
          Let_def keep_constants_def constant_payload_def add.assoc)
  qed
qed

section \<open>The whole program\<close>

definition encode_section :: "nat \<Rightarrow> bytes \<Rightarrow> bytes" where
  "encode_section ty payload =
     u32_bytes (of_nat ty) @ u32_bytes (of_nat (length payload)) @ payload"

definition encode_program :: "nat \<Rightarrow> AivmInstruction list \<Rightarrow> AivmValue list \<Rightarrow> bytes" where
  "encode_program flags is vs =
     aibc_magic @ u32_bytes 2 @ u32_bytes (of_nat flags) @ u32_bytes 2 @
     encode_section AIVM_PROGRAM_SECTION_INSTRUCTIONS (instruction_payload is) @
     encode_section AIVM_PROGRAM_SECTION_CONSTANTS (constant_payload vs)"

lemma constant_code_length:
  "encodable v \<Longrightarrow> length (constant_code v) \<le> 9 + length (stored_text v) + length (stored_data v)"
  by (cases v rule: encode_constant.cases) (auto simp: encodable_def split: if_splits)

lemma constant_payload_length:
  "list_all encodable vs \<Longrightarrow> length (constant_payload vs) \<le>
     4 + 9 * length vs + (\<Sum>v\<leftarrow>vs. length (stored_text v)) + (\<Sum>v\<leftarrow>vs. length (stored_data v))"
proof (induction vs)
  case (Cons v vs)
  then show ?case
    using constant_code_length [of v] by (simp add: constant_payload_def)
qed (simp add: constant_payload_def)

text \<open>A section header read back: what is left to do is what the section's kind asks for.\<close>

lemma at_section:
  assumes "drop cursor bs = encode_section ty payload @ rest"
    and "ty < 2 ^ 32" and "length payload < 2 ^ 32" and "length bs \<le> SIZE_MAX"
  shows "size_add_within cursor 8 (length bs) = Some (cursor + 8)"
    and "with_u32 bs cursor f = f ty" and "with_u32 bs (cursor + 4) g = g (length payload)"
    and "drop (cursor + 8) bs = payload @ rest"
    and "size_add_within (cursor + 8) (length payload) (length bs) = Some (cursor + 8 + length payload)"
    and "drop (cursor + 8 + length payload) bs = rest"
proof -
  have at: "drop cursor bs = u32_bytes (of_nat ty) @ u32_bytes (of_nat (length payload)) @ payload @ rest"
    using assms(1) by (simp add: encode_section_def)
  note at4 = at_u32(2) [OF at]
  show at8: "drop (cursor + 8) bs = payload @ rest"
    using at_u32(2) [OF at4] by (simp add: add.assoc)
  have le: "cursor + 8 \<le> length bs"
    using at_u32(3) [OF at4] by simp
  then show "size_add_within cursor 8 (length bs) = Some (cursor + 8)"
    using assms(4) by simp
  show "with_u32 bs cursor f = f ty"
    using assms(2) by (simp add: at_u32(1) [OF at] unat_of_nat_u32)
  show "with_u32 bs (cursor + 4) g = g (length payload)"
    using assms(3) by (simp add: at_u32(1) [OF at4] unat_of_nat_u32)
  show "size_add_within (cursor + 8) (length payload) (length bs) = Some (cursor + 8 + length payload)"
    using at_block(3) [OF at8 le] assms(4) by simp
  show "drop (cursor + 8 + length payload) bs = rest"
    by (rule at_block(2) [OF at8])
qed

text \<open>A program the encoder covers: instructions and constants that fit the inline buffers and the
  two storages, no float constants.\<close>

definition encodable_program :: "nat \<Rightarrow> AivmInstruction list \<Rightarrow> AivmValue list \<Rightarrow> bool" where
  "encodable_program flags is vs \<longleftrightarrow>
     flags < 2 ^ 32 \<and>
     list_all valid_instruction is \<and> length is \<le> AIVM_PROGRAM_INLINE_INSTRUCTIONS \<and>
     list_all encodable vs \<and> length vs \<le> AIVM_PROGRAM_INLINE_CONSTANTS \<and>
     (\<Sum>v\<leftarrow>vs. length (stored_text v)) \<le> AIVM_PROGRAM_MAX_STRING_BYTES \<and>
     (\<Sum>v\<leftarrow>vs. length (stored_data v)) \<le> AIVM_PROGRAM_MAX_BYTES_STORAGE"

lemma payload_lengths:
  assumes "encodable_program flags is vs"
  shows "length (instruction_payload is) < 2 ^ 32" and "length (constant_payload vs) < 2 ^ 32"
    and "length (encode_program flags is vs) \<le> SIZE_MAX"
proof -
  show i: "length (instruction_payload is) < 2 ^ 32"
    using assms by (simp add: instruction_payload_def encodable_program_def program_limits)
  show c: "length (constant_payload vs) < 2 ^ 32"
    using assms constant_payload_length [of vs] by (simp add: encodable_program_def program_limits)
  from i c show "length (encode_program flags is vs) \<le> SIZE_MAX"
    by (simp add: encode_program_def encode_section_def aibc_magic_def SIZE_MAX_def)
qed

lemma load_instructions_roundtrip:
  assumes "drop cursor bs = encode_section AIVM_PROGRAM_SECTION_INSTRUCTIONS (instruction_payload is) @ rest"
    and "encodable_program flags is vs" and "length bs \<le> SIZE_MAX"
  shows "\<exists>ss. load_section nested alloc bs cursor index (False, b, c) p =
     LoadOk (cursor + 8 + length (instruction_payload is), (True, b, c),
       p\<lparr>sections := ss, instructions := (if is = [] then None else Some is),
         instruction_capacity := AIVM_PROGRAM_INLINE_INSTRUCTIONS, instruction_count := length is\<rparr>)"
proof -
  note at = at_section [OF assms(1) _ payload_lengths(1) [OF assms(2)] assms(3)]
  have "AIVM_PROGRAM_SECTION_INSTRUCTIONS < 2 ^ 32"
    by (simp add: AIVM_PROGRAM_SECTION_INSTRUCTIONS_def)
  note at = at [OF this]
  have "list_all valid_instruction is" "length is \<le> AIVM_PROGRAM_INLINE_INSTRUCTIONS"
    using assms(2) by (simp_all add: encodable_program_def)
  note sec = load_instruction_section_roundtrip [OF at(4) this]
  show ?thesis
    by (auto simp: load_section_def at(1,2,3,5) Let_def sec)
qed

lemma load_constants_roundtrip:
  assumes "drop cursor bs = encode_section AIVM_PROGRAM_SECTION_CONSTANTS (constant_payload vs) @ rest"
    and "encodable_program flags is vs" and "length bs \<le> SIZE_MAX"
    and "string_storage p = []" and "bytes_storage p = []"
  shows "\<exists>ss. load_section nested alloc bs cursor index (a, False, c) p =
     LoadOk (cursor + 8 + length (constant_payload vs), (a, True, c),
       (keep_constants vs p)\<lparr>sections := ss, constants := (if vs = [] then None else Some vs),
         constant_capacity := AIVM_PROGRAM_INLINE_CONSTANTS, constant_count := length vs\<rparr>)"
proof -
  note at = at_section [OF assms(1) _ payload_lengths(2) [OF assms(2)] assms(3)]
  have ty: "AIVM_PROGRAM_SECTION_CONSTANTS < 2 ^ 32"
    "AIVM_PROGRAM_SECTION_CONSTANTS \<noteq> AIVM_PROGRAM_SECTION_INSTRUCTIONS"
    by (simp_all add: AIVM_PROGRAM_SECTION_CONSTANTS_def AIVM_PROGRAM_SECTION_INSTRUCTIONS_def)
  note at = at [OF ty(1)]
  have fits: "cursor + 8 + length (constant_payload vs) \<le> SIZE_MAX"
    using at(5) assms(3) by (simp add: size_add_within_Some)
  have enc: "list_all encodable vs" "length vs \<le> AIVM_PROGRAM_INLINE_CONSTANTS"
    using assms(2) by (simp_all add: encodable_program_def)
  let ?q = "p\<lparr>sections := (sections p)[index := \<lparr>section_type = AIVM_PROGRAM_SECTION_CONSTANTS,
     section_size = length (constant_payload vs), section_offset = (cursor + 8) mod 2 ^ 32\<rparr>]\<rparr>"
  have "storage_room ?q vs"
    using assms(2,4,5) by (simp add: encodable_program_def storage_room_def)
  note sec = load_constant_section_roundtrip [OF at(4) enc this fits, of alloc]
  have "load_section nested alloc bs cursor index (a, False, c) p =
     LoadOk (cursor + 8 + length (constant_payload vs), (a, True, c),
       (keep_constants vs ?q)\<lparr>constants := (if vs = [] then None else Some vs),
         constant_capacity := AIVM_PROGRAM_INLINE_CONSTANTS, constant_count := length vs\<rparr>)"
    using sec ty(2) by (simp add: load_section_def at(1,2,3,5) Let_def)
  then show ?thesis
    by (intro exI [where x = "sections ?q"]) (simp add: keep_constants_def)
qed

lemma load_encode:
  assumes "encodable_program flags is vs"
  shows "\<exists>p. aivm_program_load_aibc1 alloc (Some (encode_program flags is vs)) = LoadOk p \<and>
     instructions p = (if is = [] then None else Some is) \<and> instruction_count p = length is \<and>
     constants p = (if vs = [] then None else Some vs) \<and> constant_count p = length vs \<and>
     string_storage p = concat (map stored_text vs) \<and> bytes_storage p = concat (map stored_data vs) \<and>
     format_version p = 2 \<and> format_flags p = flags \<and> section_count p = 2 \<and> worker_catalog p = []"
proof -
  let ?bs = "encode_program flags is vs"
  let ?i = "encode_section AIVM_PROGRAM_SECTION_INSTRUCTIONS (instruction_payload is)"
  let ?c = "encode_section AIVM_PROGRAM_SECTION_CONSTANTS (constant_payload vs)"
  note len = payload_lengths [OF assms]
  have flags: "unat (of_nat flags :: u32) = flags"
    using assms by (simp add: encodable_program_def unat_of_nat_u32)
  have at4: "drop 4 ?bs = u32_bytes 2 @ u32_bytes (of_nat flags) @ u32_bytes 2 @ ?i @ ?c"
    by (simp add: encode_program_def aibc_magic_def)
  note at8 = at_u32(2) [OF at4, simplified]
  note at12 = at_u32(2) [OF at8, simplified]
  note at16 = at_u32(2) [OF at12, simplified]
  let ?p = "aivm_program_clear\<lparr>format_version := 2, format_flags := flags, section_count := 2\<rparr>"
  let ?n = "load_aibc1 alloc"
  have "aivm_program_load_aibc1 alloc (Some ?bs) = load_section_loop 2 ?n alloc ?bs 16 0 (False, False, False) ?p"
    using at_u32(3) [OF at12]
    by (simp add: aivm_program_load_aibc1_def load_aibc1_unfold [of alloc ?bs] load_aibc1_with_def Let_def
        at_u32(1) [OF at4] at_u32(1) [OF at8] at_u32(1) [OF at12] flags program_limits)
      (simp add: encode_program_def aibc_magic_def)
  moreover obtain ss where first: "load_section ?n alloc ?bs 16 0 (False, False, False) ?p =
     LoadOk (24 + length (instruction_payload is), (True, False, False),
       ?p\<lparr>sections := ss, instructions := (if is = [] then None else Some is),
         instruction_capacity := AIVM_PROGRAM_INLINE_INSTRUCTIONS, instruction_count := length is\<rparr>)"
    using load_instructions_roundtrip [OF at16 assms len(3), of ?n alloc 0 False False ?p] by auto
  have at_c: "drop (24 + length (instruction_payload is)) ?bs = ?c @ []"
    using at_section(6) [OF at16 _ len(1) len(3)] by (simp add: AIVM_PROGRAM_SECTION_INSTRUCTIONS_def)
  let ?q = "?p\<lparr>sections := ss, instructions := (if is = [] then None else Some is),
         instruction_capacity := AIVM_PROGRAM_INLINE_INSTRUCTIONS, instruction_count := length is\<rparr>"
  have "string_storage ?q = []" "bytes_storage ?q = []"
    by (simp_all add: aivm_program_clear_def)
  from load_constants_roundtrip [OF at_c assms len(3) this, of ?n alloc 1 True False]
  obtain ts where second: "load_section ?n alloc ?bs (24 + length (instruction_payload is)) 1 (True, False, False) ?q =
     LoadOk (24 + length (instruction_payload is) + 8 + length (constant_payload vs), (True, True, False),
       (keep_constants vs ?q)\<lparr>sections := ts, constants := (if vs = [] then None else Some vs),
         constant_capacity := AIVM_PROGRAM_INLINE_CONSTANTS, constant_count := length vs\<rparr>)"
    by auto
  moreover have "load_section_loop (Suc (Suc 0)) ?n alloc ?bs 16 0 (False, False, False) ?p =
     LoadOk ((keep_constants vs ?q)\<lparr>sections := ts, constants := (if vs = [] then None else Some vs),
         constant_capacity := AIVM_PROGRAM_INLINE_CONSTANTS, constant_count := length vs\<rparr>)"
    by (simp only: load_section_loop.simps first second bind_load.simps prod.case add_0)
  ultimately show ?thesis
    by (simp add: numeral_2_eq_2 keep_constants_def) (simp add: aivm_program_clear_def)
qed



theorem loaded_program_wf_witness:
  "\<exists>p. aivm_program_load_aibc1 (\<lambda>n. True) (Some (encode_program 0
       [\<lparr>opcode = AIVM_OP_HALT, operand_int = 0\<rparr>] [ValBool True])) = LoadOk p \<and>
     wf_program p \<and> format_version p = 2"
proof -
  have "encodable_program 0 [\<lparr>opcode = AIVM_OP_HALT, operand_int = 0\<rparr>] [ValBool True]"
    by (simp add: encodable_program_def valid_instruction_def AIVM_OP_MAX_def encodable_def program_limits i64_defs)
  from load_encode [OF this, of "\<lambda>n. True"] loaded_program_wf [of "\<lambda>n. True"] show ?thesis
    by blast
qed

end
