(* ===== verification/Blob_Store.thy ===== *)
theory Blob_Store
  imports AiVM_Prelude
begin

text \<open>
  The blob table of \<^verbatim>\<open>src/src/aivm_vm_blob.c\<close>: byte blocks owned by the machine, named by
  handles that are never reused, within a limit on their number and their total size. The fields of
  the machine that the functions use are a record of their own; no blob function touches another
  field. The result of \<^verbatim>\<open>aivm_vm_ensure_storage\<close> is the argument \<open>storage_ready\<close>, the allocator's
  answers are \<open>alloc\<close>.

  A null data pointer is \<open>None\<close>. The increment of the handle counter beyond \<^verbatim>\<open>INT64_MAX\<close> is
  undefined behaviour and makes \<open>aivm_blob_create\<close> return \<open>None\<close>.
\<close>

datatype AivmBlobStatus =
    AIVM_BLOB_OK | AIVM_BLOB_ERR_INVALID | AIVM_BLOB_ERR_LIMIT | AIVM_BLOB_ERR_NOT_FOUND
  | AIVM_BLOB_ERR_OOM

fun aivm_blob_status_code :: "AivmBlobStatus \<Rightarrow> string" where
  "aivm_blob_status_code AIVM_BLOB_OK = ''AIVMB000''"
| "aivm_blob_status_code AIVM_BLOB_ERR_INVALID = ''AIVMB001''"
| "aivm_blob_status_code AIVM_BLOB_ERR_LIMIT = ''AIVMB002''"
| "aivm_blob_status_code AIVM_BLOB_ERR_NOT_FOUND = ''AIVMB003''"
| "aivm_blob_status_code AIVM_BLOB_ERR_OOM = ''AIVMB004''"

text \<open>The data and its length; null data has length 0.\<close>

record AivmBlobRecord =
  blob_handle :: int
  blob_data :: bytes
  blob_active :: bool

record AivmBlobs =
  blobs :: "AivmBlobRecord list"
  blob_count :: nat
  blob_bytes_used :: nat
  blob_bytes_high_water :: nat
  next_blob_handle :: int
  blob_pressure_count :: nat

definition AIVM_VM_BLOB_CAPACITY :: nat where "AIVM_VM_BLOB_CAPACITY = 64"
definition AIVM_VM_BLOB_BYTES :: nat where "AIVM_VM_BLOB_BYTES = 16 * 1024 * 1024"

definition cleared_blob :: AivmBlobRecord where
  "cleared_blob = \<lparr>blob_handle = 0, blob_data = [], blob_active = False\<rparr>"

definition aivm_release_all_blobs :: "AivmBlobs \<Rightarrow> AivmBlobs" where
  "aivm_release_all_blobs t =
     t\<lparr>blobs := replicate AIVM_VM_BLOB_CAPACITY cleared_blob, blob_count := 0, blob_bytes_used := 0\<rparr>"

text \<open>The index of the active record with the handle.\<close>

definition find_blob :: "AivmBlobs \<Rightarrow> int \<Rightarrow> nat option" where
  "find_blob t handle =
     (if handle \<le> 0 then None
      else find_index (\<lambda>b. blob_active b \<and> blob_handle b = handle) (blobs t))"

definition blob_pressure :: "AivmBlobs \<Rightarrow> AivmBlobs" where
  "blob_pressure t =
     t\<lparr>blob_pressure_count := aivm_counter_increment_saturating (blob_pressure_count t)\<rparr>"

definition aivm_blob_create ::
  "bool \<Rightarrow> (nat \<Rightarrow> bool) \<Rightarrow> AivmBlobs \<Rightarrow> bytes option \<Rightarrow> nat \<Rightarrow>
   (AivmBlobStatus \<times> int option \<times> AivmBlobs) option" where
  "aivm_blob_create storage_ready alloc t data len =
     (if len > 0 \<and> data = None then Some (AIVM_BLOB_ERR_INVALID, None, t)
      else if \<not> storage_ready then Some (AIVM_BLOB_ERR_OOM, None, blob_pressure t)
      else
        (case aivm_size_add_checked (blob_bytes_used t) len of
           None \<Rightarrow> Some (AIVM_BLOB_ERR_LIMIT, None, blob_pressure t)
         | Some needed \<Rightarrow>
             if blob_count t \<ge> AIVM_VM_BLOB_CAPACITY \<or> needed > AIVM_VM_BLOB_BYTES \<or>
                next_blob_handle t \<le> 0 then
               Some (AIVM_BLOB_ERR_LIMIT, None, blob_pressure t)
             else
               (case find_index (\<lambda>b. \<not> blob_active b) (blobs t) of
                  None \<Rightarrow> Some (AIVM_BLOB_ERR_LIMIT, None, blob_pressure t)
                | Some slot \<Rightarrow>
                    if len > 0 \<and> \<not> alloc len then Some (AIVM_BLOB_ERR_OOM, None, blob_pressure t)
                    else if \<not> in_i64 (next_blob_handle t + 1) then None
                    else
                      Some (AIVM_BLOB_OK, Some (next_blob_handle t),
                        t\<lparr>blobs := (blobs t)[slot :=
                            \<lparr>blob_handle = next_blob_handle t,
                             blob_data = (case data of None \<Rightarrow> [] | Some d \<Rightarrow> take len d),
                             blob_active = True\<rparr>],
                          next_blob_handle := next_blob_handle t + 1,
                          blob_count := blob_count t + 1,
                          blob_bytes_used := needed,
                          blob_bytes_high_water := max (blob_bytes_high_water t) needed\<rparr>))))"

text \<open>The bytes read; \<open>has_buffer\<close> is that the caller's buffer is not null.\<close>

definition aivm_blob_read ::
  "AivmBlobs \<Rightarrow> int \<Rightarrow> nat \<Rightarrow> bool \<Rightarrow> nat \<Rightarrow> AivmBlobStatus \<times> bytes" where
  "aivm_blob_read t handle offset has_buffer len =
     (if len > 0 \<and> \<not> has_buffer then (AIVM_BLOB_ERR_INVALID, [])
      else case find_blob t handle of
        None \<Rightarrow> (AIVM_BLOB_ERR_NOT_FOUND, [])
      | Some slot \<Rightarrow>
          let data = blob_data (blobs t ! slot) in
          if offset \<ge> length data then (AIVM_BLOB_OK, [])
          else
            let available = length data - offset;
                read_length = (if len < available then len else available)
            in (AIVM_BLOB_OK, take read_length (drop offset data)))"

definition aivm_blob_release :: "AivmBlobs \<Rightarrow> int \<Rightarrow> AivmBlobStatus \<times> AivmBlobs" where
  "aivm_blob_release t handle =
     (case find_blob t handle of
        None \<Rightarrow> (AIVM_BLOB_ERR_NOT_FOUND, t)
      | Some slot \<Rightarrow>
          let len = length (blob_data (blobs t ! slot)) in
          (AIVM_BLOB_OK,
           t\<lparr>blobs := (blobs t)[slot := cleared_blob],
             blob_count := (if blob_count t > 0 then blob_count t - 1 else blob_count t),
             blob_bytes_used :=
               (if blob_bytes_used t \<ge> len then blob_bytes_used t - len else 0)\<rparr>))"

definition aivm_blob_active_count :: "AivmBlobs \<Rightarrow> nat" where
  "aivm_blob_active_count t = blob_count t"

text \<open>The table of an initialised machine.\<close>

definition initial_blobs :: AivmBlobs where
  "initial_blobs =
     \<lparr>blobs = replicate AIVM_VM_BLOB_CAPACITY cleared_blob, blob_count = 0, blob_bytes_used = 0,
      blob_bytes_high_water = 0, next_blob_handle = 1, blob_pressure_count = 0\<rparr>"

section \<open>Invariant\<close>

definition blob_size :: "AivmBlobRecord \<Rightarrow> nat" where
  "blob_size b = (if blob_active b then length (blob_data b) else 0)"

definition blobs_ok :: "AivmBlobs \<Rightarrow> bool" where
  "blobs_ok t \<longleftrightarrow>
     length (blobs t) = AIVM_VM_BLOB_CAPACITY \<and>
     blob_count t = length (filter blob_active (blobs t)) \<and>
     blob_bytes_used t = sum_list (map blob_size (blobs t)) \<and>
     blob_bytes_used t \<le> blob_bytes_high_water t \<and> blob_bytes_high_water t \<le> AIVM_VM_BLOB_BYTES \<and>
     0 < next_blob_handle t \<and>
     (\<forall>b \<in> set (blobs t). blob_active b \<longrightarrow> 0 < blob_handle b \<and> blob_handle b < next_blob_handle t) \<and>
     distinct (map blob_handle (filter blob_active (blobs t)))"

text \<open>What a handle names.\<close>

definition blob_contents :: "AivmBlobs \<Rightarrow> int \<Rightarrow> bytes option" where
  "blob_contents t handle = map_option (\<lambda>slot. blob_data (blobs t ! slot)) (find_blob t handle)"

lemma initial_blobs_ok: "blobs_ok initial_blobs"
  by (simp add: blobs_ok_def initial_blobs_def cleared_blob_def blob_size_def)

lemma split_at: "i < length xs \<Longrightarrow> xs = take i xs @ xs ! i # drop (Suc i) xs"
  by (rule id_take_nth_drop)

lemma find_blob_Some:
  "find_blob t h = Some i \<Longrightarrow> i < length (blobs t) \<and> blob_active (blobs t ! i) \<and> blob_handle (blobs t ! i) = h"
  by (auto simp: find_blob_def split: if_splits dest: find_index_SomeD)

text \<open>The contents as a set of pairs: which record is in which slot does not matter.\<close>

lemma blob_contents_iff:
  assumes "blobs_ok t"
  shows "blob_contents t h = Some d \<longleftrightarrow>
           (\<exists>b \<in> set (blobs t). blob_active b \<and> blob_handle b = h \<and> blob_data b = d)"
proof
  assume "blob_contents t h = Some d"
  then show "\<exists>b \<in> set (blobs t). blob_active b \<and> blob_handle b = h \<and> blob_data b = d"
    by (auto simp: blob_contents_def dest: find_blob_Some nth_mem)
next
  assume "\<exists>b \<in> set (blobs t). blob_active b \<and> blob_handle b = h \<and> blob_data b = d"
  then obtain b where b: "b \<in> set (blobs t)" "blob_active b" "blob_handle b = h" "blob_data b = d"
    by blast
  have "0 < h"
    using assms b by (auto simp: blobs_ok_def)
  then obtain i where i: "find_blob t h = Some i"
    using b by (cases "find_blob t h") (auto simp: find_blob_def find_index_None)
  have "blobs t ! i = b"
  proof -
    have "inj_on blob_handle (set (filter blob_active (blobs t)))"
      using assms by (simp add: blobs_ok_def distinct_map)
    then show ?thesis
      using find_blob_Some [OF i] b by (auto dest!: inj_onD)
  qed
  with i b(4) show "blob_contents t h = Some d"
    by (simp add: blob_contents_def)
qed

section \<open>Creation and release\<close>

lemma create_OK:
  assumes "aivm_blob_create storage_ready alloc t data len = Some (AIVM_BLOB_OK, h, t')"
  shows "\<exists>i. find_index (\<lambda>b. \<not> blob_active b) (blobs t) = Some i \<and> h = Some (next_blob_handle t) \<and>
     0 < next_blob_handle t \<and> blob_bytes_used t + len \<le> AIVM_VM_BLOB_BYTES \<and>
     t' = t\<lparr>blobs := (blobs t)[i := \<lparr>blob_handle = next_blob_handle t,
              blob_data = (case data of None \<Rightarrow> [] | Some d \<Rightarrow> take len d), blob_active = True\<rparr>],
            next_blob_handle := next_blob_handle t + 1, blob_count := blob_count t + 1,
            blob_bytes_used := blob_bytes_used t + len,
            blob_bytes_high_water := max (blob_bytes_high_water t) (blob_bytes_used t + len)\<rparr>"
  using assms by (auto simp: aivm_blob_create_def split: if_splits option.splits)

lemma create_failed:
  "aivm_blob_create storage_ready alloc t data len = Some (st, h, t') \<Longrightarrow> st \<noteq> AIVM_BLOB_OK \<Longrightarrow>
   h = None \<and> (t' = t \<or> t' = blob_pressure t)"
  by (auto simp: aivm_blob_create_def split: if_splits option.splits)

lemma blobs_ok_replace:
  assumes ok: "blobs_ok t" and i: "i < length (blobs t)" "\<not> blob_active (blobs t ! i)"
    and b: "blob_active b" "blob_handle b = next_blob_handle t"
      "blob_bytes_used t + length (blob_data b) \<le> AIVM_VM_BLOB_BYTES"
  shows "blobs_ok (t\<lparr>blobs := (blobs t)[i := b], next_blob_handle := next_blob_handle t + 1,
           blob_count := blob_count t + 1, blob_bytes_used := blob_bytes_used t + length (blob_data b),
           blob_bytes_high_water := max (blob_bytes_high_water t) (blob_bytes_used t + length (blob_data b))\<rparr>)"
proof -
  obtain as x bs where t: "blobs t = as @ x # bs" "length as = i"
    using i split_at [of i "blobs t"] by (metis length_take min.absorb4)
  have x: "\<not> blob_active x"
    using i(2) t by (simp add: nth_append)
  have upd: "(blobs t)[i := b] = as @ b # bs"
    using t by (simp add: list_update_append)
  show ?thesis
    using ok b x unfolding blobs_ok_def upd
    by (auto simp: t(1) blob_size_def)
qed

lemma create_blobs_ok:
  assumes "blobs_ok t" and "aivm_blob_create storage_ready alloc t (Some d) (length d) = Some (AIVM_BLOB_OK, h, t')"
  shows "blobs_ok t'"
proof -
  let ?b = "\<lparr>blob_handle = next_blob_handle t, blob_data = d, blob_active = True\<rparr>"
  from create_OK [OF assms(2)] obtain i where i: "find_index (\<lambda>b. \<not> blob_active b) (blobs t) = Some i"
    and rest: "blob_bytes_used t + length d \<le> AIVM_VM_BLOB_BYTES"
      "t' = t\<lparr>blobs := (blobs t)[i := ?b], next_blob_handle := next_blob_handle t + 1,
         blob_count := blob_count t + 1, blob_bytes_used := blob_bytes_used t + length d,
         blob_bytes_high_water := max (blob_bytes_high_water t) (blob_bytes_used t + length d)\<rparr>"
    by auto
  show ?thesis
    using blobs_ok_replace [OF assms(1) find_index_SomeD [OF i], of ?b] rest by simp
qed

lemma release_blobs_ok:
  assumes ok: "blobs_ok t" and rel: "find_blob t h = Some i"
  shows "blobs_ok (snd (aivm_blob_release t h))"
proof -
  note f = find_blob_Some [OF rel]
  obtain as x bs where t: "blobs t = as @ x # bs" "length as = i"
    using f split_at [of i "blobs t"] by (metis length_take min.absorb4)
  have x: "blobs t ! i = x"
    using t by (simp add: nth_append)
  have upd: "(blobs t)[i := cleared_blob] = as @ cleared_blob # bs"
    using t by (simp add: list_update_append)
  have act: "blob_active x"
    using f x by simp
  have ok': "blob_count t = length (filter blob_active (as @ x # bs))"
    "blob_bytes_used t = sum_list (map blob_size (as @ x # bs))"
    using ok t(1) by (simp_all add: blobs_ok_def)
  have "snd (aivm_blob_release t h) = t\<lparr>blobs := as @ cleared_blob # bs,
      blob_count := length (filter blob_active (as @ bs)),
      blob_bytes_used := sum_list (map blob_size (as @ bs))\<rparr>"
    using act ok' by (simp add: aivm_blob_release_def rel Let_def x upd blob_size_def)
  then show ?thesis
    using ok act by (auto simp: blobs_ok_def t(1) blob_size_def cleared_blob_def)
qed

lemma set_list_update_split:
  "i < length xs \<Longrightarrow> set (xs[i := b]) = insert b (set (take i xs @ drop (Suc i) xs))"
  by (simp add: upd_conv_take_nth_drop)

lemma set_list_split: "i < length xs \<Longrightarrow> set xs = insert (xs ! i) (set (take i xs @ drop (Suc i) xs))"
  by (subst split_at [of i xs]) auto

lemma contents_eqI: "(\<And>d. blob_contents t h = Some d \<longleftrightarrow> r = Some d) \<Longrightarrow> blob_contents t h = r"
  by (metis option.exhaust)

lemma create_contents:
  assumes ok: "blobs_ok t"
    and create: "aivm_blob_create storage_ready alloc t (Some d) (length d) = Some (AIVM_BLOB_OK, Some h, t')"
  shows "blob_contents t h = None" and "blob_contents t' j = (if j = h then Some d else blob_contents t j)"
proof -
  from create_OK [OF create] obtain i where i: "find_index (\<lambda>b. \<not> blob_active b) (blobs t) = Some i"
    and h: "h = next_blob_handle t"
    and t': "blobs t' = (blobs t)[i := \<lparr>blob_handle = h, blob_data = d, blob_active = True\<rparr>]"
    by auto
  have fresh: "blob_active b \<Longrightarrow> b \<in> set (blobs t) \<Longrightarrow> blob_handle b \<noteq> h" for b
    using ok h by (auto simp: blobs_ok_def)
  then show "blob_contents t h = None"
    using blob_contents_iff [OF ok, of h] by (metis not_None_eq)
  note lt = find_index_SomeD [OF i]
  show "blob_contents t' j = (if j = h then Some d else blob_contents t j)"
    by (rule contents_eqI)
      (use fresh lt in \<open>auto simp: blob_contents_iff [OF create_blobs_ok [OF ok create]] blob_contents_iff [OF ok]
        t' set_list_update_split set_list_split [OF lt(1)]\<close>)
qed

lemma release_contents:
  assumes ok: "blobs_ok t" and rel: "aivm_blob_release t h = (AIVM_BLOB_OK, t')"
  shows "blobs_ok t'" and "blob_contents t' j = (if j = h then None else blob_contents t j)"
proof -
  from rel obtain i where i: "find_blob t h = Some i"
    by (auto simp: aivm_blob_release_def split: option.splits)
  show ok': "blobs_ok t'"
    using release_blobs_ok [OF ok i] rel by simp
  note f = find_blob_Some [OF i]
  have t': "blobs t' = (blobs t)[i := cleared_blob]"
    using rel i by (auto simp: aivm_blob_release_def Let_def)
  have uniq: "blob_active b \<Longrightarrow> b \<in> set (take i (blobs t) @ drop (Suc i) (blobs t)) \<Longrightarrow> blob_handle b \<noteq> h" for b
  proof -
    have "distinct (map blob_handle (filter blob_active (take i (blobs t) @ blobs t ! i # drop (Suc i) (blobs t))))"
      using ok f split_at [of i "blobs t"] by (simp add: blobs_ok_def)
    then show "blob_active b \<Longrightarrow> b \<in> set (take i (blobs t) @ drop (Suc i) (blobs t)) \<Longrightarrow> blob_handle b \<noteq> h"
      using f by (auto simp: image_iff)
  qed
  show "blob_contents t' j = (if j = h then None else blob_contents t j)"
    by (rule contents_eqI)
      (use f uniq in \<open>auto simp: blob_contents_iff [OF ok'] blob_contents_iff [OF ok] t' set_list_update_split
        set_list_split [of i "blobs t"] cleared_blob_def\<close>)
qed

text \<open>The table as an interface: creation of a whole block, reading, release.\<close>

definition blob_new :: "bool \<Rightarrow> (nat \<Rightarrow> bool) \<Rightarrow> AivmBlobs \<Rightarrow> bytes \<Rightarrow> (int \<times> AivmBlobs) option" where
  "blob_new storage_ready alloc t d =
     (case aivm_blob_create storage_ready alloc t (Some d) (length d) of
        Some (AIVM_BLOB_OK, Some h, t') \<Rightarrow> Some (h, t') | _ \<Rightarrow> None)"

definition blob_free :: "AivmBlobs \<Rightarrow> int \<Rightarrow> AivmBlobs option" where
  "blob_free t h = (case aivm_blob_release t h of (AIVM_BLOB_OK, t') \<Rightarrow> Some t' | _ \<Rightarrow> None)"

lemma blob_new_Some:
  "blob_new storage_ready alloc t d = Some (h, t') \<longleftrightarrow>
   aivm_blob_create storage_ready alloc t (Some d) (length d) = Some (AIVM_BLOB_OK, Some h, t')"
  by (auto simp: blob_new_def split: option.splits AivmBlobStatus.splits)

lemma blob_free_Some: "blob_free t h = Some t' \<longleftrightarrow> aivm_blob_release t h = (AIVM_BLOB_OK, t')"
  by (auto simp: blob_free_def split: prod.splits AivmBlobStatus.splits)

interpretation blob_table: handle_table "blob_new storage_ready alloc" blob_contents blob_free blobs_ok
  for storage_ready alloc
proof
  fix s s' :: AivmBlobs and v :: bytes and h j :: int
  assume ok: "blobs_ok s"
  show "blobs_ok s'" "blob_contents s h = None"
    "blob_contents s' j = (if j = h then Some v else blob_contents s j)"
    if "blob_new storage_ready alloc s v = Some (h, s')"
    using that create_blobs_ok [OF ok] create_contents [OF ok] unfolding blob_new_Some by blast+
  show "blobs_ok s'" "blob_contents s' j = (if j = h then None else blob_contents s j)"
    if "blob_free s h = Some s'"
    using that release_contents [OF ok] unfolding blob_free_Some by blast+
qed

section \<open>Properties\<close>

text \<open>The tables an initialised machine can come to: the caller's buffer holds at least \<open>len\<close> bytes.\<close>

inductive blob_reachable :: "AivmBlobs \<Rightarrow> bool" where
  init: "blob_reachable initial_blobs"
| create: "blob_reachable t \<Longrightarrow> (case data of None \<Rightarrow> True | Some d \<Rightarrow> len \<le> length d) \<Longrightarrow>
    aivm_blob_create storage_ready alloc t data len = Some (st, h, t') \<Longrightarrow> blob_reachable t'"
| release: "blob_reachable t \<Longrightarrow> aivm_blob_release t handle = (st, t') \<Longrightarrow> blob_reachable t'"
| release_all: "blob_reachable t \<Longrightarrow> blob_reachable (aivm_release_all_blobs t)"

lemma create_trim:
  assumes "case data of None \<Rightarrow> True | Some d \<Rightarrow> len \<le> length d"
    and "aivm_blob_create storage_ready alloc t data len = Some (AIVM_BLOB_OK, h, t')"
  shows "\<exists>d. aivm_blob_create storage_ready alloc t (Some d) (length d) = Some (AIVM_BLOB_OK, h, t')"
proof (cases data)
  case None
  then have "len = 0"
    using assms(2) by (auto simp: aivm_blob_create_def split: if_splits)
  moreover have "aivm_blob_create storage_ready alloc t None 0 = aivm_blob_create storage_ready alloc t (Some []) 0"
    by (simp add: aivm_blob_create_def split: option.split)
  ultimately show ?thesis
    using assms(2) None by (intro exI [of _ "[]"]) simp
next
  case (Some d)
  have "aivm_blob_create storage_ready alloc t (Some d) len = aivm_blob_create storage_ready alloc t (Some (take len d)) len"
    by (simp add: aivm_blob_create_def split: option.split)
  with assms Some show ?thesis
    by (intro exI [of _ "take len d"]) simp
qed

lemma reachable_blobs_ok: "blob_reachable t \<Longrightarrow> blobs_ok t"
proof (induction rule: blob_reachable.induct)
  case init
  show ?case by (rule initial_blobs_ok)
next
  case (create t data len storage_ready alloc st h t')
  show ?case
  proof (cases "st = AIVM_BLOB_OK")
    case True
    then show ?thesis
      using create_trim [OF create.hyps(2)] create.hyps(3) create_blobs_ok [OF create.IH] by blast
  next
    case False
    then have "t' = t \<or> t' = blob_pressure t"
      using create_failed [OF create.hyps(3)] by simp
    then show ?thesis
      using create.IH by (auto simp: blobs_ok_def blob_pressure_def)
  qed
next
  case (release t handle st t')
  then show ?case
    using release_contents(1) [OF release.IH, of handle t']
    by (cases "find_blob t handle") (auto simp: aivm_blob_release_def Let_def)
next
  case (release_all t)
  then show ?case
    by (simp add: aivm_release_all_blobs_def blobs_ok_def cleared_blob_def blob_size_def)
qed

lemma read_contents:
  assumes "blob_contents t h = Some d" and "len = 0 \<or> has_buffer"
  shows "aivm_blob_read t h off has_buffer len = (AIVM_BLOB_OK, take len (drop off d))"
  using assms by (auto simp: aivm_blob_read_def blob_contents_def Let_def min_def split: option.splits)

text \<open>C27 (roundtrip): blocks stored one after the other get different handles, and each handle reads
  back any part of its own block; afterwards releasing one handle makes it unknown and leaves the
  others readable.\<close>

theorem blobs_read_back:
  assumes "blob_reachable t"
    and "create_all (blob_new storage_ready alloc) t ds = Some (hs, t')"
    and "i < length ds" and "aivm_blob_release t' (hs ! i) = (st, t'')"
  shows "distinct hs \<and> length hs = length ds \<and>
         aivm_blob_read t' (hs ! i) off True len = (AIVM_BLOB_OK, take len (drop off (ds ! i))) \<and>
         st = AIVM_BLOB_OK \<and>
         aivm_blob_read t'' (hs ! i) off True len = (AIVM_BLOB_ERR_NOT_FOUND, []) \<and>
         (\<forall>j < length ds. j \<noteq> i \<longrightarrow>
            aivm_blob_read t'' (hs ! j) off True len = (AIVM_BLOB_OK, take len (drop off (ds ! j))))"
proof -
  note all = blob_table.create_all_distinct [OF reachable_blobs_ok [OF assms(1)] assms(2)]
  then have len: "length hs = length ds"
    by (metis length_map)
  have get: "blob_contents t' (hs ! j) = Some (ds ! j)" if "j < length ds" for j
    using all len that by (metis nth_map)
  have st: "st = AIVM_BLOB_OK"
    using get [OF assms(3)] assms(4)
    by (auto simp: blob_contents_def aivm_blob_release_def Let_def split: option.splits)
  then have rel: "blob_contents t'' j = (if j = hs ! i then None else blob_contents t' j)" for j
    using release_contents(2) all assms(4) by blast
  have gone: "aivm_blob_read t'' (hs ! i) off True len = (AIVM_BLOB_ERR_NOT_FOUND, [])"
    using rel [of "hs ! i"] by (auto simp: blob_contents_def aivm_blob_read_def)
  have "aivm_blob_read t'' (hs ! j) off True len = (AIVM_BLOB_OK, take len (drop off (ds ! j)))"
    if "j < length ds" "j \<noteq> i" for j
    using rel [of "hs ! j"] get [OF that(1)] all len that assms(3)
    by (intro read_contents) (auto simp: nth_eq_iff_index_eq)
  with all len st gone read_contents [OF get [OF assms(3)], of len True off] show ?thesis
    by simp
qed

text \<open>In every table an initialised machine can come to, the recorded count and byte
  total are those of the active blobs, at most 64 blobs are active and they hold at most 16 MiB,
  and no two active blobs share a handle.\<close>

lemma blob_budget_kept:
  assumes "blob_reachable t"
  shows "aivm_blob_active_count t = length (filter blob_active (blobs t)) \<and>
         aivm_blob_active_count t \<le> 64 \<and>
         blob_bytes_used t = sum_list (map (\<lambda>b. length (blob_data b)) (filter blob_active (blobs t))) \<and>
         blob_bytes_used t \<le> 16777216 \<and>
         distinct (map blob_handle (filter blob_active (blobs t)))"
proof -
  have ok: "blobs_ok t"
    by (rule reachable_blobs_ok [OF assms])
  have "sum_list (map blob_size bs) = sum_list (map (\<lambda>b. length (blob_data b)) (filter blob_active bs))" for bs
    by (induction bs) (simp_all add: blob_size_def)
  then show ?thesis
    using ok length_filter_le [of blob_active "blobs t"]
    by (simp add: blobs_ok_def aivm_blob_active_count_def AIVM_VM_BLOB_CAPACITY_def AIVM_VM_BLOB_BYTES_def)
qed

lemma blob_demo:
  "\<exists>t' t''. create_all (blob_new True (\<lambda>n. True)) initial_blobs [[1, 2, 3], []] = Some ([1, 2], t') \<and>
     aivm_blob_release t' 1 = (AIVM_BLOB_OK, t'')"
proof -
  obtain n where n: "AIVM_VM_BLOB_CAPACITY = Suc (Suc n)"
    by (metis AIVM_VM_BLOB_CAPACITY_def numeral_eq_Suc Suc_pred' pred_numeral_simps(2) zero_less_Suc
        numeral_2_eq_2 One_nat_def)
  show ?thesis
    by (simp add: initial_blobs_def n blob_new_def aivm_blob_create_def cleared_blob_def i64_defs
        AIVM_VM_BLOB_BYTES_def aivm_size_add_checked_def SIZE_MAX_def aivm_blob_release_def find_blob_def Let_def)
qed

theorem blobs_read_back_witness:
  "\<exists>t' t''. create_all (blob_new True (\<lambda>n. True)) initial_blobs [[1, 2, 3], []] = Some ([1, 2], t') \<and>
     aivm_blob_read t' 1 1 True 9 = (AIVM_BLOB_OK, [2, 3]) \<and>
     aivm_blob_release t' 1 = (AIVM_BLOB_OK, t'') \<and>
     aivm_blob_read t'' 1 1 True 9 = (AIVM_BLOB_ERR_NOT_FOUND, []) \<and>
     aivm_blob_read t'' 2 1 True 9 = (AIVM_BLOB_OK, [])"
proof -
  obtain t' t'' where run: "create_all (blob_new True (\<lambda>n. True)) initial_blobs [[1, 2, 3], []] = Some ([1, 2], t')"
    "aivm_blob_release t' 1 = (AIVM_BLOB_OK, t'')"
    using blob_demo by blast
  from blobs_read_back [OF init run(1), of 0 AIVM_BLOB_OK t'' 1 9] run show ?thesis
    by (auto simp: less_Suc_eq)
qed

lemma blob_budget_kept_witness:
  "\<exists>t'. blob_new True (\<lambda>n. True) initial_blobs [1, 2, 3] = Some (1, t') \<and> blob_bytes_used t' \<le> 16777216"
proof -
  obtain t' where new: "aivm_blob_create True (\<lambda>n. True) initial_blobs (Some [1, 2, 3]) 3 = Some (AIVM_BLOB_OK, Some 1, t')"
    using blob_demo by (auto simp: blob_new_Some numeral_3_eq_3 split: option.splits)
  then have "blob_reachable t'"
    by (intro create [OF init _ new]) simp
  from blob_budget_kept [OF this] new show ?thesis
    by (auto simp: blob_new_Some numeral_3_eq_3)
qed

end
