(* ===== verification/Worker_Scheduler.thy ===== *)
theory Worker_Scheduler
  imports AiVM_Prelude "HOL-Library.Multiset"
begin

text \<open>
  The scheduler of background tasks, \<^verbatim>\<open>src/src/aivm_worker_scheduler.c\<close>: a table of tasks
  shared by an owner and a fixed number of worker threads under one mutex and one condition
  variable. Each section of code between locking and unlocking the mutex is one step; waiting on the
  condition variable ends a step and blocks the thread until it is woken. The worker threads are part
  of the state, and the calls they make to the tasks' functions are recorded in order
  (\<open>sch_calls\<close>). Function and context pointers are addresses, 0 the null pointer.
\<close>

section \<open>State\<close>

datatype AivmWorkerSchedulerStatus =
    AIVM_WORKER_SCHEDULER_OK | AIVM_WORKER_SCHEDULER_ERR_ARGUMENT | AIVM_WORKER_SCHEDULER_ERR_LIMIT
  | AIVM_WORKER_SCHEDULER_ERR_MEMORY | AIVM_WORKER_SCHEDULER_ERR_SYSTEM

datatype AivmWorkerTaskStatus =
    AIVM_WORKER_TASK_QUEUED | AIVM_WORKER_TASK_RUNNING | AIVM_WORKER_TASK_COMPLETED
  | AIVM_WORKER_TASK_CANCELED

record AivmWorkerSchedulerTask =
  task_submission_id :: u64
  task_run :: nat
  task_context :: nat
  task_status :: AivmWorkerTaskStatus
  task_occupied :: bool

text \<open>A worker thread is about to take the mutex, blocked on the condition variable, inside a call
  to the function of a task, or has returned.\<close>

datatype AivmSchedulerThread = Ready | Waiting | Calling u64 | Exited

record AivmWorkerScheduler =
  sch_active_limit :: nat
  sch_outstanding_limit :: nat
  sch_outstanding_count :: nat
  sch_worker_count :: nat
  sch_stopping :: bool
  sch_tasks :: "AivmWorkerSchedulerTask list"
  sch_workers :: "AivmSchedulerThread list"
  sch_calls :: "(u64 \<times> nat \<times> nat) list"

section \<open>Operations\<close>

definition scheduler_wake_all :: "AivmWorkerScheduler \<Rightarrow> AivmWorkerScheduler" where
  "scheduler_wake_all s =
     s\<lparr>sch_workers := map (\<lambda>w. if w = Waiting then Ready else w) (sch_workers s)\<rparr>"

definition find_task :: "AivmWorkerScheduler \<Rightarrow> u64 \<Rightarrow> nat option" where
  "find_task s submission_id =
     find_index (\<lambda>t. task_occupied t \<and> task_submission_id t = submission_id)
       (take (sch_outstanding_limit s) (sch_tasks s))"

definition task_queued :: "AivmWorkerSchedulerTask \<Rightarrow> bool" where
  "task_queued t \<longleftrightarrow> task_occupied t \<and> task_status t = AIVM_WORKER_TASK_QUEUED"

primrec find_queued_loop ::
  "AivmWorkerSchedulerTask list \<Rightarrow> nat list \<Rightarrow> nat option \<Rightarrow> nat option" where
  "find_queued_loop tasks [] selected = selected"
| "find_queued_loop tasks (index # rest) selected =
     (let candidate = tasks ! index in
      if \<not> task_queued candidate then find_queued_loop tasks rest selected
      else if (case selected of
                 None \<Rightarrow> True
               | Some s \<Rightarrow> task_submission_id candidate < task_submission_id (tasks ! s))
      then find_queued_loop tasks rest (Some index)
      else find_queued_loop tasks rest selected)"

definition find_queued_task :: "AivmWorkerScheduler \<Rightarrow> nat option" where
  "find_queued_task s = find_queued_loop (sch_tasks s) [0..<sch_outstanding_limit s] None"

definition set_worker :: "AivmWorkerScheduler \<Rightarrow> nat \<Rightarrow> AivmSchedulerThread \<Rightarrow> AivmWorkerScheduler" where
  "set_worker s w thread = s\<lparr>sch_workers := (sch_workers s)[w := thread]\<rparr>"

definition set_task_status ::
  "AivmWorkerScheduler \<Rightarrow> nat \<Rightarrow> AivmWorkerTaskStatus \<Rightarrow> AivmWorkerScheduler" where
  "set_task_status s i st = s\<lparr>sch_tasks := (sch_tasks s)[i := (sch_tasks s ! i)\<lparr>task_status := st\<rparr>]\<rparr>"

text \<open>The first locked section of the loop of worker \<open>w\<close>: it waits, returns, or takes a task and
  calls its function.\<close>

definition worker_begin :: "AivmWorkerScheduler \<Rightarrow> nat \<Rightarrow> AivmWorkerScheduler" where
  "worker_begin s w =
     (if sch_stopping s then set_worker s w Exited
      else case find_queued_task s of
        None \<Rightarrow> set_worker s w Waiting
      | Some i \<Rightarrow>
          let t = sch_tasks s ! i in
          (set_worker (set_task_status s i AIVM_WORKER_TASK_RUNNING) w (Calling (task_submission_id t)))
            \<lparr>sch_calls := sch_calls s @ [(task_submission_id t, task_run t, task_context t)]\<rparr>)"

text \<open>The second locked section, after the call of the function of task \<open>submission_id\<close> returned.\<close>

definition worker_end :: "AivmWorkerScheduler \<Rightarrow> nat \<Rightarrow> u64 \<Rightarrow> AivmWorkerScheduler" where
  "worker_end s w submission_id =
     set_worker
       (scheduler_wake_all
          (case find_task s submission_id of
             None \<Rightarrow> s
           | Some i \<Rightarrow>
               if task_status (sch_tasks s ! i) = AIVM_WORKER_TASK_RUNNING
               then set_task_status s i AIVM_WORKER_TASK_COMPLETED
               else s))
       w Ready"

text \<open>One turn of worker \<open>w\<close>; \<open>None\<close> when it is blocked or has returned.\<close>

definition scheduler_worker_main :: "AivmWorkerScheduler \<Rightarrow> nat \<Rightarrow> AivmWorkerScheduler option" where
  "scheduler_worker_main s w =
     (if w < length (sch_workers s) then
        case sch_workers s ! w of
          Ready \<Rightarrow> Some (worker_begin s w)
        | Calling submission_id \<Rightarrow> Some (worker_end s w submission_id)
        | Waiting \<Rightarrow> None
        | Exited \<Rightarrow> None
      else None)"

definition zero_task :: AivmWorkerSchedulerTask where
  "zero_task = \<lparr>task_submission_id = 0, task_run = 0, task_context = 0,
     task_status = AIVM_WORKER_TASK_QUEUED, task_occupied = False\<rparr>"

text \<open>Starting \<open>n\<close> threads from \<open>index\<close> on; \<open>start_worker index\<close> is whether the thread could be
  started.\<close>

primrec start_workers :: "(nat \<Rightarrow> bool) \<Rightarrow> nat \<Rightarrow> nat \<Rightarrow> AivmWorkerScheduler \<Rightarrow> AivmWorkerScheduler option" where
  "start_workers start_worker index 0 s = Some s"
| "start_workers start_worker index (Suc n) s =
     (if \<not> start_worker index then None
      else start_workers start_worker (index + 1) n
             (s\<lparr>sch_workers := sch_workers s @ [Ready], sch_worker_count := sch_worker_count s + 1\<rparr>))"

text \<open>\<open>memory\<close> is whether the three allocations succeed, \<open>sync\<close> whether the mutex and the condition
  variable can be initialised. Every failure frees what was allocated; the threads that did start
  find \<open>stopping\<close> set and are joined.\<close>

definition aivm_worker_scheduler_create ::
  "bool \<Rightarrow> bool \<Rightarrow> (nat \<Rightarrow> bool) \<Rightarrow> nat \<Rightarrow> nat \<Rightarrow> bool \<Rightarrow>
   AivmWorkerSchedulerStatus \<times> AivmWorkerScheduler option" where
  "aivm_worker_scheduler_create memory sync start_worker active_limit outstanding_limit has_out =
     (if \<not> has_out \<or> active_limit = 0 \<or> outstanding_limit = 0 \<or> active_limit > outstanding_limit
      then (AIVM_WORKER_SCHEDULER_ERR_ARGUMENT, None)
      else if \<not> memory then (AIVM_WORKER_SCHEDULER_ERR_MEMORY, None)
      else if \<not> sync then (AIVM_WORKER_SCHEDULER_ERR_SYSTEM, None)
      else
        case start_workers start_worker 0 active_limit
               \<lparr>sch_active_limit = active_limit, sch_outstanding_limit = outstanding_limit,
                sch_outstanding_count = 0, sch_worker_count = 0, sch_stopping = False,
                sch_tasks = replicate outstanding_limit zero_task, sch_workers = [], sch_calls = []\<rparr> of
          None \<Rightarrow> (AIVM_WORKER_SCHEDULER_ERR_SYSTEM, None)
        | Some s \<Rightarrow> (AIVM_WORKER_SCHEDULER_OK, Some s))"

text \<open>Destruction sets \<open>stopping\<close>, then joins the threads from the last to the first; a join blocks
  (\<open>None\<close>) until its thread has returned.\<close>

definition destroy_stop :: "AivmWorkerScheduler \<Rightarrow> AivmWorkerScheduler" where
  "destroy_stop s = scheduler_wake_all (s\<lparr>sch_stopping := True\<rparr>)"

definition destroy_join :: "AivmWorkerScheduler \<Rightarrow> AivmWorkerScheduler option" where
  "destroy_join s =
     (if 0 < sch_worker_count s \<and> sch_workers s ! (sch_worker_count s - 1) = Exited
      then Some (s\<lparr>sch_worker_count := sch_worker_count s - 1\<rparr>) else None)"

definition aivm_worker_scheduler_submit ::
  "AivmWorkerScheduler option \<Rightarrow> u64 \<Rightarrow> nat \<Rightarrow> nat \<Rightarrow> AivmWorkerSchedulerStatus \<times> AivmWorkerScheduler option" where
  "aivm_worker_scheduler_submit scheduler submission_id run context =
     (case scheduler of
        None \<Rightarrow> (AIVM_WORKER_SCHEDULER_ERR_ARGUMENT, None)
      | Some s \<Rightarrow>
          if run = 0 then (AIVM_WORKER_SCHEDULER_ERR_ARGUMENT, Some s)
          else if sch_outstanding_count s \<ge> sch_outstanding_limit s \<or> find_task s submission_id \<noteq> None
          then (AIVM_WORKER_SCHEDULER_ERR_LIMIT, Some s)
          else case find_index (\<lambda>t. \<not> task_occupied t) (take (sch_outstanding_limit s) (sch_tasks s)) of
            None \<Rightarrow> (AIVM_WORKER_SCHEDULER_ERR_LIMIT, Some s)
          | Some i \<Rightarrow>
              (AIVM_WORKER_SCHEDULER_OK,
               Some (scheduler_wake_all
                 (s\<lparr>sch_tasks := (sch_tasks s)[i :=
                      \<lparr>task_submission_id = submission_id, task_run = run, task_context = context,
                       task_status = AIVM_WORKER_TASK_QUEUED, task_occupied = True\<rparr>],
                    sch_outstanding_count := sch_outstanding_count s + 1\<rparr>))))"

definition task_finished :: "AivmWorkerSchedulerTask \<Rightarrow> bool" where
  "task_finished t \<longleftrightarrow>
     task_status t = AIVM_WORKER_TASK_COMPLETED \<or> task_status t = AIVM_WORKER_TASK_CANCELED"

text \<open>\<open>None\<close> is waiting on the condition variable.\<close>

definition aivm_worker_scheduler_await ::
  "AivmWorkerScheduler option \<Rightarrow> u64 \<Rightarrow> bool \<Rightarrow> (AivmWorkerSchedulerStatus \<times> AivmWorkerTaskStatus option) option" where
  "aivm_worker_scheduler_await scheduler submission_id has_out =
     (case scheduler of
        None \<Rightarrow> Some (AIVM_WORKER_SCHEDULER_ERR_ARGUMENT, None)
      | Some s \<Rightarrow>
          if \<not> has_out then Some (AIVM_WORKER_SCHEDULER_ERR_ARGUMENT, None)
          else case find_task s submission_id of
            None \<Rightarrow> Some (AIVM_WORKER_SCHEDULER_ERR_ARGUMENT, None)
          | Some i \<Rightarrow>
              let t = sch_tasks s ! i in
              if \<not> task_finished t then None
              else Some (AIVM_WORKER_SCHEDULER_OK, Some (task_status t)))"

definition aivm_worker_scheduler_cancel ::
  "AivmWorkerScheduler option \<Rightarrow> u64 \<Rightarrow> bool \<Rightarrow>
   AivmWorkerSchedulerStatus \<times> bool \<times> AivmWorkerScheduler option" where
  "aivm_worker_scheduler_cancel scheduler submission_id has_out =
     (case scheduler of
        None \<Rightarrow> (AIVM_WORKER_SCHEDULER_ERR_ARGUMENT, False, None)
      | Some s \<Rightarrow>
          if \<not> has_out then (AIVM_WORKER_SCHEDULER_ERR_ARGUMENT, False, Some s)
          else case find_task s submission_id of
            None \<Rightarrow> (AIVM_WORKER_SCHEDULER_ERR_ARGUMENT, False, Some s)
          | Some i \<Rightarrow>
              if task_status (sch_tasks s ! i) = AIVM_WORKER_TASK_QUEUED
              then (AIVM_WORKER_SCHEDULER_OK, True,
                    Some (scheduler_wake_all (set_task_status s i AIVM_WORKER_TASK_CANCELED)))
              else (AIVM_WORKER_SCHEDULER_OK, False, Some s))"

definition aivm_worker_scheduler_release ::
  "AivmWorkerScheduler option \<Rightarrow> u64 \<Rightarrow> AivmWorkerSchedulerStatus \<times> AivmWorkerScheduler option" where
  "aivm_worker_scheduler_release scheduler submission_id =
     (case scheduler of
        None \<Rightarrow> (AIVM_WORKER_SCHEDULER_ERR_ARGUMENT, None)
      | Some s \<Rightarrow>
          case find_task s submission_id of
            None \<Rightarrow> (AIVM_WORKER_SCHEDULER_ERR_ARGUMENT, Some s)
          | Some i \<Rightarrow>
              if \<not> task_finished (sch_tasks s ! i) then (AIVM_WORKER_SCHEDULER_ERR_ARGUMENT, Some s)
              else
                (AIVM_WORKER_SCHEDULER_OK,
                 Some (s\<lparr>sch_tasks := (sch_tasks s)[i :=
                           (sch_tasks s ! i)\<lparr>task_occupied := False, task_run := 0, task_context := 0\<rparr>],
                         sch_outstanding_count := sch_outstanding_count s - 1\<rparr>)))"

definition aivm_worker_scheduler_active_limit :: "AivmWorkerScheduler option \<Rightarrow> nat" where
  "aivm_worker_scheduler_active_limit scheduler =
     (case scheduler of None \<Rightarrow> 0 | Some s \<Rightarrow> sch_active_limit s)"

definition aivm_worker_scheduler_outstanding_count :: "AivmWorkerScheduler option \<Rightarrow> nat" where
  "aivm_worker_scheduler_outstanding_count scheduler =
     (case scheduler of None \<Rightarrow> 0 | Some s \<Rightarrow> sch_outstanding_count s)"

section \<open>The interleaved system\<close>

text \<open>A created scheduler moves by the turns of its workers and by the calls of its owner. After
  destruction has begun the owner only joins.\<close>

inductive worker_turn :: "AivmWorkerScheduler \<Rightarrow> AivmWorkerScheduler \<Rightarrow> bool" where
  turn: "scheduler_worker_main s w = Some s' \<Longrightarrow> worker_turn s s'"

inductive owner_call :: "AivmWorkerScheduler \<Rightarrow> AivmWorkerScheduler \<Rightarrow> bool" where
  submit: "aivm_worker_scheduler_submit (Some s) submission_id run context = (st, Some s') \<Longrightarrow> owner_call s s'"
| cancel: "aivm_worker_scheduler_cancel (Some s) submission_id has_out = (st, canceled, Some s') \<Longrightarrow> owner_call s s'"
| release: "aivm_worker_scheduler_release (Some s) submission_id = (st, Some s') \<Longrightarrow> owner_call s s'"
| stop: "owner_call s (destroy_stop s)"
| join: "destroy_join s = Some s' \<Longrightarrow> owner_call s s'"

inductive sched_reachable :: "AivmWorkerScheduler \<Rightarrow> bool" where
  created: "aivm_worker_scheduler_create memory sync start_worker active_limit outstanding_limit has_out =
      (AIVM_WORKER_SCHEDULER_OK, Some s) \<Longrightarrow> sched_reachable s"
| worker: "sched_reachable s \<Longrightarrow> worker_turn s s' \<Longrightarrow> sched_reachable s'"
| owner: "sched_reachable s \<Longrightarrow> owner_call s s' \<Longrightarrow> sched_reachable s'"

inductive_cases worker_turnE: "worker_turn s s'"
inductive_cases owner_callE: "owner_call s s'"

section \<open>The invariant\<close>

definition task_running :: "AivmWorkerSchedulerTask \<Rightarrow> bool" where
  "task_running t \<longleftrightarrow> task_occupied t \<and> task_status t = AIVM_WORKER_TASK_RUNNING"

text \<open>The submission ids of the calls in progress.\<close>

primrec calling :: "AivmSchedulerThread list \<Rightarrow> u64 list" where
  "calling [] = []"
| "calling (w # ws) = (case w of Calling submission_id \<Rightarrow> [submission_id] | _ \<Rightarrow> []) @ calling ws"

text \<open>Outstanding tasks have different ids and are counted; the running tasks are the calls in
  progress; threads return only during destruction; and a thread is blocked only while there is
  nothing to do.\<close>

definition sched_ok :: "AivmWorkerScheduler \<Rightarrow> bool" where
  "sched_ok s \<longleftrightarrow>
     0 < sch_active_limit s \<and> sch_active_limit s \<le> sch_outstanding_limit s \<and>
     length (sch_tasks s) = sch_outstanding_limit s \<and>
     length (sch_workers s) = sch_active_limit s \<and>
     distinct (map task_submission_id (filter task_occupied (sch_tasks s))) \<and>
     sch_outstanding_count s = length (filter task_occupied (sch_tasks s)) \<and>
     mset (calling (sch_workers s)) = mset (map task_submission_id (filter task_running (sch_tasks s))) \<and>
     (Exited \<in> set (sch_workers s) \<longrightarrow> sch_stopping s) \<and>
     (Waiting \<in> set (sch_workers s) \<longrightarrow> \<not> sch_stopping s \<and> filter task_queued (sch_tasks s) = [])"

lemma calling_append [simp]: "calling (us @ vs) = calling us @ calling vs"
  by (induction us) simp_all

lemma calling_length: "length (calling ws) \<le> length ws"
  by (induction ws) (simp_all split: AivmSchedulerThread.split)

lemma wake_calling [simp]: "calling (map (\<lambda>w. if w = Waiting then Ready else w) ws) = calling ws"
  by (induction ws) (simp_all split: AivmSchedulerThread.split)

lemma wake_none_waits [simp]: "Waiting \<notin> set (map (\<lambda>w. if w = Waiting then Ready else w) ws)"
  by auto

lemma wake_exited [simp]:
  "Exited \<in> set (map (\<lambda>w. if w = Waiting then Ready else w) ws) \<longleftrightarrow> Exited \<in> set ws"
  by (force simp: image_iff)

lemma status_predicates [simp]:
  "task_queued (t\<lparr>task_status := st\<rparr>) \<longleftrightarrow> task_occupied t \<and> st = AIVM_WORKER_TASK_QUEUED"
  "task_running (t\<lparr>task_status := st\<rparr>) \<longleftrightarrow> task_occupied t \<and> st = AIVM_WORKER_TASK_RUNNING"
  by (simp_all add: task_queued_def task_running_def)

lemma find_task_Some:
  assumes "sched_ok s" and "find_task s submission_id = Some i"
  shows "i < length (sch_tasks s)" and "task_occupied (sch_tasks s ! i)"
    and "task_submission_id (sch_tasks s ! i) = submission_id"
  using assms find_index_SomeD [of _ "sch_tasks s" i] by (auto simp: find_task_def sched_ok_def)

lemma find_task_None:
  assumes "sched_ok s"
  shows "find_task s submission_id = None \<longleftrightarrow>
    submission_id \<notin> set (map task_submission_id (filter task_occupied (sch_tasks s)))"
  using assms by (auto simp: find_task_def sched_ok_def find_index_None)

text \<open>Ids are unique: the task found is the one with the id.\<close>

lemma find_task_unique:
  assumes "sched_ok s" and "t \<in> set (sch_tasks s)" and "task_occupied t"
  shows "\<exists>i < length (sch_tasks s). find_task s (task_submission_id t) = Some i \<and> sch_tasks s ! i = t"
proof -
  have "find_task s (task_submission_id t) \<noteq> None"
    using assms by (simp add: find_task_None)
  then obtain i where i: "find_task s (task_submission_id t) = Some i"
    by auto
  note f = find_task_Some [OF assms(1) i]
  have "inj_on task_submission_id (set (filter task_occupied (sch_tasks s)))"
    using assms(1) by (simp add: sched_ok_def distinct_map)
  then have "sch_tasks s ! i = t"
    using f assms(2,3) by (auto dest: inj_onD)
  with i f show ?thesis
    by auto
qed

lemma find_queued_loop_spec:
  assumes "\<forall>i. selected = Some i \<longrightarrow> task_queued (tasks ! i)"
  shows "case find_queued_loop tasks is selected of
           None \<Rightarrow> selected = None \<and> (\<forall>i \<in> set is. \<not> task_queued (tasks ! i))
         | Some i \<Rightarrow> i \<in> set is \<union> set_option selected \<and> task_queued (tasks ! i) \<and>
             (\<forall>j \<in> set is \<union> set_option selected. task_queued (tasks ! j) \<longrightarrow>
                task_submission_id (tasks ! i) \<le> task_submission_id (tasks ! j))"
  using assms
proof (induction "is" arbitrary: selected)
  case Nil
  then show ?case
    by (cases selected) simp_all
next
  case (Cons i "is")
  show ?case
  proof (cases "task_queued (tasks ! i) \<and> (case selected of None \<Rightarrow> True
      | Some s \<Rightarrow> task_submission_id (tasks ! i) < task_submission_id (tasks ! s))")
    case True
    then have step: "find_queued_loop tasks (i # is) selected = find_queued_loop tasks is (Some i)"
      by (simp add: Let_def)
    show ?thesis
      unfolding step using True Cons.IH [of "Some i"] Cons.prems
      by (auto split: option.splits intro: order_trans less_imp_le)
  next
    case False
    then have step: "find_queued_loop tasks (i # is) selected = find_queued_loop tasks is selected"
      by (auto simp: Let_def)
    show ?thesis
      unfolding step using False Cons.IH [of selected] Cons.prems
      by (auto split: option.splits intro: order_trans)
  qed
qed

lemma find_queued_task_spec:
  assumes "sched_ok s"
  shows "case find_queued_task s of
           None \<Rightarrow> filter task_queued (sch_tasks s) = []
         | Some i \<Rightarrow> i < length (sch_tasks s) \<and> task_queued (sch_tasks s ! i) \<and>
             (\<forall>t \<in> set (filter task_queued (sch_tasks s)).
                task_submission_id (sch_tasks s ! i) \<le> task_submission_id t)"
  using find_queued_loop_spec [of None "sch_tasks s" "[0..<sch_outstanding_limit s]"] assms
  by (auto simp: find_queued_task_def sched_ok_def in_set_conv_nth filter_empty_conv split: option.splits)

section \<open>Preservation\<close>

text \<open>The task at an index among the others.\<close>

lemma set_task_status_split:
  assumes "i < length (sch_tasks s)"
  obtains us vs where "sch_tasks s = us @ sch_tasks s ! i # vs"
    and "\<And>st. sch_tasks (set_task_status s i st) = us @ (sch_tasks s ! i)\<lparr>task_status := st\<rparr> # vs"
  using assms by (rule list_at) (simp add: set_task_status_def)

lemma fields_set_task_status [simp]:
  "sch_active_limit (set_task_status s i st) = sch_active_limit s"
  "sch_outstanding_limit (set_task_status s i st) = sch_outstanding_limit s"
  "sch_outstanding_count (set_task_status s i st) = sch_outstanding_count s"
  "sch_stopping (set_task_status s i st) = sch_stopping s"
  "sch_workers (set_task_status s i st) = sch_workers s"
  "sch_calls (set_task_status s i st) = sch_calls s"
  by (simp_all add: set_task_status_def)

lemma begin_waits_ok:
  assumes "sched_ok s" and "w < length (sch_workers s)" and "sch_workers s ! w = Ready"
    and "find_queued_task s = None" and "\<not> sch_stopping s"
  shows "sched_ok (set_worker s w Waiting)"
proof -
  obtain as bs where ws: "sch_workers s = as @ Ready # bs" "w = length as"
    using assms(2,3) by (metis list_at)
  have "filter task_queued (sch_tasks s) = []"
    using find_queued_task_spec [OF assms(1)] assms(4) by simp
  with assms(1,5) show ?thesis
    by (simp add: sched_ok_def set_worker_def ws)
qed

lemma begin_exits_ok:
  assumes "sched_ok s" and "w < length (sch_workers s)" and "sch_workers s ! w = Ready" and "sch_stopping s"
  shows "sched_ok (set_worker s w Exited)"
proof -
  obtain as bs where ws: "sch_workers s = as @ Ready # bs" "w = length as"
    using assms(2,3) by (metis list_at)
  with assms(1,4) show ?thesis
    by (simp add: sched_ok_def set_worker_def)
qed

lemma begin_calls_ok:
  assumes "sched_ok s" and "w < length (sch_workers s)" and "sch_workers s ! w = Ready"
    and "find_queued_task s = Some i"
  shows "sched_ok (set_worker (set_task_status s i AIVM_WORKER_TASK_RUNNING) w
           (Calling (task_submission_id (sch_tasks s ! i))))"
proof -
  obtain as bs where ws: "sch_workers s = as @ Ready # bs" "w = length as"
    using assms(2,3) by (metis list_at)
  have i: "i < length (sch_tasks s)" "task_queued (sch_tasks s ! i)"
    using find_queued_task_spec [OF assms(1)] assms(4) by simp_all
  then have t: "task_occupied (sch_tasks s ! i)" "\<not> task_running (sch_tasks s ! i)"
    by (simp_all add: task_queued_def task_running_def)
  obtain us vs where ts: "sch_tasks s = us @ sch_tasks s ! i # vs"
    "\<And>st. sch_tasks (set_task_status s i st) = us @ (sch_tasks s ! i)\<lparr>task_status := st\<rparr> # vs"
    using set_task_status_split [OF i(1)] by metis
  have "sched_ok (set_task_status s i AIVM_WORKER_TASK_RUNNING\<lparr>sch_workers := as @ Calling (task_submission_id (sch_tasks s ! i)) # bs\<rparr>)"
    using assms(1) i(2) t unfolding sched_ok_def
    by (subst (asm) (1 2 3 4 5) ts(1)) (simp add: ts(2) ws)
  then show ?thesis
    by (simp add: set_worker_def ws)
qed

lemma wake_ok:
  assumes "sched_ok s"
  shows "sched_ok (scheduler_wake_all s)"
  using assms by (simp add: sched_ok_def scheduler_wake_all_def del: set_map)

lemma update_status_ok:
  assumes "sched_ok s" and "i < length (sch_tasks s)" and "\<not> task_running (sch_tasks s ! i)"
    and "st \<notin> {AIVM_WORKER_TASK_QUEUED, AIVM_WORKER_TASK_RUNNING}"
  shows "sched_ok (set_task_status s i st)"
proof -
  obtain us vs where ts: "sch_tasks s = us @ sch_tasks s ! i # vs"
    "\<And>st. sch_tasks (set_task_status s i st) = us @ (sch_tasks s ! i)\<lparr>task_status := st\<rparr> # vs"
    using set_task_status_split [OF assms(2)] by metis
  show ?thesis
    using assms(1,3,4) unfolding sched_ok_def
    by (subst (asm) (1 2 3 4 5) ts(1)) (simp add: ts(2) split: if_splits)
qed

lemma worker_end_ok:
  assumes "sched_ok s" and "w < length (sch_workers s)" and "sch_workers s ! w = Calling submission_id"
  shows "sched_ok (worker_end s w submission_id)"
    and "\<exists>i. find_task s submission_id = Some i \<and> task_running (sch_tasks s ! i)"
proof -
  obtain as bs where ws: "sch_workers s = as @ Calling submission_id # bs" "w = length as"
    using assms(2,3) by (metis list_at)
  have "submission_id \<in> set (calling (sch_workers s))"
    by (simp add: ws)
  also have "set (calling (sch_workers s)) = set (map task_submission_id (filter task_running (sch_tasks s)))"
    using assms(1) by (intro mset_eq_setD) (simp add: sched_ok_def)
  finally obtain t where t: "t \<in> set (sch_tasks s)" "task_running t" "task_submission_id t = submission_id"
    by auto
  then obtain i where i: "i < length (sch_tasks s)" "find_task s submission_id = Some i"
    and run: "task_running (sch_tasks s ! i)"
    using find_task_unique [OF assms(1) t(1)] by (auto simp: task_running_def)
  then show "\<exists>i. find_task s submission_id = Some i \<and> task_running (sch_tasks s ! i)"
    by blast
  obtain us vs where ts: "sch_tasks s = us @ sch_tasks s ! i # vs"
    "\<And>st. sch_tasks (set_task_status s i st) = us @ (sch_tasks s ! i)\<lparr>task_status := st\<rparr> # vs"
    using set_task_status_split [OF i(1)] by metis
  have "task_submission_id (sch_tasks s ! i) = submission_id"
    using find_task_Some(3) [OF assms(1) i(2)] .
  moreover have "task_occupied (sch_tasks s ! i)" "\<not> task_queued (sch_tasks s ! i)"
    using run by (simp_all add: task_running_def task_queued_def)
  ultimately have "sched_ok (set_task_status s i AIVM_WORKER_TASK_COMPLETED
      \<lparr>sch_workers := map (\<lambda>w. if w = Waiting then Ready else w) (as @ Ready # bs)\<rparr>)"
    using assms(1) run unfolding sched_ok_def
    by (subst (asm) (1 2 3 4 5) ts(1)) (simp add: ts(2) ws del: set_map)
  moreover have "set_worker (scheduler_wake_all u) w Ready =
      u\<lparr>sch_workers := map (\<lambda>w. if w = Waiting then Ready else w) (as @ Ready # bs)\<rparr>"
    if "sch_workers u = sch_workers s" for u
    using list_update_length [of "map (\<lambda>w. if w = Waiting then Ready else w) as"] that
    by (simp add: set_worker_def scheduler_wake_all_def ws)
  ultimately have "sched_ok (set_worker (scheduler_wake_all (set_task_status s i AIVM_WORKER_TASK_COMPLETED)) w Ready)"
    by (simp del: map_append)
  then show "sched_ok (worker_end s w submission_id)"
    using run by (simp add: worker_end_def i task_running_def)
qed

lemma submit_ok:
  assumes "sched_ok s" and "aivm_worker_scheduler_submit (Some s) submission_id run context = (st, Some s')"
  shows "sched_ok s'"
proof (cases "st = AIVM_WORKER_SCHEDULER_OK")
  case True
  let ?t = "\<lparr>task_submission_id = submission_id, task_run = run, task_context = context,
    task_status = AIVM_WORKER_TASK_QUEUED, task_occupied = True\<rparr>"
  obtain i where none: "find_task s submission_id = None"
    and i: "find_index (\<lambda>t. \<not> task_occupied t) (sch_tasks s) = Some i"
    and s': "s' = scheduler_wake_all (s\<lparr>sch_tasks := (sch_tasks s)[i := ?t],
        sch_outstanding_count := sch_outstanding_count s + 1\<rparr>)"
    using assms True by (auto simp: aivm_worker_scheduler_submit_def sched_ok_def split: if_splits option.splits)
  obtain us vs where ts: "sch_tasks s = us @ sch_tasks s ! i # vs" "(sch_tasks s)[i := ?t] = us @ ?t # vs"
    using find_index_SomeD(1) [OF i] by (metis list_at)
  have "\<not> task_occupied (sch_tasks s ! i)"
    using find_index_SomeD(2) [OF i] .
  moreover have "submission_id \<notin> set (map task_submission_id (filter task_occupied (us @ sch_tasks s ! i # vs)))"
    using none find_task_None [OF assms(1)] ts(1) by simp
  ultimately show ?thesis
    using assms(1) unfolding s' sched_ok_def
    by (subst (asm) (1 2 3 4 5) ts(1))
      (simp add: ts(2) scheduler_wake_all_def task_running_def del: set_map)
next
  case False
  then show ?thesis
    using assms by (auto simp: aivm_worker_scheduler_submit_def split: if_splits option.splits)
qed

lemma cancel_ok:
  assumes "sched_ok s" and "aivm_worker_scheduler_cancel (Some s) submission_id has_out = (st, canceled, Some s')"
  shows "sched_ok s'"
  using assms find_task_Some(1) [OF assms(1)]
  by (auto simp: aivm_worker_scheduler_cancel_def task_running_def split: if_splits option.splits
      intro!: wake_ok update_status_ok)

lemma release_ok:
  assumes "sched_ok s" and "aivm_worker_scheduler_release (Some s) submission_id = (st, Some s')"
  shows "sched_ok s'"
proof (cases "st = AIVM_WORKER_SCHEDULER_OK")
  case True
  then obtain i where i: "find_task s submission_id = Some i" "task_finished (sch_tasks s ! i)"
    and s': "s' = s\<lparr>sch_tasks := (sch_tasks s)[i :=
         (sch_tasks s ! i)\<lparr>task_occupied := False, task_run := 0, task_context := 0\<rparr>],
       sch_outstanding_count := sch_outstanding_count s - 1\<rparr>"
    using assms by (auto simp: aivm_worker_scheduler_release_def split: if_splits option.splits)
  note t = find_task_Some [OF assms(1) i(1)]
  obtain us vs where ts: "sch_tasks s = us @ sch_tasks s ! i # vs"
    "\<And>y. (sch_tasks s)[i := y] = us @ y # vs"
    using t(1) by (metis list_at)
  have "\<not> task_running (sch_tasks s ! i)" "\<not> task_queued (sch_tasks s ! i)"
    using i(2) by (auto simp: task_finished_def task_running_def task_queued_def)
  then show ?thesis
    using assms(1) t(2) unfolding s' sched_ok_def
    by (subst (asm) (1 2 3 4 5) ts(1)) (simp add: ts(2) task_running_def task_queued_def)
next
  case False
  then show ?thesis
    using assms by (auto simp: aivm_worker_scheduler_release_def split: if_splits option.splits)
qed

lemma start_workers_spec:
  "start_workers start_worker index n s = Some s' \<Longrightarrow>
   s' = s\<lparr>sch_workers := sch_workers s @ replicate n Ready, sch_worker_count := sch_worker_count s + n\<rparr>"
proof (induction n arbitrary: index s)
  case (Suc n)
  from Suc.prems show ?case
    by (auto split: if_splits dest!: Suc.IH)
qed simp

lemma calling_replicate_ready [simp]: "calling (replicate n Ready) = []"
  by (induction n) simp_all

lemma create_ok:
  assumes "aivm_worker_scheduler_create memory sync start_worker active_limit outstanding_limit has_out =
      (AIVM_WORKER_SCHEDULER_OK, Some s)"
  shows "sched_ok s"
  using assms
  by (auto simp: aivm_worker_scheduler_create_def sched_ok_def zero_task_def task_running_def
      dest!: start_workers_spec split: if_splits option.splits)

lemma turn_ok:
  assumes "sched_ok s" and "worker_turn s s'"
  shows "sched_ok s'"
proof -
  obtain w where turn: "scheduler_worker_main s w = Some s'"
    using assms(2) by (rule worker_turnE)
  have calls: "sched_ok (s\<lparr>sch_calls := c\<rparr>) = sched_ok s" for s c
    by (simp add: sched_ok_def)
  from turn assms(1) show ?thesis
    by (auto simp: scheduler_worker_main_def worker_begin_def Let_def calls begin_waits_ok begin_exits_ok
        begin_calls_ok worker_end_ok split: if_splits AivmSchedulerThread.splits option.splits)
qed

lemma stop_ok: "sched_ok s \<Longrightarrow> sched_ok (destroy_stop s)"
  by (simp add: destroy_stop_def scheduler_wake_all_def sched_ok_def del: set_map)

lemma join_ok: "sched_ok s \<Longrightarrow> destroy_join s = Some s' \<Longrightarrow> sched_ok s'"
  by (auto simp: destroy_join_def sched_ok_def split: if_splits)

lemma call_ok: "owner_call s s' \<Longrightarrow> sched_ok s \<Longrightarrow> sched_ok s'"
  by (induction rule: owner_call.induct) (blast intro: submit_ok cancel_ok release_ok stop_ok join_ok)+

lemma reachable_sched_ok: "sched_reachable s \<Longrightarrow> sched_ok s"
  by (induction rule: sched_reachable.induct) (auto intro: create_ok turn_ok call_ok)

section \<open>Progress\<close>

text \<open>The queued tasks in the order in which they will be called, and what is recorded of a call.\<close>

definition task_queue :: "AivmWorkerScheduler \<Rightarrow> AivmWorkerSchedulerTask list" where
  "task_queue s = sort_key task_submission_id (filter task_queued (sch_tasks s))"

definition task_call :: "AivmWorkerSchedulerTask \<Rightarrow> u64 \<times> nat \<times> nat" where
  "task_call t = (task_submission_id t, task_run t, task_context t)"

text \<open>A bound on the turns the workers have before they block: every queued or running task can wake
  every worker once more.\<close>

definition turns_bound :: "AivmWorkerScheduler \<Rightarrow> nat" where
  "turns_bound s =
     Suc (sch_active_limit s) * (length (filter task_queued (sch_tasks s)) + length (calling (sch_workers s))) +
     length (filter (\<lambda>w. w = Ready) (sch_workers s))"

lemma queue_after_take:
  assumes "sched_ok s" and "find_queued_task s = Some i"
  shows "task_queue s = sch_tasks s ! i # task_queue (set_task_status s i AIVM_WORKER_TASK_RUNNING)"
proof -
  let ?t = "sch_tasks s ! i"
  have i: "i < length (sch_tasks s)" "task_queued ?t"
    "\<forall>t \<in> set (filter task_queued (sch_tasks s)). task_submission_id ?t \<le> task_submission_id t"
    using find_queued_task_spec [OF assms(1)] assms(2) by simp_all
  obtain us vs where ts: "sch_tasks s = us @ ?t # vs"
    "\<And>st. sch_tasks (set_task_status s i st) = us @ ?t\<lparr>task_status := st\<rparr> # vs"
    using set_task_status_split [OF i(1)] by metis
  have rest: "filter task_queued (sch_tasks (set_task_status s i AIVM_WORKER_TASK_RUNNING)) =
      filter task_queued us @ filter task_queued vs"
    by (simp add: ts(2))
  have "inj_on task_submission_id (set (filter task_queued (sch_tasks s)))"
    using assms(1) by (auto simp: sched_ok_def distinct_map task_queued_def intro: inj_on_subset)
  moreover have all: "filter task_queued (sch_tasks s) = filter task_queued us @ ?t # filter task_queued vs"
    using i(2) by (subst ts(1)) simp
  ultimately show ?thesis
    unfolding task_queue_def rest
    by (intro sort_key_inj_key_eq) (use i(3) all in auto)
qed

lemma sort_key_Nil_iff: "sort_key f xs = [] \<longleftrightarrow> xs = []"
  by (metis length_0_conv length_sort)

lemma queue_empty_iff: "sched_ok s \<Longrightarrow> find_queued_task s = None \<longleftrightarrow> task_queue s = []"
  using find_queued_task_spec [of s]
  by (force simp: task_queue_def sort_key_Nil_iff filter_empty_conv split: option.splits)

text \<open>Finishing a call leaves the queue alone and ends one call.\<close>

lemma worker_end_effect:
  assumes "sched_ok s" and "w < length (sch_workers s)" and "sch_workers s ! w = Calling submission_id"
  shows "filter task_queued (sch_tasks (worker_end s w submission_id)) = filter task_queued (sch_tasks s)"
    and "Suc (length (calling (sch_workers (worker_end s w submission_id)))) = length (calling (sch_workers s))"
    and "length (sch_workers (worker_end s w submission_id)) = length (sch_workers s)"
proof -
  obtain as bs where ws: "sch_workers s = as @ Calling submission_id # bs" "w = length as"
    using assms(2,3) by (metis list_at)
  obtain i where i: "find_task s submission_id = Some i" "task_running (sch_tasks s ! i)"
    using worker_end_ok(2) [OF assms] by blast
  obtain us vs where ts: "sch_tasks s = us @ sch_tasks s ! i # vs"
    "\<And>st. sch_tasks (set_task_status s i st) = us @ (sch_tasks s ! i)\<lparr>task_status := st\<rparr> # vs"
    using set_task_status_split [OF find_task_Some(1) [OF assms(1) i(1)]] by metis
  have st: "task_status (sch_tasks s ! i) = AIVM_WORKER_TASK_RUNNING" "\<not> task_queued (sch_tasks s ! i)"
    using i(2) by (simp_all add: task_running_def task_queued_def)
  have tasks: "sch_tasks (worker_end s w submission_id) = sch_tasks (set_task_status s i AIVM_WORKER_TASK_COMPLETED)"
    by (simp add: worker_end_def i(1) st set_worker_def scheduler_wake_all_def)
  show "filter task_queued (sch_tasks (worker_end s w submission_id)) = filter task_queued (sch_tasks s)"
    unfolding tasks ts(2) by (subst (2) ts(1)) (simp add: st)
  have "sch_workers (worker_end s w submission_id) = map (\<lambda>w. if w = Waiting then Ready else w) (as @ Ready # bs)"
    using list_update_length [of "map (\<lambda>w. if w = Waiting then Ready else w) as"]
    by (simp add: worker_end_def i(1) st set_worker_def scheduler_wake_all_def ws)
  then show "Suc (length (calling (sch_workers (worker_end s w submission_id)))) = length (calling (sch_workers s))"
    and "length (sch_workers (worker_end s w submission_id)) = length (sch_workers s)"
    by (simp_all add: ws del: map_append)
qed

lemma worker_begin_calls_effect:
  assumes "sched_ok s" and "w < length (sch_workers s)" and "sch_workers s ! w = Ready"
    and "\<not> sch_stopping s" and "find_queued_task s = Some i"
  shows "sch_calls (worker_begin s w) @ map task_call (task_queue (worker_begin s w)) =
           sch_calls s @ map task_call (task_queue s)"
    and "turns_bound (worker_begin s w) < turns_bound s"
proof -
  let ?t = "sch_tasks s ! i" and ?r = "set_task_status s i AIVM_WORKER_TASK_RUNNING"
  obtain as bs where ws: "sch_workers s = as @ Ready # bs" "w = length as"
    using assms(2,3) by (metis list_at)
  have eq: "worker_begin s w = ?r\<lparr>sch_workers := as @ Calling (task_submission_id ?t) # bs,
      sch_calls := sch_calls s @ [task_call ?t]\<rparr>"
    by (simp add: worker_begin_def assms Let_def set_worker_def ws task_call_def)
  have queue: "task_queue s = ?t # task_queue ?r"
    by (rule queue_after_take [OF assms(1,5)])
  show "sch_calls (worker_begin s w) @ map task_call (task_queue (worker_begin s w)) =
      sch_calls s @ map task_call (task_queue s)"
    by (simp add: eq queue) (simp add: task_queue_def)
  have "length (filter task_queued (sch_tasks s)) = Suc (length (filter task_queued (sch_tasks ?r)))"
    using arg_cong [OF queue, of length] by (simp add: task_queue_def)
  then show "turns_bound (worker_begin s w) < turns_bound s"
    unfolding eq turns_bound_def by (simp add: ws(1))
qed

text \<open>Every turn of a worker moves the system closer to rest, and while destruction has not begun the
  calls made and the queue together stay the same sequence.\<close>

lemma turn_progress:
  assumes "sched_ok s" and "worker_turn s s'"
  shows "turns_bound s' < turns_bound s" and "sch_stopping s' = sch_stopping s"
    and "\<not> sch_stopping s \<Longrightarrow>
           sch_calls s' @ map task_call (task_queue s') = sch_calls s @ map task_call (task_queue s)"
    and "sch_stopping s \<Longrightarrow> sch_calls s' = sch_calls s"
proof -
  obtain w where turn: "scheduler_worker_main s w = Some s'"
    using assms(2) by (rule worker_turnE)
  then have w: "w < length (sch_workers s)"
    by (simp add: scheduler_worker_main_def split: if_splits)
  consider (call) i where "sch_workers s ! w = Ready" "\<not> sch_stopping s" "find_queued_task s = Some i" "s' = worker_begin s w"
    | (block) thread where "sch_workers s ! w = Ready" "s' = set_worker s w thread" "thread \<in> {Waiting, Exited}"
    | (returned) submission_id where "sch_workers s ! w = Calling submission_id" "s' = worker_end s w submission_id"
    using turn w by (auto simp: scheduler_worker_main_def worker_begin_def split: AivmSchedulerThread.splits option.splits if_splits)
  then have "turns_bound s' < turns_bound s \<and> sch_stopping s' = sch_stopping s \<and>
      (\<not> sch_stopping s \<longrightarrow> sch_calls s' @ map task_call (task_queue s') = sch_calls s @ map task_call (task_queue s)) \<and>
      (sch_stopping s \<longrightarrow> sch_calls s' = sch_calls s)"
  proof cases
    case (call i)
    have "sch_stopping s' = sch_stopping s"
      by (simp add: call worker_begin_def Let_def set_worker_def)
    with worker_begin_calls_effect [OF assms(1) w call(1,2,3)] call show ?thesis
      by simp
  next
    case (block thread)
    obtain as bs where "sch_workers s = as @ Ready # bs" "w = length as"
      using w block(1) by (metis list_at)
    with block show ?thesis
      by (auto simp: set_worker_def turns_bound_def task_queue_def)
  next
    case (returned submission_id)
    note eff = worker_end_effect [OF assms(1) w returned(1), folded returned(2)]
    have "length (sch_workers s) = sch_active_limit s" "sch_active_limit s' = sch_active_limit s"
      "sch_calls s' = sch_calls s" "sch_stopping s' = sch_stopping s"
      using assms(1) by (auto simp: sched_ok_def returned(2) worker_end_def set_worker_def scheduler_wake_all_def
          split: option.split)
    moreover have "length (filter (\<lambda>w. w = Ready) (sch_workers s')) \<le> sch_active_limit s"
      using eff(3) calculation(1) by (metis length_filter_le)
    ultimately show ?thesis
      using eff(1) eff(2) [symmetric] by (simp add: turns_bound_def task_queue_def)
  qed
  then show "turns_bound s' < turns_bound s" and "sch_stopping s' = sch_stopping s"
    and "\<not> sch_stopping s \<Longrightarrow>
           sch_calls s' @ map task_call (task_queue s') = sch_calls s @ map task_call (task_queue s)"
    and "sch_stopping s \<Longrightarrow> sch_calls s' = sch_calls s"
    by blast+
qed

lemma turns_progress:
  assumes "(worker_turn ^^ n) s s'" and "sched_ok s"
  shows "sched_ok s' \<and> n + turns_bound s' \<le> turns_bound s \<and> sch_stopping s' = sch_stopping s \<and>
    (\<not> sch_stopping s \<longrightarrow> sch_calls s' @ map task_call (task_queue s') = sch_calls s @ map task_call (task_queue s)) \<and>
    (sch_stopping s \<longrightarrow> sch_calls s' = sch_calls s)"
  using assms
proof (induction n arbitrary: s')
  case (Suc n)
  then obtain t where t: "(worker_turn ^^ n) s t" "worker_turn t s'"
    by auto
  note ih = Suc.IH [OF t(1) Suc.prems(2)]
  with turn_ok [of t s'] turn_progress [of t s'] t(2) show ?case
    by (auto)
qed simp

section \<open>Rest\<close>

lemma turn_exists:
  assumes "w \<in> set (sch_workers s)" and "w = Ready \<or> w = Calling submission_id"
  shows "\<exists>s'. worker_turn s s'"
proof -
  obtain k where "k < length (sch_workers s)" "sch_workers s ! k = w"
    using assms(1) by (auto simp: in_set_conv_nth)
  with assms(2) have "\<exists>s'. scheduler_worker_main s k = Some s'"
    by (auto simp: scheduler_worker_main_def)
  then show ?thesis
    by (blast intro: worker_turn.turn)
qed

lemma calling_in_set: "submission_id \<in> set (calling ws) \<longleftrightarrow> Calling submission_id \<in> set ws"
  by (induction ws) (auto split: AivmSchedulerThread.splits)

lemma rest_threads:
  assumes "\<nexists>s'. worker_turn s s'"
  shows "set (sch_workers s) \<subseteq> {Waiting, Exited}" and "calling (sch_workers s) = []"
proof -
  have "w \<in> {Waiting, Exited}" if "w \<in> set (sch_workers s)" for w
    using turn_exists [OF that] assms by (cases w) auto
  then show sub: "set (sch_workers s) \<subseteq> {Waiting, Exited}"
    by blast
  then have "submission_id \<notin> set (calling (sch_workers s))" for submission_id
    by (auto simp: calling_in_set)
  then show "calling (sch_workers s) = []"
    by (metis list.set_intros(1) neq_Nil_conv)
qed

text \<open>At rest, with destruction not begun, every outstanding task is finished.\<close>

lemma rest_finished:
  assumes "sched_ok s" and "\<not> sch_stopping s" and "\<nexists>s'. worker_turn s s'"
  shows "task_queue s = []" and "\<forall>t \<in> set (sch_tasks s). task_occupied t \<longrightarrow> task_finished t"
proof -
  note rest = rest_threads [OF assms(3)]
  have "Exited \<notin> set (sch_workers s)" "sch_workers s \<noteq> []"
    using assms(1,2) by (auto simp: sched_ok_def)
  with rest(1) have "Waiting \<in> set (sch_workers s)"
    by (cases "sch_workers s") auto
  then have none: "filter task_queued (sch_tasks s) = []"
    using assms(1) by (simp add: sched_ok_def)
  then show "task_queue s = []"
    by (simp add: task_queue_def)
  have "filter task_running (sch_tasks s) = []"
    using assms(1) rest(2) by (auto simp: sched_ok_def)
  with none show "\<forall>t \<in> set (sch_tasks s). task_occupied t \<longrightarrow> task_finished t"
    by (auto simp: filter_empty_conv task_running_def task_queued_def task_finished_def)
      (meson AivmWorkerTaskStatus.exhaust)
qed

lemma await_finished:
  assumes "sched_ok s" and "\<forall>t \<in> set (sch_tasks s). task_occupied t \<longrightarrow> task_finished t"
    and "t \<in> set (sch_tasks s)" and "task_occupied t"
  shows "aivm_worker_scheduler_await (Some s) (task_submission_id t) True =
    Some (AIVM_WORKER_SCHEDULER_OK, Some (task_status t))"
  using find_task_unique [OF assms(1,3,4)] assms(2-4) by (auto simp: aivm_worker_scheduler_await_def)

text \<open>Turns can be taken until the workers are at rest.\<close>

lemma rest_reached:
  assumes "sched_ok s"
  shows "\<exists>n s'. (worker_turn ^^ n) s s' \<and> (\<nexists>s''. worker_turn s' s'')"
  using assms
proof (induction "turns_bound s" arbitrary: s rule: less_induct)
  case less
  show ?case
  proof (cases "\<exists>t. worker_turn s t")
    case True
    then obtain t where t: "worker_turn s t"
      by blast
    then obtain n s' where "(worker_turn ^^ n) t s'" "\<nexists>s''. worker_turn s' s''"
      using less.hyps [OF turn_progress(1) [OF less.prems t] turn_ok [OF less.prems t]] by blast
    with t have "(worker_turn ^^ Suc n) s s'"
      by (meson relpowp_Suc_I2)
    then show ?thesis
      using \<open>\<nexists>s''. worker_turn s' s''\<close> by blast
  next
    case False
    then show ?thesis
      by (intro exI [of _ 0] exI [of _ s]) simp
  qed
qed



section \<open>Admission\<close>

text \<open>The ids of the outstanding tasks, and admission by credit over them.\<close>

definition outstanding :: "AivmWorkerScheduler \<Rightarrow> u64 set" where
  "outstanding s = set (map task_submission_id (filter task_occupied (sch_tasks s)))"

definition credit_submit :: "nat \<Rightarrow> u64 set \<Rightarrow> u64 \<Rightarrow> AivmWorkerSchedulerStatus \<times> u64 set" where
  "credit_submit limit ids submission_id =
     (if limit \<le> card ids \<or> submission_id \<in> ids then (AIVM_WORKER_SCHEDULER_ERR_LIMIT, ids)
      else (AIVM_WORKER_SCHEDULER_OK, insert submission_id ids))"

lemma outstanding_card: "sched_ok s \<Longrightarrow> card (outstanding s) = sch_outstanding_count s"
  by (simp only: outstanding_def sched_ok_def distinct_card length_map)

lemma free_slot:
  assumes "sched_ok s" and "sch_outstanding_count s < sch_outstanding_limit s"
  shows "\<exists>i. find_index (\<lambda>t. \<not> task_occupied t) (take (sch_outstanding_limit s) (sch_tasks s)) = Some i \<and>
    i < length (sch_tasks s) \<and> \<not> task_occupied (sch_tasks s ! i)"
proof -
  have "filter task_occupied (sch_tasks s) \<noteq> sch_tasks s"
    using assms by (auto simp: sched_ok_def)
  then have "find_index (\<lambda>t. \<not> task_occupied t) (sch_tasks s) \<noteq> None"
    by (auto simp: find_index_None filter_id_conv)
  then obtain i where "find_index (\<lambda>t. \<not> task_occupied t) (sch_tasks s) = Some i"
    by auto
  with find_index_SomeD [OF this] assms(1) show ?thesis
    by (auto simp: sched_ok_def)
qed

lemma submit_refines_credit:
  assumes "sched_ok s" and "run \<noteq> 0"
  shows "\<exists>s'. aivm_worker_scheduler_submit (Some s) submission_id run context =
      (fst (credit_submit (sch_outstanding_limit s) (outstanding s) submission_id), Some s') \<and>
    outstanding s' = snd (credit_submit (sch_outstanding_limit s) (outstanding s) submission_id)"
proof (cases "sch_outstanding_limit s \<le> sch_outstanding_count s \<or> find_task s submission_id \<noteq> None")
  case True
  then show ?thesis
    using assms find_task_None [OF assms(1)]
    by (simp add: aivm_worker_scheduler_submit_def credit_submit_def outstanding_card) (simp add: outstanding_def)
next
  case False
  then obtain i where i: "find_index (\<lambda>t. \<not> task_occupied t) (take (sch_outstanding_limit s) (sch_tasks s)) = Some i"
    "i < length (sch_tasks s)" "\<not> task_occupied (sch_tasks s ! i)"
    using free_slot [OF assms(1)] by (auto simp: not_le)
  obtain us vs where ts: "sch_tasks s = us @ sch_tasks s ! i # vs" "\<And>y. (sch_tasks s)[i := y] = us @ y # vs"
    using list_at [OF i(2)] by metis
  have "outstanding s = set (map task_submission_id (filter task_occupied (us @ vs)))"
    unfolding outstanding_def by (subst ts(1)) (simp add: i(3))
  moreover have "submission_id \<notin> outstanding s"
    using False find_task_None [OF assms(1)] by (simp add: outstanding_def)
  moreover from this False have "credit_submit (sch_outstanding_limit s) (outstanding s) submission_id =
      (AIVM_WORKER_SCHEDULER_OK, insert submission_id (outstanding s))"
    by (simp add: credit_submit_def outstanding_card [OF assms(1)])
  ultimately show ?thesis
    using False assms(2) i(1)
    by (simp add: aivm_worker_scheduler_submit_def) (auto simp: outstanding_def scheduler_wake_all_def ts(2))
qed

lemma status_keeps_outstanding:
  assumes "i < length (sch_tasks s)"
  shows "outstanding (set_task_status s i st) = outstanding s"
proof -
  obtain us vs where ts: "sch_tasks s = us @ sch_tasks s ! i # vs"
    "\<And>st. sch_tasks (set_task_status s i st) = us @ (sch_tasks s ! i)\<lparr>task_status := st\<rparr> # vs"
    using set_task_status_split [OF assms] by metis
  show ?thesis
    unfolding outstanding_def ts(2) by (subst (2) ts(1)) simp
qed

lemma outstanding_other_fields [simp]:
  "outstanding (set_worker s w thread) = outstanding s"
  "outstanding (scheduler_wake_all s) = outstanding s"
  "outstanding (s\<lparr>sch_calls := c\<rparr>) = outstanding s"
  by (simp_all add: outstanding_def set_worker_def scheduler_wake_all_def)

lemma turn_keeps_credit:
  assumes "sched_ok s" and "worker_turn s s'"
  shows "outstanding s' = outstanding s \<and> sch_outstanding_limit s' = sch_outstanding_limit s"
proof -
  obtain w where turn: "scheduler_worker_main s w = Some s'"
    using assms(2) by (rule worker_turnE)
  have "i < length (sch_tasks s)" if "find_queued_task s = Some i" for i
    using find_queued_task_spec [OF assms(1)] that by simp
  then show ?thesis
    using turn find_task_Some(1) [OF assms(1)]
    by (auto simp: scheduler_worker_main_def worker_begin_def worker_end_def Let_def status_keeps_outstanding
        set_worker_def [THEN arg_cong, of sch_outstanding_limit]
        scheduler_wake_all_def [THEN arg_cong, of sch_outstanding_limit]
        split: if_splits AivmSchedulerThread.splits option.splits)
qed

lemma turns_keep_credit:
  assumes "worker_turn\<^sup>*\<^sup>* s s'" and "sched_ok s"
  shows "sched_ok s' \<and> outstanding s' = outstanding s \<and> sch_outstanding_limit s' = sch_outstanding_limit s"
  using assms by (induction rule: rtranclp_induct) (auto dest: turn_ok turn_keeps_credit)

lemma release_returns_credit:
  assumes "sched_ok s" and "aivm_worker_scheduler_release (Some s) submission_id = (st, Some s')"
  shows "outstanding s' = (if st = AIVM_WORKER_SCHEDULER_OK then outstanding s - {submission_id} else outstanding s)"
proof (cases "st = AIVM_WORKER_SCHEDULER_OK")
  case True
  then obtain i where i: "find_task s submission_id = Some i"
    and s': "s' = s\<lparr>sch_tasks := (sch_tasks s)[i :=
         (sch_tasks s ! i)\<lparr>task_occupied := False, task_run := 0, task_context := 0\<rparr>],
       sch_outstanding_count := sch_outstanding_count s - 1\<rparr>"
    using assms by (auto simp: aivm_worker_scheduler_release_def split: if_splits option.splits)
  note t = find_task_Some [OF assms(1) i]
  obtain us vs where ts: "sch_tasks s = us @ sch_tasks s ! i # vs" "\<And>y. (sch_tasks s)[i := y] = us @ y # vs"
    using list_at [OF t(1)] by metis
  have "distinct (map task_submission_id (filter task_occupied (us @ sch_tasks s ! i # vs)))"
    using assms(1) ts(1) by (simp add: sched_ok_def)
  moreover have "outstanding s = set (map task_submission_id (filter task_occupied (us @ sch_tasks s ! i # vs)))"
    unfolding outstanding_def using ts(1) by simp
  ultimately show ?thesis
    using True t(2,3) by (simp add: s' outstanding_def ts(2))
next
  case False
  then show ?thesis
    using assms by (auto simp: aivm_worker_scheduler_release_def split: if_splits option.splits)
qed

text \<open>C18 (refinement): admission is credit over the outstanding ids. A submission is accepted exactly
  when its id is not outstanding and the limit is not reached, and its answer does not depend on how
  far the workers have come; canceling returns no credit, only releasing does.\<close>

theorem admission_is_credit:
  assumes "sched_reachable s" and "run \<noteq> 0"
  shows "(\<forall>t. worker_turn\<^sup>*\<^sup>* s t \<longrightarrow>
       (\<exists>t'. aivm_worker_scheduler_submit (Some t) submission_id run context =
          (fst (credit_submit (sch_outstanding_limit s) (outstanding s) submission_id), Some t') \<and>
        outstanding t' = snd (credit_submit (sch_outstanding_limit s) (outstanding s) submission_id))) \<and>
     (\<forall>has_out st canceled t. aivm_worker_scheduler_cancel (Some s) submission_id has_out = (st, canceled, Some t) \<longrightarrow>
        outstanding t = outstanding s) \<and>
     (\<forall>st t. aivm_worker_scheduler_release (Some s) submission_id = (st, Some t) \<longrightarrow>
        outstanding t = (if st = AIVM_WORKER_SCHEDULER_OK then outstanding s - {submission_id} else outstanding s))"
proof (intro conjI allI impI)
  note ok = reachable_sched_ok [OF assms(1)]
  fix t
  assume "worker_turn\<^sup>*\<^sup>* s t"
  then show "\<exists>t'. aivm_worker_scheduler_submit (Some t) submission_id run context =
      (fst (credit_submit (sch_outstanding_limit s) (outstanding s) submission_id), Some t') \<and>
    outstanding t' = snd (credit_submit (sch_outstanding_limit s) (outstanding s) submission_id)"
    using turns_keep_credit [OF _ ok] submit_refines_credit [OF _ assms(2)] by metis
next
  note ok = reachable_sched_ok [OF assms(1)]
  fix has_out st canceled t
  assume "aivm_worker_scheduler_cancel (Some s) submission_id has_out = (st, canceled, Some t)"
  then show "outstanding t = outstanding s"
    using find_task_Some(1) [OF ok]
    by (auto simp: aivm_worker_scheduler_cancel_def status_keeps_outstanding split: if_splits option.splits)
next
  fix st t
  assume "aivm_worker_scheduler_release (Some s) submission_id = (st, Some t)"
  then show "outstanding t = (if st = AIVM_WORKER_SCHEDULER_OK then outstanding s - {submission_id} else outstanding s)"
    by (rule release_returns_credit [OF reachable_sched_ok [OF assms(1)]])
qed

text \<open>C29 (invariant): at every moment the outstanding count is the number of occupied slots and within
  its limit, outstanding tasks have different ids, and no more tasks run than there are workers.\<close>

theorem scheduler_limits_kept:
  assumes "sched_reachable s"
  shows "sch_outstanding_count s = length (filter task_occupied (sch_tasks s)) \<and>
    sch_outstanding_count s \<le> sch_outstanding_limit s \<and>
    distinct (map task_submission_id (filter task_occupied (sch_tasks s))) \<and>
    length (filter task_running (sch_tasks s)) \<le> sch_active_limit s"
proof -
  have ok: "sched_ok s"
    by (rule reachable_sched_ok [OF assms])
  have "length (filter task_running (sch_tasks s)) = length (calling (sch_workers s))"
    using ok by (metis length_map mset_eq_length sched_ok_def)
  also have "\<dots> \<le> length (sch_workers s)"
    by (rule calling_length)
  finally show ?thesis
    using ok by (simp add: sched_ok_def) (metis length_filter_le)
qed

section \<open>An example\<close>

text \<open>One worker and two slots; the owner submits task 7 and then task 3.\<close>

definition example_task :: "u64 \<Rightarrow> nat \<Rightarrow> AivmWorkerSchedulerTask" where
  "example_task submission_id run =
     \<lparr>task_submission_id = submission_id, task_run = run, task_context = 0,
      task_status = AIVM_WORKER_TASK_QUEUED, task_occupied = True\<rparr>"

definition example_scheduler :: "AivmWorkerSchedulerTask list \<Rightarrow> nat \<Rightarrow> AivmWorkerScheduler" where
  "example_scheduler tasks n =
     \<lparr>sch_active_limit = 1, sch_outstanding_limit = 2, sch_outstanding_count = n,
      sch_worker_count = 1, sch_stopping = False, sch_tasks = tasks, sch_workers = [Ready],
      sch_calls = []\<rparr>"

abbreviation example_two :: AivmWorkerScheduler where
  "example_two \<equiv> example_scheduler [example_task 7 100, example_task 3 200] 2"

lemma example_reachable: "sched_reachable example_two"
proof -
  have "aivm_worker_scheduler_create True True (\<lambda>_. True) 1 2 True =
      (AIVM_WORKER_SCHEDULER_OK, Some (example_scheduler [zero_task, zero_task] 0))"
    by (simp add: aivm_worker_scheduler_create_def example_scheduler_def numeral_2_eq_2)
  then have "sched_reachable (example_scheduler [zero_task, zero_task] 0)"
    by (rule sched_reachable.created)
  moreover have "aivm_worker_scheduler_submit (Some (example_scheduler [zero_task, zero_task] 0)) 7 100 0 =
      (AIVM_WORKER_SCHEDULER_OK, Some (example_scheduler [example_task 7 100, zero_task] 1))"
    by (simp add: aivm_worker_scheduler_submit_def example_scheduler_def find_task_def zero_task_def
        scheduler_wake_all_def example_task_def)
  moreover have "aivm_worker_scheduler_submit (Some (example_scheduler [example_task 7 100, zero_task] 1)) 3 200 0 =
      (AIVM_WORKER_SCHEDULER_OK, Some example_two)"
    by (simp add: aivm_worker_scheduler_submit_def example_scheduler_def find_task_def zero_task_def
        scheduler_wake_all_def example_task_def)
  ultimately show ?thesis
    by (meson owner_call.submit sched_reachable.owner)
qed

lemma example_queue: "task_queue example_two = [example_task 3 200, example_task 7 100]"
  by (simp add: task_queue_def example_scheduler_def example_task_def task_queued_def)



theorem admission_is_credit_witness:
  "fst (aivm_worker_scheduler_submit (Some example_two) 9 300 0) = AIVM_WORKER_SCHEDULER_ERR_LIMIT"
proof -
  have "fst (credit_submit (sch_outstanding_limit example_two) (outstanding example_two) 9) =
      AIVM_WORKER_SCHEDULER_ERR_LIMIT"
    using outstanding_card [OF reachable_sched_ok [OF example_reachable]]
    by (simp add: credit_submit_def example_scheduler_def)
  with admission_is_credit [OF example_reachable, of 300 9 0] show ?thesis
    by (metis fst_conv neq0_conv rtranclp.rtrancl_refl zero_less_numeral)
qed

theorem scheduler_limits_kept_witness:
  "sch_outstanding_count example_two = length (filter task_occupied (sch_tasks example_two)) \<and>
   length (filter task_running (sch_tasks example_two)) \<le> 1"
  using scheduler_limits_kept [OF example_reachable]
  by (simp add: example_scheduler_def [THEN arg_cong, of sch_active_limit])

end
