(* ===== verification/Remote_Channel.thy ===== *)
theory Remote_Channel
  imports Byte_Codec
begin

text \<open>
  The message codec of the remote channel, \<^verbatim>\<open>src/src/remote/aivm_remote_channel.c\<close>: six kinds
  of message, each a nine-byte header and a payload of little-endian fields and length-prefixed
  text. Reads of the input and writes to the output buffer go through a check that the C code does
  not make; \<open>CodecFault\<close> is an access outside the buffer or through a null pointer.
\<close>

section \<open>Types\<close>

datatype AivmRemoteMessageType =
    AIVM_REMOTE_MSG_HELLO | AIVM_REMOTE_MSG_WELCOME | AIVM_REMOTE_MSG_DENY
  | AIVM_REMOTE_MSG_CALL | AIVM_REMOTE_MSG_RESULT | AIVM_REMOTE_MSG_ERROR

fun message_type_code :: "AivmRemoteMessageType \<Rightarrow> u8" where
  "message_type_code AIVM_REMOTE_MSG_HELLO = 0x01"
| "message_type_code AIVM_REMOTE_MSG_WELCOME = 0x02"
| "message_type_code AIVM_REMOTE_MSG_DENY = 0x03"
| "message_type_code AIVM_REMOTE_MSG_CALL = 0x10"
| "message_type_code AIVM_REMOTE_MSG_RESULT = 0x11"
| "message_type_code AIVM_REMOTE_MSG_ERROR = 0x12"

datatype AivmRemoteCodecStatus =
    AIVM_REMOTE_CODEC_OK | AIVM_REMOTE_CODEC_ERR_NULL | AIVM_REMOTE_CODEC_ERR_SHORT
  | AIVM_REMOTE_CODEC_ERR_OVERFLOW | AIVM_REMOTE_CODEC_ERR_TYPE | AIVM_REMOTE_CODEC_ERR_FORMAT

definition AIVM_REMOTE_MAX_CAPS :: nat where "AIVM_REMOTE_MAX_CAPS = 16"
definition AIVM_REMOTE_MAX_TEXT :: nat where "AIVM_REMOTE_MAX_TEXT = 64"
definition AIVM_REMOTE_MAX_ERROR_TEXT :: nat where "AIVM_REMOTE_MAX_ERROR_TEXT = 128"
definition AIVM_REMOTE_HEADER_SIZE :: nat where "AIVM_REMOTE_HEADER_SIZE = 9"

lemmas remote_limits = AIVM_REMOTE_MAX_CAPS_def AIVM_REMOTE_MAX_TEXT_def
  AIVM_REMOTE_MAX_ERROR_TEXT_def AIVM_REMOTE_HEADER_SIZE_def

text \<open>Text arrays are their C strings. A capability array is the list of its entries below the count;
  a count beyond the array is a longer list.\<close>

record AivmRemoteHello =
  hello_proto_version :: u16
  hello_client_name :: string
  hello_requested_caps :: "string list"

record AivmRemoteWelcome =
  welcome_proto_version :: u16
  welcome_granted_caps :: "string list"

record AivmRemoteDeny =
  deny_error_code :: u32
  deny_message :: string

record AivmRemoteCall =
  call_cap :: string
  call_op :: string
  call_value :: int

record AivmRemoteResult =
  result_value :: int

record AivmRemoteError =
  error_error_code :: u32
  error_message :: string

record AivmRemoteFrameHeader =
  header_type :: u8
  header_id :: u32
  header_payload_length :: u32

datatype 'r codec = CodecOk 'r | CodecErr AivmRemoteCodecStatus | CodecFault

primrec bind_codec :: "'r codec \<Rightarrow> ('r \<Rightarrow> 's codec) \<Rightarrow> 's codec" where
  "bind_codec (CodecOk x) f = f x"
| "bind_codec (CodecErr s) f = CodecErr s"
| "bind_codec CodecFault f = CodecFault"

lemma bind_codec_Ok: "bind_codec r f = CodecOk y \<longleftrightarrow> (\<exists>x. r = CodecOk x \<and> f x = CodecOk y)"
  by (cases r) simp_all

section \<open>Writing\<close>

text \<open>The output buffer: its address is null or not, and it has a capacity either way. The payload
  written so far starts after the header, so the index of the source is the header size plus its
  length.\<close>

datatype out_buffer = Buffer (out_capacity: nat) | NullBuffer (out_capacity: nat)

definition out_null :: "out_buffer \<Rightarrow> bool" where
  "out_null out \<longleftrightarrow> (case out of Buffer _ \<Rightarrow> False | NullBuffer _ \<Rightarrow> True)"

definition out_index :: "bytes \<Rightarrow> nat" where
  "out_index payload = AIVM_REMOTE_HEADER_SIZE + length payload"

definition store :: "out_buffer \<Rightarrow> bytes \<Rightarrow> bytes \<Rightarrow> bytes codec" where
  "store out payload field =
     (if out_null out \<or> out_index payload + length field > out_capacity out then CodecFault
      else CodecOk (payload @ field))"

definition write_string :: "out_buffer \<Rightarrow> bytes \<Rightarrow> string \<Rightarrow> nat \<Rightarrow> bytes codec" where
  "write_string out payload str max_text =
     (if out_null out then CodecErr AIVM_REMOTE_CODEC_ERR_NULL
      else if length str > max_text \<or> length str > 65535 then CodecErr AIVM_REMOTE_CODEC_ERR_OVERFLOW
      else if out_index payload + 2 + length str > out_capacity out then CodecErr AIVM_REMOTE_CODEC_ERR_SHORT
      else
        bind_codec (store out payload (u16_bytes (of_nat (length str)))) (\<lambda>payload.
        if length str > 0 then store out payload (map of_char str) else CodecOk payload))"

primrec write_strings :: "out_buffer \<Rightarrow> bytes \<Rightarrow> string list \<Rightarrow> bytes codec" where
  "write_strings out payload [] = CodecOk payload"
| "write_strings out payload (str # strs) =
     bind_codec (write_string out payload str AIVM_REMOTE_MAX_TEXT) (\<lambda>payload. write_strings out payload strs)"

text \<open>The header is written last; the result is the whole frame.\<close>

definition write_header :: "AivmRemoteMessageType \<Rightarrow> u32 \<Rightarrow> u32 \<Rightarrow> out_buffer \<Rightarrow> bytes \<Rightarrow> bytes codec" where
  "write_header type frame_id payload_length out payload =
     (if out_null out then CodecErr AIVM_REMOTE_CODEC_ERR_NULL
      else if out_capacity out < AIVM_REMOTE_HEADER_SIZE then CodecErr AIVM_REMOTE_CODEC_ERR_SHORT
      else CodecOk (message_type_code type # u32_bytes frame_id @ u32_bytes payload_length @ payload))"

definition payload_size :: "bytes \<Rightarrow> u32" where
  "payload_size payload = of_nat (out_index payload - AIVM_REMOTE_HEADER_SIZE)"

definition aivm_remote_encode_hello :: "u32 \<Rightarrow> AivmRemoteHello option \<Rightarrow> out_buffer \<Rightarrow> bool \<Rightarrow> bytes codec" where
  "aivm_remote_encode_hello frame_id message out has_out_length =
     (case message of
        None \<Rightarrow> CodecErr AIVM_REMOTE_CODEC_ERR_NULL
      | Some m \<Rightarrow>
          if \<not> has_out_length then CodecErr AIVM_REMOTE_CODEC_ERR_NULL
          else if length (hello_requested_caps m) > AIVM_REMOTE_MAX_CAPS
          then CodecErr AIVM_REMOTE_CODEC_ERR_OVERFLOW
          else
            bind_codec (write_string out [] (hello_client_name m) AIVM_REMOTE_MAX_TEXT) (\<lambda>payload.
            if out_index payload + 2 + 4 > out_capacity out then CodecErr AIVM_REMOTE_CODEC_ERR_SHORT
            else
              bind_codec (store out payload (u16_bytes (hello_proto_version m))) (\<lambda>payload.
              bind_codec (store out payload (u32_bytes (of_nat (length (hello_requested_caps m))))) (\<lambda>payload.
              bind_codec (write_strings out payload (hello_requested_caps m)) (\<lambda>payload.
              write_header AIVM_REMOTE_MSG_HELLO frame_id (payload_size payload) out payload)))))"

definition aivm_remote_encode_welcome :: "u32 \<Rightarrow> AivmRemoteWelcome option \<Rightarrow> out_buffer \<Rightarrow> bool \<Rightarrow> bytes codec" where
  "aivm_remote_encode_welcome frame_id message out has_out_length =
     (case message of
        None \<Rightarrow> CodecErr AIVM_REMOTE_CODEC_ERR_NULL
      | Some m \<Rightarrow>
          if \<not> has_out_length then CodecErr AIVM_REMOTE_CODEC_ERR_NULL
          else if length (welcome_granted_caps m) > AIVM_REMOTE_MAX_CAPS
          then CodecErr AIVM_REMOTE_CODEC_ERR_OVERFLOW
          else if out_index [] + 2 + 4 > out_capacity out then CodecErr AIVM_REMOTE_CODEC_ERR_SHORT
          else
            bind_codec (store out [] (u16_bytes (welcome_proto_version m))) (\<lambda>payload.
            bind_codec (store out payload (u32_bytes (of_nat (length (welcome_granted_caps m))))) (\<lambda>payload.
            bind_codec (write_strings out payload (welcome_granted_caps m)) (\<lambda>payload.
            write_header AIVM_REMOTE_MSG_WELCOME frame_id (payload_size payload) out payload))))"

text \<open>DENY and ERROR have the same layout: a code and a text.\<close>

definition encode_code_text :: "AivmRemoteMessageType \<Rightarrow> u32 \<Rightarrow> u32 \<Rightarrow> string \<Rightarrow> out_buffer \<Rightarrow> bytes codec" where
  "encode_code_text type frame_id code str out =
     (if out_index [] + 4 > out_capacity out then CodecErr AIVM_REMOTE_CODEC_ERR_SHORT
      else
        bind_codec (store out [] (u32_bytes code)) (\<lambda>payload.
        bind_codec (write_string out payload str AIVM_REMOTE_MAX_ERROR_TEXT) (\<lambda>payload.
        write_header type frame_id (payload_size payload) out payload)))"

definition aivm_remote_encode_deny :: "u32 \<Rightarrow> AivmRemoteDeny option \<Rightarrow> out_buffer \<Rightarrow> bool \<Rightarrow> bytes codec" where
  "aivm_remote_encode_deny frame_id message out has_out_length =
     (case message of
        None \<Rightarrow> CodecErr AIVM_REMOTE_CODEC_ERR_NULL
      | Some m \<Rightarrow>
          if \<not> has_out_length then CodecErr AIVM_REMOTE_CODEC_ERR_NULL
          else encode_code_text AIVM_REMOTE_MSG_DENY frame_id (deny_error_code m) (deny_message m) out)"

definition aivm_remote_encode_call :: "u32 \<Rightarrow> AivmRemoteCall option \<Rightarrow> out_buffer \<Rightarrow> bool \<Rightarrow> bytes codec" where
  "aivm_remote_encode_call frame_id message out has_out_length =
     (case message of
        None \<Rightarrow> CodecErr AIVM_REMOTE_CODEC_ERR_NULL
      | Some m \<Rightarrow>
          if \<not> has_out_length then CodecErr AIVM_REMOTE_CODEC_ERR_NULL
          else
            bind_codec (write_string out [] (call_cap m) AIVM_REMOTE_MAX_TEXT) (\<lambda>payload.
            bind_codec (write_string out payload (call_op m) AIVM_REMOTE_MAX_TEXT) (\<lambda>payload.
            if out_index payload + 8 > out_capacity out then CodecErr AIVM_REMOTE_CODEC_ERR_SHORT
            else
              bind_codec (store out payload (u64_bytes (of_int (call_value m)))) (\<lambda>payload.
              write_header AIVM_REMOTE_MSG_CALL frame_id (payload_size payload) out payload))))"

definition aivm_remote_encode_result :: "u32 \<Rightarrow> AivmRemoteResult option \<Rightarrow> out_buffer \<Rightarrow> bool \<Rightarrow> bytes codec" where
  "aivm_remote_encode_result frame_id message out has_out_length =
     (case message of
        None \<Rightarrow> CodecErr AIVM_REMOTE_CODEC_ERR_NULL
      | Some m \<Rightarrow>
          if out_null out \<or> \<not> has_out_length then CodecErr AIVM_REMOTE_CODEC_ERR_NULL
          else if out_capacity out < AIVM_REMOTE_HEADER_SIZE + 8 then CodecErr AIVM_REMOTE_CODEC_ERR_SHORT
          else
            bind_codec (store out [] (u64_bytes (of_int (result_value m)))) (\<lambda>payload.
            write_header AIVM_REMOTE_MSG_RESULT frame_id 8 out payload))"

definition aivm_remote_encode_error :: "u32 \<Rightarrow> AivmRemoteError option \<Rightarrow> out_buffer \<Rightarrow> bool \<Rightarrow> bytes codec" where
  "aivm_remote_encode_error frame_id message out has_out_length =
     (case message of
        None \<Rightarrow> CodecErr AIVM_REMOTE_CODEC_ERR_NULL
      | Some m \<Rightarrow>
          if \<not> has_out_length then CodecErr AIVM_REMOTE_CODEC_ERR_NULL
          else encode_code_text AIVM_REMOTE_MSG_ERROR frame_id (error_error_code m) (error_message m) out)"

section \<open>Reading\<close>

definition fetch :: "(bytes \<Rightarrow> nat \<Rightarrow> 'r) \<Rightarrow> nat \<Rightarrow> bytes \<Rightarrow> nat \<Rightarrow> 'r codec" where
  "fetch reader n bs index = (if index + n \<le> length bs then CodecOk (reader bs index) else CodecFault)"

text \<open>The C string in a text array of \<open>capacity\<close> characters after copying \<open>data\<close> and a zero into
  it.\<close>

definition store_text :: "nat \<Rightarrow> bytes \<Rightarrow> string codec" where
  "store_text capacity data =
     (if length data + 1 > capacity then CodecFault
      else CodecOk (takeWhile (\<lambda>c. c \<noteq> CHR 0x00) (map char_of_byte data)))"

definition read_string :: "bytes \<Rightarrow> nat \<Rightarrow> nat \<Rightarrow> nat \<Rightarrow> (string \<times> nat) codec" where
  "read_string bs index capacity max_text =
     (if capacity = 0 then CodecErr AIVM_REMOTE_CODEC_ERR_OVERFLOW
      else if index + 2 > length bs then CodecErr AIVM_REMOTE_CODEC_ERR_SHORT
      else
        bind_codec (fetch read_u16_le 2 bs index) (\<lambda>len16.
        let len = unat len16; index = index + 2 in
        if len > max_text \<or> len + 1 > capacity then CodecErr AIVM_REMOTE_CODEC_ERR_OVERFLOW
        else if index + len > length bs then CodecErr AIVM_REMOTE_CODEC_ERR_SHORT
        else
          bind_codec (if len > 0 then fetch (\<lambda>bs i. take len (drop i bs)) len bs index else CodecOk []) (\<lambda>data.
          bind_codec (store_text capacity data) (\<lambda>str. CodecOk (str, index + len)))))"

primrec read_strings :: "nat \<Rightarrow> bytes \<Rightarrow> nat \<Rightarrow> (string list \<times> nat) codec" where
  "read_strings 0 bs index = CodecOk ([], index)"
| "read_strings (Suc n) bs index =
     bind_codec (read_string bs index (AIVM_REMOTE_MAX_TEXT + 1) AIVM_REMOTE_MAX_TEXT) (\<lambda>r.
     bind_codec (read_strings n bs (snd r)) (\<lambda>rest. CodecOk (fst r # fst rest, snd rest)))"

definition read_header :: "bytes option \<Rightarrow> AivmRemoteFrameHeader codec" where
  "read_header input =
     (case input of
        None \<Rightarrow> CodecErr AIVM_REMOTE_CODEC_ERR_NULL
      | Some bs \<Rightarrow>
          if length bs < AIVM_REMOTE_HEADER_SIZE then CodecErr AIVM_REMOTE_CODEC_ERR_SHORT
          else
            bind_codec (fetch (!) 1 bs 0) (\<lambda>type.
            bind_codec (fetch read_u32_le 4 bs 1) (\<lambda>frame_id.
            bind_codec (fetch read_u32_le 4 bs 5) (\<lambda>payload_length.
            if unat payload_length + AIVM_REMOTE_HEADER_SIZE \<noteq> length bs
            then CodecErr AIVM_REMOTE_CODEC_ERR_FORMAT
            else CodecOk \<lparr>header_type = type, header_id = frame_id, header_payload_length = payload_length\<rparr>))))"

definition check_type :: "AivmRemoteFrameHeader \<Rightarrow> AivmRemoteMessageType \<Rightarrow> unit codec" where
  "check_type header expected =
     (if header_type header \<noteq> message_type_code expected then CodecErr AIVM_REMOTE_CODEC_ERR_TYPE
      else CodecOk ())"

text \<open>What every decoder starts with: the null checks, the header and its type.\<close>

definition decode_start :: "bytes option \<Rightarrow> bool \<Rightarrow> AivmRemoteMessageType \<Rightarrow> (bytes \<times> u32) codec" where
  "decode_start input has_out expected =
     (if \<not> has_out then CodecErr AIVM_REMOTE_CODEC_ERR_NULL
      else
        bind_codec (read_header input) (\<lambda>header.
        bind_codec (check_type header expected) (\<lambda>_.
        CodecOk (case input of None \<Rightarrow> [] | Some bs \<Rightarrow> bs, header_id header))))"

definition decode_end :: "bytes \<Rightarrow> nat \<Rightarrow> 'r \<Rightarrow> 'r codec" where
  "decode_end bs index r = (if index \<noteq> length bs then CodecErr AIVM_REMOTE_CODEC_ERR_FORMAT else CodecOk r)"

definition aivm_remote_decode_hello :: "bytes option \<Rightarrow> bool \<Rightarrow> (u32 \<times> AivmRemoteHello) codec" where
  "aivm_remote_decode_hello input has_out =
     bind_codec (decode_start input has_out AIVM_REMOTE_MSG_HELLO) (\<lambda>(bs, frame_id).
     bind_codec (read_string bs AIVM_REMOTE_HEADER_SIZE (AIVM_REMOTE_MAX_TEXT + 1) AIVM_REMOTE_MAX_TEXT)
       (\<lambda>(client_name, index).
     if index + 2 + 4 > length bs then CodecErr AIVM_REMOTE_CODEC_ERR_SHORT
     else
       bind_codec (fetch read_u16_le 2 bs index) (\<lambda>proto_version.
       bind_codec (fetch read_u32_le 4 bs (index + 2)) (\<lambda>caps_count.
       if unat caps_count > AIVM_REMOTE_MAX_CAPS then CodecErr AIVM_REMOTE_CODEC_ERR_OVERFLOW
       else
         bind_codec (read_strings (unat caps_count) bs (index + 2 + 4)) (\<lambda>(caps, index).
         decode_end bs index
           (frame_id, \<lparr>hello_proto_version = proto_version, hello_client_name = client_name,
             hello_requested_caps = caps\<rparr>))))))"

definition aivm_remote_decode_welcome :: "bytes option \<Rightarrow> bool \<Rightarrow> (u32 \<times> AivmRemoteWelcome) codec" where
  "aivm_remote_decode_welcome input has_out =
     bind_codec (decode_start input has_out AIVM_REMOTE_MSG_WELCOME) (\<lambda>(bs, frame_id).
     let index = AIVM_REMOTE_HEADER_SIZE in
     if index + 2 + 4 > length bs then CodecErr AIVM_REMOTE_CODEC_ERR_SHORT
     else
       bind_codec (fetch read_u16_le 2 bs index) (\<lambda>proto_version.
       bind_codec (fetch read_u32_le 4 bs (index + 2)) (\<lambda>caps_count.
       if unat caps_count > AIVM_REMOTE_MAX_CAPS then CodecErr AIVM_REMOTE_CODEC_ERR_OVERFLOW
       else
         bind_codec (read_strings (unat caps_count) bs (index + 2 + 4)) (\<lambda>(caps, index).
         decode_end bs index
           (frame_id, \<lparr>welcome_proto_version = proto_version, welcome_granted_caps = caps\<rparr>)))))"

definition decode_code_text :: "AivmRemoteMessageType \<Rightarrow> bytes option \<Rightarrow> bool \<Rightarrow> (u32 \<times> u32 \<times> string) codec" where
  "decode_code_text type input has_out =
     bind_codec (decode_start input has_out type) (\<lambda>(bs, frame_id).
     let index = AIVM_REMOTE_HEADER_SIZE in
     if index + 4 > length bs then CodecErr AIVM_REMOTE_CODEC_ERR_SHORT
     else
       bind_codec (fetch read_u32_le 4 bs index) (\<lambda>error_code.
       bind_codec (read_string bs (index + 4) (AIVM_REMOTE_MAX_ERROR_TEXT + 1) AIVM_REMOTE_MAX_ERROR_TEXT)
         (\<lambda>(str, index).
       decode_end bs index (frame_id, error_code, str))))"

definition aivm_remote_decode_deny :: "bytes option \<Rightarrow> bool \<Rightarrow> (u32 \<times> AivmRemoteDeny) codec" where
  "aivm_remote_decode_deny input has_out =
     bind_codec (decode_code_text AIVM_REMOTE_MSG_DENY input has_out) (\<lambda>(frame_id, error_code, str).
     CodecOk (frame_id, \<lparr>deny_error_code = error_code, deny_message = str\<rparr>))"

definition aivm_remote_decode_call :: "bytes option \<Rightarrow> bool \<Rightarrow> (u32 \<times> AivmRemoteCall) codec" where
  "aivm_remote_decode_call input has_out =
     bind_codec (decode_start input has_out AIVM_REMOTE_MSG_CALL) (\<lambda>(bs, frame_id).
     bind_codec (read_string bs AIVM_REMOTE_HEADER_SIZE (AIVM_REMOTE_MAX_TEXT + 1) AIVM_REMOTE_MAX_TEXT)
       (\<lambda>(cap, index).
     bind_codec (read_string bs index (AIVM_REMOTE_MAX_TEXT + 1) AIVM_REMOTE_MAX_TEXT) (\<lambda>(op, index).
     if index + 8 \<noteq> length bs then CodecErr AIVM_REMOTE_CODEC_ERR_FORMAT
     else
       bind_codec (fetch read_i64_le 8 bs index) (\<lambda>v.
       CodecOk (frame_id, \<lparr>call_cap = cap, call_op = op, call_value = v\<rparr>)))))"

definition aivm_remote_decode_result :: "bytes option \<Rightarrow> bool \<Rightarrow> (u32 \<times> AivmRemoteResult) codec" where
  "aivm_remote_decode_result input has_out =
     bind_codec (decode_start input has_out AIVM_REMOTE_MSG_RESULT) (\<lambda>(bs, frame_id).
     if length bs \<noteq> AIVM_REMOTE_HEADER_SIZE + 8 then CodecErr AIVM_REMOTE_CODEC_ERR_FORMAT
     else
       bind_codec (fetch read_i64_le 8 bs AIVM_REMOTE_HEADER_SIZE) (\<lambda>v.
       CodecOk (frame_id, \<lparr>result_value = v\<rparr>)))"

definition aivm_remote_decode_error :: "bytes option \<Rightarrow> bool \<Rightarrow> (u32 \<times> AivmRemoteError) codec" where
  "aivm_remote_decode_error input has_out =
     bind_codec (decode_code_text AIVM_REMOTE_MSG_ERROR input has_out) (\<lambda>(frame_id, error_code, str).
     CodecOk (frame_id, \<lparr>error_error_code = error_code, error_message = str\<rparr>))"

section \<open>Memory safety\<close>

definition codec_safe :: "'r codec \<Rightarrow> bool" where
  "codec_safe r \<longleftrightarrow> r \<noteq> CodecFault"

lemma codec_safe_simps [simp]: "codec_safe (CodecOk x)" "codec_safe (CodecErr st)" "\<not> codec_safe CodecFault"
  by (simp_all add: codec_safe_def)

lemma codec_safe_bind [intro]:
  "codec_safe r \<Longrightarrow> (\<And>x. r = CodecOk x \<Longrightarrow> codec_safe (f x)) \<Longrightarrow> codec_safe (bind_codec r f)"
  by (cases r) simp_all

lemma fetch_safe: "index + n \<le> length bs \<Longrightarrow> codec_safe (fetch reader n bs index)"
  by (simp add: fetch_def)

lemma fetch_Ok: "fetch reader n bs index = CodecOk x \<Longrightarrow> x = reader bs index"
  by (simp add: fetch_def split: if_splits)

lemma read_string_safe: "codec_safe (read_string bs index capacity max_text)"
  by (auto simp: read_string_def Let_def store_text_def intro!: codec_safe_bind fetch_safe dest!: fetch_Ok split: if_splits)

lemma read_strings_safe: "codec_safe (read_strings n bs index)"
  by (induction n arbitrary: index) (auto intro!: codec_safe_bind read_string_safe)

lemma decode_start_safe: "codec_safe (decode_start input has_out expected)"
  by (auto simp: decode_start_def read_header_def check_type_def AIVM_REMOTE_HEADER_SIZE_def
      intro!: codec_safe_bind fetch_safe split: option.split)

lemma store_safe:
  "out_null out = False \<Longrightarrow> out_index payload + length field \<le> out_capacity out \<Longrightarrow>
   codec_safe (store out payload field)"
  by (simp add: store_def)

lemma store_Ok: "store out payload field = CodecOk p \<Longrightarrow> p = payload @ field"
  by (simp add: store_def split: if_splits)

lemma write_string_safe: "codec_safe (write_string out payload str max_text)"
  by (auto simp: write_string_def out_index_def intro!: codec_safe_bind store_safe dest!: store_Ok)

lemma write_strings_safe: "codec_safe (write_strings out payload strs)"
  by (induction strs arbitrary: payload) (auto intro!: codec_safe_bind write_string_safe)

lemma write_header_safe: "codec_safe (write_header type frame_id n out payload)"
  by (simp add: write_header_def)

lemmas codec_safety = read_string_safe read_strings_safe decode_start_safe write_string_safe write_strings_safe
  write_header_safe fetch_safe store_safe

lemma decode_code_text_safe: "codec_safe (decode_code_text type input has_out)"
  unfolding decode_code_text_def
  by (auto simp: Let_def decode_end_def intro!: codec_safe_bind codec_safety)


text \<open>The encoders write within a buffer that is there. Through a null pointer WELCOME, DENY and ERROR
  are written before the address is checked.\<close>

lemma encoders_safe:
  "codec_safe (aivm_remote_encode_hello frame_id h out has_out)"
  "codec_safe (aivm_remote_encode_call frame_id c out has_out)"
  "codec_safe (aivm_remote_encode_result frame_id r out has_out)"
  "\<not> out_null out \<Longrightarrow> codec_safe (aivm_remote_encode_welcome frame_id w out has_out)"
  "\<not> out_null out \<Longrightarrow> codec_safe (aivm_remote_encode_deny frame_id d out has_out)"
  "\<not> out_null out \<Longrightarrow> codec_safe (aivm_remote_encode_error frame_id e out has_out)"
proof -
  have null: "write_string out p s n = CodecOk q \<Longrightarrow> \<not> out_null out" for p s n q
    by (simp add: write_string_def split: if_splits)
  show "codec_safe (aivm_remote_encode_hello frame_id h out has_out)"
    by (auto simp: aivm_remote_encode_hello_def out_index_def dest: null dest!: store_Ok split: option.split
        intro!: codec_safe_bind codec_safety)
  show "codec_safe (aivm_remote_encode_call frame_id c out has_out)"
    by (auto simp: aivm_remote_encode_call_def dest: null split: option.split intro!: codec_safe_bind codec_safety)
  show "codec_safe (aivm_remote_encode_result frame_id r out has_out)"
    by (auto simp: aivm_remote_encode_result_def out_index_def split: option.split
        intro!: codec_safe_bind codec_safety)
  assume "\<not> out_null out"
  then show "codec_safe (aivm_remote_encode_welcome frame_id w out has_out)"
    "codec_safe (aivm_remote_encode_deny frame_id d out has_out)"
    "codec_safe (aivm_remote_encode_error frame_id e out has_out)"
    by (auto simp: aivm_remote_encode_welcome_def aivm_remote_encode_deny_def aivm_remote_encode_error_def
        encode_code_text_def out_index_def dest!: store_Ok split: option.split intro!: codec_safe_bind codec_safety)
qed

text \<open>Encoding WELCOME, DENY or ERROR into a null buffer with a nonzero capacity writes
  through the null pointer, where HELLO, CALL and RESULT report the null pointer.\<close>

theorem null_buffer_written:
  assumes "capacity \<ge> 15" and "length (welcome_granted_caps w) \<le> AIVM_REMOTE_MAX_CAPS"
    and "length (hello_requested_caps h) \<le> AIVM_REMOTE_MAX_CAPS"
  shows "aivm_remote_encode_welcome frame_id (Some w) (NullBuffer capacity) True = CodecFault \<and>
    aivm_remote_encode_deny frame_id (Some d) (NullBuffer capacity) True = CodecFault \<and>
    aivm_remote_encode_error frame_id (Some e) (NullBuffer capacity) True = CodecFault \<and>
    aivm_remote_encode_hello frame_id (Some h) (NullBuffer capacity) True = CodecErr AIVM_REMOTE_CODEC_ERR_NULL \<and>
    aivm_remote_encode_call frame_id (Some c) (NullBuffer capacity) True = CodecErr AIVM_REMOTE_CODEC_ERR_NULL \<and>
    aivm_remote_encode_result frame_id (Some r) (NullBuffer capacity) True = CodecErr AIVM_REMOTE_CODEC_ERR_NULL"
  using assms
  by (simp add: aivm_remote_encode_welcome_def aivm_remote_encode_deny_def aivm_remote_encode_error_def
      aivm_remote_encode_hello_def aivm_remote_encode_call_def aivm_remote_encode_result_def encode_code_text_def
      write_string_def store_def out_null_def out_index_def AIVM_REMOTE_HEADER_SIZE_def)

theorem null_buffer_written_witness:
  "aivm_remote_encode_welcome 1 (Some \<lparr>welcome_proto_version = 1, welcome_granted_caps = []\<rparr>) (NullBuffer 64) True =
   CodecFault"
  using null_buffer_written [of 64 "\<lparr>welcome_proto_version = 1, welcome_granted_caps = []\<rparr>"
      "\<lparr>hello_proto_version = 1, hello_client_name = [], hello_requested_caps = []\<rparr>"]
  by (simp add: AIVM_REMOTE_MAX_CAPS_def)

section \<open>Round trips\<close>

text \<open>Text the codec can carry: within the limit and without a zero character.\<close>

definition text_ok :: "nat \<Rightarrow> string \<Rightarrow> bool" where
  "text_ok max_text str \<longleftrightarrow> length str \<le> max_text \<and> CHR 0x00 \<notin> set str"

definition string_bytes :: "string \<Rightarrow> bytes" where
  "string_bytes str = u16_bytes (of_nat (length str)) @ map of_char str"

lemma length_string_bytes [simp]: "length (string_bytes str) = 2 + length str"
  by (simp add: string_bytes_def)

lemma out_index_append [simp]: "out_index (p @ q) = out_index p + length q"
  by (simp add: out_index_def)

lemma write_string_spec:
  assumes "text_ok max_text str" and "max_text \<le> 65535"
  shows "write_string (Buffer capacity) payload str max_text =
    (if out_index payload + length (string_bytes str) \<le> capacity then CodecOk (payload @ string_bytes str)
     else CodecErr AIVM_REMOTE_CODEC_ERR_SHORT)"
  using assms by (simp add: write_string_def text_ok_def out_null_def store_def string_bytes_def)

lemma write_strings_spec:
  assumes "\<forall>str \<in> set strs. text_ok AIVM_REMOTE_MAX_TEXT str" and "out_index payload \<le> capacity"
  shows "write_strings (Buffer capacity) payload strs =
    (if out_index payload + length (concat (map string_bytes strs)) \<le> capacity
     then CodecOk (payload @ concat (map string_bytes strs))
     else CodecErr AIVM_REMOTE_CODEC_ERR_SHORT)"
  using assms
  by (induction strs arbitrary: payload)
    (simp_all add: write_string_spec AIVM_REMOTE_MAX_TEXT_def del: length_concat)

text \<open>The frame of a payload.\<close>

definition frame :: "AivmRemoteMessageType \<Rightarrow> u32 \<Rightarrow> bytes \<Rightarrow> bytes" where
  "frame type frame_id payload =
     message_type_code type # u32_bytes frame_id @ u32_bytes (of_nat (length payload)) @ payload"

lemma length_frame: "length (frame type frame_id payload) = AIVM_REMOTE_HEADER_SIZE + length payload"
  by (simp add: frame_def AIVM_REMOTE_HEADER_SIZE_def)

lemma drop_header: "drop AIVM_REMOTE_HEADER_SIZE (frame type frame_id payload) = payload"
  by (simp add: frame_def AIVM_REMOTE_HEADER_SIZE_def)

lemma write_header_frame:
  "AIVM_REMOTE_HEADER_SIZE \<le> capacity \<Longrightarrow>
   write_header type frame_id (payload_size payload) (Buffer capacity) payload = CodecOk (frame type frame_id payload)"
  by (simp add: write_header_def out_null_def frame_def payload_size_def out_index_def)

lemma message_type_code_inject [simp]: "message_type_code s = message_type_code t \<longleftrightarrow> s = t"
  by (cases s; cases t) simp_all

lemma decode_start_frame:
  assumes "length payload < 2 ^ 32"
  shows "decode_start (Some (frame type frame_id payload)) True expected =
    (if type = expected then CodecOk (frame type frame_id payload, frame_id)
     else CodecErr AIVM_REMOTE_CODEC_ERR_TYPE)"
proof -
  let ?bs = "frame type frame_id payload"
  have "drop 1 ?bs = u32_bytes frame_id @ u32_bytes (of_nat (length payload)) @ payload"
    by (simp add: frame_def)
  note f = read_u32_at [OF this]
  have "drop 5 ?bs = u32_bytes (of_nat (length payload)) @ payload"
    using f(3) by simp
  note g = read_u32_at [OF this]
  have "unat (of_nat (length payload) :: u32) = length payload"
    using assms by (simp add: unat_of_nat_small)
  with f(1) g(1) show ?thesis
    by (simp add: decode_start_def read_header_def fetch_def length_frame AIVM_REMOTE_HEADER_SIZE_def
        check_type_def) (simp add: frame_def)
qed

lemma read_string_at:
  assumes "drop index bs = string_bytes str @ rest" and "text_ok max_text str" and "max_text \<le> 65535"
  shows "read_string bs index (max_text + 1) max_text = CodecOk (str, index + length (string_bytes str))"
    and "drop (index + length (string_bytes str)) bs = rest"
    and "index + length (string_bytes str) \<le> length bs"
proof -
  have at: "drop index bs = u16_bytes (of_nat (length str)) @ map of_char str @ rest"
    using assms(1) by (simp add: string_bytes_def)
  note f = read_u16_at [OF at]
  have len: "length str \<le> max_text" and nz: "CHR 0x00 \<notin> set str"
    using assms(2) by (simp_all add: text_ok_def)
  have u: "unat (of_nat (length str) :: u16) = length str"
    using len assms(3) by (intro unat_of_nat_small) simp
  have ne: "string_bytes str \<noteq> []"
    by (simp add: string_bytes_def u16_bytes_def)
  show le: "index + length (string_bytes str) \<le> length bs"
    and "drop (index + length (string_bytes str)) bs = rest"
    using field_at(1,2) [OF assms(1) ne] by simp_all
  have take: "take (length str) (drop (index + 2) bs) = map of_char str"
    using f(3) by simp
  have chars: "map char_of_byte (map of_char str) = str"
    by (simp add: comp_def)
  have whole: "takeWhile (\<lambda>c. c \<noteq> CHR 0x00) str = str"
    using nz by (auto simp: takeWhile_eq_all_conv)
  show "read_string bs index (max_text + 1) max_text = CodecOk (str, index + length (string_bytes str))"
    using le len f(1) take u chars whole
    by (cases "str = []") (simp_all add: read_string_def fetch_def Let_def store_text_def)
qed

lemma read_strings_at:
  assumes "drop index bs = concat (map string_bytes strs) @ rest" and "\<forall>str \<in> set strs. text_ok AIVM_REMOTE_MAX_TEXT str"
  shows "read_strings (length strs) bs index = CodecOk (strs, index + length (concat (map string_bytes strs)))"
  using assms
proof (induction strs arbitrary: index)
  case (Cons str strs)
  then have at: "drop index bs = string_bytes str @ concat (map string_bytes strs) @ rest"
    and ok: "text_ok AIVM_REMOTE_MAX_TEXT str"
    by simp_all
  note r = read_string_at [OF at ok]
  have "AIVM_REMOTE_MAX_TEXT \<le> 65535"
    by (simp add: AIVM_REMOTE_MAX_TEXT_def)
  then show ?case
    using r(1,2) Cons.IH [of "index + length (string_bytes str)"] Cons.prems(2) by (simp add: add.assoc)
qed simp

text \<open>The payload of each message, and the messages the codec can carry.\<close>

definition hello_payload :: "AivmRemoteHello \<Rightarrow> bytes" where
  "hello_payload m = string_bytes (hello_client_name m) @ u16_bytes (hello_proto_version m) @
     u32_bytes (of_nat (length (hello_requested_caps m))) @ concat (map string_bytes (hello_requested_caps m))"

definition welcome_payload :: "AivmRemoteWelcome \<Rightarrow> bytes" where
  "welcome_payload m = u16_bytes (welcome_proto_version m) @
     u32_bytes (of_nat (length (welcome_granted_caps m))) @ concat (map string_bytes (welcome_granted_caps m))"

definition code_text_payload :: "u32 \<Rightarrow> string \<Rightarrow> bytes" where
  "code_text_payload code str = u32_bytes code @ string_bytes str"

definition call_payload :: "AivmRemoteCall \<Rightarrow> bytes" where
  "call_payload m = string_bytes (call_cap m) @ string_bytes (call_op m) @ u64_bytes (of_int (call_value m))"

definition caps_ok :: "string list \<Rightarrow> bool" where
  "caps_ok caps \<longleftrightarrow> length caps \<le> AIVM_REMOTE_MAX_CAPS \<and> (\<forall>cap \<in> set caps. text_ok AIVM_REMOTE_MAX_TEXT cap)"

definition hello_ok :: "AivmRemoteHello \<Rightarrow> bool" where
  "hello_ok m \<longleftrightarrow> text_ok AIVM_REMOTE_MAX_TEXT (hello_client_name m) \<and> caps_ok (hello_requested_caps m)"

definition call_ok :: "AivmRemoteCall \<Rightarrow> bool" where
  "call_ok m \<longleftrightarrow> text_ok AIVM_REMOTE_MAX_TEXT (call_cap m) \<and> text_ok AIVM_REMOTE_MAX_TEXT (call_op m) \<and>
     in_i64 (call_value m)"

text \<open>What an encoder produces for a payload.\<close>

definition encoded :: "AivmRemoteMessageType \<Rightarrow> u32 \<Rightarrow> bytes \<Rightarrow> nat \<Rightarrow> bytes codec" where
  "encoded type frame_id payload capacity =
     (if AIVM_REMOTE_HEADER_SIZE + length payload \<le> capacity then CodecOk (frame type frame_id payload)
      else CodecErr AIVM_REMOTE_CODEC_ERR_SHORT)"

lemma text_limits [simp]: "AIVM_REMOTE_MAX_TEXT \<le> 65535" "AIVM_REMOTE_MAX_ERROR_TEXT \<le> 65535"
  by (simp_all add: remote_limits)

lemmas encode_simps = store_def out_null_def write_string_spec write_strings_spec write_header_frame encoded_def
  out_index_def

lemma encode_hello:
  assumes "hello_ok m"
  shows "aivm_remote_encode_hello frame_id (Some m) (Buffer capacity) True =
    encoded AIVM_REMOTE_MSG_HELLO frame_id (hello_payload m) capacity"
  using assms
  by (simp add: aivm_remote_encode_hello_def hello_ok_def caps_ok_def hello_payload_def encode_simps
      del: length_concat)

lemma encode_welcome:
  assumes "caps_ok (welcome_granted_caps m)"
  shows "aivm_remote_encode_welcome frame_id (Some m) (Buffer capacity) True =
    encoded AIVM_REMOTE_MSG_WELCOME frame_id (welcome_payload m) capacity"
  using assms
  by (simp add: aivm_remote_encode_welcome_def caps_ok_def welcome_payload_def encode_simps
      del: length_concat)

lemma encode_code_text_spec:
  assumes "text_ok AIVM_REMOTE_MAX_ERROR_TEXT str"
  shows "encode_code_text type frame_id code str (Buffer capacity) =
    encoded type frame_id (code_text_payload code str) capacity"
  using assms by (simp add: encode_code_text_def code_text_payload_def encode_simps)

lemma encode_call:
  assumes "call_ok m"
  shows "aivm_remote_encode_call frame_id (Some m) (Buffer capacity) True =
    encoded AIVM_REMOTE_MSG_CALL frame_id (call_payload m) capacity"
  using assms by (simp add: aivm_remote_encode_call_def call_ok_def call_payload_def encode_simps)

lemma encode_result:
  "aivm_remote_encode_result frame_id (Some m) (Buffer capacity) True =
    encoded AIVM_REMOTE_MSG_RESULT frame_id (u64_bytes (of_int (result_value m))) capacity"
  by (simp add: aivm_remote_encode_result_def store_def out_null_def encoded_def out_index_def
      write_header_def frame_def)

text \<open>And what the decoders make of it.\<close>

lemma string_bytes_bound: "text_ok n str \<Longrightarrow> length (string_bytes str) \<le> 2 + n"
  by (simp add: text_ok_def)

lemma caps_bound:
  assumes "caps_ok caps"
  shows "length (concat (map string_bytes caps)) \<le> 16 * 66"
proof -
  have "length (concat (map string_bytes caps)) \<le> length caps * 66"
    using assms by (induction caps) (auto simp: caps_ok_def text_ok_def remote_limits)
  also have "\<dots> \<le> 16 * 66"
    using assms by (simp add: caps_ok_def remote_limits)
  finally show ?thesis .
qed

lemma caps_count: "caps_ok caps \<Longrightarrow> unat (of_nat (length caps) :: u32) = length caps"
  by (intro unat_of_nat_small) (simp add: caps_ok_def remote_limits)

lemma decode_hello_frame:
  assumes "hello_ok m"
  shows "aivm_remote_decode_hello (Some (frame AIVM_REMOTE_MSG_HELLO frame_id (hello_payload m))) True =
    CodecOk (frame_id, m)"
proof -
  let ?bs = "frame AIVM_REMOTE_MSG_HELLO frame_id (hello_payload m)" and ?caps = "hello_requested_caps m"
  let ?i = "AIVM_REMOTE_HEADER_SIZE + length (string_bytes (hello_client_name m))"
  have ok: "text_ok AIVM_REMOTE_MAX_TEXT (hello_client_name m)" "caps_ok ?caps"
    using assms by (simp_all add: hello_ok_def)
  have small: "length (hello_payload m) < 2 ^ 32"
    using caps_bound [OF ok(2)] ok(1) by (simp add: hello_payload_def text_ok_def remote_limits del: length_concat)
  note r = read_string_at [OF drop_header [of AIVM_REMOTE_MSG_HELLO frame_id, of "hello_payload m",
      unfolded hello_payload_def] ok(1), folded hello_payload_def]
  note v = read_u16_at [OF r(2)]
  note c = read_u32_at [OF v(3)]
  have "drop (?i + 2 + 4) ?bs = concat (map string_bytes ?caps) @ []"
    using c(3) by simp
  note s = read_strings_at [OF this]
  have len: "length ?bs = ?i + 2 + 4 + length (concat (map string_bytes ?caps))"
    by (simp add: length_frame hello_payload_def)
  show ?thesis
    using r(1) v(1) c(1) s len ok(2) caps_count [OF ok(2)]
    by (simp add: aivm_remote_decode_hello_def decode_start_frame [OF small] fetch_def decode_end_def caps_ok_def
        del: length_concat length_string_bytes)
qed

lemma decode_welcome_frame:
  assumes "caps_ok (welcome_granted_caps m)"
  shows "aivm_remote_decode_welcome (Some (frame AIVM_REMOTE_MSG_WELCOME frame_id (welcome_payload m))) True =
    CodecOk (frame_id, m)"
proof -
  let ?bs = "frame AIVM_REMOTE_MSG_WELCOME frame_id (welcome_payload m)" and ?caps = "welcome_granted_caps m"
  have small: "length (welcome_payload m) < 2 ^ 32"
    using caps_bound [OF assms] by (simp add: welcome_payload_def del: length_concat)
  note v = read_u16_at [OF drop_header [of AIVM_REMOTE_MSG_WELCOME frame_id, of "welcome_payload m",
      unfolded welcome_payload_def], folded welcome_payload_def]
  note c = read_u32_at [OF v(3)]
  have "drop (AIVM_REMOTE_HEADER_SIZE + 2 + 4) ?bs = concat (map string_bytes ?caps) @ []"
    using c(3) by simp
  note s = read_strings_at [OF this]
  have len: "length ?bs = AIVM_REMOTE_HEADER_SIZE + 2 + 4 + length (concat (map string_bytes ?caps))"
    by (simp add: length_frame welcome_payload_def)
  show ?thesis
    using v(1) c(1) s len assms caps_count [OF assms]
    by (simp add: aivm_remote_decode_welcome_def decode_start_frame [OF small] fetch_def decode_end_def caps_ok_def
        del: length_concat)
qed

lemma decode_code_text_frame:
  assumes "text_ok AIVM_REMOTE_MAX_ERROR_TEXT str"
  shows "decode_code_text type (Some (frame type frame_id (code_text_payload code str))) True =
    CodecOk (frame_id, code, str)"
proof -
  let ?bs = "frame type frame_id (code_text_payload code str)"
  have small: "length (code_text_payload code str) < 2 ^ 32"
    using assms by (simp add: code_text_payload_def text_ok_def remote_limits)
  note c = read_u32_at [OF drop_header [of type frame_id, of "code_text_payload code str",
      unfolded code_text_payload_def], folded code_text_payload_def]
  have "drop (AIVM_REMOTE_HEADER_SIZE + 4) ?bs = string_bytes str @ []"
    using c(3) by simp
  note r = read_string_at [OF this assms]
  have len: "length ?bs = AIVM_REMOTE_HEADER_SIZE + 4 + length (string_bytes str)"
    by (simp add: length_frame code_text_payload_def)
  show ?thesis
    using c(1) r(1) len
    by (simp add: decode_code_text_def decode_start_frame [OF small] fetch_def decode_end_def
        del: length_string_bytes)
qed

lemma decode_call_frame:
  assumes "call_ok m"
  shows "aivm_remote_decode_call (Some (frame AIVM_REMOTE_MSG_CALL frame_id (call_payload m))) True =
    CodecOk (frame_id, m)"
proof -
  let ?bs = "frame AIVM_REMOTE_MSG_CALL frame_id (call_payload m)"
  have ok: "text_ok AIVM_REMOTE_MAX_TEXT (call_cap m)" "text_ok AIVM_REMOTE_MAX_TEXT (call_op m)"
    and v: "in_i64 (call_value m)"
    using assms by (simp_all add: call_ok_def)
  have small: "length (call_payload m) < 2 ^ 32"
    using ok by (simp add: call_payload_def text_ok_def remote_limits)
  note r = read_string_at [OF drop_header [of AIVM_REMOTE_MSG_CALL frame_id, of "call_payload m",
      unfolded call_payload_def] ok(1), folded call_payload_def]
  note s = read_string_at [OF r(2) ok(2)]
  have at: "drop (AIVM_REMOTE_HEADER_SIZE + length (string_bytes (call_cap m)) + length (string_bytes (call_op m))) ?bs =
      u64_bytes (of_int (call_value m)) @ []"
    using s(2) by simp
  have len: "length ?bs = AIVM_REMOTE_HEADER_SIZE + length (string_bytes (call_cap m)) +
      length (string_bytes (call_op m)) + 8"
    by (simp add: length_frame call_payload_def)
  show ?thesis
    using r(1) s(1) len read_i64_at [OF at v]
    by (simp add: aivm_remote_decode_call_def decode_start_frame [OF small] fetch_def del: length_string_bytes)
qed

lemma decode_result_frame:
  assumes "in_i64 (result_value m)"
  shows "aivm_remote_decode_result
      (Some (frame AIVM_REMOTE_MSG_RESULT frame_id (u64_bytes (of_int (result_value m))))) True = CodecOk (frame_id, m)"
proof -
  have "drop AIVM_REMOTE_HEADER_SIZE (frame AIVM_REMOTE_MSG_RESULT frame_id (u64_bytes (of_int (result_value m)))) =
      u64_bytes (of_int (result_value m)) @ []"
    by (simp add: drop_header)
  from read_i64_at [OF this assms] show ?thesis
    by (simp add: aivm_remote_decode_result_def decode_start_frame fetch_def length_frame)
qed

text \<open>An encoder and a decoder that agree on a message: some bytes are written into every buffer that
  can hold them, other buffers are reported as short, and the bytes decode to the message.\<close>

definition carries ::
  "(out_buffer \<Rightarrow> bool \<Rightarrow> bytes codec) \<Rightarrow> (bytes option \<Rightarrow> bool \<Rightarrow> (u32 \<times> 'm) codec) \<Rightarrow> u32 \<Rightarrow> 'm \<Rightarrow> bool" where
  "carries encode decode frame_id m \<longleftrightarrow>
     (\<exists>bs. (\<forall>capacity. encode (Buffer capacity) True =
              (if length bs \<le> capacity then CodecOk bs else CodecErr AIVM_REMOTE_CODEC_ERR_SHORT)) \<and>
           decode (Some bs) True = CodecOk (frame_id, m))"

lemma carriesI:
  assumes "\<And>capacity. encode (Buffer capacity) True = encoded type frame_id payload capacity"
    and "decode (Some (frame type frame_id payload)) True = CodecOk (frame_id, m)"
  shows "carries encode decode frame_id m"
  unfolding carries_def
  using assms by (intro exI [of _ "frame type frame_id payload"]) (simp add: encoded_def length_frame)

text \<open>C21 (roundtrip): each of the six messages, within the limits of the format, is decoded from what
  its encoder wrote, with its frame id.\<close>

theorem remote_message_roundtrip:
  assumes "hello_ok h" and "caps_ok (welcome_granted_caps w)"
    and "text_ok AIVM_REMOTE_MAX_ERROR_TEXT (deny_message d)" and "call_ok c" and "in_i64 (result_value r)"
    and "text_ok AIVM_REMOTE_MAX_ERROR_TEXT (error_message e)"
  shows "carries (aivm_remote_encode_hello frame_id (Some h)) aivm_remote_decode_hello frame_id h \<and>
    carries (aivm_remote_encode_welcome frame_id (Some w)) aivm_remote_decode_welcome frame_id w \<and>
    carries (aivm_remote_encode_deny frame_id (Some d)) aivm_remote_decode_deny frame_id d \<and>
    carries (aivm_remote_encode_call frame_id (Some c)) aivm_remote_decode_call frame_id c \<and>
    carries (aivm_remote_encode_result frame_id (Some r)) aivm_remote_decode_result frame_id r \<and>
    carries (aivm_remote_encode_error frame_id (Some e)) aivm_remote_decode_error frame_id e"
proof (intro conjI)
  show "carries (aivm_remote_encode_deny frame_id (Some d)) aivm_remote_decode_deny frame_id d"
    by (rule carriesI [where type = AIVM_REMOTE_MSG_DENY and payload = "code_text_payload (deny_error_code d) (deny_message d)"])
      (simp_all add: aivm_remote_encode_deny_def aivm_remote_decode_deny_def assms(3)
        encode_code_text_spec decode_code_text_frame)
  show "carries (aivm_remote_encode_error frame_id (Some e)) aivm_remote_decode_error frame_id e"
    by (rule carriesI [where type = AIVM_REMOTE_MSG_ERROR and payload = "code_text_payload (error_error_code e) (error_message e)"])
      (simp_all add: aivm_remote_encode_error_def aivm_remote_decode_error_def assms(6)
        encode_code_text_spec decode_code_text_frame)
  show "carries (aivm_remote_encode_hello frame_id (Some h)) aivm_remote_decode_hello frame_id h"
    by (rule carriesI, rule encode_hello, fact assms, rule decode_hello_frame, fact assms)
  show "carries (aivm_remote_encode_welcome frame_id (Some w)) aivm_remote_decode_welcome frame_id w"
    by (rule carriesI, rule encode_welcome, fact assms, rule decode_welcome_frame, fact assms)
  show "carries (aivm_remote_encode_call frame_id (Some c)) aivm_remote_decode_call frame_id c"
    by (rule carriesI, rule encode_call, fact assms, rule decode_call_frame, fact assms)
  show "carries (aivm_remote_encode_result frame_id (Some r)) aivm_remote_decode_result frame_id r"
    by (rule carriesI, rule encode_result, rule decode_result_frame, fact assms)
qed

definition example_call :: AivmRemoteCall where
  "example_call = \<lparr>call_cap = ''cap.remote'', call_op = ''echoInt'', call_value = - 7\<rparr>"

definition example_hello :: AivmRemoteHello where
  "example_hello = \<lparr>hello_proto_version = 1, hello_client_name = ''cli'', hello_requested_caps = [''cap.remote'', ''cap.fs'']\<rparr>"

lemma example_messages_ok: "call_ok example_call" "hello_ok example_hello"
  by (simp_all add: example_call_def example_hello_def call_ok_def hello_ok_def text_ok_def caps_ok_def remote_limits i64_defs)

theorem remote_message_roundtrip_witness:
  "\<exists>bs. aivm_remote_encode_call 5 (Some example_call) (Buffer (length bs)) True = CodecOk bs \<and>
     aivm_remote_decode_call (Some bs) True = CodecOk (5, example_call)"
  using remote_message_roundtrip [OF example_messages_ok(2), of "\<lparr>welcome_proto_version = 1, welcome_granted_caps = []\<rparr>"
      "\<lparr>deny_error_code = 1, deny_message = []\<rparr>" example_call "\<lparr>result_value = 0\<rparr>"
      "\<lparr>error_error_code = 1, error_message = []\<rparr>" 5]
  by (auto simp: carries_def text_ok_def caps_ok_def i64_defs example_messages_ok)

end
