(* ===== verification/Remote_Session.thy ===== *)
theory Remote_Session
  imports Remote_Channel
begin

text \<open>
  The server side of the remote channel, \<^verbatim>\<open>src/src/remote/aivm_remote_session.c\<close>: a
  handshake that grants capabilities, and calls that need them. A frame is answered by a frame; the
  result of an operation has the status, the session after it and the reply, and is \<open>None\<close> for an
  access outside the buffers.
\<close>

datatype AivmRemoteSessionStatus =
    AIVM_REMOTE_SESSION_OK | AIVM_REMOTE_SESSION_ERR_NULL | AIVM_REMOTE_SESSION_ERR_CODEC
  | AIVM_REMOTE_SESSION_ERR_STATE | AIVM_REMOTE_SESSION_ERR_OVERFLOW

record AivmRemoteServerConfig =
  config_proto_version :: u16
  config_allowed_caps :: "string list"

record AivmRemoteServerSession =
  handshake_complete :: bool
  negotiated_proto_version :: u16
  session_granted_caps :: "string list"

definition cap_allowed :: "AivmRemoteServerConfig \<Rightarrow> string \<Rightarrow> bool" where
  "cap_allowed config cap \<longleftrightarrow> list_ex (\<lambda>c. c = cap) (config_allowed_caps config)"

definition cap_granted :: "AivmRemoteServerSession \<Rightarrow> string \<Rightarrow> bool" where
  "cap_granted session cap \<longleftrightarrow> list_ex (\<lambda>c. c = cap) (session_granted_caps session)"

type_synonym reply = "(AivmRemoteSessionStatus \<times> AivmRemoteServerSession \<times> bytes option) option"

definition codec_reply :: "AivmRemoteServerSession \<Rightarrow> bytes codec \<Rightarrow> reply" where
  "codec_reply session r =
     (case r of
        CodecOk bs \<Rightarrow> Some (AIVM_REMOTE_SESSION_OK, session, Some bs)
      | CodecErr _ \<Rightarrow> Some (AIVM_REMOTE_SESSION_ERR_CODEC, session, None)
      | CodecFault \<Rightarrow> None)"

definition encode_error_frame ::
  "AivmRemoteServerSession \<Rightarrow> u32 \<Rightarrow> u32 \<Rightarrow> string \<Rightarrow> out_buffer \<Rightarrow> reply" where
  "encode_error_frame session frame_id error_code message out =
     codec_reply session
       (aivm_remote_encode_error frame_id
          (Some \<lparr>error_error_code = error_code,
                 error_message = snprintf (AIVM_REMOTE_MAX_ERROR_TEXT + 1) [message]\<rparr>)
          out True)"

definition aivm_remote_server_session_init :: "AivmRemoteServerSession" where
  "aivm_remote_server_session_init =
     \<lparr>handshake_complete = False, negotiated_proto_version = 0, session_granted_caps = []\<rparr>"

definition text_copy :: "string \<Rightarrow> string" where
  "text_copy str = snprintf (AIVM_REMOTE_MAX_TEXT + 1) [str]"

text \<open>The loop over the requested capabilities; \<open>granted\<close> is what has been granted so far.\<close>

primrec grant_loop :: "AivmRemoteServerConfig \<Rightarrow> string list \<Rightarrow> string list \<Rightarrow> string list" where
  "grant_loop config granted [] = granted"
| "grant_loop config granted (cap # caps) =
     (if cap_allowed config cap \<and> length granted < AIVM_REMOTE_MAX_CAPS
      then grant_loop config (granted @ [text_copy cap]) caps
      else grant_loop config granted caps)"

definition process_hello ::
  "AivmRemoteServerConfig \<Rightarrow> AivmRemoteServerSession \<Rightarrow> bytes \<Rightarrow> out_buffer \<Rightarrow> reply" where
  "process_hello config session input out =
     (case aivm_remote_decode_hello (Some input) True of
        CodecFault \<Rightarrow> None
      | CodecErr _ \<Rightarrow> Some (AIVM_REMOTE_SESSION_ERR_CODEC, session, None)
      | CodecOk (frame_id, hello) \<Rightarrow>
          let welcome = \<lparr>welcome_proto_version = config_proto_version config,
                welcome_granted_caps = grant_loop config [] (hello_requested_caps hello)\<rparr>
          in codec_reply
               \<lparr>handshake_complete = True,
                negotiated_proto_version = welcome_proto_version welcome,
                session_granted_caps = map text_copy (welcome_granted_caps welcome)\<rparr>
               (aivm_remote_encode_welcome frame_id (Some welcome) out True))"

definition process_call :: "AivmRemoteServerSession \<Rightarrow> bytes \<Rightarrow> out_buffer \<Rightarrow> reply" where
  "process_call session input out =
     (case aivm_remote_decode_call (Some input) True of
        CodecFault \<Rightarrow> None
      | CodecErr _ \<Rightarrow> Some (AIVM_REMOTE_SESSION_ERR_CODEC, session, None)
      | CodecOk (frame_id, call) \<Rightarrow>
          if \<not> handshake_complete session then
            encode_error_frame session frame_id 401 ''remote session handshake is required before CALL.'' out
          else if \<not> cap_granted session (call_cap call) then
            encode_error_frame session frame_id 403 ''remote capability is not granted for this session.'' out
          else if call_cap call = ''cap.remote'' \<and> call_op call = ''echoInt'' then
            codec_reply session
              (aivm_remote_encode_result frame_id (Some \<lparr>result_value = call_value call\<rparr>) out True)
          else encode_error_frame session frame_id 404 ''remote operation is not available.'' out)"

text \<open>The configuration, the input and the buffers may be null; a null session is answered as a null
  configuration is.\<close>

definition aivm_remote_server_process_frame ::
  "AivmRemoteServerConfig option \<Rightarrow> AivmRemoteServerSession \<Rightarrow> bytes option \<Rightarrow> out_buffer \<Rightarrow> bool \<Rightarrow> reply" where
  "aivm_remote_server_process_frame config session input out has_out_length =
     (case config of
        None \<Rightarrow> Some (AIVM_REMOTE_SESSION_ERR_NULL, session, None)
      | Some cfg \<Rightarrow>
          (case input of
             None \<Rightarrow> Some (AIVM_REMOTE_SESSION_ERR_NULL, session, None)
           | Some bs \<Rightarrow>
               if out_null out \<or> \<not> has_out_length then Some (AIVM_REMOTE_SESSION_ERR_NULL, session, None)
               else if length bs < 1 then Some (AIVM_REMOTE_SESSION_ERR_CODEC, session, None)
               else if length (config_allowed_caps cfg) > AIVM_REMOTE_MAX_CAPS
               then Some (AIVM_REMOTE_SESSION_ERR_OVERFLOW, session, None)
               else if bs ! 0 = message_type_code AIVM_REMOTE_MSG_HELLO then process_hello cfg session bs out
               else if bs ! 0 = message_type_code AIVM_REMOTE_MSG_CALL then process_call session bs out
               else encode_error_frame session 0 400 ''remote frame type is not supported.'' out))"

text \<open>The sessions a server can be in.\<close>

inductive session_reachable :: "AivmRemoteServerConfig \<Rightarrow> AivmRemoteServerSession \<Rightarrow> bool" for config where
  init: "session_reachable config aivm_remote_server_session_init"
| frame: "session_reachable config session \<Longrightarrow>
    aivm_remote_server_process_frame (Some config) session input out has_out_length = Some (st, session', r) \<Longrightarrow>
    session_reachable config session'"

section \<open>Granting\<close>

lemma cap_allowed_iff: "cap_allowed config cap \<longleftrightarrow> cap \<in> set (config_allowed_caps config)"
  by (auto simp: cap_allowed_def list_ex_iff)

lemma cap_granted_iff: "cap_granted session cap \<longleftrightarrow> cap \<in> set (session_granted_caps session)"
  by (auto simp: cap_granted_def list_ex_iff)

lemma text_copy_id [simp]: "length str \<le> AIVM_REMOTE_MAX_TEXT \<Longrightarrow> text_copy str = str"
  by (simp add: text_copy_def snprintf_def)

text \<open>The decoder yields texts within their arrays.\<close>

lemma read_string_length:
  assumes "read_string bs index capacity max_text = CodecOk (str, j)"
  shows "text_ok max_text str"
proof -
  have "CHR 0x00 \<notin> set str" "length str \<le> max_text"
    using assms
    by (auto simp: read_string_def Let_def fetch_def store_text_def split: if_splits dest: set_takeWhileD
        intro: order_trans [OF length_takeWhile_le])
  then show ?thesis
    by (simp add: text_ok_def)
qed

lemma read_strings_ok:
  "read_strings n bs index = CodecOk (strs, j) \<Longrightarrow> length strs = n \<and> (\<forall>str \<in> set strs. text_ok AIVM_REMOTE_MAX_TEXT str)"
  by (induction n arbitrary: index strs) (fastforce simp: bind_codec_Ok dest: read_string_length)+

lemma decoded_hello_ok: "aivm_remote_decode_hello input has_out = CodecOk (frame_id, hello) \<Longrightarrow> hello_ok hello"
  by (auto simp: aivm_remote_decode_hello_def bind_codec_Ok decode_end_def hello_ok_def caps_ok_def
      dest!: read_string_length read_strings_ok split: if_splits prod.splits)

lemma grant_loop_filter:
  assumes "length granted + length caps \<le> AIVM_REMOTE_MAX_CAPS" and "\<forall>cap \<in> set caps. length cap \<le> AIVM_REMOTE_MAX_TEXT"
  shows "grant_loop config granted caps = granted @ filter (cap_allowed config) caps"
  using assms by (induction caps arbitrary: granted) auto

lemma granted_by_hello:
  assumes "hello_ok hello"
  shows "grant_loop config [] (hello_requested_caps hello) = filter (cap_allowed config) (hello_requested_caps hello)"
  using assms by (intro grant_loop_filter [of "[]", simplified]) (auto simp: hello_ok_def caps_ok_def text_ok_def)

lemma granted_caps_ok:
  "hello_ok hello \<Longrightarrow> caps_ok (filter (cap_allowed config) (hello_requested_caps hello))"
  by (auto simp: hello_ok_def caps_ok_def intro: order_trans [OF length_filter_le])

text \<open>The session after a HELLO.\<close>

definition greeted :: "AivmRemoteServerConfig \<Rightarrow> AivmRemoteHello \<Rightarrow> AivmRemoteServerSession" where
  "greeted config hello =
     \<lparr>handshake_complete = True, negotiated_proto_version = config_proto_version config,
      session_granted_caps = filter (cap_allowed config) (hello_requested_caps hello)\<rparr>"

lemma copied_caps: "caps_ok caps \<Longrightarrow> map text_copy caps = caps"
  by (simp add: caps_ok_def text_ok_def map_idI)

lemma process_hello_spec:
  assumes "aivm_remote_decode_hello (Some input) True = CodecOk (frame_id, hello)"
  shows "process_hello config session input out =
    codec_reply (greeted config hello) (aivm_remote_encode_welcome frame_id
      (Some \<lparr>welcome_proto_version = config_proto_version config,
        welcome_granted_caps = filter (cap_allowed config) (hello_requested_caps hello)\<rparr>) out True)"
  using decoded_hello_ok [OF assms] granted_by_hello granted_caps_ok
  by (simp add: process_hello_def assms greeted_def copied_caps)

section \<open>Authorization\<close>

lemma codec_reply_session: "codec_reply session r = Some (st, session', b) \<Longrightarrow> session' = session"
  by (cases r) (auto simp: codec_reply_def)

lemma process_call_session: "process_call session input out = Some (st, session', r) \<Longrightarrow> session' = session"
  by (auto simp: process_call_def encode_error_frame_def dest: codec_reply_session
      split: codec.splits if_splits prod.splits)

lemma process_hello_session:
  assumes "process_hello config session input out = Some (st, session', r)"
  shows "session' = session \<or> (\<exists>hello. session' = greeted config hello)"
proof (cases "aivm_remote_decode_hello (Some input) True")
  case (CodecOk x)
  then show ?thesis
    using assms process_hello_spec [of input "fst x" "snd x" config session out] by (auto dest: codec_reply_session)
qed (use assms in \<open>auto simp: process_hello_def\<close>)

lemma process_frame_session:
  assumes "aivm_remote_server_process_frame (Some config) session input out has_out_length = Some (st, session', r)"
  shows "session' = session \<or> (\<exists>hello. session' = greeted config hello)"
  using assms
  by (auto simp: aivm_remote_server_process_frame_def encode_error_frame_def split: option.splits if_splits
      dest: codec_reply_session process_call_session process_hello_session)

lemma granted_are_allowed:
  assumes "session_reachable config session"
  shows "set (session_granted_caps session) \<subseteq> set (config_allowed_caps config)"
  using assms
  by (induction rule: session_reachable.induct)
    (auto simp: aivm_remote_server_session_init_def greeted_def cap_allowed_iff dest!: process_frame_session)

lemma frame_types:
  "aivm_remote_encode_welcome frame_id w out has_out = CodecOk bs \<Longrightarrow> bs ! 0 = message_type_code AIVM_REMOTE_MSG_WELCOME"
  "aivm_remote_encode_error frame_id e out has_out = CodecOk bs \<Longrightarrow> bs ! 0 = message_type_code AIVM_REMOTE_MSG_ERROR"
  by (auto simp: aivm_remote_encode_welcome_def aivm_remote_encode_error_def encode_code_text_def bind_codec_Ok
      write_header_def split: option.splits if_splits)

lemma codec_reply_Some: "codec_reply session r = Some (st, session', Some bs) \<Longrightarrow> r = CodecOk bs"
  by (cases r) (auto simp: codec_reply_def)

lemma error_frame_type:
  "encode_error_frame session frame_id code message out = Some (st, session', Some bs) \<Longrightarrow>
   bs ! 0 = message_type_code AIVM_REMOTE_MSG_ERROR"
  by (auto simp: encode_error_frame_def dest!: codec_reply_Some frame_types)

lemma hello_frame_type:
  "process_hello config session input out = Some (st, session', Some bs) \<Longrightarrow>
   bs ! 0 = message_type_code AIVM_REMOTE_MSG_WELCOME"
  by (auto simp: process_hello_def Let_def dest!: codec_reply_Some frame_types split: codec.splits)

lemma call_result:
  assumes "process_call session input out = Some (st, session', Some bs)"
    and "bs ! 0 = message_type_code AIVM_REMOTE_MSG_RESULT"
  obtains frame_id c where "aivm_remote_decode_call (Some input) True = CodecOk (frame_id, c)"
    and "handshake_complete session" and "call_cap c \<in> set (session_granted_caps session)"
    and "aivm_remote_encode_result frame_id (Some \<lparr>result_value = call_value c\<rparr>) out True = CodecOk bs"
  using assms
  by (auto simp: process_call_def cap_granted_iff dest: error_frame_type codec_reply_Some
      split: codec.splits if_splits prod.splits)

text \<open>C20 (safety): a RESULT is sent only in answer to a call the client may make: the handshake is
  done, the capability of the call was granted in it, and the configuration of the server allows it.\<close>

theorem remote_results_authorized:
  assumes "session_reachable config session"
    and "aivm_remote_server_process_frame (Some config) session (Some input) out True = Some (st, session', Some bs)"
    and "bs ! 0 = message_type_code AIVM_REMOTE_MSG_RESULT"
  shows "\<exists>frame_id c. aivm_remote_decode_call (Some input) True = CodecOk (frame_id, c) \<and>
    handshake_complete session \<and> call_cap c \<in> set (session_granted_caps session) \<and>
    call_cap c \<in> set (config_allowed_caps config) \<and>
    aivm_remote_encode_result frame_id (Some \<lparr>result_value = call_value c\<rparr>) out True = CodecOk bs"
proof -
  have "process_call session input out = Some (st, session', Some bs)"
    using assms(2,3)
    by (auto simp: aivm_remote_server_process_frame_def dest: hello_frame_type error_frame_type split: if_splits)
  from call_result [OF this assms(3)] granted_are_allowed [OF assms(1)] show ?thesis
    by (metis subsetD)
qed

section \<open>Answers\<close>

lemma process_frame_of_type:
  assumes "length (config_allowed_caps config) \<le> AIVM_REMOTE_MAX_CAPS"
  shows "aivm_remote_server_process_frame (Some config) session (Some (frame type frame_id payload)) (Buffer capacity) True =
    (if type = AIVM_REMOTE_MSG_HELLO then process_hello config session (frame type frame_id payload) (Buffer capacity)
     else if type = AIVM_REMOTE_MSG_CALL then process_call session (frame type frame_id payload) (Buffer capacity)
     else encode_error_frame session 0 400 ''remote frame type is not supported.'' (Buffer capacity))"
  using assms
  by (simp add: aivm_remote_server_process_frame_def out_null_def frame_def del: message_type_code.simps)

lemma encoded_Ok: "encoded type frame_id payload capacity = CodecOk bs \<Longrightarrow> bs = frame type frame_id payload"
  by (simp add: encoded_def split: if_splits)

lemma encoded_large:
  "AIVM_REMOTE_HEADER_SIZE + length payload \<le> capacity \<Longrightarrow> encoded type frame_id payload capacity = CodecOk (frame type frame_id payload)"
  by (simp add: encoded_def)

lemma error_frame_reply:
  assumes "text_ok AIVM_REMOTE_MAX_ERROR_TEXT message" and "143 \<le> capacity"
  shows "\<exists>bs. encode_error_frame session frame_id code message (Buffer capacity) = Some (AIVM_REMOTE_SESSION_OK, session, Some bs) \<and>
    aivm_remote_decode_error (Some bs) True = CodecOk (frame_id, \<lparr>error_error_code = code, error_message = message\<rparr>)"
proof -
  have "snprintf (AIVM_REMOTE_MAX_ERROR_TEXT + 1) [message] = message"
    using assms(1) by (simp add: snprintf_def text_ok_def)
  then show ?thesis
    using assms
    by (simp add: encode_error_frame_def aivm_remote_encode_error_def encode_code_text_spec encoded_large
        code_text_payload_def text_ok_def remote_limits codec_reply_def)
      (simp add: aivm_remote_decode_error_def code_text_payload_def [symmetric] decode_code_text_frame text_ok_def remote_limits)
qed

text \<open>What a call is answered with, and that a reply says so.\<close>

definition call_outcome :: "bool \<Rightarrow> bool \<Rightarrow> AivmRemoteCall \<Rightarrow> AivmRemoteError + AivmRemoteResult" where
  "call_outcome handshake granted c =
     (if \<not> handshake then
        Inl \<lparr>error_error_code = 401, error_message = ''remote session handshake is required before CALL.''\<rparr>
      else if \<not> granted then
        Inl \<lparr>error_error_code = 403, error_message = ''remote capability is not granted for this session.''\<rparr>
      else if call_cap c = ''cap.remote'' \<and> call_op c = ''echoInt'' then Inr \<lparr>result_value = call_value c\<rparr>
      else Inl \<lparr>error_error_code = 404, error_message = ''remote operation is not available.''\<rparr>)"

definition reply_carries :: "bytes \<Rightarrow> u32 \<Rightarrow> AivmRemoteError + AivmRemoteResult \<Rightarrow> bool" where
  "reply_carries bs frame_id outcome \<longleftrightarrow>
     (case outcome of
        Inl e \<Rightarrow> aivm_remote_decode_error (Some bs) True = CodecOk (frame_id, e)
      | Inr r \<Rightarrow> aivm_remote_decode_result (Some bs) True = CodecOk (frame_id, r))"

lemma error_reply_carries:
  assumes "text_ok AIVM_REMOTE_MAX_ERROR_TEXT message" and "143 \<le> capacity"
  shows "\<exists>bs. encode_error_frame session frame_id code message (Buffer capacity) = Some (AIVM_REMOTE_SESSION_OK, session, Some bs) \<and>
    reply_carries bs frame_id (Inl \<lparr>error_error_code = code, error_message = message\<rparr>)"
  using error_frame_reply [OF assms] by (simp add: reply_carries_def)

lemma process_call_reply:
  assumes "call_ok c" and "143 \<le> capacity"
  shows "\<exists>bs. process_call session (frame AIVM_REMOTE_MSG_CALL frame_id (call_payload c)) (Buffer capacity) =
      Some (AIVM_REMOTE_SESSION_OK, session, Some bs) \<and>
    reply_carries bs frame_id
      (call_outcome (handshake_complete session) (call_cap c \<in> set (session_granted_caps session)) c)"
proof -
  have texts: "text_ok AIVM_REMOTE_MAX_ERROR_TEXT ''remote session handshake is required before CALL.''"
    "text_ok AIVM_REMOTE_MAX_ERROR_TEXT ''remote capability is not granted for this session.''"
    "text_ok AIVM_REMOTE_MAX_ERROR_TEXT ''remote operation is not available.''"
    by (simp_all add: text_ok_def remote_limits)
  have "in_i64 (call_value c)"
    using assms(1) by (simp add: call_ok_def)
  then have "\<exists>bs. codec_reply session (aivm_remote_encode_result frame_id (Some \<lparr>result_value = call_value c\<rparr>) (Buffer capacity) True) =
      Some (AIVM_REMOTE_SESSION_OK, session, Some bs) \<and> reply_carries bs frame_id (Inr \<lparr>result_value = call_value c\<rparr>)"
    using decode_result_frame [of "\<lparr>result_value = call_value c\<rparr>"] assms(2)
    by (simp add: encode_result encoded_large codec_reply_def remote_limits reply_carries_def)
  then show ?thesis
    using error_reply_carries [OF texts(1) assms(2)] error_reply_carries [OF texts(2) assms(2)]
      error_reply_carries [OF texts(3) assms(2)]
    by (simp add: process_call_def decode_call_frame [OF assms(1)] cap_granted_iff call_outcome_def)
qed

lemma process_hello_reply:
  assumes "hello_ok h" and "1071 \<le> capacity"
  shows "\<exists>bs. process_hello config session (frame AIVM_REMOTE_MSG_HELLO frame_id (hello_payload h)) (Buffer capacity) =
      Some (AIVM_REMOTE_SESSION_OK, greeted config h, Some bs) \<and>
    aivm_remote_decode_welcome (Some bs) True =
      CodecOk (frame_id, \<lparr>welcome_proto_version = config_proto_version config,
        welcome_granted_caps = filter (cap_allowed config) (hello_requested_caps h)\<rparr>)"
proof -
  let ?w = "\<lparr>welcome_proto_version = config_proto_version config,
    welcome_granted_caps = filter (cap_allowed config) (hello_requested_caps h)\<rparr>"
  have w: "caps_ok (welcome_granted_caps ?w)"
    using granted_caps_ok [OF assms(1)] by simp
  have "AIVM_REMOTE_HEADER_SIZE + length (welcome_payload ?w) \<le> capacity"
    using caps_bound [OF w] assms(2) by (simp add: welcome_payload_def AIVM_REMOTE_HEADER_SIZE_def del: length_concat)
  then show ?thesis
    using encode_welcome [OF w] decode_welcome_frame [OF w]
    by (simp add: process_hello_spec [OF decode_hello_frame [OF assms(1)]] encoded_large codec_reply_def)
qed

text \<open>C19 (functional): a whole exchange. The server answers a HELLO with a WELCOME that carries its
  protocol version and the requested capabilities it allows, in the order of the request, under the
  id of the frame; it then answers a call with the result when the capability was granted and the
  operation exists, and with the error that says which of the two failed otherwise. Before any HELLO
  a call is answered with the error that asks for it.\<close>

theorem remote_exchange:
  assumes "hello_ok h" and "call_ok c" and "length (config_allowed_caps config) \<le> AIVM_REMOTE_MAX_CAPS"
    and "1071 \<le> capacity"
    and "aivm_remote_encode_hello id1 (Some h) (Buffer n1) True = CodecOk hello_bytes"
    and "aivm_remote_encode_call id2 (Some c) (Buffer n2) True = CodecOk call_bytes"
  shows "\<exists>welcome_bytes session reply early.
    aivm_remote_server_process_frame (Some config) aivm_remote_server_session_init (Some hello_bytes) (Buffer capacity) True =
      Some (AIVM_REMOTE_SESSION_OK, session, Some welcome_bytes) \<and>
    aivm_remote_decode_welcome (Some welcome_bytes) True =
      CodecOk (id1, \<lparr>welcome_proto_version = config_proto_version config,
        welcome_granted_caps = filter (cap_allowed config) (hello_requested_caps h)\<rparr>) \<and>
    aivm_remote_server_process_frame (Some config) session (Some call_bytes) (Buffer capacity) True =
      Some (AIVM_REMOTE_SESSION_OK, session, Some reply) \<and>
    reply_carries reply id2
      (call_outcome True (call_cap c \<in> set (hello_requested_caps h) \<inter> set (config_allowed_caps config)) c) \<and>
    aivm_remote_server_process_frame (Some config) aivm_remote_server_session_init (Some call_bytes) (Buffer capacity) True =
      Some (AIVM_REMOTE_SESSION_OK, aivm_remote_server_session_init, Some early) \<and>
    reply_carries early id2
      (Inl \<lparr>error_error_code = 401, error_message = ''remote session handshake is required before CALL.''\<rparr>)"
proof -
  have hb: "hello_bytes = frame AIVM_REMOTE_MSG_HELLO id1 (hello_payload h)"
    and cb: "call_bytes = frame AIVM_REMOTE_MSG_CALL id2 (call_payload c)"
    using assms(5,6) encode_hello [OF assms(1)] encode_call [OF assms(2)] by (auto dest: encoded_Ok)
  have cap: "143 \<le> capacity"
    using assms(4) by simp
  have granted: "set (session_granted_caps (greeted config h)) = set (hello_requested_caps h) \<inter> set (config_allowed_caps config)"
    "handshake_complete (greeted config h)" "\<not> handshake_complete aivm_remote_server_session_init"
    by (auto simp: greeted_def cap_allowed_iff aivm_remote_server_session_init_def)
  obtain welcome_bytes where "process_hello config aivm_remote_server_session_init hello_bytes (Buffer capacity) =
      Some (AIVM_REMOTE_SESSION_OK, greeted config h, Some welcome_bytes)"
    "aivm_remote_decode_welcome (Some welcome_bytes) True =
      CodecOk (id1, \<lparr>welcome_proto_version = config_proto_version config,
        welcome_granted_caps = filter (cap_allowed config) (hello_requested_caps h)\<rparr>)"
    unfolding hb using process_hello_reply [OF assms(1,4)] by blast
  moreover obtain reply where "process_call (greeted config h) call_bytes (Buffer capacity) =
      Some (AIVM_REMOTE_SESSION_OK, greeted config h, Some reply)"
    "reply_carries reply id2
      (call_outcome True (call_cap c \<in> set (hello_requested_caps h) \<inter> set (config_allowed_caps config)) c)"
    unfolding cb using process_call_reply [OF assms(2) cap, of "greeted config h" id2, unfolded granted(1)] granted(2)
    by auto
  moreover obtain early where "process_call aivm_remote_server_session_init call_bytes (Buffer capacity) =
      Some (AIVM_REMOTE_SESSION_OK, aivm_remote_server_session_init, Some early)"
    "reply_carries early id2
      (Inl \<lparr>error_error_code = 401, error_message = ''remote session handshake is required before CALL.''\<rparr>)"
    unfolding cb using process_call_reply [OF assms(2) cap, of aivm_remote_server_session_init id2] granted(3)
    by (auto simp: call_outcome_def)
  ultimately show ?thesis
    unfolding hb cb process_frame_of_type [OF assms(3)]
    by (intro exI [of _ welcome_bytes] exI [of _ "greeted config h"] exI [of _ reply] exI [of _ early]) simp
qed

section \<open>An example\<close>

definition example_config :: AivmRemoteServerConfig where
  "example_config = \<lparr>config_proto_version = 1, config_allowed_caps = [''cap.remote'']\<rparr>"

lemma example_config_ok: "length (config_allowed_caps example_config) \<le> AIVM_REMOTE_MAX_CAPS"
  by (simp add: example_config_def AIVM_REMOTE_MAX_CAPS_def)

lemma example_bytes:
  "aivm_remote_encode_hello 1 (Some example_hello) (Buffer 1071) True = CodecOk (frame AIVM_REMOTE_MSG_HELLO 1 (hello_payload example_hello))"
  "aivm_remote_encode_call 2 (Some example_call) (Buffer 1071) True = CodecOk (frame AIVM_REMOTE_MSG_CALL 2 (call_payload example_call))"
  by (simp_all add: encode_hello encode_call example_messages_ok encoded_def)
    (simp_all add: hello_payload_def call_payload_def example_hello_def example_call_def remote_limits)

theorem remote_exchange_witness:
  "\<exists>session reply. aivm_remote_server_process_frame (Some example_config) session
       (Some (frame AIVM_REMOTE_MSG_CALL 2 (call_payload example_call))) (Buffer 1071) True =
     Some (AIVM_REMOTE_SESSION_OK, session, Some reply) \<and>
   aivm_remote_decode_result (Some reply) True = CodecOk (2, \<lparr>result_value = - 7\<rparr>)"
  using remote_exchange [OF example_messages_ok(2,1) example_config_ok order_refl example_bytes]
  by (auto simp: call_outcome_def reply_carries_def example_call_def example_hello_def example_config_def)

theorem remote_results_authorized_witness:
  "\<exists>session bs. session_reachable example_config session \<and>
     aivm_remote_server_process_frame (Some example_config) session
       (Some (frame AIVM_REMOTE_MSG_CALL 2 (call_payload example_call))) (Buffer 1071) True =
       Some (AIVM_REMOTE_SESSION_OK, session, Some bs) \<and>
     handshake_complete session \<and> ''cap.remote'' \<in> set (session_granted_caps session)"
proof -
  let ?s = "greeted example_config example_hello"
  let ?call = "frame AIVM_REMOTE_MSG_CALL 2 (call_payload example_call)"
  obtain bs where "aivm_remote_server_process_frame (Some example_config) aivm_remote_server_session_init
      (Some (frame AIVM_REMOTE_MSG_HELLO 1 (hello_payload example_hello))) (Buffer 1071) True =
      Some (AIVM_REMOTE_SESSION_OK, ?s, Some bs)"
    using process_hello_reply [OF example_messages_ok(2) order_refl, of example_config _ 1]
    by (fastforce simp: process_frame_of_type [OF example_config_ok])
  then have reach: "session_reachable example_config ?s"
    by (rule session_reachable.frame [OF session_reachable.init])
  have answer: "aivm_remote_server_process_frame (Some example_config) ?s (Some ?call) (Buffer 1071) True =
      Some (AIVM_REMOTE_SESSION_OK, ?s, Some (frame AIVM_REMOTE_MSG_RESULT 2 (u64_bytes (- 7))))"
    by (simp add: process_frame_of_type [OF example_config_ok] process_call_def decode_call_frame example_messages_ok(1)
        encode_result encoded_def length_frame codec_reply_def remote_limits)
      (simp add: example_call_def example_hello_def example_config_def greeted_def cap_granted_iff cap_allowed_iff)
  have "\<exists>frame_id c. aivm_remote_decode_call (Some ?call) True = CodecOk (frame_id, c) \<and>
      handshake_complete ?s \<and> call_cap c \<in> set (session_granted_caps ?s)"
    using remote_results_authorized [OF reach answer] by (auto simp: frame_def)
  moreover have "call_cap example_call = ''cap.remote''"
    by (simp add: example_call_def)
  ultimately show ?thesis
    using reach answer by (auto simp: decode_call_frame example_messages_ok(1))
qed

end
