(* ===== verification/Remote_Transport.thy ===== *)
theory Remote_Transport
  imports Remote_Session
begin

text \<open>
  The bridge between a transport and the server session, and the transport over standard streams,
  \<^verbatim>\<open>src/src/remote/aivm_remote_transport.c\<close>. The callbacks of a transport are functions on its
  context. A stream that is read is the bytes still to come; a stream that is written is the bytes
  written and how many more it takes. The buffers the callbacks are given are not null.
\<close>

definition AIVM_REMOTE_TRANSPORT_MAX_FRAME :: nat where "AIVM_REMOTE_TRANSPORT_MAX_FRAME = 65536"

text \<open>Receiving gives the frame, or \<open>None\<close> for a return of 0; sending gives whether it succeeded.\<close>

record 'c AivmRemoteTransport =
  transport_context :: 'c
  transport_recv_frame :: "('c \<Rightarrow> nat \<Rightarrow> bytes option \<times> 'c) option"
  transport_send_frame :: "('c \<Rightarrow> bytes \<Rightarrow> bool \<times> 'c) option"

record 'c AivmRemoteBridge =
  bridge_config :: "AivmRemoteServerConfig option"
  bridge_session :: "AivmRemoteServerSession option"
  bridge_transport :: "'c AivmRemoteTransport"

definition aivm_remote_bridge_init ::
  "'c AivmRemoteBridge option \<Rightarrow> AivmRemoteServerConfig option \<Rightarrow> AivmRemoteServerSession option \<Rightarrow>
   'c AivmRemoteTransport \<Rightarrow> 'c AivmRemoteBridge option" where
  "aivm_remote_bridge_init bridge config session transport =
     (case bridge of
        None \<Rightarrow> None
      | Some b \<Rightarrow> Some (b\<lparr>bridge_config := config, bridge_session := session, bridge_transport := transport\<rparr>))"

definition set_context :: "'c AivmRemoteBridge \<Rightarrow> 'c \<Rightarrow> 'c AivmRemoteBridge" where
  "set_context b c = b\<lparr>bridge_transport := (bridge_transport b)\<lparr>transport_context := c\<rparr>\<rparr>"

text \<open>The result is the answer of the function and the bridge after it; \<open>None\<close> is an access outside
  the buffers.\<close>

definition aivm_remote_bridge_process_once ::
  "'c AivmRemoteBridge option \<Rightarrow> (bool \<times> 'c AivmRemoteBridge option) option" where
  "aivm_remote_bridge_process_once bridge =
     (case bridge of
        None \<Rightarrow> Some (False, None)
      | Some b \<Rightarrow>
          (case (bridge_config b, bridge_session b, transport_recv_frame (bridge_transport b),
                 transport_send_frame (bridge_transport b)) of
             (Some config, Some session, Some recv_frame, Some send_frame) \<Rightarrow>
               (case recv_frame (transport_context (bridge_transport b)) AIVM_REMOTE_TRANSPORT_MAX_FRAME of
                  (None, c) \<Rightarrow> Some (False, Some (set_context b c))
                | (Some in_frame, c) \<Rightarrow>
                    (case aivm_remote_server_process_frame (Some config) session (Some in_frame)
                            (Buffer AIVM_REMOTE_TRANSPORT_MAX_FRAME) True of
                       None \<Rightarrow> None
                     | Some (status, session', reply) \<Rightarrow>
                         let b' = (set_context b c)\<lparr>bridge_session := Some session'\<rparr> in
                         if status \<noteq> AIVM_REMOTE_SESSION_OK then Some (False, Some b')
                         else
                           (case send_frame c (case reply of None \<Rightarrow> [] | Some out_frame \<Rightarrow> out_frame) of
                              (sent, c') \<Rightarrow> Some (sent, Some (set_context b' c')))))
           | _ \<Rightarrow> Some (False, Some b)))"

section \<open>Standard streams\<close>

record stdio =
  stdio_in :: bytes
  stdio_out :: bytes
  stdio_room :: nat
  stdio_flush_ok :: bool

text \<open>\<^verbatim>\<open>fread\<close> of \<open>n\<close> bytes takes what is there, at most \<open>n\<close>; \<^verbatim>\<open>fwrite\<close> writes what
  the stream takes.\<close>

definition fread :: "nat \<Rightarrow> stdio \<Rightarrow> bytes \<times> stdio" where
  "fread n f = (take n (stdio_in f), f\<lparr>stdio_in := drop n (stdio_in f)\<rparr>)"

definition fwrite :: "bytes \<Rightarrow> stdio \<Rightarrow> nat \<times> stdio" where
  "fwrite data f =
     (let n = min (length data) (stdio_room f) in
      (n, f\<lparr>stdio_out := stdio_out f @ take n data, stdio_room := stdio_room f - n\<rparr>))"

definition aivm_remote_stdio_recv_frame :: "stdio \<Rightarrow> nat \<Rightarrow> bytes option \<times> stdio" where
  "aivm_remote_stdio_recv_frame f capacity =
     (case fread 4 f of
        (header, f) \<Rightarrow>
          if length header \<noteq> 4 then (None, f)
          else
            let len = unat (read_u32_le header 0) in
            if len > capacity then (None, f)
            else if len > 0 then
              (case fread len f of
                 (data, f) \<Rightarrow> if length data \<noteq> len then (None, f) else (Some data, f))
            else (Some [], f))"

definition aivm_remote_stdio_send_frame :: "stdio \<Rightarrow> bytes \<Rightarrow> bool \<times> stdio" where
  "aivm_remote_stdio_send_frame f data =
     (if length data > 2 ^ 32 - 1 then (False, f)
      else
        (case fwrite (u32_bytes (of_nat (length data))) f of
           (n, f) \<Rightarrow>
             if n \<noteq> 4 then (False, f)
             else if length data > 0 then
               (case fwrite data f of
                  (n, f) \<Rightarrow> if n \<noteq> length data then (False, f) else (stdio_flush_ok f, f))
             else (stdio_flush_ok f, f)))"

definition stdio_transport :: "stdio \<Rightarrow> stdio AivmRemoteTransport" where
  "stdio_transport f = \<lparr>transport_context = f, transport_recv_frame = Some aivm_remote_stdio_recv_frame,
     transport_send_frame = Some aivm_remote_stdio_send_frame\<rparr>"

section \<open>Frames on a stream\<close>

definition framed :: "bytes \<Rightarrow> bytes" where
  "framed data = u32_bytes (of_nat (length data)) @ data"

lemma length_framed [simp]: "length (framed data) = 4 + length data"
  by (simp add: framed_def)

lemma send_framed:
  assumes "length data < 2 ^ 32" and "length (framed data) \<le> stdio_room f"
  shows "aivm_remote_stdio_send_frame f data =
    (stdio_flush_ok f, f\<lparr>stdio_out := stdio_out f @ framed data, stdio_room := stdio_room f - length (framed data)\<rparr>)"
  using assms by (auto simp: aivm_remote_stdio_send_frame_def fwrite_def Let_def framed_def)

lemma sent_framed:
  assumes "aivm_remote_stdio_send_frame f data = (True, g)"
  shows "stdio_out g = stdio_out f @ framed data"
  using assms by (auto simp: aivm_remote_stdio_send_frame_def fwrite_def Let_def framed_def min_def split: if_splits)

lemma recv_framed:
  assumes "stdio_in f = framed data @ rest" and "length data \<le> capacity" and "length data < 2 ^ 32"
  shows "aivm_remote_stdio_recv_frame f capacity = (Some data, f\<lparr>stdio_in := rest\<rparr>)"
proof -
  have "read_u32_le (u32_bytes (of_nat (length data))) 0 = of_nat (length data)"
    using read_u32_at(1) [of 0 "u32_bytes (of_nat (length data))" "of_nat (length data)" "[]"] by simp
  moreover have "unat (of_nat (length data) :: u32) = length data"
    using assms(3) by (intro unat_of_nat_small) simp
  ultimately show ?thesis
    using assms(1,2) by (simp add: aivm_remote_stdio_recv_frame_def fread_def framed_def Let_def)
qed

text \<open>Sending and receiving several frames, one after the other.\<close>

primrec send_all :: "stdio \<Rightarrow> bytes list \<Rightarrow> bool \<times> stdio" where
  "send_all f [] = (True, f)"
| "send_all f (data # datas) =
     (case aivm_remote_stdio_send_frame f data of
        (ok, f) \<Rightarrow> if ok then send_all f datas else (False, f))"

primrec recv_all :: "nat \<Rightarrow> nat \<Rightarrow> stdio \<Rightarrow> bytes list option \<times> stdio" where
  "recv_all 0 capacity f = (Some [], f)"
| "recv_all (Suc n) capacity f =
     (case aivm_remote_stdio_recv_frame f capacity of
        (None, f) \<Rightarrow> (None, f)
      | (Some data, f) \<Rightarrow>
          (case recv_all n capacity f of (r, f) \<Rightarrow> (map_option (\<lambda>datas. data # datas) r, f)))"

lemma send_all_framed:
  assumes "send_all f datas = (True, f')"
  shows "stdio_out f' = stdio_out f @ concat (map framed datas)"
  using assms
proof (induction datas arbitrary: f)
  case (Cons data datas)
  obtain g where g: "aivm_remote_stdio_send_frame f data = (True, g)" "send_all g datas = (True, f')"
    using Cons.prems(1) by (auto split: prod.splits if_splits)
  from Cons.IH [OF g(2)] sent_framed [OF g(1)] show ?case
    by simp
qed simp

lemma recv_all_framed:
  assumes "stdio_in f = concat (map framed datas) @ rest"
    and "\<forall>data \<in> set datas. length data \<le> capacity \<and> length data < 2 ^ 32"
  shows "recv_all (length datas) capacity f = (Some datas, f\<lparr>stdio_in := rest\<rparr>)"
  using assms
proof (induction datas arbitrary: f)
  case (Cons data datas)
  then have "stdio_in f = framed data @ concat (map framed datas) @ rest"
    by simp
  with Cons show ?case
    by (simp add: recv_framed)
qed simp

text \<open>Frames that were sent over one end of a stream are received at the other end, in
  order and whole, and nothing of what follows them is taken.\<close>

lemma stdio_frames_roundtrip:
  assumes "send_all f datas = (True, f')" and "stdio_out f = []"
    and "\<forall>data \<in> set datas. length data \<le> capacity" and "capacity < 2 ^ 32"
  shows "recv_all (length datas) capacity (g\<lparr>stdio_in := stdio_out f' @ rest\<rparr>) = (Some datas, g\<lparr>stdio_in := rest\<rparr>)"
proof -
  have "\<forall>data \<in> set datas. length data < 2 ^ 32"
    using assms(3,4) by (meson le_less_trans)
  then show ?thesis
    using send_all_framed [OF assms(1)] assms(2-4) by (simp add: recv_all_framed)
qed

definition example_stream :: stdio where
  "example_stream = \<lparr>stdio_in = [], stdio_out = [], stdio_room = 100, stdio_flush_ok = True\<rparr>"

lemma stdio_frames_roundtrip_witness:
  "recv_all 2 16 (example_stream\<lparr>stdio_in := [2, 0, 0, 0, 7, 8, 1, 0, 0, 0, 9, 5]\<rparr>) =
     (Some [[7, 8], [9]], example_stream\<lparr>stdio_in := [5]\<rparr>)"
proof -
  have "send_all example_stream [[7, 8], [9]] =
      (True, example_stream\<lparr>stdio_out := [2, 0, 0, 0, 7, 8, 1, 0, 0, 0, 9], stdio_room := 89\<rparr>)"
    by (simp add: example_stream_def aivm_remote_stdio_send_frame_def fwrite_def Let_def u32_bytes_eq)
  from stdio_frames_roundtrip [OF this, of 16 "[5]" example_stream] show ?thesis
    by (simp add: example_stream_def flip: numeral_2_eq_2)
qed

section \<open>The bridge over streams\<close>

lemma codec_reply_status: "codec_reply session r = Some (st, session', b) \<Longrightarrow> st = AIVM_REMOTE_SESSION_OK \<longleftrightarrow> b \<noteq> None"
  by (cases r) (auto simp: codec_reply_def)

lemma process_frame_status:
  assumes "aivm_remote_server_process_frame config session input out has_out_length = Some (st, session', b)"
  shows "st = AIVM_REMOTE_SESSION_OK \<longleftrightarrow> b \<noteq> None"
  using assms
  by (auto simp: aivm_remote_server_process_frame_def process_hello_def process_call_def encode_error_frame_def Let_def
      split: option.splits if_splits codec.splits prod.splits dest: codec_reply_status)

definition stdio_bridge :: "AivmRemoteServerConfig \<Rightarrow> AivmRemoteServerSession \<Rightarrow> stdio \<Rightarrow> stdio AivmRemoteBridge" where
  "stdio_bridge config session f =
     \<lparr>bridge_config = Some config, bridge_session = Some session, bridge_transport = stdio_transport f\<rparr>"

text \<open>One turn of the bridge over standard streams takes exactly one frame from the
  input and hands it to the session, which is updated; the reply of the session is written to the
  output as one frame, and a frame the session refuses leaves the output alone.\<close>

lemma bridge_answers_frame:
  assumes "stdio_in f = framed request @ rest" and "length request \<le> AIVM_REMOTE_TRANSPORT_MAX_FRAME"
    and "aivm_remote_server_process_frame (Some config) session (Some request)
           (Buffer AIVM_REMOTE_TRANSPORT_MAX_FRAME) True = Some (status, session', reply)"
    and "\<forall>r. reply = Some r \<longrightarrow> length r < 2 ^ 32 \<and> length (framed r) \<le> stdio_room f"
    and "stdio_flush_ok f"
  shows "aivm_remote_bridge_process_once (Some (stdio_bridge config session f)) =
    Some (case reply of
        Some r \<Rightarrow> (True, Some (stdio_bridge config session' (f\<lparr>stdio_in := rest, stdio_out := stdio_out f @ framed r,
          stdio_room := stdio_room f - length (framed r)\<rparr>)))
      | None \<Rightarrow> (False, Some (stdio_bridge config session' (f\<lparr>stdio_in := rest\<rparr>))))"
proof -
  have "aivm_remote_stdio_recv_frame f AIVM_REMOTE_TRANSPORT_MAX_FRAME = (Some request, f\<lparr>stdio_in := rest\<rparr>)"
    using assms(1,2) by (intro recv_framed) (simp_all add: AIVM_REMOTE_TRANSPORT_MAX_FRAME_def)
  then show ?thesis
    using assms(3-5) process_frame_status [OF assms(3)]
    by (cases reply)
      (simp_all add: aivm_remote_bridge_process_once_def stdio_bridge_def stdio_transport_def set_context_def
        send_framed Let_def)
qed

lemma bridge_answers_frame_witness:
  "\<exists>session reply.
     aivm_remote_bridge_process_once (Some (stdio_bridge example_config aivm_remote_server_session_init
       (example_stream\<lparr>stdio_in := framed (frame AIVM_REMOTE_MSG_HELLO 1 (hello_payload example_hello)), stdio_room := 2000\<rparr>))) =
     Some (True, Some (stdio_bridge example_config session
       (example_stream\<lparr>stdio_in := [], stdio_out := framed reply, stdio_room := 2000 - length (framed reply)\<rparr>)))"
proof -
  let ?request = "frame AIVM_REMOTE_MSG_HELLO 1 (hello_payload example_hello)"
  let ?f = "example_stream\<lparr>stdio_in := framed ?request, stdio_room := 2000\<rparr>"
  let ?w = "\<lparr>welcome_proto_version = config_proto_version example_config,
    welcome_granted_caps = filter (cap_allowed example_config) (hello_requested_caps example_hello)\<rparr>"
  let ?reply = "frame AIVM_REMOTE_MSG_WELCOME 1 (welcome_payload ?w)"
  have w: "caps_ok (welcome_granted_caps ?w)"
    using granted_caps_ok [OF example_messages_ok(2)] by simp
  have len: "length (welcome_payload ?w) \<le> 1062" "length (hello_payload example_hello) \<le> 100"
    using caps_bound [OF w]
    by (simp_all add: welcome_payload_def hello_payload_def example_hello_def del: length_concat)
  have "aivm_remote_server_process_frame (Some example_config) aivm_remote_server_session_init (Some ?request)
      (Buffer AIVM_REMOTE_TRANSPORT_MAX_FRAME) True =
      Some (AIVM_REMOTE_SESSION_OK, greeted example_config example_hello, Some ?reply)"
    using encode_welcome [OF w] len(1)
    by (simp add: process_frame_of_type [OF example_config_ok] process_hello_spec [OF decode_hello_frame [OF example_messages_ok(2)]]
        encoded_large codec_reply_def AIVM_REMOTE_TRANSPORT_MAX_FRAME_def AIVM_REMOTE_HEADER_SIZE_def)
  from bridge_answers_frame [OF _ _ this, of ?f "[]"] len show ?thesis
    by (intro exI [of _ "greeted example_config example_hello"] exI [of _ ?reply])
      (simp add: length_frame AIVM_REMOTE_HEADER_SIZE_def AIVM_REMOTE_TRANSPORT_MAX_FRAME_def example_stream_def)
qed

end
