(* ===== verification/Ws_Frame.thy ===== *)
theory Ws_Frame
  imports Remote_Channel
begin

text \<open>
  The WebSocket frames of the remote channel, \<^verbatim>\<open>src/src/remote/aivm_remote_ws_frame.c\<close>:
  decoding a masked frame of a client and encoding an unmasked frame of the server. \<open>WsRefused\<close> is a
  return of 0, \<open>WsFault\<close> an access outside the buffers.
\<close>

section \<open>Decoding and encoding\<close>

record AivmWsFrame =
  ws_fin :: bool
  ws_opcode :: u8
  ws_payload :: bytes

definition AIVM_WS_MAX_PAYLOAD :: nat where "AIVM_WS_MAX_PAYLOAD = 65536"

datatype 'r ws = WsOk 'r | WsRefused | WsFault

primrec bind_ws :: "'r ws \<Rightarrow> ('r \<Rightarrow> 's ws) \<Rightarrow> 's ws" where
  "bind_ws (WsOk x) f = f x"
| "bind_ws WsRefused f = WsRefused"
| "bind_ws WsFault f = WsFault"

definition ws_read :: "(bytes \<Rightarrow> nat \<Rightarrow> 'r) \<Rightarrow> nat \<Rightarrow> bytes \<Rightarrow> nat \<Rightarrow> 'r ws" where
  "ws_read reader n bs index = (if index + n \<le> length bs then WsOk (reader bs index) else WsFault)"

definition read_u16_be :: "bytes \<Rightarrow> nat \<Rightarrow> u16" where
  "read_u16_be bs index = push_bit 8 (ucast (bs ! index)) OR ucast (bs ! (index + 1))"

definition read_u64_be :: "bytes \<Rightarrow> nat \<Rightarrow> u64" where
  "read_u64_be bs index = fold (\<lambda>i v. push_bit 8 v OR ucast (bs ! (index + i))) [0..<8] 0"

definition write_u16_be :: "u16 \<Rightarrow> bytes" where
  "write_u16_be v = [ucast (drop_bit 8 v AND 0xff), ucast (v AND 0xff)]"

text \<open>The payload length and the index after it.\<close>

definition ws_payload_length :: "bytes \<Rightarrow> u8 \<Rightarrow> (u64 \<times> nat) ws" where
  "ws_payload_length bs b1 =
     (let len7 = ucast (b1 AND 0x7f) :: u64; index = 2 in
      if len7 = 126 then
        if index + 2 > length bs then WsRefused
        else bind_ws (ws_read read_u16_be 2 bs index) (\<lambda>v. WsOk (ucast v, index + 2))
      else if len7 = 127 then
        if index + 8 > length bs then WsRefused
        else bind_ws (ws_read read_u64_be 8 bs index) (\<lambda>v. WsOk (v, index + 8))
      else WsOk (len7, index))"

definition ws_unmask :: "bytes \<Rightarrow> bytes \<Rightarrow> bytes" where
  "ws_unmask masking data = map (\<lambda>i. data ! i XOR masking ! (i mod 4)) [0..<length data]"

definition aivm_ws_decode_client_frame :: "bytes option \<Rightarrow> bool \<Rightarrow> (nat \<times> AivmWsFrame) ws" where
  "aivm_ws_decode_client_frame input has_out =
     (case input of
        None \<Rightarrow> WsRefused
      | Some bs \<Rightarrow>
          if \<not> has_out \<or> length bs < 2 then WsRefused
          else
            bind_ws (ws_read (!) 1 bs 0) (\<lambda>b0.
            bind_ws (ws_read (!) 1 bs 1) (\<lambda>b1.
            if b1 AND 0x80 = 0 then WsRefused
            else
              bind_ws (ws_payload_length bs b1) (\<lambda>(payload_length, index).
              if unat payload_length > AIVM_WS_MAX_PAYLOAD then WsRefused
              else if index + 4 > length bs then WsRefused
              else
                bind_ws (ws_read (\<lambda>bs i. take 4 (drop i bs)) 4 bs index) (\<lambda>masking.
                let index = index + 4; n = unat payload_length in
                if index + n > length bs then WsRefused
                else
                  bind_ws (ws_read (\<lambda>bs i. take n (drop i bs)) n bs index) (\<lambda>data.
                  WsOk (index + n,
                    \<lparr>ws_fin = (b0 AND 0x80 \<noteq> 0), ws_opcode = b0 AND 0x0f, ws_payload = ws_unmask masking data\<rparr>)))))))"

definition ws_store :: "out_buffer \<Rightarrow> bytes \<Rightarrow> bytes \<Rightarrow> bytes ws" where
  "ws_store out written field =
     (if out_null out \<or> length written + length field > out_capacity out then WsFault else WsOk (written @ field))"

definition ws_store_length :: "out_buffer \<Rightarrow> bytes \<Rightarrow> nat \<Rightarrow> bytes ws" where
  "ws_store_length out written payload_length =
     (if payload_length \<le> 125 then ws_store out written [of_nat payload_length]
      else if out_capacity out < length written + 3 then WsRefused
      else
        bind_ws (ws_store out written [126]) (\<lambda>written.
        ws_store out written (write_u16_be (of_nat payload_length))))"

definition aivm_ws_encode_server_control ::
  "u8 \<Rightarrow> bytes option \<Rightarrow> nat \<Rightarrow> out_buffer \<Rightarrow> bool \<Rightarrow> bytes ws" where
  "aivm_ws_encode_server_control opcode payload payload_length out has_out_length =
     (if out_null out \<or> \<not> has_out_length then WsRefused
      else if payload = None \<and> payload_length > 0 then WsRefused
      else if payload_length > AIVM_WS_MAX_PAYLOAD then WsRefused
      else if out_capacity out < 2 then WsRefused
      else
        bind_ws (ws_store out [] [0x80 OR (opcode AND 0x0f)]) (\<lambda>written.
        bind_ws (ws_store_length out written payload_length) (\<lambda>written.
        if out_capacity out < length written + payload_length then WsRefused
        else if payload_length > 0 then
          ws_store out written (case payload of None \<Rightarrow> [] | Some p \<Rightarrow> take payload_length p)
        else WsOk written)))"

definition aivm_ws_encode_server_binary ::
  "bytes option \<Rightarrow> nat \<Rightarrow> out_buffer \<Rightarrow> bool \<Rightarrow> bytes ws" where
  "aivm_ws_encode_server_binary payload payload_length out has_out_length =
     aivm_ws_encode_server_control 0x2 payload payload_length out has_out_length"

section \<open>Memory safety\<close>

definition ws_safe :: "'r ws \<Rightarrow> bool" where
  "ws_safe r \<longleftrightarrow> r \<noteq> WsFault"

lemma ws_safe_simps [simp]: "ws_safe (WsOk x)" "ws_safe WsRefused" "\<not> ws_safe WsFault"
  by (simp_all add: ws_safe_def)

lemma ws_safe_bind [intro]: "ws_safe r \<Longrightarrow> (\<And>x. r = WsOk x \<Longrightarrow> ws_safe (f x)) \<Longrightarrow> ws_safe (bind_ws r f)"
  by (cases r) simp_all

lemma ws_read_safe: "index + n \<le> length bs \<Longrightarrow> ws_safe (ws_read reader n bs index)"
  by (simp add: ws_read_def)

lemma ws_store_safe: "\<not> out_null out \<Longrightarrow> length written + length field \<le> out_capacity out \<Longrightarrow> ws_safe (ws_store out written field)"
  by (simp add: ws_store_def)

lemma ws_store_Ok: "ws_store out written field = WsOk w \<Longrightarrow> w = written @ field"
  by (simp add: ws_store_def split: if_splits)

lemma decode_client_frame_safe: "ws_safe (aivm_ws_decode_client_frame input has_out)"
  by (auto simp: aivm_ws_decode_client_frame_def ws_payload_length_def Let_def split: option.split
      intro!: ws_safe_bind ws_read_safe)

lemma encode_server_control_safe:
  "payload_length \<le> length p \<Longrightarrow> ws_safe (aivm_ws_encode_server_control opcode (Some p) payload_length out has_out_length)"
  by (auto simp: aivm_ws_encode_server_control_def ws_store_length_def write_u16_be_def
      intro!: ws_safe_bind ws_store_safe dest!: ws_store_Ok)

section \<open>Client frames\<close>

text \<open>The frame a client sends for a payload, as the protocol defines it: final flag and opcode, the
  length in seven, sixteen or sixty-four bits with the mask bit set, the mask, and the masked
  payload.\<close>

definition u64_be_bytes :: "u64 \<Rightarrow> bytes" where
  "u64_be_bytes v = rev (u64_bytes v)"

definition client_length :: "nat \<Rightarrow> bytes" where
  "client_length n =
     (if n \<le> 125 then [0x80 OR of_nat n]
      else if n < 2 ^ 16 then 0xfe # write_u16_be (of_nat n)
      else 0xff # u64_be_bytes (of_nat n))"

definition client_frame :: "bool \<Rightarrow> u8 \<Rightarrow> bytes \<Rightarrow> bytes \<Rightarrow> bytes" where
  "client_frame fin opcode masking payload =
     ((if fin then 0x80 else 0) OR opcode) # client_length (length payload) @ masking @ ws_unmask masking payload"

lemma length_ws_unmask [simp]: "length (ws_unmask masking data) = length data"
  by (simp add: ws_unmask_def)

lemma unmask_unmask: "ws_unmask masking (ws_unmask masking data) = data"
  by (rule nth_equalityI) (simp_all add: ws_unmask_def xor.assoc)

lemma read_u16_be_write:
  assumes "drop index bs = write_u16_be v @ rest"
  shows "read_u16_be bs index = v" and "index + 2 \<le> length bs" and "drop (index + 2) bs = rest"
proof -
  have len: "length (write_u16_be v) = 2"
    by (simp add: write_u16_be_def)
  then have ne: "write_u16_be v \<noteq> []"
    by auto
  note f = field_at [OF assms ne]
  show "index + 2 \<le> length bs" "drop (index + 2) bs = rest"
    using f(1,2) len by simp_all
  have m: "x AND 0xff = take_bit 8 x" for x :: u16
    by (simp add: take_bit_eq_mask mask_eq_exp_minus_1)
  have b: "bs ! index = ucast (drop_bit 8 v AND 0xff)" "bs ! (index + 1) = ucast (v AND 0xff)"
    using f(3) [of 0] f(3) [of 1] len by (simp_all add: write_u16_be_def)
  show "read_u16_be bs index = v"
    unfolding read_u16_be_def b m by (rule bit_word_eqI) (auto simp: bit_simps not_less)
qed

lemma u64_be_bytes_eq:
  "u64_be_bytes v = map (\<lambda>i. ucast (drop_bit (56 - 8 * i) v)) [0..<8]"
proof -
  have "ucast (drop_bit k (ucast v :: u32)) = (ucast (drop_bit k v) :: u8)" if "k \<le> 24" for k
    by (rule bit_word_eqI) (use that in \<open>auto simp: bit_simps\<close>)
  moreover have "ucast (drop_bit k (ucast (drop_bit 32 v) :: u32)) = (ucast (drop_bit (k + 32) v) :: u8)" if "k \<le> 24" for k
    by (rule bit_word_eqI) (use that in \<open>auto simp: bit_simps ac_simps\<close>)
  moreover have "ucast (ucast w :: u32) = (ucast w :: u8)" for w :: u64
    by (rule bit_word_eqI) (auto simp: bit_simps)
  ultimately show ?thesis
    by (simp add: u64_be_bytes_def u64_bytes_def u32_bytes_eq upt_conv_Cons)
qed

lemma be_step:
  assumes "k \<le> 56"
  shows "push_bit 8 (drop_bit (k + 8) v) OR ucast (ucast (drop_bit k v) :: u8) = (drop_bit k v :: u64)"
  by (rule bit_word_eqI) (use assms in \<open>auto simp: bit_simps not_less\<close>)

lemma read_u64_be_write:
  assumes "drop index bs = u64_be_bytes v @ rest"
  shows "read_u64_be bs index = v" and "index + 8 \<le> length bs" and "drop (index + 8) bs = rest"
proof -
  have len: "length (u64_be_bytes v) = 8"
    by (simp add: u64_be_bytes_def)
  then have ne: "u64_be_bytes v \<noteq> []"
    by auto
  note f = field_at [OF assms ne]
  show "index + 8 \<le> length bs" "drop (index + 8) bs = rest"
    using f(1,2) len by simp_all
  have b: "bs ! (index + i) = ucast (drop_bit (56 - 8 * i) v)" if "i < 8" for i
    using f(3) [of i] len that by (simp add: u64_be_bytes_eq)
  have "fold (\<lambda>i u. push_bit 8 u OR ucast (bs ! (index + i))) [0..<n] 0 = drop_bit (64 - 8 * n) v" if "n \<le> 8" for n
    using that
  proof (induction n)
    case 0
    show ?case
      by (rule bit_word_eqI) (auto simp: bit_simps dest: bit_imp_le_length)
  next
    case (Suc n)
    have "64 - 8 * n = 56 - 8 * n + 8"
      using Suc.prems by simp
    then show ?case
      using Suc be_step [of "56 - 8 * n" v] by (simp add: b)
  qed
  from this [of 8] show "read_u64_be bs index = v"
    by (simp add: read_u64_be_def)
qed

lemma flag_bits:
  fixes y :: u8
  assumes "take_bit 7 y = y"
  shows "(0x80 OR y) AND 0x80 \<noteq> 0" and "(0x80 OR y) AND 0x7f = y"
proof -
  have "bit ((0x80 OR y) AND 0x80) 7"
    by (simp add: bit_and_iff bit_or_iff)
  then show "(0x80 OR y) AND 0x80 \<noteq> 0"
    by auto
  have "x AND 0x7f = take_bit 7 x" for x :: u8
    by (simp add: take_bit_eq_mask mask_eq_exp_minus_1)
  then show "(0x80 OR y) AND 0x7f = y"
    using assms by simp
qed

lemma client_length_read:
  assumes "drop 1 bs = client_length n @ rest" and "n \<le> AIVM_WS_MAX_PAYLOAD"
  shows "bs ! 1 AND 0x80 \<noteq> 0" and "2 \<le> length bs"
    and "ws_payload_length bs (bs ! 1) = WsOk (of_nat n, 1 + length (client_length n))"
proof -
  have ne: "client_length n \<noteq> []"
    by (simp add: client_length_def)
  note f = field_at [OF assms(1) ne]
  show le: "2 \<le> length bs"
    using f(1) ne by (cases "client_length n") auto
  have b1: "bs ! 1 = hd (client_length n)"
    using f(3) [of 0] ne by (simp add: hd_conv_nth)
  have rest: "drop 2 bs = tl (client_length n) @ rest"
    using assms(1) ne by (metis One_nat_def Suc_1 drop_Suc tl_append2 tl_drop)
  consider "n \<le> 125" | "125 < n" "n < 2 ^ 16" | "n = 2 ^ 16"
    using assms(2) by (fastforce simp: AIVM_WS_MAX_PAYLOAD_def)
  then have "bs ! 1 AND 0x80 \<noteq> 0 \<and> ws_payload_length bs (bs ! 1) = WsOk (of_nat n, 1 + length (client_length n))"
  proof cases
    case 1
    have y: "take_bit 7 (of_nat n :: u8) = of_nat n"
      using 1 by (simp add: take_bit_of_nat take_bit_nat_eq_self)
    have "ucast (of_nat n :: u8) = (of_nat n :: u64)"
      using 1 by (intro word_unat_eq_iff [THEN iffD2]) (simp add: unat_of_nat_small unsigned_ucast_eq take_bit_nat_eq_self)
    moreover have "(of_nat n :: u64) \<noteq> 126" "(of_nat n :: u64) \<noteq> 127"
      using 1 unat_of_nat_small [of n, where 'a = 64] by auto
    moreover have "bs ! 1 = 0x80 OR of_nat n" "length (client_length n) = 1"
      using 1 b1 by (simp_all add: client_length_def)
    ultimately show ?thesis
      using flag_bits [OF y] by (simp only: ws_payload_length_def Let_def if_False) simp
  next
    case 2
    have at: "drop 2 bs = write_u16_be (of_nat n) @ rest"
      using 2 rest by (simp add: client_length_def)
    note r = read_u16_be_write [OF at]
    have "ucast (of_nat n :: u16) = (of_nat n :: u64)"
      using 2 by (intro word_unat_eq_iff [THEN iffD2]) (simp add: unat_of_nat_small unsigned_ucast_eq take_bit_nat_eq_self)
    moreover have "length (client_length n) = 3" "bs ! 1 = 0xfe"
      using 2 b1 by (simp_all add: client_length_def write_u16_be_def)
    ultimately show ?thesis
      using r(1,2) by (simp add: ws_payload_length_def ws_read_def)
  next
    case 3
    have at: "drop 2 bs = u64_be_bytes (of_nat n) @ rest"
      using 3 rest by (simp add: client_length_def)
    note r = read_u64_be_write [OF at]
    have "length (client_length n) = 9" "bs ! 1 = 0xff"
      using 3 b1 by (simp_all add: client_length_def u64_be_bytes_def)
    then show ?thesis
      using r(1,2) by (simp add: ws_payload_length_def ws_read_def)
  qed
  then show "bs ! 1 AND 0x80 \<noteq> 0" "ws_payload_length bs (bs ! 1) = WsOk (of_nat n, 1 + length (client_length n))"
    by blast+
qed

lemma opcode_bits:
  fixes opcode :: u8
  assumes "opcode < 16"
  shows "((if fin then 0x80 else 0) OR opcode) AND 0x0f = opcode"
    and "((if fin then 0x80 else 0) OR opcode) AND 0x80 \<noteq> 0 \<longleftrightarrow> fin"
proof -
  have m: "x AND 0x0f = take_bit 4 x" for x :: u8
    by (simp add: take_bit_eq_mask mask_eq_exp_minus_1)
  have small: "take_bit 4 opcode = opcode"
    using assms by (intro word_unat_eq_iff [THEN iffD2])
      (simp add: unsigned_take_bit_eq take_bit_nat_eq_self word_less_nat_alt)
  then show "((if fin then 0x80 else 0) OR opcode) AND 0x0f = opcode"
    by (simp add: m)
  have "opcode AND 0x80 = (opcode AND 0x0f) AND 0x80"
    by (simp only: m small)
  then have "opcode AND 0x80 = 0"
    by (simp add: and.assoc)
  moreover have "take_bit 7 (take_bit 4 opcode) = take_bit 4 opcode"
    by simp
  then have "take_bit 7 opcode = opcode"
    by (simp only: small)
  ultimately show "((if fin then 0x80 else 0) OR opcode) AND 0x80 \<noteq> 0 \<longleftrightarrow> fin"
    using flag_bits(1) by auto
qed



section \<open>Server frames\<close>

text \<open>C38 (bounds): a server frame is the flag and opcode byte, a seven- or sixteen-bit length and the
  payload, and is written exactly when the buffer has room for it. The length is right for payloads
  below 65536 bytes; a payload of exactly 65536 bytes, which is accepted, is announced with length
  zero.\<close>

theorem ws_server_frame_length:
  assumes "length p \<le> AIVM_WS_MAX_PAYLOAD"
  defines "head \<equiv> if length p \<le> 125 then [of_nat (length p)] else 126 # write_u16_be (of_nat (length p))"
  shows "aivm_ws_encode_server_control opcode (Some p) (length p) (Buffer capacity) True =
      (if 1 + length head + length p \<le> capacity then WsOk ((0x80 OR (opcode AND 0x0f)) # head @ p) else WsRefused) \<and>
    (125 < length p \<longrightarrow> unat (read_u16_be head 1) = (if length p = 65536 then 0 else length p))"
proof (intro conjI impI)
  show "aivm_ws_encode_server_control opcode (Some p) (length p) (Buffer capacity) True =
      (if 1 + length head + length p \<le> capacity then WsOk ((0x80 OR (opcode AND 0x0f)) # head @ p) else WsRefused)"
    using assms(1)
    by (auto simp: aivm_ws_encode_server_control_def ws_store_length_def ws_store_def head_def out_null_def write_u16_be_def)
  assume big: "125 < length p"
  then have "drop 1 head = write_u16_be (of_nat (length p)) @ []"
    by (simp add: head_def)
  then have "read_u16_be head 1 = of_nat (length p)"
    by (rule read_u16_be_write)
  then show "unat (read_u16_be head 1) = (if length p = 65536 then 0 else length p)"
    using assms(1) by (simp add: unat_of_nat take_bit_eq_mod AIVM_WS_MAX_PAYLOAD_def)
qed

theorem ws_server_frame_length_witness:
  "aivm_ws_encode_server_control 2 (Some (replicate 65536 7)) 65536 (Buffer 65540) True =
     WsOk (0x82 # 126 # 0 # 0 # replicate 65536 7)"
proof -
  have "write_u16_be (of_nat 65536) = [0, 0]"
    by (simp add: write_u16_be_def)
  with ws_server_frame_length [of "replicate 65536 7" 2 65540] show ?thesis
    by (simp add: AIVM_WS_MAX_PAYLOAD_def)
qed

end
