(* ===== verification/Host_Memory.thy ===== *)
theory Host_Memory
  imports VM_State
begin

text \<open>
  The host memory reserve of \<^verbatim>\<open>src/src/aivm_host_memory.c\<close>: growth of a tooling machine's storage is
  refused when it would leave the host below a reserve, and after a refusal until a margin above the
  reserve is free again. What the operating system reports, total and available bytes, is an
  argument; \<open>None\<close> where the platform has no report.
\<close>

definition AIVM_HOST_MEMORY_RESERVE_MIN :: nat where
  "AIVM_HOST_MEMORY_RESERVE_MIN = 512 * 1024 * 1024"
definition AIVM_HOST_MEMORY_RESERVE_PERCENT :: nat where "AIVM_HOST_MEMORY_RESERVE_PERCENT = 10"
definition AIVM_HOST_MEMORY_RESUME_PERCENT :: nat where "AIVM_HOST_MEMORY_RESUME_PERCENT = 5"

record AivmHostVm = AivmVm +
  vm_host_memory_growth_suspended :: bool

type_synonym 'a host_vm = "'a AivmHostVm_scheme"

text \<open>The bytes that stay free for the host.\<close>

definition host_memory_reserve :: "nat \<Rightarrow> nat" where
  "host_memory_reserve total_bytes =
     (let reserve = total_bytes div 100 * AIVM_HOST_MEMORY_RESERVE_PERCENT;
          reserve = (if reserve < AIVM_HOST_MEMORY_RESERVE_MIN then AIVM_HOST_MEMORY_RESERVE_MIN
                     else reserve)
      in if 0 < total_bytes \<and> total_bytes div 2 < reserve then total_bytes div 2 else reserve)"

text \<open>Whether the growth is allowed, and the new suspended flag.\<close>

definition aivm_host_memory_growth_allowed :: "nat \<Rightarrow> nat \<Rightarrow> nat \<Rightarrow> bool \<Rightarrow> bool \<times> bool" where
  "aivm_host_memory_growth_allowed total_bytes available growth was_suspended =
     (let reserve = host_memory_reserve total_bytes;
          resume_margin =
            (if was_suspended then total_bytes div 100 * AIVM_HOST_MEMORY_RESUME_PERCENT else 0)
      in case aivm_size_add_checked reserve resume_margin of
           None \<Rightarrow> (False, True)
         | Some required \<Rightarrow>
             (case aivm_size_add_checked required growth of
                None \<Rightarrow> (False, True)
              | Some required \<Rightarrow> if available < required then (False, True) else (True, False)))"

definition aivm_vm_admit_host_memory_growth ::
  "(nat \<times> nat) option \<Rightarrow> 'a host_vm \<Rightarrow> nat \<Rightarrow> bool \<times> 'a host_vm" where
  "aivm_vm_admit_host_memory_growth snapshot vm growth =
     (if vm_runtime_profile vm \<noteq> AIVM_RUNTIME_PROFILE_TOOLING then (True, vm)
      else case snapshot of
        None \<Rightarrow> (True, vm)
      | Some (total_bytes, available) \<Rightarrow>
          (case aivm_host_memory_growth_allowed total_bytes available growth
                  (vm_host_memory_growth_suspended vm) of
             (allowed, suspended) \<Rightarrow>
               let vm = vm\<lparr>vm_host_memory_growth_suspended := suspended\<rparr> in
               if allowed then (True, vm)
               else (False, aivm_set_vm_error vm AIVM_VM_ERR_MEMORY_PRESSURE
                 ''AIVMM006: tooling arena growth denied to preserve host memory reserve.'')))"

definition aivm_vm_host_memory_growth_available ::
  "(nat \<times> nat) option \<Rightarrow> 'a host_vm \<Rightarrow> nat \<Rightarrow> bool \<times> 'a host_vm" where
  "aivm_vm_host_memory_growth_available snapshot vm growth =
     (if vm_runtime_profile vm \<noteq> AIVM_RUNTIME_PROFILE_TOOLING then (False, vm)
      else case snapshot of
        None \<Rightarrow> (True, vm)
      | Some (total_bytes, available) \<Rightarrow>
          (case aivm_host_memory_growth_allowed total_bytes available growth
                  (vm_host_memory_growth_suspended vm) of
             (allowed, suspended) \<Rightarrow>
               (allowed, vm\<lparr>vm_host_memory_growth_suspended := suspended\<rparr>)))"

lemma host_memory_growth_allowed_leaves:
  "fst (aivm_host_memory_growth_allowed total_bytes available growth was_suspended) \<Longrightarrow>
   host_memory_reserve total_bytes + growth +
     (if was_suspended then total_bytes div 100 * AIVM_HOST_MEMORY_RESUME_PERCENT else 0) \<le> available"
  by (auto simp: aivm_host_memory_growth_allowed_def Let_def split: option.splits if_splits)

lemma host_memory_growth_suspends:
  "snd (aivm_host_memory_growth_allowed total_bytes available growth was_suspended) \<longleftrightarrow>
     \<not> fst (aivm_host_memory_growth_allowed total_bytes available growth was_suspended)"
  by (auto simp: aivm_host_memory_growth_allowed_def Let_def split: option.split)

text \<open>The two outcomes of a request.\<close>

definition growth_refused :: "'a host_vm \<Rightarrow> 'a host_vm" where
  "growth_refused vm = aivm_set_vm_error vm AIVM_VM_ERR_MEMORY_PRESSURE
     ''AIVMM006: tooling arena growth denied to preserve host memory reserve.''"

lemma admit_tooling:
  assumes "vm_runtime_profile vm = AIVM_RUNTIME_PROFILE_TOOLING"
    and "allowed = fst (aivm_host_memory_growth_allowed total_bytes available growth
           (vm_host_memory_growth_suspended vm))"
  shows "aivm_vm_admit_host_memory_growth (Some (total_bytes, available)) vm growth =
    (allowed, if allowed then vm\<lparr>vm_host_memory_growth_suspended := False\<rparr>
      else growth_refused (vm\<lparr>vm_host_memory_growth_suspended := True\<rparr>))"
  using assms host_memory_growth_suspends [of total_bytes available growth "vm_host_memory_growth_suspended vm"]
  by (cases "aivm_host_memory_growth_allowed total_bytes available growth
        (vm_host_memory_growth_suspended vm)")
    (simp add: aivm_vm_admit_host_memory_growth_def growth_refused_def)

lemma admit_other:
  "vm_runtime_profile vm \<noteq> AIVM_RUNTIME_PROFILE_TOOLING \<or> snapshot = None \<Longrightarrow>
   aivm_vm_admit_host_memory_growth snapshot vm growth = (True, vm)"
  by (auto simp: aivm_vm_admit_host_memory_growth_def)

lemma admit_result:
  "\<exists>s. aivm_vm_admit_host_memory_growth snapshot vm growth = (True, vm\<lparr>vm_host_memory_growth_suspended := s\<rparr>)
     \<or> aivm_vm_admit_host_memory_growth snapshot vm growth =
         (False, growth_refused (vm\<lparr>vm_host_memory_growth_suspended := s\<rparr>))"
proof (cases "vm_runtime_profile vm \<noteq> AIVM_RUNTIME_PROFILE_TOOLING \<or> snapshot = None")
  case True
  then show ?thesis
    by (intro exI [of _ "vm_host_memory_growth_suspended vm"]) (simp add: admit_other)
next
  case False
  then obtain t a where "snapshot = Some (t, a)"
    by auto
  with False show ?thesis
    using admit_tooling [OF _ refl, of vm t a growth]
    by (cases "fst (aivm_host_memory_growth_allowed t a growth (vm_host_memory_growth_suspended vm))")
      (simp_all, blast+)
qed

text \<open>Growth that a tooling machine is granted leaves the host its reserve, a tenth of
  its memory (at least 512 MiB, at most half of a small host); after a refusal the next grant leaves
  another twentieth; and the suspended flag records exactly whether the last request was refused.\<close>

lemma host_memory_reserve_kept:
  assumes "vm_runtime_profile vm = AIVM_RUNTIME_PROFILE_TOOLING"
    and "aivm_vm_admit_host_memory_growth (Some (total_bytes, available)) vm growth = (ok, vm')"
  shows "(ok \<longrightarrow> host_memory_reserve total_bytes + growth +
            (if vm_host_memory_growth_suspended vm then total_bytes div 100 * 5 else 0) \<le> available) \<and>
         vm_host_memory_growth_suspended vm' = (\<not> ok) \<and>
         (\<not> ok \<longrightarrow> vm_status vm' = AIVM_VM_STATUS_ERROR \<and> vm_error vm' = AIVM_VM_ERR_MEMORY_PRESSURE)"
  using assms(2) host_memory_growth_allowed_leaves [of total_bytes available growth
      "vm_host_memory_growth_suspended vm"]
  by (auto simp: admit_tooling [OF assms(1) refl] growth_refused_def aivm_set_vm_error_def
      AIVM_HOST_MEMORY_RESUME_PERCENT_def split: if_splits)

text \<open>A tooling machine on a host with 8 GB, 2 GB of them free.\<close>

definition tooling_vm :: AivmHostVm where
  "tooling_vm = AivmVm.extend (aivm_init_with_profile zeroed_vm aivm_program_clear
     AIVM_RUNTIME_PROFILE_TOOLING) \<lparr>vm_host_memory_growth_suspended = False\<rparr>"

lemma host_memory_reserve_kept_witness:
  "\<exists>vm'. aivm_vm_admit_host_memory_growth (Some (8000000000, 2000000000)) tooling_vm 1000000 = (True, vm') \<and>
     \<not> vm_host_memory_growth_suspended vm' \<and> host_memory_reserve 8000000000 + 1000000 \<le> 2000000000"
proof -
  have t: "vm_runtime_profile tooling_vm = AIVM_RUNTIME_PROFILE_TOOLING"
    "\<not> vm_host_memory_growth_suspended tooling_vm"
    by (simp_all add: tooling_vm_def aivm_init_with_profile_def aivm_reset_state_def
        aivm_set_runtime_profile_def AivmVm.defs)
  have "fst (aivm_host_memory_growth_allowed 8000000000 2000000000 1000000 False)"
    by (simp add: aivm_host_memory_growth_allowed_def host_memory_reserve_def SIZE_MAX_def
        AIVM_HOST_MEMORY_RESERVE_MIN_def AIVM_HOST_MEMORY_RESERVE_PERCENT_def)
  then obtain vm' where "aivm_vm_admit_host_memory_growth (Some (8000000000, 2000000000)) tooling_vm
      1000000 = (True, vm')"
    using admit_tooling [OF t(1) refl, of 8000000000 2000000000 1000000] t(2) by auto
  with host_memory_reserve_kept [OF t(1) this] t(2) show ?thesis
    by auto
qed

end
