(* ===== verification/String_Map.thy ===== *)
theory String_Map
  imports Host_Memory VM_Step
begin

text \<open>
  The string-to-integer maps of \<^verbatim>\<open>src/src/aivm_vm_map.c\<close> and the map instructions of
  \<^verbatim>\<open>src/src/aivm_vm.c\<close>: open addressing with linear probing, doubled before it is seven tenths full;
  a builder accepts entries until it is finished, and only a finished map can be read.

  A slot that is not occupied holds zeroes. The length of the slot list is \<^verbatim>\<open>slot_capacity\<close>. The
  probe loop has no bound in C; here it stops with \<open>None\<close> after one round through the table, from
  which it would start over forever, and the invariant excludes that. Keys are the text up to the
  terminating zero, as \<open>cptr_text\<close> gives it. \<open>alloc\<close> and \<open>snapshot\<close> are the host's allocator and
  memory report.
\<close>

section \<open>Slots and probing\<close>

record AivmMapSlot =
  slot_hash :: u64
  slot_key :: string
  slot_value :: int
  slot_occupied :: bool

record AivmMapRecord =
  map_active :: bool
  map_frozen :: bool
  map_slots :: "AivmMapSlot list"
  map_count :: nat

definition AIVM_VM_MAP_CAPACITY :: nat where "AIVM_VM_MAP_CAPACITY = 128"
definition sizeof_AivmMapSlot :: nat where "sizeof_AivmMapSlot = 32"

definition map_hash_string :: "string \<Rightarrow> u64" where
  "map_hash_string key =
     fold (\<lambda>c hash. (hash XOR of_nat (of_char c)) * 1099511628211) key 1469598103934665603"

definition empty_slot :: AivmMapSlot where
  "empty_slot = \<lparr>slot_hash = 0, slot_key = [], slot_value = 0, slot_occupied = False\<rparr>"

definition zero_map :: AivmMapRecord where
  "zero_map = \<lparr>map_active = False, map_frozen = False, map_slots = [], map_count = 0\<rparr>"

text \<open>The loop stops at a free slot or at the slot of the key.\<close>

definition probe_stops :: "AivmMapSlot list \<Rightarrow> string \<Rightarrow> u64 \<Rightarrow> nat \<Rightarrow> bool" where
  "probe_stops slots key hash slot \<longleftrightarrow>
     \<not> (slot_occupied (slots ! slot) \<and>
        (slot_hash (slots ! slot) \<noteq> hash \<or> slot_key (slots ! slot) \<noteq> key))"

primrec probe_loop :: "nat \<Rightarrow> AivmMapSlot list \<Rightarrow> string \<Rightarrow> u64 \<Rightarrow> nat \<Rightarrow> nat option" where
  "probe_loop 0 slots key hash slot = None"
| "probe_loop (Suc n) slots key hash slot =
     (if probe_stops slots key hash slot then Some slot
      else probe_loop n slots key hash ((slot + 1) mod length slots))"

definition map_slot_for :: "AivmMapSlot list \<Rightarrow> string \<Rightarrow> u64 \<Rightarrow> nat option" where
  "map_slot_for slots key hash =
     probe_loop (length slots) slots key hash (unat hash mod length slots)"

primrec rehash_loop :: "AivmMapSlot list \<Rightarrow> AivmMapSlot list \<Rightarrow> AivmMapSlot list option" where
  "rehash_loop [] replacement = Some replacement"
| "rehash_loop (s # olds) replacement =
     (if slot_occupied s then
        (case map_slot_for replacement (slot_key s) (slot_hash s) of
           None \<Rightarrow> None
         | Some slot \<Rightarrow> rehash_loop olds (replacement[slot := s]))
      else rehash_loop olds replacement)"

section \<open>Operations\<close>

record AivmMapVm = AivmHostVm +
  vm_maps :: "AivmMapRecord list"

type_synonym 'a map_vm = "'a AivmMapVm_scheme"

definition map_lookup :: "'a map_vm \<Rightarrow> int \<Rightarrow> AivmMapRecord option" where
  "map_lookup vm handle =
     (if handle \<le> 0 \<or> handle > int AIVM_VM_MAP_CAPACITY then None
      else let map = vm_maps vm ! nat (handle - 1)
           in if \<not> map_active map then None else Some map)"

definition map_store :: "'a map_vm \<Rightarrow> nat \<Rightarrow> AivmMapRecord \<Rightarrow> 'a map_vm" where
  "map_store vm index m = vm\<lparr>vm_maps := (vm_maps vm)[index := m]\<rparr>"

text \<open>The replaced map, or \<open>None\<close> with the machine's error set; the outer \<open>None\<close> is a probe that
  never ends.\<close>

definition map_resize ::
  "(nat \<Rightarrow> bool) \<Rightarrow> (nat \<times> nat) option \<Rightarrow> 'a map_vm \<Rightarrow> AivmMapRecord \<Rightarrow> nat \<Rightarrow>
   (AivmMapRecord option \<times> 'a map_vm) option" where
  "map_resize alloc snapshot vm m capacity =
     (if capacity > SIZE_MAX div sizeof_AivmMapSlot then Some (None, vm)
      else
        let growth_bytes = capacity * sizeof_AivmMapSlot;
            old_bytes = length (map_slots m) * sizeof_AivmMapSlot
        in
        (case (if growth_bytes > old_bytes
               then aivm_vm_admit_host_memory_growth snapshot vm (growth_bytes - old_bytes)
               else (True, vm)) of
           (admitted, vm) \<Rightarrow>
             if \<not> admitted then Some (None, vm)
             else if \<not> alloc growth_bytes then
               Some (None, aivm_set_vm_error vm AIVM_VM_ERR_MEMORY_PRESSURE ''MAP_BUILDER growth failed.'')
             else
               (case rehash_loop (map_slots m) (replicate capacity empty_slot) of
                  None \<Rightarrow> None
                | Some slots \<Rightarrow> Some (Some (m\<lparr>map_slots := slots\<rparr>), vm))))"

definition aivm_vm_reset_maps :: "'a map_vm \<Rightarrow> 'a map_vm" where
  "aivm_vm_reset_maps vm = vm\<lparr>vm_maps := replicate AIVM_VM_MAP_CAPACITY zero_map\<rparr>"

definition aivm_vm_map_builder_new ::
  "(nat \<Rightarrow> bool) \<Rightarrow> (nat \<times> nat) option \<Rightarrow> 'a map_vm \<Rightarrow> (int option \<times> 'a map_vm) option" where
  "aivm_vm_map_builder_new alloc snapshot vm =
     (case find_index (\<lambda>m. \<not> map_active m) (vm_maps vm) of
        None \<Rightarrow> Some (None, aivm_set_vm_error vm AIVM_VM_ERR_MEMORY_PRESSURE ''MAP_BUILDER capacity exceeded.'')
      | Some index \<Rightarrow>
          (case map_resize alloc snapshot vm ((vm_maps vm ! index)\<lparr>map_active := True\<rparr>) 16 of
             None \<Rightarrow> None
           | Some (resized, vm) \<Rightarrow>
               (case resized of
                  None \<Rightarrow> Some (None, map_store vm index zero_map)
                | Some m \<Rightarrow> Some (Some (int index + 1), map_store vm index m))))"

text \<open>The insertion, after the table has been grown.\<close>

definition map_insert ::
  "(nat \<Rightarrow> bool) \<Rightarrow> 'a map_vm \<Rightarrow> nat \<Rightarrow> AivmMapRecord \<Rightarrow> string \<Rightarrow> int \<Rightarrow>
   (unit option \<times> 'a map_vm) option" where
  "map_insert alloc vm index m key v =
     (let hash = map_hash_string key in
      case map_slot_for (map_slots m) key hash of
        None \<Rightarrow> None
      | Some slot \<Rightarrow>
          if slot_occupied (map_slots m ! slot) then
            Some (Some (), map_store vm index
              (m\<lparr>map_slots := (map_slots m)[slot := (map_slots m ! slot)\<lparr>slot_value := v\<rparr>]\<rparr>))
          else if \<not> alloc (length key + 1) then
            Some (None, aivm_set_vm_error (map_store vm index m) AIVM_VM_ERR_MEMORY_PRESSURE
              ''MAP_BUILDER key allocation failed.'')
          else
            Some (Some (), map_store vm index
              (m\<lparr>map_slots := (map_slots m)[slot :=
                  \<lparr>slot_hash = hash, slot_key = key, slot_value = v, slot_occupied = True\<rparr>],
                map_count := map_count m + 1\<rparr>)))"

definition aivm_vm_map_builder_put_string_int ::
  "(nat \<Rightarrow> bool) \<Rightarrow> (nat \<times> nat) option \<Rightarrow> 'a map_vm \<Rightarrow> int \<Rightarrow> string option \<Rightarrow> int \<Rightarrow>
   (unit option \<times> 'a map_vm) option" where
  "aivm_vm_map_builder_put_string_int alloc snapshot vm handle key v =
     (let refuse = Some (None, aivm_set_vm_error vm AIVM_VM_ERR_TYPE_MISMATCH
            ''MAP_BUILDER_PUT requires an active builder and string key.'')
      in case (map_lookup vm handle, key) of
        (Some m, Some key) \<Rightarrow>
          if map_frozen m then refuse
          else if (map_count m + 1) * 10 \<ge> length (map_slots m) * 7 then
            (case map_resize alloc snapshot vm m (length (map_slots m) * 2) of
               None \<Rightarrow> None
             | Some (resized, vm) \<Rightarrow>
                 (case resized of
                    None \<Rightarrow> Some (None, vm)
                  | Some m \<Rightarrow> map_insert alloc vm (nat (handle - 1)) m key v))
          else map_insert alloc vm (nat (handle - 1)) m key v
      | _ \<Rightarrow> refuse)"

definition aivm_vm_map_builder_finish :: "'a map_vm \<Rightarrow> int \<Rightarrow> unit option \<times> 'a map_vm" where
  "aivm_vm_map_builder_finish vm handle =
     (case map_lookup vm handle of
        Some m \<Rightarrow>
          if map_frozen m then
            (None, aivm_set_vm_error vm AIVM_VM_ERR_TYPE_MISMATCH
               ''MAP_BUILDER_FINISH requires an active builder.'')
          else (Some (), map_store vm (nat (handle - 1)) (m\<lparr>map_frozen := True\<rparr>))
      | None \<Rightarrow> (None, aivm_set_vm_error vm AIVM_VM_ERR_TYPE_MISMATCH
               ''MAP_BUILDER_FINISH requires an active builder.''))"

definition aivm_vm_map_count :: "'a map_vm \<Rightarrow> int \<Rightarrow> nat option" where
  "aivm_vm_map_count vm handle =
     (case map_lookup vm handle of
        None \<Rightarrow> None
      | Some m \<Rightarrow> if \<not> map_frozen m then None else Some (map_count m))"

text \<open>The value and whether the key was found; \<open>Some None\<close> is the failure result, \<open>None\<close> a probe
  that never ends.\<close>

definition aivm_vm_map_get_string_int ::
  "'a map_vm \<Rightarrow> int \<Rightarrow> string option \<Rightarrow> int \<Rightarrow> (int \<times> bool) option option" where
  "aivm_vm_map_get_string_int vm handle key fallback =
     (case (map_lookup vm handle, key) of
        (Some m, Some key) \<Rightarrow>
          if \<not> map_frozen m then Some None
          else
            (case map_slot_for (map_slots m) key (map_hash_string key) of
               None \<Rightarrow> None
             | Some slot \<Rightarrow>
                 if \<not> slot_occupied (map_slots m ! slot) then Some (Some (fallback, False))
                 else Some (Some (slot_value (map_slots m ! slot), True)))
      | _ \<Rightarrow> Some None)"

section \<open>Linear probing\<close>

text \<open>The \<open>d\<close>-th slot a probe for \<open>hash\<close> visits.\<close>

definition probe_at :: "AivmMapSlot list \<Rightarrow> u64 \<Rightarrow> nat \<Rightarrow> nat" where
  "probe_at slots hash d = (unat hash mod length slots + d) mod length slots"

lemma mod_length_less: "i < length xs \<Longrightarrow> k mod length xs < length xs"
  by (rule mod_less_divisor) auto

lemma probe_loop_Some:
  assumes "probe_loop n slots key hash slot = Some i" and "slot < length slots"
  shows "\<exists>d < n. i = (slot + d) mod length slots \<and> probe_stops slots key hash i \<and>
           (\<forall>e < d. \<not> probe_stops slots key hash ((slot + e) mod length slots))"
  using assms
proof (induction n arbitrary: slot)
  case 0
  then show ?case by simp
next
  case (Suc n)
  show ?case
  proof (cases "probe_stops slots key hash slot")
    case True
    with Suc.prems show ?thesis
      by (intro exI [of _ 0]) simp
  next
    case False
    let ?s = "(slot + 1) mod length slots"
    have "?s < length slots"
      using Suc.prems(2) by (rule mod_length_less)
    with Suc.IH [of ?s] Suc.prems(1) False obtain d where d: "d < n" "i = (?s + d) mod length slots"
      "probe_stops slots key hash i"
      "\<forall>e < d. \<not> probe_stops slots key hash ((?s + e) mod length slots)"
      by auto
    have shift: "(?s + e) mod length slots = (slot + Suc e) mod length slots" for e
      by (simp add: mod_add_left_eq)
    show ?thesis
      using d False Suc.prems(2) unfolding shift
      by (intro exI [of _ "Suc d"]) (auto simp: less_Suc_eq_0_disj)
  qed
qed

lemma probe_loop_None:
  assumes "probe_loop n slots key hash slot = None" and "slot < length slots" and "d < n"
  shows "\<not> probe_stops slots key hash ((slot + d) mod length slots)"
  using assms
proof (induction n arbitrary: slot d)
  case 0
  then show ?case by simp
next
  case (Suc n)
  then have ns: "\<not> probe_stops slots key hash slot"
    by (auto split: if_splits)
  show ?case
  proof (cases d)
    case 0
    with ns Suc.prems(2) show ?thesis by simp
  next
    case (Suc e)
    have "\<not> probe_stops slots key hash (((slot + 1) mod length slots + e) mod length slots)"
      using Suc.prems Suc ns by (intro Suc.IH) (auto split: if_splits intro: mod_length_less)
    then show ?thesis
      using Suc by (simp add: mod_add_left_eq)
  qed
qed

lemma map_slot_for_Some:
  assumes "map_slot_for slots key hash = Some i" and "slots \<noteq> []"
  shows "\<exists>d < length slots. i = probe_at slots hash d \<and> probe_stops slots key hash i \<and>
           (\<forall>e < d. \<not> probe_stops slots key hash (probe_at slots hash e))"
  using probe_loop_Some [OF assms(1) [unfolded map_slot_for_def]] assms(2)
  by (simp add: probe_at_def)

text \<open>Every slot is on every probe's way.\<close>

lemma probe_at_onto:
  assumes "j < length slots"
  shows "\<exists>d < length slots. probe_at slots hash d = j"
proof -
  let ?n = "length slots" and ?h = "unat hash mod length slots"
  have h: "?h < ?n"
    using assms by (rule mod_length_less)
  show ?thesis
  proof (cases "?h \<le> j")
    case True
    then show ?thesis
      using assms by (intro exI [of _ "j - ?h"]) (simp add: probe_at_def)
  next
    case False
    then have "?h + (j + ?n - ?h) = j + ?n"
      using h by simp
    then show ?thesis
      using assms False h by (intro exI [of _ "j + ?n - ?h"]) (simp add: probe_at_def)
  qed
qed

section \<open>The table as a finite map\<close>

definition slots_abs :: "AivmMapSlot list \<Rightarrow> string \<Rightarrow> int option" where
  "slots_abs slots key =
     map_option slot_value (find (\<lambda>s. slot_occupied s \<and> slot_key s = key) slots)"

text \<open>Every key sits once, with its hash, and no free slot precedes it on its probe.\<close>

definition on_probe :: "AivmMapSlot list \<Rightarrow> u64 \<Rightarrow> nat \<Rightarrow> bool" where
  "on_probe slots hash i \<longleftrightarrow>
     (\<exists>d < length slots. i = probe_at slots hash d \<and>
        (\<forall>e < d. slot_occupied (slots ! probe_at slots hash e)))"

definition slots_ok :: "AivmMapSlot list \<Rightarrow> bool" where
  "slots_ok slots \<longleftrightarrow>
     slots \<noteq> [] \<and>
     (\<forall>i < length slots. slot_occupied (slots ! i) \<longrightarrow>
        slot_hash (slots ! i) = map_hash_string (slot_key (slots ! i)) \<and>
        on_probe slots (slot_hash (slots ! i)) i) \<and>
     (\<forall>i < length slots. \<forall>j < length slots.
        slot_occupied (slots ! i) \<longrightarrow> slot_occupied (slots ! j) \<longrightarrow>
        slot_key (slots ! i) = slot_key (slots ! j) \<longrightarrow> i = j)"

definition occupied_count :: "AivmMapSlot list \<Rightarrow> nat" where
  "occupied_count slots = length (filter slot_occupied slots)"

lemma slots_abs_iff:
  assumes "slots_ok slots"
  shows "slots_abs slots key = Some v \<longleftrightarrow>
           (\<exists>j < length slots. slot_occupied (slots ! j) \<and> slot_key (slots ! j) = key \<and>
              slot_value (slots ! j) = v)"
proof
  assume "slots_abs slots key = Some v"
  then show "\<exists>j < length slots. slot_occupied (slots ! j) \<and> slot_key (slots ! j) = key \<and>
              slot_value (slots ! j) = v"
    by (auto simp: slots_abs_def find_Some_iff)
next
  assume "\<exists>j < length slots. slot_occupied (slots ! j) \<and> slot_key (slots ! j) = key \<and>
              slot_value (slots ! j) = v"
  then obtain j where j: "j < length slots" "slot_occupied (slots ! j)" "slot_key (slots ! j) = key"
    "slot_value (slots ! j) = v" by blast
  then have "find (\<lambda>s. slot_occupied s \<and> slot_key s = key) slots = Some (slots ! j)"
    using assms unfolding slots_ok_def find_Some_iff
    by (intro exI [of _ j]) (auto dest: less_trans)
  with j(4) show "slots_abs slots key = Some v"
    by (simp add: slots_abs_def)
qed

lemma slots_abs_None:
  assumes "slots_ok slots"
  shows "slots_abs slots key = None \<longleftrightarrow>
           (\<forall>j < length slots. slot_occupied (slots ! j) \<longrightarrow> slot_key (slots ! j) \<noteq> key)"
  by (auto simp: slots_abs_def find_None_iff in_set_conv_nth)

text \<open>What a probe finds: the key's slot, or a free slot when the key is absent.\<close>

lemma map_slot_for_found:
  assumes ok: "slots_ok slots" and i: "map_slot_for slots key (map_hash_string key) = Some i"
  shows "i < length slots" and "on_probe slots (map_hash_string key) i"
    and "slot_occupied (slots ! i) \<Longrightarrow> slot_key (slots ! i) = key"
    and "slots_abs slots key =
           (if slot_occupied (slots ! i) then Some (slot_value (slots ! i)) else None)"
proof -
  let ?h = "map_hash_string key"
  have ne: "slots \<noteq> []"
    using ok by (simp add: slots_ok_def)
  from map_slot_for_Some [OF i ne] obtain d where d: "d < length slots" "i = probe_at slots ?h d"
    "probe_stops slots key ?h i" "\<forall>e < d. \<not> probe_stops slots key ?h (probe_at slots ?h e)"
    by blast
  show lt: "i < length slots"
    using d(2) ne by (simp add: probe_at_def)
  show "on_probe slots ?h i"
    using d by (auto simp: on_probe_def probe_stops_def)
  show key: "slot_key (slots ! i) = key" if "slot_occupied (slots ! i)"
    using d(3) that by (simp add: probe_stops_def)
  have "slots_abs slots key = None" if free: "\<not> slot_occupied (slots ! i)"
    unfolding slots_abs_None [OF ok]
  proof (intro allI impI notI)
    fix j
    assume j: "j < length slots" "slot_occupied (slots ! j)" "slot_key (slots ! j) = key"
    then have hash: "slot_hash (slots ! j) = ?h" and "on_probe slots ?h j"
      using ok by (auto simp: slots_ok_def)
    then obtain c where c: "j = probe_at slots ?h c" "\<forall>e < c. slot_occupied (slots ! probe_at slots ?h e)"
      by (auto simp: on_probe_def)
    have "probe_stops slots key ?h j"
      using j(3) hash by (simp add: probe_stops_def)
    then have "d \<le> c"
      using d(4) c(1) by (meson not_le)
    then show False
      using c j(2) d(2) free by (metis le_neq_implies_less)
  qed
  moreover have "slots_abs slots key = Some (slot_value (slots ! i))" if "slot_occupied (slots ! i)"
    using lt key [OF that] that by (auto simp: slots_abs_iff [OF ok])
  ultimately show "slots_abs slots key =
      (if slot_occupied (slots ! i) then Some (slot_value (slots ! i)) else None)"
    by simp
qed

lemma map_slot_for_exists:
  assumes "j < length slots" and "\<not> slot_occupied (slots ! j)"
  shows "\<exists>i. map_slot_for slots key hash = Some i"
proof (rule ccontr)
  assume "\<nexists>i. map_slot_for slots key hash = Some i"
  then have none: "probe_loop (length slots) slots key hash (unat hash mod length slots) = None"
    by (simp add: map_slot_for_def)
  obtain d where "d < length slots" "probe_at slots hash d = j"
    using probe_at_onto [OF assms(1)] by blast
  with probe_loop_None [OF none mod_length_less [OF assms(1)], of d] assms show False
    by (auto simp: probe_at_def probe_stops_def)
qed

lemma nth_update_if: "xs[i := x] ! j = (if i = j \<and> j < length xs then x else xs ! j)"
  by (cases "i < length xs") (auto simp: nth_list_update list_update_beyond)

text \<open>Writing an occupied slot keeps every key on its probe.\<close>

lemma on_probe_update:
  assumes "on_probe slots hash i" and "slot_occupied s"
  shows "on_probe (slots[j := s]) hash i"
proof -
  have at: "probe_at (slots[j := s]) hash d = probe_at slots hash d" for d
    by (simp add: probe_at_def)
  show ?thesis
    using assms unfolding on_probe_def at by (auto simp: nth_update_if)
qed

definition new_slot :: "string \<Rightarrow> int \<Rightarrow> AivmMapSlot" where
  "new_slot key v = \<lparr>slot_hash = map_hash_string key, slot_key = key, slot_value = v, slot_occupied = True\<rparr>"

lemma slots_put:
  assumes ok: "slots_ok slots" and i: "map_slot_for slots key (map_hash_string key) = Some i"
  shows "slots_ok (slots[i := new_slot key v])"
    and "slots_abs (slots[i := new_slot key v]) = (slots_abs slots)(key \<mapsto> v)"
proof -
  note found = map_slot_for_found [OF ok i]
  let ?s = "slots[i := new_slot key v]"
  have absent: "slot_key (slots ! j) \<noteq> key"
    if "j < length slots" "slot_occupied (slots ! j)" "j \<noteq> i" for j
  proof (cases "slot_occupied (slots ! i)")
    case True
    then show ?thesis
      using that found(1,3) ok by (metis slots_ok_def)
  next
    case False
    then show ?thesis
      using that found(4) by (simp add: slots_abs_None [OF ok])
  qed
  have at: "?s ! j = (if j = i then new_slot key v else slots ! j)" if "j < length slots" for j
    using that by (simp add: nth_update_if)
  have new: "slot_occupied (new_slot key v)" "slot_key (new_slot key v) = key"
    "slot_hash (new_slot key v) = map_hash_string key" "slot_value (new_slot key v) = v"
    by (simp_all add: new_slot_def)
  show ok': "slots_ok ?s"
    unfolding slots_ok_def length_list_update
  proof (intro conjI allI impI)
    show "?s \<noteq> []"
      using ok by (simp add: slots_ok_def)
  next
    fix j
    assume "j < length slots" "slot_occupied (?s ! j)"
    then show "slot_hash (?s ! j) = map_hash_string (slot_key (?s ! j))"
      and "on_probe ?s (slot_hash (?s ! j)) j"
      using ok found(2) by (auto simp: at new slots_ok_def intro!: on_probe_update)
  next
    fix j l
    assume "j < length slots" "l < length slots" "slot_occupied (?s ! j)" "slot_occupied (?s ! l)"
      "slot_key (?s ! j) = slot_key (?s ! l)"
    then show "j = l"
      using ok absent [of j] absent [of l] by (auto simp: at new slots_ok_def split: if_splits)
  qed
  show "slots_abs ?s = (slots_abs slots)(key \<mapsto> v)"
  proof
    fix k
    have old: "j < length slots \<and> slot_occupied (?s ! j) \<and> slot_key (?s ! j) = k \<and> slot_value (?s ! j) = w
        \<longleftrightarrow> j < length slots \<and> slot_occupied (slots ! j) \<and> slot_key (slots ! j) = k \<and>
            slot_value (slots ! j) = w" if "k \<noteq> key" for j w
      using that found(3) by (auto simp: at new split: if_splits)
    have "slots_abs ?s k = Some w \<longleftrightarrow> ((slots_abs slots)(key \<mapsto> v)) k = Some w" for w
      unfolding slots_abs_iff [OF ok'] length_list_update
    proof (cases "k = key")
      case True
      have "(\<exists>j < length slots. slot_occupied (?s ! j) \<and> slot_key (?s ! j) = key \<and> slot_value (?s ! j) = w)
          \<longleftrightarrow> v = w"
        using absent found(1) at [of i] new by (auto simp: at split: if_splits intro!: exI [of _ i])
      with True show "(\<exists>j < length slots. slot_occupied (?s ! j) \<and> slot_key (?s ! j) = k \<and>
          slot_value (?s ! j) = w) \<longleftrightarrow> ((slots_abs slots)(key \<mapsto> v)) k = Some w"
        by simp
    next
      case False
      then show "(\<exists>j < length slots. slot_occupied (?s ! j) \<and> slot_key (?s ! j) = k \<and>
          slot_value (?s ! j) = w) \<longleftrightarrow> ((slots_abs slots)(key \<mapsto> v)) k = Some w"
        using old [OF False] by (simp add: slots_abs_iff [OF ok])
    qed
    then show "slots_abs ?s k = ((slots_abs slots)(key \<mapsto> v)) k"
      by (metis not_Some_eq)
  qed
qed

text \<open>Overwriting the value of the key's slot writes the same slot.\<close>

lemma overwrite_slot:
  assumes "slots_ok slots" and "map_slot_for slots key (map_hash_string key) = Some i"
    and "slot_occupied (slots ! i)"
  shows "(slots ! i)\<lparr>slot_value := v\<rparr> = new_slot key v"
  using assms map_slot_for_found(1,3) [OF assms(1,2)] by (simp add: slots_ok_def new_slot_def)

lemma occupied_count_update:
  assumes "i < length slots" and "slot_occupied s"
  shows "occupied_count (slots[i := s]) = occupied_count slots + (if slot_occupied (slots ! i) then 0 else 1)"
  using assms
proof (induction slots arbitrary: i)
  case (Cons t slots)
  then show ?case
    by (cases i) (auto simp: occupied_count_def)
qed simp

lemma occupied_count_less:
  assumes "occupied_count slots < length slots"
  shows "\<exists>j < length slots. \<not> slot_occupied (slots ! j)"
proof (rule ccontr)
  assume "\<not> ?thesis"
  then have "filter slot_occupied slots = slots"
    by (intro filter_True) (auto simp: in_set_conv_nth)
  with assms show False
    by (simp add: occupied_count_def)
qed

lemma slots_ok_replicate: "0 < n \<Longrightarrow> slots_ok (replicate n empty_slot)"
  by (simp add: slots_ok_def empty_slot_def)

lemma slots_abs_replicate: "slots_abs (replicate n empty_slot) = Map.empty"
  by (rule ext) (simp add: slots_abs_def find_None_iff empty_slot_def)

lemma occupied_count_replicate [simp]: "occupied_count (replicate n empty_slot) = 0"
  by (simp add: occupied_count_def empty_slot_def)

text \<open>Rehashing: the occupied slots of \<open>olds\<close> are added to the replacement.\<close>

definition fresh_keys :: "AivmMapSlot list \<Rightarrow> AivmMapSlot list \<Rightarrow> bool" where
  "fresh_keys olds slots \<longleftrightarrow>
     distinct (map slot_key (filter slot_occupied olds)) \<and>
     (\<forall>s \<in> set olds. slot_occupied s \<longrightarrow>
        slot_hash s = map_hash_string (slot_key s) \<and> slots_abs slots (slot_key s) = None)"

lemma rehash_spec:
  assumes "slots_ok slots" and "fresh_keys olds slots"
    and "occupied_count slots + occupied_count olds < length slots"
  shows "\<exists>slots'. rehash_loop olds slots = Some slots' \<and> slots_ok slots' \<and>
           length slots' = length slots \<and>
           occupied_count slots' = occupied_count slots + occupied_count olds \<and>
           slots_abs slots' = slots_abs slots ++ slots_abs olds"
  using assms
proof (induction olds arbitrary: slots)
  case Nil
  have "slots_abs [] = Map.empty"
    by (rule ext) (simp add: slots_abs_def)
  with Nil show ?case
    by (simp add: occupied_count_def)
next
  case (Cons s olds)
  show ?case
  proof (cases "slot_occupied s")
    case False
    then have "slots_abs (s # olds) = slots_abs olds" "occupied_count (s # olds) = occupied_count olds"
      by (simp_all add: slots_abs_def occupied_count_def fun_eq_iff)
    moreover have "fresh_keys olds slots"
      using Cons.prems(2) False by (simp add: fresh_keys_def)
    ultimately show ?thesis
      using Cons.IH [OF Cons.prems(1)] Cons.prems(3) False by simp
  next
    case True
    let ?k = "slot_key s"
    have hash: "slot_hash s = map_hash_string ?k" and absent: "slots_abs slots ?k = None"
      and fresh: "?k \<notin> slot_key ` set (filter slot_occupied olds)"
      using Cons.prems(2) True by (auto simp: fresh_keys_def)
    have count: "occupied_count (s # olds) = Suc (occupied_count olds)"
      using True by (simp add: occupied_count_def)
    obtain i where i: "map_slot_for slots ?k (map_hash_string ?k) = Some i"
      using occupied_count_less [of slots] Cons.prems(3) map_slot_for_exists by (metis add_lessD1)
    have s: "s = new_slot ?k (slot_value s)"
      using True hash by (simp add: new_slot_def)
    note found = map_slot_for_found [OF Cons.prems(1) i]
    have free: "\<not> slot_occupied (slots ! i)"
      using found(4) absent by (auto split: if_splits)
    have put: "slots_ok (slots[i := s])" "slots_abs (slots[i := s]) = (slots_abs slots)(?k \<mapsto> slot_value s)"
      using slots_put [OF Cons.prems(1) i, of "slot_value s"] s by simp_all
    have other: "slot_key t \<noteq> ?k" if "t \<in> set olds" "slot_occupied t" for t
    proof -
      have "t \<in> set (filter slot_occupied olds)"
        using that by simp
      with fresh show ?thesis
        by (metis imageI)
    qed
    then have "fresh_keys olds (slots[i := s])"
      using Cons.prems(2) True unfolding fresh_keys_def put(2) by simp
    moreover have n: "occupied_count (slots[i := s]) = Suc (occupied_count slots)"
      using occupied_count_update [OF found(1) True] free by simp
    ultimately obtain slots' where res: "rehash_loop olds (slots[i := s]) = Some slots'" "slots_ok slots'"
      "length slots' = length slots" "occupied_count slots' = Suc (occupied_count slots) + occupied_count olds"
      "slots_abs slots' = slots_abs (slots[i := s]) ++ slots_abs olds"
      using Cons.IH [OF put(1)] Cons.prems(3) count by auto
    have "slots_abs olds ?k = None"
      using other by (auto simp: slots_abs_def find_None_iff)
    then have "(slots_abs slots)(?k \<mapsto> slot_value s) ++ slots_abs olds = slots_abs slots ++ slots_abs (s # olds)"
      using True by (auto simp: fun_eq_iff map_add_def slots_abs_def split: option.split)
    then have "slots_abs slots' = slots_abs slots ++ slots_abs (s # olds)"
      using res(5) put(2) by simp
    with res show ?thesis
      using True i hash count by simp
  qed
qed

lemma fresh_keys_empty:
  assumes "slots_ok slots"
  shows "fresh_keys slots (replicate n empty_slot)"
  unfolding fresh_keys_def
proof
  have "distinct (map slot_key (filter slot_occupied xs))"
    if "\<forall>i < length xs. \<forall>j < length xs. slot_occupied (xs ! i) \<longrightarrow> slot_occupied (xs ! j) \<longrightarrow>
        slot_key (xs ! i) = slot_key (xs ! j) \<longrightarrow> i = j" for xs
    using that
  proof (induction xs)
    case (Cons x xs)
    have tail: "distinct (map slot_key (filter slot_occupied xs))"
      using Cons.prems by (intro Cons.IH) (metis Suc_less_eq length_Cons nth_Cons_Suc old.nat.inject)
    have "slot_key x \<noteq> slot_key (xs ! j)" if "slot_occupied x" "j < length xs" "slot_occupied (xs ! j)" for j
      using Cons.prems [rule_format, of 0 "Suc j"] that by auto
    with tail show ?case
      by (auto simp: in_set_conv_nth)
  qed simp
  then show "distinct (map slot_key (filter slot_occupied slots))"
    using assms unfolding slots_ok_def by blast
  show "\<forall>s \<in> set slots. slot_occupied s \<longrightarrow>
      slot_hash s = map_hash_string (slot_key s) \<and> slots_abs (replicate n empty_slot) (slot_key s) = None"
    using assms by (auto simp: slots_ok_def slots_abs_replicate in_set_conv_nth)
qed

section \<open>Maps\<close>

definition map_ok :: "AivmMapRecord \<Rightarrow> bool" where
  "map_ok m \<longleftrightarrow>
     (if map_active m then
        slots_ok (map_slots m) \<and> 16 \<le> length (map_slots m) \<and>
        map_count m = occupied_count (map_slots m) \<and> map_count m * 10 < length (map_slots m) * 7
      else m = zero_map)"

definition maps_ok :: "'a map_vm \<Rightarrow> bool" where
  "maps_ok vm \<longleftrightarrow> length (vm_maps vm) = AIVM_VM_MAP_CAPACITY \<and> (\<forall>m \<in> set (vm_maps vm). map_ok m)"

text \<open>The keyed contents of a handle's map, finished or not.\<close>

definition map_contents :: "'a map_vm \<Rightarrow> int \<Rightarrow> string \<Rightarrow> int option" where
  "map_contents vm handle key =
     (case map_lookup vm handle of None \<Rightarrow> None | Some m \<Rightarrow> slots_abs (map_slots m) key)"

lemma map_ok_probes:
  assumes "map_ok m" and "map_active m"
  shows "\<exists>i. map_slot_for (map_slots m) key hash = Some i"
proof -
  have "occupied_count (map_slots m) < length (map_slots m)"
    using assms by (simp add: map_ok_def)
  with occupied_count_less map_slot_for_exists show ?thesis
    by blast
qed

lemma map_lookup_ok: "maps_ok vm \<Longrightarrow> map_lookup vm handle = Some m \<Longrightarrow> map_ok m \<and> map_active m"
  by (auto simp: maps_ok_def map_lookup_def Let_def split: if_splits)

lemma admit_maps: "vm_maps (snd (aivm_vm_admit_host_memory_growth snapshot vm growth)) = vm_maps vm"
  using admit_result [of snapshot vm growth] by (auto simp: growth_refused_def aivm_set_vm_error_def)

lemma map_resize_spec:
  assumes "map_slots m = [] \<or> slots_ok (map_slots m)" and "occupied_count (map_slots m) < capacity"
  shows "\<exists>r vm'. map_resize alloc snapshot vm m capacity = Some (r, vm') \<and> vm_maps vm' = vm_maps vm \<and>
     (r = None \<or> (\<exists>slots. r = Some (m\<lparr>map_slots := slots\<rparr>) \<and> slots_ok slots \<and> length slots = capacity \<and>
        occupied_count slots = occupied_count (map_slots m) \<and> slots_abs slots = slots_abs (map_slots m)))"
proof -
  have pos: "0 < capacity"
    using assms(2) by simp
  have fresh: "fresh_keys (map_slots m) (replicate capacity empty_slot)"
    using assms(1) fresh_keys_empty by (auto simp: fresh_keys_def)
  obtain slots where slots: "rehash_loop (map_slots m) (replicate capacity empty_slot) = Some slots"
    "slots_ok slots" "length slots = capacity" "occupied_count slots = occupied_count (map_slots m)"
    "slots_abs slots = slots_abs (map_slots m)"
    using rehash_spec [OF slots_ok_replicate [OF pos] fresh] assms(2) by (auto simp: slots_abs_replicate)
  obtain b w where adm: "(if capacity * sizeof_AivmMapSlot > length (map_slots m) * sizeof_AivmMapSlot
       then aivm_vm_admit_host_memory_growth snapshot vm
              (capacity * sizeof_AivmMapSlot - length (map_slots m) * sizeof_AivmMapSlot)
       else (True, vm)) = (b, w)"
    by (rule prod.exhaust)
  moreover have "vm_maps w = vm_maps vm"
    using adm by (metis admit_maps snd_conv)
  ultimately show ?thesis
    using slots unfolding map_resize_def Let_def adm
    by (cases "SIZE_MAX div sizeof_AivmMapSlot < capacity"; cases b;
        cases "alloc (capacity * sizeof_AivmMapSlot)") (simp_all add: aivm_set_vm_error_def, blast)
qed

lemma map_lookup_store:
  assumes "maps_ok vm" and "map_lookup vm handle = Some m" and "map_active m'"
  shows "map_lookup (map_store vm (nat (handle - 1)) m') h = (if h = handle then Some m' else map_lookup vm h)"
proof -
  have range: "0 < handle" "handle \<le> int AIVM_VM_MAP_CAPACITY"
    using assms(2) by (auto simp: map_lookup_def split: if_splits)
  have len: "length (vm_maps vm) = AIVM_VM_MAP_CAPACITY"
    using assms(1) by (simp add: maps_ok_def)
  show ?thesis
  proof (cases "h = handle")
    case True
    then show ?thesis
      using range len assms(3) by (simp add: map_lookup_def map_store_def nat_less_iff)
  next
    case False
    then have "(vm_maps vm)[nat (handle - 1) := m'] ! nat (h - 1) = vm_maps vm ! nat (h - 1)" if "0 < h"
      using that range by (intro nth_list_update_neq) linarith
    with False show ?thesis
      by (simp add: map_lookup_def map_store_def)
  qed
qed

lemma maps_ok_store: "maps_ok vm \<Longrightarrow> map_ok m \<Longrightarrow> maps_ok (map_store vm index m)"
  using set_update_subset_insert [of "vm_maps vm" index m] by (auto simp: maps_ok_def map_store_def)

lemma maps_ok_cong: "vm_maps vm' = vm_maps vm \<Longrightarrow> maps_ok vm' = maps_ok vm"
  by (simp add: maps_ok_def)

lemma map_lookup_cong: "vm_maps vm' = vm_maps vm \<Longrightarrow> map_lookup vm' = map_lookup vm"
  by (simp add: map_lookup_def fun_eq_iff)

lemma set_error_maps [simp]: "vm_maps (aivm_set_vm_error vm e d) = vm_maps vm"
  by (simp add: aivm_set_vm_error_def)

text \<open>What an insertion does: nothing visible, or the new entry in this map and nothing elsewhere.\<close>

definition put_outcome ::
  "'a map_vm \<Rightarrow> int \<Rightarrow> string \<Rightarrow> int \<Rightarrow> unit option \<Rightarrow> 'a map_vm \<Rightarrow> bool" where
  "put_outcome vm handle key v r vm' \<longleftrightarrow>
     maps_ok vm' \<and>
     (\<forall>h. map_contents vm' h =
        (if r = Some () \<and> h = handle then (map_contents vm h)(key \<mapsto> v) else map_contents vm h)) \<and>
     (\<forall>h. map_option map_frozen (map_lookup vm' h) = map_option map_frozen (map_lookup vm h))"

lemma map_insert_spec:
  assumes ok: "maps_ok vm" and look: "map_lookup vm handle = Some m0" and m: "map_ok m" "map_active m"
    and room: "(map_count m + 1) * 10 < length (map_slots m) * 7"
    and same: "slots_abs (map_slots m) = slots_abs (map_slots m0)" "map_frozen m = map_frozen m0"
  shows "\<exists>r vm'. map_insert alloc vm (nat (handle - 1)) m key v = Some (r, vm') \<and>
           put_outcome vm handle key v r vm'"
proof -
  let ?h = "map_hash_string key" and ?n = "nat (handle - 1)"
  obtain i where i: "map_slot_for (map_slots m) key ?h = Some i"
    using map_ok_probes [OF m] by blast
  have sok: "slots_ok (map_slots m)"
    using m by (simp add: map_ok_def)
  note found = map_slot_for_found [OF sok i] and put = slots_put [OF sok i, of v]
  let ?slots = "(map_slots m)[i := new_slot key v]"
  let ?m = "m\<lparr>map_slots := ?slots, map_count := occupied_count ?slots\<rparr>"
  have count: "occupied_count ?slots = map_count m + (if slot_occupied (map_slots m ! i) then 0 else 1)"
    using occupied_count_update [OF found(1)] m by (simp add: map_ok_def new_slot_def)
  have ok': "map_ok ?m" "map_active ?m"
    using m put(1) room count by (auto simp: map_ok_def)
  have stored: "put_outcome vm handle key v (Some ()) (map_store vm ?n ?m)"
    using ok look maps_ok_store [OF ok ok'(1)] map_lookup_store [OF ok look ok'(2)] put(2) same
    by (auto simp: put_outcome_def map_contents_def fun_eq_iff)
  have failed: "put_outcome vm handle key v None (aivm_set_vm_error (map_store vm ?n m) e d)" for e d
    using ok look maps_ok_store [OF ok m(1)] map_lookup_store [OF ok look m(2)] same
    by (auto simp: put_outcome_def map_contents_def fun_eq_iff maps_ok_cong [OF set_error_maps]
        map_lookup_cong [OF set_error_maps])
  have "(map_slots m)[i := (map_slots m ! i)\<lparr>slot_value := v\<rparr>] = ?slots" if "slot_occupied (map_slots m ! i)"
    using overwrite_slot [OF sok i that] by simp
  then show ?thesis
    using stored failed count
    by (cases "slot_occupied (map_slots m ! i)")
      (auto simp: map_insert_def Let_def i new_slot_def)
qed

lemma map_put_spec:
  assumes ok: "maps_ok vm" and look: "map_lookup vm handle = Some m" and unfrozen: "\<not> map_frozen m"
  shows "\<exists>r vm'. aivm_vm_map_builder_put_string_int alloc snapshot vm handle (Some key) v = Some (r, vm') \<and>
           put_outcome vm handle key v r vm'"
proof -
  have m: "map_ok m" "map_active m"
    using map_lookup_ok [OF ok look] by simp_all
  then have sz: "slots_ok (map_slots m)" "16 \<le> length (map_slots m)" "map_count m = occupied_count (map_slots m)"
    "map_count m * 10 < length (map_slots m) * 7"
    by (simp_all add: map_ok_def)
  show ?thesis
  proof (cases "(map_count m + 1) * 10 \<ge> length (map_slots m) * 7")
    case False
    then show ?thesis
      using map_insert_spec [OF ok look m, of alloc key v] look unfrozen
      by (simp add: aivm_vm_map_builder_put_string_int_def)
  next
    case True
    obtain r w where res: "map_resize alloc snapshot vm m (length (map_slots m) * 2) = Some (r, w)"
      and maps: "vm_maps w = vm_maps vm" and outcome: "r = None \<or> (\<exists>slots. r = Some (m\<lparr>map_slots := slots\<rparr>) \<and>
        slots_ok slots \<and> length slots = length (map_slots m) * 2 \<and>
        occupied_count slots = occupied_count (map_slots m) \<and> slots_abs slots = slots_abs (map_slots m))"
      using map_resize_spec [of m "length (map_slots m) * 2" alloc snapshot vm] sz by auto
    have w: "maps_ok w" "map_lookup w = map_lookup vm" "map_contents w = map_contents vm"
      using ok maps_ok_cong [OF maps] map_lookup_cong [OF maps] by (simp_all add: map_contents_def fun_eq_iff)
    show ?thesis
    proof (cases r)
      case None
      then show ?thesis
        using res True look unfrozen w
        by (simp add: aivm_vm_map_builder_put_string_int_def put_outcome_def)
    next
      case (Some m')
      with outcome obtain slots where m': "m' = m\<lparr>map_slots := slots\<rparr>" and slots: "slots_ok slots"
        "length slots = length (map_slots m) * 2" "occupied_count slots = occupied_count (map_slots m)"
        "slots_abs slots = slots_abs (map_slots m)" by auto
      have "map_ok m'" "map_active m'" "(map_count m' + 1) * 10 < length (map_slots m') * 7"
        using m slots sz by (auto simp: m' map_ok_def)
      from map_insert_spec [OF w(1) _ this, of handle m alloc key v] look slots(4) w(2)
      obtain q u where "map_insert alloc w (nat (handle - 1)) m' key v = Some (q, u)"
        "put_outcome w handle key v q u"
        by (auto simp: m')
      then show ?thesis
        using res True look unfrozen w Some
        by (simp add: aivm_vm_map_builder_put_string_int_def put_outcome_def)
    qed
  qed
qed

lemma map_new_spec:
  assumes ok: "maps_ok vm"
  shows "\<exists>r vm'. aivm_vm_map_builder_new alloc snapshot vm = Some (r, vm') \<and> maps_ok vm' \<and>
    (\<forall>h. r = Some h \<longrightarrow> map_lookup vm h = None \<and> map_contents vm' h = Map.empty \<and>
        (\<exists>m. map_lookup vm' h = Some m \<and> \<not> map_frozen m)) \<and>
    (\<forall>h. r \<noteq> Some h \<longrightarrow> map_lookup vm' h = map_lookup vm h)"
proof (cases "find_index (\<lambda>m. \<not> map_active m) (vm_maps vm)")
  case None
  then show ?thesis
    using ok by (simp add: aivm_vm_map_builder_new_def maps_ok_cong [OF set_error_maps]
        map_lookup_cong [OF set_error_maps])
next
  case (Some n)
  have len: "length (vm_maps vm) = AIVM_VM_MAP_CAPACITY"
    using ok by (simp add: maps_ok_def)
  have n: "n < AIVM_VM_MAP_CAPACITY" and zero: "vm_maps vm ! n = zero_map"
    using find_index_SomeD [OF Some] ok len by (auto simp: maps_ok_def map_ok_def dest: nth_mem)
  let ?m = "zero_map\<lparr>map_active := True\<rparr>"
  obtain r w where res: "map_resize alloc snapshot vm ?m 16 = Some (r, w)" and maps: "vm_maps w = vm_maps vm"
    and outcome: "r = None \<or> (\<exists>slots. r = Some (?m\<lparr>map_slots := slots\<rparr>) \<and> slots_ok slots \<and>
      length slots = 16 \<and> occupied_count slots = 0 \<and> slots_abs slots = Map.empty)"
    using map_resize_spec [of ?m 16 alloc snapshot vm]
    by (auto simp: zero_map_def occupied_count_def slots_abs_def fun_eq_iff)
  have wok: "maps_ok w"
    using ok maps_ok_cong [OF maps] by simp
  have none: "map_lookup vm (int n + 1) = None"
    using zero by (simp add: map_lookup_def zero_map_def)
  have look: "map_lookup (map_store w n m') h =
      (if h = int n + 1 then (if map_active m' then Some m' else None) else map_lookup vm h)" for m' h
  proof (cases "h = int n + 1")
    case True
    then show ?thesis
      using n maps len by (simp add: map_lookup_def map_store_def)
  next
    case False
    then have "nat (h - 1) \<noteq> n" if "0 < h"
      using that by linarith
    with False maps show ?thesis
      by (cases "0 < h") (simp_all add: map_lookup_def map_store_def)
  qed
  show ?thesis
  proof (cases r)
    case None
    have "map_ok zero_map" "\<not> map_active zero_map"
      by (simp_all add: map_ok_def zero_map_def)
    then show ?thesis
      using res Some zero None look [of zero_map] none maps_ok_store [OF wok]
      by (simp add: aivm_vm_map_builder_new_def)
  next
    case (Some m)
    with outcome have "map_ok m" "map_active m" "\<not> map_frozen m" "slots_abs (map_slots m) = Map.empty"
      by (auto simp: map_ok_def zero_map_def)
    then show ?thesis
      using res \<open>find_index _ _ = _\<close> zero Some look [of m] none maps_ok_store [OF wok, of m n]
      by (simp add: aivm_vm_map_builder_new_def map_contents_def fun_eq_iff)
  qed
qed

lemma map_finish_spec:
  assumes ok: "maps_ok vm" and look: "map_lookup vm handle = Some m" and unfrozen: "\<not> map_frozen m"
  shows "\<exists>vm'. aivm_vm_map_builder_finish vm handle = (Some (), vm') \<and> maps_ok vm' \<and>
     map_contents vm' = map_contents vm \<and> map_lookup vm' handle = Some (m\<lparr>map_frozen := True\<rparr>)"
proof -
  have m: "map_ok m" "map_active m"
    using map_lookup_ok [OF ok look] by simp_all
  then have m': "map_ok (m\<lparr>map_frozen := True\<rparr>)" "map_active (m\<lparr>map_frozen := True\<rparr>)"
    by (simp_all add: map_ok_def)
  show ?thesis
    using look unfrozen maps_ok_store [OF ok m'(1)] map_lookup_store [OF ok look m'(2)]
    by (simp add: aivm_vm_map_builder_finish_def map_contents_def fun_eq_iff)
qed

lemma map_get_spec:
  assumes "maps_ok vm" and "map_lookup vm handle = Some m" and "map_frozen m"
  shows "aivm_vm_map_get_string_int vm handle (Some key) fallback =
     Some (Some (case map_contents vm handle key of None \<Rightarrow> (fallback, False) | Some v \<Rightarrow> (v, True)))"
proof -
  have m: "map_ok m" "map_active m"
    using map_lookup_ok [OF assms(1,2)] by simp_all
  then obtain i where "map_slot_for (map_slots m) key (map_hash_string key) = Some i"
    using map_ok_probes by blast
  with map_slot_for_found(4) [OF _ this] m assms show ?thesis
    by (simp add: aivm_vm_map_get_string_int_def map_contents_def map_ok_def)
qed

lemma occupied_count_card:
  assumes "slots_ok slots"
  shows "occupied_count slots = card (dom (slots_abs slots))"
proof -
  let ?o = "filter slot_occupied slots"
  have "dom (slots_abs slots) = slot_key ` set ?o"
    by (auto simp: slots_abs_def dom_def find_None_iff image_iff)
  moreover have "distinct (map slot_key ?o)"
    using fresh_keys_empty [OF assms] by (simp add: fresh_keys_def)
  ultimately show ?thesis
    using distinct_card [of "map slot_key ?o"] by (simp add: occupied_count_def)
qed

section \<open>Builders as a keyed store\<close>

definition map_put ::
  "(nat \<Rightarrow> bool) \<Rightarrow> (nat \<times> nat) option \<Rightarrow> int \<Rightarrow> 'a map_vm \<Rightarrow> string \<Rightarrow> int \<Rightarrow> 'a map_vm option" where
  "map_put alloc snapshot handle vm key v =
     (case aivm_vm_map_builder_put_string_int alloc snapshot vm handle (Some key) v of
        Some (Some u, vm') \<Rightarrow> Some vm' | _ \<Rightarrow> None)"

lemma map_put_Some:
  assumes "maps_ok vm" and "map_put alloc snapshot handle vm key v = Some vm'"
  shows "put_outcome vm handle key v (Some ()) vm'"
proof -
  from assms(2) have put: "aivm_vm_map_builder_put_string_int alloc snapshot vm handle (Some key) v = Some (Some (), vm')"
    by (auto simp: map_put_def split: option.splits)
  then obtain m where "map_lookup vm handle = Some m" "\<not> map_frozen m"
    by (auto simp: aivm_vm_map_builder_put_string_int_def Let_def split: option.splits if_splits)
  from map_put_spec [OF assms(1) this, of alloc snapshot key v] put show ?thesis
    by auto
qed

interpretation entries: keyed_store "\<lambda>vm. map_contents vm handle" "map_put alloc snapshot handle" maps_ok
  for alloc snapshot handle
  by unfold_locales (auto dest!: map_put_Some simp: put_outcome_def)

text \<open>A machine with no maps yet, and what its first builder accepts when the host grants
  everything.\<close>

definition map_demo :: AivmMapVm where
  "map_demo = aivm_vm_reset_maps (AivmHostVm.extend tooling_vm \<lparr>vm_maps = []\<rparr>)"

definition map_demo_builder :: AivmMapVm where
  "map_demo_builder =
     map_store map_demo 0 (zero_map\<lparr>map_active := True, map_slots := replicate 16 empty_slot\<rparr>)"

lemma find_index_replicate: "0 < n \<Longrightarrow> P z \<Longrightarrow> find_index P (replicate n z) = Some 0"
  by (cases n) simp_all

lemma map_demo_ok: "maps_ok map_demo"
  by (simp add: map_demo_def maps_ok_def aivm_vm_reset_maps_def map_ok_def zero_map_def)

lemma map_demo_new:
  "aivm_vm_map_builder_new (\<lambda>n. True) None map_demo = Some (Some 1, map_demo_builder)"
proof -
  have maps: "vm_maps map_demo = replicate AIVM_VM_MAP_CAPACITY zero_map"
    by (simp add: map_demo_def aivm_vm_reset_maps_def)
  have "find_index (\<lambda>m. \<not> map_active m) (vm_maps map_demo) = Some 0"
    unfolding maps by (rule find_index_replicate) (simp_all add: AIVM_VM_MAP_CAPACITY_def zero_map_def)
  then show ?thesis
    by (simp add: aivm_vm_map_builder_new_def map_resize_def Let_def maps admit_other SIZE_MAX_def
        sizeof_AivmMapSlot_def AIVM_VM_MAP_CAPACITY_def map_demo_builder_def) (simp add: zero_map_def)
qed

lemma map_put_granted:
  assumes "maps_ok vm" and "map_lookup vm handle = Some m" and "\<not> map_frozen m"
    and "(map_count m + 1) * 10 < length (map_slots m) * 7"
  shows "\<exists>vm'. map_put (\<lambda>n. True) snapshot handle vm key v = Some vm'"
proof -
  obtain i where "map_slot_for (map_slots m) key (map_hash_string key) = Some i"
    using map_ok_probes map_lookup_ok [OF assms(1,2)] by blast
  with assms show ?thesis
    by (simp add: map_put_def aivm_vm_map_builder_put_string_int_def map_insert_def Let_def)
qed

lemma map_demo_run:
  "\<exists>vm2 vm3. put_all (map_put (\<lambda>n. True) None 1) map_demo_builder [(''a'', 7)] = Some vm2 \<and>
     aivm_vm_map_builder_finish vm2 1 = (Some (), vm3)"
proof -
  have ok: "maps_ok map_demo_builder"
    and m: "map_lookup map_demo_builder 1 =
      Some (zero_map\<lparr>map_active := True, map_slots := replicate 16 empty_slot\<rparr>)"
    using map_new_spec [OF map_demo_ok, of "\<lambda>n. True" None] map_demo_new
    by (auto simp: map_demo_builder_def map_lookup_def map_store_def map_demo_def aivm_vm_reset_maps_def
        AIVM_VM_MAP_CAPACITY_def)
  obtain vm2 where put: "map_put (\<lambda>n. True) None 1 map_demo_builder ''a'' 7 = Some vm2"
    using map_put_granted [OF ok m, of None "''a''" 7] by (auto simp: zero_map_def)
  have out: "maps_ok vm2" "map_option map_frozen (map_lookup vm2 1) = Some False"
    using map_put_Some [OF ok put] m by (simp_all add: put_outcome_def zero_map_def)
  then obtain m2 where "maps_ok vm2" "map_lookup vm2 1 = Some m2" "\<not> map_frozen m2"
    by (cases "map_lookup vm2 1") auto
  with map_finish_spec [OF this] put show ?thesis
    by auto
qed



text \<open>On maps that satisfy the invariant, no insertion and no lookup probes forever,
  insertion keeps the invariant whatever the host refuses, a refused insertion changes no map, and a
  successful one changes no other map.\<close>

lemma map_put_total:
  assumes "maps_ok vm" and "map_lookup vm handle = Some m" and "\<not> map_frozen m"
  shows "\<exists>r vm'. aivm_vm_map_builder_put_string_int alloc snapshot vm handle (Some key) v = Some (r, vm') \<and>
     maps_ok vm' \<and>
     (\<forall>h. map_contents vm' h =
        (if r = Some () \<and> h = handle then (map_contents vm h)(key \<mapsto> v) else map_contents vm h))"
  using map_put_spec [OF assms, of alloc snapshot key v] unfolding put_outcome_def by blast

lemma map_put_total_witness:
  "\<exists>r vm'. aivm_vm_map_builder_put_string_int (\<lambda>n. n < 100) None map_demo_builder 1 (Some ''a'') 7 = Some (r, vm') \<and>
     maps_ok vm'"
proof -
  have ok: "maps_ok map_demo_builder" and "\<exists>m. map_lookup map_demo_builder 1 = Some m \<and> \<not> map_frozen m"
    using map_new_spec [OF map_demo_ok, of "\<lambda>n. True" None] map_demo_new by auto
  then show ?thesis
    using map_put_total [OF ok, of 1 _ "\<lambda>n. n < 100" None "''a''" 7] by blast
qed

end
