(* ===== verification/Map_Instructions.thy ===== *)
theory Map_Instructions
  imports String_Map
begin

text \<open>
  The map instructions of \<open>aivm_step\<close> (\<^verbatim>\<open>src/src/aivm_vm.c\<close>): one definition per case of the
  switch, and the group as an instance of the interpreter's argument for the instructions outside its
  core. Every case is one chain of operand pops, type checks and map operations in C; if any of them
  fails, an error is set unless the failing call set one, and the instruction pointer is parked.
\<close>

definition fail_unless_error :: "AivmProgram \<Rightarrow> 'a vm \<Rightarrow> string \<Rightarrow> 'a vm option" where
  "fail_unless_error p vm detail =
     Some (park p (if vm_status vm \<noteq> AIVM_VM_STATUS_ERROR
                   then aivm_set_vm_error vm AIVM_VM_ERR_TYPE_MISMATCH detail else vm))"

definition or_fail ::
  "AivmProgram \<Rightarrow> string \<Rightarrow> 'b option \<times> 'a vm \<Rightarrow> ('b \<Rightarrow> 'a vm \<Rightarrow> 'a vm option) \<Rightarrow> 'a vm option" where
  "or_fail p detail result continue =
     (case result of (r, vm) \<Rightarrow>
        (case r of None \<Rightarrow> fail_unless_error p vm detail | Some x \<Rightarrow> continue x vm))"

text \<open>The text of a string operand; \<open>None\<close> for another type or a null pointer.\<close>

definition string_operand :: "'a vm \<Rightarrow> AivmValue \<Rightarrow> string option" where
  "string_operand vm v =
     (case v of ValString s \<Rightarrow> cptr_text (vm_string_arena vm) s | _ \<Rightarrow> None)"

definition op_map_builder_new ::
  "(nat \<Rightarrow> bool) \<Rightarrow> (nat \<times> nat) option \<Rightarrow> AivmProgram \<Rightarrow> 'a map_vm \<Rightarrow> 'a map_vm option" where
  "op_map_builder_new alloc snapshot p vm =
     (case aivm_vm_map_builder_new alloc snapshot vm of
        None \<Rightarrow> None
      | Some r \<Rightarrow> or_park p r (\<lambda>handle vm. push_and_advance p vm (ValMapBuilder handle)))"

definition op_map_builder_put ::
  "(nat \<Rightarrow> bool) \<Rightarrow> (nat \<times> nat) option \<Rightarrow> AivmProgram \<Rightarrow> 'a map_vm \<Rightarrow> 'a map_vm option" where
  "op_map_builder_put alloc snapshot p vm =
     (let msg = ''MAP_BUILDER_PUT_STRING_INT requires (mapBuilder,string,int).'' in
      or_fail p msg (aivm_stack_pop vm) (\<lambda>value vm.
      or_fail p msg (aivm_stack_pop vm) (\<lambda>key vm.
      or_fail p msg (aivm_stack_pop vm) (\<lambda>builder vm.
        case (builder, string_operand vm key, value) of
          (ValMapBuilder handle, Some key, ValInt v) \<Rightarrow>
            (case aivm_vm_map_builder_put_string_int alloc snapshot vm handle (Some key) v of
               None \<Rightarrow> None
             | Some r \<Rightarrow>
                 or_fail p msg r (\<lambda>_ vm.
                   or_fail p msg (aivm_stack_push vm builder) (\<lambda>_ vm. Some (advance vm))))
        | _ \<Rightarrow> fail_unless_error p vm msg))))"

definition op_map_builder_finish :: "AivmProgram \<Rightarrow> 'a map_vm \<Rightarrow> 'a map_vm option" where
  "op_map_builder_finish p vm =
     (let msg = ''MAP_BUILDER_FINISH requires mapBuilder operand.'' in
      or_fail p msg (aivm_stack_pop vm) (\<lambda>builder vm.
        case builder of
          ValMapBuilder handle \<Rightarrow>
            or_fail p msg (aivm_vm_map_builder_finish vm handle) (\<lambda>_ vm.
              or_fail p msg (aivm_stack_push vm (ValMap handle)) (\<lambda>_ vm. Some (advance vm)))
        | _ \<Rightarrow> fail_unless_error p vm msg))"

text \<open>The count becomes an \<^verbatim>\<open>int64_t\<close>; it is below the slot capacity, whose bytes fit a size.\<close>

definition op_map_count :: "AivmProgram \<Rightarrow> 'a map_vm \<Rightarrow> 'a map_vm option" where
  "op_map_count p vm =
     (let msg = ''MAP_COUNT requires map operand.'' in
      or_fail p msg (aivm_stack_pop vm) (\<lambda>map_value vm.
        case map_value of
          ValMap handle \<Rightarrow>
            (case aivm_vm_map_count vm handle of
               None \<Rightarrow> fail_unless_error p vm msg
             | Some count \<Rightarrow>
                 or_fail p msg (aivm_stack_push vm (ValInt (int count))) (\<lambda>_ vm. Some (advance vm)))
        | _ \<Rightarrow> fail_unless_error p vm msg))"

text \<open>The common part of the two lookups, after the fallback.\<close>

definition map_lookup_tail ::
  "AivmProgram \<Rightarrow> bool \<Rightarrow> int \<Rightarrow> 'a map_vm \<Rightarrow> 'a map_vm option" where
  "map_lookup_tail p has_only fallback vm =
     (let msg = ''Map lookup requires (map,string).'' in
      or_fail p msg (aivm_stack_pop vm) (\<lambda>key vm.
      or_fail p msg (aivm_stack_pop vm) (\<lambda>map_value vm.
        case (map_value, string_operand vm key) of
          (ValMap handle, Some key) \<Rightarrow>
            (case aivm_vm_map_get_string_int vm handle (Some key) fallback of
               None \<Rightarrow> None
             | Some None \<Rightarrow> fail_unless_error p vm msg
             | Some (Some (v, found)) \<Rightarrow>
                 or_fail p msg (aivm_stack_push vm (if has_only then ValBool found else ValInt v))
                   (\<lambda>_ vm. Some (advance vm)))
        | _ \<Rightarrow> fail_unless_error p vm msg)))"

definition op_map_lookup :: "AivmProgram \<Rightarrow> AivmInstruction \<Rightarrow> 'a map_vm \<Rightarrow> 'a map_vm option" where
  "op_map_lookup p i vm =
     (if opcode i = AIVM_OP_MAP_GET_STRING_INT_OR then
        (case aivm_stack_pop vm of
           (Some (ValInt fallback), vm) \<Rightarrow> map_lookup_tail p False fallback vm
         | (_, vm) \<Rightarrow>
             fail_with p vm AIVM_VM_ERR_TYPE_MISMATCH
               ''MAP_GET_STRING_INT_OR requires integer fallback.'')
      else map_lookup_tail p True 0 vm)"

text \<open>The group, with \<open>rest\<close> for the instructions of the other groups.\<close>

definition map_ops ::
  "(nat \<Rightarrow> bool) \<Rightarrow> (nat \<times> nat) option \<Rightarrow> AivmProgram \<Rightarrow>
   (AivmInstruction \<Rightarrow> 'a map_vm \<Rightarrow> 'a map_vm option) \<Rightarrow> AivmInstruction \<Rightarrow> 'a map_vm \<Rightarrow>
   'a map_vm option" where
  "map_ops alloc snapshot p rest i vm =
     (let c = opcode i in
      if c = AIVM_OP_MAP_BUILDER_NEW then op_map_builder_new alloc snapshot p vm
      else if c = AIVM_OP_MAP_BUILDER_PUT_STRING_INT then op_map_builder_put alloc snapshot p vm
      else if c = AIVM_OP_MAP_BUILDER_FINISH then op_map_builder_finish p vm
      else if c = AIVM_OP_MAP_COUNT then op_map_count p vm
      else if c = AIVM_OP_MAP_HAS_STRING \<or> c = AIVM_OP_MAP_GET_STRING_INT_OR then op_map_lookup p i vm
      else rest i vm)"

section \<open>The invariant\<close>

named_theorems map_inv \<open>what keeps the invariant of the machine and its maps\<close>

text \<open>The machine invariant together with that of the maps, while an instruction executes, and what a
  handler must return: a machine that satisfies both.\<close>

definition map_running :: "AivmProgram \<Rightarrow> 'a map_vm \<Rightarrow> bool" where
  "map_running p vm \<longleftrightarrow> running_ok p vm \<and> maps_ok vm"

definition map_keeps :: "AivmProgram \<Rightarrow> 'a map_vm option \<Rightarrow> bool" where
  "map_keeps p r \<longleftrightarrow> (\<exists>vm'. r = Some vm' \<and> machine_ok p vm' \<and> maps_ok vm')"

text \<open>An operation that changes nothing but the extension of the core record, the error fields and
  the operand stack keeps the core invariant; these are its forms.\<close>

lemma running_maps: "running_ok p (vm\<lparr>vm_maps := ms\<rparr>) = running_ok p vm"
  by (simp add: running_ok_def machine_ok_def vm_bounds_def)

lemma running_suspended:
  "running_ok p (vm\<lparr>vm_host_memory_growth_suspended := b\<rparr>) = running_ok p vm"
  by (simp add: running_ok_def machine_ok_def vm_bounds_def)

lemma admit_running:
  "running_ok p vm \<Longrightarrow> running_ok p (snd (aivm_vm_admit_host_memory_growth snapshot vm growth))"
  using admit_result [of snapshot vm growth]
  by (auto simp: growth_refused_def running_suspended error_running)

lemma resize_running:
  assumes "running_ok p vm" and "map_resize alloc snapshot vm m capacity = Some (r, vm')"
  shows "running_ok p vm'"
proof -
  obtain b w where adm: "(if capacity * sizeof_AivmMapSlot > length (map_slots m) * sizeof_AivmMapSlot
       then aivm_vm_admit_host_memory_growth snapshot vm
              (capacity * sizeof_AivmMapSlot - length (map_slots m) * sizeof_AivmMapSlot)
       else (True, vm)) = (b, w)"
    by (rule prod.exhaust)
  then have "running_ok p w"
    using assms(1) admit_running [of p vm snapshot] by (metis snd_conv)
  then show ?thesis
    using assms unfolding map_resize_def Let_def adm
    by (auto split: if_splits option.splits intro: error_running)
qed

lemma insert_running:
  "running_ok p vm \<Longrightarrow> map_insert alloc vm n m key v = Some (r, vm') \<Longrightarrow> running_ok p vm'"
  by (auto simp: map_insert_def Let_def map_store_def running_maps split: option.splits if_splits
      intro: error_running)

lemma put_running:
  assumes "running_ok p vm"
    and "aivm_vm_map_builder_put_string_int alloc snapshot vm handle key v = Some (r, vm')"
  shows "running_ok p vm'"
  by (insert assms(2), auto simp: aivm_vm_map_builder_put_string_int_def Let_def error_running assms(1)
      split: option.splits if_splits dest: insert_running [OF assms(1)];
      drule resize_running [OF assms(1)]; simp add: insert_running)

lemma new_running:
  assumes "running_ok p vm" and "aivm_vm_map_builder_new alloc snapshot vm = Some (r, vm')"
  shows "running_ok p vm'"
  by (insert assms(2), auto simp: aivm_vm_map_builder_new_def map_store_def running_maps error_running assms(1)
      split: option.splits; drule resize_running [OF assms(1)]; simp)

lemma pop_maps: "vm_maps (snd (aivm_stack_pop vm)) = vm_maps vm"
  by (simp add: aivm_stack_pop_def aivm_set_vm_error_def split: list.split)

lemma push_maps: "vm_maps (snd (aivm_stack_push vm v)) = vm_maps vm"
  by (simp add: aivm_stack_push_def ensure_stack_capacity_def Let_def aivm_set_vm_error_def
      split: option.split bool.split)

lemma map_running_pop [map_inv]: "map_running p vm \<Longrightarrow> map_running p (snd (aivm_stack_pop vm))"
  by (simp add: map_running_def pop_running maps_ok_cong [OF pop_maps])

lemma map_running_push [map_inv]: "map_running p vm \<Longrightarrow> map_running p (snd (aivm_stack_push vm v))"
  by (simp add: map_running_def push_running maps_ok_cong [OF push_maps])

lemma advance_keeps [map_inv]: "map_running p vm \<Longrightarrow> map_keeps p (Some (advance vm))"
  by (simp add: map_running_def map_keeps_def advance_ok) (simp add: advance_def maps_ok_def)

lemma fail_keeps [map_inv]: "map_running p vm \<Longrightarrow> map_keeps p (fail_unless_error p vm detail)"
  by (simp add: map_running_def map_keeps_def fail_unless_error_def park_ok error_running)
    (simp add: park_def maps_ok_def aivm_set_vm_error_def)

lemma park_error_keeps [map_inv]:
  "map_running p vm \<Longrightarrow> e \<noteq> AIVM_VM_ERR_NONE \<Longrightarrow> map_keeps p (fail_with p vm e detail)"
  by (simp add: map_running_def map_keeps_def fail_with_def park_ok error_running)
    (simp add: park_def maps_ok_def aivm_set_vm_error_def)

lemma map_or_fail:
  assumes "map_running p (snd r)"
    and "\<And>x vm'. r = (Some x, vm') \<Longrightarrow> map_running p vm' \<Longrightarrow> map_keeps p (k x vm')"
  shows "map_keeps p (or_fail p msg r k)"
proof (cases r)
  case (Pair a vm')
  then show ?thesis
    using assms by (cases a) (simp_all add: or_fail_def fail_keeps)
qed

lemma map_or_park:
  assumes "map_running p (snd r)"
    and "\<And>x vm'. r = (Some x, vm') \<Longrightarrow> map_running p vm' \<Longrightarrow> map_keeps p (k x vm')"
  shows "map_keeps p (or_park p r k)"
proof (cases r)
  case (Pair a vm')
  have "map_keeps p (Some (park p vm'))"
    using assms(1) Pair by (simp add: map_running_def map_keeps_def park_ok) (simp add: park_def maps_ok_def)
  then show ?thesis
    using assms Pair by (cases a) (simp_all add: or_park_def)
qed

lemma push_and_advance_map [map_inv]: "map_running p vm \<Longrightarrow> map_keeps p (push_and_advance p vm v)"
  unfolding push_and_advance_def by (rule map_or_park) (simp_all add: map_inv)

text \<open>A map operation that returns, in the form the handlers use it.\<close>

lemma put_handled:
  assumes "map_running p vm"
  shows "\<exists>r. aivm_vm_map_builder_put_string_int alloc snapshot vm handle (Some key) v = Some r \<and>
             map_running p (snd r)"
proof (cases "\<exists>m. map_lookup vm handle = Some m \<and> \<not> map_frozen m")
  case True
  then show ?thesis
    using assms map_put_spec [of vm handle _ alloc snapshot key v] put_running [of p vm alloc snapshot handle "Some key" v]
    unfolding map_running_def put_outcome_def by (metis snd_conv)
next
  case False
  then show ?thesis
    using assms by (auto simp: aivm_vm_map_builder_put_string_int_def Let_def map_running_def
        maps_ok_cong [OF set_error_maps] intro: error_running split: option.split)
qed

lemma finish_handled:
  assumes "map_running p vm"
  shows "map_running p (snd (aivm_vm_map_builder_finish vm handle))"
proof (cases "\<exists>m. map_lookup vm handle = Some m \<and> \<not> map_frozen m")
  case True
  then obtain m where m: "map_lookup vm handle = Some m" "\<not> map_frozen m" by blast
  have "maps_ok vm" "running_ok p vm"
    using assms by (simp_all add: map_running_def)
  then show ?thesis
    using map_finish_spec [OF _ m] m
    by (auto simp: aivm_vm_map_builder_finish_def map_running_def) (simp add: map_store_def running_maps)
next
  case False
  then show ?thesis
    using assms by (auto simp: aivm_vm_map_builder_finish_def map_running_def
        maps_ok_cong [OF set_error_maps] intro: error_running split: option.split)
qed

lemma get_handled:
  assumes "maps_ok vm"
  shows "\<exists>r. aivm_vm_map_get_string_int vm handle (Some key) fallback = Some r"
proof (cases "\<exists>m. map_lookup vm handle = Some m \<and> map_frozen m")
  case True
  then show ?thesis
    using map_get_spec [OF assms] by blast
next
  case False
  then show ?thesis
    by (auto simp: aivm_vm_map_get_string_int_def split: option.split)
qed

lemma new_handled:
  assumes "map_running p vm"
  shows "\<exists>r. aivm_vm_map_builder_new alloc snapshot vm = Some r \<and> map_running p (snd r)"
  using assms map_new_spec [of vm alloc snapshot] new_running [of p vm alloc snapshot]
  unfolding map_running_def by (metis snd_conv)

lemma map_op_keeps:
  assumes "map_running p vm"
  shows "map_keeps p (op_map_builder_new alloc snapshot p vm)"
    and "map_keeps p (op_map_builder_put alloc snapshot p vm)"
    and "map_keeps p (op_map_builder_finish p vm)"
    and "map_keeps p (op_map_count p vm)"
    and "map_keeps p (map_lookup_tail p b fallback vm)"
proof -
  show "map_keeps p (op_map_builder_new alloc snapshot p vm)"
    using new_handled [OF assms, of alloc snapshot]
    by (auto simp: op_map_builder_new_def map_inv intro!: map_or_park)
  show "map_keeps p (op_map_builder_put alloc snapshot p vm)"
    unfolding op_map_builder_put_def Let_def
  proof (intro map_or_fail)
    fix vl key builder and w1 w2 w3
    assume w: "map_running p w3"
    have "map_keeps p (case aivm_vm_map_builder_put_string_int alloc snapshot w3 handle (Some k) v of
         None \<Rightarrow> None
       | Some r \<Rightarrow> or_fail p msg r (\<lambda>_ vm.
           or_fail p msg (aivm_stack_push vm builder) (\<lambda>_ vm. Some (advance vm))))" for handle k v msg
      using put_handled [OF w, of alloc snapshot handle k v]
      by (auto simp: map_inv intro!: map_or_fail)
    then show "map_keeps p (case (builder, string_operand w3 key, vl) of
          (ValMapBuilder handle, Some key, ValInt v) \<Rightarrow>
            (case aivm_vm_map_builder_put_string_int alloc snapshot w3 handle (Some key) v of
               None \<Rightarrow> None
             | Some r \<Rightarrow>
                 or_fail p ''MAP_BUILDER_PUT_STRING_INT requires (mapBuilder,string,int).'' r (\<lambda>_ vm.
                   or_fail p ''MAP_BUILDER_PUT_STRING_INT requires (mapBuilder,string,int).''
                     (aivm_stack_push vm builder) (\<lambda>_ vm. Some (advance vm))))
        | _ \<Rightarrow> fail_unless_error p w3 ''MAP_BUILDER_PUT_STRING_INT requires (mapBuilder,string,int).'')"
      using fail_keeps [OF w] by (simp split: AivmValue.split option.split)
  qed (use assms in \<open>simp_all add: map_inv\<close>)
  show "map_keeps p (op_map_builder_finish p vm)"
    unfolding op_map_builder_finish_def Let_def
    using assms by (auto intro!: map_or_fail simp: map_inv finish_handled split: AivmValue.split)
  show "map_keeps p (op_map_count p vm)"
    unfolding op_map_count_def Let_def
    using assms by (auto intro!: map_or_fail simp: map_inv split: AivmValue.split option.split)
  show "map_keeps p (map_lookup_tail p b fallback vm)"
    unfolding map_lookup_tail_def Let_def
  proof (intro map_or_fail)
    fix key map_value and w1 w2
    assume w: "map_running p w2"
    let ?msg = "''Map lookup requires (map,string).''"
    have "map_keeps p (case aivm_vm_map_get_string_int w2 handle (Some k) fallback of
         None \<Rightarrow> None
       | Some None \<Rightarrow> fail_unless_error p w2 ?msg
       | Some (Some (v, found)) \<Rightarrow>
           or_fail p ?msg (aivm_stack_push w2 (if b then ValBool found else ValInt v))
             (\<lambda>_ vm. Some (advance vm)))" for handle k
    proof -
      obtain r where "aivm_vm_map_get_string_int w2 handle (Some k) fallback = Some r"
        using get_handled [of w2] w unfolding map_running_def by blast
      then show ?thesis
        using w by (auto simp: map_inv intro!: map_or_fail split: option.split)
    qed
    then show "map_keeps p (case (map_value, string_operand w2 key) of
          (ValMap handle, Some key) \<Rightarrow>
            (case aivm_vm_map_get_string_int w2 handle (Some key) fallback of
               None \<Rightarrow> None
             | Some None \<Rightarrow> fail_unless_error p w2 ?msg
             | Some (Some (v, found)) \<Rightarrow>
                 or_fail p ?msg (aivm_stack_push w2 (if b then ValBool found else ValInt v))
                   (\<lambda>_ vm. Some (advance vm)))
        | _ \<Rightarrow> fail_unless_error p w2 ?msg)"
      using fail_keeps [OF w] by (simp split: AivmValue.split option.split)
  qed (use assms in \<open>simp_all add: map_inv\<close>)
qed

lemma op_map_lookup_keeps:
  assumes "map_running p vm"
  shows "map_keeps p (op_map_lookup p i vm)"
proof -
  obtain r w where pop: "aivm_stack_pop vm = (r, w)"
    by (rule prod.exhaust)
  then have "map_running p w"
    using map_running_pop [OF assms] by simp
  then show ?thesis
    using map_op_keeps(5) [OF assms] map_op_keeps(5) [of p w]
    by (auto simp: op_map_lookup_def pop map_inv split: option.split AivmValue.split)
qed

text \<open>C26 (invariant): the map instructions always return: started in a machine that satisfies its
  invariant and the maps', whatever the host grants, each leaves a machine that satisfies both.\<close>

theorem map_instructions_keep_invariant:
  assumes "running_ok p vm" and "maps_ok vm"
    and "opcode i \<in> {AIVM_OP_MAP_BUILDER_NEW, AIVM_OP_MAP_BUILDER_PUT_STRING_INT,
           AIVM_OP_MAP_BUILDER_FINISH, AIVM_OP_MAP_COUNT, AIVM_OP_MAP_HAS_STRING,
           AIVM_OP_MAP_GET_STRING_INT_OR}"
  shows "\<exists>vm'. execute safe_point (map_ops alloc snapshot p rest) p i vm = Some vm' \<and>
           machine_ok p vm' \<and> maps_ok vm'"
proof -
  have run: "map_running p vm"
    using assms by (simp add: map_running_def)
  have "execute safe_point (map_ops alloc snapshot p rest) p i vm = map_ops alloc snapshot p rest i vm"
    using assms(3) by (auto simp: execute_def AIVM_OP_MAX_def)
  moreover have "map_keeps p (map_ops alloc snapshot p rest i vm)"
    using assms(3) map_op_keeps [OF run] op_map_lookup_keeps [OF run]
    by (auto simp: map_ops_def Let_def)
  ultimately show ?thesis
    by (simp add: map_keeps_def)
qed

definition new_map_program :: AivmProgram where
  "new_map_program = aivm_program_init (Some [\<lparr>opcode = AIVM_OP_MAP_BUILDER_NEW, operand_int = 0\<rparr>]) 1"

theorem map_instructions_keep_invariant_witness:
  "\<exists>vm'. execute (\<lambda>vm. (True, vm)) (map_ops (\<lambda>n. True) None new_map_program (\<lambda>i vm. None)) new_map_program
       \<lparr>opcode = AIVM_OP_MAP_BUILDER_NEW, operand_int = 0\<rparr>
       (map_demo\<lparr>vm_program := Some new_map_program\<rparr>) = Some vm' \<and>
     machine_ok new_map_program vm' \<and> maps_ok vm'"
proof -
  let ?vm = "map_demo\<lparr>vm_program := Some new_map_program\<rparr>"
  have "running_ok new_map_program ?vm"
    by (simp add: running_ok_def machine_ok_def vm_bounds_def map_demo_def tooling_vm_def AivmVm.defs
        AivmHostVm.defs aivm_vm_reset_maps_def aivm_init_with_profile_def aivm_reset_state_def
        aivm_set_runtime_profile_def new_map_program_def aivm_program_init_def vm_growth vm_capacities)
  moreover have "maps_ok ?vm"
    using map_demo_ok by (simp add: maps_ok_def)
  ultimately show ?thesis
    by (rule map_instructions_keep_invariant) simp
qed

end
