(* ===== verification/Heap_State.thy ===== *)
theory Heap_State
  imports Map_Instructions
begin

text \<open>
  The storage a machine allocates values in (\<^verbatim>\<open>src/src/include/aivm_vm.h\<close>): the string and bytes arenas,
  scratch pairs, the node arena with its attributes and children, node builders, completed tasks and
  parallel values, and the lookups of \<^verbatim>\<open>src/src/aivm_vm_node.c\<close>. An array with a count is a list of the counted
  entries; its capacity is a field of its own where the code lets it grow.

  The view of a value is what a program can observe of it through the heap: the text a string points
  to, the bytes, the two components of a pair, kind, id, attributes and children of a node, to a given
  depth. The collectors are correct when they keep the view of every root.
\<close>

section \<open>Data\<close>

text \<open>The union of a node attribute with its kind as the tag; \<open>'p\<close> is the type of its pointers.\<close>

datatype 'p AivmNodeAttrValue =
    AIVM_NODE_ATTR_IDENTIFIER 'p | AIVM_NODE_ATTR_STRING 'p | AIVM_NODE_ATTR_INT int | AIVM_NODE_ATTR_BOOL bool

datatype 'p AivmNodeAttr = NodeAttr (attr_key: 'p) (attr_value: "'p AivmNodeAttrValue")

record AivmNodeRecord =
  node_kind :: cptr
  node_id :: cptr
  node_attr_start :: nat
  node_attr_count :: nat
  node_child_start :: nat
  node_child_count :: nat

record AivmScratchPair =
  pair_first :: AivmValue
  pair_second :: AivmValue

datatype AivmTaskState =
    AIVM_TASK_STATE_PENDING | AIVM_TASK_STATE_COMPLETED | AIVM_TASK_STATE_FAILED | AIVM_TASK_STATE_CANCELED

record AivmCompletedTask =
  task_state :: AivmTaskState
  task_handle :: int
  task_result :: AivmValue
  task_worker_context :: "nat option"
  task_worker_catalog_index :: nat
  task_is_worker :: bool

record AivmStringInternEntry =
  intern_hash :: u64
  intern_offset :: nat
  intern_length :: nat

text \<open>Kind, id and keys of a builder are copies it owns (\<open>CExt\<close>).\<close>

record AivmNodeBuilderRecord =
  builder_active :: bool
  builder_kind :: string
  builder_id :: string
  builder_attrs :: "cptr AivmNodeAttr list"
  builder_attr_capacity :: nat
  builder_children :: "int list"
  builder_child_capacity :: nat

text \<open>Counters that no decision but the pressure thresholds reads.\<close>

record AivmHeapCounters =
  string_arena_high_water :: nat
  string_arena_pressure_count :: nat
  bytes_arena_high_water :: nat
  bytes_arena_pressure_count :: nat
  node_high_water :: nat
  node_attr_high_water :: nat
  node_child_high_water :: nat
  node_arena_pressure_count :: nat
  node_gc_attempt_count :: nat
  node_gc_compaction_count :: nat
  node_gc_reclaimed_nodes :: nat
  node_gc_reclaimed_attrs :: nat
  node_gc_reclaimed_children :: nat

definition AIVM_VM_STRING_ARENA_GROWTH_STEP :: nat where "AIVM_VM_STRING_ARENA_GROWTH_STEP = 16384"
definition AIVM_VM_BYTES_ARENA_INITIAL_CAPACITY :: nat where "AIVM_VM_BYTES_ARENA_INITIAL_CAPACITY = 32768"
definition AIVM_VM_BYTES_ARENA_GROWTH_STEP :: nat where "AIVM_VM_BYTES_ARENA_GROWTH_STEP = 16384"
definition AIVM_VM_NODE_ATTR_CAPACITY :: nat where "AIVM_VM_NODE_ATTR_CAPACITY = 65536"
definition AIVM_VM_NODE_CHILD_CAPACITY :: nat where "AIVM_VM_NODE_CHILD_CAPACITY = 131072"
definition AIVM_VM_NODE_BUILDER_CAPACITY :: nat where "AIVM_VM_NODE_BUILDER_CAPACITY = 512"
definition AIVM_VM_SCRATCH_PAIR_CAPACITY :: nat where "AIVM_VM_SCRATCH_PAIR_CAPACITY = 32768"
definition AIVM_VM_NODE_GC_INTERVAL_ALLOCATIONS :: nat where "AIVM_VM_NODE_GC_INTERVAL_ALLOCATIONS = 64"
definition AIVM_VM_NODE_GC_RETURN_SAFEPOINT_ALLOCATIONS :: nat where
  "AIVM_VM_NODE_GC_RETURN_SAFEPOINT_ALLOCATIONS = 512"

text \<open>The machine with its heap. The base is the identity of the block the string arena lives in; the text
  pointer of the traversal cache is compared with pointers into it.\<close>

record AivmHeapVm = AivmMapVm +
  vm_string_arena_base :: nat
  vm_string_arena_limit :: nat
  vm_string_arena_capacity :: nat
  vm_string_intern_entries :: "AivmStringInternEntry list"
  vm_string_intern_count :: nat
  vm_string_intern_complete :: bool
  vm_utf8_offset_cache_text :: "(nat \<times> cptr) option"
  vm_utf8_offset_cache_rune :: nat
  vm_utf8_offset_cache_byte :: nat
  vm_bytes_arena_limit :: nat
  vm_bytes_arena_capacity :: nat
  vm_bytes_arena_gc_threshold :: nat
  vm_completed_tasks :: "AivmCompletedTask list"
  vm_par_values :: "AivmValue list"
  vm_scratch_pairs :: "AivmScratchPair list"
  vm_nodes :: "AivmNodeRecord list"
  vm_node_capacity :: nat
  vm_node_attrs :: "cptr AivmNodeAttr list"
  vm_node_attr_capacity :: nat
  vm_node_children :: "int list"
  vm_node_child_capacity :: nat
  vm_node_builders :: "AivmNodeBuilderRecord list"
  vm_process_argv_node_handle :: int
  vm_ui_default_window_size_node_handle :: int
  vm_ui_empty_event_node_handle :: int
  vm_node_allocations_since_gc :: nat
  vm_heap_counters :: AivmHeapCounters

type_synonym 'a heap_vm = "'a AivmHeapVm_scheme"

abbreviation vm_string_arena_used :: "'a heap_vm \<Rightarrow> nat" where
  "vm_string_arena_used vm \<equiv> length (vm_string_arena vm)"

abbreviation vm_bytes_arena_used :: "'a heap_vm \<Rightarrow> nat" where
  "vm_bytes_arena_used vm \<equiv> length (vm_bytes_arena vm)"

abbreviation vm_node_count :: "'a heap_vm \<Rightarrow> nat" where
  "vm_node_count vm \<equiv> length (vm_nodes vm)"

abbreviation vm_scratch_pair_count :: "'a heap_vm \<Rightarrow> nat" where
  "vm_scratch_pair_count vm \<equiv> length (vm_scratch_pairs vm)"

section \<open>Lookups\<close>

text \<open>The index of a handle: handles count from one.\<close>

definition aivm_vm_lookup_node :: "'a heap_vm \<Rightarrow> int \<Rightarrow> AivmNodeRecord option" where
  "aivm_vm_lookup_node vm handle =
     (if handle \<le> 0 \<or> handle > int (vm_node_count vm) then None else Some (vm_nodes vm ! nat (handle - 1)))"

definition aivm_vm_lookup_scratch_pair :: "'a heap_vm \<Rightarrow> int \<Rightarrow> AivmScratchPair option" where
  "aivm_vm_lookup_scratch_pair vm handle =
     (if handle \<le> 0 \<or> handle > int (vm_scratch_pair_count vm) then None
      else Some (vm_scratch_pairs vm ! nat (handle - 1)))"

definition aivm_vm_create_scratch_pair ::
  "'a heap_vm \<Rightarrow> AivmValue \<Rightarrow> AivmValue \<Rightarrow> int option \<times> 'a heap_vm" where
  "aivm_vm_create_scratch_pair vm v w =
     (case (if vm_scratch_pair_count vm \<ge> AIVM_VM_SCRATCH_PAIR_CAPACITY then None
            else aivm_size_add_checked (vm_scratch_pair_count vm) 1) of
        None \<Rightarrow> (None, aivm_set_vm_error vm AIVM_VM_ERR_MEMORY_PRESSURE ''AIVMM005: scratch pair capacity exceeded.'')
      | Some next_count \<Rightarrow>
          (Some (int next_count),
           vm\<lparr>vm_scratch_pairs := vm_scratch_pairs vm @ [\<lparr>pair_first = v, pair_second = w\<rparr>]\<rparr>))"

text \<open>The attributes and children of a node.\<close>

definition node_attrs :: "'a heap_vm \<Rightarrow> AivmNodeRecord \<Rightarrow> cptr AivmNodeAttr list" where
  "node_attrs vm node = take (node_attr_count node) (drop (node_attr_start node) (vm_node_attrs vm))"

definition node_children :: "'a heap_vm \<Rightarrow> AivmNodeRecord \<Rightarrow> int list" where
  "node_children vm node = take (node_child_count node) (drop (node_child_start node) (vm_node_children vm))"

section \<open>Roots\<close>

text \<open>The values the collectors start from, in the order of their loops.\<close>

definition local_values :: "'a vm \<Rightarrow> AivmValue list" where
  "local_values vm = map (vm_locals vm) [0..<vm_locals_count vm]"

definition root_values :: "'a heap_vm \<Rightarrow> AivmValue list" where
  "root_values vm =
     rev (vm_stack vm) @ local_values vm @ map task_result (vm_completed_tasks vm) @ vm_par_values vm"

text \<open>The nodes that are roots by their handles: the fixed ones, the children of active builders, and handles a
  caller holds while it allocates.\<close>

definition fixed_handles :: "'a heap_vm \<Rightarrow> int list" where
  "fixed_handles vm =
     [vm_process_argv_node_handle vm, vm_ui_default_window_size_node_handle vm, vm_ui_empty_event_node_handle vm]"

definition builder_handles :: "'a heap_vm \<Rightarrow> int list" where
  "builder_handles vm = concat (map (\<lambda>b. if builder_active b then builder_children b else []) (vm_node_builders vm))"

definition gc_roots :: "'a heap_vm \<Rightarrow> int list \<Rightarrow> AivmValue set" where
  "gc_roots vm extra =
     set (root_values vm) \<union>
     ValNode ` ({h \<in> set (fixed_handles vm). h > 0} \<union> set (builder_handles vm) \<union> {h \<in> set extra. h > 0})"

inductive reach :: "'a heap_vm \<Rightarrow> AivmValue set \<Rightarrow> AivmValue \<Rightarrow> bool" for vm roots where
  reach_root: "v \<in> roots \<Longrightarrow> reach vm roots v"
| reach_pair: "reach vm roots (ValPair h) \<Longrightarrow> aivm_vm_lookup_scratch_pair vm h = Some p \<Longrightarrow>
    v \<in> {pair_first p, pair_second p} \<Longrightarrow> reach vm roots v"
| reach_child: "reach vm roots (ValNode h) \<Longrightarrow> aivm_vm_lookup_node vm h = Some node \<Longrightarrow>
    c \<in> set (node_children vm node) \<Longrightarrow> reach vm roots (ValNode c)"

section \<open>Well-formed heaps\<close>

definition valid_handle :: "int \<Rightarrow> nat \<Rightarrow> bool" where
  "valid_handle h n \<longleftrightarrow> 0 < h \<and> h \<le> int n"

text \<open>The string arena is a sequence of texts, each with its terminating zero, and pointers lead to the
  beginning of one of them.\<close>

definition terminated :: "string \<Rightarrow> bool" where
  "terminated arena \<longleftrightarrow> arena = [] \<or> last arena = CHR 0x00"

definition block_start :: "string \<Rightarrow> nat \<Rightarrow> bool" where
  "block_start arena off \<longleftrightarrow> off < length arena \<and> (off = 0 \<or> arena ! (off - 1) = CHR 0x00)"

definition cstring_ok :: "string \<Rightarrow> cptr \<Rightarrow> bool" where
  "cstring_ok arena p \<longleftrightarrow> p \<noteq> CFreed \<and> (\<forall>off. p = CArena off \<longrightarrow> block_start arena off)"

definition data_ok :: "bytes \<Rightarrow> bptr \<Rightarrow> nat \<Rightarrow> bool" where
  "data_ok arena p len \<longleftrightarrow>
     p \<noteq> BFreed \<and> (\<forall>off. p = BArena off \<longrightarrow> off + len \<le> length arena) \<and> (\<forall>bs. p = BExt bs \<longrightarrow> len \<le> length bs)"

definition node_texts :: "'a heap_vm \<Rightarrow> AivmNodeRecord \<Rightarrow> cptr set" where
  "node_texts vm node = {node_kind node, node_id node} \<union> (\<Union>a \<in> set (node_attrs vm node). set_AivmNodeAttr a)"

definition pair_values_ok :: "nat \<Rightarrow> AivmScratchPair \<Rightarrow> bool" where
  "pair_values_ok n p \<longleftrightarrow>
     (\<forall>h. pair_first p = ValPair h \<longrightarrow> valid_handle h n) \<and> (\<forall>h. pair_second p = ValPair h \<longrightarrow> valid_handle h n)"

definition node_shape_ok :: "'a heap_vm \<Rightarrow> AivmNodeRecord \<Rightarrow> bool" where
  "node_shape_ok vm node \<longleftrightarrow>
     node_attr_start node + node_attr_count node \<le> length (vm_node_attrs vm) \<and>
     node_child_start node + node_child_count node \<le> length (vm_node_children vm) \<and>
     (\<forall>c \<in> set (node_children vm node). valid_handle c (vm_node_count vm))"

definition heap_closed :: "'a heap_vm \<Rightarrow> bool" where
  "heap_closed vm \<longleftrightarrow>
     (\<forall>p \<in> set (vm_scratch_pairs vm). pair_values_ok (vm_scratch_pair_count vm) p) \<and>
     (\<forall>node \<in> set (vm_nodes vm). node_shape_ok vm node) \<and>
     terminated (vm_string_arena vm) \<and> vm_node_count vm \<le> vm_node_capacity vm \<and>
     length (vm_node_attrs vm) \<le> vm_node_attr_capacity vm \<and>
     length (vm_node_children vm) \<le> vm_node_child_capacity vm \<and>
     vm_node_attr_capacity vm \<le> SIZE_MAX \<and> vm_node_child_capacity vm \<le> SIZE_MAX"

fun value_ok :: "'a heap_vm \<Rightarrow> AivmValue \<Rightarrow> bool" where
  "value_ok vm (ValString p) \<longleftrightarrow> cstring_ok (vm_string_arena vm) p"
| "value_ok vm (ValBytes p len) \<longleftrightarrow> data_ok (vm_bytes_arena vm) p len"
| "value_ok vm (ValPair h) \<longleftrightarrow> valid_handle h (vm_scratch_pair_count vm)"
| "value_ok vm (ValNode h) \<longleftrightarrow>
     valid_handle h (vm_node_count vm) \<and>
     (\<forall>p \<in> node_texts vm (vm_nodes vm ! nat (h - 1)). cstring_ok (vm_string_arena vm) p)"
| "value_ok vm v \<longleftrightarrow> True"

definition heap_ok :: "'a heap_vm \<Rightarrow> int list \<Rightarrow> bool" where
  "heap_ok vm extra \<longleftrightarrow> heap_closed vm \<and> (\<forall>v. reach vm (gc_roots vm extra) v \<longrightarrow> value_ok vm v)"

text \<open>A valid handle as an index.\<close>

lemma valid_handle_index: "valid_handle h n \<longleftrightarrow> (\<exists>i < n. h = int i + 1)"
  unfolding valid_handle_def by (auto intro!: exI [of _ "nat (h - 1)"])

lemma lookup_pair_iff:
  "aivm_vm_lookup_scratch_pair vm h = Some p \<longleftrightarrow>
   valid_handle h (vm_scratch_pair_count vm) \<and> p = vm_scratch_pairs vm ! nat (h - 1)"
  by (auto simp: aivm_vm_lookup_scratch_pair_def valid_handle_def)

lemma lookup_node_iff:
  "aivm_vm_lookup_node vm h = Some node \<longleftrightarrow>
   valid_handle h (vm_node_count vm) \<and> node = vm_nodes vm ! nat (h - 1)"
  by (auto simp: aivm_vm_lookup_node_def valid_handle_def)

lemma valid_handle_nth: "valid_handle h (length xs) \<Longrightarrow> xs ! nat (h - 1) \<in> set xs"
  by (auto simp: valid_handle_def intro!: nth_mem)

section \<open>Views\<close>

datatype view =
    VCut | VInvalid | VAtom AivmValue | VText "string option" | VData "bytes option" | VPair view view
  | VNode "string option" "string option" "string option AivmNodeAttr list" "view list"

definition data_view :: "bytes \<Rightarrow> bptr \<Rightarrow> nat \<Rightarrow> bytes option" where
  "data_view arena p len = (if len = 0 then Some [] else bptr_data arena p len)"

fun value_view :: "nat \<Rightarrow> 'a heap_vm \<Rightarrow> AivmValue \<Rightarrow> view" where
  "value_view n vm (ValString p) = VText (cptr_text (vm_string_arena vm) p)"
| "value_view n vm (ValBytes p len) = VData (data_view (vm_bytes_arena vm) p len)"
| "value_view 0 vm (ValPair h) = VCut"
| "value_view (Suc n) vm (ValPair h) =
     (case aivm_vm_lookup_scratch_pair vm h of
        None \<Rightarrow> VInvalid
      | Some p \<Rightarrow> VPair (value_view n vm (pair_first p)) (value_view n vm (pair_second p)))"
| "value_view 0 vm (ValNode h) = VCut"
| "value_view (Suc n) vm (ValNode h) =
     (case aivm_vm_lookup_node vm h of
        None \<Rightarrow> VInvalid
      | Some node \<Rightarrow>
          VNode (cptr_text (vm_string_arena vm) (node_kind node)) (cptr_text (vm_string_arena vm) (node_id node))
            (map (map_AivmNodeAttr (cptr_text (vm_string_arena vm))) (node_attrs vm node))
            (map (\<lambda>c. value_view n vm (ValNode c)) (node_children vm node)))"
| "value_view n vm v = VAtom v"

section \<open>Heaps with the same views\<close>

text \<open>Two values of two heaps look the same one step deep, up to a relation on what they point to.\<close>

fun similar :: "'a heap_vm \<Rightarrow> 'a heap_vm \<Rightarrow> (AivmValue \<Rightarrow> AivmValue \<Rightarrow> bool) \<Rightarrow> AivmValue \<Rightarrow> AivmValue \<Rightarrow> bool" where
  "similar vm vm' R (ValString p) v' \<longleftrightarrow>
     (\<exists>p'. v' = ValString p' \<and> cptr_text (vm_string_arena vm') p' = cptr_text (vm_string_arena vm) p)"
| "similar vm vm' R (ValBytes p len) v' \<longleftrightarrow>
     (\<exists>p'. v' = ValBytes p' len \<and> data_view (vm_bytes_arena vm') p' len = data_view (vm_bytes_arena vm) p len)"
| "similar vm vm' R (ValPair h) v' \<longleftrightarrow>
     (\<exists>h' p p'. v' = ValPair h' \<and> aivm_vm_lookup_scratch_pair vm h = Some p \<and>
        aivm_vm_lookup_scratch_pair vm' h' = Some p' \<and>
        R (pair_first p) (pair_first p') \<and> R (pair_second p) (pair_second p'))"
| "similar vm vm' R (ValNode h) v' \<longleftrightarrow>
     (\<exists>h' node node'. v' = ValNode h' \<and> aivm_vm_lookup_node vm h = Some node \<and>
        aivm_vm_lookup_node vm' h' = Some node' \<and>
        cptr_text (vm_string_arena vm') (node_kind node') = cptr_text (vm_string_arena vm) (node_kind node) \<and>
        cptr_text (vm_string_arena vm') (node_id node') = cptr_text (vm_string_arena vm) (node_id node) \<and>
        map (map_AivmNodeAttr (cptr_text (vm_string_arena vm'))) (node_attrs vm' node') =
          map (map_AivmNodeAttr (cptr_text (vm_string_arena vm))) (node_attrs vm node) \<and>
        list_all2 (\<lambda>c c'. R (ValNode c) (ValNode c')) (node_children vm node) (node_children vm' node'))"
| "similar vm vm' R v v' \<longleftrightarrow> v' = v"

lemma view_similar:
  assumes "\<And>v v'. R v v' \<Longrightarrow> similar vm vm' R v v'" and "R v v'"
  shows "value_view n vm' v' = value_view n vm v"
  using assms(2)
proof (induction n arbitrary: v v')
  case 0
  then show ?case
    using assms(1) [of v v'] by (cases v) auto
next
  case (Suc n)
  have "map (\<lambda>c. value_view n vm' (ValNode c)) cs' = map (\<lambda>c. value_view n vm (ValNode c)) cs"
    if "list_all2 (\<lambda>c c'. R (ValNode c) (ValNode c')) cs cs'" for cs cs'
    using that Suc.IH by (induction rule: list_all2_induct) auto
  with Suc show ?case
    using assms(1) [of v v'] by (cases v) auto
qed

end
