(* ===== verification/Heap_Marking.thy ===== *)
theory Heap_Marking
  imports Heap_State
begin

text \<open>
  The mark phases: \<open>aivm_vm_mark_live_scratch_pair_handles\<close> (\<^verbatim>\<open>src/src/aivm_vm.c\<close>), which follows pairs with a
  stack, and \<open>aivm_vm_mark_live_node_handles\<close> (\<^verbatim>\<open>src/src/aivm_vm_node_gc.c\<close>), which follows the children of nodes
  with a queue. Both are instances of one worklist algorithm, stated as a locale, whose result is the
  set of indices reachable from the ones marked first. A mark array is a predicate on indices; the
  answers of the allocator are an argument.
\<close>

type_synonym 'r or_error = "(AivmVmError \<times> string) + 'r"

text \<open>A loop of fallible steps, left at the first failure.\<close>

fun mark_each :: "('v \<Rightarrow> 's \<Rightarrow> 's or_error) \<Rightarrow> 'v list \<Rightarrow> 's \<Rightarrow> 's or_error" where
  "mark_each f [] s = Inr s"
| "mark_each f (v # vs) s = (case f v s of Inl e \<Rightarrow> Inl e | Inr s \<Rightarrow> mark_each f vs s)"

definition unmarked :: "nat \<Rightarrow> (nat \<Rightarrow> bool) \<Rightarrow> nat" where
  "unmarked n live = card {i. i < n \<and> \<not> live i}"

section \<open>Scratch pairs\<close>

type_synonym pair_marks = "(nat \<Rightarrow> bool) \<times> nat list"

definition mark_live_scratch_pair_value :: "AivmScratchPair list \<Rightarrow> AivmValue \<Rightarrow> pair_marks \<Rightarrow> pair_marks or_error" where
  "mark_live_scratch_pair_value pairs v s =
     (case s of (live, pending) \<Rightarrow>
      (case v of
         ValPair handle \<Rightarrow>
           if handle \<le> 0 \<or> handle > int (length pairs)
           then Inl (AIVM_VM_ERR_INVALID_PROGRAM, ''Invalid scratch-pair handle during pair mark.'')
           else
             let index = nat (handle - 1) in
             if live index then Inr (live, pending)
             else if length pending \<ge> length pairs
             then Inl (AIVM_VM_ERR_MEMORY_PRESSURE, ''AIVMM005: scratch-pair mark worklist exceeded capacity.'')
             else Inr (live(index := True), index # pending)
       | _ \<Rightarrow> Inr (live, pending)))"

definition mark_pair_components :: "AivmScratchPair list \<Rightarrow> nat \<Rightarrow> pair_marks \<Rightarrow> pair_marks or_error" where
  "mark_pair_components pairs i =
     mark_each (mark_live_scratch_pair_value pairs) [pair_first (pairs ! i), pair_second (pairs ! i)]"

lemma card_unmarked_less: "i < n \<Longrightarrow> \<not> live i \<Longrightarrow> unmarked n (live(i := True)) < unmarked n live"
  unfolding unmarked_def by (rule psubset_card_mono) auto

lemma mark_pair_value_measure:
  "mark_live_scratch_pair_value pairs v (live, pending) = Inr (live', pending') \<Longrightarrow>
   unmarked (length pairs) live' + length pending' \<le> unmarked (length pairs) live + length pending"
  by (cases v)
    (auto simp: mark_live_scratch_pair_value_def Let_def Suc_le_eq card_unmarked_less split: if_splits)

lemma mark_each_measure:
  assumes "\<And>v s s'. f v s = Inr s' \<Longrightarrow> (m s' :: nat) \<le> m s"
  shows "mark_each f vs s = Inr s' \<Longrightarrow> m s' \<le> m s"
  by (induction vs arbitrary: s) (auto split: sum.splits dest!: assms intro: le_trans)

lemma mark_pair_components_measure:
  assumes "mark_pair_components pairs i (live, pending) = Inr (live', pending')"
  shows "unmarked (length pairs) live' + length pending' \<le> unmarked (length pairs) live + length pending"
proof -
  let ?m = "\<lambda>(live, pending :: nat list). unmarked (length pairs) live + length pending"
  have step: "?m s' \<le> ?m s" if "mark_live_scratch_pair_value pairs v s = Inr s'" for v s s'
    using that mark_pair_value_measure [of pairs v] by (cases s; cases s') auto
  from mark_each_measure [where m = ?m, OF step assms [unfolded mark_pair_components_def]] show ?thesis
    by simp
qed

function mark_pairs_loop :: "AivmScratchPair list \<Rightarrow> pair_marks \<Rightarrow> (nat \<Rightarrow> bool) or_error" where
  "mark_pairs_loop pairs (live, pending) =
     (case pending of
        [] \<Rightarrow> Inr live
      | i # rest \<Rightarrow>
          (case mark_pair_components pairs i (live, rest) of
             Inl e \<Rightarrow> Inl e
           | Inr s \<Rightarrow> mark_pairs_loop pairs s))"
  by pat_completeness auto

termination
  by (relation "measure (\<lambda>(pairs, live, pending). unmarked (length pairs) live + length pending)")
    (auto dest!: mark_pair_components_measure simp: less_Suc_eq_le)

declare mark_pairs_loop.simps [simp del]

definition aivm_vm_mark_live_scratch_pair_handles ::
  "(nat \<Rightarrow> bool) \<Rightarrow> 'a heap_vm \<Rightarrow> (nat \<Rightarrow> bool) option \<times> 'a heap_vm" where
  "aivm_vm_mark_live_scratch_pair_handles alloc vm =
     (if vm_scratch_pair_count vm = 0 then (Some (\<lambda>i. False), vm)
      else if \<not> alloc (vm_scratch_pair_count vm * 8)
      then (None, aivm_set_vm_error vm AIVM_VM_ERR_MEMORY_PRESSURE
              ''AIVMM005: scratch-pair mark worklist allocation failed.'')
      else
        case (case mark_each (mark_live_scratch_pair_value (vm_scratch_pairs vm)) (root_values vm) (\<lambda>i. False, []) of
                Inl e \<Rightarrow> Inl e
              | Inr s \<Rightarrow> mark_pairs_loop (vm_scratch_pairs vm) s) of
          Inl (err, detail) \<Rightarrow> (None, aivm_set_vm_error vm err detail)
        | Inr live \<Rightarrow> (Some live, vm))"

section \<open>Nodes\<close>

text \<open>The marks, how many indices were put into the queue, and what is still in it. The queue index cannot
  overflow: it is below the capacity when it is increased.\<close>

type_synonym node_marks = "(nat \<Rightarrow> bool) \<times> nat \<times> nat list"

definition enqueue_handle :: "nat \<Rightarrow> nat \<Rightarrow> int \<Rightarrow> node_marks \<Rightarrow> node_marks or_error" where
  "enqueue_handle node_count capacity handle s =
     (case s of (live, queue_write, queue) \<Rightarrow>
        if handle > 0 \<and> handle \<le> int node_count then
          let index = nat (handle - 1) in
          if live index then Inr (live, queue_write, queue)
          else if queue_write \<ge> capacity
          then Inl (AIVM_VM_ERR_MEMORY_PRESSURE, ''AIVMM003: node mark queue capacity exceeded.'')
          else Inr (live(index := True), queue_write + 1, queue @ [index])
        else Inr (live, queue_write, queue))"

definition enqueue_value :: "nat \<Rightarrow> nat \<Rightarrow> AivmValue \<Rightarrow> node_marks \<Rightarrow> node_marks or_error" where
  "enqueue_value node_count capacity v s =
     (case v of ValNode handle \<Rightarrow> enqueue_handle node_count capacity handle s | _ \<Rightarrow> Inr s)"

definition enqueue_extra :: "nat \<Rightarrow> nat \<Rightarrow> int \<Rightarrow> node_marks \<Rightarrow> node_marks or_error" where
  "enqueue_extra node_count capacity handle s =
     (if handle \<le> 0 then Inr s
      else if handle > int node_count
      then Inl (AIVM_VM_ERR_INVALID_PROGRAM, ''Invalid extra node handle during GC mark.'')
      else enqueue_handle node_count capacity handle s)"

text \<open>The child slots of a node; the children array holds zero where no child was ever written.\<close>

definition node_child_at :: "'a heap_vm \<Rightarrow> nat \<Rightarrow> int" where
  "node_child_at vm slot = (if slot < length (vm_node_children vm) then vm_node_children vm ! slot else 0)"

definition enqueue_child :: "'a heap_vm \<Rightarrow> AivmNodeRecord \<Rightarrow> nat \<Rightarrow> node_marks \<Rightarrow> node_marks or_error" where
  "enqueue_child vm node i s =
     (case aivm_size_add_checked (node_child_start node) i of
        None \<Rightarrow> Inl (AIVM_VM_ERR_INVALID_PROGRAM, ''Invalid child slot during GC mark.'')
      | Some slot \<Rightarrow>
          if slot \<ge> vm_node_child_capacity vm
          then Inl (AIVM_VM_ERR_INVALID_PROGRAM, ''Invalid child slot during GC mark.'')
          else enqueue_handle (vm_node_count vm) (vm_node_capacity vm) (node_child_at vm slot) s)"

definition enqueue_children :: "'a heap_vm \<Rightarrow> nat \<Rightarrow> node_marks \<Rightarrow> node_marks or_error" where
  "enqueue_children vm i s =
     (case aivm_vm_lookup_node vm (int i + 1) of
        None \<Rightarrow> Inl (AIVM_VM_ERR_INVALID_PROGRAM, ''Invalid node handle during GC mark.'')
      | Some node \<Rightarrow> mark_each (enqueue_child vm node) [0..<node_child_count node] s)"

lemma enqueue_handle_measure:
  "enqueue_handle n cap h (live, w, q) = Inr (live', w', q') \<Longrightarrow>
   unmarked n live' + length q' \<le> unmarked n live + length q"
  by (auto simp: enqueue_handle_def Let_def Suc_le_eq card_unmarked_less split: if_splits)

lemma enqueue_children_measure:
  assumes "enqueue_children vm i (live, w, q) = Inr (live', w', q')"
  shows "unmarked (vm_node_count vm) live' + length q' \<le> unmarked (vm_node_count vm) live + length q"
proof -
  let ?m = "\<lambda>(live, w :: nat, q :: nat list). unmarked (vm_node_count vm) live + length q"
  have step: "?m s' \<le> ?m s" if "enqueue_child vm node k s = Inr s'" for node k s s'
    using that enqueue_handle_measure [of "vm_node_count vm"]
    by (cases s; cases s') (auto simp: enqueue_child_def split: option.splits if_splits)
  obtain node where "mark_each (enqueue_child vm node) [0..<node_child_count node] (live, w, q) = Inr (live', w', q')"
    using assms by (auto simp: enqueue_children_def split: option.splits)
  from mark_each_measure [where m = ?m, OF step this] show ?thesis
    by simp
qed

function mark_nodes_loop :: "'a heap_vm \<Rightarrow> node_marks \<Rightarrow> (nat \<Rightarrow> bool) or_error" where
  "mark_nodes_loop vm (live, queue_write, queue) =
     (case queue of
        [] \<Rightarrow> Inr live
      | i # rest \<Rightarrow>
          (case enqueue_children vm i (live, queue_write, rest) of
             Inl e \<Rightarrow> Inl e
           | Inr s \<Rightarrow> mark_nodes_loop vm s))"
  by pat_completeness auto

termination
  by (relation "measure (\<lambda>(vm, live, w, queue). unmarked (vm_node_count vm) live + length queue)")
    (auto dest!: enqueue_children_measure simp: less_Suc_eq_le)

declare mark_nodes_loop.simps [simp del]

text \<open>The handles that are marked first, section by section.\<close>

definition live_pair_values :: "'a heap_vm \<Rightarrow> (nat \<Rightarrow> bool) \<Rightarrow> AivmValue list" where
  "live_pair_values vm live_pairs =
     concat (map (\<lambda>i. if live_pairs i then [pair_first (vm_scratch_pairs vm ! i), pair_second (vm_scratch_pairs vm ! i)]
                      else [])
       [0..<vm_scratch_pair_count vm])"

definition enqueue_roots :: "'a heap_vm \<Rightarrow> (nat \<Rightarrow> bool) \<Rightarrow> int list \<Rightarrow> node_marks \<Rightarrow> node_marks or_error" where
  "enqueue_roots vm live_pairs extra s =
     (let n = vm_node_count vm; cap = vm_node_capacity vm in
      case mark_each (enqueue_handle n cap) (fixed_handles vm) s of
        Inl e \<Rightarrow> Inl e
      | Inr s \<Rightarrow>
          (case mark_each (enqueue_value n cap) (root_values vm @ live_pair_values vm live_pairs) s of
             Inl e \<Rightarrow> Inl e
           | Inr s \<Rightarrow>
               (case mark_each (enqueue_handle n cap) (builder_handles vm) s of
                  Inl e \<Rightarrow> Inl e
                | Inr s \<Rightarrow> mark_each (enqueue_extra n cap) extra s)))"

definition aivm_vm_mark_live_node_handles ::
  "(nat \<Rightarrow> bool) \<Rightarrow> 'a heap_vm \<Rightarrow> int list \<Rightarrow> (nat \<Rightarrow> bool) option \<times> 'a heap_vm" where
  "aivm_vm_mark_live_node_handles alloc vm extra =
     (if \<not> (alloc (vm_node_capacity vm * 8) \<and> alloc AIVM_VM_SCRATCH_PAIR_CAPACITY)
      then (None, aivm_set_vm_error vm AIVM_VM_ERR_MEMORY_PRESSURE ''AIVMM003: node mark workspace allocation failed.'')
      else
        case aivm_vm_mark_live_scratch_pair_handles alloc vm of
          (None, vm) \<Rightarrow> (None, vm)
        | (Some live_pairs, vm) \<Rightarrow>
            (case (case enqueue_roots vm live_pairs extra (\<lambda>i. False, 0, []) of
                     Inl e \<Rightarrow> Inl e
                   | Inr s \<Rightarrow> mark_nodes_loop vm s) of
               Inl (err, detail) \<Rightarrow> (None, aivm_set_vm_error vm err detail)
             | Inr live \<Rightarrow> (Some live, vm)))"

text \<open>The allocations the two markers ask for.\<close>

definition pair_mark_memory :: "(nat \<Rightarrow> bool) \<Rightarrow> 'a heap_vm \<Rightarrow> bool" where
  "pair_mark_memory alloc vm \<longleftrightarrow> vm_scratch_pair_count vm = 0 \<or> alloc (vm_scratch_pair_count vm * 8)"

definition node_mark_memory :: "(nat \<Rightarrow> bool) \<Rightarrow> 'a heap_vm \<Rightarrow> bool" where
  "node_mark_memory alloc vm \<longleftrightarrow>
     alloc (vm_node_capacity vm * 8) \<and> alloc AIVM_VM_SCRATCH_PAIR_CAPACITY \<and> pair_mark_memory alloc vm"

section \<open>Marking with a worklist\<close>

text \<open>A state of a marker: which indices are marked, and which of them still have to be followed.\<close>

locale mark_state =
  fixes ok :: "'h \<Rightarrow> 's \<Rightarrow> bool"
    and marks :: "'s \<Rightarrow> nat \<Rightarrow> bool"
    and work :: "'s \<Rightarrow> nat set"
  assumes work_marked: "ok h s \<Longrightarrow> i \<in> work s \<Longrightarrow> marks s i"
begin

text \<open>A step that marks a set of indices and remembers the new ones.\<close>

definition adds :: "'s \<Rightarrow> nat set \<Rightarrow> 's \<Rightarrow> bool" where
  "adds s X s' \<longleftrightarrow> (\<forall>j. marks s' j \<longleftrightarrow> marks s j \<or> j \<in> X) \<and> work s' = work s \<union> {j \<in> X. \<not> marks s j}"

definition marker :: "'h \<Rightarrow> ('s \<Rightarrow> 's or_error) \<Rightarrow> nat set \<Rightarrow> bool" where
  "marker h f X \<longleftrightarrow> (\<forall>s. ok h s \<longrightarrow> (\<exists>s'. f s = Inr s' \<and> ok h s' \<and> adds s X s'))"

lemma markerD: "marker h f X \<Longrightarrow> ok h s \<Longrightarrow> \<exists>s'. f s = Inr s' \<and> ok h s' \<and> adds s X s'"
  by (simp add: marker_def)

lemma adds_trans: "adds s X s' \<Longrightarrow> adds s' Y s'' \<Longrightarrow> adds s (X \<union> Y) s''"
  unfolding adds_def by auto

lemma marker_idle: "marker h Inr {}"
  by (simp add: marker_def adds_def)

lemma marker_seq:
  assumes "marker h f X" and "marker h g Y"
  shows "marker h (\<lambda>s. case f s of Inl e \<Rightarrow> Inl e | Inr s \<Rightarrow> g s) (X \<union> Y)"
  unfolding marker_def
proof (intro allI impI)
  fix s
  assume "ok h s"
  then obtain s' where s': "f s = Inr s'" "ok h s'" "adds s X s'"
    using markerD [OF assms(1)] by blast
  then obtain s'' where "g s' = Inr s''" "ok h s''" "adds s' Y s''"
    using markerD [OF assms(2)] by blast
  with s' show "\<exists>s''. (case f s of Inl e \<Rightarrow> Inl e | Inr s \<Rightarrow> g s) = Inr s'' \<and> ok h s'' \<and> adds s (X \<union> Y) s''"
    by (auto intro: adds_trans)
qed

lemma marker_each:
  assumes "\<And>v. v \<in> set vs \<Longrightarrow> marker h (f v) (X v)"
  shows "marker h (mark_each f vs) (\<Union>v \<in> set vs. X v)"
  using assms
proof (induction vs)
  case Nil
  have "mark_each f [] = Inr"
    by (rule ext) simp
  then show ?case
    by (simp add: marker_idle)
next
  case (Cons v vs)
  have "marker h (\<lambda>s. case f v s of Inl e \<Rightarrow> Inl e | Inr s \<Rightarrow> mark_each f vs s) (X v \<union> (\<Union>v \<in> set vs. X v))"
    using Cons by (intro marker_seq) simp_all
  moreover have "mark_each f (v # vs) = (\<lambda>s. case f v s of Inl e \<Rightarrow> Inl e | Inr s \<Rightarrow> mark_each f vs s)"
    by (rule ext) simp
  ultimately show ?case
    by simp
qed

end

text \<open>A marker that takes indices off its worklist and marks their successors until nothing is left.\<close>

locale worklist = mark_state ok marks work
  for ok :: "'h \<Rightarrow> 's \<Rightarrow> bool" and marks :: "'s \<Rightarrow> nat \<Rightarrow> bool" and work :: "'s \<Rightarrow> nat set" +
  fixes succs :: "'h \<Rightarrow> nat \<Rightarrow> nat set"
    and left :: "'h \<Rightarrow> 's \<Rightarrow> nat"
    and loop :: "'h \<Rightarrow> 's \<Rightarrow> (nat \<Rightarrow> bool) or_error"
  assumes finished: "ok h s \<Longrightarrow> work s = {} \<Longrightarrow> loop h s = Inr (marks s)"
    and advance: "ok h s \<Longrightarrow> work s \<noteq> {} \<Longrightarrow>
      \<exists>i s0 s'. i \<in> work s \<and> marks s0 = marks s \<and> work s0 = work s - {i} \<and> adds s0 (succs h i) s' \<and>
        ok h s' \<and> loop h s = loop h s' \<and> left h s' < left h s"
begin

definition reachable_from :: "'h \<Rightarrow> nat set \<Rightarrow> nat set" where
  "reachable_from h M = {j. \<exists>i \<in> M. (i, j) \<in> {(a, b). b \<in> succs h a}\<^sup>*}"

lemma reachable_closed:
  assumes "\<And>i. i \<in> M \<Longrightarrow> succs h i \<subseteq> M"
  shows "reachable_from h M = M"
proof -
  have "j \<in> M" if "(i, j) \<in> {(a, b). b \<in> succs h a}\<^sup>*" "i \<in> M" for i j
    using that by (induction rule: rtrancl_induct) (use assms in auto)
  then show ?thesis
    by (auto simp: reachable_from_def)
qed

lemma reachable_extend:
  assumes "i \<in> M"
  shows "reachable_from h (M \<union> succs h i) = reachable_from h M"
proof -
  have "(i, j) \<in> {(a, b). b \<in> succs h a}\<^sup>*" if "k \<in> succs h i" "(k, j) \<in> {(a, b). b \<in> succs h a}\<^sup>*" for j k
    using that by (intro converse_rtrancl_into_rtrancl [of i k]) auto
  with assms show ?thesis
    by (auto simp: reachable_from_def)
qed

text \<open>The loop ends, and then the marks are what is reachable from the marks it started with.\<close>

theorem loop_marks:
  assumes "ok h s" and "\<And>i. marks s i \<Longrightarrow> i \<notin> work s \<Longrightarrow> succs h i \<subseteq> Collect (marks s)"
  shows "\<exists>m. loop h s = Inr m \<and> Collect m = reachable_from h (Collect (marks s))"
  using assms
proof (induction "left h s" arbitrary: s rule: less_induct)
  case less
  show ?case
  proof (cases "work s = {}")
    case True
    then show ?thesis
      using finished [OF less.prems(1)] reachable_closed [of "Collect (marks s)" h] less.prems(2) by auto
  next
    case False
    then obtain i s0 s' where s': "i \<in> work s" "marks s0 = marks s" "work s0 = work s - {i}" "adds s0 (succs h i) s'"
      "ok h s'" "loop h s = loop h s'" "left h s' < left h s"
      using advance [OF less.prems(1)] by blast
    then have m: "Collect (marks s') = Collect (marks s) \<union> succs h i"
      by (auto simp: adds_def)
    have "succs h j \<subseteq> Collect (marks s')" if "marks s' j" "j \<notin> work s'" for j
    proof (cases "j = i")
      case False
      then have "marks s j" "j \<notin> work s"
        using that s'(2-4) by (auto simp: adds_def)
      then show ?thesis
        using less.prems(2) m by auto
    qed (use m in auto)
    then have "\<exists>m. loop h s' = Inr m \<and> Collect m = reachable_from h (Collect (marks s'))"
      using less.hyps s'(5,7) by blast
    then show ?thesis
      using s'(1,6) m reachable_extend [of i "Collect (marks s)" h] work_marked [OF less.prems(1)] by auto
  qed
qed

end

section \<open>Marked pairs\<close>

definition pair_marks_ok :: "AivmScratchPair list \<Rightarrow> pair_marks \<Rightarrow> bool" where
  "pair_marks_ok pairs s \<longleftrightarrow>
     (case s of (live, pending) \<Rightarrow>
        distinct pending \<and> set pending \<subseteq> Collect live \<and> Collect live \<subseteq> {..<length pairs} \<and>
        (\<forall>p \<in> set pairs. pair_values_ok (length pairs) p))"

definition pair_target :: "AivmValue \<Rightarrow> nat set" where
  "pair_target v = (case v of ValPair h \<Rightarrow> {nat (h - 1)} | _ \<Rightarrow> {})"

lemma in_pair_target: "k \<in> pair_target v \<longleftrightarrow> (\<exists>h. v = ValPair h \<and> k = nat (h - 1))"
  by (cases v) (auto simp: pair_target_def)

definition pair_succs :: "AivmScratchPair list \<Rightarrow> nat \<Rightarrow> nat set" where
  "pair_succs pairs i = pair_target (pair_first (pairs ! i)) \<union> pair_target (pair_second (pairs ! i))"

lemma in_pair_succs:
  "k \<in> pair_succs pairs i \<longleftrightarrow>
   (\<exists>h. ValPair h \<in> {pair_first (pairs ! i), pair_second (pairs ! i)} \<and> k = nat (h - 1))"
  unfolding pair_succs_def Un_iff in_pair_target by (metis insert_iff singletonD)

definition pair_work :: "pair_marks \<Rightarrow> nat set" where
  "pair_work s = set (snd s)"

definition pair_work_left :: "AivmScratchPair list \<Rightarrow> pair_marks \<Rightarrow> nat" where
  "pair_work_left pairs s = unmarked (length pairs) (fst s) + length (snd s)"

interpretation pair_state: mark_state pair_marks_ok fst pair_work
  by unfold_locales (auto simp: pair_marks_ok_def pair_work_def)

lemma distinct_length_less:
  assumes "distinct xs" and "set xs \<subseteq> {..<n}" and "i < n" and "i \<notin> set xs"
  shows "length xs < n"
proof -
  have "card (insert i (set xs)) \<le> card {..<n}"
    using assms by (intro card_mono) auto
  then show ?thesis
    using assms by (simp add: distinct_card)
qed

lemma mark_pair_value_marks:
  assumes "\<And>h. v = ValPair h \<Longrightarrow> valid_handle h (length pairs)"
  shows "pair_state.marker pairs (mark_live_scratch_pair_value pairs v) (pair_target v)"
  unfolding pair_state.marker_def
proof (intro allI impI)
  fix s
  assume ok: "pair_marks_ok pairs s"
  obtain live pending where s: "s = (live, pending)"
    by (cases s)
  show "\<exists>s'. mark_live_scratch_pair_value pairs v s = Inr s' \<and> pair_marks_ok pairs s' \<and> pair_state.adds s (pair_target v) s'"
  proof (cases "\<exists>h. v = ValPair h \<and> \<not> live (nat (h - 1))")
    case True
    then obtain h where h: "v = ValPair h" "\<not> live (nat (h - 1))"
      by blast
    with assms have "nat (h - 1) < length pairs" "0 < h" "h \<le> int (length pairs)"
      by (auto simp: valid_handle_def)
    moreover from this have "length pending < length pairs"
      using ok h(2) s by (intro distinct_length_less [of _ _ "nat (h - 1)"]) (auto simp: pair_marks_ok_def)
    ultimately show ?thesis
      using ok h s
      by (auto simp: mark_live_scratch_pair_value_def Let_def pair_marks_ok_def pair_state.adds_def pair_target_def pair_work_def)
  next
    case False
    then have "mark_live_scratch_pair_value pairs v s = Inr s" and "\<forall>j \<in> pair_target v. live j"
      using assms s
      by (auto simp: mark_live_scratch_pair_value_def Let_def pair_target_def valid_handle_def split: AivmValue.splits)
    then show ?thesis
      using ok s by (auto simp: pair_state.adds_def)
  qed
qed

lemma mark_pair_components_marks:
  assumes "i < length pairs" and "pair_values_ok (length pairs) (pairs ! i)"
  shows "pair_state.marker pairs (mark_pair_components pairs i) (pair_succs pairs i)"
proof -
  have "pair_state.marker pairs (mark_live_scratch_pair_value pairs v) (pair_target v)"
    if "v \<in> set [pair_first (pairs ! i), pair_second (pairs ! i)]" for v
    using assms(2) that by (intro mark_pair_value_marks) (auto simp: pair_values_ok_def)
  from pair_state.marker_each [of "[pair_first (pairs ! i), pair_second (pairs ! i)]", OF this] show ?thesis
    by (simp add: mark_pair_components_def pair_succs_def)
qed

interpretation pair_marker: worklist pair_marks_ok fst pair_work pair_succs pair_work_left mark_pairs_loop
proof unfold_locales
  fix pairs s
  assume "pair_marks_ok pairs s" and "pair_work s = {}"
  then show "mark_pairs_loop pairs s = Inr (fst s)"
    by (cases s) (simp add: pair_work_def mark_pairs_loop.simps)
next
  fix pairs s
  assume ok: "pair_marks_ok pairs s" and "pair_work s \<noteq> {}"
  then obtain live i rest where s: "s = (live, i # rest)"
    by (cases s; cases "snd s") (auto simp: pair_work_def)
  then have "i < length pairs" and ok0: "pair_marks_ok pairs (live, rest)" and "i \<notin> set rest"
    using ok by (auto simp: pair_marks_ok_def)
  moreover from this have "pair_values_ok (length pairs) (pairs ! i)"
    using ok by (auto simp: pair_marks_ok_def)
  ultimately obtain s' where s': "mark_pair_components pairs i (live, rest) = Inr s'" "pair_marks_ok pairs s'"
    "pair_state.adds (live, rest) (pair_succs pairs i) s'"
    using pair_state.markerD [OF mark_pair_components_marks ok0] by blast
  have "pair_work_left pairs s' < pair_work_left pairs s"
    using mark_pair_components_measure [of pairs i live rest] s'(1) s
    by (cases s') (auto simp: pair_work_left_def less_Suc_eq_le)
  with s s' \<open>i \<notin> set rest\<close> show "\<exists>i s0 s'. i \<in> pair_work s \<and> fst s0 = fst s \<and> pair_work s0 = pair_work s - {i} \<and>
      pair_state.adds s0 (pair_succs pairs i) s' \<and> pair_marks_ok pairs s' \<and>
      mark_pairs_loop pairs s = mark_pairs_loop pairs s' \<and> pair_work_left pairs s' < pair_work_left pairs s"
    by (intro exI [of _ i] exI [of _ "(live, rest)"] exI [of _ s']) (auto simp: pair_work_def mark_pairs_loop.simps)
qed

text \<open>The pairs reachable in the heap are the indices reachable from the pair handles among the roots.\<close>

definition pair_roots :: "'a heap_vm \<Rightarrow> nat set" where
  "pair_roots vm = (\<Union>v \<in> set (root_values vm). pair_target v)"

lemma heap_ok_pairs:
  assumes "heap_ok vm extra"
  shows "\<And>h. ValPair h \<in> set (root_values vm) \<Longrightarrow> valid_handle h (vm_scratch_pair_count vm)"
    and "p \<in> set (vm_scratch_pairs vm) \<Longrightarrow> pair_values_ok (vm_scratch_pair_count vm) p"
proof -
  fix h
  assume "ValPair h \<in> set (root_values vm)"
  then have "reach vm (gc_roots vm extra) (ValPair h)"
    by (intro reach_root) (simp add: gc_roots_def)
  then show "valid_handle h (vm_scratch_pair_count vm)"
    using assms by (auto simp: heap_ok_def)
next
  assume "p \<in> set (vm_scratch_pairs vm)"
  then show "pair_values_ok (vm_scratch_pair_count vm) p"
    using assms by (auto simp: heap_ok_def heap_closed_def)
qed

lemma reach_pair_index:
  assumes "heap_ok vm extra"
  shows "reach vm (gc_roots vm extra) (ValPair h) \<longleftrightarrow>
    0 < h \<and> nat (h - 1) \<in> pair_marker.reachable_from (vm_scratch_pairs vm) (pair_roots vm)"
proof
  let ?E = "{(a, b). b \<in> pair_succs (vm_scratch_pairs vm) a}"
  have "\<forall>h. v = ValPair h \<longrightarrow> nat (h - 1) \<in> pair_marker.reachable_from (vm_scratch_pairs vm) (pair_roots vm)"
    if "reach vm (gc_roots vm extra) v" for v
    using that
  proof induction
    case (reach_root v)
    then show ?case
      by (force simp: gc_roots_def pair_roots_def pair_target_def pair_marker.reachable_from_def)
  next
    case (reach_pair h p v)
    then obtain i where i: "i \<in> pair_roots vm" "(i, nat (h - 1)) \<in> ?E\<^sup>*"
      by (auto simp: pair_marker.reachable_from_def)
    have "(nat (h - 1), nat (h' - 1)) \<in> ?E" if "v = ValPair h'" for h'
      using reach_pair.hyps that by (force simp: lookup_pair_iff pair_succs_def in_pair_target)
    with i show ?case
      by (auto simp: pair_marker.reachable_from_def intro: rtrancl_into_rtrancl)
  qed simp
  then show "0 < h \<and> nat (h - 1) \<in> pair_marker.reachable_from (vm_scratch_pairs vm) (pair_roots vm)"
    if "reach vm (gc_roots vm extra) (ValPair h)"
    using that assms by (auto simp: heap_ok_def valid_handle_def)
  have "j < vm_scratch_pair_count vm \<and> reach vm (gc_roots vm extra) (ValPair (int j + 1))"
    if "(i, j) \<in> ?E\<^sup>*" "i \<in> pair_roots vm" for i j
    using that
  proof (induction rule: rtrancl_induct)
    case base
    then obtain h where h: "ValPair h \<in> set (root_values vm)" "i = nat (h - 1)"
      by (auto simp: pair_roots_def in_pair_target)
    then have "valid_handle h (vm_scratch_pair_count vm)" "reach vm (gc_roots vm extra) (ValPair h)"
      using heap_ok_pairs(1) [OF assms] by (auto simp: gc_roots_def intro: reach_root)
    with h show ?case
      by (auto simp: valid_handle_def)
  next
    case (step j k)
    let ?p = "vm_scratch_pairs vm ! j"
    have j: "aivm_vm_lookup_scratch_pair vm (int j + 1) = Some ?p" "?p \<in> set (vm_scratch_pairs vm)"
      using step by (auto simp: lookup_pair_iff valid_handle_def)
    obtain h where h: "ValPair h \<in> {pair_first ?p, pair_second ?p}" "k = nat (h - 1)"
      using step.hyps(2) by (auto simp only: in_pair_succs mem_Collect_eq case_prod_conv)
    then have "valid_handle h (vm_scratch_pair_count vm)"
      using heap_ok_pairs(2) [OF assms j(2)] by (auto simp: pair_values_ok_def)
    moreover from this have "int k + 1 = h" "k < vm_scratch_pair_count vm"
      using h(2) by (auto simp: valid_handle_def)
    ultimately show ?case
      using step reach_pair [OF _ j(1) h(1)] by auto
  qed
  then show "reach vm (gc_roots vm extra) (ValPair h)"
    if "0 < h \<and> nat (h - 1) \<in> pair_marker.reachable_from (vm_scratch_pairs vm) (pair_roots vm)"
    using that by (force simp: pair_marker.reachable_from_def)
qed

lemma pairs_marked:
  assumes "heap_ok vm extra" and "pair_mark_memory alloc vm"
  shows "\<exists>live. aivm_vm_mark_live_scratch_pair_handles alloc vm = (Some live, vm) \<and>
    (\<forall>i. live i \<longleftrightarrow> reach vm (gc_roots vm extra) (ValPair (int i + 1)))"
proof (cases "vm_scratch_pair_count vm = 0")
  case True
  then have "\<not> reach vm (gc_roots vm extra) (ValPair (int i + 1))" for i
    using assms(1) by (auto simp: heap_ok_def valid_handle_def)
  with True show ?thesis
    by (simp add: aivm_vm_mark_live_scratch_pair_handles_def)
next
  case False
  let ?pairs = "vm_scratch_pairs vm"
  have ok: "pair_marks_ok ?pairs (\<lambda>i. False, [])"
    using heap_ok_pairs(2) [OF assms(1)] by (auto simp: pair_marks_ok_def)
  have "pair_state.marker ?pairs (mark_each (mark_live_scratch_pair_value ?pairs) (root_values vm)) (pair_roots vm)"
    unfolding pair_roots_def
    using heap_ok_pairs(1) [OF assms(1)] by (intro pair_state.marker_each mark_pair_value_marks) auto
  then obtain s where s: "mark_each (mark_live_scratch_pair_value ?pairs) (root_values vm) (\<lambda>i. False, []) = Inr s"
    "pair_marks_ok ?pairs s" "pair_state.adds (\<lambda>i. False, []) (pair_roots vm) s"
    using pair_state.markerD [OF _ ok] by blast
  then have m: "Collect (fst s) = pair_roots vm" "pair_work s = pair_roots vm"
    by (auto simp: pair_state.adds_def pair_work_def)
  then obtain live where live: "mark_pairs_loop ?pairs s = Inr live"
    "Collect live = pair_marker.reachable_from ?pairs (pair_roots vm)"
    using pair_marker.loop_marks [OF s(2)] by auto
  have "live i \<longleftrightarrow> reach vm (gc_roots vm extra) (ValPair (int i + 1))" for i
    using live(2) reach_pair_index [OF assms(1), of "int i + 1"] by auto
  then show ?thesis
    using False assms(2) s(1) live(1) by (simp add: aivm_vm_mark_live_scratch_pair_handles_def pair_mark_memory_def)
qed

lemma pairs_not_marked:
  "\<not> pair_mark_memory alloc vm \<Longrightarrow>
   \<exists>detail. aivm_vm_mark_live_scratch_pair_handles alloc vm = (None, aivm_set_vm_error vm AIVM_VM_ERR_MEMORY_PRESSURE detail)"
  by (intro exI) (simp add: aivm_vm_mark_live_scratch_pair_handles_def pair_mark_memory_def)

section \<open>Marked nodes\<close>

definition node_marks_ok :: "'a heap_vm \<Rightarrow> node_marks \<Rightarrow> bool" where
  "node_marks_ok vm s \<longleftrightarrow>
     (case s of (live, queue_write, queue) \<Rightarrow>
        distinct queue \<and> set queue \<subseteq> Collect live \<and> Collect live \<subseteq> {..<vm_node_count vm} \<and>
        queue_write = card (Collect live) \<and> heap_closed vm)"

definition node_work :: "node_marks \<Rightarrow> nat set" where
  "node_work s = set (snd (snd s))"

definition node_work_left :: "'a heap_vm \<Rightarrow> node_marks \<Rightarrow> nat" where
  "node_work_left vm s = unmarked (vm_node_count vm) (fst s) + length (snd (snd s))"

definition handle_target :: "int \<Rightarrow> nat set" where
  "handle_target h = (if h > 0 then {nat (h - 1)} else {})"

definition node_target :: "AivmValue \<Rightarrow> nat set" where
  "node_target v = (case v of ValNode h \<Rightarrow> handle_target h | _ \<Rightarrow> {})"

lemma in_node_target: "k \<in> node_target v \<longleftrightarrow> (\<exists>h. v = ValNode h \<and> 0 < h \<and> k = nat (h - 1))"
  by (cases v) (auto simp: node_target_def handle_target_def)

definition node_succs :: "'a heap_vm \<Rightarrow> nat \<Rightarrow> nat set" where
  "node_succs vm i = (\<Union>c \<in> set (node_children vm (vm_nodes vm ! i)). handle_target c)"

interpretation node_state: mark_state node_marks_ok fst node_work
  by unfold_locales (auto simp: node_marks_ok_def node_work_def)

lemma enqueue_marks:
  assumes "h \<le> 0 \<or> valid_handle h (vm_node_count vm)"
  shows "node_state.marker vm (enqueue_handle (vm_node_count vm) (vm_node_capacity vm) h) (handle_target h)"
  unfolding node_state.marker_def
proof (intro allI impI)
  fix s
  assume ok: "node_marks_ok vm s"
  obtain live w q where s: "s = (live, w, q)"
    by (cases s)
  let ?n = "vm_node_count vm" and ?i = "nat (h - 1)"
  have fin: "finite (Collect live)"
    using ok s by (auto simp: node_marks_ok_def intro: finite_subset)
  show "\<exists>s'. enqueue_handle ?n (vm_node_capacity vm) h s = Inr s' \<and> node_marks_ok vm s' \<and>
      node_state.adds s (handle_target h) s'"
  proof (cases "0 < h \<and> \<not> live ?i")
    case True
    then have i: "?i < ?n" "h \<le> int ?n"
      using assms by (auto simp: valid_handle_def)
    then have "insert ?i (Collect live) \<subseteq> {..<?n}"
      using ok s by (auto simp: node_marks_ok_def)
    then have "card (insert ?i (Collect live)) \<le> ?n"
      using card_mono [of "{..<?n}"] by force
    then have "w < vm_node_capacity vm"
      using ok s True fin by (auto simp: node_marks_ok_def heap_closed_def)
    moreover have "Collect (live(?i := True)) = insert ?i (Collect live)"
      by auto
    ultimately show ?thesis
      using ok s True i fin
      by (auto simp: enqueue_handle_def Let_def node_marks_ok_def node_state.adds_def handle_target_def node_work_def)
  next
    case False
    then have "enqueue_handle ?n (vm_node_capacity vm) h s = Inr s" and "\<forall>j \<in> handle_target h. live j"
      using s by (auto simp: enqueue_handle_def Let_def handle_target_def)
    then show ?thesis
      using ok s by (auto simp: node_state.adds_def)
  qed
qed

lemma enqueue_value_marks:
  assumes "\<And>h. v = ValNode h \<Longrightarrow> valid_handle h (vm_node_count vm)"
  shows "node_state.marker vm (enqueue_value (vm_node_count vm) (vm_node_capacity vm) v) (node_target v)"
proof (cases "\<exists>h. v = ValNode h")
  case True
  then obtain h where "v = ValNode h"
    by blast
  then show ?thesis
    using enqueue_marks [of h vm] assms by (simp add: enqueue_value_def [abs_def] node_target_def)
next
  case False
  then have "enqueue_value (vm_node_count vm) (vm_node_capacity vm) v = Inr" "node_target v = {}"
    by (cases v; auto simp: enqueue_value_def node_target_def)+
  then show ?thesis
    by (simp add: node_state.marker_idle)
qed

lemma enqueue_extra_marks:
  assumes "h \<le> 0 \<or> valid_handle h (vm_node_count vm)"
  shows "node_state.marker vm (enqueue_extra (vm_node_count vm) (vm_node_capacity vm) h) (handle_target h)"
proof (cases "h \<le> 0")
  case True
  then have "enqueue_extra (vm_node_count vm) (vm_node_capacity vm) h = Inr" "handle_target h = {}"
    by (auto simp: enqueue_extra_def handle_target_def)
  then show ?thesis
    by (simp add: node_state.marker_idle)
next
  case False
  then have "enqueue_extra (vm_node_count vm) (vm_node_capacity vm) h = enqueue_handle (vm_node_count vm) (vm_node_capacity vm) h"
    using assms by (auto simp: enqueue_extra_def valid_handle_def)
  then show ?thesis
    using enqueue_marks [OF assms] by simp
qed

lemma node_child_nth:
  assumes "node_shape_ok vm node" and "i < node_child_count node"
  shows "node_child_at vm (node_child_start node + i) = node_children vm node ! i"
    and "node_child_start node + i < length (vm_node_children vm)"
  using assms by (auto simp: node_shape_ok_def node_child_at_def node_children_def)

lemma node_children_length: "node_shape_ok vm node \<Longrightarrow> length (node_children vm node) = node_child_count node"
  by (auto simp: node_shape_ok_def node_children_def)

lemma enqueue_children_marks:
  assumes "heap_closed vm" and "i < vm_node_count vm"
  shows "node_state.marker vm (enqueue_children vm i) (node_succs vm i)"
proof -
  let ?node = "vm_nodes vm ! i" and ?n = "vm_node_count vm" and ?cap = "vm_node_capacity vm"
  have shape: "node_shape_ok vm ?node"
    using assms by (auto simp: heap_closed_def)
  have valid: "valid_handle (node_children vm ?node ! k) ?n" if "k < node_child_count ?node" for k
    using shape that node_children_length [OF shape] by (auto simp: node_shape_ok_def)
  have "enqueue_child vm ?node k = enqueue_handle ?n ?cap (node_children vm ?node ! k)" if "k < node_child_count ?node" for k
    using node_child_nth [OF shape that] assms(1)
    by (intro ext) (auto simp: enqueue_child_def heap_closed_def)
  then have "node_state.marker vm (enqueue_child vm ?node k) (handle_target (node_children vm ?node ! k))"
    if "k \<in> set [0..<node_child_count ?node]" for k
    using that enqueue_marks [of "node_children vm ?node ! k" vm] valid by simp
  then have "node_state.marker vm (mark_each (enqueue_child vm ?node) [0..<node_child_count ?node])
      (\<Union>k \<in> set [0..<node_child_count ?node]. handle_target (node_children vm ?node ! k))"
    by (rule node_state.marker_each)
  moreover have "(\<Union>k \<in> set [0..<node_child_count ?node]. handle_target (node_children vm ?node ! k)) = node_succs vm i"
    by (force simp: node_succs_def in_set_conv_nth node_children_length [OF shape])
  moreover have "aivm_vm_lookup_node vm (int i + 1) = Some ?node"
    using assms(2) by (simp add: lookup_node_iff valid_handle_def)
  ultimately show ?thesis
    by (simp add: enqueue_children_def [abs_def])
qed

interpretation node_marker: worklist node_marks_ok fst node_work node_succs node_work_left mark_nodes_loop
proof unfold_locales
  fix vm :: "'a heap_vm" and s
  assume "node_marks_ok vm s" and "node_work s = {}"
  then show "mark_nodes_loop vm s = Inr (fst s)"
    by (cases s) (simp add: node_work_def mark_nodes_loop.simps)
next
  fix vm :: "'a heap_vm" and s
  assume ok: "node_marks_ok vm s" and "node_work s \<noteq> {}"
  then obtain live w i rest where s: "s = (live, w, i # rest)"
    by (cases s; cases "snd (snd s)") (auto simp: node_work_def)
  then have i: "i < vm_node_count vm" and ok0: "node_marks_ok vm (live, w, rest)" and "i \<notin> set rest" and "heap_closed vm"
    using ok by (auto simp: node_marks_ok_def)
  then obtain s' where s': "enqueue_children vm i (live, w, rest) = Inr s'" "node_marks_ok vm s'"
    "node_state.adds (live, w, rest) (node_succs vm i) s'"
    using node_state.markerD [OF enqueue_children_marks ok0] by blast
  have "node_work_left vm s' < node_work_left vm s"
    using enqueue_children_measure [of vm i live w rest] s'(1) s
    by (cases s') (auto simp: node_work_left_def less_Suc_eq_le)
  with s s' \<open>i \<notin> set rest\<close> show "\<exists>i s0 s'. i \<in> node_work s \<and> fst s0 = fst s \<and> node_work s0 = node_work s - {i} \<and>
      node_state.adds s0 (node_succs vm i) s' \<and> node_marks_ok vm s' \<and>
      mark_nodes_loop vm s = mark_nodes_loop vm s' \<and> node_work_left vm s' < node_work_left vm s"
    by (intro exI [of _ i] exI [of _ "(live, w, rest)"] exI [of _ s']) (auto simp: node_work_def mark_nodes_loop.simps)
qed

text \<open>The nodes reachable in the heap are the indices reachable from the node handles that are marked first.\<close>

definition node_roots :: "'a heap_vm \<Rightarrow> (nat \<Rightarrow> bool) \<Rightarrow> int list \<Rightarrow> nat set" where
  "node_roots vm live_pairs extra =
     (\<Union>h \<in> set (fixed_handles vm) \<union> set (builder_handles vm) \<union> set extra. handle_target h) \<union>
     (\<Union>v \<in> set (root_values vm) \<union> set (live_pair_values vm live_pairs). node_target v)"

definition pair_live :: "'a heap_vm \<Rightarrow> int list \<Rightarrow> nat \<Rightarrow> bool" where
  "pair_live vm extra i \<longleftrightarrow> reach vm (gc_roots vm extra) (ValPair (int i + 1))"

definition node_live :: "'a heap_vm \<Rightarrow> int list \<Rightarrow> nat \<Rightarrow> bool" where
  "node_live vm extra i \<longleftrightarrow> reach vm (gc_roots vm extra) (ValNode (int i + 1))"

lemma live_pair_values_reach:
  assumes "v \<in> set (live_pair_values vm (pair_live vm extra))"
  shows "reach vm (gc_roots vm extra) v"
proof -
  obtain i where i: "i < vm_scratch_pair_count vm" "pair_live vm extra i"
    "v \<in> {pair_first (vm_scratch_pairs vm ! i), pair_second (vm_scratch_pairs vm ! i)}"
    using assms by (auto simp: live_pair_values_def split: if_splits)
  then have "aivm_vm_lookup_scratch_pair vm (int i + 1) = Some (vm_scratch_pairs vm ! i)"
    by (simp add: lookup_pair_iff valid_handle_def)
  then show ?thesis
    using i reach_pair by (fastforce simp: pair_live_def)
qed

lemma reach_live_pair_values:
  assumes "reach vm (gc_roots vm extra) (ValPair h)" and "aivm_vm_lookup_scratch_pair vm h = Some p"
    and "v \<in> {pair_first p, pair_second p}"
  shows "v \<in> set (live_pair_values vm (pair_live vm extra))"
proof -
  have h: "h = int (nat (h - 1)) + 1" "nat (h - 1) < vm_scratch_pair_count vm" "p = vm_scratch_pairs vm ! nat (h - 1)"
    using assms(2) by (auto simp: lookup_pair_iff valid_handle_def)
  then have "pair_live vm extra (nat (h - 1))"
    using assms(1) by (simp add: pair_live_def)
  with h assms(3) show ?thesis
    unfolding live_pair_values_def by (auto intro!: bexI [of _ "nat (h - 1)"])
qed

lemma heap_ok_node:
  assumes "heap_ok vm extra" and "reach vm (gc_roots vm extra) (ValNode h)"
  shows "valid_handle h (vm_node_count vm)"
  using assms by (fastforce simp: heap_ok_def)

lemma node_roots_reach:
  assumes "heap_ok vm extra" and "i \<in> node_roots vm (pair_live vm extra) extra"
  shows "reach vm (gc_roots vm extra) (ValNode (int i + 1))"
proof -
  consider h where "h \<in> set (fixed_handles vm) \<union> set (builder_handles vm) \<union> set extra" "0 < h" "i = nat (h - 1)"
    | h where "ValNode h \<in> set (root_values vm)" "0 < h" "i = nat (h - 1)"
    | h where "ValNode h \<in> set (live_pair_values vm (pair_live vm extra))" "0 < h" "i = nat (h - 1)"
    using assms(2) by (auto simp: node_roots_def handle_target_def in_node_target split: if_splits)
  then show ?thesis
  proof cases
    case (3 h)
    then show ?thesis
      using live_pair_values_reach by fastforce
  qed (auto simp: gc_roots_def intro!: reach_root)
qed

lemma reach_node_index:
  assumes "heap_ok vm extra"
  shows "node_live vm extra i \<longleftrightarrow> i \<in> node_marker.reachable_from vm (node_roots vm (pair_live vm extra) extra)"
proof
  let ?E = "{(a, b). b \<in> node_succs vm a}" and ?R = "node_roots vm (pair_live vm extra) extra"
  have "\<forall>h. v = ValNode h \<longrightarrow> nat (h - 1) \<in> node_marker.reachable_from vm ?R"
    if "reach vm (gc_roots vm extra) v" for v
    using that
  proof induction
    case (reach_root v)
    have "nat (h - 1) \<in> ?R" if "v = ValNode h" for h
    proof -
      have "0 < h"
        using reach.reach_root [OF reach_root] heap_ok_node [OF assms] that by (auto simp: valid_handle_def)
      then show ?thesis
        using reach_root that by (auto simp: gc_roots_def node_roots_def handle_target_def in_node_target)
    qed
    then show ?case
      by (auto simp: node_marker.reachable_from_def)
  next
    case (reach_pair h p v)
    have "nat (k - 1) \<in> ?R" if "v = ValNode k" for k
    proof -
      have "0 < k"
        using reach.reach_pair [OF reach_pair.hyps] heap_ok_node [OF assms] that by (auto simp: valid_handle_def)
      then show ?thesis
        using reach_live_pair_values [OF reach_pair.hyps] that by (auto simp: node_roots_def in_node_target)
    qed
    then show ?case
      by (auto simp: node_marker.reachable_from_def)
  next
    case (reach_child h node c)
    have "0 < c"
      using reach.reach_child [OF reach_child.hyps] heap_ok_node [OF assms] by (auto simp: valid_handle_def)
    then have "(nat (h - 1), nat (c - 1)) \<in> ?E"
      using reach_child.hyps by (auto simp: node_succs_def handle_target_def lookup_node_iff)
    then show ?case
      using reach_child.IH by (auto simp: node_marker.reachable_from_def intro: rtrancl_into_rtrancl)
  qed
  then show "i \<in> node_marker.reachable_from vm ?R" if "node_live vm extra i"
    using that by (fastforce simp: node_live_def)
  have "reach vm (gc_roots vm extra) (ValNode (int j + 1))" if "(i, j) \<in> ?E\<^sup>*" "i \<in> ?R" for i j
    using that
  proof (induction rule: rtrancl_induct)
    case base
    then show ?case
      using node_roots_reach [OF assms] by blast
  next
    case (step j k)
    then have r: "reach vm (gc_roots vm extra) (ValNode (int j + 1))"
      by blast
    then have l: "aivm_vm_lookup_node vm (int j + 1) = Some (vm_nodes vm ! j)"
      using heap_ok_node [OF assms] by (simp add: lookup_node_iff)
    obtain c where c: "c \<in> set (node_children vm (vm_nodes vm ! j))" "0 < c" "k = nat (c - 1)"
      using step.hyps(2) by (auto simp: node_succs_def handle_target_def split: if_splits)
    then show ?case
      using reach_child [OF r l c(1)] by simp
  qed
  then show "node_live vm extra i" if "i \<in> node_marker.reachable_from vm ?R"
    using that by (auto simp: node_live_def node_marker.reachable_from_def)
qed

lemma gc_root_values: "v \<in> set (root_values vm) \<Longrightarrow> reach vm (gc_roots vm extra) v"
  by (intro reach_root) (simp add: gc_roots_def)

lemma roots_enqueued:
  assumes "heap_ok vm extra"
  shows "node_state.marker vm (enqueue_roots vm (pair_live vm extra) extra) (node_roots vm (pair_live vm extra) extra)"
proof -
  let ?n = "vm_node_count vm" and ?cap = "vm_node_capacity vm"
  have valid: "h \<le> 0 \<or> valid_handle h ?n" if "h \<in> set (fixed_handles vm) \<union> set (builder_handles vm) \<union> set extra" for h
    using that heap_ok_node [OF assms reach_root, of h] by (fastforce simp: gc_roots_def)
  have vals: "valid_handle h ?n" if "ValNode h \<in> set (root_values vm @ live_pair_values vm (pair_live vm extra))" for h
    using that heap_ok_node [OF assms] gc_root_values live_pair_values_reach by fastforce
  have "node_state.marker vm (mark_each (enqueue_handle ?n ?cap) (fixed_handles vm)) (\<Union>h \<in> set (fixed_handles vm). handle_target h)"
    "node_state.marker vm (mark_each (enqueue_value ?n ?cap) (root_values vm @ live_pair_values vm (pair_live vm extra)))
       (\<Union>v \<in> set (root_values vm @ live_pair_values vm (pair_live vm extra)). node_target v)"
    "node_state.marker vm (mark_each (enqueue_handle ?n ?cap) (builder_handles vm)) (\<Union>h \<in> set (builder_handles vm). handle_target h)"
    "node_state.marker vm (mark_each (enqueue_extra ?n ?cap) extra) (\<Union>h \<in> set extra. handle_target h)"
    using valid vals
    by (intro node_state.marker_each enqueue_marks enqueue_value_marks enqueue_extra_marks; auto)+
  from node_state.marker_seq [OF this(1) node_state.marker_seq [OF this(2) node_state.marker_seq [OF this(3,4)]]]
  show ?thesis
    by (simp add: enqueue_roots_def [abs_def] node_roots_def Un_ac UN_Un Let_def)
qed

lemma nodes_marked:
  assumes "heap_ok vm extra" and "node_mark_memory alloc vm"
  shows "aivm_vm_mark_live_scratch_pair_handles alloc vm = (Some (pair_live vm extra), vm)"
    and "aivm_vm_mark_live_node_handles alloc vm extra = (Some (node_live vm extra), vm)"
proof -
  show pairs: "aivm_vm_mark_live_scratch_pair_handles alloc vm = (Some (pair_live vm extra), vm)"
    using pairs_marked [where alloc = alloc, OF assms(1)] assms(2) by (auto simp: pair_live_def fun_eq_iff node_mark_memory_def)
  have ok: "node_marks_ok vm (\<lambda>i. False, 0, [])"
    using assms(1) by (auto simp: node_marks_ok_def heap_ok_def)
  let ?R = "node_roots vm (pair_live vm extra) extra"
  obtain s where s: "enqueue_roots vm (pair_live vm extra) extra (\<lambda>i. False, 0, []) = Inr s"
    "node_marks_ok vm s" "node_state.adds (\<lambda>i. False, 0, []) ?R s"
    using node_state.markerD [OF roots_enqueued [OF assms(1)] ok] by blast
  then have m: "Collect (fst s) = ?R" "node_work s = ?R"
    by (auto simp: node_state.adds_def node_work_def)
  then obtain live where live: "mark_nodes_loop vm s = Inr live" "Collect live = node_marker.reachable_from vm ?R"
    using node_marker.loop_marks [OF s(2)] by auto
  have "live = node_live vm extra"
    using live(2) reach_node_index [OF assms(1)] by auto
  then show "aivm_vm_mark_live_node_handles alloc vm extra = (Some (node_live vm extra), vm)"
    using assms(2) pairs s(1) live(1) by (simp add: aivm_vm_mark_live_node_handles_def node_mark_memory_def)
qed

lemma nodes_not_marked:
  assumes "\<not> node_mark_memory alloc vm"
  shows "\<exists>detail. aivm_vm_mark_live_node_handles alloc vm extra = (None, aivm_set_vm_error vm AIVM_VM_ERR_MEMORY_PRESSURE detail)"
proof (cases "alloc (vm_node_capacity vm * 8) \<and> alloc AIVM_VM_SCRATCH_PAIR_CAPACITY")
  case True
  then obtain detail where "aivm_vm_mark_live_scratch_pair_handles alloc vm = (None, aivm_set_vm_error vm AIVM_VM_ERR_MEMORY_PRESSURE detail)"
    using assms pairs_not_marked [of alloc vm] by (auto simp: node_mark_memory_def)
  with True show ?thesis
    by (intro exI [of _ detail]) (simp add: aivm_vm_mark_live_node_handles_def)
qed (auto simp: aivm_vm_mark_live_node_handles_def)

section \<open>The markers\<close>


text \<open>A small heap: a pair on the stack that leads to a node with an attribute and a child, next to a pair
  and a node that nothing leads to.\<close>

definition heap_demo :: AivmHeapVm where
  "heap_demo = AivmMapVm.extend
     (map_demo\<lparr>vm_stack := [ValPair 2], vm_string_arena := ''Row'' @ [CHR 0x00] @ ''id'' @ [CHR 0x00]\<rparr>)
     \<lparr>vm_string_arena_base = 1, vm_string_arena_limit = 64, vm_string_arena_capacity = 64, vm_string_intern_entries = [],
      vm_string_intern_count = 0, vm_string_intern_complete = False, vm_utf8_offset_cache_text = None,
      vm_utf8_offset_cache_rune = 0, vm_utf8_offset_cache_byte = 0, vm_bytes_arena_limit = 64,
      vm_bytes_arena_capacity = 64, vm_bytes_arena_gc_threshold = 64, vm_completed_tasks = [], vm_par_values = [],
      vm_scratch_pairs = [\<lparr>pair_first = ValInt 1, pair_second = ValNode 1\<rparr>, \<lparr>pair_first = ValNode 2, pair_second = ValInt 7\<rparr>],
      vm_nodes =
        [\<lparr>node_kind = CArena 0, node_id = CArena 4, node_attr_start = 0, node_attr_count = 0, node_child_start = 0, node_child_count = 0\<rparr>,
         \<lparr>node_kind = CArena 0, node_id = CArena 4, node_attr_start = 0, node_attr_count = 1, node_child_start = 0, node_child_count = 1\<rparr>,
         \<lparr>node_kind = CArena 0, node_id = CArena 4, node_attr_start = 1, node_attr_count = 0, node_child_start = 1, node_child_count = 0\<rparr>],
      vm_node_capacity = 4, vm_node_attrs = [NodeAttr (CArena 4) (AIVM_NODE_ATTR_INT 3)], vm_node_attr_capacity = 4,
      vm_node_children = [3], vm_node_child_capacity = 4, vm_node_builders = [], vm_process_argv_node_handle = 0,
      vm_ui_default_window_size_node_handle = 0, vm_ui_empty_event_node_handle = 0, vm_node_allocations_since_gc = 3,
      vm_heap_counters = \<lparr>string_arena_high_water = 7, string_arena_pressure_count = 0, bytes_arena_high_water = 0,
        bytes_arena_pressure_count = 0, node_high_water = 3, node_attr_high_water = 1, node_child_high_water = 1,
        node_arena_pressure_count = 0, node_gc_attempt_count = 0, node_gc_compaction_count = 0,
        node_gc_reclaimed_nodes = 0, node_gc_reclaimed_attrs = 0, node_gc_reclaimed_children = 0\<rparr>\<rparr>"

lemma heap_demo_fields:
  "vm_stack heap_demo = [ValPair 2]" "vm_locals_count heap_demo = 0" "vm_completed_tasks heap_demo = []"
  "vm_par_values heap_demo = []" "vm_node_builders heap_demo = []" "fixed_handles heap_demo = [0, 0, 0]"
  "vm_scratch_pairs heap_demo = [\<lparr>pair_first = ValInt 1, pair_second = ValNode 1\<rparr>, \<lparr>pair_first = ValNode 2, pair_second = ValInt 7\<rparr>]"
  "vm_nodes heap_demo =
        [\<lparr>node_kind = CArena 0, node_id = CArena 4, node_attr_start = 0, node_attr_count = 0, node_child_start = 0, node_child_count = 0\<rparr>,
         \<lparr>node_kind = CArena 0, node_id = CArena 4, node_attr_start = 0, node_attr_count = 1, node_child_start = 0, node_child_count = 1\<rparr>,
         \<lparr>node_kind = CArena 0, node_id = CArena 4, node_attr_start = 1, node_attr_count = 0, node_child_start = 1, node_child_count = 0\<rparr>]"
  "vm_node_attrs heap_demo = [NodeAttr (CArena 4) (AIVM_NODE_ATTR_INT 3)]" "vm_node_children heap_demo = [3]"
  "vm_node_capacity heap_demo = 4" "vm_node_attr_capacity heap_demo = 4" "vm_node_child_capacity heap_demo = 4"
  "vm_string_arena heap_demo = [CHR ''R'', CHR ''o'', CHR ''w'', CHR 0x00, CHR ''i'', CHR ''d'', CHR 0x00]"
  by (simp_all add: heap_demo_def map_demo_def tooling_vm_def AivmMapVm.defs AivmHostVm.defs AivmVm.defs fixed_handles_def
      aivm_vm_reset_maps_def aivm_init_with_profile_def aivm_reset_state_def aivm_set_runtime_profile_def)

lemma heap_demo_roots: "gc_roots heap_demo [] = {ValPair 2}"
  by (auto simp: gc_roots_def root_values_def local_values_def builder_handles_def heap_demo_fields)

lemma heap_demo_reach: "reach heap_demo (gc_roots heap_demo []) v \<Longrightarrow> v \<in> {ValPair 2, ValNode 2, ValInt 7, ValNode 3}"
  by (induction rule: reach.induct)
    (auto simp: heap_demo_roots heap_demo_fields aivm_vm_lookup_scratch_pair_def aivm_vm_lookup_node_def node_children_def)

lemma heap_demo_ok: "heap_ok heap_demo []"
proof -
  have "value_ok heap_demo v" if "v \<in> {ValPair 2, ValNode 2, ValInt 7, ValNode 3}" for v
    using that by (auto simp: heap_demo_fields valid_handle_def node_texts_def node_attrs_def cstring_ok_def block_start_def)
  moreover have "heap_closed heap_demo"
    by (simp add: heap_closed_def heap_demo_fields pair_values_ok_def node_shape_ok_def node_children_def valid_handle_def SIZE_MAX_def terminated_def)
  ultimately show ?thesis
    using heap_demo_reach by (auto simp: heap_ok_def)
qed


end
