(* ===== verification/Heap_Traversal.thy ===== *)
theory Heap_Traversal
  imports Heap_Marking
begin

text \<open>
  What the collectors share: the loops that replace the values in the stack, the locals, the task
  results and the parallel values one after the other and stop at the first failure, the assignment
  of new handles to the marked entries of an array in their old order, the copy of the marked entries,
  and the transfer of reachability between two heaps with similar values.
\<close>

section \<open>Traversals\<close>

text \<open>A loop over an array that may stop; what it replaced before the failure stays replaced.\<close>

fun traverse :: "('v \<Rightarrow> 's \<Rightarrow> 'v \<times> 's option) \<Rightarrow> 'v list \<Rightarrow> 's \<Rightarrow> 'v list \<times> 's option" where
  "traverse f [] s = ([], Some s)"
| "traverse f (v # vs) s =
     (case f v s of
        (v', None) \<Rightarrow> (v' # vs, None)
      | (v', Some s') \<Rightarrow> (case traverse f vs s' of (vs', r) \<Rightarrow> (v' # vs', r)))"

text \<open>A step without state.\<close>

definition stateless :: "('v \<Rightarrow> 'v option) \<Rightarrow> 'v \<Rightarrow> unit \<Rightarrow> 'v \<times> unit option" where
  "stateless f v u = (case f v of None \<Rightarrow> (v, None) | Some v' \<Rightarrow> (v', Some ()))"

definition set_local_values :: "AivmValue list \<Rightarrow> 'a vm \<Rightarrow> 'a vm" where
  "set_local_values ls vm = vm\<lparr>vm_locals := (\<lambda>i. if i < length ls then ls ! i else vm_locals vm i)\<rparr>"

definition set_task_results :: "AivmValue list \<Rightarrow> 'a heap_vm \<Rightarrow> 'a heap_vm" where
  "set_task_results rs vm =
     vm\<lparr>vm_completed_tasks := map2 (\<lambda>task r. task\<lparr>task_result := r\<rparr>) (vm_completed_tasks vm) rs\<rparr>"

text \<open>The four sections of roots; a failure names its section.\<close>

definition traverse_roots ::
  "(AivmValue \<Rightarrow> 's \<Rightarrow> AivmValue \<times> 's option) \<Rightarrow> 'a heap_vm \<Rightarrow> 's \<Rightarrow> 'a heap_vm \<times> (nat + 's)" where
  "traverse_roots f vm s =
     (case traverse f (rev (vm_stack vm)) s of (stack, r) \<Rightarrow>
        let vm = vm\<lparr>vm_stack := rev stack\<rparr> in
        case r of
          None \<Rightarrow> (vm, Inl 0)
        | Some s \<Rightarrow>
            (case traverse f (local_values vm) s of (ls, r) \<Rightarrow>
               let vm = set_local_values ls vm in
               case r of
                 None \<Rightarrow> (vm, Inl 1)
               | Some s \<Rightarrow>
                   (case traverse f (map task_result (vm_completed_tasks vm)) s of (rs, r) \<Rightarrow>
                      let vm = set_task_results rs vm in
                      case r of
                        None \<Rightarrow> (vm, Inl 2)
                      | Some s \<Rightarrow>
                          (case traverse f (vm_par_values vm) s of (ps, r) \<Rightarrow>
                             let vm = vm\<lparr>vm_par_values := ps\<rparr> in
                             case r of None \<Rightarrow> (vm, Inl 3) | Some s \<Rightarrow> (vm, Inr s)))))"

text \<open>What a traversal that ran through did: each entry was replaced, in a state that only grew.\<close>

lemma traverse_length: "length (fst (traverse f vs s)) = length vs"
  by (induction vs arbitrary: s) (auto split: option.splits prod.splits simp: prod_eq_iff)

lemma traverse_append:
  "traverse f (us @ vs) s =
     (case traverse f us s of
        (us', None) \<Rightarrow> (us' @ vs, None)
      | (us', Some s) \<Rightarrow> (case traverse f vs s of (vs', r) \<Rightarrow> (us' @ vs', r)))"
  by (induction us arbitrary: s) (auto split: option.splits prod.splits)

lemma traverse_all2:
  assumes "traverse f vs s = (vs', Some s')" and "good s"
    and step: "\<And>v s v' s'. v \<in> set vs \<Longrightarrow> f v s = (v', Some s') \<Longrightarrow> good s \<Longrightarrow> good s' \<and> le s s' \<and> Q s' v v'"
    and refl: "\<And>s. le s s" and trans: "\<And>r s t. le r s \<Longrightarrow> le s t \<Longrightarrow> le r t"
    and mono: "\<And>s s' v v'. good s \<Longrightarrow> le s s' \<Longrightarrow> Q s v v' \<Longrightarrow> Q s' v v'"
  shows "good s' \<and> le s s' \<and> list_all2 (Q s') vs vs'"
  using assms(1-3)
proof (induction vs arbitrary: s vs')
  case Nil
  then show ?case
    using refl by simp
next
  case (Cons v vs)
  obtain v1 s1 ws where f: "f v s = (v1, Some s1)" "traverse f vs s1 = (ws, Some s')" "vs' = v1 # ws"
    using Cons.prems(1) by (auto split: option.splits prod.splits)
  then have 1: "good s1" "le s s1" "Q s1 v v1"
    using Cons.prems(2,3) by (meson list.set_intros(1))+
  have "good s' \<and> le s1 s' \<and> list_all2 (Q s') vs ws"
    using Cons.IH [OF f(2) 1(1)] Cons.prems(3) by (meson list.set_intros(2))
  with 1 f(3) show ?case
    using trans [of s s1 s'] mono [of s1 s' v v1] by auto
qed

lemma traverse_stateless:
  assumes "\<And>v. v \<in> set vs \<Longrightarrow> f v = Some (g v)"
  shows "traverse (stateless f) vs () = (map g vs, Some ())"
  using assms by (induction vs) (auto simp: stateless_def)

lemma traverse_map:
  assumes "\<And>v. v \<in> set vs \<Longrightarrow> f v () = (g v, Some ())"
  shows "traverse f vs () = (map g vs, Some ())"
  using assms by (induction vs) auto

lemma local_values_set: "length ls = vm_locals_count vm \<Longrightarrow> local_values (set_local_values ls vm) = ls"
  by (auto simp: local_values_def set_local_values_def intro: nth_equalityI)

lemma task_results_set:
  "length rs = length (vm_completed_tasks vm) \<Longrightarrow> map task_result (vm_completed_tasks (set_task_results rs vm)) = rs"
  by (auto simp: set_task_results_def intro: nth_equalityI)

text \<open>A traversal of the roots is the traversal of the list of their values, and touches nothing else.\<close>

definition put_roots :: "AivmValue list \<Rightarrow> AivmValue list \<Rightarrow> AivmValue list \<Rightarrow> AivmValue list \<Rightarrow> 'a heap_vm \<Rightarrow> 'a heap_vm" where
  "put_roots stack ls rs ps vm = (set_task_results rs (set_local_values ls (vm\<lparr>vm_stack := stack\<rparr>)))\<lparr>vm_par_values := ps\<rparr>"

lemma local_values_stack [simp]: "local_values (vm\<lparr>vm_stack := st\<rparr>) = local_values vm"
  by (simp add: local_values_def)

lemma traverse_roots_all:
  assumes "traverse_roots f vm s = (vm', Inr s')"
  shows "\<exists>st ls rs ps. vm' = put_roots st ls rs ps vm \<and> length st = vm_stack_count vm \<and>
    root_values vm' = rev st @ ls @ rs @ ps \<and> traverse f (root_values vm) s = (root_values vm', Some s')"
proof -
  obtain st s1 where 1: "traverse f (rev (vm_stack vm)) s = (st, Some s1)"
    using assms by (auto simp: traverse_roots_def Let_def split: prod.splits option.splits)
  let ?vm1 = "vm\<lparr>vm_stack := rev st\<rparr>"
  obtain ls s2 where 2: "traverse f (local_values vm) s1 = (ls, Some s2)"
    using assms 1 by (auto simp: traverse_roots_def Let_def split: prod.splits option.splits)
  let ?vm2 = "set_local_values ls ?vm1"
  have t2: "vm_completed_tasks ?vm2 = vm_completed_tasks vm" "vm_par_values ?vm2 = vm_par_values vm"
    by (simp_all add: set_local_values_def)
  obtain rs s3 where 3: "traverse f (map task_result (vm_completed_tasks vm)) s2 = (rs, Some s3)"
    using assms 1 2 t2 by (auto simp: traverse_roots_def Let_def split: prod.splits option.splits)
  let ?vm3 = "set_task_results rs ?vm2"
  have t3: "vm_par_values ?vm3 = vm_par_values vm"
    by (simp add: set_task_results_def t2)
  obtain ps where 4: "traverse f (vm_par_values vm) s3 = (ps, Some s')" and vm': "vm' = ?vm3\<lparr>vm_par_values := ps\<rparr>"
    using assms 1 2 3 t2 t3 by (auto simp: traverse_roots_def Let_def split: prod.splits option.splits)
  have len: "length st = vm_stack_count vm" "length ls = vm_locals_count vm" "length rs = length (vm_completed_tasks vm)"
    using traverse_length [of f "rev (vm_stack vm)" s] traverse_length [of f "local_values vm" s1]
      traverse_length [of f "map task_result (vm_completed_tasks vm)" s2] 1 2 3
    by (simp_all add: local_values_def)
  have "local_values vm' = ls"
    using local_values_set [of ls ?vm1] len(2) by (simp add: vm' set_task_results_def local_values_def)
  moreover have "map task_result (vm_completed_tasks vm') = rs"
    using task_results_set [of rs ?vm2] len(3) t2 by (simp add: vm')
  moreover have "vm_stack vm' = rev st" "vm_par_values vm' = ps"
    by (simp_all add: vm' set_task_results_def set_local_values_def)
  ultimately have "root_values vm' = st @ ls @ rs @ ps"
    by (simp add: root_values_def)
  moreover have "traverse f (root_values vm) s = (st @ ls @ rs @ ps, Some s')"
    by (simp add: root_values_def traverse_append 1 2 3 4)
  ultimately show ?thesis
    using len(1) vm' by (intro exI [of _ "rev st"] exI [of _ ls] exI [of _ rs] exI [of _ ps]) (simp add: put_roots_def)
qed

lemma traverse_roots_total:
  assumes "\<And>v s. v \<in> set (root_values vm) \<Longrightarrow> snd (f v s) \<noteq> None"
  shows "\<exists>vm' s'. traverse_roots f vm s = (vm', Inr s')"
proof -
  have total: "\<exists>vs' s'. traverse f vs s = (vs', Some s')" if "set vs \<subseteq> set (root_values vm)" for vs s
    using that
  proof (induction vs arbitrary: s)
    case (Cons v vs)
    then obtain v' s1 where "f v s = (v', Some s1)"
      using assms [of v s] by (cases "f v s") auto
    moreover obtain vs' s' where "traverse f vs s1 = (vs', Some s')"
      using Cons by force
    ultimately show ?case
      by simp
  qed simp
  obtain st s1 where 1: "traverse f (rev (vm_stack vm)) s = (st, Some s1)"
    using total [of "rev (vm_stack vm)" s] by (auto simp: root_values_def)
  obtain ls s2 where 2: "traverse f (local_values vm) s1 = (ls, Some s2)"
    using total [of "local_values vm" s1] by (auto simp: root_values_def)
  obtain rs s3 where 3: "traverse f (map task_result (vm_completed_tasks vm)) s2 = (rs, Some s3)"
    using total [of "map task_result (vm_completed_tasks vm)" s2] by (auto simp: root_values_def)
  obtain ps s4 where "traverse f (vm_par_values vm) s3 = (ps, Some s4)"
    using total [of "vm_par_values vm" s3] by (auto simp: root_values_def)
  with 1 2 3 show ?thesis
    by (simp add: traverse_roots_def Let_def set_local_values_def set_task_results_def)
qed

section \<open>New handles\<close>

text \<open>The handle map and the number of marked entries after the first \<open>n\<close> turns of the loop that numbers
  them; handles count from one and an unmarked entry keeps zero. The counters cannot overflow: they
  are at most the number of entries.\<close>

fun assign_handles :: "(nat \<Rightarrow> bool) \<Rightarrow> nat \<Rightarrow> (nat \<Rightarrow> int) \<times> nat" where
  "assign_handles live 0 = (\<lambda>k. 0, 0)"
| "assign_handles live (Suc i) =
     (case assign_handles live i of (handle_map, new_count) \<Rightarrow>
        if live i then (handle_map(i + 1 := int (new_count + 1)), new_count + 1) else (handle_map, new_count))"

definition rank :: "(nat \<Rightarrow> bool) \<Rightarrow> nat \<Rightarrow> nat" where
  "rank live i = card {j. j < i \<and> live j}"

lemma rank_0 [simp]: "rank live 0 = 0"
  by (simp add: rank_def)

lemma rank_Suc [simp]: "rank live (Suc i) = (if live i then rank live i + 1 else rank live i)"
proof -
  have "{j. j < Suc i \<and> live j} = (if live i then insert i {j. j < i \<and> live j} else {j. j < i \<and> live j})"
    by (auto simp: less_Suc_eq)
  then show ?thesis
    by (simp add: rank_def)
qed

lemma assign_handles_spec:
  "fst (assign_handles live n) k = (if 0 < k \<and> k \<le> n \<and> live (k - 1) then int (rank live (k - 1)) + 1 else 0)"
  "snd (assign_handles live n) = rank live n"
  by (induction n) (auto simp: split_beta le_Suc_eq)

lemma rank_mono: "i \<le> j \<Longrightarrow> rank live i \<le> rank live j"
  by (induction j) (auto simp: le_Suc_eq)

lemma rank_less: "i < j \<Longrightarrow> live i \<Longrightarrow> rank live i < rank live j"
  using rank_mono [of "Suc i" j live] by simp

lemma rank_inject: "live i \<Longrightarrow> live j \<Longrightarrow> rank live i = rank live j \<longleftrightarrow> i = j"
  using rank_less [of i j live] rank_less [of j i live] by (cases i j rule: linorder_cases) auto

lemma rank_le: "rank live n \<le> n"
  by (induction n) auto

lemma rank_surj: "k < rank live n \<Longrightarrow> \<exists>i < n. live i \<and> rank live i = k"
proof (induction n)
  case (Suc n)
  then show ?case
    by (cases "k < rank live n") (auto simp: less_Suc_eq split: if_splits)
qed simp

text \<open>The loop that writes the marked entries to their new places; \<open>None\<close> is a marked entry without a handle.\<close>

fun copy_live :: "(nat \<Rightarrow> bool) \<Rightarrow> (nat \<Rightarrow> int) \<Rightarrow> (nat \<Rightarrow> 'b) \<Rightarrow> nat list \<Rightarrow> 'b list \<Rightarrow> 'b list option" where
  "copy_live live handle_map entry [] out = Some out"
| "copy_live live handle_map entry (i # is) out =
     (if \<not> live i then copy_live live handle_map entry is out
      else if handle_map (i + 1) \<le> 0 then None
      else copy_live live handle_map entry is (out[nat (handle_map (i + 1) - 1) := entry i]))"

lemma copy_live_all:
  assumes "new_count = rank live n" and "handle_map = fst (assign_handles live n)"
    and "length out = new_count" and "distinct is" and "set is \<subseteq> {..<n}"
  shows "\<exists>out'. copy_live live handle_map entry is out = Some out' \<and> length out' = new_count \<and>
    (\<forall>i \<in> set is. live i \<longrightarrow> out' ! rank live i = entry i) \<and>
    (\<forall>k. (\<forall>i \<in> set is. live i \<longrightarrow> rank live i \<noteq> k) \<longrightarrow> out' ! k = out ! k)"
  using assms(3-5)
proof (induction "is" arbitrary: out)
  case (Cons i "is")
  show ?case
  proof (cases "live i")
    case True
    have h: "handle_map (i + 1) = int (rank live i) + 1" "rank live i < new_count"
      using True Cons.prems assms(1,2) rank_less [of i n live] by (auto simp: assign_handles_spec)
    obtain out' where out': "copy_live live handle_map entry is (out[rank live i := entry i]) = Some out'"
      "length out' = new_count" "\<forall>j \<in> set is. live j \<longrightarrow> out' ! rank live j = entry j"
      "\<forall>k. (\<forall>j \<in> set is. live j \<longrightarrow> rank live j \<noteq> k) \<longrightarrow> out' ! k = out[rank live i := entry i] ! k"
      using Cons.IH [of "out[rank live i := entry i]"] Cons.prems by auto
    have "\<forall>j \<in> set is. live j \<longrightarrow> rank live j \<noteq> rank live i"
      using Cons.prems(2) True by (auto simp: rank_inject)
    then have "out' ! rank live i = entry i"
      using out'(4) h(2) Cons.prems(1) by simp
    then show ?thesis
      using True h out' by auto
  next
    case False
    then show ?thesis
      using Cons.IH [of out] Cons.prems by auto
  qed
qed simp

lemma copy_live_nth:
  assumes "assign_handles live n = (handle_map, new_count)" and "length out = new_count"
  shows "\<exists>out'. copy_live live handle_map entry [0..<n] out = Some out' \<and> length out' = new_count \<and>
    (\<forall>i < n. live i \<longrightarrow> out' ! rank live i = entry i)"
proof -
  have a: "handle_map = fst (assign_handles live n)" "new_count = rank live n"
    using assms(1) assign_handles_spec(2) [of live n] by simp_all
  have "distinct [0..<n]" "set [0..<n] \<subseteq> {..<n}"
    by auto
  from copy_live_all [OF a(2,1) assms(2) this, of entry] show ?thesis
    by auto
qed

section \<open>Transfer between heaps\<close>

lemma list_all2_source: "list_all2 R xs ys \<Longrightarrow> y \<in> set ys \<Longrightarrow> \<exists>x. R x y"
  by (induction rule: list_all2_induct) auto

lemma list_all2_source_in: "list_all2 R xs ys \<Longrightarrow> y \<in> set ys \<Longrightarrow> \<exists>x \<in> set xs. R x y"
  by (induction rule: list_all2_induct) auto

lemma reach_similar:
  assumes sim: "\<And>v v'. R v v' \<Longrightarrow> similar vm vm' R v v'"
    and roots: "\<And>v'. v' \<in> roots' \<Longrightarrow> \<exists>v. R v v'"
    and "reach vm' roots' v'"
  shows "\<exists>v. R v v'"
  using assms(3)
proof induction
  case (reach_root v)
  then show ?case
    by (rule roots)
next
  case (reach_pair h p' v')
  then obtain v where v: "R v (ValPair h)"
    by blast
  from sim [OF v] obtain h0 where "v = ValPair h0"
    by (cases v) auto
  then show ?case
    using sim [OF v] reach_pair.hyps by auto
next
  case (reach_child h node' c')
  then obtain v where v: "R v (ValNode h)"
    by blast
  from sim [OF v] obtain h0 where "v = ValNode h0"
    by (cases v) auto
  then obtain node where "list_all2 (\<lambda>c c'. R (ValNode c) (ValNode c')) (node_children vm node) (node_children vm' node')"
    using sim [OF v] reach_child.hyps by auto
  then show ?case
    using reach_child.hyps(3) by (auto simp: list_all2_conv_all_nth in_set_conv_nth)
qed

text \<open>The roots as a list, and that a heap shows the same through them as another one.\<close>

definition root_list :: "'a heap_vm \<Rightarrow> AivmValue list" where
  "root_list vm =
     root_values vm @ map ValNode (filter (\<lambda>h. h > 0) (fixed_handles vm)) @ map ValNode (builder_handles vm)"

definition same_views :: "'a heap_vm \<Rightarrow> 'a heap_vm \<Rightarrow> bool" where
  "same_views vm vm' \<longleftrightarrow> list_all2 (\<lambda>v v'. \<forall>n. value_view n vm' v' = value_view n vm v) (root_list vm) (root_list vm')"

lemma root_list_set: "set (root_list vm) = gc_roots vm []"
  by (auto simp: root_list_def gc_roots_def)

lemma gc_roots_extra: "gc_roots vm extra = gc_roots vm [] \<union> ValNode ` {h \<in> set extra. h > 0}"
  by (auto simp: gc_roots_def)

lemma same_views_trans: "same_views vm vm' \<Longrightarrow> same_views vm' vm'' \<Longrightarrow> same_views vm vm''"
  by (auto simp: same_views_def list_all2_conv_all_nth)

lemma same_views_refl: "same_views vm vm"
  by (auto simp: same_views_def list_all2_conv_all_nth)

lemma same_viewsI:
  assumes "\<And>v v'. R v v' \<Longrightarrow> similar vm vm' R v v'" and "list_all2 R (root_list vm) (root_list vm')"
  shows "same_views vm vm'"
  using assms(2) view_similar [of R vm vm', OF assms(1)] by (auto simp: same_views_def list_all2_conv_all_nth)

text \<open>Reachability and views read these fields only; well-formedness the capacities too.\<close>

definition same_contents :: "'a heap_vm \<Rightarrow> 'a heap_vm \<Rightarrow> bool" where
  "same_contents vm vm' \<longleftrightarrow>
     vm_scratch_pairs vm' = vm_scratch_pairs vm \<and> vm_nodes vm' = vm_nodes vm \<and> vm_node_attrs vm' = vm_node_attrs vm \<and>
     vm_node_children vm' = vm_node_children vm \<and> vm_string_arena vm' = vm_string_arena vm \<and>
     vm_bytes_arena vm' = vm_bytes_arena vm \<and>
     root_values vm' = root_values vm \<and> fixed_handles vm' = fixed_handles vm \<and> builder_handles vm' = builder_handles vm"

definition same_heap :: "'a heap_vm \<Rightarrow> 'a heap_vm \<Rightarrow> bool" where
  "same_heap vm vm' \<longleftrightarrow>
     vm_scratch_pairs vm' = vm_scratch_pairs vm \<and> vm_nodes vm' = vm_nodes vm \<and> vm_node_attrs vm' = vm_node_attrs vm \<and>
     vm_node_children vm' = vm_node_children vm \<and> vm_string_arena vm' = vm_string_arena vm \<and>
     vm_bytes_arena vm' = vm_bytes_arena vm \<and> vm_node_capacity vm' = vm_node_capacity vm \<and>
     vm_node_attr_capacity vm' = vm_node_attr_capacity vm \<and> vm_node_child_capacity vm' = vm_node_child_capacity vm \<and>
     root_values vm' = root_values vm \<and> fixed_handles vm' = fixed_handles vm \<and> builder_handles vm' = builder_handles vm"

lemma same_heap_contents: "same_heap vm vm' \<Longrightarrow> same_contents vm vm'"
  by (simp add: same_heap_def same_contents_def)

lemma same_contents_lookups:
  assumes "same_contents vm vm'"
  shows "aivm_vm_lookup_scratch_pair vm' = aivm_vm_lookup_scratch_pair vm" and "aivm_vm_lookup_node vm' = aivm_vm_lookup_node vm"
    and "node_children vm' = node_children vm" and "node_attrs vm' = node_attrs vm"
  using assms
  by (auto simp: same_contents_def aivm_vm_lookup_scratch_pair_def aivm_vm_lookup_node_def node_children_def node_attrs_def fun_eq_iff)

lemma same_contents_reach:
  assumes "same_contents vm vm'"
  shows "reach vm' roots v = reach vm roots v" and "gc_roots vm' extra = gc_roots vm extra"
    and "value_ok vm' v = value_ok vm v" and "value_view n vm' v = value_view n vm v" and "root_list vm' = root_list vm"
    and "same_views vm vm'"
proof -
  note l = same_contents_lookups [OF assms]
  have "reach vm' roots v \<Longrightarrow> reach vm roots v" for roots v
    by (induction rule: reach.induct) (auto simp: l intro: reach.intros)
  moreover have "reach vm roots v \<Longrightarrow> reach vm' roots v" for roots v
    by (induction rule: reach.induct) (auto simp: l [symmetric] intro: reach.intros)
  ultimately show "reach vm' roots v = reach vm roots v"
    by blast
  show "gc_roots vm' extra = gc_roots vm extra"
    using assms by (simp add: same_contents_def gc_roots_def)
  show "value_ok vm' v = value_ok vm v"
    using assms by (cases v) (simp_all add: same_contents_def node_texts_def l)
  show view: "value_view n vm' v = value_view n vm v" for n v
  proof (induction n arbitrary: v)
    case 0
    then show ?case
      using assms by (cases v) (simp_all add: same_contents_def)
  next
    case (Suc n)
    then show ?case
      using assms by (cases v) (simp_all add: same_contents_def l split: option.splits)
  qed
  show roots: "root_list vm' = root_list vm"
    using assms by (simp add: same_contents_def root_list_def)
  show "same_views vm vm'"
    using same_views_refl [of vm] unfolding same_views_def roots view .
qed

lemma same_contents_heap_ok:
  assumes "same_contents vm vm'" and "heap_ok vm extra"
    and "vm_node_capacity vm \<le> vm_node_capacity vm'" and "vm_node_attr_capacity vm \<le> vm_node_attr_capacity vm'"
    and "vm_node_child_capacity vm \<le> vm_node_child_capacity vm'"
    and "vm_node_attr_capacity vm' \<le> SIZE_MAX" and "vm_node_child_capacity vm' \<le> SIZE_MAX"
  shows "heap_ok vm' extra"
proof -
  have "heap_closed vm'"
    using assms by (auto simp: heap_ok_def heap_closed_def same_contents_def node_shape_ok_def same_contents_lookups [OF assms(1)])
  then show ?thesis
    using assms(2) same_contents_reach(1-3) [OF assms(1)] by (simp add: heap_ok_def)
qed

lemma same_heap_reach:
  assumes "same_heap vm vm'"
  shows "reach vm' roots v = reach vm roots v" and "gc_roots vm' extra = gc_roots vm extra"
    and "value_ok vm' v = value_ok vm v" and "heap_ok vm' extra = heap_ok vm extra"
    and "value_view n vm' v = value_view n vm v" and "root_list vm' = root_list vm"
proof -
  note c = same_heap_contents [OF assms]
  show "reach vm' roots v = reach vm roots v" "gc_roots vm' extra = gc_roots vm extra"
    "value_ok vm' v = value_ok vm v" "value_view n vm' v = value_view n vm v" "root_list vm' = root_list vm"
    by (rule same_contents_reach [OF c])+
  have "heap_closed vm' = heap_closed vm"
    using assms by (simp add: same_heap_def heap_closed_def node_shape_ok_def same_contents_lookups [OF c])
  then show "heap_ok vm' extra = heap_ok vm extra"
    by (simp add: heap_ok_def same_contents_reach(1-3) [OF c])
qed

lemma set_error_same_heap: "same_heap vm (aivm_set_vm_error vm err detail)"
  by (simp add: same_heap_def aivm_set_vm_error_def root_values_def local_values_def fixed_handles_def builder_handles_def)

lemma rank_card:
  assumes "\<And>h. R h \<Longrightarrow> valid_handle h n" and "\<And>i. live i \<longleftrightarrow> R (int i + 1)"
  shows "rank live n = card {h. R h}"
proof -
  have "bij_betw (\<lambda>i. int i + 1) {i. i < n \<and> live i} {h. R h}"
    by (rule bij_betw_byWitness [where f' = "\<lambda>h. nat (h - 1)"]) (use assms in \<open>fastforce simp: valid_handle_def\<close>)+
  then show ?thesis
    unfolding rank_def by (rule bij_betw_same_card)
qed

text \<open>A machine after a change of its roots and pairs.\<close>

lemma put_roots_fields [simp]:
  "vm_scratch_pairs (put_roots st ls rs ps vm) = vm_scratch_pairs vm"
  "vm_nodes (put_roots st ls rs ps vm) = vm_nodes vm"
  "vm_node_attrs (put_roots st ls rs ps vm) = vm_node_attrs vm"
  "vm_node_children (put_roots st ls rs ps vm) = vm_node_children vm"
  "vm_string_arena (put_roots st ls rs ps vm) = vm_string_arena vm"
  "vm_bytes_arena (put_roots st ls rs ps vm) = vm_bytes_arena vm"
  "vm_node_capacity (put_roots st ls rs ps vm) = vm_node_capacity vm"
  "vm_node_attr_capacity (put_roots st ls rs ps vm) = vm_node_attr_capacity vm"
  "vm_node_child_capacity (put_roots st ls rs ps vm) = vm_node_child_capacity vm"
  "vm_node_builders (put_roots st ls rs ps vm) = vm_node_builders vm"
  "vm_process_argv_node_handle (put_roots st ls rs ps vm) = vm_process_argv_node_handle vm"
  "vm_ui_default_window_size_node_handle (put_roots st ls rs ps vm) = vm_ui_default_window_size_node_handle vm"
  "vm_ui_empty_event_node_handle (put_roots st ls rs ps vm) = vm_ui_empty_event_node_handle vm"
  "vm_string_arena_limit (put_roots st ls rs ps vm) = vm_string_arena_limit vm"
  "vm_string_arena_capacity (put_roots st ls rs ps vm) = vm_string_arena_capacity vm"
  "vm_string_intern_entries (put_roots st ls rs ps vm) = vm_string_intern_entries vm"
  "vm_bytes_arena_limit (put_roots st ls rs ps vm) = vm_bytes_arena_limit vm"
  "vm_bytes_arena_capacity (put_roots st ls rs ps vm) = vm_bytes_arena_capacity vm"
  "vm_bytes_arena_gc_threshold (put_roots st ls rs ps vm) = vm_bytes_arena_gc_threshold vm"
  by (simp_all add: put_roots_def set_local_values_def set_task_results_def)

text \<open>What the invariant of the string arena reads.\<close>

definition same_string_arena :: "'a heap_vm \<Rightarrow> 'a heap_vm \<Rightarrow> bool" where
  "same_string_arena vm vm' \<longleftrightarrow>
     vm_string_arena vm' = vm_string_arena vm \<and> vm_string_arena_limit vm' = vm_string_arena_limit vm \<and>
     vm_string_arena_capacity vm' = vm_string_arena_capacity vm \<and> vm_string_intern_entries vm' = vm_string_intern_entries vm"

lemma same_string_arena_refl [simp]: "same_string_arena vm vm"
  by (simp add: same_string_arena_def)

lemma heap_fields_cong:
  assumes "vm_nodes vm' = vm_nodes vm" and "vm_node_attrs vm' = vm_node_attrs vm"
    and "vm_node_children vm' = vm_node_children vm"
  shows "aivm_vm_lookup_node vm' h = aivm_vm_lookup_node vm h" and "node_attrs vm' node = node_attrs vm node"
    and "node_children vm' node = node_children vm node" and "node_texts vm' node = node_texts vm node"
    and "node_shape_ok vm' node = node_shape_ok vm node"
  using assms by (simp_all add: aivm_vm_lookup_node_def node_attrs_def node_children_def node_texts_def node_shape_ok_def)

lemma reach_pair_live:
  assumes "heap_ok vm extra" and "reach vm (gc_roots vm extra) v" and "v = ValPair h"
  shows "valid_handle h (vm_scratch_pair_count vm) \<and> pair_live vm extra (nat (h - 1))"
proof -
  have "valid_handle h (vm_scratch_pair_count vm)"
    using assms by (auto simp: heap_ok_def)
  moreover from this have "int (nat (h - 1)) + 1 = h"
    by (simp add: valid_handle_def)
  ultimately show ?thesis
    using assms(2,3) by (simp add: pair_live_def)
qed

lemma live_pair_reach:
  assumes "i < vm_scratch_pair_count vm" and "pair_live vm extra i"
    and "v \<in> {pair_first (vm_scratch_pairs vm ! i), pair_second (vm_scratch_pairs vm ! i)}"
  shows "reach vm (gc_roots vm extra) v"
  using assms reach_pair [of vm "gc_roots vm extra" "int i + 1"]
  by (simp add: pair_live_def lookup_pair_iff valid_handle_def)

lemma reach_node_live:
  assumes "heap_ok vm extra" and "reach vm (gc_roots vm extra) (ValNode h)"
  shows "valid_handle h (vm_node_count vm)" and "node_live vm extra (nat (h - 1))" and "nat (h - 1) < vm_node_count vm"
proof -
  show v: "valid_handle h (vm_node_count vm)"
    by (rule heap_ok_node [OF assms])
  then have "int (nat (h - 1)) + 1 = h"
    by (simp add: valid_handle_def)
  then show "node_live vm extra (nat (h - 1))"
    using assms(2) by (simp add: node_live_def)
  show "nat (h - 1) < vm_node_count vm"
    using v by (auto simp: valid_handle_def)
qed

lemma enumerate_nth_set: "(i, p) \<in> set (enumerate 0 ps) \<longleftrightarrow> i < length ps \<and> p = ps ! i"
  by (auto simp: in_set_enumerate_eq)

end
