(* ===== verification/Pair_Compaction.thy ===== *)
theory Pair_Compaction
  imports Heap_Traversal
begin

text \<open>
  Compaction of the scratch pairs (\<open>aivm_vm_compact_scratch_pairs\<close>, \<^verbatim>\<open>src/src/aivm_vm.c\<close>): the reachable pairs are
  moved together and every handle to a pair is renumbered.
\<close>

definition sizeof_AivmScratchPair :: nat where "sizeof_AivmScratchPair = 48"

definition remap_value_scratch_pair_handle :: "nat \<Rightarrow> (nat \<Rightarrow> int) \<Rightarrow> AivmValue \<Rightarrow> AivmValue option" where
  "remap_value_scratch_pair_handle pair_count pair_map v =
     (case v of
        ValPair old_handle \<Rightarrow>
          if old_handle \<le> 0 \<or> old_handle > int pair_count \<or> pair_map (nat old_handle) \<le> 0 then None
          else Some (ValPair (pair_map (nat old_handle)))
      | _ \<Rightarrow> Some v)"

definition remap_pair_values :: "(AivmValue \<Rightarrow> AivmValue option) \<Rightarrow> AivmScratchPair \<Rightarrow> AivmScratchPair option" where
  "remap_pair_values f p =
     (case f (pair_first p) of
        None \<Rightarrow> None
      | Some v \<Rightarrow> (case f (pair_second p) of None \<Rightarrow> None | Some w \<Rightarrow> Some \<lparr>pair_first = v, pair_second = w\<rparr>))"

definition empty_pair :: AivmScratchPair where
  "empty_pair = \<lparr>pair_first = ValVoid, pair_second = ValVoid\<rparr>"

definition aivm_vm_compact_scratch_pairs :: "(nat \<Rightarrow> bool) \<Rightarrow> 'a heap_vm \<Rightarrow> bool \<times> 'a heap_vm" where
  "aivm_vm_compact_scratch_pairs alloc vm =
     (let n = vm_scratch_pair_count vm; invalid = ''Invalid scratch-pair handle during pair compaction.'' in
      if n = 0 then (True, vm)
      else if \<not> (alloc n \<and> alloc ((n + 1) * 8) \<and> alloc (n * sizeof_AivmScratchPair))
      then (False, aivm_set_vm_error vm AIVM_VM_ERR_MEMORY_PRESSURE
              ''AIVMM005: scratch-pair compaction allocation failed.'')
      else
        case aivm_vm_mark_live_scratch_pair_handles alloc vm of
          (None, vm) \<Rightarrow> (False, vm)
        | (Some live, vm) \<Rightarrow>
            (case assign_handles live n of (pair_map, new_count) \<Rightarrow>
               (case copy_live live pair_map (\<lambda>i. vm_scratch_pairs vm ! i) [0..<n] (replicate new_count empty_pair) of
                  None \<Rightarrow> (False, aivm_set_vm_error vm AIVM_VM_ERR_INVALID_PROGRAM
                            ''Dangling live scratch-pair handle during compaction.'')
                | Some compacted \<Rightarrow>
                    (case traverse (stateless (remap_pair_values (remap_value_scratch_pair_handle n pair_map))) compacted () of
                       (_, None) \<Rightarrow> (False, aivm_set_vm_error vm AIVM_VM_ERR_INVALID_PROGRAM invalid)
                     | (compacted, Some _) \<Rightarrow>
                         (case traverse_roots (stateless (remap_value_scratch_pair_handle n pair_map)) vm () of
                            (vm, Inl _) \<Rightarrow> (False, aivm_set_vm_error vm AIVM_VM_ERR_INVALID_PROGRAM invalid)
                          | (vm, Inr _) \<Rightarrow> (True, vm\<lparr>vm_scratch_pairs := compacted\<rparr>))))))"

section \<open>Correctness\<close>

text \<open>The new value of a reachable value.\<close>

definition moved_pair :: "(nat \<Rightarrow> bool) \<Rightarrow> AivmValue \<Rightarrow> AivmValue" where
  "moved_pair live v = (case v of ValPair h \<Rightarrow> ValPair (int (rank live (nat (h - 1))) + 1) | _ \<Rightarrow> v)"

lemma remap_pair_handle:
  assumes "\<And>h. v = ValPair h \<Longrightarrow> valid_handle h n \<and> live (nat (h - 1))"
  shows "remap_value_scratch_pair_handle n (fst (assign_handles live n)) v = Some (moved_pair live v)"
proof (cases "\<exists>h. v = ValPair h")
  case True
  then obtain h where h: "v = ValPair h" "0 < h" "h \<le> int n" "live (nat (h - 1))"
    using assms by (auto simp: valid_handle_def)
  then have "nat h - 1 = nat (h - 1)" "0 < nat h" "nat h \<le> n"
    by auto
  with h show ?thesis
    by (simp add: remap_value_scratch_pair_handle_def assign_handles_spec moved_pair_def)
qed (auto simp: remap_value_scratch_pair_handle_def moved_pair_def split: AivmValue.splits)

definition moved_pair_values :: "(nat \<Rightarrow> bool) \<Rightarrow> AivmScratchPair \<Rightarrow> AivmScratchPair" where
  "moved_pair_values live p = \<lparr>pair_first = moved_pair live (pair_first p), pair_second = moved_pair live (pair_second p)\<rparr>"

text \<open>The memory a compaction asks for.\<close>

definition pair_compaction_memory :: "(nat \<Rightarrow> bool) \<Rightarrow> 'a heap_vm \<Rightarrow> bool" where
  "pair_compaction_memory alloc vm \<longleftrightarrow>
     (let n = vm_scratch_pair_count vm in
      n = 0 \<or> alloc n \<and> alloc ((n + 1) * 8) \<and> alloc (n * sizeof_AivmScratchPair) \<and> alloc (n * 8))"

lemma pair_compaction_refused:
  assumes "\<not> pair_compaction_memory alloc vm"
  shows "\<exists>detail. aivm_vm_compact_scratch_pairs alloc vm = (False, aivm_set_vm_error vm AIVM_VM_ERR_MEMORY_PRESSURE detail)"
proof (cases "alloc (vm_scratch_pair_count vm * 8)")
  case True
  then show ?thesis
    using assms by (intro exI) (auto simp: aivm_vm_compact_scratch_pairs_def pair_compaction_memory_def Let_def)
next
  case False
  then obtain detail where "aivm_vm_mark_live_scratch_pair_handles alloc vm = (None, aivm_set_vm_error vm AIVM_VM_ERR_MEMORY_PRESSURE detail)"
    using assms pairs_not_marked [of alloc vm] by (auto simp: pair_mark_memory_def pair_compaction_memory_def Let_def)
  then show ?thesis
    using assms by (auto simp: aivm_vm_compact_scratch_pairs_def pair_compaction_memory_def Let_def)
qed

lemma compact_pairs_result:
  assumes "heap_ok vm []" and "pair_compaction_memory alloc vm" and "vm_scratch_pair_count vm \<noteq> 0"
  defines "live \<equiv> pair_live vm []"
  shows "\<exists>vm' st ls rs ps pairs'. aivm_vm_compact_scratch_pairs alloc vm = (True, vm') \<and>
    vm' = (put_roots st ls rs ps vm)\<lparr>vm_scratch_pairs := pairs'\<rparr> \<and>
    length st = vm_stack_count vm \<and> root_values vm' = map (moved_pair live) (root_values vm) \<and>
    length pairs' = rank live (vm_scratch_pair_count vm) \<and>
    (\<forall>i < vm_scratch_pair_count vm. live i \<longrightarrow> pairs' ! rank live i = moved_pair_values live (vm_scratch_pairs vm ! i))"
proof -
  let ?n = "vm_scratch_pair_count vm"
  obtain pair_map new_count where a: "assign_handles live ?n = (pair_map, new_count)"
    by fastforce
  then have m: "pair_map = fst (assign_handles live ?n)" "new_count = rank live ?n"
    using assign_handles_spec(2) [of live ?n] by simp_all
  let ?g = "moved_pair live" and ?remap = "remap_value_scratch_pair_handle ?n pair_map"
  have remap: "?remap v = Some (?g v)" if "reach vm (gc_roots vm []) v" for v
    unfolding m(1) live_def using reach_pair_live [OF assms(1) that] by (intro remap_pair_handle) simp
  have "pair_mark_memory alloc vm"
    using assms(2) by (auto simp: pair_compaction_memory_def pair_mark_memory_def Let_def)
  then have mark: "aivm_vm_mark_live_scratch_pair_handles alloc vm = (Some live, vm)"
    unfolding live_def using pairs_marked [where alloc = alloc, OF assms(1)] by (auto simp: pair_live_def fun_eq_iff)
  obtain out where out: "copy_live live pair_map (\<lambda>i. vm_scratch_pairs vm ! i) [0..<?n] (replicate new_count empty_pair) = Some out"
    "length out = new_count" "\<And>i. i < ?n \<Longrightarrow> live i \<Longrightarrow> out ! rank live i = vm_scratch_pairs vm ! i"
    using copy_live_nth [OF a, of "replicate new_count empty_pair"] by auto
  have "remap_pair_values ?remap p = Some (moved_pair_values live p)" if p: "p \<in> set out" for p
  proof -
    obtain k where "k < new_count" "p = out ! k"
      using p out(2) by (auto simp: in_set_conv_nth)
    then obtain i where i: "i < ?n" "live i" "p = vm_scratch_pairs vm ! i"
      using rank_surj [of k live ?n] out(3) m(2) by auto
    show ?thesis
      using remap live_pair_reach [of i vm "[]"] i by (simp add: remap_pair_values_def moved_pair_values_def live_def)
  qed
  then have t: "traverse (stateless (remap_pair_values ?remap)) out () = (map (moved_pair_values live) out, Some ())"
    by (rule traverse_stateless)
  have roots: "\<And>v. v \<in> set (root_values vm) \<Longrightarrow> ?remap v = Some (?g v)"
    using remap gc_root_values by blast
  obtain vm1 where vm1: "traverse_roots (stateless ?remap) vm () = (vm1, Inr ())"
    using traverse_roots_total [of vm "stateless ?remap" "()"] roots by (auto simp: stateless_def)
  then obtain st ls rs ps where r: "vm1 = put_roots st ls rs ps vm" "length st = vm_stack_count vm"
    "traverse (stateless ?remap) (root_values vm) () = (root_values vm1, Some ())"
    using traverse_roots_all [OF vm1] by (elim exE conjE) simp
  then have "root_values vm1 = map ?g (root_values vm)"
    using traverse_stateless [of "root_values vm" ?remap, OF roots] by simp
  moreover have "aivm_vm_compact_scratch_pairs alloc vm = (True, vm1\<lparr>vm_scratch_pairs := map (moved_pair_values live) out\<rparr>)"
    using assms(2,3) mark a out(1) t vm1
    by (simp add: aivm_vm_compact_scratch_pairs_def pair_compaction_memory_def Let_def split: if_splits)
  moreover have "rank live i < new_count" if "i < ?n" "live i" for i
    using that m(2) rank_less by blast
  ultimately show ?thesis
    using r(1,2) out(2,3) m(2)
    by (intro exI [of _ "vm1\<lparr>vm_scratch_pairs := map (moved_pair_values live) out\<rparr>"] exI [of _ st] exI [of _ ls] exI [of _ rs] exI [of _ ps] exI [of _ "map (moved_pair_values live) out"])
      (simp add: root_values_def local_values_def)
qed

lemma moved_pair_cases:
  "moved_pair live (ValString p) = ValString p" "moved_pair live (ValBytes b n) = ValBytes b n"
  "moved_pair live (ValNode h) = ValNode h" "moved_pair live (ValPair h) = ValPair (int (rank live (nat (h - 1))) + 1)"
  by (simp_all add: moved_pair_def)

text \<open>Compaction of the pairs keeps a well-formed heap and everything that can be seen through its roots.\<close>

lemma pairs_compacted:
  assumes "heap_ok vm []" and "aivm_vm_compact_scratch_pairs alloc vm = (True, vm')"
  shows "same_views vm vm'" and "heap_ok vm' []"
proof -
  have "same_views vm vm' \<and> heap_ok vm' []"
  proof (cases "vm_scratch_pair_count vm = 0")
    case True
    then show ?thesis
      using assms same_views_refl by (simp add: aivm_vm_compact_scratch_pairs_def)
  next
    case False
    let ?live = "pair_live vm []" and ?n = "vm_scratch_pair_count vm"
    have memory: "pair_compaction_memory alloc vm"
      using pair_compaction_refused [of alloc vm] assms(2) by auto
    obtain st ls rs ps pairs' where vm': "vm' = (put_roots st ls rs ps vm)\<lparr>vm_scratch_pairs := pairs'\<rparr>"
      and roots: "root_values vm' = map (moved_pair ?live) (root_values vm)"
      and len: "length pairs' = rank ?live ?n"
      and nth: "\<And>i. i < ?n \<Longrightarrow> ?live i \<Longrightarrow> pairs' ! rank ?live i = moved_pair_values ?live (vm_scratch_pairs vm ! i)"
      using compact_pairs_result [OF assms(1) memory False] assms(2) by simp blast
    define R where "R = (\<lambda>v v'. reach vm (gc_roots vm []) v \<and> v' = moved_pair ?live v)"
    have cong: "vm_nodes vm' = vm_nodes vm" "vm_node_attrs vm' = vm_node_attrs vm"
      "vm_node_children vm' = vm_node_children vm" "vm_scratch_pairs vm' = pairs'"
      "vm_string_arena vm' = vm_string_arena vm" "vm_bytes_arena vm' = vm_bytes_arena vm"
      "fixed_handles vm' = fixed_handles vm" "builder_handles vm' = builder_handles vm"
      by (simp_all add: vm' fixed_handles_def builder_handles_def)
    note nodes = heap_fields_cong [OF cong(1-3)]
    have new_handle: "valid_handle (int (rank ?live (nat (h - 1))) + 1) (length pairs')"
      if "reach vm (gc_roots vm []) (ValPair h)" for h
    proof -
      have "?live (nat (h - 1))" "nat (h - 1) < ?n"
        using reach_pair_live [OF assms(1) that] by (auto simp: valid_handle_def)
      then have "rank ?live (nat (h - 1)) < length pairs'"
        using rank_less len by simp
      then show ?thesis
        by (simp add: valid_handle_def)
    qed
    have sim: "similar vm vm' R v v'" if "R v v'" for v v'
    proof -
      have v: "reach vm (gc_roots vm []) v" "v' = moved_pair ?live v"
        using that by (simp_all add: R_def)
      show ?thesis
      proof (cases v)
        case (ValPair h)
        let ?i = "nat (h - 1)"
        have i: "valid_handle h ?n" "?live ?i" "?i < ?n"
          using reach_pair_live [OF assms(1) v(1)] ValPair by (auto simp: valid_handle_def)
        then show ?thesis
          using v ValPair new_handle [of h] nth [of ?i] live_pair_reach [of ?i vm "[]"]
          by (simp add: lookup_pair_iff cong moved_pair_cases moved_pair_values_def R_def)
      next
        case (ValNode h)
        then obtain node where "aivm_vm_lookup_node vm h = Some node"
          using heap_ok_node [OF assms(1)] v(1) by (simp add: lookup_node_iff)
        then show ?thesis
          using v ValNode reach_child [of vm "gc_roots vm []" h node]
          by (simp add: nodes cong moved_pair_cases R_def list_all2_same)
      qed (use v in \<open>simp_all add: moved_pair_def cong\<close>)
    qed
    have "list_all2 R (root_list vm) (root_list vm')"
      using gc_root_values [of _ vm "[]"] reach_root [of _ "gc_roots vm []" vm]
      unfolding root_list_def roots cong
      by (intro list_all2_appendI) (auto simp: R_def list.rel_map moved_pair_cases gc_roots_def intro!: list.rel_refl_strong)
    then have same: "same_views vm vm'" and rel: "\<And>v'. v' \<in> gc_roots vm' [] \<Longrightarrow> \<exists>v. R v v'"
      using same_viewsI [of R vm vm', OF sim] unfolding root_list_set [symmetric]
      by (auto simp: list_all2_conv_all_nth in_set_conv_nth)
    have "value_ok vm' v'" if "R v v'" for v v'
    proof -
      have "reach vm (gc_roots vm []) v" "v' = moved_pair ?live v" "value_ok vm v"
        using that assms(1) by (auto simp: R_def heap_ok_def)
      then show ?thesis
        using new_handle by (cases v) (simp_all add: moved_pair_def nodes cong)
    qed
    then have "value_ok vm' v'" if "reach vm' (gc_roots vm' []) v'" for v'
      using reach_similar [of R vm vm', OF sim rel that] by blast
    moreover have "pair_values_ok (length pairs') p" if p: "p \<in> set pairs'" for p
    proof -
      obtain i where i: "i < ?n" "?live i" "p = moved_pair_values ?live (vm_scratch_pairs vm ! i)"
        using p rank_surj [of _ ?live ?n] nth len by (force simp: in_set_conv_nth)
      have "\<forall>h. moved_pair ?live v = ValPair h \<longrightarrow> valid_handle h (length pairs')"
        if "v \<in> {pair_first (vm_scratch_pairs vm ! i), pair_second (vm_scratch_pairs vm ! i)}" for v
        using live_pair_reach [OF i(1,2) that] new_handle by (cases v) (auto simp: moved_pair_def)
      from this [of "pair_first (vm_scratch_pairs vm ! i)"] this [of "pair_second (vm_scratch_pairs vm ! i)"]
      show ?thesis
        unfolding i(3) by (simp add: pair_values_ok_def moved_pair_values_def)
    qed
    moreover have "heap_closed vm"
      using assms(1) by (simp add: heap_ok_def)
    ultimately show ?thesis
      using same by (auto simp: heap_ok_def heap_closed_def nodes cong) (simp_all add: vm')
  qed
  then show "same_views vm vm'" and "heap_ok vm' []"
    by simp_all
qed

lemma pair_compaction_succeeds:
  assumes "heap_ok vm []" and "pair_compaction_memory alloc vm"
  shows "\<exists>vm'. aivm_vm_compact_scratch_pairs alloc vm = (True, vm') \<and>
    vm_scratch_pair_count vm' = card {h. reach vm (gc_roots vm []) (ValPair h)}"
proof -
  have valid: "valid_handle h (vm_scratch_pair_count vm)" if "reach vm (gc_roots vm []) (ValPair h)" for h
    using reach_pair_live [OF assms(1) that] by simp
  then have count: "rank (pair_live vm []) (vm_scratch_pair_count vm) = card {h. reach vm (gc_roots vm []) (ValPair h)}"
    by (rule rank_card) (simp_all add: pair_live_def)
  show ?thesis
  proof (cases "vm_scratch_pair_count vm = 0")
    case True
    then show ?thesis
      using count by (simp add: aivm_vm_compact_scratch_pairs_def)
  next
    case False
    then show ?thesis
      using compact_pairs_result [OF assms False] count by auto
  qed
qed

text \<open>Compaction of the scratch pairs of a well-formed heap succeeds exactly when its
  workspace can be allocated. It then keeps everything a program can see through the roots and a well-formed heap, and
  keeps the reachable pairs only; otherwise it reports an error and leaves the heap alone.\<close>

lemma pair_compaction_keeps_values:
  assumes "heap_ok vm []"
  shows "\<exists>vm'. if pair_compaction_memory alloc vm
    then aivm_vm_compact_scratch_pairs alloc vm = (True, vm') \<and> same_views vm vm' \<and> heap_ok vm' [] \<and>
      vm_scratch_pair_count vm' = card {h. reach vm (gc_roots vm []) (ValPair h)}
    else aivm_vm_compact_scratch_pairs alloc vm = (False, vm') \<and> same_heap vm vm' \<and> vm_status vm' = AIVM_VM_STATUS_ERROR"
proof (cases "pair_compaction_memory alloc vm")
  case True
  then obtain vm' where vm': "aivm_vm_compact_scratch_pairs alloc vm = (True, vm')"
    "vm_scratch_pair_count vm' = card {h. reach vm (gc_roots vm []) (ValPair h)}"
    using pair_compaction_succeeds [OF assms] by blast
  then show ?thesis
    using True pairs_compacted [OF assms vm'(1)] by auto
next
  case False
  then obtain detail where "aivm_vm_compact_scratch_pairs alloc vm = (False, aivm_set_vm_error vm AIVM_VM_ERR_MEMORY_PRESSURE detail)"
    using pair_compaction_refused by blast
  then show ?thesis
    using False set_error_same_heap by (auto simp: aivm_set_vm_error_def)
qed

lemma pair_compaction_keeps_values_witness:
  "\<exists>vm'. aivm_vm_compact_scratch_pairs (\<lambda>n. True) heap_demo = (True, vm') \<and> same_views heap_demo vm'"
  using pair_compaction_keeps_values [OF heap_demo_ok, of "\<lambda>n. True"] by (auto simp: pair_compaction_memory_def Let_def)

end
