(* ===== verification/Node_Compaction.thy ===== *)
theory Node_Compaction
  imports Pair_Compaction
begin

text \<open>
  Compaction of the node arena (\<^verbatim>\<open>src/src/aivm_vm_node_gc.c\<close>): the reachable nodes are moved together with
  their attributes and children, and every handle to a node is renumbered, in the roots, the
  reachable pairs, the builders and the handles a caller holds.
\<close>

definition sizeof_AivmNodeRecord :: nat where "sizeof_AivmNodeRecord = 48"
definition sizeof_AivmNodeAttr :: nat where "sizeof_AivmNodeAttr = 24"

definition add_counter_saturating :: "nat \<Rightarrow> nat \<Rightarrow> nat" where
  "add_counter_saturating counter delta = (if delta > SIZE_MAX - counter then SIZE_MAX else counter + delta)"

definition remap_value_node_handle :: "nat \<Rightarrow> nat \<Rightarrow> (nat \<Rightarrow> int) \<Rightarrow> AivmValue \<Rightarrow> AivmValue option" where
  "remap_value_node_handle pair_count node_capacity handle_map v =
     (case v of
        ValPair h \<Rightarrow> if h > 0 \<and> h \<le> int pair_count then Some v else None
      | ValNode old_handle \<Rightarrow>
          if old_handle \<le> 0 \<or> old_handle > int node_capacity then None
          else if handle_map (nat old_handle) \<le> 0 then None
          else Some (ValNode (handle_map (nat old_handle)))
      | _ \<Rightarrow> Some v)"

definition remap_child_handle :: "nat \<Rightarrow> (nat \<Rightarrow> int) \<Rightarrow> int \<Rightarrow> int option" where
  "remap_child_handle node_capacity handle_map handle =
     (if handle \<le> 0 \<or> handle > int node_capacity \<or> handle_map (nat handle) \<le> 0 then None
      else Some (handle_map (nat handle)))"

definition aivm_vm_remap_child_handles_for_compaction ::
  "'a heap_vm \<Rightarrow> (nat \<Rightarrow> int) \<Rightarrow> int list \<Rightarrow> int list \<times> unit option" where
  "aivm_vm_remap_child_handles_for_compaction vm handle_map children =
     traverse (stateless (remap_child_handle (vm_node_capacity vm) handle_map)) children ()"

section \<open>Copying the nodes\<close>

text \<open>The arrays that are being filled: nodes, attributes and children.\<close>

type_synonym node_arrays = "AivmNodeRecord list \<times> cptr AivmNodeAttr list \<times> int list"

definition node_attr_at :: "'a heap_vm \<Rightarrow> nat \<Rightarrow> cptr AivmNodeAttr" where
  "node_attr_at vm slot =
     (if slot < length (vm_node_attrs vm) then vm_node_attrs vm ! slot
      else NodeAttr CNull (AIVM_NODE_ATTR_IDENTIFIER CNull))"

definition copy_node_attr ::
  "'a heap_vm \<Rightarrow> AivmNodeRecord \<Rightarrow> nat \<Rightarrow> nat \<Rightarrow> cptr AivmNodeAttr list \<Rightarrow> cptr AivmNodeAttr list or_error" where
  "copy_node_attr vm node new_attr_count i new_attrs =
     (case (aivm_size_add_checked new_attr_count i, aivm_size_add_checked (node_attr_start node) i) of
        (Some to_slot, Some from_slot) \<Rightarrow>
          if to_slot \<ge> vm_node_attr_capacity vm \<or> from_slot \<ge> vm_node_attr_capacity vm
          then Inl (AIVM_VM_ERR_MEMORY_PRESSURE, ''AIVMM004: node attr slot overflow during node GC.'')
          else Inr (new_attrs @ [node_attr_at vm from_slot])
      | _ \<Rightarrow> Inl (AIVM_VM_ERR_MEMORY_PRESSURE, ''AIVMM004: node attr slot overflow during node GC.''))"

definition copy_node_child ::
  "'a heap_vm \<Rightarrow> (nat \<Rightarrow> int) \<Rightarrow> AivmNodeRecord \<Rightarrow> nat \<Rightarrow> nat \<Rightarrow> int list \<Rightarrow> int list or_error" where
  "copy_node_child vm handle_map node new_child_count i new_children =
     (case (aivm_size_add_checked (node_child_start node) i, aivm_size_add_checked new_child_count i) of
        (Some from_slot, Some to_slot) \<Rightarrow>
          if from_slot \<ge> vm_node_child_capacity vm \<or> to_slot \<ge> vm_node_child_capacity vm
          then Inl (AIVM_VM_ERR_MEMORY_PRESSURE, ''AIVMM004: node child slot overflow during node GC.'')
          else
            let old_child = node_child_at vm from_slot in
            if old_child \<le> 0 \<or> old_child > int (vm_node_capacity vm) \<or> handle_map (nat old_child) \<le> 0
            then Inl (AIVM_VM_ERR_INVALID_PROGRAM, ''Dangling child handle during node GC.'')
            else Inr (new_children @ [handle_map (nat old_child)])
      | _ \<Rightarrow> Inl (AIVM_VM_ERR_MEMORY_PRESSURE, ''AIVMM004: node child slot overflow during node GC.''))"

definition copy_node :: "'a heap_vm \<Rightarrow> (nat \<Rightarrow> bool) \<Rightarrow> (nat \<Rightarrow> int) \<Rightarrow> nat \<Rightarrow> node_arrays \<Rightarrow> node_arrays or_error" where
  "copy_node vm live handle_map i arrays =
     (case arrays of (new_nodes, new_attrs, new_children) \<Rightarrow>
        let old_node = vm_nodes vm ! i; new_attr_count = length new_attrs; new_child_count = length new_children in
        if \<not> live i then Inr (new_nodes, new_attrs, new_children)
        else if handle_map (i + 1) \<le> 0
        then Inl (AIVM_VM_ERR_INVALID_PROGRAM, ''Dangling live node handle during node GC.'')
        else
          let new_nodes = new_nodes[nat (handle_map (i + 1) - 1) :=
                old_node\<lparr>node_attr_start := new_attr_count, node_child_start := new_child_count\<rparr>] in
          case (aivm_size_add_checked new_attr_count (node_attr_count old_node),
                aivm_size_add_checked new_child_count (node_child_count old_node)) of
            (Some needed_attr_count, Some needed_child_count) \<Rightarrow>
              if needed_attr_count > vm_node_attr_capacity vm \<or> needed_child_count > vm_node_child_capacity vm
              then Inl (AIVM_VM_ERR_MEMORY_PRESSURE, ''AIVMM004: node compaction capacity exceeded.'')
              else
                (case mark_each (copy_node_attr vm old_node new_attr_count) [0..<node_attr_count old_node] new_attrs of
                   Inl e \<Rightarrow> Inl e
                 | Inr new_attrs \<Rightarrow>
                     (case mark_each (copy_node_child vm handle_map old_node new_child_count)
                             [0..<node_child_count old_node] new_children of
                        Inl e \<Rightarrow> Inl e
                      | Inr new_children \<Rightarrow> Inr (new_nodes, new_attrs, new_children)))
          | _ \<Rightarrow> Inl (AIVM_VM_ERR_MEMORY_PRESSURE, ''AIVMM004: node compaction capacity exceeded.''))"

definition empty_node :: AivmNodeRecord where
  "empty_node = \<lparr>node_kind = CNull, node_id = CNull, node_attr_start = 0, node_attr_count = 0,
     node_child_start = 0, node_child_count = 0\<rparr>"

section \<open>Renumbering\<close>

text \<open>The components of a reachable pair; the first one stays renumbered when the second fails.\<close>

definition remap_live_pair ::
  "(AivmValue \<Rightarrow> AivmValue option) \<Rightarrow> (nat \<Rightarrow> bool) \<Rightarrow> nat \<times> AivmScratchPair \<Rightarrow> unit \<Rightarrow> (nat \<times> AivmScratchPair) \<times> unit option" where
  "remap_live_pair remap live_pairs entry u =
     (case entry of (i, p) \<Rightarrow>
        if \<not> live_pairs i then ((i, p), Some ())
        else case remap (pair_first p) of
          None \<Rightarrow> ((i, p), None)
        | Some v \<Rightarrow>
            let p = p\<lparr>pair_first := v\<rparr> in
            (case remap (pair_second p) of
               None \<Rightarrow> ((i, p), None)
             | Some w \<Rightarrow> ((i, p\<lparr>pair_second := w\<rparr>), Some ())))"

definition remap_builder ::
  "'a heap_vm \<Rightarrow> (nat \<Rightarrow> int) \<Rightarrow> AivmNodeBuilderRecord \<Rightarrow> unit \<Rightarrow> AivmNodeBuilderRecord \<times> unit option" where
  "remap_builder vm handle_map b u =
     (if \<not> builder_active b then (b, Some ())
      else case aivm_vm_remap_child_handles_for_compaction vm handle_map (builder_children b) of
        (children, r) \<Rightarrow> (b\<lparr>builder_children := children\<rparr>, r))"

text \<open>A handle in a field of its own; zero stands for none.\<close>

definition remap_fixed :: "nat \<Rightarrow> (nat \<Rightarrow> int) \<Rightarrow> int \<Rightarrow> int option" where
  "remap_fixed node_capacity handle_map handle =
     (if handle > 0 then
        if handle > int node_capacity \<or> handle_map (nat handle) \<le> 0 then None else Some (handle_map (nat handle))
      else Some handle)"

definition remap_fixed_handles :: "(nat \<Rightarrow> int) \<Rightarrow> 'a heap_vm \<Rightarrow> bool \<times> 'a heap_vm" where
  "remap_fixed_handles handle_map vm =
     (let cap = vm_node_capacity vm; fail = (\<lambda>vm detail. (False, aivm_set_vm_error vm AIVM_VM_ERR_INVALID_PROGRAM detail)) in
      case remap_fixed cap handle_map (vm_process_argv_node_handle vm) of
        None \<Rightarrow> fail vm ''Invalid process argv node handle during node GC.''
      | Some h \<Rightarrow>
          let vm = vm\<lparr>vm_process_argv_node_handle := h\<rparr> in
          (case remap_fixed cap handle_map (vm_ui_default_window_size_node_handle vm) of
             None \<Rightarrow> fail vm ''Invalid ui window size node handle during node GC.''
           | Some h \<Rightarrow>
               let vm = vm\<lparr>vm_ui_default_window_size_node_handle := h\<rparr> in
               (case remap_fixed cap handle_map (vm_ui_empty_event_node_handle vm) of
                  None \<Rightarrow> fail vm ''Invalid ui event node handle during node GC.''
                | Some h \<Rightarrow> (True, vm\<lparr>vm_ui_empty_event_node_handle := h\<rparr>))))"

definition root_section_error :: "nat \<Rightarrow> string" where
  "root_section_error section =
     (if section = 0 then ''Invalid stack node handle during node GC.''
      else if section = 1 then ''Invalid local node handle during node GC.''
      else if section = 2 then ''Invalid completed-task node handle during node GC.''
      else ''Invalid parallel-value node handle during node GC.'')"

definition remap_node_handles :: "(nat \<Rightarrow> bool) \<Rightarrow> (nat \<Rightarrow> int) \<Rightarrow> 'a heap_vm \<Rightarrow> bool \<times> 'a heap_vm" where
  "remap_node_handles live_pairs handle_map vm =
     (let remap = remap_value_node_handle (vm_scratch_pair_count vm) (vm_node_capacity vm) handle_map;
          fail = (\<lambda>vm detail. (False, aivm_set_vm_error vm AIVM_VM_ERR_INVALID_PROGRAM detail)) in
      case traverse_roots (stateless remap) vm () of
        (vm, Inl section) \<Rightarrow> fail vm (root_section_error section)
      | (vm, Inr _) \<Rightarrow>
          (case traverse (remap_live_pair remap live_pairs) (enumerate 0 (vm_scratch_pairs vm)) () of (pairs, r) \<Rightarrow>
             let vm = vm\<lparr>vm_scratch_pairs := map snd pairs\<rparr> in
             case r of
               None \<Rightarrow> fail vm ''Invalid scratch-pair node handle during node GC.''
             | Some _ \<Rightarrow>
                 (case traverse (remap_builder vm handle_map) (vm_node_builders vm) () of (builders, r) \<Rightarrow>
                    let vm = vm\<lparr>vm_node_builders := builders\<rparr> in
                    case r of
                      None \<Rightarrow> fail vm ''Invalid node-builder child handle during node GC.''
                    | Some _ \<Rightarrow> remap_fixed_handles handle_map vm)))"

section \<open>The collector\<close>

definition count_gc_attempt :: "'a heap_vm \<Rightarrow> 'a heap_vm" where
  "count_gc_attempt vm =
     vm\<lparr>vm_heap_counters := (vm_heap_counters vm)
          \<lparr>node_gc_attempt_count := aivm_counter_increment_saturating (node_gc_attempt_count (vm_heap_counters vm))\<rparr>\<rparr>"

definition count_gc_compaction :: "nat \<Rightarrow> nat \<Rightarrow> nat \<Rightarrow> AivmHeapCounters \<Rightarrow> AivmHeapCounters" where
  "count_gc_compaction nodes attrs children c =
     c\<lparr>node_gc_compaction_count := aivm_counter_increment_saturating (node_gc_compaction_count c),
       node_gc_reclaimed_nodes := add_counter_saturating (node_gc_reclaimed_nodes c) nodes,
       node_gc_reclaimed_attrs := add_counter_saturating (node_gc_reclaimed_attrs c) attrs,
       node_gc_reclaimed_children := add_counter_saturating (node_gc_reclaimed_children c) children\<rparr>"

definition put_nodes :: "node_arrays \<Rightarrow> 'a heap_vm \<Rightarrow> 'a heap_vm" where
  "put_nodes arrays vm =
     (case arrays of (nodes, attrs, children) \<Rightarrow>
        vm\<lparr>vm_nodes := nodes, vm_node_attrs := attrs, vm_node_children := children,
           vm_heap_counters := count_gc_compaction (vm_node_count vm - length nodes)
             (length (vm_node_attrs vm) - length attrs) (length (vm_node_children vm) - length children)
             (vm_heap_counters vm)\<rparr>)"

definition compact_workspace :: "(nat \<Rightarrow> bool) \<Rightarrow> 'a heap_vm \<Rightarrow> bool" where
  "compact_workspace alloc vm \<longleftrightarrow>
     alloc (vm_node_capacity vm) \<and> alloc ((vm_node_capacity vm + 1) * 8) \<and> alloc AIVM_VM_SCRATCH_PAIR_CAPACITY \<and>
     alloc (vm_node_capacity vm * sizeof_AivmNodeRecord) \<and> alloc (vm_node_attr_capacity vm * sizeof_AivmNodeAttr) \<and>
     alloc (vm_node_child_capacity vm * 8)"

text \<open>The answer is the handle map; with no nodes the code leaves the caller's zeroed map alone.\<close>

definition aivm_vm_compact_node_arenas_with_map ::
  "(nat \<Rightarrow> bool) \<Rightarrow> 'a heap_vm \<Rightarrow> int list \<Rightarrow> (nat \<Rightarrow> int) option \<times> 'a heap_vm" where
  "aivm_vm_compact_node_arenas_with_map alloc vm extra =
     (let vm = count_gc_attempt vm in
      if vm_node_count vm = 0 then (Some (\<lambda>k. 0), vm)
      else if \<not> compact_workspace alloc vm
      then (None, aivm_set_vm_error vm AIVM_VM_ERR_MEMORY_PRESSURE ''AIVMM004: node compaction allocation failed.'')
      else
        case aivm_vm_mark_live_node_handles alloc vm extra of
          (None, vm) \<Rightarrow> (None, vm)
        | (Some live, vm) \<Rightarrow>
            (case aivm_vm_mark_live_scratch_pair_handles alloc vm of
               (None, vm) \<Rightarrow> (None, vm)
             | (Some live_pairs, vm) \<Rightarrow>
                 (case assign_handles live (vm_node_count vm) of (handle_map, new_node_count) \<Rightarrow>
                    (case mark_each (copy_node vm live handle_map) [0..<vm_node_count vm]
                            (replicate new_node_count empty_node, [], []) of
                       Inl (err, detail) \<Rightarrow> (None, aivm_set_vm_error vm err detail)
                     | Inr arrays \<Rightarrow>
                         (case remap_node_handles live_pairs handle_map (put_nodes arrays vm) of
                            (False, vm) \<Rightarrow> (None, vm)
                          | (True, vm) \<Rightarrow> (Some handle_map, vm))))))"

definition aivm_vm_should_attempt_proactive_node_gc :: "'a heap_vm \<Rightarrow> nat \<Rightarrow> nat \<Rightarrow> bool" where
  "aivm_vm_should_attempt_proactive_node_gc vm incoming_attr_count incoming_child_count =
     (if vm_node_allocations_since_gc vm < AIVM_VM_NODE_GC_INTERVAL_ALLOCATIONS then False
      else case (aivm_size_add_checked (length (vm_node_attrs vm)) incoming_attr_count,
                 aivm_size_add_checked (length (vm_node_children vm)) incoming_child_count) of
        (Some needed_attr_count, Some needed_child_count) \<Rightarrow>
          vm_node_count vm \<ge> vm_node_capacity vm \<or> needed_attr_count \<ge> vm_node_attr_capacity vm \<or>
          needed_child_count \<ge> vm_node_child_capacity vm
      | _ \<Rightarrow> True)"

definition aivm_vm_should_attempt_return_safe_point :: "'a heap_vm \<Rightarrow> bool" where
  "aivm_vm_should_attempt_return_safe_point vm =
     (if vm_node_allocations_since_gc vm < AIVM_VM_NODE_GC_RETURN_SAFEPOINT_ALLOCATIONS then False
      else if vm_runtime_profile vm \<noteq> AIVM_RUNTIME_PROFILE_TOOLING then True
      else vm_node_count vm \<ge> vm_node_capacity vm div 4 * 3 \<or>
           length (vm_node_attrs vm) \<ge> vm_node_attr_capacity vm div 4 * 3 \<or>
           length (vm_node_children vm) \<ge> vm_node_child_capacity vm div 4 * 3)"

definition aivm_vm_should_attempt_bytes_return_safe_point :: "'a heap_vm \<Rightarrow> bool" where
  "aivm_vm_should_attempt_bytes_return_safe_point vm \<longleftrightarrow>
     vm_bytes_arena_gc_threshold vm < vm_bytes_arena_capacity vm \<and>
     vm_bytes_arena_used vm \<ge> vm_bytes_arena_gc_threshold vm"

section \<open>What is copied\<close>

lemma mark_each_upt:
  assumes "mark_each f [0..<n] s = Inr s'" and "P 0 s"
    and "\<And>i s s'. i < n \<Longrightarrow> P i s \<Longrightarrow> f i s = Inr s' \<Longrightarrow> P (Suc i) s'"
  shows "P n s'"
proof -
  have "P n s'" if "mark_each f [m..<n] s = Inr s'" "P m s" "m \<le> n" for m s
    using that
  proof (induction "n - m" arbitrary: m s)
    case 0
    then show ?case
      by simp
  next
    case (Suc k)
    then have "[m..<n] = m # [Suc m..<n]"
      by (simp add: upt_conv_Cons)
    then obtain s1 where s1: "f m s = Inr s1" "mark_each f [Suc m..<n] s1 = Inr s'"
      using Suc.prems(1) by (auto split: sum.splits)
    have "P (Suc m) s1" "Suc m \<le> n"
      using assms(3) [OF _ Suc.prems(2) s1(1)] Suc.hyps(2) by simp_all
    then show ?case
      using Suc.hyps s1(2) by (metis Suc_diff_Suc Suc_le_eq diff_Suc_Suc diff_Suc_1 minus_nat.diff_Suc)
  qed
  then show ?thesis
    using assms(1,2) by simp
qed

lemma mark_each_upt_ex:
  assumes "P 0 s" and "\<And>i s. i < n \<Longrightarrow> P i s \<Longrightarrow> \<exists>s'. f i s = Inr s' \<and> P (Suc i) s'"
  shows "\<exists>s'. mark_each f [0..<n] s = Inr s' \<and> P n s'"
proof -
  have "\<exists>s'. mark_each f [m..<n] s = Inr s' \<and> P n s'" if "P m s" "m \<le> n" for m s
    using that
  proof (induction "n - m" arbitrary: m s)
    case 0
    then show ?case
      by simp
  next
    case (Suc k)
    then have m: "m < n" "[m..<n] = m # [Suc m..<n]" "k = n - Suc m"
      by (simp_all add: upt_conv_Cons)
    obtain s1 where "f m s = Inr s1" "P (Suc m) s1"
      using assms(2) [OF m(1) Suc.prems(1)] by blast
    then show ?case
      using Suc.hyps(1) [OF m(3), of s1] m by simp
  qed
  then show ?thesis
    using assms(1) by simp
qed

lemma mark_each_ex:
  assumes "\<And>v s. v \<in> set vs \<Longrightarrow> \<exists>s'. f v s = Inr s'"
  shows "\<exists>s'. mark_each f vs s = Inr s'"
  using assms by (induction vs arbitrary: s) (auto, metis sum.case(2))

lemma attrs_copied:
  assumes "mark_each (copy_node_attr vm node base) [0..<k] as = Inr as'" and "node_shape_ok vm node"
    and "k \<le> node_attr_count node"
  shows "as' = as @ take k (node_attrs vm node)"
proof (rule mark_each_upt [where P = "\<lambda>i xs. xs = as @ take i (node_attrs vm node)", OF assms(1)])
  fix i xs xs'
  assume i: "i < k" and "xs = as @ take i (node_attrs vm node)" and "copy_node_attr vm node base i xs = Inr xs'"
  moreover have "node_attr_at vm (node_attr_start node + i) = node_attrs vm node ! i" "i < length (node_attrs vm node)"
    using assms(2,3) i by (auto simp: node_shape_ok_def node_attr_at_def node_attrs_def)
  ultimately show "xs' = as @ take (Suc i) (node_attrs vm node)"
    by (auto simp: copy_node_attr_def take_Suc_conv_app_nth split: option.splits if_splits)
qed simp

lemma children_copied:
  assumes "mark_each (copy_node_child vm handle_map node base) [0..<k] cs = Inr cs'" and "node_shape_ok vm node"
    and "k \<le> node_child_count node"
  shows "cs' = cs @ map (\<lambda>c. handle_map (nat c)) (take k (node_children vm node))"
proof (rule mark_each_upt [where P = "\<lambda>i xs. xs = cs @ map (\<lambda>c. handle_map (nat c)) (take i (node_children vm node))", OF assms(1)])
  fix i xs xs'
  assume i: "i < k" and "xs = cs @ map (\<lambda>c. handle_map (nat c)) (take i (node_children vm node))"
    and "copy_node_child vm handle_map node base i xs = Inr xs'"
  moreover have "node_child_at vm (node_child_start node + i) = node_children vm node ! i" "i < length (node_children vm node)"
    using node_child_nth(1) [OF assms(2)] node_children_length [OF assms(2)] assms(3) i by auto
  ultimately show "xs' = cs @ map (\<lambda>c. handle_map (nat c)) (take (Suc i) (node_children vm node))"
    by (auto simp: copy_node_child_def take_Suc_conv_app_nth Let_def split: option.splits if_splits)
qed simp

lemma node_copied:
  assumes "copy_node vm live handle_map i (ns, as, cs) = Inr (ns', as', cs')" and "node_shape_ok vm (vm_nodes vm ! i)"
    and "live i"
  shows "ns' = ns[nat (handle_map (i + 1) - 1) := (vm_nodes vm ! i)\<lparr>node_attr_start := length as, node_child_start := length cs\<rparr>]"
    and "as' = as @ node_attrs vm (vm_nodes vm ! i)"
    and "cs' = cs @ map (\<lambda>c. handle_map (nat c)) (node_children vm (vm_nodes vm ! i))"
    and "length as' \<le> vm_node_attr_capacity vm" and "length cs' \<le> vm_node_child_capacity vm"
proof -
  let ?node = "vm_nodes vm ! i"
  have len: "length (node_attrs vm ?node) = node_attr_count ?node" "length (node_children vm ?node) = node_child_count ?node"
    using assms(2) by (auto simp: node_shape_ok_def node_attrs_def node_children_def)
  have r: "mark_each (copy_node_attr vm ?node (length as)) [0..<node_attr_count ?node] as = Inr as'"
    "mark_each (copy_node_child vm handle_map ?node (length cs)) [0..<node_child_count ?node] cs = Inr cs'"
    "length as + node_attr_count ?node \<le> vm_node_attr_capacity vm"
    "length cs + node_child_count ?node \<le> vm_node_child_capacity vm"
    "ns' = ns[nat (handle_map (i + 1) - 1) := ?node\<lparr>node_attr_start := length as, node_child_start := length cs\<rparr>]"
    using assms(1,3) by (auto simp: copy_node_def Let_def split: if_splits option.splits sum.splits)
  show as': "as' = as @ node_attrs vm ?node"
    using attrs_copied [OF r(1) assms(2)] len by simp
  show cs': "cs' = cs @ map (\<lambda>c. handle_map (nat c)) (node_children vm ?node)"
    using children_copied [OF r(2) assms(2)] len by simp
  show "length as' \<le> vm_node_attr_capacity vm" "length cs' \<le> vm_node_child_capacity vm"
    "ns' = ns[nat (handle_map (i + 1) - 1) := ?node\<lparr>node_attr_start := length as, node_child_start := length cs\<rparr>]"
    using r(3-5) as' cs' len by simp_all
qed

text \<open>The copy of one node in the arrays.\<close>

definition copied :: "'a heap_vm \<Rightarrow> (nat \<Rightarrow> bool) \<Rightarrow> (nat \<Rightarrow> int) \<Rightarrow> node_arrays \<Rightarrow> nat \<Rightarrow> bool" where
  "copied vm live handle_map arrays i \<longleftrightarrow>
     (case arrays of (ns, as, cs) \<Rightarrow>
        let node = vm_nodes vm ! i; node' = ns ! rank live i in
        node_kind node' = node_kind node \<and> node_id node' = node_id node \<and>
        node_attr_start node' + node_attr_count node' \<le> length as \<and>
        take (node_attr_count node') (drop (node_attr_start node') as) = node_attrs vm node \<and>
        node_child_start node' + node_child_count node' \<le> length cs \<and>
        take (node_child_count node') (drop (node_child_start node') cs) =
          map (\<lambda>c. handle_map (nat c)) (node_children vm node))"

lemma nodes_copied:
  assumes "mark_each (copy_node vm live handle_map) [0..<n] (replicate new_count empty_node, [], []) = Inr (ns, as, cs)"
    and "assign_handles live n = (handle_map, new_count)" and "n = vm_node_count vm"
    and "\<And>node. node \<in> set (vm_nodes vm) \<Longrightarrow> node_shape_ok vm node"
  shows "length ns = new_count" and "length as \<le> vm_node_attr_capacity vm" and "length cs \<le> vm_node_child_capacity vm"
    and "\<And>i. i < n \<Longrightarrow> live i \<Longrightarrow> copied vm live handle_map (ns, as, cs) i"
proof -
  have map: "handle_map = fst (assign_handles live n)" "new_count = rank live n"
    using assms(2) assign_handles_spec(2) [of live n] by simp_all
  let ?P = "\<lambda>m (ns :: AivmNodeRecord list, as, cs). length ns = new_count \<and> length as \<le> vm_node_attr_capacity vm \<and>
    length cs \<le> vm_node_child_capacity vm \<and> (\<forall>i < m. live i \<longrightarrow> copied vm live handle_map (ns, as, cs) i)"
  have "?P n (ns, as, cs)"
  proof (rule mark_each_upt [where P = ?P, OF assms(1)])
    fix i and s s' :: node_arrays
    obtain ns as cs ns' as' cs' where s: "s = (ns, as, cs)" "s' = (ns', as', cs')"
      by (metis prod_cases3)
    assume i: "i < n" and P: "?P i s" and step: "copy_node vm live handle_map i s = Inr s'"
    show "?P (Suc i) s'"
    proof (cases "live i")
      case True
      let ?node = "vm_nodes vm ! i"
      have shape: "node_shape_ok vm ?node"
        using assms(3,4) i by simp
      then have len: "length (node_attrs vm ?node) = node_attr_count ?node"
        "length (node_children vm ?node) = node_child_count ?node"
        by (auto simp: node_shape_ok_def node_attrs_def node_children_def)
      have rank: "nat (handle_map (i + 1) - 1) = rank live i" "rank live i < new_count"
        using True i map rank_less [of i n live] by (auto simp: assign_handles_spec)
      note c = node_copied [OF step [unfolded s] shape True, unfolded rank(1)]
      have "ns' ! rank live j = ns ! rank live j" if "j < i" "live j" for j
        using that True by (simp add: c(1) rank_inject)
      then have "copied vm live handle_map (ns', as', cs') j" if "j < i" "live j" for j
        using P that unfolding s(1) by (auto simp: copied_def Let_def c(2,3))
      moreover have "copied vm live handle_map (ns', as', cs') i"
        using P rank(2) len s(1) by (simp add: copied_def Let_def c(1-3))
      ultimately show ?thesis
        using P c s by (auto simp: less_Suc_eq)
    next
      case False
      then have "s' = s"
        using step s by (simp add: copy_node_def Let_def)
      then show ?thesis
        using P False s by (auto simp: less_Suc_eq)
    qed
  qed simp
  then show "length ns = new_count" "length as \<le> vm_node_attr_capacity vm" "length cs \<le> vm_node_child_capacity vm"
    "\<And>i. i < n \<Longrightarrow> live i \<Longrightarrow> copied vm live handle_map (ns, as, cs) i"
    by simp_all
qed

text \<open>Nodes own their attribute and child slots, so that the copies fit.\<close>

definition nodes_fit :: "'a heap_vm \<Rightarrow> bool" where
  "nodes_fit vm \<longleftrightarrow>
     sum_list (map node_attr_count (vm_nodes vm)) \<le> vm_node_attr_capacity vm \<and>
     sum_list (map node_child_count (vm_nodes vm)) \<le> vm_node_child_capacity vm"

lemma sum_list_take_Suc: "i < length xs \<Longrightarrow> sum_list (map f (take (Suc i) xs)) = sum_list (map f (take i xs)) + (f (xs ! i) :: nat)"
  by (simp add: take_Suc_conv_app_nth)

lemma sum_list_take_le: "sum_list (map f (take i xs)) \<le> (sum_list (map f xs) :: nat)"
  by (metis append_take_drop_id le_add1 map_append sum_list_append)

lemma attrs_copy_ex:
  assumes "node_shape_ok vm node" and "heap_closed vm" and "base + node_attr_count node \<le> vm_node_attr_capacity vm"
  shows "\<exists>as'. mark_each (copy_node_attr vm node base) [0..<node_attr_count node] as = Inr as'"
proof -
  have "\<exists>s'. copy_node_attr vm node base i s = Inr s'" if "i < node_attr_count node" for i s
    using assms that by (auto simp: copy_node_attr_def node_shape_ok_def heap_closed_def aivm_size_add_checked_def)
  then show ?thesis
    by (intro mark_each_ex) auto
qed

lemma children_copy_ex:
  assumes "node_shape_ok vm node" and "heap_closed vm" and "base + node_child_count node \<le> vm_node_child_capacity vm"
    and "\<And>c. c \<in> set (node_children vm node) \<Longrightarrow> 0 < c \<and> c \<le> int (vm_node_capacity vm) \<and> handle_map (nat c) > 0"
  shows "\<exists>cs'. mark_each (copy_node_child vm handle_map node base) [0..<node_child_count node] cs = Inr cs'"
proof -
  have "\<exists>s'. copy_node_child vm handle_map node base i s = Inr s'" if i: "i < node_child_count node" for i s
  proof -
    have "node_child_at vm (node_child_start node + i) \<in> set (node_children vm node)"
      using node_child_nth(1) [OF assms(1) i] node_children_length [OF assms(1)] i by auto
    then show ?thesis
      using assms(1-4) i
      by (fastforce simp: copy_node_child_def node_shape_ok_def heap_closed_def aivm_size_add_checked_def Let_def)
  qed
  then show ?thesis
    by (intro mark_each_ex) auto
qed

lemma nodes_copy_ex:
  assumes "heap_closed vm" and "nodes_fit vm" and "n = vm_node_count vm"
    and "\<And>i. i < n \<Longrightarrow> live i \<Longrightarrow> handle_map (i + 1) > 0"
    and "\<And>i c. i < n \<Longrightarrow> live i \<Longrightarrow> c \<in> set (node_children vm (vm_nodes vm ! i)) \<Longrightarrow>
      0 < c \<and> c \<le> int (vm_node_capacity vm) \<and> handle_map (nat c) > 0"
  shows "\<exists>ns as cs. mark_each (copy_node vm live handle_map) [0..<n] (ns0, [], []) = Inr (ns, as, cs)"
proof -
  let ?A = "\<lambda>i. sum_list (map node_attr_count (take i (vm_nodes vm)))"
  let ?C = "\<lambda>i. sum_list (map node_child_count (take i (vm_nodes vm)))"
  let ?P = "\<lambda>i (ns :: AivmNodeRecord list, as :: cptr AivmNodeAttr list, cs :: int list). length as \<le> ?A i \<and> length cs \<le> ?C i"
  have "\<exists>s'. copy_node vm live handle_map i s = Inr s' \<and> ?P (Suc i) s'" if i: "i < n" and P: "?P i s" for i s
  proof -
    obtain ns as cs where s: "s = (ns, as, cs)"
      by (metis prod_cases3)
    let ?node = "vm_nodes vm ! i"
    have sums: "?A (Suc i) = ?A i + node_attr_count ?node" "?C (Suc i) = ?C i + node_child_count ?node"
      using i assms(3) by (simp_all add: sum_list_take_Suc)
    have shape: "node_shape_ok vm ?node"
      using assms(1,3) i by (simp add: heap_closed_def)
    have "?A (Suc i) \<le> vm_node_attr_capacity vm" "?C (Suc i) \<le> vm_node_child_capacity vm"
      using assms(2) sum_list_take_le [of _ "Suc i" "vm_nodes vm"] by (auto simp: nodes_fit_def intro: le_trans)
    then have room: "length as + node_attr_count ?node \<le> vm_node_attr_capacity vm"
      "length cs + node_child_count ?node \<le> vm_node_child_capacity vm"
      using P sums s by auto
    then have sizes: "aivm_size_add_checked (length as) (node_attr_count ?node) = Some (length as + node_attr_count ?node)"
      "aivm_size_add_checked (length cs) (node_child_count ?node) = Some (length cs + node_child_count ?node)"
      using assms(1) by (auto simp: aivm_size_add_checked_def heap_closed_def)
    show ?thesis
    proof (cases "live i")
      case True
      obtain as' where as': "mark_each (copy_node_attr vm ?node (length as)) [0..<node_attr_count ?node] as = Inr as'"
        using attrs_copy_ex [OF shape assms(1) room(1)] by blast
      obtain cs' where cs': "mark_each (copy_node_child vm handle_map ?node (length cs)) [0..<node_child_count ?node] cs = Inr cs'"
        using children_copy_ex [OF shape assms(1) room(2) assms(5) [OF i True]] by blast
      obtain ns' where step: "copy_node vm live handle_map i s = Inr (ns', as', cs')"
        unfolding copy_node_def s Let_def prod.case sizes option.case using True as' cs' room assms(4) [OF i True] by simp
      have len: "length (node_attrs vm ?node) = node_attr_count ?node" "length (node_children vm ?node) = node_child_count ?node"
        using shape by (auto simp: node_shape_ok_def node_attrs_def node_children_def)
      show ?thesis
        using step node_copied(2,3) [OF step [unfolded s] shape True] P s sums len by auto
    next
      case False
      then show ?thesis
        using P s sums by (simp add: copy_node_def Let_def)
    qed
  qed
  then have "\<exists>s'. mark_each (copy_node vm live handle_map) [0..<n] (ns0, [], []) = Inr s' \<and> ?P n s'"
    by (intro mark_each_upt_ex [where P = ?P]) auto
  then show ?thesis
    by (metis prod_cases3)
qed


lemma nodes_fit_copied:
  assumes "mark_each (copy_node vm live handle_map) [0..<n] (replicate new_count empty_node, [], []) = Inr (ns, as, cs)"
    and "assign_handles live n = (handle_map, new_count)" and "n = vm_node_count vm"
    and "\<And>node. node \<in> set (vm_nodes vm) \<Longrightarrow> node_shape_ok vm node"
  shows "sum_list (map node_attr_count ns) = length as" and "sum_list (map node_child_count ns) = length cs"
proof -
  have map: "handle_map = fst (assign_handles live n)" "new_count = rank live n"
    using assms(2) assign_handles_spec(2) [of live n] by simp_all
  let ?P = "\<lambda>m (ns :: AivmNodeRecord list, as, cs). length ns = new_count \<and> sum_list (map node_attr_count ns) = length as \<and>
    sum_list (map node_child_count ns) = length cs \<and> (\<forall>k. rank live m \<le> k \<longrightarrow> k < new_count \<longrightarrow> ns ! k = empty_node)"
  have "?P n (ns, as, cs)"
  proof (rule mark_each_upt [where P = ?P, OF assms(1)])
    fix i and s s' :: node_arrays
    obtain ns as cs ns' as' cs' where s: "s = (ns, as, cs)" "s' = (ns', as', cs')"
      by (metis prod_cases3)
    assume i: "i < n" and P: "?P i s" and step: "copy_node vm live handle_map i s = Inr s'"
    show "?P (Suc i) s'"
    proof (cases "live i")
      case True
      let ?node = "vm_nodes vm ! i"
      have shape: "node_shape_ok vm ?node"
        using assms(3,4) i by simp
      then have len: "length (node_attrs vm ?node) = node_attr_count ?node"
        "length (node_children vm ?node) = node_child_count ?node"
        by (auto simp: node_shape_ok_def node_attrs_def node_children_def)
      have rank: "nat (handle_map (i + 1) - 1) = rank live i" "rank live i < new_count" "rank live (Suc i) = Suc (rank live i)"
        using True i map rank_less [of i n live] by (auto simp: assign_handles_spec rank_Suc)
      note c = node_copied [OF step [unfolded s] shape True, unfolded rank(1)]
      have old: "ns ! rank live i = empty_node" "length ns = new_count"
        using P rank(2) s(1) by simp_all
      then have "sum_list (map f ns') = sum_list (map f ns) + f (ns' ! rank live i)" if "f empty_node = 0" for f :: "AivmNodeRecord \<Rightarrow> nat"
        using rank(2) that by (simp add: c(1) map_update sum_list_update)
      then show ?thesis
        using P s len rank by (simp add: c(1-3) empty_node_def)
    next
      case False
      then have "s' = s" "rank live (Suc i) = rank live i"
        using step s by (simp_all add: copy_node_def Let_def rank_Suc)
      then show ?thesis
        using P s by simp
    qed
  qed (auto simp: empty_node_def)
  then show "sum_list (map node_attr_count ns) = length as" "sum_list (map node_child_count ns) = length cs"
    by simp_all
qed

section \<open>What is renumbered\<close>

definition moved_handle :: "(nat \<Rightarrow> bool) \<Rightarrow> int \<Rightarrow> int" where
  "moved_handle live h = int (rank live (nat (h - 1))) + 1"

definition moved_node :: "(nat \<Rightarrow> bool) \<Rightarrow> AivmValue \<Rightarrow> AivmValue" where
  "moved_node live v = (case v of ValNode h \<Rightarrow> ValNode (moved_handle live h) | _ \<Rightarrow> v)"

definition moved_node_values :: "(nat \<Rightarrow> bool) \<Rightarrow> AivmScratchPair \<Rightarrow> AivmScratchPair" where
  "moved_node_values live p = \<lparr>pair_first = moved_node live (pair_first p), pair_second = moved_node live (pair_second p)\<rparr>"

lemma moved_node_cases:
  "moved_node live (ValString p) = ValString p" "moved_node live (ValBytes b n) = ValBytes b n"
  "moved_node live (ValPair h) = ValPair h" "moved_node live (ValNode h) = ValNode (moved_handle live h)"
  by (simp_all add: moved_node_def)

lemma handle_map_moved:
  assumes "valid_handle h n" and "live (nat (h - 1))"
  shows "fst (assign_handles live n) (nat h) = moved_handle live h" and "0 < moved_handle live h"
proof -
  have "nat h - 1 = nat (h - 1)" "0 < nat h" "nat h \<le> n"
    using assms(1) by (auto simp: valid_handle_def)
  then show "fst (assign_handles live n) (nat h) = moved_handle live h" "0 < moved_handle live h"
    using assms(2) by (simp_all add: assign_handles_spec moved_handle_def)
qed

text \<open>The renumbering goes through when every handle it meets is mapped; this is the machine it leaves.\<close>

lemma handles_remapped:
  assumes vals: "\<And>v. v \<in> set (root_values vm @ live_pair_values vm live_pairs) \<Longrightarrow>
      remap_value_node_handle (vm_scratch_pair_count vm) (vm_node_capacity vm) handle_map v = Some (g v)"
    and hands: "\<And>h. h \<in> set (builder_handles vm) \<union> {h \<in> set (fixed_handles vm). h > 0} \<Longrightarrow>
      remap_child_handle (vm_node_capacity vm) handle_map h = Some (gh h)"
  shows "\<exists>vm' st ls rs ps pairs builders a b c. remap_node_handles live_pairs handle_map vm = (True, vm') \<and>
    vm' = (put_roots st ls rs ps vm)
      \<lparr>vm_scratch_pairs := pairs, vm_node_builders := builders, vm_process_argv_node_handle := a,
       vm_ui_default_window_size_node_handle := b, vm_ui_empty_event_node_handle := c\<rparr> \<and>
    length st = vm_stack_count vm \<and> root_values vm' = map g (root_values vm) \<and>
    pairs = map (\<lambda>(i, p). if live_pairs i then \<lparr>pair_first = g (pair_first p), pair_second = g (pair_second p)\<rparr> else p)
      (enumerate 0 (vm_scratch_pairs vm)) \<and>
    builder_handles vm' = map gh (builder_handles vm) \<and>
    fixed_handles vm' = map (\<lambda>h. if h > 0 then gh h else h) (fixed_handles vm)"
proof -
  let ?remap = "remap_value_node_handle (vm_scratch_pair_count vm) (vm_node_capacity vm) handle_map"
  have roots: "\<And>v. v \<in> set (root_values vm) \<Longrightarrow> ?remap v = Some (g v)"
    using vals by simp
  obtain vm1 where vm1: "traverse_roots (stateless ?remap) vm () = (vm1, Inr ())"
    using traverse_roots_total [of vm "stateless ?remap" "()"] roots by (auto simp: stateless_def)
  obtain st ls rs ps where r: "vm1 = put_roots st ls rs ps vm" "length st = vm_stack_count vm"
    "traverse (stateless ?remap) (root_values vm) () = (root_values vm1, Some ())"
    using traverse_roots_all [OF vm1] by (elim exE conjE) simp
  then have roots1: "root_values vm1 = map g (root_values vm)"
    using traverse_stateless [of "root_values vm" ?remap, OF roots] by simp
  let ?gp = "\<lambda>(i, p). if live_pairs i then \<lparr>pair_first = g (pair_first p), pair_second = g (pair_second p)\<rparr> else p"
  let ?pairs = "map ?gp (enumerate 0 (vm_scratch_pairs vm))"
  have "remap_live_pair ?remap live_pairs e () = ((fst e, ?gp e), Some ())" if e: "e \<in> set (enumerate 0 (vm_scratch_pairs vm))" for e
  proof -
    obtain i where i: "e = (i, vm_scratch_pairs vm ! i)" "i < vm_scratch_pair_count vm"
      using e by (metis enumerate_nth_set prod.collapse)
    then have "live_pairs i \<Longrightarrow> {pair_first (vm_scratch_pairs vm ! i), pair_second (vm_scratch_pairs vm ! i)} \<subseteq>
        set (live_pair_values vm live_pairs)"
      by (auto simp: live_pair_values_def)
    then show ?thesis
      using vals i by (auto simp: remap_live_pair_def Let_def)
  qed
  then have pairs: "traverse (remap_live_pair ?remap live_pairs) (enumerate 0 (vm_scratch_pairs vm)) () =
      (map (\<lambda>e. (fst e, ?gp e)) (enumerate 0 (vm_scratch_pairs vm)), Some ())"
    by (rule traverse_map)
  let ?vm2 = "vm1\<lparr>vm_scratch_pairs := ?pairs\<rparr>"
  let ?gb = "\<lambda>b. if builder_active b then b\<lparr>builder_children := map gh (builder_children b)\<rparr> else b"
  have cap: "vm_node_capacity ?vm2 = vm_node_capacity vm" "vm_node_builders ?vm2 = vm_node_builders vm"
    "vm_scratch_pairs vm1 = vm_scratch_pairs vm"
    by (simp_all add: r(1))
  have "remap_builder ?vm2 handle_map b () = (?gb b, Some ())" if "b \<in> set (vm_node_builders vm)" for b
  proof (cases "builder_active b")
    case True
    then have "set (builder_children b) \<subseteq> set (builder_handles vm)"
      using that by (auto simp: builder_handles_def intro!: bexI [of _ b])
    then have "aivm_vm_remap_child_handles_for_compaction ?vm2 handle_map (builder_children b) =
        (map gh (builder_children b), Some ())"
      unfolding aivm_vm_remap_child_handles_for_compaction_def cap using hands by (intro traverse_stateless) auto
    with True show ?thesis
      by (simp add: remap_builder_def)
  qed (simp add: remap_builder_def)
  then have builders: "traverse (remap_builder ?vm2 handle_map) (vm_node_builders vm) () = (map ?gb (vm_node_builders vm), Some ())"
    by (rule traverse_map)
  let ?vm3 = "?vm2\<lparr>vm_node_builders := map ?gb (vm_node_builders vm)\<rparr>"
  define G where "G = (\<lambda>h. if h > 0 then gh h else h)"
  have G: "remap_fixed (vm_node_capacity vm) handle_map h = Some (G h)" if "h \<in> set (fixed_handles vm)" for h
    using that hands [of h] by (auto simp: remap_fixed_def remap_child_handle_def G_def split: if_splits)
  let ?vm4 = "?vm3\<lparr>vm_process_argv_node_handle := G (vm_process_argv_node_handle vm),
      vm_ui_default_window_size_node_handle := G (vm_ui_default_window_size_node_handle vm),
      vm_ui_empty_event_node_handle := G (vm_ui_empty_event_node_handle vm)\<rparr>"
  have fixed: "remap_fixed_handles handle_map ?vm3 = (True, ?vm4)"
    using G by (simp add: remap_fixed_handles_def Let_def r(1) fixed_handles_def)
  have snds: "map snd (map (\<lambda>e. (fst e, ?gp e)) (enumerate 0 (vm_scratch_pairs vm))) = ?pairs"
    by (simp add: comp_def)
  define vm' where vm': "vm' = ?vm4"
  have "remap_node_handles live_pairs handle_map vm = (True, vm')"
    unfolding vm' remap_node_handles_def Let_def vm1 prod.case sum.case cap(3) pairs option.case snds cap(2) builders fixed by simp
  moreover have "root_values vm' = map g (root_values vm)"
    using roots1 by (simp add: vm' root_values_def local_values_def)
  moreover have "concat (map (\<lambda>b. if builder_active b then builder_children b else []) (map ?gb bs)) =
      map gh (concat (map (\<lambda>b. if builder_active b then builder_children b else []) bs))" for bs
    by (induction bs) auto
  then have "builder_handles vm' = map gh (builder_handles vm)"
    by (simp add: vm' builder_handles_def)
  moreover have "fixed_handles vm' = map (\<lambda>h. if h > 0 then gh h else h) (fixed_handles vm)"
    by (simp add: vm' fixed_handles_def G_def)
  ultimately show ?thesis
    using r(1,2) vm'
    by (intro exI [of _ vm'] exI [of _ st] exI [of _ ls] exI [of _ rs] exI [of _ ps] exI [of _ ?pairs] exI [of _ "map ?gb (vm_node_builders vm)"]) auto
qed

section \<open>Correctness\<close>

lemma count_gc_attempt_fields [simp]:
  "vm_scratch_pairs (count_gc_attempt vm) = vm_scratch_pairs vm" "vm_nodes (count_gc_attempt vm) = vm_nodes vm"
  "vm_node_attrs (count_gc_attempt vm) = vm_node_attrs vm" "vm_node_children (count_gc_attempt vm) = vm_node_children vm"
  "vm_string_arena (count_gc_attempt vm) = vm_string_arena vm" "vm_bytes_arena (count_gc_attempt vm) = vm_bytes_arena vm"
  "vm_node_capacity (count_gc_attempt vm) = vm_node_capacity vm"
  "vm_node_attr_capacity (count_gc_attempt vm) = vm_node_attr_capacity vm"
  "vm_node_child_capacity (count_gc_attempt vm) = vm_node_child_capacity vm"
  "root_values (count_gc_attempt vm) = root_values vm" "fixed_handles (count_gc_attempt vm) = fixed_handles vm"
  "builder_handles (count_gc_attempt vm) = builder_handles vm"
  by (simp_all add: count_gc_attempt_def root_values_def local_values_def fixed_handles_def builder_handles_def)

lemma remap_node_reach:
  assumes "heap_ok vm extra" and "reach vm (gc_roots vm extra) v"
    and "handle_map = fst (assign_handles (node_live vm extra) (vm_node_count vm))"
  shows "remap_value_node_handle (vm_scratch_pair_count vm) (vm_node_capacity vm) handle_map v = Some (moved_node (node_live vm extra) v)"
    and "v = ValNode h \<Longrightarrow> remap_child_handle (vm_node_capacity vm) handle_map h = Some (moved_handle (node_live vm extra) h)"
proof -
  have cap: "vm_node_count vm \<le> vm_node_capacity vm"
    using assms(1) by (simp add: heap_ok_def heap_closed_def)
  have node: "h > 0 \<and> h \<le> int (vm_node_capacity vm) \<and> handle_map (nat h) = moved_handle (node_live vm extra) h \<and>
      handle_map (nat h) > 0" if "v = ValNode h" for h
  proof -
    note r = reach_node_live [OF assms(1) assms(2) [unfolded that]]
    show ?thesis
      using r(1) cap handle_map_moved [of h "vm_node_count vm" "node_live vm extra", OF r(1,2)]
      unfolding assms(3) by (auto simp: valid_handle_def)
  qed
  have "valid_handle h (vm_scratch_pair_count vm)" if "v = ValPair h" for h
    using reach_pair_live [OF assms(1,2) that] by simp
  then show "remap_value_node_handle (vm_scratch_pair_count vm) (vm_node_capacity vm) handle_map v = Some (moved_node (node_live vm extra) v)"
    using node by (cases v) (auto simp: remap_value_node_handle_def moved_node_def valid_handle_def)
  show "remap_child_handle (vm_node_capacity vm) handle_map h = Some (moved_handle (node_live vm extra) h)" if "v = ValNode h"
    using node [OF that] by (simp add: remap_child_handle_def)
qed

text \<open>The collected machine, field by field.\<close>

definition moved_pairs :: "(nat \<Rightarrow> bool) \<Rightarrow> (nat \<Rightarrow> bool) \<Rightarrow> AivmScratchPair list \<Rightarrow> AivmScratchPair list" where
  "moved_pairs live live_pairs pairs =
     map (\<lambda>(i, p). if live_pairs i then moved_node_values live p else p) (enumerate 0 pairs)"

lemma put_nodes_fields [simp]:
  "vm_scratch_pairs (put_nodes (ns, as, cs) vm) = vm_scratch_pairs vm"
  "vm_nodes (put_nodes (ns, as, cs) vm) = ns" "vm_node_attrs (put_nodes (ns, as, cs) vm) = as"
  "vm_node_children (put_nodes (ns, as, cs) vm) = cs"
  "vm_string_arena (put_nodes (ns, as, cs) vm) = vm_string_arena vm"
  "vm_bytes_arena (put_nodes (ns, as, cs) vm) = vm_bytes_arena vm"
  "vm_node_capacity (put_nodes (ns, as, cs) vm) = vm_node_capacity vm"
  "vm_node_attr_capacity (put_nodes (ns, as, cs) vm) = vm_node_attr_capacity vm"
  "vm_node_child_capacity (put_nodes (ns, as, cs) vm) = vm_node_child_capacity vm"
  "root_values (put_nodes (ns, as, cs) vm) = root_values vm"
  "fixed_handles (put_nodes (ns, as, cs) vm) = fixed_handles vm"
  "builder_handles (put_nodes (ns, as, cs) vm) = builder_handles vm"
  by (simp_all add: put_nodes_def root_values_def local_values_def fixed_handles_def builder_handles_def)

lemma live_pair_values_cong: "vm_scratch_pairs vm' = vm_scratch_pairs vm \<Longrightarrow> live_pair_values vm' lp = live_pair_values vm lp"
  unfolding live_pair_values_def by (simp only:)

text \<open>The memory a collection asks for, and what it does once it has it.\<close>

definition collection_memory :: "(nat \<Rightarrow> bool) \<Rightarrow> 'a heap_vm \<Rightarrow> bool" where
  "collection_memory alloc vm \<longleftrightarrow> compact_workspace alloc vm \<and> node_mark_memory alloc vm"

lemma count_gc_attempt_same: "same_heap vm (count_gc_attempt vm)"
  by (simp add: same_heap_def)

lemma collection_memory_attempt: "collection_memory alloc (count_gc_attempt vm) = collection_memory alloc vm"
  by (simp add: collection_memory_def compact_workspace_def node_mark_memory_def pair_mark_memory_def)

lemma collection_steps:
  assumes "heap_ok vm extra" and "collection_memory alloc vm" and "vm_node_count vm \<noteq> 0"
    and "assign_handles (node_live vm extra) (vm_node_count vm) = (handle_map, new_count)"
  shows "aivm_vm_compact_node_arenas_with_map alloc vm extra =
    (case mark_each (copy_node (count_gc_attempt vm) (node_live vm extra) handle_map) [0..<vm_node_count vm]
            (replicate new_count empty_node, [], []) of
       Inl (err, detail) \<Rightarrow> (None, aivm_set_vm_error (count_gc_attempt vm) err detail)
     | Inr arrays \<Rightarrow>
         (case remap_node_handles (pair_live vm extra) handle_map (put_nodes arrays (count_gc_attempt vm)) of
            (False, vm) \<Rightarrow> (None, vm)
          | (True, vm) \<Rightarrow> (Some handle_map, vm)))"
proof -
  let ?vm0 = "count_gc_attempt vm"
  note same = count_gc_attempt_same [of vm]
  have live0: "node_live ?vm0 extra = node_live vm extra" "pair_live ?vm0 extra = pair_live vm extra"
    by (simp_all add: node_live_def pair_live_def fun_eq_iff same_heap_reach(1,2) [OF same])
  have memory: "compact_workspace alloc ?vm0" "node_mark_memory alloc ?vm0"
    using assms(2) collection_memory_attempt [of alloc vm] by (simp_all add: collection_memory_def)
  have "heap_ok ?vm0 extra"
    using assms(1) same_heap_reach(4) [OF same] by simp
  from nodes_marked [where alloc = alloc, OF this memory(2)] memory(1) show ?thesis
    unfolding aivm_vm_compact_node_arenas_with_map_def Let_def live0 using assms(3,4) by simp
qed

lemma collection_refused:
  assumes "\<not> collection_memory alloc vm" and "vm_node_count vm \<noteq> 0"
  shows "\<exists>detail. aivm_vm_compact_node_arenas_with_map alloc vm extra =
    (None, aivm_set_vm_error (count_gc_attempt vm) AIVM_VM_ERR_MEMORY_PRESSURE detail)"
proof (cases "compact_workspace alloc (count_gc_attempt vm)")
  case True
  then have "\<not> node_mark_memory alloc (count_gc_attempt vm)"
    using assms(1) collection_memory_attempt [of alloc vm] by (simp add: collection_memory_def)
  then obtain detail where "aivm_vm_mark_live_node_handles alloc (count_gc_attempt vm) extra =
      (None, aivm_set_vm_error (count_gc_attempt vm) AIVM_VM_ERR_MEMORY_PRESSURE detail)"
    using nodes_not_marked by blast
  with True show ?thesis
    using assms(2) by (intro exI [of _ detail]) (simp add: aivm_vm_compact_node_arenas_with_map_def Let_def)
qed (use assms(2) in \<open>auto simp: aivm_vm_compact_node_arenas_with_map_def Let_def\<close>)

lemma node_handles_remapped:
  assumes "heap_ok vm extra" and "handle_map = fst (assign_handles (node_live vm extra) (vm_node_count vm))"
  defines "live \<equiv> node_live vm extra"
  shows "\<exists>vm' st ls rs ps builders a b c.
    remap_node_handles (pair_live vm extra) handle_map (put_nodes (ns, as, cs) (count_gc_attempt vm)) = (True, vm') \<and>
    vm' = (put_roots st ls rs ps (put_nodes (ns, as, cs) (count_gc_attempt vm)))
      \<lparr>vm_scratch_pairs := moved_pairs live (pair_live vm extra) (vm_scratch_pairs vm), vm_node_builders := builders,
       vm_process_argv_node_handle := a, vm_ui_default_window_size_node_handle := b, vm_ui_empty_event_node_handle := c\<rparr> \<and>
    root_values vm' = map (moved_node live) (root_values vm) \<and>
    builder_handles vm' = map (moved_handle live) (builder_handles vm) \<and>
    fixed_handles vm' = map (\<lambda>h. if h > 0 then moved_handle live h else h) (fixed_handles vm)"
proof -
  let ?vm1 = "put_nodes (ns, as, cs) (count_gc_attempt vm)" and ?lp = "pair_live vm extra"
  have vals: "remap_value_node_handle (vm_scratch_pair_count ?vm1) (vm_node_capacity ?vm1) handle_map v = Some (moved_node live v)"
    if "v \<in> set (root_values ?vm1 @ live_pair_values ?vm1 ?lp)" for v
  proof -
    have "reach vm (gc_roots vm extra) v"
      using that gc_root_values live_pair_values_reach by (auto simp: live_pair_values_cong [of ?vm1 vm])
    then show ?thesis
      using remap_node_reach(1) [OF assms(1) _ assms(2)] by (simp add: live_def)
  qed
  have hands: "remap_child_handle (vm_node_capacity ?vm1) handle_map h = Some (moved_handle live h)"
    if "h \<in> set (builder_handles ?vm1) \<union> {h \<in> set (fixed_handles ?vm1). h > 0}" for h
  proof -
    have "reach vm (gc_roots vm extra) (ValNode h)"
      using that by (intro reach_root) (auto simp: gc_roots_def)
    then show ?thesis
      using remap_node_reach(2) [OF assms(1) _ assms(2)] by (simp add: live_def)
  qed
  have "moved_pairs live ?lp (vm_scratch_pairs vm) =
      map (\<lambda>(i, p). if ?lp i then \<lparr>pair_first = moved_node live (pair_first p), pair_second = moved_node live (pair_second p)\<rparr> else p)
        (enumerate 0 (vm_scratch_pairs ?vm1))"
    by (auto simp: moved_pairs_def moved_node_values_def)
  then show ?thesis
    using handles_remapped [where g = "moved_node live" and gh = "moved_handle live", OF vals hands] by simp blast
qed

lemma compact_nodes_result:
  assumes "heap_ok vm extra" and "aivm_vm_compact_node_arenas_with_map alloc vm extra = (Some handle_map, vm')"
    and "vm_node_count vm \<noteq> 0"
  defines "live \<equiv> node_live vm extra"
  shows "handle_map = fst (assign_handles live (vm_node_count vm))"
    and "vm_node_count vm' = rank live (vm_node_count vm)"
    and "length (vm_node_attrs vm') \<le> vm_node_attr_capacity vm"
    and "length (vm_node_children vm') \<le> vm_node_child_capacity vm"
    and "\<And>i. i < vm_node_count vm \<Longrightarrow> live i \<Longrightarrow>
      copied vm live handle_map (vm_nodes vm', vm_node_attrs vm', vm_node_children vm') i"
    and "root_values vm' = map (moved_node live) (root_values vm)"
    and "vm_scratch_pairs vm' = moved_pairs live (pair_live vm extra) (vm_scratch_pairs vm)"
    and "builder_handles vm' = map (moved_handle live) (builder_handles vm)"
    and "fixed_handles vm' = map (\<lambda>h. if h > 0 then moved_handle live h else h) (fixed_handles vm)"
    and "vm_string_arena vm' = vm_string_arena vm" and "vm_bytes_arena vm' = vm_bytes_arena vm"
    and "vm_node_capacity vm' = vm_node_capacity vm" and "vm_node_attr_capacity vm' = vm_node_attr_capacity vm"
    and "vm_node_child_capacity vm' = vm_node_child_capacity vm" and "nodes_fit vm'" and "same_string_arena vm vm'"
proof -
  let ?vm0 = "count_gc_attempt vm" and ?n = "vm_node_count vm"
  have memory: "collection_memory alloc vm"
    using collection_refused [OF _ assms(3), of alloc extra] assms(2) by auto
  obtain hm new_count where a: "assign_handles live ?n = (hm, new_count)"
    by fastforce
  then have hm: "hm = fst (assign_handles live ?n)" "new_count = rank live ?n"
    using assign_handles_spec(2) [of live ?n] by simp_all
  note steps = collection_steps [OF assms(1) memory assms(3) a [unfolded live_def]]
  obtain ns as cs where arrays: "mark_each (copy_node ?vm0 live hm) [0..<?n] (replicate new_count empty_node, [], []) = Inr (ns, as, cs)"
    using assms(2) unfolding steps live_def [symmetric] by (auto split: sum.splits)
  obtain vm1 st ls rs ps builders x y z where r:
    "remap_node_handles (pair_live vm extra) hm (put_nodes (ns, as, cs) ?vm0) = (True, vm1)"
    "vm1 = (put_roots st ls rs ps (put_nodes (ns, as, cs) ?vm0))
      \<lparr>vm_scratch_pairs := moved_pairs live (pair_live vm extra) (vm_scratch_pairs vm), vm_node_builders := builders,
       vm_process_argv_node_handle := x, vm_ui_default_window_size_node_handle := y, vm_ui_empty_event_node_handle := z\<rparr>"
    "root_values vm1 = map (moved_node live) (root_values vm)"
    "builder_handles vm1 = map (moved_handle live) (builder_handles vm)"
    "fixed_handles vm1 = map (\<lambda>h. if h > 0 then moved_handle live h else h) (fixed_handles vm)"
    using node_handles_remapped [OF assms(1) hm(1) [unfolded live_def], of ns as cs] unfolding live_def by blast
  then have vm': "vm' = vm1" "hm = handle_map"
    using assms(2) arrays unfolding steps live_def [symmetric] by simp_all
  have shape0: "node_shape_ok ?vm0 node" if "node \<in> set (vm_nodes ?vm0)" for node
    using assms(1) that by (simp add: heap_ok_def heap_closed_def heap_fields_cong(5) [of ?vm0 vm])
  note copied0 = nodes_copied [OF arrays a, simplified, OF shape0, simplified]
  have copied_eq: "copied ?vm0 live handle_map = copied vm live handle_map"
    by (simp add: copied_def fun_eq_iff node_attrs_def node_children_def)
  show "handle_map = fst (assign_handles live (vm_node_count vm))"
    using hm(1) vm'(2) by simp
  show "vm_node_count vm' = rank live (vm_node_count vm)" "length (vm_node_attrs vm') \<le> vm_node_attr_capacity vm"
    "length (vm_node_children vm') \<le> vm_node_child_capacity vm"
    using copied0 hm(2) by (simp_all add: vm'(1) r(2))
  show "copied vm live handle_map (vm_nodes vm', vm_node_attrs vm', vm_node_children vm') i" if "i < vm_node_count vm" "live i" for i
    using copied0(4) [of i] that copied_eq by (simp add: vm' r(2))
  show "root_values vm' = map (moved_node live) (root_values vm)" "builder_handles vm' = map (moved_handle live) (builder_handles vm)"
    "fixed_handles vm' = map (\<lambda>h. if h > 0 then moved_handle live h else h) (fixed_handles vm)"
    "vm_scratch_pairs vm' = moved_pairs live (pair_live vm extra) (vm_scratch_pairs vm)"
    using r(2-5) by (simp_all add: vm'(1))
  show "vm_string_arena vm' = vm_string_arena vm" "vm_bytes_arena vm' = vm_bytes_arena vm"
    "vm_node_capacity vm' = vm_node_capacity vm" "vm_node_attr_capacity vm' = vm_node_attr_capacity vm"
    "vm_node_child_capacity vm' = vm_node_child_capacity vm"
    by (simp_all add: vm'(1) r(2))
  show "same_string_arena vm vm'"
    by (simp add: same_string_arena_def vm'(1) r(2) put_nodes_def count_gc_attempt_def)
  show "nodes_fit vm'"
    using nodes_fit_copied [OF arrays a, simplified, OF shape0, simplified] copied0(2,3)
    by (simp add: nodes_fit_def vm'(1) r(2))
qed

lemma compact_nodes_succeeds:
  assumes "heap_ok vm extra" and "nodes_fit vm" and "collection_memory alloc vm" and "vm_node_count vm \<noteq> 0"
  shows "\<exists>handle_map vm'. aivm_vm_compact_node_arenas_with_map alloc vm extra = (Some handle_map, vm')"
proof -
  let ?vm0 = "count_gc_attempt vm" and ?n = "vm_node_count vm" and ?live = "node_live vm extra"
  obtain hm new_count where a: "assign_handles ?live ?n = (hm, new_count)"
    by fastforce
  then have hm: "hm = fst (assign_handles ?live ?n)"
    by simp
  have closed: "heap_closed ?vm0" "vm_node_count vm \<le> vm_node_capacity vm"
    using assms(1) same_heap_reach(4) [OF count_gc_attempt_same, of vm extra] by (simp_all add: heap_ok_def heap_closed_def)
  have child: "0 < c \<and> c \<le> int (vm_node_capacity ?vm0) \<and> hm (nat c) > 0"
    if i: "i < ?n" "?live i" and c: "c \<in> set (node_children ?vm0 (vm_nodes ?vm0 ! i))" for i c
  proof -
    have "aivm_vm_lookup_node vm (int i + 1) = Some (vm_nodes vm ! i)"
      using i(1) by (simp add: lookup_node_iff valid_handle_def)
    then have "reach vm (gc_roots vm extra) (ValNode c)"
      using reach_child [of vm "gc_roots vm extra" "int i + 1"] i(2) c by (simp add: node_live_def node_children_def)
    then have r: "valid_handle c ?n" "?live (nat (c - 1))"
      using reach_node_live(1,2) [OF assms(1)] by blast+
    show ?thesis
      using handle_map_moved [of c ?n ?live, OF r] r(1) closed(2) unfolding hm by (simp add: valid_handle_def)
  qed
  have "\<exists>ns as cs. mark_each (copy_node ?vm0 ?live hm) [0..<?n] (replicate new_count empty_node, [], []) = Inr (ns, as, cs)"
  proof (rule nodes_copy_ex)
    show "nodes_fit ?vm0" "?n = vm_node_count ?vm0"
      using assms(2) by (simp_all add: nodes_fit_def)
    show "hm (i + 1) > 0" if "i < ?n" "?live i" for i
      using that by (simp add: hm assign_handles_spec)
  qed (fact closed(1) child)+
  then obtain ns as cs where "mark_each (copy_node ?vm0 ?live hm) [0..<?n] (replicate new_count empty_node, [], []) = Inr (ns, as, cs)"
    by blast
  moreover obtain vm' where "remap_node_handles (pair_live vm extra) hm (put_nodes (ns, as, cs) ?vm0) = (True, vm')"
    using node_handles_remapped [OF assms(1) hm] by blast
  ultimately show ?thesis
    unfolding collection_steps [OF assms(1,3,4) a] by simp
qed

lemma moved_pairs_nth:
  "i < length pairs \<Longrightarrow>
   moved_pairs live live_pairs pairs ! i = (if live_pairs i then moved_node_values live (pairs ! i) else pairs ! i)"
  by (simp add: moved_pairs_def nth_enumerate_eq)

lemma moved_pairs_length [simp]: "length (moved_pairs live live_pairs pairs) = length pairs"
  by (simp add: moved_pairs_def)

lemma moved_handle_valid:
  assumes "live (nat (h - 1))" and "nat (h - 1) < n"
  shows "valid_handle (moved_handle live h) (rank live n)" and "nat (moved_handle live h - 1) = rank live (nat (h - 1))"
  using rank_less [of "nat (h - 1)" n live] assms by (simp_all add: moved_handle_def valid_handle_def)

text \<open>Collection of the nodes keeps a well-formed heap and everything that can be seen through its roots; the
  handle map gives the caller the new handles of the nodes it holds.\<close>

definition moved_extra :: "(nat \<Rightarrow> int) \<Rightarrow> int list \<Rightarrow> int list" where
  "moved_extra handle_map extra = map (\<lambda>h. if h > 0 then handle_map (nat h) else h) extra"

definition nodes_collected :: "'a heap_vm \<Rightarrow> int list \<Rightarrow> (nat \<Rightarrow> int) \<Rightarrow> 'a heap_vm \<Rightarrow> bool" where
  "nodes_collected vm extra handle_map vm' \<longleftrightarrow>
     heap_ok vm extra \<and> vm_node_count vm \<noteq> 0 \<and>
     (\<exists>alloc. aivm_vm_compact_node_arenas_with_map alloc vm extra = (Some handle_map, vm'))"

lemma collected_result:
  assumes "nodes_collected vm extra handle_map vm'"
  defines "live \<equiv> node_live vm extra"
  shows "handle_map = fst (assign_handles live (vm_node_count vm))"
    and "vm_node_count vm' = rank live (vm_node_count vm)"
    and "length (vm_node_attrs vm') \<le> vm_node_attr_capacity vm"
    and "length (vm_node_children vm') \<le> vm_node_child_capacity vm"
    and "\<And>i. i < vm_node_count vm \<Longrightarrow> live i \<Longrightarrow>
      copied vm live handle_map (vm_nodes vm', vm_node_attrs vm', vm_node_children vm') i"
    and "root_values vm' = map (moved_node live) (root_values vm)"
    and "vm_scratch_pairs vm' = moved_pairs live (pair_live vm extra) (vm_scratch_pairs vm)"
    and "builder_handles vm' = map (moved_handle live) (builder_handles vm)"
    and "fixed_handles vm' = map (\<lambda>h. if h > 0 then moved_handle live h else h) (fixed_handles vm)"
    and "vm_string_arena vm' = vm_string_arena vm" and "vm_bytes_arena vm' = vm_bytes_arena vm"
    and "vm_node_capacity vm' = vm_node_capacity vm" and "vm_node_attr_capacity vm' = vm_node_attr_capacity vm"
    and "vm_node_child_capacity vm' = vm_node_child_capacity vm" and "heap_ok vm extra"
proof -
  obtain alloc where c: "heap_ok vm extra" "aivm_vm_compact_node_arenas_with_map alloc vm extra = (Some handle_map, vm')"
    "vm_node_count vm \<noteq> 0"
    using assms(1) by (auto simp: nodes_collected_def)
  note r = compact_nodes_result [OF c, folded live_def]
  show "handle_map = fst (assign_handles live (vm_node_count vm))" "vm_node_count vm' = rank live (vm_node_count vm)"
    "length (vm_node_attrs vm') \<le> vm_node_attr_capacity vm" "length (vm_node_children vm') \<le> vm_node_child_capacity vm"
    "\<And>i. i < vm_node_count vm \<Longrightarrow> live i \<Longrightarrow>
      copied vm live handle_map (vm_nodes vm', vm_node_attrs vm', vm_node_children vm') i"
    "root_values vm' = map (moved_node live) (root_values vm)"
    "vm_scratch_pairs vm' = moved_pairs live (pair_live vm extra) (vm_scratch_pairs vm)"
    "builder_handles vm' = map (moved_handle live) (builder_handles vm)"
    "fixed_handles vm' = map (\<lambda>h. if h > 0 then moved_handle live h else h) (fixed_handles vm)"
    "vm_string_arena vm' = vm_string_arena vm" "vm_bytes_arena vm' = vm_bytes_arena vm"
    "vm_node_capacity vm' = vm_node_capacity vm" "vm_node_attr_capacity vm' = vm_node_attr_capacity vm"
    "vm_node_child_capacity vm' = vm_node_child_capacity vm" "heap_ok vm extra"
    by (fact r c(1))+
qed

text \<open>A reachable value and the value that replaces it.\<close>

definition moved :: "'a heap_vm \<Rightarrow> int list \<Rightarrow> AivmValue \<Rightarrow> AivmValue \<Rightarrow> bool" where
  "moved vm extra v v' \<longleftrightarrow> reach vm (gc_roots vm extra) v \<and> v' = moved_node (node_live vm extra) v"

lemma pair_kept:
  assumes "nodes_collected vm extra handle_map vm'" and "reach vm (gc_roots vm extra) (ValPair h)"
  shows "aivm_vm_lookup_scratch_pair vm h = Some (vm_scratch_pairs vm ! nat (h - 1))"
    and "aivm_vm_lookup_scratch_pair vm' h =
      Some (moved_node_values (node_live vm extra) (vm_scratch_pairs vm ! nat (h - 1)))"
    and "v \<in> {pair_first (vm_scratch_pairs vm ! nat (h - 1)), pair_second (vm_scratch_pairs vm ! nat (h - 1))} \<Longrightarrow>
      moved vm extra v (moved_node (node_live vm extra) v)"
proof -
  note result = collected_result [OF assms(1)]
  have h: "valid_handle h (vm_scratch_pair_count vm)" "pair_live vm extra (nat (h - 1))" "nat (h - 1) < vm_scratch_pair_count vm"
    using reach_pair_live [OF result(15) assms(2)] by (auto simp: valid_handle_def)
  then show "aivm_vm_lookup_scratch_pair vm h = Some (vm_scratch_pairs vm ! nat (h - 1))"
    "aivm_vm_lookup_scratch_pair vm' h = Some (moved_node_values (node_live vm extra) (vm_scratch_pairs vm ! nat (h - 1)))"
    by (simp_all add: lookup_pair_iff result(7) moved_pairs_nth)
  show "v \<in> {pair_first (vm_scratch_pairs vm ! nat (h - 1)), pair_second (vm_scratch_pairs vm ! nat (h - 1))} \<Longrightarrow>
      moved vm extra v (moved_node (node_live vm extra) v)"
    using live_pair_reach [OF h(3,2)] by (auto simp: moved_def)
qed

lemma handle_map_live:
  assumes "nodes_collected vm extra handle_map vm'" and "reach vm (gc_roots vm extra) (ValNode h)"
  shows "handle_map (nat h) = moved_handle (node_live vm extra) h"
  using handle_map_moved(1) [of h _ "node_live vm extra", OF reach_node_live(1,2) [OF collected_result(15) [OF assms(1)] assms(2)]]
    collected_result(1) [OF assms(1)] by simp

lemma node_moved:
  assumes "nodes_collected vm extra handle_map vm'" and "reach vm (gc_roots vm extra) (ValNode h)"
  defines "live \<equiv> node_live vm extra"
  shows "\<exists>node node'. aivm_vm_lookup_node vm h = Some node \<and> aivm_vm_lookup_node vm' (moved_handle live h) = Some node' \<and>
    node_kind node' = node_kind node \<and> node_id node' = node_id node \<and> node_attrs vm' node' = node_attrs vm node \<and>
    node_children vm' node' = map (moved_handle live) (node_children vm node) \<and>
    (\<forall>c \<in> set (node_children vm node). moved vm extra (ValNode c) (ValNode (moved_handle live c))) \<and>
    node_attr_start node' + node_attr_count node' \<le> length (vm_node_attrs vm') \<and>
    node_child_start node' + node_child_count node' \<le> length (vm_node_children vm')"
proof -
  note result = collected_result [OF assms(1), folded live_def]
  let ?node = "vm_nodes vm ! nat (h - 1)" and ?node' = "vm_nodes vm' ! rank live (nat (h - 1))"
  note h = reach_node_live [OF result(15) assms(2), folded live_def]
  have l: "aivm_vm_lookup_node vm h = Some ?node"
    using h(1) by (simp add: lookup_node_iff)
  have l': "aivm_vm_lookup_node vm' (moved_handle live h) = Some ?node'"
    using moved_handle_valid [of live h "vm_node_count vm"] h result(2) by (simp add: lookup_node_iff)
  have c: "reach vm (gc_roots vm extra) (ValNode c)" if "c \<in> set (node_children vm ?node)" for c
    using reach_child [OF assms(2) l that] .
  then have "map (\<lambda>c. handle_map (nat c)) (node_children vm ?node) = map (moved_handle live) (node_children vm ?node)"
    using handle_map_live [OF assms(1)] by (simp add: live_def)
  then show ?thesis
    using l l' result(5) [OF h(3,2)] c
    by (auto simp: copied_def Let_def node_attrs_def node_children_def moved_def moved_node_cases live_def)
qed

lemma moved_similar:
  assumes "nodes_collected vm extra handle_map vm'" and "moved vm extra v v'"
  shows "similar vm vm' (moved vm extra) v v'"
proof -
  note result = collected_result [OF assms(1)]
  show ?thesis
  proof (cases v)
    case (ValPair h)
    then have "reach vm (gc_roots vm extra) (ValPair h)" "v' = ValPair h"
      using assms(2) by (simp_all add: moved_def moved_node_cases)
    then show ?thesis
      using ValPair pair_kept [OF assms(1)] by (simp add: moved_node_values_def)
  next
    case (ValNode h)
    then have "reach vm (gc_roots vm extra) (ValNode h)" "v' = ValNode (moved_handle (node_live vm extra) h)"
      using assms(2) by (simp_all add: moved_def moved_node_cases)
    then show ?thesis
      using ValNode node_moved [OF assms(1), of h] result(10) by (auto simp: list.rel_map intro!: list.rel_refl_strong)
  qed (use assms(2) in \<open>auto simp: moved_def moved_node_def result(10,11)\<close>)
qed

lemma roots_moved:
  assumes "nodes_collected vm extra handle_map vm'"
  shows "list_all2 (moved vm extra) (root_list vm) (root_list vm')"
proof -
  note result = collected_result [OF assms]
  let ?m = "moved_handle (node_live vm extra)"
  have "\<And>v. v \<in> set (root_values vm) \<Longrightarrow> moved vm extra v (moved_node (node_live vm extra) v)"
    using gc_root_values [of _ vm extra] by (simp add: moved_def)
  moreover have "\<And>h. h \<in> set (builder_handles vm) \<Longrightarrow> moved vm extra (ValNode h) (ValNode (?m h))"
    "\<And>h. h \<in> set (fixed_handles vm) \<Longrightarrow> h > 0 \<Longrightarrow> moved vm extra (ValNode h) (ValNode (?m h))"
    by (auto simp: moved_def moved_node_cases gc_roots_def intro!: reach_root)
  moreover have "filter (\<lambda>h. h > 0) (map (\<lambda>h. if h > 0 then ?m h else h) hs) = map ?m (filter (\<lambda>h. h > 0) hs)" for hs
    by (induction hs) (auto simp: moved_handle_def)
  ultimately show ?thesis
    unfolding root_list_def result(6,8,9)
    by (intro list_all2_appendI) (auto simp: list.rel_map intro!: list.rel_refl_strong)
qed

lemma extra_moved:
  assumes "nodes_collected vm extra handle_map vm'" and "h \<in> set extra" and "h > 0"
  shows "moved vm extra (ValNode h) (ValNode (handle_map (nat h)))"
proof -
  have r: "reach vm (gc_roots vm extra) (ValNode h)"
    using assms(2,3) by (intro reach_root) (auto simp: gc_roots_def)
  then show ?thesis
    using handle_map_live [OF assms(1) r] by (simp add: moved_def moved_node_cases)
qed

lemma moved_ok:
  assumes "nodes_collected vm extra handle_map vm'" and "moved vm extra v v'"
  shows "value_ok vm' v'"
proof -
  note result = collected_result [OF assms(1)]
  have v: "value_ok vm v" "reach vm (gc_roots vm extra) v" "v' = moved_node (node_live vm extra) v"
    using assms(2) result(15) by (auto simp: moved_def heap_ok_def)
  show ?thesis
  proof (cases v)
    case (ValPair h)
    then show ?thesis
      using v pair_kept(2) [OF assms(1), of h] by (auto simp: moved_node_cases lookup_pair_iff)
  next
    case (ValNode h)
    then obtain node node' where "aivm_vm_lookup_node vm h = Some node"
      "aivm_vm_lookup_node vm' (moved_handle (node_live vm extra) h) = Some node'"
      "node_kind node' = node_kind node" "node_id node' = node_id node" "node_attrs vm' node' = node_attrs vm node"
      using node_moved [OF assms(1)] v(2) by blast
    then show ?thesis
      using v ValNode by (simp add: moved_node_cases lookup_node_iff node_texts_def result(10))
  qed (use v in \<open>simp_all add: moved_node_def result(10,11)\<close>)
qed

lemma collected_pairs_ok:
  assumes "nodes_collected vm extra handle_map vm'" and p: "p \<in> set (vm_scratch_pairs vm')"
  shows "pair_values_ok (vm_scratch_pair_count vm') p"
proof -
  note result = collected_result [OF assms(1)]
  obtain i where i: "i < vm_scratch_pair_count vm"
    "p = moved_pairs (node_live vm extra) (pair_live vm extra) (vm_scratch_pairs vm) ! i"
    using p by (auto simp: result(7) in_set_conv_nth)
  then have "pair_values_ok (vm_scratch_pair_count vm) (vm_scratch_pairs vm ! i)"
    using result(15) by (simp add: heap_ok_def heap_closed_def)
  moreover have "moved_node live v = ValPair h \<longleftrightarrow> v = ValPair h" for live v h
    by (cases v) (auto simp: moved_node_def)
  ultimately show ?thesis
    using i by (simp add: pair_values_ok_def moved_pairs_nth moved_node_values_def result(7))
qed

lemma collected_nodes_ok:
  assumes "nodes_collected vm extra handle_map vm'" and n: "node' \<in> set (vm_nodes vm')"
  shows "node_shape_ok vm' node'"
proof -
  note result = collected_result [OF assms(1)]
  let ?live = "node_live vm extra"
  obtain i where i: "i < vm_node_count vm" "?live i" "node' = vm_nodes vm' ! rank ?live i"
    using n rank_surj [of _ ?live "vm_node_count vm"] by (fastforce simp: in_set_conv_nth result(2))
  let ?h = "int i + 1"
  have r: "reach vm (gc_roots vm extra) (ValNode ?h)"
    using i(2) by (simp add: node_live_def)
  obtain node node1 where node: "aivm_vm_lookup_node vm' (moved_handle ?live ?h) = Some node1"
    "node_children vm' node1 = map (moved_handle ?live) (node_children vm node)"
    "\<forall>c \<in> set (node_children vm node). moved vm extra (ValNode c) (ValNode (moved_handle ?live c))"
    "node_attr_start node1 + node_attr_count node1 \<le> length (vm_node_attrs vm')"
    "node_child_start node1 + node_child_count node1 \<le> length (vm_node_children vm')"
    using node_moved [OF assms(1) r] by blast
  have "node1 = node'"
    using node(1) i(3) by (simp add: lookup_node_iff moved_handle_def)
  moreover have "valid_handle (moved_handle ?live c) (vm_node_count vm')" if "c \<in> set (node_children vm node)" for c
    using moved_ok [OF assms(1)] node(3) that by fastforce
  ultimately show ?thesis
    using node by (auto simp: node_shape_ok_def)
qed

lemma collected_closed:
  assumes "nodes_collected vm extra handle_map vm'"
  shows "heap_closed vm'"
proof -
  note result = collected_result [OF assms]
  have c: "heap_closed vm"
    using result(15) by (simp add: heap_ok_def)
  then have "rank (node_live vm extra) (vm_node_count vm) \<le> vm_node_capacity vm"
    using rank_le [of "node_live vm extra" "vm_node_count vm"] by (simp add: heap_closed_def)
  then show ?thesis
    using c result(2-4) collected_pairs_ok [OF assms] collected_nodes_ok [OF assms]
    by (simp add: heap_closed_def result(10,12-14))
qed

lemma nodes_collected_ok:
  assumes "nodes_collected vm extra handle_map vm'"
  shows "heap_ok vm' (moved_extra handle_map extra)"
proof -
  have roots: "\<exists>v. moved vm extra v v'" if v': "v' \<in> gc_roots vm' (moved_extra handle_map extra)" for v'
  proof -
    have "v' \<in> set (root_list vm') \<or> (\<exists>h \<in> set extra. h > 0 \<and> v' = ValNode (handle_map (nat h)))"
      using v' unfolding gc_roots_extra [of vm' "moved_extra handle_map extra"] root_list_set
      by (auto simp: moved_extra_def split: if_splits)
    then show ?thesis
      using list_all2_source [OF roots_moved [OF assms]] extra_moved [OF assms] by blast
  qed
  have "value_ok vm' v'" if "reach vm' (gc_roots vm' (moved_extra handle_map extra)) v'" for v'
    using reach_similar [of "moved vm extra" vm vm', OF moved_similar [OF assms] roots that] moved_ok [OF assms] by blast
  then show ?thesis
    using collected_closed [OF assms] by (simp add: heap_ok_def)
qed

lemma nodes_compacted:
  assumes "heap_ok vm extra" and "aivm_vm_compact_node_arenas_with_map alloc vm extra = (Some handle_map, vm')"
  shows "same_views vm vm'" and "heap_ok vm' (moved_extra handle_map extra)"
    and "h \<in> set extra \<Longrightarrow> h > 0 \<Longrightarrow>
      handle_map (nat h) > 0 \<and> (\<forall>n. value_view n vm' (ValNode (handle_map (nat h))) = value_view n vm (ValNode h))"
proof -
  have "same_views vm vm' \<and> heap_ok vm' (moved_extra handle_map extra) \<and>
    (h \<in> set extra \<longrightarrow> h > 0 \<longrightarrow>
      handle_map (nat h) > 0 \<and> (\<forall>n. value_view n vm' (ValNode (handle_map (nat h))) = value_view n vm (ValNode h)))" for h
  proof (cases "vm_node_count vm = 0")
    case True
    then have vm': "vm' = count_gc_attempt vm"
      using assms(2) by (simp add: aivm_vm_compact_node_arenas_with_map_def Let_def)
    then have same: "same_heap vm vm'"
      by (simp add: same_heap_def)
    have none: "\<not> k > 0" if k: "k \<in> set extra" for k
    proof
      assume "k > 0"
      then have "ValNode k \<in> gc_roots vm extra"
        using k by (simp add: gc_roots_def)
      then have "valid_handle k (vm_node_count vm)"
        using heap_ok_node [OF assms(1) reach_root] by blast
      then show False
        using True by (auto simp: valid_handle_def)
    qed
    then have "map (\<lambda>h. if h > 0 then handle_map (nat h) else h) extra = extra"
      by (intro map_idI) simp
    then have extra: "moved_extra handle_map extra = extra"
      by (simp add: moved_extra_def)
    have "same_views vm vm'"
      using same_views_refl [of vm] unfolding same_views_def same_heap_reach(5,6) [OF same] .
    moreover have "heap_ok vm' (moved_extra handle_map extra)"
      unfolding extra using assms(1) same_heap_reach(4) [OF same] by blast
    ultimately show ?thesis
      using none [of h] by blast
  next
    case False
    then have c: "nodes_collected vm extra handle_map vm'"
      using assms by (auto simp: nodes_collected_def)
    have "same_views vm vm'"
      by (rule same_viewsI [of "moved vm extra" vm vm', OF moved_similar [OF c] roots_moved [OF c]])
    moreover have "handle_map (nat h) > 0" "\<And>n. value_view n vm' (ValNode (handle_map (nat h))) = value_view n vm (ValNode h)"
      if "h \<in> set extra" "h > 0"
      using moved_ok [OF c extra_moved [OF c that]]
        view_similar [of "moved vm extra" vm vm', OF moved_similar [OF c] extra_moved [OF c that]]
      by (simp_all add: valid_handle_def)
    ultimately show ?thesis
      using nodes_collected_ok [OF c] by blast
  qed
  then show "same_views vm vm'" "heap_ok vm' (moved_extra handle_map extra)"
    "h \<in> set extra \<Longrightarrow> h > 0 \<Longrightarrow>
      handle_map (nat h) > 0 \<and> (\<forall>n. value_view n vm' (ValNode (handle_map (nat h))) = value_view n vm (ValNode h))"
    by blast+
qed

lemma node_collection_counts:
  assumes "heap_ok vm extra" and "nodes_fit vm" and "vm_node_count vm = 0 \<or> collection_memory alloc vm"
  shows "\<exists>handle_map vm'. aivm_vm_compact_node_arenas_with_map alloc vm extra = (Some handle_map, vm') \<and> nodes_fit vm' \<and>
    vm_node_count vm' = card {h. reach vm (gc_roots vm extra) (ValNode h)}"
proof -
  have "valid_handle h (vm_node_count vm)" if "reach vm (gc_roots vm extra) (ValNode h)" for h
    using heap_ok_node [OF assms(1) that] .
  then have count: "rank (node_live vm extra) (vm_node_count vm) = card {h. reach vm (gc_roots vm extra) (ValNode h)}"
    by (rule rank_card) (simp_all add: node_live_def)
  show ?thesis
  proof (cases "vm_node_count vm = 0")
    case True
    then show ?thesis
      using count assms(2)
      by (simp add: aivm_vm_compact_node_arenas_with_map_def Let_def nodes_fit_def)
  next
    case False
    then obtain handle_map vm' where "aivm_vm_compact_node_arenas_with_map alloc vm extra = (Some handle_map, vm')"
      using compact_nodes_succeeds [OF assms(1,2)] assms(3) by blast
    then show ?thesis
      using compact_nodes_result(2,15) [OF assms(1) _ False] count by auto
  qed
qed

text \<open>C3 (refinement): collection of the nodes of a well-formed heap succeeds exactly when its workspace can be
  allocated. It then keeps everything a program can see through the roots and the handles the
  caller holds, a well-formed heap, and the reachable nodes only; otherwise it reports an error and leaves the heap alone.\<close>

theorem node_compaction_keeps_values:
  assumes "heap_ok vm extra" and "nodes_fit vm"
  shows "\<exists>handle_map vm'. if vm_node_count vm = 0 \<or> collection_memory alloc vm
    then aivm_vm_compact_node_arenas_with_map alloc vm extra = (Some handle_map, vm') \<and> same_views vm vm' \<and>
      heap_ok vm' (moved_extra handle_map extra) \<and> nodes_fit vm' \<and>
      (\<forall>h \<in> set extra. h > 0 \<longrightarrow> (\<forall>n. value_view n vm' (ValNode (handle_map (nat h))) = value_view n vm (ValNode h))) \<and>
      vm_node_count vm' = card {h. reach vm (gc_roots vm extra) (ValNode h)}
    else aivm_vm_compact_node_arenas_with_map alloc vm extra = (None, vm') \<and> same_heap vm vm' \<and>
      vm_status vm' = AIVM_VM_STATUS_ERROR"
proof (cases "vm_node_count vm = 0 \<or> collection_memory alloc vm")
  case True
  then obtain handle_map vm' where vm': "aivm_vm_compact_node_arenas_with_map alloc vm extra = (Some handle_map, vm')"
    "nodes_fit vm'" "vm_node_count vm' = card {h. reach vm (gc_roots vm extra) (ValNode h)}"
    using node_collection_counts [OF assms] by blast
  then show ?thesis
    using True nodes_compacted [OF assms(1) vm'(1)] by (intro exI [of _ handle_map] exI [of _ vm']) simp
next
  case False
  then obtain detail where "aivm_vm_compact_node_arenas_with_map alloc vm extra =
      (None, aivm_set_vm_error (count_gc_attempt vm) AIVM_VM_ERR_MEMORY_PRESSURE detail)"
    using collection_refused by blast
  moreover have "same_heap vm (aivm_set_vm_error (count_gc_attempt vm) AIVM_VM_ERR_MEMORY_PRESSURE detail)"
    using set_error_same_heap [of "count_gc_attempt vm"] by (simp add: same_heap_def)
  ultimately show ?thesis
    using False by (simp add: aivm_set_vm_error_def)
qed

theorem node_compaction_keeps_values_witness:
  "\<exists>handle_map vm'. aivm_vm_compact_node_arenas_with_map (\<lambda>n. True) heap_demo [] = (Some handle_map, vm') \<and>
     same_views heap_demo vm' \<and> vm_node_count vm' = card {h. reach heap_demo (gc_roots heap_demo []) (ValNode h)}"
proof -
  have "nodes_fit heap_demo" "collection_memory (\<lambda>n. True) heap_demo"
    by (simp_all add: nodes_fit_def heap_demo_fields collection_memory_def compact_workspace_def node_mark_memory_def pair_mark_memory_def)
  with node_compaction_keeps_values [OF heap_demo_ok, of "\<lambda>n. True"] show ?thesis
    by auto
qed

end
