(* ===== verification/Node_Arena.thy ===== *)
theory Node_Arena
  imports Node_Compaction
begin

text \<open>
  Growth of the node arenas of a tooling machine (\<^verbatim>\<open>src/src/aivm_vm_node_arena.c\<close>): capacities double until
  the needed entries fit, if the host has the memory. What is stored stays as it is.
\<close>

function double_until :: "nat \<Rightarrow> nat \<Rightarrow> nat" where
  "double_until needed capacity =
     (if capacity = 0 \<or> needed \<le> capacity then capacity
      else if capacity > SIZE_MAX div 2 then needed
      else double_until needed (capacity * 2))"
  by pat_completeness auto

termination
  by (relation "measure (\<lambda>(needed, capacity). needed - capacity)") auto

declare double_until.simps [simp del]

definition next_capacity :: "nat \<Rightarrow> nat \<Rightarrow> nat" where
  "next_capacity current needed = double_until needed (if current = 0 then 1 else current)"

text \<open>The bytes one arena adds; none when it does not grow.\<close>

definition growth_part :: "nat \<Rightarrow> nat \<Rightarrow> nat \<Rightarrow> nat \<Rightarrow> nat option" where
  "growth_part capacity new_capacity size_of growth_bytes =
     (if new_capacity > capacity then
        if new_capacity - capacity > SIZE_MAX div size_of then None
        else aivm_size_add_checked growth_bytes ((new_capacity - capacity) * size_of)
      else Some growth_bytes)"

definition node_growth_bytes :: "'a heap_vm \<Rightarrow> nat \<Rightarrow> nat \<Rightarrow> nat \<Rightarrow> nat option" where
  "node_growth_bytes vm node_capacity attr_capacity child_capacity =
     (case growth_part (vm_node_capacity vm) node_capacity sizeof_AivmNodeRecord 0 of
        None \<Rightarrow> None
      | Some bytes \<Rightarrow>
          (case growth_part (vm_node_attr_capacity vm) attr_capacity sizeof_AivmNodeAttr bytes of
             None \<Rightarrow> None
           | Some bytes \<Rightarrow> growth_part (vm_node_child_capacity vm) child_capacity 8 bytes))"

text \<open>The reallocations; what has grown stays grown when a later one fails. The size of a block is computed modulo
  the size of the address space.\<close>

definition realloc_arenas :: "(nat \<Rightarrow> bool) \<Rightarrow> nat \<Rightarrow> nat \<Rightarrow> nat \<Rightarrow> 'a heap_vm \<Rightarrow> bool \<times> 'a heap_vm" where
  "realloc_arenas alloc node_capacity attr_capacity child_capacity vm =
     (let realloc = (\<lambda>capacity new_capacity size_of. new_capacity \<le> capacity \<or> alloc (new_capacity * size_of mod (SIZE_MAX + 1))) in
      if \<not> realloc (vm_node_capacity vm) node_capacity sizeof_AivmNodeRecord then (False, vm)
      else let vm = vm\<lparr>vm_node_capacity := max (vm_node_capacity vm) node_capacity\<rparr> in
      if \<not> realloc (vm_node_attr_capacity vm) attr_capacity sizeof_AivmNodeAttr then (False, vm)
      else let vm = vm\<lparr>vm_node_attr_capacity := max (vm_node_attr_capacity vm) attr_capacity\<rparr> in
      if \<not> realloc (vm_node_child_capacity vm) child_capacity 8 then (False, vm)
      else (True, vm\<lparr>vm_node_child_capacity := max (vm_node_child_capacity vm) child_capacity\<rparr>))"

definition aivm_vm_try_grow_node_arenas ::
  "(nat \<Rightarrow> bool) \<Rightarrow> (nat \<times> nat) option \<Rightarrow> 'a heap_vm \<Rightarrow> nat \<Rightarrow> nat \<Rightarrow> nat \<Rightarrow> bool \<times> 'a heap_vm" where
  "aivm_vm_try_grow_node_arenas alloc snapshot vm needed_node_count needed_attr_count needed_child_count =
     (if vm_runtime_profile vm \<noteq> AIVM_RUNTIME_PROFILE_TOOLING then (False, vm)
      else
        let node_capacity = next_capacity (vm_node_capacity vm) needed_node_count;
            attr_capacity = next_capacity (vm_node_attr_capacity vm) needed_attr_count;
            child_capacity = next_capacity (vm_node_child_capacity vm) needed_child_count
        in if node_capacity = vm_node_capacity vm \<and> attr_capacity = vm_node_attr_capacity vm \<and>
             child_capacity = vm_node_child_capacity vm then (True, vm)
           else case node_growth_bytes vm node_capacity attr_capacity child_capacity of
             None \<Rightarrow> (False, vm)
           | Some growth_bytes \<Rightarrow>
               (case aivm_vm_host_memory_growth_available snapshot vm growth_bytes of
                  (False, vm) \<Rightarrow> (False, vm)
                | (True, vm) \<Rightarrow> realloc_arenas alloc node_capacity attr_capacity child_capacity vm))"

text \<open>What an arena needs at the pressure threshold: one entry more than it has room for.\<close>

definition pressure_need :: "nat \<Rightarrow> nat \<Rightarrow> nat" where
  "pressure_need entries capacity =
     (if entries \<ge> capacity div 4 * 3 then if capacity = SIZE_MAX then capacity else capacity + 1 else entries)"

definition aivm_vm_try_grow_pressure_node_arenas ::
  "(nat \<Rightarrow> bool) \<Rightarrow> (nat \<times> nat) option \<Rightarrow> 'a heap_vm \<Rightarrow> bool \<times> 'a heap_vm" where
  "aivm_vm_try_grow_pressure_node_arenas alloc snapshot vm =
     (if vm_runtime_profile vm \<noteq> AIVM_RUNTIME_PROFILE_TOOLING then (False, vm)
      else aivm_vm_try_grow_node_arenas alloc snapshot vm
        (pressure_need (vm_node_count vm) (vm_node_capacity vm))
        (pressure_need (length (vm_node_attrs vm)) (vm_node_attr_capacity vm))
        (pressure_need (length (vm_node_children vm)) (vm_node_child_capacity vm)))"

section \<open>What growth keeps\<close>

lemma double_until_bounds:
  "capacity > 0 \<Longrightarrow> needed \<le> double_until needed capacity \<and> capacity \<le> double_until needed capacity"
proof (induction needed capacity rule: double_until.induct)
  case (1 needed capacity)
  then show ?case
    by (subst (1 2) double_until.simps) auto
qed

lemma double_until_max: "capacity \<le> SIZE_MAX \<Longrightarrow> needed \<le> SIZE_MAX \<Longrightarrow> double_until needed capacity \<le> SIZE_MAX"
proof (induction needed capacity rule: double_until.induct)
  case (1 needed capacity)
  then show ?case
    by (subst double_until.simps) (auto simp: not_less)
qed

lemma next_capacity_bounds:
  shows "needed \<le> next_capacity current needed" and "current \<le> next_capacity current needed"
    and "current \<le> SIZE_MAX \<Longrightarrow> needed \<le> SIZE_MAX \<Longrightarrow> next_capacity current needed \<le> SIZE_MAX"
  using double_until_bounds [of "if current = 0 then 1 else current" needed]
    double_until_max [of "if current = 0 then 1 else current" needed]
  by (auto simp: next_capacity_def SIZE_MAX_def split: if_splits)

text \<open>A machine whose node arenas have grown.\<close>

definition grown :: "'a heap_vm \<Rightarrow> 'a heap_vm \<Rightarrow> bool" where
  "grown vm vm' \<longleftrightarrow>
     vm' = vm\<lparr>vm_host_memory_growth_suspended := vm_host_memory_growth_suspended vm', vm_node_capacity := vm_node_capacity vm',
       vm_node_attr_capacity := vm_node_attr_capacity vm', vm_node_child_capacity := vm_node_child_capacity vm'\<rparr> \<and>
     vm_node_capacity vm \<le> vm_node_capacity vm' \<and> vm_node_attr_capacity vm \<le> vm_node_attr_capacity vm' \<and>
     vm_node_child_capacity vm \<le> vm_node_child_capacity vm' \<and>
     (vm_node_attr_capacity vm \<le> SIZE_MAX \<longrightarrow> vm_node_attr_capacity vm' \<le> SIZE_MAX) \<and>
     (vm_node_child_capacity vm \<le> SIZE_MAX \<longrightarrow> vm_node_child_capacity vm' \<le> SIZE_MAX)"

lemma grown_refl: "grown vm vm"
  by (simp add: grown_def)

lemma growth_available_result:
  "snd (aivm_vm_host_memory_growth_available snapshot vm n) =
   vm\<lparr>vm_host_memory_growth_suspended := vm_host_memory_growth_suspended (snd (aivm_vm_host_memory_growth_available snapshot vm n))\<rparr>"
  by (simp add: aivm_vm_host_memory_growth_available_def split: option.split prod.split)

lemma realloc_grows:
  assumes "vm_node_attr_capacity vm \<le> SIZE_MAX \<longrightarrow> b \<le> SIZE_MAX" and "vm_node_child_capacity vm \<le> SIZE_MAX \<longrightarrow> c \<le> SIZE_MAX"
  shows "grown vm (snd (realloc_arenas alloc a b c vm))"
    and "fst (realloc_arenas alloc a b c vm) \<Longrightarrow> a \<le> vm_node_capacity (snd (realloc_arenas alloc a b c vm)) \<and>
      b \<le> vm_node_attr_capacity (snd (realloc_arenas alloc a b c vm)) \<and> c \<le> vm_node_child_capacity (snd (realloc_arenas alloc a b c vm))"
proof -
  show "grown vm (snd (realloc_arenas alloc a b c vm))"
    using assms by (simp add: realloc_arenas_def grown_def Let_def)
  show "a \<le> vm_node_capacity (snd (realloc_arenas alloc a b c vm)) \<and>
      b \<le> vm_node_attr_capacity (snd (realloc_arenas alloc a b c vm)) \<and> c \<le> vm_node_child_capacity (snd (realloc_arenas alloc a b c vm))"
    if "fst (realloc_arenas alloc a b c vm)"
    using that by (simp add: realloc_arenas_def Let_def split: if_splits) blast
qed

text \<open>Whatever happens, nothing but the capacities changes.\<close>

definition resized :: "'a heap_vm \<Rightarrow> 'a heap_vm \<Rightarrow> bool" where
  "resized vm vm' \<longleftrightarrow> vm' = vm\<lparr>vm_host_memory_growth_suspended := vm_host_memory_growth_suspended vm',
    vm_node_capacity := vm_node_capacity vm', vm_node_attr_capacity := vm_node_attr_capacity vm',
    vm_node_child_capacity := vm_node_child_capacity vm'\<rparr>"

lemma resized_refl [simp]: "resized vm vm"
  by (simp add: resized_def)

lemma resized_trans: "resized vm vm1 \<Longrightarrow> resized vm1 vm2 \<Longrightarrow> resized vm vm2"
  unfolding resized_def by (erule ssubst, erule ssubst) simp

lemma growth_available_resized: "resized vm (snd (aivm_vm_host_memory_growth_available snapshot vm n))"
  by (simp add: resized_def aivm_vm_host_memory_growth_available_def split: option.split prod.split)

lemma realloc_resized: "resized vm (snd (realloc_arenas alloc a b c vm))"
  by (simp add: realloc_arenas_def resized_def Let_def)

lemma try_grow_resized: "resized vm (snd (aivm_vm_try_grow_node_arenas alloc snapshot vm nodes attrs children))"
proof -
  have "resized vm (snd (case aivm_vm_host_memory_growth_available snapshot vm n of
      (False, vm) \<Rightarrow> (False, vm) | (True, vm) \<Rightarrow> realloc_arenas alloc a b c vm))" for n a b c
    using growth_available_resized [of vm snapshot n] resized_trans [OF _ realloc_resized, of vm _ alloc a b c]
    by (auto split: prod.splits bool.splits)
  then show ?thesis
    by (auto simp: aivm_vm_try_grow_node_arenas_def Let_def split: option.split)
qed

lemma pressure_growth_resized: "resized vm (snd (aivm_vm_try_grow_pressure_node_arenas alloc snapshot vm))"
  by (simp add: aivm_vm_try_grow_pressure_node_arenas_def try_grow_resized)

lemma suspended_grown:
  "grown (vm\<lparr>vm_host_memory_growth_suspended := s\<rparr>) vm' \<Longrightarrow> grown vm vm'"
  by (simp add: grown_def)

lemma grow_node_arenas:
  fixes vm :: "'a heap_vm" and nodes :: nat and snapshot :: "(nat \<times> nat) option" and alloc :: "nat \<Rightarrow> bool"
  assumes "attrs \<le> SIZE_MAX" and "children \<le> SIZE_MAX"
  defines "r \<equiv> aivm_vm_try_grow_node_arenas alloc snapshot vm nodes attrs children"
  shows "grown vm (snd r)"
    and "fst r \<Longrightarrow> nodes \<le> vm_node_capacity (snd r) \<and> attrs \<le> vm_node_attr_capacity (snd r) \<and> children \<le> vm_node_child_capacity (snd r)"
proof -
  let ?a = "next_capacity (vm_node_capacity vm) nodes" and ?b = "next_capacity (vm_node_attr_capacity vm) attrs"
    and ?c = "next_capacity (vm_node_child_capacity vm) children"
  have b: "nodes \<le> ?a" "attrs \<le> ?b" "children \<le> ?c"
    "vm_node_attr_capacity vm \<le> SIZE_MAX \<longrightarrow> ?b \<le> SIZE_MAX" "vm_node_child_capacity vm \<le> SIZE_MAX \<longrightarrow> ?c \<le> SIZE_MAX"
    using next_capacity_bounds assms(1,2) by blast+
  have "grown vm (snd r) \<and> (fst r \<longrightarrow> ?a \<le> vm_node_capacity (snd r) \<and> ?b \<le> vm_node_attr_capacity (snd r) \<and>
    ?c \<le> vm_node_child_capacity (snd r))"
  proof (cases "\<exists>n. node_growth_bytes vm ?a ?b ?c = Some n \<and> r =
      (case aivm_vm_host_memory_growth_available snapshot vm n of
         (False, vm) \<Rightarrow> (False, vm) | (True, vm) \<Rightarrow> realloc_arenas alloc ?a ?b ?c vm)")
    case True
    then obtain n where r: "r = (case aivm_vm_host_memory_growth_available snapshot vm n of
         (False, vm) \<Rightarrow> (False, vm) | (True, vm) \<Rightarrow> realloc_arenas alloc ?a ?b ?c vm)"
      by blast
    obtain allowed s where s: "aivm_vm_host_memory_growth_available snapshot vm n = (allowed, vm\<lparr>vm_host_memory_growth_suspended := s\<rparr>)"
      using growth_available_result [of snapshot vm n] by (metis prod.collapse)
    note g = realloc_grows [of "vm\<lparr>vm_host_memory_growth_suspended := s\<rparr>" ?b ?c alloc ?a]
    show ?thesis
      using g b(4,5) suspended_grown [where vm = vm and s = s] suspended_grown [where vm = vm and s = s, OF grown_refl] by (cases allowed) (simp_all add: r s)
  next
    case False
    then have "snd r = vm" "fst r \<longrightarrow> ?a = vm_node_capacity vm \<and> ?b = vm_node_attr_capacity vm \<and> ?c = vm_node_child_capacity vm"
      by (auto simp: r_def aivm_vm_try_grow_node_arenas_def Let_def split: option.splits)
    then show ?thesis
      using grown_refl [of vm] by auto
  qed
  then show "grown vm (snd r)"
    and "fst r \<Longrightarrow> nodes \<le> vm_node_capacity (snd r) \<and> attrs \<le> vm_node_attr_capacity (snd r) \<and> children \<le> vm_node_child_capacity (snd r)"
    using b(1-3) by auto
qed

lemma grown_keeps:
  assumes "grown vm vm'"
  shows "same_contents vm vm'" and "heap_ok vm extra \<Longrightarrow> heap_ok vm' extra"
proof -
  have vm': "vm' = vm\<lparr>vm_host_memory_growth_suspended := vm_host_memory_growth_suspended vm', vm_node_capacity := vm_node_capacity vm',
       vm_node_attr_capacity := vm_node_attr_capacity vm', vm_node_child_capacity := vm_node_child_capacity vm'\<rparr>"
    using assms by (simp add: grown_def)
  show c: "same_contents vm vm'"
    by (subst vm') (simp add: same_contents_def root_values_def local_values_def fixed_handles_def builder_handles_def)
  show "heap_ok vm' extra" if "heap_ok vm extra"
    using assms that by (intro same_contents_heap_ok [OF c]) (auto simp: grown_def heap_ok_def heap_closed_def)
qed

lemma pressure_growth:
  fixes vm :: "'a heap_vm" and snapshot :: "(nat \<times> nat) option" and alloc :: "nat \<Rightarrow> bool"
  assumes "heap_ok vm extra"
  defines "r \<equiv> aivm_vm_try_grow_pressure_node_arenas alloc snapshot vm"
  shows "same_contents vm (snd r)" and "heap_ok (snd r) extra"
proof -
  have "pressure_need (length (vm_node_attrs vm)) (vm_node_attr_capacity vm) \<le> SIZE_MAX"
    "pressure_need (length (vm_node_children vm)) (vm_node_child_capacity vm) \<le> SIZE_MAX"
    using assms(1) by (auto simp: pressure_need_def heap_ok_def heap_closed_def)
  then have "grown vm (snd r)"
    by (simp add: r_def aivm_vm_try_grow_pressure_node_arenas_def grow_node_arenas(1) grown_refl)
  then show "same_contents vm (snd r)" "heap_ok (snd r) extra"
    using grown_keeps assms(1) by blast+
qed

end
