(* ===== verification/Relocation.thy ===== *)
theory Relocation
  imports Heap_Traversal
begin

text \<open>
  Relocation of what the roots and the reachable pairs point to: the loops the compactions of the string
  arena and of the bytes arena share. A step replaces one value and extends the new arena; the contract
  of a step is a locale.
\<close>

text \<open>The components of the marked pairs; a component stays replaced when the next one fails.\<close>

definition visit_live_pair ::
  "(AivmValue \<Rightarrow> 's \<Rightarrow> AivmValue \<times> 's option) \<Rightarrow> (nat \<Rightarrow> bool) \<Rightarrow> nat \<times> AivmScratchPair \<Rightarrow> 's \<Rightarrow>
   (nat \<times> AivmScratchPair) \<times> 's option" where
  "visit_live_pair f live entry s =
     (case entry of (i, p) \<Rightarrow>
        if \<not> live i then ((i, p), Some s)
        else case f (pair_first p) s of
          (v, None) \<Rightarrow> ((i, p\<lparr>pair_first := v\<rparr>), None)
        | (v, Some s) \<Rightarrow>
            (case f (pair_second p) s of (w, r) \<Rightarrow> ((i, \<lparr>pair_first = v, pair_second = w\<rparr>), r)))"

section \<open>The contract of a step\<close>

lemma traverse_roots_conv:
  assumes "traverse f (root_values vm) s = (vs, Some s')"
  shows "\<exists>vm'. traverse_roots f vm s = (vm', Inr s')"
proof -
  obtain st s1 where 1: "traverse f (rev (vm_stack vm)) s = (st, Some s1)"
    using assms by (auto simp: root_values_def traverse_append split: prod.splits option.splits)
  obtain ls s2 where 2: "traverse f (local_values vm) s1 = (ls, Some s2)"
    using assms 1 by (auto simp: root_values_def traverse_append split: prod.splits option.splits)
  obtain rs s3 where 3: "traverse f (map task_result (vm_completed_tasks vm)) s2 = (rs, Some s3)"
    using assms 1 2 by (auto simp: root_values_def traverse_append split: prod.splits option.splits)
  obtain ps where "traverse f (vm_par_values vm) s3 = (ps, Some s')"
    using assms 1 2 3 by (auto simp: root_values_def traverse_append split: prod.splits option.splits)
  with 1 2 3 show ?thesis
    by (simp add: traverse_roots_def Let_def set_local_values_def set_task_results_def)
qed

lemma traverse_total:
  assumes "good s" and "\<And>v s. v \<in> set vs \<Longrightarrow> good s \<Longrightarrow> \<exists>v' t. f v s = (v', Some t) \<and> good t"
  shows "\<exists>vs' t. traverse f vs s = (vs', Some t)"
  using assms
proof (induction vs arbitrary: s)
  case (Cons v vs)
  then obtain v' t where "f v s = (v', Some t)" "good t"
    by (meson list.set_intros(1))
  moreover from this obtain vs' u where "traverse f vs t = (vs', Some u)"
    using Cons.IH [of t] Cons.prems(2) by (meson list.set_intros(2))
  ultimately show ?case
    by simp
qed simp

text \<open>A step that succeeds leaves the value moved, in a new arena that only grows.\<close>

locale relocation =
  fixes ok :: "'h \<Rightarrow> AivmValue \<Rightarrow> bool"
    and good :: "'h \<Rightarrow> 's \<Rightarrow> bool"
    and le :: "'s \<Rightarrow> 's \<Rightarrow> bool"
    and moved :: "'h \<Rightarrow> 's \<Rightarrow> AivmValue \<Rightarrow> AivmValue \<Rightarrow> bool"
    and step :: "'h \<Rightarrow> AivmValue \<Rightarrow> 's \<Rightarrow> AivmValue \<times> 's option"
  assumes le_refl: "le s s"
    and le_trans: "le r s \<Longrightarrow> le s t \<Longrightarrow> le r t"
    and moved_mono: "good h s \<Longrightarrow> le s t \<Longrightarrow> moved h s v v' \<Longrightarrow> moved h t v v'"
    and step_moves: "good h s \<Longrightarrow> ok h v \<Longrightarrow> step h v s = (v', Some t) \<Longrightarrow> good h t \<and> le s t \<and> moved h t v v'"
begin

lemma relocated_values:
  assumes "traverse (step h) vs s = (vs', Some t)" and "good h s" and "\<And>v. v \<in> set vs \<Longrightarrow> ok h v"
  shows "good h t \<and> le s t \<and> list_all2 (moved h t) vs vs'"
proof (rule traverse_all2 [where good = "good h" and le = le and Q = "moved h", OF assms(1,2)])
  show "good h t \<and> le s t \<and> moved h t v v'" if "v \<in> set vs" "step h v s = (v', Some t)" "good h s" for v s v' t
    using step_moves [OF that(3) assms(3) [OF that(1)] that(2)] .
qed (fact le_refl le_trans moved_mono)+

text \<open>The roots are relocated one after the other, and nothing but the roots changes.\<close>

lemma roots_relocated:
  assumes "traverse_roots (step h) vm s = (vm', Inr t)" and "good h s" and "\<And>v. v \<in> set (root_values vm) \<Longrightarrow> ok h v"
  shows "\<exists>st ls rs ps. vm' = put_roots st ls rs ps vm \<and> length st = vm_stack_count vm"
    and "good h t" and "le s t" and "list_all2 (moved h t) (root_values vm) (root_values vm')"
proof -
  have r: "traverse (step h) (root_values vm) s = (root_values vm', Some t)"
    and p: "\<exists>st ls rs ps. vm' = put_roots st ls rs ps vm \<and> length st = vm_stack_count vm"
    using traverse_roots_all [OF assms(1)] by blast+
  have "good h t \<and> le s t \<and> list_all2 (moved h t) (root_values vm) (root_values vm')"
    using relocated_values [OF r assms(2,3)] .
  then show "good h t" "le s t" "list_all2 (moved h t) (root_values vm) (root_values vm')"
    by simp_all
  show "\<exists>st ls rs ps. vm' = put_roots st ls rs ps vm \<and> length st = vm_stack_count vm"
    by (rule p)
qed

definition pair_relocated :: "'h \<Rightarrow> 's \<Rightarrow> (nat \<Rightarrow> bool) \<Rightarrow> nat \<times> AivmScratchPair \<Rightarrow> nat \<times> AivmScratchPair \<Rightarrow> bool" where
  "pair_relocated h t live e e' \<longleftrightarrow>
     fst e' = fst e \<and>
     (if live (fst e) then moved h t (pair_first (snd e)) (pair_first (snd e')) \<and> moved h t (pair_second (snd e)) (pair_second (snd e'))
      else snd e' = snd e)"

lemma visit_live_pair_relocates:
  assumes "visit_live_pair (step h) live (i, p) s = (e', Some t)" and "good h s"
    and "live i \<Longrightarrow> ok h (pair_first p) \<and> ok h (pair_second p)"
  shows "good h t \<and> le s t \<and> pair_relocated h t live (i, p) e'"
proof (cases "live i")
  case True
  obtain v s1 w where 1: "step h (pair_first p) s = (v, Some s1)" "step h (pair_second p) s1 = (w, Some t)"
    "e' = (i, \<lparr>pair_first = v, pair_second = w\<rparr>)"
    using assms(1) True by (auto simp: visit_live_pair_def split: prod.splits option.splits)
  have 2: "good h s1" "le s s1" "moved h s1 (pair_first p) v"
    using step_moves [OF assms(2) _ 1(1)] assms(3) [OF True] by simp_all
  have 3: "good h t" "le s1 t" "moved h t (pair_second p) w"
    using step_moves [OF 2(1) _ 1(2)] assms(3) [OF True] by simp_all
  show ?thesis
    using True 3 le_trans [OF 2(2) 3(2)] moved_mono [OF 2(1) 3(2) 2(3)] by (simp add: 1(3) pair_relocated_def)
qed (use assms(1,2) le_refl in \<open>auto simp: visit_live_pair_def pair_relocated_def\<close>)

lemma pairs_relocated:
  assumes "traverse (visit_live_pair (step h) live) (enumerate 0 ps) s = (es, Some t)" and "good h s"
    and "\<And>i. i < length ps \<Longrightarrow> live i \<Longrightarrow> ok h (pair_first (ps ! i)) \<and> ok h (pair_second (ps ! i))"
  shows "good h t" and "le s t" and "length es = length ps"
    and "i < length ps \<Longrightarrow> if live i then moved h t (pair_first (ps ! i)) (pair_first (map snd es ! i)) \<and>
         moved h t (pair_second (ps ! i)) (pair_second (map snd es ! i))
       else map snd es ! i = ps ! i"
proof -
  have "good h t \<and> le s t \<and> list_all2 (pair_relocated h t live) (enumerate 0 ps) es"
  proof (rule traverse_all2 [where good = "good h" and le = le and Q = "\<lambda>t. pair_relocated h t live", OF assms(1,2)])
    show "good h t \<and> le s t \<and> pair_relocated h t live e e'"
      if e: "e \<in> set (enumerate 0 ps)" "visit_live_pair (step h) live e s = (e', Some t)" "good h s" for e s e' t
    proof -
      obtain i where i: "e = (i, ps ! i)" "i < length ps"
        using e(1) by (auto simp: in_set_enumerate_eq prod_eq_iff)
      show ?thesis
        using visit_live_pair_relocates [OF e(2) [unfolded i(1)] e(3)] assms(3) [OF i(2)] unfolding i(1) by blast
    qed
    show "pair_relocated h t live e e'" if "good h s" "le s t" "pair_relocated h s live e e'" for s t e e'
      using that moved_mono by (auto simp: pair_relocated_def split: if_splits)
  qed (fact le_refl le_trans)+
  then have es: "good h t" "le s t" "list_all2 (pair_relocated h t live) (enumerate 0 ps) es"
    by simp_all
  then show "good h t" "le s t" and len: "length es = length ps"
    using list_all2_lengthD [OF es(3)] by simp_all
  assume i: "i < length ps"
  then have "pair_relocated h t live (i, ps ! i) (es ! i)"
    using list_all2_nthD [OF es(3), of i] by (simp add: nth_enumerate_eq)
  then show "if live i then moved h t (pair_first (ps ! i)) (pair_first (map snd es ! i)) \<and>
         moved h t (pair_second (ps ! i)) (pair_second (map snd es ! i))
       else map snd es ! i = ps ! i"
    using i len by (fastforce simp: pair_relocated_def split: if_splits)
qed

end

text \<open>A step that always succeeds.\<close>

locale total_relocation = relocation +
  assumes step_total: "good h s \<Longrightarrow> ok h v \<Longrightarrow> \<exists>v' t. step h v s = (v', Some t)"
begin

lemma roots_total:
  assumes "good h s" and "\<And>v. v \<in> set (root_values vm) \<Longrightarrow> ok h v"
  shows "\<exists>vm' t. traverse_roots (step h) vm s = (vm', Inr t)"
proof -
  have "\<exists>vs t. traverse (step h) (root_values vm) s = (vs, Some t)"
  proof (rule traverse_total [where good = "good h", OF assms(1)])
    show "\<exists>v' t. step h v s = (v', Some t) \<and> good h t" if "v \<in> set (root_values vm)" "good h s" for v s
      using step_total [OF that(2) assms(2) [OF that(1)]] step_moves [OF that(2) assms(2) [OF that(1)]] by blast
  qed
  then obtain vs t where "traverse (step h) (root_values vm) s = (vs, Some t)"
    by blast
  from traverse_roots_conv [OF this] show ?thesis
    by blast
qed

lemma pairs_total:
  assumes "good h s" and "\<And>i. i < length ps \<Longrightarrow> live i \<Longrightarrow> ok h (pair_first (ps ! i)) \<and> ok h (pair_second (ps ! i))"
  shows "\<exists>es t. traverse (visit_live_pair (step h) live) (enumerate 0 ps) s = (es, Some t)"
proof (rule traverse_total [where good = "good h", OF assms(1)])
  show "\<exists>e' t. visit_live_pair (step h) live e s = (e', Some t) \<and> good h t"
    if e: "e \<in> set (enumerate 0 ps)" "good h s" for e s
  proof -
    obtain i where i: "e = (i, ps ! i)" "i < length ps"
      using e(1) by (auto simp: in_set_enumerate_eq prod_eq_iff)
    have "\<exists>e' t. visit_live_pair (step h) live e s = (e', Some t)"
    proof (cases "live i")
      case True
      then obtain v s1 where 1: "step h (pair_first (ps ! i)) s = (v, Some s1)" "good h s1"
        using step_total [OF e(2)] step_moves [OF e(2)] assms(2) [OF i(2)] by blast
      then obtain w t where "step h (pair_second (ps ! i)) s1 = (w, Some t)"
        using step_total [OF 1(2)] assms(2) [OF i(2) True] by blast
      with 1 True show ?thesis
        by (simp add: i(1) visit_live_pair_def)
    qed (simp add: i(1) visit_live_pair_def)
    then show ?thesis
      using visit_live_pair_relocates [OF _ e(2)] assms(2) [OF i(2)] unfolding i(1) by blast
  qed
qed

end

end
