(* ===== verification/String_Intern.thy ===== *)
theory String_Intern
  imports Heap_Traversal
begin

text \<open>
  The texts of the string arena and the index that finds them (\<^verbatim>\<open>src/src/aivm_vm_string_copy.c\<close>): the scan of the
  arena from its first text, the open-addressing table from hashes to texts, its growth and rebuilding.
  Only the used part of the arena is a list; it ends with a terminating zero, so that no text runs
  beyond it.
\<close>

section \<open>The texts of an arena\<close>

text \<open>The loops that walk from one text to the next and compare it with a given text.\<close>

function find_block :: "string \<Rightarrow> nat \<Rightarrow> string \<Rightarrow> nat option" where
  "find_block arena offset str =
     (if arena = [] then None
      else let candidate = c_string arena in
        if candidate = str then Some offset
        else find_block (drop (length candidate + 1) arena) (offset + length candidate + 1) str)"
  by pat_completeness auto

termination
  by (relation "measure (\<lambda>(arena, offset, str). length arena)") auto

declare find_block.simps [simp del]

text \<open>The offsets and lengths of the texts, if the last one is terminated.\<close>

function arena_blocks :: "string \<Rightarrow> nat \<Rightarrow> (nat \<times> nat) list option" where
  "arena_blocks arena offset =
     (if arena = [] then Some []
      else let len = length (c_string arena) in
        if len \<ge> length arena then None
        else case arena_blocks (drop (len + 1) arena) (offset + len + 1) of
          None \<Rightarrow> None
        | Some blocks \<Rightarrow> Some ((offset, len) # blocks))"
  by pat_completeness auto

termination
  by (relation "measure (\<lambda>(arena, offset). length arena)") auto

declare arena_blocks.simps [simp del]

section \<open>The index\<close>

definition sizeof_AivmStringInternEntry :: nat where "sizeof_AivmStringInternEntry = 24"

definition string_hash :: "string \<Rightarrow> u64" where
  "string_hash input =
     (let hash = fold (\<lambda>c hash. (hash XOR of_nat (of_char c)) * 1099511628211) input 1469598103934665603
      in if hash = 0 then 1 else hash)"

definition string_intern_slot :: "u64 \<Rightarrow> nat \<Rightarrow> nat" where
  "string_intern_slot hash capacity = unat (hash AND of_nat (capacity - 1))"

definition next_intern_slot :: "nat \<Rightarrow> nat \<Rightarrow> nat" where
  "next_intern_slot slot capacity = (slot + 1) AND (capacity - 1)"

definition empty_entry :: AivmStringInternEntry where
  "empty_entry = \<lparr>intern_hash = 0, intern_offset = 0, intern_length = 0\<rparr>"

fun intern_insert_loop ::
  "nat \<Rightarrow> AivmStringInternEntry list \<Rightarrow> AivmStringInternEntry \<Rightarrow> nat \<Rightarrow> AivmStringInternEntry list option" where
  "intern_insert_loop 0 entries entry slot = None"
| "intern_insert_loop (Suc probes) entries entry slot =
     (if intern_hash (entries ! slot) = 0 then Some (entries[slot := entry])
      else intern_insert_loop probes entries entry (next_intern_slot slot (length entries)))"

definition string_intern_insert ::
  "AivmStringInternEntry list \<Rightarrow> u64 \<Rightarrow> nat \<Rightarrow> nat \<Rightarrow> AivmStringInternEntry list option" where
  "string_intern_insert entries hash offset len =
     (if entries = [] then None
      else intern_insert_loop (length entries) entries
        \<lparr>intern_hash = hash, intern_offset = offset, intern_length = len\<rparr> (string_intern_slot hash (length entries)))"

fun reinsert_entries :: "AivmStringInternEntry list \<Rightarrow> AivmStringInternEntry list \<Rightarrow> AivmStringInternEntry list option" where
  "reinsert_entries [] entries = Some entries"
| "reinsert_entries (old_entry # rest) entries =
     (if intern_hash old_entry \<noteq> 0 then
        (case string_intern_insert entries (intern_hash old_entry) (intern_offset old_entry) (intern_length old_entry) of
           None \<Rightarrow> None
         | Some entries \<Rightarrow> reinsert_entries rest entries)
      else reinsert_entries rest entries)"

text \<open>The capacity is the power of two \<open>2 ^ k\<close>; the code starts with \<open>k = 10\<close>.\<close>

function intern_capacity_loop :: "nat \<Rightarrow> nat \<Rightarrow> nat option" where
  "intern_capacity_loop requested k =
     (if 2 ^ k < requested then
        if 2 ^ k > SIZE_MAX div 2 then None else intern_capacity_loop requested (k + 1)
      else Some (2 ^ k))"
  by pat_completeness auto

termination
  by (relation "measure (\<lambda>(requested, k). requested - 2 ^ k)") (auto intro: diff_less_mono2)

declare intern_capacity_loop.simps [simp del]

definition string_intern_resize :: "(nat \<Rightarrow> bool) \<Rightarrow> 'a heap_vm \<Rightarrow> nat \<Rightarrow> bool \<times> 'a heap_vm" where
  "string_intern_resize alloc vm requested_capacity =
     (case intern_capacity_loop requested_capacity 10 of
        None \<Rightarrow> (False, vm)
      | Some capacity \<Rightarrow>
          if \<not> alloc (capacity * sizeof_AivmStringInternEntry) then (False, vm)
          else case reinsert_entries (vm_string_intern_entries vm) (replicate capacity empty_entry) of
            None \<Rightarrow> (False, vm)
          | Some entries \<Rightarrow> (True, vm\<lparr>vm_string_intern_entries := entries\<rparr>))"

definition aivm_vm_reset_string_intern_index :: "'a heap_vm \<Rightarrow> 'a heap_vm" where
  "aivm_vm_reset_string_intern_index vm =
     vm\<lparr>vm_string_intern_entries := replicate (length (vm_string_intern_entries vm)) empty_entry,
        vm_string_intern_count := 0, vm_string_intern_complete := True\<rparr>"

fun insert_blocks :: "(nat \<times> nat) list \<Rightarrow> 'a heap_vm \<Rightarrow> 'a heap_vm" where
  "insert_blocks [] vm = vm"
| "insert_blocks ((offset, len) # blocks) vm =
     (case string_intern_insert (vm_string_intern_entries vm)
             (string_hash (take len (drop offset (vm_string_arena vm)))) offset len of
        None \<Rightarrow> vm\<lparr>vm_string_intern_complete := False\<rparr>
      | Some entries \<Rightarrow>
          insert_blocks blocks
            (vm\<lparr>vm_string_intern_entries := entries, vm_string_intern_count := vm_string_intern_count vm + 1\<rparr>))"

definition aivm_vm_rebuild_string_intern_index :: "(nat \<Rightarrow> bool) \<Rightarrow> 'a heap_vm \<Rightarrow> 'a heap_vm" where
  "aivm_vm_rebuild_string_intern_index alloc vm =
     (case arena_blocks (vm_string_arena vm) 0 of
        None \<Rightarrow> vm\<lparr>vm_string_intern_complete := False\<rparr>
      | Some blocks \<Rightarrow>
          let vm = aivm_vm_reset_string_intern_index vm in
          if blocks = [] then vm
          else case string_intern_resize alloc vm (length blocks * 2) of
            (False, vm) \<Rightarrow> vm\<lparr>vm_string_intern_complete := False\<rparr>
          | (True, vm) \<Rightarrow> insert_blocks blocks vm)"

fun intern_lookup_loop :: "nat \<Rightarrow> 'a heap_vm \<Rightarrow> string \<Rightarrow> u64 \<Rightarrow> nat \<Rightarrow> nat option" where
  "intern_lookup_loop 0 vm input hash slot = None"
| "intern_lookup_loop (Suc probes) vm input hash slot =
     (let entry = vm_string_intern_entries vm ! slot in
      if intern_hash entry = 0 then None
      else if intern_hash entry = hash \<and> intern_length entry = length input \<and>
        take (length input) (drop (intern_offset entry) (vm_string_arena vm)) = input
      then Some (intern_offset entry)
      else intern_lookup_loop probes vm input hash (next_intern_slot slot (length (vm_string_intern_entries vm))))"

definition lookup_string_in_index :: "'a heap_vm \<Rightarrow> string \<Rightarrow> nat option" where
  "lookup_string_in_index vm input =
     (let capacity = length (vm_string_intern_entries vm) in
      if \<not> vm_string_intern_complete vm \<or> capacity = 0 then None
      else intern_lookup_loop capacity vm input (string_hash input) (string_intern_slot (string_hash input) capacity))"

definition remember_string_in_index :: "(nat \<Rightarrow> bool) \<Rightarrow> 'a heap_vm \<Rightarrow> nat \<Rightarrow> string \<Rightarrow> 'a heap_vm" where
  "remember_string_in_index alloc vm offset input =
     (if \<not> vm_string_intern_complete vm then vm
      else
        let capacity = length (vm_string_intern_entries vm) in
        case (if capacity = 0 \<or> (vm_string_intern_count vm + 1) * 10 \<ge> capacity * 7
              then string_intern_resize alloc vm (if capacity = 0 then 1024 else capacity * 2)
              else (True, vm)) of
          (False, vm) \<Rightarrow> vm\<lparr>vm_string_intern_complete := False\<rparr>
        | (True, vm) \<Rightarrow>
            (case string_intern_insert (vm_string_intern_entries vm) (string_hash input) offset (length input) of
               None \<Rightarrow> vm\<lparr>vm_string_intern_complete := False\<rparr>
             | Some entries \<Rightarrow>
                 vm\<lparr>vm_string_intern_entries := entries, vm_string_intern_count := vm_string_intern_count vm + 1\<rparr>))"

section \<open>Texts\<close>

lemma c_string_length: "length (c_string s) \<le> length s"
  by (simp add: c_string_def length_takeWhile_le)

lemma c_string_take: "c_string s = take (length (c_string s)) s"
  unfolding c_string_def by (rule takeWhile_eq_take)

lemma c_string_no_zero [simp]: "CHR 0x00 \<notin> set (c_string s)"
  by (auto simp: c_string_def dest: set_takeWhileD)

lemma c_string_append_zero: "CHR 0x00 \<notin> set str \<Longrightarrow> c_string (str @ CHR 0x00 # rest) = str"
  by (simp add: c_string_def takeWhile_append)

lemma c_string_id: "CHR 0x00 \<notin> set str \<Longrightarrow> c_string str = str"
  unfolding c_string_def by (subst takeWhile_eq_all_conv) auto

lemma c_string_split:
  assumes "terminated s" and "s \<noteq> []"
  shows "s = c_string s @ CHR 0x00 # drop (length (c_string s) + 1) s"
    and "length (c_string s) < length s" and "terminated (drop (length (c_string s) + 1) s)"
proof -
  have "CHR 0x00 \<in> set s"
    using assms by (metis last_in_set terminated_def)
  then obtain us vs where s: "s = us @ CHR 0x00 # vs" "CHR 0x00 \<notin> set us"
    by (metis split_list_first)
  then have "c_string s = us"
    by (simp add: c_string_append_zero)
  with s assms show "s = c_string s @ CHR 0x00 # drop (length (c_string s) + 1) s" "length (c_string s) < length s"
    "terminated (drop (length (c_string s) + 1) s)"
    by (auto simp: terminated_def split: if_splits)
qed

lemma terminated_drop: "terminated s \<Longrightarrow> terminated (drop n s)"
  by (cases "n < length s") (auto simp: terminated_def last_drop)

lemma terminated_append: "terminated s \<Longrightarrow> terminated t \<Longrightarrow> terminated (s @ t)"
  by (cases "t = []") (auto simp: terminated_def)

text \<open>Text that is appended does not change the texts that are there.\<close>

lemma c_string_append: "terminated s \<Longrightarrow> s \<noteq> [] \<Longrightarrow> c_string (s @ t) = c_string s"
  using c_string_split(1) [of s] c_string_append_zero [of "c_string s"] by (metis append.assoc append_Cons c_string_no_zero)

lemma block_append:
  assumes "terminated arena" and "block_start arena off"
  shows "block_start (arena @ t) off" and "c_string (drop off (arena @ t)) = c_string (drop off arena)"
proof -
  have off: "off < length arena"
    using assms(2) by (simp add: block_start_def)
  then show "c_string (drop off (arena @ t)) = c_string (drop off arena)"
    using c_string_append [OF terminated_drop [OF assms(1)], of off t] by simp
  show "block_start (arena @ t) off"
    using assms(2) by (auto simp: block_start_def nth_append)
qed

lemma block_append_new:
  assumes "terminated arena" and "CHR 0x00 \<notin> set str"
  shows "block_start (arena @ str @ [CHR 0x00]) (length arena)"
    and "c_string (drop (length arena) (arena @ str @ [CHR 0x00])) = str" and "terminated (arena @ str @ [CHR 0x00])"
proof -
  have "arena ! (length arena - 1) = CHR 0x00" if "arena \<noteq> []"
    using assms(1) that by (auto simp: terminated_def last_conv_nth)
  then show "block_start (arena @ str @ [CHR 0x00]) (length arena)"
    by (cases "arena = []") (auto simp: block_start_def nth_append)
qed (use assms in \<open>simp_all add: terminated_def c_string_append_zero [of str "[]"]\<close>)

lemma block_start_drop: "m < length arena \<Longrightarrow> arena ! m = CHR 0x00 \<Longrightarrow> block_start (drop (m + 1) arena) k \<longleftrightarrow> block_start arena (m + 1 + k)"
  by (cases k) (auto simp: block_start_def)

lemma c_string_end: "length (c_string s) < length s \<Longrightarrow> s ! length (c_string s) = CHR 0x00"
  using nth_length_takeWhile [of "\<lambda>c. c \<noteq> CHR 0x00" s] by (simp add: c_string_def)

lemma find_block_Some:
  "find_block arena base str = Some off \<Longrightarrow>
   base \<le> off \<and> block_start arena (off - base) \<and> c_string (drop (off - base) arena) = str"
proof (induction arena base str rule: find_block.induct)
  case (1 arena base str)
  let ?n = "length (c_string arena)"
  show ?case
  proof (cases "c_string arena = str")
    case True
    with "1.prems" show ?thesis
      by (auto simp: find_block.simps [of arena] block_start_def split: if_splits)
  next
    case False
    have ne: "arena \<noteq> []" and rest: "find_block (drop (?n + 1) arena) (base + ?n + 1) str = Some off"
      using "1.prems" False by (auto simp: find_block.simps [of arena] Let_def split: if_splits)
    then have IH: "base + ?n + 1 \<le> off" "block_start (drop (?n + 1) arena) (off - (base + ?n + 1))"
      "c_string (drop (off - (base + ?n + 1)) (drop (?n + 1) arena)) = str"
      using "1.IH" False by auto
    define k where "k = off - (base + ?n + 1)"
    then have k: "off - base = ?n + 1 + k" "k < length arena - (?n + 1)"
      using IH(1,2) by (auto simp: block_start_def)
    have "?n < length arena"
      using k(2) by simp
    then have "block_start arena (?n + 1 + k)"
      using IH(2) block_start_drop [OF _ c_string_end] unfolding k_def [symmetric] by blast
    moreover have "drop k (drop (?n + 1) arena) = drop (?n + 1 + k) arena"
      by (simp add: add.commute)
    ultimately show ?thesis
      using IH(1,3) unfolding k(1) k_def [symmetric] by simp
  qed
qed

lemma find_block_None:
  assumes "terminated arena" and "block_start arena off" and "c_string (drop off arena) = str"
  shows "find_block arena base str \<noteq> None"
  using assms
proof (induction arena base str arbitrary: off rule: find_block.induct)
  case (1 arena base str)
  let ?n = "length (c_string arena)"
  have ne: "arena \<noteq> []"
    using "1.prems"(2) by (auto simp: block_start_def)
  note split = c_string_split [OF "1.prems"(1) ne]
  show ?case
  proof (cases "c_string arena = str")
    case True
    with ne show ?thesis
      by (simp add: find_block.simps [of arena])
  next
    case False
    then have "off \<noteq> 0"
      using "1.prems"(3) by (cases off) simp_all
    moreover have "\<not> off \<le> ?n"
    proof
      assume "off \<le> ?n"
      then have "arena ! (off - 1) = c_string arena ! (off - 1)" "off - 1 < ?n"
        using split(1) \<open>off \<noteq> 0\<close> by (metis Suc_pred' gr0I less_eq_Suc_le nth_append, simp)
      then have "arena ! (off - 1) \<noteq> CHR 0x00"
        by (metis c_string_no_zero nth_mem)
      then show False
        using "1.prems"(2) \<open>off \<noteq> 0\<close> by (simp add: block_start_def)
    qed
    ultimately obtain k where k: "off = ?n + 1 + k"
      using le_Suc_ex [of "?n + 1" off] by auto
    have "block_start (drop (?n + 1) arena) k"
      using "1.prems"(2) split(2) block_start_drop [OF _ c_string_end] unfolding k by blast
    moreover have "c_string (drop k (drop (?n + 1) arena)) = str"
      using "1.prems"(3) k by (simp add: add.commute)
    ultimately have "find_block (drop (?n + 1) arena) (base + ?n + 1) str \<noteq> None"
      using "1.IH" [OF ne _ False] split(3) by blast
    then show ?thesis
      using ne False by (simp add: find_block.simps [of arena] Let_def)
  qed
qed

lemma arena_blocks_start:
  "arena_blocks arena base = Some blocks \<Longrightarrow> (offset, len) \<in> set blocks \<Longrightarrow>
   base \<le> offset \<and> block_start arena (offset - base) \<and> length (c_string (drop (offset - base) arena)) = len"
proof (induction arena base arbitrary: blocks rule: arena_blocks.induct)
  case (1 arena base)
  let ?n = "length (c_string arena)"
  obtain rest where ne: "arena \<noteq> []" "?n < length arena" and rest: "arena_blocks (drop (?n + 1) arena) (base + ?n + 1) = Some rest"
    and blocks: "blocks = (base, ?n) # rest"
    using "1.prems" by (auto simp: arena_blocks.simps [of arena] Let_def split: if_splits option.splits)
  show ?case
  proof (cases "(offset, len) = (base, ?n)")
    case True
    then show ?thesis
      using ne by (simp add: block_start_def)
  next
    case False
    then have "(offset, len) \<in> set rest"
      using "1.prems"(2) blocks by auto
    then have IH: "base + ?n + 1 \<le> offset" "block_start (drop (?n + 1) arena) (offset - (base + ?n + 1))"
      "length (c_string (drop (offset - (base + ?n + 1)) (drop (?n + 1) arena))) = len"
      using "1.IH" [OF ne(1) HOL.refl] ne(2) rest by auto
    define k where "k = offset - (base + ?n + 1)"
    then have k: "offset - base = ?n + 1 + k"
      using IH(1) by simp
    have "block_start arena (?n + 1 + k)"
      using IH(2) ne(2) block_start_drop [OF _ c_string_end] unfolding k_def [symmetric] by blast
    moreover have "drop k (drop (?n + 1) arena) = drop (?n + 1 + k) arena"
      by (simp add: add.commute)
    ultimately show ?thesis
      using IH(1,3) unfolding k k_def [symmetric] by simp
  qed
qed

section \<open>What the index finds\<close>

text \<open>An entry in use describes a text of the arena. The capacity is a power of two, so that every slot the probes
  visit exists.\<close>

definition entry_ok :: "string \<Rightarrow> AivmStringInternEntry \<Rightarrow> bool" where
  "entry_ok arena e \<longleftrightarrow>
     (intern_hash e \<noteq> 0 \<longrightarrow>
        block_start arena (intern_offset e) \<and> length (c_string (drop (intern_offset e) arena)) = intern_length e)"

definition index_ok :: "'a heap_vm \<Rightarrow> bool" where
  "index_ok vm \<longleftrightarrow>
     (\<forall>e \<in> set (vm_string_intern_entries vm). entry_ok (vm_string_arena vm) e) \<and>
     (vm_string_intern_entries vm = [] \<or>
      (\<exists>k < 64. length (vm_string_intern_entries vm) = 2 ^ k))"

lemma entry_ok_empty [simp]: "entry_ok arena empty_entry"
  by (simp add: entry_ok_def empty_entry_def)

lemma entry_ok_append: "terminated arena \<Longrightarrow> entry_ok arena e \<Longrightarrow> entry_ok (arena @ t) e"
  using block_append [of arena "intern_offset e"] by (simp add: entry_ok_def)

lemma intern_slot_less:
  assumes "capacity = 2 ^ k" and "k < 64"
  shows "string_intern_slot hash capacity < capacity" and "next_intern_slot slot capacity < capacity"
proof -
  have "(2 :: nat) ^ k - 1 < 2 ^ 64"
    using assms(2) by (meson diff_le_self le_less_trans one_less_numeral_iff power_strict_increasing semiring_norm(76))
  then have "unat (of_nat (2 ^ k - 1) :: u64) = 2 ^ k - 1"
    unfolding unat_of_nat by simp
  moreover have "unat (hash AND of_nat (2 ^ k - 1)) \<le> unat (of_nat (2 ^ k - 1) :: u64)"
    by (simp add: word_and_le1 flip: word_le_nat_alt)
  moreover have "(2 :: nat) ^ k - 1 < 2 ^ k"
    by simp
  ultimately show "string_intern_slot hash capacity < capacity"
    unfolding string_intern_slot_def assms(1) by linarith
  have "(slot + 1) AND (2 ^ k - 1) = take_bit k (slot + 1)"
    by (simp only: take_bit_eq_mask mask_nat_def)
  then show "next_intern_slot slot capacity < capacity"
    unfolding next_intern_slot_def assms(1) using take_bit_nat_less_exp [of k "slot + 1"] by simp
qed

lemma intern_insert_loop_Some:
  "intern_insert_loop probes entries e slot = Some entries' \<Longrightarrow>
   length entries' = length entries \<and> set entries' \<subseteq> insert e (set entries)"
  by (induction probes arbitrary: slot) (auto split: if_splits dest: set_update_subset_insert [THEN subsetD])

lemma string_intern_insert_Some:
  "string_intern_insert entries hash offset len = Some entries' \<Longrightarrow>
   length entries' = length entries \<and>
   set entries' \<subseteq> insert \<lparr>intern_hash = hash, intern_offset = offset, intern_length = len\<rparr> (set entries)"
  by (auto simp: string_intern_insert_def dest: intern_insert_loop_Some split: if_splits)

lemma reinsert_entries_Some:
  "reinsert_entries old entries = Some entries' \<Longrightarrow>
   length entries' = length entries \<and> set entries' \<subseteq> set old \<union> set entries"
proof (induction old arbitrary: entries)
  case (Cons e old)
  show ?case
  proof (cases "intern_hash e = 0")
    case False
    then obtain mid where mid: "string_intern_insert entries (intern_hash e) (intern_offset e) (intern_length e) = Some mid"
      "reinsert_entries old mid = Some entries'"
      using Cons.prems by (auto split: option.splits)
    then have "length mid = length entries" "set mid \<subseteq> insert e (set entries)"
      using string_intern_insert_Some by fastforce+
    then show ?thesis
      using Cons.IH [OF mid(2)] by auto
  qed (use Cons in auto)
qed simp

lemma intern_capacity_Some:
  "intern_capacity_loop requested k = Some capacity \<Longrightarrow> k < 64 \<Longrightarrow> \<exists>j < 64. capacity = 2 ^ j"
proof (induction requested k rule: intern_capacity_loop.induct)
  case (1 requested k)
  show ?case
  proof (cases "2 ^ k < requested")
    case True
    then have k: "\<not> 2 ^ k > SIZE_MAX div 2" "intern_capacity_loop requested (k + 1) = Some capacity"
      using "1.prems"(1) by (auto simp: intern_capacity_loop.simps [of requested k] split: if_splits)
    have "k \<noteq> 63"
      using k(1) by (auto simp: SIZE_MAX_def)
    then show ?thesis
      using "1.IH" [OF True k(1) k(2)] "1.prems"(2) by simp
  qed (use "1.prems" in \<open>auto simp: intern_capacity_loop.simps [of requested k]\<close>)
qed

text \<open>The index changes, nothing else does.\<close>

definition reindexed :: "'a heap_vm \<Rightarrow> 'a heap_vm \<Rightarrow> bool" where
  "reindexed vm vm' \<longleftrightarrow>
     vm' = vm\<lparr>vm_string_intern_entries := vm_string_intern_entries vm',
        vm_string_intern_count := vm_string_intern_count vm', vm_string_intern_complete := vm_string_intern_complete vm'\<rparr>"

lemma reindexed_refl [simp]: "reindexed vm vm"
  by (simp add: reindexed_def)

lemma reindexed_trans: "reindexed vm vm1 \<Longrightarrow> reindexed vm1 vm2 \<Longrightarrow> reindexed vm vm2"
  unfolding reindexed_def by (erule ssubst, erule ssubst) simp

lemma reindexed_updates [simp]:
  "reindexed vm (vm\<lparr>vm_string_intern_entries := entries\<rparr>)" "reindexed vm (vm\<lparr>vm_string_intern_complete := c\<rparr>)"
  "reindexed vm (vm\<lparr>vm_string_intern_entries := entries, vm_string_intern_count := n\<rparr>)"
  "reindexed vm (vm\<lparr>vm_string_intern_entries := entries, vm_string_intern_count := n, vm_string_intern_complete := c\<rparr>)"
  by (simp_all add: reindexed_def)

lemma reindexed_arena: "reindexed vm vm' \<Longrightarrow> vm_string_arena vm' = vm_string_arena vm"
  unfolding reindexed_def by (erule ssubst) simp

lemma index_ok_complete [simp]: "index_ok (vm\<lparr>vm_string_intern_complete := c\<rparr>) = index_ok vm"
  by (simp add: index_ok_def)

lemma resize_keeps_index:
  assumes "string_intern_resize alloc vm requested = (ok, vm')" and "index_ok vm"
  shows "index_ok vm' \<and> reindexed vm vm'"
proof (cases ok)
  case False
  then have "vm' = vm"
    using assms(1) by (auto simp: string_intern_resize_def split: option.splits if_splits)
  then show ?thesis
    using assms(2) by simp
next
  case True
  then obtain capacity entries where c: "intern_capacity_loop requested 10 = Some capacity"
    "reinsert_entries (vm_string_intern_entries vm) (replicate capacity empty_entry) = Some entries"
    "vm' = vm\<lparr>vm_string_intern_entries := entries\<rparr>"
    using assms(1) by (auto simp: string_intern_resize_def split: option.splits if_splits)
  obtain j where "j < 64" "capacity = 2 ^ j"
    using intern_capacity_Some [OF c(1)] by auto
  moreover have "length entries = capacity" "set entries \<subseteq> set (vm_string_intern_entries vm) \<union> {empty_entry}"
    using reinsert_entries_Some [OF c(2)] by auto
  ultimately show ?thesis
    using assms(2) c(3) by (auto simp: index_ok_def)
qed

lemma insert_keeps_index:
  assumes "index_ok vm" and "string_intern_insert (vm_string_intern_entries vm) hash offset len = Some entries"
    and "block_start (vm_string_arena vm) offset" and "length (c_string (drop offset (vm_string_arena vm))) = len"
  shows "index_ok (vm\<lparr>vm_string_intern_entries := entries, vm_string_intern_count := n\<rparr>)"
  using assms string_intern_insert_Some [OF assms(2)] by (auto simp: index_ok_def entry_ok_def)

lemma remember_keeps_index:
  assumes "index_ok vm" and "block_start (vm_string_arena vm) offset" and "c_string (drop offset (vm_string_arena vm)) = input"
  shows "index_ok (remember_string_in_index alloc vm offset input) \<and>
    reindexed vm (remember_string_in_index alloc vm offset input)"
proof (cases "vm_string_intern_complete vm")
  case True
  let ?R = "remember_string_in_index alloc vm offset input" and ?cap = "length (vm_string_intern_entries vm)"
  obtain ok vm1 where r: "(if ?cap = 0 \<or> (vm_string_intern_count vm + 1) * 10 \<ge> ?cap * 7
      then string_intern_resize alloc vm (if ?cap = 0 then 1024 else ?cap * 2) else (True, vm)) = (ok, vm1)"
    by fastforce
  then have i: "index_ok vm1" "reindexed vm vm1"
    using resize_keeps_index [OF _ assms(1)] assms(1) by (auto split: if_splits)
  have R: "?R = (if \<not> ok then vm1\<lparr>vm_string_intern_complete := False\<rparr>
      else case string_intern_insert (vm_string_intern_entries vm1) (string_hash input) offset (length input) of
          None \<Rightarrow> vm1\<lparr>vm_string_intern_complete := False\<rparr>
        | Some entries \<Rightarrow>
            vm1\<lparr>vm_string_intern_entries := entries, vm_string_intern_count := vm_string_intern_count vm1 + 1\<rparr>)"
    unfolding remember_string_in_index_def Let_def r using True by (cases ok) simp_all
  have "index_ok ?R \<and> reindexed vm1 ?R"
    unfolding R using i insert_keeps_index [OF i(1)] assms(2,3) reindexed_arena [OF i(2)] by (simp split: option.splits)
  then show ?thesis
    using i(2) reindexed_trans by blast
qed (use assms(1) in \<open>simp add: remember_string_in_index_def\<close>)

lemma insert_blocks_keeps_index:
  assumes "index_ok vm" and "\<And>offset len. (offset, len) \<in> set blocks \<Longrightarrow>
      block_start (vm_string_arena vm) offset \<and> length (c_string (drop offset (vm_string_arena vm))) = len"
  shows "index_ok (insert_blocks blocks vm) \<and> reindexed vm (insert_blocks blocks vm)"
  using assms
proof (induction blocks arbitrary: vm)
  case (Cons block blocks)
  obtain offset len where b: "block = (offset, len)"
    by fastforce
  let ?hash = "string_hash (take len (drop offset (vm_string_arena vm)))"
  show ?case
  proof (cases "string_intern_insert (vm_string_intern_entries vm) ?hash offset len")
    case None
    then show ?thesis
      using Cons.prems(1) b by simp
  next
    case (Some entries)
    let ?vm = "vm\<lparr>vm_string_intern_entries := entries, vm_string_intern_count := vm_string_intern_count vm + 1\<rparr>"
    have "index_ok ?vm"
      using insert_keeps_index [OF Cons.prems(1) Some] Cons.prems(2) [of offset len] b by simp
    then have "index_ok (insert_blocks blocks ?vm) \<and> reindexed ?vm (insert_blocks blocks ?vm)"
      using Cons.prems(2) by (intro Cons.IH) auto
    moreover have "insert_blocks (block # blocks) vm = insert_blocks blocks ?vm"
      using Some b by simp
    ultimately show ?thesis
      using reindexed_trans [OF reindexed_updates(3)] by fastforce
  qed
qed simp

lemma arena_blocks_total: "terminated arena \<Longrightarrow> arena_blocks arena base \<noteq> None"
proof (induction arena base rule: arena_blocks.induct)
  case (1 arena base)
  show ?case
  proof (cases "arena = []")
    case False
    note split = c_string_split(2,3) [OF "1.prems" False]
    then have "arena_blocks (drop (length (c_string arena) + 1) arena) (base + length (c_string arena) + 1) \<noteq> None"
      using "1.IH" [OF False HOL.refl] by simp
    then show ?thesis
      using split(1) by (auto simp: arena_blocks.simps [of arena] Let_def)
  qed (simp add: arena_blocks.simps)
qed

lemma rebuild_keeps_index:
  assumes "vm_string_intern_entries vm = [] \<or> (\<exists>k < 64. length (vm_string_intern_entries vm) = 2 ^ k)"
    and "terminated (vm_string_arena vm)"
  shows "index_ok (aivm_vm_rebuild_string_intern_index alloc vm) \<and>
    reindexed vm (aivm_vm_rebuild_string_intern_index alloc vm)"
proof -
  let ?vm0 = "aivm_vm_reset_string_intern_index vm"
  obtain blocks where blocks: "arena_blocks (vm_string_arena vm) 0 = Some blocks"
    using arena_blocks_total [OF assms(2)] by blast
  have reset: "index_ok ?vm0" "reindexed vm ?vm0"
    using assms(1) by (auto simp: aivm_vm_reset_string_intern_index_def index_ok_def)
  obtain ok vm1 where r: "string_intern_resize alloc ?vm0 (length blocks * 2) = (ok, vm1)"
    by fastforce
  then have i: "index_ok vm1" "reindexed vm vm1"
    using resize_keeps_index [OF _ reset(1)] reset(2) reindexed_trans by blast+
  have "index_ok (insert_blocks blocks vm1) \<and> reindexed vm1 (insert_blocks blocks vm1)"
    using arena_blocks_start [OF blocks] reindexed_arena [OF i(2)] by (intro insert_blocks_keeps_index [OF i(1)]) fastforce
  then show ?thesis
    using reset i reindexed_trans [OF i(2)]
    by (auto simp: aivm_vm_rebuild_string_intern_index_def blocks Let_def r split: bool.splits)
qed

lemma intern_lookup_sound:
  assumes "\<And>e. e \<in> set (vm_string_intern_entries vm) \<Longrightarrow> entry_ok (vm_string_arena vm) e"
    and "\<exists>k < 64. length (vm_string_intern_entries vm) = 2 ^ k" and "slot < length (vm_string_intern_entries vm)"
    and "intern_lookup_loop probes vm input hash slot = Some off"
  shows "block_start (vm_string_arena vm) off \<and> c_string (drop off (vm_string_arena vm)) = input"
  using assms(3,4)
proof (induction probes arbitrary: slot)
  case (Suc probes)
  let ?e = "vm_string_intern_entries vm ! slot"
  have next_slot: "next_intern_slot slot (length (vm_string_intern_entries vm)) < length (vm_string_intern_entries vm)"
    using assms(2) intern_slot_less(2) by metis
  have ok: "entry_ok (vm_string_arena vm) ?e"
    using assms(1) Suc.prems(1) by simp
  show ?case
  proof (cases "intern_hash ?e \<noteq> 0 \<and> intern_hash ?e = hash \<and> intern_length ?e = length input \<and>
      take (length input) (drop (intern_offset ?e) (vm_string_arena vm)) = input")
    case True
    then have "off = intern_offset ?e"
      using Suc.prems(2) by (auto simp: Let_def split: if_splits)
    moreover have "length (c_string (drop (intern_offset ?e) (vm_string_arena vm))) = length input"
      using ok True by (auto simp: entry_ok_def)
    then have "c_string (drop (intern_offset ?e) (vm_string_arena vm)) = input"
      using True by (metis c_string_take)
    ultimately show ?thesis
      using ok True by (auto simp: entry_ok_def)
  next
    case False
    then have "intern_lookup_loop probes vm input hash (next_intern_slot slot (length (vm_string_intern_entries vm))) = Some off"
      using Suc.prems(2) by (auto simp: Let_def split: if_splits)
    then show ?thesis
      using Suc.IH next_slot by blast
  qed
qed simp

text \<open>A text the index answers is a text of the arena with the requested contents.\<close>

lemma lookup_index_sound:
  assumes "index_ok vm" and "lookup_string_in_index vm input = Some off"
  shows "block_start (vm_string_arena vm) off" and "c_string (drop off (vm_string_arena vm)) = input"
proof -
  have c: "vm_string_intern_entries vm \<noteq> []" "intern_lookup_loop (length (vm_string_intern_entries vm)) vm input (string_hash input)
      (string_intern_slot (string_hash input) (length (vm_string_intern_entries vm))) = Some off"
    using assms(2) by (auto simp: lookup_string_in_index_def Let_def split: if_splits)
  then obtain k where k: "k < 64" "length (vm_string_intern_entries vm) = 2 ^ k"
    using assms(1) by (auto simp: index_ok_def)
  have "block_start (vm_string_arena vm) off \<and> c_string (drop off (vm_string_arena vm)) = input"
  proof (rule intern_lookup_sound [OF _ _ _ c(2)])
    show "string_intern_slot (string_hash input) (length (vm_string_intern_entries vm)) < length (vm_string_intern_entries vm)"
      by (rule intern_slot_less(1) [OF k(2,1)])
  qed (use assms(1) k in \<open>auto simp: index_ok_def\<close>)
  then show "block_start (vm_string_arena vm) off" "c_string (drop off (vm_string_arena vm)) = input"
    by simp_all
qed

end
