(* ===== verification/String_Compaction.thy ===== *)
theory String_Compaction
  imports Relocation String_Intern
begin

text \<open>
  Compaction of the string arena (\<open>aivm_compact_string_arena\<close>, \<^verbatim>\<open>src/src/aivm_vm.c\<close>): the texts the roots, the
  reachable pairs and the reachable nodes point to are copied into a new block, equal texts once, and the
  pointers follow. The new block replaces the old one, which is released: pointers that were not
  moved are then dangling (\<open>CFreed\<close>). When the compaction fails the new block is released, with the pointers
  that were moved already.
\<close>

section \<open>Copying texts\<close>

definition compact_lookup_or_copy_string :: "string \<Rightarrow> string \<Rightarrow> nat \<Rightarrow> (nat \<times> string) option" where
  "compact_lookup_or_copy_string str new_arena capacity =
     (case find_block new_arena 0 str of
        Some offset \<Rightarrow> Some (offset, new_arena)
      | None \<Rightarrow>
          (case aivm_size_add_checked (length str) 1 of
             None \<Rightarrow> None
           | Some len \<Rightarrow>
               (case aivm_size_add_checked (length new_arena) len of
                  None \<Rightarrow> None
                | Some offset \<Rightarrow>
                    if offset > capacity then None
                    else Some (length new_arena, new_arena @ str @ [CHR 0x00]))))"

text \<open>The pointer a slot gets for an offset of the new block is an argument: it is the new arena, or freed memory.\<close>

definition compact_relocate_string_ptr ::
  "(nat \<Rightarrow> cptr) \<Rightarrow> string \<Rightarrow> nat \<Rightarrow> cptr \<Rightarrow> string \<Rightarrow> cptr \<times> string option" where
  "compact_relocate_string_ptr place arena capacity p new_arena =
     (case p of
        CArena off \<Rightarrow>
          if off < length arena then
            (case compact_lookup_or_copy_string (c_string (drop off arena)) new_arena capacity of
               None \<Rightarrow> (p, None)
             | Some (offset, new_arena) \<Rightarrow> (place offset, Some new_arena))
          else (p, Some new_arena)
      | _ \<Rightarrow> (p, Some new_arena))"

definition compact_relocate_value_string ::
  "(nat \<Rightarrow> cptr) \<Rightarrow> string \<Rightarrow> nat \<Rightarrow> AivmValue \<Rightarrow> string \<Rightarrow> AivmValue \<times> string option" where
  "compact_relocate_value_string place arena capacity v new_arena =
     (case v of
        ValString p \<Rightarrow>
          (case compact_relocate_string_ptr place arena capacity p new_arena of (p, r) \<Rightarrow> (ValString p, r))
      | _ \<Rightarrow> (v, Some new_arena))"

section \<open>Nodes\<close>

text \<open>A loop of steps that change a state; it is left at the first failure with the state of that moment.\<close>

fun steps :: "('v \<Rightarrow> 's \<Rightarrow> 's \<times> 'e option) \<Rightarrow> 'v list \<Rightarrow> 's \<Rightarrow> 's \<times> 'e option" where
  "steps f [] s = (s, None)"
| "steps f (v # vs) s = (case f v s of (s, Some e) \<Rightarrow> (s, Some e) | (s, None) \<Rightarrow> steps f vs s)"

definition arena_exceeded :: "AivmVmError \<times> string" where
  "arena_exceeded = (AIVM_VM_ERR_MEMORY_PRESSURE, ''AIVMM001: string arena capacity exceeded.'')"

definition relocate_attr ::
  "(cptr \<Rightarrow> 's \<Rightarrow> cptr \<times> 's option) \<Rightarrow> cptr AivmNodeAttr \<Rightarrow> 's \<Rightarrow> cptr AivmNodeAttr \<times> 's option" where
  "relocate_attr f attr s =
     (case f (attr_key attr) s of
        (key, None) \<Rightarrow> (NodeAttr key (attr_value attr), None)
      | (key, Some s) \<Rightarrow>
          (case attr_value attr of
             AIVM_NODE_ATTR_IDENTIFIER p \<Rightarrow> (case f p s of (p, r) \<Rightarrow> (NodeAttr key (AIVM_NODE_ATTR_IDENTIFIER p), r))
           | AIVM_NODE_ATTR_STRING p \<Rightarrow> (case f p s of (p, r) \<Rightarrow> (NodeAttr key (AIVM_NODE_ATTR_STRING p), r))
           | v \<Rightarrow> (NodeAttr key v, Some s)))"

text \<open>The nodes, the attributes, the attribute slots that were moved, and the new arena. A slot that was moved
  does not point into the old arena any more and is left alone when another node has it too.\<close>

type_synonym node_relocation = "AivmNodeRecord list \<times> cptr AivmNodeAttr list \<times> nat set \<times> string"

definition relocate_attr_slot ::
  "(cptr \<Rightarrow> string \<Rightarrow> cptr \<times> string option) \<Rightarrow> nat \<Rightarrow> AivmNodeRecord \<Rightarrow> nat \<Rightarrow> node_relocation \<Rightarrow>
   node_relocation \<times> (AivmVmError \<times> string) option" where
  "relocate_attr_slot f attr_capacity node attr_i s =
     (case s of (nodes, attrs, seen, new_arena) \<Rightarrow>
        case aivm_size_add_checked (node_attr_start node) attr_i of
          None \<Rightarrow> (s, Some (AIVM_VM_ERR_MEMORY_PRESSURE, ''AIVMM004: node attr slot overflow during string compaction.''))
        | Some attr_slot \<Rightarrow>
            if attr_slot \<ge> attr_capacity
            then (s, Some (AIVM_VM_ERR_MEMORY_PRESSURE, ''AIVMM004: node attr slot overflow during string compaction.''))
            else if attr_slot \<ge> length attrs \<or> attr_slot \<in> seen then (s, None)
            else case relocate_attr f (attrs ! attr_slot) new_arena of
              (attr, None) \<Rightarrow> ((nodes, attrs[attr_slot := attr], seen, new_arena), Some arena_exceeded)
            | (attr, Some new_arena) \<Rightarrow> ((nodes, attrs[attr_slot := attr], insert attr_slot seen, new_arena), None))"

definition relocate_node ::
  "(cptr \<Rightarrow> string \<Rightarrow> cptr \<times> string option) \<Rightarrow> nat \<Rightarrow> (nat \<Rightarrow> bool) \<Rightarrow> nat \<Rightarrow> node_relocation \<Rightarrow>
   node_relocation \<times> (AivmVmError \<times> string) option" where
  "relocate_node f attr_capacity live i s =
     (case s of (nodes, attrs, seen, new_arena) \<Rightarrow>
        if \<not> live i then (s, None)
        else
          let node = nodes ! i in
          case f (node_kind node) new_arena of
            (kind, None) \<Rightarrow> ((nodes[i := node\<lparr>node_kind := kind\<rparr>], attrs, seen, new_arena), Some arena_exceeded)
          | (kind, Some new_arena) \<Rightarrow>
              (case f (node_id node) new_arena of
                 (ident, None) \<Rightarrow>
                   ((nodes[i := node\<lparr>node_kind := kind, node_id := ident\<rparr>], attrs, seen, new_arena), Some arena_exceeded)
               | (ident, Some new_arena) \<Rightarrow>
                   steps (relocate_attr_slot f attr_capacity node) [0..<node_attr_count node]
                     (nodes[i := node\<lparr>node_kind := kind, node_id := ident\<rparr>], attrs, seen, new_arena)))"

section \<open>The compaction\<close>

text \<open>All relocations, in the order of the code: the machine with the moved pointers, and the new arena with the
  attribute slots that were moved.\<close>

definition relocate_strings ::
  "(nat \<Rightarrow> cptr) \<Rightarrow> (nat \<Rightarrow> bool) \<Rightarrow> (nat \<Rightarrow> bool) \<Rightarrow> 'a heap_vm \<Rightarrow>
   'a heap_vm \<times> ((AivmVmError \<times> string) + (string \<times> nat set))" where
  "relocate_strings place live live_pairs vm =
     (let f = compact_relocate_string_ptr place (vm_string_arena vm) (vm_string_arena_capacity vm);
          fv = compact_relocate_value_string place (vm_string_arena vm) (vm_string_arena_capacity vm) in
      case traverse_roots fv vm [] of
        (vm, Inl _) \<Rightarrow> (vm, Inl arena_exceeded)
      | (vm, Inr new_arena) \<Rightarrow>
          (case traverse (visit_live_pair fv live_pairs) (enumerate 0 (vm_scratch_pairs vm)) new_arena of (pairs, r) \<Rightarrow>
             let vm = vm\<lparr>vm_scratch_pairs := map snd pairs\<rparr> in
             case r of
               None \<Rightarrow> (vm, Inl arena_exceeded)
             | Some new_arena \<Rightarrow>
                 (case steps (relocate_node f (vm_node_attr_capacity vm) live) [0..<vm_node_count vm]
                         (vm_nodes vm, vm_node_attrs vm, {}, new_arena) of
                    ((nodes, attrs, seen, new_arena), e) \<Rightarrow>
                      let vm = vm\<lparr>vm_nodes := nodes, vm_node_attrs := attrs\<rparr> in
                      (case e of Some err \<Rightarrow> (vm, Inl err) | None \<Rightarrow> (vm, Inr (new_arena, seen))))))"

definition free_ptr :: "cptr \<Rightarrow> cptr" where
  "free_ptr p = (case p of CArena _ \<Rightarrow> CFreed | _ \<Rightarrow> p)"

definition free_value :: "AivmValue \<Rightarrow> AivmValue" where
  "free_value v = (case v of ValString p \<Rightarrow> ValString (free_ptr p) | _ \<Rightarrow> v)"

definition free_pair :: "AivmScratchPair \<Rightarrow> AivmScratchPair" where
  "free_pair p = \<lparr>pair_first = free_value (pair_first p), pair_second = free_value (pair_second p)\<rparr>"

definition free_node :: "AivmNodeRecord \<Rightarrow> AivmNodeRecord" where
  "free_node node = node\<lparr>node_kind := free_ptr (node_kind node), node_id := free_ptr (node_id node)\<rparr>"

definition free_builder :: "AivmNodeBuilderRecord \<Rightarrow> AivmNodeBuilderRecord" where
  "free_builder b = b\<lparr>builder_attrs := map (map_AivmNodeAttr free_ptr) (builder_attrs b)\<rparr>"

text \<open>The new block becomes the arena; what the compaction did not visit points into the released one.\<close>

definition install_string_arena ::
  "nat \<Rightarrow> string \<Rightarrow> (nat \<Rightarrow> bool) \<Rightarrow> (nat \<Rightarrow> bool) \<Rightarrow> nat set \<Rightarrow> 'a heap_vm \<Rightarrow> 'a heap_vm" where
  "install_string_arena block new_arena live live_pairs seen vm =
     vm\<lparr>vm_string_arena := new_arena, vm_string_arena_base := block,
        vm_scratch_pairs := map (\<lambda>(i, p). if live_pairs i then p else free_pair p) (enumerate 0 (vm_scratch_pairs vm)),
        vm_nodes := map (\<lambda>(i, node). if live i then node else free_node node) (enumerate 0 (vm_nodes vm)),
        vm_node_attrs := map (\<lambda>(i, attr). if i \<in> seen then attr else map_AivmNodeAttr free_ptr attr)
          (enumerate 0 (vm_node_attrs vm)),
        vm_node_builders := map free_builder (vm_node_builders vm)\<rparr>"

definition aivm_compact_string_arena :: "(nat \<Rightarrow> bool) \<Rightarrow> nat \<Rightarrow> 'a heap_vm \<Rightarrow> bool \<times> 'a heap_vm" where
  "aivm_compact_string_arena alloc block vm =
     (if vm_string_arena_used vm = 0 then (True, vm)
      else if \<not> (alloc (vm_node_capacity vm) \<and> alloc AIVM_VM_SCRATCH_PAIR_CAPACITY \<and> alloc (vm_string_arena_capacity vm))
      then (False, aivm_set_vm_error vm AIVM_VM_ERR_MEMORY_PRESSURE
              ''AIVMM001: string arena compaction workspace allocation failed.'')
      else
        case aivm_vm_mark_live_node_handles alloc vm [] of
          (None, vm) \<Rightarrow> (False, vm)
        | (Some live, vm) \<Rightarrow>
            (case aivm_vm_mark_live_scratch_pair_handles alloc vm of
               (None, vm) \<Rightarrow> (False, vm)
             | (Some live_pairs, vm) \<Rightarrow>
                 (case relocate_strings CArena live live_pairs vm of
                    (_, Inl (err, detail)) \<Rightarrow>
                      (False, aivm_set_vm_error (fst (relocate_strings (\<lambda>_. CFreed) live live_pairs vm)) err detail)
                  | (vm, Inr (new_arena, seen)) \<Rightarrow>
                      (True, aivm_vm_rebuild_string_intern_index alloc
                         (install_string_arena block new_arena live live_pairs seen vm)))))"

section \<open>Texts of the new arena\<close>

text \<open>The texts of an arena as a list.\<close>

function arena_texts :: "string \<Rightarrow> string list" where
  "arena_texts arena = (if arena = [] then [] else c_string arena # arena_texts (drop (length (c_string arena) + 1) arena))"
  by pat_completeness auto

termination
  by (relation "measure length") auto

declare arena_texts.simps [simp del]

lemma arena_texts_Nil [simp]: "arena_texts [] = []"
  by (simp add: arena_texts.simps)

lemma arena_texts_block: "CHR 0x00 \<notin> set str \<Longrightarrow> arena_texts (str @ CHR 0x00 # rest) = str # arena_texts rest"
  by (simp add: arena_texts.simps [of "str @ CHR 0x00 # rest"] c_string_append_zero)

lemma terminated_induct [consumes 1, case_names Nil block]:
  assumes "terminated arena" and "P []"
    and "\<And>str rest. CHR 0x00 \<notin> set str \<Longrightarrow> terminated rest \<Longrightarrow> P rest \<Longrightarrow> P (str @ CHR 0x00 # rest)"
  shows "P arena"
  using assms(1)
proof (induction arena rule: arena_texts.induct)
  case (1 arena)
  show ?case
  proof (cases "arena = []")
    case False
    note split = c_string_split [OF "1.prems" False]
    have "P (drop (length (c_string arena) + 1) arena)"
      using "1.IH" [OF False split(3)] .
    then show ?thesis
      using assms(3) [OF c_string_no_zero split(3)] split(1) by metis
  qed (simp add: assms(2))
qed

lemma arena_texts_append:
  "terminated arena \<Longrightarrow> CHR 0x00 \<notin> set str \<Longrightarrow> arena_texts (arena @ str @ [CHR 0x00]) = arena_texts arena @ [str]"
  by (induction arena rule: terminated_induct) (simp_all add: arena_texts_block)

lemma arena_texts_length: "terminated arena \<Longrightarrow> length arena = sum_list (map (\<lambda>str. length str + 1) (arena_texts arena))"
  by (induction arena rule: terminated_induct) (simp_all add: arena_texts_block)

lemma find_block_texts: "terminated arena \<Longrightarrow> find_block arena base str = None \<longleftrightarrow> str \<notin> set (arena_texts arena)"
proof (induction arena arbitrary: base rule: terminated_induct)
  case (block s rest)
  then show ?case
    by (simp add: find_block.simps [of "s @ CHR 0x00 # rest"] c_string_append_zero arena_texts_block)
qed (simp add: find_block.simps)

lemma block_start_text: "terminated arena \<Longrightarrow> block_start arena off \<Longrightarrow> c_string (drop off arena) \<in> set (arena_texts arena)"
  using find_block_None [of arena off _ 0] find_block_texts by blast

lemma sum_set_le_sum_list: "sum w (set xs) \<le> (sum_list (map w xs) :: nat)"
  by (induction xs) (auto simp: sum.insert_if)

lemma distinct_texts_length:
  assumes "terminated new" and "terminated arena" and "distinct (arena_texts new)" and "set (arena_texts new) \<subseteq> set (arena_texts arena)"
  shows "length new \<le> length arena"
proof -
  let ?w = "\<lambda>str :: string. length str + 1"
  have "sum_list (map ?w (arena_texts new)) = sum ?w (set (arena_texts new))"
    using assms(3) by (simp add: sum_list_distinct_conv_sum_set)
  also have "\<dots> \<le> sum ?w (set (arena_texts arena))"
    using assms(4) by (intro sum_mono2) auto
  also have "\<dots> \<le> sum_list (map ?w (arena_texts arena))"
    by (rule sum_set_le_sum_list)
  finally show ?thesis
    using arena_texts_length [OF assms(1)] arena_texts_length [OF assms(2)] by simp
qed

section \<open>Relocation of pointers\<close>

text \<open>The old arena and the capacity; a new arena holds texts of the old one, each once.\<close>

type_synonym string_source = "string \<times> nat"

definition source_ok :: "string_source \<Rightarrow> bool" where
  "source_ok h \<longleftrightarrow> terminated (fst h) \<and> length (fst h) \<le> snd h \<and> snd h \<le> SIZE_MAX"

definition new_arena_ok :: "string_source \<Rightarrow> string \<Rightarrow> bool" where
  "new_arena_ok h new \<longleftrightarrow>
     source_ok h \<and> terminated new \<and> distinct (arena_texts new) \<and> set (arena_texts new) \<subseteq> set (arena_texts (fst h))"

definition extends :: "string \<Rightarrow> string \<Rightarrow> bool" where
  "extends new new' \<longleftrightarrow> (\<exists>t. new' = new @ t)"

definition ptr_moved :: "string_source \<Rightarrow> string \<Rightarrow> cptr \<Rightarrow> cptr \<Rightarrow> bool" where
  "ptr_moved h new p p' \<longleftrightarrow>
     (case p of
        CArena off \<Rightarrow> \<exists>o'. p' = CArena o' \<and> block_start new o' \<and> c_string (drop o' new) = c_string (drop off (fst h))
      | _ \<Rightarrow> p' = p)"

definition text_moved :: "string_source \<Rightarrow> string \<Rightarrow> AivmValue \<Rightarrow> AivmValue \<Rightarrow> bool" where
  "text_moved h new v v' \<longleftrightarrow>
     (case v of ValString p \<Rightarrow> \<exists>p'. v' = ValString p' \<and> ptr_moved h new p p' | _ \<Rightarrow> v' = v)"

definition movable :: "string_source \<Rightarrow> AivmValue \<Rightarrow> bool" where
  "movable h v \<longleftrightarrow> (case v of ValString p \<Rightarrow> cstring_ok (fst h) p | _ \<Rightarrow> True)"

definition relocate_text :: "string_source \<Rightarrow> AivmValue \<Rightarrow> string \<Rightarrow> AivmValue \<times> string option" where
  "relocate_text h = compact_relocate_value_string CArena (fst h) (snd h)"

lemma ptr_moved_mono: "terminated new \<Longrightarrow> extends new new' \<Longrightarrow> ptr_moved h new p p' \<Longrightarrow> ptr_moved h new' p p'"
  using block_append [of new] by (cases p) (auto simp: ptr_moved_def extends_def simp del: drop_append)

lemma lookup_or_copy_moves:
  assumes "new_arena_ok h new" and "block_start (fst h) off"
  shows "\<exists>o' new'. compact_lookup_or_copy_string (c_string (drop off (fst h))) new (snd h) = Some (o', new') \<and>
    new_arena_ok h new' \<and> extends new new' \<and> block_start new' o' \<and> c_string (drop o' new') = c_string (drop off (fst h))"
proof -
  let ?str = "c_string (drop off (fst h))"
  have h: "terminated (fst h)" "length (fst h) \<le> snd h" "snd h \<le> SIZE_MAX" and new: "terminated new"
    using assms(1) by (simp_all add: new_arena_ok_def source_ok_def)
  show ?thesis
  proof (cases "find_block new 0 ?str")
    case (Some o')
    then show ?thesis
      using assms(1) find_block_Some [OF Some] by (simp add: compact_lookup_or_copy_string_def extends_def)
  next
    case None
    let ?new = "new @ ?str @ [CHR 0x00]"
    have str: "CHR 0x00 \<notin> set ?str"
      by simp
    note texts = arena_texts_append [OF new str] and block = block_append_new [OF new str]
    have ok: "new_arena_ok h ?new"
      using assms(1) None find_block_texts [OF new] block_start_text [OF h(1) assms(2)] block(3) texts
      by (simp add: new_arena_ok_def)
    then have "length ?new \<le> length (fst h)"
      using h(1) by (intro distinct_texts_length) (simp_all add: new_arena_ok_def)
    then have "length new + (length ?str + 1) \<le> snd h" "length new + (length ?str + 1) \<le> SIZE_MAX"
      using h(2,3) by simp_all
    then have "compact_lookup_or_copy_string ?str new (snd h) = Some (length new, ?new)"
      using None by (simp add: compact_lookup_or_copy_string_def)
    then show ?thesis
      using ok block by (auto simp: extends_def)
  qed
qed

lemma relocate_ptr_moves:
  assumes "new_arena_ok h new" and "cstring_ok (fst h) p"
  shows "\<exists>p' new'. compact_relocate_string_ptr CArena (fst h) (snd h) p new = (p', Some new') \<and>
    new_arena_ok h new' \<and> extends new new' \<and> ptr_moved h new' p p'"
proof (cases p)
  case (CArena off)
  then have off: "block_start (fst h) off" "off < length (fst h)"
    using assms(2) by (simp_all add: cstring_ok_def block_start_def)
  then show ?thesis
    using lookup_or_copy_moves [OF assms(1) off(1)] CArena
    by (fastforce simp: compact_relocate_string_ptr_def ptr_moved_def)
qed (use assms in \<open>simp_all add: compact_relocate_string_ptr_def ptr_moved_def extends_def\<close>)

interpretation string_relocation: total_relocation movable new_arena_ok extends text_moved relocate_text
proof
  show "extends s s" for s
    by (simp add: extends_def)
  show "extends r t" if "extends r s" "extends s t" for r s t
    using that by (auto simp: extends_def)
  show "text_moved h t v v'" if "new_arena_ok h s" "extends s t" "text_moved h s v v'" for h s t v v'
    using that ptr_moved_mono [of s t h] by (auto simp: text_moved_def new_arena_ok_def split: AivmValue.splits)
  have "\<exists>v' t. relocate_text h v s = (v', Some t) \<and> new_arena_ok h t \<and> extends s t \<and> text_moved h t v v'"
    if "new_arena_ok h s" "movable h v" for h s v
  proof (cases "\<exists>p. v = ValString p")
    case True
    then show ?thesis
      using relocate_ptr_moves [OF that(1)] that(2)
      by (fastforce simp: relocate_text_def compact_relocate_value_string_def text_moved_def movable_def)
  next
    case False
    then show ?thesis
      using that(1) by (cases v) (auto simp: relocate_text_def compact_relocate_value_string_def text_moved_def extends_def)
  qed
  then show "new_arena_ok h t \<and> extends s t \<and> text_moved h t v v'"
    if "new_arena_ok h s" "movable h v" "relocate_text h v s = (v', Some t)" for h s v v' t
    using that by fastforce
  show "\<exists>v' t. relocate_text h v s = (v', Some t)" if "new_arena_ok h s" "movable h v" for h s v
    using \<open>\<And>v s h. new_arena_ok h s \<Longrightarrow> movable h v \<Longrightarrow> \<exists>v' t. relocate_text h v s = (v', Some t) \<and> new_arena_ok h t \<and> extends s t \<and> text_moved h t v v'\<close> that by blast
qed

section \<open>Relocation of nodes\<close>

lemma steps_upt:
  assumes "P 0 s" and "\<And>i s. i < n \<Longrightarrow> P i s \<Longrightarrow> \<exists>s'. f i s = (s', None) \<and> P (Suc i) s'"
  shows "\<exists>s'. steps f [0..<n] s = (s', None) \<and> P n s'"
proof -
  have "\<exists>s'. steps f [m..<n] s = (s', None) \<and> P n s'" if "P m s" "m \<le> n" for m s
    using that
  proof (induction "n - m" arbitrary: m s)
    case 0
    then show ?case
      by simp
  next
    case (Suc k)
    then have m: "m < n" "[m..<n] = m # [Suc m..<n]" "k = n - Suc m"
      by (simp_all add: upt_conv_Cons)
    obtain s1 where "f m s = (s1, None)" "P (Suc m) s1"
      using assms(2) [OF m(1) Suc.prems(1)] by blast
    then show ?case
      using Suc.hyps(1) [OF m(3), of s1] m by simp
  qed
  then show ?thesis
    using assms(1) by simp
qed

definition relocate_ptr :: "string_source \<Rightarrow> cptr \<Rightarrow> string \<Rightarrow> cptr \<times> string option" where
  "relocate_ptr h = compact_relocate_string_ptr CArena (fst h) (snd h)"

lemma relocate_attr_moves:
  assumes "new_arena_ok h new" and "\<And>p. p \<in> set_AivmNodeAttr a \<Longrightarrow> cstring_ok (fst h) p"
  shows "\<exists>a' new'. relocate_attr (relocate_ptr h) a new = (a', Some new') \<and> new_arena_ok h new' \<and> extends new new' \<and>
    rel_AivmNodeAttr (ptr_moved h new') a a'"
proof -
  obtain key v where a: "a = NodeAttr key v"
    by (cases a)
  obtain k' new1 where 1: "relocate_ptr h key new = (k', Some new1)" "new_arena_ok h new1" "extends new new1" "ptr_moved h new1 key k'"
    using relocate_ptr_moves [OF assms(1), of key] assms(2) a by (auto simp: relocate_ptr_def)
  have moves: "\<exists>p' new2. relocate_ptr h p new1 = (p', Some new2) \<and> new_arena_ok h new2 \<and> extends new new2 \<and>
      ptr_moved h new2 p p' \<and> ptr_moved h new2 key k'" if p: "p \<in> set_AivmNodeAttr a" for p
  proof -
    obtain p' new2 where 2: "relocate_ptr h p new1 = (p', Some new2)" "new_arena_ok h new2" "extends new1 new2" "ptr_moved h new2 p p'"
      using relocate_ptr_moves [OF 1(2) assms(2) [OF p]] by (auto simp: relocate_ptr_def)
    moreover have "extends new new2" "ptr_moved h new2 key k'"
      using string_relocation.le_trans [OF 1(3) 2(3)] ptr_moved_mono [OF _ 2(3) 1(4)] 1(2) by (auto simp: new_arena_ok_def)
    ultimately show ?thesis
      by blast
  qed
  show ?thesis
  proof (cases v)
    case (AIVM_NODE_ATTR_IDENTIFIER p)
    then show ?thesis
      using moves [of p] 1(1) by (auto simp: a relocate_attr_def)
  next
    case (AIVM_NODE_ATTR_STRING p)
    then show ?thesis
      using moves [of p] 1(1) by (auto simp: a relocate_attr_def)
  qed (use 1 in \<open>auto simp: a relocate_attr_def\<close>)
qed

text \<open>Which attribute slots were moved, and the others unchanged.\<close>

definition attrs_moved :: "string_source \<Rightarrow> cptr AivmNodeAttr list \<Rightarrow> nat set \<Rightarrow> cptr AivmNodeAttr list \<Rightarrow> string \<Rightarrow> bool" where
  "attrs_moved h attrs0 seen attrs new \<longleftrightarrow>
     new_arena_ok h new \<and> length attrs = length attrs0 \<and>
     (\<forall>k < length attrs0. if k \<in> seen then rel_AivmNodeAttr (ptr_moved h new) (attrs0 ! k) (attrs ! k)
        else attrs ! k = attrs0 ! k)"

lemma attr_rel_mono:
  assumes "terminated new" and "extends new new'" and "rel_AivmNodeAttr (ptr_moved h new) a a'"
  shows "rel_AivmNodeAttr (ptr_moved h new') a a'"
  using assms(3) by (rule AivmNodeAttr.rel_mono_strong) (rule ptr_moved_mono [OF assms(1,2)])

lemma attrs_moved_mono:
  assumes "attrs_moved h attrs0 seen attrs new" and "extends new new'" and "new_arena_ok h new'"
  shows "attrs_moved h attrs0 seen attrs new'"
proof -
  have "terminated new"
    using assms(1) by (simp add: attrs_moved_def new_arena_ok_def)
  then show ?thesis
    using assms attr_rel_mono [of new new' h] by (auto simp: attrs_moved_def)
qed

definition attr_slots :: "AivmNodeRecord \<Rightarrow> nat set" where
  "attr_slots node = {node_attr_start node..<node_attr_start node + node_attr_count node}"

lemma attr_slot_moves:
  assumes "attrs_moved h attrs0 seen attrs new" and "slot = node_attr_start node + i" and "slot < length attrs0"
    and "length attrs0 \<le> attr_capacity" and "attr_capacity \<le> SIZE_MAX"
    and "\<And>p. p \<in> set_AivmNodeAttr (attrs0 ! slot) \<Longrightarrow> cstring_ok (fst h) p"
  shows "\<exists>attrs' new'. relocate_attr_slot (relocate_ptr h) attr_capacity node i (nodes, attrs, seen, new) =
      ((nodes, attrs', insert slot seen, new'), None) \<and>
    attrs_moved h attrs0 (insert slot seen) attrs' new' \<and> extends new new'"
proof -
  have size: "aivm_size_add_checked (node_attr_start node) i = Some slot" "\<not> slot \<ge> attr_capacity" "\<not> slot \<ge> length attrs"
    using assms by (simp_all add: attrs_moved_def)
  show ?thesis
  proof (cases "slot \<in> seen")
    case True
    then show ?thesis
      unfolding relocate_attr_slot_def prod.case size(1) option.case
      using size(2,3) assms(1) string_relocation.le_refl by (auto simp: insert_absorb)
  next
    case False
    have same: "attrs ! slot = attrs0 ! slot" and new: "new_arena_ok h new" "terminated new"
      using assms(1,3) False by (auto simp: attrs_moved_def new_arena_ok_def)
    obtain a' new' where a': "relocate_attr (relocate_ptr h) (attrs ! slot) new = (a', Some new')" "new_arena_ok h new'"
      "extends new new'" "rel_AivmNodeAttr (ptr_moved h new') (attrs0 ! slot) a'"
      using relocate_attr_moves [OF new(1)] assms(6) unfolding same by blast
    have "attrs_moved h attrs0 (insert slot seen) (attrs[slot := a']) new'"
      using attrs_moved_mono [OF assms(1) a'(3,2)] a'(4) assms(3) by (auto simp: attrs_moved_def nth_list_update)
    then show ?thesis
      unfolding relocate_attr_slot_def prod.case size(1) option.case
      using size(2,3) False a'(1,3) by auto
  qed
qed

lemma node_attrs_move:
  assumes "attrs_moved h attrs0 seen attrs new" and "attr_slots node \<subseteq> {..<length attrs0}"
    and "length attrs0 \<le> attr_capacity" and "attr_capacity \<le> SIZE_MAX"
    and "\<And>k p. k \<in> attr_slots node \<Longrightarrow> p \<in> set_AivmNodeAttr (attrs0 ! k) \<Longrightarrow> cstring_ok (fst h) p"
  shows "\<exists>attrs' seen' new'. steps (relocate_attr_slot (relocate_ptr h) attr_capacity node) [0..<node_attr_count node]
      (nodes, attrs, seen, new) = ((nodes, attrs', seen', new'), None) \<and>
    attrs_moved h attrs0 seen' attrs' new' \<and> extends new new' \<and> seen' = seen \<union> attr_slots node"
proof -
  let ?P = "\<lambda>m s. \<exists>attrs' new'. s = (nodes, attrs', seen \<union> {node_attr_start node..<node_attr_start node + m}, new') \<and>
    attrs_moved h attrs0 (seen \<union> {node_attr_start node..<node_attr_start node + m}) attrs' new' \<and> extends new new'"
  have "\<exists>s'. steps (relocate_attr_slot (relocate_ptr h) attr_capacity node) [0..<node_attr_count node]
      (nodes, attrs, seen, new) = (s', None) \<and> ?P (node_attr_count node) s'"
  proof (rule steps_upt)
    show "?P 0 (nodes, attrs, seen, new)"
      using assms(1) string_relocation.le_refl by simp
    fix i s
    assume i: "i < node_attr_count node" and "?P i s"
    then obtain attrs1 new1 where s: "s = (nodes, attrs1, seen \<union> {node_attr_start node..<node_attr_start node + i}, new1)"
      and m: "attrs_moved h attrs0 (seen \<union> {node_attr_start node..<node_attr_start node + i}) attrs1 new1" "extends new new1"
      by blast
    have slot: "node_attr_start node + i \<in> attr_slots node"
      using i by (simp add: attr_slots_def)
    have ins: "insert (node_attr_start node + i) (seen \<union> {node_attr_start node..<node_attr_start node + i}) =
        seen \<union> {node_attr_start node..<node_attr_start node + Suc i}"
      by auto
    obtain attrs2 new2 where "relocate_attr_slot (relocate_ptr h) attr_capacity node i s =
        ((nodes, attrs2, seen \<union> {node_attr_start node..<node_attr_start node + Suc i}, new2), None)"
      "attrs_moved h attrs0 (seen \<union> {node_attr_start node..<node_attr_start node + Suc i}) attrs2 new2" "extends new1 new2"
      using attr_slot_moves [where nodes = nodes and node = node and i = i, OF m(1) HOL.refl _ assms(3,4)] assms(5) [OF slot] slot assms(2)
      unfolding s ins by blast
    then show "\<exists>s'. relocate_attr_slot (relocate_ptr h) attr_capacity node i s = (s', None) \<and> ?P (Suc i) s'"
      using string_relocation.le_trans [OF m(2)] by blast
  qed
  then show ?thesis
    by (auto simp: attr_slots_def)
qed

definition node_moved :: "string_source \<Rightarrow> string \<Rightarrow> AivmNodeRecord \<Rightarrow> AivmNodeRecord \<Rightarrow> bool" where
  "node_moved h new node node' \<longleftrightarrow>
     (\<exists>kind ident. node' = node\<lparr>node_kind := kind, node_id := ident\<rparr> \<and>
        ptr_moved h new (node_kind node) kind \<and> ptr_moved h new (node_id node) ident)"

definition nodes_moved :: "string_source \<Rightarrow> AivmNodeRecord list \<Rightarrow> (nat \<Rightarrow> bool) \<Rightarrow> nat \<Rightarrow> AivmNodeRecord list \<Rightarrow> string \<Rightarrow> bool" where
  "nodes_moved h nodes0 live m nodes new \<longleftrightarrow>
     length nodes = length nodes0 \<and>
     (\<forall>j < length nodes0. if j < m \<and> live j then node_moved h new (nodes0 ! j) (nodes ! j) else nodes ! j = nodes0 ! j)"

lemma node_moved_mono: "terminated new \<Longrightarrow> extends new new' \<Longrightarrow> node_moved h new node node' \<Longrightarrow> node_moved h new' node node'"
  using ptr_moved_mono [of new new' h] unfolding node_moved_def by blast

lemma nodes_moved_mono:
  "nodes_moved h nodes0 live m nodes new \<Longrightarrow> terminated new \<Longrightarrow> extends new new' \<Longrightarrow> nodes_moved h nodes0 live m nodes new'"
  using node_moved_mono [of new new' h] by (auto simp: nodes_moved_def)

lemma node_moves:
  assumes nodes: "nodes_moved h nodes0 live i nodes new" and attrs: "attrs_moved h attrs0 seen attrs new" and i: "i < length nodes0"
    and texts: "live i \<Longrightarrow> cstring_ok (fst h) (node_kind (nodes0 ! i)) \<and> cstring_ok (fst h) (node_id (nodes0 ! i))"
    and slots: "attr_slots (nodes0 ! i) \<subseteq> {..<length attrs0}"
    and capacity: "length attrs0 \<le> attr_capacity" "attr_capacity \<le> SIZE_MAX"
    and attr_texts: "\<And>k p. live i \<Longrightarrow> k \<in> attr_slots (nodes0 ! i) \<Longrightarrow> p \<in> set_AivmNodeAttr (attrs0 ! k) \<Longrightarrow> cstring_ok (fst h) p"
  shows "\<exists>nodes' attrs' seen' new'. relocate_node (relocate_ptr h) attr_capacity live i (nodes, attrs, seen, new) =
      ((nodes', attrs', seen', new'), None) \<and> nodes_moved h nodes0 live (Suc i) nodes' new' \<and>
    attrs_moved h attrs0 seen' attrs' new' \<and> extends new new' \<and> seen \<subseteq> seen' \<and> (live i \<longrightarrow> attr_slots (nodes0 ! i) \<subseteq> seen')"
proof (cases "live i")
  case True
  let ?node = "nodes0 ! i"
  have node: "nodes ! i = ?node" "i < length nodes" and new: "new_arena_ok h new"
    using nodes i attrs by (auto simp: nodes_moved_def attrs_moved_def)
  obtain kind new1 where 1: "relocate_ptr h (node_kind ?node) new = (kind, Some new1)" "new_arena_ok h new1" "extends new new1"
    "ptr_moved h new1 (node_kind ?node) kind"
    using relocate_ptr_moves [OF new, of "node_kind ?node"] texts [OF True] by (auto simp: relocate_ptr_def)
  obtain ident new2 where 2: "relocate_ptr h (node_id ?node) new1 = (ident, Some new2)" "new_arena_ok h new2" "extends new1 new2"
    "ptr_moved h new2 (node_id ?node) ident"
    using relocate_ptr_moves [OF 1(2), of "node_id ?node"] texts [OF True] by (auto simp: relocate_ptr_def)
  let ?nodes = "nodes[i := ?node\<lparr>node_kind := kind, node_id := ident\<rparr>]"
  have ext2: "extends new new2"
    using string_relocation.le_trans [OF 1(3) 2(3)] .
  have m2: "attrs_moved h attrs0 seen attrs new2"
    using attrs_moved_mono [OF attrs ext2 2(2)] .
  obtain attrs' seen' new' where 3: "steps (relocate_attr_slot (relocate_ptr h) attr_capacity ?node) [0..<node_attr_count ?node]
      (?nodes, attrs, seen, new2) = ((?nodes, attrs', seen', new'), None)" "attrs_moved h attrs0 seen' attrs' new'"
    "extends new2 new'" "seen' = seen \<union> attr_slots ?node"
    using node_attrs_move [where nodes = ?nodes, OF m2 slots capacity] attr_texts [OF True] by blast
  have kind: "ptr_moved h new2 (node_kind ?node) kind"
    using ptr_moved_mono [OF _ 2(3) 1(4)] 1(2) by (simp add: new_arena_ok_def)
  have "nodes_moved h nodes0 live i nodes new2"
    using nodes_moved_mono [OF nodes _ ext2] new by (simp add: new_arena_ok_def)
  moreover have "node_moved h new2 ?node (?node\<lparr>node_kind := kind, node_id := ident\<rparr>)"
    using kind 2(4) by (auto simp: node_moved_def)
  ultimately have "nodes_moved h nodes0 live (Suc i) ?nodes new2"
    using node(2) True by (auto simp: nodes_moved_def nth_list_update less_Suc_eq)
  then have "nodes_moved h nodes0 live (Suc i) ?nodes new'"
    using nodes_moved_mono [OF _ _ 3(3)] 2(2) by (simp add: new_arena_ok_def)
  moreover have "relocate_node (relocate_ptr h) attr_capacity live i (nodes, attrs, seen, new) = ((?nodes, attrs', seen', new'), None)"
    using True node(1) 1(1) 2(1) 3(1) by (simp add: relocate_node_def Let_def)
  ultimately show ?thesis
    using 3(2,4) string_relocation.le_trans [OF ext2 3(3)] by auto
next
  case False
  then have "nodes_moved h nodes0 live (Suc i) nodes new"
    using nodes by (auto simp: nodes_moved_def less_Suc_eq)
  then show ?thesis
    using False attrs string_relocation.le_refl by (auto simp: relocate_node_def)
qed

text \<open>What the relocation of the nodes needs of them.\<close>

definition nodes_movable :: "string_source \<Rightarrow> AivmNodeRecord list \<Rightarrow> cptr AivmNodeAttr list \<Rightarrow> (nat \<Rightarrow> bool) \<Rightarrow> bool" where
  "nodes_movable h nodes attrs live \<longleftrightarrow>
     (\<forall>i < length nodes. attr_slots (nodes ! i) \<subseteq> {..<length attrs} \<and>
        (live i \<longrightarrow> cstring_ok (fst h) (node_kind (nodes ! i)) \<and> cstring_ok (fst h) (node_id (nodes ! i)) \<and>
          (\<forall>k \<in> attr_slots (nodes ! i). \<forall>p \<in> set_AivmNodeAttr (attrs ! k). cstring_ok (fst h) p)))"

lemma nodes_move:
  assumes "new_arena_ok h new" and "nodes_movable h nodes0 attrs0 live" and "length attrs0 \<le> attr_capacity" and "attr_capacity \<le> SIZE_MAX"
  shows "\<exists>nodes attrs seen new'. steps (relocate_node (relocate_ptr h) attr_capacity live) [0..<length nodes0]
      (nodes0, attrs0, {}, new) = ((nodes, attrs, seen, new'), None) \<and>
    nodes_moved h nodes0 live (length nodes0) nodes new' \<and> attrs_moved h attrs0 seen attrs new' \<and> extends new new' \<and>
    (\<forall>i < length nodes0. live i \<longrightarrow> attr_slots (nodes0 ! i) \<subseteq> seen)"
proof -
  let ?P = "\<lambda>m s. \<exists>nodes attrs seen new'. s = (nodes, attrs, seen, new') \<and> nodes_moved h nodes0 live m nodes new' \<and>
    attrs_moved h attrs0 seen attrs new' \<and> extends new new' \<and> (\<forall>i < m. live i \<longrightarrow> attr_slots (nodes0 ! i) \<subseteq> seen)"
  have "\<exists>s'. steps (relocate_node (relocate_ptr h) attr_capacity live) [0..<length nodes0] (nodes0, attrs0, {}, new) = (s', None) \<and>
      ?P (length nodes0) s'"
  proof (rule steps_upt)
    show "?P 0 (nodes0, attrs0, {}, new)"
      using assms(1) string_relocation.le_refl by (auto simp: nodes_moved_def attrs_moved_def)
    fix i s
    assume i: "i < length nodes0" and "?P i s"
    then obtain nodes attrs seen new1 where s: "s = (nodes, attrs, seen, new1)"
      and m: "nodes_moved h nodes0 live i nodes new1" "attrs_moved h attrs0 seen attrs new1" "extends new new1"
        "\<forall>j < i. live j \<longrightarrow> attr_slots (nodes0 ! j) \<subseteq> seen"
      by blast
    have "\<exists>nodes' attrs' seen' new'. relocate_node (relocate_ptr h) attr_capacity live i (nodes, attrs, seen, new1) =
        ((nodes', attrs', seen', new'), None) \<and> nodes_moved h nodes0 live (Suc i) nodes' new' \<and>
      attrs_moved h attrs0 seen' attrs' new' \<and> extends new1 new' \<and> seen \<subseteq> seen' \<and> (live i \<longrightarrow> attr_slots (nodes0 ! i) \<subseteq> seen')"
      using assms(2) i unfolding nodes_movable_def by (intro node_moves [OF m(1,2) i _ _ assms(3,4)]) blast+
    then show "\<exists>s'. relocate_node (relocate_ptr h) attr_capacity live i s = (s', None) \<and> ?P (Suc i) s'"
      unfolding s using string_relocation.le_trans [OF m(3)] m(4) by (fastforce simp: less_Suc_eq)
  qed
  then show ?thesis
    by blast
qed

section \<open>Correctness\<close>

definition string_source_of :: "'a heap_vm \<Rightarrow> string_source" where
  "string_source_of vm = (vm_string_arena vm, vm_string_arena_capacity vm)"

lemma node_attr_slots:
  assumes "node_shape_ok vm node"
  shows "attr_slots node \<subseteq> {..<length (vm_node_attrs vm)}"
    and "k \<in> attr_slots node \<Longrightarrow> vm_node_attrs vm ! k \<in> set (node_attrs vm node)"
proof -
  show slots: "attr_slots node \<subseteq> {..<length (vm_node_attrs vm)}"
    using assms by (auto simp: node_shape_ok_def attr_slots_def)
  assume k: "k \<in> attr_slots node"
  then have "node_attrs vm node ! (k - node_attr_start node) = vm_node_attrs vm ! k" "k - node_attr_start node < length (node_attrs vm node)"
    using slots assms by (auto simp: node_attrs_def attr_slots_def node_shape_ok_def)
  then show "vm_node_attrs vm ! k \<in> set (node_attrs vm node)"
    by (metis nth_mem)
qed

lemma heap_nodes_movable:
  assumes "heap_ok vm extra"
  shows "nodes_movable (string_source_of vm) (vm_nodes vm) (vm_node_attrs vm) (node_live vm extra)"
proof -
  have "attr_slots (vm_nodes vm ! i) \<subseteq> {..<length (vm_node_attrs vm)} \<and>
      (node_live vm extra i \<longrightarrow> cstring_ok (vm_string_arena vm) (node_kind (vm_nodes vm ! i)) \<and>
        cstring_ok (vm_string_arena vm) (node_id (vm_nodes vm ! i)) \<and>
        (\<forall>k \<in> attr_slots (vm_nodes vm ! i). \<forall>p \<in> set_AivmNodeAttr (vm_node_attrs vm ! k). cstring_ok (vm_string_arena vm) p))"
    if i: "i < vm_node_count vm" for i
  proof -
    have shape: "node_shape_ok vm (vm_nodes vm ! i)"
      using assms i by (simp add: heap_ok_def heap_closed_def)
    have "\<forall>p \<in> node_texts vm (vm_nodes vm ! i). cstring_ok (vm_string_arena vm) p" if "node_live vm extra i"
      using assms that by (fastforce simp: heap_ok_def node_live_def)
    then show ?thesis
      using node_attr_slots [OF shape] by (auto simp: node_texts_def)
  qed
  then show ?thesis
    by (simp add: nodes_movable_def string_source_of_def)
qed

lemma reach_movable: "heap_ok vm extra \<Longrightarrow> reach vm (gc_roots vm extra) v \<Longrightarrow> movable (string_source_of vm) v"
  by (auto simp: movable_def string_source_of_def heap_ok_def split: AivmValue.splits)

lemma strings_relocated:
  assumes "heap_ok vm []" and "source_ok (string_source_of vm)"
  defines "h \<equiv> string_source_of vm"
  shows "\<exists>st ls rs ps pairs nodes attrs new seen.
    relocate_strings CArena (node_live vm []) (pair_live vm []) vm =
      ((put_roots st ls rs ps vm)\<lparr>vm_scratch_pairs := pairs, vm_nodes := nodes, vm_node_attrs := attrs\<rparr>, Inr (new, seen)) \<and>
    list_all2 (text_moved h new) (root_values vm) (root_values (put_roots st ls rs ps vm)) \<and>
    length pairs = vm_scratch_pair_count vm \<and>
    (\<forall>i < vm_scratch_pair_count vm. if pair_live vm [] i
       then text_moved h new (pair_first (vm_scratch_pairs vm ! i)) (pair_first (pairs ! i)) \<and>
         text_moved h new (pair_second (vm_scratch_pairs vm ! i)) (pair_second (pairs ! i))
       else pairs ! i = vm_scratch_pairs vm ! i) \<and>
    nodes_moved h (vm_nodes vm) (node_live vm []) (vm_node_count vm) nodes new \<and>
    attrs_moved h (vm_node_attrs vm) seen attrs new \<and>
    (\<forall>i < vm_node_count vm. node_live vm [] i \<longrightarrow> attr_slots (vm_nodes vm ! i) \<subseteq> seen)"
proof -
  let ?lp = "pair_live vm []" and ?live = "node_live vm []"
  have fv: "compact_relocate_value_string CArena (vm_string_arena vm) (vm_string_arena_capacity vm) = relocate_text h"
    and fp: "compact_relocate_string_ptr CArena (vm_string_arena vm) (vm_string_arena_capacity vm) = relocate_ptr h"
    by (simp_all add: relocate_text_def relocate_ptr_def h_def string_source_of_def)
  have start: "new_arena_ok h []"
    using assms(2) by (simp add: new_arena_ok_def terminated_def h_def)
  have roots: "movable h v" if "v \<in> set (root_values vm)" for v
    using reach_movable [OF assms(1) gc_root_values [OF that]] by (simp add: h_def)
  obtain vm1 new1 where t1: "traverse_roots (relocate_text h) vm [] = (vm1, Inr new1)"
    using string_relocation.roots_total [where vm = vm, OF start roots] by blast
  obtain st ls rs ps where 1: "traverse_roots (relocate_text h) vm [] = (vm1, Inr new1)"
    "vm1 = put_roots st ls rs ps vm" "new_arena_ok h new1" "list_all2 (text_moved h new1) (root_values vm) (root_values vm1)"
    using t1 string_relocation.roots_relocated [OF t1 start roots] by blast
  have comps: "movable h (pair_first (vm_scratch_pairs vm ! i)) \<and> movable h (pair_second (vm_scratch_pairs vm ! i))"
    if "i < vm_scratch_pair_count vm" "?lp i" for i
    using reach_movable [OF assms(1)] live_pair_reach [OF that] by (simp add: h_def)
  obtain es new2 where t2: "traverse (visit_live_pair (relocate_text h) ?lp) (enumerate 0 (vm_scratch_pairs vm)) new1 = (es, Some new2)"
    using string_relocation.pairs_total [OF 1(3) comps] by blast
  have 2: "traverse (visit_live_pair (relocate_text h) ?lp) (enumerate 0 (vm_scratch_pairs vm)) new1 = (es, Some new2)"
    "new_arena_ok h new2" "extends new1 new2" "length es = vm_scratch_pair_count vm"
    "\<forall>i < vm_scratch_pair_count vm. if ?lp i then text_moved h new2 (pair_first (vm_scratch_pairs vm ! i)) (pair_first (map snd es ! i)) \<and>
         text_moved h new2 (pair_second (vm_scratch_pairs vm ! i)) (pair_second (map snd es ! i))
       else map snd es ! i = vm_scratch_pairs vm ! i"
    using t2 string_relocation.pairs_relocated [OF t2 1(3) comps] by blast+
  have caps: "length (vm_node_attrs vm) \<le> vm_node_attr_capacity vm" "vm_node_attr_capacity vm \<le> SIZE_MAX"
    using assms(1) by (simp_all add: heap_ok_def heap_closed_def)
  obtain nodes attrs seen new where 3: "steps (relocate_node (relocate_ptr h) (vm_node_attr_capacity vm) ?live) [0..<vm_node_count vm]
      (vm_nodes vm, vm_node_attrs vm, {}, new2) = ((nodes, attrs, seen, new), None)"
    "nodes_moved h (vm_nodes vm) ?live (vm_node_count vm) nodes new" "attrs_moved h (vm_node_attrs vm) seen attrs new"
    "extends new2 new" "\<forall>i < vm_node_count vm. ?live i \<longrightarrow> attr_slots (vm_nodes vm ! i) \<subseteq> seen"
    using nodes_move [OF 2(2) heap_nodes_movable [OF assms(1), folded h_def] caps] by blast
  have "relocate_strings CArena ?live ?lp vm =
      (vm1\<lparr>vm_scratch_pairs := map snd es, vm_nodes := nodes, vm_node_attrs := attrs\<rparr>, Inr (new, seen))"
    unfolding relocate_strings_def fv fp Let_def 1(1) using 2(1) 3(1) by (simp add: 1(2))
  moreover have "list_all2 (text_moved h new) (root_values vm) (root_values vm1)"
    using 1(4) by (rule list_all2_mono)
      (blast intro: string_relocation.moved_mono [OF 1(3) string_relocation.le_trans [OF 2(3) 3(4)]])
  moreover have "\<forall>i < vm_scratch_pair_count vm. if ?lp i then text_moved h new (pair_first (vm_scratch_pairs vm ! i)) (pair_first (map snd es ! i)) \<and>
         text_moved h new (pair_second (vm_scratch_pairs vm ! i)) (pair_second (map snd es ! i))
       else map snd es ! i = vm_scratch_pairs vm ! i"
    using 2(5) string_relocation.moved_mono [OF 2(2) 3(4)] by auto
  ultimately show ?thesis
    using 1(2) 2(4) 3(2,3,5)
    by (intro exI [of _ st] exI [of _ ls] exI [of _ rs] exI [of _ ps] exI [of _ "map snd es"] exI [of _ nodes] exI [of _ attrs]
        exI [of _ new] exI [of _ seen]) simp
qed

text \<open>The machine after the relocation, seen through the fields the heap is read by.\<close>

definition same_node_shape :: "AivmNodeRecord \<Rightarrow> AivmNodeRecord \<Rightarrow> bool" where
  "same_node_shape node node' \<longleftrightarrow>
     node_attr_start node' = node_attr_start node \<and> node_attr_count node' = node_attr_count node \<and>
     node_child_start node' = node_child_start node \<and> node_child_count node' = node_child_count node"

definition strings_moved :: "'a heap_vm \<Rightarrow> 'a heap_vm \<Rightarrow> bool" where
  "strings_moved vm vm' \<longleftrightarrow>
     (let h = string_source_of vm; new = vm_string_arena vm' in
      terminated new \<and> list_all2 (text_moved h new) (root_values vm) (root_values vm') \<and>
      vm_scratch_pair_count vm' = vm_scratch_pair_count vm \<and>
      (\<forall>i < vm_scratch_pair_count vm. pair_live vm [] i \<longrightarrow>
         text_moved h new (pair_first (vm_scratch_pairs vm ! i)) (pair_first (vm_scratch_pairs vm' ! i)) \<and>
         text_moved h new (pair_second (vm_scratch_pairs vm ! i)) (pair_second (vm_scratch_pairs vm' ! i))) \<and>
      (\<forall>i < vm_scratch_pair_count vm. pair_values_ok (vm_scratch_pair_count vm) (vm_scratch_pairs vm ! i) \<longrightarrow>
         pair_values_ok (vm_scratch_pair_count vm) (vm_scratch_pairs vm' ! i)) \<and>
      vm_node_count vm' = vm_node_count vm \<and>
      (\<forall>i < vm_node_count vm. same_node_shape (vm_nodes vm ! i) (vm_nodes vm' ! i)) \<and>
      (\<forall>i < vm_node_count vm. node_live vm [] i \<longrightarrow>
         ptr_moved h new (node_kind (vm_nodes vm ! i)) (node_kind (vm_nodes vm' ! i)) \<and>
         ptr_moved h new (node_id (vm_nodes vm ! i)) (node_id (vm_nodes vm' ! i)) \<and>
         (\<forall>k \<in> attr_slots (vm_nodes vm ! i). rel_AivmNodeAttr (ptr_moved h new) (vm_node_attrs vm ! k) (vm_node_attrs vm' ! k))) \<and>
      length (vm_node_attrs vm') = length (vm_node_attrs vm) \<and> vm_node_children vm' = vm_node_children vm \<and>
      fixed_handles vm' = fixed_handles vm \<and> builder_handles vm' = builder_handles vm \<and>
      vm_bytes_arena vm' = vm_bytes_arena vm \<and> vm_node_capacity vm' = vm_node_capacity vm \<and>
      vm_node_attr_capacity vm' = vm_node_attr_capacity vm \<and> vm_node_child_capacity vm' = vm_node_child_capacity vm)"

lemma text_moved_pair [simp]: "text_moved h new v (ValPair k) \<longleftrightarrow> v = ValPair k"
  by (auto simp: text_moved_def split: AivmValue.splits)

lemma free_value_pair [simp]: "free_value v = ValPair k \<longleftrightarrow> v = ValPair k"
  by (auto simp: free_value_def split: AivmValue.splits)

lemma builder_handles_free: "concat (map (\<lambda>b. if builder_active b then builder_children b else []) (map free_builder bs)) =
  concat (map (\<lambda>b. if builder_active b then builder_children b else []) bs)"
  by (induction bs) (simp_all add: free_builder_def)

lemma install_moves:
  assumes "heap_ok vm []" and "source_ok (string_source_of vm)"
  shows "\<exists>vm1 new seen. relocate_strings CArena (node_live vm []) (pair_live vm []) vm = (vm1, Inr (new, seen)) \<and>
    strings_moved vm (install_string_arena block new (node_live vm []) (pair_live vm []) seen vm1) \<and>
    new_arena_ok (string_source_of vm) new \<and> vm_string_arena_limit vm1 = vm_string_arena_limit vm \<and>
    vm_string_arena_capacity vm1 = vm_string_arena_capacity vm \<and> vm_string_intern_entries vm1 = vm_string_intern_entries vm"
proof -
  let ?h = "string_source_of vm" and ?live = "node_live vm []" and ?lp = "pair_live vm []"
  obtain st ls rs ps pairs nodes attrs new seen where
    r: "relocate_strings CArena ?live ?lp vm =
      ((put_roots st ls rs ps vm)\<lparr>vm_scratch_pairs := pairs, vm_nodes := nodes, vm_node_attrs := attrs\<rparr>, Inr (new, seen))"
    and roots: "list_all2 (text_moved ?h new) (root_values vm) (root_values (put_roots st ls rs ps vm))"
    and pairs: "length pairs = vm_scratch_pair_count vm"
      "\<And>i. i < vm_scratch_pair_count vm \<Longrightarrow> if ?lp i
         then text_moved ?h new (pair_first (vm_scratch_pairs vm ! i)) (pair_first (pairs ! i)) \<and>
           text_moved ?h new (pair_second (vm_scratch_pairs vm ! i)) (pair_second (pairs ! i))
         else pairs ! i = vm_scratch_pairs vm ! i"
    and nodes: "nodes_moved ?h (vm_nodes vm) ?live (vm_node_count vm) nodes new"
    and attrs: "attrs_moved ?h (vm_node_attrs vm) seen attrs new"
    and seen: "\<And>i. i < vm_node_count vm \<Longrightarrow> ?live i \<Longrightarrow> attr_slots (vm_nodes vm ! i) \<subseteq> seen"
    using strings_relocated [OF assms] by blast
  let ?vm1 = "(put_roots st ls rs ps vm)\<lparr>vm_scratch_pairs := pairs, vm_nodes := nodes, vm_node_attrs := attrs\<rparr>"
  let ?vm2 = "install_string_arena block new ?live ?lp seen ?vm1"
  have len: "length nodes = vm_node_count vm" "length attrs = length (vm_node_attrs vm)" and new: "new_arena_ok ?h new"
    using nodes attrs by (simp_all add: nodes_moved_def attrs_moved_def)
  have f: "vm_string_arena ?vm2 = new" "root_values ?vm2 = root_values (put_roots st ls rs ps vm)"
    "fixed_handles ?vm2 = fixed_handles vm" "builder_handles ?vm2 = builder_handles vm"
    "vm_node_children ?vm2 = vm_node_children vm" "vm_bytes_arena ?vm2 = vm_bytes_arena vm"
    "vm_node_capacity ?vm2 = vm_node_capacity vm" "vm_node_attr_capacity ?vm2 = vm_node_attr_capacity vm"
    "vm_node_child_capacity ?vm2 = vm_node_child_capacity vm" "length (vm_node_attrs ?vm2) = length (vm_node_attrs vm)"
    "vm_scratch_pair_count ?vm2 = vm_scratch_pair_count vm" "vm_node_count ?vm2 = vm_node_count vm"
    using builder_handles_free [of "vm_node_builders vm"] len pairs(1)
    by (simp_all add: install_string_arena_def root_values_def local_values_def fixed_handles_def builder_handles_def)
  have pair: "vm_scratch_pairs ?vm2 ! i = (if ?lp i then pairs ! i else free_pair (pairs ! i))" if "i < vm_scratch_pair_count vm" for i
    using that pairs(1) by (simp add: install_string_arena_def nth_enumerate_eq)
  have node: "vm_nodes ?vm2 ! i = (if ?live i then nodes ! i else free_node (nodes ! i))" if "i < vm_node_count vm" for i
    using that len(1) by (simp add: install_string_arena_def nth_enumerate_eq)
  have attr: "vm_node_attrs ?vm2 ! k = (if k \<in> seen then attrs ! k else map_AivmNodeAttr free_ptr (attrs ! k))" if "k < length (vm_node_attrs vm)" for k
    using that len(2) by (simp add: install_string_arena_def nth_enumerate_eq)
  have p: "pair_values_ok (vm_scratch_pair_count vm) (vm_scratch_pairs ?vm2 ! i)"
    if i: "i < vm_scratch_pair_count vm" and "pair_values_ok (vm_scratch_pair_count vm) (vm_scratch_pairs vm ! i)" for i
    using that(2) pairs(2) [OF i] unfolding pair [OF i] by (auto simp: pair_values_ok_def free_pair_def split: if_splits)
  have shape: "same_node_shape (vm_nodes vm ! i) (vm_nodes ?vm2 ! i)" if i: "i < vm_node_count vm" for i
  proof -
    have "if ?live i then node_moved ?h new (vm_nodes vm ! i) (nodes ! i) else nodes ! i = vm_nodes vm ! i"
      using nodes i by (simp add: nodes_moved_def)
    then show ?thesis
      unfolding node [OF i] by (auto simp: node_moved_def same_node_shape_def free_node_def split: if_splits)
  qed
  have moved: "ptr_moved ?h new (node_kind (vm_nodes vm ! i)) (node_kind (vm_nodes ?vm2 ! i)) \<and>
      ptr_moved ?h new (node_id (vm_nodes vm ! i)) (node_id (vm_nodes ?vm2 ! i)) \<and>
      (\<forall>k \<in> attr_slots (vm_nodes vm ! i). rel_AivmNodeAttr (ptr_moved ?h new) (vm_node_attrs vm ! k) (vm_node_attrs ?vm2 ! k))"
    if i: "i < vm_node_count vm" "?live i" for i
  proof -
    have slots: "attr_slots (vm_nodes vm ! i) \<subseteq> {..<length (vm_node_attrs vm)}"
      using heap_nodes_movable [OF assms(1)] i(1) by (simp add: nodes_movable_def)
    have "\<forall>k \<in> attr_slots (vm_nodes vm ! i). rel_AivmNodeAttr (ptr_moved ?h new) (vm_node_attrs vm ! k) (vm_node_attrs ?vm2 ! k)"
      using attrs seen [OF i] slots attr by (auto simp: attrs_moved_def subset_iff)
    moreover have "node_moved ?h new (vm_nodes vm ! i) (nodes ! i)"
      using nodes i by (simp add: nodes_moved_def)
    ultimately show ?thesis
      using i unfolding node [OF i(1)] by (auto simp: node_moved_def)
  qed
  have "strings_moved vm ?vm2"
    unfolding strings_moved_def Let_def f
    using roots p shape moved pairs(2) pair new by (simp add: new_arena_ok_def)
  moreover have "vm_string_arena_limit ?vm1 = vm_string_arena_limit vm" "vm_string_arena_capacity ?vm1 = vm_string_arena_capacity vm"
    "vm_string_intern_entries ?vm1 = vm_string_intern_entries vm"
    by simp_all
  ultimately show ?thesis
    using r new by blast
qed

lemma ptr_moved_text: "ptr_moved h new p p' \<Longrightarrow> cptr_text new p' = cptr_text (fst h) p"
  by (cases p) (auto simp: ptr_moved_def)

lemma ptr_moved_ok: "ptr_moved h new p p' \<Longrightarrow> cstring_ok (fst h) p \<Longrightarrow> cstring_ok new p'"
  by (cases p) (auto simp: ptr_moved_def cstring_ok_def)

lemma attr_moved_text:
  "rel_AivmNodeAttr (ptr_moved h new) a a' \<Longrightarrow> map_AivmNodeAttr (cptr_text new) a' = map_AivmNodeAttr (cptr_text (fst h)) a"
  by (cases a; cases a'; cases "attr_value a"; cases "attr_value a'") (auto dest: ptr_moved_text)

lemma attr_moved_ok:
  assumes "rel_AivmNodeAttr (ptr_moved h new) a a'" and "\<And>p. p \<in> set_AivmNodeAttr a \<Longrightarrow> cstring_ok (fst h) p"
    and "p' \<in> set_AivmNodeAttr a'"
  shows "cstring_ok new p'"
  using assms(1,2,3) by (cases a; cases a'; cases "attr_value a"; cases "attr_value a'") (auto dest: ptr_moved_ok)

text \<open>The attributes of a reachable node, and its children.\<close>

lemma node_strings_moved:
  assumes "heap_ok vm []" and "strings_moved vm vm'" and "reach vm (gc_roots vm []) (ValNode k)"
  defines "node \<equiv> vm_nodes vm ! nat (k - 1)" and "node' \<equiv> vm_nodes vm' ! nat (k - 1)"
  shows "aivm_vm_lookup_node vm k = Some node" and "aivm_vm_lookup_node vm' k = Some node'"
    and "ptr_moved (string_source_of vm) (vm_string_arena vm') (node_kind node) (node_kind node')"
    and "ptr_moved (string_source_of vm) (vm_string_arena vm') (node_id node) (node_id node')"
    and "list_all2 (rel_AivmNodeAttr (ptr_moved (string_source_of vm) (vm_string_arena vm'))) (node_attrs vm node) (node_attrs vm' node')"
    and "node_children vm' node' = node_children vm node"
proof -
  note r = reach_node_live [OF assms(1,3)]
  have m: "same_node_shape node node'" "vm_node_count vm' = vm_node_count vm" "length (vm_node_attrs vm') = length (vm_node_attrs vm)"
    "vm_node_children vm' = vm_node_children vm"
    "\<And>k. k \<in> attr_slots node \<Longrightarrow> rel_AivmNodeAttr (ptr_moved (string_source_of vm) (vm_string_arena vm')) (vm_node_attrs vm ! k) (vm_node_attrs vm' ! k)"
    using assms(2) r(2,3) by (simp_all add: strings_moved_def Let_def node_def node'_def)
  show "ptr_moved (string_source_of vm) (vm_string_arena vm') (node_kind node) (node_kind node')"
    "ptr_moved (string_source_of vm) (vm_string_arena vm') (node_id node) (node_id node')"
    using assms(2) r(2,3) by (simp_all add: strings_moved_def Let_def node_def node'_def)
  show "aivm_vm_lookup_node vm k = Some node" "aivm_vm_lookup_node vm' k = Some node'"
    using r(1) m(2) by (simp_all add: lookup_node_iff node_def node'_def)
  have shape: "node_shape_ok vm node"
    using assms(1) r(3) by (simp add: heap_ok_def heap_closed_def node_def)
  show "node_children vm' node' = node_children vm node"
    using m(1,4) by (simp add: node_children_def same_node_shape_def)
  show "list_all2 (rel_AivmNodeAttr (ptr_moved (string_source_of vm) (vm_string_arena vm'))) (node_attrs vm node) (node_attrs vm' node')"
    using m(1,3,5) shape
    by (auto simp: list_all2_conv_all_nth node_attrs_def same_node_shape_def node_shape_ok_def attr_slots_def)
qed

definition reach_moved :: "'a heap_vm \<Rightarrow> 'a heap_vm \<Rightarrow> AivmValue \<Rightarrow> AivmValue \<Rightarrow> bool" where
  "reach_moved vm vm' v v' \<longleftrightarrow>
     reach vm (gc_roots vm []) v \<and> text_moved (string_source_of vm) (vm_string_arena vm') v v'"

lemma strings_similar:
  assumes "heap_ok vm []" and "strings_moved vm vm'" and "reach_moved vm vm' v v'"
  shows "similar vm vm' (reach_moved vm vm') v v'"
proof -
  let ?h = "string_source_of vm" and ?new = "vm_string_arena vm'"
  have v: "reach vm (gc_roots vm []) v" "text_moved ?h ?new v v'"
    using assms(3) by (simp_all add: reach_moved_def)
  have arena: "fst ?h = vm_string_arena vm" "vm_bytes_arena vm' = vm_bytes_arena vm"
    using assms(2) by (simp_all add: string_source_of_def strings_moved_def Let_def)
  show ?thesis
  proof (cases v)
    case (ValString p)
    then show ?thesis
      using v(2) ptr_moved_text [of ?h ?new] arena by (auto simp: text_moved_def)
  next
    case (ValPair k)
    let ?i = "nat (k - 1)"
    have i: "valid_handle k (vm_scratch_pair_count vm)" "pair_live vm [] ?i" "?i < vm_scratch_pair_count vm"
      using reach_pair_live [OF assms(1) v(1) ValPair] by (auto simp: valid_handle_def)
    then show ?thesis
      using v(2) ValPair assms(2) live_pair_reach [OF i(3,2)]
      by (auto simp: text_moved_def lookup_pair_iff strings_moved_def Let_def reach_moved_def)
  next
    case (ValNode k)
    note n = node_strings_moved [OF assms(1,2) v(1) [unfolded ValNode]]
    have "map (map_AivmNodeAttr (cptr_text ?new)) (node_attrs vm' (vm_nodes vm' ! nat (k - 1))) =
        map (map_AivmNodeAttr (cptr_text (vm_string_arena vm))) (node_attrs vm (vm_nodes vm ! nat (k - 1)))"
      using n(5) attr_moved_text [of ?h ?new] by (auto simp: list_all2_conv_all_nth arena intro!: nth_equalityI)
    moreover have "list_all2 (\<lambda>c c'. reach_moved vm vm' (ValNode c) (ValNode c'))
        (node_children vm (vm_nodes vm ! nat (k - 1))) (node_children vm (vm_nodes vm ! nat (k - 1)))"
      using reach_child [OF v(1) [unfolded ValNode] n(1)] by (auto simp: list_all2_same reach_moved_def text_moved_def)
    ultimately show ?thesis
      using v(2) n(1,2,6) ptr_moved_text [OF n(3)] ptr_moved_text [OF n(4)] ValNode by (simp add: text_moved_def arena)
  qed (use v(2) arena in \<open>simp_all add: text_moved_def\<close>)
qed

lemma moved_value_ok:
  assumes "heap_ok vm []" and "strings_moved vm vm'" and "reach_moved vm vm' v v'"
  shows "value_ok vm' v'"
proof -
  let ?h = "string_source_of vm" and ?new = "vm_string_arena vm'"
  have v: "reach vm (gc_roots vm []) v" "text_moved ?h ?new v v'" "value_ok vm v"
    using assms(1,3) by (auto simp: reach_moved_def heap_ok_def)
  have arena: "fst ?h = vm_string_arena vm" "vm_bytes_arena vm' = vm_bytes_arena vm"
    "vm_scratch_pair_count vm' = vm_scratch_pair_count vm" "vm_node_count vm' = vm_node_count vm"
    using assms(2) by (simp_all add: string_source_of_def strings_moved_def Let_def)
  show ?thesis
  proof (cases v)
    case (ValString p)
    then show ?thesis
      using v ptr_moved_ok [of ?h ?new] arena by (auto simp: text_moved_def)
  next
    case (ValNode k)
    note n = node_strings_moved [OF assms(1,2) v(1) [unfolded ValNode]]
    let ?node = "vm_nodes vm ! nat (k - 1)" and ?node' = "vm_nodes vm' ! nat (k - 1)"
    have ok: "cstring_ok (fst ?h) (node_kind ?node)" "cstring_ok (fst ?h) (node_id ?node)"
      "\<And>a p. a \<in> set (node_attrs vm ?node) \<Longrightarrow> p \<in> set_AivmNodeAttr a \<Longrightarrow> cstring_ok (fst ?h) p"
      using v(3) ValNode by (auto simp: node_texts_def arena)
    have "cstring_ok ?new p" if p: "a' \<in> set (node_attrs vm' ?node')" "p \<in> set_AivmNodeAttr a'" for a' p
    proof -
      obtain a where "a \<in> set (node_attrs vm ?node)" "rel_AivmNodeAttr (ptr_moved ?h ?new) a a'"
        using list_all2_source_in [OF n(5) p(1)] by blast
      then show ?thesis
        using attr_moved_ok [OF _ _ p(2)] ok(3) by blast
    qed
    then have "\<forall>p \<in> node_texts vm' ?node'. cstring_ok ?new p"
      using ptr_moved_ok [OF n(3) ok(1)] ptr_moved_ok [OF n(4) ok(2)] by (auto simp: node_texts_def)
    then show ?thesis
      using v ValNode arena by (simp add: text_moved_def)
  qed (use v arena in \<open>simp_all add: text_moved_def\<close>)
qed

lemma strings_moved_keeps:
  assumes "heap_ok vm []" and "strings_moved vm vm'"
  shows "same_views vm vm'" and "heap_ok vm' []"
proof -
  let ?h = "string_source_of vm" and ?R = "reach_moved vm vm'"
  have f: "list_all2 (text_moved ?h (vm_string_arena vm')) (root_values vm) (root_values vm')" "fixed_handles vm' = fixed_handles vm"
    "builder_handles vm' = builder_handles vm" "terminated (vm_string_arena vm')"
    "vm_scratch_pair_count vm' = vm_scratch_pair_count vm" "vm_node_count vm' = vm_node_count vm"
    "length (vm_node_attrs vm') = length (vm_node_attrs vm)" "vm_node_children vm' = vm_node_children vm"
    "vm_node_capacity vm' = vm_node_capacity vm" "vm_node_attr_capacity vm' = vm_node_attr_capacity vm"
    "vm_node_child_capacity vm' = vm_node_child_capacity vm"
    using assms(2) by (simp_all add: strings_moved_def Let_def)
  have closed: "heap_closed vm"
    using assms(1) by (simp add: heap_ok_def)
  have "list_all2 ?R (root_values vm) (root_values vm')"
    using f(1) gc_root_values [of _ vm "[]"] by (auto simp: list_all2_conv_all_nth reach_moved_def)
  then have roots: "list_all2 ?R (root_list vm) (root_list vm')"
    using reach_root [of _ "gc_roots vm []" vm] unfolding root_list_def f(2,3)
    by (intro list_all2_appendI) (auto simp: list.rel_map reach_moved_def text_moved_def gc_roots_def intro!: list.rel_refl_strong)
  show "same_views vm vm'"
    by (rule same_viewsI [of ?R vm vm', OF strings_similar [OF assms] roots])
  have "\<exists>v. ?R v v'" if "v' \<in> gc_roots vm' []" for v'
    using list_all2_source [OF roots] that by (simp add: root_list_set)
  then have "value_ok vm' v'" if "reach vm' (gc_roots vm' []) v'" for v'
    using reach_similar [of ?R vm vm', OF strings_similar [OF assms] _ that] moved_value_ok [OF assms] by blast
  moreover have "pair_values_ok (vm_scratch_pair_count vm') p" if p: "p \<in> set (vm_scratch_pairs vm')" for p
  proof -
    obtain i where i: "i < vm_scratch_pair_count vm" "p = vm_scratch_pairs vm' ! i"
      using p f(5) by (auto simp: in_set_conv_nth)
    have "pair_values_ok (vm_scratch_pair_count vm) (vm_scratch_pairs vm ! i)"
      using closed i(1) by (simp add: heap_closed_def)
    then show ?thesis
      using i assms(2) f(5) by (simp add: strings_moved_def Let_def)
  qed
  moreover have "node_shape_ok vm' node'" if node': "node' \<in> set (vm_nodes vm')" for node'
  proof -
    obtain i where i: "i < vm_node_count vm" "node' = vm_nodes vm' ! i" "same_node_shape (vm_nodes vm ! i) (vm_nodes vm' ! i)"
      using node' assms(2) by (auto simp: in_set_conv_nth f strings_moved_def Let_def)
    have "node_shape_ok vm (vm_nodes vm ! i)"
      using closed i(1) by (simp add: heap_closed_def)
    then show ?thesis
      using i by (simp add: node_shape_ok_def same_node_shape_def node_children_def f)
  qed
  ultimately show "heap_ok vm' []"
    using closed f by (simp add: heap_ok_def heap_closed_def)
qed

text \<open>The invariant of the string arena: its sizes, and the index.\<close>

definition string_arena_ok :: "'a heap_vm \<Rightarrow> bool" where
  "string_arena_ok vm \<longleftrightarrow>
     vm_string_arena_used vm \<le> vm_string_arena_limit vm \<and> vm_string_arena_limit vm \<le> vm_string_arena_capacity vm \<and>
     vm_string_arena_capacity vm \<le> SIZE_MAX \<and> index_ok vm"

definition string_compaction_memory :: "(nat \<Rightarrow> bool) \<Rightarrow> 'a heap_vm \<Rightarrow> bool" where
  "string_compaction_memory alloc vm \<longleftrightarrow>
     vm_string_arena_used vm = 0 \<or>
     alloc (vm_node_capacity vm) \<and> alloc (vm_string_arena_capacity vm) \<and> node_mark_memory alloc vm"

lemma reindexed_same_heap: "reindexed vm vm' \<Longrightarrow> same_heap vm vm'"
  unfolding reindexed_def
  by (erule ssubst) (simp add: same_heap_def root_values_def local_values_def fixed_handles_def builder_handles_def)

lemma reindexed_limits:
  "reindexed vm vm' \<Longrightarrow> vm_string_arena_limit vm' = vm_string_arena_limit vm \<and> vm_string_arena_capacity vm' = vm_string_arena_capacity vm"
  unfolding reindexed_def by (erule ssubst) simp

lemma index_ok_length: "index_ok vm \<Longrightarrow> vm_string_intern_entries vm = [] \<or> (\<exists>k < 64. length (vm_string_intern_entries vm) = 2 ^ k)"
  by (simp add: index_ok_def)

lemma strings_compacted:
  assumes "heap_ok vm []" and "string_arena_ok vm" and "string_compaction_memory alloc vm"
  shows "\<exists>vm'. aivm_compact_string_arena alloc block vm = (True, vm') \<and> same_views vm vm' \<and> heap_ok vm' [] \<and> string_arena_ok vm' \<and>
    vm_string_arena_used vm' \<le> vm_string_arena_used vm \<and>
    (vm_string_arena_used vm \<noteq> 0 \<longrightarrow> distinct (arena_texts (vm_string_arena vm')))"
proof (cases "vm_string_arena_used vm = 0")
  case True
  then show ?thesis
    using assms same_views_refl by (simp add: aivm_compact_string_arena_def)
next
  case False
  let ?live = "node_live vm []" and ?lp = "pair_live vm []"
  have source: "source_ok (string_source_of vm)"
    using assms(1,2) by (simp add: source_ok_def string_source_of_def string_arena_ok_def heap_ok_def heap_closed_def)
  obtain vm1 new seen where r: "relocate_strings CArena ?live ?lp vm = (vm1, Inr (new, seen))"
    "strings_moved vm (install_string_arena block new ?live ?lp seen vm1)" "new_arena_ok (string_source_of vm) new"
    "vm_string_arena_limit vm1 = vm_string_arena_limit vm" "vm_string_arena_capacity vm1 = vm_string_arena_capacity vm"
    "vm_string_intern_entries vm1 = vm_string_intern_entries vm"
    using install_moves [OF assms(1) source] by blast
  let ?vm2 = "install_string_arena block new ?live ?lp seen vm1"
  let ?vm3 = "aivm_vm_rebuild_string_intern_index alloc ?vm2"
  have f: "vm_string_arena ?vm2 = new" "vm_string_arena_limit ?vm2 = vm_string_arena_limit vm"
    "vm_string_arena_capacity ?vm2 = vm_string_arena_capacity vm" "vm_string_intern_entries ?vm2 = vm_string_intern_entries vm"
    using r(4-6) by (simp_all add: install_string_arena_def)
  have new: "terminated new" "distinct (arena_texts new)" "length new \<le> vm_string_arena_used vm"
    using r(3) distinct_texts_length [of new "vm_string_arena vm"] source
    by (simp_all add: new_arena_ok_def source_ok_def string_source_of_def)
  have i: "index_ok ?vm3" "reindexed ?vm2 ?vm3"
    using rebuild_keeps_index [of ?vm2 alloc] index_ok_length [of vm] assms(2) new(1) f by (simp_all add: string_arena_ok_def)
  note same = reindexed_same_heap [OF i(2)]
  have "node_mark_memory alloc vm" "alloc (vm_node_capacity vm)" "alloc (vm_string_arena_capacity vm)" "alloc AIVM_VM_SCRATCH_PAIR_CAPACITY"
    using assms(3) False by (auto simp: string_compaction_memory_def node_mark_memory_def)
  then have "aivm_compact_string_arena alloc block vm = (True, ?vm3)"
    using False nodes_marked [where alloc = alloc, OF assms(1)] r(1) by (simp add: aivm_compact_string_arena_def)
  moreover have "same_views vm ?vm3" "heap_ok ?vm3 []"
    using strings_moved_keeps [OF assms(1) r(2)] same_heap_reach(4-6) [OF same] by (simp_all add: same_views_def)
  moreover have "string_arena_ok ?vm3" "vm_string_arena ?vm3 = new"
    using i(1) reindexed_limits [OF i(2)] reindexed_arena [OF i(2)] f new(3) assms(2) by (simp_all add: string_arena_ok_def)
  ultimately show ?thesis
    using new by auto
qed

lemma string_compaction_refused:
  assumes "\<not> string_compaction_memory alloc vm"
  shows "\<exists>detail. aivm_compact_string_arena alloc block vm = (False, aivm_set_vm_error vm AIVM_VM_ERR_MEMORY_PRESSURE detail)"
proof (cases "alloc (vm_node_capacity vm) \<and> alloc AIVM_VM_SCRATCH_PAIR_CAPACITY \<and> alloc (vm_string_arena_capacity vm)")
  case True
  then have "\<not> node_mark_memory alloc vm"
    using assms by (auto simp: string_compaction_memory_def)
  then obtain detail where "aivm_vm_mark_live_node_handles alloc vm [] = (None, aivm_set_vm_error vm AIVM_VM_ERR_MEMORY_PRESSURE detail)"
    using nodes_not_marked by blast
  then show ?thesis
    using True assms by (intro exI [of _ detail]) (simp add: aivm_compact_string_arena_def string_compaction_memory_def)
next
  case False
  then show ?thesis
    using assms by (intro exI) (simp add: aivm_compact_string_arena_def string_compaction_memory_def)
qed

text \<open>C5 (refinement): compaction of the string arena of a well-formed heap succeeds exactly when its workspace
  can be allocated. It then keeps everything a program can see through the roots, the well-formedness of the heap
  and of the arena with its index, the arena is not larger than before, and each text is stored once;
  otherwise it reports an error and leaves the heap alone.\<close>

theorem string_compaction_keeps_values:
  assumes "heap_ok vm []" and "string_arena_ok vm"
  shows "\<exists>vm'. if string_compaction_memory alloc vm
    then aivm_compact_string_arena alloc block vm = (True, vm') \<and> same_views vm vm' \<and> heap_ok vm' [] \<and> string_arena_ok vm' \<and>
      vm_string_arena_used vm' \<le> vm_string_arena_used vm \<and>
      (vm_string_arena_used vm = 0 \<or> distinct (arena_texts (vm_string_arena vm')))
    else aivm_compact_string_arena alloc block vm = (False, vm') \<and> same_heap vm vm' \<and> vm_status vm' = AIVM_VM_STATUS_ERROR"
proof (cases "string_compaction_memory alloc vm")
  case True
  then show ?thesis
    using strings_compacted [OF assms True, of block] by auto
next
  case False
  then obtain detail where "aivm_compact_string_arena alloc block vm = (False, aivm_set_vm_error vm AIVM_VM_ERR_MEMORY_PRESSURE detail)"
    using string_compaction_refused by blast
  then show ?thesis
    using False set_error_same_heap by (auto simp: aivm_set_vm_error_def)
qed

lemma heap_demo_string_arena_ok: "string_arena_ok heap_demo"
proof -
  have "vm_string_arena_limit heap_demo = 64" "vm_string_arena_capacity heap_demo = 64" "vm_string_intern_entries heap_demo = []"
    "vm_string_intern_count heap_demo = 0"
    by (simp_all add: heap_demo_def AivmMapVm.defs)
  then show ?thesis
    by (simp add: string_arena_ok_def index_ok_def heap_demo_fields SIZE_MAX_def)
qed

theorem string_compaction_keeps_values_witness:
  "\<exists>vm'. aivm_compact_string_arena (\<lambda>n. True) 2 heap_demo = (True, vm') \<and> same_views heap_demo vm' \<and> vm_string_arena_used vm' \<le> 7"
  using string_compaction_keeps_values [OF heap_demo_ok heap_demo_string_arena_ok, of "\<lambda>n. True" 2]
  by (auto simp: string_compaction_memory_def node_mark_memory_def pair_mark_memory_def heap_demo_fields)

end
