(* ===== verification/Bytes_Arena.thy ===== *)
theory Bytes_Arena
  imports Relocation "HOL-Library.Sublist"
begin

text \<open>
  The bytes arena (\<^verbatim>\<open>src/src/aivm_vm_arena.c\<close>): growth of its limit under the admission of host memory, allocation
  at its end, and its compaction, which copies the bytes of the reachable values into a new block, once for
  each pair of start and length.
\<close>

section \<open>Growth and allocation\<close>

definition arena_grow_limit :: "nat \<Rightarrow> nat \<Rightarrow> nat \<Rightarrow> nat" where
  "arena_grow_limit current step max_value =
     (if current \<ge> max_value then max_value
      else case aivm_size_add_checked current step of
        None \<Rightarrow> max_value
      | Some next_limit \<Rightarrow> if next_limit > max_value then max_value else next_limit)"

lemma arena_grow_limit_bounds:
  assumes "0 < step" and "current < max_value"
  shows "current < arena_grow_limit current step max_value" and "arena_grow_limit current step max_value \<le> max_value"
  using assms by (auto simp: arena_grow_limit_def split: option.splits)

lemma admit_fields:
  "vm_bytes_arena_limit (snd (aivm_vm_admit_host_memory_growth snapshot vm n)) = vm_bytes_arena_limit vm"
  "vm_bytes_arena_capacity (snd (aivm_vm_admit_host_memory_growth snapshot vm n)) = vm_bytes_arena_capacity vm"
  by (simp_all add: aivm_vm_admit_host_memory_growth_def aivm_set_vm_error_def Let_def split: option.splits prod.splits)

function ensure_bytes_arena_capacity :: "(nat \<times> nat) option \<Rightarrow> nat \<Rightarrow> 'a heap_vm \<Rightarrow> bool \<times> 'a heap_vm" where
  "ensure_bytes_arena_capacity snapshot needed vm =
     (if needed > vm_bytes_arena_limit vm \<and> vm_bytes_arena_limit vm < vm_bytes_arena_capacity vm then
        let next_limit = arena_grow_limit (vm_bytes_arena_limit vm) AIVM_VM_BYTES_ARENA_GROWTH_STEP (vm_bytes_arena_capacity vm) in
        case aivm_vm_admit_host_memory_growth snapshot vm (next_limit - vm_bytes_arena_limit vm) of
          (False, vm) \<Rightarrow> (False, vm)
        | (True, vm) \<Rightarrow> ensure_bytes_arena_capacity snapshot needed (vm\<lparr>vm_bytes_arena_limit := next_limit\<rparr>)
      else (needed \<le> vm_bytes_arena_limit vm, vm))"
  by pat_completeness auto

termination
proof (relation "measure (\<lambda>(snapshot, needed, vm). vm_bytes_arena_capacity vm - vm_bytes_arena_limit vm)", goal_cases)
  case prems: (2 snapshot needed vm next_limit)
  let ?limit = "vm_bytes_arena_limit vm" and ?capacity = "vm_bytes_arena_capacity vm"
  have "?limit < next_limit" "next_limit \<le> ?capacity"
    using prems arena_grow_limit_bounds [of AIVM_VM_BYTES_ARENA_GROWTH_STEP ?limit ?capacity]
    by (auto simp: AIVM_VM_BYTES_ARENA_GROWTH_STEP_def)
  then show ?case
    using prems admit_fields(2) [of snapshot vm "next_limit - ?limit"] by (auto simp: prod_eq_iff)
qed simp

declare ensure_bytes_arena_capacity.simps [simp del]

text \<open>A rejected allocation: it is counted, and an error is recorded if there is none yet.\<close>

definition bytes_pressure :: "'a heap_vm \<Rightarrow> 'a heap_vm" where
  "bytes_pressure vm =
     vm\<lparr>vm_heap_counters := (vm_heap_counters vm)
          \<lparr>bytes_arena_pressure_count := aivm_counter_increment_saturating (bytes_arena_pressure_count (vm_heap_counters vm))\<rparr>\<rparr>"

definition raise_unless_error :: "string \<Rightarrow> 'a vm \<Rightarrow> 'a vm" where
  "raise_unless_error detail vm =
     (if vm_status vm \<noteq> AIVM_VM_STATUS_ERROR then aivm_set_vm_error vm AIVM_VM_ERR_MEMORY_PRESSURE detail else vm)"

text \<open>The offset of the new bytes; they are zero until the caller writes them.\<close>

definition aivm_bytes_arena_alloc :: "(nat \<times> nat) option \<Rightarrow> 'a heap_vm \<Rightarrow> nat \<Rightarrow> nat option \<times> 'a heap_vm" where
  "aivm_bytes_arena_alloc snapshot vm n =
     (let detail = ''AIVMM002: bytes arena capacity exceeded.'' in
      case aivm_size_add_checked (vm_bytes_arena_used vm) n of
        None \<Rightarrow> (None, aivm_set_vm_error (bytes_pressure vm) AIVM_VM_ERR_MEMORY_PRESSURE detail)
      | Some needed \<Rightarrow>
          (case (if needed > vm_bytes_arena_limit vm then ensure_bytes_arena_capacity snapshot needed vm else (True, vm)) of
             (False, vm) \<Rightarrow> (None, raise_unless_error detail (bytes_pressure vm))
           | (True, vm) \<Rightarrow>
               (Some (vm_bytes_arena_used vm),
                vm\<lparr>vm_bytes_arena := vm_bytes_arena vm @ replicate n 0,
                   vm_heap_counters := (vm_heap_counters vm)
                     \<lparr>bytes_arena_high_water := max (bytes_arena_high_water (vm_heap_counters vm)) needed\<rparr>\<rparr>)))"

section \<open>Compaction\<close>

text \<open>The new arena and the relocations: old offset, length, new offset.\<close>

type_synonym bytes_moves = "bytes \<times> (nat \<times> nat \<times> nat) list"

definition sizeof_AivmBytesRelocation :: nat where "sizeof_AivmBytesRelocation = 24"

definition pointer_in_bytes_arena :: "bytes \<Rightarrow> nat \<Rightarrow> nat \<Rightarrow> bool" where
  "pointer_in_bytes_arena arena off len \<longleftrightarrow> arena \<noteq> [] \<and> off \<le> length arena \<and> len \<le> length arena - off"

definition find_relocation :: "(nat \<times> nat \<times> nat) list \<Rightarrow> nat \<Rightarrow> nat \<Rightarrow> (nat \<times> nat \<times> nat) option" where
  "find_relocation relocations off len = find (\<lambda>(old_data, old_length, new_data). old_data = off \<and> old_length = len) relocations"

definition compact_relocate_value_bytes ::
  "(nat \<Rightarrow> bptr) \<Rightarrow> bytes \<Rightarrow> nat \<Rightarrow> nat \<Rightarrow> AivmValue \<Rightarrow> bytes_moves \<Rightarrow> AivmValue \<times> bytes_moves option" where
  "compact_relocate_value_bytes place arena capacity relocation_capacity v s =
     (case (v, s) of
        (ValBytes (BArena off) len, (new_arena, relocations)) \<Rightarrow>
          if \<not> pointer_in_bytes_arena arena off len then (v, Some s)
          else
            (case find_relocation relocations off len of
               Some (_, _, new_data) \<Rightarrow> (ValBytes (place new_data) len, Some s)
             | None \<Rightarrow>
                 (case (if length relocations \<ge> relocation_capacity then None
                        else aivm_size_add_checked (length new_arena) len) of
                    None \<Rightarrow> (v, None)
                  | Some next_used \<Rightarrow>
                      if next_used > capacity then (v, None)
                      else (ValBytes (place (length new_arena)) len,
                            Some (new_arena @ take len (drop off arena), relocations @ [(off, len, length new_arena)]))))
      | _ \<Rightarrow> (v, Some s))"

definition add_sizes :: "nat list \<Rightarrow> nat option" where
  "add_sizes ns = foldl (\<lambda>acc n. case acc of None \<Rightarrow> None | Some k \<Rightarrow> aivm_size_add_checked k n) (Some 0) ns"

text \<open>How many values there are, an upper bound for the number of relocations.\<close>

definition bytes_slot_count :: "'a heap_vm \<Rightarrow> nat option" where
  "bytes_slot_count vm =
     (case add_sizes [vm_stack_count vm, vm_locals_count vm, length (vm_completed_tasks vm), length (vm_par_values vm)] of
        None \<Rightarrow> None
      | Some relocation_capacity \<Rightarrow>
          (case aivm_size_add_checked (vm_scratch_pair_count vm) (vm_scratch_pair_count vm) of
             None \<Rightarrow> None
           | Some pair_value_capacity \<Rightarrow> aivm_size_add_checked relocation_capacity pair_value_capacity))"

definition relocate_bytes ::
  "(nat \<Rightarrow> bptr) \<Rightarrow> (nat \<Rightarrow> bool) \<Rightarrow> nat \<Rightarrow> 'a heap_vm \<Rightarrow> 'a heap_vm \<times> bytes_moves option" where
  "relocate_bytes place live_pairs relocation_capacity vm =
     (let f = compact_relocate_value_bytes place (vm_bytes_arena vm) (vm_bytes_arena_capacity vm) relocation_capacity in
      case traverse_roots f vm ([], []) of
        (vm, Inl _) \<Rightarrow> (vm, None)
      | (vm, Inr s) \<Rightarrow>
          (case traverse (visit_live_pair f live_pairs) (enumerate 0 (vm_scratch_pairs vm)) s of
             (pairs, r) \<Rightarrow> (vm\<lparr>vm_scratch_pairs := map snd pairs\<rparr>, r)))"

definition free_bytes :: "AivmValue \<Rightarrow> AivmValue" where
  "free_bytes v = (case v of ValBytes (BArena _) len \<Rightarrow> ValBytes BFreed len | _ \<Rightarrow> v)"

definition free_pair_bytes :: "AivmScratchPair \<Rightarrow> AivmScratchPair" where
  "free_pair_bytes p = \<lparr>pair_first = free_bytes (pair_first p), pair_second = free_bytes (pair_second p)\<rparr>"

definition install_bytes_arena :: "bytes \<Rightarrow> (nat \<Rightarrow> bool) \<Rightarrow> 'a heap_vm \<Rightarrow> 'a heap_vm" where
  "install_bytes_arena new_arena live_pairs vm =
     vm\<lparr>vm_bytes_arena := new_arena,
        vm_bytes_arena_gc_threshold :=
          arena_grow_limit (length new_arena) AIVM_VM_BYTES_ARENA_INITIAL_CAPACITY (vm_bytes_arena_capacity vm),
        vm_scratch_pairs := map (\<lambda>(i, p). if live_pairs i then p else free_pair_bytes p) (enumerate 0 (vm_scratch_pairs vm))\<rparr>"

definition aivm_compact_bytes_arena :: "(nat \<Rightarrow> bool) \<Rightarrow> 'a heap_vm \<Rightarrow> bool \<times> 'a heap_vm" where
  "aivm_compact_bytes_arena alloc vm =
     (if vm_bytes_arena_used vm = 0 then (True, vm)
      else case bytes_slot_count vm of
        None \<Rightarrow> (False, aivm_set_vm_error vm AIVM_VM_ERR_MEMORY_PRESSURE ''AIVMM002: bytes compaction root count overflow.'')
      | Some relocation_capacity \<Rightarrow>
          if relocation_capacity = 0 then
            (True, vm\<lparr>vm_bytes_arena := [],
               vm_bytes_arena_gc_threshold := min (vm_bytes_arena_capacity vm) AIVM_VM_BYTES_ARENA_INITIAL_CAPACITY\<rparr>)
          else if \<not> (alloc AIVM_VM_SCRATCH_PAIR_CAPACITY \<and> alloc (vm_bytes_arena_capacity vm) \<and>
            alloc (relocation_capacity * sizeof_AivmBytesRelocation))
          then (False, aivm_set_vm_error vm AIVM_VM_ERR_MEMORY_PRESSURE
                  ''AIVMM002: bytes arena compaction workspace allocation failed.'')
          else
            (case aivm_vm_mark_live_scratch_pair_handles alloc vm of
               (None, vm) \<Rightarrow> (False, vm)
             | (Some live_pairs, vm) \<Rightarrow>
                 (case relocate_bytes BArena live_pairs relocation_capacity vm of
                    (_, None) \<Rightarrow>
                      (False, aivm_set_vm_error (fst (relocate_bytes (\<lambda>_. BFreed) live_pairs relocation_capacity vm))
                         AIVM_VM_ERR_MEMORY_PRESSURE ''AIVMM002: bytes arena capacity exceeded during compaction.'')
                  | (vm, Some (new_arena, relocations)) \<Rightarrow> (True, install_bytes_arena new_arena live_pairs vm))))"

section \<open>Correctness of the compaction\<close>

text \<open>What a compaction starts from: the arena, its capacity, the capacity of the table of relocations, and the
  ranges of the arena that are reachable.\<close>

type_synonym bytes_source = "bytes \<times> nat \<times> nat \<times> (nat \<times> nat) set"

definition same_slice :: "bytes \<Rightarrow> nat \<Rightarrow> nat \<Rightarrow> bytes \<Rightarrow> nat \<Rightarrow> bool" where
  "same_slice arena off len new off' \<longleftrightarrow> off' + len \<le> length new \<and> take len (drop off' new) = take len (drop off arena)"

fun good_moves :: "bytes_source \<Rightarrow> bytes_moves \<Rightarrow> bool" where
  "good_moves (arena, capacity, relocation_capacity, keys) (new, relocations) \<longleftrightarrow>
     distinct (map (\<lambda>(off, len, _). (off, len)) relocations) \<and> (\<lambda>(off, len, _). (off, len)) ` set relocations \<subseteq> keys \<and>
     (\<forall>(off, len, off') \<in> set relocations. same_slice arena off len new off') \<and>
     length new = (\<Sum>(off, len, _) \<leftarrow> relocations. len) \<and> length new \<le> capacity"

fun keys_fit :: "bytes_source \<Rightarrow> bool" where
  "keys_fit (arena, capacity, relocation_capacity, keys) \<longleftrightarrow>
     finite keys \<and> card keys \<le> relocation_capacity \<and> (\<Sum>(off, len) \<in> keys. len) \<le> capacity \<and> capacity \<le> SIZE_MAX"

fun data_movable :: "bytes_source \<Rightarrow> AivmValue \<Rightarrow> bool" where
  "data_movable (arena, _, _, keys) v \<longleftrightarrow>
     arena \<noteq> [] \<and> (\<forall>off len. v = ValBytes (BArena off) len \<longrightarrow> off + len \<le> length arena \<and> (off, len) \<in> keys)"

definition data_moved :: "bytes \<Rightarrow> bytes \<Rightarrow> AivmValue \<Rightarrow> AivmValue \<Rightarrow> bool" where
  "data_moved arena new v v' \<longleftrightarrow>
     (case v of ValBytes (BArena off) len \<Rightarrow> \<exists>off'. v' = ValBytes (BArena off') len \<and> same_slice arena off len new off'
      | _ \<Rightarrow> v' = v)"

fun relocate_data :: "bytes_source \<Rightarrow> AivmValue \<Rightarrow> bytes_moves \<Rightarrow> AivmValue \<times> bytes_moves option" where
  "relocate_data (arena, capacity, relocation_capacity, _) = compact_relocate_value_bytes BArena arena capacity relocation_capacity"

lemma same_slice_append: "same_slice arena off len new off' \<Longrightarrow> same_slice arena off len (new @ rest) off'"
  by (simp add: same_slice_def)

lemma data_moved_append: "data_moved arena new v v' \<Longrightarrow> data_moved arena (new @ rest) v v'"
  by (auto simp: data_moved_def same_slice_append split: AivmValue.splits bptr.splits)

lemma find_relocation_Some:
  "find_relocation relocations off len = Some (o', l', off') \<Longrightarrow> (off, len, off') \<in> set relocations"
  by (auto simp: find_relocation_def find_Some_iff in_set_conv_nth)

lemma find_relocation_None:
  "find_relocation relocations off len = None \<longleftrightarrow> (off, len) \<notin> (\<lambda>(off, len, _). (off, len)) ` set relocations"
  by (force simp: find_relocation_def find_None_iff)

lemma relocated_sizes:
  assumes "good_moves (arena, capacity, relocation_capacity, keys) (new, relocations)" and "finite keys"
    and "(off, len) \<in> keys" and "find_relocation relocations off len = None"
  shows "length relocations < card keys" and "length new + len \<le> (\<Sum>(off, len) \<in> keys. len)"
proof -
  let ?ks = "map (\<lambda>(off, len, _). (off, len)) relocations"
  have ks: "distinct ((off, len) # ?ks)" "set ((off, len) # ?ks) \<subseteq> keys"
    using assms by (auto simp: find_relocation_None)
  have "card (set ((off, len) # ?ks)) \<le> card keys"
    using ks(2) assms(2) by (rule card_mono [rotated])
  then show "length relocations < card keys"
    using distinct_card [OF ks(1)] by simp
  have "(\<Sum>(off, len) \<in> set ((off, len) # ?ks). len) \<le> (\<Sum>(off, len) \<in> keys. len)"
    using ks(2) assms(2) by (intro sum_mono2) auto
  moreover have "(\<Sum>(off, len) \<in> set ((off, len) # ?ks). len) = len + (\<Sum>(off, len) \<leftarrow> ?ks. len)"
    using sum_list_distinct_conv_sum_set [OF ks(1), of "\<lambda>(off, len). len"] by simp
  moreover have "(\<Sum>(off, len) \<leftarrow> ?ks. len) = length new"
    using assms(1) by (simp add: comp_def case_prod_unfold)
  ultimately show "length new + len \<le> (\<Sum>(off, len) \<in> keys. len)"
    by simp
qed

lemma relocate_range:
  assumes "arena \<noteq> []" and "off + len \<le> length arena"
  shows "relocate_data (arena, capacity, relocation_capacity, keys) (ValBytes (BArena off) len) (new, relocations) =
    (case find_relocation relocations off len of
       Some (_, _, off') \<Rightarrow> (ValBytes (BArena off') len, Some (new, relocations))
     | None \<Rightarrow>
         if length relocations < relocation_capacity \<and> length new \<le> SIZE_MAX - len \<and> length new + len \<le> capacity
         then (ValBytes (BArena (length new)) len,
               Some (new @ take len (drop off arena), relocations @ [(off, len, length new)]))
         else (ValBytes (BArena off) len, None))"
proof -
  have "pointer_in_bytes_arena arena off len"
    using assms by (simp add: pointer_in_bytes_arena_def)
  then show ?thesis
    by (simp add: compact_relocate_value_bytes_def aivm_size_add_checked_def split: option.split)
qed

lemma relocate_other:
  "(\<And>off len. v \<noteq> ValBytes (BArena off) len) \<Longrightarrow> relocate_data h v s = (v, Some s)"
  by (cases h; cases s) (auto simp: compact_relocate_value_bytes_def split: AivmValue.splits bptr.splits)

lemma relocate_value_moves:
  assumes "good_moves h s" and "data_movable h v" and "relocate_data h v s = (v', Some t)"
  shows "good_moves h t \<and> prefix (fst s) (fst t) \<and> data_moved (fst h) (fst t) v v'"
proof (cases "\<exists>off len. v = ValBytes (BArena off) len")
  case True
  then obtain off len where v: "v = ValBytes (BArena off) len"
    by blast
  obtain arena capacity relocation_capacity keys new relocations
    where hs: "h = (arena, capacity, relocation_capacity, keys)" "s = (new, relocations)"
    by (metis prod_cases4 surj_pair)
  have ok: "arena \<noteq> []" "off + len \<le> length arena" "(off, len) \<in> keys"
    using assms(2) by (simp_all add: hs v)
  show ?thesis
  proof (cases "find_relocation relocations off len")
    case None
    then have t: "v' = ValBytes (BArena (length new)) len" "length new + len \<le> capacity"
      "t = (new @ take len (drop off arena), relocations @ [(off, len, length new)])"
      using assms(3) by (auto simp: hs v None relocate_range [OF ok(1,2)] simp del: relocate_data.simps split: if_splits)
    moreover have "same_slice arena off len (new @ take len (drop off arena)) (length new)"
      using ok(2) by (simp add: same_slice_def)
    ultimately show ?thesis
      using assms(1) ok None by (auto simp: hs v find_relocation_None data_moved_def same_slice_append)
  next
    case (Some r)
    then obtain o' l' off' where r: "find_relocation relocations off len = Some (o', l', off')"
      by (cases r) auto
    then have "t = s" "v' = ValBytes (BArena off') len"
      using assms(3) by (auto simp: hs v r relocate_range [OF ok(1,2)] simp del: relocate_data.simps)
    then show ?thesis
      using assms(1) find_relocation_Some [OF r] by (auto simp: hs v data_moved_def)
  qed
next
  case False
  then have "v' = v" "t = s"
    using assms(3) relocate_other [of v h s] by auto
  then show ?thesis
    using assms(1) False by (auto simp: data_moved_def split: AivmValue.splits bptr.splits)
qed

interpretation bytes_relocation: relocation data_movable good_moves "\<lambda>s t. prefix (fst s) (fst t)"
  "\<lambda>h t. data_moved (fst h) (fst t)" relocate_data
proof
  show "data_moved (fst h) (fst t) v v'" if "good_moves h s" "prefix (fst s) (fst t)" "data_moved (fst h) (fst s) v v'" for h s t v v'
    using that by (auto elim!: prefixE simp: data_moved_append)
qed (simp_all add: relocate_value_moves)

interpretation fitting_relocation: total_relocation data_movable "\<lambda>h s. good_moves h s \<and> keys_fit h"
  "\<lambda>s t. prefix (fst s) (fst t)" "\<lambda>h t. data_moved (fst h) (fst t)" relocate_data
proof
  fix h :: bytes_source and s :: bytes_moves and v
  assume good: "good_moves h s \<and> keys_fit h" and ok: "data_movable h v"
  obtain arena capacity relocation_capacity keys new relocations
    where hs: "h = (arena, capacity, relocation_capacity, keys)" "s = (new, relocations)"
    by (metis prod_cases4 surj_pair)
  show "\<exists>v' t. relocate_data h v s = (v', Some t)"
  proof (cases "\<exists>off len. v = ValBytes (BArena off) len")
    case True
    then obtain off len where v: "v = ValBytes (BArena off) len"
      by blast
    have ok': "arena \<noteq> []" "off + len \<le> length arena" "(off, len) \<in> keys"
      using ok by (simp_all add: hs v)
    show ?thesis
    proof (cases "find_relocation relocations off len")
      case None
      have "length relocations < card keys" "length new + len \<le> (\<Sum>(off, len) \<in> keys. len)"
        using relocated_sizes [OF _ _ ok'(3) None] good unfolding hs by fastforce+
      then show ?thesis
        using good by (auto simp: hs v None relocate_range [OF ok'(1,2)] simp del: relocate_data.simps)
    next
      case (Some r)
      then show ?thesis
        using relocate_range [OF ok'(1,2)] by (cases r) (auto simp: hs v simp del: relocate_data.simps)
    qed
  qed (use relocate_other [of v h s] in auto)
next
  show "(good_moves h t \<and> keys_fit h) \<and> prefix (fst s) (fst t) \<and> data_moved (fst h) (fst t) v v'"
    if "good_moves h s \<and> keys_fit h" "data_movable h v" "relocate_data h v s = (v', Some t)" for h s v v' t
    using relocate_value_moves [OF _ that(2,3)] that(1) by simp
  show "data_moved (fst h) (fst t) v v'"
    if "good_moves h s \<and> keys_fit h" "prefix (fst s) (fst t)" "data_moved (fst h) (fst s) v v'" for h s t v v'
    using that by (auto elim!: prefixE simp: data_moved_append)
qed simp_all

text \<open>The ranges of a heap, and a machine whose bytes were moved.\<close>

definition bytes_keys :: "'a heap_vm \<Rightarrow> (nat \<times> nat) set" where
  "bytes_keys vm = {(off, len). reach vm (gc_roots vm []) (ValBytes (BArena off) len)}"

definition bytes_source_of :: "nat \<Rightarrow> 'a heap_vm \<Rightarrow> bytes_source" where
  "bytes_source_of relocation_capacity vm = (vm_bytes_arena vm, vm_bytes_arena_capacity vm, relocation_capacity, bytes_keys vm)"

definition slot_values :: "'a heap_vm \<Rightarrow> AivmValue list" where
  "slot_values vm = root_values vm @ map pair_first (vm_scratch_pairs vm) @ map pair_second (vm_scratch_pairs vm)"

lemma reach_slot: "reach vm (gc_roots vm []) v \<Longrightarrow> (\<exists>h. v = ValNode h) \<or> v \<in> set (slot_values vm)"
proof (induction rule: reach.induct)
  case (reach_pair h p v)
  then have "p \<in> set (vm_scratch_pairs vm)"
    using valid_handle_nth [of h "vm_scratch_pairs vm"] by (auto simp: lookup_pair_iff)
  with reach_pair show ?case
    by (auto simp: slot_values_def)
qed (auto simp: gc_roots_def slot_values_def)

lemma bytes_keys_finite:
  shows "finite (bytes_keys vm)" and "card (bytes_keys vm) \<le> length (slot_values vm)"
proof -
  let ?key = "\<lambda>v. case v of ValBytes (BArena off) len \<Rightarrow> (off, len) | _ \<Rightarrow> (0, 0)"
  have "bytes_keys vm \<subseteq> ?key ` set (slot_values vm)"
    using reach_slot by (force simp: bytes_keys_def)
  then show "finite (bytes_keys vm)" "card (bytes_keys vm) \<le> length (slot_values vm)"
    using surj_card_le [of "set (slot_values vm)" "bytes_keys vm" ?key] card_length [of "slot_values vm"]
    by (auto intro: finite_subset)
qed

definition bytes_moved :: "'a heap_vm \<Rightarrow> 'a heap_vm \<Rightarrow> bool" where
  "bytes_moved vm vm' \<longleftrightarrow>
     (let moved = data_moved (vm_bytes_arena vm) (vm_bytes_arena vm') in
      list_all2 moved (root_values vm) (root_values vm') \<and> fixed_handles vm' = fixed_handles vm \<and>
      builder_handles vm' = builder_handles vm \<and> vm_string_arena vm' = vm_string_arena vm \<and>
      vm_nodes vm' = vm_nodes vm \<and> vm_node_attrs vm' = vm_node_attrs vm \<and> vm_node_children vm' = vm_node_children vm \<and>
      vm_node_capacity vm' = vm_node_capacity vm \<and> vm_node_attr_capacity vm' = vm_node_attr_capacity vm \<and>
      vm_node_child_capacity vm' = vm_node_child_capacity vm \<and> vm_scratch_pair_count vm' = vm_scratch_pair_count vm \<and>
      (\<forall>i < vm_scratch_pair_count vm. pair_values_ok (vm_scratch_pair_count vm) (vm_scratch_pairs vm ! i) \<longrightarrow>
         pair_values_ok (vm_scratch_pair_count vm) (vm_scratch_pairs vm' ! i)) \<and>
      (\<forall>i < vm_scratch_pair_count vm. pair_live vm [] i \<longrightarrow>
         moved (pair_first (vm_scratch_pairs vm ! i)) (pair_first (vm_scratch_pairs vm' ! i)) \<and>
         moved (pair_second (vm_scratch_pairs vm ! i)) (pair_second (vm_scratch_pairs vm' ! i))))"

definition reach_data_moved :: "'a heap_vm \<Rightarrow> 'a heap_vm \<Rightarrow> AivmValue \<Rightarrow> AivmValue \<Rightarrow> bool" where
  "reach_data_moved vm vm' v v' \<longleftrightarrow>
     reach vm (gc_roots vm []) v \<and> data_moved (vm_bytes_arena vm) (vm_bytes_arena vm') v v'"

lemma data_moved_view:
  "data_moved arena new (ValBytes p len) v' \<Longrightarrow>
   \<exists>p'. v' = ValBytes p' len \<and> data_view new p' len = data_view arena p len \<and> (data_ok arena p len \<longrightarrow> data_ok new p' len)"
  by (cases p) (auto simp: data_moved_def data_view_def data_ok_def same_slice_def)

lemma data_moved_other: "data_moved arena new v v' \<Longrightarrow> (\<And>p len. v \<noteq> ValBytes p len) \<Longrightarrow> v' = v"
  by (auto simp: data_moved_def split: AivmValue.splits)

lemma data_moved_handles [simp]:
  "data_moved arena new v (ValPair k) \<longleftrightarrow> v = ValPair k" "data_moved arena new (ValPair k) v \<longleftrightarrow> v = ValPair k"
  "data_moved arena new (ValNode k) v \<longleftrightarrow> v = ValNode k"
  by (auto simp: data_moved_def split: AivmValue.splits bptr.splits)

lemma bytes_similar:
  assumes "heap_ok vm []" and "bytes_moved vm vm'" and "reach_data_moved vm vm' v v'"
  shows "similar vm vm' (reach_data_moved vm vm') v v'" and "value_ok vm' v'"
proof -
  have v: "reach vm (gc_roots vm []) v" "data_moved (vm_bytes_arena vm) (vm_bytes_arena vm') v v'" "value_ok vm v"
    using assms(1,3) by (auto simp: reach_data_moved_def heap_ok_def)
  have f: "vm_string_arena vm' = vm_string_arena vm" "vm_nodes vm' = vm_nodes vm" "vm_node_attrs vm' = vm_node_attrs vm"
    "vm_node_children vm' = vm_node_children vm" "vm_scratch_pair_count vm' = vm_scratch_pair_count vm"
    using assms(2) by (simp_all add: bytes_moved_def Let_def)
  note n = heap_fields_cong [OF f(2-4)]
  have "similar vm vm' (reach_data_moved vm vm') v v' \<and> value_ok vm' v'"
  proof (cases v)
    case (ValBytes p len)
    then show ?thesis
      using v data_moved_view [of "vm_bytes_arena vm" "vm_bytes_arena vm'" p len v'] by auto
  next
    case (ValPair k)
    let ?i = "nat (k - 1)"
    have i: "valid_handle k (vm_scratch_pair_count vm)" "pair_live vm [] ?i" "?i < vm_scratch_pair_count vm"
      using reach_pair_live [OF assms(1) v(1) ValPair] by (auto simp: valid_handle_def)
    then show ?thesis
      using v(2) ValPair assms(2) live_pair_reach [OF i(3,2)] f(5)
      by (auto simp: lookup_pair_iff bytes_moved_def Let_def reach_data_moved_def)
  next
    case (ValNode k)
    have "v' = ValNode k"
      using v(2) ValNode by simp
    moreover obtain node where node: "aivm_vm_lookup_node vm k = Some node"
      using v(3) ValNode by (auto simp: lookup_node_iff)
    moreover have "list_all2 (\<lambda>c c'. reach_data_moved vm vm' (ValNode c) (ValNode c')) (node_children vm node) (node_children vm node)"
      using reach_child [OF v(1) [unfolded ValNode] node] by (auto simp: list_all2_same reach_data_moved_def)
    ultimately show ?thesis
      using v(3) ValNode f by (simp add: n)
  qed (use v f data_moved_other [OF v(2)] in simp_all)
  then show "similar vm vm' (reach_data_moved vm vm') v v'" "value_ok vm' v'"
    by simp_all
qed

lemma bytes_moved_keeps:
  assumes "heap_ok vm []" and "bytes_moved vm vm'"
  shows "same_views vm vm'" and "heap_ok vm' []"
proof -
  let ?R = "reach_data_moved vm vm'"
  have f: "list_all2 (data_moved (vm_bytes_arena vm) (vm_bytes_arena vm')) (root_values vm) (root_values vm')"
    "fixed_handles vm' = fixed_handles vm" "builder_handles vm' = builder_handles vm" "vm_string_arena vm' = vm_string_arena vm"
    "vm_nodes vm' = vm_nodes vm" "vm_node_attrs vm' = vm_node_attrs vm" "vm_node_children vm' = vm_node_children vm"
    "vm_node_capacity vm' = vm_node_capacity vm" "vm_node_attr_capacity vm' = vm_node_attr_capacity vm"
    "vm_node_child_capacity vm' = vm_node_child_capacity vm" "vm_scratch_pair_count vm' = vm_scratch_pair_count vm"
    using assms(2) by (simp_all add: bytes_moved_def Let_def)
  have closed: "heap_closed vm"
    using assms(1) by (simp add: heap_ok_def)
  have "list_all2 ?R (root_values vm) (root_values vm')"
    using f(1) gc_root_values [of _ vm "[]"] by (auto simp: list_all2_conv_all_nth reach_data_moved_def)
  then have roots: "list_all2 ?R (root_list vm) (root_list vm')"
    using reach_root [of _ "gc_roots vm []" vm] unfolding root_list_def f(2,3)
    by (intro list_all2_appendI) (auto simp: list.rel_map reach_data_moved_def gc_roots_def intro!: list.rel_refl_strong)
  show "same_views vm vm'"
    by (rule same_viewsI [of ?R vm vm', OF bytes_similar(1) [OF assms] roots])
  have "\<exists>v. ?R v v'" if "v' \<in> gc_roots vm' []" for v'
    using list_all2_source [OF roots] that by (simp add: root_list_set)
  then have "value_ok vm' v'" if "reach vm' (gc_roots vm' []) v'" for v'
    using reach_similar [of ?R vm vm', OF bytes_similar(1) [OF assms] _ that] bytes_similar(2) [OF assms] by blast
  moreover have "pair_values_ok (vm_scratch_pair_count vm') p" if p: "p \<in> set (vm_scratch_pairs vm')" for p
  proof -
    obtain i where i: "i < vm_scratch_pair_count vm" "p = vm_scratch_pairs vm' ! i"
      using p f(11) by (auto simp: in_set_conv_nth)
    have "pair_values_ok (vm_scratch_pair_count vm) (vm_scratch_pairs vm ! i)"
      using closed i(1) by (simp add: heap_closed_def)
    then show ?thesis
      using i assms(2) f(11) by (simp add: bytes_moved_def Let_def)
  qed
  ultimately show "heap_ok vm' []"
    using closed f(4-11) heap_fields_cong(5) [OF f(5-7)] by (simp add: heap_ok_def heap_closed_def)
qed

lemma free_bytes_pair [simp]: "free_bytes v = ValPair k \<longleftrightarrow> v = ValPair k"
  by (auto simp: free_bytes_def split: AivmValue.splits bptr.splits)

text \<open>A relocation that succeeds gives a machine with the same bytes, which are not more than the reachable ranges.\<close>

lemma relocated_bytes_move:
  assumes "heap_ok vm []" and "vm_bytes_arena vm \<noteq> []"
    and "relocate_bytes BArena (pair_live vm []) relocation_capacity vm = (vm1, Some (new, relocations))"
  shows "bytes_moved vm (install_bytes_arena new (pair_live vm []) vm1)"
    and "good_moves (bytes_source_of relocation_capacity vm) (new, relocations)"
    and "\<exists>st ls rs ps pairs. vm1 = (put_roots st ls rs ps vm)\<lparr>vm_scratch_pairs := pairs\<rparr>"
proof -
  let ?h = "bytes_source_of relocation_capacity vm" and ?live = "pair_live vm []"
  have step: "relocate_data ?h = compact_relocate_value_bytes BArena (vm_bytes_arena vm) (vm_bytes_arena_capacity vm) relocation_capacity"
    by (simp add: bytes_source_of_def)
  have ok: "data_movable ?h v" if "reach vm (gc_roots vm []) v" for v
    using assms(1,2) that by (auto simp: bytes_source_of_def bytes_keys_def heap_ok_def data_ok_def)
  have arena: "fst ?h = vm_bytes_arena vm" and start: "good_moves ?h ([], [])"
    by (simp_all add: bytes_source_of_def)
  obtain vm0 s es where r: "traverse_roots (relocate_data ?h) vm ([], []) = (vm0, Inr s)"
    "traverse (visit_live_pair (relocate_data ?h) ?live) (enumerate 0 (vm_scratch_pairs vm0)) s = (es, Some (new, relocations))"
    "vm1 = vm0\<lparr>vm_scratch_pairs := map snd es\<rparr>"
    using assms(3) unfolding relocate_bytes_def Let_def step by (auto split: prod.splits sum.splits)
  note roots = bytes_relocation.roots_relocated [OF r(1) start, unfolded arena]
  have rv: "data_movable ?h v" if "v \<in> set (root_values vm)" for v
    using ok gc_root_values [OF that] by blast
  obtain st ls rs ps where vm0: "vm0 = put_roots st ls rs ps vm"
    using roots(1) rv by blast
  have live_ok: "data_movable ?h (pair_first (vm_scratch_pairs vm ! i)) \<and> data_movable ?h (pair_second (vm_scratch_pairs vm ! i))"
    if "i < vm_scratch_pair_count vm" "?live i" for i
    using ok live_pair_reach [OF that] by simp
  have "good_moves ?h s"
    using roots(2) rv by blast
  note pairs = bytes_relocation.pairs_relocated [OF r(2) [unfolded vm0 put_roots_fields] this, unfolded arena fst_conv]
  have moved: "if ?live i then data_moved (vm_bytes_arena vm) new (pair_first (vm_scratch_pairs vm ! i)) (pair_first (map snd es ! i)) \<and>
      data_moved (vm_bytes_arena vm) new (pair_second (vm_scratch_pairs vm ! i)) (pair_second (map snd es ! i))
    else map snd es ! i = vm_scratch_pairs vm ! i" if "i < vm_scratch_pair_count vm" for i
    by (rule pairs(4)) (use live_ok that in blast)+
  let ?vm2 = "install_bytes_arena new ?live vm1" and ?n = "vm_scratch_pair_count vm"
  have "prefix (fst s) new" "good_moves ?h (new, relocations)" and len: "length es = ?n"
    using pairs(1-3) live_ok by simp_all
  then show "good_moves ?h (new, relocations)"
    by simp
  show "\<exists>st ls rs ps pairs. vm1 = (put_roots st ls rs ps vm)\<lparr>vm_scratch_pairs := pairs\<rparr>"
    using r(3) vm0 by blast
  have f: "vm_bytes_arena ?vm2 = new" "root_values ?vm2 = root_values vm0" "fixed_handles ?vm2 = fixed_handles vm"
    "builder_handles ?vm2 = builder_handles vm" "vm_string_arena ?vm2 = vm_string_arena vm"
    "vm_nodes ?vm2 = vm_nodes vm" "vm_node_attrs ?vm2 = vm_node_attrs vm" "vm_node_children ?vm2 = vm_node_children vm"
    "vm_node_capacity ?vm2 = vm_node_capacity vm" "vm_node_attr_capacity ?vm2 = vm_node_attr_capacity vm"
    "vm_node_child_capacity ?vm2 = vm_node_child_capacity vm" "vm_scratch_pair_count ?vm2 = ?n"
    using len by (simp_all add: install_bytes_arena_def r(3) vm0 root_values_def local_values_def fixed_handles_def builder_handles_def)
  have pair: "vm_scratch_pairs ?vm2 ! i = (if ?live i then map snd es ! i else free_pair_bytes (map snd es ! i))" if "i < ?n" for i
    using that len by (simp add: install_bytes_arena_def r(3) nth_enumerate_eq)
  have "pair_values_ok ?n (vm_scratch_pairs ?vm2 ! i)" if i: "i < ?n" "pair_values_ok ?n (vm_scratch_pairs vm ! i)" for i
    using i(2) moved [OF i(1)] unfolding pair [OF i(1)] by (auto simp: pair_values_ok_def free_pair_bytes_def split: if_splits)
  moreover have "list_all2 (data_moved (vm_bytes_arena vm) new) (root_values vm) (root_values ?vm2)"
    using list_all2_mono [OF roots(4)] rv \<open>prefix (fst s) new\<close> unfolding f(2) by (auto elim!: prefixE simp: data_moved_append)
  ultimately show "bytes_moved vm ?vm2"
    unfolding bytes_moved_def Let_def f using moved pair by simp
qed

lemma relocated_length:
  assumes "good_moves (bytes_source_of relocation_capacity vm) (new, relocations)"
  shows "length new \<le> (\<Sum>(off, len) \<in> bytes_keys vm. len)" and "length new \<le> vm_bytes_arena_capacity vm"
proof -
  let ?ks = "map (\<lambda>(off, len, _). (off, len)) relocations"
  have "(\<Sum>(off, len) \<in> set ?ks. len) \<le> (\<Sum>(off, len) \<in> bytes_keys vm. len)"
    using assms bytes_keys_finite(1) [of vm] by (intro sum_mono2) (auto simp: bytes_source_of_def)
  moreover have "(\<Sum>(off, len) \<in> set ?ks. len) = length new"
    using assms sum_list_distinct_conv_sum_set [of ?ks "\<lambda>(off, len). len"]
    by (simp add: bytes_source_of_def comp_def case_prod_unfold)
  ultimately show "length new \<le> (\<Sum>(off, len) \<in> bytes_keys vm. len)"
    by simp
qed (use assms in \<open>simp add: bytes_source_of_def\<close>)

lemma relocate_bytes_total:
  assumes "heap_ok vm []" and "vm_bytes_arena vm \<noteq> []" and "keys_fit (bytes_source_of relocation_capacity vm)"
  shows "\<exists>vm1 s. relocate_bytes BArena (pair_live vm []) relocation_capacity vm = (vm1, Some s)"
proof -
  let ?h = "bytes_source_of relocation_capacity vm" and ?live = "pair_live vm []"
  have step: "relocate_data ?h = compact_relocate_value_bytes BArena (vm_bytes_arena vm) (vm_bytes_arena_capacity vm) relocation_capacity"
    by (simp add: bytes_source_of_def)
  have ok: "data_movable ?h v" if "reach vm (gc_roots vm []) v" for v
    using assms(1,2) that by (auto simp: bytes_source_of_def bytes_keys_def heap_ok_def data_ok_def)
  have start: "good_moves ?h ([], []) \<and> keys_fit ?h"
    using assms(3) by (simp add: bytes_source_of_def)
  have rv: "data_movable ?h v" if "v \<in> set (root_values vm)" for v
    using ok gc_root_values [OF that] by blast
  obtain vm0 s where r: "traverse_roots (relocate_data ?h) vm ([], []) = (vm0, Inr s)"
    using fitting_relocation.roots_total [OF start] rv by blast
  obtain st ls rs ps where vm0: "vm0 = put_roots st ls rs ps vm"
    using bytes_relocation.roots_relocated(1) [OF r] rv start by blast
  have "good_moves ?h s \<and> keys_fit ?h"
    using fitting_relocation.roots_relocated(2) [OF r start] rv by blast
  moreover have "data_movable ?h (pair_first (vm_scratch_pairs vm ! i)) \<and> data_movable ?h (pair_second (vm_scratch_pairs vm ! i))"
    if "i < vm_scratch_pair_count vm" "?live i" for i
    using ok live_pair_reach [OF that] by simp
  ultimately obtain es t where "traverse (visit_live_pair (relocate_data ?h) ?live) (enumerate 0 (vm_scratch_pairs vm)) s = (es, Some t)"
    using fitting_relocation.pairs_total [of ?h s "vm_scratch_pairs vm" ?live] by blast
  then show ?thesis
    using r unfolding relocate_bytes_def Let_def step by (simp add: vm0)
qed

text \<open>When the compaction has the memory it asks for, and when what it copies fits.\<close>

definition bytes_compaction_memory :: "(nat \<Rightarrow> bool) \<Rightarrow> 'a heap_vm \<Rightarrow> bool" where
  "bytes_compaction_memory alloc vm \<longleftrightarrow>
     alloc AIVM_VM_SCRATCH_PAIR_CAPACITY \<and> alloc (vm_bytes_arena_capacity vm) \<and>
     alloc (length (slot_values vm) * sizeof_AivmBytesRelocation) \<and> pair_mark_memory alloc vm"

definition bytes_fit :: "'a heap_vm \<Rightarrow> bool" where
  "bytes_fit vm \<longleftrightarrow>
     (\<Sum>(off, len) \<in> bytes_keys vm. len) \<le> vm_bytes_arena_capacity vm \<and> vm_bytes_arena_capacity vm \<le> SIZE_MAX \<and>
     length (slot_values vm) \<le> SIZE_MAX"

lemma slot_count:
  "length (slot_values vm) \<le> SIZE_MAX \<Longrightarrow> bytes_slot_count vm = Some (length (slot_values vm))"
  "bytes_slot_count vm = Some n \<Longrightarrow> n = length (slot_values vm)"
  by (auto simp: bytes_slot_count_def add_sizes_def aivm_size_add_checked_def slot_values_def root_values_def local_values_def
    split: option.splits if_splits)

lemma slot_values_empty:
  assumes "slot_values vm = []"
  shows "bytes_moved vm (vm\<lparr>vm_bytes_arena := [], vm_bytes_arena_gc_threshold := threshold\<rparr>)"
  using assms by (simp add: bytes_moved_def slot_values_def root_values_def local_values_def fixed_handles_def builder_handles_def)

lemma bytes_compacted:
  assumes "heap_ok vm []" and "aivm_compact_bytes_arena alloc vm = (True, vm')"
  shows "same_views vm vm'" and "heap_ok vm' []"
    and "vm_bytes_arena_used vm' \<le> (if vm_bytes_arena_used vm = 0 then 0 else \<Sum>(off, len) \<in> bytes_keys vm. len)"
    and "vm_bytes_arena_used vm' \<le> vm_bytes_arena_capacity vm'"
    and "same_string_arena vm vm'"
proof -
  have "(vm_bytes_arena vm = [] \<and> vm' = vm) \<or>
    bytes_moved vm vm' \<and> same_string_arena vm vm' \<and> vm_bytes_arena_used vm' \<le> (\<Sum>(off, len) \<in> bytes_keys vm. len) \<and>
      vm_bytes_arena_used vm' \<le> vm_bytes_arena_capacity vm' \<and> vm_bytes_arena vm \<noteq> []"
  proof (cases "vm_bytes_arena vm = []"; cases "slot_values vm = []")
    assume e: "vm_bytes_arena vm \<noteq> []" "slot_values vm = []"
    have "bytes_slot_count vm = Some 0"
      using slot_count(1) [of vm] e(2) by simp
    then have "vm' = vm\<lparr>vm_bytes_arena := [],
        vm_bytes_arena_gc_threshold := min (vm_bytes_arena_capacity vm) AIVM_VM_BYTES_ARENA_INITIAL_CAPACITY\<rparr>"
      using e assms(2) by (simp add: aivm_compact_bytes_arena_def)
    then show ?thesis
      using e slot_values_empty [OF e(2)] by (simp add: same_string_arena_def)
  next
    assume e: "vm_bytes_arena vm \<noteq> []" "slot_values vm \<noteq> []"
    let ?n = "length (slot_values vm)"
    have n: "bytes_slot_count vm = Some ?n"
      using assms(2) e slot_count(2) [of vm] by (auto simp: aivm_compact_bytes_arena_def split: option.splits)
    have memory: "pair_mark_memory alloc vm"
    proof (rule ccontr)
      assume "\<not> pair_mark_memory alloc vm"
      then obtain detail where "aivm_vm_mark_live_scratch_pair_handles alloc vm = (None, aivm_set_vm_error vm AIVM_VM_ERR_MEMORY_PRESSURE detail)"
        using pairs_not_marked by blast
      then show False
        using assms(2) e n by (simp add: aivm_compact_bytes_arena_def split: if_splits)
    qed
    have marks: "aivm_vm_mark_live_scratch_pair_handles alloc vm = (Some (pair_live vm []), vm)"
      using pairs_marked [OF assms(1) memory] by (auto simp: pair_live_def fun_eq_iff)
    obtain vm1 new relocations where r: "relocate_bytes BArena (pair_live vm []) ?n vm = (vm1, Some (new, relocations))"
      "vm' = install_bytes_arena new (pair_live vm []) vm1"
      using assms(2) e n marks by (auto simp: aivm_compact_bytes_arena_def split: if_splits prod.splits option.splits)
    note moved = relocated_bytes_move [OF assms(1) _ r(1)]
    have "vm_bytes_arena vm' = new" "vm_bytes_arena_capacity vm' = vm_bytes_arena_capacity vm" "same_string_arena vm vm'"
      using moved(3) e r(2) by (auto simp: install_bytes_arena_def same_string_arena_def)
    then show ?thesis
      using moved(1) relocated_length [OF moved(2)] e r(2) by auto
  qed (use assms(2) in \<open>simp_all add: aivm_compact_bytes_arena_def\<close>)
  then show "same_views vm vm'" "heap_ok vm' []"
    "vm_bytes_arena_used vm' \<le> (if vm_bytes_arena_used vm = 0 then 0 else \<Sum>(off, len) \<in> bytes_keys vm. len)"
    "vm_bytes_arena_used vm' \<le> vm_bytes_arena_capacity vm'" "same_string_arena vm vm'"
    using bytes_moved_keeps [OF assms(1), of vm'] assms(1) same_views_refl by auto
qed

lemma bytes_compaction_succeeds:
  assumes "heap_ok vm []" and "bytes_fit vm" and "bytes_compaction_memory alloc vm"
  shows "\<exists>vm'. aivm_compact_bytes_arena alloc vm = (True, vm')"
proof (cases "vm_bytes_arena vm = [] \<or> slot_values vm = []")
  case True
  then show ?thesis
    using slot_count(1) [of vm] assms(2) by (auto simp: aivm_compact_bytes_arena_def bytes_fit_def)
next
  case False
  let ?n = "length (slot_values vm)"
  have marks: "aivm_vm_mark_live_scratch_pair_handles alloc vm = (Some (pair_live vm []), vm)"
    using pairs_marked [of vm "[]" alloc] assms(1,3) by (auto simp: pair_live_def fun_eq_iff bytes_compaction_memory_def)
  have "keys_fit (bytes_source_of ?n vm)"
    using assms(2) bytes_keys_finite [of vm] by (simp add: bytes_source_of_def bytes_fit_def)
  then obtain vm1 new relocations where r: "relocate_bytes BArena (pair_live vm []) ?n vm = (vm1, Some (new, relocations))"
    using relocate_bytes_total [OF assms(1), of ?n] False by auto
  then show ?thesis
    using False assms(2,3) marks slot_count(1) [of vm]
    by (simp add: aivm_compact_bytes_arena_def bytes_compaction_memory_def bytes_fit_def)
qed

lemma bytes_compaction_error:
  assumes "aivm_compact_bytes_arena alloc vm = (False, vm')"
  shows "vm_status vm' = AIVM_VM_STATUS_ERROR"
proof -
  have "vm_status vm' = AIVM_VM_STATUS_ERROR" if "aivm_vm_mark_live_scratch_pair_handles alloc vm = (None, vm')" for vm'
    using that by (auto simp: aivm_vm_mark_live_scratch_pair_handles_def aivm_set_vm_error_def Let_def split: if_splits sum.splits)
  then show ?thesis
    using assms by (auto simp: aivm_compact_bytes_arena_def aivm_set_vm_error_def split: if_splits option.splits prod.splits)
qed

text \<open>Compaction of the bytes arena of a well-formed heap either succeeds or reports an
  error. When it succeeds it keeps everything a program can see through the roots and a well-formed heap, and
  the arena holds no more than the reachable ranges. It succeeds whenever its workspace can be
  allocated and the reachable ranges, each counted once, fit the capacity.\<close>

lemma bytes_compaction_keeps_values:
  assumes "heap_ok vm []"
  shows "\<exists>ok vm'. aivm_compact_bytes_arena alloc vm = (ok, vm') \<and>
    (if ok then same_views vm vm' \<and> heap_ok vm' [] \<and> vm_bytes_arena_used vm' \<le> vm_bytes_arena_capacity vm' \<and>
       vm_bytes_arena_used vm' \<le> (if vm_bytes_arena_used vm = 0 then 0 else \<Sum>(off, len) \<in> bytes_keys vm. len)
     else vm_status vm' = AIVM_VM_STATUS_ERROR \<and> \<not> (bytes_fit vm \<and> bytes_compaction_memory alloc vm))"
proof -
  obtain ok vm' where r: "aivm_compact_bytes_arena alloc vm = (ok, vm')"
    by fastforce
  show ?thesis
  proof (cases ok)
    case True
    then show ?thesis
      using bytes_compacted [OF assms, of alloc vm'] r by (intro exI [of _ True] exI [of _ vm']) simp
  next
    case False
    then show ?thesis
      using bytes_compaction_error [of alloc vm vm'] bytes_compaction_succeeds [OF assms, of alloc] r by auto
  qed
qed

definition bytes_demo :: AivmHeapVm where
  "bytes_demo = heap_demo\<lparr>vm_stack := [ValBytes (BArena 1) 2], vm_bytes_arena := [1, 2, 3, 4]\<rparr>"

lemma bytes_demo_fixed: "fixed_handles bytes_demo = [0, 0, 0]"
  using heap_demo_fields(6) by (simp add: fixed_handles_def bytes_demo_def)

lemma bytes_demo_roots: "gc_roots bytes_demo [] = {ValBytes (BArena 1) 2}"
  unfolding gc_roots_def bytes_demo_fixed
  by (auto simp: bytes_demo_def root_values_def local_values_def builder_handles_def heap_demo_fields)

lemma bytes_demo_reach: "reach bytes_demo (gc_roots bytes_demo []) v \<Longrightarrow> v = ValBytes (BArena 1) 2"
  by (induction rule: reach.induct) (simp_all add: bytes_demo_roots)

lemma bytes_demo_ok: "heap_ok bytes_demo []" "bytes_fit bytes_demo"
proof -
  have "heap_closed bytes_demo"
    using heap_demo_ok by (simp add: heap_ok_def heap_closed_def bytes_demo_def node_shape_ok_def node_children_def)
  moreover have "value_ok bytes_demo (ValBytes (BArena 1) 2)"
    by (simp add: data_ok_def bytes_demo_def)
  ultimately show "heap_ok bytes_demo []"
    using bytes_demo_reach unfolding heap_ok_def by metis
  have "bytes_keys bytes_demo = {(1, 2)}"
    using bytes_demo_reach reach_root [of _ "gc_roots bytes_demo []" bytes_demo] by (fastforce simp: bytes_keys_def bytes_demo_roots)
  moreover have "vm_bytes_arena_capacity bytes_demo = 64"
    by (simp add: bytes_demo_def heap_demo_def AivmMapVm.defs)
  moreover have "length (slot_values bytes_demo) = 5"
    by (simp add: slot_values_def root_values_def local_values_def bytes_demo_def heap_demo_fields)
  ultimately show "bytes_fit bytes_demo"
    by (simp add: bytes_fit_def SIZE_MAX_def)
qed

lemma bytes_compaction_keeps_values_witness:
  "\<exists>vm'. aivm_compact_bytes_arena (\<lambda>n. True) bytes_demo = (True, vm') \<and> same_views bytes_demo vm'"
  using bytes_compaction_keeps_values [OF bytes_demo_ok(1), of "\<lambda>n. True"] bytes_demo_ok(2)
  by (auto simp: bytes_compaction_memory_def pair_mark_memory_def split: if_splits)

end
