(* ===== verification/Safe_Point.thy ===== *)
theory Safe_Point
  imports VM_Properties Node_Arena String_Compaction Bytes_Arena
begin

text \<open>
  The safe point of the interpreter (\<open>collect_safe_point_internal\<close>, \<open>aivm_collect_safe_point\<close> and the collection at a
  return, \<^verbatim>\<open>src/src/aivm_vm.c\<close>): nodes, pairs, texts and bytes are collected one after the other. The contract
  of a collector is a locale: it keeps what a program can see, and the control state of the machine. The four
  compactions are its instances, and a sequence of collectors is a collector.
\<close>

section \<open>The safe point\<close>

definition and_then :: "('m \<Rightarrow> bool \<times> 'm) \<Rightarrow> ('m \<Rightarrow> bool \<times> 'm) \<Rightarrow> 'm \<Rightarrow> bool \<times> 'm" where
  "and_then f g vm = (case f vm of (False, vm) \<Rightarrow> (False, vm) | (True, vm) \<Rightarrow> g vm)"

definition collect_when :: "('m \<Rightarrow> bool) \<Rightarrow> ('m \<Rightarrow> bool \<times> 'm) \<Rightarrow> 'm \<Rightarrow> bool \<times> 'm" where
  "collect_when cond f vm = (if cond vm then f vm else (True, vm))"

definition collect_nodes_now :: "(nat \<Rightarrow> bool) \<Rightarrow> 'a heap_vm \<Rightarrow> bool \<times> 'a heap_vm" where
  "collect_nodes_now alloc vm =
     (case aivm_vm_compact_node_arenas_with_map alloc vm [] of
        (None, vm) \<Rightarrow> (False, vm)
      | (Some _, vm) \<Rightarrow> (True, vm\<lparr>vm_node_allocations_since_gc := 0\<rparr>))"

definition collect_safe_point_internal :: "(nat \<Rightarrow> bool) \<Rightarrow> nat \<Rightarrow> bool \<Rightarrow> bool \<Rightarrow> 'a heap_vm \<Rightarrow> bool \<times> 'a heap_vm" where
  "collect_safe_point_internal alloc block collect_nodes collect_bytes =
     and_then (collect_when (\<lambda>vm. collect_nodes \<and> vm_node_count vm > 0) (collect_nodes_now alloc))
       (and_then (collect_when (\<lambda>vm. collect_nodes \<and> vm_scratch_pair_count vm > 0) (aivm_vm_compact_scratch_pairs alloc))
          (and_then (collect_when (\<lambda>vm. collect_nodes \<and> vm_string_arena_used vm > 0) (aivm_compact_string_arena alloc block))
             (collect_when (\<lambda>vm. collect_bytes \<and> vm_bytes_arena_used vm > 0) (aivm_compact_bytes_arena alloc))))"

definition aivm_collect_safe_point :: "(nat \<Rightarrow> bool) \<Rightarrow> nat \<Rightarrow> 'a heap_vm \<Rightarrow> bool \<times> 'a heap_vm" where
  "aivm_collect_safe_point alloc block = collect_safe_point_internal alloc block True True"

text \<open>The collection when a function returns: growth of the node arenas makes a collection of nodes unnecessary.\<close>

definition return_safe_point ::
  "(nat \<Rightarrow> bool) \<Rightarrow> nat \<Rightarrow> (nat \<times> nat) option \<Rightarrow> 'a heap_vm \<Rightarrow> bool \<times> 'a heap_vm" where
  "return_safe_point alloc block snapshot vm =
     (let collect_nodes = aivm_vm_should_attempt_return_safe_point vm;
          collect_bytes = aivm_vm_should_attempt_bytes_return_safe_point vm in
      case (if collect_nodes then aivm_vm_try_grow_pressure_node_arenas alloc snapshot vm else (False, vm)) of
        (grew, vm) \<Rightarrow>
          let collect_nodes = (collect_nodes \<and> \<not> grew) in
          if collect_nodes \<or> collect_bytes then collect_safe_point_internal alloc block collect_nodes collect_bytes vm
          else (True, vm))"

section \<open>What a collection leaves alone\<close>

text \<open>The control state, and that a new error is a complete one.\<close>

definition same_control :: "'a vm \<Rightarrow> 'a vm \<Rightarrow> bool" where
  "same_control vm vm' \<longleftrightarrow>
     vm_program vm' = vm_program vm \<and> vm_runtime_profile vm' = vm_runtime_profile vm \<and>
     vm_instruction_pointer vm' = vm_instruction_pointer vm \<and>
     vm_stack_count vm' = vm_stack_count vm \<and> vm_stack_limit vm' = vm_stack_limit vm \<and>
     vm_call_frames vm' = vm_call_frames vm \<and> vm_call_frame_limit vm' = vm_call_frame_limit vm \<and>
     vm_locals_count vm' = vm_locals_count vm \<and> vm_locals_limit vm' = vm_locals_limit vm"

definition no_new_error :: "'a vm \<Rightarrow> 'a vm \<Rightarrow> bool" where
  "no_new_error vm vm' \<longleftrightarrow>
     vm_status vm' = vm_status vm \<and> vm_error vm' = vm_error vm \<and> vm_error_detail vm' = vm_error_detail vm"

definition error_state :: "'a vm \<Rightarrow> bool" where
  "error_state vm \<longleftrightarrow> vm_status vm = AIVM_VM_STATUS_ERROR \<and> vm_error vm \<noteq> AIVM_VM_ERR_NONE \<and> vm_error_detail vm \<noteq> None"

lemma same_control_refl [simp]: "same_control vm vm"
  by (simp add: same_control_def)

lemma same_control_trans: "same_control vm vm1 \<Longrightarrow> same_control vm1 vm2 \<Longrightarrow> same_control vm vm2"
  by (simp add: same_control_def)

lemma no_new_error_refl [simp]: "no_new_error vm vm"
  by (simp add: no_new_error_def)

lemma no_new_error_trans: "no_new_error vm vm1 \<Longrightarrow> no_new_error vm1 vm2 \<Longrightarrow> no_new_error vm vm2"
  by (simp add: no_new_error_def)

lemma set_error_control [simp]:
  "same_control vm (aivm_set_vm_error vm' err detail) = same_control vm vm'"
  "error_state (aivm_set_vm_error vm err detail) \<longleftrightarrow> err \<noteq> AIVM_VM_ERR_NONE"
  by (simp_all add: same_control_def error_state_def aivm_set_vm_error_def)

lemma same_control_running:
  "running_ok p vm \<Longrightarrow> same_control vm vm' \<Longrightarrow> no_new_error vm vm' \<or> error_state vm' \<Longrightarrow> running_ok p vm'"
  by (auto simp: running_ok_def machine_ok_def vm_bounds_def same_control_def no_new_error_def error_state_def)

text \<open>What the interpreter relies on: a result with the control state, and an error exactly when it failed.\<close>

definition outcome_ok :: "'a vm \<Rightarrow> bool \<times> 'a vm \<Rightarrow> bool" where
  "outcome_ok vm r \<longleftrightarrow> same_control vm (snd r) \<and> (if fst r then no_new_error vm (snd r) else error_state (snd r))"

lemma outcome_ok_running: "running_ok p vm \<Longrightarrow> outcome_ok vm r \<Longrightarrow> running_ok p (snd r)"
  using same_control_running [of p vm "snd r"] by (auto simp: outcome_ok_def split: if_splits)

subsection \<open>Traversals\<close>

lemma traverse_lengthD: "traverse f vs s = (vs', r) \<Longrightarrow> length vs' = length vs"
  using traverse_length [of f vs s] by simp

lemma traverse_roots_control:
  "traverse_roots f vm s = (vm', r) \<Longrightarrow> same_control vm vm' \<and> no_new_error vm vm'"
  by (auto simp: traverse_roots_def Let_def same_control_def no_new_error_def set_local_values_def set_task_results_def
      dest!: traverse_lengthD split: prod.splits option.splits)

subsection \<open>Marks\<close>

definition proper_error :: "AivmVmError \<times> string \<Rightarrow> bool" where
  "proper_error e \<longleftrightarrow> fst e \<noteq> AIVM_VM_ERR_NONE"

lemma proper_error_Pair [simp]: "proper_error (err, detail) \<longleftrightarrow> err \<noteq> AIVM_VM_ERR_NONE"
  by (simp add: proper_error_def)

lemma mark_each_error:
  assumes "\<And>v s e. f v s = Inl e \<Longrightarrow> proper_error e"
  shows "mark_each f vs s = Inl e \<Longrightarrow> proper_error e"
  by (induction vs arbitrary: s) (auto split: sum.splits dest: assms)

lemma mark_pair_value_error: "mark_live_scratch_pair_value pairs v s = Inl e \<Longrightarrow> proper_error e"
  by (auto simp: mark_live_scratch_pair_value_def Let_def split: AivmValue.splits prod.splits if_splits)

lemma mark_pair_values_error: "mark_each (mark_live_scratch_pair_value pairs) vs s = Inl e \<Longrightarrow> proper_error e"
  by (rule mark_each_error) (auto dest: mark_pair_value_error)

lemma mark_components_error: "mark_pair_components pairs i s = Inl e \<Longrightarrow> proper_error e"
  unfolding mark_pair_components_def by (rule mark_pair_values_error)

lemma mark_pairs_loop_error: "mark_pairs_loop pairs s = Inl e \<Longrightarrow> proper_error e"
proof (induction pairs s rule: mark_pairs_loop.induct)
  case (1 pairs live pending)
  from 1(2) [unfolded mark_pairs_loop.simps [of pairs live pending]] 1(1) show ?case
    by (auto split: list.splits sum.splits dest!: mark_components_error)
qed

lemma mark_pairs_outcome:
  assumes "aivm_vm_mark_live_scratch_pair_handles alloc vm = (r, vm')"
  shows "if r = None then same_control vm vm' \<and> error_state vm' else vm' = vm"
  using assms
  by (auto simp: aivm_vm_mark_live_scratch_pair_handles_def split: if_splits sum.splits
      dest!: mark_pair_values_error mark_pairs_loop_error)

lemma enqueue_error:
  "enqueue_handle n cap h s = Inl e \<Longrightarrow> proper_error e" "enqueue_value n cap v s = Inl e \<Longrightarrow> proper_error e"
  "enqueue_extra n cap h s = Inl e \<Longrightarrow> proper_error e" "enqueue_child vm node i s = Inl e \<Longrightarrow> proper_error e"
proof -
  show h: "enqueue_handle n cap h s = Inl e \<Longrightarrow> proper_error e" for n cap h s e
    by (auto simp: enqueue_handle_def Let_def split: prod.splits if_splits)
  show "enqueue_value n cap v s = Inl e \<Longrightarrow> proper_error e" "enqueue_extra n cap h s = Inl e \<Longrightarrow> proper_error e"
    "enqueue_child vm node i s = Inl e \<Longrightarrow> proper_error e"
    by (auto simp: enqueue_value_def enqueue_extra_def enqueue_child_def dest: h split: AivmValue.splits option.splits if_splits)
qed

lemma enqueue_children_error: "enqueue_children vm i s = Inl e \<Longrightarrow> proper_error e"
  by (auto simp: enqueue_children_def split: option.splits intro: mark_each_error [where f = "enqueue_child vm node" for node] enqueue_error(4))

lemma mark_nodes_loop_error: "mark_nodes_loop vm s = Inl e \<Longrightarrow> proper_error e"
proof (induction vm s rule: mark_nodes_loop.induct)
  case (1 vm live w queue)
  from 1(2) [unfolded mark_nodes_loop.simps [of vm live w queue]] 1(1) show ?case
    by (auto split: list.splits sum.splits dest!: enqueue_children_error)
qed

lemma enqueue_each_error:
  "mark_each (enqueue_handle n cap) hs s = Inl e \<Longrightarrow> proper_error e" "mark_each (enqueue_value n cap) vs s = Inl e \<Longrightarrow> proper_error e"
  "mark_each (enqueue_extra n cap) hs s = Inl e \<Longrightarrow> proper_error e"
  by (auto intro: mark_each_error [where f = "enqueue_handle n cap"] mark_each_error [where f = "enqueue_value n cap"]
      mark_each_error [where f = "enqueue_extra n cap"] dest: enqueue_error)

lemma enqueue_roots_error: "enqueue_roots vm lp extra s = Inl e \<Longrightarrow> proper_error e"
  by (auto simp: enqueue_roots_def Let_def split: sum.splits dest: enqueue_each_error)

lemma mark_nodes_outcome:
  assumes "aivm_vm_mark_live_node_handles alloc vm extra = (r, vm')"
  shows "if r = None then same_control vm vm' \<and> error_state vm' else vm' = vm"
  using assms
  by (auto simp: aivm_vm_mark_live_node_handles_def split: if_splits sum.splits prod.splits option.splits
      dest!: mark_pairs_outcome enqueue_roots_error mark_nodes_loop_error)

subsection \<open>The compactions\<close>

lemma count_gc_attempt_control [simp]:
  "same_control vm (count_gc_attempt vm)" "no_new_error vm (count_gc_attempt vm)"
  by (simp_all add: count_gc_attempt_def same_control_def no_new_error_def)

lemma copy_node_error: "copy_node vm live handle_map i arrays = Inl e \<Longrightarrow> proper_error e"
proof -
  have a: "mark_each (copy_node_attr vm node k) is s = Inl e \<Longrightarrow> proper_error e" for node k "is" s e
    by (rule mark_each_error) (auto simp: copy_node_attr_def split: option.splits if_splits)
  have c: "mark_each (copy_node_child vm handle_map node k) is s = Inl e \<Longrightarrow> proper_error e" for node k "is" s e
    by (rule mark_each_error) (auto simp: copy_node_child_def Let_def split: option.splits if_splits)
  show "copy_node vm live handle_map i arrays = Inl e \<Longrightarrow> proper_error e"
    by (auto simp: copy_node_def Let_def split: prod.splits if_splits option.splits sum.splits dest!: a c)
qed

lemma put_nodes_control: "same_control vm (put_nodes arrays vm) \<and> no_new_error vm (put_nodes arrays vm)"
  by (simp add: put_nodes_def same_control_def no_new_error_def split: prod.split)

lemma remap_fixed_outcome: "outcome_ok vm (remap_fixed_handles handle_map vm)"
  by (simp add: remap_fixed_handles_def outcome_ok_def same_control_def no_new_error_def error_state_def aivm_set_vm_error_def
      Let_def split: option.split)

lemma remap_nodes_outcome: "outcome_ok vm (remap_node_handles live_pairs handle_map vm)"
proof -
  have upd: "outcome_ok vm r" if "outcome_ok (vm1\<lparr>vm_scratch_pairs := x, vm_node_builders := y\<rparr>) r"
    "same_control vm vm1 \<and> no_new_error vm vm1" for vm1 x y r
    using that by (auto simp: outcome_ok_def same_control_def no_new_error_def split: if_splits)
  have err: "outcome_ok vm (False, aivm_set_vm_error (vm1\<lparr>vm_scratch_pairs := x\<rparr>) AIVM_VM_ERR_INVALID_PROGRAM d)"
    "outcome_ok vm (False, aivm_set_vm_error (vm1\<lparr>vm_scratch_pairs := x, vm_node_builders := y\<rparr>) AIVM_VM_ERR_INVALID_PROGRAM d)"
    "outcome_ok vm (False, aivm_set_vm_error vm1 AIVM_VM_ERR_INVALID_PROGRAM d)"
    if "same_control vm vm1 \<and> no_new_error vm vm1" for vm1 x y d
    using that by (auto simp: outcome_ok_def same_control_def aivm_set_vm_error_def error_state_def)
  show ?thesis
    unfolding remap_node_handles_def Let_def
    by (auto split: prod.split sum.split option.split dest!: traverse_roots_control intro: upd [OF remap_fixed_outcome] err)
qed

lemma outcome_same_control: "outcome_ok vm1 r \<Longrightarrow> same_control vm vm1 \<Longrightarrow> no_new_error vm vm1 \<Longrightarrow> outcome_ok vm r"
  by (auto simp: outcome_ok_def intro: same_control_trans no_new_error_trans split: if_splits)

lemma compact_with_map_outcome:
  fixes vm :: "'a heap_vm" and alloc :: "nat \<Rightarrow> bool" and extra :: "int list"
  defines "r \<equiv> aivm_vm_compact_node_arenas_with_map alloc vm extra"
  shows "same_control vm (snd r) \<and> (if fst r = None then error_state (snd r) else no_new_error vm (snd r))"
proof -
  let ?vm0 = "count_gc_attempt vm"
  have e: "mark_each (copy_node ?vm0 live hm) is s = Inl e \<Longrightarrow> proper_error e" for live hm "is" s e
    by (rule mark_each_error) (auto dest: copy_node_error)
  have m: "same_control ?vm0 vm' \<and> (if ok then no_new_error ?vm0 vm' else error_state vm')"
    if "remap_node_handles lp hm (put_nodes arrays ?vm0) = (ok, vm')" for lp hm arrays ok vm'
  proof -
    have "outcome_ok ?vm0 (ok, vm')"
      using remap_nodes_outcome [of "put_nodes arrays ?vm0" lp hm] put_nodes_control [of ?vm0 arrays] that
        outcome_same_control [of "put_nodes arrays ?vm0" "(ok, vm')" ?vm0] by simp
    then show ?thesis
      by (simp add: outcome_ok_def split: if_splits)
  qed
  have "same_control ?vm0 (snd r) \<and> (if fst r = None then error_state (snd r) else no_new_error ?vm0 (snd r))"
    unfolding r_def aivm_vm_compact_node_arenas_with_map_def Let_def
    by (auto split: prod.split option.split sum.split bool.split dest!: mark_nodes_outcome mark_pairs_outcome e m)
  then show ?thesis
    using same_control_trans [of vm ?vm0 "snd r"] no_new_error_trans [of vm ?vm0 "snd r"] by (auto split: if_splits)
qed

lemma compact_nodes_outcome: "outcome_ok vm (collect_nodes_now alloc vm)"
  using compact_with_map_outcome [of vm alloc "[]"]
  by (auto simp: collect_nodes_now_def outcome_ok_def same_control_def no_new_error_def error_state_def
      split: prod.splits option.splits)

lemma compact_pairs_outcome: "outcome_ok vm (aivm_vm_compact_scratch_pairs alloc vm)"
proof -
  have upd: "outcome_ok vm (True, vm'\<lparr>vm_scratch_pairs := x\<rparr>)" "outcome_ok vm (False, aivm_set_vm_error vm' AIVM_VM_ERR_INVALID_PROGRAM d)"
    if "same_control vm vm' \<and> no_new_error vm vm'" for vm' x d
    using that by (auto simp: outcome_ok_def same_control_def no_new_error_def error_state_def aivm_set_vm_error_def)
  have m: "outcome_ok vm (False, vm')" if "same_control vm vm' \<and> error_state vm'" for vm'
    using that by (simp add: outcome_ok_def)
  show ?thesis
    unfolding aivm_vm_compact_scratch_pairs_def Let_def
    by (auto split: prod.split option.split sum.split dest!: mark_pairs_outcome traverse_roots_control intro: upd m)
      (auto simp: outcome_ok_def)
qed

lemma insert_blocks_control: "same_control vm (insert_blocks blocks vm) \<and> no_new_error vm (insert_blocks blocks vm)"
proof (induction blocks vm rule: insert_blocks.induct)
  case (2 offset len blocks vm)
  then show ?case
    by (auto simp: same_control_def no_new_error_def split: option.splits)
qed simp

lemma rebuild_control:
  "same_control vm (aivm_vm_rebuild_string_intern_index alloc vm) \<and> no_new_error vm (aivm_vm_rebuild_string_intern_index alloc vm)"
  by (auto simp: insert_blocks_control [unfolded same_control_def no_new_error_def] aivm_vm_rebuild_string_intern_index_def aivm_vm_reset_string_intern_index_def string_intern_resize_def Let_def
      same_control_def no_new_error_def split: option.split prod.split bool.split)

lemma install_strings_control:
  "same_control vm (install_string_arena block new live lp seen vm) \<and> no_new_error vm (install_string_arena block new live lp seen vm)"
  by (simp add: install_string_arena_def same_control_def no_new_error_def)

lemma relocate_slot_error: "relocate_attr_slot f cap node i s = (s', Some e) \<Longrightarrow> proper_error e"
  by (auto simp: relocate_attr_slot_def arena_exceeded_def split: prod.splits option.splits if_splits)

lemma steps_error:
  assumes "\<And>v s s' e. f v s = (s', Some e) \<Longrightarrow> proper_error e"
  shows "steps f vs s = (s', Some e) \<Longrightarrow> proper_error e"
  by (induction vs arbitrary: s) (auto split: prod.splits option.splits dest: assms)

lemma relocate_node_error: "relocate_node f cap live i s = (s', Some e) \<Longrightarrow> proper_error e"
proof -
  have "steps (relocate_attr_slot f cap node) is s = (s', Some e) \<Longrightarrow> proper_error e" for node "is" s s' e
    by (rule steps_error) (auto dest: relocate_slot_error)
  then show "relocate_node f cap live i s = (s', Some e) \<Longrightarrow> proper_error e"
    by (auto simp: relocate_node_def arena_exceeded_def Let_def split: prod.splits option.splits if_splits)
qed

lemma relocate_strings_control:
  assumes "relocate_strings place live lp vm = (vm', r)"
  shows "same_control vm vm' \<and> no_new_error vm vm' \<and> (\<forall>e. r = Inl e \<longrightarrow> proper_error e)"
proof -
  have e: "steps (relocate_node f cap live) is s = (s', Some e) \<Longrightarrow> proper_error e" for f cap "is" s s' e
    by (rule steps_error) (auto dest: relocate_node_error)
  have u: "same_control vm (vm1\<lparr>vm_scratch_pairs := x\<rparr>) = same_control vm vm1"
    "no_new_error vm (vm1\<lparr>vm_scratch_pairs := x\<rparr>) = no_new_error vm vm1"
    "same_control vm (vm1\<lparr>vm_scratch_pairs := x, vm_nodes := y, vm_node_attrs := z\<rparr>) = same_control vm vm1"
    "no_new_error vm (vm1\<lparr>vm_scratch_pairs := x, vm_nodes := y, vm_node_attrs := z\<rparr>) = no_new_error vm vm1" for vm1 x y z
    by (simp_all add: same_control_def no_new_error_def)
  show ?thesis
    using assms unfolding relocate_strings_def Let_def
    by (auto simp: u arena_exceeded_def split: prod.splits sum.splits option.splits dest!: traverse_roots_control e)
qed

lemma compact_strings_outcome: "outcome_ok vm (aivm_compact_string_arena alloc block vm)"
proof -
  have ok: "outcome_ok vm (True, aivm_vm_rebuild_string_intern_index alloc (install_string_arena block new live lp seen vm'))"
    if "same_control vm vm' \<and> no_new_error vm vm'" for vm' new live lp seen
    using that install_strings_control [of vm' block new live lp seen]
      rebuild_control [of "install_string_arena block new live lp seen vm'" alloc]
    unfolding outcome_ok_def by (auto intro: same_control_trans no_new_error_trans)
  have err: "outcome_ok vm (False, aivm_set_vm_error (fst (relocate_strings place live lp vm)) err d)" if "err \<noteq> AIVM_VM_ERR_NONE"
    for place live lp err d
    using relocate_strings_control [of place live lp vm] that
    by (cases "relocate_strings place live lp vm") (simp add: outcome_ok_def)
  have m: "outcome_ok vm (False, vm')" if "same_control vm vm' \<and> error_state vm'" for vm'
    using that by (simp add: outcome_ok_def)
  show ?thesis
    unfolding aivm_compact_string_arena_def
    by (auto split: prod.split option.split sum.split
        dest!: mark_pairs_outcome mark_nodes_outcome relocate_strings_control intro: ok err m)
      (auto simp: outcome_ok_def)
qed

lemma relocate_bytes_control:
  assumes "relocate_bytes place lp n vm = (vm', r)"
  shows "same_control vm vm' \<and> no_new_error vm vm'"
  using assms
  by (auto simp: relocate_bytes_def Let_def same_control_def no_new_error_def split: prod.splits sum.splits dest!: traverse_roots_control)

lemma compact_bytes_outcome: "outcome_ok vm (aivm_compact_bytes_arena alloc vm)"
proof -
  have ok: "outcome_ok vm (True, install_bytes_arena new lp vm')" if "same_control vm vm' \<and> no_new_error vm vm'" for vm' new lp
    using that by (simp add: install_bytes_arena_def outcome_ok_def same_control_def no_new_error_def)
  have err: "outcome_ok vm (False, aivm_set_vm_error (fst (relocate_bytes place lp n vm)) AIVM_VM_ERR_MEMORY_PRESSURE d)" for place lp n d
    using relocate_bytes_control [of place lp n vm] by (cases "relocate_bytes place lp n vm") (simp add: outcome_ok_def)
  have m: "outcome_ok vm (False, vm')" if "same_control vm vm' \<and> error_state vm'" for vm'
    using that by (simp add: outcome_ok_def)
  have e: "outcome_ok vm (True, vm\<lparr>vm_bytes_arena := x, vm_bytes_arena_gc_threshold := y\<rparr>)" for x y
    by (simp add: outcome_ok_def same_control_def no_new_error_def)
  show ?thesis
    unfolding aivm_compact_bytes_arena_def
    by (auto split: prod.split option.split dest!: mark_pairs_outcome relocate_bytes_control intro: ok err m e)
      (auto simp: outcome_ok_def)
qed

section \<open>The contract of a collector\<close>

definition collectable :: "'a heap_vm \<Rightarrow> bool" where
  "collectable vm \<longleftrightarrow> heap_ok vm [] \<and> string_arena_ok vm"

lemma string_arena_ok_cong: "same_string_arena vm vm' \<Longrightarrow> string_arena_ok vm' = string_arena_ok vm"
  by (simp add: same_string_arena_def string_arena_ok_def index_ok_def)

locale collector =
  fixes collect :: "'a heap_vm \<Rightarrow> bool \<times> 'a heap_vm"
  assumes keeps_values: "collectable vm \<Longrightarrow> collect vm = (True, vm') \<Longrightarrow> same_views vm vm' \<and> collectable vm'"
    and keeps_control: "outcome_ok vm (collect vm)"
begin

lemma collect_when: "collector (collect_when cond collect)"
proof
  show "same_views vm vm' \<and> collectable vm'" if "collectable vm" "collect_when cond collect vm = (True, vm')" for vm vm'
    using that keeps_values [of vm vm'] same_views_refl by (auto simp: collect_when_def split: if_splits)
  show "outcome_ok vm (collect_when cond collect vm)" for vm
    using keeps_control [of vm] by (simp add: collect_when_def) (simp add: outcome_ok_def)
qed

lemma collect_next:
  assumes "collector g"
  shows "collector (and_then collect g)"
proof
  show "same_views vm vm' \<and> collectable vm'" if c: "collectable vm" and r: "and_then collect g vm = (True, vm')" for vm vm'
  proof -
    obtain vm1 where 1: "collect vm = (True, vm1)" "g vm1 = (True, vm')"
      using r by (auto simp: and_then_def split: prod.splits bool.splits)
    show ?thesis
      using keeps_values [OF c 1(1)] collector.keeps_values [OF assms _ 1(2)] same_views_trans by blast
  qed
  show "outcome_ok vm (and_then collect g vm)" for vm
  proof (cases "collect vm")
    case (Pair ok vm1)
    then show ?thesis
      using keeps_control [of vm] collector.keeps_control [OF assms, of vm1] outcome_same_control [of vm1 "g vm1" vm]
      by (cases ok) (auto simp: and_then_def outcome_ok_def split: if_splits)
  qed
qed

text \<open>A collector may be the safe point of the interpreter.\<close>

lemma safe_point: "safe_point_ok p collect"
  unfolding safe_point_ok_def using outcome_ok_running [OF _ keeps_control] by blast

end

interpretation node_collector: collector "collect_nodes_now alloc" for alloc
proof
  fix vm vm' :: "'a heap_vm"
  assume c: "collectable vm" and r: "collect_nodes_now alloc vm = (True, vm')"
  then obtain hm vm1 where 1: "aivm_vm_compact_node_arenas_with_map alloc vm [] = (Some hm, vm1)"
    "vm' = vm1\<lparr>vm_node_allocations_since_gc := 0\<rparr>"
    by (auto simp: collect_nodes_now_def split: prod.splits option.splits)
  have ok: "heap_ok vm []"
    using c by (simp add: collectable_def)
  have "same_string_arena vm vm1"
    using compact_nodes_result(16) [OF ok 1(1)] 1(1)
    by (cases "vm_node_count vm = 0")
      (auto simp: aivm_vm_compact_node_arenas_with_map_def Let_def count_gc_attempt_def same_string_arena_def)
  then have s: "string_arena_ok vm1"
    using c by (simp add: collectable_def string_arena_ok_cong)
  have h: "same_heap vm1 vm'"
    by (simp add: 1(2) same_heap_def root_values_def local_values_def fixed_handles_def builder_handles_def)
  note n = nodes_compacted [OF ok 1(1)]
  have "same_views vm vm'"
    by (rule same_views_trans [OF n(1) same_contents_reach(6) [OF same_heap_contents [OF h]]])
  moreover have "heap_ok vm' []"
    using n(2) same_heap_reach(4) [OF h] by (simp add: moved_extra_def)
  moreover have "string_arena_ok vm'"
    using s by (simp add: 1(2) string_arena_ok_def index_ok_def)
  ultimately show "same_views vm vm' \<and> collectable vm'"
    by (simp add: collectable_def)
qed (rule compact_nodes_outcome)

interpretation pair_collector: collector "aivm_vm_compact_scratch_pairs alloc" for alloc
proof
  fix vm vm' :: "'a heap_vm"
  assume c: "collectable vm" and r: "aivm_vm_compact_scratch_pairs alloc vm = (True, vm')"
  have ok: "heap_ok vm []"
    using c by (simp add: collectable_def)
  have "same_string_arena vm vm'"
  proof (cases "vm_scratch_pair_count vm = 0")
    case True
    then show ?thesis
      using r by (simp add: aivm_vm_compact_scratch_pairs_def Let_def)
  next
    case False
    have memory: "pair_compaction_memory alloc vm"
      using pair_compaction_refused [of alloc vm] r by auto
    obtain st ls rs ps pairs where "vm' = (put_roots st ls rs ps vm)\<lparr>vm_scratch_pairs := pairs\<rparr>"
      using compact_pairs_result [OF ok memory False] r by auto
    then show ?thesis
      by (simp add: same_string_arena_def)
  qed
  then show "same_views vm vm' \<and> collectable vm'"
    using pairs_compacted [OF ok r] c by (simp add: collectable_def string_arena_ok_cong)
qed (rule compact_pairs_outcome)

interpretation string_collector: collector "aivm_compact_string_arena alloc block" for alloc block
proof
  fix vm vm' :: "'a heap_vm"
  assume c: "collectable vm" and r: "aivm_compact_string_arena alloc block vm = (True, vm')"
  have "string_compaction_memory alloc vm"
    using string_compaction_refused [of alloc vm block] r by auto
  then show "same_views vm vm' \<and> collectable vm'"
    using strings_compacted [of vm alloc block] c r by (auto simp: collectable_def)
qed (rule compact_strings_outcome)

interpretation bytes_collector: collector "aivm_compact_bytes_arena alloc" for alloc
proof
  fix vm vm' :: "'a heap_vm"
  assume c: "collectable vm" and r: "aivm_compact_bytes_arena alloc vm = (True, vm')"
  then show "same_views vm vm' \<and> collectable vm'"
    using bytes_compacted [of vm alloc vm'] string_arena_ok_cong [of vm vm'] by (auto simp: collectable_def)
qed (rule compact_bytes_outcome)

interpretation safe_point_collector: collector "collect_safe_point_internal alloc block collect_nodes collect_bytes"
  for alloc block collect_nodes collect_bytes
  unfolding collect_safe_point_internal_def
  by (intro collector.collect_next collector.collect_when node_collector.collector_axioms pair_collector.collector_axioms
      string_collector.collector_axioms bytes_collector.collector_axioms)

lemma resized_control: "resized vm vm' \<Longrightarrow> same_control vm vm' \<and> no_new_error vm vm' \<and> same_string_arena vm vm'"
  unfolding resized_def by (erule ssubst) (simp add: same_control_def no_new_error_def same_string_arena_def)

lemma pressure_growth_control:
  fixes vm :: "'a heap_vm" and snapshot :: "(nat \<times> nat) option" and alloc :: "nat \<Rightarrow> bool"
  defines "r \<equiv> aivm_vm_try_grow_pressure_node_arenas alloc snapshot vm"
  shows "same_control vm (snd r)" and "no_new_error vm (snd r)" and "same_string_arena vm (snd r)"
  using resized_control [OF pressure_growth_resized, of vm alloc snapshot] unfolding r_def by blast+

interpretation return_collector: collector "return_safe_point alloc block snapshot" for alloc block snapshot
proof
  fix vm vm' :: "'a heap_vm"
  let ?g = "aivm_vm_try_grow_pressure_node_arenas alloc snapshot vm"
  assume c: "collectable vm" and r: "return_safe_point alloc block snapshot vm = (True, vm')"
  define vm1 where "vm1 = (if aivm_vm_should_attempt_return_safe_point vm then snd ?g else vm)"
  have 1: "same_views vm vm1" "collectable vm1"
    using c pressure_growth [of vm "[]" alloc snapshot] pressure_growth_control(3) [of vm alloc snapshot] same_views_refl [of vm]
      same_contents_reach(6) [of vm "snd ?g"] string_arena_ok_cong [of vm "snd ?g"]
    by (auto simp: vm1_def collectable_def)
  have "vm' = vm1 \<or> (\<exists>n b. collect_safe_point_internal alloc block n b vm1 = (True, vm'))"
    using r by (auto simp: return_safe_point_def vm1_def Let_def split: prod.splits if_splits)
  then show "same_views vm vm' \<and> collectable vm'"
    using 1 safe_point_collector.keeps_values [OF 1(2)] same_views_trans [OF 1(1)] by blast
next
  fix vm :: "'a heap_vm"
  let ?g = "aivm_vm_try_grow_pressure_node_arenas alloc snapshot vm"
  define vm1 where "vm1 = (if aivm_vm_should_attempt_return_safe_point vm then snd ?g else vm)"
  have 1: "same_control vm vm1" "no_new_error vm vm1"
    using pressure_growth_control [of vm alloc snapshot] by (simp_all add: vm1_def)
  have "return_safe_point alloc block snapshot vm = (True, vm1) \<or>
    (\<exists>n b. return_safe_point alloc block snapshot vm = collect_safe_point_internal alloc block n b vm1)"
    by (auto simp: return_safe_point_def vm1_def Let_def split: prod.split)
  then show "outcome_ok vm (return_safe_point alloc block snapshot vm)"
    using 1 outcome_same_control [OF safe_point_collector.keeps_control 1] by (auto simp: outcome_ok_def)
qed

section \<open>Properties\<close>

text \<open>C4 (refinement): a safe point, whatever it collects, either succeeds or leaves an error with its detail. When it
  succeeds it keeps everything a program can see through the roots, a well-formed heap and a well-formed
  string arena. In both cases program, instruction pointer, call frames, and the sizes of stack
  and locals stay.\<close>

theorem safe_point_keeps_values:
  assumes "heap_ok vm []" and "string_arena_ok vm"
  shows "\<exists>ok vm'. collect_safe_point_internal alloc block collect_nodes collect_bytes vm = (ok, vm') \<and> same_control vm vm' \<and>
    (if ok then same_views vm vm' \<and> heap_ok vm' [] \<and> string_arena_ok vm' \<and> no_new_error vm vm' else error_state vm')"
proof -
  let ?r = "collect_safe_point_internal alloc block collect_nodes collect_bytes vm"
  have "same_views vm (snd ?r) \<and> collectable (snd ?r)" if "fst ?r"
    using safe_point_collector.keeps_values [of vm alloc block collect_nodes collect_bytes "snd ?r"] assms that
    by (simp add: collectable_def prod_eq_iff)
  then show ?thesis
    using safe_point_collector.keeps_control [of vm alloc block collect_nodes collect_bytes]
    by (intro exI [of _ "fst ?r"] exI [of _ "snd ?r"]) (auto simp: outcome_ok_def collectable_def)
qed

theorem safe_point_keeps_values_witness:
  "\<exists>ok vm'. aivm_collect_safe_point (\<lambda>n. True) 2 heap_demo = (ok, vm') \<and> vm_stack_count vm' = 1"
  using safe_point_keeps_values [OF heap_demo_ok heap_demo_string_arena_ok, of "\<lambda>n. True" 2 True True]
  by (auto simp: aivm_collect_safe_point_def same_control_def heap_demo_fields)

text \<open>The interpreter with the collection at returns stays within its limits: in every state a machine reaches,
  however the collections and allocations turn out, stack, call frames and locals are within their
  capacities, the frames are ordered, the instruction pointer is at most the instruction count, and an
  error has its detail.\<close>

lemma collected_machine_ok:
  assumes "vm_reaches (return_safe_point alloc block snapshot) other p vm vm'" and "machine_ok p vm" and "other_ok p other"
  shows "machine_ok p vm'"
  using reaches_keeps [OF assms(1,2) return_collector.safe_point assms(3)] .

end
