(* ===== verification/String_Copy.thy ===== *)
theory String_Copy
  imports Safe_Point
begin

text \<open>
  Allocation in the string arena and copies of texts into it (\<^verbatim>\<open>src/src/aivm_vm_arena.c\<close>,
  \<^verbatim>\<open>src/src/aivm_vm_string_copy.c\<close>): the limit grows under the memory admission of the host, then the arena is
  compacted, then the allocation is refused. A copy asks the index first. The source of a copy may lie in
  the arena itself; a temporary copy keeps it readable when the arena is compacted. Reading through a
  pointer into freed memory is left out: such a pointer reads as null.
\<close>

section \<open>Allocation\<close>

lemma growth_available_fields:
  "vm_string_arena_limit (snd (aivm_vm_host_memory_growth_available snapshot vm n)) = vm_string_arena_limit vm"
  "vm_string_arena_capacity (snd (aivm_vm_host_memory_growth_available snapshot vm n)) = vm_string_arena_capacity vm"
  by (simp_all add: aivm_vm_host_memory_growth_available_def split: option.split prod.split)

function ensure_string_arena_capacity :: "(nat \<times> nat) option \<Rightarrow> nat \<Rightarrow> 'a heap_vm \<Rightarrow> bool \<times> 'a heap_vm" where
  "ensure_string_arena_capacity snapshot needed vm =
     (if needed > vm_string_arena_limit vm \<and> vm_string_arena_limit vm < vm_string_arena_capacity vm then
        let next_limit = arena_grow_limit (vm_string_arena_limit vm) AIVM_VM_STRING_ARENA_GROWTH_STEP (vm_string_arena_capacity vm) in
        case (if vm_runtime_profile vm = AIVM_RUNTIME_PROFILE_TOOLING
              then aivm_vm_host_memory_growth_available snapshot vm (next_limit - vm_string_arena_limit vm) else (True, vm)) of
          (False, vm) \<Rightarrow> (False, vm)
        | (True, vm) \<Rightarrow> ensure_string_arena_capacity snapshot needed (vm\<lparr>vm_string_arena_limit := next_limit\<rparr>)
      else (needed \<le> vm_string_arena_limit vm, vm))"
  by pat_completeness auto

termination
proof (relation "measure (\<lambda>(snapshot, needed, vm). vm_string_arena_capacity vm - vm_string_arena_limit vm)", goal_cases)
  case prems: (2 snapshot needed vm next_limit)
  let ?limit = "vm_string_arena_limit vm" and ?capacity = "vm_string_arena_capacity vm"
  have "?limit < next_limit" "next_limit \<le> ?capacity"
    using prems arena_grow_limit_bounds [of AIVM_VM_STRING_ARENA_GROWTH_STEP ?limit ?capacity]
    by (auto simp: AIVM_VM_STRING_ARENA_GROWTH_STEP_def)
  then show ?case
    using prems growth_available_fields(2) [of snapshot vm "next_limit - ?limit"] by (auto simp: prod_eq_iff split: if_splits)
qed simp

declare ensure_string_arena_capacity.simps [simp del]

definition string_pressure :: "'a heap_vm \<Rightarrow> 'a heap_vm" where
  "string_pressure vm =
     vm\<lparr>vm_heap_counters := (vm_heap_counters vm)
          \<lparr>string_arena_pressure_count := aivm_counter_increment_saturating (string_arena_pressure_count (vm_heap_counters vm))\<rparr>\<rparr>"

text \<open>What allocation and reservation share: room for that many bytes more, or an error. The result is the number of
  bytes that are then in use.\<close>

definition string_arena_room ::
  "(nat \<Rightarrow> bool) \<Rightarrow> nat \<Rightarrow> (nat \<times> nat) option \<Rightarrow> 'a heap_vm \<Rightarrow> nat \<Rightarrow> nat option \<times> 'a heap_vm" where
  "string_arena_room alloc block snapshot vm n =
     (let detail = ''AIVMM001: string arena capacity exceeded.'';
          overflow = (\<lambda>vm. (None, aivm_set_vm_error (string_pressure vm) AIVM_VM_ERR_MEMORY_PRESSURE detail));
          fail = (\<lambda>vm. (None, raise_unless_error detail (string_pressure vm)));
          ensure = (\<lambda>vm needed. if needed > vm_string_arena_limit vm then ensure_string_arena_capacity snapshot needed vm
                               else (True, vm)) in
      case aivm_size_add_checked (vm_string_arena_used vm) n of
        None \<Rightarrow> overflow vm
      | Some needed \<Rightarrow>
          (case ensure vm needed of
             (True, vm) \<Rightarrow> (Some needed, vm)
           | (False, vm) \<Rightarrow>
               (case aivm_compact_string_arena alloc block vm of
                  (False, vm) \<Rightarrow> fail vm
                | (True, vm) \<Rightarrow>
                    (case aivm_size_add_checked (vm_string_arena_used vm) n of
                       None \<Rightarrow> overflow vm
                     | Some needed \<Rightarrow>
                         (case ensure vm needed of
                            (False, vm) \<Rightarrow> fail vm
                          | (True, vm) \<Rightarrow> (Some needed, vm))))))"

text \<open>The offset of the new bytes; what they hold before they are written is not read.\<close>

definition aivm_string_arena_alloc ::
  "(nat \<Rightarrow> bool) \<Rightarrow> nat \<Rightarrow> (nat \<times> nat) option \<Rightarrow> 'a heap_vm \<Rightarrow> nat \<Rightarrow> nat option \<times> 'a heap_vm" where
  "aivm_string_arena_alloc alloc block snapshot vm n =
     (case string_arena_room alloc block snapshot vm n of
        (None, vm) \<Rightarrow> (None, vm)
      | (Some needed, vm) \<Rightarrow>
          (Some (vm_string_arena_used vm),
           vm\<lparr>vm_string_arena := vm_string_arena vm @ replicate n (CHR 0x00),
              vm_heap_counters := (vm_heap_counters vm)
                \<lparr>string_arena_high_water := max (string_arena_high_water (vm_heap_counters vm)) needed\<rparr>\<rparr>))"

definition aivm_string_arena_reserve ::
  "(nat \<Rightarrow> bool) \<Rightarrow> nat \<Rightarrow> (nat \<times> nat) option \<Rightarrow> 'a heap_vm \<Rightarrow> nat \<Rightarrow> bool \<times> 'a heap_vm" where
  "aivm_string_arena_reserve alloc block snapshot vm n =
     (case string_arena_room alloc block snapshot vm n of (r, vm) \<Rightarrow> (r \<noteq> None, vm))"

section \<open>Copies\<close>

definition aivm_pointer_in_string_arena :: "'a vm \<Rightarrow> cptr \<Rightarrow> bool" where
  "aivm_pointer_in_string_arena vm p \<longleftrightarrow> (case p of CArena off \<Rightarrow> off < length (vm_string_arena vm) | _ \<Rightarrow> False)"

text \<open>Without a complete index the arena is searched text by text.\<close>

definition lookup_text :: "'a heap_vm \<Rightarrow> string \<Rightarrow> nat option" where
  "lookup_text vm str =
     (case lookup_string_in_index vm str of
        Some off \<Rightarrow> Some off
      | None \<Rightarrow> if vm_string_intern_complete vm then None else find_block (vm_string_arena vm) 0 str)"

definition lookup_string_in_arena :: "'a heap_vm \<Rightarrow> cptr \<Rightarrow> string \<Rightarrow> nat option" where
  "lookup_string_in_arena vm p str =
     (case p of
        CArena off \<Rightarrow> if off < vm_string_arena_used vm then Some off else lookup_text vm str
      | _ \<Rightarrow> lookup_text vm str)"

text \<open>Whether a source stays readable while the arena is changed: it lies elsewhere, or a temporary copy of it could be
  allocated.\<close>

definition aivm_vm_snapshot_arena_backed_string :: "(nat \<Rightarrow> bool) \<Rightarrow> 'a heap_vm \<Rightarrow> cptr \<Rightarrow> nat \<Rightarrow> bool" where
  "aivm_vm_snapshot_arena_backed_string alloc vm p len =
     (if \<not> aivm_pointer_in_string_arena vm p then True
      else case aivm_size_add_checked len 1 of None \<Rightarrow> False | Some bytes_needed \<Rightarrow> alloc bytes_needed)"

text \<open>A text in the bytes that were allocated for it, at the end of the arena.\<close>

definition write_text :: "nat \<Rightarrow> string \<Rightarrow> 'a heap_vm \<Rightarrow> 'a heap_vm" where
  "write_text off str vm = vm\<lparr>vm_string_arena := take off (vm_string_arena vm) @ str @ [CHR 0x00]\<rparr>"

definition store_text ::
  "(nat \<Rightarrow> bool) \<Rightarrow> nat \<Rightarrow> (nat \<times> nat) option \<Rightarrow> 'a heap_vm \<Rightarrow> string \<Rightarrow> nat \<Rightarrow> nat option \<times> 'a heap_vm" where
  "store_text alloc block snapshot vm str bytes_needed =
     (case aivm_string_arena_alloc alloc block snapshot vm bytes_needed of
        (None, vm) \<Rightarrow> (None, vm)
      | (Some off, vm) \<Rightarrow> (Some off, remember_string_in_index alloc (write_text off str vm) off str))"

definition aivm_vm_copy_string_to_arena ::
  "(nat \<Rightarrow> bool) \<Rightarrow> nat \<Rightarrow> (nat \<times> nat) option \<Rightarrow> 'a heap_vm \<Rightarrow> cptr \<Rightarrow> nat option \<times> 'a heap_vm" where
  "aivm_vm_copy_string_to_arena alloc block snapshot vm p =
     (case cptr_text (vm_string_arena vm) p of
        None \<Rightarrow> (None, vm)
      | Some str \<Rightarrow>
          (case lookup_string_in_arena vm p str of
             Some off \<Rightarrow> (Some off, vm)
           | None \<Rightarrow>
               (case aivm_size_add_checked (length str) 1 of
                  None \<Rightarrow> (None, vm)
                | Some bytes_needed \<Rightarrow>
                    if \<not> aivm_vm_snapshot_arena_backed_string alloc vm p (length str) then (None, vm)
                    else store_text alloc block snapshot vm str bytes_needed)))"

text \<open>The bytes a pointer with a length leads to.\<close>

fun cptr_range :: "string \<Rightarrow> cptr \<Rightarrow> nat \<Rightarrow> string option" where
  "cptr_range arena CNull len = None"
| "cptr_range arena (CArena off) len = Some (take len (drop off arena))"
| "cptr_range arena (CExt s) len = Some (take len s)"
| "cptr_range arena CFreed len = None"

definition aivm_vm_copy_string_range_to_arena ::
  "(nat \<Rightarrow> bool) \<Rightarrow> nat \<Rightarrow> (nat \<times> nat) option \<Rightarrow> 'a heap_vm \<Rightarrow> cptr \<Rightarrow> nat \<Rightarrow> nat option \<times> 'a heap_vm" where
  "aivm_vm_copy_string_range_to_arena alloc block snapshot vm p len =
     (case cptr_range (vm_string_arena vm) p len of
        None \<Rightarrow> (None, vm)
      | Some str \<Rightarrow>
          (case lookup_text vm str of
             Some off \<Rightarrow> (Some off, vm)
           | None \<Rightarrow>
               (case aivm_size_add_checked len 1 of
                  None \<Rightarrow> (None, vm)
                | Some bytes_needed \<Rightarrow>
                    if \<not> aivm_vm_snapshot_arena_backed_string alloc vm p len then (None, vm)
                    else store_text alloc block snapshot vm str bytes_needed)))"

definition aivm_vm_copy_string_splice_to_arena ::
  "(nat \<Rightarrow> bool) \<Rightarrow> nat \<Rightarrow> (nat \<times> nat) option \<Rightarrow> 'a heap_vm \<Rightarrow> cptr \<Rightarrow> nat \<Rightarrow> cptr \<Rightarrow> nat \<Rightarrow> nat option \<times> 'a heap_vm" where
  "aivm_vm_copy_string_splice_to_arena alloc block snapshot vm p len q len' =
     (case (cptr_range (vm_string_arena vm) p len, cptr_range (vm_string_arena vm) q len') of
        (Some str, Some str') \<Rightarrow>
          (case aivm_size_add_checked len len' of
             None \<Rightarrow> (None, vm)
           | Some total_length \<Rightarrow>
               (case aivm_size_add_checked total_length 1 of
                  None \<Rightarrow> (None, vm)
                | Some bytes_needed \<Rightarrow>
                    (case find_block (vm_string_arena vm) 0 (str @ str') of
                       Some off \<Rightarrow> (Some off, vm)
                     | None \<Rightarrow>
                         if \<not> (aivm_vm_snapshot_arena_backed_string alloc vm p len \<and>
                           aivm_vm_snapshot_arena_backed_string alloc vm q len') then (None, vm)
                         else store_text alloc block snapshot vm (str @ str') bytes_needed)))
      | _ \<Rightarrow> (None, vm))"

section \<open>What allocation keeps\<close>

definition limit_changed :: "'a heap_vm \<Rightarrow> 'a heap_vm \<Rightarrow> bool" where
  "limit_changed vm vm' \<longleftrightarrow>
     vm' = vm\<lparr>vm_host_memory_growth_suspended := vm_host_memory_growth_suspended vm', vm_string_arena_limit := vm_string_arena_limit vm'\<rparr> \<and>
     (vm_string_arena_limit vm \<le> vm_string_arena_capacity vm \<longrightarrow>
        vm_string_arena_limit vm \<le> vm_string_arena_limit vm' \<and> vm_string_arena_limit vm' \<le> vm_string_arena_capacity vm)"

lemma limit_changed_refl [simp]: "limit_changed vm vm"
  by (simp add: limit_changed_def)

lemma ensure_string_result:
  "limit_changed vm (snd (ensure_string_arena_capacity snapshot needed vm)) \<and>
   (fst (ensure_string_arena_capacity snapshot needed vm) \<longrightarrow>
      needed \<le> vm_string_arena_limit (snd (ensure_string_arena_capacity snapshot needed vm)))"
proof (induction snapshot needed vm rule: ensure_string_arena_capacity.induct)
  case (1 snapshot needed vm)
  show ?case
  proof (cases "needed > vm_string_arena_limit vm \<and> vm_string_arena_limit vm < vm_string_arena_capacity vm")
    case True
    let ?next = "arena_grow_limit (vm_string_arena_limit vm) AIVM_VM_STRING_ARENA_GROWTH_STEP (vm_string_arena_capacity vm)"
    let ?r = "if vm_runtime_profile vm = AIVM_RUNTIME_PROFILE_TOOLING
      then aivm_vm_host_memory_growth_available snapshot vm (?next - vm_string_arena_limit vm) else (True, vm)"
    obtain ok vm1 where r: "?r = (ok, vm1)"
      by fastforce
    have n: "vm_string_arena_limit vm < ?next" "?next \<le> vm_string_arena_capacity vm"
      using arena_grow_limit_bounds True by (simp_all add: AIVM_VM_STRING_ARENA_GROWTH_STEP_def)
    have vm1: "vm1 = vm\<lparr>vm_host_memory_growth_suspended := vm_host_memory_growth_suspended vm1\<rparr>"
      using r growth_available_result [of snapshot vm "?next - vm_string_arena_limit vm"] by (cases ok) (auto split: if_splits)
    have f: "vm_string_arena_limit vm1 = vm_string_arena_limit vm" "vm_string_arena_capacity vm1 = vm_string_arena_capacity vm"
      by (subst vm1, simp)+
    have e: "ensure_string_arena_capacity snapshot needed vm =
      (if ok then ensure_string_arena_capacity snapshot needed (vm1\<lparr>vm_string_arena_limit := ?next\<rparr>) else (False, vm1))"
      by (subst ensure_string_arena_capacity.simps) (simp add: True r Let_def)
    show ?thesis
    proof (cases ok)
      case False
      then show ?thesis
        unfolding e limit_changed_def using f vm1 by simp
    next
      case ok: True
      let ?vm2 = "vm1\<lparr>vm_string_arena_limit := ?next\<rparr>"
      have "limit_changed vm vm3" if "limit_changed ?vm2 vm3" for vm3
        using that n f unfolding limit_changed_def by (subst (asm) vm1) simp
      then show ?thesis
        unfolding e using 1 [OF True HOL.refl r [symmetric]] ok by simp
    qed
  next
    case False
    then have "ensure_string_arena_capacity snapshot needed vm = (needed \<le> vm_string_arena_limit vm, vm)"
      by (subst ensure_string_arena_capacity.simps) (simp only: if_False)
    then show ?thesis
      by simp
  qed
qed

lemma limit_changed_keeps:
  assumes "limit_changed vm vm'"
  shows "same_heap vm vm'" and "same_control vm vm'" and "no_new_error vm vm'" and "string_arena_ok vm \<Longrightarrow> string_arena_ok vm'"
    and "vm_string_arena vm' = vm_string_arena vm"
proof -
  have vm': "vm' = vm\<lparr>vm_host_memory_growth_suspended := vm_host_memory_growth_suspended vm', vm_string_arena_limit := vm_string_arena_limit vm'\<rparr>"
    using assms by (simp add: limit_changed_def)
  show "same_heap vm vm'" "same_control vm vm'" "no_new_error vm vm'" and a: "vm_string_arena vm' = vm_string_arena vm"
    by (subst vm', simp add: same_heap_def same_control_def no_new_error_def root_values_def local_values_def fixed_handles_def
        builder_handles_def)+
  have "vm_string_arena_capacity vm' = vm_string_arena_capacity vm" "vm_string_intern_entries vm' = vm_string_intern_entries vm"
    by (subst vm', simp)+
  then show "string_arena_ok vm \<Longrightarrow> string_arena_ok vm'"
    using assms by (auto simp: string_arena_ok_def index_ok_def limit_changed_def a)
qed

text \<open>What a failure leaves: the control state, and an error.\<close>

definition failed :: "'a vm \<Rightarrow> 'a vm \<Rightarrow> bool" where
  "failed vm vm' \<longleftrightarrow> same_control vm vm' \<and> vm_status vm' = AIVM_VM_STATUS_ERROR \<and> (no_new_error vm vm' \<or> error_state vm')"

lemma failed_running: "running_ok p vm \<Longrightarrow> failed vm vm' \<Longrightarrow> running_ok p vm'"
  using same_control_running by (auto simp: failed_def)

lemma failed_trans: "same_control vm vm1 \<Longrightarrow> no_new_error vm vm1 \<Longrightarrow> failed vm1 vm2 \<Longrightarrow> failed vm vm2"
  by (auto simp: failed_def intro: same_control_trans no_new_error_trans)

lemma error_failed: "error_state vm \<Longrightarrow> vm_status vm = AIVM_VM_STATUS_ERROR"
  by (simp add: error_state_def)

lemma set_error_failed: "err \<noteq> AIVM_VM_ERR_NONE \<Longrightarrow> failed vm (aivm_set_vm_error vm err detail)"
  by (simp add: failed_def error_failed)

lemma string_pressure_control [simp]: "same_control vm (string_pressure vm)" "no_new_error vm (string_pressure vm)"
  by (simp_all add: string_pressure_def same_control_def no_new_error_def)

lemma raise_unless_error_failed: "failed vm (raise_unless_error detail (string_pressure vm))"
proof -
  have "vm_status (string_pressure vm) = vm_status vm"
    by (simp add: string_pressure_def)
  moreover have "failed vm (aivm_set_vm_error (string_pressure vm) AIVM_VM_ERR_MEMORY_PRESSURE detail)"
    by (rule failed_trans [OF _ _ set_error_failed]) simp_all
  ultimately show ?thesis
    by (simp add: raise_unless_error_def) (simp add: failed_def)
qed

lemma raise_after_error: "same_control vm vm' \<Longrightarrow> error_state vm' \<Longrightarrow> failed vm (raise_unless_error detail (string_pressure vm'))"
  by (simp add: failed_def raise_unless_error_def error_state_def string_pressure_def same_control_def)

text \<open>An operation that may change the string arena: it fails, or it keeps what a program can see.\<close>

definition kept :: "'a heap_vm \<Rightarrow> 'a heap_vm \<Rightarrow> bool" where
  "kept vm vm' \<longleftrightarrow> same_views vm vm' \<and> collectable vm' \<and> same_control vm vm' \<and> no_new_error vm vm'"

lemma kept_refl: "collectable vm \<Longrightarrow> kept vm vm"
  by (simp add: kept_def same_views_refl)

lemma kept_trans: "kept vm vm1 \<Longrightarrow> kept vm1 vm2 \<Longrightarrow> kept vm vm2"
  unfolding kept_def using same_views_trans same_control_trans no_new_error_trans by blast

lemma limit_changed_kept: "collectable vm \<Longrightarrow> limit_changed vm vm' \<Longrightarrow> kept vm vm'"
  using limit_changed_keeps [of vm vm'] same_contents_reach(6) [OF same_heap_contents] same_heap_reach(4) [of vm vm']
  by (simp add: kept_def collectable_def)

lemma string_room_keeps:
  assumes "collectable vm" and "string_arena_room alloc block snapshot vm n = (r, vm')"
  shows "case r of None \<Rightarrow> failed vm vm'
    | Some needed \<Rightarrow> kept vm vm' \<and> needed = vm_string_arena_used vm' + n \<and> needed \<le> vm_string_arena_limit vm'"
proof -
  let ?ensure = "\<lambda>vm needed. if needed > vm_string_arena_limit vm then ensure_string_arena_capacity snapshot needed vm else (True, vm)"
  have ens: "limit_changed vm (snd (?ensure vm needed)) \<and> (fst (?ensure vm needed) \<longrightarrow> needed \<le> vm_string_arena_limit (snd (?ensure vm needed)))"
    for vm :: "'a heap_vm" and needed
    using ensure_string_result [of vm snapshot needed] by simp
  have over: "failed vm (aivm_set_vm_error (string_pressure vm) AIVM_VM_ERR_MEMORY_PRESSURE detail)" for vm :: "'a heap_vm" and detail
    by (rule failed_trans [OF _ _ set_error_failed]) simp_all
  show ?thesis
  proof (cases "aivm_size_add_checked (vm_string_arena_used vm) n")
    case None
    then show ?thesis
      using assms(2) over by (auto simp: string_arena_room_def Let_def simp del: size_add_checked_None size_add_checked_Some)
  next
    case (Some needed)
    obtain ok vm1 where 1: "?ensure vm needed = (ok, vm1)"
      by fastforce
    then have l: "limit_changed vm vm1" "ok \<Longrightarrow> needed \<le> vm_string_arena_limit vm1"
      using ens [of vm needed] by simp_all
    then have k1: "kept vm vm1"
      using limit_changed_kept assms(1) by blast
    show ?thesis
    proof (cases ok)
      case True
      then have "r = Some needed" "vm' = vm1"
        using assms(2) Some 1 by (simp_all add: string_arena_room_def Let_def del: size_add_checked_None size_add_checked_Some)
      then show ?thesis
        using True l k1 Some limit_changed_keeps(5) [OF l(1)] by simp
    next
      case False
      obtain ok2 vm2 where 2: "aivm_compact_string_arena alloc block vm1 = (ok2, vm2)"
        by fastforce
      have c1: "collectable vm1" "same_control vm vm1" "no_new_error vm vm1"
        using k1 by (simp_all add: kept_def)
      note o = string_collector.keeps_control [of vm1 alloc block, unfolded 2]
      show ?thesis
      proof (cases ok2)
        case ok2: False
        then have "r = None" "vm' = raise_unless_error ''AIVMM001: string arena capacity exceeded.'' (string_pressure vm2)"
          using assms(2) Some 1 2 False by (simp_all add: string_arena_room_def Let_def del: size_add_checked_None size_add_checked_Some)
        then show ?thesis
          using raise_after_error [of vm1 vm2] o ok2 failed_trans [OF c1(2,3)] by (simp add: outcome_ok_def)
      next
        case ok2: True
        have k2: "kept vm1 vm2"
          using string_collector.keeps_values [OF c1(1)] 2 ok2 o by (simp add: kept_def outcome_ok_def)
        have c2: "collectable vm2" "same_control vm vm2" "no_new_error vm vm2" "kept vm vm2"
          using kept_trans [OF k1 k2] by (simp_all add: kept_def)
        show ?thesis
        proof (cases "aivm_size_add_checked (vm_string_arena_used vm2) n")
          case None
          then have "r = None" "vm' = aivm_set_vm_error (string_pressure vm2) AIVM_VM_ERR_MEMORY_PRESSURE ''AIVMM001: string arena capacity exceeded.''"
            using assms(2) Some 1 2 False ok2 by (simp_all add: string_arena_room_def Let_def del: size_add_checked_None size_add_checked_Some)
          then show ?thesis
            using failed_trans [OF c2(2,3) over] by simp
        next
          case needed2: (Some needed2)
          obtain ok3 vm3 where 3: "?ensure vm2 needed2 = (ok3, vm3)"
            by fastforce
          then have l3: "limit_changed vm2 vm3" "ok3 \<Longrightarrow> needed2 \<le> vm_string_arena_limit vm3"
            using ens [of vm2 needed2] by simp_all
          then have k3: "kept vm vm3"
            using kept_trans [OF c2(4)] limit_changed_kept c2(1) by blast
          have "(r, vm') = (if ok3 then (Some needed2, vm3)
              else (None, raise_unless_error ''AIVMM001: string arena capacity exceeded.'' (string_pressure vm3)))"
            using assms(2) Some 1 2 3 False ok2 needed2
            by (cases ok3) (simp_all add: string_arena_room_def Let_def del: size_add_checked_None size_add_checked_Some)
          then show ?thesis
            using l3 k3 needed2 limit_changed_keeps(5) [OF l3(1)] failed_trans [OF _ _ raise_unless_error_failed, of vm vm3]
            by (auto simp: kept_def split: if_splits)
        qed
      qed
    qed
  qed
qed

section \<open>Text that is added\<close>

lemma cstring_ok_append:
  assumes "terminated arena" and "cstring_ok arena p"
  shows "cstring_ok (arena @ t) p" and "cptr_text (arena @ t) p = cptr_text arena p"
  using assms block_append [OF assms(1)] by (cases p; simp add: cstring_ok_def)+

definition extended_arena :: "string \<Rightarrow> 'a heap_vm \<Rightarrow> 'a heap_vm \<Rightarrow> bool" where
  "extended_arena t vm vm' \<longleftrightarrow>
     vm_scratch_pairs vm' = vm_scratch_pairs vm \<and> vm_nodes vm' = vm_nodes vm \<and> vm_node_attrs vm' = vm_node_attrs vm \<and>
     vm_node_children vm' = vm_node_children vm \<and> vm_string_arena vm' = vm_string_arena vm @ t \<and>
     vm_bytes_arena vm' = vm_bytes_arena vm \<and> vm_node_capacity vm' = vm_node_capacity vm \<and>
     vm_node_attr_capacity vm' = vm_node_attr_capacity vm \<and> vm_node_child_capacity vm' = vm_node_child_capacity vm \<and>
     root_values vm' = root_values vm \<and> fixed_handles vm' = fixed_handles vm \<and> builder_handles vm' = builder_handles vm"

lemma extended_value:
  assumes "heap_ok vm []" and "extended_arena t vm vm'" and "reach vm (gc_roots vm []) v"
  defines "R \<equiv> \<lambda>v v'. v' = v \<and> reach vm (gc_roots vm []) v"
  shows "similar vm vm' R v v" and "value_ok vm' v"
proof -
  have f: "vm_scratch_pairs vm' = vm_scratch_pairs vm" "vm_nodes vm' = vm_nodes vm" "vm_node_attrs vm' = vm_node_attrs vm"
    "vm_node_children vm' = vm_node_children vm" "vm_string_arena vm' = vm_string_arena vm @ t" "vm_bytes_arena vm' = vm_bytes_arena vm"
    using assms(2) by (simp_all add: extended_arena_def)
  note n = heap_fields_cong [OF f(2-4)]
  have zero: "terminated (vm_string_arena vm)" and ok: "value_ok vm v"
    using assms(1,3) by (auto simp: heap_ok_def heap_closed_def)
  note app = cstring_ok_append [OF zero, of _ t]
  have "similar vm vm' R v v \<and> value_ok vm' v"
  proof (cases v)
    case (ValPair k)
    obtain p where p: "aivm_vm_lookup_scratch_pair vm k = Some p"
      using ok ValPair by (auto simp: lookup_pair_iff)
    have "aivm_vm_lookup_scratch_pair vm' k = Some p"
      using p f(1) by (simp add: lookup_pair_iff)
    then show ?thesis
      using p ok ValPair reach_pair [OF assms(3) [unfolded ValPair] p] f(1) by (simp add: R_def)
  next
    case (ValNode k)
    obtain node where node: "aivm_vm_lookup_node vm k = Some node"
      using ok ValNode by (auto simp: lookup_node_iff)
    have texts: "cstring_ok (vm_string_arena vm) p" if "p \<in> node_texts vm node" for p
      using ok ValNode node that by (simp add: lookup_node_iff)
    have "map_AivmNodeAttr (cptr_text (vm_string_arena vm @ t)) a = map_AivmNodeAttr (cptr_text (vm_string_arena vm)) a"
      if "a \<in> set (node_attrs vm node)" for a
      using texts app(2) that by (intro AivmNodeAttr.map_cong) (auto simp: node_texts_def)
    moreover have "list_all2 (\<lambda>c c'. R (ValNode c) (ValNode c')) (node_children vm node) (node_children vm node)"
      using reach_child [OF assms(3) [unfolded ValNode] node] by (auto simp: list_all2_same R_def)
    moreover have "node_kind node \<in> node_texts vm node" "node_id node \<in> node_texts vm node"
      by (simp_all add: node_texts_def)
    ultimately show ?thesis
      using node texts app ok ValNode f(2,5) by (simp add: n lookup_node_iff)
  qed (use ok app f in auto)
  then show "similar vm vm' R v v" "value_ok vm' v"
    by simp_all
qed

lemma extended_arena_keeps:
  assumes "heap_ok vm []" and "extended_arena t vm vm'" and "terminated t"
  shows "same_views vm vm'" and "heap_ok vm' []"
proof -
  define R where "R = (\<lambda>v v'. v' = v \<and> reach vm (gc_roots vm []) v)"
  have f: "root_list vm' = root_list vm" "gc_roots vm' [] = gc_roots vm []"
    using assms(2) by (simp_all add: extended_arena_def root_list_def gc_roots_def)
  have sim: "similar vm vm' R v v'" if "R v v'" for v v'
    using extended_value(1) [OF assms(1,2)] that unfolding R_def by blast
  have "list_all2 R (root_list vm) (root_list vm')"
    unfolding f(1) by (auto simp: list_all2_same R_def root_list_set intro: reach_root)
  then show "same_views vm vm'"
    using same_viewsI [of R vm vm'] sim by blast
  have "\<exists>v. R v v'" if "v' \<in> gc_roots vm' []" for v'
    using that unfolding f(2) R_def by (blast intro: reach_root)
  then have "value_ok vm' v'" if "reach vm' (gc_roots vm' []) v'" for v'
    using reach_similar [of R vm vm' "gc_roots vm' []" v'] sim that extended_value(2) [OF assms(1,2)] unfolding R_def by blast
  moreover have "heap_closed vm'"
  proof -
    have g: "vm_nodes vm' = vm_nodes vm" "vm_node_attrs vm' = vm_node_attrs vm" "vm_node_children vm' = vm_node_children vm"
      using assms(2) by (simp_all add: extended_arena_def)
    show ?thesis
      using assms terminated_append [of "vm_string_arena vm" t]
      by (simp add: heap_ok_def heap_closed_def extended_arena_def heap_fields_cong(5) [OF g])
  qed
  ultimately show "heap_ok vm' []"
    by (simp add: heap_ok_def)
qed

text \<open>The text that is stored, and that it can be found at the answered offset.\<close>

definition text_stored :: "'a vm \<Rightarrow> nat \<Rightarrow> string \<Rightarrow> bool" where
  "text_stored vm off str \<longleftrightarrow> block_start (vm_string_arena vm) off \<and> c_string (drop off (vm_string_arena vm)) = str"

lemma text_stored_value: "text_stored vm off str \<Longrightarrow> value_ok vm (ValString (CArena off)) \<and> cptr_text (vm_string_arena vm) (CArena off) = Some str"
  by (simp add: text_stored_def cstring_ok_def)

lemma string_alloc_keeps:
  assumes "collectable vm" and "aivm_string_arena_alloc alloc block snapshot vm (length str + 1) = (r, vm')" and "CHR 0x00 \<notin> set str"
  shows "case r of None \<Rightarrow> failed vm vm'
    | Some off \<Rightarrow> kept vm (write_text off str vm') \<and> text_stored (write_text off str vm') off str"
proof -
  obtain r1 vm1 where 1: "string_arena_room alloc block snapshot vm (length str + 1) = (r1, vm1)"
    by fastforce
  note room = string_room_keeps [OF assms(1) 1]
  show ?thesis
  proof (cases r1)
    case None
    then show ?thesis
      using assms(2) 1 room by (simp add: aivm_string_arena_alloc_def)
  next
    case (Some needed)
    then have k: "kept vm vm1" "needed = vm_string_arena_used vm1 + (length str + 1)" "needed \<le> vm_string_arena_limit vm1"
      using room by simp_all
    let ?off = "vm_string_arena_used vm1" and ?t = "str @ [CHR 0x00]"
    have r: "r = Some ?off" and vm': "vm' = vm1\<lparr>vm_string_arena := vm_string_arena vm1 @ replicate (length str + 1) (CHR 0x00),
        vm_heap_counters := (vm_heap_counters vm1)
          \<lparr>string_arena_high_water := max (string_arena_high_water (vm_heap_counters vm1)) needed\<rparr>\<rparr>"
      using assms(2) 1 Some by (simp_all add: aivm_string_arena_alloc_def)
    let ?vm2 = "write_text ?off str vm'"
    have ext: "extended_arena ?t vm1 ?vm2"
      by (simp add: extended_arena_def write_text_def vm' root_values_def local_values_def fixed_handles_def builder_handles_def)
    have c1: "heap_ok vm1 []" "string_arena_ok vm1" "terminated (vm_string_arena vm1)"
      using k(1) by (simp_all add: kept_def collectable_def heap_ok_def heap_closed_def)
    have arena: "vm_string_arena ?vm2 = vm_string_arena vm1 @ ?t"
      using ext by (simp add: extended_arena_def)
    have "index_ok ?vm2"
      using c1(2) entry_ok_append [OF c1(3)] arena by (auto simp: string_arena_ok_def index_ok_def) (auto simp: write_text_def vm')
    then have "string_arena_ok ?vm2"
      using c1(2) k(2,3) arena by (simp add: string_arena_ok_def) (simp add: write_text_def vm')
    moreover have "same_views vm1 ?vm2" "heap_ok ?vm2 []"
      using extended_arena_keeps [OF c1(1) ext] by (simp_all add: terminated_def)
    moreover have "same_control vm1 ?vm2" "no_new_error vm1 ?vm2"
      by (simp_all add: write_text_def vm' same_control_def no_new_error_def)
    ultimately have "kept vm ?vm2"
      by (intro kept_trans [OF k(1)]) (simp add: kept_def collectable_def)
    moreover have "text_stored ?vm2 ?off str"
      using block_append_new [OF c1(3) assms(3)] arena by (simp add: text_stored_def)
    ultimately show ?thesis
      by (simp add: r)
  qed
qed

lemma reindexed_keeps:
  assumes "reindexed vm vm'"
  shows "same_control vm vm'" and "no_new_error vm vm'"
proof -
  have "same_control vm vm' \<and> no_new_error vm vm'"
    using assms unfolding reindexed_def by (erule_tac ssubst) (simp add: same_control_def no_new_error_def)
  then show "same_control vm vm'" "no_new_error vm vm'"
    by simp_all
qed

lemma reindexed_kept:
  assumes "kept vm vm1" and "reindexed vm1 vm2" and "index_ok vm2"
  shows "kept vm vm2"
proof -
  note h = reindexed_same_heap [OF assms(2)]
  have "string_arena_ok vm2"
    using assms reindexed_limits [OF assms(2)] reindexed_arena [OF assms(2)] by (simp add: kept_def collectable_def string_arena_ok_def)
  moreover have "heap_ok vm2 []" "same_views vm1 vm2"
    using assms(1) same_heap_reach(4) [OF h] same_contents_reach(6) [OF same_heap_contents [OF h]] by (simp_all add: kept_def collectable_def)
  ultimately show ?thesis
    using reindexed_keeps [OF assms(2)] by (intro kept_trans [OF assms(1)]) (simp add: kept_def collectable_def)
qed

lemma store_text_keeps:
  assumes "collectable vm" and "store_text alloc block snapshot vm str (length str + 1) = (r, vm')" and "CHR 0x00 \<notin> set str"
  shows "case r of None \<Rightarrow> failed vm vm' | Some off \<Rightarrow> kept vm vm' \<and> text_stored vm' off str"
proof -
  obtain r1 vm1 where 1: "aivm_string_arena_alloc alloc block snapshot vm (length str + 1) = (r1, vm1)"
    by fastforce
  note a = string_alloc_keeps [OF assms(1) 1 assms(3)]
  show ?thesis
  proof (cases r1)
    case None
    then show ?thesis
      using assms(2) 1 a by (simp add: store_text_def)
  next
    case (Some off)
    let ?vm2 = "write_text off str vm1"
    let ?vm3 = "remember_string_in_index alloc ?vm2 off str"
    have k: "kept vm ?vm2" "text_stored ?vm2 off str"
      using a Some by simp_all
    have i: "index_ok ?vm3" "reindexed ?vm2 ?vm3"
      using remember_keeps_index [of ?vm2 off str alloc] k by (auto simp: kept_def collectable_def string_arena_ok_def text_stored_def)
    have "r = Some off" "vm' = ?vm3"
      using assms(2) 1 Some by (simp_all add: store_text_def)
    then show ?thesis
      using reindexed_kept [OF k(1) i(2,1)] k(2) reindexed_arena [OF i(2)] by (simp add: text_stored_def)
  qed
qed

lemma lookup_text_sound:
  assumes "index_ok vm" and "lookup_text vm str = Some off"
  shows "text_stored vm off str"
  using assms lookup_index_sound [of vm str off] find_block_Some [of "vm_string_arena vm" 0 str off]
  by (auto simp: lookup_text_def text_stored_def split: option.splits if_splits)

lemma collectable_index: "collectable vm \<Longrightarrow> index_ok vm"
  by (simp add: collectable_def string_arena_ok_def)

text \<open>The outcome of a copy of a text: it is stored, or the machine fails.\<close>

definition copy_outcome :: "'a heap_vm \<Rightarrow> string \<Rightarrow> nat option \<times> 'a heap_vm \<Rightarrow> bool" where
  "copy_outcome vm str r \<longleftrightarrow>
     (case r of (None, vm') \<Rightarrow> failed vm vm' | (Some off, vm') \<Rightarrow> kept vm vm' \<and> text_stored vm' off str)"

lemma store_text_outcome:
  "collectable vm \<Longrightarrow> CHR 0x00 \<notin> set str \<Longrightarrow> copy_outcome vm str (store_text alloc block snapshot vm str (length str + 1))"
  using store_text_keeps [of vm alloc block snapshot str]
  by (cases "store_text alloc block snapshot vm str (length str + 1)") (auto simp: copy_outcome_def split: option.splits)

lemma stored_outcome: "collectable vm \<Longrightarrow> text_stored vm off str \<Longrightarrow> copy_outcome vm str (Some off, vm)"
  by (simp add: copy_outcome_def kept_refl)

lemma copy_string_outcome:
  assumes "collectable vm" and "cptr_text (vm_string_arena vm) p = Some str" and "cstring_ok (vm_string_arena vm) p"
    and "length str < SIZE_MAX"
  shows "copy_outcome vm str (aivm_vm_copy_string_to_arena alloc block snapshot vm p)"
proof -
  have str: "CHR 0x00 \<notin> set str"
    using assms(2) by (cases p) auto
  show ?thesis
  proof (cases "lookup_string_in_arena vm p str")
    case (Some off)
    have "text_stored vm off str"
    proof (cases p)
      case (CArena o')
      then show ?thesis
        using Some assms(2,3) by (auto simp: lookup_string_in_arena_def cstring_ok_def block_start_def text_stored_def split: if_splits)
    qed (use Some lookup_text_sound [OF collectable_index [OF assms(1)]] in \<open>auto simp: lookup_string_in_arena_def\<close>)
    then show ?thesis
      using Some assms(1,2) stored_outcome by (simp add: aivm_vm_copy_string_to_arena_def)
  next
    case None
    have "\<not> aivm_pointer_in_string_arena vm p"
      using None by (auto simp: lookup_string_in_arena_def aivm_pointer_in_string_arena_def split: cptr.splits if_splits)
    then have "aivm_vm_copy_string_to_arena alloc block snapshot vm p = store_text alloc block snapshot vm str (length str + 1)"
      using None assms(2,4)
      by (simp add: aivm_vm_copy_string_to_arena_def aivm_vm_snapshot_arena_backed_string_def Suc_le_eq)
    then show ?thesis
      using store_text_outcome [OF assms(1) str] by simp
  qed
qed

lemma copy_range_outcome:
  assumes "collectable vm" and "cptr_range (vm_string_arena vm) p len = Some str" and "length str = len" and "CHR 0x00 \<notin> set str"
    and "len < SIZE_MAX" and "alloc (len + 1)"
  shows "copy_outcome vm str (aivm_vm_copy_string_range_to_arena alloc block snapshot vm p len)"
proof (cases "lookup_text vm str")
  case None
  then have "aivm_vm_copy_string_range_to_arena alloc block snapshot vm p len = store_text alloc block snapshot vm str (length str + 1)"
    using assms by (simp add: aivm_vm_copy_string_range_to_arena_def aivm_vm_snapshot_arena_backed_string_def Suc_le_eq)
  then show ?thesis
    using store_text_outcome [OF assms(1,4)] by simp
next
  case (Some off)
  then show ?thesis
    using assms(2) stored_outcome [OF assms(1) lookup_text_sound [OF collectable_index [OF assms(1)] Some]]
    by (simp add: aivm_vm_copy_string_range_to_arena_def)
qed

lemma copy_splice_outcome:
  assumes "collectable vm" and "cptr_range (vm_string_arena vm) p len = Some str" and "length str = len" and "CHR 0x00 \<notin> set str"
    and "cptr_range (vm_string_arena vm) q len' = Some str'" and "length str' = len'" and "CHR 0x00 \<notin> set str'"
    and "len + len' < SIZE_MAX" and "alloc (len + 1)" and "alloc (len' + 1)"
  shows "copy_outcome vm (str @ str') (aivm_vm_copy_string_splice_to_arena alloc block snapshot vm p len q len')"
proof (cases "find_block (vm_string_arena vm) 0 (str @ str')")
  case None
  then have "aivm_vm_copy_string_splice_to_arena alloc block snapshot vm p len q len' =
      store_text alloc block snapshot vm (str @ str') (length (str @ str') + 1)"
    using assms by (simp add: aivm_vm_copy_string_splice_to_arena_def aivm_vm_snapshot_arena_backed_string_def Suc_le_eq)
  then show ?thesis
    using store_text_outcome [OF assms(1), of "str @ str'"] assms(4,7) by simp
next
  case (Some off)
  then have "text_stored vm off (str @ str')"
    using find_block_Some [OF Some] by (simp add: text_stored_def)
  then show ?thesis
    using Some assms stored_outcome [OF assms(1)] by (simp add: aivm_vm_copy_string_splice_to_arena_def Suc_le_eq)
qed

section \<open>When there is room\<close>

lemma ensure_string_succeeds:
  "vm_runtime_profile vm \<noteq> AIVM_RUNTIME_PROFILE_TOOLING \<Longrightarrow> needed \<le> vm_string_arena_capacity vm \<Longrightarrow>
   fst (ensure_string_arena_capacity snapshot needed vm)"
proof (induction snapshot needed vm rule: ensure_string_arena_capacity.induct)
  case (1 snapshot needed vm)
  let ?next = "arena_grow_limit (vm_string_arena_limit vm) AIVM_VM_STRING_ARENA_GROWTH_STEP (vm_string_arena_capacity vm)"
  show ?case
  proof (cases "needed > vm_string_arena_limit vm \<and> vm_string_arena_limit vm < vm_string_arena_capacity vm")
    case True
    have "fst (ensure_string_arena_capacity snapshot needed (vm\<lparr>vm_string_arena_limit := ?next\<rparr>))"
      using 1(1) [OF True HOL.refl] 1(2,3) by simp
    then show ?thesis
      by (subst ensure_string_arena_capacity.simps) (simp add: True 1(2) Let_def)
  next
    case False
    then have "ensure_string_arena_capacity snapshot needed vm = (needed \<le> vm_string_arena_limit vm, vm)"
      by (subst ensure_string_arena_capacity.simps) (simp only: if_False)
    then show ?thesis
      using False 1(3) by auto
  qed
qed

lemma store_text_succeeds:
  assumes "vm_runtime_profile vm \<noteq> AIVM_RUNTIME_PROFILE_TOOLING" and "vm_string_arena_used vm + n \<le> vm_string_arena_capacity vm"
    and "vm_string_arena_used vm + n \<le> SIZE_MAX"
  shows "fst (store_text alloc block snapshot vm str n) \<noteq> None"
proof -
  let ?needed = "vm_string_arena_used vm + n"
  let ?r = "if ?needed > vm_string_arena_limit vm then ensure_string_arena_capacity snapshot ?needed vm else (True, vm)"
  obtain vm1 where "?r = (True, vm1)"
    using ensure_string_succeeds [OF assms(1,2), of snapshot] by (cases ?r) (auto split: if_splits)
  then have "string_arena_room alloc block snapshot vm n = (Some ?needed, vm1)"
    using assms(3) by (simp add: string_arena_room_def Let_def size_add_checked_small)
  then show ?thesis
    by (simp add: store_text_def aivm_string_arena_alloc_def)
qed

text \<open>C6 (functional): a copy of a text into the string arena answers the offset of that very text, whether it was
  there already, was appended, or needed a compaction first, and all that the program can see is as before; or it
  fails with the machine in its error state. With room left in the arena, and outside the tooling profile, it does
  not fail.\<close>

theorem string_copy_stores_text:
  assumes "collectable vm" and "cptr_text (vm_string_arena vm) p = Some str" and "cstring_ok (vm_string_arena vm) p"
    and "length str < SIZE_MAX"
  shows "(case aivm_vm_copy_string_to_arena alloc block snapshot vm p of
      (None, vm') \<Rightarrow> vm_status vm' = AIVM_VM_STATUS_ERROR \<and> same_control vm vm'
    | (Some off, vm') \<Rightarrow> cptr_text (vm_string_arena vm') (CArena off) = Some str \<and> value_ok vm' (ValString (CArena off)) \<and>
        same_views vm vm' \<and> collectable vm' \<and> same_control vm vm' \<and> no_new_error vm vm') \<and>
    (vm_runtime_profile vm \<noteq> AIVM_RUNTIME_PROFILE_TOOLING \<and>
     vm_string_arena_used vm + (length str + 1) \<le> min (vm_string_arena_capacity vm) SIZE_MAX \<longrightarrow>
       fst (aivm_vm_copy_string_to_arena alloc block snapshot vm p) \<noteq> None)"
proof (intro conjI impI)
  show "case aivm_vm_copy_string_to_arena alloc block snapshot vm p of
      (None, vm') \<Rightarrow> vm_status vm' = AIVM_VM_STATUS_ERROR \<and> same_control vm vm'
    | (Some off, vm') \<Rightarrow> cptr_text (vm_string_arena vm') (CArena off) = Some str \<and> value_ok vm' (ValString (CArena off)) \<and>
        same_views vm vm' \<and> collectable vm' \<and> same_control vm vm' \<and> no_new_error vm vm'"
    using copy_string_outcome [OF assms, of alloc block snapshot]
    by (auto simp: copy_outcome_def failed_def kept_def text_stored_def cstring_ok_def split: option.splits prod.splits)
next
  assume room: "vm_runtime_profile vm \<noteq> AIVM_RUNTIME_PROFILE_TOOLING \<and>
     vm_string_arena_used vm + (length str + 1) \<le> min (vm_string_arena_capacity vm) SIZE_MAX"
  have "aivm_vm_snapshot_arena_backed_string alloc vm p (length str)" if "lookup_string_in_arena vm p str = None"
    using that by (auto simp: lookup_string_in_arena_def aivm_pointer_in_string_arena_def aivm_vm_snapshot_arena_backed_string_def
        split: cptr.splits if_splits)
  then show "fst (aivm_vm_copy_string_to_arena alloc block snapshot vm p) \<noteq> None"
    using room assms(2,4) store_text_succeeds [of vm "length str + 1" alloc block snapshot str]
    by (auto simp: aivm_vm_copy_string_to_arena_def Suc_le_eq size_add_checked_small simp del: size_add_checked_None size_add_checked_Some
        split: option.splits)
qed

theorem string_copy_stores_text_witness:
  "case aivm_vm_copy_string_to_arena (\<lambda>n. True) 64 (Some (100, 100)) heap_demo (CExt ''id'') of
      (None, vm') \<Rightarrow> vm_status vm' = AIVM_VM_STATUS_ERROR
    | (Some off, vm') \<Rightarrow> c_string (drop off (vm_string_arena vm')) = ''id'' \<and> same_views heap_demo vm'"
proof -
  have "collectable heap_demo"
    using heap_demo_ok heap_demo_string_arena_ok by (simp add: collectable_def)
  then show ?thesis
    using string_copy_stores_text [of heap_demo "CExt ''id''" "''id''" "\<lambda>n. True" 64 "Some (100, 100)"]
    by (auto simp: c_string_def SIZE_MAX_def cstring_ok_def split: option.splits prod.splits)
qed

end
