(* ===== verification/Heap_Machine.thy ===== *)
theory Heap_Machine
  imports Map_Instructions String_Copy
begin

text \<open>
  Instructions over the heap: what an instruction leaves that takes operands from the stack, allocates, and
  pushes a result. The pair instructions of \<open>aivm_step\<close> (\<^verbatim>\<open>src/src/aivm_vm.c\<close>) are the first group;
  the instructions for bytes and strings use the same lemmas.
\<close>

section \<open>The pair instructions\<close>

definition format_lld :: "int \<Rightarrow> string" where
  "format_lld i = (if i < 0 then CHR ''-'' # format_llu (nat (- i)) else format_llu (nat i))"

definition op_make_pair :: "(nat \<Rightarrow> bool) \<Rightarrow> nat \<Rightarrow> AivmProgram \<Rightarrow> 'a heap_vm \<Rightarrow> 'a heap_vm option" where
  "op_make_pair alloc block p vm =
     (case (if vm_scratch_pair_count vm \<ge> AIVM_VM_SCRATCH_PAIR_CAPACITY then aivm_collect_safe_point alloc block vm else (True, vm)) of
        (False, vm) \<Rightarrow> Some (park p vm)
      | (True, vm) \<Rightarrow>
          or_park p (aivm_stack_pop vm) (\<lambda>second vm.
          or_park p (aivm_stack_pop vm) (\<lambda>first vm.
          or_park p (aivm_vm_create_scratch_pair vm first second) (\<lambda>handle vm.
            push_and_advance p vm (ValPair handle)))))"

text \<open>The report of a wrong operand prints the bytes of the operand as a handle; for an operand that is not a handle
  they are an argument.\<close>

definition pair_operand_error :: "(AivmValue \<Rightarrow> int) \<Rightarrow> AivmInstruction \<Rightarrow> AivmValue \<Rightarrow> 'a heap_vm \<Rightarrow> 'a heap_vm" where
  "pair_operand_error handle_bits i v vm =
     (let ret = (\<lambda>k. if k < vm_call_frame_count vm then return_instruction_pointer (vm_call_frames vm ! k) else 0) in
      set_vm_error_formatted vm AIVM_VM_ERR_TYPE_MISMATCH
        [if opcode i = AIVM_OP_PAIR_FIRST then ''PAIR_FIRST'' else ''PAIR_SECOND'', '' requires pair operand. actual='',
         aivm_vm_value_type_name (value_type v), '' handle='', format_lld (handle_bits v), '' pairCount='', format_llu (vm_scratch_pair_count vm),
         '' ip='', format_llu (vm_instruction_pointer vm), '' ret0='', format_llu (ret 0), '' ret1='', format_llu (ret 1)])"

definition op_pair_component ::
  "(AivmValue \<Rightarrow> int) \<Rightarrow> AivmProgram \<Rightarrow> AivmInstruction \<Rightarrow> 'a heap_vm \<Rightarrow> 'a heap_vm option" where
  "op_pair_component handle_bits p i vm =
     or_park p (aivm_stack_pop vm) (\<lambda>pair_value vm.
       case (case pair_value of ValPair h \<Rightarrow> aivm_vm_lookup_scratch_pair vm h | _ \<Rightarrow> None) of
         None \<Rightarrow> Some (park p (pair_operand_error handle_bits i pair_value vm))
       | Some pair \<Rightarrow> push_and_advance p vm (if opcode i = AIVM_OP_PAIR_FIRST then pair_first pair else pair_second pair))"

section \<open>Values that are sound\<close>

definition sound :: "'a heap_vm \<Rightarrow> AivmValue \<Rightarrow> bool" where
  "sound vm v \<longleftrightarrow> (\<forall>w. reach vm {v} w \<longrightarrow> value_ok vm w)"

lemma reach_self: "reach vm {v} v"
  by (rule reach_root) simp

lemma reach_mono: "reach vm roots v \<Longrightarrow> roots \<subseteq> roots' \<Longrightarrow> reach vm roots' v"
  by (induction rule: reach.induct) (auto intro: reach.intros)

lemma reach_from_one: "reach vm roots w \<longleftrightarrow> (\<exists>v \<in> roots. reach vm {v} w)"
proof
  show "reach vm roots w \<Longrightarrow> \<exists>v \<in> roots. reach vm {v} w"
    by (induction rule: reach.induct) (blast intro: reach.intros)+
  show "\<exists>v \<in> roots. reach vm {v} w \<Longrightarrow> reach vm roots w"
    using reach_mono by blast
qed

lemma reach_trans: "reach vm {v} w \<Longrightarrow> reach vm roots v \<Longrightarrow> reach vm roots w"
  by (induction rule: reach.induct) (auto intro: reach.intros)

lemma heap_ok_sound: "heap_ok vm [] \<longleftrightarrow> heap_closed vm \<and> (\<forall>v \<in> gc_roots vm []. sound vm v)"
  using reach_from_one [of vm "gc_roots vm []"] by (auto simp: heap_ok_def sound_def)

fun leaf :: "AivmValue \<Rightarrow> bool" where
  "leaf (ValPair h) \<longleftrightarrow> False"
| "leaf (ValNode h) \<longleftrightarrow> False"
| "leaf v \<longleftrightarrow> True"

lemma sound_leaf: "leaf v \<Longrightarrow> value_ok vm v \<Longrightarrow> sound vm v"
proof -
  have "reach vm {v} w \<Longrightarrow> leaf v \<Longrightarrow> w = v" for w
    by (induction rule: reach.induct) auto
  then show "leaf v \<Longrightarrow> value_ok vm v \<Longrightarrow> sound vm v"
    by (auto simp: sound_def)
qed

lemma sound_reach: "sound vm v \<Longrightarrow> reach vm {v} w \<Longrightarrow> sound vm w"
  using reach_trans [of vm w _ "{v}"] by (auto simp: sound_def)

lemma sound_parts:
  "sound vm (ValPair h) \<Longrightarrow> aivm_vm_lookup_scratch_pair vm h = Some q \<Longrightarrow> sound vm (pair_first q) \<and> sound vm (pair_second q)"
  "sound vm (ValNode h) \<Longrightarrow> aivm_vm_lookup_node vm h = Some node \<Longrightarrow> c \<in> set (node_children vm node) \<Longrightarrow> sound vm (ValNode c)"
  by (auto intro: sound_reach reach.intros reach_self)

lemma sound_value_ok: "sound vm v \<Longrightarrow> value_ok vm v"
  by (auto simp: sound_def intro: reach_root)

text \<open>The part of the heap that the operand stack is not: reachability and views do not read it.\<close>

definition same_store :: "'a heap_vm \<Rightarrow> 'a heap_vm \<Rightarrow> bool" where
  "same_store vm vm' \<longleftrightarrow>
     vm_scratch_pairs vm' = vm_scratch_pairs vm \<and> vm_nodes vm' = vm_nodes vm \<and> vm_node_attrs vm' = vm_node_attrs vm \<and>
     vm_node_children vm' = vm_node_children vm \<and> vm_string_arena vm' = vm_string_arena vm \<and> vm_bytes_arena vm' = vm_bytes_arena vm"

lemma same_store_lookups:
  assumes "same_store vm vm'"
  shows "aivm_vm_lookup_scratch_pair vm' = aivm_vm_lookup_scratch_pair vm" and "aivm_vm_lookup_node vm' = aivm_vm_lookup_node vm"
    and "node_children vm' = node_children vm" and "node_attrs vm' = node_attrs vm"
  using assms
  by (auto simp: same_store_def aivm_vm_lookup_scratch_pair_def aivm_vm_lookup_node_def node_children_def node_attrs_def fun_eq_iff)

lemma same_store_sym: "same_store vm vm' \<Longrightarrow> same_store vm' vm"
  by (simp add: same_store_def)

lemma same_store_views:
  assumes "same_store vm vm'"
  shows "reach vm' roots v = reach vm roots v" and "value_ok vm' v = value_ok vm v" and "sound vm' v = sound vm v"
    and "value_view n vm' v = value_view n vm v"
proof -
  have half: "reach w2 roots v" if "same_store w1 w2" "reach w1 roots v" for w1 w2 :: "'a heap_vm" and roots v
    using that(2) by (induction rule: reach.induct) (auto intro: reach.intros simp: same_store_lookups [OF that(1), symmetric])
  then show r: "reach vm' roots v = reach vm roots v" for roots v
    using half [OF assms] half [OF same_store_sym [OF assms]] by blast
  show ok: "value_ok vm' v = value_ok vm v" for v
    using assms same_store_lookups [OF assms] by (cases v) (auto simp: same_store_def node_texts_def)
  show "sound vm' v = sound vm v"
    by (simp add: sound_def r ok)
  show "value_view n vm' v = value_view n vm v"
  proof (induction n arbitrary: v)
    case 0
    then show ?case
      using assms by (cases v) (auto simp: same_store_def)
  next
    case (Suc n)
    then show ?case
      using assms same_store_lookups [OF assms] by (cases v) (auto simp: same_store_def split: option.split)
  qed
qed

lemma same_store_stack [simp]: "same_store vm (vm\<lparr>vm_stack := s\<rparr>)" "same_store vm (vm\<lparr>vm_instruction_pointer := i\<rparr>)"
  "same_store vm (vm\<lparr>vm_stack := s, vm_instruction_pointer := i\<rparr>)"
  by (simp_all add: same_store_def)

section \<open>Stacks\<close>

lemma gc_roots_stack: "gc_roots (vm\<lparr>vm_stack := s\<rparr>) [] \<subseteq> gc_roots vm [] \<union> set s"
  by (auto simp: gc_roots_def root_values_def local_values_def fixed_handles_def builder_handles_def)

lemma stack_roots: "set (vm_stack vm) \<subseteq> gc_roots vm []"
  by (auto simp: gc_roots_def root_values_def)

lemma sound_stack: "collectable vm \<Longrightarrow> v \<in> set (vm_stack vm) \<Longrightarrow> sound vm v"
  using stack_roots [of vm] by (auto simp: collectable_def heap_ok_sound)

lemma collectable_stack:
  assumes "collectable vm" and "\<forall>v \<in> set s. sound vm v"
  shows "collectable (vm\<lparr>vm_stack := s\<rparr>)"
proof -
  let ?vm' = "vm\<lparr>vm_stack := s\<rparr>"
  have "\<forall>v \<in> gc_roots ?vm' []. sound vm v"
    using assms gc_roots_stack [of s vm] by (auto simp: collectable_def heap_ok_sound)
  then have "\<forall>v \<in> gc_roots ?vm' []. sound ?vm' v"
    using same_store_views(3) [OF same_store_stack(1)] by blast
  moreover have "heap_closed ?vm'"
    using assms(1) by (simp add: collectable_def heap_ok_def heap_closed_def node_shape_ok_def node_children_def)
  ultimately show ?thesis
    using assms(1) by (simp add: collectable_def heap_ok_sound string_arena_ok_def index_ok_def)
qed

lemma collectable_ip: "collectable (vm\<lparr>vm_instruction_pointer := i\<rparr>) = collectable vm"
proof -
  have "same_heap vm (vm\<lparr>vm_instruction_pointer := i\<rparr>)"
    by (simp add: same_heap_def root_values_def local_values_def fixed_handles_def builder_handles_def)
  from same_heap_reach(4) [OF this] show ?thesis
    by (simp add: collectable_def string_arena_ok_def index_ok_def)
qed

definition popped :: "nat \<Rightarrow> 'a vm \<Rightarrow> 'a vm" where
  "popped k vm = vm\<lparr>vm_stack := drop k (vm_stack vm)\<rparr>"

lemma popped_0 [simp]: "popped 0 vm = vm"
  by (simp add: popped_def)

lemma popped_stack [simp]: "vm_stack (popped k vm) = drop k (vm_stack vm)"
  by (simp add: popped_def)

lemma popped_popped [simp]: "popped k (popped j vm) = popped (j + k) vm"
  by (simp add: popped_def add.commute)

lemma same_store_popped [simp]: "same_store vm (popped k vm)"
  by (simp add: popped_def)

lemma collectable_popped: "collectable vm \<Longrightarrow> collectable (popped k vm)"
  unfolding popped_def using sound_stack in_set_dropD by (intro collectable_stack) fastforce+

lemma running_popped: "running_ok p vm \<Longrightarrow> running_ok p (popped k vm)"
  by (auto simp: popped_def running_ok_def machine_ok_def vm_bounds_def)

lemma stack_pop: "vm_stack vm = v # vs \<Longrightarrow> aivm_stack_pop vm = (Some v, popped (Suc 0) vm)"
  by (simp add: aivm_stack_pop_def popped_def)

lemma update_same: "vm\<lparr>vm_instruction_pointer := vm_instruction_pointer vm\<rparr> = vm" "vm\<lparr>vm_stack_limit := vm_stack_limit vm\<rparr> = vm"
  by simp_all

lemma stack_push:
  "vm_stack_count vm < vm_stack_limit vm \<Longrightarrow> vm_stack_limit vm \<le> AIVM_VM_STACK_CAPACITY \<Longrightarrow>
   aivm_stack_push vm v = (Some (), vm\<lparr>vm_stack := v # vm_stack vm\<rparr>)"
  by (simp add: aivm_stack_push_def ensure_stack_capacity_def grow_limit_loop_def while_unfold Let_def size_add_checked_small AIVM_VM_STACK_CAPACITY_def SIZE_MAX_def Suc_le_eq)

lemma popped_control: "same_control vm vm' \<Longrightarrow> same_control (popped k vm) (popped k vm')"
  by (simp add: same_control_def popped_def)

lemma root_list_stack: "root_list vm = rev (vm_stack vm) @ root_list (vm\<lparr>vm_stack := []\<rparr>)"
  by (simp add: root_list_def root_values_def local_values_def fixed_handles_def builder_handles_def)

lemma same_views_stack:
  assumes "same_views vm vm'" and "vm_stack_count vm' = vm_stack_count vm"
  shows "same_views (popped k vm) (popped k vm')"
    and "list_all2 (\<lambda>v v'. \<forall>n. value_view n vm' v' = value_view n vm v) (vm_stack vm) (vm_stack vm')"
proof -
  let ?R = "\<lambda>v v'. \<forall>n. value_view n vm' v' = value_view n vm v"
  have l: "list_all2 ?R (rev (vm_stack vm)) (rev (vm_stack vm'))" "list_all2 ?R (root_list (vm\<lparr>vm_stack := []\<rparr>)) (root_list (vm'\<lparr>vm_stack := []\<rparr>))"
    using assms unfolding same_views_def root_list_stack [of vm] root_list_stack [of vm'] by (simp_all add: list_all2_append)
  from l(1) show s: "list_all2 ?R (vm_stack vm) (vm_stack vm')"
    by simp
  have "list_all2 ?R (rev (drop k (vm_stack vm))) (rev (drop k (vm_stack vm')))"
    using list_all2_dropI [OF s] by simp
  then have "list_all2 ?R (root_list (popped k vm)) (root_list (popped k vm'))"
    using l(2) unfolding root_list_stack [of "popped k vm"] root_list_stack [of "popped k vm'"]
    by (auto simp: popped_def intro!: list_all2_appendI)
  then show "same_views (popped k vm) (popped k vm')"
    unfolding same_views_def by (simp add: same_store_views(4) [OF same_store_popped])
qed

lemma kept_popped: "kept vm vm' \<Longrightarrow> kept (popped k vm) (popped k vm')"
  using same_views_stack(1) [of vm vm' k] collectable_popped [of vm' k] popped_control [of vm vm' k]
  by (simp add: kept_def) (simp add: same_control_def no_new_error_def popped_def)

section \<open>What an instruction leaves\<close>

definition heap_state :: "AivmProgram \<Rightarrow> 'a heap_vm \<Rightarrow> bool" where
  "heap_state p vm \<longleftrightarrow> running_ok p vm \<and> collectable vm"

text \<open>The invariant after an instruction: the heap is well formed unless the machine has failed.\<close>

definition handled :: "AivmProgram \<Rightarrow> 'a heap_vm option \<Rightarrow> bool" where
  "handled p r \<longleftrightarrow> (\<exists>vm'. r = Some vm' \<and> machine_ok p vm' \<and> (vm_status vm' = AIVM_VM_STATUS_ERROR \<or> collectable vm'))"

text \<open>The top \<open>k\<close> values are replaced by one with the given views; everything else the program can see is kept.\<close>

definition answers :: "'a heap_vm \<Rightarrow> nat \<Rightarrow> (nat \<Rightarrow> view) \<Rightarrow> 'a heap_vm \<Rightarrow> bool" where
  "answers vm k vw vm' \<longleftrightarrow>
     (\<exists>v rest. vm_stack vm' = v # rest \<and> (\<forall>n. value_view n vm' v = vw n) \<and>
        kept (popped k vm) (vm'\<lparr>vm_stack := rest, vm_instruction_pointer := vm_instruction_pointer vm\<rparr>)) \<and>
     vm_instruction_pointer vm' = vm_instruction_pointer vm + 1 \<and> collectable vm'"

text \<open>The instruction does that, or it fails and the program stops.\<close>

definition gives :: "AivmProgram \<Rightarrow> 'a heap_vm \<Rightarrow> nat \<Rightarrow> (nat \<Rightarrow> view) \<Rightarrow> 'a heap_vm option \<Rightarrow> bool" where
  "gives p vm k vw r \<longleftrightarrow>
     (\<exists>vm'. r = Some vm' \<and> machine_ok p vm' \<and>
        (answers vm k vw vm' \<or> vm_status vm' = AIVM_VM_STATUS_ERROR))"

lemma gives_handled: "gives p vm k vw r \<Longrightarrow> handled p r"
  by (auto simp: gives_def handled_def answers_def)

lemma gives_park:
  "running_ok p vm' \<Longrightarrow> vm_status vm' = AIVM_VM_STATUS_ERROR \<Longrightarrow> gives p vm k vw (Some (park p vm'))"
  using park_ok [of p vm'] by (simp add: gives_def) (simp add: park_def)

lemma gives_push_failed:
  assumes "running_ok p vm'" and "vm_status vm' = AIVM_VM_STATUS_ERROR"
  shows "gives p vm k vw (push_and_advance p vm' v)"
proof (cases "aivm_stack_push vm' v")
  case (Pair r vm1)
  have "running_ok p vm1" "vm_status vm1 = AIVM_VM_STATUS_ERROR"
    using push_running [OF assms(1), of v] assms(2) Pair
    by (auto simp: aivm_stack_push_def ensure_stack_capacity_def aivm_set_vm_error_def Let_def split: option.splits if_splits bool.splits)
  then show ?thesis
    using Pair gives_park [of p vm1] advance_ok [of p vm1]
    by (cases r) (simp_all add: push_and_advance_def or_park_def gives_def, simp add: advance_def)
qed

lemma set_error_status [simp]: "vm_status (aivm_set_vm_error vm err detail) = AIVM_VM_STATUS_ERROR"
  by (simp add: aivm_set_vm_error_def)

lemma gives_fail: "running_ok p vm' \<Longrightarrow> err \<noteq> AIVM_VM_ERR_NONE \<Longrightarrow> gives p vm k vw (fail_with p vm' err detail)"
  unfolding fail_with_def by (rule gives_park) (simp_all add: error_running)

lemma gives_failed: "running_ok p vm1 \<Longrightarrow> failed vm1 vm' \<Longrightarrow> gives p vm k vw (Some (park p vm'))"
  by (rule gives_park) (simp_all add: failed_running, simp add: failed_def)

lemma push_answers:
  assumes "heap_state p vm" and "0 < k" and "k \<le> vm_stack_count vm" and "kept (popped k vm) vm1" and "sound vm1 v"
    and "\<And>n. value_view n vm1 v = vw n"
  shows "\<exists>vm'. push_and_advance p vm1 v = Some vm' \<and> machine_ok p vm' \<and> answers vm k vw vm'"
proof -
  have run: "running_ok p vm1" and c: "collectable vm1"
    using assms(1,4) running_popped [of p vm k] by (auto simp: heap_state_def kept_def intro: same_control_running)
  have count: "vm_stack_count vm1 = vm_stack_count vm - k" "vm_stack_limit vm1 = vm_stack_limit vm"
    "vm_instruction_pointer vm1 = vm_instruction_pointer vm"
    using assms(4) by (simp_all add: kept_def same_control_def popped_def)
  have "vm_stack_count vm1 < vm_stack_limit vm1" "vm_stack_limit vm1 \<le> AIVM_VM_STACK_CAPACITY"
    using assms(1-3) count by (auto simp: heap_state_def running_ok_def machine_ok_def vm_bounds_def)
  note push = stack_push [OF this, of v]
  let ?vm2 = "vm1\<lparr>vm_stack := v # vm_stack vm1\<rparr>"
  have "collectable ?vm2"
    using assms(5) sound_stack [OF c] by (intro collectable_stack [OF c]) auto
  moreover have "running_ok p ?vm2"
    using push_running [OF run, of v] push by simp
  moreover have "kept (popped k vm) (vm1\<lparr>vm_instruction_pointer := vm_instruction_pointer vm\<rparr>)"
    unfolding count(3) [symmetric] update_same by (rule assms(4))
  moreover have "value_view n (advance ?vm2) v = vw n" for n
    using assms(6) same_store_views(4) [of vm1 "advance ?vm2"] by (simp add: advance_def same_store_def)
  ultimately show ?thesis
    using count(3) advance_ok [of p ?vm2] assms(4)
    by (simp add: push_and_advance_def or_park_def push answers_def advance_def collectable_ip)
qed

lemma gives_push:
  assumes "heap_state p vm" and "0 < k" and "k \<le> vm_stack_count vm" and "kept (popped k vm) vm1" and "sound vm1 v"
    and "\<And>n. value_view n vm1 v = vw n"
  shows "gives p vm k vw (push_and_advance p vm1 v)"
  using push_answers [OF assms(1-5), of vw] assms(6) unfolding gives_def by blast

text \<open>Operands that are missing stop the program.\<close>

lemma gives_pop:
  assumes "running_ok p vm1" and "\<And>v vs. vm_stack vm1 = v # vs \<Longrightarrow> gives p vm k vw (f v (popped 1 vm1))"
  shows "gives p vm k vw (or_park p (aivm_stack_pop vm1) f)"
proof (cases "vm_stack vm1")
  case Nil
  then show ?thesis
    using assms(1) by (simp add: aivm_stack_pop_def or_park_def gives_park error_running)
next
  case (Cons v vs)
  then show ?thesis
    using assms(2) by (simp add: stack_pop or_park_def)
qed

lemma handled_pop:
  assumes "running_ok p vm1" and "\<And>v vs. vm_stack vm1 = v # vs \<Longrightarrow> handled p (f v (popped (Suc 0) vm1))"
  shows "handled p (or_park p (aivm_stack_pop vm1) f)"
  using assms(2) gives_handled [OF gives_park [OF error_running [OF assms(1)]]]
  by (cases "vm_stack vm1") (simp_all add: aivm_stack_pop_def or_park_def popped_def)

lemma handled_park: "running_ok p vm \<Longrightarrow> collectable vm \<Longrightarrow> handled p (Some (park p vm))"
  using park_ok [of p vm] by (simp add: handled_def) (simp add: park_def collectable_ip)

lemmas handled_fail = gives_handled [OF gives_fail]

section \<open>Pairs\<close>

definition pair_added :: "AivmValue \<Rightarrow> AivmValue \<Rightarrow> 'a heap_vm \<Rightarrow> 'a heap_vm" where
  "pair_added v w vm = vm\<lparr>vm_scratch_pairs := vm_scratch_pairs vm @ [\<lparr>pair_first = v, pair_second = w\<rparr>]\<rparr>"

lemma pair_added_lookups:
  "aivm_vm_lookup_node (pair_added v w vm) = aivm_vm_lookup_node vm" "node_children (pair_added v w vm) = node_children vm"
  "node_attrs (pair_added v w vm) = node_attrs vm" "root_list (pair_added v w vm) = root_list vm"
  "aivm_vm_lookup_scratch_pair (pair_added v w vm) (1 + int (vm_scratch_pair_count vm)) = Some \<lparr>pair_first = v, pair_second = w\<rparr>"
  "valid_handle k (vm_scratch_pair_count vm) \<Longrightarrow>
     aivm_vm_lookup_scratch_pair (pair_added v w vm) k = aivm_vm_lookup_scratch_pair vm k"
  by (auto simp: pair_added_def aivm_vm_lookup_node_def node_children_def node_attrs_def fun_eq_iff lookup_pair_iff root_list_def
      root_values_def local_values_def fixed_handles_def builder_handles_def valid_handle_def nth_append nat_add_distrib
      aivm_vm_lookup_scratch_pair_def)

lemma pair_added_sound:
  assumes "sound vm u"
  shows "sound (pair_added v w vm) u"
proof -
  note l = pair_added_lookups [where v = v and w = w and vm = vm]
  have ok: "value_ok (pair_added v w vm) x" if "value_ok vm x" for x
    using that l(3) by (cases x) (auto simp: pair_added_def valid_handle_def node_texts_def)
  have "reach vm {u} x" if "reach (pair_added v w vm) {u} x" for x
    using that
  proof (induction rule: reach.induct)
    case (reach_pair k q x)
    then have "valid_handle k (vm_scratch_pair_count vm)"
      using assms by (auto simp: sound_def)
    then show ?case
      using reach_pair l(6) by (auto intro: reach.reach_pair)
  qed (auto simp: l intro: reach.intros)
  then show ?thesis
    using assms ok by (auto simp: sound_def)
qed

lemma pair_added_similar:
  assumes "sound vm u"
  shows "similar vm (pair_added v w vm) (\<lambda>u u'. u' = u \<and> sound vm u) u u"
proof -
  note l = pair_added_lookups [where v = v and w = w and vm = vm]
  show ?thesis
  proof (cases u)
    case (ValPair k)
    then have k: "valid_handle k (vm_scratch_pair_count vm)"
      using assms sound_value_ok [of vm u] by auto
    then obtain q where q: "aivm_vm_lookup_scratch_pair vm k = Some q"
      by (simp add: lookup_pair_iff)
    have "sound vm (pair_first q)" "sound vm (pair_second q)"
      using assms q ValPair by (auto intro: sound_reach reach.intros)
    then show ?thesis
      using ValPair q l(6) [OF k] by simp
  next
    case (ValNode k)
    then obtain node where node: "aivm_vm_lookup_node vm k = Some node"
      using assms sound_value_ok [of vm u] by (auto simp: lookup_node_iff)
    then have "list_all2 (\<lambda>c c'. ValNode c' = ValNode c \<and> sound vm (ValNode c)) (node_children vm node) (node_children vm node)"
      using assms ValNode by (auto simp: list_all2_same intro: sound_reach reach.intros)
    then show ?thesis
      using ValNode node l by (auto simp: pair_added_def)
  qed (auto simp: pair_added_def)
qed

lemma pair_added_view: "sound vm u \<Longrightarrow> value_view n (pair_added v w vm) u = value_view n vm u"
  by (rule view_similar [of "\<lambda>u u'. u' = u \<and> sound vm u"]) (auto intro: pair_added_similar)

lemma pair_added_kept:
  assumes "collectable vm" and "sound vm v" and "sound vm w"
  shows "kept vm (pair_added v w vm)"
proof -
  note l = pair_added_lookups [where v = v and w = w and vm = vm]
  have all: "\<forall>u \<in> set (root_list vm). sound vm u"
    using assms(1) by (simp add: root_list_set collectable_def heap_ok_sound)
  have "same_views vm (pair_added v w vm)"
    using all pair_added_view [where v = v and w = w and vm = vm] by (auto simp: same_views_def l(4) list_all2_same)
  moreover have "heap_closed (pair_added v w vm)"
    using assms by (auto simp: collectable_def heap_ok_def heap_closed_def pair_added_def pair_values_ok_def node_shape_ok_def
        node_children_def valid_handle_def dest!: sound_value_ok)
  moreover have "\<forall>u \<in> gc_roots (pair_added v w vm) []. sound (pair_added v w vm) u"
    using all pair_added_sound unfolding root_list_set [symmetric] l(4) by blast
  ultimately show ?thesis
    using assms(1) by (simp add: kept_def collectable_def heap_ok_sound)
      (simp add: pair_added_def same_control_def no_new_error_def string_arena_ok_def index_ok_def)
qed

text \<open>What a pair shows of its components.\<close>

definition pair_view :: "(nat \<Rightarrow> view) \<Rightarrow> (nat \<Rightarrow> view) \<Rightarrow> nat \<Rightarrow> view" where
  "pair_view v w n = (case n of 0 \<Rightarrow> VCut | Suc m \<Rightarrow> VPair (v m) (w m))"

lemma create_pair:
  assumes "collectable vm" and "sound vm v" and "sound vm w" and "aivm_vm_create_scratch_pair vm v w = (Some h, vm')"
  shows "kept vm vm'" and "sound vm' (ValPair h)"
    and "value_view n vm' (ValPair h) = pair_view (\<lambda>n. value_view n vm v) (\<lambda>n. value_view n vm w) n"
proof -
  have h: "h = 1 + int (vm_scratch_pair_count vm)" and vm': "vm' = pair_added v w vm"
    using assms(4) by (auto simp: aivm_vm_create_scratch_pair_def pair_added_def split: if_splits option.splits)
  note l = pair_added_lookups [where v = v and w = w and vm = vm, folded vm' h]
  show "kept vm vm'"
    unfolding vm' by (rule pair_added_kept [OF assms(1-3)])
  have parts: "x = ValPair h \<or> reach vm' {v} x \<or> reach vm' {w} x" if "reach vm' {ValPair h} x" for x
    using that by (induction rule: reach.induct) (auto simp: l(5) reach_self intro: reach.intros)
  have "value_ok vm' (ValPair h)"
    by (simp add: vm' h pair_added_def valid_handle_def)
  then show "sound vm' (ValPair h)"
    using parts pair_added_sound [OF assms(2), of v w] pair_added_sound [OF assms(3), of v w]
    unfolding sound_def vm' [symmetric] by blast
  show "value_view n vm' (ValPair h) = pair_view (\<lambda>n. value_view n vm v) (\<lambda>n. value_view n vm w) n"
    using pair_added_view [OF assms(2), of _ v w] pair_added_view [OF assms(3), of _ v w]
    by (cases n) (simp_all add: pair_view_def l(5) vm' [symmetric])
qed

lemma safe_point_kept:
  assumes "collectable vm" and "aivm_collect_safe_point alloc block vm = (ok, vm')"
  shows "if ok then kept vm vm' else failed vm vm'"
  using safe_point_collector.keeps_values [of vm alloc block True True vm']
    safe_point_collector.keeps_control [of vm alloc block True True] assms
  by (auto simp: aivm_collect_safe_point_def outcome_ok_def kept_def failed_def error_state_def)

lemma create_pair_fails:
  assumes "aivm_vm_create_scratch_pair vm v w = (None, vm')"
  shows "failed vm vm'"
  using assms set_error_failed [of AIVM_VM_ERR_MEMORY_PRESSURE vm]
  by (auto simp: aivm_vm_create_scratch_pair_def split: if_splits option.splits)

lemma make_pair_gives:
  assumes "heap_state p vm"
  shows "gives p vm 2 (pair_view (\<lambda>n. value_view n vm (vm_stack vm ! 1)) (\<lambda>n. value_view n vm (vm_stack vm ! 0)))
    (op_make_pair alloc block p vm)"
proof -
  let ?vw = "pair_view (\<lambda>n. value_view n vm (vm_stack vm ! 1)) (\<lambda>n. value_view n vm (vm_stack vm ! 0))"
  have run: "running_ok p vm" and c: "collectable vm"
    using assms by (simp_all add: heap_state_def)
  obtain ok vm1 where 1: "(if vm_scratch_pair_count vm \<ge> AIVM_VM_SCRATCH_PAIR_CAPACITY then aivm_collect_safe_point alloc block vm
      else (True, vm)) = (ok, vm1)"
    by fastforce
  have k: "if ok then kept vm vm1 else failed vm vm1"
    using 1 safe_point_kept [OF c, of alloc block] kept_refl [OF c] by (cases "vm_scratch_pair_count vm \<ge> AIVM_VM_SCRATCH_PAIR_CAPACITY") auto
  show ?thesis
  proof (cases ok)
    case False
    then show ?thesis
      using 1 k gives_failed [OF run] by (simp add: op_make_pair_def)
  next
    case True
    then have kept: "kept vm vm1" and run1: "running_ok p vm1"
      using k same_control_running [OF run] by (auto simp: kept_def)
    have "gives p vm 2 ?vw (or_park p (aivm_vm_create_scratch_pair (popped 2 vm1) a b) (\<lambda>handle vm. push_and_advance p vm (ValPair handle)))"
      if s: "vm_stack vm1 = b # a # rest" for a b rest
    proof -
      obtain r vm3 where 3: "aivm_vm_create_scratch_pair (popped 2 vm1) a b = (r, vm3)"
        by fastforce
      have k2: "kept (popped 2 vm) (popped 2 vm1)" and c2: "collectable (popped 2 vm1)" and run2: "running_ok p (popped 2 vm1)"
        using kept_popped [OF kept] running_popped [OF run1] by (simp_all add: kept_def)
      have ab: "sound (popped 2 vm1) a" "sound (popped 2 vm1) b"
        using sound_stack [of vm1] kept s by (simp_all add: kept_def same_store_views(3) [OF same_store_popped])
      have st: "list_all2 (\<lambda>v v'. \<forall>n. value_view n vm1 v' = value_view n vm v) (vm_stack vm) (vm_stack vm1)"
        using kept same_views_stack(2) [of vm vm1] by (simp add: kept_def same_control_def)
      then have n: "value_view n vm1 a = value_view n vm (vm_stack vm ! 1)" "value_view n vm1 b = value_view n vm (vm_stack vm ! 0)"
        "2 \<le> vm_stack_count vm" for n
        by (auto simp: s list_all2_Cons2)
      show ?thesis
      proof (cases r)
        case None
        then show ?thesis
          using 3 gives_failed [OF run2 create_pair_fails] by (simp add: or_park_def)
      next
        case (Some h)
        note cp = create_pair [OF c2 ab 3 [unfolded Some]]
        have "gives p vm 2 ?vw (push_and_advance p vm3 (ValPair h))"
          using n by (intro gives_push [OF assms _ _ kept_trans [OF k2 cp(1)] cp(2)])
            (simp_all add: cp(3) same_store_views(4) [OF same_store_popped] pair_view_def)
        then show ?thesis
          using 3 Some by (simp add: or_park_def)
      qed
    qed
    then show ?thesis
      unfolding op_make_pair_def using 1 True
      by (auto intro!: gives_pop simp: run1 running_popped numeral_2_eq_2)
  qed
qed

lemma pair_component_answers:
  assumes "heap_state p vm" and "vm_stack vm = ValPair h # rest"
    and "\<And>n. value_view n vm (ValPair h) = pair_view v w n"
  shows "\<exists>vm'. op_pair_component handle_bits p i vm = Some vm' \<and> machine_ok p vm' \<and>
    answers vm 1 (if opcode i = AIVM_OP_PAIR_FIRST then v else w) vm'"
proof -
  have c: "collectable vm"
    using assms(1) by (simp add: heap_state_def)
  have s: "sound vm (ValPair h)"
    using sound_stack [OF c] assms(2) by simp
  obtain q where q: "aivm_vm_lookup_scratch_pair vm h = Some q"
    using sound_value_ok [OF s] by (auto simp: lookup_pair_iff)
  have vw: "v n = value_view n vm (pair_first q)" "w n = value_view n vm (pair_second q)" for n
    using assms(3) [of "Suc n"] by (simp_all add: q pair_view_def)
  have "sound vm (pair_first q)" "sound vm (pair_second q)"
    using s q by (auto intro: sound_reach reach.intros reach_self)
  then have "\<exists>vm'. push_and_advance p (popped 1 vm) (if opcode i = AIVM_OP_PAIR_FIRST then pair_first q else pair_second q) = Some vm' \<and>
      machine_ok p vm' \<and> answers vm 1 (if opcode i = AIVM_OP_PAIR_FIRST then v else w) vm'"
    using assms(2) by (intro push_answers [OF assms(1)])
      (auto simp: vw same_store_views [OF same_store_popped] intro: kept_refl collectable_popped [OF c])
  then show ?thesis
    using assms(2) q by (simp add: op_pair_component_def stack_pop or_park_def same_store_lookups [OF same_store_popped])
qed

lemma pair_operand_refused:
  assumes "running_ok p vm" and "vm_stack vm = v # rest" and "\<And>h. v = ValPair h \<Longrightarrow> \<not> valid_handle h (vm_scratch_pair_count vm)"
  shows "\<exists>vm'. op_pair_component handle_bits p i vm = Some vm' \<and> machine_ok p vm' \<and> error_state vm' \<and>
    vm_error vm' = AIVM_VM_ERR_TYPE_MISMATCH \<and> vm_instruction_pointer vm' = instruction_count p"
proof -
  have "(case v of ValPair h \<Rightarrow> aivm_vm_lookup_scratch_pair (popped (Suc 0) vm) h | _ \<Rightarrow> None) = None"
    using assms(3) by (cases v) (auto simp: aivm_vm_lookup_scratch_pair_def valid_handle_def popped_def)
  then have r: "op_pair_component handle_bits p i vm = Some (park p (pair_operand_error handle_bits i v (popped 1 vm)))"
    using assms(2) by (auto simp: op_pair_component_def stack_pop or_park_def)
  have "running_ok p (pair_operand_error handle_bits i v (popped 1 vm))"
    using running_popped [OF assms(1)] by (simp add: pair_operand_error_def Let_def set_vm_error_formatted_def error_running)
  from park_ok [OF this] r show ?thesis
    by (simp add: park_def error_state_def) (simp add: pair_operand_error_def Let_def set_vm_error_formatted_def aivm_set_vm_error_def)
qed

lemma pair_component_handled:
  assumes "heap_state p vm"
  shows "handled p (op_pair_component handle_bits p i vm)"
proof (cases "\<exists>h rest. vm_stack vm = ValPair h # rest")
  case True
  then obtain h rest where s: "vm_stack vm = ValPair h # rest"
    by blast
  obtain q where q: "aivm_vm_lookup_scratch_pair vm h = Some q"
    using sound_stack [of vm "ValPair h"] sound_value_ok [of vm "ValPair h"] s assms by (auto simp: heap_state_def lookup_pair_iff)
  have "value_view n vm (ValPair h) = pair_view (\<lambda>n. value_view n vm (pair_first q)) (\<lambda>n. value_view n vm (pair_second q)) n" for n
    by (cases n) (simp_all add: pair_view_def q)
  from pair_component_answers [OF assms s this, of handle_bits i] show ?thesis
    unfolding handled_def answers_def by blast
next
  case False
  have run: "running_ok p vm"
    using assms by (simp add: heap_state_def)
  show ?thesis
  proof (cases "vm_stack vm")
    case Nil
    then show ?thesis
      using run by (simp add: op_pair_component_def aivm_stack_pop_def or_park_def gives_handled [OF gives_park] error_running)
  next
    case (Cons v vs)
    then show ?thesis
      using False pair_operand_refused [OF run Cons, of handle_bits i] by (auto simp: handled_def error_state_def)
  qed
qed

section \<open>Properties\<close>

lemma kept_ip: "kept (vm\<lparr>vm_instruction_pointer := i\<rparr>) (vm'\<lparr>vm_instruction_pointer := i\<rparr>)" if "kept vm vm'"
proof -
  have h: "same_contents w (w\<lparr>vm_instruction_pointer := i\<rparr>)" for w :: "'a heap_vm"
    by (simp add: same_contents_def root_values_def local_values_def fixed_handles_def builder_handles_def)
  have "same_views (vm\<lparr>vm_instruction_pointer := i\<rparr>) (vm'\<lparr>vm_instruction_pointer := i\<rparr>)"
    using that by (simp add: kept_def same_views_def same_contents_reach(4,5) [OF h])
  then show ?thesis
    using that by (simp add: kept_def collectable_ip) (simp add: same_control_def no_new_error_def)
qed

text \<open>C13 (roundtrip): MAKE_PAIR takes two operands and pushes a pair, after a collection if the table of pairs is full; it
  may fail for memory only. PAIR_FIRST and PAIR_SECOND then push a value that looks as the operand did at any
  depth, and nothing else the program can see has changed.\<close>

theorem pair_roundtrip:
  assumes "heap_state p vm" and "vm_stack vm = b # a # rest" and "vm_instruction_pointer vm + 1 < instruction_count p"
  shows "\<exists>vm1. op_make_pair alloc block p vm = Some vm1 \<and> machine_ok p vm1 \<and>
    (vm_status vm1 = AIVM_VM_STATUS_ERROR \<or>
     (\<exists>vm2 v vs. op_pair_component handle_bits p i vm1 = Some vm2 \<and> machine_ok p vm2 \<and> vm_stack vm2 = v # vs \<and>
        vm_instruction_pointer vm2 = vm_instruction_pointer vm + 2 \<and>
        (\<forall>n. value_view n vm2 v = value_view n vm (if opcode i = AIVM_OP_PAIR_FIRST then a else b)) \<and>
        kept (popped 2 vm) (vm2\<lparr>vm_stack := vs, vm_instruction_pointer := vm_instruction_pointer vm\<rparr>)))"
proof -
  let ?a = "\<lambda>n. value_view n vm a" and ?b = "\<lambda>n. value_view n vm b"
  obtain vm1 where r1: "op_make_pair alloc block p vm = Some vm1" and ok1: "machine_ok p vm1"
    and "answers vm 2 (pair_view ?a ?b) vm1 \<or> vm_status vm1 = AIVM_VM_STATUS_ERROR"
    using make_pair_gives [OF assms(1), of alloc block] by (auto simp: gives_def assms(2))
  moreover have ?thesis if ans: "answers vm 2 (pair_view ?a ?b) vm1"
  proof -
    let ?ip = "\<lambda>vm'. vm'\<lparr>vm_instruction_pointer := vm_instruction_pointer vm\<rparr>"
    obtain x xs where x: "vm_stack vm1 = x # xs" "\<And>n. value_view n vm1 x = pair_view ?a ?b n"
      and k1: "kept (popped 2 vm) (?ip (popped 1 vm1))" and ip1: "vm_instruction_pointer vm1 = vm_instruction_pointer vm + 1"
      and c1: "collectable vm1"
      using ans by (auto simp: answers_def popped_def)
    obtain h where h: "x = ValPair h"
      using x(2) [of 1] by (cases x) (auto simp: pair_view_def split: option.splits)
    have hs: "heap_state p vm1"
      using ok1 c1 ip1 assms(3) by (simp add: heap_state_def running_ok_def)
    obtain vm2 where r2: "op_pair_component handle_bits p i vm1 = Some vm2" "machine_ok p vm2"
      and ans2: "answers vm1 1 (if opcode i = AIVM_OP_PAIR_FIRST then ?a else ?b) vm2"
      using pair_component_answers [OF hs x(1) [unfolded h] x(2) [unfolded h]] by blast
    then obtain v vs where v: "vm_stack vm2 = v # vs"
      "\<And>n. value_view n vm2 v = (if opcode i = AIVM_OP_PAIR_FIRST then ?a else ?b) n"
      and k2: "kept (popped 1 vm1) (vm2\<lparr>vm_stack := vs, vm_instruction_pointer := vm_instruction_pointer vm1\<rparr>)"
      and ip2: "vm_instruction_pointer vm2 = vm_instruction_pointer vm + 2"
      by (auto simp: answers_def ip1)
    have "kept (?ip (popped 1 vm1)) (?ip (vm2\<lparr>vm_stack := vs\<rparr>))"
      using kept_ip [OF k2, of "vm_instruction_pointer vm"] by simp
    then have "kept (popped 2 vm) (?ip (vm2\<lparr>vm_stack := vs\<rparr>))"
      by (rule kept_trans [OF k1])
    then show ?thesis
      using r1 ok1 r2 v ip2 by (intro exI [of _ vm1] exI [of _ vm2] exI [of _ v] exI [of _ vs] conjI disjI2) simp_all
  qed
  ultimately show ?thesis
    by blast
qed

definition tiny_program :: AivmProgram where
  "tiny_program = aivm_program_clear\<lparr>instructions := Some (replicate 3 \<lparr>opcode = AIVM_OP_MAKE_PAIR, operand_int = 0\<rparr>), instruction_count := 3\<rparr>"

definition pair_demo :: AivmHeapVm where
  "pair_demo = heap_demo\<lparr>vm_program := Some tiny_program, vm_stack := [ValInt 2, ValPair 2], vm_stack_limit := 10, vm_call_frames := [],
     vm_call_frame_limit := 10, vm_locals_limit := 10,
     vm_instruction_pointer := 0, vm_status := AIVM_VM_STATUS_RUNNING\<rparr>"

lemma pair_demo_state: "heap_state tiny_program pair_demo"
proof -
  have c: "collectable heap_demo"
    using heap_demo_ok heap_demo_string_arena_ok by (simp add: collectable_def)
  have "sound heap_demo (ValPair 2)"
    using sound_stack [OF c] by (simp add: heap_demo_fields)
  then have "collectable (heap_demo\<lparr>vm_stack := [ValInt 2, ValPair 2]\<rparr>)"
    by (intro collectable_stack [OF c]) (auto intro: sound_leaf)
  moreover have "same_heap (heap_demo\<lparr>vm_stack := [ValInt 2, ValPair 2]\<rparr>) pair_demo"
    by (simp add: pair_demo_def same_heap_def root_values_def local_values_def fixed_handles_def builder_handles_def)
  ultimately have "collectable pair_demo"
    using same_heap_reach(4) [of "heap_demo\<lparr>vm_stack := [ValInt 2, ValPair 2]\<rparr>" pair_demo]
    by (simp add: collectable_def) (simp add: pair_demo_def string_arena_ok_def index_ok_def)
  moreover have "running_ok tiny_program pair_demo"
    by (simp add: running_ok_def machine_ok_def pair_demo_def vm_bounds_def vm_capacities heap_demo_fields tiny_program_def)
  ultimately show ?thesis
    by (simp add: heap_state_def)
qed

theorem pair_roundtrip_witness:
  "\<exists>vm1. op_make_pair (\<lambda>n. True) 3 tiny_program pair_demo = Some vm1 \<and> machine_ok tiny_program vm1"
proof -
  have "vm_stack pair_demo = [ValInt 2, ValPair 2]" "vm_instruction_pointer pair_demo + 1 < instruction_count tiny_program"
    by (simp_all add: pair_demo_def tiny_program_def)
  from pair_roundtrip [OF pair_demo_state this, of "\<lambda>n. True" 3 "\<lambda>v. 0" "\<lparr>opcode = AIVM_OP_PAIR_FIRST, operand_int = 0\<rparr>"]
  show ?thesis
    by blast
qed

end
