(* ===== verification/Base64.thy ===== *)
theory Base64
  imports AiVM_Prelude
begin

text \<open>
  The base64 coder and the hexadecimal reader of \<^verbatim>\<open>src/src/aivm_vm_text.c\<close>. The loops over the input
  take it apart four characters, or three bytes, at a time. Text is a string without its
  terminating zero.
\<close>

section \<open>Base64\<close>

definition in_range :: "char \<Rightarrow> char \<Rightarrow> char \<Rightarrow> bool" where
  "in_range lo hi ch \<longleftrightarrow> (of_char lo :: nat) \<le> of_char ch \<and> (of_char ch :: nat) \<le> of_char hi"

definition char_offset :: "char \<Rightarrow> char \<Rightarrow> int" where
  "char_offset ch base = int (of_char ch) - int (of_char base)"

definition bytes_base64_decode_char :: "char \<Rightarrow> int" where
  "bytes_base64_decode_char ch =
     (if in_range (CHR ''A'') (CHR ''Z'') ch then char_offset ch (CHR ''A'')
      else if in_range (CHR ''a'') (CHR ''z'') ch then char_offset ch (CHR ''a'') + 26
      else if in_range (CHR ''0'') (CHR ''9'') ch then char_offset ch (CHR ''0'') + 52
      else if ch = CHR ''+'' then 62
      else if ch = CHR ''/'' then 63
      else - 1)"

definition base64_chunk :: "int \<Rightarrow> int \<Rightarrow> int \<Rightarrow> int \<Rightarrow> u32" where
  "base64_chunk c0 c1 c2 c3 =
     push_bit 18 (word_of_int c0) OR push_bit 12 (word_of_int c1) OR
     push_bit 6 (word_of_int c2) OR word_of_int c3"

text \<open>The last two digits of a group and the number of padding characters; \<open>None\<close> is a return
  of 0.\<close>

definition base64_tail :: "char \<Rightarrow> char \<Rightarrow> (int \<times> int \<times> nat) option" where
  "base64_tail ch2 ch3 =
     (if ch2 = CHR ''='' then (if ch3 \<noteq> CHR ''='' then None else Some (0, 0, 2))
      else
        let c2 = bytes_base64_decode_char ch2 in
        if c2 < 0 then None
        else if ch3 = CHR ''='' then Some (c2, 0, 1)
        else
          let c3 = bytes_base64_decode_char ch3 in
          if c3 < 0 then None else Some (c2, c3, 0))"

definition base64_group :: "u32 \<Rightarrow> nat \<Rightarrow> bytes" where
  "base64_group chunk pad =
     [ucast (drop_bit 16 chunk AND 0xff)] @
     (if pad < 2 then [ucast (drop_bit 8 chunk AND 0xff)] else []) @
     (if pad = 0 then [ucast (chunk AND 0xff)] else [])"

text \<open>The loop. A length that is no multiple of four never enters it.\<close>

fun base64_decode_loop :: "string \<Rightarrow> bytes option" where
  "base64_decode_loop (ch0 # ch1 # ch2 # ch3 # rest) =
     (let c0 = bytes_base64_decode_char ch0; c1 = bytes_base64_decode_char ch1 in
      if c0 < 0 \<or> c1 < 0 then None
      else case base64_tail ch2 ch3 of
        None \<Rightarrow> None
      | Some (c2, c3, pad) \<Rightarrow>
          if pad > 0 \<and> rest \<noteq> [] then None
          else
            (case base64_decode_loop rest of
               None \<Rightarrow> None
             | Some out \<Rightarrow> Some (base64_group (base64_chunk c0 c1 c2 c3) pad @ out)))"
| "base64_decode_loop _ = Some []"

text \<open>The input may be null (\<open>None\<close>); \<open>buffer\<close> is the capacity of the output buffer, \<open>None\<close> when it
  is null. The result has the bytes written and the decoded length; \<open>None\<close> is a return of 0.\<close>

definition aivm_bytes_from_base64 :: "string option \<Rightarrow> nat option \<Rightarrow> (bytes \<times> nat) option" where
  "aivm_bytes_from_base64 input buffer =
     (case input of
        None \<Rightarrow> None
      | Some text \<Rightarrow>
          if text = [] then Some ([], 0)
          else if length text mod 4 \<noteq> 0 then None
          else
            (case base64_decode_loop text of
               None \<Rightarrow> None
             | Some out \<Rightarrow>
                 (case buffer of
                    None \<Rightarrow> Some ([], length out)
                  | Some capacity \<Rightarrow>
                      if length out > capacity then None else Some (out, length out))))"

definition base64_alphabet :: string where
  "base64_alphabet = ''ABCDEFGHIJKLMNOPQRSTUVWXYZabcdefghijklmnopqrstuvwxyz0123456789+/''"

definition base64_digit :: "u32 \<Rightarrow> nat \<Rightarrow> char" where
  "base64_digit chunk k = base64_alphabet ! unat (drop_bit k chunk AND 0x3f)"

text \<open>One group of up to three bytes.\<close>

definition base64_encode_group :: "bytes \<Rightarrow> string" where
  "base64_encode_group block =
     (let chunk = push_bit 16 (ucast (block ! 0)) OR
            (if length block > 1 then push_bit 8 (ucast (block ! 1)) else 0) OR
            (if length block > 2 then ucast (block ! 2) else 0)
      in [base64_digit chunk 18, base64_digit chunk 12,
          if length block > 1 then base64_digit chunk 6 else CHR ''='',
          if length block > 2 then base64_digit chunk 0 else CHR ''=''])"

text \<open>The loop of the encoder; \<open>out_index\<close> characters have been written.\<close>

function base64_encode_loop :: "nat \<Rightarrow> nat \<Rightarrow> bytes \<Rightarrow> string option" where
  "base64_encode_loop out_capacity out_index input =
     (if input = [] then Some []
      else if out_index + 4 \<ge> out_capacity then None
      else
        (case base64_encode_loop out_capacity (out_index + 4) (drop 3 input) of
           None \<Rightarrow> None
         | Some rest \<Rightarrow> Some (base64_encode_group (take 3 input) @ rest)))"
  by pat_completeness auto

termination
  by (relation "measure (\<lambda>(cap, i, input). length input)") (auto simp: length_greater_0_conv [symmetric] simp del: length_greater_0_conv)

declare base64_encode_loop.simps [simp del]

definition aivm_bytes_to_base64 :: "bytes option \<Rightarrow> nat \<Rightarrow> nat option \<Rightarrow> string option" where
  "aivm_bytes_to_base64 input input_len buffer =
     (case buffer of
        None \<Rightarrow> None
      | Some out_capacity \<Rightarrow>
          if out_capacity = 0 then None
          else if input_len = 0 then Some []
          else
            (case input of
               None \<Rightarrow> None
             | Some data \<Rightarrow> base64_encode_loop out_capacity 0 (take input_len data)))"

section \<open>Hexadecimal\<close>

definition hex_nibble :: "char \<Rightarrow> u32 option" where
  "hex_nibble ch =
     (if in_range (CHR ''0'') (CHR ''9'') ch then Some (word_of_int (char_offset ch (CHR ''0'')))
      else if in_range (CHR ''a'') (CHR ''f'') ch then Some (word_of_int (10 + char_offset ch (CHR ''a'')))
      else if in_range (CHR ''A'') (CHR ''F'') ch then Some (word_of_int (10 + char_offset ch (CHR ''A'')))
      else None)"

fun hex_loop :: "u32 \<Rightarrow> string \<Rightarrow> u32 option" where
  "hex_loop value [] = Some value"
| "hex_loop value (ch # text) =
     (case hex_nibble ch of
        None \<Rightarrow> None
      | Some nibble \<Rightarrow> hex_loop (push_bit 4 value OR nibble) text)"

definition aivm_hex4_to_u32 :: "string option \<Rightarrow> u32 option" where
  "aivm_hex4_to_u32 text =
     (case text of
        None \<Rightarrow> None
      | Some s \<Rightarrow> if length s \<noteq> 4 then None else hex_loop 0 s)"

section \<open>The coder round trip\<close>

lemma alphabet_length: "length base64_alphabet = 64"
  by (simp add: base64_alphabet_def)

lemma alphabet_decodes:
  assumes "n < 64"
  shows "bytes_base64_decode_char (base64_alphabet ! n) = int n" and "base64_alphabet ! n \<noteq> CHR ''=''"
proof -
  have "map bytes_base64_decode_char base64_alphabet = map int [0..<64]"
    by (simp add: bytes_base64_decode_char_def base64_alphabet_def in_range_def char_offset_def upt_conv_Cons)
  then show "bytes_base64_decode_char (base64_alphabet ! n) = int n"
    using assms alphabet_length by (metis nth_map length_map length_upt minus_nat.diff_0 nth_upt add_0)
  have "CHR ''='' \<notin> set base64_alphabet"
    by (simp add: base64_alphabet_def)
  then show "base64_alphabet ! n \<noteq> CHR ''=''"
    using assms alphabet_length by (metis nth_mem)
qed

lemma and_masks: "x AND 0x3f = take_bit 6 x" "x AND 0xff = take_bit 8 x" for x :: u32
  by (simp_all add: take_bit_eq_mask mask_eq_exp_minus_1)

lemma digit_index: "unat (x AND 0x3f :: u32) < 64"
  using take_bit_nat_less_exp [of 6 "unat x"] by (simp add: and_masks unsigned_take_bit_eq)

lemma decode_digit:
  "bytes_base64_decode_char (base64_digit chunk k) = int (unat (drop_bit k chunk AND 0x3f))"
  "base64_digit chunk k \<noteq> CHR ''=''"
  by (simp_all add: base64_digit_def alphabet_decodes digit_index)

lemma chunk_of_digits:
  assumes "\<And>n. 24 \<le> n \<Longrightarrow> \<not> bit c n"
  shows "base64_chunk (int (unat (drop_bit 18 c AND 0x3f))) (int (unat (drop_bit 12 c AND 0x3f)))
           (int (unat (drop_bit 6 c AND 0x3f))) (int (unat (drop_bit 0 c AND 0x3f))) = c"
  unfolding and_masks
proof (rule bit_word_eqI)
  fix n
  assume "n < LENGTH(32)"
  then consider "n < 6" | "6 \<le> n" "n < 12" | "12 \<le> n" "n < 18" | "18 \<le> n" "n < 24" | "24 \<le> n" "n < 32"
    by fastforce
  then show "bit (base64_chunk (int (unat (take_bit 6 (drop_bit 18 c)))) (int (unat (take_bit 6 (drop_bit 12 c))))
           (int (unat (take_bit 6 (drop_bit 6 c)))) (int (unat (take_bit 6 (drop_bit 0 c))))) n = bit c n"
    by cases (auto simp: base64_chunk_def bit_simps assms)
qed

definition base64_pack :: "u8 \<Rightarrow> u8 \<Rightarrow> u8 \<Rightarrow> u32" where
  "base64_pack b0 b1 b2 = push_bit 16 (ucast b0) OR push_bit 8 (ucast b1) OR ucast b2"

lemma pack_small: "24 \<le> n \<Longrightarrow> \<not> bit (base64_pack b0 b1 b2) n"
  by (auto simp: base64_pack_def bit_simps dest: bit_imp_le_length)

lemma pack_bytes:
  "ucast (drop_bit 16 (base64_pack b0 b1 b2) AND 0xff) = b0"
  "ucast (drop_bit 8 (base64_pack b0 b1 b2) AND 0xff) = b1"
  "ucast (base64_pack b0 b1 b2 AND 0xff) = b2"
  unfolding and_masks
  by (rule bit_word_eqI; auto simp: base64_pack_def bit_simps dest: bit_imp_le_length)+

text \<open>The digits of a group with missing bytes: the low digits are zero.\<close>

lemma pack_low_digits:
  "drop_bit 6 (base64_pack b0 0 0) AND 0x3f = 0" "drop_bit 0 (base64_pack b0 0 0) AND 0x3f = 0"
  "drop_bit 0 (base64_pack b0 b1 0) AND 0x3f = 0"
  unfolding and_masks
  by (rule bit_word_eqI; auto simp: base64_pack_def bit_simps dest: bit_imp_le_length)+

lemma decode_group:
  assumes "block \<noteq> []" and "length block \<le> 3"
    and "length block = 3 \<or> rest = []"
  shows "base64_decode_loop (base64_encode_group block @ rest) =
           map_option (\<lambda>out. block @ out) (base64_decode_loop rest)"
proof -
  consider b0 b1 b2 where "block = [b0, b1, b2]" | b0 b1 where "block = [b0, b1]" "rest = []"
    | b0 where "block = [b0]" "rest = []"
    using assms by (cases block rule: list.exhaust; cases "tl block"; cases "tl (tl block)") auto
  then show ?thesis
  proof cases
    case (1 b0 b1 b2)
    let ?c = "base64_pack b0 b1 b2"
    have "base64_encode_group block = [base64_digit ?c 18, base64_digit ?c 12, base64_digit ?c 6, base64_digit ?c 0]"
      by (simp add: 1 base64_encode_group_def base64_pack_def Let_def)
    then show ?thesis
      using chunk_of_digits [of ?c] pack_small [of _ b0 b1 b2]
      by (simp add: base64_tail_def decode_digit Let_def base64_group_def pack_bytes 1 map_option_case
          split: option.split)
  next
    case (2 b0 b1)
    let ?c = "base64_pack b0 b1 0"
    have "base64_encode_group block = [base64_digit ?c 18, base64_digit ?c 12, base64_digit ?c 6, CHR ''='']"
      by (simp add: 2 base64_encode_group_def base64_pack_def Let_def)
    then show ?thesis
      using chunk_of_digits [of ?c] pack_small [of _ b0 b1 0]
      by (simp add: base64_tail_def decode_digit Let_def base64_group_def pack_bytes
          pack_low_digits [simplified] 2)
  next
    case (3 b0)
    let ?c = "base64_pack b0 0 0"
    have "base64_encode_group block = [base64_digit ?c 18, base64_digit ?c 12, CHR ''='', CHR ''='']"
      by (simp add: 3 base64_encode_group_def base64_pack_def Let_def)
    then show ?thesis
      using chunk_of_digits [of ?c] pack_small [of _ b0 0 0]
      by (simp add: base64_tail_def decode_digit Let_def base64_group_def pack_bytes
          pack_low_digits [simplified] 3)
  qed
qed

text \<open>The encoded length of \<open>n\<close> bytes.\<close>

definition base64_length :: "nat \<Rightarrow> nat" where
  "base64_length n = 4 * ((n + 2) div 3)"

lemma base64_length_step: "0 < n \<Longrightarrow> base64_length n = 4 + base64_length (n - 3)"
proof (cases "3 \<le> n")
  case True
  then obtain m where "n = m + 3"
    using le_Suc_ex by (metis add.commute)
  moreover have "(m + 3 + 2) div 3 = Suc ((m + 2) div 3)"
    using div_add_self2 [of 3 "m + 2"] by (simp add: add.commute add.left_commute)
  ultimately show ?thesis
    by (simp add: base64_length_def)
next
  case False
  assume "0 < n"
  with False have "n = 1 \<or> n = 2"
    by auto
  then show ?thesis
    by (auto simp: base64_length_def)
qed

lemma length_encode_group [simp]: "length (base64_encode_group block) = 4"
  by (simp add: base64_encode_group_def Let_def)

lemma encode_loop_spec:
  assumes "out_index < out_capacity"
  shows "if out_index + base64_length (length input) < out_capacity
         then \<exists>text. base64_encode_loop out_capacity out_index input = Some text \<and>
                length text = base64_length (length input) \<and> base64_decode_loop text = Some input
         else base64_encode_loop out_capacity out_index input = None"
  using assms
proof (induction out_capacity out_index input rule: base64_encode_loop.induct)
  case (1 out_capacity out_index input)
  show ?case
  proof (cases "input = []")
    case True
    then show ?thesis
      using "1.prems" by (subst (1 2) base64_encode_loop.simps) (simp add: base64_length_def)
  next
    case ne: False
    have step: "base64_length (length input) = 4 + base64_length (length (drop 3 input))"
      using ne base64_length_step [of "length input"] by simp
    show ?thesis
    proof (cases "out_index + 4 \<ge> out_capacity")
      case True
      then show ?thesis
        using ne step by (subst (1 2) base64_encode_loop.simps) simp
    next
      case False
      let ?rest = "base64_encode_loop out_capacity (out_index + 4) (drop 3 input)"
      have unfold: "base64_encode_loop out_capacity out_index input =
          (case ?rest of None \<Rightarrow> None | Some rest \<Rightarrow> Some (base64_encode_group (take 3 input) @ rest))"
        using ne False by (subst base64_encode_loop.simps) simp
      have ih: "if out_index + 4 + base64_length (length (drop 3 input)) < out_capacity
         then \<exists>text. ?rest = Some text \<and> length text = base64_length (length (drop 3 input)) \<and>
                base64_decode_loop text = Some (drop 3 input)
         else ?rest = None"
        using "1.IH" [OF ne] False by simp
      show ?thesis
      proof (cases "out_index + base64_length (length input) < out_capacity")
        case True
        then obtain enc where enc: "?rest = Some enc" "length enc = base64_length (length (drop 3 input))"
          "base64_decode_loop enc = Some (drop 3 input)"
          using ih step by (auto simp: add.assoc)
        have "length (take 3 input) = 3 \<or> enc = []"
          using enc(2) by (cases "3 \<le> length input") (simp_all add: base64_length_def)
        then have "base64_decode_loop (base64_encode_group (take 3 input) @ enc) = Some input"
          using ne enc(3) by (subst decode_group) auto
        then show ?thesis
          using True enc step unfold by simp
      next
        case False
        then show ?thesis
          using ih step unfold by (simp add: add.assoc)
      qed
    qed
  qed
qed

text \<open>Encoding succeeds exactly when the output buffer has room for the text and its
  terminating zero, and then decoding the text into a buffer that is large enough gives the bytes
  back.\<close>

lemma base64_roundtrip:
  assumes "0 < out_capacity"
  shows "case aivm_bytes_to_base64 (Some d) (length d) (Some out_capacity) of
           None \<Rightarrow> out_capacity \<le> base64_length (length d)
         | Some text \<Rightarrow>
             length text = base64_length (length d) \<and> length text < out_capacity \<and>
             (\<forall>capacity. aivm_bytes_from_base64 (Some text) (Some capacity) =
                (if length d \<le> capacity then Some (d, length d) else None))"
proof (cases "d = []")
  case True
  then show ?thesis
    using assms by (simp add: aivm_bytes_to_base64_def aivm_bytes_from_base64_def base64_length_def)
next
  case False
  show ?thesis
  proof (cases "base64_length (length d) < out_capacity")
    case True
    then obtain enc where enc: "base64_encode_loop out_capacity 0 d = Some enc"
      "length enc = base64_length (length d)" "base64_decode_loop enc = Some d"
      using encode_loop_spec [OF assms, of d] by auto
    moreover have "enc \<noteq> []" "length enc mod 4 = 0"
      using enc(2,3) False by (auto simp: base64_length_def)
    ultimately show ?thesis
      using assms False True by (simp add: aivm_bytes_to_base64_def aivm_bytes_from_base64_def)
  next
    case big: False
    then show ?thesis
      using encode_loop_spec [OF assms, of d] assms False by (simp add: aivm_bytes_to_base64_def)
  qed
qed

lemma base64_roundtrip_witness:
  "aivm_bytes_to_base64 (Some [104, 105]) 2 (Some 5) = Some ''aGk='' \<and>
   aivm_bytes_from_base64 (Some ''aGk='') (Some 2) = Some ([104, 105], 2)"
proof -
  have enc: "aivm_bytes_to_base64 (Some [104, 105]) 2 (Some 5) = Some ''aGk=''"
    by (simp add: aivm_bytes_to_base64_def base64_encode_loop.simps base64_encode_group_def base64_digit_def
        base64_alphabet_def Let_def)
  with base64_roundtrip [of 5 "[104, 105]"] show ?thesis
    by (simp add: numeral_2_eq_2)
qed

text \<open>The four digits of a number in a given alphabet, the most significant first.\<close>

definition hex_digits :: "string \<Rightarrow> nat \<Rightarrow> string" where
  "hex_digits digits n = map (\<lambda>k. digits ! (n div 16 ^ k mod 16)) [3, 2, 1, 0]"

lemma hex_nibble_digit:
  assumes "digits \<in> {''0123456789abcdef'', ''0123456789ABCDEF''}" and "d < 16"
  shows "hex_nibble (digits ! d) = Some (of_nat d)"
proof -
  have "map hex_nibble digits = map (\<lambda>d. Some (of_nat d)) [0..<16]"
    using assms(1) by (auto simp: hex_nibble_def in_range_def char_offset_def upt_conv_Cons)
  moreover have "length digits = 16"
    using assms(1) by auto
  ultimately show ?thesis
    using assms(2) by (metis (no_types, lifting) add_0 length_upt minus_nat.diff_0 nth_map nth_upt)
qed

lemma hex_step:
  assumes "nibble < 16"
  shows "push_bit 4 (of_nat v) OR of_nat nibble = (of_nat (16 * v + nibble) :: u32)"
proof -
  have "nibble = take_bit 4 nibble"
    using assms by (simp add: take_bit_eq_mod)
  then have "push_bit 4 v AND nibble = 0"
    by (metis bit_and_iff bit_push_bit_iff_nat bit_take_bit_iff bit_eqI bit_0_eq bot_apply bot_bool_def linorder_not_le)
  then have "push_bit 4 v OR nibble = 16 * v + nibble"
    by (simp add: disjunctive_add_eq_or [symmetric] push_bit_eq_mult mult.commute)
  then show ?thesis
    by (metis of_nat_or_eq of_nat_push_bit)
qed

lemma hex_loop_refuses: "\<exists>ch \<in> set s. hex_nibble ch = None \<Longrightarrow> hex_loop v s = None"
  by (induction s arbitrary: v) (auto split: option.split)

lemma hex_loop_digits:
  assumes "digits \<in> {''0123456789abcdef'', ''0123456789ABCDEF''}" and "\<forall>d \<in> set ds. d < 16"
  shows "hex_loop (of_nat v) (map ((!) digits) ds) = Some (of_nat (fold (\<lambda>d v. 16 * v + d) ds v))"
  using assms(2)
  by (induction ds arbitrary: v) (simp_all add: hex_nibble_digit [OF assms(1)] hex_step del: of_nat_add of_nat_mult)

lemma hex_loop_from_0:
  assumes "digits \<in> {''0123456789abcdef'', ''0123456789ABCDEF''}" and "\<forall>d \<in> set ds. d < 16"
  shows "hex_loop 0 (map ((!) digits) ds) = Some (of_nat (fold (\<lambda>d v. 16 * v + d) ds 0))"
  using hex_loop_digits [OF assms, of 0] by simp

text \<open>The four hexadecimal digits of a 16-bit number, in either case, read as the
  number; text of another length or with another character is refused.\<close>

theorem hex4_value:
  assumes "digits \<in> {''0123456789abcdef'', ''0123456789ABCDEF''}" and "n < 2 ^ 16"
  shows "aivm_hex4_to_u32 (Some (hex_digits digits n)) = Some (of_nat n) \<and>
         (\<forall>text. length text \<noteq> 4 \<or> (\<exists>ch \<in> set text. hex_nibble ch = None) \<longrightarrow> aivm_hex4_to_u32 (Some text) = None)"
proof -
  let ?ds = "[n div 16 ^ 3 mod 16, n div 16 ^ 2 mod 16, n div 16 mod 16, n mod 16]"
  have sum: "fold (\<lambda>d v. 16 * v + d) ?ds 0 = n"
  proof -
    have "n div 16 ^ 3 mod 16 = n div 16 div 16 div 16" "n div 16 ^ 2 = n div 16 div 16"
      using assms(2) by (simp_all add: div_mult2_eq [symmetric])
    then show ?thesis
      using div_mult_mod_eq [of n 16] div_mult_mod_eq [of "n div 16" 16] div_mult_mod_eq [of "n div 16 div 16" 16]
      by simp
  qed
  have small: "\<forall>d \<in> set ?ds. d < 16"
    by simp
  have "hex_digits digits n = map ((!) digits) ?ds"
    by (simp add: hex_digits_def)
  then have "hex_loop 0 (hex_digits digits n) = Some (of_nat n)"
    using hex_loop_from_0 [OF assms(1) small] sum by (simp only:)
  then show ?thesis
    using hex_loop_refuses by (auto simp: aivm_hex4_to_u32_def hex_digits_def)
qed

theorem hex4_value_witness:
  "aivm_hex4_to_u32 (Some ''00e9'') = Some 233 \<and> aivm_hex4_to_u32 (Some ''00g9'') = None"
proof -
  have "hex_digits ''0123456789abcdef'' 233 = ''00e9''"
    by (simp add: hex_digits_def)
  moreover have "hex_nibble (CHR ''g'') = None"
    by (simp add: hex_nibble_def in_range_def)
  ultimately show ?thesis
    using hex4_value [of "''0123456789abcdef''" 233] by simp
qed

end
