(* ===== verification/Utf8.thy ===== *)
theory Utf8
  imports AiVM_Prelude "HOL-Library.Sublist"
begin

text \<open>
  UTF-8 text: the validity check of \<^verbatim>\<open>src/src/aivm_vm_text.c\<close> and the functions of
  \<^verbatim>\<open>src/src/aivm_vm.c\<close> that count, locate, cut and find characters. A text is the bytes before its
  terminating zero. The functions that push a new string are represented by the text they push; the
  copy of that text into the string arena is not part of this theory.
\<close>

section \<open>Functions\<close>

definition continuation :: "u8 \<Rightarrow> bool" where
  "continuation b \<longleftrightarrow> b AND 0xC0 = 0x80"

text \<open>The branches of the loop on the first byte of a character beyond ASCII: how many bytes follow
  and what the first of them must satisfy; the others must be continuation bytes. \<open>None\<close> is a byte
  that begins no character.\<close>

definition between :: "u8 \<Rightarrow> u8 \<Rightarrow> u8 \<Rightarrow> bool" where
  "between lo hi b \<longleftrightarrow> lo \<le> b \<and> b \<le> hi"

definition utf8_lead :: "u8 \<Rightarrow> (nat \<times> (u8 \<Rightarrow> bool)) option" where
  "utf8_lead b0 =
     (if b0 \<ge> 0xC2 \<and> b0 \<le> 0xDF then Some (1, continuation)
      else if b0 = 0xE0 then Some (2, between 0xA0 0xBF)
      else if (b0 \<ge> 0xE1 \<and> b0 \<le> 0xEC) \<or> (b0 \<ge> 0xEE \<and> b0 \<le> 0xEF) then Some (2, continuation)
      else if b0 = 0xED then Some (2, between 0x80 0x9F)
      else if b0 = 0xF0 then Some (3, between 0x90 0xBF)
      else if b0 \<ge> 0xF1 \<and> b0 \<le> 0xF3 then Some (3, continuation)
      else if b0 = 0xF4 then Some (3, between 0x80 0x8F)
      else None)"

text \<open>The loop over the bytes.\<close>

function utf8_valid_loop :: "bytes \<Rightarrow> bool" where
  "utf8_valid_loop [] \<longleftrightarrow> True"
| "utf8_valid_loop (b0 # rest) \<longleftrightarrow>
     (if b0 = 0 then False
      else if b0 \<le> 0x7F then utf8_valid_loop rest
      else case utf8_lead b0 of
        None \<Rightarrow> False
      | Some (n, first_ok) \<Rightarrow>
          n \<le> length rest \<and> first_ok (rest ! 0) \<and>
          (\<forall>i \<in> {1..<n}. continuation (rest ! i)) \<and> utf8_valid_loop (drop n rest))"
  by pat_completeness auto

termination
  by (relation "measure length") auto

definition aivm_bytes_is_valid_utf8_without_nul :: "bytes option \<Rightarrow> nat \<Rightarrow> bool" where
  "aivm_bytes_is_valid_utf8_without_nul data len =
     (case data of None \<Rightarrow> len = 0 | Some d \<Rightarrow> utf8_valid_loop (take len d))"

text \<open>The byte at an index; the one after the text is zero.\<close>

definition text_at :: "bytes \<Rightarrow> nat \<Rightarrow> u8" where
  "text_at str i = (if i < length str then str ! i else 0)"

definition utf8_next_index :: "bytes \<Rightarrow> nat \<Rightarrow> nat" where
  "utf8_next_index str index =
     (let ch = text_at str index in
      if ch = 0 then index
      else if ch AND 0x80 = 0 then index + 1
      else if ch AND 0xE0 = 0xC0 \<and> continuation (text_at str (index + 1)) then index + 2
      else if ch AND 0xF0 = 0xE0 \<and> continuation (text_at str (index + 1)) \<and>
              continuation (text_at str (index + 2)) then index + 3
      else if ch AND 0xF8 = 0xF0 \<and> continuation (text_at str (index + 1)) \<and>
              continuation (text_at str (index + 2)) \<and> continuation (text_at str (index + 3)) then index + 4
      else index + 1)"

lemma next_index_grows: "text_at str index \<noteq> 0 \<Longrightarrow> index < utf8_next_index str index"
  by (simp add: utf8_next_index_def Let_def)

lemma text_at_nonzero: "text_at str index \<noteq> 0 \<Longrightarrow> index < length str"
  by (simp add: text_at_def split: if_splits)

text \<open>The counting loop. A count cannot pass \<open>SIZE_MAX\<close> in a text that fits memory; the check is kept.\<close>

function rune_count_loop :: "bytes \<Rightarrow> nat \<Rightarrow> nat \<Rightarrow> nat" where
  "rune_count_loop str byte_index n =
     (if text_at str byte_index = 0 then n
      else case aivm_size_add_checked n 1 of
        None \<Rightarrow> SIZE_MAX
      | Some next_count \<Rightarrow> rune_count_loop str (utf8_next_index str byte_index) next_count)"
  by pat_completeness auto

termination
  by (relation "measure (\<lambda>(str, byte_index, n). length str - byte_index)")
    (auto simp: diff_less_mono2 text_at_nonzero next_index_grows)

declare rune_count_loop.simps [simp del]

definition utf8_rune_count :: "bytes \<Rightarrow> nat" where
  "utf8_rune_count str = rune_count_loop str 0 0"

text \<open>The loop that moves forward to a character. Its counter stays below an index that is a
  \<^verbatim>\<open>size_t\<close>, so the checked increment of the source always succeeds.\<close>

function rune_offset_loop :: "bytes \<Rightarrow> nat \<Rightarrow> nat \<Rightarrow> nat \<Rightarrow> nat \<times> nat" where
  "rune_offset_loop str rune_index byte_index current_rune =
     (if text_at str byte_index \<noteq> 0 \<and> current_rune < rune_index
      then rune_offset_loop str rune_index (utf8_next_index str byte_index) (current_rune + 1)
      else (byte_index, current_rune))"
  by pat_completeness auto

termination
  by (relation "measure (\<lambda>(str, rune_index, byte_index, current_rune). length str - byte_index)")
    (auto simp: diff_less_mono2 text_at_nonzero next_index_grows)

declare rune_offset_loop.simps [simp del]

text \<open>The cache of the machine: the text (its address), a character index and its byte offset. Texts at
  the same address are the same text; what else the address may come to hold is the caller's
  concern. The result is the offset and the cache after the call.\<close>

record offset_cache =
  utf8_offset_cache_text :: "bytes option"
  utf8_offset_cache_rune :: nat
  utf8_offset_cache_byte :: nat

definition utf8_byte_offset_for_rune :: "offset_cache \<Rightarrow> bytes \<Rightarrow> nat \<Rightarrow> nat \<times> offset_cache" where
  "utf8_byte_offset_for_rune cache str rune_index =
     (let (byte_index, current_rune) =
            (if utf8_offset_cache_text cache = Some str \<and> utf8_offset_cache_rune cache \<le> rune_index
             then (utf8_offset_cache_byte cache, utf8_offset_cache_rune cache) else (0, 0));
          (byte_index, current_rune) = rune_offset_loop str rune_index byte_index current_rune
      in (byte_index,
          \<lparr>utf8_offset_cache_text = Some str, utf8_offset_cache_rune = current_rune,
           utf8_offset_cache_byte = byte_index\<rparr>))"

definition clamp_rune_index :: "int \<Rightarrow> nat \<Rightarrow> nat" where
  "clamp_rune_index v max_value =
     (if v \<le> 0 then 0 else if nat v \<ge> max_value then max_value else nat v)"

definition push_substring_by_runes :: "offset_cache \<Rightarrow> bytes option \<Rightarrow> int \<Rightarrow> int \<Rightarrow> bytes \<times> offset_cache" where
  "push_substring_by_runes cache str start len =
     (case str of
        None \<Rightarrow> ([], cache)
      | Some s \<Rightarrow>
          if len \<le> 0 then ([], cache)
          else
            let start_rune = (if start \<le> 0 then 0 else nat start);
                (start_byte, cache) = utf8_byte_offset_for_rune cache s start_rune;
                end_byte = fst (rune_offset_loop s (nat len) start_byte 0)
            in (take (end_byte - start_byte) (drop start_byte s), cache))"

text \<open>\<open>None\<close> is the overflow of \<^verbatim>\<open>start + length\<close>.\<close>

definition push_remove_by_runes ::
  "offset_cache \<Rightarrow> bytes option \<Rightarrow> int \<Rightarrow> int \<Rightarrow> (bytes \<times> offset_cache) option" where
  "push_remove_by_runes cache str start len =
     (case str of
        None \<Rightarrow> Some ([], cache)
      | Some s \<Rightarrow>
          if len \<le> 0 then Some (s, cache)
          else
            let rune_count = utf8_rune_count s; start_rune = clamp_rune_index start rune_count in
            (case i64_result (start + len) of
               None \<Rightarrow> None
             | Some e \<Rightarrow>
                 let end_rune = clamp_rune_index e rune_count;
                     end_rune = (if end_rune < start_rune then start_rune else end_rune);
                     (start_byte, cache) = utf8_byte_offset_for_rune cache s start_rune;
                     (end_byte, cache) = utf8_byte_offset_for_rune cache s end_rune
                 in Some (take start_byte s @ drop end_byte s, cache)))"

text \<open>The search loop; the candidate moves to the next character until too few characters are left.\<close>

function find_loop :: "bytes \<Rightarrow> bytes \<Rightarrow> nat \<Rightarrow> offset_cache \<Rightarrow> nat \<Rightarrow> nat \<Rightarrow> int \<times> offset_cache" where
  "find_loop str pattern last_rune cache candidate_rune candidate_byte =
     (if candidate_byte + length pattern \<le> length str then
        if take (length pattern) (drop candidate_byte str) = pattern then (int candidate_rune, cache)
        else if candidate_rune \<ge> last_rune then (- 1, cache)
        else
          case utf8_byte_offset_for_rune cache str (candidate_rune + 1) of
            (byte, cache) \<Rightarrow> find_loop str pattern last_rune cache (candidate_rune + 1) byte
      else (- 1, cache))"
  by pat_completeness auto

termination
  by (relation "measure (\<lambda>(str, pattern, last_rune, cache, candidate_rune, candidate_byte). last_rune - candidate_rune)") auto

declare find_loop.simps [simp del]

definition push_find_by_runes :: "offset_cache \<Rightarrow> bytes \<Rightarrow> bytes \<Rightarrow> int \<Rightarrow> int \<times> offset_cache" where
  "push_find_by_runes cache str pattern start =
     (let text_runes = utf8_rune_count str; pattern_runes = utf8_rune_count pattern;
          start_rune = clamp_rune_index start text_runes
      in
      if pattern_runes = 0 then (int start_rune, cache)
      else if pattern_runes > text_runes \<or> start_rune > text_runes - pattern_runes then (- 1, cache)
      else
        case utf8_byte_offset_for_rune cache str start_rune of
          (candidate_byte, cache) \<Rightarrow>
            find_loop str pattern (text_runes - pattern_runes) cache start_rune candidate_byte)"

text \<open>The bytes of a code point; empty for what is none.\<close>

definition push_string_from_codepoint :: "u32 \<Rightarrow> bytes" where
  "push_string_from_codepoint cp =
     (if cp > 0x10FFFF \<or> (cp \<ge> 0xD800 \<and> cp \<le> 0xDFFF) then []
      else if cp \<le> 0x7F then (if cp = 0 then [] else [ucast cp])
      else if cp \<le> 0x7FF then [ucast (0xC0 OR drop_bit 6 cp), ucast (0x80 OR (cp AND 0x3F))]
      else if cp \<le> 0xFFFF then
        [ucast (0xE0 OR drop_bit 12 cp), ucast (0x80 OR (drop_bit 6 cp AND 0x3F)), ucast (0x80 OR (cp AND 0x3F))]
      else
        [ucast (0xF0 OR drop_bit 18 cp), ucast (0x80 OR (drop_bit 12 cp AND 0x3F)),
         ucast (0x80 OR (drop_bit 6 cp AND 0x3F)), ucast (0x80 OR (cp AND 0x3F))])"

section \<open>Bytes as numbers\<close>

lemma unat_or_disjoint: "x AND y = 0 \<Longrightarrow> unat (x OR y) = unat x + unat y" for x y :: "'a::len word"
proof -
  assume "x AND y = 0"
  then have "unat x AND unat y = 0"
    by (metis unsigned_0 unsigned_and_eq)
  then show ?thesis
    by (simp add: unsigned_or_eq disjunctive_add_eq_or)
qed

lemma high_bits: "unat (b AND NOT (mask n)) = unat b div 2 ^ n * 2 ^ n" for b :: u8
proof -
  have "b = (b AND NOT (mask n)) OR take_bit n b"
    by (rule bit_word_eqI) (auto simp: bit_simps)
  moreover have "(b AND NOT (mask n)) AND take_bit n b = 0"
    by (rule bit_word_eqI) (auto simp: bit_simps)
  ultimately have "unat b = unat (b AND NOT (mask n)) + unat (take_bit n b)"
    by (metis unat_or_disjoint)
  moreover have "unat (take_bit n b) = unat b mod 2 ^ n"
    unfolding unsigned_take_bit_eq by (simp add: take_bit_eq_mod)
  ultimately show ?thesis
    using div_mult_mod_eq [of "unat b" "2 ^ n"] by linarith
qed

lemma block_iff:
  fixes d :: nat
  assumes "0 < d"
  shows "x div d * d = v * d \<longleftrightarrow> v * d \<le> x \<and> x < Suc v * d"
proof
  assume "x div d * d = v * d"
  then show "v * d \<le> x \<and> x < Suc v * d"
    using dividend_less_div_times [OF assms, of x] div_times_less_eq_dividend [of x d] by simp
next
  assume "v * d \<le> x \<and> x < Suc v * d"
  then have "x div d = v"
    by (intro div_nat_eqI) (simp_all add: mult.commute)
  then show "x div d * d = v * d"
    by simp
qed

lemma lead_masks:
  fixes b :: u8
  shows "b AND 0x80 = 0 \<longleftrightarrow> unat b < 0x80"
    and "b AND 0xC0 = 0x80 \<longleftrightarrow> 0x80 \<le> unat b \<and> unat b < 0xC0"
    and "b AND 0xE0 = 0xC0 \<longleftrightarrow> 0xC0 \<le> unat b \<and> unat b < 0xE0"
    and "b AND 0xF0 = 0xE0 \<longleftrightarrow> 0xE0 \<le> unat b \<and> unat b < 0xF0"
    and "b AND 0xF8 = 0xF0 \<longleftrightarrow> 0xF0 \<le> unat b \<and> unat b < 0xF8"
proof -
  have m: "0x80 = NOT (mask 7 :: u8)" "0xC0 = NOT (mask 6 :: u8)" "0xE0 = NOT (mask 5 :: u8)"
    "0xF0 = NOT (mask 4 :: u8)" "0xF8 = NOT (mask 3 :: u8)"
    by (simp_all add: mask_eq_exp_minus_1)
  have eq: "b AND NOT (mask n) = v \<longleftrightarrow> unat b div 2 ^ n * 2 ^ n = unat v" for n v
    using high_bits [of b n] by (simp add: word_unat_eq_iff)
  have "unat b < 256"
    using unsigned_less [of b] by simp
  then show "b AND 0x80 = 0 \<longleftrightarrow> unat b < 0x80"
    and "b AND 0xC0 = 0x80 \<longleftrightarrow> 0x80 \<le> unat b \<and> unat b < 0xC0"
    and "b AND 0xE0 = 0xC0 \<longleftrightarrow> 0xC0 \<le> unat b \<and> unat b < 0xE0"
    and "b AND 0xF0 = 0xE0 \<longleftrightarrow> 0xE0 \<le> unat b \<and> unat b < 0xF0"
    and "b AND 0xF8 = 0xF0 \<longleftrightarrow> 0xF0 \<le> unat b \<and> unat b < 0xF8"
    unfolding m eq
    using block_iff [of 128 "unat b" 0] block_iff [of 64 "unat b" 2] block_iff [of 32 "unat b" 6]
      block_iff [of 16 "unat b" 14] block_iff [of 8 "unat b" 30]
    by (simp_all add: mask_eq_exp_minus_1)
qed

lemma continuation_iff: "continuation b \<longleftrightarrow> 0x80 \<le> unat b \<and> unat b < 0xC0"
  by (simp add: continuation_def lead_masks)

text \<open>The bytes of a code point as numbers.\<close>

definition rune_numbers :: "nat \<Rightarrow> nat list" where
  "rune_numbers n =
     (if n < 0x80 then [n]
      else if n < 0x800 then [0xC0 + n div 64, 0x80 + n mod 64]
      else if n < 0x10000 then [0xE0 + n div 4096, 0x80 + n div 64 mod 64, 0x80 + n mod 64]
      else [0xF0 + n div 262144, 0x80 + n div 4096 mod 64, 0x80 + n div 64 mod 64, 0x80 + n mod 64])"

definition rune_number :: "nat \<Rightarrow> bool" where
  "rune_number n \<longleftrightarrow> 0 < n \<and> n < 0x110000 \<and> \<not> (0xD800 \<le> n \<and> n < 0xE000)"

definition scalar :: "u32 \<Rightarrow> bool" where
  "scalar cp \<longleftrightarrow> cp \<noteq> 0 \<and> cp \<le> 0x10FFFF \<and> \<not> (0xD800 \<le> cp \<and> cp \<le> 0xDFFF)"

lemma or_low:
  fixes x y :: u32
  assumes "unat y < 2 ^ k"
  shows "unat (push_bit k x OR y) = unat (push_bit k x) + unat y"
proof -
  have "y = take_bit k y"
    using assms by (simp add: word_unat_eq_iff unsigned_take_bit_eq take_bit_nat_eq_self)
  then have "push_bit k x AND y = push_bit k x AND take_bit k y"
    by simp
  also have "\<dots> = 0"
    by (rule bit_word_eqI) (auto simp: bit_simps)
  finally show ?thesis
    by (rule unat_or_disjoint)
qed

lemma ucast_number: "unat w < 256 \<Longrightarrow> unat (ucast w :: u8) = unat w" for w :: u32
  by (simp add: unsigned_ucast_eq take_bit_nat_eq_self)

lemma low_six: "unat (w AND 0x3F :: u32) = unat w mod 64"
proof -
  have "w AND 0x3F = take_bit 6 w"
    by (simp add: take_bit_eq_mask mask_eq_exp_minus_1)
  then have "unat (w AND 0x3F) = take_bit 6 (unat w)"
    by (simp only: unsigned_take_bit_eq)
  then show ?thesis
    by (simp add: take_bit_eq_mod)
qed

lemma lead_numbers:
  fixes y :: u32
  shows "unat y < 32 \<Longrightarrow> unat (0xC0 OR y) = 0xC0 + unat y"
    and "unat y < 64 \<Longrightarrow> unat (0x80 OR y) = 0x80 + unat y"
    and "unat y < 16 \<Longrightarrow> unat (0xE0 OR y) = 0xE0 + unat y"
    and "unat y < 8 \<Longrightarrow> unat (0xF0 OR y) = 0xF0 + unat y"
  using or_low [of y 5 6] or_low [of y 6 2] or_low [of y 4 14] or_low [of y 3 30] by simp_all

lemma codepoint_bytes:
  assumes "scalar cp"
  shows "map unat (push_string_from_codepoint cp) = rune_numbers (unat cp)"
proof -
  have "unat cp < 2 ^ 32"
    using unsigned_less [of cp] by simp
  then have "take_bit 32 (unat cp) = unat cp"
    by (rule take_bit_nat_eq_self)
  then have drop: "unat (drop_bit k cp) = unat cp div 2 ^ k" for k
    unfolding unsigned_drop_bit_eq by (simp add: drop_bit_eq_div)
  have le: "cp \<le> 0x7F \<longleftrightarrow> unat cp < 0x80" "cp \<le> 0x7FF \<longleftrightarrow> unat cp < 0x800" "cp \<le> 0xFFFF \<longleftrightarrow> unat cp < 0x10000"
    "cp \<le> 0x10FFFF \<longleftrightarrow> unat cp < 0x110000"
    by (auto simp: word_le_nat_alt)
  consider "unat cp < 0x80" | "0x80 \<le> unat cp" "unat cp < 0x800" | "0x800 \<le> unat cp" "unat cp < 0x10000"
    | "0x10000 \<le> unat cp" "unat cp < 0x110000"
    using assms le(4) by (fastforce simp: scalar_def)
  then show ?thesis
    using assms
    by cases (simp_all add: push_string_from_codepoint_def scalar_def rune_numbers_def le drop low_six lead_numbers ucast_number
        not_less)
qed

section \<open>Validity\<close>

text \<open>The loop of the check over numbers.\<close>

definition lead_number :: "nat \<Rightarrow> (nat \<times> nat \<times> nat) option" where
  "lead_number b0 =
     (if 0xC2 \<le> b0 \<and> b0 \<le> 0xDF then Some (1, 0x80, 0xBF)
      else if b0 = 0xE0 then Some (2, 0xA0, 0xBF)
      else if (0xE1 \<le> b0 \<and> b0 \<le> 0xEC) \<or> (0xEE \<le> b0 \<and> b0 \<le> 0xEF) then Some (2, 0x80, 0xBF)
      else if b0 = 0xED then Some (2, 0x80, 0x9F)
      else if b0 = 0xF0 then Some (3, 0x90, 0xBF)
      else if 0xF1 \<le> b0 \<and> b0 \<le> 0xF3 then Some (3, 0x80, 0xBF)
      else if b0 = 0xF4 then Some (3, 0x80, 0x8F)
      else None)"

definition tail_numbers_ok :: "nat \<times> nat \<times> nat \<Rightarrow> nat list \<Rightarrow> bool" where
  "tail_numbers_ok lead ns \<longleftrightarrow>
     (case lead of (n, lo, hi) \<Rightarrow> n \<le> length ns \<and> lo \<le> ns ! 0 \<and> ns ! 0 \<le> hi \<and>
        (\<forall>i \<in> {1..<n}. 0x80 \<le> ns ! i \<and> ns ! i < 0xC0))"

lemma lead_iff:
  "utf8_lead b0 = None \<longleftrightarrow> lead_number (unat b0) = None"
  "utf8_lead b0 = Some (n, first_ok) \<Longrightarrow>
     \<exists>lo hi. lead_number (unat b0) = Some (n, lo, hi) \<and> (\<forall>b. first_ok b \<longleftrightarrow> lo \<le> unat b \<and> unat b \<le> hi)"
  by (auto simp: utf8_lead_def lead_number_def between_def continuation_iff word_le_nat_alt word_unat_eq_iff split: if_splits)

lemma valid_step:
  "utf8_valid_loop (b0 # rest) \<longleftrightarrow>
     (if unat b0 = 0 then False
      else if unat b0 < 0x80 then utf8_valid_loop rest
      else case lead_number (unat b0) of
        None \<Rightarrow> False
      | Some lead \<Rightarrow> tail_numbers_ok lead (map unat rest) \<and> utf8_valid_loop (drop (fst lead) rest))"
proof (cases "utf8_lead b0")
  case None
  then show ?thesis
    using lead_iff(1) [of b0] by (auto simp: word_le_nat_alt word_unat_eq_iff)
next
  case (Some a)
  then obtain n first_ok lo hi where a: "a = (n, first_ok)" "lead_number (unat b0) = Some (n, lo, hi)"
    and ok: "\<forall>b. first_ok b \<longleftrightarrow> lo \<le> unat b \<and> unat b \<le> hi"
    using lead_iff(2) by (metis prod.collapse)
  have "n = 0 \<Longrightarrow> False"
    using a(2) by (simp add: lead_number_def split: if_splits)
  then have "n \<le> length rest \<Longrightarrow> map unat rest ! 0 = unat (rest ! 0)"
    by (cases rest) auto
  then show ?thesis
    using a ok Some
    by (auto simp: word_le_nat_alt word_unat_eq_iff tail_numbers_ok_def continuation_iff)
qed

declare utf8_valid_loop.simps(2) [simp del]

text \<open>A number in base 64.\<close>

lemma base64_parts:
  fixes n :: nat
  defines "a \<equiv> n mod 64" and "b \<equiv> n div 64 mod 64" and "c \<equiv> n div 4096 mod 64" and "d \<equiv> n div 262144"
  shows "n = 262144 * d + 4096 * c + 64 * b + a" and "a < 64" and "b < 64" and "c < 64"
    and "n div 4096 = 64 * d + c" and "n div 64 = 4096 * d + 64 * c + b"
proof -
  have "n div 262144 = n div 4096 div 64" "n div 4096 = n div 64 div 64"
    by (simp_all add: div_mult2_eq [symmetric])
  then have "n div 64 = 64 * (n div 4096) + b" "n div 4096 = 64 * d + c" "n = 64 * (n div 64) + a"
    using div_mult_mod_eq [of "n div 64" 64] div_mult_mod_eq [of "n div 4096" 64] div_mult_mod_eq [of n 64]
    by (simp_all add: a_def b_def c_def d_def)
  then show "n = 262144 * d + 4096 * c + 64 * b + a" "n div 4096 = 64 * d + c" "n div 64 = 4096 * d + 64 * c + b"
    by linarith+
  show "a < 64" "b < 64" "c < 64"
    by (simp_all add: a_def b_def c_def)
qed

text \<open>The bytes of a code point are one character of the check.\<close>

lemma rune_numbers_valid:
  assumes "rune_number n"
  shows "\<exists>b0 ns. rune_numbers n = b0 # ns \<and> b0 \<noteq> 0 \<and>
    (if b0 < 0x80 then ns = []
     else \<exists>lead. lead_number b0 = Some lead \<and> fst lead = length ns \<and> (\<forall>rest. tail_numbers_ok lead (ns @ rest)))"
proof -
  note p = base64_parts [of n]
  have n: "0 < n" "n < 0x110000" "\<not> (0xD800 \<le> n \<and> n < 0xE000)"
    using assms by (simp_all add: rune_number_def)
  consider "n < 0x80" | "0x80 \<le> n" "n < 0x800" | "0x800 \<le> n" "n < 0x10000" | "0x10000 \<le> n"
    by linarith
  then show ?thesis
  proof cases
    case 2
    then have "2 \<le> n div 64" "n div 64 < 32" "n mod 64 < 64"
      by simp_all
    with 2 show ?thesis
      by (simp add: rune_numbers_def lead_number_def tail_numbers_ok_def)
  next
    case 3
    then have q: "n div 262144 = 0" "n div 4096 < 16"
      by simp_all
    then have "n div 4096 = 0 \<Longrightarrow> 32 \<le> n div 64 mod 64" "n div 4096 = 13 \<Longrightarrow> n div 64 mod 64 < 32"
      using p 3 n(3) by linarith+
    then have "\<exists>lead. lead_number (0xE0 + n div 4096) = Some lead \<and> fst lead = 2 \<and>
        (\<forall>rest. tail_numbers_ok lead ([0x80 + n div 64 mod 64, 0x80 + n mod 64] @ rest))"
      using q(2) by (auto simp: lead_number_def tail_numbers_ok_def numeral_2_eq_2 less_Suc_eq)
    with 3 show ?thesis
      by (simp add: rune_numbers_def numeral_2_eq_2)
  next
    case 4
    then have q: "n div 262144 < 5"
      using n(2) by simp
    have "n div 262144 = 0 \<Longrightarrow> 16 \<le> n div 4096 mod 64" "n div 262144 = 4 \<Longrightarrow> n div 4096 mod 64 < 16"
      using p 4 n(2) by linarith+
    then have "\<exists>lead. lead_number (0xF0 + n div 262144) = Some lead \<and> fst lead = 3 \<and>
        (\<forall>rest. tail_numbers_ok lead ([0x80 + n div 4096 mod 64, 0x80 + n div 64 mod 64, 0x80 + n mod 64] @ rest))"
      using q by (auto simp: lead_number_def tail_numbers_ok_def numeral_3_eq_3 less_Suc_eq nth_Cons split: nat.split)
    with 4 show ?thesis
      by (simp add: rune_numbers_def numeral_3_eq_3)
  qed (use n in \<open>simp add: rune_numbers_def\<close>)
qed

lemma base64_digits:
  fixes a b c d :: nat
  assumes "a < 64"
  shows "(64 * b + a) div 64 = b" and "(64 * b + a) mod 64 = a"
    and "(64 * (64 * c + b) + a) div 4096 = (64 * c + b) div 64"
    and "(64 * (64 * (64 * d + c) + b) + a) div 262144 = (64 * (64 * d + c) + b) div 4096"
proof -
  show one: "(64 * k + a) div 64 = k" for k
    using assms by simp
  show "(64 * b + a) mod 64 = a"
    using assms by simp
  show "(64 * (64 * c + b) + a) div 4096 = (64 * c + b) div 64"
    using div_mult2_eq [of "64 * (64 * c + b) + a" 64 64] one [of "64 * c + b"] by simp
  show "(64 * (64 * (64 * d + c) + b) + a) div 262144 = (64 * (64 * d + c) + b) div 4096"
    using div_mult2_eq [of "64 * (64 * (64 * d + c) + b) + a" 64 4096] one [of "64 * (64 * d + c) + b"] by simp
qed

text \<open>Opaque in \<open>n\<close>, so that the digits are not expanded.\<close>

lemma rune_numbers_by_size:
  "0x80 \<le> n \<Longrightarrow> n < 0x800 \<Longrightarrow> rune_number n \<and> rune_numbers n = [0xC0 + n div 64, 0x80 + n mod 64]"
  "0x800 \<le> n \<Longrightarrow> n < 0x10000 \<Longrightarrow> \<not> (0xD800 \<le> n \<and> n < 0xE000) \<Longrightarrow>
     rune_number n \<and> rune_numbers n = [0xE0 + n div 4096, 0x80 + n div 64 mod 64, 0x80 + n mod 64]"
  "0x10000 \<le> n \<Longrightarrow> n < 0x110000 \<Longrightarrow>
     rune_number n \<and> rune_numbers n = [0xF0 + n div 262144, 0x80 + n div 4096 mod 64, 0x80 + n div 64 mod 64, 0x80 + n mod 64]"
  by (simp_all add: rune_number_def rune_numbers_def)

lemma rune_two:
  assumes "2 \<le> c" and "c < 32" and "a < 64"
  shows "rune_number (64 * c + a) \<and> rune_numbers (64 * c + a) = [0xC0 + c, 0x80 + a]"
proof -
  have "0x80 \<le> 64 * c + a" "64 * c + a < 0x800"
    using assms by linarith+
  from rune_numbers_by_size(1) [OF this] show ?thesis
    by (simp only: base64_digits [OF assms(3)])
qed

lemma rune_three:
  assumes "c < 16" and "b < 64" and "a < 64" and "c = 0 \<Longrightarrow> 32 \<le> b" and "c = 13 \<Longrightarrow> b < 32"
  shows "rune_number (64 * (64 * c + b) + a) \<and> rune_numbers (64 * (64 * c + b) + a) = [0xE0 + c, 0x80 + b, 0x80 + a]"
proof -
  have "0x800 \<le> 64 * (64 * c + b) + a" "64 * (64 * c + b) + a < 0x10000"
    using assms(1-4) by (cases "c = 0"; simp)+
  moreover have "\<not> (0xD800 \<le> 64 * (64 * c + b) + a \<and> 64 * (64 * c + b) + a < 0xE000)"
    using assms(2,3,5) by (cases c "13 :: nat" rule: linorder_cases) simp_all
  ultimately have "rune_number (64 * (64 * c + b) + a) \<and> rune_numbers (64 * (64 * c + b) + a) =
      [0xE0 + (64 * (64 * c + b) + a) div 4096, 0x80 + (64 * (64 * c + b) + a) div 64 mod 64, 0x80 + (64 * (64 * c + b) + a) mod 64]"
    by (rule rune_numbers_by_size(2))
  then show ?thesis
    by (simp only: base64_digits [OF assms(3)] base64_digits [OF assms(2)])
qed

lemma rune_four:
  assumes "d < 5" and "c < 64" and "b < 64" and "a < 64" and "d = 0 \<Longrightarrow> 16 \<le> c" and "d = 4 \<Longrightarrow> c < 16"
  shows "rune_number (64 * (64 * (64 * d + c) + b) + a) \<and>
    rune_numbers (64 * (64 * (64 * d + c) + b) + a) = [0xF0 + d, 0x80 + c, 0x80 + b, 0x80 + a]"
proof -
  have "0x10000 \<le> 64 * (64 * (64 * d + c) + b) + a"
    using assms(5) by (cases "d = 0") simp_all
  moreover have "64 * (64 * (64 * d + c) + b) + a < 0x110000"
    using assms(1-4,6) by (cases "d = 4") simp_all
  ultimately have "rune_number (64 * (64 * (64 * d + c) + b) + a) \<and> rune_numbers (64 * (64 * (64 * d + c) + b) + a) =
      [0xF0 + (64 * (64 * (64 * d + c) + b) + a) div 262144, 0x80 + (64 * (64 * (64 * d + c) + b) + a) div 4096 mod 64,
       0x80 + (64 * (64 * (64 * d + c) + b) + a) div 64 mod 64, 0x80 + (64 * (64 * (64 * d + c) + b) + a) mod 64]"
    by (rule rune_numbers_by_size(3))
  then show ?thesis
    by (simp only: base64_digits [OF assms(4)] base64_digits [OF assms(3)] base64_digits [OF assms(2)])
qed

lemma rune_of_numbers:
  assumes "lead_number b0 = Some lead" and "tail_numbers_ok lead ns"
  shows "\<exists>n. rune_number n \<and> rune_numbers n = b0 # take (fst lead) ns"
proof -
  obtain k lo hi where lead: "lead = (k, lo, hi)"
    by (metis prod.collapse)
  have "k \<in> {1, 2, 3}"
    using assms(1) by (auto simp: lead lead_number_def split: if_splits)
  then consider "k = 1" | "k = 2" | "k = 3"
    by blast
  then show ?thesis
  proof cases
    case 1
    obtain b1 rest where ns: "ns = b1 # rest"
      using assms(2) 1 by (cases ns) (auto simp: lead tail_numbers_ok_def)
    let ?c = "b0 - 0xC0" and ?a = "b1 - 0x80"
    have b: "b0 = 0xC0 + ?c" "b1 = 0x80 + ?a" "2 \<le> ?c" "?c < 32" "?a < 64"
      using assms 1 by (auto simp: lead ns tail_numbers_ok_def lead_number_def split: if_splits)
    from rune_two [OF b(3-5)] b(1,2) show ?thesis
      by (auto simp: ns lead 1)
  next
    case 2
    obtain b1 b2 rest where ns: "ns = b1 # b2 # rest"
      using assms(2) 2 by (cases ns; cases "tl ns") (auto simp: lead tail_numbers_ok_def)
    let ?c = "b0 - 0xE0" and ?b = "b1 - 0x80" and ?a = "b2 - 0x80"
    have b: "b0 = 0xE0 + ?c" "b1 = 0x80 + ?b" "b2 = 0x80 + ?a" "?c < 16" "?b < 64" "?a < 64"
      "?c = 0 \<Longrightarrow> 32 \<le> ?b" "?c = 13 \<Longrightarrow> ?b < 32"
      using assms 2 by (auto simp: lead ns tail_numbers_ok_def lead_number_def split: if_splits)
    from rune_three [OF b(4-8)] b(1-3) show ?thesis
      by (auto simp: ns lead 2)
  next
    case 3
    obtain b1 b2 b3 rest where ns: "ns = b1 # b2 # b3 # rest"
      using assms(2) 3 by (cases ns; cases "tl ns"; cases "tl (tl ns)") (auto simp: lead tail_numbers_ok_def)
    let ?d = "b0 - 0xF0" and ?c = "b1 - 0x80" and ?b = "b2 - 0x80" and ?a = "b3 - 0x80"
    have "\<forall>i \<in> {1..<3}. 0x80 \<le> ns ! i \<and> ns ! i < 0xC0"
      using assms(2) 3 by (simp add: lead tail_numbers_ok_def)
    from bspec [OF this, of 1] bspec [OF this, of 2] have "0x80 \<le> b2" "b2 < 0xC0" "0x80 \<le> b3" "b3 < 0xC0"
      by (simp_all add: ns)
    then have b2: "b2 = 0x80 + ?b" "b3 = 0x80 + ?a" "?b < 64" "?a < 64"
      by simp_all
    have b: "b0 = 0xF0 + ?d" "b1 = 0x80 + ?c" "?d < 5" "?c < 64" "?d = 0 \<Longrightarrow> 16 \<le> ?c" "?d = 4 \<Longrightarrow> ?c < 16"
      using assms 3 by (auto simp: lead ns tail_numbers_ok_def lead_number_def split: if_splits)
    from rune_four [OF b(3,4) b2(3,4) b(5,6)] b(1,2) b2(1,2) show ?thesis
      by (auto simp: ns lead 3)
  qed
qed

section \<open>Texts of code points\<close>

definition encode_text :: "u32 list \<Rightarrow> bytes" where
  "encode_text cps = concat (map push_string_from_codepoint cps)"

lemma encode_text_simps [simp]:
  "encode_text [] = []" "encode_text (cp # cps) = push_string_from_codepoint cp @ encode_text cps"
  "encode_text (cps @ cps') = encode_text cps @ encode_text cps'"
  by (simp_all add: encode_text_def)

lemma scalar_rune_number: "scalar cp \<longleftrightarrow> rune_number (unat cp)"
  by (auto simp: scalar_def rune_number_def word_le_nat_alt word_unat_eq_iff)

text \<open>The bytes of a character: the first byte, and as many continuation bytes as it announces.\<close>

lemma codepoint_split:
  assumes "scalar cp"
  obtains c0 cs where "push_string_from_codepoint cp = c0 # cs" and "c0 \<noteq> 0"
    and "if unat c0 < 0x80 then cs = []
         else \<exists>lead. lead_number (unat c0) = Some lead \<and> fst lead = length cs \<and>
           (\<forall>rest. tail_numbers_ok lead (map unat cs @ rest))"
proof -
  obtain b0 ns where b: "rune_numbers (unat cp) = b0 # ns" "b0 \<noteq> 0"
    and lead: "if b0 < 0x80 then ns = []
      else \<exists>lead. lead_number b0 = Some lead \<and> fst lead = length ns \<and> (\<forall>rest. tail_numbers_ok lead (ns @ rest))"
    using rune_numbers_valid [of "unat cp"] assms by (auto simp: scalar_rune_number)
  then obtain c0 cs where c: "push_string_from_codepoint cp = c0 # cs" "unat c0 = b0" "map unat cs = ns"
    using codepoint_bytes [OF assms] by auto
  show thesis
  proof (rule that)
    show "push_string_from_codepoint cp = c0 # cs"
      by fact
    show "c0 \<noteq> 0"
      using b(2) c(2) by auto
    show "if unat c0 < 0x80 then cs = []
         else \<exists>lead. lead_number (unat c0) = Some lead \<and> fst lead = length cs \<and>
           (\<forall>rest. tail_numbers_ok lead (map unat cs @ rest))"
      using lead unfolding c(2) c(3) [symmetric] by (auto split: if_splits)
  qed
qed

lemma valid_character:
  assumes "scalar cp"
  shows "utf8_valid_loop (push_string_from_codepoint cp @ rest) \<longleftrightarrow> utf8_valid_loop rest"
proof -
  obtain c0 cs where c: "push_string_from_codepoint cp = c0 # cs" "c0 \<noteq> 0"
    and lead: "if unat c0 < 0x80 then cs = []
         else \<exists>lead. lead_number (unat c0) = Some lead \<and> fst lead = length cs \<and>
           (\<forall>rest. tail_numbers_ok lead (map unat cs @ rest))"
    using codepoint_split [OF assms] by blast
  have "unat c0 \<noteq> 0"
    using c(2) by (simp add: word_unat_eq_iff)
  then show ?thesis
    using lead by (auto simp: c(1) valid_step split: if_splits)
qed

lemma valid_split:
  assumes "utf8_valid_loop (b0 # rest)"
  shows "\<exists>cp rest'. scalar cp \<and> b0 # rest = push_string_from_codepoint cp @ rest' \<and> utf8_valid_loop rest'"
proof -
  have "\<exists>n k. rune_number n \<and> rune_numbers n = unat b0 # map unat (take k rest) \<and> utf8_valid_loop (drop k rest)"
  proof (cases "unat b0 < 0x80")
    case True
    then have "rune_number (unat b0)" "rune_numbers (unat b0) = [unat b0]"
      using assms by (auto simp: valid_step rune_number_def rune_numbers_def split: if_splits)
    then show ?thesis
      using assms True by (intro exI [of _ "unat b0"] exI [of _ 0]) (simp add: valid_step split: if_splits)
  next
    case False
    then obtain lead where "lead_number (unat b0) = Some lead" "tail_numbers_ok lead (map unat rest)"
      "utf8_valid_loop (drop (fst lead) rest)"
      using assms by (auto simp: valid_step split: if_splits option.splits)
    with rune_of_numbers [OF this(1,2)] show ?thesis
      by (auto simp: take_map)
  qed
  then obtain n k where n: "rune_number n" "rune_numbers n = unat b0 # map unat (take k rest)"
    and rest: "utf8_valid_loop (drop k rest)"
    by blast
  have "n < 2 ^ 32"
    using n(1) by (simp add: rune_number_def)
  then have u: "unat (of_nat n :: u32) = n"
    by (simp add: unat_of_nat take_bit_nat_eq_self)
  then have sc: "scalar (of_nat n)"
    using n(1) by (simp add: scalar_rune_number)
  have "map unat (push_string_from_codepoint (of_nat n)) = map unat (b0 # take k rest)"
    using codepoint_bytes [OF sc] u n(2) by simp
  then have "push_string_from_codepoint (of_nat n) = b0 # take k rest"
    by (metis (no_types, lifting) map_injective word_unat_eq_iff injI)
  with sc rest show ?thesis
    by (intro exI [of _ "of_nat n"] exI [of _ "drop k rest"]) simp
qed

text \<open>C35 (equivalence): bytes pass the check exactly when they are the encodings, one after the other,
  of Unicode scalar values other than zero.\<close>

theorem utf8_valid_iff_encoded:
  "aivm_bytes_is_valid_utf8_without_nul (Some data) (length data) \<longleftrightarrow>
   (\<exists>cps. data = encode_text cps \<and> (\<forall>cp \<in> set cps. scalar cp))"
proof
  assume "\<exists>cps. data = encode_text cps \<and> (\<forall>cp \<in> set cps. scalar cp)"
  then obtain cps where "data = encode_text cps" "\<forall>cp \<in> set cps. scalar cp"
    by blast
  moreover have "utf8_valid_loop (encode_text cps)" if "\<forall>cp \<in> set cps. scalar cp" for cps
    using that by (induction cps) (simp_all add: valid_character)
  ultimately show "aivm_bytes_is_valid_utf8_without_nul (Some data) (length data)"
    by (simp add: aivm_bytes_is_valid_utf8_without_nul_def)
next
  assume "aivm_bytes_is_valid_utf8_without_nul (Some data) (length data)"
  then have "utf8_valid_loop data"
    by (simp add: aivm_bytes_is_valid_utf8_without_nul_def)
  then show "\<exists>cps. data = encode_text cps \<and> (\<forall>cp \<in> set cps. scalar cp)"
  proof (induction "length data" arbitrary: data rule: less_induct)
    case less
    show ?case
    proof (cases data)
      case Nil
      then show ?thesis
        by (intro exI [of _ "[]"]) simp
    next
      case (Cons b0 rest)
      then obtain cp rest' where cp: "scalar cp" "data = push_string_from_codepoint cp @ rest'" "utf8_valid_loop rest'"
        using valid_split less.prems by blast
      moreover obtain c0 cs where "push_string_from_codepoint cp = c0 # cs"
        using codepoint_split [OF cp(1)] by blast
      ultimately have "length rest' < length data"
        by simp
      then obtain cps where "rest' = encode_text cps" "\<forall>cp \<in> set cps. scalar cp"
        using less.hyps cp(3) by blast
      with cp show ?thesis
        by (intro exI [of _ "cp # cps"]) simp
    qed
  qed
qed

theorem utf8_valid_iff_encoded_witness:
  "aivm_bytes_is_valid_utf8_without_nul (Some [0x41, 0xE2, 0x82, 0xAC]) 4 \<and>
   \<not> aivm_bytes_is_valid_utf8_without_nul (Some [0xED, 0xA0, 0x80]) 3 \<and>
   (\<exists>cps. [0x41, 0xE2, 0x82, 0xAC] = encode_text cps \<and> (\<forall>cp \<in> set cps. scalar cp))"
proof -
  have "aivm_bytes_is_valid_utf8_without_nul (Some [0x41, 0xE2, 0x82, 0xAC]) 4"
    "\<not> aivm_bytes_is_valid_utf8_without_nul (Some [0xED, 0xA0, 0x80]) 3"
    by code_simp+
  moreover have "length [0x41, 0xE2, 0x82, 0xAC :: u8] = 4"
    by simp
  ultimately show ?thesis
    using utf8_valid_iff_encoded [of "[0x41, 0xE2, 0x82, 0xAC]"] by (simp only: simp_thms)
qed

section \<open>Moving over characters\<close>

lemma lead_number_cases:
  assumes "lead_number b0 = Some (k, lo, hi)"
  shows "0x80 \<le> lo \<and> hi < 0xC0 \<and>
    (k = 1 \<and> 0xC0 \<le> b0 \<and> b0 < 0xE0 \<or> k = 2 \<and> 0xE0 \<le> b0 \<and> b0 < 0xF0 \<or> k = 3 \<and> 0xF0 \<le> b0 \<and> b0 < 0xF8)"
  using assms by (auto simp: lead_number_def split: if_splits)

lemma text_at_append:
  "text_at (pre @ str) (length pre) = text_at str 0" "text_at (pre @ str) (length pre + i) = text_at str i"
  by (simp_all add: text_at_def nth_append)

lemma next_index_shift: "utf8_next_index (pre @ str) (length pre) = length pre + utf8_next_index str 0"
  by (simp add: utf8_next_index_def Let_def text_at_append del: One_nat_def add_2_eq_Suc' add_Suc_right)

lemma next_index_character:
  assumes "scalar cp"
  shows "utf8_next_index (push_string_from_codepoint cp @ rest) 0 = length (push_string_from_codepoint cp)"
    and "text_at (push_string_from_codepoint cp @ rest) 0 \<noteq> 0"
proof -
  obtain c0 cs where c: "push_string_from_codepoint cp = c0 # cs" "c0 \<noteq> 0"
    and lead: "if unat c0 < 0x80 then cs = []
         else \<exists>lead. lead_number (unat c0) = Some lead \<and> fst lead = length cs \<and>
           (\<forall>rest. tail_numbers_ok lead (map unat cs @ rest))"
    using codepoint_split [OF assms] by blast
  show "text_at (push_string_from_codepoint cp @ rest) 0 \<noteq> 0"
    by (simp add: c text_at_def)
  show "utf8_next_index (push_string_from_codepoint cp @ rest) 0 = length (push_string_from_codepoint cp)"
  proof (cases "unat c0 < 0x80")
    case True
    then show ?thesis
      using lead by (simp add: c utf8_next_index_def text_at_def lead_masks)
  next
    case False
    then obtain lo hi where l: "lead_number (unat c0) = Some (length cs, lo, hi)"
      and tail: "tail_numbers_ok (length cs, lo, hi) (map unat cs @ [])"
      using lead by (metis prod.collapse)
    have cont: "continuation (cs ! i)" if "i < length cs" for i
      using tail lead_number_cases [OF l] that
      by (cases "i = 0") (auto simp: tail_numbers_ok_def continuation_iff)
    have "text_at ((c0 # cs) @ rest) 0 = c0"
      and at: "i < length cs \<Longrightarrow> continuation (text_at ((c0 # cs) @ rest) (Suc i))" for i
      using cont by (simp_all add: text_at_def nth_append)
    moreover have "length cs = 1 \<and> 0xC0 \<le> unat c0 \<and> unat c0 < 0xE0 \<or> length cs = 2 \<and> 0xE0 \<le> unat c0 \<and> unat c0 < 0xF0 \<or>
        length cs = 3 \<and> 0xF0 \<le> unat c0 \<and> unat c0 < 0xF8"
      using lead_number_cases [OF l] by blast
    ultimately show ?thesis
      using at [of 0] at [of 1] at [of 2] False
      by (auto simp: c(1) c(2) utf8_next_index_def Let_def lead_masks numeral_2_eq_2 numeral_3_eq_3)
  qed
qed

text \<open>The byte offset of a character of an encoded text.\<close>

definition rune_offset :: "u32 list \<Rightarrow> nat \<Rightarrow> nat" where
  "rune_offset cps i = length (encode_text (take i cps))"

lemma text_at_end [simp]: "text_at str (length str) = 0"
  by (simp add: text_at_def)

lemma at_rune:
  assumes "\<forall>cp \<in> set cps. scalar cp" and "i < length cps"
  shows "utf8_next_index (encode_text cps) (rune_offset cps i) = rune_offset cps (Suc i)"
    and "text_at (encode_text cps) (rune_offset cps i) \<noteq> 0"
proof -
  let ?pre = "encode_text (take i cps)" and ?cp = "cps ! i"
  have split: "encode_text cps = ?pre @ push_string_from_codepoint ?cp @ encode_text (drop (Suc i) cps)"
    using assms(2) by (metis encode_text_simps(2,3) id_take_nth_drop)
  have "scalar ?cp"
    using assms by simp
  note n = next_index_character [OF this, of "encode_text (drop (Suc i) cps)"]
  show "utf8_next_index (encode_text cps) (rune_offset cps i) = rune_offset cps (Suc i)"
    unfolding split rune_offset_def next_index_shift n(1) using assms(2) by (simp add: take_Suc_conv_app_nth)
  show "text_at (encode_text cps) (rune_offset cps i) \<noteq> 0"
    unfolding split rune_offset_def text_at_append using n(2) by simp
qed

lemma rune_offset_end: "length cps \<le> i \<Longrightarrow> rune_offset cps i = length (encode_text cps)"
  by (simp add: rune_offset_def)

lemma offset_loop_runes:
  assumes "\<forall>cp \<in> set cps. scalar cp" and "i \<le> length cps"
  shows "rune_offset_loop (encode_text cps) r (rune_offset cps i) k =
    (let m = min (r - k) (length cps - i) in (rune_offset cps (i + m), k + m))"
  using assms(2)
proof (induction "length cps - i" arbitrary: i k)
  case 0
  then show ?case
    by (subst rune_offset_loop.simps) (simp add: rune_offset_end)
next
  case (Suc n)
  then have i: "i < length cps"
    by simp
  show ?case
  proof (cases "k < r")
    case True
    then have "rune_offset_loop (encode_text cps) r (rune_offset cps i) k =
        rune_offset_loop (encode_text cps) r (rune_offset cps (Suc i)) (Suc k)"
      using at_rune [OF assms(1) i] by (subst rune_offset_loop.simps) simp
    also have "\<dots> = (let m = min (r - Suc k) (length cps - Suc i) in (rune_offset cps (Suc i + m), Suc k + m))"
      using Suc i by (intro Suc.hyps) simp_all
    also have "min (r - k) (length cps - i) = Suc (min (r - Suc k) (length cps - Suc i))"
      using True i by linarith
    then have "(let m = min (r - Suc k) (length cps - Suc i) in (rune_offset cps (Suc i + m), Suc k + m)) =
        (let m = min (r - k) (length cps - i) in (rune_offset cps (i + m), k + m))"
      by (simp add: Let_def)
    finally show ?thesis .
  next
    case False
    then show ?thesis
      by (subst rune_offset_loop.simps) simp
  qed
qed

lemma count_loop_runes:
  assumes "\<forall>cp \<in> set cps. scalar cp" and "i \<le> length cps" and "n + (length cps - i) \<le> SIZE_MAX"
  shows "rune_count_loop (encode_text cps) (rune_offset cps i) n = n + (length cps - i)"
  using assms(2,3)
proof (induction "length cps - i" arbitrary: i n)
  case 0
  then show ?case
    by (subst rune_count_loop.simps) (simp add: rune_offset_end)
next
  case (Suc k)
  then have i: "i < length cps"
    by simp
  have "rune_count_loop (encode_text cps) (rune_offset cps i) n = rune_count_loop (encode_text cps) (rune_offset cps (Suc i)) (Suc n)"
    using at_rune [OF assms(1) i] Suc.prems(2) i by (subst rune_count_loop.simps) simp
  also have "\<dots> = Suc n + (length cps - Suc i)"
    using Suc i by (intro Suc.hyps) simp_all
  finally show ?case
    using i by simp
qed

lemma rune_count_runes:
  assumes "\<forall>cp \<in> set cps. scalar cp" and "length cps \<le> SIZE_MAX"
  shows "utf8_rune_count (encode_text cps) = length cps"
  using count_loop_runes [OF assms(1), of 0 0] assms(2) by (simp add: utf8_rune_count_def rune_offset_def)

section \<open>The offset cache\<close>

text \<open>A cache entry is a point the search from the start of the text passes.\<close>

definition cache_ok :: "offset_cache \<Rightarrow> bool" where
  "cache_ok cache \<longleftrightarrow>
     (\<forall>str. utf8_offset_cache_text cache = Some str \<longrightarrow>
        rune_offset_loop str (utf8_offset_cache_rune cache) 0 0 =
          (utf8_offset_cache_byte cache, utf8_offset_cache_rune cache))"

lemma offset_loop_continue:
  "rune_offset_loop str c b k = (b', c') \<Longrightarrow> c \<le> r \<Longrightarrow> k \<le> c \<Longrightarrow> rune_offset_loop str r b' c' = rune_offset_loop str r b k"
proof (induction str c b k rule: rune_offset_loop.induct)
  case (1 str c b k)
  show ?case
  proof (cases "text_at str b \<noteq> 0 \<and> k < c")
    case True
    then have "rune_offset_loop str c (utf8_next_index str b) (k + 1) = (b', c')"
      using "1.prems"(1) by (subst (asm) rune_offset_loop.simps) simp
    moreover have "rune_offset_loop str r b k = rune_offset_loop str r (utf8_next_index str b) (k + 1)"
      using True "1.prems"(2) by (subst rune_offset_loop.simps) simp
    ultimately show ?thesis
      using "1.IH" True "1.prems"(2) by simp
  next
    case False
    then have "(b', c') = (b, k)"
      using "1.prems"(1) by (subst (asm) rune_offset_loop.simps) auto
    then show ?thesis
      by simp
  qed
qed

lemma offset_loop_stops:
  "rune_offset_loop str r b k = (b', c') \<Longrightarrow> k \<le> r \<Longrightarrow> rune_offset_loop str c' b k = (b', c') \<and> k \<le> c' \<and> c' \<le> r"
proof (induction str r b k rule: rune_offset_loop.induct)
  case (1 str r b k)
  show ?case
  proof (cases "text_at str b \<noteq> 0 \<and> k < r")
    case True
    then have "rune_offset_loop str r (utf8_next_index str b) (k + 1) = (b', c')"
      using "1.prems"(1) by (subst (asm) rune_offset_loop.simps) simp
    then have "rune_offset_loop str c' (utf8_next_index str b) (k + 1) = (b', c') \<and> k + 1 \<le> c' \<and> c' \<le> r"
      using "1.IH" True by simp
    then show ?thesis
      using True by (subst rune_offset_loop.simps) simp
  next
    case False
    then have "(b', c') = (b, k)"
      using "1.prems"(1) by (subst (asm) rune_offset_loop.simps) auto
    then show ?thesis
      using "1.prems"(2) by (subst rune_offset_loop.simps) simp
  qed
qed

text \<open>Looking a character up through the cache gives the offset that a search from the
  start of the text gives, and leaves a cache that is right.\<close>

lemma offset_cache_transparent:
  assumes "cache_ok cache"
  shows "fst (utf8_byte_offset_for_rune cache str r) = fst (rune_offset_loop str r 0 0) \<and>
    cache_ok (snd (utf8_byte_offset_for_rune cache str r))"
proof -
  let ?b = "if utf8_offset_cache_text cache = Some str \<and> utf8_offset_cache_rune cache \<le> r
    then (utf8_offset_cache_byte cache, utf8_offset_cache_rune cache) else (0, 0)"
  have same: "rune_offset_loop str r (fst ?b) (snd ?b) = rune_offset_loop str r 0 0"
    using assms offset_loop_continue [of str "utf8_offset_cache_rune cache" 0 0]
    by (auto simp: cache_ok_def)
  obtain b c where loop: "rune_offset_loop str r 0 0 = (b, c)"
    by fastforce
  have "utf8_byte_offset_for_rune cache str r =
      (b, \<lparr>utf8_offset_cache_text = Some str, utf8_offset_cache_rune = c, utf8_offset_cache_byte = b\<rparr>)"
    using same loop by (auto simp: utf8_byte_offset_for_rune_def Let_def split: prod.split)
  then show ?thesis
    using loop offset_loop_stops [OF loop] by (simp add: cache_ok_def)
qed

definition empty_cache :: offset_cache where
  "empty_cache = \<lparr>utf8_offset_cache_text = None, utf8_offset_cache_rune = 0, utf8_offset_cache_byte = 0\<rparr>"

lemma empty_cache_ok: "cache_ok empty_cache"
  by (simp add: cache_ok_def empty_cache_def)

lemma offset_runes:
  assumes "cache_ok cache" and "\<forall>cp \<in> set cps. scalar cp"
  shows "fst (utf8_byte_offset_for_rune cache (encode_text cps) r) = rune_offset cps r"
    and "cache_ok (snd (utf8_byte_offset_for_rune cache (encode_text cps) r))"
proof -
  have "fst (rune_offset_loop (encode_text cps) r 0 0) = rune_offset cps (min r (length cps))"
    using offset_loop_runes [OF assms(2), of 0 r 0] by (simp add: rune_offset_def Let_def)
  then show "fst (utf8_byte_offset_for_rune cache (encode_text cps) r) = rune_offset cps r"
    using offset_cache_transparent [OF assms(1), of "encode_text cps" r] by (simp add: rune_offset_def min_def)
  show "cache_ok (snd (utf8_byte_offset_for_rune cache (encode_text cps) r))"
    using offset_cache_transparent [OF assms(1)] by blast
qed

section \<open>Text operations as operations on code points\<close>

lemma rune_offset_split: "take (rune_offset cps i) (encode_text cps) = encode_text (take i cps)"
  "drop (rune_offset cps i) (encode_text cps) = encode_text (drop i cps)"
proof -
  have "encode_text cps = encode_text (take i cps) @ encode_text (drop i cps)"
    by (metis append_take_drop_id encode_text_simps(3))
  then show "take (rune_offset cps i) (encode_text cps) = encode_text (take i cps)"
    "drop (rune_offset cps i) (encode_text cps) = encode_text (drop i cps)"
    by (simp_all add: rune_offset_def)
qed

lemma rune_offset_add: "rune_offset cps (i + m) = rune_offset cps i + rune_offset (drop i cps) m"
  by (simp add: rune_offset_def take_add)

lemma substring_runes:
  assumes "cache_ok cache" and "\<forall>cp \<in> set cps. scalar cp"
  shows "fst (push_substring_by_runes cache (Some (encode_text cps)) start len) =
      encode_text (take (nat len) (drop (nat start) cps))"
    and "cache_ok (snd (push_substring_by_runes cache (Some (encode_text cps)) start len))"
proof -
  let ?s = "min (nat start) (length cps)"
  have start: "fst (utf8_byte_offset_for_rune cache (encode_text cps) (nat start)) = rune_offset cps ?s"
    using offset_runes(1) [OF assms] by (simp add: rune_offset_def min_def)
  have "fst (rune_offset_loop (encode_text cps) (nat len) (rune_offset cps ?s) 0) =
      rune_offset cps (?s + min (nat len) (length cps - ?s))"
    using offset_loop_runes [OF assms(2), of ?s "nat len" 0] by (simp add: Let_def)
  also have "\<dots> = rune_offset cps ?s + rune_offset (drop ?s cps) (nat len)"
    by (simp add: rune_offset_add) (simp add: rune_offset_def min_def)
  finally have "take (fst (rune_offset_loop (encode_text cps) (nat len) (rune_offset cps ?s) 0) - rune_offset cps ?s)
      (drop (rune_offset cps ?s) (encode_text cps)) = encode_text (take (nat len) (drop ?s cps))"
    by (simp add: rune_offset_split)
  moreover have "drop ?s cps = drop (nat start) cps"
    by (simp add: min_def)
  moreover obtain b c where o: "utf8_byte_offset_for_rune cache (encode_text cps) (nat start) = (b, c)"
    by fastforce
  moreover from this have "b = rune_offset cps ?s" and c: "cache_ok c"
    using start offset_runes(2) [OF assms, of "nat start"] by simp_all
  moreover have "(if start \<le> 0 then 0 else nat start) = nat start"
    by simp
  ultimately show "fst (push_substring_by_runes cache (Some (encode_text cps)) start len) =
      encode_text (take (nat len) (drop (nat start) cps))"
    by (simp add: push_substring_by_runes_def Let_def)
  show "cache_ok (snd (push_substring_by_runes cache (Some (encode_text cps)) start len))"
    using assms(1) o c by (auto simp: push_substring_by_runes_def Let_def)
qed

lemma remove_runes:
  assumes "cache_ok cache" and "\<forall>cp \<in> set cps. scalar cp" and "length cps \<le> SIZE_MAX" and "0 < len" and "in_i64 (start + len)"
  shows "\<exists>cache'. push_remove_by_runes cache (Some (encode_text cps)) start len =
    Some (encode_text (take (nat start) cps @ drop (nat (start + len)) cps), cache') \<and> cache_ok cache'"
proof -
  let ?n = "length cps" and ?s = "clamp_rune_index start (length cps)" and ?e = "clamp_rune_index (start + len) (length cps)"
  have order: "?s \<le> ?e" "take ?s cps = take (nat start) cps" "drop ?e cps = drop (nat (start + len)) cps"
    using assms(4) by (auto simp: clamp_rune_index_def)
  obtain b1 c1 where o1: "utf8_byte_offset_for_rune cache (encode_text cps) ?s = (b1, c1)"
    by fastforce
  then have b1: "b1 = rune_offset cps ?s" "cache_ok c1"
    using offset_runes [OF assms(1,2), of ?s] by simp_all
  obtain b2 c2 where o2: "utf8_byte_offset_for_rune c1 (encode_text cps) ?e = (b2, c2)"
    by fastforce
  then have b2: "b2 = rune_offset cps ?e" "cache_ok c2"
    using offset_runes [OF b1(2) assms(2), of ?e] by simp_all
  show ?thesis
    using assms(4,5) order rune_count_runes [OF assms(2,3)] o1 o2 b1 b2
    by (auto simp: push_remove_by_runes_def i64_result_def Let_def rune_offset_split)
qed

subsection \<open>Searching\<close>

lemma rune_numbers_inject:
  assumes "rune_numbers n = rune_numbers m" and "rune_number n" and "rune_number m"
  shows "n = m"
proof -
  note p = base64_parts [of n] and q = base64_parts [of m]
  have big: "n = 4096 * (n div 4096) + 64 * (n div 64 mod 64) + n mod 64" "m = 4096 * (m div 4096) + 64 * (m div 64 mod 64) + m mod 64"
    "n = 64 * (n div 64) + n mod 64" "m = 64 * (m div 64) + m mod 64"
    using p q by linarith+
  show ?thesis
    using assms(1) unfolding rune_numbers_def
    by (simp split: if_splits) (use big p(1) q(1) in metis)+
qed

lemma push_unique:
  assumes "push_string_from_codepoint cp @ x = push_string_from_codepoint cp' @ y" and "scalar cp" and "scalar cp'"
  shows "cp = cp' \<and> x = y"
proof -
  have "length (push_string_from_codepoint cp) = length (push_string_from_codepoint cp')"
    using next_index_character(1) [OF assms(2), of x] next_index_character(1) [OF assms(3), of y] assms(1) by simp
  then have eq: "push_string_from_codepoint cp = push_string_from_codepoint cp'" "x = y"
    using assms(1) by simp_all
  then have "unat cp = unat cp'"
    using codepoint_bytes [OF assms(2)] codepoint_bytes [OF assms(3)] assms(2,3) rune_numbers_inject
    by (simp add: scalar_rune_number)
  with eq(2) show ?thesis
    by (simp add: word_unat_eq_iff)
qed

lemma prefix_encode:
  assumes "\<forall>cp \<in> set ps. scalar cp" and "\<forall>cp \<in> set cps. scalar cp"
  shows "prefix (encode_text ps) (encode_text cps) \<longleftrightarrow> prefix ps cps"
proof
  assume "prefix ps cps"
  then show "prefix (encode_text ps) (encode_text cps)"
    by (auto simp: prefix_def)
next
  show "prefix (encode_text ps) (encode_text cps) \<Longrightarrow> prefix ps cps"
    using assms
  proof (induction ps arbitrary: cps)
    case (Cons cp ps)
    then obtain z where z: "encode_text cps = push_string_from_codepoint cp @ encode_text ps @ z" and sc: "scalar cp"
      by (auto simp: prefix_def)
    obtain c0 cs where "push_string_from_codepoint cp = c0 # cs"
      using codepoint_split [OF sc] by blast
    with z obtain cp' cps' where cps: "cps = cp' # cps'"
      by (cases cps) auto
    then have "cp' = cp \<and> encode_text cps' = encode_text ps @ z"
      using z push_unique [of cp' "encode_text cps'" cp "encode_text ps @ z"] sc Cons.prems(3) by simp
    with cps Cons show ?case
      by auto
  qed simp
qed

lemma prefix_take: "prefix xs ys \<longleftrightarrow> take (length xs) ys = xs"
  by (metis append_eq_conv_conj prefix_def take_is_prefix)

text \<open>Where a list of code points begins in another, from a position on; \<open>- 1\<close> when nowhere.\<close>

definition rune_find :: "u32 list \<Rightarrow> u32 list \<Rightarrow> nat \<Rightarrow> int" where
  "rune_find cps ps start =
     (case find (\<lambda>i. prefix ps (drop i cps)) [start..<Suc (length cps)] of None \<Rightarrow> - 1 | Some i \<Rightarrow> int i)"

lemma rune_find_none:
  assumes "\<forall>i \<ge> start. \<not> prefix ps (drop i cps)"
  shows "rune_find cps ps start = - 1"
proof -
  have "find (\<lambda>i. prefix ps (drop i cps)) [start..<Suc (length cps)] = None"
    using assms by (auto simp: find_None_iff)
  then show ?thesis
    by (simp add: rune_find_def)
qed

lemma rune_find_step:
  assumes "start \<le> length cps"
  shows "rune_find cps ps start = (if prefix ps (drop start cps) then int start else rune_find cps ps (Suc start))"
  using assms by (simp add: rune_find_def upt_conv_Cons)

lemma prefix_fits: "prefix ps (drop i cps) \<Longrightarrow> i \<le> length cps \<Longrightarrow> i + length ps \<le> length cps"
  by (auto dest: prefix_length_le)

lemma find_loop_runes:
  assumes "cache_ok cache" and "\<forall>cp \<in> set cps. scalar cp" and "\<forall>cp \<in> set ps. scalar cp" and "ps \<noteq> []"
    and "c + length ps \<le> length cps"
  shows "fst (find_loop (encode_text cps) (encode_text ps) (length cps - length ps) cache c (rune_offset cps c)) = rune_find cps ps c"
  using assms(1,5)
proof (induction "length cps - c" arbitrary: c cache)
  case 0
  then show ?case
    using assms(4) by (cases ps) auto
next
  case (Suc n)
  let ?s = "encode_text cps" and ?p = "encode_text ps" and ?b = "rune_offset cps c"
  have here: "take (length ?p) (drop ?b ?s) = ?p \<longleftrightarrow> prefix ps (drop c cps)"
    using assms(2,3) in_set_dropD [of _ c cps]
    by (simp add: rune_offset_split prefix_take [symmetric]) (metis prefix_encode)
  have fits: "?b + length ?p \<le> length ?s" if "prefix ps (drop i cps)" "c \<le> i" for i
  proof -
    have "?b \<le> rune_offset cps i"
      using rune_offset_add [of cps c "i - c"] that(2) by simp
    moreover have "length ?p \<le> length (encode_text (drop i cps))"
      using that(1) by (auto simp: prefix_def)
    moreover have "length ?s = rune_offset cps i + length (encode_text (drop i cps))"
      unfolding rune_offset_def by (metis append_take_drop_id encode_text_simps(3) length_append)
    ultimately show ?thesis
      by linarith
  qed
  show ?case
  proof (cases "?b + length ?p \<le> length ?s \<and> \<not> prefix ps (drop c cps) \<and> c < length cps - length ps")
    case True
    obtain b' cache' where o: "utf8_byte_offset_for_rune cache ?s (Suc c) = (b', cache')"
      by fastforce
    then have b': "b' = rune_offset cps (Suc c)" "cache_ok cache'"
      using offset_runes [OF Suc.prems(1) assms(2), of "Suc c"] by simp_all
    have "fst (find_loop ?s ?p (length cps - length ps) cache' (Suc c) b') = rune_find cps ps (Suc c)"
      unfolding b'(1)
    proof (rule Suc.hyps(1) [OF _ b'(2)])
      show "n = length cps - Suc c" and "Suc c + length ps \<le> length cps"
        using Suc.hyps(2) True by linarith+
    qed
    moreover have "c \<le> length cps"
      using True by linarith
    ultimately show ?thesis
      using True here o rune_find_step [of c cps ps] by (subst find_loop.simps) simp
  next
    case False
    then consider "\<not> ?b + length ?p \<le> length ?s" | "?b + length ?p \<le> length ?s" "prefix ps (drop c cps)"
      | "?b + length ?p \<le> length ?s" "\<not> prefix ps (drop c cps)" "c = length cps - length ps"
      using Suc.prems(2) by linarith
    then show ?thesis
    proof cases
      case 1
      then have "\<forall>i \<ge> c. \<not> prefix ps (drop i cps)"
        using fits by blast
      then show ?thesis
        using 1 rune_find_none [of c ps cps] by (subst find_loop.simps) simp
    next
      case 2
      then show ?thesis
        using here Suc.prems(2) rune_find_step [of c cps ps] by (subst find_loop.simps) simp
    next
      case 3
      have "\<not> prefix ps (drop i cps)" if "c \<le> i" for i
        using 3 that prefix_fits [of ps i cps] assms(4) Suc.prems(2)
        by (cases "i \<le> length cps"; cases "i = c") (auto simp: prefix_def)
      then show ?thesis
        using 3 here rune_find_none [of c ps cps] by (subst find_loop.simps) simp
    qed
  qed
qed

text \<open>The search as a whole: the first character position from the (clamped) start at which the pattern stands.\<close>

lemma clamp_le: "clamp_rune_index v n \<le> n"
  by (simp add: clamp_rune_index_def)

lemma rune_find_empty: "rune_find cps [] start = (if start \<le> length cps then int start else - 1)"
  by (simp add: rune_find_def upt_conv_Cons del: upt_Suc)

lemma find_runes:
  assumes "cache_ok cache" and "\<forall>cp \<in> set cps. scalar cp" and "\<forall>cp \<in> set ps. scalar cp"
    and "length cps \<le> SIZE_MAX" and "length ps \<le> SIZE_MAX"
  shows "fst (push_find_by_runes cache (encode_text cps) (encode_text ps) start) =
    rune_find cps ps (clamp_rune_index start (length cps))"
proof -
  let ?c = "clamp_rune_index start (length cps)"
  note runes = rune_count_runes [OF assms(2,4)] rune_count_runes [OF assms(3,5)]
  consider "ps = []" | "ps \<noteq> []" "length cps < ?c + length ps" | "ps \<noteq> []" "?c + length ps \<le> length cps"
    by linarith
  then show ?thesis
  proof cases
    case 1
    then show ?thesis
      using runes clamp_le [of start "length cps"] by (simp add: push_find_by_runes_def rune_find_empty)
  next
    case 2
    have "\<not> prefix ps (drop i cps)" if "?c \<le> i" for i
      using 2 that prefix_fits [of ps i cps] by (cases "i \<le> length cps") auto
    then show ?thesis
      using 2 runes rune_find_none [of ?c ps cps] by (auto simp: push_find_by_runes_def Let_def)
  next
    case 3
    obtain b c where o: "utf8_byte_offset_for_rune cache (encode_text cps) ?c = (b, c)"
      by fastforce
    then have "b = rune_offset cps ?c" "cache_ok c"
      using offset_runes [OF assms(1,2), of ?c] by simp_all
    moreover have "\<not> length cps - length ps < ?c" "\<not> length cps < length ps"
      using 3(2) by linarith+
    ultimately show ?thesis
      using 3 o runes find_loop_runes [of c cps ps ?c] assms(2,3) by (simp add: push_find_by_runes_def Let_def)
  qed
qed



end
