(* ===== verification/Bytes_Instructions.thy ===== *)
theory Bytes_Instructions
  imports Heap_Machine Base64 Utf8
begin

text \<open>
  The instructions for byte blocks of \<open>aivm_step\<close> (\<^verbatim>\<open>src/src/aivm_vm.c\<close>): length, access, slices,
  concatenation, conversion from and to text and base64, and the little-endian fields. What they compute
  is stated on the views of their operands.
\<close>

section \<open>Bytes and texts\<close>

definition text_bytes :: "string \<Rightarrow> bytes" where
  "text_bytes = map (\<lambda>c. of_nat (of_char c))"

definition bytes_text :: "bytes \<Rightarrow> string" where
  "bytes_text = map (\<lambda>b. char_of (unat b))"

text \<open>A size read as an \<^verbatim>\<open>int64_t\<close>.\<close>

definition i64_of_size :: "nat \<Rightarrow> int" where
  "i64_of_size n = (if n \<le> nat INT64_MAX then int n else int n - 2 ^ 64)"

section \<open>Copies\<close>

definition write_bytes :: "nat \<Rightarrow> bytes \<Rightarrow> 'a heap_vm \<Rightarrow> 'a heap_vm" where
  "write_bytes off bs vm = vm\<lparr>vm_bytes_arena := take off (vm_bytes_arena vm) @ bs @ drop (off + length bs) (vm_bytes_arena vm)\<rparr>"

definition copy_bytes_to_arena :: "(nat \<times> nat) option \<Rightarrow> 'a heap_vm \<Rightarrow> bytes option \<Rightarrow> nat \<Rightarrow> nat option \<times> 'a heap_vm" where
  "copy_bytes_to_arena snapshot vm input len =
     (if len = 0 then aivm_bytes_arena_alloc snapshot vm 0
      else case input of
        None \<Rightarrow> (None, vm)
      | Some bs \<Rightarrow>
          (case aivm_bytes_arena_alloc snapshot vm len of
             (None, vm) \<Rightarrow> (None, vm)
           | (Some off, vm) \<Rightarrow> (Some off, write_bytes off (take len bs) vm)))"

text \<open>The pushes answer whether they succeeded. A failed copy of no bytes pushes a null pointer.\<close>

definition push_bytes_copy :: "(nat \<times> nat) option \<Rightarrow> 'a heap_vm \<Rightarrow> bytes option \<Rightarrow> nat \<Rightarrow> unit option \<times> 'a heap_vm" where
  "push_bytes_copy snapshot vm input len =
     (case copy_bytes_to_arena snapshot vm input len of
        (None, vm) \<Rightarrow> if len > 0 then (None, vm) else aivm_stack_push vm (ValBytes BNull len)
      | (Some off, vm) \<Rightarrow> aivm_stack_push vm (ValBytes (BArena off) len))"

definition push_string_copy ::
  "(nat \<Rightarrow> bool) \<Rightarrow> nat \<Rightarrow> (nat \<times> nat) option \<Rightarrow> 'a heap_vm \<Rightarrow> cptr \<Rightarrow> unit option \<times> 'a heap_vm" where
  "push_string_copy alloc block snapshot vm input =
     (case aivm_vm_copy_string_to_arena alloc block snapshot vm input of
        (None, vm) \<Rightarrow> (None, vm)
      | (Some off, vm) \<Rightarrow> aivm_stack_push vm (ValString (CArena off)))"

text \<open>This copy does not enter the interning index.\<close>

definition push_string_bytes_copy ::
  "(nat \<Rightarrow> bool) \<Rightarrow> nat \<Rightarrow> (nat \<times> nat) option \<Rightarrow> 'a heap_vm \<Rightarrow> bytes \<Rightarrow> unit option \<times> 'a heap_vm" where
  "push_string_bytes_copy alloc block snapshot vm input =
     (case aivm_size_add_checked (length input) 1 of
        None \<Rightarrow> (None, vm)
      | Some n \<Rightarrow>
          (case aivm_string_arena_alloc alloc block snapshot vm n of
             (None, vm) \<Rightarrow> (None, vm)
           | (Some off, vm) \<Rightarrow> aivm_stack_push (write_text off (bytes_text input) vm) (ValString (CArena off))))"

definition advance_after :: "AivmProgram \<Rightarrow> unit option \<times> 'a vm \<Rightarrow> 'a vm option" where
  "advance_after p r = or_park p r (\<lambda>_ vm. Some (advance vm))"

section \<open>The instructions\<close>

definition op_bytes_length :: "AivmProgram \<Rightarrow> 'a heap_vm \<Rightarrow> 'a heap_vm option" where
  "op_bytes_length p vm =
     or_park p (aivm_stack_pop vm) (\<lambda>bytes_value vm.
       case bytes_value of
         ValBytes data len \<Rightarrow> push_and_advance p vm (ValInt (i64_of_size len))
       | _ \<Rightarrow> fail_with p vm AIVM_VM_ERR_TYPE_MISMATCH ''BYTES_LENGTH requires bytes operand.'')"

definition op_bytes_at :: "AivmProgram \<Rightarrow> 'a heap_vm \<Rightarrow> 'a heap_vm option" where
  "op_bytes_at p vm =
     or_park p (aivm_stack_pop vm) (\<lambda>index_value vm.
     or_park p (aivm_stack_pop vm) (\<lambda>bytes_value vm.
       case (bytes_value, index_value) of
         (ValBytes data len, ValInt index) \<Rightarrow>
           push_and_advance p vm (ValInt
             (if index < 0 \<or> nat index \<ge> len then - 1
              else case bptr_data (vm_bytes_arena vm) data len of None \<Rightarrow> - 1 | Some bs \<Rightarrow> uint (bs ! nat index)))
       | _ \<Rightarrow> fail_with p vm AIVM_VM_ERR_TYPE_MISMATCH ''BYTES_AT requires (bytes,int).''))"

text \<open>The bounds of a slice; the sum wraps around.\<close>

definition slice_start :: "int \<Rightarrow> nat \<Rightarrow> nat" where
  "slice_start v len = (if v \<le> 0 then 0 else if nat v \<ge> len then len else nat v)"

definition slice_end :: "nat \<Rightarrow> int \<Rightarrow> nat \<Rightarrow> nat" where
  "slice_end lo v len =
     (let n = (lo + (if v \<le> 0 then 0 else nat v)) mod (SIZE_MAX + 1) in if n < lo \<or> n > len then len else n)"

definition op_bytes_slice :: "(nat \<times> nat) option \<Rightarrow> AivmProgram \<Rightarrow> 'a heap_vm \<Rightarrow> 'a heap_vm option" where
  "op_bytes_slice snapshot p vm =
     or_park p (aivm_stack_pop vm) (\<lambda>length_value vm.
     or_park p (aivm_stack_pop vm) (\<lambda>start_value vm.
     or_park p (aivm_stack_pop vm) (\<lambda>bytes_value vm.
       case (bytes_value, start_value, length_value) of
         (ValBytes data len, ValInt s, ValInt l) \<Rightarrow>
           (let lo = slice_start s len; hi = slice_end lo l len in
            advance_after p
              (case (if lo \<ge> hi then None else bptr_data (vm_bytes_arena vm) data len) of
                 None \<Rightarrow> push_bytes_copy snapshot vm None 0
               | Some bs \<Rightarrow> push_bytes_copy snapshot vm (Some (drop lo bs)) (hi - lo)))
       | _ \<Rightarrow> fail_with p vm AIVM_VM_ERR_TYPE_MISMATCH ''BYTES_SLICE requires (bytes,int,int).'')))"

text \<open>One operand of a concatenation, at its place in the new block.\<close>

definition concat_part :: "string \<Rightarrow> bptr \<Rightarrow> nat \<Rightarrow> nat \<Rightarrow> 'a heap_vm \<Rightarrow> unit option \<times> 'a heap_vm" where
  "concat_part detail data len off vm =
     (if len = 0 then (Some (), vm)
      else case bptr_data (vm_bytes_arena vm) data len of
        None \<Rightarrow> (None, aivm_set_vm_error vm AIVM_VM_ERR_TYPE_MISMATCH detail)
      | Some bs \<Rightarrow> (Some (), write_bytes off bs vm))"

definition op_bytes_concat :: "(nat \<times> nat) option \<Rightarrow> AivmProgram \<Rightarrow> 'a heap_vm \<Rightarrow> 'a heap_vm option" where
  "op_bytes_concat snapshot p vm =
     or_park p (aivm_stack_pop vm) (\<lambda>right_value vm.
     or_park p (aivm_stack_pop vm) (\<lambda>left_value vm.
       case (left_value, right_value) of
         (ValBytes left ll, ValBytes right rl) \<Rightarrow>
           (case aivm_size_add_checked ll rl of
              None \<Rightarrow> fail_with p vm AIVM_VM_ERR_MEMORY_PRESSURE ''AIVMM002: bytes arena capacity exceeded.''
            | Some total_length \<Rightarrow>
                or_park p (aivm_bytes_arena_alloc snapshot vm total_length) (\<lambda>off vm.
                or_park p (concat_part ''BYTES_CONCAT requires non-null left bytes data.'' left ll off vm) (\<lambda>_ vm.
                or_park p (concat_part ''BYTES_CONCAT requires non-null right bytes data.'' right rl (off + ll) vm) (\<lambda>_ vm.
                  push_and_advance p vm (ValBytes (BArena off) total_length)))))
       | _ \<Rightarrow> fail_with p vm AIVM_VM_ERR_TYPE_MISMATCH ''BYTES_CONCAT requires (bytes,bytes).''))"

definition op_bytes_from_utf8_string :: "(nat \<times> nat) option \<Rightarrow> AivmProgram \<Rightarrow> 'a heap_vm \<Rightarrow> 'a heap_vm option" where
  "op_bytes_from_utf8_string snapshot p vm =
     or_park p (aivm_stack_pop vm) (\<lambda>text_value vm.
       case string_operand vm text_value of
         None \<Rightarrow> fail_with p vm AIVM_VM_ERR_TYPE_MISMATCH ''BYTES_FROM_UTF8_STRING requires string operand.''
       | Some str \<Rightarrow> advance_after p (push_bytes_copy snapshot vm (Some (text_bytes str)) (length str)))"

definition op_bytes_to_utf8_string ::
  "(nat \<Rightarrow> bool) \<Rightarrow> nat \<Rightarrow> (nat \<times> nat) option \<Rightarrow> AivmProgram \<Rightarrow> 'a heap_vm \<Rightarrow> 'a heap_vm option" where
  "op_bytes_to_utf8_string alloc block snapshot p vm =
     or_park p (aivm_stack_pop vm) (\<lambda>bytes_value vm.
       case bytes_value of
         ValBytes data len \<Rightarrow>
           if len = 0 then advance_after p (push_string_copy alloc block snapshot vm (CExt ''''))
           else (case bptr_data (vm_bytes_arena vm) data len of
              None \<Rightarrow> fail_with p vm AIVM_VM_ERR_TYPE_MISMATCH ''BYTES_TO_UTF8_STRING requires non-null bytes data.''
            | Some bs \<Rightarrow>
                if \<not> aivm_bytes_is_valid_utf8_without_nul (Some bs) len
                then advance_after p (push_string_copy alloc block snapshot vm (CExt ''''))
                else advance_after p (push_string_bytes_copy alloc block snapshot vm bs))
       | _ \<Rightarrow> fail_with p vm AIVM_VM_ERR_TYPE_MISMATCH ''BYTES_TO_UTF8_STRING requires bytes operand.'')"

definition op_bytes_from_base64 :: "(nat \<times> nat) option \<Rightarrow> AivmProgram \<Rightarrow> 'a heap_vm \<Rightarrow> 'a heap_vm option" where
  "op_bytes_from_base64 snapshot p vm =
     or_park p (aivm_stack_pop vm) (\<lambda>text_value vm.
       let invalid = (\<lambda>vm. fail_with p vm AIVM_VM_ERR_INVALID_PROGRAM ''BYTES_FROM_BASE64 invalid base64 input.'') in
       case string_operand vm text_value of
         None \<Rightarrow> fail_with p vm AIVM_VM_ERR_TYPE_MISMATCH ''BYTES_FROM_BASE64 requires string operand.''
       | Some str \<Rightarrow>
           (case aivm_bytes_from_base64 (Some str) None of
              None \<Rightarrow> invalid vm
            | Some (_, output_length) \<Rightarrow>
                or_park p (aivm_bytes_arena_alloc snapshot vm output_length) (\<lambda>off vm.
                  case aivm_bytes_from_base64 (Some str) (Some output_length) of
                    None \<Rightarrow> invalid vm
                  | Some (out, output_length) \<Rightarrow>
                      push_and_advance p (write_bytes off out vm) (ValBytes (BArena off) output_length))))"

definition op_bytes_to_base64 ::
  "(nat \<Rightarrow> bool) \<Rightarrow> nat \<Rightarrow> (nat \<times> nat) option \<Rightarrow> AivmProgram \<Rightarrow> 'a heap_vm \<Rightarrow> 'a heap_vm option" where
  "op_bytes_to_base64 alloc block snapshot p vm =
     or_park p (aivm_stack_pop vm) (\<lambda>bytes_value vm.
       let too_long = (\<lambda>vm. fail_with p vm AIVM_VM_ERR_MEMORY_PRESSURE ''AIVMM001: string arena capacity exceeded.'') in
       case bytes_value of
         ValBytes data len \<Rightarrow>
           let input = bptr_data (vm_bytes_arena vm) data len in
           if len > 0 \<and> input = None
           then fail_with p vm AIVM_VM_ERR_TYPE_MISMATCH ''BYTES_TO_BASE64 requires non-null bytes data.''
           else if len > (SIZE_MAX - 2) div 3 then too_long vm
           else (case aivm_size_add_checked ((len + 2) div 3 * 4) 1 of
              None \<Rightarrow> too_long vm
            | Some output_capacity \<Rightarrow>
                or_park p (aivm_string_arena_alloc alloc block snapshot vm output_capacity) (\<lambda>off vm.
                  case aivm_bytes_to_base64 input len (Some output_capacity) of
                    None \<Rightarrow> fail_with p vm AIVM_VM_ERR_INVALID_PROGRAM ''BYTES_TO_BASE64 failed.''
                  | Some str \<Rightarrow> push_and_advance p (write_text off str vm) (ValString (CArena off))))
       | _ \<Rightarrow> fail_with p vm AIVM_VM_ERR_TYPE_MISMATCH ''BYTES_TO_BASE64 requires bytes operand.'')"

text \<open>The integer fields: which integers are accepted, and their bytes.\<close>

definition op_bytes_of_int ::
  "(int \<Rightarrow> bool) \<Rightarrow> (int \<Rightarrow> bytes) \<Rightarrow> string \<Rightarrow> (nat \<times> nat) option \<Rightarrow> AivmProgram \<Rightarrow> 'a heap_vm \<Rightarrow> 'a heap_vm option" where
  "op_bytes_of_int accepts encode detail snapshot p vm =
     or_park p (aivm_stack_pop vm) (\<lambda>v vm.
       case v of
         ValInt i \<Rightarrow>
           if accepts i then advance_after p (push_bytes_copy snapshot vm (Some (encode i)) (length (encode i)))
           else fail_with p vm AIVM_VM_ERR_TYPE_MISMATCH detail
       | _ \<Rightarrow> fail_with p vm AIVM_VM_ERR_TYPE_MISMATCH detail)"

definition encoded_field :: "nat \<Rightarrow> int \<Rightarrow> bytes" where
  "encoded_field n i = map (\<lambda>k. ucast (drop_bit (8 * k) (word_of_int i :: u64) AND 0xFF)) [0..<n]"

definition op_bytes_from_byte :: "(nat \<times> nat) option \<Rightarrow> AivmProgram \<Rightarrow> 'a heap_vm \<Rightarrow> 'a heap_vm option" where
  "op_bytes_from_byte = op_bytes_of_int (\<lambda>i. 0 \<le> i \<and> i \<le> 255) (\<lambda>i. [word_of_int i]) ''BYTES_FROM_BYTE requires int in range 0..255.''"

definition op_bytes_u32_le :: "(nat \<times> nat) option \<Rightarrow> AivmProgram \<Rightarrow> 'a heap_vm \<Rightarrow> 'a heap_vm option" where
  "op_bytes_u32_le =
     op_bytes_of_int (\<lambda>i. 0 \<le> i \<and> i \<le> 0xFFFFFFFF) (encoded_field 4) ''BYTES_U32_LE requires int in range 0..4294967295.''"

definition op_bytes_i64_le :: "(nat \<times> nat) option \<Rightarrow> AivmProgram \<Rightarrow> 'a heap_vm \<Rightarrow> 'a heap_vm option" where
  "op_bytes_i64_le = op_bytes_of_int (\<lambda>i. True) (encoded_field 8) ''BYTES_I64_LE requires int operand.''"

definition bytes_ops ::
  "(nat \<Rightarrow> bool) \<Rightarrow> nat \<Rightarrow> (nat \<times> nat) option \<Rightarrow> AivmProgram \<Rightarrow>
   (AivmInstruction \<Rightarrow> 'a heap_vm \<Rightarrow> 'a heap_vm option) \<Rightarrow> AivmInstruction \<Rightarrow> 'a heap_vm \<Rightarrow> 'a heap_vm option" where
  "bytes_ops alloc block snapshot p rest i vm =
     (let c = opcode i in
      if c = AIVM_OP_BYTES_LENGTH then op_bytes_length p vm
      else if c = AIVM_OP_BYTES_AT then op_bytes_at p vm
      else if c = AIVM_OP_BYTES_SLICE then op_bytes_slice snapshot p vm
      else if c = AIVM_OP_BYTES_CONCAT then op_bytes_concat snapshot p vm
      else if c = AIVM_OP_BYTES_FROM_UTF8_STRING then op_bytes_from_utf8_string snapshot p vm
      else if c = AIVM_OP_BYTES_TO_UTF8_STRING then op_bytes_to_utf8_string alloc block snapshot p vm
      else if c = AIVM_OP_BYTES_FROM_BASE64 then op_bytes_from_base64 snapshot p vm
      else if c = AIVM_OP_BYTES_TO_BASE64 then op_bytes_to_base64 alloc block snapshot p vm
      else if c = AIVM_OP_BYTES_FROM_BYTE then op_bytes_from_byte snapshot p vm
      else if c = AIVM_OP_BYTES_U32_LE then op_bytes_u32_le snapshot p vm
      else if c = AIVM_OP_BYTES_I64_LE then op_bytes_i64_le snapshot p vm
      else rest i vm)"

section \<open>Allocation of bytes\<close>

definition bytes_grown :: "bytes \<Rightarrow> 'a heap_vm \<Rightarrow> 'a heap_vm \<Rightarrow> bool" where
  "bytes_grown t vm vm' \<longleftrightarrow>
     (\<exists>suspended limit counters. vm' = vm\<lparr>vm_host_memory_growth_suspended := suspended, vm_bytes_arena := vm_bytes_arena vm @ t,
        vm_bytes_arena_limit := limit, vm_heap_counters := counters\<rparr>)"

lemma bytes_grownI:
  "bytes_grown t vm (vm\<lparr>vm_host_memory_growth_suspended := suspended, vm_bytes_arena_limit := limit,
     vm_bytes_arena := vm_bytes_arena vm @ t, vm_heap_counters := counters\<rparr>)"
  unfolding bytes_grown_def by (intro exI [of _ suspended] exI [of _ limit] exI [of _ counters]) simp

lemma bytes_grown_fields:
  assumes "bytes_grown t vm vm'"
  shows "same_control vm vm'" and "no_new_error vm vm'" and "vm_bytes_arena vm' = vm_bytes_arena vm @ t" and "root_list vm' = root_list vm"
    and "vm_string_arena vm' = vm_string_arena vm" and "vm_stack vm' = vm_stack vm"
    and "aivm_vm_lookup_scratch_pair vm' = aivm_vm_lookup_scratch_pair vm" and "aivm_vm_lookup_node vm' = aivm_vm_lookup_node vm"
    and "node_children vm' = node_children vm" and "node_attrs vm' = node_attrs vm" and "heap_closed vm' = heap_closed vm"
    and "string_arena_ok vm' = string_arena_ok vm" and "vm_nodes vm' = vm_nodes vm" and "vm_scratch_pairs vm' = vm_scratch_pairs vm"
  using assms unfolding bytes_grown_def
  by (auto simp: same_control_def no_new_error_def root_list_def root_values_def local_values_def fixed_handles_def builder_handles_def
      aivm_vm_lookup_scratch_pair_def aivm_vm_lookup_node_def node_children_def node_attrs_def heap_closed_def node_shape_ok_def
      string_arena_ok_def index_ok_def fun_eq_iff)

lemma bptr_data_append: "data_ok arena d len \<Longrightarrow> bptr_data (arena @ t) d len = bptr_data arena d len"
  by (cases d) (auto simp: data_ok_def)

lemma bytes_grown_value:
  assumes "bytes_grown t vm vm'" and "sound vm v"
  shows "sound vm' v" and "value_view n vm' v = value_view n vm v"
proof -
  note f = bytes_grown_fields [OF assms(1)]
  have ok: "value_ok vm' u" if "value_ok vm u" for u
    using that by (cases u) (auto simp: f data_ok_def node_texts_def)
  have r: "reach vm' {v} u = reach vm {v} u" for u
  proof
    show "reach vm {v} u" if "reach vm' {v} u"
      using that by (induction rule: reach.induct) (auto simp: f intro: reach.intros)
    show "reach vm' {v} u" if "reach vm {v} u"
      using that by (induction rule: reach.induct) (auto simp: f intro: reach.intros)
  qed
  show "sound vm' v"
    using assms(2) ok by (simp add: sound_def r)
  show "value_view n vm' v = value_view n vm v"
    using assms(2)
  proof (induction n arbitrary: v)
    case 0
    then show ?case
      using sound_value_ok [of vm v] by (cases v) (auto simp: f(3,5) data_view_def bptr_data_append)
  next
    case (Suc n)
    then show ?case
      using sound_value_ok [of vm v] sound_parts [of vm]
      by (cases v) (auto simp: f(3,5,7-10) data_view_def bptr_data_append split: option.split)
  qed
qed

lemma bytes_grown_kept: "collectable vm \<Longrightarrow> bytes_grown t vm vm' \<Longrightarrow> kept vm vm'"
proof -
  assume c: "collectable vm" and g: "bytes_grown t vm vm'"
  note f = bytes_grown_fields [OF g]
  have all: "\<forall>u \<in> set (root_list vm). sound vm u"
    using c by (simp add: root_list_set collectable_def heap_ok_sound)
  have "same_views vm vm'"
    using all bytes_grown_value(2) [OF g] by (auto simp: same_views_def f list_all2_same)
  moreover have "\<forall>u \<in> gc_roots vm' []. sound vm' u"
    using all bytes_grown_value(1) [OF g] unfolding root_list_set [symmetric] f(4) by blast
  ultimately show "kept vm vm'"
    using c f by (simp add: kept_def collectable_def heap_ok_sound)
qed

lemma bytes_grown_write:
  assumes "bytes_grown t vm vm'" and "k + length bs \<le> length t"
  shows "bytes_grown (take k t @ bs @ drop (k + length bs) t) vm (write_bytes (vm_bytes_arena_used vm + k) bs vm')"
proof -
  obtain suspended limit counters where vm': "vm' = vm\<lparr>vm_host_memory_growth_suspended := suspended, vm_bytes_arena := vm_bytes_arena vm @ t,
      vm_bytes_arena_limit := limit, vm_heap_counters := counters\<rparr>"
    using assms(1) by (auto simp: bytes_grown_def)
  show ?thesis
    unfolding bytes_grown_def using assms(2)
    by (intro exI [of _ suspended] exI [of _ limit] exI [of _ counters]) (simp add: vm' write_bytes_def)
qed

lemma ensure_bytes_result:
  "ensure_bytes_arena_capacity snapshot needed vm = (ok, vm') \<Longrightarrow>
     (\<exists>suspended limit. vm' = vm\<lparr>vm_host_memory_growth_suspended := suspended, vm_bytes_arena_limit := limit\<rparr>) \<or>
     \<not> ok \<and> same_control vm vm' \<and> error_state vm'"
proof (induction snapshot needed vm arbitrary: ok vm' rule: ensure_bytes_arena_capacity.induct)
  case (1 snapshot needed vm)
  let ?next = "arena_grow_limit (vm_bytes_arena_limit vm) AIVM_VM_BYTES_ARENA_GROWTH_STEP (vm_bytes_arena_capacity vm)"
  let ?adm = "aivm_vm_admit_host_memory_growth snapshot vm (?next - vm_bytes_arena_limit vm)"
  show ?case
  proof (cases "needed > vm_bytes_arena_limit vm \<and> vm_bytes_arena_limit vm < vm_bytes_arena_capacity vm")
    case True
    obtain susp where "?adm = (True, vm\<lparr>vm_host_memory_growth_suspended := susp\<rparr>) \<or>
        ?adm = (False, growth_refused (vm\<lparr>vm_host_memory_growth_suspended := susp\<rparr>))"
      using admit_result [of snapshot vm "?next - vm_bytes_arena_limit vm"] by blast
    then show ?thesis
    proof
      assume adm: "?adm = (True, vm\<lparr>vm_host_memory_growth_suspended := susp\<rparr>)"
      let ?vm1 = "vm\<lparr>vm_host_memory_growth_suspended := susp, vm_bytes_arena_limit := ?next\<rparr>"
      have "ensure_bytes_arena_capacity snapshot needed ?vm1 = (ok, vm')"
        using 1(2) True adm by (subst (asm) ensure_bytes_arena_capacity.simps) (simp add: Let_def)
      from 1(1) [OF True HOL.refl adm [symmetric] HOL.refl, simplified, OF this] show ?thesis
        by (auto simp: same_control_def)
    next
      assume adm: "?adm = (False, growth_refused (vm\<lparr>vm_host_memory_growth_suspended := susp\<rparr>))"
      then have "ok = False" "vm' = growth_refused (vm\<lparr>vm_host_memory_growth_suspended := susp\<rparr>)"
        using 1(2) True by (subst (asm) ensure_bytes_arena_capacity.simps, simp add: Let_def)+
      then show ?thesis
        by (simp add: growth_refused_def) (simp add: same_control_def)
    qed
  next
    case False
    then have "vm' = vm"
      using 1(2) by (subst (asm) ensure_bytes_arena_capacity.simps) auto
    then show ?thesis
      by (intro disjI1 exI [of _ "vm_host_memory_growth_suspended vm"] exI [of _ "vm_bytes_arena_limit vm"]) simp
  qed
qed

lemma bytes_alloc_result:
  assumes "aivm_bytes_arena_alloc snapshot vm n = (r, vm')"
  shows "case r of None \<Rightarrow> failed vm vm' | Some off \<Rightarrow> off = vm_bytes_arena_used vm \<and> bytes_grown (replicate n 0) vm vm'"
proof -
  have pr: "same_control vm (bytes_pressure vm)" "no_new_error vm (bytes_pressure vm)" for vm :: "'a heap_vm"
    by (simp_all add: bytes_pressure_def same_control_def no_new_error_def)
  have fails: "failed vm (raise_unless_error detail (bytes_pressure vm1))"
    if "same_control vm vm1" "no_new_error vm vm1 \<or> error_state vm1" for vm1 detail
  proof -
    have "same_control vm (bytes_pressure vm1)" "vm_status (bytes_pressure vm1) = vm_status vm1"
      "no_new_error vm (bytes_pressure vm1) \<or> error_state (bytes_pressure vm1)"
      using that by (auto simp: bytes_pressure_def same_control_def no_new_error_def error_state_def)
    then show ?thesis
      by (simp add: raise_unless_error_def failed_def)
  qed
  show ?thesis
  proof (cases "aivm_size_add_checked (vm_bytes_arena_used vm) n")
    case None
    then show ?thesis
      using assms fails [of vm] set_error_failed [of AIVM_VM_ERR_MEMORY_PRESSURE "bytes_pressure vm"] failed_trans [OF pr]
      by (auto simp: aivm_bytes_arena_alloc_def Let_def simp del: size_add_checked_None)
  next
    case (Some needed)
    obtain ok vm1 where 1: "(if needed > vm_bytes_arena_limit vm then ensure_bytes_arena_capacity snapshot needed vm else (True, vm)) = (ok, vm1)"
      by fastforce
    have c: "(\<exists>suspended limit. vm1 = vm\<lparr>vm_host_memory_growth_suspended := suspended, vm_bytes_arena_limit := limit\<rparr>) \<or>
        \<not> ok \<and> same_control vm vm1 \<and> error_state vm1"
    proof (cases "needed > vm_bytes_arena_limit vm")
      case False
      then show ?thesis
        using 1 by (intro disjI1 exI [of _ "vm_host_memory_growth_suspended vm"] exI [of _ "vm_bytes_arena_limit vm"]) simp
    next
      case True
      then show ?thesis
        using 1 by (intro ensure_bytes_result) simp
    qed
    show ?thesis
    proof (cases ok)
      case True
      then show ?thesis
        using assms Some 1 c by (auto simp: aivm_bytes_arena_alloc_def Let_def bytes_grownI simp del: size_add_checked_Some)
    next
      case False
      have "same_control vm vm1" "no_new_error vm vm1 \<or> error_state vm1"
        using c by (auto simp: same_control_def no_new_error_def)
      then show ?thesis
        using assms Some 1 False fails by (auto simp: aivm_bytes_arena_alloc_def Let_def simp del: size_add_checked_Some)
    qed
  qed
qed

section \<open>Pushing a new value\<close>

lemma advance_after_push: "advance_after p (aivm_stack_push vm v) = push_and_advance p vm v"
  by (simp add: advance_after_def push_and_advance_def)

lemma park_failed: "failed vm1 vm' \<Longrightarrow> running_ok p vm1 \<Longrightarrow> gives p vm k vw (advance_after p (None, vm'))"
  using gives_failed [of p vm1 vm' vm k vw] by (simp add: advance_after_def or_park_def)

lemma popped_running: "heap_state p vm \<Longrightarrow> running_ok p (popped k vm)" "heap_state p vm \<Longrightarrow> collectable (popped k vm)"
  by (simp_all add: heap_state_def running_popped collectable_popped)

lemma grown_pushed:
  assumes "heap_state p vm" and "0 < k" and "k \<le> vm_stack_count vm" and "bytes_grown bs (popped k vm) vm1"
  shows "gives p vm k (\<lambda>_. VData (Some bs)) (push_and_advance p vm1 (ValBytes (BArena (vm_bytes_arena_used vm)) (length bs)))"
proof -
  have a: "vm_bytes_arena vm1 = vm_bytes_arena vm @ bs"
    using bytes_grown_fields(3) [OF assms(4)] by (simp add: popped_def)
  then have "sound vm1 (ValBytes (BArena (vm_bytes_arena_used vm)) (length bs))"
    by (intro sound_leaf) (auto simp: data_ok_def)
  then show ?thesis
    using bytes_grown_kept [OF popped_running(2) [OF assms(1)] assms(4)] a
    by (intro gives_push [OF assms(1-3)]) (auto simp: data_view_def)
qed

lemma bytes_pushed:
  assumes "heap_state p vm" and "0 < k" and "k \<le> vm_stack_count vm" and "len \<le> length bs"
  shows "gives p vm k (\<lambda>_. VData (Some (take len bs))) (advance_after p (push_bytes_copy snapshot (popped k vm) (Some bs) len))"
proof -
  obtain r vm1 where 1: "aivm_bytes_arena_alloc snapshot (popped k vm) len = (r, vm1)"
    by fastforce
  note al = bytes_alloc_result [OF 1]
  show ?thesis
  proof (cases r)
    case None
    then have f: "failed (popped k vm) vm1"
      using al by simp
    show ?thesis
    proof (cases "len = 0")
      case True
      have "running_ok p vm1" "vm_status vm1 = AIVM_VM_STATUS_ERROR"
        using failed_running [OF popped_running(1) [OF assms(1)] f] f by (simp_all add: failed_def)
      then show ?thesis
        using 1 None True by (simp add: push_bytes_copy_def copy_bytes_to_arena_def advance_after_push gives_push_failed)
    next
      case False
      then show ?thesis
        using 1 None park_failed [OF f popped_running(1) [OF assms(1)]] by (simp add: push_bytes_copy_def copy_bytes_to_arena_def)
    qed
  next
    case (Some off)
    then have off: "off = vm_bytes_arena_used vm" and g: "bytes_grown (replicate len 0) (popped k vm) vm1"
      using al by (simp_all add: popped_def)
    have "bytes_grown (take len bs) (popped k vm) (write_bytes off (take len bs) vm1)"
      using bytes_grown_write [OF g, of 0 "take len bs"] assms(4) off by (simp add: popped_def)
    from grown_pushed [OF assms(1-3) this] assms(4)
    have pos: "gives p vm k (\<lambda>_. VData (Some (take len bs)))
        (push_and_advance p (write_bytes off (take len bs) vm1) (ValBytes (BArena off) len))"
      by (simp add: off min_absorb2)
    show ?thesis
    proof (cases "len = 0")
      case True
      then show ?thesis
        using 1 Some grown_pushed [OF assms(1-3) g] off by (simp add: push_bytes_copy_def copy_bytes_to_arena_def advance_after_push)
    next
      case False
      then show ?thesis
        using 1 Some pos by (simp add: push_bytes_copy_def copy_bytes_to_arena_def advance_after_push)
    qed
  qed
qed

lemma no_bytes_pushed:
  assumes "heap_state p vm" and "0 < k" and "k \<le> vm_stack_count vm"
  shows "gives p vm k (\<lambda>_. VData (Some [])) (advance_after p (push_bytes_copy snapshot (popped k vm) None 0))"
  using bytes_pushed [OF assms, of 0 "[]" snapshot] by (simp add: push_bytes_copy_def copy_bytes_to_arena_def)

lemma text_pushed:
  assumes "heap_state p vm" and "0 < k" and "k \<le> vm_stack_count vm" and "kept (popped k vm) vm1" and "text_stored vm1 off str"
  shows "gives p vm k (\<lambda>_. VText (Some str)) (push_and_advance p vm1 (ValString (CArena off)))"
  using text_stored_value [OF assms(5)]
  by (intro gives_push [OF assms(1-4)]) (simp_all add: sound_leaf)

lemma string_copy_pushed:
  assumes "heap_state p vm" and "0 < k" and "k \<le> vm_stack_count vm"
    and "copy_outcome (popped k vm) str (aivm_vm_copy_string_to_arena alloc block snapshot (popped k vm) q)"
  shows "gives p vm k (\<lambda>_. VText (Some str)) (advance_after p (push_string_copy alloc block snapshot (popped k vm) q))"
proof -
  obtain r vm1 where 1: "aivm_vm_copy_string_to_arena alloc block snapshot (popped k vm) q = (r, vm1)"
    by fastforce
  show ?thesis
    using assms(4) 1 text_pushed [OF assms(1-3)] park_failed [OF _ popped_running(1) [OF assms(1)]]
    by (cases r) (simp_all add: push_string_copy_def copy_outcome_def advance_after_push)
qed

lemma empty_text_pushed:
  assumes "heap_state p vm" and "0 < k" and "k \<le> vm_stack_count vm"
  shows "gives p vm k (\<lambda>_. VText (Some [])) (advance_after p (push_string_copy alloc block snapshot (popped k vm) (CExt [])))"
  by (intro string_copy_pushed [OF assms] copy_string_outcome popped_running(2) [OF assms(1)])
    (simp_all add: c_string_def cstring_ok_def SIZE_MAX_def)

text \<open>Text written into freshly allocated bytes of the string arena.\<close>

lemma new_text_pushed:
  assumes "heap_state p vm" and "0 < k" and "k \<le> vm_stack_count vm" and "CHR 0x00 \<notin> set str"
    and "aivm_string_arena_alloc alloc block snapshot (popped k vm) (length str + 1) = (r, vm1)"
  shows "case r of None \<Rightarrow> gives p vm k vw (Some (park p vm1))
    | Some off \<Rightarrow> gives p vm k (\<lambda>_. VText (Some str)) (push_and_advance p (write_text off str vm1) (ValString (CArena off)))"
  using string_alloc_keeps [OF popped_running(2) [OF assms(1)] assms(5,4)] text_pushed [OF assms(1-3)]
    gives_failed [OF popped_running(1) [OF assms(1)]]
  by (auto split: option.splits)

section \<open>What the instructions compute\<close>

definition base64_decoded :: "string \<Rightarrow> bytes option" where
  "base64_decoded str = (if str = [] then Some [] else if length str mod 4 \<noteq> 0 then None else base64_decode_loop str)"

text \<open>The abstract instructions, on the views of the operands, top first. \<open>None\<close> is an error.\<close>

fun view_data :: "view \<Rightarrow> bytes option" where
  "view_data (VData d) = d"
| "view_data _ = None"

fun view_text :: "view \<Rightarrow> string option" where
  "view_text (VText t) = t"
| "view_text _ = None"

fun view_int :: "view \<Rightarrow> int option" where
  "view_int (VAtom (ValInt i)) = Some i"
| "view_int _ = None"

definition result_of_bytes :: "AivmOpcode \<Rightarrow> bytes \<Rightarrow> view option" where
  "result_of_bytes c bs =
     (if c = AIVM_OP_BYTES_LENGTH then Some (VAtom (ValInt (int (length bs))))
      else if c = AIVM_OP_BYTES_TO_UTF8_STRING then Some (VText (Some (if utf8_valid_loop bs then bytes_text bs else [])))
      else if c = AIVM_OP_BYTES_TO_BASE64 then Some (VText (aivm_bytes_to_base64 (Some bs) (length bs) (Some (base64_length (length bs) + 1))))
      else None)"

definition result_of_text :: "AivmOpcode \<Rightarrow> string \<Rightarrow> view option" where
  "result_of_text c str =
     (if c = AIVM_OP_BYTES_FROM_UTF8_STRING then Some (VData (Some (text_bytes str)))
      else if c = AIVM_OP_BYTES_FROM_BASE64 then map_option (\<lambda>out. VData (Some out)) (base64_decoded str)
      else None)"

definition result_of_int :: "AivmOpcode \<Rightarrow> int \<Rightarrow> view option" where
  "result_of_int c i =
     (if c = AIVM_OP_BYTES_FROM_BYTE \<and> 0 \<le> i \<and> i \<le> 255 then Some (VData (Some [word_of_int i]))
      else if c = AIVM_OP_BYTES_U32_LE \<and> 0 \<le> i \<and> i \<le> 0xFFFFFFFF then Some (VData (Some (encoded_field 4 i)))
      else if c = AIVM_OP_BYTES_I64_LE then Some (VData (Some (encoded_field 8 i)))
      else None)"

definition bytes_result :: "AivmOpcode \<Rightarrow> view list \<Rightarrow> view option" where
  "bytes_result c ws =
     (case ws of
        [x] \<Rightarrow>
          (case (view_data x, view_text x, view_int x) of
             (Some bs, _, _) \<Rightarrow> result_of_bytes c bs
           | (_, Some str, _) \<Rightarrow> result_of_text c str
           | (_, _, Some i) \<Rightarrow> result_of_int c i
           | _ \<Rightarrow> None)
      | [x, y] \<Rightarrow>
          (case (view_int x, view_data x, view_data y) of
             (Some i, _, Some bs) \<Rightarrow>
               if c = AIVM_OP_BYTES_AT
               then Some (VAtom (ValInt (if 0 \<le> i \<and> i < int (length bs) then uint (bs ! nat i) else - 1))) else None
           | (_, Some bs', Some bs) \<Rightarrow> if c = AIVM_OP_BYTES_CONCAT then Some (VData (Some (bs @ bs'))) else None
           | _ \<Rightarrow> None)
      | [x, y, z] \<Rightarrow>
          (case (view_int x, view_int y, view_data z) of
             (Some n, Some i, Some bs) \<Rightarrow>
               if c = AIVM_OP_BYTES_SLICE then Some (VData (Some (take (nat n) (drop (nat i) bs)))) else None
           | _ \<Rightarrow> None)
      | _ \<Rightarrow> None)"

lemma view_operands:
  "view_data x = Some bs \<longleftrightarrow> x = VData (Some bs)" "view_text x = Some str \<longleftrightarrow> x = VText (Some str)"
  "view_int x = Some i \<longleftrightarrow> x = VAtom (ValInt i)"
proof -
  show "view_data x = Some bs \<longleftrightarrow> x = VData (Some bs)" "view_text x = Some str \<longleftrightarrow> x = VText (Some str)"
    by (cases x; simp)+
  show "view_int x = Some i \<longleftrightarrow> x = VAtom (ValInt i)"
    by (cases x rule: view_int.cases) auto
qed

text \<open>Integers are 64 bits wide and no object is longer than \<^verbatim>\<open>PTRDIFF_MAX\<close>.\<close>

fun view_small :: "view \<Rightarrow> bool" where
  "view_small (VData (Some bs)) \<longleftrightarrow> length bs \<le> nat INT64_MAX"
| "view_small (VText (Some str)) \<longleftrightarrow> length str \<le> nat INT64_MAX"
| "view_small (VAtom (ValInt i)) \<longleftrightarrow> in_i64 i"
| "view_small _ \<longleftrightarrow> True"

lemma view_operand:
  "value_view 0 vm v = VData (Some bs) \<Longrightarrow> \<exists>d len. v = ValBytes d len \<and> data_view (vm_bytes_arena vm) d len = Some bs"
  "value_view 0 vm v = VText (Some str) \<Longrightarrow> \<exists>q. v = ValString q \<and> cptr_text (vm_string_arena vm) q = Some str"
  "value_view 0 vm v = VAtom (ValInt i) \<Longrightarrow> v = ValInt i"
  by (cases v; simp)+

lemma operand_data:
  assumes "data_view arena d len = Some bs" and "data_ok arena d len"
  shows "length bs = len" and "len > 0 \<Longrightarrow> bptr_data arena d len = Some bs"
  using assms by (cases d; auto simp: data_view_def data_ok_def split: if_splits)+

lemma operand_ok:
  assumes "heap_state p vm" and "ValBytes d len \<in> set (vm_stack vm)"
  shows "data_ok (vm_bytes_arena vm) d len"
  using assms sound_stack [of vm "ValBytes d len"] sound_value_ok [of vm "ValBytes d len"] by (auto simp: heap_state_def)

lemma popped_arenas [simp]: "vm_bytes_arena (popped k vm) = vm_bytes_arena vm" "vm_string_arena (popped k vm) = vm_string_arena vm"
  by (simp_all add: popped_def)

lemma int_pushed:
  assumes "heap_state p vm" and "0 < k" and "k \<le> vm_stack_count vm"
  shows "gives p vm k (\<lambda>_. VAtom (ValInt i)) (push_and_advance p (popped k vm) (ValInt i))"
  by (rule gives_push [OF assms kept_refl [OF popped_running(2) [OF assms(1)]]]) (simp_all add: sound_leaf)

lemmas pops = stack_pop or_park_def

lemma bytes_length_gives:
  assumes "heap_state p vm" and "vm_stack vm = ValBytes d len # rest" and "len \<le> nat INT64_MAX"
  shows "gives p vm 1 (\<lambda>_. VAtom (ValInt (int len))) (op_bytes_length p vm)"
  using int_pushed [OF assms(1), of 1 "int len"] assms(2,3) by (simp add: op_bytes_length_def pops i64_of_size_def)

lemma bytes_at_gives:
  assumes "heap_state p vm" and "vm_stack vm = ValInt i # ValBytes d len # rest"
    and "data_view (vm_bytes_arena vm) d len = Some bs" and "length bs = len"
  shows "gives p vm 2 (\<lambda>_. VAtom (ValInt (if 0 \<le> i \<and> i < int (length bs) then uint (bs ! nat i) else - 1))) (op_bytes_at p vm)"
proof -
  have "bptr_data (vm_bytes_arena vm) d len = Some bs" if "0 \<le> i" "i < int len"
    using assms(3) that by (simp add: data_view_def split: if_splits)
  then show ?thesis
    using int_pushed [OF assms(1), of 2 "if 0 \<le> i \<and> i < int len then uint (bs ! nat i) else - 1"] assms(2,4)
    by (cases "0 \<le> i \<and> i < int len") (auto simp: op_bytes_at_def pops numeral_2_eq_2 nat_less_iff not_le not_less split: option.split)
qed

lemma slice_bounds:
  assumes "len \<le> nat INT64_MAX" and "in_i64 n"
  shows "slice_start i len = min (nat i) len" and "slice_end (slice_start i len) n len = min (slice_start i len + nat n) len"
proof -
  show s: "slice_start i len = min (nat i) len"
    by (auto simp: slice_start_def)
  have "nat n \<le> nat INT64_MAX" "slice_start i len \<le> nat INT64_MAX"
    using assms by (auto simp: i64_defs s)
  then have "slice_start i len + nat n < SIZE_MAX + 1"
    by (simp add: INT64_MAX_def SIZE_MAX_def)
  then show "slice_end (slice_start i len) n len = min (slice_start i len + nat n) len"
    by (auto simp: slice_end_def Let_def s)
qed

lemma bytes_slice_gives:
  assumes "heap_state p vm" and "vm_stack vm = ValInt n # ValInt i # ValBytes d len # rest"
    and "data_view (vm_bytes_arena vm) d len = Some bs" and "length bs = len" and "len \<le> nat INT64_MAX" and "in_i64 n"
  shows "gives p vm 3 (\<lambda>_. VData (Some (take (nat n) (drop (nat i) bs)))) (op_bytes_slice snapshot p vm)"
proof -
  define lo hi where "lo = min (nat i) len" and "hi = min (lo + nat n) len"
  have b: "slice_start i len = lo" "slice_end lo n len = hi"
    using slice_bounds [OF assms(5,6), of i] by (simp_all add: lo_def hi_def)
  have k: "0 < (3::nat)" "3 \<le> vm_stack_count vm"
    using assms(2) by simp_all
  have "op_bytes_slice snapshot p vm =
      (let vm' = popped (Suc (Suc (Suc 0))) vm; lo = slice_start i len; hi = slice_end lo n len in
       advance_after p
         (case (if lo \<ge> hi then None else bptr_data (vm_bytes_arena vm') d len) of
            None \<Rightarrow> push_bytes_copy snapshot vm' None 0
          | Some bs \<Rightarrow> push_bytes_copy snapshot vm' (Some (drop lo bs)) (hi - lo)))"
    using assms(2) by (simp add: op_bytes_slice_def pops) (simp add: Let_def)
  then have r: "op_bytes_slice snapshot p vm = advance_after p
      (case (if lo \<ge> hi then None else bptr_data (vm_bytes_arena vm) d len) of
         None \<Rightarrow> push_bytes_copy snapshot (popped 3 vm) None 0
       | Some bs \<Rightarrow> push_bytes_copy snapshot (popped 3 vm) (Some (drop lo bs)) (hi - lo))"
    unfolding Let_def b popped_arenas numeral_3_eq_3 .
  show ?thesis
  proof (cases "lo < hi")
    case True
    then have "bptr_data (vm_bytes_arena vm) d len = Some bs"
      using assms(3) by (auto simp: data_view_def hi_def split: if_splits)
    moreover have "take (hi - lo) (drop lo bs) = take (nat n) (drop (nat i) bs)"
      using True assms(4) by (auto simp: min_def lo_def hi_def)
    moreover have "hi - lo \<le> length (drop lo bs)"
      using assms(4) by (simp add: hi_def)
    ultimately show ?thesis
      unfolding r using True bytes_pushed [OF assms(1) k, of "hi - lo" "drop lo bs" snapshot] by simp
  next
    case False
    then have none: "take (nat n) (drop (nat i) bs) = []"
      using assms(4) by (auto simp: lo_def hi_def)
    show ?thesis
      unfolding r none using False no_bytes_pushed [OF assms(1) k, of snapshot] by simp
  qed
qed

lemma concat_part_writes:
  assumes "bytes_grown t vm0 vm1" and "data_view (vm_bytes_arena vm0) d len = Some bs" and "length bs = len"
    and "data_ok (vm_bytes_arena vm0) d len" and "k + len \<le> length t"
  shows "\<exists>vm2. concat_part detail d len (vm_bytes_arena_used vm0 + k) vm1 = (Some (), vm2) \<and>
    bytes_grown (take k t @ bs @ drop (k + len) t) vm0 vm2"
proof (cases "len = 0")
  case True
  then show ?thesis
    using assms by (intro exI [of _ vm1]) (simp add: concat_part_def)
next
  case False
  have "bptr_data (vm_bytes_arena vm1) d len = Some bs"
    using assms(2,4) False by (simp add: bytes_grown_fields(3) [OF assms(1)] bptr_data_append data_view_def)
  then show ?thesis
    using bytes_grown_write [OF assms(1), of k bs] assms(3,5) False
    by (intro exI [of _ "write_bytes (vm_bytes_arena_used vm0 + k) bs vm1"]) (simp add: concat_part_def)
qed

lemma bytes_concat_gives:
  assumes "heap_state p vm" and "vm_stack vm = ValBytes d' len' # ValBytes d len # rest"
    and "data_view (vm_bytes_arena vm) d len = Some bs" and "length bs = len" and "data_ok (vm_bytes_arena vm) d len"
    and "data_view (vm_bytes_arena vm) d' len' = Some bs'" and "length bs' = len'" and "data_ok (vm_bytes_arena vm) d' len'"
  shows "gives p vm 2 (\<lambda>_. VData (Some (bs @ bs'))) (op_bytes_concat snapshot p vm)"
proof -
  let ?vm0 = "popped 2 vm"
  have k: "0 < (2::nat)" "2 \<le> vm_stack_count vm"
    using assms(2) by simp_all
  note run = popped_running(1) [OF assms(1), of 2]
  show ?thesis
  proof (cases "aivm_size_add_checked len len'")
    case None
    then show ?thesis
      using assms(2) gives_fail [OF run] by (simp add: op_bytes_concat_def pops numeral_2_eq_2 del: size_add_checked_None)
  next
    case (Some n)
    obtain r vm1 where 1: "aivm_bytes_arena_alloc snapshot ?vm0 n = (r, vm1)"
      by fastforce
    note al = bytes_alloc_result [OF 1]
    show ?thesis
    proof (cases r)
      case None
      then show ?thesis
        using assms(2) 1 Some al gives_failed [OF run]
        by (simp add: op_bytes_concat_def pops numeral_2_eq_2 del: size_add_checked_Some)
    next
      case (Some off)
      have n: "n = len + len'"
        using \<open>aivm_size_add_checked len len' = Some n\<close> by simp
      have g: "bytes_grown (replicate n 0) ?vm0 vm1" and off: "off = vm_bytes_arena_used ?vm0"
        using al Some by simp_all
      obtain vm2 where 2: "concat_part ''BYTES_CONCAT requires non-null left bytes data.'' d len off vm1 = (Some (), vm2)"
        "bytes_grown (bs @ replicate len' 0) ?vm0 vm2"
        using concat_part_writes [OF g, of d len bs 0] assms(3-5) by (auto simp: off n)
      obtain vm3 where 3: "concat_part ''BYTES_CONCAT requires non-null right bytes data.'' d' len' (off + len) vm2 = (Some (), vm3)"
        "bytes_grown (bs @ bs') ?vm0 vm3"
        using concat_part_writes [OF 2(2), of d' len' bs' len] assms(4,6-8) by (auto simp: off)
      have "gives p vm 2 (\<lambda>_. VData (Some (bs @ bs'))) (push_and_advance p vm3 (ValBytes (BArena off) n))"
        using grown_pushed [OF assms(1) k 3(2)] assms(4,7) by (simp add: off n)
      then show ?thesis
        using assms(2) 1 \<open>aivm_size_add_checked len len' = Some n\<close> Some 2(1) 3(1)
        by (simp add: op_bytes_concat_def pops numeral_2_eq_2 del: size_add_checked_Some)
    qed
  qed
qed

lemma bytes_from_utf8_gives:
  assumes "heap_state p vm" and "vm_stack vm = ValString q # rest" and "cptr_text (vm_string_arena vm) q = Some str"
  shows "gives p vm 1 (\<lambda>_. VData (Some (text_bytes str))) (op_bytes_from_utf8_string snapshot p vm)"
  using bytes_pushed [OF assms(1), of 1 "length str" "text_bytes str" snapshot] assms(2,3)
  by (simp add: op_bytes_from_utf8_string_def pops string_operand_def text_bytes_def)

lemma lead_first_nonzero: "utf8_lead b0 = Some (n, first_ok) \<Longrightarrow> first_ok b \<Longrightarrow> b \<noteq> 0"
  by (auto simp: utf8_lead_def continuation_def between_def split: if_splits)

lemma utf8_valid_nonzero: "utf8_valid_loop bs \<Longrightarrow> 0 \<notin> set bs"
proof (induction bs rule: utf8_valid_loop.induct)
  case (2 b0 rest)
  show ?case
  proof (cases "b0 \<le> 0x7F")
    case True
    then show ?thesis
      using 2 by (auto simp: utf8_valid_loop.simps split: if_splits)
  next
    case False
    then obtain n first_ok where l: "utf8_lead b0 = Some (n, first_ok)" and b0: "b0 \<noteq> 0"
      and r: "n \<le> length rest" "first_ok (rest ! 0)" "\<forall>i \<in> {1..<n}. continuation (rest ! i)" "utf8_valid_loop (drop n rest)"
      using 2(3) by (auto simp: utf8_valid_loop.simps split: if_splits option.splits)
    have "rest ! i \<noteq> 0" if "i < n" for i
    proof (cases "i = 0")
      case True
      then show ?thesis
        using lead_first_nonzero [OF l r(2)] by simp
    next
      case False
      then have "continuation (rest ! i)"
        using r(3) that by simp
      then show ?thesis
        by (auto simp: continuation_def)
    qed
    then have "0 \<notin> set (take n rest)"
      using r(1) by (auto simp: in_set_conv_nth)
    moreover have "0 \<notin> set (drop n rest)"
      using 2(2) [OF b0 False l HOL.refl r(4)] .
    ultimately show ?thesis
      using b0 set_append [of "take n rest" "drop n rest"] by simp
  qed
qed simp

lemma bytes_text_no_zero:
  assumes "0 \<notin> set bs"
  shows "CHR 0x00 \<notin> set (bytes_text bs)"
proof
  assume "CHR 0x00 \<in> set (bytes_text bs)"
  then obtain b where b: "b \<in> set bs" "char_of (unat b) = CHR 0x00"
    by (auto simp: bytes_text_def)
  have "unat b < 256"
    using unsigned_less [of b] by simp
  then have "unat b = 0"
    using arg_cong [OF b(2), of "of_char :: char \<Rightarrow> nat"] by (simp add: of_char_of)
  then show False
    using b(1) assms by (simp add: unat_eq_0)
qed

lemma bytes_to_utf8_gives:
  assumes "heap_state p vm" and "vm_stack vm = ValBytes d len # rest"
    and "data_view (vm_bytes_arena vm) d len = Some bs" and "length bs = len" and "len \<le> SIZE_MAX - 1"
  shows "gives p vm 1 (\<lambda>_. VText (Some (if utf8_valid_loop bs then bytes_text bs else []))) (op_bytes_to_utf8_string alloc block snapshot p vm)"
proof -
  have k: "0 < (1::nat)" "1 \<le> vm_stack_count vm"
    using assms(2) by simp_all
  note e = empty_text_pushed [OF assms(1) k, of alloc block snapshot]
  show ?thesis
  proof (cases "len = 0 \<or> \<not> utf8_valid_loop bs")
    case True
    then show ?thesis
      using assms(2-4) e by (auto simp: op_bytes_to_utf8_string_def pops data_view_def bytes_text_def aivm_bytes_is_valid_utf8_without_nul_def)
  next
    case False
    then have d: "bptr_data (vm_bytes_arena vm) d len = Some bs" and z: "CHR 0x00 \<notin> set (bytes_text bs)"
      using assms(3) bytes_text_no_zero utf8_valid_nonzero by (auto simp: data_view_def)
    obtain r vm1 where 1: "aivm_string_arena_alloc alloc block snapshot (popped 1 vm) (length (bytes_text bs) + 1) = (r, vm1)"
      by fastforce
    have "aivm_size_add_checked len 1 = Some (len + 1)"
      using assms(5) by (simp add: SIZE_MAX_def)
    then show ?thesis
      using False assms(2,4) d 1 new_text_pushed [OF assms(1) k z 1]
      by (cases r) (simp_all add: op_bytes_to_utf8_string_def pops aivm_bytes_is_valid_utf8_without_nul_def push_string_bytes_copy_def
          advance_after_push advance_after_def push_and_advance_def bytes_text_def del: size_add_checked_Some)
  qed
qed

lemma bytes_from_base64_gives:
  assumes "heap_state p vm" and "vm_stack vm = ValString q # rest" and "cptr_text (vm_string_arena vm) q = Some str"
    and "base64_decoded str = Some bs"
  shows "gives p vm 1 (\<lambda>_. VData (Some bs)) (op_bytes_from_base64 snapshot p vm)"
proof -
  have k: "0 < (1::nat)" "1 \<le> vm_stack_count vm"
    using assms(2) by simp_all
  have b: "\<exists>x. aivm_bytes_from_base64 (Some str) None = Some (x, length bs)"
    "aivm_bytes_from_base64 (Some str) (Some (length bs)) = Some (bs, length bs)"
    using assms(4) by (auto simp: base64_decoded_def aivm_bytes_from_base64_def split: if_splits)
  obtain r vm1 where 1: "aivm_bytes_arena_alloc snapshot (popped 1 vm) (length bs) = (r, vm1)"
    by fastforce
  note al = bytes_alloc_result [OF 1]
  show ?thesis
  proof (cases r)
    case None
    then show ?thesis
      using assms(2,3) b 1 al gives_failed [OF popped_running(1) [OF assms(1)]]
      by (auto simp: op_bytes_from_base64_def pops string_operand_def)
  next
    case (Some off)
    then have g: "bytes_grown (replicate (length bs) 0) (popped 1 vm) vm1" and off: "off = vm_bytes_arena_used vm"
      using al by simp_all
    have "bytes_grown bs (popped 1 vm) (write_bytes off bs vm1)"
      using bytes_grown_write [OF g, of 0 bs] by (simp add: off)
    from grown_pushed [OF assms(1) k this] show ?thesis
      using assms(2,3) b 1 Some off by (auto simp: op_bytes_from_base64_def pops string_operand_def)
  qed
qed

lemma base64_no_zero:
  "base64_encode_loop cap i bs = Some str \<Longrightarrow> CHR 0x00 \<notin> set str"
proof (induction cap i bs arbitrary: str rule: base64_encode_loop.induct)
  case (1 cap i bs)
  have "CHR 0x00 \<notin> set base64_alphabet"
    by (simp add: base64_alphabet_def)
  moreover have "base64_digit chunk k \<in> set base64_alphabet" for chunk k
    unfolding base64_digit_def using digit_index [of "drop_bit k chunk"] by (intro nth_mem) (simp add: alphabet_length)
  ultimately have "base64_digit chunk k \<noteq> CHR 0x00" for chunk k
    by metis
  then have "CHR 0x00 \<notin> set (base64_encode_group block)" for block
    by (auto simp: base64_encode_group_def Let_def) metis+
  then show ?case
    using 1(1) 1(2) [unfolded base64_encode_loop.simps [of cap i bs]] by (auto split: if_splits option.splits)
qed

lemma bytes_to_base64_gives:
  assumes "heap_state p vm" and "vm_stack vm = ValBytes d len # rest"
    and "data_view (vm_bytes_arena vm) d len = Some bs" and "length bs = len"
  shows "gives p vm 1 (\<lambda>_. VText (aivm_bytes_to_base64 (Some bs) (length bs) (Some (base64_length (length bs) + 1))))
    (op_bytes_to_base64 alloc block snapshot p vm)"
proof -
  have k: "0 < (1::nat)" "1 \<le> vm_stack_count vm"
    using assms(2) by simp_all
  let ?n = "base64_length len"
  have nonnull: "(0 < len \<and> bptr_data (vm_bytes_arena vm) d len = None) = False"
    using assms(3) by (auto simp: data_view_def)
  have enc: "aivm_bytes_to_base64 (bptr_data (vm_bytes_arena vm) d len) len (Some (?n + 1)) = aivm_bytes_to_base64 (Some bs) len (Some (?n + 1))"
    using assms(3) by (auto simp: aivm_bytes_to_base64_def data_view_def split: if_splits)
  obtain str where str: "aivm_bytes_to_base64 (Some bs) len (Some (?n + 1)) = Some str" "length str = ?n" "CHR 0x00 \<notin> set str"
    using encode_loop_spec [of 0 "?n + 1" bs] assms(4) base64_no_zero
    by (cases "len = 0") (auto simp: aivm_bytes_to_base64_def base64_length_def)
  show ?thesis
  proof (cases "len > (SIZE_MAX - 2) div 3")
    case True
    then show ?thesis
      using assms(2) gives_fail [OF popped_running(1) [OF assms(1)]]
      by (simp add: op_bytes_to_base64_def pops Let_def nonnull)
  next
    case False
    then have "?n + 1 \<le> SIZE_MAX"
      unfolding base64_length_def SIZE_MAX_def by simp
    then have sz: "aivm_size_add_checked ((len + 2) div 3 * 4) 1 = Some (?n + 1)"
      by (simp add: base64_length_def mult.commute)
    obtain r vm1 where 1: "aivm_string_arena_alloc alloc block snapshot (popped 1 vm) (length str + 1) = (r, vm1)"
      by fastforce
    show ?thesis
      using assms(2,4) False sz str enc 1 new_text_pushed [OF assms(1) k str(3) 1]
      by (cases r) (simp_all add: op_bytes_to_base64_def pops Let_def nonnull del: size_add_checked_Some)
  qed
qed

lemma bytes_of_int_gives:
  assumes "heap_state p vm" and "vm_stack vm = ValInt i # rest" and "accepts i"
  shows "gives p vm 1 (\<lambda>_. VData (Some (encode i))) (op_bytes_of_int accepts encode detail snapshot p vm)"
  using bytes_pushed [OF assms(1), of 1 "length (encode i)" "encode i" snapshot] assms(2,3)
  by (simp add: op_bytes_of_int_def pops)

section \<open>The invariant\<close>

lemma popped_twice: "vm_stack vm = v # vs \<Longrightarrow> popped (Suc 0) vm = vm\<lparr>vm_stack := vs\<rparr>"
  by (simp add: popped_def)

lemma bytes_operand_cases:
  assumes "heap_state p vm" and "vm_stack vm = ValBytes d len # rest"
  shows "0 < len \<and> bptr_data (vm_bytes_arena vm) d len = None \<or> (\<exists>bs. data_view (vm_bytes_arena vm) d len = Some bs \<and> length bs = len)"
  using operand_ok [OF assms(1), of d len] operand_data(1) [of "vm_bytes_arena vm" d len] assms(2)
  by (cases "data_view (vm_bytes_arena vm) d len") (auto simp: data_view_def split: if_splits)

text \<open>The ways an instruction can end, as rewrite rules for the simplifier.\<close>

named_theorems heap_inv \<open>results that keep the invariant of the heap\<close>

lemma stack_pop_empty: "vm_stack vm = [] \<Longrightarrow> aivm_stack_pop vm = (None, aivm_set_vm_error vm AIVM_VM_ERR_STACK_UNDERFLOW ''Stack underflow.'')"
  by (simp add: aivm_stack_pop_def)

lemma fail_handled [heap_inv]:
  assumes "heap_state p vm" and "err \<noteq> AIVM_VM_ERR_NONE"
  shows "handled p (fail_with p (popped k vm) err detail)" and "handled p (Some (park p (aivm_set_vm_error (popped k vm) err detail)))"
    and "handled p (Some (park p (aivm_set_vm_error vm err detail)))"
  using handled_fail [OF popped_running(1) [OF assms(1)] assms(2)] handled_fail [OF popped_running(1) [OF assms(1), of 0] assms(2)]
  by (simp_all add: fail_with_def)

lemma int_handled [heap_inv]:
  "heap_state p vm \<Longrightarrow> k \<le> vm_stack_count vm \<Longrightarrow> 0 < k \<Longrightarrow> handled p (push_and_advance p (popped k vm) (ValInt i))"
  by (rule gives_handled [OF int_pushed])

lemma bytes_handled [heap_inv]:
  "heap_state p vm \<Longrightarrow> k \<le> vm_stack_count vm \<Longrightarrow> 0 < k \<Longrightarrow> len \<le> length bs \<Longrightarrow>
     handled p (advance_after p (push_bytes_copy snapshot (popped k vm) (Some bs) len))"
  "heap_state p vm \<Longrightarrow> k \<le> vm_stack_count vm \<Longrightarrow> 0 < k \<Longrightarrow>
     handled p (advance_after p (push_bytes_copy snapshot (popped k vm) None 0))"
  by (rule gives_handled [OF bytes_pushed] gives_handled [OF no_bytes_pushed]; assumption)+

lemma text_handled [heap_inv]:
  "heap_state p vm \<Longrightarrow> k \<le> vm_stack_count vm \<Longrightarrow> 0 < k \<Longrightarrow>
     handled p (advance_after p (push_string_copy alloc block snapshot (popped k vm) (CExt [])))"
  by (rule gives_handled [OF empty_text_pushed])

lemma or_park_simps: "or_park p (Some x, vm) f = f x vm" "or_park p (None, vm) f = Some (park p vm)"
  "advance_after p (None, vm) = Some (park p vm)"
  by (simp_all add: or_park_def advance_after_def)

lemmas stack_pops = stack_pop stack_pop_empty or_park_simps

lemma bytes_length_handled: "heap_state p vm \<Longrightarrow> handled p (op_bytes_length p vm)"
  by (cases "vm_stack vm") (auto simp: op_bytes_length_def stack_pops heap_inv split: AivmValue.split)

lemma bytes_at_handled: "heap_state p vm \<Longrightarrow> handled p (op_bytes_at p vm)"
  by (cases "vm_stack vm" rule: remdups_adj.cases) (auto simp: op_bytes_at_def stack_pops heap_inv split: AivmValue.split)

lemma bytes_of_int_handled: "heap_state p vm \<Longrightarrow> handled p (op_bytes_of_int accepts encode detail snapshot p vm)"
  by (cases "vm_stack vm") (auto simp: op_bytes_of_int_def stack_pops heap_inv split: AivmValue.split)

lemma bytes_from_utf8_handled: "heap_state p vm \<Longrightarrow> handled p (op_bytes_from_utf8_string snapshot p vm)"
  by (cases "vm_stack vm")
    (auto simp: op_bytes_from_utf8_string_def stack_pops heap_inv string_operand_def text_bytes_def split: AivmValue.split option.split)

lemma slice_end_bound: "lo \<le> len \<Longrightarrow> slice_end lo n len \<le> len" "slice_start i len \<le> len"
  by (auto simp: slice_end_def slice_start_def Let_def)

lemma bptr_data_length: "data_ok arena d len \<Longrightarrow> bptr_data arena d len = Some bs \<Longrightarrow> length bs = len"
  by (cases d) (auto simp: data_ok_def)

lemma bytes_slice_handled:
  assumes "heap_state p vm"
  shows "handled p (op_bytes_slice snapshot p vm)"
proof -
  have copy: "handled p (let lo = slice_start i len; hi = slice_end lo n len in
      advance_after p
        (case (if lo \<ge> hi then None else bptr_data (vm_bytes_arena (popped (Suc (Suc (Suc 0))) vm)) d len) of
           None \<Rightarrow> push_bytes_copy snapshot (popped (Suc (Suc (Suc 0))) vm) None 0
         | Some bs \<Rightarrow> push_bytes_copy snapshot (popped (Suc (Suc (Suc 0))) vm) (Some (drop lo bs)) (hi - lo)))"
    if "vm_stack vm = v # u # ValBytes d len # rest" for v u d len rest i n
  proof -
    have ok: "data_ok (vm_bytes_arena vm) d len"
      using operand_ok [OF assms, of d len] that by simp
    show ?thesis
      using assms that bptr_data_length [OF ok] slice_end_bound(1) [OF slice_end_bound(2), of i len n]
      by (auto simp: Let_def heap_inv diff_le_mono split: option.split)
  qed
  show ?thesis
    using assms copy by (cases "vm_stack vm" rule: remdups_adj.cases; cases "tl (tl (vm_stack vm))")
      (auto simp: op_bytes_slice_def stack_pops heap_inv split: AivmValue.split)
qed

lemma concat_part_result:
  assumes "bytes_grown t vm0 vm1" and "data_ok (vm_bytes_arena vm0) d len" and "k + len \<le> length t"
  shows "(\<exists>vm2 t'. concat_part detail d len (vm_bytes_arena_used vm0 + k) vm1 = (Some (), vm2) \<and> bytes_grown t' vm0 vm2 \<and> length t' = length t) \<or>
    concat_part detail d len (vm_bytes_arena_used vm0 + k) vm1 = (None, aivm_set_vm_error vm1 AIVM_VM_ERR_TYPE_MISMATCH detail)"
proof (cases "data_view (vm_bytes_arena vm0) d len")
  case None
  then have "len \<noteq> 0" "bptr_data (vm_bytes_arena vm1) d len = None"
    using bptr_data_append [OF assms(2)] by (auto simp: data_view_def bytes_grown_fields(3) [OF assms(1)] split: if_splits)
  then show ?thesis
    by (simp add: concat_part_def)
next
  case (Some bs)
  have len: "length bs = len"
    using operand_data(1) [OF Some assms(2)] .
  obtain vm2 where "concat_part detail d len (vm_bytes_arena_used vm0 + k) vm1 = (Some (), vm2)"
    "bytes_grown (take k t @ bs @ drop (k + len) t) vm0 vm2"
    using concat_part_writes [OF assms(1) Some len assms(2,3)] by blast
  then show ?thesis
    using assms(3) len by (intro disjI1 exI [of _ vm2] exI [of _ "take k t @ bs @ drop (k + len) t"]) simp
qed

lemma grown_error_handled:
  "heap_state p vm \<Longrightarrow> bytes_grown t (popped k vm) vm1 \<Longrightarrow> handled p (Some (park p (aivm_set_vm_error vm1 AIVM_VM_ERR_TYPE_MISMATCH detail)))"
  using handled_fail [of p vm1 AIVM_VM_ERR_TYPE_MISMATCH detail] same_control_running [OF popped_running(1)] bytes_grown_fields(1,2)
  by (fastforce simp: fail_with_def)

lemma bytes_concat_handled:
  assumes "heap_state p vm"
  shows "handled p (op_bytes_concat snapshot p vm)"
proof -
  have "handled p (op_bytes_concat snapshot p vm)" if st: "vm_stack vm = ValBytes d' len' # ValBytes d len # rest" for d' len' d len rest
  proof (cases "aivm_size_add_checked len len'")
    case None
    then show ?thesis
      using assms st by (simp add: op_bytes_concat_def stack_pops heap_inv del: size_add_checked_None)
  next
    case (Some n)
    let ?vm0 = "popped (Suc (Suc 0)) vm"
    have ok: "data_ok (vm_bytes_arena ?vm0) d len" "data_ok (vm_bytes_arena ?vm0) d' len'"
      using operand_ok [OF assms] st by simp_all
    have n: "n = len + len'"
      using Some by simp
    obtain r vm1 where 1: "aivm_bytes_arena_alloc snapshot ?vm0 n = (r, vm1)"
      by fastforce
    note al = bytes_alloc_result [OF 1]
    show ?thesis
    proof (cases r)
      case None
      then show ?thesis
        using assms st 1 Some al gives_handled [OF gives_failed [OF popped_running(1)]]
        by (auto simp: op_bytes_concat_def stack_pops simp del: size_add_checked_Some)
    next
      case r: (Some off)
      have g: "bytes_grown (replicate n 0) ?vm0 vm1" and off: "off = vm_bytes_arena_used ?vm0"
        using al r by simp_all
      let ?left = "concat_part ''BYTES_CONCAT requires non-null left bytes data.'' d len off vm1"
      have e: "op_bytes_concat snapshot p vm = or_park p ?left (\<lambda>_ vm.
          or_park p (concat_part ''BYTES_CONCAT requires non-null right bytes data.'' d' len' (off + len) vm) (\<lambda>_ vm.
            push_and_advance p vm (ValBytes (BArena off) n)))"
        using st 1 Some r by (simp add: op_bytes_concat_def stack_pops del: size_add_checked_Some)
      consider "?left = (None, aivm_set_vm_error vm1 AIVM_VM_ERR_TYPE_MISMATCH ''BYTES_CONCAT requires non-null left bytes data.'')"
        | vm2 t where "?left = (Some (), vm2)" "bytes_grown t ?vm0 vm2" "length t = n"
        using concat_part_result [OF g ok(1), where k = 0 and detail = "''BYTES_CONCAT requires non-null left bytes data.''"] by (auto simp: off n)
      then show ?thesis
      proof cases
        case 1
        then show ?thesis
          using grown_error_handled [OF assms g] by (simp add: e or_park_def)
      next
        case 2
        let ?right = "concat_part ''BYTES_CONCAT requires non-null right bytes data.'' d' len' (off + len) vm2"
        consider "?right = (None, aivm_set_vm_error vm2 AIVM_VM_ERR_TYPE_MISMATCH ''BYTES_CONCAT requires non-null right bytes data.'')"
          | vm3 t' where "?right = (Some (), vm3)" "bytes_grown t' ?vm0 vm3" "length t' = n"
          using concat_part_result [OF 2(2) ok(2), where k = len and detail = "''BYTES_CONCAT requires non-null right bytes data.''"] 2(3) by (auto simp: off n)
        then show ?thesis
          using grown_error_handled [OF assms 2(2)] gives_handled [OF grown_pushed [OF assms, of "Suc (Suc 0)"]] 2(1) st
          by cases (auto simp: e or_park_def off)
      qed
    qed
  qed
  then show ?thesis
    using assms by (cases "vm_stack vm" rule: remdups_adj.cases) (auto simp: op_bytes_concat_def stack_pops heap_inv split: AivmValue.split)
qed

lemma bytes_to_utf8_handled:
  assumes "heap_state p vm"
  shows "handled p (op_bytes_to_utf8_string alloc block snapshot p vm)"
proof -
  have "handled p (op_bytes_to_utf8_string alloc block snapshot p vm)" if st: "vm_stack vm = ValBytes d len # rest" for d len rest
  proof -
    consider (null) "0 < len" "bptr_data (vm_bytes_arena vm) d len = None"
      | (bytes) bs where "data_view (vm_bytes_arena vm) d len = Some bs" "length bs = len"
      using bytes_operand_cases [OF assms st] by auto
    then show ?thesis
    proof cases
      case null
      then show ?thesis
        using assms st by (simp add: op_bytes_to_utf8_string_def stack_pops heap_inv)
    next
      case (bytes bs)
      show ?thesis
      proof (cases "len \<le> SIZE_MAX - 1")
        case True
        then show ?thesis
          using gives_handled [OF bytes_to_utf8_gives [OF assms st bytes(1,2)]] by simp
      next
        case False
        moreover have "handled p (Some (park p (popped (Suc 0) vm)))"
          using popped_running [OF assms] by (rule handled_park)
        moreover have "bptr_data (vm_bytes_arena vm) d len = Some bs"
          using bytes(1) False by (auto simp: data_view_def SIZE_MAX_def)
        ultimately show ?thesis
          using assms st bytes(2) by (auto simp: op_bytes_to_utf8_string_def stack_pops heap_inv push_string_bytes_copy_def
              aivm_size_add_checked_def)
      qed
    qed
  qed
  then show ?thesis
    using assms by (cases "vm_stack vm") (auto simp: op_bytes_to_utf8_string_def stack_pops heap_inv split: AivmValue.split)
qed

lemma bytes_from_base64_handled:
  assumes "heap_state p vm"
  shows "handled p (op_bytes_from_base64 snapshot p vm)"
proof -
  have "handled p (op_bytes_from_base64 snapshot p vm)" if st: "vm_stack vm = ValString q # rest" for q rest
  proof (cases "cptr_text (vm_string_arena vm) q")
    case None
    then show ?thesis
      using assms st by (simp add: op_bytes_from_base64_def stack_pops heap_inv string_operand_def)
  next
    case (Some str)
    show ?thesis
    proof (cases "base64_decoded str")
      case None
      then have "aivm_bytes_from_base64 (Some str) None = None"
        by (auto simp: base64_decoded_def aivm_bytes_from_base64_def split: if_splits)
      then show ?thesis
        using assms st Some by (simp add: op_bytes_from_base64_def stack_pops heap_inv string_operand_def)
    next
      case bs: (Some bs)
      show ?thesis
        using gives_handled [OF bytes_from_base64_gives [OF assms st Some bs]] .
    qed
  qed
  then show ?thesis
    using assms by (cases "vm_stack vm") (auto simp: op_bytes_from_base64_def stack_pops heap_inv string_operand_def split: AivmValue.split)
qed

lemma bytes_to_base64_handled:
  assumes "heap_state p vm"
  shows "handled p (op_bytes_to_base64 alloc block snapshot p vm)"
proof -
  have "handled p (op_bytes_to_base64 alloc block snapshot p vm)" if st: "vm_stack vm = ValBytes d len # rest" for d len rest
  proof -
    consider (null) "0 < len" "bptr_data (vm_bytes_arena vm) d len = None"
      | (bytes) bs where "data_view (vm_bytes_arena vm) d len = Some bs" "length bs = len"
      using bytes_operand_cases [OF assms st] by auto
    then show ?thesis
    proof cases
      case null
      then show ?thesis
        using assms st by (simp add: op_bytes_to_base64_def stack_pops heap_inv)
    next
      case (bytes bs)
      show ?thesis
        using gives_handled [OF bytes_to_base64_gives [OF assms st bytes(1,2)]] .
    qed
  qed
  then show ?thesis
    using assms by (cases "vm_stack vm") (auto simp: op_bytes_to_base64_def stack_pops heap_inv split: AivmValue.split)
qed

lemma bytes_ops_handled:
  assumes "heap_state p vm" and "handled p (other i vm)"
  shows "handled p (bytes_ops alloc block snapshot p other i vm)"
  using assms
  by (simp add: bytes_ops_def Let_def op_bytes_from_byte_def op_bytes_u32_le_def op_bytes_i64_le_def bytes_length_handled bytes_at_handled
      bytes_slice_handled bytes_concat_handled bytes_from_utf8_handled bytes_to_utf8_handled bytes_from_base64_handled
      bytes_to_base64_handled bytes_of_int_handled)

section \<open>Properties\<close>

lemma bytes_operand_computes:
  assumes "heap_state p vm" and st: "vm_stack vm = ValBytes d len # rest" and d: "data_view (vm_bytes_arena vm) d len = Some bs" "length bs = len"
    and "len \<le> nat INT64_MAX" and "result_of_bytes (opcode i) bs = Some w"
  shows "gives p vm 1 (\<lambda>_. w) (bytes_ops alloc block snapshot p other i vm)"
proof -
  have "len \<le> SIZE_MAX - 1"
    using assms(5) by (simp add: INT64_MAX_def SIZE_MAX_def)
  then show ?thesis
    using assms(4-6) bytes_length_gives [OF assms(1) st] bytes_to_utf8_gives [OF assms(1) st d] bytes_to_base64_gives [OF assms(1) st d]
    by (auto simp: result_of_bytes_def bytes_ops_def Let_def split: if_splits)
qed

lemma text_operand_computes:
  assumes "heap_state p vm" and st: "vm_stack vm = ValString q # rest" and q: "cptr_text (vm_string_arena vm) q = Some str"
    and "result_of_text (opcode i) str = Some w"
  shows "gives p vm 1 (\<lambda>_. w) (bytes_ops alloc block snapshot p other i vm)"
  using assms(4) bytes_from_utf8_gives [OF assms(1) st q] bytes_from_base64_gives [OF assms(1) st q]
  by (auto simp: result_of_text_def bytes_ops_def Let_def split: if_splits)

lemma int_operand_computes:
  assumes "heap_state p vm" and st: "vm_stack vm = ValInt n # rest" and "result_of_int (opcode i) n = Some w"
  shows "gives p vm 1 (\<lambda>_. w) (bytes_ops alloc block snapshot p other i vm)"
  using assms(3) bytes_of_int_gives [OF assms(1) st, of "\<lambda>i. 0 \<le> i \<and> i \<le> 255" "\<lambda>i. [word_of_int i]"]
    bytes_of_int_gives [OF assms(1) st, of "\<lambda>i. 0 \<le> i \<and> i \<le> 0xFFFFFFFF" "encoded_field 4"]
    bytes_of_int_gives [OF assms(1) st, of "\<lambda>i. True" "encoded_field 8"]
  by (auto simp: result_of_int_def bytes_ops_def Let_def op_bytes_from_byte_def op_bytes_u32_le_def op_bytes_i64_le_def split: if_splits)

lemma small_data_operand:
  assumes "heap_state p vm" and "v \<in> set (vm_stack vm)" and "value_view 0 vm v = VData (Some bs)" and "view_small (value_view 0 vm v)"
  shows "\<exists>d len. v = ValBytes d len \<and> data_view (vm_bytes_arena vm) d len = Some bs \<and> length bs = len \<and>
    data_ok (vm_bytes_arena vm) d len \<and> len \<le> nat INT64_MAX"
proof -
  obtain d len where d: "v = ValBytes d len" "data_view (vm_bytes_arena vm) d len = Some bs"
    using view_operand(1) [OF assms(3)] by blast
  have ok: "data_ok (vm_bytes_arena vm) d len"
    using operand_ok [OF assms(1), of d len] assms(2) d(1) by simp
  show ?thesis
    using d ok operand_data(1) [OF d(2) ok] assms(3,4) by auto
qed


definition bytes_stack_demo :: AivmHeapVm where
  "bytes_stack_demo = pair_demo\<lparr>vm_stack := [ValBytes (BExt [3]) 1, ValBytes (BExt [1, 2]) 2]\<rparr>"

lemma stack_demo_state:
  assumes "\<forall>v \<in> set s. leaf v \<and> value_ok pair_demo v" and "length s \<le> 10"
  shows "heap_state tiny_program (pair_demo\<lparr>vm_stack := s\<rparr>)"
proof -
  have "collectable (pair_demo\<lparr>vm_stack := s\<rparr>)"
    using pair_demo_state assms(1) by (intro collectable_stack) (auto simp: heap_state_def intro: sound_leaf)
  moreover have "running_ok tiny_program (pair_demo\<lparr>vm_stack := s\<rparr>)"
    using pair_demo_state assms(2) by (simp add: heap_state_def running_ok_def machine_ok_def vm_bounds_def pair_demo_def)
  ultimately show ?thesis
    by (simp add: heap_state_def)
qed


end
