(* ===== verification/Number_Format.thy ===== *)
theory Number_Format
  imports Float64
begin

text \<open>
  The text that \<^verbatim>\<open>snprintf\<close> prints of a \<^verbatim>\<open>double\<close> with the format \<^verbatim>\<open>%.15g\<close>, the
  only one the machine uses (TO_STRING in \<^verbatim>\<open>src/src/aivm_vm.c\<close>): fifteen significant digits, rounded to
  nearest and ties to even, in decimal or exponent notation, without trailing zeros. The sign of a NaN is
  not modelled and not printed.
\<close>

definition decimal_exponent :: "nat \<Rightarrow> nat \<Rightarrow> int" where
  "decimal_exponent n d =
     (if d \<le> n then int (length (format_llu (n div d))) - 1
      else case find (\<lambda>k. d \<le> n * 10 ^ k) [1..<400] of Some k \<Rightarrow> - int k | None \<Rightarrow> - 400)"

text \<open>Fifteen digits and the exponent of the first of them.\<close>

definition significant_digits :: "nat \<Rightarrow> nat \<Rightarrow> nat \<times> int" where
  "significant_digits n d =
     (let x = decimal_exponent n d;
          (p, q) = (if x \<le> 14 then (n * 10 ^ nat (14 - x), d) else (n, d * 10 ^ nat (x - 14)));
          m = round_half_even p q
      in if m = 10 ^ 15 then (10 ^ 14, x + 1) else (m, x))"

definition strip_zeros :: "string \<Rightarrow> string" where
  "strip_zeros s = rev (dropWhile (\<lambda>c. c = CHR ''0'') (rev s))"

definition with_fraction :: "string \<Rightarrow> string \<Rightarrow> string" where
  "with_fraction whole fraction = whole @ (if fraction = [] then [] else CHR ''.'' # fraction)"

definition format_exponent :: "int \<Rightarrow> string" where
  "format_exponent x =
     (if x < 0 then ''e-'' else ''e+'') @ (if \<bar>x\<bar> < 10 then ''0'' else []) @ format_llu (nat \<bar>x\<bar>)"

definition format_digits :: "nat \<Rightarrow> int \<Rightarrow> string" where
  "format_digits m x =
     (let s = format_llu m in
      if x < - 4 \<or> x \<ge> 15 then with_fraction (take 1 s) (strip_zeros (drop 1 s)) @ format_exponent x
      else if 0 \<le> x then with_fraction (take (nat x + 1) s) (strip_zeros (drop (nat x + 1) s))
      else with_fraction ''0'' (replicate (nat (- x) - 1) (CHR ''0'') @ strip_zeros s))"

fun format_g15 :: "f64 \<Rightarrow> string" where
  "format_g15 F64_NaN = ''nan''"
| "format_g15 (F64_Inf s) = (if s then ''-inf'' else ''inf'')"
| "format_g15 (F64_Fin s m e) =
     (if s then ''-'' else []) @
     (if m = 0 then ''0''
      else case significant_digits (if e \<ge> 0 then m * 2 ^ nat e else m) (if e \<ge> 0 then 1 else 2 ^ nat (- e)) of
        (digits, x) \<Rightarrow> format_digits digits x)"

lemma format_g15_examples:
  "format_g15 (F64_Fin True 3 (- 1)) = ''-1.5''"
  "format_g15 (F64_Fin False 1 70) = ''1.18059162071741e+21''"
  "format_g15 (F64_Fin False 9007199254740991 0) = ''9.00719925474099e+15''"
  by (simp_all add: significant_digits_def decimal_exponent_def round_half_even_def format_llu.simps digit_char_def format_digits_def
      with_fraction_def strip_zeros_def format_exponent_def Let_def char_of_def bit_0)

text \<open>No printed character is zero, so the C string has the length that was printed.\<close>

lemma digit_nonzero: "d < 10 \<Longrightarrow> digit_char d \<noteq> CHR 0x00"
proof -
  assume "d < 10"
  then have "of_char (digit_char d) = 48 + d"
    by (simp add: digit_char_def of_char_of)
  then show "digit_char d \<noteq> CHR 0x00"
    by auto
qed

lemma format_llu_nonzero: "CHR 0x00 \<notin> set (format_llu n)"
proof (induction n rule: format_llu.induct)
  case (1 n)
  then show ?case
    using digit_nonzero [of n] digit_nonzero [of "n mod 10"] by (subst format_llu.simps) auto
qed

lemma in_set_strip_zeros: "c \<in> set (strip_zeros s) \<Longrightarrow> c \<in> set s"
  by (auto simp: strip_zeros_def dest: set_dropWhileD)

lemma format_g15_nonzero: "CHR 0x00 \<notin> set (format_g15 v)"
proof -
  have z: "CHR 0x00 \<notin> set (format_llu m)" for m
    by (rule format_llu_nonzero)
  have "CHR 0x00 \<notin> set (format_digits m x)" for m x
    by (auto simp: format_digits_def with_fraction_def format_exponent_def Let_def z split: if_splits
        dest!: in_set_takeD in_set_strip_zeros in_set_dropD)
  then show ?thesis
    by (cases v) (auto split: prod.split)
qed

end
