(* ===== verification/String_Instructions.thy ===== *)
theory String_Instructions
  imports Bytes_Instructions Number_Format
begin

text \<open>
  The string instructions of \<open>aivm_step\<close> (\<^verbatim>\<open>src/src/aivm_vm.c\<close>): concatenation, conversion to text,
  escaping, the operations by character position with their offset cache, and the decoders of code
  points. What they compute is stated on the texts of their operands.
\<close>

section \<open>The offset cache of the machine\<close>

text \<open>The address of a text: pointers into the string arena are told apart by the block it lives in.\<close>

definition text_address :: "'a heap_vm \<Rightarrow> cptr \<Rightarrow> nat \<times> cptr" where
  "text_address vm q = (case q of CArena off \<Rightarrow> (vm_string_arena_base vm, q) | _ \<Rightarrow> (0, q))"

text \<open>What the cache says of the text at an address.\<close>

definition machine_cache :: "'a heap_vm \<Rightarrow> cptr \<Rightarrow> bytes \<Rightarrow> offset_cache" where
  "machine_cache vm q str =
     (if vm_utf8_offset_cache_text vm = Some (text_address vm q)
      then \<lparr>utf8_offset_cache_text = Some str, utf8_offset_cache_rune = vm_utf8_offset_cache_rune vm,
            utf8_offset_cache_byte = vm_utf8_offset_cache_byte vm\<rparr>
      else empty_cache)"

definition put_cache :: "cptr \<Rightarrow> offset_cache \<Rightarrow> 'a heap_vm \<Rightarrow> 'a heap_vm" where
  "put_cache q cache vm =
     (case utf8_offset_cache_text cache of
        None \<Rightarrow> vm
      | Some _ \<Rightarrow>
          vm\<lparr>vm_utf8_offset_cache_text := Some (text_address vm q), vm_utf8_offset_cache_rune := utf8_offset_cache_rune cache,
             vm_utf8_offset_cache_byte := utf8_offset_cache_byte cache\<rparr>)"

text \<open>A pointer to a later byte of a text.\<close>

fun shifted :: "cptr \<Rightarrow> nat \<Rightarrow> cptr" where
  "shifted (CArena off) n = CArena (off + n)"
| "shifted (CExt s) n = CExt (drop n s)"
| "shifted q n = q"

definition push_offset :: "nat option \<times> 'a heap_vm \<Rightarrow> unit option \<times> 'a heap_vm" where
  "push_offset r = (case r of (None, vm) \<Rightarrow> (None, vm) | (Some off, vm) \<Rightarrow> aivm_stack_push vm (ValString (CArena off)))"

definition push_substring ::
  "(nat \<Rightarrow> bool) \<Rightarrow> nat \<Rightarrow> (nat \<times> nat) option \<Rightarrow> 'a heap_vm \<Rightarrow> cptr \<Rightarrow> int \<Rightarrow> int \<Rightarrow> unit option \<times> 'a heap_vm" where
  "push_substring alloc block snapshot vm q i len =
     (case (if len \<le> 0 then None else cptr_text (vm_string_arena vm) q) of
        None \<Rightarrow> push_string_copy alloc block snapshot vm (CExt '''')
      | Some str \<Rightarrow>
          let s = text_bytes str;
              start_rune = (if i \<le> 0 then 0 else nat i);
              (start_byte, cache) = utf8_byte_offset_for_rune (machine_cache vm q s) s start_rune;
              vm = put_cache q cache vm;
              end_byte = fst (rune_offset_loop s (nat len) start_byte 0)
          in push_offset (aivm_vm_copy_string_range_to_arena alloc block snapshot vm (shifted q start_byte) (end_byte - start_byte)))"

text \<open>The outer \<open>None\<close> is the overflow of \<^verbatim>\<open>start + length\<close>.\<close>

definition push_remove ::
  "(nat \<Rightarrow> bool) \<Rightarrow> nat \<Rightarrow> (nat \<times> nat) option \<Rightarrow> 'a heap_vm \<Rightarrow> cptr \<Rightarrow> int \<Rightarrow> int \<Rightarrow> (unit option \<times> 'a heap_vm) option" where
  "push_remove alloc block snapshot vm q i len =
     (case cptr_text (vm_string_arena vm) q of
        None \<Rightarrow> Some (push_string_copy alloc block snapshot vm (CExt ''''))
      | Some str \<Rightarrow>
          if len \<le> 0 then Some (push_string_copy alloc block snapshot vm q)
          else
            let s = text_bytes str; rune_count = utf8_rune_count s in
            if rune_count = SIZE_MAX
            then Some (None, aivm_set_vm_error vm AIVM_VM_ERR_MEMORY_PRESSURE ''substring rune count overflow.'')
            else (case i64_result (i + len) of
               None \<Rightarrow> None
             | Some e \<Rightarrow>
                 let start_rune = clamp_rune_index i rune_count;
                     end_rune = max start_rune (clamp_rune_index e rune_count);
                     (start_byte, cache) = utf8_byte_offset_for_rune (machine_cache vm q s) s start_rune;
                     (end_byte, cache) = utf8_byte_offset_for_rune cache s end_rune;
                     vm = put_cache q cache vm
                 in Some (push_offset (aivm_vm_copy_string_splice_to_arena alloc block snapshot vm q start_byte (shifted q end_byte)
                      (length s - end_byte)))))"

definition push_find :: "'a heap_vm \<Rightarrow> cptr \<Rightarrow> bytes \<Rightarrow> bytes \<Rightarrow> int \<Rightarrow> unit option \<times> 'a heap_vm" where
  "push_find vm q str pattern i =
     (case push_find_by_runes (machine_cache vm q str) str pattern i of
        (r, cache) \<Rightarrow> aivm_stack_push (put_cache q cache vm) (ValInt r))"

section \<open>Escaping\<close>

definition escape_char :: "char \<Rightarrow> string" where
  "escape_char ch =
     (if ch = CHR 0x5C then [CHR 0x5C, CHR 0x5C]
      else if ch = CHR 0x22 then [CHR 0x5C, CHR 0x22]
      else if ch = CHR 0x0A then [CHR 0x5C, CHR ''n'']
      else if ch = CHR 0x0D then [CHR 0x5C, CHR ''r'']
      else if ch = CHR 0x09 then [CHR 0x5C, CHR ''t'']
      else [ch])"

definition escape_text :: "string \<Rightarrow> string" where
  "escape_text str = concat (map escape_char str)"

text \<open>The first loop adds up the lengths; a sum that does not fit stops the instruction without an error.\<close>

definition push_escaped_string ::
  "(nat \<Rightarrow> bool) \<Rightarrow> nat \<Rightarrow> (nat \<times> nat) option \<Rightarrow> 'a heap_vm \<Rightarrow> cptr \<Rightarrow> string \<Rightarrow> unit option \<times> 'a heap_vm" where
  "push_escaped_string alloc block snapshot vm q str =
     (case aivm_size_add_checked (length (escape_text str)) 1 of
        None \<Rightarrow> (None, vm)
      | Some escaped_length \<Rightarrow>
          if \<not> aivm_vm_snapshot_arena_backed_string alloc vm q (length str)
          then (None, aivm_set_vm_error vm AIVM_VM_ERR_MEMORY_PRESSURE ''String escape operand snapshot failed.'')
          else (case aivm_string_arena_alloc alloc block snapshot vm escaped_length of
             (None, vm) \<Rightarrow> (None, vm)
           | (Some off, vm) \<Rightarrow> aivm_stack_push (write_text off (escape_text str) vm) (ValString (CArena off))))"

section \<open>Conversion to text\<close>

text \<open>The digits are written from the last to the first.\<close>

definition int_text :: "int \<Rightarrow> string" where
  "int_text i = (if i < 0 then ''-'' else []) @ format_llu (nat \<bar>i\<bar>)"

definition hex_char :: "u8 \<Rightarrow> char" where
  "hex_char b = ''0123456789abcdef'' ! unat (b AND 0x0F)"

definition bytes_hex :: "bytes \<Rightarrow> string" where
  "bytes_hex bs = ''0x'' @ concat (map (\<lambda>b. [hex_char (drop_bit 4 b), hex_char b]) bs)"

text \<open>The bytes lie in another arena than the one the text is allocated in, so the allocation does not move them.\<close>

definition op_to_string ::
  "(nat \<Rightarrow> bool) \<Rightarrow> nat \<Rightarrow> (nat \<times> nat) option \<Rightarrow> AivmProgram \<Rightarrow> 'a heap_vm \<Rightarrow> 'a heap_vm option" where
  "op_to_string alloc block snapshot p vm =
     or_park p (aivm_stack_pop vm) (\<lambda>v vm.
       let put = (\<lambda>str. advance_after p (push_string_copy alloc block snapshot vm (CExt str)));
           overflow = fail_with p vm AIVM_VM_ERR_MEMORY_PRESSURE ''TO_STRING bytes size arithmetic overflow.'' in
       case v of
         ValString q \<Rightarrow>
           (case (if q = CNull then (None, vm) else push_string_copy alloc block snapshot vm q) of
              (None, vm) \<Rightarrow> fail_with p vm AIVM_VM_ERR_TYPE_MISMATCH ''TO_STRING input string must be non-null.''
            | (Some _, vm) \<Rightarrow> Some (advance vm))
       | ValBool b \<Rightarrow> put (if b then ''true'' else ''false'')
       | ValVoid \<Rightarrow> put ''null''
       | ValNull \<Rightarrow> put ''null''
       | ValInt i \<Rightarrow> put (int_text i)
       | ValNumber x \<Rightarrow> put (snprintf 64 [format_g15 x])
       | ValBytes data len \<Rightarrow>
           if len > 0 \<and> bptr_data (vm_bytes_arena vm) data len = None
           then fail_with p vm AIVM_VM_ERR_TYPE_MISMATCH ''TO_STRING bytes data must be non-null.''
           else (case aivm_size_add_checked len len of
              None \<Rightarrow> overflow
            | Some body_len \<Rightarrow>
                (case aivm_size_add_checked 2 body_len of
                   None \<Rightarrow> overflow
                 | Some out_len \<Rightarrow>
                     (case aivm_size_add_checked out_len 1 of
                        None \<Rightarrow> overflow
                      | Some bytes_needed \<Rightarrow>
                          or_park p (aivm_string_arena_alloc alloc block snapshot vm bytes_needed) (\<lambda>off vm1.
                            push_and_advance p
                              (write_text off (bytes_hex (case data_view (vm_bytes_arena vm) data len of None \<Rightarrow> [] | Some bs \<Rightarrow> bs)) vm1)
                              (ValString (CArena off))))))
       | _ \<Rightarrow> fail_with p vm AIVM_VM_ERR_TYPE_MISMATCH ''TO_STRING unsupported value kind.'')"

section \<open>The other instructions\<close>

text \<open>The loops that measure the operands fail for a text of more than \<open>SIZE_MAX\<close> bytes.\<close>

definition op_str_concat ::
  "(nat \<Rightarrow> bool) \<Rightarrow> nat \<Rightarrow> (nat \<times> nat) option \<Rightarrow> AivmProgram \<Rightarrow> 'a heap_vm \<Rightarrow> 'a heap_vm option" where
  "op_str_concat alloc block snapshot p vm =
     or_park p (aivm_stack_pop vm) (\<lambda>right vm.
     or_park p (aivm_stack_pop vm) (\<lambda>left vm.
       let overflow = fail_with p vm AIVM_VM_ERR_MEMORY_PRESSURE in
       case (left, right, string_operand vm left, string_operand vm right) of
         (ValString q, ValString q', Some str, Some str') \<Rightarrow>
           if length str > SIZE_MAX then overflow ''String concat left length overflow.''
           else if length str' > SIZE_MAX then overflow ''String concat right length overflow.''
           else (case aivm_size_add_checked (length str) (length str') of
              None \<Rightarrow> overflow ''String concat size arithmetic overflow.''
            | Some _ \<Rightarrow>
                (case aivm_vm_copy_string_splice_to_arena alloc block snapshot vm q (length str) q' (length str') of
                   (None, vm) \<Rightarrow> Some (park p (raise_unless_error ''String concat allocation failed.'' vm))
                 | (Some off, vm) \<Rightarrow> push_and_advance p vm (ValString (CArena off))))
       | _ \<Rightarrow> fail_with p vm AIVM_VM_ERR_TYPE_MISMATCH ''STR_CONCAT requires string operands.''))"

definition op_str_escape ::
  "(nat \<Rightarrow> bool) \<Rightarrow> nat \<Rightarrow> (nat \<times> nat) option \<Rightarrow> AivmProgram \<Rightarrow> 'a heap_vm \<Rightarrow> 'a heap_vm option" where
  "op_str_escape alloc block snapshot p vm =
     or_park p (aivm_stack_pop vm) (\<lambda>v vm.
       case (v, string_operand vm v) of
         (ValString q, Some str) \<Rightarrow> advance_after p (push_escaped_string alloc block snapshot vm q str)
       | _ \<Rightarrow> fail_with p vm AIVM_VM_ERR_TYPE_MISMATCH ''STR_ESCAPE requires string operand.'')"

definition op_str_substring ::
  "(nat \<Rightarrow> bool) \<Rightarrow> nat \<Rightarrow> (nat \<times> nat) option \<Rightarrow> AivmProgram \<Rightarrow> 'a heap_vm \<Rightarrow> 'a heap_vm option" where
  "op_str_substring alloc block snapshot p vm =
     or_park p (aivm_stack_pop vm) (\<lambda>length_value vm.
     or_park p (aivm_stack_pop vm) (\<lambda>start_value vm.
     or_park p (aivm_stack_pop vm) (\<lambda>text_value vm.
       case (text_value, start_value, length_value) of
         (ValString q, ValInt i, ValInt len) \<Rightarrow> advance_after p (push_substring alloc block snapshot vm q i len)
       | _ \<Rightarrow> fail_with p vm AIVM_VM_ERR_TYPE_MISMATCH ''STR_SUBSTRING requires (string,int,int).'')))"

definition op_str_remove ::
  "(nat \<Rightarrow> bool) \<Rightarrow> nat \<Rightarrow> (nat \<times> nat) option \<Rightarrow> AivmProgram \<Rightarrow> 'a heap_vm \<Rightarrow> 'a heap_vm option" where
  "op_str_remove alloc block snapshot p vm =
     or_park p (aivm_stack_pop vm) (\<lambda>length_value vm.
     or_park p (aivm_stack_pop vm) (\<lambda>start_value vm.
     or_park p (aivm_stack_pop vm) (\<lambda>text_value vm.
       case (text_value, start_value, length_value) of
         (ValString q, ValInt i, ValInt len) \<Rightarrow>
           (case push_remove alloc block snapshot vm q i len of None \<Rightarrow> None | Some r \<Rightarrow> advance_after p r)
       | _ \<Rightarrow> fail_with p vm AIVM_VM_ERR_TYPE_MISMATCH ''STR_REMOVE requires (string,int,int).'')))"

definition op_str_find :: "AivmProgram \<Rightarrow> 'a heap_vm \<Rightarrow> 'a heap_vm option" where
  "op_str_find p vm =
     or_park p (aivm_stack_pop vm) (\<lambda>start_value vm.
     or_park p (aivm_stack_pop vm) (\<lambda>pattern_value vm.
     or_park p (aivm_stack_pop vm) (\<lambda>text_value vm.
       case (text_value, string_operand vm text_value, string_operand vm pattern_value, start_value) of
         (ValString q, Some str, Some pattern, ValInt i) \<Rightarrow>
           advance_after p (push_find vm q (text_bytes str) (text_bytes pattern) i)
       | _ \<Rightarrow> fail_with p vm AIVM_VM_ERR_TYPE_MISMATCH ''STR_FIND requires (string,string,int).'')))"

definition push_code_point ::
  "(nat \<Rightarrow> bool) \<Rightarrow> nat \<Rightarrow> (nat \<times> nat) option \<Rightarrow> 'a heap_vm \<Rightarrow> u32 option \<Rightarrow> unit option \<times> 'a heap_vm" where
  "push_code_point alloc block snapshot vm cp =
     push_string_copy alloc block snapshot vm
       (CExt (case cp of None \<Rightarrow> '''' | Some cp \<Rightarrow> bytes_text (push_string_from_codepoint cp)))"

definition op_str_from_codepoint ::
  "(nat \<Rightarrow> bool) \<Rightarrow> nat \<Rightarrow> (nat \<times> nat) option \<Rightarrow> AivmProgram \<Rightarrow> 'a heap_vm \<Rightarrow> 'a heap_vm option" where
  "op_str_from_codepoint alloc block snapshot p vm =
     or_park p (aivm_stack_pop vm) (\<lambda>v vm.
       case v of
         ValInt i \<Rightarrow> advance_after p (push_code_point alloc block snapshot vm (if i < 0 then None else Some (word_of_int i)))
       | _ \<Rightarrow> fail_with p vm AIVM_VM_ERR_TYPE_MISMATCH ''STR_FROM_CODEPOINT requires int operand.'')"

definition op_str_decode_unicode_hex4 ::
  "(nat \<Rightarrow> bool) \<Rightarrow> nat \<Rightarrow> (nat \<times> nat) option \<Rightarrow> AivmProgram \<Rightarrow> 'a heap_vm \<Rightarrow> 'a heap_vm option" where
  "op_str_decode_unicode_hex4 alloc block snapshot p vm =
     or_park p (aivm_stack_pop vm) (\<lambda>v vm.
       case string_operand vm v of
         None \<Rightarrow> fail_with p vm AIVM_VM_ERR_TYPE_MISMATCH ''STR_DECODE_UNICODE_HEX4 requires string operand.''
       | Some str \<Rightarrow> advance_after p (push_code_point alloc block snapshot vm (aivm_hex4_to_u32 (Some str))))"

definition surrogate_pair :: "string \<Rightarrow> string \<Rightarrow> u32 option" where
  "surrogate_pair high low =
     (case (aivm_hex4_to_u32 (Some high), aivm_hex4_to_u32 (Some low)) of
        (Some h, Some l) \<Rightarrow>
          if h < 0xD800 \<or> h > 0xDBFF \<or> l < 0xDC00 \<or> l > 0xDFFF then None
          else Some (0x10000 + push_bit 10 (h - 0xD800) + (l - 0xDC00))
      | _ \<Rightarrow> None)"

definition op_str_decode_surrogate_pair ::
  "(nat \<Rightarrow> bool) \<Rightarrow> nat \<Rightarrow> (nat \<times> nat) option \<Rightarrow> AivmProgram \<Rightarrow> 'a heap_vm \<Rightarrow> 'a heap_vm option" where
  "op_str_decode_surrogate_pair alloc block snapshot p vm =
     or_park p (aivm_stack_pop vm) (\<lambda>low_value vm.
     or_park p (aivm_stack_pop vm) (\<lambda>high_value vm.
       case (string_operand vm high_value, string_operand vm low_value) of
         (Some high, Some low) \<Rightarrow> advance_after p (push_code_point alloc block snapshot vm (surrogate_pair high low))
       | _ \<Rightarrow> fail_with p vm AIVM_VM_ERR_TYPE_MISMATCH ''STR_DECODE_UNICODE_SURROGATE_PAIR_HEX4 requires (string,string).''))"

definition op_str_utf8_byte_count :: "AivmProgram \<Rightarrow> 'a heap_vm \<Rightarrow> 'a heap_vm option" where
  "op_str_utf8_byte_count p vm =
     or_park p (aivm_stack_pop vm) (\<lambda>v vm.
       case string_operand vm v of
         None \<Rightarrow> fail_with p vm AIVM_VM_ERR_TYPE_MISMATCH ''STR_UTF8_BYTE_COUNT requires string operand.''
       | Some str \<Rightarrow>
           if int (length str) > INT64_MAX then fail_with p vm AIVM_VM_ERR_MEMORY_PRESSURE ''STR_UTF8_BYTE_COUNT overflow.''
           else push_and_advance p vm (ValInt (int (length str))))"

definition scalar_count :: "string \<Rightarrow> nat" where
  "scalar_count str = length (filter (\<lambda>b. \<not> continuation b) (text_bytes str))"

definition op_str_scalar_length :: "AivmProgram \<Rightarrow> 'a heap_vm \<Rightarrow> 'a heap_vm option" where
  "op_str_scalar_length p vm =
     or_park p (aivm_stack_pop vm) (\<lambda>v vm.
       case string_operand vm v of
         None \<Rightarrow> fail_with p vm AIVM_VM_ERR_TYPE_MISMATCH ''STR_SCALAR_LENGTH requires string operand.''
       | Some str \<Rightarrow>
           if int (length str) > INT64_MAX then
             fail_with p vm AIVM_VM_ERR_MEMORY_PRESSURE
               (if int (scalar_count (take (nat INT64_MAX + 1) str)) > INT64_MAX then ''STR_SCALAR_LENGTH overflow.''
                else ''STR_SCALAR_LENGTH input overflow.'')
           else push_and_advance p vm (ValInt (int (scalar_count str))))"

definition string_ops ::
  "(nat \<Rightarrow> bool) \<Rightarrow> nat \<Rightarrow> (nat \<times> nat) option \<Rightarrow> AivmProgram \<Rightarrow>
   (AivmInstruction \<Rightarrow> 'a heap_vm \<Rightarrow> 'a heap_vm option) \<Rightarrow> AivmInstruction \<Rightarrow> 'a heap_vm \<Rightarrow> 'a heap_vm option" where
  "string_ops alloc block snapshot p other i vm =
     (let c = opcode i in
      if c = AIVM_OP_STR_CONCAT then op_str_concat alloc block snapshot p vm
      else if c = AIVM_OP_TO_STRING then op_to_string alloc block snapshot p vm
      else if c = AIVM_OP_STR_ESCAPE then op_str_escape alloc block snapshot p vm
      else if c = AIVM_OP_STR_SUBSTRING then op_str_substring alloc block snapshot p vm
      else if c = AIVM_OP_STR_REMOVE then op_str_remove alloc block snapshot p vm
      else if c = AIVM_OP_STR_FIND then op_str_find p vm
      else if c = AIVM_OP_STR_FROM_CODEPOINT then op_str_from_codepoint alloc block snapshot p vm
      else if c = AIVM_OP_STR_DECODE_UNICODE_HEX4 then op_str_decode_unicode_hex4 alloc block snapshot p vm
      else if c = AIVM_OP_STR_DECODE_UNICODE_SURROGATE_PAIR_HEX4 then op_str_decode_surrogate_pair alloc block snapshot p vm
      else if c = AIVM_OP_STR_UTF8_BYTE_COUNT then op_str_utf8_byte_count p vm
      else if c = AIVM_OP_STR_SCALAR_LENGTH then op_str_scalar_length p vm
      else other i vm)"

section \<open>Texts and bytes\<close>

lemma bytes_of_text [simp]: "bytes_text (text_bytes str) = str"
proof -
  have "char_of (unat (of_nat (of_char c) :: u8)) = c" for c
  proof -
    have "unat (of_nat (of_char c) :: u8) = of_char c"
      using nat_of_char_less_256 [of c] by (simp add: unat_of_nat)
    then show ?thesis
      by simp
  qed
  then show ?thesis
    by (simp add: bytes_text_def text_bytes_def comp_def)
qed

lemma bytes_text_parts:
  "bytes_text (take n bs) = take n (bytes_text bs)" "bytes_text (drop n bs) = drop n (bytes_text bs)"
  "bytes_text (bs @ bs') = bytes_text bs @ bytes_text bs'" "length (text_bytes str) = length str" "length (bytes_text bs) = length bs"
  by (simp_all add: bytes_text_def text_bytes_def take_map drop_map)

lemma next_index_le: "text_at str i \<noteq> 0 \<Longrightarrow> utf8_next_index str i \<le> length str"
proof -
  have c: "continuation (text_at str j) \<Longrightarrow> j < length str" for j
    by (auto simp: text_at_def continuation_def split: if_splits)
  assume "text_at str i \<noteq> 0"
  then show ?thesis
    using text_at_nonzero [of str i] c [of "i + 1"] c [of "i + 2"] c [of "i + 3"]
    by (auto simp: utf8_next_index_def Let_def Suc_le_eq)
qed

lemma offset_loop_bounds:
  "b \<le> length str \<Longrightarrow> b \<le> fst (rune_offset_loop str r b k) \<and> fst (rune_offset_loop str r b k) \<le> length str"
proof (induction str r b k rule: rune_offset_loop.induct)
  case (1 str r b k)
  show ?case
  proof (cases "text_at str b \<noteq> 0 \<and> k < r")
    case True
    then show ?thesis
      using 1 next_index_le [of str b] next_index_grows [of str b] by (subst (1 2) rune_offset_loop.simps) auto
  next
    case False
    then show ?thesis
      using 1(2) by (subst (1 2) rune_offset_loop.simps) auto
  qed
qed

lemma find_loop_cache:
  "cache_ok cache \<Longrightarrow> cache_ok cache' \<Longrightarrow> fst (find_loop str pat last_rune cache r b) = fst (find_loop str pat last_rune cache' r b)"
proof (induction str pat last_rune cache r b arbitrary: cache' rule: find_loop.induct)
  case (1 str pat last_rune cache r b)
  let ?o = "utf8_byte_offset_for_rune cache str (r + 1)" and ?o' = "utf8_byte_offset_for_rune cache' str (r + 1)"
  have "fst ?o = fst ?o'" "cache_ok (snd ?o)" "cache_ok (snd ?o')"
    using offset_cache_transparent [OF "1.prems"(1), of str "r + 1"] offset_cache_transparent [OF "1.prems"(2), of str "r + 1"] by simp_all
  moreover have "fst (find_loop str pat last_rune c r b) =
      (if b + length pat \<le> length str then
         if take (length pat) (drop b str) = pat then int r
         else if r \<ge> last_rune then - 1
         else fst (find_loop str pat last_rune (snd (utf8_byte_offset_for_rune c str (r + 1))) (r + 1)
           (fst (utf8_byte_offset_for_rune c str (r + 1))))
       else - 1)" for c
    by (subst find_loop.simps) (simp add: case_prod_unfold)
  moreover have "fst (find_loop str pat last_rune (snd ?o) (r + 1) (fst ?o)) = fst (find_loop str pat last_rune (snd ?o') (r + 1) (fst ?o))"
    if "b + length pat \<le> length str" "take (length pat) (drop b str) \<noteq> pat" "\<not> r \<ge> last_rune"
    using "1.IH" [OF that, of "fst ?o" "snd ?o" "snd ?o'"] calculation by simp
  ultimately show ?case
    by presburger
qed

lemma rune_results_cache:
  assumes "cache_ok cache"
  shows "fst (push_substring_by_runes cache str i len) = fst (push_substring_by_runes empty_cache str i len)"
    and "fst (push_find_by_runes cache s pat i) = fst (push_find_by_runes empty_cache s pat i)"
proof -
  note t = offset_cache_transparent [OF assms] offset_cache_transparent [OF empty_cache_ok]
  show "fst (push_substring_by_runes cache str i len) = fst (push_substring_by_runes empty_cache str i len)"
    using t by (simp add: push_substring_by_runes_def Let_def case_prod_unfold split: option.split)
  show "fst (push_find_by_runes cache s pat i) = fst (push_find_by_runes empty_cache s pat i)"
    using t [of s "clamp_rune_index i (utf8_rune_count s)"]
    by (simp add: push_find_by_runes_def Let_def case_prod_unfold find_loop_cache)
qed

section \<open>Parts of a text\<close>

lemma c_string_prefix: "n \<le> length (c_string s) \<Longrightarrow> take n s = take n (c_string s)"
proof -
  assume "n \<le> length (c_string s)"
  moreover have "c_string s = take (length (c_string s)) s"
    unfolding c_string_def by (rule takeWhile_eq_take)
  ultimately show ?thesis
    by (metis min.absorb1 take_take)
qed

lemma text_range:
  assumes "cptr_text arena q = Some str" and "b + n \<le> length str"
  shows "cptr_range arena (shifted q b) n = Some (take n (drop b str))"
proof -
  have part: "take n (drop b s) = take n (drop b (c_string s))" if "b + n \<le> length (c_string s)" for s
    using c_string_prefix [OF that] by (metis take_drop add.commute)
  show ?thesis
  proof (cases q)
    case (CArena off)
    then show ?thesis
      using assms part [of "drop off arena"] by (simp add: add.commute)
  qed (use assms part in auto)
qed

lemma text_no_zero: "cptr_text arena q = Some str \<Longrightarrow> CHR 0x00 \<notin> set str"
  by (cases q) auto

lemma shifted_0: "cptr_text arena q = Some str \<Longrightarrow> cptr_range arena q n = cptr_range arena (shifted q 0) n"
  by (cases q) auto

section \<open>Keeping the cache\<close>

definition cache_valid :: "'a heap_vm \<Rightarrow> bool" where
  "cache_valid vm \<longleftrightarrow>
     (\<forall>q str. vm_utf8_offset_cache_text vm = Some (text_address vm q) \<and> cptr_text (vm_string_arena vm) q = Some str \<longrightarrow>
        cache_ok (machine_cache vm q (text_bytes str)))"

lemma machine_cache_ok: "cache_valid vm \<Longrightarrow> cptr_text (vm_string_arena vm) q = Some str \<Longrightarrow> cache_ok (machine_cache vm q (text_bytes str))"
  using empty_cache_ok by (auto simp: cache_valid_def machine_cache_def)

lemma put_cache_kept: "collectable vm \<Longrightarrow> kept vm (put_cache q cache vm)"
proof -
  assume c: "collectable vm"
  have h: "same_heap vm (put_cache q cache vm)"
    by (simp add: put_cache_def same_heap_def root_values_def local_values_def fixed_handles_def builder_handles_def split: option.split)
  show ?thesis
    using c same_heap_reach(4) [OF h] same_contents_reach(6) [OF same_heap_contents [OF h]]
    by (simp add: kept_def collectable_def)
      (simp add: put_cache_def string_arena_ok_def index_ok_def same_control_def no_new_error_def split: option.split)
qed

lemma put_cache_arena [simp]: "vm_string_arena (put_cache q cache vm) = vm_string_arena vm"
  by (simp add: put_cache_def split: option.split)

section \<open>Texts that are pushed\<close>

lemma text_operand_ok:
  assumes "heap_state p vm" and "ValString q \<in> set (vm_stack vm)"
  shows "cstring_ok (vm_string_arena vm) q"
  using assms sound_stack [of vm "ValString q"] sound_value_ok [of vm "ValString q"] by (auto simp: heap_state_def)

lemma external_text_pushed:
  assumes "heap_state p vm" and "0 < k" and "k \<le> vm_stack_count vm" and "length (c_string str) < SIZE_MAX"
  shows "gives p vm k (\<lambda>_. VText (Some (c_string str))) (advance_after p (push_string_copy alloc block snapshot (popped k vm) (CExt str)))"
  by (intro string_copy_pushed [OF assms(1-3)] copy_string_outcome popped_running(2) [OF assms(1)])
    (simp_all add: cstring_ok_def assms(4))

lemma operand_text_pushed:
  assumes "heap_state p vm" and "0 < k" and "k \<le> vm_stack_count vm" and "ValString q \<in> set (vm_stack vm)"
    and "cptr_text (vm_string_arena vm) q = Some str" and "length str < SIZE_MAX"
  shows "gives p vm k (\<lambda>_. VText (Some str)) (advance_after p (push_string_copy alloc block snapshot (popped k vm) q))"
  using text_operand_ok [OF assms(1,4)]
  by (intro string_copy_pushed [OF assms(1-3)] copy_string_outcome popped_running(2) [OF assms(1)]) (simp_all add: assms(5,6))

lemma offset_pushed:
  assumes "heap_state p vm" and "0 < k" and "k \<le> vm_stack_count vm" and "kept (popped k vm) vm1" and "copy_outcome vm1 str r"
  shows "gives p vm k (\<lambda>_. VText (Some str)) (advance_after p (push_offset r))"
proof -
  have run: "running_ok p vm1"
    using assms(4) popped_running(1) [OF assms(1)] same_control_running by (auto simp: kept_def)
  show ?thesis
  proof (cases "fst r")
    case None
    then show ?thesis
      using assms(5) park_failed [OF _ run] by (cases r) (simp add: copy_outcome_def push_offset_def)
  next
    case (Some off)
    then show ?thesis
      using assms(5) text_pushed [OF assms(1-3) kept_trans [OF assms(4)]]
      by (cases r) (auto simp: copy_outcome_def push_offset_def advance_after_push)
  qed
qed

lemma c_string_whole: "CHR 0x00 \<notin> set str \<Longrightarrow> c_string str = str"
  unfolding c_string_def by (simp add: takeWhile_eq_all_conv) blast

lemma int_text_nonzero: "c_string (int_text i) = int_text i"
  using format_llu_nonzero by (intro c_string_whole) (simp add: int_text_def)

lemma format_llu_length: "n < 10 ^ k \<Longrightarrow> 0 < k \<Longrightarrow> length (format_llu n) \<le> k"
proof (induction k arbitrary: n)
  case (Suc k)
  show ?case
  proof (cases "n < 10")
    case True
    then show ?thesis
      by (subst format_llu.simps) simp
  next
    case False
    then have "0 < k" "n div 10 < 10 ^ k"
      using Suc.prems by (auto intro: gr0I simp: less_mult_imp_div_less mult.commute)
    then show ?thesis
      using False Suc.IH [of "n div 10"] by (subst format_llu.simps) simp
  qed
qed simp

lemma int_text_length: "in_i64 i \<Longrightarrow> length (int_text i) \<le> 21"
proof -
  assume "in_i64 i"
  then have "nat \<bar>i\<bar> < 10 ^ 20"
    by (auto simp: in_i64_def INT64_MAX_def INT64_MIN_def nat_less_iff abs_less_iff)
  then show ?thesis
    using format_llu_length [of "nat \<bar>i\<bar>" 20] by (cases "i < 0") (simp_all add: int_text_def)
qed

lemma code_point_length: "length (push_string_from_codepoint cp) \<le> 4"
  by (simp add: push_string_from_codepoint_def)

lemma number_text: "c_string (snprintf 64 [format_g15 x]) = snprintf 64 [format_g15 x]" "length (snprintf 64 [format_g15 x]) \<le> 63"
  using format_g15_nonzero [of x] by (auto simp: snprintf_def intro!: c_string_whole dest: in_set_takeD)

lemma escape_nonzero: "CHR 0x00 \<notin> set str \<Longrightarrow> CHR 0x00 \<notin> set (escape_text str)"
  by (auto simp: escape_text_def escape_char_def split: if_splits)

lemma escape_length: "length (escape_text str) \<le> 2 * length str"
  by (induction str) (auto simp: escape_text_def escape_char_def)

lemma rune_count_bound: "n + (length str - b) \<le> nat INT64_MAX \<Longrightarrow> rune_count_loop str b n \<le> n + (length str - b)"
proof (induction str b n rule: rune_count_loop.induct)
  case (1 str b n)
  show ?case
  proof (cases "text_at str b = 0")
    case False
    then have b: "b < length str" "b < utf8_next_index str b"
      using text_at_nonzero next_index_grows by auto
    then have s: "aivm_size_add_checked n 1 = Some (n + 1)"
      using 1(2) by (simp add: INT64_MAX_def SIZE_MAX_def)
    have "n + 1 + (length str - utf8_next_index str b) \<le> n + (length str - b)"
      using b by linarith
    then have "rune_count_loop str (utf8_next_index str b) (n + 1) \<le> n + (length str - b)"
      using 1(1) [OF False s] 1(2) by linarith
    then show ?thesis
      using False s by (subst rune_count_loop.simps) (simp del: size_add_checked_Some)
  qed (subst rune_count_loop.simps, simp)
qed

lemma rune_count_small: "length str \<le> nat INT64_MAX \<Longrightarrow> utf8_rune_count (text_bytes str) \<noteq> SIZE_MAX"
  using rune_count_bound [of 0 "text_bytes str" 0] by (simp add: utf8_rune_count_def bytes_text_parts INT64_MAX_def SIZE_MAX_def)

lemma popped_cache [simp]: "machine_cache (popped k vm) = machine_cache vm" "cache_valid (popped k vm) = cache_valid vm"
proof -
  have a: "text_address (popped k vm) = text_address vm"
    by (simp add: text_address_def popped_def fun_eq_iff split: cptr.split)
  show c: "machine_cache (popped k vm) = machine_cache vm"
    unfolding machine_cache_def a by (simp add: popped_def fun_eq_iff)
  show "cache_valid (popped k vm) = cache_valid vm"
    unfolding cache_valid_def a c by (simp add: popped_def)
qed

section \<open>What the instructions compute\<close>

text \<open>The temporary copies of a text fit in memory.\<close>

fun copies_fit :: "(nat \<Rightarrow> bool) \<Rightarrow> view \<Rightarrow> bool" where
  "copies_fit alloc (VText (Some str)) \<longleftrightarrow> (\<forall>n \<le> length str + 1. alloc n)"
| "copies_fit alloc _ \<longleftrightarrow> True"

lemma small_sizes: "n \<le> nat INT64_MAX \<Longrightarrow> n < SIZE_MAX" "n \<le> nat INT64_MAX \<Longrightarrow> m \<le> nat INT64_MAX \<Longrightarrow> n + m < SIZE_MAX"
  by (simp_all add: INT64_MAX_def SIZE_MAX_def)

lemma str_concat_gives:
  assumes "heap_state p vm" and st: "vm_stack vm = ValString q' # ValString q # rest"
    and q: "cptr_text (vm_string_arena vm) q = Some str" "cptr_text (vm_string_arena vm) q' = Some str'"
    and len: "length str \<le> nat INT64_MAX" "length str' \<le> nat INT64_MAX" and "alloc (length str + 1)" "alloc (length str' + 1)"
  shows "gives p vm 2 (\<lambda>_. VText (Some (str @ str'))) (op_str_concat alloc block snapshot p vm)"
proof -
  let ?vm = "popped 2 vm"
  have k: "0 < (2::nat)" "2 \<le> vm_stack_count vm"
    using st by simp_all
  note r = text_range [OF q(1), of 0 "length str"] text_range [OF q(2), of 0 "length str'"]
  have c: "copy_outcome ?vm (str @ str') (aivm_vm_copy_string_splice_to_arena alloc block snapshot ?vm q (length str) q' (length str'))"
    using r shifted_0 [OF q(1)] shifted_0 [OF q(2)] text_no_zero [OF q(1)] text_no_zero [OF q(2)] small_sizes(2) [OF len] assms(7,8)
      popped_running(2) [OF assms(1)]
    by (intro copy_splice_outcome) simp_all
  have s: "\<not> length str > SIZE_MAX" "\<not> length str' > SIZE_MAX" "aivm_size_add_checked (length str) (length str') = Some (length str + length str')"
    using small_sizes(1) [OF len(1)] small_sizes(1) [OF len(2)] small_sizes(2) [OF len] by simp_all
  obtain r vm1 where 1: "aivm_vm_copy_string_splice_to_arena alloc block snapshot ?vm q (length str) q' (length str') = (r, vm1)"
    by fastforce
  note e = st q s 1 [unfolded numeral_2_eq_2]
  show ?thesis
  proof (cases r)
    case None
    then have f: "failed ?vm vm1"
      using c 1 by (simp add: copy_outcome_def)
    then have "raise_unless_error detail vm1 = vm1" for detail
      by (simp add: raise_unless_error_def failed_def)
    then show ?thesis
      using None e gives_failed [OF popped_running(1) [OF assms(1)] f]
      by (simp add: op_str_concat_def pops string_operand_def del: size_add_checked_Some)
  next
    case (Some off)
    then show ?thesis
      using e c 1 text_pushed [OF assms(1) k, of vm1 off "str @ str'"]
      by (simp add: op_str_concat_def pops string_operand_def copy_outcome_def del: size_add_checked_Some)
  qed
qed

lemma str_escape_gives:
  assumes "heap_state p vm" and st: "vm_stack vm = ValString q # rest" and q: "cptr_text (vm_string_arena vm) q = Some str"
    and len: "length str \<le> nat INT64_MAX"
  shows "gives p vm 1 (\<lambda>_. VText (Some (escape_text str))) (op_str_escape alloc block snapshot p vm)"
proof -
  have k: "0 < (1::nat)" "1 \<le> vm_stack_count vm"
    using st by simp_all
  have n: "aivm_size_add_checked (length (escape_text str)) 1 = Some (length (escape_text str) + 1)"
    using escape_length [of str] len by (simp add: INT64_MAX_def SIZE_MAX_def)
  obtain r vm1 where 1: "aivm_string_arena_alloc alloc block snapshot (popped 1 vm) (length (escape_text str) + 1) = (r, vm1)"
    by fastforce
  show ?thesis
    using st q n 1 new_text_pushed [OF assms(1) k escape_nonzero [OF text_no_zero [OF q]] 1]
      gives_park [OF error_running [OF popped_running(1) [OF assms(1)]]]
    by (cases r) (simp_all add: op_str_escape_def pops string_operand_def push_escaped_string_def advance_after_push advance_after_def
        push_and_advance_def or_park_def del: size_add_checked_Some)
qed

lemma shorter_text:
  assumes "copies_fit alloc (VText (Some str))" and "length str \<le> nat INT64_MAX" and "n \<le> length str"
  shows "alloc (n + 1)" and "n < SIZE_MAX"
  using assms small_sizes(1) [of n] by simp_all

lemma str_substring_gives:
  assumes "heap_state p vm" and st: "vm_stack vm = ValInt len # ValInt i # ValString q # rest"
    and q: "cptr_text (vm_string_arena vm) q = Some str" and "cache_valid vm"
    and small: "copies_fit alloc (VText (Some str))" "length str \<le> nat INT64_MAX"
  shows "gives p vm 3 (\<lambda>_. VText (Some (bytes_text (fst (push_substring_by_runes empty_cache (Some (text_bytes str)) i len)))))
    (op_str_substring alloc block snapshot p vm)"
proof (cases "len \<le> 0")
  case True
  then show ?thesis
    using empty_text_pushed [OF assms(1), of 3] st
    by (simp add: op_str_substring_def pops push_substring_def push_substring_by_runes_def bytes_text_def numeral_3_eq_3)
next
  case False
  have k: "0 < (3::nat)" "3 \<le> vm_stack_count vm"
    using st by simp_all
  let ?s = "text_bytes str"
  let ?c = "machine_cache vm q ?s"
  obtain lo cache where 1: "utf8_byte_offset_for_rune ?c ?s (if i \<le> 0 then 0 else nat i) = (lo, cache)"
    by fastforce
  define hi where "hi = fst (rune_offset_loop ?s (nat len) lo 0)"
  have lo: "lo \<le> length str"
    using offset_cache_transparent [OF machine_cache_ok [OF assms(4) q], of ?s "if i \<le> 0 then 0 else nat i"] 1
      offset_loop_bounds [of 0 ?s "if i \<le> 0 then 0 else nat i" 0] by (simp add: bytes_text_parts)
  then have hi: "lo \<le> hi" "hi \<le> length str"
    using offset_loop_bounds [of lo ?s "nat len" 0] by (simp_all add: hi_def bytes_text_parts)
  have r: "bytes_text (fst (push_substring_by_runes empty_cache (Some ?s) i len)) = take (hi - lo) (drop lo str)"
    using 1 False unfolding rune_results_cache(1) [OF machine_cache_ok [OF assms(4) q], symmetric] hi_def
    by (simp add: push_substring_by_runes_def Let_def bytes_text_parts)
  let ?vm = "put_cache q cache (popped 3 vm)"
  have kept: "kept (popped 3 vm) ?vm"
    using popped_running(2) [OF assms(1)] by (rule put_cache_kept)
  then have "copy_outcome ?vm (take (hi - lo) (drop lo str))
      (aivm_vm_copy_string_range_to_arena alloc block snapshot ?vm (shifted q lo) (hi - lo))"
    using text_range [OF q, of lo "hi - lo"] hi text_no_zero [OF q] shorter_text [OF small, of "hi - lo"]
    by (intro copy_range_outcome) (auto simp: kept_def dest!: in_set_takeD in_set_dropD)
  from offset_pushed [OF assms(1) k kept this] show ?thesis
    using st False 1 q unfolding r hi_def by (simp add: op_str_substring_def pops push_substring_def Let_def numeral_3_eq_3)
qed

lemma str_remove_gives:
  assumes "heap_state p vm" and st: "vm_stack vm = ValInt len # ValInt i # ValString q # rest"
    and q: "cptr_text (vm_string_arena vm) q = Some str" and "cache_valid vm"
    and small: "copies_fit alloc (VText (Some str))" "length str \<le> nat INT64_MAX"
    and result: "push_remove_by_runes empty_cache (Some (text_bytes str)) i len = Some (out, cache')"
  shows "gives p vm 3 (\<lambda>_. VText (Some (bytes_text out))) (op_str_remove alloc block snapshot p vm)"
proof -
  have k: "0 < (3::nat)" "3 \<le> vm_stack_count vm" and m: "ValString q \<in> set (vm_stack vm)"
    using st by simp_all
  show ?thesis
  proof (cases "len \<le> 0")
    case True
    then have "bytes_text out = str"
      using result by (auto simp: push_remove_by_runes_def)
    then show ?thesis
      using operand_text_pushed [OF assms(1) k m q small_sizes(1) [OF small(2)]] st q True
      by (simp add: op_str_remove_def pops push_remove_def numeral_3_eq_3)
  next
    case False
    let ?s = "text_bytes str"
    let ?n = "utf8_rune_count ?s"
    have e: "i64_result (i + len) = Some (i + len)"
      using result False by (auto simp: push_remove_by_runes_def Let_def i64_result_def split: if_splits)
    let ?a = "clamp_rune_index i ?n" and ?b = "max (clamp_rune_index i ?n) (clamp_rune_index (i + len) ?n)"
    obtain lo c1 where 1: "utf8_byte_offset_for_rune (machine_cache vm q ?s) ?s ?a = (lo, c1)"
      by fastforce
    obtain hi c2 where 2: "utf8_byte_offset_for_rune c1 ?s ?b = (hi, c2)"
      by fastforce
    note t = offset_cache_transparent [OF machine_cache_ok [OF assms(4) q], of ?s ?a]
    have c1: "cache_ok c1"
      using t 1 by simp
    have b: "lo = fst (rune_offset_loop ?s ?a 0 0)" "hi = fst (rune_offset_loop ?s ?b 0 0)"
      using t 1 2 offset_cache_transparent [OF c1, of ?s ?b] by simp_all
    have le: "lo \<le> length str" "hi \<le> length str"
      using offset_loop_bounds [of 0 ?s] by (simp_all add: b bytes_text_parts)
    have out: "bytes_text out = take lo str @ drop hi str"
    proof -
      note u = offset_cache_transparent [OF empty_cache_ok, of ?s ?a]
      have "fst (utf8_byte_offset_for_rune (snd (utf8_byte_offset_for_rune empty_cache ?s ?a)) ?s ?b) = hi"
        using u offset_cache_transparent [of "snd (utf8_byte_offset_for_rune empty_cache ?s ?a)" ?s ?b] by (simp add: b)
      then show ?thesis
        using result e u False
        by (auto simp: push_remove_by_runes_def Let_def case_prod_unfold bytes_text_parts b max_def split: if_splits)
    qed
    let ?vm = "put_cache q c2 (popped 3 vm)"
    have kept: "kept (popped 3 vm) ?vm"
      using popped_running(2) [OF assms(1)] by (rule put_cache_kept)
    have r: "cptr_range (vm_string_arena ?vm) q lo = Some (take lo str)"
      "cptr_range (vm_string_arena ?vm) (shifted q hi) (length str - hi) = Some (drop hi str)"
      using text_range [OF q, of 0 lo] text_range [OF q, of hi "length str - hi"] shifted_0 [OF q] le by simp_all
    have "lo + (length str - hi) < SIZE_MAX"
      using le small(2) small_sizes(2) by (meson diff_le_self le_trans)
    then have "copy_outcome ?vm (take lo str @ drop hi str)
        (aivm_vm_copy_string_splice_to_arena alloc block snapshot ?vm q lo (shifted q hi) (length str - hi))"
      using r kept le text_no_zero [OF q] shorter_text(1) [OF small, of lo] shorter_text(1) [OF small, of "length str - hi"]
      by (intro copy_splice_outcome) (auto simp: kept_def dest!: in_set_takeD in_set_dropD)
    from offset_pushed [OF assms(1) k kept this] show ?thesis
      using st False 1 2 q e rune_count_small [OF small(2)] unfolding out
      by (simp add: op_str_remove_def pops push_remove_def Let_def numeral_3_eq_3 bytes_text_parts del: i64_result_Some)
  qed
qed

lemma put_cache_pushed:
  assumes "heap_state p vm" and "0 < k" and "k \<le> vm_stack_count vm"
  shows "gives p vm k (\<lambda>_. VAtom (ValInt i)) (push_and_advance p (put_cache q cache (popped k vm)) (ValInt i))"
  by (rule gives_push [OF assms put_cache_kept [OF popped_running(2) [OF assms(1)]]]) (simp_all add: sound_leaf)

lemma str_find_gives:
  assumes "heap_state p vm" and st: "vm_stack vm = ValInt i # ValString q' # ValString q # rest"
    and q: "cptr_text (vm_string_arena vm) q = Some str" "cptr_text (vm_string_arena vm) q' = Some pat" and "cache_valid vm"
  shows "gives p vm 3 (\<lambda>_. VAtom (ValInt (fst (push_find_by_runes empty_cache (text_bytes str) (text_bytes pat) i)))) (op_str_find p vm)"
proof -
  have k: "0 < (3::nat)" "3 \<le> vm_stack_count vm"
    using st by simp_all
  show ?thesis
    using st q put_cache_pushed [OF assms(1) k, of "fst (push_find_by_runes empty_cache (text_bytes str) (text_bytes pat) i)" q
        "snd (push_find_by_runes (machine_cache vm q (text_bytes str)) (text_bytes str) (text_bytes pat) i)"]
    unfolding rune_results_cache(2) [OF machine_cache_ok [OF assms(5) q(1)], symmetric]
    by (simp add: op_str_find_def pops string_operand_def push_find_def case_prod_unfold advance_after_push numeral_3_eq_3)
qed

lemma code_point_pushed:
  assumes "heap_state p vm" and "0 < k" and "k \<le> vm_stack_count vm"
  shows "gives p vm k (\<lambda>_. VText (Some (case cp of None \<Rightarrow> [] | Some cp \<Rightarrow> c_string (bytes_text (push_string_from_codepoint cp)))))
    (advance_after p (push_code_point alloc block snapshot (popped k vm) cp))"
proof -
  have "length (c_string (bytes_text (push_string_from_codepoint cp))) < SIZE_MAX" for cp
    using code_point_length [of cp] length_takeWhile_le [of "\<lambda>c. c \<noteq> CHR 0x00" "bytes_text (push_string_from_codepoint cp)"]
    by (simp add: c_string_def bytes_text_parts SIZE_MAX_def)
  then show ?thesis
    using external_text_pushed [OF assms] empty_text_pushed [OF assms] by (cases cp) (simp_all add: push_code_point_def)
qed

lemma push_room:
  assumes "heap_state p vm" and "0 < k" and "k \<le> vm_stack_count vm" and "kept (popped k vm) vm1"
  shows "\<exists>vm2. aivm_stack_push vm1 v = (Some (), vm2)"
proof -
  have "vm_stack_count vm1 = vm_stack_count vm - k" "vm_stack_limit vm1 = vm_stack_limit vm"
    using assms(4) by (simp_all add: kept_def same_control_def popped_def)
  then have "vm_stack_count vm1 < vm_stack_limit vm1" "vm_stack_limit vm1 \<le> AIVM_VM_STACK_CAPACITY"
    using assms(1-3) by (auto simp: heap_state_def running_ok_def machine_ok_def vm_bounds_def)
  from stack_push [OF this] show ?thesis
    by blast
qed

section \<open>The text of a value\<close>

lemma hex_nonzero: "CHR 0x00 \<notin> set (bytes_hex bs)"
proof -
  have "hex_char b \<noteq> CHR 0x00" for b
  proof -
    have "unat (b AND 0x0F) < 16"
      using word_and_le1 [of b "0x0F"] by (simp add: word_le_nat_alt and.commute)
    moreover have "CHR 0x00 \<notin> set ''0123456789abcdef''" "length ''0123456789abcdef'' = 16"
      by simp_all
    ultimately show ?thesis
      unfolding hex_char_def by (metis nth_mem)
  qed
  then show ?thesis
    by (auto simp: bytes_hex_def) metis+
qed

lemma hex_length: "length (bytes_hex bs) = 2 + (length bs + length bs)"
  by (induction bs) (auto simp: bytes_hex_def)

text \<open>The text of a value, as far as it has one.\<close>

fun view_string :: "view \<Rightarrow> string option" where
  "view_string (VText str) = str"
| "view_string (VData bs) = map_option bytes_hex bs"
| "view_string (VAtom v) =
     (case v of ValBool b \<Rightarrow> Some (if b then ''true'' else ''false'') | ValVoid \<Rightarrow> Some ''null'' | ValNull \<Rightarrow> Some ''null''
      | ValInt i \<Rightarrow> Some (int_text i) | ValNumber x \<Rightarrow> Some (snprintf 64 [format_g15 x]) | _ \<Rightarrow> None)"
| "view_string _ = None"

lemma bytes_to_string_gives:
  assumes "heap_state p vm" and st: "vm_stack vm = ValBytes d len # rest"
    and d: "data_view (vm_bytes_arena vm) d len = Some bs" "length bs = len"
  shows "gives p vm 1 (\<lambda>_. VText (Some (bytes_hex bs))) (op_to_string alloc block snapshot p vm)"
proof -
  have k: "0 < (1::nat)" "1 \<le> vm_stack_count vm"
    using st by simp_all
  have nonnull: "(0 < len \<and> bptr_data (vm_bytes_arena vm) d len = None) = False"
    using d by (auto simp: data_view_def)
  have fail: "gives p vm 1 vw (fail_with p (popped 1 vm) AIVM_VM_ERR_MEMORY_PRESSURE detail)" for vw detail
    using gives_fail [OF popped_running(1) [OF assms(1)]] by simp
  show ?thesis
  proof (cases "2 + (len + len) + 1 \<le> SIZE_MAX")
    case False
    then show ?thesis
      using st fail by (auto simp: op_to_string_def pops nonnull aivm_size_add_checked_def simp del: size_add_checked_Some size_add_checked_None)
  next
    case True
    obtain r vm1 where 1: "aivm_string_arena_alloc alloc block snapshot (popped 1 vm) (length (bytes_hex bs) + 1) = (r, vm1)"
      by fastforce
    have sz: "aivm_size_add_checked len len = Some (len + len)" "aivm_size_add_checked 2 (len + len) = Some (2 + (len + len))"
      "aivm_size_add_checked (2 + (len + len)) 1 = Some (length (bytes_hex bs) + 1)"
      using True d(2) by (simp_all add: hex_length)
    show ?thesis
      using st d sz 1 new_text_pushed [OF assms(1) k hex_nonzero 1]
      by (cases r) (simp_all add: op_to_string_def pops nonnull del: size_add_checked_Some)
  qed
qed

lemma string_to_string_gives:
  assumes "heap_state p vm" and st: "vm_stack vm = ValString q # rest"
    and q: "cptr_text (vm_string_arena vm) q = Some str" and "length str \<le> nat INT64_MAX"
  shows "gives p vm 1 (\<lambda>_. VText (Some str)) (op_to_string alloc block snapshot p vm)"
proof -
  have k: "0 < (1::nat)" "1 \<le> vm_stack_count vm"
    using st by simp_all
  have c: "copy_outcome (popped 1 vm) str (aivm_vm_copy_string_to_arena alloc block snapshot (popped 1 vm) q)"
    using text_operand_ok [OF assms(1), of q] st q popped_running(2) [OF assms(1)] small_sizes(1) [OF assms(4)]
    by (intro copy_string_outcome) simp_all
  have q0: "q \<noteq> CNull"
    using q by auto
  obtain r vm1 where 1: "aivm_vm_copy_string_to_arena alloc block snapshot (popped 1 vm) q = (r, vm1)"
    by fastforce
  show ?thesis
  proof (cases r)
    case None
    then have "failed (popped 1 vm) vm1"
      using c 1 by (simp add: copy_outcome_def)
    from gives_fail [OF failed_running [OF popped_running(1) [OF assms(1)] this]] show ?thesis
      using None st q0 1 by (simp add: op_to_string_def pops push_string_copy_def)
  next
    case (Some off)
    have k1: "kept (popped 1 vm) vm1" "text_stored vm1 off str"
      using Some c 1 by (simp_all add: copy_outcome_def)
    obtain vm2 where "aivm_stack_push vm1 (ValString (CArena off)) = (Some (), vm2)"
      using push_room [OF assms(1) k k1(1)] by blast
    then show ?thesis
      using Some st q0 1 text_pushed [OF assms(1) k k1] by (simp add: op_to_string_def pops push_string_copy_def push_and_advance_def)
  qed
qed

lemma to_string_gives:
  assumes "heap_state p vm" and st: "vm_stack vm = v # rest" and "view_string (value_view 0 vm v) = Some str"
    and "view_small (value_view 0 vm v)"
  shows "gives p vm 1 (\<lambda>_. VText (Some str)) (op_to_string alloc block snapshot p vm)"
proof -
  have k: "0 < (1::nat)" "1 \<le> vm_stack_count vm"
    using st by simp_all
  have ext: "gives p vm 1 (\<lambda>_. VText (Some str)) (advance_after p (push_string_copy alloc block snapshot (popped 1 vm) (CExt str)))"
    if "c_string str = str" "length str < 100"
    using external_text_pushed [OF assms(1) k, of str alloc block snapshot] that by (simp add: SIZE_MAX_def)
  have lit: "c_string ''true'' = ''true''" "c_string ''false'' = ''false''" "c_string ''null'' = ''null''"
    by (simp_all add: c_string_def)
  show ?thesis
  proof (cases v)
    case (ValString q)
    then show ?thesis
      using assms string_to_string_gives [OF assms(1), of q rest str alloc block snapshot] by simp
  next
    case (ValBytes d len)
    then obtain bs where d: "data_view (vm_bytes_arena vm) d len = Some bs" "str = bytes_hex bs"
      using assms(3) by auto
    have "length bs = len"
      using operand_data(1) [OF d(1) operand_ok [OF assms(1)]] st ValBytes by simp
    then show ?thesis
      using bytes_to_string_gives [OF assms(1) _ d(1), of rest alloc block snapshot] st ValBytes d by simp
  next
    case (ValInt i)
    then show ?thesis
      using assms ext int_text_nonzero [of i] int_text_length [of i] by (simp add: op_to_string_def pops)
  next
    case (ValNumber x)
    then show ?thesis
      using assms ext number_text [of x] by (simp add: op_to_string_def pops)
  qed (use assms ext lit in \<open>auto simp: op_to_string_def pops\<close>)
qed

section \<open>Properties\<close>

text \<open>The abstract instructions, on the views of the operands, top first. \<open>None\<close> is an error.\<close>

definition result_of_string :: "AivmOpcode \<Rightarrow> string \<Rightarrow> view option" where
  "result_of_string c str =
     (let code_point = (\<lambda>cp. VText (Some (case cp of None \<Rightarrow> [] | Some cp \<Rightarrow> c_string (bytes_text (push_string_from_codepoint cp))))) in
      if c = AIVM_OP_STR_ESCAPE then Some (VText (Some (escape_text str)))
      else if c = AIVM_OP_STR_DECODE_UNICODE_HEX4 then Some (code_point (aivm_hex4_to_u32 (Some str)))
      else if c = AIVM_OP_STR_UTF8_BYTE_COUNT then Some (VAtom (ValInt (int (length str))))
      else if c = AIVM_OP_STR_SCALAR_LENGTH then Some (VAtom (ValInt (int (scalar_count str))))
      else None)"

definition result_of_strings :: "AivmOpcode \<Rightarrow> string \<Rightarrow> string \<Rightarrow> view option" where
  "result_of_strings c l r =
     (if c = AIVM_OP_STR_CONCAT then Some (VText (Some (l @ r)))
      else if c = AIVM_OP_STR_DECODE_UNICODE_SURROGATE_PAIR_HEX4
      then Some (VText (Some (case surrogate_pair l r of None \<Rightarrow> [] | Some cp \<Rightarrow> c_string (bytes_text (push_string_from_codepoint cp)))))
      else None)"

definition result_of_range :: "AivmOpcode \<Rightarrow> string \<Rightarrow> int \<Rightarrow> int \<Rightarrow> view option" where
  "result_of_range c str i len =
     (if c = AIVM_OP_STR_SUBSTRING
      then Some (VText (Some (bytes_text (fst (push_substring_by_runes empty_cache (Some (text_bytes str)) i len)))))
      else if c = AIVM_OP_STR_REMOVE
      then map_option (\<lambda>r. VText (Some (bytes_text (fst r)))) (push_remove_by_runes empty_cache (Some (text_bytes str)) i len)
      else None)"

definition string_result :: "AivmOpcode \<Rightarrow> view list \<Rightarrow> view option" where
  "string_result c ws =
     (case ws of
        [x] \<Rightarrow>
          if c = AIVM_OP_TO_STRING then map_option (\<lambda>str. VText (Some str)) (view_string x)
          else (case (view_text x, view_int x) of
             (Some str, _) \<Rightarrow> result_of_string c str
           | (_, Some i) \<Rightarrow>
               if c = AIVM_OP_STR_FROM_CODEPOINT
               then Some (VText (Some (if i < 0 then [] else c_string (bytes_text (push_string_from_codepoint (word_of_int i)))))) else None
           | _ \<Rightarrow> None)
      | [x, y] \<Rightarrow> (case (view_text y, view_text x) of (Some l, Some r) \<Rightarrow> result_of_strings c l r | _ \<Rightarrow> None)
      | [x, y, z] \<Rightarrow>
          (case (view_text z, view_int y, view_text y, view_int x) of
             (Some str, Some i, _, Some len) \<Rightarrow> result_of_range c str i len
           | (Some str, _, Some pat, Some i) \<Rightarrow>
               if c = AIVM_OP_STR_FIND
               then Some (VAtom (ValInt (fst (push_find_by_runes empty_cache (text_bytes str) (text_bytes pat) i)))) else None
           | _ \<Rightarrow> None)
      | _ \<Rightarrow> None)"

lemma string_operand_computes:
  assumes "heap_state p vm" and st: "vm_stack vm = ValString q # rest" and q: "cptr_text (vm_string_arena vm) q = Some str"
    and len: "length str \<le> nat INT64_MAX" and "result_of_string (opcode i) str = Some w"
  shows "gives p vm 1 (\<lambda>_. w) (string_ops alloc block snapshot p other i vm)"
proof -
  have k: "0 < (1::nat)" "1 \<le> vm_stack_count vm"
    using st by simp_all
  have n: "\<not> int (length str) > INT64_MAX"
    using len by (simp add: INT64_MAX_def)
  show ?thesis
    using assms(5) st q n str_escape_gives [OF assms(1) st q len] int_pushed [OF assms(1) k]
      code_point_pushed [OF assms(1) k, of "aivm_hex4_to_u32 (Some str)"]
    by (auto simp: result_of_string_def Let_def string_ops_def op_str_decode_unicode_hex4_def op_str_utf8_byte_count_def
        op_str_scalar_length_def pops string_operand_def split: if_splits)
qed

lemma strings_operands_compute:
  assumes "heap_state p vm" and st: "vm_stack vm = ValString q' # ValString q # rest"
    and q: "cptr_text (vm_string_arena vm) q = Some str" "cptr_text (vm_string_arena vm) q' = Some str'"
    and len: "length str \<le> nat INT64_MAX" "length str' \<le> nat INT64_MAX" and "alloc (length str + 1)" "alloc (length str' + 1)"
    and "result_of_strings (opcode i) str str' = Some w"
  shows "gives p vm 2 (\<lambda>_. w) (string_ops alloc block snapshot p other i vm)"
proof -
  have k: "0 < (2::nat)" "2 \<le> vm_stack_count vm"
    using st by simp_all
  show ?thesis
    using assms(9) st q str_concat_gives [OF assms(1) st q len assms(7,8)]
      code_point_pushed [OF assms(1) k, of "surrogate_pair str str'"]
    by (auto simp: result_of_strings_def string_ops_def Let_def op_str_decode_surrogate_pair_def pops string_operand_def numeral_2_eq_2
        split: if_splits)
qed

lemma range_operands_compute:
  assumes "heap_state p vm" and st: "vm_stack vm = ValInt len # ValInt j # ValString q # rest"
    and q: "cptr_text (vm_string_arena vm) q = Some str" and "cache_valid vm"
    and small: "copies_fit alloc (VText (Some str))" "length str \<le> nat INT64_MAX"
    and "result_of_range (opcode i) str j len = Some w"
  shows "gives p vm 3 (\<lambda>_. w) (string_ops alloc block snapshot p other i vm)"
  using assms(7) str_substring_gives [OF assms(1) st q assms(4) small] str_remove_gives [OF assms(1) st q assms(4) small]
  by (auto simp: result_of_range_def string_ops_def Let_def split: if_splits)

lemma small_text_operand:
  assumes "value_view 0 vm v = VText (Some str)" and "view_small (value_view 0 vm v) \<and> copies_fit alloc (value_view 0 vm v)"
  shows "\<exists>q. v = ValString q \<and> cptr_text (vm_string_arena vm) q = Some str \<and> length str \<le> nat INT64_MAX \<and>
    copies_fit alloc (VText (Some str)) \<and> alloc (length str + 1)"
  using view_operand(2) [OF assms(1)] assms by auto


definition string_stack_demo :: AivmHeapVm where
  "string_stack_demo = pair_demo\<lparr>vm_stack := [ValString (CExt ''cd''), ValString (CExt ''ab'')]\<rparr>"

lemma heap_demo_cache: "vm_utf8_offset_cache_text heap_demo = None"
  by (simp add: heap_demo_def AivmMapVm.defs)


end
