(* ===== verification/Node_Create.thy ===== *)
theory Node_Create
  imports String_Instructions
begin

text \<open>
  Creation of a node (\<^verbatim>\<open>src/src/aivm_vm_node_create.c\<close>): the texts are read first, room for them is reserved in the
  string arena, the node arenas are grown or collected, and the record, its attributes and its children are
  written. The children are read from an array of the caller. It is a function of the machine here, because the array of a
  node builder is renumbered by the collector while the creation still reads it.
\<close>

section \<open>Sequences of steps that may fail\<close>

definition then_do :: "'b option \<times> 'a vm \<Rightarrow> ('b \<Rightarrow> 'a vm \<Rightarrow> 'c option \<times> 'a vm) \<Rightarrow> 'c option \<times> 'a vm" where
  "then_do result continue = (case result of (None, vm) \<Rightarrow> (None, vm) | (Some x, vm) \<Rightarrow> continue x vm)"

lemma then_do_simps [simp]: "then_do (None, vm) f = (None, vm)" "then_do (Some x, vm) f = f x vm"
  by (simp_all add: then_do_def)

fun each_then ::
  "('a vm \<Rightarrow> 'b \<Rightarrow> 'c option \<times> 'a vm) \<Rightarrow> 'b list \<Rightarrow> 'a vm \<Rightarrow> 'c list option \<times> 'a vm" where
  "each_then f [] vm = (Some [], vm)"
| "each_then f (x # xs) vm = then_do (f vm x) (\<lambda>y vm. then_do (each_then f xs vm) (\<lambda>ys vm. (Some (y # ys), vm)))"

section \<open>Reading the texts\<close>

definition snapshot_node_input_copy :: "(nat \<Rightarrow> bool) \<Rightarrow> nat \<Rightarrow> bool" where
  "snapshot_node_input_copy alloc len = (case aivm_size_add_checked len 1 of None \<Rightarrow> False | Some bytes_needed \<Rightarrow> alloc bytes_needed)"

text \<open>The text of the source, which stays readable while the arena is changed.\<close>

definition snapshot_node_input_string :: "(nat \<Rightarrow> bool) \<Rightarrow> 'a heap_vm \<Rightarrow> cptr \<Rightarrow> string option \<times> 'a heap_vm" where
  "snapshot_node_input_string alloc vm p =
     (let fail = (\<lambda>detail. (None, aivm_set_vm_error vm AIVM_VM_ERR_MEMORY_PRESSURE detail)) in
      case cptr_text (vm_string_arena vm) p of
        None \<Rightarrow> (None, vm)
      | Some str \<Rightarrow>
          if length str > SIZE_MAX then fail ''AIVMM001: string snapshot length overflow.''
          else if \<not> aivm_pointer_in_string_arena vm p then (Some str, vm)
          else if \<not> snapshot_node_input_copy alloc (length str) then fail ''AIVMM001: string snapshot allocation failed.''
          else (Some str, vm))"

definition or_empty :: "cptr \<Rightarrow> cptr" where
  "or_empty p = (if p = CNull then CExt '''' else p)"

definition snapshot_node_attr :: "(nat \<Rightarrow> bool) \<Rightarrow> 'a heap_vm \<Rightarrow> cptr AivmNodeAttr \<Rightarrow> string AivmNodeAttr option \<times> 'a heap_vm" where
  "snapshot_node_attr alloc vm attr =
     then_do (snapshot_node_input_string alloc vm (or_empty (attr_key attr))) (\<lambda>key vm.
       case attr_value attr of
         AIVM_NODE_ATTR_IDENTIFIER p \<Rightarrow>
           then_do (snapshot_node_input_string alloc vm (or_empty p)) (\<lambda>str vm. (Some (NodeAttr key (AIVM_NODE_ATTR_IDENTIFIER str)), vm))
       | AIVM_NODE_ATTR_STRING p \<Rightarrow>
           then_do (snapshot_node_input_string alloc vm (or_empty p)) (\<lambda>str vm. (Some (NodeAttr key (AIVM_NODE_ATTR_STRING str)), vm))
       | AIVM_NODE_ATTR_INT i \<Rightarrow> (Some (NodeAttr key (AIVM_NODE_ATTR_INT i)), vm)
       | AIVM_NODE_ATTR_BOOL b \<Rightarrow> (Some (NodeAttr key (AIVM_NODE_ATTR_BOOL b)), vm))"

section \<open>Room for the texts\<close>

definition add_text_size :: "string \<Rightarrow> nat option \<Rightarrow> nat option" where
  "add_text_size str acc =
     (case (acc, aivm_size_add_checked (length str) 1) of
        (Some n, Some bytes) \<Rightarrow> aivm_size_add_checked n bytes
      | _ \<Rightarrow> None)"

fun attr_texts :: "string AivmNodeAttr \<Rightarrow> string list" where
  "attr_texts (NodeAttr key (AIVM_NODE_ATTR_IDENTIFIER str)) = [key, str]"
| "attr_texts (NodeAttr key (AIVM_NODE_ATTR_STRING str)) = [key, str]"
| "attr_texts (NodeAttr key _) = [key]"

definition node_text_reserve :: "string \<Rightarrow> string \<Rightarrow> string AivmNodeAttr list \<Rightarrow> nat option" where
  "node_text_reserve kind ident attrs =
     (case aivm_size_add_checked (length kind) 1 of
        None \<Rightarrow> None
      | Some n \<Rightarrow>
          (case aivm_size_add_checked n (length ident) of
             None \<Rightarrow> None
           | Some n \<Rightarrow> fold add_text_size (concat (map attr_texts attrs)) (aivm_size_add_checked n 1)))"

definition reserve_node_texts ::
  "(nat \<Rightarrow> bool) \<Rightarrow> nat \<Rightarrow> (nat \<times> nat) option \<Rightarrow> 'a heap_vm \<Rightarrow> string \<Rightarrow> string \<Rightarrow> string AivmNodeAttr list \<Rightarrow> unit option \<times> 'a heap_vm" where
  "reserve_node_texts alloc block snapshot vm kind ident attrs =
     (case node_text_reserve kind ident attrs of
        None \<Rightarrow> (None, aivm_set_vm_error vm AIVM_VM_ERR_MEMORY_PRESSURE ''AIVMM001: node string reservation overflow.'')
      | Some string_reserve \<Rightarrow>
          (case aivm_string_arena_reserve alloc block snapshot vm string_reserve of
             (False, vm) \<Rightarrow> (None, vm)
           | (True, vm) \<Rightarrow> (Some (), vm)))"

section \<open>Room for the node\<close>

text \<open>The scratch arrays are allocated once and cleared when they are used again.\<close>

definition prepare_compaction_scratch :: "(nat \<Rightarrow> bool) \<Rightarrow> 'a heap_vm \<Rightarrow> nat \<Rightarrow> unit option \<times> 'a heap_vm" where
  "prepare_compaction_scratch alloc vm child_count =
     (if alloc ((vm_node_capacity vm + 1) * 8) \<and> (child_count > 0 \<longrightarrow> alloc (child_count * 8)) then (Some (), vm)
      else (None, aivm_set_vm_error vm AIVM_VM_ERR_MEMORY_PRESSURE ''AIVMM005: node compaction scratch allocation failed.''))"

text \<open>A collection that follows the children; the answer is where the children are read from then on.\<close>

definition collect_for_node ::
  "string \<Rightarrow> (nat \<Rightarrow> bool) \<Rightarrow> 'a heap_vm \<Rightarrow> ('a heap_vm \<Rightarrow> int list) \<Rightarrow> ('a heap_vm \<Rightarrow> int list) option \<times> 'a heap_vm" where
  "collect_for_node detail alloc vm children =
     then_do (prepare_compaction_scratch alloc vm (length (children vm))) (\<lambda>_ vm.
       then_do (aivm_vm_compact_node_arenas_with_map alloc vm (children vm)) (\<lambda>handle_map vm.
         case aivm_vm_remap_child_handles_for_compaction vm handle_map (children vm) of
           (_, None) \<Rightarrow> (None, aivm_set_vm_error vm AIVM_VM_ERR_INVALID_PROGRAM detail)
         | (remapped_children, Some _) \<Rightarrow>
             (Some (if remapped_children = [] then children else (\<lambda>_. remapped_children)), vm\<lparr>vm_node_allocations_since_gc := 0\<rparr>)))"

definition collect_before_node ::
  "(nat \<Rightarrow> bool) \<Rightarrow> (nat \<times> nat) option \<Rightarrow> 'a heap_vm \<Rightarrow> nat \<Rightarrow> nat \<Rightarrow> ('a heap_vm \<Rightarrow> int list) \<Rightarrow>
   ('a heap_vm \<Rightarrow> int list) option \<times> 'a heap_vm" where
  "collect_before_node alloc snapshot vm attr_count child_count children =
     (if \<not> aivm_vm_should_attempt_proactive_node_gc vm attr_count child_count then (Some children, vm)
      else case aivm_vm_try_grow_node_arenas alloc snapshot vm ((vm_node_count vm + 1) mod (SIZE_MAX + 1))
        ((length (vm_node_attrs vm) + attr_count) mod (SIZE_MAX + 1)) ((length (vm_node_children vm) + child_count) mod (SIZE_MAX + 1)) of
        (True, vm) \<Rightarrow> (Some children, vm)
      | (False, vm) \<Rightarrow> collect_for_node ''Invalid child handle remap during proactive node GC.'' alloc vm children)"

definition node_arena_full :: "'a heap_vm \<Rightarrow> 'b option \<times> 'a heap_vm" where
  "node_arena_full vm =
     (None, aivm_set_vm_error
        (vm\<lparr>vm_heap_counters := (vm_heap_counters vm)
             \<lparr>node_arena_pressure_count := aivm_counter_increment_saturating (node_arena_pressure_count (vm_heap_counters vm))\<rparr>\<rparr>)
        AIVM_VM_ERR_MEMORY_PRESSURE ''AIVMM005: node arena capacity exceeded.'')"

definition needed_counts :: "'a heap_vm \<Rightarrow> nat \<Rightarrow> nat \<Rightarrow> (nat \<times> nat \<times> nat) option" where
  "needed_counts vm attr_count child_count =
     (case (aivm_size_add_checked (length (vm_node_attrs vm)) attr_count,
            aivm_size_add_checked (length (vm_node_children vm)) child_count, aivm_size_add_checked (vm_node_count vm) 1) of
        (Some a, Some c, Some n) \<Rightarrow> Some (n, a, c)
      | _ \<Rightarrow> None)"

definition node_room :: "'a heap_vm \<Rightarrow> nat \<times> nat \<times> nat \<Rightarrow> bool" where
  "node_room vm needed \<longleftrightarrow>
     (case needed of (n, a, c) \<Rightarrow> n \<le> vm_node_capacity vm \<and> a \<le> vm_node_attr_capacity vm \<and> c \<le> vm_node_child_capacity vm)"

definition collect_when_full ::
  "(nat \<Rightarrow> bool) \<Rightarrow> 'a heap_vm \<Rightarrow> nat \<Rightarrow> nat \<Rightarrow> ('a heap_vm \<Rightarrow> int list) \<Rightarrow> ('a heap_vm \<Rightarrow> int list) option \<times> 'a heap_vm" where
  "collect_when_full alloc vm attr_count child_count children =
     (case needed_counts vm attr_count child_count of
        None \<Rightarrow> node_arena_full vm
      | Some needed \<Rightarrow>
          if node_room vm needed then (Some children, vm)
          else then_do (collect_for_node ''Invalid child handle remap during node GC.'' alloc vm children) (\<lambda>children vm.
            case needed_counts vm attr_count child_count of
              None \<Rightarrow> node_arena_full vm
            | Some needed \<Rightarrow> if node_room vm needed then (Some children, vm) else node_arena_full vm))"

section \<open>Writing the node\<close>

definition store_node_attr ::
  "(nat \<Rightarrow> bool) \<Rightarrow> nat \<Rightarrow> (nat \<times> nat) option \<Rightarrow> 'a heap_vm \<Rightarrow> nat \<times> string AivmNodeAttr \<Rightarrow> cptr AivmNodeAttr option \<times> 'a heap_vm" where
  "store_node_attr alloc block snapshot vm entry =
     (let copy = (\<lambda>vm str. aivm_vm_copy_string_to_arena alloc block snapshot vm (CExt str)) in
      case entry of (i, attr) \<Rightarrow>
        (case aivm_size_add_checked (length (vm_node_attrs vm)) i of
           None \<Rightarrow> node_arena_full vm
         | Some attr_slot \<Rightarrow>
             if attr_slot \<ge> vm_node_attr_capacity vm then node_arena_full vm
             else then_do (copy vm (attr_key attr)) (\<lambda>key vm.
               case attr_value attr of
                 AIVM_NODE_ATTR_IDENTIFIER str \<Rightarrow>
                   then_do (copy vm str) (\<lambda>off vm. (Some (NodeAttr (CArena key) (AIVM_NODE_ATTR_IDENTIFIER (CArena off))), vm))
               | AIVM_NODE_ATTR_STRING str \<Rightarrow>
                   then_do (copy vm str) (\<lambda>off vm. (Some (NodeAttr (CArena key) (AIVM_NODE_ATTR_STRING (CArena off))), vm))
               | AIVM_NODE_ATTR_INT i \<Rightarrow> (Some (NodeAttr (CArena key) (AIVM_NODE_ATTR_INT i)), vm)
               | AIVM_NODE_ATTR_BOOL b \<Rightarrow> (Some (NodeAttr (CArena key) (AIVM_NODE_ATTR_BOOL b)), vm))))"

definition child_slots_fit :: "'a heap_vm \<Rightarrow> nat \<Rightarrow> bool" where
  "child_slots_fit vm child_count \<longleftrightarrow>
     list_all (\<lambda>i. case aivm_size_add_checked (length (vm_node_children vm)) i of
         None \<Rightarrow> False | Some child_slot \<Rightarrow> child_slot < vm_node_child_capacity vm) [0..<child_count]"

definition append_node :: "nat \<Rightarrow> nat \<Rightarrow> cptr AivmNodeAttr list \<Rightarrow> int list \<Rightarrow> 'a heap_vm \<Rightarrow> 'a heap_vm" where
  "append_node kind ident attrs children vm =
     vm\<lparr>vm_nodes := vm_nodes vm @
          [\<lparr>node_kind = CArena kind, node_id = CArena ident, node_attr_start = length (vm_node_attrs vm),
            node_attr_count = length attrs, node_child_start = length (vm_node_children vm), node_child_count = length children\<rparr>],
        vm_node_attrs := vm_node_attrs vm @ attrs, vm_node_children := vm_node_children vm @ children\<rparr>"

definition count_node :: "'a heap_vm \<Rightarrow> 'a heap_vm" where
  "count_node vm =
     vm\<lparr>vm_heap_counters := (vm_heap_counters vm)
          \<lparr>node_high_water := max (node_high_water (vm_heap_counters vm)) (vm_node_count vm),
           node_attr_high_water := max (node_attr_high_water (vm_heap_counters vm)) (length (vm_node_attrs vm)),
           node_child_high_water := max (node_child_high_water (vm_heap_counters vm)) (length (vm_node_children vm))\<rparr>,
        vm_node_allocations_since_gc :=
          (case aivm_size_add_checked (vm_node_allocations_since_gc vm) 1 of
             None \<Rightarrow> vm_node_allocations_since_gc vm | Some n \<Rightarrow> n)\<rparr>"

definition write_node ::
  "(nat \<Rightarrow> bool) \<Rightarrow> nat \<Rightarrow> (nat \<times> nat) option \<Rightarrow> 'a heap_vm \<Rightarrow> string \<Rightarrow> string \<Rightarrow> string AivmNodeAttr list \<Rightarrow>
   ('a heap_vm \<Rightarrow> int list) \<Rightarrow> int option \<times> 'a heap_vm" where
  "write_node alloc block snapshot vm kind ident attrs children =
     (case aivm_vm_copy_string_to_arena alloc block snapshot vm (CExt kind) of (kind_off, vm) \<Rightarrow>
        (case aivm_vm_copy_string_to_arena alloc block snapshot vm (CExt ident) of (id_off, vm) \<Rightarrow>
           (case (kind_off, id_off) of
              (Some k, Some i) \<Rightarrow>
                then_do (each_then (store_node_attr alloc block snapshot) (enumerate 0 attrs) vm) (\<lambda>stored vm.
                  if \<not> child_slots_fit vm (length (children vm)) then node_arena_full vm
                  else let vm = count_node (append_node k i stored (children vm) vm) in (Some (int (vm_node_count vm)), vm))
            | _ \<Rightarrow> (None, vm))))"

section \<open>Creation\<close>

definition node_scratch :: "(nat \<Rightarrow> bool) \<Rightarrow> 'a heap_vm \<Rightarrow> nat \<Rightarrow> unit option \<times> 'a heap_vm" where
  "node_scratch alloc vm attr_count =
     (if attr_count > 0 \<and> \<not> (alloc (attr_count * sizeof_AivmNodeAttr) \<and> alloc (attr_count * 8))
      then (None, aivm_set_vm_error vm AIVM_VM_ERR_MEMORY_PRESSURE ''AIVMM005: node allocation scratch allocation failed.'')
      else (Some (), vm))"

definition aivm_vm_create_node_record ::
  "(nat \<Rightarrow> bool) \<Rightarrow> nat \<Rightarrow> (nat \<times> nat) option \<Rightarrow> 'a heap_vm \<Rightarrow> cptr \<Rightarrow> cptr \<Rightarrow> cptr AivmNodeAttr list \<Rightarrow>
   ('a heap_vm \<Rightarrow> int list) \<Rightarrow> int option \<times> 'a heap_vm" where
  "aivm_vm_create_node_record alloc block snapshot vm kind ident attrs children =
     (let attr_count = length attrs; child_count = length (children vm) in
      if kind = CNull \<or> ident = CNull then (None, vm)
      else
        then_do (node_scratch alloc vm attr_count) (\<lambda>_ vm.
        then_do (snapshot_node_input_string alloc vm kind) (\<lambda>kind_source vm.
        then_do (snapshot_node_input_string alloc vm ident) (\<lambda>id_source vm.
        then_do (each_then (snapshot_node_attr alloc) attrs vm) (\<lambda>stable_attrs vm.
        then_do (reserve_node_texts alloc block snapshot vm kind_source id_source stable_attrs) (\<lambda>_ vm.
        then_do (collect_before_node alloc snapshot vm attr_count child_count children) (\<lambda>children vm.
        then_do (collect_when_full alloc vm attr_count child_count children) (\<lambda>children vm.
          write_node alloc block snapshot vm kind_source id_source stable_attrs children))))))))"

section \<open>Texts that fit\<close>

text \<open>The machine with a text more in its string arena; nothing else that a value leads to has changed.\<close>

definition appended :: "nat \<Rightarrow> 'a heap_vm \<Rightarrow> 'a heap_vm \<Rightarrow> bool" where
  "appended n vm vm' \<longleftrightarrow>
     (\<exists>t. extended_arena t vm vm' \<and> terminated t \<and> length t \<le> n) \<and> string_arena_ok vm' \<and>
     vm_string_arena_limit vm' = vm_string_arena_limit vm \<and> vm_node_builders vm' = vm_node_builders vm \<and>
     same_control vm vm' \<and> no_new_error vm vm'"

lemma appended_refl: "collectable vm \<Longrightarrow> appended n vm vm"
  by (auto simp: appended_def extended_arena_def collectable_def terminated_def intro!: exI [of _ "[]"])

lemma terminated_appended: "terminated t \<Longrightarrow> terminated u \<Longrightarrow> terminated (t @ u)"
  by (auto simp: terminated_def last_append)

lemma appended_trans:
  assumes "appended n vm vm1" and "appended m vm1 vm2"
  shows "appended (n + m) vm vm2"
proof -
  obtain t u where t: "extended_arena t vm vm1" "terminated t" "length t \<le> n" and u: "extended_arena u vm1 vm2" "terminated u" "length u \<le> m"
    using assms by (auto simp: appended_def)
  have "extended_arena (t @ u) vm vm2"
    using t(1) u(1) by (simp add: extended_arena_def)
  then show ?thesis
    using assms t u terminated_appended [OF t(2) u(2)] same_control_trans [of vm vm1 vm2] no_new_error_trans [of vm vm1 vm2]
    unfolding appended_def by (intro conjI exI [of _ "t @ u"]) auto
qed

lemma appended_fields:
  assumes "appended n vm vm'"
  shows "vm_nodes vm' = vm_nodes vm" "vm_node_attrs vm' = vm_node_attrs vm" "vm_node_children vm' = vm_node_children vm"
    "vm_node_capacity vm' = vm_node_capacity vm" "vm_node_attr_capacity vm' = vm_node_attr_capacity vm"
    "vm_node_child_capacity vm' = vm_node_child_capacity vm" "vm_string_arena_used vm' \<le> vm_string_arena_used vm + n"
    "vm_string_arena_limit vm' = vm_string_arena_limit vm" "vm_node_builders vm' = vm_node_builders vm"
  using assms by (auto simp: appended_def extended_arena_def)

lemma appended_kept:
  assumes "collectable vm" and "appended n vm vm'"
  shows "kept vm vm'"
proof -
  obtain t where "extended_arena t vm vm'" "terminated t"
    using assms(2) by (auto simp: appended_def)
  with extended_arena_keeps [OF _ this, of] show ?thesis
    using assms by (simp add: kept_def collectable_def appended_def)
qed

lemma appended_sound:
  assumes "collectable vm" and "appended n vm vm'" and "sound vm v"
  shows "sound vm' v" and "value_view k vm' v = value_view k vm v"
proof -
  obtain t where t: "extended_arena t vm vm'"
    using assms(2) by (auto simp: appended_def)
  define R where "R = (\<lambda>v v'. v' = v \<and> sound vm v)"
  have f: "vm_scratch_pairs vm' = vm_scratch_pairs vm" "vm_nodes vm' = vm_nodes vm" "vm_node_attrs vm' = vm_node_attrs vm"
    "vm_node_children vm' = vm_node_children vm" "vm_string_arena vm' = vm_string_arena vm @ t" "vm_bytes_arena vm' = vm_bytes_arena vm"
    using t by (simp_all add: extended_arena_def)
  note l = heap_fields_cong [OF f(2-4)]
  have pairs: "aivm_vm_lookup_scratch_pair vm' = aivm_vm_lookup_scratch_pair vm"
    using f(1) by (simp add: aivm_vm_lookup_scratch_pair_def fun_eq_iff)
  have zero: "terminated (vm_string_arena vm)"
    using assms(1) by (simp add: collectable_def heap_ok_def heap_closed_def)
  note app = cstring_ok_append [OF zero, of _ t]
  have one: "similar vm vm' R v v \<and> value_ok vm' v" if s: "sound vm v" for v
  proof -
    note ok = sound_value_ok [OF s]
    show ?thesis
    proof (cases v)
      case (ValPair h)
      then show ?thesis
        using s ok sound_parts(1) [of vm h] by (auto simp: pairs f(1) R_def lookup_pair_iff)
    next
      case (ValNode h)
      let ?node = "vm_nodes vm ! nat (h - 1)"
      have n: "aivm_vm_lookup_node vm h = Some ?node"
        using ok ValNode by (auto simp: lookup_node_iff)
      have texts: "cstring_ok (vm_string_arena vm) (node_kind ?node)" "cstring_ok (vm_string_arena vm) (node_id ?node)"
        "\<And>a p. a \<in> set (node_attrs vm ?node) \<Longrightarrow> p \<in> set_AivmNodeAttr a \<Longrightarrow> cstring_ok (vm_string_arena vm) p"
        using ok ValNode by (auto simp: node_texts_def)
      have "map (map_AivmNodeAttr (cptr_text (vm_string_arena vm @ t))) (node_attrs vm ?node) =
          map (map_AivmNodeAttr (cptr_text (vm_string_arena vm))) (node_attrs vm ?node)"
        using app(2) texts(3) by (auto intro!: AivmNodeAttr.map_cong)
      moreover have "list_all2 (\<lambda>c c'. R (ValNode c) (ValNode c')) (node_children vm ?node) (node_children vm ?node)"
        using sound_parts(2) [OF s [unfolded ValNode] n] by (auto simp: list_all2_same R_def)
      moreover have "value_ok vm' v"
        using ok ValNode app(1) by (auto simp: f l node_texts_def)
      ultimately show ?thesis
        using n ValNode app(2) texts by (simp add: l f)
    qed (use ok app in \<open>auto simp: f\<close>)
  qed
  have sim: "similar vm vm' R v v'" if "R v v'" for v v'
    using that one unfolding R_def by blast
  show "value_view k vm' v = value_view k vm v"
    using view_similar [of R vm vm' v v k, OF sim] assms(3) by (simp add: R_def)
  have "reach vm {v} w" if "reach vm' {v} w" for w
    using that by (induction rule: reach.induct) (auto intro: reach.intros simp: pairs l)
  then show "sound vm' v"
    unfolding sound_def [of vm' v] using one sound_reach [OF assms(3)] by blast
qed

lemma appended_text:
  assumes "collectable vm" and "appended n vm vm'" and "text_stored vm off str"
  shows "text_stored vm' off str"
proof -
  have v: "sound vm (ValString (CArena off))"
    using text_stored_value [OF assms(3)] by (intro sound_leaf) simp_all
  show ?thesis
    using appended_sound [OF assms(1,2) v] sound_value_ok [of vm' "ValString (CArena off)"] text_stored_value [OF assms(3)]
    by (auto simp: text_stored_def cstring_ok_def)
qed

lemma room_without_collection:
  assumes "string_arena_ok vm" and "vm_string_arena_used vm + n \<le> vm_string_arena_limit vm"
  shows "string_arena_room alloc block snapshot vm n = (Some (vm_string_arena_used vm + n), vm)"
proof -
  have "aivm_size_add_checked (vm_string_arena_used vm) n = Some (vm_string_arena_used vm + n)"
    using assms by (simp add: string_arena_ok_def)
  then show ?thesis
    using assms(2) by (simp add: string_arena_room_def Let_def del: size_add_checked_Some)
qed

lemma reindexed_builders: "reindexed vm vm' \<Longrightarrow> vm_node_builders vm' = vm_node_builders vm"
  unfolding reindexed_def by (erule ssubst) simp

lemma copy_with_room:
  assumes "collectable vm" and "CHR 0x00 \<notin> set str" and "vm_string_arena_used vm + (length str + 1) \<le> vm_string_arena_limit vm"
  shows "\<exists>off vm'. aivm_vm_copy_string_to_arena alloc block snapshot vm (CExt str) = (Some off, vm') \<and>
    appended (length str + 1) vm vm' \<and> text_stored vm' off str"
proof -
  have ok: "string_arena_ok vm" and zero: "terminated (vm_string_arena vm)"
    using assms(1) by (simp_all add: collectable_def heap_ok_def heap_closed_def)
  have str: "c_string str = str"
    using assms(2) by (auto simp: c_string_def takeWhile_eq_all_conv)
  have fits: "aivm_size_add_checked (length str) 1 = Some (length str + 1)"
    using assms(3) ok by (simp add: string_arena_ok_def)
  show ?thesis
  proof (cases "lookup_text vm str")
    case (Some off)
    then have "aivm_vm_copy_string_to_arena alloc block snapshot vm (CExt str) = (Some off, vm)"
      by (simp add: aivm_vm_copy_string_to_arena_def lookup_string_in_arena_def str)
    then show ?thesis
      using lookup_text_sound [OF collectable_index [OF assms(1)] Some] appended_refl [OF assms(1)] by blast
  next
    case None
    let ?off = "vm_string_arena_used vm" and ?n = "vm_string_arena_used vm + (length str + 1)"
    define vm1 where "vm1 = write_text ?off str (vm\<lparr>vm_string_arena := vm_string_arena vm @ replicate (length str + 1) (CHR 0x00),
      vm_heap_counters := (vm_heap_counters vm)\<lparr>string_arena_high_water := max (string_arena_high_water (vm_heap_counters vm)) ?n\<rparr>\<rparr>)"
    define vm2 where "vm2 = remember_string_in_index alloc vm1 ?off str"
    have r: "aivm_vm_copy_string_to_arena alloc block snapshot vm (CExt str) = (Some ?off, vm2)"
      using None fits room_without_collection [OF ok assms(3)]
      by (simp add: aivm_vm_copy_string_to_arena_def lookup_string_in_arena_def str aivm_vm_snapshot_arena_backed_string_def
          aivm_pointer_in_string_arena_def store_text_def aivm_string_arena_alloc_def vm2_def vm1_def del: size_add_checked_Some)
    have ext: "extended_arena (str @ [CHR 0x00]) vm vm1"
      by (simp add: vm1_def extended_arena_def write_text_def root_values_def local_values_def fixed_handles_def builder_handles_def)
    have arena: "vm_string_arena vm1 = vm_string_arena vm @ str @ [CHR 0x00]"
      using ext by (simp add: extended_arena_def)
    have stored: "text_stored vm1 ?off str"
      using block_append_new [OF zero assms(2)] arena by (simp add: text_stored_def)
    have i1: "index_ok vm1"
      using ok entry_ok_append [OF zero] arena by (auto simp: string_arena_ok_def index_ok_def) (auto simp: vm1_def write_text_def)
    have i2: "index_ok vm2" "reindexed vm1 vm2"
      using remember_keeps_index [of vm1 ?off str alloc] i1 stored by (auto simp: vm2_def text_stored_def)
    have same: "same_heap vm1 vm2" "vm_string_arena vm2 = vm_string_arena vm1"
      using reindexed_same_heap [OF i2(2)] reindexed_arena [OF i2(2)] by simp_all
    have "extended_arena (str @ [CHR 0x00]) vm vm2"
      using ext same by (simp add: extended_arena_def same_heap_def)
    moreover have "string_arena_ok vm2"
      using ok assms(3) i2(1) reindexed_limits [OF i2(2)] same(2) arena
      by (simp add: string_arena_ok_def) (simp add: vm1_def write_text_def)
    moreover have "vm_string_arena_limit vm2 = vm_string_arena_limit vm"
      using reindexed_limits [OF i2(2)] by (simp add: vm1_def write_text_def)
    moreover have "vm_node_builders vm2 = vm_node_builders vm"
      using reindexed_builders [OF i2(2)] by (simp add: vm1_def write_text_def)
    moreover have "same_control vm vm2" "no_new_error vm vm2"
      using reindexed_keeps [OF i2(2)] by (simp_all add: vm1_def write_text_def same_control_def no_new_error_def)
    ultimately have "appended (length str + 1) vm vm2"
      by (auto simp: appended_def terminated_def intro!: exI [of _ "str @ [CHR 0x00]"])
    then show ?thesis
      using r stored same(2) by (auto simp: text_stored_def)
  qed
qed

section \<open>Attributes that are stored\<close>

definition text_sizes :: "string list \<Rightarrow> nat" where
  "text_sizes strs = sum_list (map (\<lambda>str. length str + 1) strs)"

lemma text_sizes_simps [simp]: "text_sizes [] = 0" "text_sizes (str # strs) = length str + 1 + text_sizes strs"
  "text_sizes (strs @ strs') = text_sizes strs + text_sizes strs'"
  by (simp_all add: text_sizes_def)

definition attr_stored :: "'a heap_vm \<Rightarrow> cptr AivmNodeAttr \<Rightarrow> string AivmNodeAttr \<Rightarrow> bool" where
  "attr_stored vm stored attr \<longleftrightarrow>
     (\<forall>p \<in> set_AivmNodeAttr stored. cstring_ok (vm_string_arena vm) p) \<and>
     map_AivmNodeAttr (cptr_text (vm_string_arena vm)) stored = map_AivmNodeAttr Some attr"

lemma appended_attr:
  assumes "collectable vm" and "appended n vm vm'" and "attr_stored vm stored attr"
  shows "attr_stored vm' stored attr"
proof -
  have s: "sound vm (ValString p)" if "p \<in> set_AivmNodeAttr stored" for p
    using assms(3) that by (intro sound_leaf) (simp_all add: attr_stored_def)
  have "cptr_text (vm_string_arena vm') p = cptr_text (vm_string_arena vm) p \<and> cstring_ok (vm_string_arena vm') p"
    if "p \<in> set_AivmNodeAttr stored" for p
    using appended_sound [OF assms(1,2) s [OF that]] sound_value_ok [of vm' "ValString p"] by simp
  then show ?thesis
    using assms(3) by (auto simp: attr_stored_def cong: AivmNodeAttr.map_cong)
qed

lemma store_attr_with_room:
  assumes "collectable vm" and "\<forall>str \<in> set (attr_texts attr). CHR 0x00 \<notin> set str"
    and "vm_string_arena_used vm + text_sizes (attr_texts attr) \<le> vm_string_arena_limit vm"
    and "length (vm_node_attrs vm) + i < vm_node_attr_capacity vm"
  shows "\<exists>stored vm'. store_node_attr alloc block snapshot vm (i, attr) = (Some stored, vm') \<and>
    appended (text_sizes (attr_texts attr)) vm vm' \<and> attr_stored vm' stored attr"
proof -
  obtain key v where attr: "attr = NodeAttr key v"
    by (cases attr)
  have slot: "aivm_size_add_checked (length (vm_node_attrs vm)) i = Some (length (vm_node_attrs vm) + i)"
    using assms(1,4) by (simp add: collectable_def heap_ok_def heap_closed_def)
  have k: "CHR 0x00 \<notin> set key" "vm_string_arena_used vm + (length key + 1) \<le> vm_string_arena_limit vm"
    using assms(2,3) attr by (cases v; simp)+
  obtain off1 vm1 where 1: "aivm_vm_copy_string_to_arena alloc block snapshot vm (CExt key) = (Some off1, vm1)"
    "appended (length key + 1) vm vm1" "text_stored vm1 off1 key"
    using copy_with_room [OF assms(1) k] by blast
  note c1 = appended_kept [OF assms(1) 1(2)]
  have run: "store_node_attr alloc block snapshot vm (i, attr) =
      (case v of
         AIVM_NODE_ATTR_IDENTIFIER str \<Rightarrow>
           then_do (aivm_vm_copy_string_to_arena alloc block snapshot vm1 (CExt str))
             (\<lambda>off vm. (Some (NodeAttr (CArena off1) (AIVM_NODE_ATTR_IDENTIFIER (CArena off))), vm))
       | AIVM_NODE_ATTR_STRING str \<Rightarrow>
           then_do (aivm_vm_copy_string_to_arena alloc block snapshot vm1 (CExt str))
             (\<lambda>off vm. (Some (NodeAttr (CArena off1) (AIVM_NODE_ATTR_STRING (CArena off))), vm))
       | AIVM_NODE_ATTR_INT i \<Rightarrow> (Some (NodeAttr (CArena off1) (AIVM_NODE_ATTR_INT i)), vm1)
       | AIVM_NODE_ATTR_BOOL b \<Rightarrow> (Some (NodeAttr (CArena off1) (AIVM_NODE_ATTR_BOOL b)), vm1))"
    using slot assms(4) attr 1(1) by (simp add: store_node_attr_def Let_def del: size_add_checked_Some)
  have second: "\<exists>off vm2. aivm_vm_copy_string_to_arena alloc block snapshot vm1 (CExt str) = (Some off, vm2) \<and>
      appended (length key + 1 + (length str + 1)) vm vm2 \<and> text_stored vm2 off1 key \<and> text_stored vm2 off str"
    if "str \<in> set (attr_texts attr)" "attr_texts attr = [key, str]" for str
  proof -
    have z: "CHR 0x00 \<notin> set str"
      using assms(2) that(1) by blast
    have room: "vm_string_arena_used vm1 + (length str + 1) \<le> vm_string_arena_limit vm1"
      using appended_fields(7,8) [OF 1(2)] assms(3) that(2) by simp
    have c: "collectable vm1"
      using c1 by (simp add: kept_def)
    obtain off vm2 where 2: "aivm_vm_copy_string_to_arena alloc block snapshot vm1 (CExt str) = (Some off, vm2)"
      "appended (length str + 1) vm1 vm2" "text_stored vm2 off str"
      using copy_with_room [OF c z room] by blast
    then show ?thesis
      using appended_trans [OF 1(2) 2(2)] appended_text [OF c 2(2) 1(3)] by blast
  qed
  show ?thesis
  proof (cases v)
    case (AIVM_NODE_ATTR_IDENTIFIER str)
    then show ?thesis
      using second [of str] run attr by (auto simp: attr_stored_def dest!: text_stored_value)
  next
    case (AIVM_NODE_ATTR_STRING str)
    then show ?thesis
      using second [of str] run attr by (auto simp: attr_stored_def dest!: text_stored_value)
  qed (use run attr 1 text_stored_value [OF 1(3)] in \<open>simp_all add: attr_stored_def\<close>)
qed

lemma store_attrs_with_room:
  assumes "collectable vm" and "\<forall>attr \<in> set attrs. \<forall>str \<in> set (attr_texts attr). CHR 0x00 \<notin> set str"
    and "vm_string_arena_used vm + text_sizes (concat (map attr_texts attrs)) \<le> vm_string_arena_limit vm"
    and "length (vm_node_attrs vm) + i + length attrs \<le> vm_node_attr_capacity vm"
  shows "\<exists>stored vm'. each_then (store_node_attr alloc block snapshot) (enumerate i attrs) vm = (Some stored, vm') \<and>
    appended (text_sizes (concat (map attr_texts attrs))) vm vm' \<and> list_all2 (attr_stored vm') stored attrs"
  using assms
proof (induction attrs arbitrary: vm i)
  case Nil
  then show ?case
    using appended_refl by simp
next
  case (Cons attr attrs)
  obtain a1 vm1 where 1: "store_node_attr alloc block snapshot vm (i, attr) = (Some a1, vm1)"
    "appended (text_sizes (attr_texts attr)) vm vm1" "attr_stored vm1 a1 attr"
    using store_attr_with_room [OF Cons.prems(1), of attr i alloc block snapshot] Cons.prems(2-4) by auto
  have c1: "collectable vm1"
    using appended_kept [OF Cons.prems(1) 1(2)] by (simp add: kept_def)
  obtain as vm2 where 2: "each_then (store_node_attr alloc block snapshot) (enumerate (Suc i) attrs) vm1 = (Some as, vm2)"
    "appended (text_sizes (concat (map attr_texts attrs))) vm1 vm2" "list_all2 (attr_stored vm2) as attrs"
    using Cons.IH [OF c1, of "Suc i"] Cons.prems(2-4) appended_fields [OF 1(2)] by auto
  show ?case
    using 1(1) 2 appended_trans [OF 1(2) 2(2)] appended_attr [OF c1 2(2) 1(3)] by simp
qed

section \<open>A node more\<close>

lemma append_node_fields [simp]:
  "vm_string_arena (append_node k i as cs vm) = vm_string_arena vm" "vm_bytes_arena (append_node k i as cs vm) = vm_bytes_arena vm"
  "vm_scratch_pairs (append_node k i as cs vm) = vm_scratch_pairs vm" "root_list (append_node k i as cs vm) = root_list vm"
  "vm_node_count (append_node k i as cs vm) = vm_node_count vm + 1"
  by (simp_all add: append_node_def root_list_def root_values_def local_values_def fixed_handles_def builder_handles_def)

lemma append_node_lookups:
  "aivm_vm_lookup_scratch_pair (append_node k i as cs vm) = aivm_vm_lookup_scratch_pair vm"
  "valid_handle h (vm_node_count vm) \<Longrightarrow> aivm_vm_lookup_node (append_node k i as cs vm) h = aivm_vm_lookup_node vm h"
  "valid_handle h (vm_node_count vm) \<Longrightarrow> vm_nodes (append_node k i as cs vm) ! nat (h - 1) = vm_nodes vm ! nat (h - 1)"
  "node_shape_ok vm node \<Longrightarrow> node_attrs (append_node k i as cs vm) node = node_attrs vm node"
  "node_shape_ok vm node \<Longrightarrow> node_children (append_node k i as cs vm) node = node_children vm node"
  by (auto simp: append_node_def aivm_vm_lookup_scratch_pair_def aivm_vm_lookup_node_def fun_eq_iff valid_handle_def node_attrs_def
      node_children_def node_shape_ok_def nth_append)

lemma sound_node_shape:
  assumes "heap_closed vm" and "sound vm (ValNode h)"
  shows "valid_handle h (vm_node_count vm)" and "aivm_vm_lookup_node vm h = Some (vm_nodes vm ! nat (h - 1))"
    and "node_shape_ok vm (vm_nodes vm ! nat (h - 1))"
proof -
  show v: "valid_handle h (vm_node_count vm)"
    using sound_value_ok [OF assms(2)] by simp
  then show "aivm_vm_lookup_node vm h = Some (vm_nodes vm ! nat (h - 1))"
    by (simp add: lookup_node_iff)
  show "node_shape_ok vm (vm_nodes vm ! nat (h - 1))"
    using assms(1) valid_handle_nth [OF v] by (simp add: heap_closed_def)
qed

lemma append_node_sound:
  assumes "heap_closed vm" and "sound vm u"
  shows "sound (append_node k i as cs vm) u"
proof -
  let ?vm' = "append_node k i as cs vm"
  note l = append_node_lookups [where k = k and i = i and as = as and cs = cs and vm = vm]
  have ok: "value_ok ?vm' x" if "sound vm x" for x
  proof (cases x)
    case (ValNode h)
    note n = sound_node_shape [OF assms(1) that [unfolded ValNode]]
    show ?thesis
      using sound_value_ok [OF that] ValNode l(3) [OF n(1)] l(4) [OF n(3)] by (auto simp: valid_handle_def node_texts_def)
  qed (use sound_value_ok [OF that] in auto)
  have "sound vm x" if "reach ?vm' {u} x" for x
    using that
  proof (induction rule: reach.induct)
    case (reach_root x)
    then show ?case
      using assms(2) by simp
  next
    case (reach_pair h q x)
    then show ?case
      using sound_parts(1) [of vm h q] by (auto simp: l(1))
  next
    case (reach_child h node c)
    note n = sound_node_shape [OF assms(1) reach_child.IH]
    then show ?case
      using reach_child sound_parts(2) [OF reach_child.IH n(2)] l(2) [OF n(1)] l(5) [OF n(3)] by auto
  qed
  then show ?thesis
    using ok by (auto simp: sound_def [of ?vm'])
qed

lemma append_node_view:
  assumes "heap_closed vm" and "sound vm u"
  shows "value_view n (append_node k i as cs vm) u = value_view n vm u"
proof -
  let ?vm' = "append_node k i as cs vm"
  note l = append_node_lookups [where k = k and i = i and as = as and cs = cs and vm = vm]
  have sim: "similar vm ?vm' (\<lambda>u u'. u' = u \<and> sound vm u) u u" if "sound vm u" for u
  proof (cases u)
    case (ValPair h)
    then show ?thesis
      using that sound_value_ok [OF that] sound_parts(1) [of vm h] by (auto simp: l(1) lookup_pair_iff)
  next
    case (ValNode h)
    note n = sound_node_shape [OF assms(1) that [unfolded ValNode]]
    have "list_all2 (\<lambda>c c'. ValNode c' = ValNode c \<and> sound vm (ValNode c)) (node_children vm (vm_nodes vm ! nat (h - 1)))
        (node_children vm (vm_nodes vm ! nat (h - 1)))"
      using sound_parts(2) [OF that [unfolded ValNode] n(2)] by (auto simp: list_all2_same)
    then show ?thesis
      using ValNode n(2) l(2) [OF n(1)] l(4,5) [OF n(3)] by simp
  qed auto
  then show ?thesis
    using view_similar [of "\<lambda>u u'. u' = u \<and> sound vm u" vm ?vm' u u n] assms(2) by blast
qed

text \<open>What a node shows.\<close>

definition node_view :: "string \<Rightarrow> string \<Rightarrow> string AivmNodeAttr list \<Rightarrow> (nat \<Rightarrow> view) list \<Rightarrow> nat \<Rightarrow> view" where
  "node_view kind ident attrs children n =
     (case n of 0 \<Rightarrow> VCut
      | Suc m \<Rightarrow> VNode (Some kind) (Some ident) (map (map_AivmNodeAttr Some) attrs) (map (\<lambda>c. c m) children))"

lemma node_view_Suc:
  "node_view kind ident attrs children (Suc n) =
     VNode (Some kind) (Some ident) (map (map_AivmNodeAttr Some) attrs) (map (\<lambda>c. c n) children)"
  by (simp add: node_view_def)

lemma append_node_kept:
  assumes "collectable vm" and "text_stored vm k kind" and "text_stored vm i ident" and "list_all2 (attr_stored vm) as attrs"
    and "\<forall>c \<in> set cs. sound vm (ValNode c)"
    and "vm_node_count vm + 1 \<le> vm_node_capacity vm" and "length (vm_node_attrs vm) + length as \<le> vm_node_attr_capacity vm"
    and "length (vm_node_children vm) + length cs \<le> vm_node_child_capacity vm"
  defines "vm' \<equiv> append_node k i as cs vm" and "h \<equiv> int (vm_node_count vm + 1)"
  shows "kept vm vm'" and "sound vm' (ValNode h)"
    and "value_view n vm' (ValNode h) = node_view kind ident attrs (map (\<lambda>c n. value_view n vm (ValNode c)) cs) n"
proof -
  have ok: "heap_closed vm" "\<forall>u \<in> gc_roots vm []. sound vm u" "string_arena_ok vm"
    using assms(1) by (simp_all add: collectable_def heap_ok_sound)
  note l = append_node_lookups [where k = k and i = i and as = as and cs = cs and vm = vm, folded vm'_def]
  let ?node = "\<lparr>node_kind = CArena k, node_id = CArena i, node_attr_start = length (vm_node_attrs vm),
            node_attr_count = length as, node_child_start = length (vm_node_children vm), node_child_count = length cs\<rparr>"
  have new: "aivm_vm_lookup_node vm' h = Some ?node" "node_attrs vm' ?node = as" "node_children vm' ?node = cs"
    by (simp_all add: vm'_def h_def append_node_def aivm_vm_lookup_node_def node_attrs_def node_children_def)
  have all: "\<forall>u \<in> set (root_list vm). sound vm u"
    using ok(2) by (simp add: root_list_set)
  have "same_views vm vm'"
    using all append_node_view [OF ok(1)] by (auto simp: same_views_def vm'_def list_all2_same)
  moreover have "heap_closed vm'"
  proof -
    have len: "length (vm_node_attrs vm) \<le> length (vm_node_attrs vm')" "length (vm_node_children vm) \<le> length (vm_node_children vm')"
      "vm_node_count vm \<le> vm_node_count vm'"
      by (simp_all add: vm'_def append_node_def)
    have "node_shape_ok vm' node" if "node \<in> set (vm_nodes vm)" for node
    proof -
      have s: "node_shape_ok vm node"
        using ok(1) that by (simp add: heap_closed_def)
      then show ?thesis
        using len l(5) [OF s] by (fastforce simp: node_shape_ok_def valid_handle_def)
    qed
    moreover have "node_shape_ok vm' ?node"
    proof -
      have "valid_handle c (vm_node_count vm')" if "c \<in> set cs" for c
        using assms(5) that sound_value_ok [of vm "ValNode c"] by (auto simp: vm'_def valid_handle_def)
      then show ?thesis
        unfolding node_shape_ok_def new(3) by (simp add: vm'_def append_node_def)
    qed
    ultimately show ?thesis
      using ok(1) assms(6-8) by (simp add: heap_closed_def) (auto simp: vm'_def append_node_def)
  qed
  moreover have "\<forall>u \<in> gc_roots vm' []. sound vm' u"
    using all append_node_sound [OF ok(1)] unfolding root_list_set [symmetric] vm'_def by simp
  moreover have "string_arena_ok vm'" "same_control vm vm'" "no_new_error vm vm'"
    using ok(3) by (simp_all add: vm'_def append_node_def string_arena_ok_def index_ok_def same_control_def no_new_error_def)
  ultimately show "kept vm vm'"
    by (simp add: kept_def collectable_def heap_ok_sound)
  have texts: "cstring_ok (vm_string_arena vm) (CArena k)" "cptr_text (vm_string_arena vm) (CArena k) = Some kind"
    "cstring_ok (vm_string_arena vm) (CArena i)" "cptr_text (vm_string_arena vm) (CArena i) = Some ident"
    using text_stored_value [OF assms(2)] text_stored_value [OF assms(3)] by simp_all
  have attrs: "cstring_ok (vm_string_arena vm) p" if "a \<in> set as" "p \<in> set_AivmNodeAttr a" for a p
    using assms(4) that by (auto simp: list_all2_conv_all_nth in_set_conv_nth attr_stored_def)
  have parts: "x = ValNode h \<or> (\<exists>c \<in> set cs. reach vm' {ValNode c} x)" if "reach vm' {ValNode h} x" for x
    using that by (induction rule: reach.induct) (use new in \<open>auto intro: reach.intros reach_self\<close>)
  have "valid_handle h (vm_node_count vm')" "vm_nodes vm' ! nat (h - 1) = ?node"
    using new(1) unfolding lookup_node_iff by simp_all
  moreover have "\<forall>p \<in> node_texts vm' ?node. cstring_ok (vm_string_arena vm) p"
    using texts(1,3) attrs unfolding node_texts_def new(2) by auto
  ultimately have "value_ok vm' (ValNode h)"
    by (simp add: vm'_def)
  then show "sound vm' (ValNode h)"
    using parts assms(5) append_node_sound [OF ok(1), of "ValNode _" k i as cs] unfolding sound_def [of vm'] vm'_def [symmetric] by blast
  have "map (map_AivmNodeAttr (cptr_text (vm_string_arena vm))) as = map (map_AivmNodeAttr Some) attrs"
    using assms(4) by (auto simp: list_all2_conv_all_nth attr_stored_def intro!: nth_equalityI)
  moreover have "map (\<lambda>c. value_view m vm' (ValNode c)) cs = map (\<lambda>c. value_view m vm (ValNode c)) cs" for m
    using assms(5) append_node_view [OF ok(1)] by (auto simp: vm'_def)
  ultimately show "value_view n vm' (ValNode h) = node_view kind ident attrs (map (\<lambda>c n. value_view n vm (ValNode c)) cs) n"
    using new texts by (cases n) (simp_all add: node_view_def, simp_all add: vm'_def)
qed

lemma count_node_kept:
  assumes "kept vm0 vm"
  shows "kept vm0 (count_node vm)" and "sound (count_node vm) v = sound vm v" and "value_view n (count_node vm) v = value_view n vm v"
    and "vm_node_count (count_node vm) = vm_node_count vm"
proof -
  have h: "same_heap vm (count_node vm)"
    by (simp add: count_node_def same_heap_def root_values_def local_values_def fixed_handles_def builder_handles_def)
  have "kept vm (count_node vm)"
    using assms same_heap_reach(4) [OF h] same_contents_reach(6) [OF same_heap_contents [OF h]]
    by (simp add: kept_def collectable_def)
      (simp add: count_node_def string_arena_ok_def index_ok_def same_control_def no_new_error_def)
  then show "kept vm0 (count_node vm)"
    by (rule kept_trans [OF assms])
  have "same_store vm (count_node vm)"
    by (simp add: same_store_def count_node_def)
  from same_store_views [OF this] show "sound (count_node vm) v = sound vm v" "value_view n (count_node vm) v = value_view n vm v"
    by simp_all
  show "vm_node_count (count_node vm) = vm_node_count vm"
    by (simp add: count_node_def)
qed

text \<open>A machine with room for the texts and the node.\<close>

definition room_for_node :: "string list \<Rightarrow> nat \<Rightarrow> nat \<Rightarrow> 'a heap_vm \<Rightarrow> bool" where
  "room_for_node texts attr_count child_count vm \<longleftrightarrow>
     vm_string_arena_used vm + text_sizes texts \<le> vm_string_arena_limit vm \<and>
     vm_node_count vm + 1 \<le> vm_node_capacity vm \<and> length (vm_node_attrs vm) + attr_count \<le> vm_node_attr_capacity vm \<and>
     length (vm_node_children vm) + child_count \<le> vm_node_child_capacity vm"

lemma child_slots: "length (vm_node_children vm) + n \<le> vm_node_child_capacity vm \<Longrightarrow> heap_closed vm \<Longrightarrow> child_slots_fit vm n"
  by (auto simp: child_slots_fit_def list_all_iff aivm_size_add_checked_def heap_closed_def)

text \<open>The texts and attributes that \<open>write_node\<close> stores before it reads the children.\<close>

definition node_texts_stored ::
  "'a heap_vm \<Rightarrow> string \<Rightarrow> string \<Rightarrow> string AivmNodeAttr list \<Rightarrow> nat \<Rightarrow> nat \<Rightarrow> cptr AivmNodeAttr list \<Rightarrow> 'a heap_vm \<Rightarrow> bool" where
  "node_texts_stored vm kind ident attrs k i as vm' \<longleftrightarrow>
     appended (text_sizes (kind # ident # concat (map attr_texts attrs))) vm vm' \<and> text_stored vm' k kind \<and> text_stored vm' i ident \<and>
     list_all2 (attr_stored vm') as attrs"

lemma write_node_texts:
  assumes "collectable vm" and "\<forall>str \<in> set (kind # ident # concat (map attr_texts attrs)). CHR 0x00 \<notin> set str"
    and "room_for_node (kind # ident # concat (map attr_texts attrs)) (length attrs) n vm"
  shows "\<exists>k i as vm'. node_texts_stored vm kind ident attrs k i as vm' \<and>
    (\<forall>children. write_node alloc block snapshot vm kind ident attrs children =
       (if \<not> child_slots_fit vm' (length (children vm')) then node_arena_full vm'
        else let vm' = count_node (append_node k i as (children vm') vm') in (Some (int (vm_node_count vm')), vm')))"
proof -
  note room = assms(3) [unfolded room_for_node_def, simplified]
  obtain k vm1 where 1: "aivm_vm_copy_string_to_arena alloc block snapshot vm (CExt kind) = (Some k, vm1)"
    "appended (length kind + 1) vm vm1" "text_stored vm1 k kind"
    using copy_with_room [OF assms(1), of kind alloc block snapshot] assms(2) room by auto
  have c1: "collectable vm1"
    using appended_kept [OF assms(1) 1(2)] by (simp add: kept_def)
  note f1 = appended_fields [OF 1(2)]
  obtain i vm2 where 2: "aivm_vm_copy_string_to_arena alloc block snapshot vm1 (CExt ident) = (Some i, vm2)"
    "appended (length ident + 1) vm1 vm2" "text_stored vm2 i ident"
    using copy_with_room [OF c1, of ident alloc block snapshot] assms(2) room f1(7,8) by auto
  have c2: "collectable vm2"
    using appended_kept [OF c1 2(2)] by (simp add: kept_def)
  note f2 = appended_fields [OF 2(2)]
  have "length (vm_node_attrs vm2) + 0 + length attrs \<le> vm_node_attr_capacity vm2"
    using room f1 f2 by simp
  moreover have "vm_string_arena_used vm2 + text_sizes (concat (map attr_texts attrs)) \<le> vm_string_arena_limit vm2"
    using room f1(7,8) f2(7,8) by linarith
  ultimately obtain as vm3 where 3: "each_then (store_node_attr alloc block snapshot) (enumerate 0 attrs) vm2 = (Some as, vm3)"
    "appended (text_sizes (concat (map attr_texts attrs))) vm2 vm3" "list_all2 (attr_stored vm3) as attrs"
    using store_attrs_with_room [OF c2, of attrs 0 alloc block snapshot] assms(2) by auto
  have "appended (text_sizes (kind # ident # concat (map attr_texts attrs))) vm vm3"
    using appended_trans [OF appended_trans [OF 1(2) 2(2)] 3(2)] by (simp add: add.assoc)
  moreover have "text_stored vm3 k kind" "text_stored vm3 i ident"
    using appended_text [OF c2 3(2)] appended_text [OF c1 2(2) 1(3)] 2(3) by simp_all
  ultimately have "node_texts_stored vm kind ident attrs k i as vm3"
    using 3(3) by (simp add: node_texts_stored_def)
  then show ?thesis
    using 1(1) 2(1) 3(1) by (intro exI [of _ k] exI [of _ i] exI [of _ as] exI [of _ vm3]) (simp add: write_node_def)
qed

lemma write_reads_children:
  assumes "collectable vm" and "\<forall>str \<in> set (kind # ident # concat (map attr_texts attrs)). CHR 0x00 \<notin> set str"
    and "room_for_node (kind # ident # concat (map attr_texts attrs)) (length attrs) n vm"
    and "\<And>vm'. vm_node_builders vm' = vm_node_builders vm \<Longrightarrow> children vm' = children vm"
  shows "write_node alloc block snapshot vm kind ident attrs children = write_node alloc block snapshot vm kind ident attrs (\<lambda>_. children vm)"
proof -
  obtain k i as vm' where w: "node_texts_stored vm kind ident attrs k i as vm'"
    "\<And>children. write_node alloc block snapshot vm kind ident attrs children =
       (if \<not> child_slots_fit vm' (length (children vm')) then node_arena_full vm'
        else let vm' = count_node (append_node k i as (children vm') vm') in (Some (int (vm_node_count vm')), vm'))"
    using write_node_texts [OF assms(1-3), of alloc block snapshot] by blast
  have "children vm' = children vm"
    using w(1) appended_fields(9) [of _ vm vm'] by (intro assms(4)) (auto simp: node_texts_stored_def)
  then show ?thesis
    by (simp add: w(2))
qed

lemma write_node_result:
  assumes "collectable vm" and "\<forall>str \<in> set (kind # ident # concat (map attr_texts attrs)). CHR 0x00 \<notin> set str"
    and "room_for_node (kind # ident # concat (map attr_texts attrs)) (length attrs) (length cs) vm" and "\<forall>c \<in> set cs. sound vm (ValNode c)"
  shows "\<exists>h vm'. write_node alloc block snapshot vm kind ident attrs (\<lambda>_. cs) = (Some h, vm') \<and> kept vm vm' \<and> sound vm' (ValNode h) \<and>
    (\<forall>n. value_view n vm' (ValNode h) = node_view kind ident attrs (map (\<lambda>c n. value_view n vm (ValNode c)) cs) n)"
proof -
  note room = assms(3) [unfolded room_for_node_def, simplified]
  obtain k i as vm3 where w: "node_texts_stored vm kind ident attrs k i as vm3"
    "write_node alloc block snapshot vm kind ident attrs (\<lambda>_. cs) =
       (if \<not> child_slots_fit vm3 (length cs) then node_arena_full vm3
        else let vm' = count_node (append_node k i as cs vm3) in (Some (int (vm_node_count vm')), vm'))"
    using write_node_texts [OF assms(1-3), of alloc block snapshot] by auto
  have a3: "appended (text_sizes (kind # ident # concat (map attr_texts attrs))) vm vm3" and t: "text_stored vm3 k kind" "text_stored vm3 i ident"
    and as: "list_all2 (attr_stored vm3) as attrs"
    using w(1) by (simp_all add: node_texts_stored_def)
  note k3 = appended_kept [OF assms(1) a3] and f3 = appended_fields [OF a3]
  have c3: "collectable vm3" "heap_closed vm3"
    using k3 by (simp_all add: kept_def collectable_def heap_ok_def)
  have s: "\<forall>c \<in> set cs. sound vm3 (ValNode c)" "\<And>n c. c \<in> set cs \<Longrightarrow> value_view n vm3 (ValNode c) = value_view n vm (ValNode c)"
    using appended_sound [OF assms(1) a3] assms(4) by auto
  have r: "vm_node_count vm3 + 1 \<le> vm_node_capacity vm3" "length (vm_node_attrs vm3) + length as \<le> vm_node_attr_capacity vm3"
    "length (vm_node_children vm3) + length cs \<le> vm_node_child_capacity vm3"
    using room f3(1-6) list_all2_lengthD [OF as] by simp_all
  let ?vm4 = "append_node k i as cs vm3"
  note a = append_node_kept [OF c3(1) t as s(1) r]
  have e: "map (\<lambda>c n. value_view n vm (ValNode c)) cs = map (\<lambda>c n. value_view n vm3 (ValNode c)) cs"
    using s(2) by simp
  have "\<forall>n. value_view n (count_node ?vm4) (ValNode (int (vm_node_count ?vm4))) =
      node_view kind ident attrs (map (\<lambda>c n. value_view n vm (ValNode c)) cs) n"
    unfolding e using a(3) count_node_kept(3) [OF a(1)] by simp
  moreover have "write_node alloc block snapshot vm kind ident attrs (\<lambda>_. cs) = (Some (int (vm_node_count ?vm4)), count_node ?vm4)"
    using w(2) child_slots [OF r(3) c3(2)] count_node_kept(4) [OF a(1)] by (simp add: Let_def)
  moreover have "kept vm (count_node ?vm4)" "sound (count_node ?vm4) (ValNode (int (vm_node_count ?vm4)))"
    using kept_trans [OF k3 count_node_kept(1) [OF a(1)]] a(2) count_node_kept(2) [OF a(1)] by simp_all
  ultimately show ?thesis
    by blast
qed

section \<open>Collections during creation\<close>

text \<open>Where a creation stands: the machine shows what it showed at the beginning, there is room for the texts, and the
  children show what the given ones showed.\<close>

definition creating :: "nat \<Rightarrow> 'a heap_vm \<Rightarrow> int list \<Rightarrow> 'a heap_vm \<Rightarrow> int list \<Rightarrow> bool" where
  "creating n vm0 cs0 vm cs \<longleftrightarrow>
     kept vm0 vm \<and> vm_string_arena_used vm + n \<le> vm_string_arena_limit vm \<and>
     list_all2 (\<lambda>c c'. sound vm (ValNode c') \<and> (\<forall>n. value_view n vm (ValNode c') = value_view n vm0 (ValNode c))) cs0 cs"

definition creation_step ::
  "nat \<Rightarrow> 'a heap_vm \<Rightarrow> int list \<Rightarrow> ('a heap_vm \<Rightarrow> int list) option \<times> 'a heap_vm \<Rightarrow> bool" where
  "creation_step n vm0 cs0 r \<longleftrightarrow>
     (case r of (None, vm) \<Rightarrow> failed vm0 vm | (Some children, vm) \<Rightarrow> \<exists>cs. children = (\<lambda>_. cs) \<and> creating n vm0 cs0 vm cs)"

lemma kept_failed: "kept vm0 vm \<Longrightarrow> failed vm vm' \<Longrightarrow> failed vm0 vm'"
  unfolding kept_def by (blast intro: failed_trans)

lemma kept_error: "kept vm0 vm \<Longrightarrow> err \<noteq> AIVM_VM_ERR_NONE \<Longrightarrow> failed vm0 (aivm_set_vm_error vm err detail)"
  by (rule kept_failed [OF _ set_error_failed])

lemma heap_ok_extra:
  assumes "collectable vm" and "\<forall>c \<in> set cs. sound vm (ValNode c)"
  shows "heap_ok vm cs"
proof -
  have "\<forall>v \<in> gc_roots vm cs. sound vm v"
    using assms gc_roots_extra [of vm cs] by (auto simp: collectable_def heap_ok_sound)
  then show ?thesis
    using assms(1) reach_from_one [of vm "gc_roots vm cs"] by (auto simp: collectable_def heap_ok_def sound_def)
qed

lemma heap_ok_extra_sound: "heap_ok vm cs \<Longrightarrow> c \<in> set cs \<Longrightarrow> c > 0 \<Longrightarrow> sound vm (ValNode c)"
  using reach_mono [of vm "{ValNode c}" _ "gc_roots vm cs"] by (auto simp: heap_ok_def sound_def gc_roots_def)

lemma heap_ok_no_extra: "heap_ok vm cs \<Longrightarrow> heap_ok vm []"
  using reach_mono [of vm "gc_roots vm []" _ "gc_roots vm cs"] gc_roots_extra [of vm cs] by (auto simp: heap_ok_def)

lemma compact_same_arena:
  assumes "heap_ok vm extra" and "aivm_vm_compact_node_arenas_with_map alloc vm extra = (Some hm, vm')"
  shows "same_string_arena vm vm'" and "vm_node_capacity vm' = vm_node_capacity vm"
proof -
  have "same_string_arena vm vm' \<and> vm_node_capacity vm' = vm_node_capacity vm"
    using compact_nodes_result(12,16) [OF assms] assms(2)
    by (cases "vm_node_count vm = 0")
      (auto simp: aivm_vm_compact_node_arenas_with_map_def Let_def count_gc_attempt_def same_string_arena_def)
  then show "same_string_arena vm vm'" "vm_node_capacity vm' = vm_node_capacity vm"
    by simp_all
qed

lemma creating_collected:
  assumes "creating n vm0 cs0 vm cs" and "aivm_vm_compact_node_arenas_with_map alloc vm cs = (Some hm, vm1)"
  shows "aivm_vm_remap_child_handles_for_compaction vm1 hm cs = (map (\<lambda>c. hm (nat c)) cs, Some ())"
    and "creating n vm0 cs0 vm1 (map (\<lambda>c. hm (nat c)) cs)"
proof -
  have k: "kept vm0 vm" "collectable vm" and cs: "\<forall>c \<in> set cs. sound vm (ValNode c)"
    using assms(1) by (auto simp: creating_def kept_def list_all2_conv_all_nth in_set_conv_nth)
  note ok = heap_ok_extra [OF k(2) cs]
  note a = compact_same_arena [OF ok assms(2)] and n = nodes_compacted [OF ok assms(2)]
  have pos: "c > 0" "c \<le> int (vm_node_capacity vm)" if "c \<in> set cs" for c
    using cs that sound_value_ok [of vm "ValNode c"] k(2) by (auto simp: valid_handle_def collectable_def heap_ok_def heap_closed_def)
  have hm: "hm (nat c) > 0" "\<forall>n. value_view n vm1 (ValNode (hm (nat c))) = value_view n vm (ValNode c)" if "c \<in> set cs" for c
    using n(3) [OF that pos(1) [OF that]] by simp_all
  show "aivm_vm_remap_child_handles_for_compaction vm1 hm cs = (map (\<lambda>c. hm (nat c)) cs, Some ())"
    unfolding aivm_vm_remap_child_handles_for_compaction_def
    using pos hm(1) a(2) by (intro traverse_stateless) (force simp: remap_child_handle_def)
  have moved: "moved_extra hm cs = map (\<lambda>c. hm (nat c)) cs"
    using pos by (simp add: moved_extra_def)
  have s: "sound vm1 (ValNode (hm (nat c)))" if "c \<in> set cs" for c
    using heap_ok_extra_sound [OF n(2), of "hm (nat c)"] hm(1) [OF that] that by (simp add: moved)
  have "kept vm vm1"
    using n(1) heap_ok_no_extra [OF n(2)] string_arena_ok_cong [OF a(1)] k(2) compact_with_map_outcome [of vm alloc cs] assms(2)
    by (simp add: kept_def collectable_def)
  moreover have "vm_string_arena_used vm1 + n \<le> vm_string_arena_limit vm1"
    using assms(1) a(1) by (simp add: creating_def same_string_arena_def)
  ultimately show "creating n vm0 cs0 vm1 (map (\<lambda>c. hm (nat c)) cs)"
    using assms(1) kept_trans [OF k(1)] s hm(2) by (auto simp: creating_def list_all2_conv_all_nth)
qed

lemma creating_same:
  assumes "creating n vm0 cs0 vm cs" and "same_store vm vm'" and "kept vm vm'" and "same_string_arena vm vm'"
  shows "creating n vm0 cs0 vm' cs"
  using assms(1) kept_trans [OF _ assms(3), of vm0] same_store_views(3,4) [OF assms(2)] assms(4)
  by (simp add: creating_def same_string_arena_def)

lemma collect_for_node_step:
  assumes "creating n vm0 cs0 vm cs"
  shows "creation_step n vm0 cs0 (collect_for_node detail alloc vm (\<lambda>_. cs))"
proof (cases "fst (prepare_compaction_scratch alloc vm (length cs))")
  case None
  then show ?thesis
    using assms kept_error [of vm0 vm] by (auto simp: collect_for_node_def prepare_compaction_scratch_def creation_step_def creating_def split: if_splits)
next
  case (Some u)
  then have p: "prepare_compaction_scratch alloc vm (length cs) = (Some (), vm)"
    by (auto simp: prepare_compaction_scratch_def split: if_splits)
  have k: "kept vm0 vm"
    using assms by (simp add: creating_def)
  obtain hm vm1 where 1: "aivm_vm_compact_node_arenas_with_map alloc vm cs = (hm, vm1)"
    by fastforce
  note o = compact_with_map_outcome [of vm alloc cs, unfolded 1, simplified]
  show ?thesis
  proof (cases hm)
    case None
    then have "failed vm vm1"
      using o by (simp add: failed_def error_state_def)
    then show ?thesis
      using p 1 None kept_failed [OF k] by (simp add: collect_for_node_def creation_step_def)
  next
    case (Some hm)
    note c = creating_collected [OF assms 1 [unfolded Some]]
    let ?vm2 = "vm1\<lparr>vm_node_allocations_since_gc := 0\<rparr>"
    have h: "same_heap vm1 ?vm2"
      by (simp add: same_heap_def root_values_def local_values_def fixed_handles_def builder_handles_def)
    have "kept vm1 ?vm2"
      using c(2) same_heap_reach(4) [OF h] same_contents_reach(6) [OF same_heap_contents [OF h]]
      by (simp add: creating_def kept_def collectable_def)
        (simp add: string_arena_ok_def index_ok_def same_control_def no_new_error_def)
    then have "creating n vm0 cs0 ?vm2 (map (\<lambda>c. hm (nat c)) cs)"
      by (intro creating_same [OF c(2)]) (simp_all add: same_store_def same_string_arena_def)
    then show ?thesis
      using p 1 Some c(1) by (auto simp: collect_for_node_def creation_step_def)
  qed
qed

lemma creating_grown:
  assumes "creating n vm0 cs0 vm cs" and "grown vm vm'" and "resized vm vm'"
  shows "creating n vm0 cs0 vm' cs"
proof -
  have c: "collectable vm"
    using assms(1) by (simp add: creating_def kept_def)
  note g = grown_keeps [OF assms(2)] and r = resized_control [OF assms(3)]
  have "kept vm vm'"
    using c g r same_contents_reach(6) [of vm vm'] string_arena_ok_cong [of vm vm'] by (auto simp: kept_def collectable_def)
  then show ?thesis
    using g(1) r by (intro creating_same [OF assms(1)]) (auto simp: same_store_def same_contents_def)
qed

lemma collect_before_node_step:
  assumes "creating n vm0 cs0 vm cs"
  shows "creation_step n vm0 cs0 (collect_before_node alloc snapshot vm a c (\<lambda>_. cs))"
proof -
  let ?m = "\<lambda>x. x mod (SIZE_MAX + 1)"
  obtain ok vm1 where 1: "aivm_vm_try_grow_node_arenas alloc snapshot vm (?m (vm_node_count vm + 1))
      (?m (length (vm_node_attrs vm) + a)) (?m (length (vm_node_children vm) + c)) = (ok, vm1)"
    by fastforce
  have "x mod (SIZE_MAX + 1) \<le> SIZE_MAX" for x
    by (simp add: less_Suc_eq_le [symmetric])
  then have "grown vm vm1" "resized vm vm1"
    using grow_node_arenas(1) [of "?m (length (vm_node_attrs vm) + a)" "?m (length (vm_node_children vm) + c)" vm alloc snapshot
        "?m (vm_node_count vm + 1)"] 1
      try_grow_resized [of vm alloc snapshot "?m (vm_node_count vm + 1)" "?m (length (vm_node_attrs vm) + a)" "?m (length (vm_node_children vm) + c)"]
    by simp_all
  then have c1: "creating n vm0 cs0 vm1 cs"
    by (rule creating_grown [OF assms])
  show ?thesis
    using assms 1 c1 collect_for_node_step [OF c1] by (cases ok) (auto simp: collect_before_node_def creation_step_def)
qed

lemma node_full_failed:
  assumes "kept vm0 vm"
  shows "\<exists>vm'. node_arena_full vm = (None, vm') \<and> failed vm0 vm'"
proof -
  let ?vm1 = "vm\<lparr>vm_heap_counters := (vm_heap_counters vm)
    \<lparr>node_arena_pressure_count := aivm_counter_increment_saturating (node_arena_pressure_count (vm_heap_counters vm))\<rparr>\<rparr>"
  have "same_control vm ?vm1" "no_new_error vm ?vm1"
    by (simp_all add: same_control_def no_new_error_def)
  then have "failed vm (aivm_set_vm_error ?vm1 AIVM_VM_ERR_MEMORY_PRESSURE ''AIVMM005: node arena capacity exceeded.'')"
    by (intro failed_trans [OF _ _ set_error_failed]) simp_all
  then show ?thesis
    using kept_failed [OF assms] by (simp add: node_arena_full_def)
qed

lemma collect_when_full_step:
  assumes "creating n vm0 cs0 vm cs"
  shows "creation_step n vm0 cs0 (collect_when_full alloc vm a c (\<lambda>_. cs))"
    and "collect_when_full alloc vm a c (\<lambda>_. cs) = (Some children, vm') \<Longrightarrow>
      vm_node_count vm' + 1 \<le> vm_node_capacity vm' \<and> length (vm_node_attrs vm') + a \<le> vm_node_attr_capacity vm' \<and>
      length (vm_node_children vm') + c \<le> vm_node_child_capacity vm'"
proof -
  have full: "creation_step n vm0 cs0 (node_arena_full vm1)" if k: "kept vm0 vm1" for vm1 :: "'a heap_vm"
  proof -
    obtain vm2 where "node_arena_full vm1 = (None :: ('a heap_vm \<Rightarrow> int list) option, vm2)" "failed vm0 vm2"
      using node_full_failed [OF k] by blast
    then show ?thesis
      by (simp add: creation_step_def)
  qed
  let ?collect = "collect_for_node ''Invalid child handle remap during node GC.'' alloc vm (\<lambda>_. cs)"
  let ?check = "\<lambda>ch vm. case needed_counts vm a c of
      None \<Rightarrow> node_arena_full vm | Some needed \<Rightarrow> if node_room vm needed then (Some ch, vm) else node_arena_full vm"
  have keep: "creation_step n vm0 cs0 (Some (\<lambda>_. cs1), vm1)" if "creating n vm0 cs0 vm1 cs1" for vm1 cs1
    using that by (auto simp: creation_step_def)
  have check: "creation_step n vm0 cs0 (?check (\<lambda>_. cs1) vm1)" if c: "creating n vm0 cs0 vm1 cs1" for vm1 cs1
  proof -
    have "kept vm0 vm1"
      using c by (simp add: creating_def)
    from full [OF this] keep [OF c] show ?thesis
      by (simp split: option.split)
  qed
  have "creation_step n vm0 cs0 (then_do ?collect ?check)"
  proof (cases "fst ?collect")
    case None
    then have "then_do ?collect ?check = ?collect"
      by (cases ?collect) simp
    then show ?thesis
      using collect_for_node_step [OF assms] by simp
  next
    case (Some ch)
    then obtain vm1 cs1 where "?collect = (Some (\<lambda>_. cs1), vm1)" "creating n vm0 cs0 vm1 cs1"
      using collect_for_node_step [OF assms, of "''Invalid child handle remap during node GC.''" alloc]
      by (cases ?collect) (auto simp: creation_step_def)
    then show ?thesis
      using check by simp
  qed
  then show "creation_step n vm0 cs0 (collect_when_full alloc vm a c (\<lambda>_. cs))"
    using keep [OF assms] full [of vm] assms by (simp add: collect_when_full_def creating_def split: option.split)
  have room: "vm_node_count vm + 1 \<le> vm_node_capacity vm \<and> length (vm_node_attrs vm) + a \<le> vm_node_attr_capacity vm \<and>
      length (vm_node_children vm) + c \<le> vm_node_child_capacity vm"
    if "needed_counts vm a c = Some needed" "node_room vm needed" for vm :: "'a heap_vm" and needed
    using that by (auto simp: needed_counts_def node_room_def split: option.splits)
  show "vm_node_count vm' + 1 \<le> vm_node_capacity vm' \<and> length (vm_node_attrs vm') + a \<le> vm_node_attr_capacity vm' \<and>
      length (vm_node_children vm') + c \<le> vm_node_child_capacity vm'"
    if "collect_when_full alloc vm a c (\<lambda>_. cs) = (Some children, vm')"
    using that room
    by (cases ?collect; cases "fst ?collect") (auto simp: collect_when_full_def node_arena_full_def split: option.splits if_splits)
qed

section \<open>The whole creation\<close>

lemma snapshot_text_result:
  assumes "cptr_text (vm_string_arena vm) p = Some str"
  shows "snapshot_node_input_string alloc vm p = (Some str, vm) \<or>
    (\<exists>vm'. snapshot_node_input_string alloc vm p = (None, vm') \<and> failed vm vm')"
  using assms set_error_failed by (auto simp: snapshot_node_input_string_def Let_def)

definition attr_text :: "'a heap_vm \<Rightarrow> cptr AivmNodeAttr \<Rightarrow> string AivmNodeAttr" where
  "attr_text vm = map_AivmNodeAttr (\<lambda>p. the (cptr_text (vm_string_arena vm) (or_empty p)))"

lemma or_empty_text: "cstring_ok arena p \<Longrightarrow> \<exists>str. cptr_text arena (or_empty p) = Some str"
  by (cases p) (auto simp: or_empty_def cstring_ok_def)

lemma snapshot_attr_result:
  assumes "\<forall>p \<in> set_AivmNodeAttr attr. cstring_ok (vm_string_arena vm) p"
  shows "snapshot_node_attr alloc vm attr = (Some (attr_text vm attr), vm) \<or>
    (\<exists>vm'. snapshot_node_attr alloc vm attr = (None, vm') \<and> failed vm vm')"
proof -
  have one: "snapshot_node_input_string alloc vm (or_empty p) = (Some (the (cptr_text (vm_string_arena vm) (or_empty p))), vm) \<or>
      (\<exists>vm'. snapshot_node_input_string alloc vm (or_empty p) = (None, vm') \<and> failed vm vm')"
    if "p \<in> set_AivmNodeAttr attr" for p
    using or_empty_text [of "vm_string_arena vm" p] assms that snapshot_text_result [of vm "or_empty p" _ alloc] by auto
  obtain key v where attr: "attr = NodeAttr key v"
    by (cases attr)
  show ?thesis
  proof (cases v)
    case (AIVM_NODE_ATTR_IDENTIFIER q)
    then show ?thesis
      using one [of key] one [of q] attr by (auto simp: snapshot_node_attr_def attr_text_def)
  next
    case (AIVM_NODE_ATTR_STRING q)
    then show ?thesis
      using one [of key] one [of q] attr by (auto simp: snapshot_node_attr_def attr_text_def)
  qed (use one [of key] attr in \<open>auto simp: snapshot_node_attr_def attr_text_def\<close>)
qed

lemma snapshot_attrs_result:
  assumes "\<forall>attr \<in> set attrs. \<forall>p \<in> set_AivmNodeAttr attr. cstring_ok (vm_string_arena vm) p"
  shows "each_then (snapshot_node_attr alloc) attrs vm = (Some (map (attr_text vm) attrs), vm) \<or>
    (\<exists>vm'. each_then (snapshot_node_attr alloc) attrs vm = (None, vm') \<and> failed vm vm')"
  using assms
proof (induction attrs)
  case (Cons attr attrs)
  then show ?case
    using snapshot_attr_result [of attr vm alloc] by auto
qed simp

lemma reserve_size:
  "fold add_text_size strs None = None"
  "n \<le> SIZE_MAX \<Longrightarrow> fold add_text_size strs (Some n) = (if n + text_sizes strs \<le> SIZE_MAX then Some (n + text_sizes strs) else None)"
proof -
  show none: "fold add_text_size strs None = None" for strs
    by (induction strs) (simp_all add: add_text_size_def)
  assume "n \<le> SIZE_MAX"
  then show "fold add_text_size strs (Some n) = (if n + text_sizes strs \<le> SIZE_MAX then Some (n + text_sizes strs) else None)"
  proof (induction strs arbitrary: n)
    case (Cons str strs)
    have "add_text_size str (Some n) = (if n + (length str + 1) \<le> SIZE_MAX then Some (n + (length str + 1)) else None)"
      by (auto simp: add_text_size_def aivm_size_add_checked_def SIZE_MAX_def)
    then show ?case
      using Cons.IH [of "n + (length str + 1)"] none by auto
  qed simp
qed

lemma node_text_reserve_size:
  "node_text_reserve kind ident attrs = (let n = text_sizes (kind # ident # concat (map attr_texts attrs)) in if n \<le> SIZE_MAX then Some n else None)"
  by (auto simp: node_text_reserve_def Let_def aivm_size_add_checked_def reserve_size)

lemma reserve_result:
  assumes "collectable vm" and "\<forall>c \<in> set cs. sound vm (ValNode c)"
    and "cs = [] \<or> vm_string_arena_used vm + text_sizes (kind # ident # concat (map attr_texts attrs)) \<le> vm_string_arena_limit vm"
    and "reserve_node_texts alloc block snapshot vm kind ident attrs = (r, vm')"
  shows "case r of None \<Rightarrow> failed vm vm'
    | Some _ \<Rightarrow> creating (text_sizes (kind # ident # concat (map attr_texts attrs))) vm cs vm' cs"
proof -
  let ?n = "text_sizes (kind # ident # concat (map attr_texts attrs))"
  have same: "creating ?n vm cs vm cs" if "vm_string_arena_used vm + ?n \<le> vm_string_arena_limit vm"
    using that assms(1,2) by (simp add: creating_def kept_refl list_all2_same)
  show ?thesis
  proof (cases "?n \<le> SIZE_MAX")
    case False
    then show ?thesis
      using assms(4) set_error_failed [of AIVM_VM_ERR_MEMORY_PRESSURE vm]
      by (auto simp: reserve_node_texts_def node_text_reserve_size Let_def simp del: text_sizes_simps)
  next
    case True
    obtain r1 vm1 where 1: "string_arena_room alloc block snapshot vm ?n = (r1, vm1)"
      by fastforce
    note k = string_room_keeps [OF assms(1) 1]
    have r: "r = (if r1 = None then None else Some ())" "vm' = vm1"
      using assms(4) True 1
      by (auto simp: reserve_node_texts_def node_text_reserve_size Let_def aivm_string_arena_reserve_def simp del: text_sizes_simps
          split: if_splits bool.splits)
    show ?thesis
    proof (cases r1)
      case None
      then show ?thesis
        using r k by simp
    next
      case (Some needed)
      have "creating ?n vm cs vm1 cs"
      proof (cases "cs = []")
        case True
        then show ?thesis
          using k Some by (simp add: creating_def del: text_sizes_simps)
      next
        case False
        then show ?thesis
          using assms(3) same room_without_collection [of vm ?n alloc block snapshot] 1 assms(1) by (simp add: collectable_def del: text_sizes_simps)
      qed
      then show ?thesis
        using r Some by (simp del: text_sizes_simps)
    qed
  qed
qed

definition node_created ::
  "'a heap_vm \<Rightarrow> string \<Rightarrow> string \<Rightarrow> string AivmNodeAttr list \<Rightarrow> int list \<Rightarrow> int option \<times> 'a heap_vm \<Rightarrow> bool" where
  "node_created vm kind ident attrs cs r \<longleftrightarrow>
     (case r of
        (None, vm') \<Rightarrow> failed vm vm'
      | (Some h, vm') \<Rightarrow> kept vm vm' \<and> sound vm' (ValNode h) \<and>
          (\<forall>n. value_view n vm' (ValNode h) = node_view kind ident attrs (map (\<lambda>c n. value_view n vm (ValNode c)) cs) n))"

lemma written_node:
  assumes "creating (text_sizes (kind # ident # concat (map attr_texts attrs))) vm0 cs0 vm cs"
    and "\<forall>str \<in> set (kind # ident # concat (map attr_texts attrs)). CHR 0x00 \<notin> set str"
    and "vm_node_count vm + 1 \<le> vm_node_capacity vm \<and> length (vm_node_attrs vm) + length attrs \<le> vm_node_attr_capacity vm \<and>
      length (vm_node_children vm) + length cs \<le> vm_node_child_capacity vm"
  shows "node_created vm0 kind ident attrs cs0 (write_node alloc block snapshot vm kind ident attrs (\<lambda>_. cs))"
proof -
  have k: "kept vm0 vm" "collectable vm" and cs: "\<forall>c \<in> set cs. sound vm (ValNode c)"
    using assms(1) by (auto simp: creating_def kept_def list_all2_conv_all_nth in_set_conv_nth)
  have room: "room_for_node (kind # ident # concat (map attr_texts attrs)) (length attrs) (length cs) vm"
    using assms(1,3) by (simp add: room_for_node_def creating_def)
  have same: "map (\<lambda>c n. value_view n vm0 (ValNode c)) cs0 = map (\<lambda>c n. value_view n vm (ValNode c)) cs"
    using assms(1) by (auto simp: creating_def list_all2_conv_all_nth intro!: nth_equalityI)
  obtain h vm' where "write_node alloc block snapshot vm kind ident attrs (\<lambda>_. cs) = (Some h, vm')" "kept vm vm'" "sound vm' (ValNode h)"
    "\<forall>n. value_view n vm' (ValNode h) = node_view kind ident attrs (map (\<lambda>c n. value_view n vm (ValNode c)) cs) n"
    using write_node_result [OF k(2) assms(2) room cs] by blast
  then show ?thesis
    using kept_trans [OF k(1)] unfolding node_created_def same by simp
qed

lemma attr_texts_nonzero:
  assumes "\<forall>p \<in> set_AivmNodeAttr attr. cstring_ok (vm_string_arena vm) p" and "str \<in> set (attr_texts (attr_text vm attr))"
  shows "CHR 0x00 \<notin> set str"
proof -
  obtain key v where attr: "attr = NodeAttr key v"
    by (cases attr)
  have "CHR 0x00 \<notin> set (the (cptr_text (vm_string_arena vm) (or_empty p)))" if "p \<in> set_AivmNodeAttr attr" for p
    using assms(1) that or_empty_text [of "vm_string_arena vm" p] text_no_zero [of "vm_string_arena vm" "or_empty p"] by fastforce
  then show ?thesis
    using assms(2) attr by (cases v) (auto simp: attr_text_def)
qed

lemma collected_and_written:
  assumes "creating (text_sizes (k # i # concat (map attr_texts as))) vm0 cs vm cs"
    and "\<forall>str \<in> set (k # i # concat (map attr_texts as)). CHR 0x00 \<notin> set str"
  shows "node_created vm0 k i as cs
    (then_do (collect_before_node alloc snapshot vm (length as) (length cs) (\<lambda>_. cs)) (\<lambda>children vm.
       then_do (collect_when_full alloc vm (length as) (length cs) children) (\<lambda>children vm.
         write_node alloc block snapshot vm k i as children)))"
proof -
  let ?n = "text_sizes (k # i # concat (map attr_texts as))"
  let ?before = "collect_before_node alloc snapshot vm (length as) (length cs) (\<lambda>_. cs)"
  have fails: "node_created vm0 k i as cs (None, vm')" if "failed vm0 vm'" for vm'
    using that by (simp add: node_created_def)
  consider vm1 where "?before = (None, vm1)" "failed vm0 vm1" | vm1 cs1 where "?before = (Some (\<lambda>_. cs1), vm1)" "creating ?n vm0 cs vm1 cs1"
    using collect_before_node_step [OF assms(1), of alloc snapshot "length as" "length cs"]
    by (cases ?before; cases "fst ?before") (auto simp: creation_step_def)
  then show ?thesis
  proof cases
    case 1
    then show ?thesis
      using fails by simp
  next
    case 2
    let ?full = "collect_when_full alloc vm1 (length as) (length cs) (\<lambda>_. cs1)"
    note f = collect_when_full_step [OF 2(2), of alloc "length as" "length cs"]
    consider vm2 where "?full = (None, vm2)" "failed vm0 vm2" | vm2 cs2 where "?full = (Some (\<lambda>_. cs2), vm2)" "creating ?n vm0 cs vm2 cs2"
      using f(1) by (cases ?full; cases "fst ?full") (auto simp: creation_step_def)
    then show ?thesis
    proof cases
      case 1
      then show ?thesis
        using fails 2(1) by simp
    next
      case w: 2
      have "length cs2 = length cs"
        using w(2) by (auto simp: creating_def dest: list_all2_lengthD)
      then show ?thesis
        using 2(1) w(1) f(2) [OF w(1)] written_node [OF w(2) assms(2)] by simp
    qed
  qed
qed

lemma create_node_outcome:
  assumes "collectable vm" and texts: "cptr_text (vm_string_arena vm) kind = Some k" "cptr_text (vm_string_arena vm) ident = Some i"
    and attrs: "\<forall>attr \<in> set attrs. \<forall>p \<in> set_AivmNodeAttr attr. cstring_ok (vm_string_arena vm) p"
    and cs: "\<forall>c \<in> set cs. sound vm (ValNode c)"
    and room: "cs = [] \<or> vm_string_arena_used vm + text_sizes (k # i # concat (map attr_texts (map (attr_text vm) attrs))) \<le> vm_string_arena_limit vm"
  shows "node_created vm k i (map (attr_text vm) attrs) cs (aivm_vm_create_node_record alloc block snapshot vm kind ident attrs (\<lambda>_. cs))"
proof -
  let ?as = "map (attr_text vm) attrs"
  have nonnull: "kind \<noteq> CNull" "ident \<noteq> CNull"
    using texts by auto
  have fails: "node_created vm k i ?as cs (None, vm')" if "failed vm vm'" for vm'
    using that by (simp add: node_created_def)
  have scratch: "node_scratch alloc vm (length attrs) = (Some (), vm) \<or>
      (\<exists>vm'. node_scratch alloc vm (length attrs) = (None, vm') \<and> failed vm vm')"
    using set_error_failed by (auto simp: node_scratch_def)
  have zero: "\<forall>str \<in> set (k # i # concat (map attr_texts ?as)). CHR 0x00 \<notin> set str"
    using text_no_zero [OF texts(1)] text_no_zero [OF texts(2)] attr_texts_nonzero [of _ vm] attrs by auto
  obtain r vm1 where 1: "reserve_node_texts alloc block snapshot vm k i ?as = (r, vm1)"
    by fastforce
  have "node_created vm k i ?as cs (then_do (reserve_node_texts alloc block snapshot vm k i ?as) (\<lambda>_ vm.
      then_do (collect_before_node alloc snapshot vm (length attrs) (length cs) (\<lambda>_. cs)) (\<lambda>children vm.
        then_do (collect_when_full alloc vm (length attrs) (length cs) children) (\<lambda>children vm.
          write_node alloc block snapshot vm k i ?as children))))"
    using reserve_result [OF assms(1) cs room 1] fails collected_and_written [OF _ zero, of vm cs vm1 alloc snapshot block] 1
    by (cases r) (simp_all del: text_sizes_simps)
  then show ?thesis
    using nonnull scratch fails snapshot_text_result [OF texts(1), of alloc] snapshot_text_result [OF texts(2), of alloc]
      snapshot_attrs_result [OF attrs, of alloc]
    unfolding aivm_vm_create_node_record_def Let_def
    by (auto simp del: text_sizes_simps)
qed

section \<open>Properties\<close>

text \<open>Creation of a node on a well-formed heap either fails with an error or answers a handle of a node that
  shows the given kind, id, attributes and children; what the program could see before is as it was, through
  all growth and collections on the way. Children are safe when the string arena has room for the new texts, so that
  it is not compacted while only the caller holds them.\<close>

lemma node_creation_shows_node:
  assumes "collectable vm" and "cptr_text (vm_string_arena vm) kind = Some k" and "cptr_text (vm_string_arena vm) ident = Some i"
    and "\<forall>attr \<in> set attrs. \<forall>p \<in> set_AivmNodeAttr attr. cstring_ok (vm_string_arena vm) p"
    and "\<forall>c \<in> set cs. sound vm (ValNode c)"
    and "cs = [] \<or> vm_string_arena_used vm + text_sizes (k # i # concat (map attr_texts (map (attr_text vm) attrs))) \<le> vm_string_arena_limit vm"
  shows "case aivm_vm_create_node_record alloc block snapshot vm kind ident attrs (\<lambda>_. cs) of
      (None, vm') \<Rightarrow> vm_status vm' = AIVM_VM_STATUS_ERROR
    | (Some h, vm') \<Rightarrow> same_views vm vm' \<and> collectable vm' \<and> sound vm' (ValNode h) \<and>
        (\<forall>n. value_view (Suc n) vm' (ValNode h) =
           VNode (Some k) (Some i) (map (map_AivmNodeAttr Some) (map (attr_text vm) attrs)) (map (\<lambda>c. value_view n vm (ValNode c)) cs))"
  using create_node_outcome [OF assms, of alloc block snapshot]
  by (auto simp: node_created_def failed_def kept_def node_view_Suc simp del: value_view.simps split: option.splits prod.splits)

lemma heap_demo_child: "sound heap_demo (ValNode 3)"
proof -
  have "reach heap_demo {ValPair 2} (ValNode 3)"
    using reach_child [of heap_demo "{ValPair 2}" 2] reach_pair [of heap_demo "{ValPair 2}" 2 _ "ValNode 2"]
      reach_root [of "ValPair 2" "{ValPair 2}" heap_demo]
    by (auto simp: heap_demo_fields aivm_vm_lookup_scratch_pair_def aivm_vm_lookup_node_def node_children_def)
  moreover have "sound heap_demo (ValPair 2)"
    using heap_demo_ok by (simp add: heap_ok_sound heap_demo_roots)
  ultimately show ?thesis
    by (rule sound_reach [rotated])
qed

lemma node_creation_shows_node_witness:
  "case aivm_vm_create_node_record (\<lambda>n. True) 2 None heap_demo (CArena 0) (CExt ''x'') [NodeAttr (CExt ''k'') (AIVM_NODE_ATTR_INT 5)] (\<lambda>_. [3]) of
      (None, vm') \<Rightarrow> vm_status vm' = AIVM_VM_STATUS_ERROR
    | (Some h, vm') \<Rightarrow> same_views heap_demo vm' \<and>
        (\<forall>n. value_view (Suc n) vm' (ValNode h) =
           VNode (Some ''Row'') (Some ''x'') [NodeAttr (Some ''k'') (AIVM_NODE_ATTR_INT 5)] [value_view n heap_demo (ValNode 3)])"
proof -
  have "collectable heap_demo"
    using heap_demo_ok heap_demo_string_arena_ok by (simp add: collectable_def)
  moreover have "vm_string_arena_limit heap_demo = 64"
    by (simp add: heap_demo_def AivmMapVm.defs)
  ultimately show ?thesis
    using node_creation_shows_node [of heap_demo "CArena 0" "''Row''" "CExt ''x''" "''x''" "[NodeAttr (CExt ''k'') (AIVM_NODE_ATTR_INT 5)]" "[3]"
        "\<lambda>n. True" 2 None] heap_demo_child
    by (auto simp: heap_demo_fields c_string_def cstring_ok_def attr_text_def or_empty_def simp del: value_view.simps
        split: option.splits prod.splits)
qed

end
