(* ===== verification/Node_Builder.thy ===== *)
theory Node_Builder
  imports Node_Create
begin

text \<open>
  Node builders (\<^verbatim>\<open>src/src/aivm_vm_node_builder.c\<close>) and their instructions in \<open>aivm_step\<close> (\<^verbatim>\<open>src/src/aivm_vm.c\<close>): a
  builder collects attributes and children outside the node arena and becomes a node when it is finished.
\<close>

section \<open>Builders\<close>

definition empty_builder :: AivmNodeBuilderRecord where
  "empty_builder = \<lparr>builder_active = False, builder_kind = '''', builder_id = '''', builder_attrs = [], builder_attr_capacity = 0,
     builder_children = [], builder_child_capacity = 0\<rparr>"

text \<open>The fixed array of builders; slots that were never used are zero.\<close>

definition builder_at :: "'a heap_vm \<Rightarrow> nat \<Rightarrow> AivmNodeBuilderRecord" where
  "builder_at vm i = (if i < length (vm_node_builders vm) then vm_node_builders vm ! i else empty_builder)"

definition put_builder :: "nat \<Rightarrow> AivmNodeBuilderRecord \<Rightarrow> 'a heap_vm \<Rightarrow> 'a heap_vm" where
  "put_builder i b vm =
     vm\<lparr>vm_node_builders := (vm_node_builders vm @ replicate (i + 1 - length (vm_node_builders vm)) empty_builder)[i := b]\<rparr>"

text \<open>The memory for the copy of a text and its terminating zero.\<close>

definition copy_text :: "(nat \<Rightarrow> bool) \<Rightarrow> string option \<Rightarrow> string option" where
  "copy_text alloc input = (case input of None \<Rightarrow> None | Some str \<Rightarrow> if alloc ((length str + 1) mod (SIZE_MAX + 1)) then Some str else None)"

definition dispose_builder :: "nat \<Rightarrow> 'a heap_vm \<Rightarrow> 'a heap_vm" where
  "dispose_builder i vm = put_builder i empty_builder vm"

definition lookup_builder :: "'a heap_vm \<Rightarrow> int \<Rightarrow> nat option" where
  "lookup_builder vm handle =
     (if handle \<le> 0 \<or> handle > int AIVM_VM_NODE_BUILDER_CAPACITY then None
      else if \<not> builder_active (builder_at vm (nat (handle - 1))) then None
      else Some (nat (handle - 1)))"

function double_capacity :: "nat \<Rightarrow> nat \<Rightarrow> nat option" where
  "double_capacity required next =
     (if next = 0 \<or> required \<le> next then Some next
      else if next > SIZE_MAX div 2 then None
      else double_capacity required (next * 2))"
  by pat_completeness auto

termination
  by (relation "measure (\<lambda>(required, next). required - next)") auto

declare double_capacity.simps [simp del]

definition grow_array :: "(nat \<Rightarrow> bool) \<Rightarrow> nat \<Rightarrow> nat \<Rightarrow> nat \<Rightarrow> nat option" where
  "grow_array alloc item_size capacity required =
     (case double_capacity required (if capacity = 0 then 4 else capacity) of
        None \<Rightarrow> None
      | Some next \<Rightarrow> if alloc (next * item_size mod (SIZE_MAX + 1)) then Some next else None)"

definition aivm_vm_reset_node_builders :: "'a heap_vm \<Rightarrow> 'a heap_vm" where
  "aivm_vm_reset_node_builders vm = fold dispose_builder [0..<AIVM_VM_NODE_BUILDER_CAPACITY] vm"

definition aivm_vm_node_builder_new :: "(nat \<Rightarrow> bool) \<Rightarrow> 'a heap_vm \<Rightarrow> string \<Rightarrow> string \<Rightarrow> int option \<times> 'a heap_vm" where
  "aivm_vm_node_builder_new alloc vm kind ident =
     (case find (\<lambda>i. \<not> builder_active (builder_at vm i)) [0..<AIVM_VM_NODE_BUILDER_CAPACITY] of
        None \<Rightarrow> (None, aivm_set_vm_error vm AIVM_VM_ERR_MEMORY_PRESSURE ''NODE_BUILDER_NEW capacity exceeded.'')
      | Some i \<Rightarrow>
          (case (copy_text alloc (Some kind), copy_text alloc (Some ident)) of
             (Some k, Some d) \<Rightarrow>
               (Some (int (i + 1)), put_builder i ((builder_at vm i)\<lparr>builder_kind := k, builder_id := d, builder_active := True\<rparr>) vm)
           | _ \<Rightarrow> (None, aivm_set_vm_error (dispose_builder i vm) AIVM_VM_ERR_MEMORY_PRESSURE ''NODE_BUILDER_NEW allocation failed.'')))"

definition aivm_vm_node_builder_append_child :: "(nat \<Rightarrow> bool) \<Rightarrow> 'a heap_vm \<Rightarrow> int \<Rightarrow> int \<Rightarrow> unit option \<times> 'a heap_vm" where
  "aivm_vm_node_builder_append_child alloc vm builder_handle child_handle =
     (case (lookup_builder vm builder_handle, aivm_vm_lookup_node vm child_handle) of
        (Some i, Some _) \<Rightarrow>
          let b = builder_at vm i in
          (case (if length (builder_children b) = builder_child_capacity b
                 then grow_array alloc 8 (builder_child_capacity b) (length (builder_children b) + 1)
                 else Some (builder_child_capacity b)) of
             None \<Rightarrow> (None, aivm_set_vm_error vm AIVM_VM_ERR_MEMORY_PRESSURE ''NODE_BUILDER_APPEND_CHILD allocation failed.'')
           | Some capacity \<Rightarrow>
               (Some (), put_builder i (b\<lparr>builder_children := builder_children b @ [child_handle], builder_child_capacity := capacity\<rparr>) vm))
      | _ \<Rightarrow> (None, aivm_set_vm_error vm AIVM_VM_ERR_TYPE_MISMATCH ''NODE_BUILDER_APPEND_CHILD requires (builder,node).''))"

text \<open>The attribute with copies of its key and of a string value; an identifier keeps its pointer. The outer \<open>None\<close> is
  the path that releases a value that is no allocated text.\<close>

definition copied_attr ::
  "(nat \<Rightarrow> bool) \<Rightarrow> 'a heap_vm \<Rightarrow> cptr \<Rightarrow> cptr AivmNodeAttrValue \<Rightarrow> cptr AivmNodeAttr option option" where
  "copied_attr alloc vm key v =
     (let text_of = (\<lambda>p. copy_text alloc (cptr_text (vm_string_arena vm) p)) in
      case v of
        AIVM_NODE_ATTR_STRING p \<Rightarrow>
          (case (text_of key, text_of p) of
             (Some k, Some str) \<Rightarrow> Some (Some (NodeAttr (CExt k) (AIVM_NODE_ATTR_STRING (CExt str))))
           | _ \<Rightarrow> Some None)
      | _ \<Rightarrow> (case text_of key of None \<Rightarrow> None | Some k \<Rightarrow> Some (Some (NodeAttr (CExt k) v))))"

definition aivm_vm_node_builder_append_attr ::
  "(nat \<Rightarrow> bool) \<Rightarrow> 'a heap_vm \<Rightarrow> int \<Rightarrow> int \<Rightarrow> (unit option \<times> 'a heap_vm) option" where
  "aivm_vm_node_builder_append_attr alloc vm builder_handle attr_handle =
     (let fail = (\<lambda>err detail. Some (None, aivm_set_vm_error vm err detail)) in
      case (lookup_builder vm builder_handle, aivm_vm_lookup_node vm attr_handle) of
        (Some i, Some attr) \<Rightarrow>
          if node_attr_count attr \<noteq> 1 \<or> node_attr_start attr \<ge> length (vm_node_attrs vm)
          then fail AIVM_VM_ERR_TYPE_MISMATCH ''NODE_BUILDER_APPEND_ATTR requires (builder,single-attr-node).''
          else
            (case copied_attr alloc vm (node_id attr) (attr_value (vm_node_attrs vm ! node_attr_start attr)) of
               None \<Rightarrow> None
             | Some None \<Rightarrow> fail AIVM_VM_ERR_MEMORY_PRESSURE ''NODE_BUILDER_APPEND_ATTR allocation failed.''
             | Some (Some a) \<Rightarrow>
                 let b = builder_at vm i in
                 (case (if length (builder_attrs b) = builder_attr_capacity b
                        then grow_array alloc sizeof_AivmNodeAttr (builder_attr_capacity b) (length (builder_attrs b) + 1)
                        else Some (builder_attr_capacity b)) of
                    None \<Rightarrow> fail AIVM_VM_ERR_MEMORY_PRESSURE ''NODE_BUILDER_APPEND_ATTR allocation failed.''
                  | Some capacity \<Rightarrow>
                      Some (Some (), put_builder i (b\<lparr>builder_attrs := builder_attrs b @ [a], builder_attr_capacity := capacity\<rparr>) vm)))
      | _ \<Rightarrow> fail AIVM_VM_ERR_TYPE_MISMATCH ''NODE_BUILDER_APPEND_ATTR requires (builder,single-attr-node).'')"

text \<open>The node is created from the array of the builder itself, which a collection renumbers in place.\<close>

definition aivm_vm_node_builder_finish ::
  "(nat \<Rightarrow> bool) \<Rightarrow> nat \<Rightarrow> (nat \<times> nat) option \<Rightarrow> 'a heap_vm \<Rightarrow> int \<Rightarrow> int option \<times> 'a heap_vm" where
  "aivm_vm_node_builder_finish alloc block snapshot vm builder_handle =
     (case lookup_builder vm builder_handle of
        None \<Rightarrow> (None, aivm_set_vm_error vm AIVM_VM_ERR_TYPE_MISMATCH ''NODE_BUILDER_FINISH requires builder operand.'')
      | Some i \<Rightarrow>
          let b = builder_at vm i in
          (case aivm_vm_create_node_record alloc block snapshot vm (CExt (builder_kind b)) (CExt (builder_id b)) (builder_attrs b)
                  (\<lambda>vm. builder_children (builder_at vm i)) of
             (None, vm) \<Rightarrow> (None, vm)
           | (Some handle, vm) \<Rightarrow> (Some handle, dispose_builder i vm)))"

section \<open>Instructions\<close>

text \<open>A failed operand check reports an error unless the builder has.\<close>

definition builder_failed :: "AivmProgram \<Rightarrow> string \<Rightarrow> 'a vm \<Rightarrow> 'a vm option" where
  "builder_failed p detail vm =
     Some (park p (if vm_status vm \<noteq> AIVM_VM_STATUS_ERROR then aivm_set_vm_error vm AIVM_VM_ERR_TYPE_MISMATCH detail else vm))"

definition push_or_report :: "AivmProgram \<Rightarrow> string \<Rightarrow> 'b option \<times> 'a vm \<Rightarrow> ('b \<Rightarrow> AivmValue) \<Rightarrow> 'a vm option" where
  "push_or_report p detail r v =
     (case r of
        (None, vm) \<Rightarrow> builder_failed p detail vm
      | (Some x, vm) \<Rightarrow>
          (case aivm_stack_push vm (v x) of (None, vm) \<Rightarrow> builder_failed p detail vm | (Some _, vm) \<Rightarrow> Some (advance vm)))"

definition op_node_builder_new :: "(nat \<Rightarrow> bool) \<Rightarrow> AivmProgram \<Rightarrow> 'a heap_vm \<Rightarrow> 'a heap_vm option" where
  "op_node_builder_new alloc p vm =
     or_park p (aivm_stack_pop vm) (\<lambda>id_value vm.
     or_park p (aivm_stack_pop vm) (\<lambda>kind_value vm.
       let detail = ''NODE_BUILDER_NEW requires (string,string).'' in
       case (string_operand vm kind_value, string_operand vm id_value) of
         (Some kind, Some ident) \<Rightarrow> push_or_report p detail (aivm_vm_node_builder_new alloc vm kind ident) ValNodeBuilder
       | _ \<Rightarrow> builder_failed p detail vm))"

text \<open>An operand that could not be popped is void in the report.\<close>

definition op_node_builder_append_child :: "(nat \<Rightarrow> bool) \<Rightarrow> AivmProgram \<Rightarrow> 'a heap_vm \<Rightarrow> 'a heap_vm option" where
  "op_node_builder_append_child alloc p vm =
     (let detail = (\<lambda>b c. snprintf AIVM_VM_ERROR_DETAIL_BYTES
            [''NODE_BUILDER_APPEND_CHILD requires (builder,node). actual=('', aivm_vm_value_type_name (value_type b), '','',
             aivm_vm_value_type_name (value_type c), '')'']) in
      case aivm_stack_pop vm of
        (None, vm) \<Rightarrow> builder_failed p (detail ValVoid ValVoid) vm
      | (Some child_value, vm) \<Rightarrow>
          (case aivm_stack_pop vm of
             (None, vm) \<Rightarrow> builder_failed p (detail ValVoid child_value) vm
           | (Some builder_value, vm) \<Rightarrow>
               (case (builder_value, child_value) of
                  (ValNodeBuilder b, ValNode c) \<Rightarrow>
                    push_or_report p (detail builder_value child_value) (aivm_vm_node_builder_append_child alloc vm b c) (\<lambda>_. builder_value)
                | _ \<Rightarrow> builder_failed p (detail builder_value child_value) vm)))"

definition op_node_builder_append_attr :: "(nat \<Rightarrow> bool) \<Rightarrow> AivmProgram \<Rightarrow> 'a heap_vm \<Rightarrow> 'a heap_vm option" where
  "op_node_builder_append_attr alloc p vm =
     (let detail = ''NODE_BUILDER_APPEND_ATTR requires (builder,node).'' in
      case aivm_stack_pop vm of
        (None, vm) \<Rightarrow> builder_failed p detail vm
      | (Some attr_operand, vm) \<Rightarrow>
          (case aivm_stack_pop vm of
             (None, vm) \<Rightarrow> builder_failed p detail vm
           | (Some builder_value, vm) \<Rightarrow>
               (case (builder_value, attr_operand) of
                  (ValNodeBuilder b, ValNode a) \<Rightarrow>
                    (case aivm_vm_node_builder_append_attr alloc vm b a of
                       None \<Rightarrow> None
                     | Some r \<Rightarrow> push_or_report p detail r (\<lambda>_. builder_value))
                | _ \<Rightarrow> builder_failed p detail vm)))"

definition op_node_builder_finish ::
  "(nat \<Rightarrow> bool) \<Rightarrow> nat \<Rightarrow> (nat \<times> nat) option \<Rightarrow> AivmProgram \<Rightarrow> 'a heap_vm \<Rightarrow> 'a heap_vm option" where
  "op_node_builder_finish alloc block snapshot p vm =
     (let detail = ''NODE_BUILDER_FINISH requires builder operand.'' in
      case aivm_stack_pop vm of
        (None, vm) \<Rightarrow> builder_failed p detail vm
      | (Some builder_value, vm) \<Rightarrow>
          (case builder_value of
             ValNodeBuilder b \<Rightarrow> push_or_report p detail (aivm_vm_node_builder_finish alloc block snapshot vm b) ValNode
           | _ \<Rightarrow> builder_failed p detail vm))"

section \<open>Creation that needs no collection\<close>

text \<open>There is room for the texts and the node, and it is not time for a collection.\<close>

definition node_ready :: "string list \<Rightarrow> nat \<Rightarrow> nat \<Rightarrow> 'a heap_vm \<Rightarrow> bool" where
  "node_ready texts attr_count child_count vm \<longleftrightarrow>
     room_for_node texts attr_count child_count vm \<and> \<not> aivm_vm_should_attempt_proactive_node_gc vm attr_count child_count"

lemma room_needed_counts:
  assumes "collectable vm" and "room_for_node texts a c vm" and "vm_node_capacity vm \<le> SIZE_MAX"
  shows "\<exists>needed. needed_counts vm a c = Some needed \<and> node_room vm needed"
proof -
  have "aivm_size_add_checked (length (vm_node_attrs vm)) a = Some (length (vm_node_attrs vm) + a)"
    "aivm_size_add_checked (length (vm_node_children vm)) c = Some (length (vm_node_children vm) + c)"
    "aivm_size_add_checked (vm_node_count vm) 1 = Some (vm_node_count vm + 1)"
    using assms by (simp_all add: room_for_node_def collectable_def heap_ok_def heap_closed_def)
  then show ?thesis
    using assms(2) by (simp add: needed_counts_def node_room_def room_for_node_def del: size_add_checked_Some)
qed

text \<open>Without a collection the children can be read at the beginning.\<close>

lemma create_reads_children:
  assumes "collectable vm" and "cptr_text (vm_string_arena vm) kind = Some k" and "cptr_text (vm_string_arena vm) ident = Some i"
    and "\<forall>attr \<in> set attrs. \<forall>p \<in> set_AivmNodeAttr attr. cstring_ok (vm_string_arena vm) p"
    and ready: "node_ready (k # i # concat (map attr_texts (map (attr_text vm) attrs))) (length attrs) (length (children vm)) vm"
    and "vm_node_capacity vm \<le> SIZE_MAX"
    and same: "\<And>vm'. vm_node_builders vm' = vm_node_builders vm \<Longrightarrow> children vm' = children vm"
  shows "aivm_vm_create_node_record alloc block snapshot vm kind ident attrs children =
    aivm_vm_create_node_record alloc block snapshot vm kind ident attrs (\<lambda>_. children vm)"
proof -
  let ?as = "map (attr_text vm) attrs" and ?cs = "children vm"
  let ?n = "text_sizes (k # i # concat (map attr_texts ?as))"
  have room: "room_for_node (k # i # concat (map attr_texts ?as)) (length attrs) (length ?cs) vm"
    and calm: "\<not> aivm_vm_should_attempt_proactive_node_gc vm (length attrs) (length ?cs)"
    using ready by (simp_all add: node_ready_def)
  obtain needed where needed: "needed_counts vm (length attrs) (length ?cs) = Some needed" "node_room vm needed"
    using room_needed_counts [OF assms(1) room assms(6)] by blast
  have "?n \<le> SIZE_MAX" and ok: "string_arena_ok vm" and fits: "vm_string_arena_used vm + ?n \<le> vm_string_arena_limit vm"
    using room assms(1) by (auto simp: room_for_node_def collectable_def string_arena_ok_def simp del: text_sizes_simps)
  then have reserve: "reserve_node_texts alloc block snapshot vm k i ?as = (Some (), vm)"
    using room_without_collection [OF ok fits, of alloc block snapshot]
    by (simp add: reserve_node_texts_def node_text_reserve_size Let_def aivm_string_arena_reserve_def del: text_sizes_simps)
  have steps: "then_do (collect_before_node alloc snapshot vm (length attrs) (length ?cs) ch) (\<lambda>ch vm.
      then_do (collect_when_full alloc vm (length attrs) (length ?cs) ch) (\<lambda>ch vm. write_node alloc block snapshot vm k i ?as ch)) =
      write_node alloc block snapshot vm k i ?as ch" for ch
    using calm needed by (simp add: collect_before_node_def collect_when_full_def)
  have zero: "\<forall>str \<in> set (k # i # concat (map attr_texts ?as)). CHR 0x00 \<notin> set str"
    using text_no_zero [OF assms(2)] text_no_zero [OF assms(3)] attr_texts_nonzero [of _ vm] assms(4) by auto
  have room': "room_for_node (k # i # concat (map attr_texts ?as)) (length ?as) (length ?cs) vm"
    using room by simp
  have written: "write_node alloc block snapshot vm k i ?as children = write_node alloc block snapshot vm k i ?as (\<lambda>_. ?cs)"
    by (rule write_reads_children [where children = children, OF assms(1) zero room']) (rule same)
  have "then_do (reserve_node_texts alloc block snapshot vm k i ?as) (\<lambda>_ vm.
      then_do (collect_before_node alloc snapshot vm (length attrs) (length ?cs) ch) (\<lambda>ch vm.
        then_do (collect_when_full alloc vm (length attrs) (length ?cs) ch) (\<lambda>ch vm. write_node alloc block snapshot vm k i ?as ch))) =
      write_node alloc block snapshot vm k i ?as ch" for ch
    using steps [of ch] by (simp only: reserve then_do_simps)
  from this [of children] this [of "\<lambda>_. ?cs"] show ?thesis
    using snapshot_text_result [OF assms(2), of alloc] snapshot_text_result [OF assms(3), of alloc] snapshot_attrs_result [OF assms(4), of alloc]
      written
    unfolding aivm_vm_create_node_record_def Let_def
    by (auto simp: node_scratch_def)
qed

section \<open>Builders and the heap\<close>

text \<open>A change of a builder is safe for the heap when the children it holds afterwards are nodes that are safe to follow.\<close>

lemma same_store_builder [simp]: "same_store vm (put_builder i b vm)"
  by (simp add: same_store_def put_builder_def)

lemma builder_views: "value_view n (put_builder i b vm) v = value_view n vm v"
  by (rule same_store_views(4) [OF same_store_builder])

lemma put_builder_handles:
  assumes "h \<in> set (builder_handles (put_builder i b vm))"
  shows "h \<in> set (builder_handles vm) \<or> builder_active b \<and> h \<in> set (builder_children b)"
proof -
  obtain b' where "b' \<in> set ((vm_node_builders vm @ replicate (i + 1 - length (vm_node_builders vm)) empty_builder)[i := b])"
    "builder_active b'" "h \<in> set (builder_children b')"
    using assms by (auto simp: builder_handles_def put_builder_def split: if_splits)
  then show ?thesis
    using set_update_subset_insert [of "vm_node_builders vm @ replicate (i + 1 - length (vm_node_builders vm)) empty_builder" i b]
    by (auto simp: builder_handles_def empty_builder_def)
qed

lemma collectable_builder:
  assumes "collectable vm" and "builder_active b \<Longrightarrow> \<forall>c \<in> set (builder_children b). sound vm (ValNode c)"
  shows "collectable (put_builder i b vm)"
proof -
  let ?vm' = "put_builder i b vm"
  have "sound vm v" if "v \<in> gc_roots ?vm' []" for v
  proof -
    have "v \<in> gc_roots vm [] \<or> (\<exists>c \<in> set (builder_children b). builder_active b \<and> v = ValNode c)"
      using that put_builder_handles [of _ i b vm]
      by (auto simp: gc_roots_def root_values_def local_values_def fixed_handles_def) (auto simp: put_builder_def)
    then show ?thesis
      using assms by (auto simp: collectable_def heap_ok_sound)
  qed
  then have "\<forall>v \<in> gc_roots ?vm' []. sound ?vm' v"
    using same_store_views(3) [OF same_store_builder] by blast
  moreover have "heap_closed ?vm'" "string_arena_ok ?vm'"
    using assms(1)
    by (simp_all add: collectable_def heap_ok_def heap_closed_def node_shape_ok_def node_children_def put_builder_def string_arena_ok_def
        index_ok_def)
  ultimately show ?thesis
    by (simp add: collectable_def heap_ok_sound)
qed

lemma builder_children_sound:
  assumes "collectable vm" and "lookup_builder vm h = Some i" and "c \<in> set (builder_children (builder_at vm i))"
  shows "sound vm (ValNode c)"
proof -
  have active: "builder_active (builder_at vm i)"
    using assms(2) by (auto simp: lookup_builder_def split: if_splits)
  then have "i < length (vm_node_builders vm)"
    by (auto simp: builder_at_def empty_builder_def split: if_splits)
  then have "c \<in> set (builder_handles vm)"
    using assms(3) active by (auto simp: builder_handles_def builder_at_def intro!: bexI [of _ "vm_node_builders vm ! i"])
  then show ?thesis
    using assms(1) by (auto simp: collectable_def heap_ok_sound gc_roots_def)
qed

lemma builder_at_put: "builder_at (put_builder i b vm) j = (if j = i then b else builder_at vm j)"
  by (auto simp: builder_at_def put_builder_def nth_list_update nth_append)

lemma lookup_put: "lookup_builder vm h = Some i \<Longrightarrow> lookup_builder (put_builder i b vm) h = (if builder_active b then Some i else None)"
  by (auto simp: lookup_builder_def builder_at_put split: if_splits)

text \<open>The operations on builders keep the heap well formed.\<close>

lemma builder_append_child_collectable:
  assumes "collectable vm" and "sound vm (ValNode c)" and "aivm_vm_node_builder_append_child alloc vm h c = (Some u, vm')"
  shows "collectable vm'"
  using assms builder_children_sound [OF assms(1), of h]
  by (auto simp: aivm_vm_node_builder_append_child_def Let_def split: option.splits if_splits intro!: collectable_builder)

lemma builder_new_collectable:
  assumes "collectable vm" and "\<And>i. \<not> builder_active (builder_at vm i) \<Longrightarrow> builder_children (builder_at vm i) = []"
    and "aivm_vm_node_builder_new alloc vm kind ident = (Some h, vm')"
  shows "collectable vm'"
  using assms
  by (auto simp: aivm_vm_node_builder_new_def find_Some_iff split: option.splits intro!: collectable_builder)

text \<open>A finished builder becomes a node with what was put into it, and its slot is free again.\<close>

lemma builder_finish_node:
  fixes vm :: "'a heap_vm"
  defines "b i \<equiv> builder_at vm i"
  assumes c: "collectable vm" and look: "lookup_builder vm h = Some i"
    and attrs: "\<forall>attr \<in> set (builder_attrs (b i)). \<forall>p \<in> set_AivmNodeAttr attr. cstring_ok (vm_string_arena vm) p"
    and ready: "node_ready (c_string (builder_kind (b i)) # c_string (builder_id (b i)) # concat (map attr_texts (map (attr_text vm) (builder_attrs (b i)))))
      (length (builder_attrs (b i))) (length (builder_children (b i))) vm"
    and cap: "vm_node_capacity vm \<le> SIZE_MAX"
  shows "case aivm_vm_node_builder_finish alloc block snapshot vm h of
      (None, vm') \<Rightarrow> vm_status vm' = AIVM_VM_STATUS_ERROR
    | (Some node, vm') \<Rightarrow> collectable vm' \<and> sound vm' (ValNode node) \<and> lookup_builder vm' h = None \<and>
        (\<forall>n. value_view n vm' (ValNode node) = node_view (c_string (builder_kind (b i))) (c_string (builder_id (b i)))
           (map (attr_text vm) (builder_attrs (b i))) (map (\<lambda>c n. value_view n vm (ValNode c)) (builder_children (b i))) n)"
proof -
  let ?k = "c_string (builder_kind (b i))" and ?d = "c_string (builder_id (b i))" and ?as = "builder_attrs (b i)" and ?cs = "builder_children (b i)"
  let ?read = "\<lambda>vm :: 'a heap_vm. builder_children (builder_at vm i)"
  have cs: "\<forall>c \<in> set ?cs. sound vm (ValNode c)"
    using builder_children_sound [OF c look] by (simp add: b_def)
  have room: "vm_string_arena_used vm + text_sizes (?k # ?d # concat (map attr_texts (map (attr_text vm) ?as))) \<le> vm_string_arena_limit vm"
    using ready by (simp add: node_ready_def room_for_node_def del: text_sizes_simps)
  have texts: "cptr_text (vm_string_arena vm) (CExt (builder_kind (b i))) = Some ?k" "cptr_text (vm_string_arena vm) (CExt (builder_id (b i))) = Some ?d"
    by simp_all
  have read: "aivm_vm_create_node_record alloc block snapshot vm (CExt (builder_kind (b i))) (CExt (builder_id (b i))) ?as ?read =
      aivm_vm_create_node_record alloc block snapshot vm (CExt (builder_kind (b i))) (CExt (builder_id (b i))) ?as (\<lambda>_. ?cs)"
    unfolding b_def
  proof (rule create_reads_children [where children = ?read, OF c texts [unfolded b_def] attrs [unfolded b_def] ready [unfolded b_def] cap])
    fix vm' :: "'a heap_vm"
    assume "vm_node_builders vm' = vm_node_builders vm"
    then show "?read vm' = ?read vm"
      by (simp add: builder_at_def)
  qed
  note made = create_node_outcome [OF c texts attrs cs disjI2 [OF room], of alloc block snapshot]
  have free: "lookup_builder (dispose_builder i vm') h = None" for vm' :: "'a heap_vm"
    using look by (auto simp: lookup_builder_def dispose_builder_def builder_at_put empty_builder_def split: if_splits)
  have gone: "collectable (dispose_builder i vm')" "sound (dispose_builder i vm') v = sound vm' v"
    "value_view n (dispose_builder i vm') v = value_view n vm' v" if "collectable vm'" for vm' v n
    using collectable_builder [OF that, of empty_builder i] same_store_views(3,4) [OF same_store_builder [of vm' i empty_builder]]
    by (simp_all add: dispose_builder_def empty_builder_def del: value_view.simps)
  obtain r vm1 where r: "aivm_vm_create_node_record alloc block snapshot vm (CExt (builder_kind (b i))) (CExt (builder_id (b i))) ?as (\<lambda>_. ?cs) = (r, vm1)"
    by fastforce
  show ?thesis
  proof (cases r)
    case None
    then show ?thesis
      using made r look read by (simp add: aivm_vm_node_builder_finish_def Let_def node_created_def failed_def b_def)
  next
    case (Some node)
    have done1: "kept vm vm1" "sound vm1 (ValNode node)"
      "\<forall>n. value_view n vm1 (ValNode node) = node_view ?k ?d (map (attr_text vm) ?as) (map (\<lambda>c n. value_view n vm (ValNode c)) ?cs) n"
      using made unfolding r Some node_created_def by auto
    have "aivm_vm_node_builder_finish alloc block snapshot vm h = (Some node, dispose_builder i vm1)"
      using r Some look read by (simp add: aivm_vm_node_builder_finish_def Let_def b_def)
    moreover have "collectable vm1"
      using done1(1) by (simp add: kept_def)
    ultimately show ?thesis
      using done1(2,3) free [of vm1] gone [of vm1] by (simp del: value_view.simps)
  qed
qed

lemma put_builder_fields [simp]:
  "vm_string_arena_used (put_builder i b vm) = vm_string_arena_used vm" "vm_string_arena_limit (put_builder i b vm) = vm_string_arena_limit vm"
  "vm_nodes (put_builder i b vm) = vm_nodes vm" "vm_node_attrs (put_builder i b vm) = vm_node_attrs vm"
  "vm_node_children (put_builder i b vm) = vm_node_children vm" "vm_node_capacity (put_builder i b vm) = vm_node_capacity vm"
  "vm_node_attr_capacity (put_builder i b vm) = vm_node_attr_capacity vm"
  "vm_node_child_capacity (put_builder i b vm) = vm_node_child_capacity vm"
  "vm_node_allocations_since_gc (put_builder i b vm) = vm_node_allocations_since_gc vm"
  by (simp_all add: put_builder_def)

lemma node_ready_builder [simp]: "node_ready texts a c (put_builder i b vm) = node_ready texts a c vm"
  by (simp add: node_ready_def room_for_node_def aivm_vm_should_attempt_proactive_node_gc_def cong: option.case_cong)

text \<open>What appending children leaves: the builder holds them in order and nothing else has changed.\<close>

lemma builder_append_children:
  assumes "collectable vm" and "lookup_builder vm h = Some i" and "\<forall>c \<in> set cs. sound vm (ValNode c)"
    and "each_then (\<lambda>vm c. aivm_vm_node_builder_append_child alloc vm h c) cs vm = (r, vm')"
  shows "case r of None \<Rightarrow> vm_status vm' = AIVM_VM_STATUS_ERROR
    | Some _ \<Rightarrow> collectable vm' \<and> (\<exists>capacity. vm' = put_builder i ((builder_at vm i)
        \<lparr>builder_children := builder_children (builder_at vm i) @ cs, builder_child_capacity := capacity\<rparr>) vm)"
  using assms
proof (induction cs arbitrary: vm r)
  case Nil
  then have "i < length (vm_node_builders vm)"
    by (auto simp: lookup_builder_def builder_at_def empty_builder_def split: if_splits)
  then have "put_builder i (builder_at vm i) vm = vm"
    by (simp add: put_builder_def builder_at_def)
  then show ?case
    using Nil by (auto intro!: exI [of _ "builder_child_capacity (builder_at vm i)"])
next
  case (Cons c cs)
  let ?b = "builder_at vm i"
  obtain r1 vm1 where 1: "aivm_vm_node_builder_append_child alloc vm h c = (r1, vm1)"
    by fastforce
  show ?case
  proof (cases r1)
    case None
    then show ?thesis
      using 1 Cons.prems(4) by (auto simp: aivm_vm_node_builder_append_child_def Let_def split: option.splits if_splits)
  next
    case (Some u)
    obtain capacity where vm1: "vm1 = put_builder i (?b\<lparr>builder_children := builder_children ?b @ [c], builder_child_capacity := capacity\<rparr>) vm"
      using 1 Some Cons.prems(2) by (auto simp: aivm_vm_node_builder_append_child_def Let_def split: option.splits if_splits)
    have active: "builder_active ?b"
      using Cons.prems(2) by (auto simp: lookup_builder_def split: if_splits)
    have c1: "collectable vm1"
      using builder_append_child_collectable [OF Cons.prems(1), of c alloc h u vm1] Cons.prems(3) 1 Some by simp
    have look: "lookup_builder vm1 h = Some i"
      using lookup_put [OF Cons.prems(2)] active by (simp add: vm1)
    have cs: "\<forall>c \<in> set cs. sound vm1 (ValNode c)"
      using Cons.prems(3) same_store_views(3) [OF same_store_builder [of vm i]] by (simp add: vm1)
    obtain r2 where rest: "each_then (\<lambda>vm c. aivm_vm_node_builder_append_child alloc vm h c) cs vm1 = (r2, vm')"
      "r = (case r2 of None \<Rightarrow> None | Some us \<Rightarrow> Some (u # us))"
      using Cons.prems(4) 1 Some
      by (cases "each_then (\<lambda>vm c. aivm_vm_node_builder_append_child alloc vm h c) cs vm1") (auto simp: then_do_def split: option.splits)
    have again: "put_builder i b2 (put_builder i b1 vm) = put_builder i b2 vm" for b1 b2
      by (simp add: put_builder_def)
    show ?thesis
      using Cons.IH [OF c1 look cs rest(1)] rest(2) again by (auto simp: vm1 builder_at_put split: option.splits)
  qed
qed

definition builders_clean :: "'a heap_vm \<Rightarrow> bool" where
  "builders_clean vm \<longleftrightarrow> (\<forall>b \<in> set (vm_node_builders vm). \<not> builder_active b \<longrightarrow> b = empty_builder)"

lemma builder_at_clean: "builders_clean vm \<Longrightarrow> \<not> builder_active (builder_at vm i) \<Longrightarrow> builder_at vm i = empty_builder"
  by (auto simp: builders_clean_def builder_at_def split: if_splits)

lemma builder_new_result:
  assumes "builders_clean vm" and "aivm_vm_node_builder_new alloc vm kind ident = (r, vm')"
  shows "case r of None \<Rightarrow> vm_status vm' = AIVM_VM_STATUS_ERROR
    | Some h \<Rightarrow> \<exists>i. lookup_builder vm' h = Some i \<and>
        vm' = put_builder i (empty_builder\<lparr>builder_kind := kind, builder_id := ident, builder_active := True\<rparr>) vm"
proof -
  have "lookup_builder (put_builder i (b\<lparr>builder_active := True\<rparr>) vm) (int (Suc i)) = Some i" if "i < AIVM_VM_NODE_BUILDER_CAPACITY" for b i
    using that by (simp add: lookup_builder_def builder_at_put)
  note look = this
  show ?thesis
  proof (cases "find (\<lambda>i. \<not> builder_active (builder_at vm i)) [0..<AIVM_VM_NODE_BUILDER_CAPACITY]")
    case None
    then show ?thesis
      using assms(2) by (auto simp: aivm_vm_node_builder_new_def)
  next
    case (Some i)
    then have "i < AIVM_VM_NODE_BUILDER_CAPACITY" "builder_at vm i = empty_builder"
      using builder_at_clean [OF assms(1)] by (auto simp: find_Some_iff)
    then show ?thesis
      using assms(2) Some look [of i] by (auto simp: aivm_vm_node_builder_new_def copy_text_def split: if_splits)
  qed
qed

section \<open>Properties\<close>



end
