(* ===== verification/Node_Instructions.thy ===== *)
theory Node_Instructions
  imports Node_Builder
begin

text \<open>
  The instructions on nodes (\<^verbatim>\<open>src/src/aivm_vm.c\<close>): the ones that read a node, the ones that create one, and the node that
  holds the arguments of the process. \<open>None\<close> is a step whose outcome the code leaves open: it reads through a
  pointer into memory that was released on the way, or an array element that was never written.
\<close>

section \<open>Reading nodes\<close>

fun value_kind :: "AivmValue \<Rightarrow> string option" where
  "value_kind ValVoid = Some ''void''"
| "value_kind (ValInt _) = Some ''int''"
| "value_kind (ValNumber _) = Some ''number''"
| "value_kind (ValBool _) = Some ''bool''"
| "value_kind ValNull = Some ''null''"
| "value_kind (ValString _) = Some ''string''"
| "value_kind (ValBytes _ _) = Some ''bytes''"
| "value_kind (ValNode _) = Some ''node''"
| "value_kind (ValPair _) = Some ''pair''"
| "value_kind (ValNodeBuilder _) = Some ''nodeBuilder''"
| "value_kind (ValMapBuilder _) = Some ''mapBuilder''"
| "value_kind (ValMap _) = Some ''map''"
| "value_kind ValUnknown = Some ''unknown''"
| "value_kind _ = None"

definition op_value_kind ::
  "(nat \<Rightarrow> bool) \<Rightarrow> nat \<Rightarrow> (nat \<times> nat) option \<Rightarrow> AivmProgram \<Rightarrow> 'a heap_vm \<Rightarrow> 'a heap_vm option" where
  "op_value_kind alloc block snapshot p vm =
     or_park p (aivm_stack_pop vm) (\<lambda>v vm.
       case value_kind v of
         None \<Rightarrow> fail_with p vm AIVM_VM_ERR_TYPE_MISMATCH ''VALUE_KIND received invalid value type.''
       | Some kind \<Rightarrow> advance_after p (push_string_copy alloc block snapshot vm (CExt kind)))"

definition node_operand :: "'a heap_vm \<Rightarrow> AivmValue \<Rightarrow> AivmNodeRecord option" where
  "node_operand vm v = (case v of ValNode h \<Rightarrow> aivm_vm_lookup_node vm h | _ \<Rightarrow> None)"

definition op_node_kind ::
  "(nat \<Rightarrow> bool) \<Rightarrow> nat \<Rightarrow> (nat \<times> nat) option \<Rightarrow> AivmProgram \<Rightarrow> 'a heap_vm \<Rightarrow> 'a heap_vm option" where
  "op_node_kind alloc block snapshot p vm =
     or_park p (aivm_stack_pop vm) (\<lambda>v vm.
       case node_operand vm v of
         None \<Rightarrow> fail_with p vm AIVM_VM_ERR_TYPE_MISMATCH ''NODE_KIND requires node operand.''
       | Some node \<Rightarrow> advance_after p (push_string_copy alloc block snapshot vm (node_kind node)))"

definition op_node_id ::
  "(nat \<Rightarrow> bool) \<Rightarrow> nat \<Rightarrow> (nat \<times> nat) option \<Rightarrow> AivmProgram \<Rightarrow> 'a heap_vm \<Rightarrow> 'a heap_vm option" where
  "op_node_id alloc block snapshot p vm =
     or_park p (aivm_stack_pop vm) (\<lambda>v vm.
       case node_operand vm v of
         None \<Rightarrow> fail_with p vm AIVM_VM_ERR_TYPE_MISMATCH ''NODE_ID requires node operand.''
       | Some node \<Rightarrow> advance_after p (push_string_copy alloc block snapshot vm (node_id node)))"

definition op_attr_count :: "AivmProgram \<Rightarrow> 'a heap_vm \<Rightarrow> 'a heap_vm option" where
  "op_attr_count p vm =
     or_park p (aivm_stack_pop vm) (\<lambda>v vm.
       case node_operand vm v of
         None \<Rightarrow> fail_with p vm AIVM_VM_ERR_TYPE_MISMATCH ''ATTR_COUNT requires node operand.''
       | Some node \<Rightarrow> push_and_advance p vm (ValInt (i64_of_size (node_attr_count node))))"

text \<open>An attribute that the node does not have has empty texts, the number zero and the truth value false. The outer
  \<open>None\<close> is a slot outside the attributes in use.\<close>

definition indexed_attr :: "'a heap_vm \<Rightarrow> AivmNodeRecord \<Rightarrow> int \<Rightarrow> cptr AivmNodeAttr option option" where
  "indexed_attr vm node index =
     (if index \<ge> 0 \<and> nat index < node_attr_count node
      then let slot = (node_attr_start node + nat index) mod (SIZE_MAX + 1) in
        if slot < length (vm_node_attrs vm) then Some (Some (vm_node_attrs vm ! slot)) else None
      else Some None)"

fun attr_kind_text :: "'t AivmNodeAttrValue \<Rightarrow> string" where
  "attr_kind_text (AIVM_NODE_ATTR_IDENTIFIER _) = ''identifier''"
| "attr_kind_text (AIVM_NODE_ATTR_STRING _) = ''string''"
| "attr_kind_text (AIVM_NODE_ATTR_INT _) = ''int''"
| "attr_kind_text (AIVM_NODE_ATTR_BOOL _) = ''bool''"

fun attr_string_value :: "cptr AivmNodeAttrValue \<Rightarrow> cptr" where
  "attr_string_value (AIVM_NODE_ATTR_IDENTIFIER q) = or_empty q"
| "attr_string_value (AIVM_NODE_ATTR_STRING q) = or_empty q"
| "attr_string_value _ = CExt []"

fun attr_int_value :: "'t AivmNodeAttrValue \<Rightarrow> int" where
  "attr_int_value (AIVM_NODE_ATTR_INT i) = i"
| "attr_int_value _ = 0"

fun attr_bool_value :: "'t AivmNodeAttrValue \<Rightarrow> bool" where
  "attr_bool_value (AIVM_NODE_ATTR_BOOL b) = b"
| "attr_bool_value _ = False"

definition attr_operand_error :: "AivmOpcode \<Rightarrow> string" where
  "attr_operand_error c =
     (if c = AIVM_OP_ATTR_VALUE_KIND then ''ATTR_VALUE_KIND''
      else if c = AIVM_OP_ATTR_VALUE_STRING then ''ATTR_VALUE_STRING''
      else if c = AIVM_OP_ATTR_VALUE_INT then ''ATTR_VALUE_INT''
      else if c = AIVM_OP_ATTR_VALUE_BOOL then ''ATTR_VALUE_BOOL'' else ''ATTR_KEY'') @ '' requires (node,int).''"

definition op_attr ::
  "(nat \<Rightarrow> bool) \<Rightarrow> nat \<Rightarrow> (nat \<times> nat) option \<Rightarrow> AivmProgram \<Rightarrow> AivmInstruction \<Rightarrow> 'a heap_vm \<Rightarrow> 'a heap_vm option" where
  "op_attr alloc block snapshot p i vm =
     or_park p (aivm_stack_pop vm) (\<lambda>index_value vm.
     or_park p (aivm_stack_pop vm) (\<lambda>node_value vm.
       let c = opcode i; copy = (\<lambda>q. advance_after p (push_string_copy alloc block snapshot vm q)) in
       case (index_value, node_operand vm node_value) of
         (ValInt index, Some node) \<Rightarrow>
           (case indexed_attr vm node index of
              None \<Rightarrow> None
            | Some attr \<Rightarrow>
                if c = AIVM_OP_ATTR_KEY then copy (case attr of None \<Rightarrow> CExt [] | Some a \<Rightarrow> attr_key a)
                else if c = AIVM_OP_ATTR_VALUE_KIND then copy (CExt (case attr of None \<Rightarrow> [] | Some a \<Rightarrow> attr_kind_text (attr_value a)))
                else if c = AIVM_OP_ATTR_VALUE_STRING then copy (case attr of None \<Rightarrow> CExt [] | Some a \<Rightarrow> attr_string_value (attr_value a))
                else if c = AIVM_OP_ATTR_VALUE_INT
                then push_and_advance p vm (ValInt (case attr of None \<Rightarrow> 0 | Some a \<Rightarrow> attr_int_value (attr_value a)))
                else push_and_advance p vm (ValBool (case attr of None \<Rightarrow> False | Some a \<Rightarrow> attr_bool_value (attr_value a))))
       | _ \<Rightarrow> fail_with p vm AIVM_VM_ERR_TYPE_MISMATCH (attr_operand_error c)))"

definition op_child_count :: "(AivmValue \<Rightarrow> int) \<Rightarrow> AivmProgram \<Rightarrow> 'a heap_vm \<Rightarrow> 'a heap_vm option" where
  "op_child_count handle_bits p vm =
     or_park p (aivm_stack_pop vm) (\<lambda>v vm.
       case node_operand vm v of
         None \<Rightarrow> Some (park p (set_vm_error_formatted vm AIVM_VM_ERR_TYPE_MISMATCH
           [''CHILD_COUNT requires node operand; actual='', aivm_vm_value_type_name (value_type v), '' handle='', format_lld (handle_bits v),
            '' nodeCount='', format_llu (vm_node_count vm), ''.'']))
       | Some node \<Rightarrow> push_and_advance p vm (ValInt (i64_of_size (node_child_count node))))"

definition op_child_at :: "AivmProgram \<Rightarrow> 'a heap_vm \<Rightarrow> 'a heap_vm option" where
  "op_child_at p vm =
     or_park p (aivm_stack_pop vm) (\<lambda>index_value vm.
     or_park p (aivm_stack_pop vm) (\<lambda>node_value vm.
       case (index_value, node_operand vm node_value) of
         (ValInt index, Some node) \<Rightarrow>
           if index < 0 \<or> nat index \<ge> node_child_count node
           then fail_with p vm AIVM_VM_ERR_INVALID_PROGRAM ''CHILD_AT index out of range.''
           else let slot = (node_child_start node + nat index) mod (SIZE_MAX + 1) in
             if slot < length (vm_node_children vm) then push_and_advance p vm (ValNode (vm_node_children vm ! slot)) else None
       | _ \<Rightarrow> fail_with p vm AIVM_VM_ERR_TYPE_MISMATCH ''CHILD_AT requires (node,int).''))"

section \<open>Creating nodes\<close>

definition push_node :: "AivmProgram \<Rightarrow> int option \<times> 'a heap_vm \<Rightarrow> 'a heap_vm option" where
  "push_node p r = or_park p r (\<lambda>h vm. push_and_advance p vm (ValNode h))"

text \<open>The pointer of a string operand that is not null.\<close>

definition text_pointer :: "AivmValue \<Rightarrow> cptr option" where
  "text_pointer v = (case v of ValString q \<Rightarrow> if q = CNull then None else Some q | _ \<Rightarrow> None)"

definition op_make_block ::
  "(nat \<Rightarrow> bool) \<Rightarrow> nat \<Rightarrow> (nat \<times> nat) option \<Rightarrow> AivmProgram \<Rightarrow> 'a heap_vm \<Rightarrow> 'a heap_vm option" where
  "op_make_block alloc block snapshot p vm =
     or_park p (aivm_stack_pop vm) (\<lambda>id_value vm.
       case text_pointer id_value of
         None \<Rightarrow> fail_with p vm AIVM_VM_ERR_TYPE_MISMATCH ''MAKE_BLOCK requires string id.''
       | Some q \<Rightarrow> push_node p (aivm_vm_create_node_record alloc block snapshot vm (CExt ''Block'') q [] (\<lambda>_. [])))"

definition op_make_err ::
  "(nat \<Rightarrow> bool) \<Rightarrow> nat \<Rightarrow> (nat \<times> nat) option \<Rightarrow> AivmProgram \<Rightarrow> 'a heap_vm \<Rightarrow> 'a heap_vm option" where
  "op_make_err alloc block snapshot p vm =
     or_park p (aivm_stack_pop vm) (\<lambda>node_id_value vm.
     or_park p (aivm_stack_pop vm) (\<lambda>message_value vm.
     or_park p (aivm_stack_pop vm) (\<lambda>code_value vm.
     or_park p (aivm_stack_pop vm) (\<lambda>id_value vm.
       case (text_pointer node_id_value, text_pointer message_value, text_pointer code_value, text_pointer id_value) of
         (Some node_q, Some message, Some code, Some q) \<Rightarrow>
           push_node p (aivm_vm_create_node_record alloc block snapshot vm (CExt ''Err'') q
             [NodeAttr (CExt ''code'') (AIVM_NODE_ATTR_IDENTIFIER code), NodeAttr (CExt ''message'') (AIVM_NODE_ATTR_STRING message),
              NodeAttr (CExt ''nodeId'') (AIVM_NODE_ATTR_IDENTIFIER node_q)] (\<lambda>_. []))
       | _ \<Rightarrow> fail_with p vm AIVM_VM_ERR_TYPE_MISMATCH ''MAKE_ERR requires (string,string,string,string).''))))"

definition lit_attr :: "AivmOpcode \<Rightarrow> AivmValue \<Rightarrow> cptr AivmNodeAttrValue option" where
  "lit_attr c v =
     (if c = AIVM_OP_MAKE_LIT_STRING then map_option AIVM_NODE_ATTR_STRING (text_pointer v)
      else if c = AIVM_OP_MAKE_LIT_INT then (case v of ValInt i \<Rightarrow> Some (AIVM_NODE_ATTR_INT i) | _ \<Rightarrow> None)
      else (case v of ValBool b \<Rightarrow> Some (AIVM_NODE_ATTR_BOOL b) | _ \<Rightarrow> None))"

definition op_make_lit ::
  "(nat \<Rightarrow> bool) \<Rightarrow> nat \<Rightarrow> (nat \<times> nat) option \<Rightarrow> AivmProgram \<Rightarrow> AivmInstruction \<Rightarrow> 'a heap_vm \<Rightarrow> 'a heap_vm option" where
  "op_make_lit alloc block snapshot p i vm =
     or_park p (aivm_stack_pop vm) (\<lambda>v vm.
     or_park p (aivm_stack_pop vm) (\<lambda>id_value vm.
       case (text_pointer id_value, lit_attr (opcode i) v) of
         (Some q, Some attr) \<Rightarrow>
           push_node p (aivm_vm_create_node_record alloc block snapshot vm (CExt ''Lit'') q [NodeAttr (CExt ''value'') attr] (\<lambda>_. []))
       | _ \<Rightarrow> fail_with p vm AIVM_VM_ERR_TYPE_MISMATCH
           (if opcode i = AIVM_OP_MAKE_LIT_STRING then ''MAKE_LIT_STRING requires (string,string).''
            else if opcode i = AIVM_OP_MAKE_LIT_INT then ''MAKE_LIT_INT requires (string,int).''
            else ''MAKE_LIT_BOOL requires (string,bool).'')))"

definition op_make_node_empty ::
  "(nat \<Rightarrow> bool) \<Rightarrow> nat \<Rightarrow> (nat \<times> nat) option \<Rightarrow> AivmProgram \<Rightarrow> 'a heap_vm \<Rightarrow> 'a heap_vm option" where
  "op_make_node_empty alloc block snapshot p vm =
     or_park p (aivm_stack_pop vm) (\<lambda>id_value vm.
     or_park p (aivm_stack_pop vm) (\<lambda>kind_value vm.
       case (text_pointer kind_value, text_pointer id_value) of
         (Some kind, Some q) \<Rightarrow> push_node p (aivm_vm_create_node_record alloc block snapshot vm kind q [] (\<lambda>_. []))
       | _ \<Rightarrow> fail_with p vm AIVM_VM_ERR_TYPE_MISMATCH ''MAKE_NODE_EMPTY requires (string,string).''))"

section \<open>Copies of a node with more in it\<close>

text \<open>A run of slots of one of the arenas: \<open>Some None\<close> when one of them is behind the limit. Slots that are not in use hold
  what was there before; such a run is \<open>None\<close>.\<close>

definition count_fits :: "nat option \<Rightarrow> nat \<Rightarrow> bool" where
  "count_fits n limit = (case n of None \<Rightarrow> False | Some n \<Rightarrow> n \<le> limit)"

definition slot_ok :: "nat \<Rightarrow> nat \<Rightarrow> nat \<Rightarrow> bool" where
  "slot_ok limit first i = (case aivm_size_add_checked first i of None \<Rightarrow> False | Some slot \<Rightarrow> slot < limit)"

definition copy_slots :: "nat \<Rightarrow> 'b list \<Rightarrow> nat \<Rightarrow> nat \<Rightarrow> 'b list option option" where
  "copy_slots limit xs first n =
     (if \<not> list_all (slot_ok limit first) [0..<n] then Some None
      else if first + n \<le> length xs then Some (Some (take n (drop first xs))) else None)"

definition with_slots :: "AivmProgram \<Rightarrow> 'a heap_vm \<Rightarrow> string \<Rightarrow> 'b list option option \<Rightarrow> ('b list \<Rightarrow> 'a heap_vm option) \<Rightarrow> 'a heap_vm option" where
  "with_slots p vm detail slots continue =
     (case slots of None \<Rightarrow> None | Some None \<Rightarrow> fail_with p vm AIVM_VM_ERR_INVALID_PROGRAM detail | Some (Some xs) \<Rightarrow> continue xs)"

definition op_append_child ::
  "(nat \<Rightarrow> bool) \<Rightarrow> nat \<Rightarrow> (nat \<times> nat) option \<Rightarrow> AivmProgram \<Rightarrow> 'a heap_vm \<Rightarrow> 'a heap_vm option" where
  "op_append_child alloc block snapshot p vm =
     or_park p (aivm_stack_pop vm) (\<lambda>child_value vm.
     or_park p (aivm_stack_pop vm) (\<lambda>node_value vm.
       case (child_value, node_operand vm node_value) of
         (ValNode child, Some base) \<Rightarrow>
           if aivm_vm_lookup_node vm child = None
           then fail_with p vm AIVM_VM_ERR_TYPE_MISMATCH ''APPEND_CHILD child node handle was invalid.''
           else if node_attr_count base > vm_node_attr_capacity vm \<or>
             \<not> count_fits (aivm_size_add_checked (node_child_count base) 1) (vm_node_child_capacity vm)
           then fail_with p vm AIVM_VM_ERR_INVALID_PROGRAM ''APPEND_CHILD exceeded VM node capacity.''
           else if \<not> (alloc ((node_child_count base + 1) * 8) \<and> alloc (max 1 (node_attr_count base) * sizeof_AivmNodeAttr))
           then fail_with p vm AIVM_VM_ERR_MEMORY_PRESSURE ''APPEND_CHILD scratch allocation failed.''
           else
             with_slots p vm ''APPEND_CHILD attr slot was invalid.''
               (copy_slots (vm_node_attr_capacity vm) (vm_node_attrs vm) (node_attr_start base) (node_attr_count base)) (\<lambda>attrs.
             with_slots p vm ''APPEND_CHILD child slot was invalid.''
               (copy_slots (vm_node_child_capacity vm) (vm_node_children vm) (node_child_start base) (node_child_count base)) (\<lambda>children.
               push_node p (aivm_vm_create_node_record alloc block snapshot vm (node_kind base) (node_id base) attrs (\<lambda>_. children @ [child]))))
       | _ \<Rightarrow> fail_with p vm AIVM_VM_ERR_TYPE_MISMATCH ''APPEND_CHILD requires (node,node).''))"

definition op_append_attr ::
  "(nat \<Rightarrow> bool) \<Rightarrow> nat \<Rightarrow> (nat \<times> nat) option \<Rightarrow> AivmProgram \<Rightarrow> 'a heap_vm \<Rightarrow> 'a heap_vm option" where
  "op_append_attr alloc block snapshot p vm =
     or_park p (aivm_stack_pop vm) (\<lambda>attr_operand vm.
     or_park p (aivm_stack_pop vm) (\<lambda>node_value vm.
       case (node_operand vm node_value, node_operand vm attr_operand) of
         (Some base, Some attr_node) \<Rightarrow>
           if node_attr_count attr_node \<noteq> 1 \<or>
             \<not> count_fits (aivm_size_add_checked (node_attr_count base) 1) (vm_node_attr_capacity vm) \<or> node_child_count base > vm_node_child_capacity vm
           then fail_with p vm AIVM_VM_ERR_INVALID_PROGRAM ''APPEND_ATTR requires single-attr node and capacity.''
           else if \<not> (alloc ((node_attr_count base + 1) * sizeof_AivmNodeAttr) \<and> alloc (max 1 (node_child_count base) * 8))
           then fail_with p vm AIVM_VM_ERR_MEMORY_PRESSURE ''APPEND_ATTR scratch allocation failed.''
           else
             with_slots p vm ''APPEND_ATTR attr slot was invalid.''
               (copy_slots (vm_node_attr_capacity vm) (vm_node_attrs vm) (node_attr_start base) (node_attr_count base)) (\<lambda>attrs.
             with_slots p vm ''APPEND_ATTR child slot was invalid.''
               (copy_slots (vm_node_child_capacity vm) (vm_node_children vm) (node_child_start base) (node_child_count base)) (\<lambda>children.
               if node_attr_start attr_node < length (vm_node_attrs vm)
               then push_node p (aivm_vm_create_node_record alloc block snapshot vm (node_kind base) (node_id base)
                 (attrs @ [NodeAttr (node_id attr_node) (attr_value (vm_node_attrs vm ! node_attr_start attr_node))]) (\<lambda>_. children))
               else None))
       | _ \<Rightarrow> fail_with p vm AIVM_VM_ERR_TYPE_MISMATCH ''APPEND_ATTR requires (node,node).''))"

section \<open>Nodes for values\<close>

definition create_runtime_node_from_value ::
  "(nat \<Rightarrow> bool) \<Rightarrow> nat \<Rightarrow> (nat \<times> nat) option \<Rightarrow> 'a heap_vm \<Rightarrow> AivmValue \<Rightarrow> int option \<times> 'a heap_vm" where
  "create_runtime_node_from_value alloc block snapshot vm v =
     (let make = (\<lambda>vm kind ident attrs. aivm_vm_create_node_record alloc block snapshot vm (CExt kind) (CExt ident) attrs (\<lambda>_. [])) in
      case v of
        ValNode h \<Rightarrow> (Some h, vm)
      | ValString q \<Rightarrow>
          if q = CNull then (None, aivm_set_vm_error vm AIVM_VM_ERR_TYPE_MISMATCH ''Runtime string value must be non-null.'')
          else make vm ''Lit'' ''runtime_string'' [NodeAttr (CExt ''value'') (AIVM_NODE_ATTR_STRING q)]
      | ValInt i \<Rightarrow> make vm ''Lit'' ''runtime_int'' [NodeAttr (CExt ''value'') (AIVM_NODE_ATTR_INT i)]
      | ValNumber x \<Rightarrow>
          (case aivm_vm_copy_string_to_arena alloc block snapshot vm (CExt (snprintf 64 [format_g15 x])) of
             (None, vm) \<Rightarrow> (None, aivm_set_vm_error vm AIVM_VM_ERR_MEMORY_PRESSURE ''Runtime number string allocation failed.'')
           | (Some off, vm) \<Rightarrow> make vm ''Lit'' ''runtime_number'' [NodeAttr (CExt ''value'') (AIVM_NODE_ATTR_STRING (CArena off))])
      | ValBool b \<Rightarrow> make vm ''Lit'' ''runtime_bool'' [NodeAttr (CExt ''value'') (AIVM_NODE_ATTR_BOOL b)]
      | ValNull \<Rightarrow> make vm ''Null'' ''runtime_null'' []
      | ValBytes _ len \<Rightarrow> make vm ''Lit'' ''runtime_bytes'' [NodeAttr (CExt ''byteLength'') (AIVM_NODE_ATTR_INT (i64_of_size len))]
      | ValVoid \<Rightarrow> make vm ''Block'' ''void'' []
      | _ \<Rightarrow> make vm ''Err'' ''runtime_err''
          [NodeAttr (CExt ''code'') (AIVM_NODE_ATTR_IDENTIFIER (CExt ''RUN030'')),
           NodeAttr (CExt ''message'') (AIVM_NODE_ATTR_STRING (CExt ''Unsupported runtime value.'')),
           NodeAttr (CExt ''nodeId'') (AIVM_NODE_ATTR_IDENTIFIER (CExt ''runtime''))])"

text \<open>A pointer that the code keeps in a variable while nodes are created: it is of no use when the string
  arena has been moved to another block meanwhile.\<close>

definition held :: "'a heap_vm \<Rightarrow> 'a heap_vm \<Rightarrow> cptr \<Rightarrow> cptr" where
  "held vm vm' q = (if vm_string_arena_base vm' = vm_string_arena_base vm then q else free_ptr q)"

definition op_make_field_string ::
  "(nat \<Rightarrow> bool) \<Rightarrow> nat \<Rightarrow> (nat \<times> nat) option \<Rightarrow> AivmProgram \<Rightarrow> 'a heap_vm \<Rightarrow> 'a heap_vm option" where
  "op_make_field_string alloc block snapshot p vm =
     or_park p (aivm_stack_pop vm) (\<lambda>v vm.
     or_park p (aivm_stack_pop vm) (\<lambda>key_value vm.
       case text_pointer key_value of
         None \<Rightarrow> fail_with p vm AIVM_VM_ERR_TYPE_MISMATCH ''MAKE_FIELD_STRING requires (string,any).''
       | Some key \<Rightarrow>
           or_park p (create_runtime_node_from_value alloc block snapshot vm v) (\<lambda>child vm'.
             if held vm vm' key = CFreed then None
             else push_node p (aivm_vm_create_node_record alloc block snapshot vm' (CExt ''Field'') (CExt ''field'')
               [NodeAttr (CExt ''key'') (AIVM_NODE_ATTR_STRING key)] (\<lambda>_. [child])))))"

text \<open>The values on the stack as nodes; the one that is popped first is the last child.\<close>

fun runtime_children ::
  "(nat \<Rightarrow> bool) \<Rightarrow> nat \<Rightarrow> (nat \<times> nat) option \<Rightarrow> nat \<Rightarrow> int list \<Rightarrow> 'a heap_vm \<Rightarrow> int list option \<times> 'a heap_vm" where
  "runtime_children alloc block snapshot 0 children vm = (Some children, vm)"
| "runtime_children alloc block snapshot (Suc n) children vm =
     then_do (aivm_stack_pop vm) (\<lambda>v vm.
       then_do (create_runtime_node_from_value alloc block snapshot vm v) (\<lambda>h vm. runtime_children alloc block snapshot n (h # children) vm))"

text \<open>The loop that collects the children is left when one of them fails; without an error the code would go on with an
  array that is not filled.\<close>

definition with_children :: "AivmProgram \<Rightarrow> int list option \<times> 'a heap_vm \<Rightarrow> (int list \<Rightarrow> 'a heap_vm \<Rightarrow> 'a heap_vm option) \<Rightarrow> 'a heap_vm option" where
  "with_children p r continue =
     (case r of (children, vm) \<Rightarrow>
        if vm_status vm = AIVM_VM_STATUS_ERROR then Some (park p vm)
        else (case children of None \<Rightarrow> None | Some cs \<Rightarrow> continue cs vm))"

definition op_make_map ::
  "(nat \<Rightarrow> bool) \<Rightarrow> nat \<Rightarrow> (nat \<times> nat) option \<Rightarrow> AivmProgram \<Rightarrow> 'a heap_vm \<Rightarrow> 'a heap_vm option" where
  "op_make_map alloc block snapshot p vm =
     or_park p (aivm_stack_pop vm) (\<lambda>count_value vm.
       case count_value of
         ValInt n \<Rightarrow>
           if n < 0 then fail_with p vm AIVM_VM_ERR_TYPE_MISMATCH ''MAKE_MAP requires int child count.''
           else if nat n > AIVM_VM_NODE_CHILD_CAPACITY \<or> vm_stack_count vm < nat n
           then fail_with p vm AIVM_VM_ERR_INVALID_PROGRAM ''MAKE_MAP count exceeded VM limits.''
           else with_children p (runtime_children alloc block snapshot (nat n) [] vm) (\<lambda>children vm.
             push_node p (aivm_vm_create_node_record alloc block snapshot vm (CExt ''Map'') (CExt ''map'') [] (\<lambda>_. children)))
       | _ \<Rightarrow> fail_with p vm AIVM_VM_ERR_TYPE_MISMATCH ''MAKE_MAP requires int child count.'')"

text \<open>The record of the template is read again, at its old place, when the children exist: the place is gone when the
  node arena has grown, and a collection has put another node or nothing there.\<close>

definition template_place :: "'a heap_vm \<Rightarrow> 'a heap_vm \<Rightarrow> int \<Rightarrow> AivmNodeRecord option" where
  "template_place vm vm' h =
     (if vm_node_capacity vm' \<noteq> vm_node_capacity vm then None
      else Some (if nat (h - 1) < vm_node_count vm' then vm_nodes vm' ! nat (h - 1) else empty_node))"

definition op_make_node ::
  "(nat \<Rightarrow> bool) \<Rightarrow> nat \<Rightarrow> (nat \<times> nat) option \<Rightarrow> AivmProgram \<Rightarrow> 'a heap_vm \<Rightarrow> 'a heap_vm option" where
  "op_make_node alloc block snapshot p vm =
     or_park p (aivm_stack_pop vm) (\<lambda>argc_value vm.
     or_park p (aivm_stack_pop vm) (\<lambda>template_value vm.
       let mismatch = fail_with p vm AIVM_VM_ERR_TYPE_MISMATCH ''MAKE_NODE requires (node,int>=0).'' in
       case (argc_value, template_value) of
         (ValInt n, ValNode h) \<Rightarrow>
           (case aivm_vm_lookup_node vm h of
              None \<Rightarrow> mismatch
            | Some template_node \<Rightarrow>
                if n < 0 then mismatch
                else if nat n > AIVM_VM_NODE_CHILD_CAPACITY \<or> node_attr_count template_node > AIVM_VM_NODE_ATTR_CAPACITY \<or>
                  vm_stack_count vm < nat n
                then fail_with p vm AIVM_VM_ERR_INVALID_PROGRAM ''MAKE_NODE arguments exceeded VM limits.''
                else
                  with_slots p vm ''MAKE_NODE attr slot was invalid.''
                    (copy_slots AIVM_VM_NODE_ATTR_CAPACITY (vm_node_attrs vm) (node_attr_start template_node) (node_attr_count template_node))
                    (\<lambda>attrs.
                  with_children p (runtime_children alloc block snapshot (nat n) [] vm) (\<lambda>children vm'.
                    case template_place vm vm' h of
                      None \<Rightarrow> None
                    | Some node \<Rightarrow>
                        let attrs = map (map_AivmNodeAttr (held vm vm')) attrs in
                        if node_attr_count node > length attrs \<or> list_ex (\<lambda>a. CFreed \<in> set_AivmNodeAttr a) (take (node_attr_count node) attrs)
                        then None
                        else push_node p (aivm_vm_create_node_record alloc block snapshot vm' (node_kind node) (node_id node)
                          (take (node_attr_count node) attrs) (\<lambda>_. children)))))
       | _ \<Rightarrow> mismatch))"

section \<open>The arguments of the process\<close>

text \<open>The digits, last first, as long as the buffer of 32 has room.\<close>

fun decimal_digits :: "nat \<Rightarrow> nat \<Rightarrow> string" where
  "decimal_digits 0 n = []"
| "decimal_digits (Suc room) n =
     char_of (48 + n mod 10) # (if n div 10 = 0 then [] else decimal_digits room (n div 10))"

definition write_u64_decimal :: "nat \<Rightarrow> nat \<Rightarrow> string option" where
  "write_u64_decimal capacity n =
     (let temp = decimal_digits 32 n in if capacity = 0 \<or> length temp + 1 > capacity then None else Some (rev temp))"

definition AIVM_VM_NODE_CAPACITY :: nat where "AIVM_VM_NODE_CAPACITY = 16384"

definition create_argv_item ::
  "(nat \<Rightarrow> bool) \<Rightarrow> nat \<Rightarrow> (nat \<times> nat) option \<Rightarrow> 'a heap_vm \<Rightarrow> nat \<times> string option \<Rightarrow> unit option \<times> 'a heap_vm" where
  "create_argv_item alloc block snapshot vm item =
     (case item of (i, arg) \<Rightarrow>
        (case write_u64_decimal 30 i of
           None \<Rightarrow> (None, aivm_set_vm_error vm AIVM_VM_ERR_INVALID_PROGRAM ''process argv node id overflow.'')
         | Some digits \<Rightarrow>
             then_do (aivm_vm_create_node_record alloc block snapshot vm (CExt ''Lit'') (CExt (''argv_item_'' @ digits))
                 [NodeAttr (CExt ''value'') (AIVM_NODE_ATTR_STRING (CExt (case arg of None \<Rightarrow> [] | Some str \<Rightarrow> str)))] (\<lambda>_. [])) (\<lambda>h vm.
               if h \<noteq> int i + 2
               then (None, aivm_set_vm_error vm AIVM_VM_ERR_INVALID_PROGRAM ''process argv child handle invariant violated.'')
               else (Some (), vm))))"

text \<open>The root names its children before they exist; there are too few arguments for their handles to overflow.\<close>

definition aivm_vm_initialize_process_argv_node ::
  "(nat \<Rightarrow> bool) \<Rightarrow> nat \<Rightarrow> (nat \<times> nat) option \<Rightarrow> string option list \<Rightarrow> 'a heap_vm \<Rightarrow> bool \<times> 'a heap_vm" where
  "aivm_vm_initialize_process_argv_node alloc block snapshot argv vm =
     (let vm = vm\<lparr>vm_process_argv_node_handle := 0\<rparr>;
          fail = (\<lambda>vm detail. (False, aivm_set_vm_error vm AIVM_VM_ERR_INVALID_PROGRAM detail)) in
      if length argv > AIVM_VM_NODE_CAPACITY then fail vm ''process argv exceeds node capacity.''
      else case aivm_vm_create_node_record alloc block snapshot vm (CExt ''Block'') (CExt ''argv0'') []
          (\<lambda>_. map (\<lambda>i. int i + 2) [0..<length argv]) of
        (None, vm) \<Rightarrow> (False, vm)
      | (Some h, vm) \<Rightarrow>
          let vm = vm\<lparr>vm_process_argv_node_handle := h\<rparr> in
          if h \<noteq> 1 then fail vm ''process argv root handle invariant violated.''
          else case each_then (create_argv_item alloc block snapshot) (enumerate 0 argv) vm of
            (None, vm) \<Rightarrow> (False, vm)
          | (Some _, vm) \<Rightarrow> (True, vm))"

section \<open>The part of the switch\<close>

definition node_ops ::
  "(nat \<Rightarrow> bool) \<Rightarrow> nat \<Rightarrow> (nat \<times> nat) option \<Rightarrow> (AivmValue \<Rightarrow> int) \<Rightarrow> AivmProgram \<Rightarrow>
   (AivmInstruction \<Rightarrow> 'a heap_vm \<Rightarrow> 'a heap_vm option) \<Rightarrow> AivmInstruction \<Rightarrow> 'a heap_vm \<Rightarrow> 'a heap_vm option" where
  "node_ops alloc block snapshot handle_bits p other i vm =
     (let c = opcode i in
      if c = AIVM_OP_VALUE_KIND then op_value_kind alloc block snapshot p vm
      else if c = AIVM_OP_NODE_KIND then op_node_kind alloc block snapshot p vm
      else if c = AIVM_OP_NODE_ID then op_node_id alloc block snapshot p vm
      else if c = AIVM_OP_ATTR_COUNT then op_attr_count p vm
      else if c = AIVM_OP_ATTR_KEY \<or> c = AIVM_OP_ATTR_VALUE_KIND \<or> c = AIVM_OP_ATTR_VALUE_STRING \<or> c = AIVM_OP_ATTR_VALUE_INT \<or>
        c = AIVM_OP_ATTR_VALUE_BOOL then op_attr alloc block snapshot p i vm
      else if c = AIVM_OP_CHILD_COUNT then op_child_count handle_bits p vm
      else if c = AIVM_OP_CHILD_AT then op_child_at p vm
      else if c = AIVM_OP_MAKE_BLOCK then op_make_block alloc block snapshot p vm
      else if c = AIVM_OP_APPEND_CHILD then op_append_child alloc block snapshot p vm
      else if c = AIVM_OP_APPEND_ATTR then op_append_attr alloc block snapshot p vm
      else if c = AIVM_OP_MAKE_ERR then op_make_err alloc block snapshot p vm
      else if c = AIVM_OP_MAKE_LIT_STRING \<or> c = AIVM_OP_MAKE_LIT_INT \<or> c = AIVM_OP_MAKE_LIT_BOOL then op_make_lit alloc block snapshot p i vm
      else if c = AIVM_OP_MAKE_NODE then op_make_node alloc block snapshot p vm
      else if c = AIVM_OP_MAKE_NODE_EMPTY then op_make_node_empty alloc block snapshot p vm
      else if c = AIVM_OP_MAKE_FIELD_STRING then op_make_field_string alloc block snapshot p vm
      else if c = AIVM_OP_MAKE_MAP then op_make_map alloc block snapshot p vm
      else if c = AIVM_OP_NODE_BUILDER_NEW then op_node_builder_new alloc p vm
      else if c = AIVM_OP_NODE_BUILDER_APPEND_CHILD then op_node_builder_append_child alloc p vm
      else if c = AIVM_OP_NODE_BUILDER_APPEND_ATTR then op_node_builder_append_attr alloc p vm
      else if c = AIVM_OP_NODE_BUILDER_FINISH then op_node_builder_finish alloc block snapshot p vm
      else other i vm)"

section \<open>What reading computes\<close>

text \<open>The abstract instructions on the views of the operands, top first, at every depth. \<open>None\<close> is an error.\<close>

fun attr_shown_text :: "string option AivmNodeAttrValue \<Rightarrow> string" where
  "attr_shown_text (AIVM_NODE_ATTR_IDENTIFIER str) = (case str of None \<Rightarrow> [] | Some str \<Rightarrow> str)"
| "attr_shown_text (AIVM_NODE_ATTR_STRING str) = (case str of None \<Rightarrow> [] | Some str \<Rightarrow> str)"
| "attr_shown_text _ = []"

definition read_attr :: "AivmOpcode \<Rightarrow> string option AivmNodeAttr option \<Rightarrow> view option" where
  "read_attr c attr =
     (let v = map_option attr_value attr in
      if c = AIVM_OP_ATTR_KEY then (case attr of None \<Rightarrow> Some (VText (Some [])) | Some a \<Rightarrow> map_option (\<lambda>str. VText (Some str)) (attr_key a))
      else if c = AIVM_OP_ATTR_VALUE_KIND then Some (VText (Some (case v of None \<Rightarrow> [] | Some v \<Rightarrow> attr_kind_text v)))
      else if c = AIVM_OP_ATTR_VALUE_STRING then Some (VText (Some (case v of None \<Rightarrow> [] | Some v \<Rightarrow> attr_shown_text v)))
      else if c = AIVM_OP_ATTR_VALUE_INT then Some (VAtom (ValInt (case v of None \<Rightarrow> 0 | Some v \<Rightarrow> attr_int_value v)))
      else if c = AIVM_OP_ATTR_VALUE_BOOL then Some (VAtom (ValBool (case v of None \<Rightarrow> False | Some v \<Rightarrow> attr_bool_value v)))
      else None)"

fun child_view :: "nat \<Rightarrow> view \<Rightarrow> view" where
  "child_view j (VNode _ _ _ cs) = cs ! j"
| "child_view j _ = VInvalid"

definition read_node :: "AivmOpcode \<Rightarrow> view \<Rightarrow> view option" where
  "read_node c w =
     (case w of
        VNode k i as cs \<Rightarrow>
          if c = AIVM_OP_NODE_KIND then map_option (\<lambda>str. VText (Some str)) k
          else if c = AIVM_OP_NODE_ID then map_option (\<lambda>str. VText (Some str)) i
          else if c = AIVM_OP_ATTR_COUNT then Some (VAtom (ValInt (i64_of_size (length as))))
          else if c = AIVM_OP_CHILD_COUNT then Some (VAtom (ValInt (i64_of_size (length cs))))
          else None
      | _ \<Rightarrow> None)"

definition node_reading :: "AivmOpcode \<Rightarrow> (nat \<Rightarrow> view) list \<Rightarrow> (nat \<Rightarrow> view) option" where
  "node_reading c ws =
     (case ws of
        [w] \<Rightarrow> map_option (\<lambda>v n. v) (read_node c (w 1))
      | [x, w] \<Rightarrow>
          (case (view_int (x 0), w 1) of
             (Some index, VNode k i as cs) \<Rightarrow>
               if c = AIVM_OP_CHILD_AT
               then if 0 \<le> index \<and> nat index < length cs then Some (\<lambda>n. child_view (nat index) (w (Suc n))) else None
               else map_option (\<lambda>v n. v) (read_attr c (if 0 \<le> index \<and> nat index < length as then Some (as ! nat index) else None))
           | _ \<Rightarrow> None)
      | _ \<Rightarrow> None)"

fun view_texts :: "view \<Rightarrow> string set" where
  "view_texts (VNode k i as _) = set_option k \<union> set_option i \<union> (\<Union>a \<in> set as. \<Union>t \<in> set_AivmNodeAttr a. set_option t)"
| "view_texts (VText t) = set_option t"
| "view_texts _ = {}"

definition texts_small :: "view \<Rightarrow> bool" where
  "texts_small w \<longleftrightarrow> (\<forall>str \<in> view_texts w. length str < SIZE_MAX)"

lemma node_lengths:
  assumes "node_shape_ok vm node"
  shows "length (node_attrs vm node) = node_attr_count node" and "length (node_children vm node) = node_child_count node"
  using assms by (auto simp: node_shape_ok_def node_attrs_def node_children_def)

lemma node_operand_view:
  assumes "collectable vm" and "sound vm v" and "value_view 1 vm v = VNode k i as cs"
  shows "\<exists>h node. v = ValNode h \<and> aivm_vm_lookup_node vm h = Some node \<and> k = cptr_text (vm_string_arena vm) (node_kind node) \<and>
    i = cptr_text (vm_string_arena vm) (node_id node) \<and> as = map (map_AivmNodeAttr (cptr_text (vm_string_arena vm))) (node_attrs vm node) \<and>
    length cs = length (node_children vm node) \<and> node_shape_ok vm node \<and> (\<forall>q \<in> node_texts vm node. cstring_ok (vm_string_arena vm) q) \<and>
    (\<forall>c \<in> set (node_children vm node). sound vm (ValNode c))"
proof -
  obtain h node where v: "v = ValNode h" and node: "aivm_vm_lookup_node vm h = Some node"
    and parts: "k = cptr_text (vm_string_arena vm) (node_kind node)" "i = cptr_text (vm_string_arena vm) (node_id node)"
      "as = map (map_AivmNodeAttr (cptr_text (vm_string_arena vm))) (node_attrs vm node)" "length cs = length (node_children vm node)"
    using assms(3) by (cases v) (auto split: option.splits)
  have "node_shape_ok vm node"
    using assms(1) node by (auto simp: collectable_def heap_ok_def heap_closed_def aivm_vm_lookup_node_def split: if_splits)
  moreover have "\<forall>q \<in> node_texts vm node. cstring_ok (vm_string_arena vm) q"
    using sound_value_ok [OF assms(2)] node by (auto simp: v aivm_vm_lookup_node_def split: if_splits)
  moreover have "sound vm (ValNode c)" if "c \<in> set (node_children vm node)" for c
    using sound_reach [OF assms(2)] reach_child [of vm "{v}" h node c] reach_root [of v "{v}" vm] node that by (simp add: v)
  ultimately show ?thesis
    using v node parts by blast
qed

lemma popped_node [simp]: "aivm_vm_lookup_node (popped k vm) = aivm_vm_lookup_node vm" "node_operand (popped k vm) = node_operand vm"
  "indexed_attr (popped k vm) = indexed_attr vm" "vm_node_children (popped k vm) = vm_node_children vm" "vm_node_attrs (popped k vm) = vm_node_attrs vm"
  by (auto simp: popped_def aivm_vm_lookup_node_def node_operand_def indexed_attr_def fun_eq_iff Let_def split: AivmValue.split)

lemma pointer_text_pushed:
  assumes "heap_state p vm" and "0 < k" and "k \<le> vm_stack_count vm" and "cstring_ok (vm_string_arena vm) q"
    and "cptr_text (vm_string_arena vm) q = Some str" and "length str < SIZE_MAX"
  shows "gives p vm k (\<lambda>_. VText (Some str)) (advance_after p (push_string_copy alloc block snapshot (popped k vm) q))"
  by (intro string_copy_pushed [OF assms(1-3)] copy_string_outcome popped_running(2) [OF assms(1)]) (simp_all add: assms(4-6))

lemma atom_pushed:
  assumes "heap_state p vm" and "0 < k" and "k \<le> vm_stack_count vm"
  shows "gives p vm k (\<lambda>_. VAtom (ValBool b)) (push_and_advance p (popped k vm) (ValBool b))"
  by (rule gives_push [OF assms kept_refl [OF popped_running(2) [OF assms(1)]]]) (simp_all add: sound_leaf)

lemma read_node_gives:
  assumes "heap_state p vm" and st: "vm_stack vm = v # rest" and "read_node (opcode i) (value_view 1 vm v) = Some w"
    and small: "texts_small (value_view 1 vm v)"
  shows "gives p vm 1 (\<lambda>_. w) (node_ops alloc block snapshot handle_bits p other i vm)"
proof -
  have k: "0 < (1::nat)" "1 \<le> vm_stack_count vm"
    using st by simp_all
  have c: "collectable vm" and s: "sound vm v"
    using assms(1) sound_stack [of vm v] st by (simp_all add: heap_state_def)
  obtain kd d as cs where view: "value_view 1 vm v = VNode kd d as cs"
    using assms(3) by (auto simp: read_node_def split: view.splits)
  obtain h node where node: "v = ValNode h" "aivm_vm_lookup_node vm h = Some node" "kd = cptr_text (vm_string_arena vm) (node_kind node)"
    "d = cptr_text (vm_string_arena vm) (node_id node)" "as = map (map_AivmNodeAttr (cptr_text (vm_string_arena vm))) (node_attrs vm node)"
    "length cs = length (node_children vm node)" "node_shape_ok vm node" "\<forall>q \<in> node_texts vm node. cstring_ok (vm_string_arena vm) q"
    using node_operand_view [OF c s view] by blast
  have small': "length str < SIZE_MAX" if "kd = Some str \<or> d = Some str" for str
    using small that unfolding view texts_small_def by auto
  have copy: "kd = Some str \<Longrightarrow> gives p vm 1 (\<lambda>_. VText (Some str)) (advance_after p (push_string_copy alloc block snapshot (popped 1 vm) (node_kind node)))"
    "d = Some str \<Longrightarrow> gives p vm 1 (\<lambda>_. VText (Some str)) (advance_after p (push_string_copy alloc block snapshot (popped 1 vm) (node_id node)))" for str
    using pointer_text_pushed [OF assms(1) k, of "node_kind node" str] pointer_text_pushed [OF assms(1) k, of "node_id node" str]
      small' node(3,4,8) by (auto simp: node_texts_def)
  show ?thesis
    using node_lengths [OF node(7)] assms(3) st copy int_pushed [OF assms(1) k] node(1-6)
    by (auto simp: view read_node_def node_ops_def Let_def op_node_kind_def op_node_id_def op_attr_count_def op_child_count_def
        pops node_operand_def split: if_splits)
qed

text \<open>The attribute the code finds is the one the view shows.\<close>

lemma indexed_attr_view:
  assumes "heap_closed vm" and "node_shape_ok vm node"
  shows "indexed_attr vm node index =
    Some (if 0 \<le> index \<and> nat index < length (node_attrs vm node) then Some (node_attrs vm node ! nat index) else None)"
proof -
  have "length (node_attrs vm node) = node_attr_count node" "node_attr_start node + node_attr_count node \<le> length (vm_node_attrs vm)"
    "length (vm_node_attrs vm) \<le> SIZE_MAX"
    using assms by (auto simp: node_shape_ok_def node_attrs_def heap_closed_def)
  then show ?thesis
    by (auto simp: indexed_attr_def node_attrs_def Let_def)
qed

lemma or_empty_shown:
  "cptr_text arena (or_empty q) = Some str \<Longrightarrow> q \<noteq> CFreed \<Longrightarrow> (case cptr_text arena q of None \<Rightarrow> [] | Some str \<Rightarrow> str) = str"
  by (cases q) (auto simp: or_empty_def c_string_def)

lemma attr_copied:
  assumes "heap_state p vm" and "0 < k" and "k \<le> vm_stack_count vm" and "cstring_ok (vm_string_arena vm) q"
    and "case cptr_text (vm_string_arena vm) q of None \<Rightarrow> True | Some str \<Rightarrow> length str < SIZE_MAX"
  shows "gives p vm k (\<lambda>_. VText (Some (case cptr_text (vm_string_arena vm) q of None \<Rightarrow> [] | Some str \<Rightarrow> str)))
    (advance_after p (push_string_copy alloc block snapshot (popped k vm) (or_empty q)))"
proof (cases "q = CNull")
  case True
  then show ?thesis
    using empty_text_pushed [OF assms(1-3), of alloc block snapshot] by (simp add: or_empty_def)
next
  case False
  then obtain str where "cptr_text (vm_string_arena vm) q = Some str"
    using assms(4) by (cases q) (auto simp: cstring_ok_def)
  then show ?thesis
    using pointer_text_pushed [OF assms(1-4)] assms(5) False by (simp add: or_empty_def)
qed

lemma attr_kind_text_map [simp]: "attr_kind_text (map_AivmNodeAttrValue f v) = attr_kind_text v"
  "attr_int_value (map_AivmNodeAttrValue f v) = attr_int_value v" "attr_bool_value (map_AivmNodeAttrValue f v) = attr_bool_value v"
  by (cases v; simp)+

lemma attr_kind_copied:
  assumes "heap_state p vm" and "0 < k" and "k \<le> vm_stack_count vm"
  shows "gives p vm k (\<lambda>_. VText (Some (attr_kind_text v)))
    (advance_after p (push_string_copy alloc block snapshot (popped k vm) (CExt (attr_kind_text v))))"
  using external_text_pushed [OF assms, of "attr_kind_text v"] by (cases v) (simp_all add: c_string_def SIZE_MAX_def)

lemma attr_string_copied:
  assumes "heap_state p vm" and "0 < k" and "k \<le> vm_stack_count vm" and "\<forall>q \<in> set_AivmNodeAttrValue v. cstring_ok (vm_string_arena vm) q"
    and "\<forall>q \<in> set_AivmNodeAttrValue v. \<forall>str. cptr_text (vm_string_arena vm) q = Some str \<longrightarrow> length str < SIZE_MAX"
  shows "gives p vm k (\<lambda>_. VText (Some (attr_shown_text (map_AivmNodeAttrValue (cptr_text (vm_string_arena vm)) v))))
    (advance_after p (push_string_copy alloc block snapshot (popped k vm) (attr_string_value v)))"
  using attr_copied [OF assms(1-3)] empty_text_pushed [OF assms(1-3), of alloc block snapshot] assms(4,5)
  by (cases v) (auto split: option.splits)

lemma read_attr_gives:
  assumes "heap_state p vm" and st: "vm_stack vm = ValInt index # v # rest" and view: "value_view 1 vm v = VNode kd d as cs"
    and read: "read_attr (opcode i) (if 0 \<le> index \<and> nat index < length as then Some (as ! nat index) else None) = Some w"
    and small: "texts_small (value_view 1 vm v)"
  shows "gives p vm 2 (\<lambda>_. w) (node_ops alloc block snapshot handle_bits p other i vm)"
proof -
  have k: "0 < (2::nat)" "2 \<le> vm_stack_count vm"
    using st by simp_all
  have c: "collectable vm" and s: "sound vm v"
    using assms(1) sound_stack [of vm v] st by (simp_all add: heap_state_def)
  obtain h node where node: "v = ValNode h" "aivm_vm_lookup_node vm h = Some node"
    "as = map (map_AivmNodeAttr (cptr_text (vm_string_arena vm))) (node_attrs vm node)"
    "node_shape_ok vm node" "\<forall>q \<in> node_texts vm node. cstring_ok (vm_string_arena vm) q"
    using node_operand_view [OF c s view] by blast
  let ?attr = "if 0 \<le> index \<and> nat index < length (node_attrs vm node) then Some (node_attrs vm node ! nat index) else None"
  have found: "indexed_attr vm node index = Some ?attr"
    using indexed_attr_view [OF _ node(4)] c by (simp add: collectable_def heap_ok_def)
  have step: "node_ops alloc block snapshot handle_bits p other i vm = op_attr alloc block snapshot p i vm"
    using read by (auto simp: read_attr_def node_ops_def Let_def split: if_splits)
  note empty = empty_text_pushed [OF assms(1) k, of alloc block snapshot]
  show ?thesis
  proof (cases ?attr)
    case None
    then show ?thesis
      unfolding step using read st node found empty int_pushed [OF assms(1) k] atom_pushed [OF assms(1) k]
      by (auto simp: read_attr_def op_attr_def pops node_operand_def numeral_2_eq_2 Let_def split: if_splits)
  next
    case (Some a)
    then have mem: "a \<in> set (node_attrs vm node)" and shown: "(if 0 \<le> index \<and> nat index < length as then Some (as ! nat index) else None) =
        Some (map_AivmNodeAttr (cptr_text (vm_string_arena vm)) a)"
      by (auto simp: node(3) split: if_splits)
    obtain key av where a: "a = NodeAttr key av"
      by (cases a)
    have ok: "cstring_ok (vm_string_arena vm) q" if "q \<in> set_AivmNodeAttr a" for q
      using node(5) mem that by (auto simp: node_texts_def)
    have len: "length str < SIZE_MAX" if "q \<in> set_AivmNodeAttr a" "cptr_text (vm_string_arena vm) q = Some str" for q str
    proof -
      have "str \<in> view_texts (value_view 1 vm v)"
        unfolding view node(3) using mem that by (force simp: AivmNodeAttr.set_map)
      then show ?thesis
        using small by (simp add: texts_small_def)
    qed
    have "gives p vm 2 (\<lambda>_. VText (Some str)) (advance_after p (push_string_copy alloc block snapshot (popped 2 vm) key))"
      if "cptr_text (vm_string_arena vm) key = Some str" for str
      using pointer_text_pushed [OF assms(1) k _ that] ok [of key] len [of key str] that a by simp
    moreover have "gives p vm 2 (\<lambda>_. VText (Some (attr_shown_text (map_AivmNodeAttrValue (cptr_text (vm_string_arena vm)) av))))
        (advance_after p (push_string_copy alloc block snapshot (popped 2 vm) (attr_string_value av)))"
      by (intro attr_string_copied [OF assms(1) k]) (use ok len a in auto)
    ultimately show ?thesis
      unfolding step using read st node(1,2) found Some attr_kind_copied [OF assms(1) k, of av] int_pushed [OF assms(1) k]
        atom_pushed [OF assms(1) k]
      unfolding shown
      by (auto simp: read_attr_def op_attr_def pops node_operand_def numeral_2_eq_2 Let_def a split: if_splits)
  qed
qed

lemma child_at_gives:
  assumes "heap_state p vm" and st: "vm_stack vm = ValInt index # v # rest" and view: "value_view 1 vm v = VNode kd d as cs"
    and index: "0 \<le> index" "nat index < length cs"
  shows "gives p vm 2 (\<lambda>n. child_view (nat index) (value_view (Suc n) vm v)) (op_child_at p vm)"
proof -
  have k: "0 < (2::nat)" "2 \<le> vm_stack_count vm"
    using st by simp_all
  have c: "collectable vm" and s: "sound vm v"
    using assms(1) sound_stack [of vm v] st by (simp_all add: heap_state_def)
  obtain h node where node: "v = ValNode h" "aivm_vm_lookup_node vm h = Some node" "length cs = length (node_children vm node)"
    "node_shape_ok vm node" "\<forall>c \<in> set (node_children vm node). sound vm (ValNode c)"
    using node_operand_view [OF c s view] by blast
  have len: "length (node_children vm node) = node_child_count node" "node_child_start node + node_child_count node \<le> length (vm_node_children vm)"
    "length (vm_node_children vm) \<le> SIZE_MAX"
    using node(4) c by (auto simp: node_shape_ok_def node_children_def collectable_def heap_ok_def heap_closed_def)
  let ?c = "node_children vm node ! nat index"
  have op: "op_child_at p vm = push_and_advance p (popped 2 vm) (ValNode ?c)"
    using st node(1-3) index len by (simp add: op_child_at_def pops node_operand_def numeral_2_eq_2 Let_def node_children_def)
  have "sound vm (ValNode ?c)"
    using node(3,5) index by simp
  then have "sound (popped 2 vm) (ValNode ?c)"
    by (simp add: same_store_views(3) [OF same_store_popped])
  moreover have "value_view n (popped 2 vm) (ValNode ?c) = child_view (nat index) (value_view (Suc n) vm v)" for n
    using same_store_views(4) [OF same_store_popped] node(1-3) index by (simp del: value_view.simps) simp
  ultimately show ?thesis
    unfolding op by (intro gives_push [OF assms(1) k kept_refl [OF popped_running(2) [OF assms(1)]]])
qed


section \<open>What creating computes\<close>

lemma popped_attr_text [simp]: "attr_text (popped k vm) = attr_text vm"
  by (simp add: attr_text_def fun_eq_iff)

lemma create_pushes:
  assumes "heap_state p vm" and "0 < k" and "k \<le> vm_stack_count vm"
    and "cptr_text (vm_string_arena vm) kind = Some kd" and "cptr_text (vm_string_arena vm) ident = Some d"
    and "\<forall>attr \<in> set attrs. \<forall>q \<in> set_AivmNodeAttr attr. cstring_ok (vm_string_arena vm) q" and "\<forall>c \<in> set cs. sound vm (ValNode c)"
    and "cs = [] \<or> vm_string_arena_used vm + text_sizes (kd # d # concat (map attr_texts (map (attr_text vm) attrs))) \<le> vm_string_arena_limit vm"
  shows "gives p vm k (node_view kd d (map (attr_text vm) attrs) (map (\<lambda>c n. value_view n vm (ValNode c)) cs))
    (push_node p (aivm_vm_create_node_record alloc block snapshot (popped k vm) kind ident attrs (\<lambda>_. cs)))"
proof -
  let ?r = "aivm_vm_create_node_record alloc block snapshot (popped k vm) kind ident attrs (\<lambda>_. cs)"
  have run: "running_ok p (popped k vm)" and c: "collectable (popped k vm)"
    by (rule popped_running [OF assms(1)])+
  have "vm_string_arena_limit (popped k vm) = vm_string_arena_limit vm"
    by (simp add: popped_def)
  then have "node_created (popped k vm) kd d (map (attr_text (popped k vm)) attrs) cs ?r"
    using assms(4-8) same_store_views(3) [OF same_store_popped [of vm k]]
    by (intro create_node_outcome [OF c]) (simp_all del: text_sizes_simps)
  then have made: "node_created (popped k vm) kd d (map (attr_text vm) attrs) cs ?r"
    by simp
  have views: "map (\<lambda>c n. value_view n (popped k vm) (ValNode c)) cs = map (\<lambda>c n. value_view n vm (ValNode c)) cs"
    using same_store_views(4) [OF same_store_popped [of vm k]] by (simp del: value_view.simps)
  obtain r vm1 where r: "?r = (r, vm1)"
    by fastforce
  show ?thesis
  proof (cases r)
    case None
    then show ?thesis
      using made r gives_failed [OF run] by (simp add: node_created_def push_node_def or_park_def)
  next
    case (Some h)
    then have "kept (popped k vm) vm1" "sound vm1 (ValNode h)"
      "\<And>n. value_view n vm1 (ValNode h) = node_view kd d (map (attr_text vm) attrs) (map (\<lambda>c n. value_view n vm (ValNode c)) cs) n"
      using made r unfolding node_created_def views [symmetric] by simp_all
    then show ?thesis
      using r Some gives_push [OF assms(1-3)] by (simp add: push_node_def or_park_def)
  qed
qed

text \<open>Nodes without children, on the views of the operands, top first.\<close>

definition node_making :: "AivmOpcode \<Rightarrow> view list \<Rightarrow> (nat \<Rightarrow> view) option" where
  "node_making c ws =
     (case ws of
        [x] \<Rightarrow> (case view_text x of Some d \<Rightarrow> if c = AIVM_OP_MAKE_BLOCK then Some (node_view ''Block'' d [] []) else None | None \<Rightarrow> None)
      | [x, y] \<Rightarrow>
          (case view_text y of
             None \<Rightarrow> None
           | Some str \<Rightarrow>
               if c = AIVM_OP_MAKE_NODE_EMPTY then map_option (\<lambda>d. node_view str d [] []) (view_text x)
               else map_option (\<lambda>v. node_view ''Lit'' str [NodeAttr ''value'' v] [])
                 (if c = AIVM_OP_MAKE_LIT_STRING then map_option AIVM_NODE_ATTR_STRING (view_text x)
                  else if c = AIVM_OP_MAKE_LIT_INT then map_option AIVM_NODE_ATTR_INT (view_int x)
                  else if c = AIVM_OP_MAKE_LIT_BOOL then (case x of VAtom (ValBool b) \<Rightarrow> Some (AIVM_NODE_ATTR_BOOL b) | _ \<Rightarrow> None)
                  else None))
      | [x, y, z, u] \<Rightarrow>
          (case (view_text x, view_text y, view_text z, view_text u) of
             (Some node, Some message, Some code, Some d) \<Rightarrow>
               if c = AIVM_OP_MAKE_ERR
               then Some (node_view ''Err'' d [NodeAttr ''code'' (AIVM_NODE_ATTR_IDENTIFIER code),
                 NodeAttr ''message'' (AIVM_NODE_ATTR_STRING message), NodeAttr ''nodeId'' (AIVM_NODE_ATTR_IDENTIFIER node)] [])
               else None
           | _ \<Rightarrow> None)
      | _ \<Rightarrow> None)"

lemma text_pointer_view:
  assumes "heap_state p vm" and "v \<in> set (vm_stack vm)" and "value_view 0 vm v = VText (Some str)"
  shows "\<exists>q. v = ValString q \<and> text_pointer v = Some q \<and> cptr_text (vm_string_arena vm) q = Some str \<and> cstring_ok (vm_string_arena vm) q \<and>
    the (cptr_text (vm_string_arena vm) (or_empty q)) = str"
proof -
  obtain q where q: "v = ValString q" "cptr_text (vm_string_arena vm) q = Some str"
    using view_operand(2) [OF assms(3)] by blast
  then show ?thesis
    using text_operand_ok [OF assms(1), of q] assms(2) by (cases q) (auto simp: text_pointer_def or_empty_def)
qed

lemma make_one_gives:
  assumes "heap_state p vm" and st: "vm_stack vm = v # rest" and "value_view 0 vm v = VText (Some d)"
  shows "gives p vm 1 (node_view ''Block'' d [] []) (op_make_block alloc block snapshot p vm)"
proof -
  have k: "0 < (1::nat)" "1 \<le> vm_stack_count vm"
    using st by simp_all
  obtain q where "text_pointer v = Some q" "cptr_text (vm_string_arena vm) q = Some d"
    using text_pointer_view [OF assms(1) _ assms(3)] st by auto
  then show ?thesis
    using st create_pushes [OF assms(1) k, of "CExt ''Block''" "''Block''" q d "[]" "[]"] by (simp add: op_make_block_def pops c_string_def)
qed

lemma make_lit_gives:
  assumes "heap_state p vm" and st: "vm_stack vm = v # u # rest" and "value_view 0 vm u = VText (Some d)"
    and "lit_attr (opcode i) v = Some a" and "\<forall>q \<in> set_AivmNodeAttrValue a. cstring_ok (vm_string_arena vm) q"
  shows "gives p vm 2 (node_view ''Lit'' d [attr_text vm (NodeAttr (CExt ''value'') a)] []) (op_make_lit alloc block snapshot p i vm)"
proof -
  have k: "0 < (2::nat)" "2 \<le> vm_stack_count vm"
    using st by simp_all
  obtain q where "text_pointer u = Some q" "cptr_text (vm_string_arena vm) q = Some d"
    using text_pointer_view [OF assms(1) _ assms(3)] st by auto
  then show ?thesis
    using st assms(4,5) create_pushes [OF assms(1) k, of "CExt ''Lit''" "''Lit''" q d "[NodeAttr (CExt ''value'') a]" "[]"]
    by (simp add: op_make_lit_def pops c_string_def numeral_2_eq_2 cstring_ok_def)
qed

lemma make_empty_gives:
  assumes "heap_state p vm" and st: "vm_stack vm = v # u # rest" and "value_view 0 vm v = VText (Some d)" and "value_view 0 vm u = VText (Some kd)"
  shows "gives p vm 2 (node_view kd d [] []) (op_make_node_empty alloc block snapshot p vm)"
proof -
  have k: "0 < (2::nat)" "2 \<le> vm_stack_count vm"
    using st by simp_all
  obtain q q' where "text_pointer v = Some q" "cptr_text (vm_string_arena vm) q = Some d"
    "text_pointer u = Some q'" "cptr_text (vm_string_arena vm) q' = Some kd"
    using text_pointer_view [OF assms(1) _ assms(3)] text_pointer_view [OF assms(1) _ assms(4)] st by auto
  then show ?thesis
    using st create_pushes [OF assms(1) k, of q' kd q d "[]" "[]"] by (simp add: op_make_node_empty_def pops numeral_2_eq_2)
qed

lemma make_err_gives:
  assumes "heap_state p vm" and st: "vm_stack vm = v1 # v2 # v3 # v4 # rest" and "value_view 0 vm v1 = VText (Some node)"
    and "value_view 0 vm v2 = VText (Some message)" and "value_view 0 vm v3 = VText (Some code)" and "value_view 0 vm v4 = VText (Some d)"
  shows "gives p vm 4 (node_view ''Err'' d [NodeAttr ''code'' (AIVM_NODE_ATTR_IDENTIFIER code),
    NodeAttr ''message'' (AIVM_NODE_ATTR_STRING message), NodeAttr ''nodeId'' (AIVM_NODE_ATTR_IDENTIFIER node)] [])
    (op_make_err alloc block snapshot p vm)"
proof -
  have k: "0 < (4::nat)" "4 \<le> vm_stack_count vm" and four: "4 = Suc (Suc (Suc (Suc 0)))"
    using st by simp_all
  obtain q1 where q1: "text_pointer v1 = Some q1" "cstring_ok (vm_string_arena vm) q1" "the (cptr_text (vm_string_arena vm) (or_empty q1)) = node"
    using text_pointer_view [OF assms(1) _ assms(3)] st by auto
  obtain q2 where q2: "text_pointer v2 = Some q2" "cstring_ok (vm_string_arena vm) q2" "the (cptr_text (vm_string_arena vm) (or_empty q2)) = message"
    using text_pointer_view [OF assms(1) _ assms(4)] st by auto
  obtain q3 where q3: "text_pointer v3 = Some q3" "cstring_ok (vm_string_arena vm) q3" "the (cptr_text (vm_string_arena vm) (or_empty q3)) = code"
    using text_pointer_view [OF assms(1) _ assms(5)] st by auto
  obtain q4 where q4: "text_pointer v4 = Some q4" "cptr_text (vm_string_arena vm) q4 = Some d"
    using text_pointer_view [OF assms(1) _ assms(6)] st by auto
  let ?as = "[NodeAttr (CExt ''code'') (AIVM_NODE_ATTR_IDENTIFIER q3), NodeAttr (CExt ''message'') (AIVM_NODE_ATTR_STRING q2),
    NodeAttr (CExt ''nodeId'') (AIVM_NODE_ATTR_IDENTIFIER q1)]"
  have as: "map (attr_text vm) ?as = [NodeAttr ''code'' (AIVM_NODE_ATTR_IDENTIFIER code),
      NodeAttr ''message'' (AIVM_NODE_ATTR_STRING message), NodeAttr ''nodeId'' (AIVM_NODE_ATTR_IDENTIFIER node)]"
    using q1(3) q2(3) q3(3) by (simp add: attr_text_def or_empty_def c_string_def)
  have op: "op_make_err alloc block snapshot p vm =
      push_node p (aivm_vm_create_node_record alloc block snapshot (popped 4 vm) (CExt ''Err'') q4 ?as (\<lambda>_. []))"
    using st q1(1) q2(1) q3(1) q4(1) by (simp add: op_make_err_def pops four)
  have "gives p vm 4 (node_view ''Err'' d (map (attr_text vm) ?as) (map (\<lambda>c n. value_view n vm (ValNode c)) []))
      (push_node p (aivm_vm_create_node_record alloc block snapshot (popped 4 vm) (CExt ''Err'') q4 ?as (\<lambda>_. [])))"
    using q1(2) q2(2) q3(2) q4(2) by (intro create_pushes [OF assms(1) k]) (simp_all add: c_string_def cstring_ok_def)
  then show ?thesis
    unfolding op as by simp
qed

text \<open>C10 (refinement): the instructions that make a node without children leave a node with the kind, the id and the attributes that
  the views of the operands show, in place of the operands; all else the program can see is as before, through every
  collection on the way, or the machine fails.\<close>

theorem node_making_computes:
  assumes "heap_state p vm" and "vm_stack vm = vs @ rest" and "node_making (opcode i) (map (value_view 0 vm) vs) = Some vw"
  shows "gives p vm (length vs) vw (node_ops alloc block snapshot handle_bits p other i vm)"
proof -
  consider (make_block) v d where "vs = [v]" "value_view 0 vm v = VText (Some d)" "opcode i = AIVM_OP_MAKE_BLOCK" "vw = node_view ''Block'' d [] []"
    | (make_empty) v u d kd where "vs = [v, u]" "value_view 0 vm v = VText (Some d)" "value_view 0 vm u = VText (Some kd)"
        "opcode i = AIVM_OP_MAKE_NODE_EMPTY" "vw = node_view kd d [] []"
    | (lit_text) v u d str where "vs = [v, u]" "value_view 0 vm v = VText (Some str)" "value_view 0 vm u = VText (Some d)"
        "opcode i = AIVM_OP_MAKE_LIT_STRING" "vw = node_view ''Lit'' d [NodeAttr ''value'' (AIVM_NODE_ATTR_STRING str)] []"
    | (lit_int) v u d n where "vs = [v, u]" "value_view 0 vm v = VAtom (ValInt n)" "value_view 0 vm u = VText (Some d)"
        "opcode i = AIVM_OP_MAKE_LIT_INT" "vw = node_view ''Lit'' d [NodeAttr ''value'' (AIVM_NODE_ATTR_INT n)] []"
    | (lit_bool) v u d b where "vs = [v, u]" "value_view 0 vm v = VAtom (ValBool b)" "value_view 0 vm u = VText (Some d)"
        "opcode i = AIVM_OP_MAKE_LIT_BOOL" "vw = node_view ''Lit'' d [NodeAttr ''value'' (AIVM_NODE_ATTR_BOOL b)] []"
    | (err) v1 v2 v3 v4 node message code d where "vs = [v1, v2, v3, v4]" "value_view 0 vm v1 = VText (Some node)"
        "value_view 0 vm v2 = VText (Some message)" "value_view 0 vm v3 = VText (Some code)" "value_view 0 vm v4 = VText (Some d)"
        "opcode i = AIVM_OP_MAKE_ERR"
        "vw = node_view ''Err'' d [NodeAttr ''code'' (AIVM_NODE_ATTR_IDENTIFIER code),
          NodeAttr ''message'' (AIVM_NODE_ATTR_STRING message), NodeAttr ''nodeId'' (AIVM_NODE_ATTR_IDENTIFIER node)] []"
    using assms(3) unfolding node_making_def
    by (auto simp: map_eq_Cons_conv view_operands split: list.splits option.splits if_splits view.splits AivmValue.splits)
  then show ?thesis
  proof cases
    case make_block
    then show ?thesis
      using assms(2) make_one_gives [OF assms(1) _ make_block(2)] by (simp add: node_ops_def Let_def)
  next
    case make_empty
    then show ?thesis
      using assms(2) make_empty_gives [OF assms(1) _ make_empty(2,3)] by (simp add: node_ops_def Let_def numeral_2_eq_2)
  next
    case lit_text
    then obtain q where "text_pointer v = Some q" "cstring_ok (vm_string_arena vm) q" "the (cptr_text (vm_string_arena vm) (or_empty q)) = str"
      using text_pointer_view [OF assms(1) _ lit_text(2)] assms(2) by auto
    then show ?thesis
      using lit_text assms(2) make_lit_gives [OF assms(1) _ lit_text(3), of v rest i "AIVM_NODE_ATTR_STRING q" alloc block snapshot]
      by (simp add: node_ops_def Let_def numeral_2_eq_2 lit_attr_def attr_text_def or_empty_def c_string_def)
  next
    case lit_int
    then show ?thesis
      using assms(2) view_operand(3) [OF lit_int(2)]
        make_lit_gives [OF assms(1) _ lit_int(3), of v rest i "AIVM_NODE_ATTR_INT n" alloc block snapshot]
      by (simp add: node_ops_def Let_def numeral_2_eq_2 lit_attr_def attr_text_def or_empty_def c_string_def)
  next
    case lit_bool
    then have "v = ValBool b"
      by (cases v) auto
    then show ?thesis
      using lit_bool assms(2) make_lit_gives [OF assms(1) _ lit_bool(3), of v rest i "AIVM_NODE_ATTR_BOOL b" alloc block snapshot]
      by (simp add: node_ops_def Let_def numeral_2_eq_2 lit_attr_def attr_text_def or_empty_def c_string_def)
  next
    case err
    then show ?thesis
      using assms(2) make_err_gives [OF assms(1) _ err(2-5), of rest alloc block snapshot] by (simp add: node_ops_def Let_def eval_nat_numeral)
  qed
qed

section \<open>What nodes with children are made of\<close>

definition shown_attr :: "string option AivmNodeAttr \<Rightarrow> string AivmNodeAttr" where
  "shown_attr = map_AivmNodeAttr (\<lambda>t. case t of None \<Rightarrow> [] | Some str \<Rightarrow> str)"

lemma shown_attr_text:
  assumes "\<forall>q \<in> set_AivmNodeAttr a. cstring_ok (vm_string_arena vm) q"
  shows "shown_attr (map_AivmNodeAttr (cptr_text (vm_string_arena vm)) a) = attr_text vm a"
proof -
  have "(case cptr_text (vm_string_arena vm) q of None \<Rightarrow> [] | Some str \<Rightarrow> str) = the (cptr_text (vm_string_arena vm) (or_empty q))"
    if "q \<in> set_AivmNodeAttr a" for q
    using assms that or_empty_text [of "vm_string_arena vm" q] or_empty_shown [of "vm_string_arena vm" q] by (auto simp: cstring_ok_def)
  then show ?thesis
    by (auto simp: shown_attr_def attr_text_def AivmNodeAttr.map_comp intro!: AivmNodeAttr.map_cong)
qed

definition child_views :: "(nat \<Rightarrow> view) \<Rightarrow> nat \<Rightarrow> (nat \<Rightarrow> view) list" where
  "child_views w m = map (\<lambda>j n. child_view j (w (Suc n))) [0..<m]"

lemma child_views_node:
  assumes "aivm_vm_lookup_node vm h = Some node"
  shows "child_views (\<lambda>n. value_view n vm (ValNode h)) (length (node_children vm node)) = map (\<lambda>c n. value_view n vm (ValNode c)) (node_children vm node)"
  by (rule nth_equalityI) (simp_all add: child_views_def assms)

text \<open>The abstract instructions: a copy of a node with a child or an attribute more, a field, and a map of the nodes on the stack.\<close>

fun view_node :: "view \<Rightarrow> bool" where
  "view_node (VNode _ _ _ _) = True"
| "view_node _ = False"

lemma view_node_value: "view_node (value_view n vm v) \<Longrightarrow> \<exists>h. v = ValNode h"
  by (cases v; cases n) (auto split: option.splits)

definition node_appending :: "AivmOpcode \<Rightarrow> (nat \<Rightarrow> view) list \<Rightarrow> (nat \<Rightarrow> view) option" where
  "node_appending c ws =
     (if c = AIVM_OP_MAKE_MAP
      then (case ws of
          [] \<Rightarrow> None
        | x # ws \<Rightarrow>
            if view_int (x 0) = Some (int (length ws)) \<and> list_all (\<lambda>w. view_node (w 1)) ws then Some (node_view ''Map'' ''map'' [] (rev ws)) else None)
      else (case ws of
          [x, w] \<Rightarrow>
            if c = AIVM_OP_APPEND_CHILD
            then (case (x 1, w 1) of
                (VNode _ _ _ _, VNode (Some k) (Some d) as cs) \<Rightarrow> Some (node_view k d (map shown_attr as) (child_views w (length cs) @ [x]))
              | _ \<Rightarrow> None)
            else if c = AIVM_OP_APPEND_ATTR
            then (case (x 1, w 1) of
                (VNode _ (Some key) [a] _, VNode (Some k) (Some d) as cs) \<Rightarrow>
                  Some (node_view k d (map shown_attr as @ [NodeAttr key (attr_value (shown_attr a))]) (child_views w (length cs)))
              | _ \<Rightarrow> None)
            else if c = AIVM_OP_MAKE_FIELD_STRING
            then (case (x 1, w 0) of
                (VNode _ _ _ _, VText (Some str)) \<Rightarrow> Some (node_view ''Field'' ''field'' [NodeAttr ''key'' (AIVM_NODE_ATTR_STRING str)] [x])
              | _ \<Rightarrow> None)
            else None
        | _ \<Rightarrow> None))"

text \<open>The string arena has room for the texts of the new node.\<close>

definition node_fits :: "'a heap_vm \<Rightarrow> view \<Rightarrow> bool" where
  "node_fits vm w \<longleftrightarrow>
     (case w of
        VNode (Some k) (Some d) as _ \<Rightarrow>
          vm_string_arena_used vm + text_sizes (k # d # concat (map attr_texts (map shown_attr as))) \<le> vm_string_arena_limit vm
      | _ \<Rightarrow> False)"

lemma node_fits_view:
  "node_fits vm (node_view k d as cs 1) \<longleftrightarrow> vm_string_arena_used vm + text_sizes (k # d # concat (map attr_texts as)) \<le> vm_string_arena_limit vm"
proof -
  have "shown_attr (map_AivmNodeAttr Some a) = a" for a
    by (cases a) (simp add: shown_attr_def AivmNodeAttrValue.map_comp o_def AivmNodeAttrValue.map_ident)
  then have "map shown_attr (map (map_AivmNodeAttr Some) as) = as"
    by (simp add: o_def)
  then show ?thesis
    unfolding node_fits_def One_nat_def node_view_Suc by (simp del: text_sizes_simps map_map)
qed

lemma copy_slots_all:
  assumes "first + n \<le> length xs" and "length xs \<le> limit" and "limit \<le> SIZE_MAX"
  shows "copy_slots limit xs first n = Some (Some (take n (drop first xs)))"
  using assms by (auto simp: copy_slots_def slot_ok_def list_all_iff aivm_size_add_checked_def)

lemma popped_capacities [simp]:
  "vm_node_attr_capacity (popped k vm) = vm_node_attr_capacity vm" "vm_node_child_capacity (popped k vm) = vm_node_child_capacity vm"
  by (simp_all add: popped_def)

lemma node_slots:
  assumes "collectable vm" and "node_shape_ok vm node"
  shows "copy_slots (vm_node_attr_capacity vm) (vm_node_attrs vm) (node_attr_start node) (node_attr_count node) = Some (Some (node_attrs vm node))"
    and "copy_slots (vm_node_child_capacity vm) (vm_node_children vm) (node_child_start node) (node_child_count node) = Some (Some (node_children vm node))"
  using assms copy_slots_all [of "node_attr_start node" "node_attr_count node" "vm_node_attrs vm" "vm_node_attr_capacity vm"]
    copy_slots_all [of "node_child_start node" "node_child_count node" "vm_node_children vm" "vm_node_child_capacity vm"]
  by (auto simp: collectable_def heap_ok_def heap_closed_def node_shape_ok_def node_attrs_def node_children_def)

lemma append_child_gives:
  assumes "heap_state p vm" and st: "vm_stack vm = x # v # rest" and x: "view_node (value_view 1 vm x)"
    and view: "value_view 1 vm v = VNode (Some kd) (Some d) as cs"
    and fits: "node_fits vm (node_view kd d (map shown_attr as) (child_views (\<lambda>n. value_view n vm v) (length cs) @ [\<lambda>n. value_view n vm x]) 1)"
  shows "gives p vm 2 (node_view kd d (map shown_attr as) (child_views (\<lambda>n. value_view n vm v) (length cs) @ [\<lambda>n. value_view n vm x]))
    (op_append_child alloc block snapshot p vm)"
proof -
  have k: "0 < (2::nat)" "2 \<le> vm_stack_count vm"
    using st by simp_all
  have c: "collectable vm" and s: "sound vm v" "sound vm x"
    using assms(1) sound_stack [of vm v] sound_stack [of vm x] st by (simp_all add: heap_state_def)
  obtain h node where node: "v = ValNode h" "aivm_vm_lookup_node vm h = Some node" "Some kd = cptr_text (vm_string_arena vm) (node_kind node)"
    "Some d = cptr_text (vm_string_arena vm) (node_id node)" "as = map (map_AivmNodeAttr (cptr_text (vm_string_arena vm))) (node_attrs vm node)"
    "length cs = length (node_children vm node)" "node_shape_ok vm node" "\<forall>q \<in> node_texts vm node. cstring_ok (vm_string_arena vm) q"
    "\<forall>c \<in> set (node_children vm node). sound vm (ValNode c)"
    using node_operand_view [OF c s(1) view] by blast
  obtain child where child: "x = ValNode child" "aivm_vm_lookup_node vm child \<noteq> None"
    using x by (cases x) (auto split: option.splits)
  have oks: "\<forall>a \<in> set (node_attrs vm node). \<forall>q \<in> set_AivmNodeAttr a. cstring_ok (vm_string_arena vm) q"
    using node(8) by (auto simp: node_texts_def)
  then have as: "map shown_attr as = map (attr_text vm) (node_attrs vm node)"
    by (simp add: node(5) shown_attr_text)
  have views: "child_views (\<lambda>n. value_view n vm v) (length cs) @ [\<lambda>n. value_view n vm x] =
      map (\<lambda>c n. value_view n vm (ValNode c)) (node_children vm node @ [child])"
    using child_views_node [OF node(2)] by (simp add: node(1,6) child(1) del: value_view.simps)
  have made: "gives p vm 2 (node_view kd d (map (attr_text vm) (node_attrs vm node)) (map (\<lambda>c n. value_view n vm (ValNode c)) (node_children vm node @ [child])))
      (push_node p (aivm_vm_create_node_record alloc block snapshot (popped 2 vm) (node_kind node) (node_id node) (node_attrs vm node)
        (\<lambda>_. node_children vm node @ [child])))"
    using node(3,4,9) oks s(2) child(1) fits unfolding as views node_fits_view
    by (intro create_pushes [OF assms(1) k]) (auto simp del: text_sizes_simps)
  show ?thesis
    unfolding as views using st node(1,2) child node_slots [OF c node(7)] made gives_fail [OF popped_running(1) [OF assms(1)]]
    by (auto simp: op_append_child_def pops node_operand_def with_slots_def numeral_2_eq_2 simp del: value_view.simps)
qed

lemma attr_text_parts: "attr_text vm (NodeAttr q v) =
    NodeAttr (the (cptr_text (vm_string_arena vm) (or_empty q))) (map_AivmNodeAttrValue (\<lambda>q. the (cptr_text (vm_string_arena vm) (or_empty q))) v)"
  by (simp add: attr_text_def)

lemma append_attr_gives:
  assumes "heap_state p vm" and st: "vm_stack vm = x # v # rest" and x: "value_view 1 vm x = VNode k' (Some key) [a] cs'"
    and view: "value_view 1 vm v = VNode (Some kd) (Some d) as cs"
    and fits: "node_fits vm (node_view kd d (map shown_attr as @ [NodeAttr key (attr_value (shown_attr a))]) (child_views (\<lambda>n. value_view n vm v) (length cs)) 1)"
  shows "gives p vm 2 (node_view kd d (map shown_attr as @ [NodeAttr key (attr_value (shown_attr a))]) (child_views (\<lambda>n. value_view n vm v) (length cs)))
    (op_append_attr alloc block snapshot p vm)"
proof -
  have k: "0 < (2::nat)" "2 \<le> vm_stack_count vm"
    using st by simp_all
  have c: "collectable vm" and s: "sound vm v" "sound vm x"
    using assms(1) sound_stack [of vm v] sound_stack [of vm x] st by (simp_all add: heap_state_def)
  obtain h node where node: "v = ValNode h" "aivm_vm_lookup_node vm h = Some node" "Some kd = cptr_text (vm_string_arena vm) (node_kind node)"
    "Some d = cptr_text (vm_string_arena vm) (node_id node)" "as = map (map_AivmNodeAttr (cptr_text (vm_string_arena vm))) (node_attrs vm node)"
    "length cs = length (node_children vm node)" "node_shape_ok vm node" "\<forall>q \<in> node_texts vm node. cstring_ok (vm_string_arena vm) q"
    "\<forall>c \<in> set (node_children vm node). sound vm (ValNode c)"
    using node_operand_view [OF c s(1) view] by blast
  obtain g anode where anode: "x = ValNode g" "aivm_vm_lookup_node vm g = Some anode" "Some key = cptr_text (vm_string_arena vm) (node_id anode)"
    "[a] = map (map_AivmNodeAttr (cptr_text (vm_string_arena vm))) (node_attrs vm anode)"
    "node_shape_ok vm anode" "\<forall>q \<in> node_texts vm anode. cstring_ok (vm_string_arena vm) q"
    using node_operand_view [OF c s(2) x] by metis
  obtain b where b: "node_attrs vm anode = [b]" "a = map_AivmNodeAttr (cptr_text (vm_string_arena vm)) b"
    using anode(4) by (auto simp: Cons_eq_map_conv)
  have one: "node_attr_count anode = 1"
    using node_lengths(1) [OF anode(5)] b(1) by simp
  then have first: "node_attr_start anode < length (vm_node_attrs vm)"
    using anode(5) by (simp add: node_shape_ok_def)
  have "vm_node_attrs vm ! node_attr_start anode = b"
    using b(1) one by (simp add: node_attrs_def Cons_nth_drop_Suc [OF first, symmetric])
  note slot = one first this
  let ?new = "NodeAttr (node_id anode) (attr_value b)"
  have oks: "\<forall>a \<in> set (node_attrs vm node). \<forall>q \<in> set_AivmNodeAttr a. cstring_ok (vm_string_arena vm) q"
    and okb: "\<forall>q \<in> set_AivmNodeAttr b. cstring_ok (vm_string_arena vm) q" and okid: "cstring_ok (vm_string_arena vm) (node_id anode)"
    using node(8) anode(6) b(1) by (auto simp: node_texts_def)
  have "the (cptr_text (vm_string_arena vm) (or_empty (node_id anode))) = key"
    using anode(3) by (cases "node_id anode") (auto simp: or_empty_def)
  then have new: "attr_text vm ?new = NodeAttr key (attr_value (shown_attr a))"
    unfolding b(2) shown_attr_text [OF okb] by (cases b) (simp add: attr_text_parts)
  have as: "map shown_attr as @ [NodeAttr key (attr_value (shown_attr a))] = map (attr_text vm) (node_attrs vm node @ [?new])"
    using oks by (simp add: node(5) shown_attr_text new)
  have views: "child_views (\<lambda>n. value_view n vm v) (length cs) = map (\<lambda>c n. value_view n vm (ValNode c)) (node_children vm node)"
    using child_views_node [OF node(2)] by (simp add: node(1,6) del: value_view.simps)
  have "\<forall>a \<in> set (node_attrs vm node @ [?new]). \<forall>q \<in> set_AivmNodeAttr a. cstring_ok (vm_string_arena vm) q"
    using oks okb okid by (cases b) auto
  then have made: "gives p vm 2 (node_view kd d (map (attr_text vm) (node_attrs vm node @ [?new])) (map (\<lambda>c n. value_view n vm (ValNode c)) (node_children vm node)))
      (push_node p (aivm_vm_create_node_record alloc block snapshot (popped 2 vm) (node_kind node) (node_id node) (node_attrs vm node @ [?new])
        (\<lambda>_. node_children vm node)))"
    using node(3,4,9) fits unfolding as views node_fits_view
    by (intro create_pushes [OF assms(1) k]) (auto simp del: text_sizes_simps map_append)
  show ?thesis
    unfolding as views using st node(1,2) anode(1,2) slot node_slots [OF c node(7)] made gives_fail [OF popped_running(1) [OF assms(1)]]
    by (auto simp: op_append_attr_def pops node_operand_def with_slots_def numeral_2_eq_2 simp del: value_view.simps map_append)
qed

lemma make_field_gives:
  assumes "heap_state p vm" and st: "vm_stack vm = x # v # rest" and x: "view_node (value_view 1 vm x)"
    and key: "value_view 0 vm v = VText (Some str)"
    and fits: "node_fits vm (node_view ''Field'' ''field'' [NodeAttr ''key'' (AIVM_NODE_ATTR_STRING str)] [\<lambda>n. value_view n vm x] 1)"
  shows "gives p vm 2 (node_view ''Field'' ''field'' [NodeAttr ''key'' (AIVM_NODE_ATTR_STRING str)] [\<lambda>n. value_view n vm x])
    (op_make_field_string alloc block snapshot p vm)"
proof -
  have k: "0 < (2::nat)" "2 \<le> vm_stack_count vm"
    using st by simp_all
  obtain child where child: "x = ValNode child"
    using view_node_value [OF x] by blast
  have s: "sound vm (ValNode child)"
    using assms(1) sound_stack [of vm x] st child by (simp add: heap_state_def)
  obtain q where q: "text_pointer v = Some q" "cptr_text (vm_string_arena vm) q = Some str" "cstring_ok (vm_string_arena vm) q"
    "the (cptr_text (vm_string_arena vm) (or_empty q)) = str"
    using text_pointer_view [OF assms(1) _ key] st by auto
  let ?a = "NodeAttr (CExt ''key'') (AIVM_NODE_ATTR_STRING q)"
  have a: "[NodeAttr ''key'' (AIVM_NODE_ATTR_STRING str)] = map (attr_text vm) [?a]"
    using q(4) by (simp add: attr_text_parts or_empty_def c_string_def)
  have views: "[\<lambda>n. value_view n vm x] = map (\<lambda>c n. value_view n vm (ValNode c)) [child]"
    by (simp add: child del: value_view.simps)
  have made: "gives p vm 2 (node_view ''Field'' ''field'' (map (attr_text vm) [?a]) (map (\<lambda>c n. value_view n vm (ValNode c)) [child]))
      (push_node p (aivm_vm_create_node_record alloc block snapshot (popped 2 vm) (CExt ''Field'') (CExt ''field'') [?a] (\<lambda>_. [child])))"
    using s q(3) fits unfolding a node_fits_view
    by (intro create_pushes [OF assms(1) k]) (simp_all add: c_string_def cstring_ok_def del: text_sizes_simps)
  have "q \<noteq> CFreed"
    using q(2) by auto
  then show ?thesis
    unfolding a views using st q(1) child made
    by (simp add: op_make_field_string_def pops create_runtime_node_from_value_def held_def numeral_2_eq_2 del: value_view.simps list.map)
qed

lemma runtime_children_nodes:
  assumes "vm_stack vm = map ValNode hs @ rest"
  shows "runtime_children alloc block snapshot (length hs) cs vm = (Some (rev hs @ cs), popped (length hs) vm)"
  using assms
proof (induction hs arbitrary: cs vm)
  case (Cons h hs)
  then show ?case
    using Cons.IH [of "popped (Suc 0) vm" "h # cs"] by (simp add: stack_pop create_runtime_node_from_value_def)
qed simp

lemma make_map_gives:
  assumes "heap_state p vm" and st: "vm_stack vm = ValInt (int (length vs)) # vs @ rest" and vs: "\<forall>v \<in> set vs. view_node (value_view 1 vm v)"
    and fits: "node_fits vm (node_view ''Map'' ''map'' [] (rev (map (\<lambda>v n. value_view n vm v) vs)) 1)"
  shows "gives p vm (Suc (length vs)) (node_view ''Map'' ''map'' [] (rev (map (\<lambda>v n. value_view n vm v) vs))) (op_make_map alloc block snapshot p vm)"
proof -
  have k: "0 < Suc (length vs)" "Suc (length vs) \<le> vm_stack_count vm"
    using st by simp_all
  have "\<forall>v \<in> set vs. \<exists>h. v = ValNode h"
    using vs view_node_value by blast
  then obtain hs where hs: "vs = map ValNode hs"
    by (metis ex_map_conv)
  have s: "\<forall>c \<in> set (rev hs). sound vm (ValNode c)"
    using assms(1) sound_stack [of vm] st hs by (auto simp: heap_state_def)
  have views: "rev (map (\<lambda>v n. value_view n vm v) vs) = map (\<lambda>c n. value_view n vm (ValNode c)) (rev hs)"
    by (simp add: hs rev_map o_def del: value_view.simps)
  have made: "gives p vm (Suc (length vs)) (node_view ''Map'' ''map'' (map (attr_text vm) []) (map (\<lambda>c n. value_view n vm (ValNode c)) (rev hs)))
      (push_node p (aivm_vm_create_node_record alloc block snapshot (popped (Suc (length vs)) vm) (CExt ''Map'') (CExt ''map'') [] (\<lambda>_. rev hs)))"
    using s fits unfolding node_fits_view by (intro create_pushes [OF assms(1) k]) (simp_all add: c_string_def)
  have run: "running_ok p (popped j vm)" for j
    by (rule popped_running(1) [OF assms(1)])
  have "runtime_children alloc block snapshot (length vs) [] (popped (Suc 0) vm) = (Some (rev hs), popped (Suc (length vs)) vm)"
    using runtime_children_nodes [of "popped (Suc 0) vm" hs rest alloc block snapshot "[]"] st hs by simp
  then show ?thesis
    unfolding views using st made gives_fail [OF run] gives_park [OF run]
    by (simp add: op_make_map_def pops with_children_def)
qed


definition node_demo :: "AivmValue list \<Rightarrow> AivmHeapVm" where
  "node_demo s = pair_demo\<lparr>vm_stack := s\<rparr>"

lemma node_demo_store: "same_store heap_demo (node_demo s)" "vm_stack (node_demo s) = s"
  by (simp_all add: node_demo_def pair_demo_def same_store_def)

lemma node_demo_state:
  assumes "\<forall>v \<in> set s. v \<in> {ValNode 2, ValNode 3} \<or> leaf v \<and> value_ok pair_demo v" and "length s \<le> 10"
  shows "heap_state tiny_program (node_demo s)"
proof -
  have c: "collectable pair_demo"
    using pair_demo_state by (simp add: heap_state_def)
  have "same_store heap_demo pair_demo"
    by (simp add: pair_demo_def same_store_def)
  note ss = same_store_views(3) [OF this]
  have "sound heap_demo (ValPair 2)"
    using heap_demo_ok by (simp add: heap_ok_sound heap_demo_roots)
  then have "sound heap_demo (ValNode 2)"
    using sound_parts(1) [of heap_demo 2] by (auto simp: heap_demo_fields aivm_vm_lookup_scratch_pair_def)
  then have "sound pair_demo (ValNode 2)" "sound pair_demo (ValNode 3)"
    using heap_demo_child by (simp_all add: ss)
  then have "sound pair_demo v" if "v \<in> set s" for v
    using assms(1) that sound_leaf [of v pair_demo] by auto
  then have "\<forall>v \<in> set s. sound pair_demo v"
    ..
  then have "collectable (node_demo s)"
    unfolding node_demo_def by (rule collectable_stack [OF c])
  moreover have "running_ok tiny_program (node_demo s)"
    using pair_demo_state assms(2) by (simp add: heap_state_def running_ok_def machine_ok_def vm_bounds_def node_demo_def pair_demo_def)
  ultimately show ?thesis
    by (simp add: heap_state_def)
qed

lemma node_demo_view:
  "value_view 1 (node_demo s) (ValNode 2) = VNode (Some ''Row'') (Some ''id'') [NodeAttr (Some ''id'') (AIVM_NODE_ATTR_INT 3)] [VCut]"
  "value_view 1 (node_demo s) (ValNode 3) = VNode (Some ''Row'') (Some ''id'') [] []"
  unfolding same_store_views(4) [OF node_demo_store(1)]
  by (simp_all add: heap_demo_fields aivm_vm_lookup_node_def node_attrs_def node_children_def c_string_def)


theorem node_making_computes_witness:
  "gives tiny_program (node_demo [ValInt 5, ValString (CExt ''x'')]) 2 (node_view ''Lit'' ''x'' [NodeAttr ''value'' (AIVM_NODE_ATTR_INT 5)] [])
     (node_ops (\<lambda>n. True) 3 None (\<lambda>v. 0) tiny_program (\<lambda>i vm. None) \<lparr>opcode = AIVM_OP_MAKE_LIT_INT, operand_int = 0\<rparr>
       (node_demo [ValInt 5, ValString (CExt ''x'')]))"
proof -
  let ?vs = "[ValInt 5, ValString (CExt ''x'')]"
  have "heap_state tiny_program (node_demo ?vs)" "vm_stack (node_demo ?vs) = ?vs @ []"
    by (simp_all add: node_demo_state node_demo_store cstring_ok_def)
  then have "gives tiny_program (node_demo ?vs) (length ?vs) (node_view ''Lit'' ''x'' [NodeAttr ''value'' (AIVM_NODE_ATTR_INT 5)] [])
     (node_ops (\<lambda>n. True) 3 None (\<lambda>v. 0) tiny_program (\<lambda>i vm. None) \<lparr>opcode = AIVM_OP_MAKE_LIT_INT, operand_int = 0\<rparr> (node_demo ?vs))"
    by (rule node_making_computes) (simp add: node_making_def c_string_def)
  then show ?thesis
    by (simp add: numeral_2_eq_2)
qed


end
