(* ===== verification/Spec2Isabelle.thy ===== *)
theory Spec2Isabelle
  imports VM_Properties Loader_Roundtrip Blob_Store Worker_Scheduler Remote_Transport Ws_Frame Node_Instructions
begin

text \<open>
  AiVM is the virtual machine of the language AiLang, written in C: it loads a program from the binary
  format AiBC, runs its instructions, keeps the values a program allocates in arenas it collects
  itself, calls the host through system calls that a capability policy guards, runs worker tasks in a
  pool of threads and offers its system calls to remote clients over framed streams. This development
  models the C code as functions and step relations and proves what the parts promise.

  Parts, theories and sources. Every definition carries the name of the C function, type or instruction it
  models; a loop of a function or a section of a long one has a name of its own.

  \<^item> AiVM_Prelude, Float64, Byte_Codec: sizes with the checked addition and multiplication of the code,
    list search, the C double as sign, mantissa and exponent with round-to-even, little-endian fields.
  \<^item> Values (aivm_types.c, aivm_vm_value.c): the tagged union AivmValue as a datatype, equality,
    numeric conversion and results. A C string is a pointer into the string arena (\<open>CArena\<close>), a text the
    machine does not own (\<open>CExt\<close>), null, or a pointer into freed memory (\<open>CFreed\<close>).
  \<^item> Opcodes, Program, Program_Loader, Loader_Roundtrip (aivm_program*.c, aivm_worker_catalog.c): the
    program record and the loader. Every read of the input is checked by the model: outside the buffer it
    is a fault. Shown: no input makes the loader fault, nested worker programs included; an accepted
    program is well formed; encoding and loading is the identity. The recursion through nested programs
    takes fuel, which is the length of the input: each level consumes bytes.
  \<^item> Syscalls (sys/aivm_syscall*.c): contracts, capability policies and the checked dispatch; the
    host handlers are an argument. Shown: a successful dispatch was allowed, bound and typed; a refused one
    never reaches the host.
  \<^item> VM_State, VM_Step, VM_Properties (aivm_vm_stack.c, aivm_vm_history.c, aivm_vm_error.c,
    aivm_vm_profile.c, aivm_vm_lifecycle.c, aivm_vm.c): operand stack, call frames, locals, histories,
    errors, \<open>aivm_step\<close> and \<open>aivm_run\<close>. An instruction with undefined behaviour in C is \<open>None\<close>. The instructions
    of other theories enter \<open>execute\<close> as an argument. \<open>aivm_run\<close> takes fuel; a forward program needs as many
    steps as it has instructions. Shown: the machine invariant in every reachable state, calls and
    returns, tail calls, argument passing, exact integer arithmetic, termination of forward programs.
  \<^item> Host_Memory, String_Map, Map_Instructions, Blob_Store (aivm_host_memory.c, aivm_vm_map.c,
    aivm_vm_blob.c): memory admission, hash tables from strings to integers with their instructions,
    blocks of bytes under handles. The answers of the allocator and the snapshot of the host memory are
    arguments.
  \<^item> Base64, Utf8 (aivm_vm_text.c and the string functions of aivm_vm.c): codecs, the UTF-8 check, and
    the operations by character position.
  \<^item> Heap_State, Heap_Marking, Heap_Traversal, Pair_Compaction, Node_Compaction (aivm_vm_node.c,
    aivm_vm_node_gc.c and the pair collector of aivm_vm.c): scratch pairs and nodes, the mark phases and the
    collectors. What a program can see of a value to a given depth is its view; \<open>reach\<close> is the
    reachability a collector has to respect. Marking is stated once as a locale and
    interpreted for the stack of pairs and the queue of nodes. Shown: marks are reachability; a collection
    keeps the views of all roots and exactly the reachable entries, and succeeds when memory is there.
    A collector asks for several blocks; one function of the size answers all requests of one call.
  \<^item> String_Intern, Relocation, String_Compaction, Bytes_Arena, Node_Arena (aivm_vm_string_copy.c,
    aivm_vm_arena.c, aivm_vm_node_arena.c and the string collector of aivm_vm.c): the interning index, the
    compactions of the string and bytes arenas, growth of the node arenas. A pointer that was not moved
    when its block is released becomes a pointer into freed memory. The loops over the roots and pairs are
    a locale with a step of relocation; texts and bytes are its interpretations.
  \<^item> Safe_Point (aivm_vm.c): the safe points that run the collectors one after the other. The contract of
    a collector is a locale; the four compactions and their sequences are interpretations.
  \<^item> String_Copy (aivm_vm_arena.c, aivm_vm_string_copy.c): allocation in the string arena, which grows,
    compacts or fails, and the copies of texts. Shown: a copy stores the text and keeps what a program can see.
  \<^item> Heap_Machine, Bytes_Instructions, Number_Format, String_Instructions (aivm_vm.c): the instructions for pairs,
    bytes and strings on the machine with its heap; \<open>format_g15\<close> is the C library's \<^verbatim>\<open>%.15g\<close>. The offset cache compares
    the address of a text, so it is kept with the block the address lies in. \<open>gives\<close> says that an instruction
    replaced its operands by a value with a given view and kept all else a program can see, or that the machine
    failed. Shown: each instruction computes the abstract operation on the views of its operands.
  \<^item> Node_Create, Node_Builder, Node_Instructions (aivm_vm_node_create.c, aivm_vm_node_builder.c, aivm_vm.c): creation of a
    node, which reads its texts, reserves room for them, grows or collects the node arenas and writes the record; the builders
    that collect attributes and children outside the arenas; the instructions that read and make nodes and the node of the
    process arguments. The children are read from an array of the caller, which is a function of the machine because the
    array of a builder is renumbered while the creation still reads it. A pointer that the code keeps over a creation is
    of no use when its block has been replaced; reading through it is \<open>None\<close>. Shown: reading answers what the
    view of a node shows; making and appending leave a node with the given parts and keep all else; a builder becomes
    a node with its children in order. Children are safe as long as the string arena has room for the new texts,
    which is a hypothesis where there are children.
  \<^item> Worker_Scheduler (aivm_worker_scheduler.c): the task table and the worker threads. A thread runs
    between lock and unlock without interruption; every other interleaving is a step. Shown: limits,
    completion of all queued tasks in the order of submission, termination of destruction, admission
    as a credit counter.
  \<^item> Remote_Channel, Remote_Session, Remote_Transport, Ws_Frame (src/src/remote): message codecs over
    explicit buffers, handshake and calls, transports, WebSocket frames.

  Sizes are natural numbers with the wrap-around or the check of the code written out; hashes, masks,
  bytes and fields are words; integers of programs are unbounded with the 64-bit range checked where C
  leaves it.

  Not modelled: the instructions for system calls, tasks and workers, which enter \<open>execute\<close> as an argument; the worker task
  tables and the runtime around the scheduler, which hand whole machines to threads; the command line, the package manager, the user
  interface hosts, the examples and the native bridge, which are input and output around the machine.
\<close>

end
